(* ===== verification/NC_Prelude.thy ===== *)
theory NC_Prelude
  imports Main "HOL-Library.Word"
begin

text \<open>
  Shared by every theory of the development: the numeric codes of \<open>include/netcdf.h\<close> and
  \<open>include/nc3internal.h\<close> (status codes, external types, mode and state flags), the
  arithmetic of the LP64 build (\<open>size_t\<close>, \<open>off_t\<close> and \<open>long long\<close> are 64 bits wide,
  \<open>int\<close> is 32), and the type \<open>run\<close> of the result of a C function that may fail an
  \<open>assert\<close> or touch memory it does not own. A C array that is written by index is a list;
  reading or writing outside of it is \<open>Fault\<close>.
\<close>

named_theorems nc_defs "definitions of operations, unfolded by the case analysis of a call"

subsection \<open>Results of C functions\<close>

text \<open>
  \<open>Done a\<close>: the function returned \<open>a\<close>. \<open>Fault\<close>: an assertion failed, or memory was
  touched that is not there. \<open>Loop\<close>: the function does not return.
\<close>

datatype 'a run = Done 'a | Fault | Loop

definition run_bind :: "'a run \<Rightarrow> ('a \<Rightarrow> 'b run) \<Rightarrow> 'b run" where
  "run_bind m f = (case m of Done a \<Rightarrow> f a | Fault \<Rightarrow> Fault | Loop \<Rightarrow> Loop)"

lemma run_bind_simps [simp]:
  "run_bind (Done a) f = f a"
  "run_bind Fault f = Fault"
  "run_bind Loop f = Loop"
  by (simp_all add: run_bind_def)

lemma run_bind_Done: "run_bind m f = Done b \<longleftrightarrow> (\<exists>a. m = Done a \<and> f a = Done b)"
  by (cases m) simp_all

lemma run_bind_assoc: "run_bind (run_bind m f) g = run_bind m (\<lambda>a. run_bind (f a) g)"
  by (cases m) simp_all

text \<open>\<open>assert(b)\<close> of the C sources.\<close>

definition assert_run :: "bool \<Rightarrow> 'a run \<Rightarrow> 'a run" where
  "assert_run b m = (if b then m else Fault)"

lemma assert_run_simps [simp]:
  "b \<Longrightarrow> assert_run b m = m"
  "\<not> b \<Longrightarrow> assert_run b m = Fault"
  by (simp_all add: assert_run_def)

subsection \<open>Arrays\<close>

definition peek :: "'a list \<Rightarrow> nat \<Rightarrow> 'a run" where
  "peek xs i = (if i < length xs then Done (xs ! i) else Fault)"

definition poke :: "'a list \<Rightarrow> nat \<Rightarrow> 'a \<Rightarrow> 'a list run" where
  "poke xs i v = (if i < length xs then Done (xs[i := v]) else Fault)"

lemma peek_in [simp]: "i < length xs \<Longrightarrow> peek xs i = Done (xs ! i)"
  by (simp add: peek_def)

lemma poke_in [simp]: "i < length xs \<Longrightarrow> poke xs i v = Done (xs[i := v])"
  by (simp add: poke_def)

text \<open>\<open>memcpy (dst + i, src, length src)\<close>, for a destination that is large enough.\<close>

definition blit :: "'a list \<Rightarrow> nat \<Rightarrow> 'a list \<Rightarrow> 'a list" where
  "blit dst i src = take i dst @ src @ drop (i + length src) dst"

lemma length_blit [simp]: "i + length src \<le> length dst \<Longrightarrow> length (blit dst i src) = length dst"
  by (simp add: blit_def)

lemma blit_Nil [simp]: "blit dst i [] = dst"
  by (simp add: blit_def)

lemma take_blit: "i + length src \<le> length dst \<Longrightarrow> take (i + length src) (blit dst i src) = take i dst @ src"
  by (simp add: blit_def)

lemma take_blit_before: "j \<le> i \<Longrightarrow> i + length src \<le> length dst \<Longrightarrow> take j (blit dst i src) = take j dst"
  by (simp add: blit_def min_def)

lemma drop_blit_after:
  "i + length src \<le> j \<Longrightarrow> i + length src \<le> length dst \<Longrightarrow> drop j (blit dst i src) = drop j dst"
  by (simp add: blit_def)

lemma blit_blit:
  assumes "i + length xs + length ys \<le> length dst"
  shows "blit (blit dst i xs) (i + length xs) ys = blit dst i (xs @ ys)"
proof -
  have "take (i + length xs) (blit dst i xs) = take i dst @ xs"
    using assms by (intro take_blit) simp
  moreover have "drop (i + length xs + length ys) (blit dst i xs) = drop (i + length xs + length ys) dst"
    using assms by (intro drop_blit_after) simp_all
  ultimately show ?thesis by (simp add: blit_def add.assoc)
qed

lemma take_list_update_last:
  "n < length xs \<Longrightarrow> take (Suc n) (xs[n := v]) = take n xs @ [v]"
  by (simp add: take_Suc_conv_app_nth)

lemma drop_list_update_before: "n < m \<Longrightarrow> drop m (xs[n := v]) = drop m xs"
  by (simp add: drop_update_cancel)

subsection \<open>Fixed-width integers\<close>

definition u32 :: "int \<Rightarrow> int" where "u32 x = x mod 4294967296"
definition u64 :: "int \<Rightarrow> int" where "u64 x = x mod 18446744073709551616"
definition s64 :: "int \<Rightarrow> int" where
  "s64 x = (x + 9223372036854775808) mod 18446744073709551616 - 9223372036854775808"

definition s32 :: "int \<Rightarrow> int" where
  "s32 x = (x + 2147483648) mod 4294967296 - 2147483648"

lemma s32_id: "- 2147483648 \<le> x \<Longrightarrow> x < 2147483648 \<Longrightarrow> s32 x = x"
  by (simp add: s32_def)

lemma s32_mod: "s32 (x mod 4294967296) = s32 x"
  by (simp add: s32_def mod_add_left_eq)

lemma u32_id: "0 \<le> x \<Longrightarrow> x < 4294967296 \<Longrightarrow> u32 x = x"
  by (simp add: u32_def)

lemma u64_id: "0 \<le> x \<Longrightarrow> x < 18446744073709551616 \<Longrightarrow> u64 x = x"
  by (simp add: u64_def)

lemma s64_id: "- 9223372036854775808 \<le> x \<Longrightarrow> x < 9223372036854775808 \<Longrightarrow> s64 x = x"
  by (simp add: s64_def)

lemma s64_bounds: "- 9223372036854775808 \<le> s64 x" "s64 x < 9223372036854775808"
  by (simp_all add: s64_def)

lemma u64_bounds [simp]: "0 \<le> u64 x" "u64 x < 18446744073709551616"
  by (simp_all add: u64_def)

lemma div_less_mult: "0 < (E::int) \<Longrightarrow> r < q * E \<Longrightarrow> r div E < q"
  by (metis div_mod_decomp_int linorder_not_less mult_right_mono order_less_imp_le pos_mod_sign add_increasing2 order.trans leD)

text \<open>\<open>_RNDUP(x, unit)\<close> of \<open>include/rnd.h\<close>, on non-negative operands.\<close>

definition RNDUP :: "nat \<Rightarrow> nat \<Rightarrow> nat" where
  "RNDUP x unit = ((x + unit - 1) div unit) * unit"

lemma RNDUP_4: "RNDUP x 4 = x + (3 - (x + 3) mod 4)"
  unfolding RNDUP_def by presburger

lemma RNDUP_4_ge: "x \<le> RNDUP x 4"
  by (simp add: RNDUP_4)

lemma RNDUP_0 [simp]: "RNDUP 0 4 = 0"
  by (simp add: RNDUP_def)

subsection \<open>Status codes\<close>

abbreviation (input) "NC_NOERR \<equiv> (0::int)"
abbreviation (input) "NC_EBADID \<equiv> (-33::int)"
abbreviation (input) "NC_EINVAL \<equiv> (-36::int)"
abbreviation (input) "NC_EPERM \<equiv> (-37::int)"
abbreviation (input) "NC_ENOTINDEFINE \<equiv> (-38::int)"
abbreviation (input) "NC_EINDEFINE \<equiv> (-39::int)"
abbreviation (input) "NC_EINVALCOORDS \<equiv> (-40::int)"
abbreviation (input) "NC_EMAXDIMS \<equiv> (-41::int)"
abbreviation (input) "NC_ENAMEINUSE \<equiv> (-42::int)"
abbreviation (input) "NC_ENOTATT \<equiv> (-43::int)"
abbreviation (input) "NC_EBADTYPE \<equiv> (-45::int)"
abbreviation (input) "NC_EBADDIM \<equiv> (-46::int)"
abbreviation (input) "NC_EUNLIMPOS \<equiv> (-47::int)"
abbreviation (input) "NC_ENOTVAR \<equiv> (-49::int)"
abbreviation (input) "NC_EGLOBAL \<equiv> (-50::int)"
abbreviation (input) "NC_ENOTNC \<equiv> (-51::int)"
abbreviation (input) "NC_EMAXNAME \<equiv> (-53::int)"
abbreviation (input) "NC_EUNLIMIT \<equiv> (-54::int)"
abbreviation (input) "NC_ECHAR \<equiv> (-56::int)"
abbreviation (input) "NC_EEDGE \<equiv> (-57::int)"
abbreviation (input) "NC_ESTRIDE \<equiv> (-58::int)"
abbreviation (input) "NC_EBADNAME \<equiv> (-59::int)"
abbreviation (input) "NC_ERANGE \<equiv> (-60::int)"
abbreviation (input) "NC_ENOMEM \<equiv> (-61::int)"
abbreviation (input) "NC_EVARSIZE \<equiv> (-62::int)"
abbreviation (input) "NC_EDIMSIZE \<equiv> (-63::int)"
abbreviation (input) "NC_EMAPTYPE \<equiv> (-121::int)"
abbreviation (input) "NC_EINMEMORY \<equiv> (-135::int)"
abbreviation (input) "EPERM \<equiv> (1::int)"
abbreviation (input) "EINVAL \<equiv> (22::int)"

subsection \<open>External types and flags\<close>

abbreviation (input) "NC_BYTE \<equiv> (1::int)"
abbreviation (input) "NC_CHAR \<equiv> (2::int)"
abbreviation (input) "NC_SHORT \<equiv> (3::int)"
abbreviation (input) "NC_INT \<equiv> (4::int)"
abbreviation (input) "NC_FLOAT \<equiv> (5::int)"
abbreviation (input) "NC_DOUBLE \<equiv> (6::int)"
abbreviation (input) "NC_UBYTE \<equiv> (7::int)"
abbreviation (input) "NC_USHORT \<equiv> (8::int)"
abbreviation (input) "NC_UINT \<equiv> (9::int)"
abbreviation (input) "NC_INT64 \<equiv> (10::int)"
abbreviation (input) "NC_UINT64 \<equiv> (11::int)"
abbreviation (input) "NC_STRING \<equiv> (12::int)"

abbreviation (input) "NC_UNLIMITED \<equiv> (0::int)"
abbreviation (input) "NC_GLOBAL \<equiv> (-1::int)"
abbreviation (input) "NC_MAX_NAME \<equiv> (256::nat)"
abbreviation (input) "NC_MAX_VAR_DIMS \<equiv> (1024::int)"
abbreviation (input) "NC_ARRAY_GROWBY \<equiv> (4::nat)"

abbreviation (input) "X_INT_MAX \<equiv> (2147483647::int)"
abbreviation (input) "X_UINT_MAX \<equiv> (4294967295::int)"
abbreviation (input) "X_INT64_MAX \<equiv> (9223372036854775807::int)"
abbreviation (input) "X_UINT64_MAX \<equiv> (18446744073709551615::int)"
abbreviation (input) "X_OFF_MAX \<equiv> (2147483647::int)"
abbreviation (input) "OFF_T_MAX \<equiv> (9223372036854775807::int)"

end
