(* ===== verification/NC_List.thy ===== *)
theory NC_List
  imports NC_Prelude "HOL-Library.Sublist"
begin

text \<open>
  \<open>libdispatch/nclist.c\<close>: the growable list of \<open>void*\<close> used all over the library. A
  \<open>void*\<close> is \<open>'a option\<close> (\<open>None\<close> is NULL) and a \<open>NClist*\<close> is \<open>'a NClist option\<close>.
  \<open>nl_content\<close> is the allocated block, all of its slots, or \<open>None\<close> for a NULL
  pointer. \<open>mem n\<close> says whether \<open>calloc(n, sizeof(void*))\<close> succeeds. A slot index that a
  live block can have is far below \<open>2^64\<close>, so sums of lengths are natural numbers; only the
  caller's \<open>index + 1\<close> of \<open>nclistset\<close> can wrap.
\<close>

record 'a NClist =
  nl_alloc :: nat
  nl_length :: nat
  nl_content :: "'a option list option"

abbreviation DEFAULTALLOC :: nat where "DEFAULTALLOC \<equiv> 16"

definition nclistnew :: "'a NClist" where
  "nclistnew = \<lparr>nl_alloc = 0, nl_length = 0, nl_content = None\<rparr>"

text \<open>Access through the \<open>content\<close> pointer: NULL and out-of-block accesses are faults.\<close>

definition nl_peek :: "'a NClist \<Rightarrow> nat \<Rightarrow> 'a option run" where
  "nl_peek l i = (case nl_content l of None \<Rightarrow> Fault | Some c \<Rightarrow> peek c i)"

definition nl_poke :: "'a NClist \<Rightarrow> nat \<Rightarrow> 'a option \<Rightarrow> 'a NClist run" where
  "nl_poke l i v = (case nl_content l of None \<Rightarrow> Fault
     | Some c \<Rightarrow> run_bind (poke c i v) (\<lambda>c'. Done (l\<lparr>nl_content := Some c'\<rparr>)))"

definition nclistlength :: "'a NClist option \<Rightarrow> nat" where
  "nclistlength p = (case p of None \<Rightarrow> 0 | Some l \<Rightarrow> nl_length l)"

definition nclistsetalloc :: "(nat \<Rightarrow> bool) \<Rightarrow> 'a NClist option \<Rightarrow> nat \<Rightarrow> bool \<times> 'a NClist option" where
  "nclistsetalloc mem p sz0 = (case p of None \<Rightarrow> (False, None) | Some l \<Rightarrow>
     (let sz = (if sz0 = 0 then (if nl_length l \<noteq> 0 then 2 * nl_length l else DEFAULTALLOC) else sz0)
      in if sz \<le> nl_alloc l then (True, Some l)
         else let newcontent = (if mem sz then Some (replicate sz None) else None);
                  newcontent' = (case (newcontent, nl_content l) of
                      (Some n, Some c) \<Rightarrow>
                        if 0 < nl_alloc l \<and> 0 < nl_length l then Some (blit n 0 (take (nl_length l) c))
                        else Some n
                    | _ \<Rightarrow> newcontent)
              in (True, Some (l\<lparr>nl_content := newcontent', nl_alloc := sz\<rparr>))))"

text \<open>\<open>memset\<close> of the slots \<open>[from, from + n)\<close> to NULL.\<close>

definition nl_clear :: "'a NClist \<Rightarrow> nat \<Rightarrow> nat \<Rightarrow> 'a NClist run" where
  "nl_clear l from n = (case nl_content l of None \<Rightarrow> Fault
     | Some c \<Rightarrow> if from + n \<le> length c
         then Done (l\<lparr>nl_content := Some (blit c from (replicate n None))\<rparr>) else Fault)"

definition nclistsetlength :: "(nat \<Rightarrow> bool) \<Rightarrow> 'a NClist option \<Rightarrow> nat \<Rightarrow> (bool \<times> 'a NClist option) run" where
  "nclistsetlength mem p newlen = (case p of None \<Rightarrow> Done (False, None) | Some l \<Rightarrow>
     (let (ok, p') = (if nl_alloc l < newlen then nclistsetalloc mem (Some l) newlen else (True, Some l))
      in case p' of None \<Rightarrow> Done (False, None) | Some l' \<Rightarrow>
        if \<not> ok then Done (False, Some l')
        else run_bind (if nl_length l' < newlen then nl_clear l' (nl_length l') (newlen - nl_length l')
                       else Done l')
               (\<lambda>l''. Done (True, Some (l''\<lparr>nl_length := newlen\<rparr>)))))"

definition nclistget :: "'a NClist option \<Rightarrow> nat \<Rightarrow> 'a option run" where
  "nclistget p index = (case p of None \<Rightarrow> Done None | Some l \<Rightarrow>
     if nl_length l = 0 then Done None
     else if nl_length l \<le> index then Done None
     else nl_peek l index)"

definition nclistset ::
  "(nat \<Rightarrow> bool) \<Rightarrow> 'a NClist option \<Rightarrow> nat \<Rightarrow> 'a option \<Rightarrow> (bool \<times> 'a NClist option) run" where
  "nclistset mem p index elem = (case p of None \<Rightarrow> Done (False, None) | Some l \<Rightarrow>
     (let n = (index + 1) mod 18446744073709551616; (ok, p1) = nclistsetalloc mem (Some l) n
      in if \<not> ok then Done (False, p1)
         else run_bind (if nl_length l \<le> index then nclistsetlength mem p1 n else Done (True, p1))
           (\<lambda>(ok2, p2). if \<not> ok2 then Done (False, p2)
             else case p2 of None \<Rightarrow> Fault
               | Some l2 \<Rightarrow> run_bind (nl_poke l2 index elem) (\<lambda>l3. Done (True, Some l3)))))"

text \<open>\<open>for(i = length; i > index; i--) content[i] = content[i-1];\<close>\<close>

fun nl_shift_up :: "'a NClist \<Rightarrow> nat \<Rightarrow> nat \<Rightarrow> 'a NClist run" where
  "nl_shift_up l index 0 = Done l"
| "nl_shift_up l index (Suc i) = (if index < Suc i
     then run_bind (nl_peek l i) (\<lambda>v. run_bind (nl_poke l (Suc i) v) (\<lambda>l'. nl_shift_up l' index i))
     else Done l)"

definition nclistinsert ::
  "(nat \<Rightarrow> bool) \<Rightarrow> 'a NClist option \<Rightarrow> nat \<Rightarrow> 'a option \<Rightarrow> (bool \<times> 'a NClist option) run" where
  "nclistinsert mem p index elem = (case p of None \<Rightarrow> Done (False, None) | Some l \<Rightarrow>
     if nl_length l < index then Done (False, Some l)
     else case snd (nclistsetalloc mem (Some l) 0) of None \<Rightarrow> Fault
       | Some l1 \<Rightarrow> run_bind (nl_shift_up l1 index (nl_length l1))
           (\<lambda>l2. run_bind (nl_poke l2 index elem)
             (\<lambda>l3. Done (True, Some (l3\<lparr>nl_length := nl_length l3 + 1\<rparr>)))))"

definition nclistpush ::
  "(nat \<Rightarrow> bool) \<Rightarrow> 'a NClist option \<Rightarrow> 'a option \<Rightarrow> (bool \<times> 'a NClist option) run" where
  "nclistpush mem p elem = (case p of None \<Rightarrow> Done (False, None) | Some l \<Rightarrow>
     (case (if nl_alloc l \<le> nl_length l then snd (nclistsetalloc mem (Some l) 0) else Some l) of
        None \<Rightarrow> Fault
      | Some l1 \<Rightarrow> run_bind (nl_poke l1 (nl_length l1) elem)
          (\<lambda>l2. Done (True, Some (l2\<lparr>nl_length := nl_length l2 + 1\<rparr>)))))"

definition nclistpop :: "'a NClist option \<Rightarrow> ('a option \<times> 'a NClist option) run" where
  "nclistpop p = (case p of None \<Rightarrow> Done (None, None) | Some l \<Rightarrow>
     if nl_length l = 0 then Done (None, Some l)
     else let l' = l\<lparr>nl_length := nl_length l - 1\<rparr>
          in run_bind (nl_peek l' (nl_length l')) (\<lambda>v. Done (v, Some l')))"

definition nclisttop :: "'a NClist option \<Rightarrow> 'a option run" where
  "nclisttop p = (case p of None \<Rightarrow> Done None | Some l \<Rightarrow>
     if nl_length l = 0 then Done None else nl_peek l (nl_length l - 1))"

text \<open>\<open>for(; i < len; i++) content[i-1] = content[i];\<close> for \<open>i \<ge> 1\<close>, \<open>n = len - i\<close> rounds.\<close>

fun nl_shift_down :: "'a NClist \<Rightarrow> nat \<Rightarrow> nat \<Rightarrow> 'a NClist run" where
  "nl_shift_down l i 0 = Done l"
| "nl_shift_down l i (Suc n) =
     run_bind (nl_peek l i) (\<lambda>v. run_bind (nl_poke l (i - 1) v) (\<lambda>l'. nl_shift_down l' (Suc i) n))"

definition nclistremove :: "'a NClist option \<Rightarrow> nat \<Rightarrow> ('a option \<times> 'a NClist option) run" where
  "nclistremove p i = (case p of None \<Rightarrow> Done (None, None) | Some l \<Rightarrow>
     let len = nl_length l in
     if len = 0 then Done (None, Some l)
     else if len \<le> i then Done (None, Some l)
     else run_bind (nl_peek l i) (\<lambda>elem. run_bind (nl_shift_down l (i + 1) (len - (i + 1)))
            (\<lambda>l'. Done (elem, Some (l'\<lparr>nl_length := nl_length l' - 1\<rparr>)))))"

text \<open>The duplicate of the content: a block of \<open>length + 1\<close> slots, the last one NULL.\<close>

definition nclistdup :: "'a NClist \<Rightarrow> 'a option list run" where
  "nclistdup l = (if nl_length l = 0 then Done [None]
     else case nl_content l of None \<Rightarrow> Fault
       | Some c \<Rightarrow> if nl_length l \<le> length c then Done (take (nl_length l) c @ [None]) else Fault)"

fun nl_contains_from :: "'a NClist option \<Rightarrow> 'a option \<Rightarrow> nat \<Rightarrow> nat \<Rightarrow> bool run" where
  "nl_contains_from p elem i 0 = Done False"
| "nl_contains_from p elem i (Suc n) = run_bind (nclistget p i)
     (\<lambda>v. if elem = v then Done True else nl_contains_from p elem (Suc i) n)"

definition nclistcontains :: "'a NClist option \<Rightarrow> 'a option \<Rightarrow> bool run" where
  "nclistcontains p elem = nl_contains_from p elem 0 (nclistlength p)"

fun nl_elemremove_from :: "'a NClist \<Rightarrow> 'a option \<Rightarrow> nat \<Rightarrow> nat \<Rightarrow> (bool \<times> 'a NClist) run" where
  "nl_elemremove_from l elem i 0 = Done (False, l)"
| "nl_elemremove_from l elem i (Suc n) = run_bind (nl_peek l i)
     (\<lambda>candidate. if elem = candidate
        then run_bind (nl_shift_down l (i + 1) (nl_length l - (i + 1)))
               (\<lambda>l'. Done (True, l'\<lparr>nl_length := nl_length l' - 1\<rparr>))
        else nl_elemremove_from l elem (Suc i) n)"

definition nclistelemremove :: "'a NClist option \<Rightarrow> 'a option \<Rightarrow> (bool \<times> 'a NClist option) run" where
  "nclistelemremove p elem = (case p of None \<Rightarrow> Done (False, None) | Some l \<Rightarrow>
     if nl_length l = 0 then Done (False, Some l)
     else run_bind (nl_elemremove_from l elem 0 (nl_length l)) (\<lambda>(found, l'). Done (found, Some l')))"

text \<open>
  \<open>nclistunique\<close>: the two loops of the source, with \<open>len\<close> decremented in place by the inner
  one. The outer loop gets fuel; running out of it would be \<open>Fault\<close>, and
  \<open>nclistunique_Some\<close> below shows that \<open>len\<close> rounds are enough.
\<close>

function nl_unique_j :: "'a NClist \<Rightarrow> nat \<Rightarrow> nat \<Rightarrow> nat \<Rightarrow> (nat \<times> 'a NClist) run" where
  "nl_unique_j l i j len = (if j < len then
     run_bind (nl_peek l i) (\<lambda>x. run_bind (nl_peek l j) (\<lambda>y.
       if x = y then run_bind (nl_shift_down l (j + 1) (len - (j + 1)))
            (\<lambda>l'. nl_unique_j l' i (Suc j) (len - 1))
       else nl_unique_j l i (Suc j) len))
     else Done (len, l))"
  by pat_completeness auto
termination
  by (relation "measure (\<lambda>(l, i, j, len). len - j)") auto

declare nl_unique_j.simps [simp del]

fun nl_unique_i :: "nat \<Rightarrow> 'a NClist \<Rightarrow> nat \<Rightarrow> nat \<Rightarrow> (nat \<times> 'a NClist) run" where
  "nl_unique_i 0 l i len = (if i < len then Fault else Done (len, l))"
| "nl_unique_i (Suc fuel) l i len = (if i < len then
     run_bind (nl_unique_j l i (i + 1) len) (\<lambda>(len', l'). nl_unique_i fuel l' (Suc i) len')
     else Done (len, l))"

definition nclistunique :: "'a NClist option \<Rightarrow> (bool \<times> 'a NClist option) run" where
  "nclistunique p = (case p of None \<Rightarrow> Done (True, None) | Some l \<Rightarrow>
     if nl_length l = 0 then Done (True, Some l)
     else run_bind (nl_unique_i (nl_length l) l 0 (nl_length l))
            (\<lambda>(len, l'). Done (True, Some (l'\<lparr>nl_length := len\<rparr>))))"

definition nclistclone :: "'a NClist \<Rightarrow> 'a NClist run" where
  "nclistclone l = run_bind (nclistdup l) (\<lambda>c. Done (l\<lparr>nl_content := Some c\<rparr>))"

definition nclistextract :: "'a NClist \<Rightarrow> 'a option list option \<times> 'a NClist" where
  "nclistextract l = (nl_content l, l\<lparr>nl_alloc := 0, nl_length := 0, nl_content := None\<rparr>)"

subsection \<open>Invariant and abstraction\<close>

definition nl_wf :: "'a NClist \<Rightarrow> bool" where
  "nl_wf l = (case nl_content l of None \<Rightarrow> nl_alloc l = 0 \<and> nl_length l = 0
     | Some c \<Rightarrow> length c = nl_alloc l \<and> nl_length l \<le> nl_alloc l)"

definition nl_abs :: "'a NClist \<Rightarrow> 'a option list" where
  "nl_abs l = (case nl_content l of None \<Rightarrow> [] | Some c \<Rightarrow> take (nl_length l) c)"

lemma nl_wf_Some: "nl_content l = Some c \<Longrightarrow> nl_wf l \<longleftrightarrow> length c = nl_alloc l \<and> nl_length l \<le> nl_alloc l"
  by (simp add: nl_wf_def)

lemma nl_wf_nonempty: "nl_wf l \<Longrightarrow> 0 < nl_alloc l \<Longrightarrow> \<exists>c. nl_content l = Some c"
  by (auto simp: nl_wf_def split: option.splits)

lemma length_nl_abs [simp]: "nl_wf l \<Longrightarrow> length (nl_abs l) = nl_length l"
  by (auto simp: nl_wf_def nl_abs_def split: option.splits)

lemma nl_abs_Nil_iff: "nl_wf l \<Longrightarrow> nl_abs l = [] \<longleftrightarrow> nl_length l = 0"
  by (metis length_0_conv length_nl_abs)

lemma nl_wf_new [simp]: "nl_wf nclistnew" "nl_abs nclistnew = []"
  by (simp_all add: nl_wf_def nl_abs_def nclistnew_def)

lemma nl_peek_Done: "nl_wf l \<Longrightarrow> i < nl_length l \<Longrightarrow> nl_peek l i = Done (nl_abs l ! i)"
  by (auto simp: nl_wf_def nl_abs_def nl_peek_def peek_def split: option.splits)

text \<open>After \<open>nclistsetalloc\<close> there is room, and the list is what it was.\<close>

lemma nclistsetalloc_Some:
  assumes "nl_wf l" "\<forall>n. mem n"
  obtains l' where "nclistsetalloc mem (Some l) sz = (True, Some l')" "nl_wf l'"
    "nl_abs l' = nl_abs l" "nl_length l' = nl_length l" "sz \<le> nl_alloc l'"
    "sz = 0 \<Longrightarrow> nl_length l < nl_alloc l'" "nl_alloc l \<le> nl_alloc l'"
proof -
  let ?sz = "if sz = 0 then if nl_length l \<noteq> 0 then 2 * nl_length l else DEFAULTALLOC else sz"
  show ?thesis
  proof (cases "?sz \<le> nl_alloc l")
    case True
    show ?thesis
      by (rule that [of l]) (use True assms in \<open>auto simp: nclistsetalloc_def Let_def split: if_splits\<close>)
  next
    case False
    show ?thesis
    proof (cases "nl_content l")
      case None
      then show ?thesis using False assms
        by (intro that [of "l\<lparr>nl_content := Some (replicate ?sz None), nl_alloc := ?sz\<rparr>"])
          (auto simp: nclistsetalloc_def Let_def nl_wf_def nl_abs_def)
    next
      case (Some c)
      let ?n = "replicate ?sz None :: 'a option list"
      let ?c = "if 0 < nl_alloc l \<and> 0 < nl_length l then blit ?n 0 (take (nl_length l) c) else ?n"
      have len: "length ?c = ?sz"
        using False assms(1) nl_wf_Some [OF Some] by (auto simp: min_def blit_def split: if_splits)
      moreover have "take (nl_length l) ?c = take (nl_length l) c"
        using Some assms(1) by (auto simp: nl_wf_Some blit_def)
      ultimately show ?thesis using Some False assms
        by (intro that [of "l\<lparr>nl_content := Some ?c, nl_alloc := ?sz\<rparr>"])
          (auto simp: nclistsetalloc_def Let_def nl_wf_def nl_abs_def)
    qed
  qed
qed

lemma nl_shift_up_eq:
  "\<lbrakk> nl_content l = Some c; idx \<le> n; n < length c \<rbrakk> \<Longrightarrow>
   nl_shift_up l idx n = Done (l\<lparr>nl_content := Some
     (map (\<lambda>j. if idx < j \<and> j \<le> n then c ! (j - 1) else c ! j) [0..<length c])\<rparr>)"
proof (induction n arbitrary: l c)
  case 0
  then have "map (\<lambda>j. if idx < j \<and> j \<le> 0 then c ! (j - 1) else c ! j) [0..<length c] = c"
    by (intro nth_equalityI) auto
  with 0 show ?case by simp
next
  case (Suc i)
  show ?case
  proof (cases "idx < Suc i")
    case True
    let ?c = "c[Suc i := c ! i]"
    from Suc.prems True have "nl_shift_up l idx (Suc i) = nl_shift_up (l\<lparr>nl_content := Some ?c\<rparr>) idx i"
      by (simp add: nl_peek_def nl_poke_def)
    also have "\<dots> = Done (l\<lparr>nl_content := Some
        (map (\<lambda>j. if idx < j \<and> j \<le> i then ?c ! (j - 1) else ?c ! j) [0..<length ?c])\<rparr>)"
      using Suc.prems True by (subst Suc.IH [of _ ?c]) simp_all
    also have "map (\<lambda>j. if idx < j \<and> j \<le> i then ?c ! (j - 1) else ?c ! j) [0..<length ?c] =
        map (\<lambda>j. if idx < j \<and> j \<le> Suc i then c ! (j - 1) else c ! j) [0..<length c]"
      using True Suc.prems by (intro nth_equalityI) (auto simp: nth_list_update le_Suc_eq)
    finally show ?thesis .
  next
    case False
    with Suc.prems have "idx = Suc i" by simp
    moreover have "map (\<lambda>j. if idx < j \<and> j \<le> Suc i then c ! (j - 1) else c ! j) [0..<length c] = c"
      using False by (intro nth_equalityI) auto
    ultimately show ?thesis using Suc.prems by simp
  qed
qed

lemma nl_shift_down_eq:
  "\<lbrakk> nl_content l = Some c; 0 < i; i + n \<le> length c \<rbrakk> \<Longrightarrow>
   nl_shift_down l i n = Done (l\<lparr>nl_content := Some
     (map (\<lambda>j. if i - 1 \<le> j \<and> j < i - 1 + n then c ! Suc j else c ! j) [0..<length c])\<rparr>)"
proof (induction n arbitrary: l c i)
  case 0
  then have "map (\<lambda>j. if i - 1 \<le> j \<and> j < i - 1 + 0 then c ! Suc j else c ! j) [0..<length c] = c"
    by (intro nth_equalityI) auto
  with 0 show ?case by simp
next
  case (Suc n)
  let ?c = "c[i - 1 := c ! i]"
  from Suc.prems have "nl_shift_down l i (Suc n) = nl_shift_down (l\<lparr>nl_content := Some ?c\<rparr>) (Suc i) n"
    by (simp add: nl_peek_def nl_poke_def)
  also have "\<dots> = Done (l\<lparr>nl_content := Some
      (map (\<lambda>j. if Suc i - 1 \<le> j \<and> j < Suc i - 1 + n then ?c ! Suc j else ?c ! j) [0..<length ?c])\<rparr>)"
    using Suc.prems by (subst Suc.IH [of _ ?c]) simp_all
  also have "map (\<lambda>j. if Suc i - 1 \<le> j \<and> j < Suc i - 1 + n then ?c ! Suc j else ?c ! j) [0..<length ?c] =
      map (\<lambda>j. if i - 1 \<le> j \<and> j < i - 1 + Suc n then c ! Suc j else c ! j) [0..<length c]"
    using Suc.prems by (intro nth_equalityI) (auto simp: nth_list_update)
  finally show ?case .
qed

subsection \<open>The operations on the abstraction\<close>

lemma nl_wf_obtain:
  assumes "nl_wf l" "0 < nl_alloc l"
  obtains c where "nl_content l = Some c" "length c = nl_alloc l" "nl_length l \<le> length c"
    "nl_abs l = take (nl_length l) c"
  using assms by (auto simp: nl_wf_def nl_abs_def split: option.splits)

lemma nclistpush_Some:
  assumes wf: "nl_wf l" and mem: "\<forall>n. mem n"
  obtains l' where "nclistpush mem (Some l) e = Done (True, Some l')" "nl_wf l'"
    "nl_abs l' = nl_abs l @ [e]"
proof -
  obtain l1 where l1: "(if nl_alloc l \<le> nl_length l then snd (nclistsetalloc mem (Some l) 0) else Some l) = Some l1"
      "nl_wf l1" "nl_abs l1 = nl_abs l" "nl_length l1 = nl_length l" "nl_length l < nl_alloc l1"
    by (cases "nl_alloc l \<le> nl_length l", rule nclistsetalloc_Some [OF wf mem, where sz = 0]) (use wf in auto)
  then obtain c where c: "nl_content l1 = Some c" "length c = nl_alloc l1" "nl_abs l1 = take (nl_length l1) c"
    by (auto elim!: nl_wf_obtain)
  show ?thesis
    by (rule that [of "l1\<lparr>nl_content := Some (c[nl_length l1 := e]), nl_length := nl_length l1 + 1\<rparr>"])
      (use l1 c in \<open>auto simp: nclistpush_def nl_poke_def nl_wf_def nl_abs_def take_list_update_last\<close>)
qed

lemma nclistpop_Some:
  assumes wf: "nl_wf l"
  shows "nclistpop (Some l) = (if nl_abs l = [] then Done (None, Some l)
    else Done (last (nl_abs l), Some (l\<lparr>nl_length := nl_length l - 1\<rparr>)))"
    and "nl_wf (l\<lparr>nl_length := nl_length l - 1\<rparr>)"
    and "nl_abs (l\<lparr>nl_length := nl_length l - 1\<rparr>) = butlast (nl_abs l)"
proof -
  have len: "length (nl_abs l) = nl_length l" using wf by simp
  show wf': "nl_wf (l\<lparr>nl_length := nl_length l - 1\<rparr>)"
    using wf by (auto simp: nl_wf_def split: option.splits)
  show "nl_abs (l\<lparr>nl_length := nl_length l - 1\<rparr>) = butlast (nl_abs l)"
    using wf by (auto simp: nl_wf_def nl_abs_def butlast_take split: option.splits)
  show "nclistpop (Some l) = (if nl_abs l = [] then Done (None, Some l)
    else Done (last (nl_abs l), Some (l\<lparr>nl_length := nl_length l - 1\<rparr>)))"
  proof (cases "nl_abs l = []")
    case True
    with len show ?thesis by (auto simp: nclistpop_def)
  next
    case False
    with len have pos: "0 < nl_length l" by (metis length_greater_0_conv)
    have "nl_peek (l\<lparr>nl_length := nl_length l - 1\<rparr>) (nl_length l - 1) = nl_peek l (nl_length l - 1)"
      by (simp add: nl_peek_def)
    with pos wf len False show ?thesis
      by (auto simp: nclistpop_def Let_def nl_peek_Done last_conv_nth)
  qed
qed

lemma nclisttop_Some:
  "nl_wf l \<Longrightarrow> nclisttop (Some l) = Done (if nl_abs l = [] then None else last (nl_abs l))"
  by (auto simp: nclisttop_def nl_peek_Done last_conv_nth dest: length_nl_abs)

lemma nclistget_Some:
  "nl_wf l \<Longrightarrow> nclistget (Some l) i = Done (if i < length (nl_abs l) then nl_abs l ! i else None)"
  by (auto simp: nclistget_def nl_peek_Done)

lemma nclistinsert_Some:
  assumes wf: "nl_wf l" and mem: "\<forall>n. mem n"
  shows "nl_length l < i \<Longrightarrow> nclistinsert mem (Some l) i e = Done (False, Some l)"
    and "i \<le> nl_length l \<Longrightarrow> \<exists>l'. nclistinsert mem (Some l) i e = Done (True, Some l') \<and> nl_wf l' \<and>
           nl_abs l' = take i (nl_abs l) @ e # drop i (nl_abs l)"
proof -
  show "nl_length l < i \<Longrightarrow> nclistinsert mem (Some l) i e = Done (False, Some l)"
    by (simp add: nclistinsert_def)
  assume i: "i \<le> nl_length l"
  obtain l1 where l1: "nclistsetalloc mem (Some l) 0 = (True, Some l1)" "nl_wf l1"
      "nl_abs l1 = nl_abs l" "nl_length l1 = nl_length l" "nl_length l < nl_alloc l1"
    by (rule nclistsetalloc_Some [OF wf mem, where sz = 0]) auto
  then obtain c where c: "nl_content l1 = Some c" "length c = nl_alloc l1" "nl_abs l1 = take (nl_length l1) c"
    by (auto elim!: nl_wf_obtain)
  let ?n = "nl_length l"
  let ?c = "map (\<lambda>j. if i < j \<and> j \<le> ?n then c ! (j - 1) else c ! j) [0..<length c]"
  let ?l = "l1\<lparr>nl_content := Some (?c[i := e]), nl_length := ?n + 1\<rparr>"
  have "nl_shift_up l1 i ?n = Done (l1\<lparr>nl_content := Some ?c\<rparr>)"
    using c i l1 by (intro nl_shift_up_eq) simp_all
  then have "nclistinsert mem (Some l) i e = Done (True, Some ?l)"
    using i l1 c by (simp add: nclistinsert_def nl_poke_def)
  moreover have "nl_wf ?l" using l1 c by (simp add: nl_wf_def)
  moreover have "nl_abs ?l = take i (nl_abs l) @ e # drop i (nl_abs l)"
  proof (rule nth_equalityI)
    have abs: "nl_abs ?l = take (?n + 1) (?c[i := e])" by (simp add: nl_abs_def)
    show len: "length (nl_abs ?l) = length (take i (nl_abs l) @ e # drop i (nl_abs l))"
      unfolding abs using l1 c i wf by simp
    fix j assume j: "j < length (nl_abs ?l)"
    then have "j \<le> ?n" using len i wf by simp
    moreover have "nl_abs l = take ?n c" using l1 c by simp
    ultimately show "nl_abs ?l ! j = (take i (nl_abs l) @ e # drop i (nl_abs l)) ! j"
      unfolding abs using l1 c i by (auto simp: nth_append nth_list_update nth_Cons')
  qed
  ultimately show "\<exists>l'. nclistinsert mem (Some l) i e = Done (True, Some l') \<and> nl_wf l' \<and>
      nl_abs l' = take i (nl_abs l) @ e # drop i (nl_abs l)" by blast
qed

text \<open>One compression step of \<open>nclistremove\<close> and \<open>nclistunique\<close>, with the length kept apart.\<close>

definition drop_at :: "nat \<Rightarrow> 'a list \<Rightarrow> 'a list" where
  "drop_at j xs = take j xs @ drop (Suc j) xs"

lemma nl_shift_down_abs:
  assumes wf: "nl_wf (l\<lparr>nl_length := len\<rparr>)" and i: "i < len"
  shows "\<exists>l'. nl_shift_down l (i + 1) (len - (i + 1)) = Done l' \<and> nl_length l' = nl_length l \<and>
    nl_wf (l'\<lparr>nl_length := len - 1\<rparr>) \<and>
    nl_abs (l'\<lparr>nl_length := len - 1\<rparr>) = drop_at i (nl_abs (l\<lparr>nl_length := len\<rparr>))"
proof -
  obtain c where c: "nl_content l = Some c" "length c = nl_alloc l" "len \<le> length c"
      "nl_abs (l\<lparr>nl_length := len\<rparr>) = take len c"
    using wf i by (auto simp: nl_wf_def nl_abs_def split: option.splits)
  let ?c = "map (\<lambda>j. if i \<le> j \<and> j < i + (len - (i + 1)) then c ! Suc j else c ! j) [0..<length c]"
  let ?l = "l\<lparr>nl_content := Some ?c\<rparr>"
  have "nl_shift_down l (i + 1) (len - (i + 1)) = Done ?l"
    using c i by (subst nl_shift_down_eq [of _ c]) simp_all
  moreover have "nl_wf (?l\<lparr>nl_length := len - 1\<rparr>)" using c by (simp add: nl_wf_def)
  moreover have "take (len - 1) ?c = drop_at i (take len c)"
    using c i by (intro nth_equalityI) (auto simp: drop_at_def nth_append min_def split: if_splits)
  ultimately show ?thesis using c by (auto simp: nl_abs_def)
qed

lemma nclistremove_Some:
  assumes wf: "nl_wf l"
  shows "nl_length l \<le> i \<Longrightarrow> nclistremove (Some l) i = Done (None, Some l)"
    and "i < nl_length l \<Longrightarrow> \<exists>l'. nclistremove (Some l) i = Done (nl_abs l ! i, Some l') \<and> nl_wf l' \<and>
           nl_abs l' = drop_at i (nl_abs l)"
proof -
  show "nl_length l \<le> i \<Longrightarrow> nclistremove (Some l) i = Done (None, Some l)"
    by (simp add: nclistremove_def Let_def)
  assume i: "i < nl_length l"
  with nl_shift_down_abs [where l = l and len = "nl_length l" and i = i] wf obtain l' where
    "nl_shift_down l (i + 1) (nl_length l - (i + 1)) = Done l'" "nl_length l' = nl_length l"
    "nl_wf (l'\<lparr>nl_length := nl_length l - 1\<rparr>)"
    "nl_abs (l'\<lparr>nl_length := nl_length l - 1\<rparr>) = drop_at i (nl_abs l)" by auto
  with i wf show "\<exists>l'. nclistremove (Some l) i = Done (nl_abs l ! i, Some l') \<and> nl_wf l' \<and>
      nl_abs l' = drop_at i (nl_abs l)"
    by (auto simp: nclistremove_def Let_def nl_peek_Done)
qed

lemma nclistset_Some:
  assumes wf: "nl_wf l" and mem: "\<forall>n. mem n" and i: "i + 1 < 18446744073709551616"
  obtains l' where "nclistset mem (Some l) i e = Done (True, Some l')" "nl_wf l'"
    "nl_abs l' = (if i < nl_length l then (nl_abs l)[i := e]
                  else nl_abs l @ replicate (i - nl_length l) None @ [e])"
proof -
  obtain l1 where l1: "nclistsetalloc mem (Some l) (i + 1) = (True, Some l1)" "nl_wf l1"
      "nl_abs l1 = nl_abs l" "nl_length l1 = nl_length l" "i + 1 \<le> nl_alloc l1"
    by (rule nclistsetalloc_Some [OF wf mem, where sz = "i + 1"]) auto
  then obtain c where c: "nl_content l1 = Some c" "length c = nl_alloc l1" "nl_length l1 \<le> length c"
      "nl_abs l1 = take (nl_length l1) c"
    by (auto elim!: nl_wf_obtain)
  show ?thesis
  proof (cases "i < nl_length l")
    case True
    then show ?thesis using l1 c i
      by (intro that [of "l1\<lparr>nl_content := Some (c[i := e])\<rparr>"])
        (auto simp: nclistset_def Let_def nl_poke_def nl_wf_def nl_abs_def take_update_swap)
  next
    case False
    let ?n = "nl_length l"
    let ?c = "blit c ?n (replicate (i + 1 - ?n) None)"
    have c': "length ?c = length c" "take (i + 1) ?c = nl_abs l @ replicate (i + 1 - ?n) None"
      using l1 c False take_blit [of ?n "replicate (i + 1 - ?n) None" c] by simp_all
    have upd: "take (i + 1) (?c[i := e]) = (nl_abs l @ replicate (i + 1 - ?n) None)[i := e]"
      using c' by (simp add: take_update_swap)
    also have "\<dots> = nl_abs l @ replicate (i - ?n) None @ [e]"
      using False wf by (auto simp: list_update_append Suc_diff_le replicate_append_same [symmetric]
          list_update_append simp del: replicate_append_same)
    finally show ?thesis using l1 c c' i False
      by (intro that [of "l1\<lparr>nl_content := Some (?c[i := e]), nl_length := i + 1\<rparr>"])
        (auto simp: nclistset_def nclistsetlength_def Let_def nl_clear_def nl_poke_def nl_wf_def nl_abs_def)
  qed
qed

lemma nl_contains_from_eq:
  "nl_wf l \<Longrightarrow> i + n = nl_length l \<Longrightarrow>
   nl_contains_from (Some l) e i n = Done (e \<in> set (drop i (nl_abs l)))"
proof (induction n arbitrary: i)
  case 0
  then show ?case by simp
next
  case (Suc n)
  then have "drop i (nl_abs l) = nl_abs l ! i # drop (Suc i) (nl_abs l)"
    by (simp add: Cons_nth_drop_Suc)
  with Suc show ?case by (auto simp: nclistget_Some)
qed

lemma nclistcontains_Some: "nl_wf l \<Longrightarrow> nclistcontains (Some l) e = Done (e \<in> set (nl_abs l))"
  by (simp add: nclistcontains_def nclistlength_def nl_contains_from_eq)

lemma nl_elemremove_from_eq:
  assumes wf: "nl_wf l"
  shows "i + n = nl_length l \<Longrightarrow> e \<notin> set (take i (nl_abs l)) \<Longrightarrow>
   \<exists>l'. nl_elemremove_from l e i n = Done (e \<in> set (nl_abs l), l') \<and> nl_wf l' \<and>
     nl_abs l' = remove1 e (nl_abs l)"
proof (induction n arbitrary: i)
  case 0
  with wf show ?case by (auto simp: remove1_idem)
next
  case (Suc n)
  then have i: "i < nl_length l" by simp
  have split: "nl_abs l = take i (nl_abs l) @ nl_abs l ! i # drop (Suc i) (nl_abs l)"
    using i wf by (simp add: id_take_nth_drop)
  show ?case
  proof (cases "e = nl_abs l ! i")
    case True
    obtain l' where l': "nclistremove (Some l) i = Done (nl_abs l ! i, Some l')" "nl_wf l'"
        "nl_abs l' = drop_at i (nl_abs l)"
      using nclistremove_Some(2) [OF wf i] by blast
    then have "nl_elemremove_from l e i (Suc n) = Done (True, l')"
      using i wf True by (auto simp: nclistremove_def Let_def nl_peek_Done run_bind_Done)
    moreover have "remove1 e (nl_abs l) = drop_at i (nl_abs l)"
      using Suc.prems(2) True by (subst split) (simp add: remove1_append drop_at_def)
    moreover have "e \<in> set (nl_abs l)" using True i wf by simp
    ultimately show ?thesis using l' by auto
  next
    case False
    then have "e \<notin> set (take (Suc i) (nl_abs l))"
      using Suc.prems i wf by (simp add: take_Suc_conv_app_nth)
    with Suc.IH [of "Suc i"] Suc.prems have "\<exists>l'. nl_elemremove_from l e (Suc i) n = Done (e \<in> set (nl_abs l), l') \<and>
        nl_wf l' \<and> nl_abs l' = remove1 e (nl_abs l)" by simp
    with False i wf show ?thesis by (simp add: nl_peek_Done)
  qed
qed

lemma nclistelemremove_Some:
  assumes "nl_wf l"
  shows "\<exists>l'. nclistelemremove (Some l) e = Done (e \<in> set (nl_abs l), Some l') \<and> nl_wf l' \<and>
    nl_abs l' = remove1 e (nl_abs l)"
proof (cases "nl_length l = 0")
  case True
  with assms have "nl_abs l = []" by (simp add: nl_abs_Nil_iff)
  with True assms show ?thesis by (simp add: nclistelemremove_def)
next
  case False
  with nl_elemremove_from_eq [OF assms, of 0 "nl_length l" e] show ?thesis
    by (auto simp: nclistelemremove_def)
qed


subsection \<open>\<open>nclistunique\<close>: what it keeps\<close>

text \<open>
  Every value survives, in the order of the list; not every duplicate goes: after a
  compression the inner loop moves on to \<open>j + 1\<close> without looking at the element that has
  just moved into slot \<open>j\<close>.
\<close>

lemma drop_at_props:
  assumes "i < j" "j < length xs" "xs ! i = xs ! j"
  shows "set (drop_at j xs) = set xs" "subseq (drop_at j xs) xs"
proof -
  have split: "xs = take j xs @ xs ! j # drop (Suc j) xs"
    using assms(2) by (simp add: id_take_nth_drop)
  have "xs ! j \<in> set (take j xs)"
    using assms by (metis in_set_conv_nth length_take min.absorb4 nth_take)
  then show "set (drop_at j xs) = set xs"
    by (subst (2) split) (auto simp: drop_at_def)
  have "subseq (take j xs @ drop (Suc j) xs) (take j xs @ xs ! j # drop (Suc j) xs)"
    by (intro list_emb_append_mono) auto
  then show "subseq (drop_at j xs) xs"
    by (simp add: drop_at_def split [symmetric])
qed

definition nl_reduced :: "'a NClist \<Rightarrow> nat \<Rightarrow> 'a NClist \<Rightarrow> nat \<Rightarrow> bool" where
  "nl_reduced l' len' l len \<longleftrightarrow> len' \<le> len \<and> nl_wf (l'\<lparr>nl_length := len'\<rparr>) \<and>
     subseq (nl_abs (l'\<lparr>nl_length := len'\<rparr>)) (nl_abs (l\<lparr>nl_length := len\<rparr>)) \<and>
     set (nl_abs (l'\<lparr>nl_length := len'\<rparr>)) = set (nl_abs (l\<lparr>nl_length := len\<rparr>))"

lemma nl_reduced_trans: "nl_reduced l2 n2 l1 n1 \<Longrightarrow> nl_reduced l1 n1 l n \<Longrightarrow> nl_reduced l2 n2 l n"
  by (auto simp: nl_reduced_def intro: subseq_order.trans)

lemma nl_reduced_refl: "nl_wf (l\<lparr>nl_length := n\<rparr>) \<Longrightarrow> nl_reduced l n l n"
  by (simp add: nl_reduced_def)

lemma nl_peek_len: "nl_wf (l\<lparr>nl_length := n\<rparr>) \<Longrightarrow> i < n \<Longrightarrow> nl_peek l i = Done (nl_abs (l\<lparr>nl_length := n\<rparr>) ! i)"
  using nl_peek_Done [of "l\<lparr>nl_length := n\<rparr>" i] by (simp add: nl_peek_def)

lemma nl_unique_j_Done:
  "nl_wf (l\<lparr>nl_length := len\<rparr>) \<Longrightarrow> i < j \<Longrightarrow>
   \<exists>len' l'. nl_unique_j l i j len = Done (len', l') \<and> nl_reduced l' len' l len"
proof (induction l i j len rule: nl_unique_j.induct)
  case (1 l i j len)
  let ?xs = "nl_abs (l\<lparr>nl_length := len\<rparr>)"
  show ?case
  proof (cases "j < len")
    case False
    with 1 show ?thesis by (simp add: nl_unique_j.simps [of l i j len] nl_reduced_refl)
  next
    case True
    note pk = nl_peek_len [OF "1.prems"(1) True] nl_peek_len [OF "1.prems"(1) less_trans [OF "1.prems"(2) True]]
    show ?thesis
    proof (cases "?xs ! i = ?xs ! j")
      case eq: True
      from nl_shift_down_abs [OF "1.prems"(1) True] obtain l1 where
        l1: "nl_shift_down l (j + 1) (len - (j + 1)) = Done l1" "nl_wf (l1\<lparr>nl_length := len - 1\<rparr>)"
          "nl_abs (l1\<lparr>nl_length := len - 1\<rparr>) = drop_at j ?xs" by blast
      have red: "nl_reduced l1 (len - 1) l len"
        using l1 drop_at_props [of i j ?xs] "1.prems" True eq by (auto simp: nl_reduced_def)
      from "1.IH"(1) [OF True _ l1(2)] eq "1.prems" obtain len' l' where
        "nl_unique_j l1 i (Suc j) (len - 1) = Done (len', l')" "nl_reduced l' len' l1 (len - 1)" by fastforce
      with True eq pk l1(1) red show ?thesis
        by (auto simp: nl_unique_j.simps [of l i j len] intro: nl_reduced_trans)
    next
      case ne: False
      with "1.IH"(2) [OF True _ "1.prems"(1)] "1.prems" True pk show ?thesis
        by (auto simp: nl_unique_j.simps [of l i j len])
    qed
  qed
qed

lemma nl_unique_i_Done:
  "nl_wf (l\<lparr>nl_length := len\<rparr>) \<Longrightarrow> len \<le> i + fuel \<Longrightarrow>
   \<exists>len' l'. nl_unique_i fuel l i len = Done (len', l') \<and> nl_reduced l' len' l len"
proof (induction fuel arbitrary: l i len)
  case 0
  then show ?case by (simp add: nl_reduced_refl)
next
  case (Suc fuel)
  show ?case
  proof (cases "i < len")
    case True
    obtain len1 l1 where l1: "nl_unique_j l i (i + 1) len = Done (len1, l1)" "nl_reduced l1 len1 l len"
      using nl_unique_j_Done [OF Suc.prems(1), where i = i and j = "i + 1"] by auto
    then obtain len' l' where "nl_unique_i fuel l1 (Suc i) len1 = Done (len', l')" "nl_reduced l' len' l1 len1"
      using Suc.IH [where l = l1 and len = len1 and i = "Suc i"] Suc.prems(2) by (auto simp: nl_reduced_def)
    with l1 True show ?thesis by (auto intro: nl_reduced_trans)
  next
    case False
    with Suc.prems show ?thesis by (simp add: nl_reduced_refl)
  qed
qed

lemma nclistunique_Some:
  assumes "nl_wf l"
  shows "\<exists>l'. nclistunique (Some l) = Done (True, Some l') \<and> nl_wf l' \<and>
    subseq (nl_abs l') (nl_abs l) \<and> set (nl_abs l') = set (nl_abs l)"
proof (cases "nl_length l = 0")
  case True
  with assms show ?thesis by (auto simp: nclistunique_def)
next
  case False
  from nl_unique_i_Done [where l = l and len = "nl_length l" and i = 0 and fuel = "nl_length l"] assms obtain len' l' where
    "nl_unique_i (nl_length l) l 0 (nl_length l) = Done (len', l')" "nl_reduced l' len' l (nl_length l)" by auto
  with False show ?thesis by (auto simp: nclistunique_def nl_reduced_def)
qed

subsection \<open>The stack interface\<close>

text \<open>
  Most clients use the list as a stack: they push, look at the top and pop. The interface they
  rely on, with the laws over the abstract content.
\<close>

fun push_all :: "('s \<Rightarrow> 'v \<Rightarrow> (bool \<times> 's option) run) \<Rightarrow> 's \<Rightarrow> 'v list \<Rightarrow> 's run" where
  "push_all push s [] = Done s"
| "push_all push s (v # vs) = run_bind (push s v)
     (\<lambda>(ok, p). case p of Some s' \<Rightarrow> if ok then push_all push s' vs else Fault | None \<Rightarrow> Fault)"

fun pop_n :: "('s \<Rightarrow> ('v \<times> 's option) run) \<Rightarrow> 's \<Rightarrow> nat \<Rightarrow> ('v list \<times> 's) run" where
  "pop_n pop s 0 = Done ([], s)"
| "pop_n pop s (Suc n) = run_bind (pop s)
     (\<lambda>(v, p). case p of Some s' \<Rightarrow> run_bind (pop_n pop s' n) (\<lambda>(vs, s''). Done (v # vs, s'')) | None \<Rightarrow> Fault)"

locale ptr_stack =
  fixes inv :: "'s \<Rightarrow> bool"
    and content :: "'s \<Rightarrow> 'v list"
    and push :: "'s \<Rightarrow> 'v \<Rightarrow> (bool \<times> 's option) run"
    and pop :: "'s \<Rightarrow> ('v \<times> 's option) run"
  assumes push_law: "inv s \<Longrightarrow> \<exists>s'. push s v = Done (True, Some s') \<and> inv s' \<and> content s' = content s @ [v]"
    and pop_law: "inv s \<Longrightarrow> content s \<noteq> [] \<Longrightarrow>
      \<exists>s'. pop s = Done (last (content s), Some s') \<and> inv s' \<and> content s' = butlast (content s)"
begin

lemma push_all_content:
  "inv s \<Longrightarrow> \<exists>s'. push_all push s vs = Done s' \<and> inv s' \<and> content s' = content s @ vs"
proof (induction vs arbitrary: s)
  case Nil
  then show ?case by simp
next
  case (Cons v vs)
  obtain s1 where s1: "push s v = Done (True, Some s1)" "inv s1" "content s1 = content s @ [v]"
    using push_law [OF Cons.prems] by blast
  obtain s2 where "push_all push s1 vs = Done s2" "inv s2" "content s2 = content s1 @ vs"
    using Cons.IH [OF s1(2)] by blast
  with s1 show ?case by simp
qed

lemma pop_n_content:
  "inv s \<Longrightarrow> content s = xs @ vs \<Longrightarrow>
   \<exists>s'. pop_n pop s (length vs) = Done (rev vs, s') \<and> inv s' \<and> content s' = xs"
proof (induction vs arbitrary: s rule: rev_induct)
  case Nil
  then show ?case by simp
next
  case (snoc v vs)
  obtain s1 where s1: "pop s = Done (v, Some s1)" "inv s1" "content s1 = xs @ vs"
    using pop_law [OF snoc.prems(1)] snoc.prems(2) by (auto simp: butlast_append)
  obtain s2 where "pop_n pop s1 (length vs) = Done (rev vs, s2)" "inv s2" "content s2 = xs"
    using snoc.IH [OF s1(2,3)] by blast
  with s1 show ?case by simp
qed

lemma lifo:
  assumes "inv s"
  shows "\<exists>s1 s2. push_all push s vs = Done s1 \<and> pop_n pop s1 (length vs) = Done (rev vs, s2) \<and>
    inv s2 \<and> content s2 = content s"
  using push_all_content [OF assms, of vs] pop_n_content by blast

end

interpretation nl: ptr_stack nl_wf nl_abs "\<lambda>l. nclistpush (\<lambda>_. True) (Some l)" "\<lambda>l. nclistpop (Some l)"
proof
  fix l :: "'a NClist" and v
  assume "nl_wf l"
  then show "\<exists>l'. nclistpush (\<lambda>_. True) (Some l) v = Done (True, Some l') \<and> nl_wf l' \<and> nl_abs l' = nl_abs l @ [v]"
    by (rule nclistpush_Some [where mem = "\<lambda>_. True" and e = v]) auto
next
  fix l :: "'a NClist"
  assume "nl_wf l" "nl_abs l \<noteq> []"
  then show "\<exists>l'. nclistpop (Some l) = Done (last (nl_abs l), Some l') \<and> nl_wf l' \<and> nl_abs l' = butlast (nl_abs l)"
    using nclistpop_Some by fastforce
qed

subsection \<open>Properties\<close>

text \<open>values pushed on a list come back from the same number of pops in reverse order, and
  the list is then what it was.\<close>

theorem nclist_lifo:
  assumes "nl_wf l"
  shows "\<exists>l1 l2. push_all (\<lambda>l. nclistpush (\<lambda>_. True) (Some l)) l vs = Done l1 \<and>
    pop_n (\<lambda>l. nclistpop (Some l)) l1 (length vs) = Done (rev vs, l2) \<and> nl_wf l2 \<and> nl_abs l2 = nl_abs l"
  by (rule nl.lifo [OF assms])

theorem nclist_lifo_witness:
  "\<exists>l1 l2. push_all (\<lambda>l. nclistpush (\<lambda>_. True) (Some l)) nclistnew [Some (1::nat), None, Some 2] = Done l1 \<and>
    pop_n (\<lambda>l. nclistpop (Some l)) l1 3 = Done ([Some 2, None, Some 1], l2) \<and> nl_wf l2 \<and> nl_abs l2 = []"
  using nclist_lifo [OF nl_wf_new(1), of "[Some (1::nat), None, Some 2]"]
  by (simp add: numeral_3_eq_3 del: push_all.simps pop_n.simps)

text \<open>\<open>nclistinsert\<close> refuses an index beyond the length and otherwise puts the value in
  front of the element at that index, and \<open>nclistremove\<close> at the same index undoes it.\<close>

theorem nclistinsert_remove:
  assumes "nl_wf l" "i \<le> nl_length l" "\<forall>n. mem n"
  shows "\<exists>l1 l2. nclistinsert mem (Some l) i e = Done (True, Some l1) \<and>
    nl_abs l1 = take i (nl_abs l) @ e # drop i (nl_abs l) \<and>
    nclistremove (Some l1) i = Done (e, Some l2) \<and> nl_abs l2 = nl_abs l"
proof -
  obtain l1 where l1: "nclistinsert mem (Some l) i e = Done (True, Some l1)" "nl_wf l1"
      "nl_abs l1 = take i (nl_abs l) @ e # drop i (nl_abs l)"
    using nclistinsert_Some(2) [OF assms(1,3,2)] by blast
  have i: "i < nl_length l1" "nl_abs l1 ! i = e" "drop_at i (nl_abs l1) = nl_abs l"
    using l1(2,3) assms(1,2) length_nl_abs [OF l1(2)] by (simp_all add: nth_append drop_at_def)
  with nclistremove_Some(2) [OF l1(2) i(1)] l1 show ?thesis by auto
qed

theorem nclistinsert_remove_witness:
  "\<exists>l1 l2. nclistinsert (\<lambda>_. True) (Some nclistnew) 0 (Some (7::nat)) = Done (True, Some l1) \<and>
    nl_abs l1 = [Some 7] \<and> nclistremove (Some l1) 0 = Done (Some 7, Some l2) \<and> nl_abs l2 = []"
  using nclistinsert_remove [of "nclistnew :: nat NClist" 0 "\<lambda>_. True" "Some 7"] by simp

text \<open>\<open>nclistunique\<close> never loses a value and never reorders: its result is a subsequence
  of the list with the same set of values.\<close>

theorem nclistunique_keeps_values:
  assumes "nl_wf l"
  shows "\<exists>l'. nclistunique (Some l) = Done (True, Some l') \<and> nl_wf l' \<and>
    subseq (nl_abs l') (nl_abs l) \<and> set (nl_abs l') = set (nl_abs l)"
  by (rule nclistunique_Some [OF assms])

abbreviation three_equal :: "nat NClist" where
  "three_equal \<equiv> \<lparr>nl_alloc = 3, nl_length = 3, nl_content = Some [Some 5, Some 5, Some 5]\<rparr>"

theorem nclistunique_keeps_values_witness:
  "\<exists>l'. nclistunique (Some three_equal) = Done (True, Some l') \<and> nl_wf l' \<and>
    subseq (nl_abs l') [Some 5, Some 5, Some 5] \<and> set (nl_abs l') = {Some 5}"
  using nclistunique_keeps_values [of three_equal] by (simp add: nl_wf_def nl_abs_def)

text \<open>\<open>nclistunique\<close> does not remove all duplicates: of three equal values in a row, two are
  left.\<close>

theorem nclistunique_leaves_duplicates:
  "nclistunique (Some three_equal) = Done (True, Some (three_equal\<lparr>nl_length := 2\<rparr>))"
  by (simp add: nclistunique_def nl_unique_j.simps nl_peek_def nl_poke_def numeral_eq_Suc peek_def poke_def)

text \<open>a clone is given a block of \<open>length + 1\<close> slots but keeps the \<open>alloc\<close> of the original,
  so the second push on the clone of a one-element list writes outside of its block.\<close>

theorem nclistclone_push_overflows:
  "\<exists>l1 c c1. nclistpush (\<lambda>_. True) (Some nclistnew) (Some (1::nat)) = Done (True, Some l1) \<and>
     nclistclone l1 = Done c \<and> nclistpush (\<lambda>_. True) (Some c) (Some 2) = Done (True, Some c1) \<and>
     nclistpush (\<lambda>_. True) (Some c1) (Some 3) = Fault"
  by (simp add: nclistpush_def nclistsetalloc_def nclistnew_def nclistclone_def nclistdup_def
      nl_poke_def poke_def Let_def)

end
