(* ===== verification/NC_Primes.thy ===== *)
theory NC_Primes
  imports NC_Prelude
begin

text \<open>
  The table sizes of \<open>libdispatch/nchashmap.c\<close>: the list \<open>NC_primes\<close> and the binary search
  \<open>findPrimeGreaterThan\<close> over it. The search is exact up to 180497, the last but one listed
  prime, and does not end for a greater argument below 0xFFFFFFFF.
\<close>

subsection \<open>The prime table\<close>

text \<open>
  \<open>NC_primes\<close> of the source is a literal of 16386 numbers: a leading 0, the primes up to
  180503 in order, and 0xFFFFFFFF. It is written here by what it lists.
\<close>

definition is_prime :: "nat \<Rightarrow> bool" where
  "is_prime n \<longleftrightarrow> 2 \<le> n \<and> (\<forall>d \<in> set [2..<n]. \<not> d dvd n)"

definition primes_below :: "nat \<Rightarrow> nat list" where
  "primes_below n = filter is_prime [2..<n]"

definition NC_primes :: "nat list" where
  "NC_primes = 0 # primes_below 180504 @ [4294967295]"

text \<open>The \<open>for(;;)\<close> of \<open>findPrimeGreaterThan\<close>; \<open>None\<close> is a loop that does not end.\<close>

partial_function (option) prime_search :: "nat list \<Rightarrow> nat \<Rightarrow> nat \<Rightarrow> nat \<Rightarrow> nat option" where
  "prime_search primes v L R = (if R \<le> L then Some 0
     else let m = (L + R) div 2
     in if primes ! (m - 1) < v \<and> v \<le> primes ! m then Some (primes ! m)
        else if v \<le> primes ! (m - 1) then prime_search primes v L m
        else if primes ! m < v then prime_search primes v m R
        else prime_search primes v L R)"

definition findPrimeGreaterThan :: "nat \<Rightarrow> nat run" where
  "findPrimeGreaterThan val = (if 4294967295 \<le> val then Done 0
     else case prime_search NC_primes val 1 (length NC_primes - 2) of None \<Rightarrow> Loop | Some q \<Rightarrow> Done q)"

subsection \<open>The search for a prime\<close>

lemma prime_search_found:
  assumes asc: "\<And>i j. i < j \<Longrightarrow> j < length p \<Longrightarrow> p ! i < p ! j"
    and a: "p ! (a - 1) < v" "v \<le> p ! a"
  shows "1 \<le> L \<Longrightarrow> L \<le> a \<Longrightarrow> a < R \<Longrightarrow> R \<le> length p \<Longrightarrow> prime_search p v L R = Some (p ! a)"
proof -
  have asc_le: "p ! i \<le> p ! j" if "i \<le> j" "j < length p" for i j
    using asc [of i j] that by (cases "i = j") (simp_all add: less_imp_le)
  show "1 \<le> L \<Longrightarrow> L \<le> a \<Longrightarrow> a < R \<Longrightarrow> R \<le> length p \<Longrightarrow> prime_search p v L R = Some (p ! a)"
  proof (induction "R - L" arbitrary: L R rule: less_induct)
  case less
  let ?m = "(L + R) div 2"
  have m: "L \<le> ?m" "?m < R" "1 \<le> ?m" using less.prems by auto
  consider "?m = a" | "a < ?m" | "?m < a" by linarith
  then show ?case
  proof cases
    case 1
    with a m less.prems show ?thesis by (subst prime_search.simps) (simp add: Let_def)
  next
    case 2
    then have "p ! a \<le> p ! (?m - 1)"
      using asc_le [of a "?m - 1"] m less.prems by simp
    with a have ge: "v \<le> p ! (?m - 1)" by linarith
    have "prime_search p v L ?m = Some (p ! a)"
      using 2 m less.prems by (intro less.hyps) auto
    with ge m less.prems show ?thesis by (subst prime_search.simps) (simp add: Let_def)
  next
    case 3
    then have "p ! ?m \<le> p ! (a - 1)"
      using asc_le [of ?m "a - 1"] less.prems by simp
    with a have lt: "p ! ?m < v" by linarith
    moreover have "p ! (?m - 1) < p ! ?m" using asc [of "?m - 1" ?m] m less.prems by auto
    moreover have "L < ?m" using 3 less.prems m by auto
    then have "prime_search p v ?m R = Some (p ! a)"
      using 3 m less.prems by (intro less.hyps) auto
    ultimately show ?thesis using m less.prems by (subst prime_search.simps) (simp add: Let_def)
  qed
qed
qed

text \<open>When every entry below \<open>R\<close> is too small, the lower bound moves and the loop never ends.\<close>

lemma prime_search_diverges:
  assumes "1 \<le> L" "L < R" "\<forall>m < R. p ! m < v"
  shows "prime_search p v L R = None"
proof (rule ccontr)
  assume "prime_search p v L R \<noteq> None"
  then obtain y where ret: "prime_search p v L R = Some y" by auto
  have "\<not> (1 \<le> L \<and> L < R \<and> (\<forall>m < R. p ! m < v))"
  proof (rule prime_search.raw_induct [where P = "\<lambda>p v L R y. \<not> (1 \<le> L \<and> L < R \<and> (\<forall>m < R. p ! m < v))", OF _ ret])
    fix f :: "nat list \<Rightarrow> nat \<Rightarrow> nat \<Rightarrow> nat \<Rightarrow> nat option" and p v L R y
    assume IH: "\<And>p v L R y. f p v L R = Some y \<Longrightarrow> \<not> (1 \<le> L \<and> L < R \<and> (\<forall>m < R. p ! m < v))"
      and eq: "(if R \<le> L then Some 0
         else let m = (L + R) div 2
         in if p ! (m - 1) < v \<and> v \<le> p ! m then Some (p ! m)
            else if v \<le> p ! (m - 1) then f p v L m
            else if p ! m < v then f p v m R else f p v L R) = Some y"
    show "\<not> (1 \<le> L \<and> L < R \<and> (\<forall>m < R. p ! m < v))"
    proof
      assume inv: "1 \<le> L \<and> L < R \<and> (\<forall>m < R. p ! m < v)"
      let ?m = "(L + R) div 2"
      have m: "?m < R" "1 \<le> ?m" using inv by auto
      with inv have lt: "p ! (?m - 1) < v" "p ! ?m < v" by auto
      then have "f p v ?m R = Some y" using eq inv by (simp add: Let_def)
      from IH [OF this] m inv show False by blast
    qed
  qed
  with assms show False by blast
qed

text \<open>Trial division by the odd numbers from \<open>d\<close> up to a bound.\<close>

function no_divisor :: "nat \<Rightarrow> nat \<Rightarrow> nat \<Rightarrow> bool" where
  "no_divisor n d b = (if d < b then n mod d \<noteq> 0 \<and> no_divisor n (d + 2) b else True)"
  by pat_completeness auto
termination
  by (relation "measure (\<lambda>(n, d, b). b - d)") auto

declare no_divisor.simps [simp del]

lemma no_divisor_odd:
  "no_divisor n d b \<Longrightarrow> odd d \<Longrightarrow> odd e \<Longrightarrow> d \<le> e \<Longrightarrow> e < b \<Longrightarrow> n mod e \<noteq> 0"
proof (induction n d b rule: no_divisor.induct)
  case (1 n d b)
  show ?case
  proof (cases "e = d")
    case True
    with 1 show ?thesis by (simp add: no_divisor.simps [of n d b])
  next
    case False
    with "1.prems" have "d + 2 \<le> e" by presburger
    with 1 show ?thesis by (simp add: no_divisor.simps [of n d b])
  qed
qed

lemma is_prime_trial:
  assumes "n < b * b" "odd n" "3 \<le> n" "no_divisor n 3 b"
  shows "is_prime n"
proof -
  have small: "\<not> d dvd n" if d: "2 \<le> d" "d < b" for d
  proof
    assume dvd: "d dvd n"
    with assms(2) have "odd d" by auto
    moreover from this d have "3 \<le> d" by presburger
    ultimately have "n mod d \<noteq> 0" using no_divisor_odd [OF assms(4), of d] d by simp
    with dvd show False by auto
  qed
  have "\<not> d dvd n" if d: "2 \<le> d" "d < n" for d
  proof
    assume "d dvd n"
    then obtain e where e: "n = d * e" by blast
    then have e2: "2 \<le> e" using d by (cases e, simp, cases "e - 1", simp_all)
    show False
    proof (cases "d < b")
      case True
      with small d \<open>d dvd n\<close> show False by blast
    next
      case False
      then have "e < b" using e assms(1) by (meson mult_le_mono not_less)
      with small [OF e2] e show False by simp
    qed
  qed
  with assms show "is_prime n" by (auto simp: is_prime_def)
qed

lemma is_prime_180497: "is_prime 180497" and is_prime_180503: "is_prime 180503"
  by (rule is_prime_trial [where b = 425]; simp add: no_divisor.simps)+

lemma not_prime_between: "180497 < n \<Longrightarrow> n < 180503 \<Longrightarrow> \<not> is_prime n"
proof -
  assume "180497 < n" "n < 180503"
  then have "n = 180498 \<or> n = 180499 \<or> n = 180500 \<or> n = 180501 \<or> n = 180502" by linarith
  then obtain d :: nat where "2 \<le> d" "d < n" "n mod d = 0"
  proof (elim disjE)
    assume "n = 180498" then show ?thesis by (intro that [of 2]) simp_all
  next
    assume "n = 180499" then show ?thesis by (intro that [of 11]) simp_all
  next
    assume "n = 180500" then show ?thesis by (intro that [of 2]) simp_all
  next
    assume "n = 180501" then show ?thesis by (intro that [of 3]) simp_all
  next
    assume "n = 180502" then show ?thesis by (intro that [of 2]) simp_all
  qed
  then show ?thesis unfolding is_prime_def by (metis atLeastLessThan_iff dvd_eq_mod_eq_0 set_upt)
qed

lemma primes_below_step:
  assumes "a \<le> b" "\<And>n. a \<le> n \<Longrightarrow> n < b \<Longrightarrow> \<not> is_prime n" "2 \<le> a"
  shows "primes_below b = primes_below a"
proof -
  from assms(1,3) have "[2..<b] = [2..<a] @ [a..<b]"
    by (metis le_iff_add upt_add_eq_append)
  moreover have "filter is_prime [a..<b] = []"
    using assms(2) by (auto simp: filter_empty_conv)
  ultimately show ?thesis by (simp add: primes_below_def)
qed

lemma primes_below_Suc: "2 \<le> n \<Longrightarrow> is_prime n \<Longrightarrow> primes_below (Suc n) = primes_below n @ [n]"
  by (simp add: primes_below_def)

lemma primes_split: "primes_below 180504 = primes_below 180497 @ [180497, 180503]"
proof -
  have "primes_below 180504 = primes_below 180503 @ [180503]"
    using primes_below_Suc [OF _ is_prime_180503] by simp
  also have "primes_below 180503 = primes_below 180498"
    by (rule primes_below_step) (use not_prime_between in auto)
  also have "primes_below 180498 = primes_below 180497 @ [180497]"
    using primes_below_Suc [OF _ is_prime_180497] by simp
  finally show ?thesis by simp
qed

lemma set_primes_below: "x \<in> set (primes_below n) \<longleftrightarrow> is_prime x \<and> x < n"
  by (auto simp: primes_below_def is_prime_def)

lemma sorted_primes_below: "sorted_wrt (<) (primes_below n)"
  unfolding primes_below_def by (intro sorted_wrt_filter) simp

lemma NC_primes_asc: "i < j \<Longrightarrow> j < length NC_primes \<Longrightarrow> NC_primes ! i < NC_primes ! j"
proof -
  have "\<forall>x \<in> set (primes_below 180504). 0 < x \<and> x < 4294967295"
  proof
    fix x assume "x \<in> set (primes_below 180504)"
    then have "is_prime x" "x < 180504" using set_primes_below by blast+
    then show "0 < x \<and> x < 4294967295" by (simp add: is_prime_def)
  qed
  then have "sorted_wrt (<) NC_primes"
    using sorted_primes_below [of 180504] by (simp add: NC_primes_def sorted_wrt_append)
  then show "i < j \<Longrightarrow> j < length NC_primes \<Longrightarrow> NC_primes ! i < NC_primes ! j"
    by (simp add: sorted_wrt_nth_less)
qed

text \<open>
  Up to the last but one listed prime, 180497, the search returns the least prime that is not
  smaller than the argument; beyond, up to 0xFFFFFFFE, it does not end.
\<close>

abbreviation "n_primes \<equiv> length (primes_below 180504)"

lemma NC_primes_facts:
  shows "length NC_primes = n_primes + 2" "2 \<le> n_primes"
    "NC_primes ! (n_primes - 1) = 180497" "NC_primes ! 0 = 0"
    "i < n_primes \<Longrightarrow> NC_primes ! Suc i = primes_below 180504 ! i"
proof -
  show "length NC_primes = n_primes + 2" "NC_primes ! 0 = 0" by (simp_all add: NC_primes_def)
  show k2: "2 \<le> n_primes" unfolding primes_split by simp
  show at: "NC_primes ! Suc i = primes_below 180504 ! i" if "i < n_primes" for i
    using that by (simp add: NC_primes_def nth_append)
  obtain k where k: "n_primes = Suc (Suc k)" "k = length (primes_below 180497)"
    unfolding primes_split by simp
  with at [of k] have "NC_primes ! Suc k = primes_below 180504 ! k" by simp
  also have "\<dots> = 180497" unfolding primes_split using k(2) by (simp add: nth_append)
  finally show "NC_primes ! (n_primes - 1) = 180497" using k by simp
qed

lemma findPrimeGreaterThan_Done:
  assumes "0 < v" "v \<le> 180497"
  obtains q where "findPrimeGreaterThan v = Done q" "is_prime q" "v \<le> q" "q \<le> 180497"
    "\<forall>q'. is_prime q' \<longrightarrow> v \<le> q' \<longrightarrow> q \<le> q'"
proof -
  let ?p = NC_primes and ?k = n_primes
  note len = NC_primes_facts(1) and k2 = NC_primes_facts(2) and at = NC_primes_facts(5)
  define a where "a = (LEAST i. v \<le> ?p ! i)"
  have vk: "v \<le> ?p ! (?k - 1)" using NC_primes_facts(3) assms by simp
  then have a1: "v \<le> ?p ! a" "a \<le> ?k - 1"
    unfolding a_def by (rule LeastI, rule Least_le)
  have a0: "1 \<le> a" using a1(1) assms(1) NC_primes_facts(4) by (cases a) auto
  have a2: "?p ! (a - 1) < v"
    using a0 not_less_Least [of "a - 1" "\<lambda>i. v \<le> ?p ! i"] by (simp add: a_def not_le)
  have "prime_search ?p v 1 ?k = Some (?p ! a)"
    by (rule prime_search_found [OF NC_primes_asc a2 a1(1)]) (use a0 a1 k2 len in auto)
  then have ret: "findPrimeGreaterThan v = Done (?p ! a)"
    using assms len by (simp add: findPrimeGreaterThan_def)
  obtain i where i: "a = Suc i" "i < ?k" using a0 a1 k2 by (cases a) auto
  then have "?p ! a \<in> set (primes_below 180504)" using at by simp
  then have prime: "is_prime (?p ! a)" unfolding set_primes_below by simp
  have le: "?p ! a \<le> ?p ! j" if "a \<le> j" "j < length ?p" for j
    using NC_primes_asc [of a j] that by (cases "a = j") (simp_all add: less_imp_le)
  have bound: "?p ! a \<le> 180497"
    using le [OF a1(2)] len NC_primes_facts(3) by simp
  have "?p ! a \<le> q'" if "is_prime q'" "v \<le> q'" for q'
  proof (cases "q' < 180504")
    case True
    with that have "q' \<in> set (primes_below 180504)" unfolding set_primes_below by simp
    then obtain j where j: "j < ?k" "q' = ?p ! Suc j" using at by (metis in_set_conv_nth)
    with that have "a \<le> Suc j" unfolding a_def by (intro Least_le) simp
    then show ?thesis using le j len by simp
  next
    case False
    with bound show ?thesis by simp
  qed
  with that [OF ret prime a1(1) bound] show ?thesis by blast
qed

lemma findPrimeGreaterThan_Loop:
  assumes "180497 < v" "v < 4294967295"
  shows "findPrimeGreaterThan v = Loop"
proof -
  let ?p = NC_primes and ?k = n_primes
  have "?p ! m < v" if "m < ?k" for m
  proof (cases "m = ?k - 1")
    case True
    then show ?thesis using assms(1) NC_primes_facts(3) by simp
  next
    case False
    with that have "m < ?k - 1" by simp
    then have "?p ! m < ?p ! (?k - 1)" by (rule NC_primes_asc) (use NC_primes_facts(1) in simp)
    then show ?thesis using assms(1) NC_primes_facts(3) by simp
  qed
  then have "prime_search ?p v 1 ?k = None"
    using NC_primes_facts(2) by (intro prime_search_diverges) auto
  then show ?thesis using assms NC_primes_facts(1) by (simp add: findPrimeGreaterThan_def)
qed

end
