(* ===== verification/NC_Hash.thy ===== *)
theory NC_Hash
  imports NC_Primes
begin

text \<open>
  \<open>libdispatch/nchashmap.c\<close>: the open-addressing hash table from counted strings to integers
  that indexes the dimensions and variables of a file by name. A key argument
  \<open>(key, keysize)\<close> is the list of its \<open>keysize\<close> characters; the empty list also stands for
  the NULL key, which every operation treats alike. \<open>crc\<close> is \<open>NC_crc32(0, key, keysize)\<close>, the
  function of the bundled zlib: nothing depends on which function it is. \<open>mem n\<close> says whether
  an allocation of \<open>n\<close> items succeeds. The recursion of \<open>rehash\<close> and \<open>NC_hashmapadd\<close>
  through each other has a fuel argument; running out of it is \<open>Loop\<close>, and
  \<open>NC_hashmapadd_abs\<close> shows that two levels are enough.
\<close>

datatype hflag = EMPTY | ACTIVE | DELETED

record NC_hentry =
  he_flags :: hflag
  he_data :: nat
  he_hashkey :: nat
  he_keysize :: nat
  he_key :: "string option"

record NC_hashmap =
  hm_alloc :: nat
  hm_active :: nat
  hm_table :: "NC_hentry list"

text \<open>A slot as \<open>calloc\<close> makes it.\<close>

definition empty_hentry :: NC_hentry where
  "empty_hentry = \<lparr>he_flags = EMPTY, he_data = 0, he_hashkey = 0, he_keysize = 0, he_key = None\<rparr>"

abbreviation (input) MINTABLESIZE :: nat where "MINTABLESIZE \<equiv> 131"

subsection \<open>Probing\<close>

text \<open>
  The loop of \<open>locate\<close>: \<open>n\<close> rounds from slot \<open>index\<close>, \<open>del\<close> the first deleted slot met so
  far. The result is the slot to use, if the loop returned from inside, and the deleted slot.
\<close>

fun locate_loop :: "NC_hentry list \<Rightarrow> nat \<Rightarrow> string \<Rightarrow> nat \<Rightarrow> nat \<Rightarrow> nat option \<Rightarrow> (nat option \<times> nat option) run" where
  "locate_loop table hashkey key 0 index del = Done (None, del)"
| "locate_loop table hashkey key (Suc n) index del =
     run_bind (peek table index) (\<lambda>entry.
       let next_index = (index + 1) mod length table in
       case he_flags entry of
         ACTIVE \<Rightarrow> (if he_hashkey entry = hashkey \<and> he_keysize entry = length key
           then (case he_key entry of None \<Rightarrow> Fault
             | Some k \<Rightarrow> if take (length key) k = key then Done (Some index, del)
                        else locate_loop table hashkey key n next_index del)
           else locate_loop table hashkey key n next_index del)
       | DELETED \<Rightarrow> locate_loop table hashkey key n next_index (if del = None then Some index else del)
       | EMPTY \<Rightarrow> Done (Some index, del))"

text \<open>\<open>None\<close> is the return value 0; \<open>hashkey % alloc\<close> traps on an empty table.\<close>

definition locate :: "NC_hashmap \<Rightarrow> nat \<Rightarrow> string \<Rightarrow> bool \<Rightarrow> nat option run" where
  "locate hash hashkey key deletedok = (if hm_alloc hash = 0 then Fault
     else run_bind (locate_loop (hm_table hash) hashkey key (hm_alloc hash) (hashkey mod hm_alloc hash) None)
       (\<lambda>(r, del). Done (case r of Some i \<Rightarrow> Some i
          | None \<Rightarrow> if deletedok then del else None)))"

subsection \<open>Operations\<close>

definition NC_hashmapkey :: "(string \<Rightarrow> nat) \<Rightarrow> string \<Rightarrow> nat" where
  "NC_hashmapkey crc key = crc key"

definition NC_hashmapnew :: "(nat \<Rightarrow> bool) \<Rightarrow> nat \<Rightarrow> NC_hashmap run" where
  "NC_hashmapnew mem startsize =
     run_bind (if startsize = 0 \<or> startsize < MINTABLESIZE then Done MINTABLESIZE
               else findPrimeGreaterThan (startsize * 4 mod 18446744073709551616 div 3))
       (\<lambda>n. if \<not> mem n then Fault
         else Done \<lparr>hm_alloc = n, hm_active = 0, hm_table = replicate n empty_hentry\<rparr>)"

text \<open>Filling the slot that \<open>locate\<close> chose; the second branch is a failed \<open>malloc\<close> of the key copy.\<close>

definition hm_store :: "(nat \<Rightarrow> bool) \<Rightarrow> (string \<Rightarrow> nat) \<Rightarrow> NC_hashmap \<Rightarrow> nat \<Rightarrow> nat \<Rightarrow> string \<Rightarrow> (bool \<times> NC_hashmap) run" where
  "hm_store mem crc hash index data key = run_bind (peek (hm_table hash) index) (\<lambda>entry.
     if he_flags entry = ACTIVE
     then Done (True, hash\<lparr>hm_table := (hm_table hash)[index := entry\<lparr>he_data := data\<rparr>]\<rparr>)
     else let e = \<lparr>he_flags = ACTIVE, he_data = data, he_hashkey = crc key, he_keysize = length key,
                   he_key = (if mem (length key + 1) then Some key else None)\<rparr>
          in if mem (length key + 1)
             then Done (True, hash\<lparr>hm_table := (hm_table hash)[index := e], hm_active := hm_active hash + 1\<rparr>)
             else Done (False, hash\<lparr>hm_table := (hm_table hash)[index := e]\<rparr>))"

function (sequential) rehash :: "(nat \<Rightarrow> bool) \<Rightarrow> (string \<Rightarrow> nat) \<Rightarrow> nat \<Rightarrow> NC_hashmap \<Rightarrow> NC_hashmap run"
  and hm_reinsert :: "(nat \<Rightarrow> bool) \<Rightarrow> (string \<Rightarrow> nat) \<Rightarrow> nat \<Rightarrow> NC_hentry list \<Rightarrow> NC_hashmap \<Rightarrow> NC_hashmap run"
  and NC_hashmapadd :: "(nat \<Rightarrow> bool) \<Rightarrow> (string \<Rightarrow> nat) \<Rightarrow> nat \<Rightarrow> NC_hashmap \<Rightarrow> nat \<Rightarrow> string \<Rightarrow> (bool \<times> NC_hashmap) run"
  and hm_add_loop :: "(nat \<Rightarrow> bool) \<Rightarrow> (string \<Rightarrow> nat) \<Rightarrow> nat \<Rightarrow> NC_hashmap \<Rightarrow> nat \<Rightarrow> string \<Rightarrow> (bool \<times> NC_hashmap) run"
where
  "rehash mem crc 0 hm = Loop"
| "rehash mem crc (Suc fuel) hm =
     run_bind (findPrimeGreaterThan (2 * hm_alloc hm mod 18446744073709551616)) (\<lambda>n.
       if \<not> mem n then Fault
       else hm_reinsert mem crc fuel (rev (hm_table hm))
              \<lparr>hm_alloc = n, hm_active = 0, hm_table = replicate n empty_hentry\<rparr>)"
| "hm_reinsert mem crc fuel [] hm = Done hm"
| "hm_reinsert mem crc fuel (h # hs) hm = (if he_flags h = ACTIVE
     then run_bind (NC_hashmapadd mem crc fuel hm (he_data h)
            (case he_key h of None \<Rightarrow> [] | Some k \<Rightarrow> take (he_keysize h) k))
            (\<lambda>(ok, hm'). hm_reinsert mem crc fuel hs hm')
     else hm_reinsert mem crc fuel hs hm)"
| "NC_hashmapadd mem crc fuel hash data key = (if key = [] then Done (False, hash)
     else run_bind (if hm_alloc hash * 3 div 4 \<le> hm_active hash then rehash mem crc fuel hash else Done hash)
            (\<lambda>hash1. hm_add_loop mem crc fuel hash1 data key))"
| "hm_add_loop mem crc 0 hash data key = Loop"
| "hm_add_loop mem crc (Suc fuel) hash data key =
     run_bind (locate hash (crc key) key True) (\<lambda>r. case r of
       None \<Rightarrow> run_bind (rehash mem crc fuel hash) (\<lambda>hash'. hm_add_loop mem crc fuel hash' data key)
     | Some index \<Rightarrow> hm_store mem crc hash index data key)"
  by pat_completeness auto
termination
  by (relation "measures
      [\<lambda>x. case x of Inl (Inl (mem, crc, f, hm)) \<Rightarrow> f | Inl (Inr (mem, crc, f, es, hm)) \<Rightarrow> f
           | Inr (Inl (mem, crc, f, hm, d, k)) \<Rightarrow> f | Inr (Inr (mem, crc, f, hm, d, k)) \<Rightarrow> f,
       \<lambda>x. case x of Inl (Inl (mem, crc, f, hm)) \<Rightarrow> 0 | Inl (Inr (mem, crc, f, es, hm)) \<Rightarrow> 3 + length es
           | Inr (Inl (mem, crc, f, hm, d, k)) \<Rightarrow> 2 | Inr (Inr (mem, crc, f, hm, d, k)) \<Rightarrow> 1]") auto

definition hm_delete_at :: "NC_hashmap \<Rightarrow> nat \<Rightarrow> NC_hashmap" where
  "hm_delete_at hash index = hash\<lparr>hm_table := (hm_table hash)[index :=
     (hm_table hash ! index)\<lparr>he_flags := DELETED, he_key := None, he_keysize := 0\<rparr>],
     hm_active := hm_active hash - 1\<rparr>"

text \<open>The data of a removed or found entry is the \<open>*datap\<close> of the source; \<open>None\<close> is the return value 0.\<close>

definition NC_hashmapremove :: "(string \<Rightarrow> nat) \<Rightarrow> NC_hashmap \<Rightarrow> string \<Rightarrow> (nat option \<times> NC_hashmap) run" where
  "NC_hashmapremove crc hash key = (if key = [] then Done (None, hash)
     else run_bind (locate hash (crc key) key False) (\<lambda>r. case r of
       None \<Rightarrow> Done (None, hash)
     | Some index \<Rightarrow> run_bind (peek (hm_table hash) index) (\<lambda>h.
         if he_flags h = ACTIVE then Done (Some (he_data h), hm_delete_at hash index)
         else Done (None, hash))))"

definition NC_hashmapget :: "(string \<Rightarrow> nat) \<Rightarrow> NC_hashmap \<Rightarrow> string \<Rightarrow> nat option run" where
  "NC_hashmapget crc hash key = (if key = [] then Done None
     else if hm_active hash \<noteq> 0
     then run_bind (locate hash (crc key) key False) (\<lambda>r. case r of
       None \<Rightarrow> Done None
     | Some index \<Rightarrow> run_bind (peek (hm_table hash) index) (\<lambda>h.
         if he_flags h = ACTIVE then Done (Some (he_data h)) else Done None))
     else Done None)"

definition NC_hashmapsetdata :: "(string \<Rightarrow> nat) \<Rightarrow> NC_hashmap option \<Rightarrow> string \<Rightarrow> nat \<Rightarrow> (bool \<times> NC_hashmap option) run" where
  "NC_hashmapsetdata crc p key newdata = (if key = [] then Done (False, p)
     else case p of None \<Rightarrow> Done (False, None) | Some hash \<Rightarrow>
       if hm_active hash = 0 then Done (False, Some hash)
       else run_bind (locate hash (crc key) key False) (\<lambda>r. case r of
         None \<Rightarrow> Done (False, Some hash)
       | Some index \<Rightarrow> run_bind (peek (hm_table hash) index) (\<lambda>h.
           assert_run (he_flags h = ACTIVE)
             (Done (True, Some (hash\<lparr>hm_table := (hm_table hash)[index := h\<lparr>he_data := newdata\<rparr>]\<rparr>))))))"

definition NC_hashmapcount :: "NC_hashmap \<Rightarrow> nat" where
  "NC_hashmapcount hash = hm_active hash"

fun hm_deactivate_from :: "NC_hashmap \<Rightarrow> nat \<Rightarrow> nat \<Rightarrow> nat \<Rightarrow> (bool \<times> NC_hashmap) run" where
  "hm_deactivate_from hash data i 0 = Done (False, hash)"
| "hm_deactivate_from hash data i (Suc n) = run_bind (peek (hm_table hash) i) (\<lambda>h.
     if he_flags h = ACTIVE \<and> he_data h = data then Done (True, hm_delete_at hash i)
     else hm_deactivate_from hash data (Suc i) n)"

definition NC_hashmapdeactivate :: "NC_hashmap \<Rightarrow> nat \<Rightarrow> (bool \<times> NC_hashmap) run" where
  "NC_hashmapdeactivate hash data = hm_deactivate_from hash data 0 (hm_alloc hash)"

subsection \<open>Invariant and abstraction\<close>

definition hm_is :: "NC_hashmap \<Rightarrow> nat \<Rightarrow> string \<Rightarrow> bool" where
  "hm_is hm i k \<longleftrightarrow> i < length (hm_table hm) \<and> he_flags (hm_table hm ! i) = ACTIVE \<and> he_key (hm_table hm ! i) = Some k"

definition hm_slot :: "(string \<Rightarrow> nat) \<Rightarrow> NC_hashmap \<Rightarrow> string \<Rightarrow> nat \<Rightarrow> nat" where
  "hm_slot crc hm k j = (crc k + j) mod hm_alloc hm"

definition hm_used :: "NC_hentry list \<Rightarrow> nat set" where
  "hm_used t = {i. i < length t \<and> he_flags (t ! i) = ACTIVE}"

text \<open>
  An active entry owns a copy of a non-empty key with its size and hash; no key is stored
  twice; and no slot on the way from a key's home slot to its entry is empty.
\<close>

definition hm_wf :: "(string \<Rightarrow> nat) \<Rightarrow> NC_hashmap \<Rightarrow> bool" where
  "hm_wf crc hm \<longleftrightarrow> hm_alloc hm = length (hm_table hm) \<and> 0 < hm_alloc hm \<and>
     hm_active hm = card (hm_used (hm_table hm)) \<and>
     (\<forall>i \<in> hm_used (hm_table hm). \<exists>k. k \<noteq> [] \<and> he_key (hm_table hm ! i) = Some k \<and>
        he_keysize (hm_table hm ! i) = length k \<and> he_hashkey (hm_table hm ! i) = crc k) \<and>
     (\<forall>i i' k. hm_is hm i k \<longrightarrow> hm_is hm i' k \<longrightarrow> i = i') \<and>
     (\<forall>i k. hm_is hm i k \<longrightarrow> (\<exists>j < hm_alloc hm. i = hm_slot crc hm k j \<and>
        (\<forall>m < j. he_flags (hm_table hm ! hm_slot crc hm k m) \<noteq> EMPTY)))"

definition hm_abs :: "NC_hashmap \<Rightarrow> string \<Rightarrow> nat option" where
  "hm_abs hm k = map_option he_data (find (\<lambda>e. he_flags e = ACTIVE \<and> he_key e = Some k) (hm_table hm))"

lemma hm_wfD:
  assumes "hm_wf crc hm"
  shows "hm_alloc hm = length (hm_table hm)" "0 < hm_alloc hm" "hm_active hm = card (hm_used (hm_table hm))"
    "hm_is hm i k \<Longrightarrow> hm_is hm i' k \<Longrightarrow> i = i'"
    "hm_is hm i k \<Longrightarrow> k \<noteq> [] \<and> he_keysize (hm_table hm ! i) = length k \<and> he_hashkey (hm_table hm ! i) = crc k"
    "i < length (hm_table hm) \<Longrightarrow> he_flags (hm_table hm ! i) = ACTIVE \<Longrightarrow> \<exists>k. hm_is hm i k"
    "hm_is hm i k \<Longrightarrow> \<exists>j < hm_alloc hm. i = hm_slot crc hm k j \<and>
        (\<forall>m < j. he_flags (hm_table hm ! hm_slot crc hm k m) \<noteq> EMPTY)"
  using assms unfolding hm_wf_def hm_is_def hm_used_def by fastforce+

lemma hm_abs_is:
  assumes wf: "hm_wf crc hm" and i: "hm_is hm i k"
  shows "hm_abs hm k = Some (he_data (hm_table hm ! i))"
proof -
  let ?P = "\<lambda>e. he_flags e = ACTIVE \<and> he_key e = Some k"
  have "\<not> ?P (hm_table hm ! j)" if "j < i" for j
  proof
    assume "?P (hm_table hm ! j)"
    with that i have "hm_is hm j k" by (simp add: hm_is_def)
    from hm_wfD(4) [OF wf this i] that show False by simp
  qed
  with i have "find ?P (hm_table hm) = Some (hm_table hm ! i)"
    unfolding find_Some_iff hm_is_def by blast
  then show ?thesis by (simp add: hm_abs_def)
qed

lemma hm_abs_None: "hm_abs hm k = None \<longleftrightarrow> (\<forall>i. \<not> hm_is hm i k)"
  by (auto simp: hm_abs_def hm_is_def find_None_iff in_set_conv_nth)

lemma hm_abs_Some:
  assumes "hm_wf crc hm"
  shows "hm_abs hm k = Some d \<longleftrightarrow> (\<exists>i. hm_is hm i k \<and> he_data (hm_table hm ! i) = d)"
  using hm_abs_is [OF assms] hm_abs_None [of hm k] by (metis option.distinct(1) option.inject)

lemma hm_slot_lt: "0 < hm_alloc hm \<Longrightarrow> hm_slot crc hm k j < hm_alloc hm"
  by (simp add: hm_slot_def)

lemma hm_slot_Suc: "hm_slot crc hm k (Suc j) = (hm_slot crc hm k j + 1) mod hm_alloc hm"
  by (simp add: hm_slot_def mod_Suc_eq)

lemma hm_slot_ex: "i < hm_alloc hm \<Longrightarrow> \<exists>j < hm_alloc hm. i = hm_slot crc hm k j"
proof -
  assume i: "i < hm_alloc hm"
  let ?n = "hm_alloc hm" and ?s = "crc k mod hm_alloc hm"
  have s: "?s < ?n" using i by simp
  show ?thesis
  proof (cases "?s \<le> i")
    case True
    then have "hm_slot crc hm k (i - ?s) = i"
      unfolding hm_slot_def using i by (metis le_add_diff_inverse mod_add_left_eq mod_less)
    then show ?thesis using i by (intro exI [of _ "i - ?s"]) simp
  next
    case False
    then have "(?s + (i + ?n - ?s)) mod ?n = i" using i s by simp
    then have "hm_slot crc hm k (i + ?n - ?s) = i"
      unfolding hm_slot_def by (metis mod_add_left_eq)
    then show ?thesis using False s by (intro exI [of _ "i + ?n - ?s"]) simp
  qed
qed

subsection \<open>What \<open>locate\<close> finds\<close>

definition hm_stops :: "NC_hashmap \<Rightarrow> string \<Rightarrow> nat \<Rightarrow> bool" where
  "hm_stops hm k i \<longleftrightarrow> he_flags (hm_table hm ! i) = EMPTY \<or> hm_is hm i k"

text \<open>From round \<open>j\<close> on: the first slot that ends the search, or none and all slots known.\<close>

definition probe_ok :: "(string \<Rightarrow> nat) \<Rightarrow> NC_hashmap \<Rightarrow> string \<Rightarrow> nat \<Rightarrow> nat option \<Rightarrow> bool" where
  "probe_ok crc hm k j r = (case r of
     Some i \<Rightarrow> \<exists>m. j \<le> m \<and> m < hm_alloc hm \<and> i = hm_slot crc hm k m \<and> hm_stops hm k i \<and>
        (\<forall>m'. j \<le> m' \<longrightarrow> m' < m \<longrightarrow> \<not> hm_stops hm k (hm_slot crc hm k m'))
   | None \<Rightarrow> \<forall>m'. j \<le> m' \<longrightarrow> m' < hm_alloc hm \<longrightarrow> \<not> hm_stops hm k (hm_slot crc hm k m'))"

definition del_ok :: "(string \<Rightarrow> nat) \<Rightarrow> NC_hashmap \<Rightarrow> string \<Rightarrow> nat \<Rightarrow> nat option \<Rightarrow> nat option \<Rightarrow> bool" where
  "del_ok crc hm k j del del' = (case del' of
     Some d \<Rightarrow> d < hm_alloc hm \<and> he_flags (hm_table hm ! d) = DELETED
   | None \<Rightarrow> del = None \<and> (\<forall>m'. j \<le> m' \<longrightarrow> m' < hm_alloc hm \<longrightarrow>
               he_flags (hm_table hm ! hm_slot crc hm k m') = ACTIVE))"

lemma all_ge_Suc: "(\<forall>m::nat. j \<le> m \<longrightarrow> Q m) \<longleftrightarrow> Q j \<and> (\<forall>m. Suc j \<le> m \<longrightarrow> Q m)"
  by (metis Suc_leI Suc_leD le_neq_implies_less order_refl)

lemma probe_ok_Suc:
  assumes "probe_ok crc hm k (Suc j) r" "\<not> hm_stops hm k (hm_slot crc hm k j)"
  shows "probe_ok crc hm k j r"
proof (cases r)
  case None
  with assms show ?thesis unfolding probe_ok_def None option.case all_ge_Suc [of j] by simp
next
  case (Some i)
  with assms(1) obtain m where "Suc j \<le> m" "m < hm_alloc hm" "i = hm_slot crc hm k m" "hm_stops hm k i"
    "\<forall>m'. Suc j \<le> m' \<longrightarrow> m' < m \<longrightarrow> \<not> hm_stops hm k (hm_slot crc hm k m')"
    by (auto simp: probe_ok_def)
  moreover from this(5) assms(2) have "\<forall>m'. j \<le> m' \<longrightarrow> m' < m \<longrightarrow> \<not> hm_stops hm k (hm_slot crc hm k m')"
    unfolding all_ge_Suc [of j] by simp
  ultimately show ?thesis unfolding probe_ok_def Some option.case by (intro exI [of _ m]) simp
qed

lemma probe_ok_here: "j < hm_alloc hm \<Longrightarrow> hm_stops hm k (hm_slot crc hm k j) \<Longrightarrow> probe_ok crc hm k j (Some (hm_slot crc hm k j))"
  unfolding probe_ok_def option.case by (intro exI [of _ j]) simp

lemma del_ok_Suc:
  assumes "r = None \<Longrightarrow> del_ok crc hm k (Suc j) del1 del'"
    and "del1 = None \<Longrightarrow> del = None \<and> he_flags (hm_table hm ! hm_slot crc hm k j) = ACTIVE"
  shows "r = None \<Longrightarrow> del_ok crc hm k j del del'"
  using assms unfolding del_ok_def all_ge_Suc [of j] by (cases del') auto

lemma locate_loop_spec:
  assumes wf: "hm_wf crc hm" and k: "k \<noteq> []"
  shows "j + n = hm_alloc hm \<Longrightarrow> \<forall>d. del = Some d \<longrightarrow> d < hm_alloc hm \<and> he_flags (hm_table hm ! d) = DELETED \<Longrightarrow>
    \<exists>r del'. locate_loop (hm_table hm) (crc k) k n (hm_slot crc hm k j) del = Done (r, del') \<and>
      probe_ok crc hm k j r \<and> (r = None \<longrightarrow> del_ok crc hm k j del del')"
    (is "_ \<Longrightarrow> _ \<Longrightarrow> ?P j n del")
proof (induction n arbitrary: j del)
  case 0
  then show ?case by (auto simp: probe_ok_def del_ok_def split: option.splits)
next
  case (Suc n)
  let ?i = "hm_slot crc hm k j" and ?t = "hm_table hm"
  have i: "?i < length ?t" using hm_slot_lt hm_wfD(1,2) [OF wf] by metis
  have step: "(?i + 1) mod length ?t = hm_slot crc hm k (Suc j)"
    using hm_wfD(1) [OF wf] hm_slot_Suc by metis
  have next_ok: "?P j (Suc n) del"
    if eq: "locate_loop ?t (crc k) k (Suc n) ?i del = locate_loop ?t (crc k) k n (hm_slot crc hm k (Suc j)) dl"
      and ns: "\<not> hm_stops hm k ?i"
      and ok: "\<forall>d. dl = Some d \<longrightarrow> d < hm_alloc hm \<and> he_flags (hm_table hm ! d) = DELETED"
      and d1: "dl = None \<Longrightarrow> del = None \<and> he_flags (?t ! ?i) = ACTIVE" for dl
  proof -
    from Suc.IH [OF _ ok, of "Suc j"] Suc.prems(1) obtain r del' where
      "locate_loop ?t (crc k) k n (hm_slot crc hm k (Suc j)) dl = Done (r, del')"
      "probe_ok crc hm k (Suc j) r" "r = None \<longrightarrow> del_ok crc hm k (Suc j) dl del'" by auto
    then show ?thesis unfolding eq using probe_ok_Suc [OF _ ns] del_ok_Suc [OF _ d1] by blast
  qed
  show ?case
  proof (cases "he_flags (?t ! ?i)")
    case EMPTY
    then have "hm_stops hm k ?i" by (simp add: hm_stops_def)
    with EMPTY i Suc.prems(1) show ?thesis by (simp add: probe_ok_here)
  next
    case DELETED
    then have ns: "\<not> hm_stops hm k ?i" by (simp add: hm_stops_def hm_is_def)
    show ?thesis
      by (rule next_ok [OF _ ns, where dl = "if del = None then Some ?i else del"])
        (use DELETED i step Suc.prems(2) hm_wfD(1) [OF wf] in \<open>auto simp: Let_def split: if_splits\<close>)
  next
    case ACTIVE
    then obtain k' where k': "hm_is hm ?i k'" using hm_wfD(6) [OF wf i] by blast
    note pr = hm_wfD(5) [OF wf k']
    show ?thesis
    proof (cases "k' = k")
      case True
      with k' have "hm_stops hm k ?i" by (simp add: hm_stops_def)
      with True ACTIVE i Suc.prems(1) pr k' show ?thesis
        by (simp add: hm_is_def Let_def probe_ok_here)
    next
      case False
      with k' have ns: "\<not> hm_stops hm k ?i" using ACTIVE by (auto simp: hm_stops_def hm_is_def)
      show ?thesis
        by (rule next_ok [OF _ ns, where dl = "del"])
          (use ACTIVE i step False k' pr Suc.prems(2) in \<open>auto simp: hm_is_def Let_def\<close>)
    qed
  qed
qed

text \<open>For a stored key \<open>locate\<close> returns its entry; for any other, a free slot or nothing.\<close>

lemma locate_stored:
  assumes wf: "hm_wf crc hm" and i: "hm_is hm i k"
  shows "locate hm (crc k) k deletedok = Done (Some i)"
proof -
  have k: "k \<noteq> []" using hm_wfD(5) [OF wf i] by simp
  obtain r del where r: "locate_loop (hm_table hm) (crc k) k (hm_alloc hm) (hm_slot crc hm k 0) None = Done (r, del)"
      "probe_ok crc hm k 0 r"
    using locate_loop_spec [OF wf k, of 0 "hm_alloc hm" None] by auto
  obtain j where j: "j < hm_alloc hm" "i = hm_slot crc hm k j"
      "\<forall>m<j. he_flags (hm_table hm ! hm_slot crc hm k m) \<noteq> EMPTY"
    using hm_wfD(7) [OF wf i] by blast
  have stop: "hm_stops hm k (hm_slot crc hm k j)" using i j by (simp add: hm_stops_def)
  have "r = Some i"
  proof (cases r)
    case None
    with r(2) stop j(1) show ?thesis by (auto simp: probe_ok_def)
  next
    case (Some i1)
    with r(2) obtain m where m: "m < hm_alloc hm" "i1 = hm_slot crc hm k m" "hm_stops hm k i1"
        "\<forall>m'. m' < m \<longrightarrow> \<not> hm_stops hm k (hm_slot crc hm k m')"
      by (auto simp: probe_ok_def)
    have "m \<le> j" using m(4) stop by (meson not_less)
    then have "hm_is hm i1 k"
      using m(2,3) j(3) stop j(2) i by (cases "m = j") (auto simp: hm_stops_def)
    with i Some show ?thesis using hm_wfD(4) [OF wf] by blast
  qed
  with r(1) hm_wfD(2) [OF wf] show ?thesis by (simp add: locate_def hm_slot_def)
qed

lemma locate_absent:
  assumes wf: "hm_wf crc hm" and k: "k \<noteq> []" "\<forall>i. \<not> hm_is hm i k"
  obtains (empty) j where "j < hm_alloc hm" "locate hm (crc k) k deletedok = Done (Some (hm_slot crc hm k j))"
      "he_flags (hm_table hm ! hm_slot crc hm k j) = EMPTY"
      "\<forall>m<j. he_flags (hm_table hm ! hm_slot crc hm k m) \<noteq> EMPTY"
    | (deleted) i where "deletedok" "locate hm (crc k) k deletedok = Done (Some i)" "i < hm_alloc hm"
      "he_flags (hm_table hm ! i) = DELETED" "\<forall>m < hm_alloc hm. he_flags (hm_table hm ! hm_slot crc hm k m) \<noteq> EMPTY"
    | (none) "locate hm (crc k) k deletedok = Done None"
      "deletedok \<longrightarrow> (\<forall>m < hm_alloc hm. he_flags (hm_table hm ! hm_slot crc hm k m) = ACTIVE)"
proof -
  obtain r del where r: "locate_loop (hm_table hm) (crc k) k (hm_alloc hm) (hm_slot crc hm k 0) None = Done (r, del)"
      "probe_ok crc hm k 0 r" "r = None \<longrightarrow> del_ok crc hm k 0 None del"
    using locate_loop_spec [OF wf k(1), of 0 "hm_alloc hm" None] by auto
  then have loc: "locate hm (crc k) k deletedok = Done (case r of Some i \<Rightarrow> Some i | None \<Rightarrow> if deletedok then del else None)"
    using hm_wfD(2) [OF wf] by (simp add: locate_def hm_slot_def)
  show ?thesis
  proof (cases r)
    case (Some i)
    with r(2) obtain j where "j < hm_alloc hm" "i = hm_slot crc hm k j" "hm_stops hm k i"
        "\<forall>m'. m' < j \<longrightarrow> \<not> hm_stops hm k (hm_slot crc hm k m')"
      by (auto simp: probe_ok_def)
    with loc Some k(2) show ?thesis by (intro empty [of j]) (auto simp: hm_stops_def)
  next
    case None
    with r(2) have ne: "\<forall>m < hm_alloc hm. he_flags (hm_table hm ! hm_slot crc hm k m) \<noteq> EMPTY"
      by (auto simp: probe_ok_def hm_stops_def)
    show ?thesis
    proof (cases "del")
      case del: None
      with r(3) None loc show ?thesis by (intro none) (auto simp: del_ok_def)
    next
      case (Some d)
      with r(3) None have "d < hm_alloc hm" "he_flags (hm_table hm ! d) = DELETED"
        by (auto simp: del_ok_def)
      with loc None Some ne show ?thesis by (cases deletedok) (auto intro: deleted none)
    qed
  qed
qed

subsection \<open>Storing and deleting\<close>

definition hm_put :: "(string \<Rightarrow> nat) \<Rightarrow> NC_hashmap \<Rightarrow> nat \<Rightarrow> nat \<Rightarrow> string \<Rightarrow> NC_hashmap" where
  "hm_put crc hm i d k = hm\<lparr>hm_table := (hm_table hm)[i := \<lparr>he_flags = ACTIVE, he_data = d,
     he_hashkey = crc k, he_keysize = length k, he_key = Some k\<rparr>], hm_active := hm_active hm + 1\<rparr>"

lemma hm_used_put: "i < length t \<Longrightarrow> he_flags e = ACTIVE \<Longrightarrow> hm_used (t[i := e]) = insert i (hm_used t)"
  by (auto simp: hm_used_def nth_list_update)

lemma hm_used_del: "he_flags e \<noteq> ACTIVE \<Longrightarrow> hm_used (t[i := e]) = hm_used t - {i}"
  by (cases "i < length t") (auto simp: hm_used_def nth_list_update split: if_splits)

lemma finite_hm_used [simp]: "finite (hm_used t)"
  by (simp add: hm_used_def)

lemma hm_is_put: "i < length (hm_table hm) \<Longrightarrow>
    hm_is (hm_put crc hm i d k) i' k' \<longleftrightarrow> (if i' = i then k' = k else hm_is hm i' k')"
  by (auto simp: hm_is_def hm_put_def nth_list_update)

lemma hm_is_delete: "hm_is (hm_delete_at hm i) i' k' \<longleftrightarrow> i' \<noteq> i \<and> hm_is hm i' k'"
  by (cases "i < length (hm_table hm)") (auto simp: hm_is_def hm_delete_at_def nth_list_update)

lemma hm_slot_in: "hm_wf crc hm \<Longrightarrow> hm_slot crc' hm k j < length (hm_table hm)"
  using hm_slot_lt hm_wfD(1,2) by metis

lemma hm_slot_put [simp]: "hm_slot crc (hm_put crc' hm i d k) = hm_slot crc hm"
  by (simp add: hm_slot_def hm_put_def fun_eq_iff)

lemma hm_slot_delete [simp]: "hm_slot crc (hm_delete_at hm i) = hm_slot crc hm"
  by (simp add: hm_slot_def hm_delete_at_def fun_eq_iff)

lemma hm_alloc_put [simp]: "hm_alloc (hm_put crc hm i d k) = hm_alloc hm"
  by (simp add: hm_put_def)

lemma hm_alloc_delete [simp]: "hm_alloc (hm_delete_at hm i) = hm_alloc hm"
  by (simp add: hm_delete_at_def)

text \<open>\<open>hm_wf\<close> from its parts, with the part on entries in terms of \<open>hm_is\<close>.\<close>

lemma hm_wfI:
  assumes "hm_alloc hm = length (hm_table hm)" "0 < hm_alloc hm" "hm_active hm = card (hm_used (hm_table hm))"
    and "\<And>i. i < length (hm_table hm) \<Longrightarrow> he_flags (hm_table hm ! i) = ACTIVE \<Longrightarrow> \<exists>k. k \<noteq> [] \<and>
      he_key (hm_table hm ! i) = Some k \<and> he_keysize (hm_table hm ! i) = length k \<and> he_hashkey (hm_table hm ! i) = crc k"
    and "\<And>i i' k. hm_is hm i k \<Longrightarrow> hm_is hm i' k \<Longrightarrow> i = i'"
    and "\<And>i k. hm_is hm i k \<Longrightarrow> \<exists>j < hm_alloc hm. i = hm_slot crc hm k j \<and>
        (\<forall>m < j. he_flags (hm_table hm ! hm_slot crc hm k m) \<noteq> EMPTY)"
  shows "hm_wf crc hm"
  using assms unfolding hm_wf_def hm_used_def by blast

lemma hm_wf_entry:
  assumes "hm_wf crc hm" "i < length (hm_table hm)" "he_flags (hm_table hm ! i) = ACTIVE"
  shows "\<exists>k. k \<noteq> [] \<and> he_key (hm_table hm ! i) = Some k \<and> he_keysize (hm_table hm ! i) = length k \<and>
    he_hashkey (hm_table hm ! i) = crc k"
  using hm_wfD(6) [OF assms] hm_wfD(5) [OF assms(1)] hm_is_def by metis

lemma hm_put_wf:
  assumes wf: "hm_wf crc hm" and k: "k \<noteq> []" "\<forall>i. \<not> hm_is hm i k"
    and j: "j < hm_alloc hm" "he_flags (hm_table hm ! hm_slot crc hm k j) \<noteq> ACTIVE"
      "\<forall>m<j. he_flags (hm_table hm ! hm_slot crc hm k m) \<noteq> EMPTY"
  shows "hm_wf crc (hm_put crc hm (hm_slot crc hm k j) d k)"
proof -
  let ?i = "hm_slot crc hm k j"
  let ?h = "hm_put crc hm ?i d k"
  note wfD = hm_wfD [OF wf]
  have i: "?i < length (hm_table hm)" using hm_slot_lt wfD(1,2) by metis
  have stays: "he_flags (hm_table ?h ! n) \<noteq> EMPTY" if "he_flags (hm_table hm ! n) \<noteq> EMPTY" for n
    using that i by (cases "n = ?i") (simp_all add: hm_put_def)
  show ?thesis
  proof (rule hm_wfI)
    show "hm_alloc ?h = length (hm_table ?h)" "0 < hm_alloc ?h" using wfD(1,2) by (simp_all add: hm_put_def)
    have "?i \<notin> hm_used (hm_table hm)" using j by (simp add: hm_used_def)
    then show "hm_active ?h = card (hm_used (hm_table ?h))"
      using wfD(3) i by (simp add: hm_put_def hm_used_put)
  next
    fix n assume n: "n < length (hm_table ?h)" "he_flags (hm_table ?h ! n) = ACTIVE"
    show "\<exists>k. k \<noteq> [] \<and> he_key (hm_table ?h ! n) = Some k \<and> he_keysize (hm_table ?h ! n) = length k \<and>
        he_hashkey (hm_table ?h ! n) = crc k"
    proof (cases "n = ?i")
      case True
      with i k show ?thesis by (simp add: hm_put_def)
    next
      case False
      with n have "n < length (hm_table hm)" "he_flags (hm_table hm ! n) = ACTIVE"
        by (simp_all add: hm_put_def)
      with False show ?thesis using hm_wf_entry [OF wf] by (simp add: hm_put_def)
    qed
  next
    show "n = n'" if "hm_is ?h n q" "hm_is ?h n' q" for n n' q
      using that k(2) wfD(4) hm_is_put [OF i] by (auto split: if_splits)
  next
    fix n q assume n: "hm_is ?h n q"
    show "\<exists>j < hm_alloc ?h. n = hm_slot crc ?h q j \<and>
        (\<forall>m < j. he_flags (hm_table ?h ! hm_slot crc ?h q m) \<noteq> EMPTY)"
    proof (cases "n = ?i")
      case True
      with n hm_is_put [OF i] have "q = k" by simp
      with True show ?thesis using j stays by (intro exI [of _ j]) simp
    next
      case False
      with n hm_is_put [OF i] have "hm_is hm n q" by simp
      from wfD(7) [OF this] show ?thesis using stays by auto
    qed
  qed
qed

lemma hm_abs_ext:
  assumes "hm_wf crc hm" "hm_wf crc hm'"
    and "\<And>i. hm_is hm' i k \<Longrightarrow> \<exists>i'. hm_is hm i' k \<and> he_data (hm_table hm' ! i) = he_data (hm_table hm ! i')"
    and "\<And>i. hm_is hm i k \<Longrightarrow> \<exists>i'. hm_is hm' i' k"
  shows "hm_abs hm' k = hm_abs hm k"
proof (cases "hm_abs hm' k")
  case None
  with assms(4) show ?thesis by (metis hm_abs_None)
next
  case (Some d)
  then obtain i where "hm_is hm' i k" "he_data (hm_table hm' ! i) = d"
    using hm_abs_Some [OF assms(2)] by blast
  with assms(3) Some show ?thesis using hm_abs_is [OF assms(1)] by fastforce
qed

lemma hm_put_abs:
  assumes wf: "hm_wf crc hm" "hm_wf crc (hm_put crc hm i d k)" and i: "i < length (hm_table hm)"
      "he_flags (hm_table hm ! i) \<noteq> ACTIVE"
  shows "hm_abs (hm_put crc hm i d k) = (hm_abs hm)(k \<mapsto> d)"
proof
  fix q
  show "hm_abs (hm_put crc hm i d k) q = ((hm_abs hm)(k \<mapsto> d)) q"
  proof (cases "q = k")
    case True
    have "hm_is (hm_put crc hm i d k) i k" using hm_is_put [OF i(1)] by simp
    from hm_abs_is [OF wf(2) this] True i(1) show ?thesis by (simp add: hm_put_def)
  next
    case False
    have "hm_abs (hm_put crc hm i d k) q = hm_abs hm q"
    proof (rule hm_abs_ext [OF wf])
      show "\<exists>i''. hm_is hm i'' q \<and> he_data (hm_table (hm_put crc hm i d k) ! i') = he_data (hm_table hm ! i'')"
        if "hm_is (hm_put crc hm i d k) i' q" for i'
        using that False hm_is_put [OF i(1)] by (intro exI [of _ i']) (auto simp: hm_put_def split: if_splits)
      show "\<exists>i''. hm_is (hm_put crc hm i d k) i'' q" if "hm_is hm i' q" for i'
        using that i(2) hm_is_put [OF i(1)] by (intro exI [of _ i']) (auto simp: hm_is_def)
    qed
    with False show ?thesis by simp
  qed
qed

lemma hm_delete:
  assumes wf: "hm_wf crc hm" and i: "hm_is hm i k"
  shows "hm_wf crc (hm_delete_at hm i)" "hm_abs (hm_delete_at hm i) = (hm_abs hm)(k := None)"
proof -
  let ?h = "hm_delete_at hm i"
  note wfD = hm_wfD [OF wf]
  have il: "i < length (hm_table hm)" "he_flags (hm_table hm ! i) = ACTIVE" using i by (simp_all add: hm_is_def)
  have stays: "he_flags (hm_table ?h ! n) \<noteq> EMPTY" if "he_flags (hm_table hm ! n) \<noteq> EMPTY" for n
    using that il by (cases "n = i") (simp_all add: hm_delete_at_def)
  show wf': "hm_wf crc ?h"
  proof (rule hm_wfI)
    show "hm_alloc ?h = length (hm_table ?h)" "0 < hm_alloc ?h" using wfD(1,2) by (simp_all add: hm_delete_at_def)
    have "i \<in> hm_used (hm_table hm)" using il by (simp add: hm_used_def)
    then show "hm_active ?h = card (hm_used (hm_table ?h))"
      using wfD(3) by (simp add: hm_delete_at_def hm_used_del)
  next
    fix n assume n: "n < length (hm_table ?h)" "he_flags (hm_table ?h ! n) = ACTIVE"
    with il have ni: "n \<noteq> i" by (auto simp: hm_delete_at_def)
    with n have "n < length (hm_table hm)" "he_flags (hm_table hm ! n) = ACTIVE"
      by (simp_all add: hm_delete_at_def)
    with ni show "\<exists>k. k \<noteq> [] \<and> he_key (hm_table ?h ! n) = Some k \<and> he_keysize (hm_table ?h ! n) = length k \<and>
        he_hashkey (hm_table ?h ! n) = crc k"
      using hm_wf_entry [OF wf] by (simp add: hm_delete_at_def)
  next
    show "n = n'" if "hm_is ?h n q" "hm_is ?h n' q" for n n' q
      using that wfD(4) by (auto simp: hm_is_delete)
  next
    show "\<exists>j < hm_alloc ?h. n = hm_slot crc ?h q j \<and>
        (\<forall>m < j. he_flags (hm_table ?h ! hm_slot crc ?h q m) \<noteq> EMPTY)" if "hm_is ?h n q" for n q
      using that wfD(7) [of n q] stays by (auto simp: hm_is_delete)
  qed
  show "hm_abs ?h = (hm_abs hm)(k := None)"
  proof
    fix q
    show "hm_abs ?h q = ((hm_abs hm)(k := None)) q"
    proof (cases "q = k")
      case True
      have "\<forall>i'. \<not> hm_is ?h i' k" using i wfD(4) by (auto simp: hm_is_delete)
      with True show ?thesis by (simp add: hm_abs_None)
    next
      case False
      have "hm_abs ?h q = hm_abs hm q"
      proof (rule hm_abs_ext [OF wf wf'])
        show "\<exists>i''. hm_is hm i'' q \<and> he_data (hm_table ?h ! i') = he_data (hm_table hm ! i'')"
          if "hm_is ?h i' q" for i'
        proof -
          have "i' \<noteq> i" "hm_is hm i' q" using that by (simp_all add: hm_is_delete)
          then show ?thesis by (intro exI [of _ i']) (simp add: hm_delete_at_def)
        qed
        show "\<exists>i''. hm_is ?h i'' q" if "hm_is hm i' q" for i'
        proof -
          from that False i have "i' \<noteq> i" by (auto simp: hm_is_def)
          with that show ?thesis by (intro exI [of _ i']) (simp add: hm_is_delete)
        qed
      qed
      with False show ?thesis by simp
    qed
  qed
qed


subsection \<open>Operations against the abstraction\<close>

lemma NC_hashmapget_abs:
  assumes wf: "hm_wf crc hm"
  shows "NC_hashmapget crc hm k = Done (hm_abs hm k)"
proof (cases "\<exists>i. hm_is hm i k")
  case True
  then obtain i where i: "hm_is hm i k" ..
  then have "i \<in> hm_used (hm_table hm)" by (simp add: hm_is_def hm_used_def)
  then have "hm_active hm \<noteq> 0" using hm_wfD(3) [OF wf] by auto
  moreover have "k \<noteq> []" using hm_wfD(5) [OF wf i] by simp
  moreover have "i < length (hm_table hm)" "he_flags (hm_table hm ! i) = ACTIVE"
    using i by (simp_all add: hm_is_def)
  ultimately show ?thesis
    using locate_stored [OF wf i] hm_abs_is [OF wf i] by (simp add: NC_hashmapget_def)
next
  case False
  then have none: "hm_abs hm k = None" using hm_abs_None by blast
  show ?thesis
  proof (cases "k = []")
    case True
    with none show ?thesis by (simp add: NC_hashmapget_def)
  next
    case k: False
    from False have "\<forall>i. \<not> hm_is hm i k" by blast
    from locate_absent [OF wf k this, of False] show ?thesis
      using none hm_slot_in [OF wf] by cases (simp_all add: NC_hashmapget_def k)
  qed
qed

lemma NC_hashmapremove_abs:
  assumes wf: "hm_wf crc hm"
  obtains hm' where "NC_hashmapremove crc hm k = Done (hm_abs hm k, hm')" "hm_wf crc hm'"
    "hm_abs hm' = (hm_abs hm)(k := None)" "hm_alloc hm' = hm_alloc hm"
proof (cases "\<exists>i. hm_is hm i k")
  case True
  then obtain i where i: "hm_is hm i k" ..
  have "NC_hashmapremove crc hm k = Done (hm_abs hm k, hm_delete_at hm i)"
    using i hm_wfD(5) [OF wf i] locate_stored [OF wf i] hm_abs_is [OF wf i]
    by (simp add: NC_hashmapremove_def hm_is_def)
  then show ?thesis using hm_delete [OF wf i] by (intro that [of "hm_delete_at hm i"]) simp_all
next
  case False
  then have none: "hm_abs hm k = None" using hm_abs_None by blast
  have "NC_hashmapremove crc hm k = Done (None, hm)"
  proof (cases "k = []")
    case True
    then show ?thesis by (simp add: NC_hashmapremove_def)
  next
    case k: False
    from False have "\<forall>i. \<not> hm_is hm i k" by blast
    from locate_absent [OF wf k this, of False] show ?thesis
      using hm_slot_in [OF wf] by cases (simp_all add: NC_hashmapremove_def k)
  qed
  then show ?thesis using none wf by (intro that [of hm]) auto
qed

text \<open>Number of stored keys.\<close>

lemma card_dom_abs:
  assumes wf: "hm_wf crc hm"
  shows "card (dom (hm_abs hm)) = hm_active hm" "finite (dom (hm_abs hm))"
proof -
  let ?f = "\<lambda>i. the (he_key (hm_table hm ! i))"
  have is_f: "hm_is hm i (?f i)" if "i \<in> hm_used (hm_table hm)" for i
    using that hm_wf_entry [OF wf, of i] by (auto simp: hm_used_def hm_is_def)
  have "bij_betw ?f (hm_used (hm_table hm)) (dom (hm_abs hm))"
  proof (rule bij_betwI')
    show "(?f i = ?f j) = (i = j)" if "i \<in> hm_used (hm_table hm)" "j \<in> hm_used (hm_table hm)" for i j
      using is_f that hm_wfD(4) [OF wf] by metis
    show "?f i \<in> dom (hm_abs hm)" if "i \<in> hm_used (hm_table hm)" for i
      using hm_abs_is [OF wf is_f [OF that]] by blast
    show "\<exists>i \<in> hm_used (hm_table hm). k = ?f i" if k: "k \<in> dom (hm_abs hm)" for k
    proof -
      from k have "hm_abs hm k \<noteq> None" by blast
      then obtain i where "hm_is hm i k" unfolding hm_abs_None by blast
      then show ?thesis by (intro bexI [of _ i]) (simp_all add: hm_is_def hm_used_def)
    qed
  qed
  then show "card (dom (hm_abs hm)) = hm_active hm" "finite (dom (hm_abs hm))"
    using hm_wfD(3) [OF wf] bij_betw_same_card bij_betw_finite finite_hm_used by metis+
qed

lemma hm_active_le: "hm_wf crc hm \<Longrightarrow> hm_active hm \<le> hm_alloc hm"
  using hm_wfD(1,3) card_mono [of "{..<length (hm_table hm)}" "hm_used (hm_table hm)"]
  by (auto simp: hm_used_def)

lemma hm_not_full:
  assumes wf: "hm_wf crc hm" and lt: "hm_active hm < hm_alloc hm"
  shows "\<exists>m < hm_alloc hm. he_flags (hm_table hm ! hm_slot crc hm k m) \<noteq> ACTIVE"
proof (rule ccontr)
  assume "\<not> ?thesis"
  then have "\<forall>i < hm_alloc hm. he_flags (hm_table hm ! i) = ACTIVE"
    using hm_slot_ex by metis
  then have "hm_used (hm_table hm) = {..<hm_alloc hm}"
    using hm_wfD(1) [OF wf] by (auto simp: hm_used_def)
  with lt hm_wfD(3) [OF wf] show False by simp
qed

text \<open>Storing under a key when the table has a free slot.\<close>

lemma hm_add_loop_abs:
  assumes wf: "hm_wf crc hm" and lt: "hm_active hm < hm_alloc hm" and k: "k \<noteq> []" and mem: "mem (length k + 1)"
  obtains hm' where "hm_add_loop mem crc (Suc fuel) hm d k = Done (True, hm')" "hm_wf crc hm'"
    "hm_abs hm' = (hm_abs hm)(k \<mapsto> d)" "hm_alloc hm' = hm_alloc hm" "hm_active hm' \<le> hm_active hm + 1"
proof (cases "\<exists>i. hm_is hm i k")
  case True
  then obtain i where i: "hm_is hm i k" ..
  let ?e = "(hm_table hm ! i)\<lparr>he_data := d\<rparr>"
  let ?h = "hm\<lparr>hm_table := (hm_table hm)[i := ?e]\<rparr>"
  have il: "i < length (hm_table hm)" "he_flags (hm_table hm ! i) = ACTIVE" using i by (simp_all add: hm_is_def)
  have eqs: "hm_is ?h = hm_is hm" "hm_used (hm_table ?h) = hm_used (hm_table hm)"
      "\<And>n. he_flags (hm_table ?h ! n) = he_flags (hm_table hm ! n)" "hm_slot crc ?h = hm_slot crc hm"
    using il by (auto simp: hm_is_def hm_used_def hm_slot_def nth_list_update fun_eq_iff list_update_beyond)
  have wf': "hm_wf crc ?h"
    by (rule hm_wfI)
      (use hm_wfD [OF wf] hm_wf_entry [OF wf] il in \<open>simp_all only: eqs, auto simp: nth_list_update\<close>)
  have "hm_abs ?h = (hm_abs hm)(k \<mapsto> d)"
  proof
    fix q
    show "hm_abs ?h q = ((hm_abs hm)(k \<mapsto> d)) q"
    proof (cases "q = k")
      case True
      have "hm_is ?h i k" using i eqs(1) by simp
      from hm_abs_is [OF wf' this] True il show ?thesis by simp
    next
      case False
      have "hm_abs ?h q = hm_abs hm q"
      proof (rule hm_abs_ext [OF wf wf'])
        show "\<exists>i''. hm_is hm i'' q \<and> he_data (hm_table ?h ! i') = he_data (hm_table hm ! i'')"
          if "hm_is ?h i' q" for i'
        proof -
          from that have "hm_is hm i' q" unfolding eqs .
          moreover from this have "i' \<noteq> i" using i False by (auto simp: hm_is_def)
          ultimately show ?thesis by (intro exI [of _ i']) simp
        qed
        show "\<exists>i''. hm_is ?h i'' q" if "hm_is hm i' q" for i' using that unfolding eqs by blast
      qed
      with False show ?thesis by simp
    qed
  qed
  moreover have "hm_add_loop mem crc (Suc fuel) hm d k = Done (True, ?h)"
    using locate_stored [OF wf i] il by (simp add: hm_store_def)
  ultimately show ?thesis using wf' by (intro that [of ?h]) simp_all
next
  case False
  then have abs: "\<forall>i. \<not> hm_is hm i k" by blast
  note result = that
  have put: thesis
    if loc: "locate hm (crc k) k True = Done (Some (hm_slot crc hm k j))" and j: "j < hm_alloc hm"
      "he_flags (hm_table hm ! hm_slot crc hm k j) \<noteq> ACTIVE"
      "\<forall>m<j. he_flags (hm_table hm ! hm_slot crc hm k m) \<noteq> EMPTY" for j
  proof -
    have il: "hm_slot crc hm k j < length (hm_table hm)" by (rule hm_slot_in [OF wf])
    have "hm_add_loop mem crc (Suc fuel) hm d k = Done (True, hm_put crc hm (hm_slot crc hm k j) d k)"
      using loc il j mem by (simp add: hm_store_def hm_put_def)
    moreover have wf': "hm_wf crc (hm_put crc hm (hm_slot crc hm k j) d k)"
      by (rule hm_put_wf [OF wf k abs j])
    moreover note hm_put_abs [OF wf wf' il j(2)]
    ultimately show thesis by (rule result) (simp_all add: hm_put_def)
  qed
  from locate_absent [OF wf k abs, of True] show thesis
  proof cases
    case (1 j)
    then show thesis by (intro put [of j]) simp_all
  next
    case (2 i)
    with hm_slot_ex [of i hm crc k] obtain j where "j < hm_alloc hm" "i = hm_slot crc hm k j" by blast
    with 2 show thesis by (intro put [of j]) auto
  next
    case 3
    with hm_not_full [OF wf lt] show thesis by blast
  qed
qed


text \<open>The empty table.\<close>

abbreviation hm_fresh :: "nat \<Rightarrow> NC_hashmap" where
  "hm_fresh n \<equiv> \<lparr>hm_alloc = n, hm_active = 0, hm_table = replicate n empty_hentry\<rparr>"

lemma hm_fresh_wf: "0 < n \<Longrightarrow> hm_wf crc (hm_fresh n)" and hm_fresh_abs: "hm_abs (hm_fresh n) = Map.empty"
  by (auto simp: hm_wf_def hm_used_def hm_is_def hm_abs_def empty_hentry_def find_None_iff fun_eq_iff)

text \<open>
  The reinsertion of \<open>rehash\<close>: an entry list taken from a table whose keys are distinct and
  not yet in the new table, with room for all of them.
\<close>

definition entry_key :: "NC_hentry \<Rightarrow> string" where
  "entry_key e = (case he_key e of None \<Rightarrow> [] | Some k \<Rightarrow> take (he_keysize e) k)"

definition active_entries :: "NC_hentry list \<Rightarrow> NC_hentry list" where
  "active_entries es = filter (\<lambda>e. he_flags e = ACTIVE) es"

definition entries_map :: "NC_hentry list \<Rightarrow> string \<Rightarrow> nat option" where
  "entries_map es = map_of (map (\<lambda>e. (entry_key e, he_data e)) (active_entries es))"

lemma hm_reinsert_abs:
  assumes mem: "\<And>n. mem n"
  shows "hm_wf crc hm \<Longrightarrow> \<forall>e \<in> set (active_entries es). entry_key e \<noteq> [] \<Longrightarrow>
    distinct (map entry_key (active_entries es)) \<Longrightarrow>
    hm_active hm + length (active_entries es) \<le> hm_alloc hm * 3 div 4 \<Longrightarrow>
    \<exists>hm'. hm_reinsert mem crc (Suc fuel) es hm = Done hm' \<and> hm_wf crc hm' \<and>
      hm_abs hm' = hm_abs hm ++ entries_map es \<and> hm_alloc hm' = hm_alloc hm"
proof (induction es arbitrary: hm)
  case Nil
  then show ?case by (simp add: entries_map_def active_entries_def)
next
  case (Cons e es)
  show ?case
  proof (cases "he_flags e = ACTIVE")
    case False
    with Cons show ?thesis by (simp add: entries_map_def active_entries_def)
  next
    case True
    then have act: "active_entries (e # es) = e # active_entries es" by (simp add: active_entries_def)
    from Cons.prems have room: "hm_active hm < hm_alloc hm * 3 div 4" unfolding act by simp
    then have lt: "hm_active hm < hm_alloc hm" by linarith
    have k: "entry_key e \<noteq> []" using Cons.prems unfolding act by simp
    obtain hm1 where hm1: "hm_add_loop mem crc (Suc fuel) hm (he_data e) (entry_key e) = Done (True, hm1)"
        "hm_wf crc hm1" "hm_abs hm1 = (hm_abs hm)(entry_key e \<mapsto> he_data e)" "hm_alloc hm1 = hm_alloc hm"
        "hm_active hm1 \<le> hm_active hm + 1"
      by (rule hm_add_loop_abs [OF Cons.prems(1) lt k mem, where fuel = fuel and d = "he_data e"]) (rule that)
    have "NC_hashmapadd mem crc (Suc fuel) hm (he_data e) (entry_key e) = Done (True, hm1)"
      using k room hm1(1) by simp
    then have step: "hm_reinsert mem crc (Suc fuel) (e # es) hm = hm_reinsert mem crc (Suc fuel) es hm1"
      using True by (simp add: entry_key_def)
    have "\<exists>hm'. hm_reinsert mem crc (Suc fuel) es hm1 = Done hm' \<and> hm_wf crc hm' \<and>
        hm_abs hm' = hm_abs hm1 ++ entries_map es \<and> hm_alloc hm' = hm_alloc hm1"
      using Cons.prems hm1(2,4,5) unfolding act by (intro Cons.IH) auto
    moreover have "entry_key e \<notin> dom (entries_map es)"
      using Cons.prems(3) unfolding act by (auto simp: entries_map_def dom_map_of_conv_image_fst)
    then have "hm_abs hm1 ++ entries_map es = hm_abs hm ++ entries_map (e # es)"
      unfolding hm1(3) entries_map_def act by (auto simp: fun_eq_iff map_add_def split: option.splits)
    ultimately show ?thesis using step hm1(4) by auto
  qed
qed

text \<open>The entries of a table, in any order, list its abstraction.\<close>

lemma active_entries_set: "set (active_entries (hm_table hm)) = (!) (hm_table hm) ` hm_used (hm_table hm)"
  by (auto simp: active_entries_def hm_used_def in_set_conv_nth)

lemma length_active_entries: "hm_wf crc hm \<Longrightarrow> length (active_entries (hm_table hm)) = hm_active hm"
  by (simp add: hm_wfD(3) active_entries_def length_filter_conv_card hm_used_def)

lemma entry_key_is: "hm_wf crc hm \<Longrightarrow> hm_is hm i k \<Longrightarrow> entry_key (hm_table hm ! i) = k"
  using hm_wfD(5) by (fastforce simp: entry_key_def hm_is_def)

lemma distinct_entry_keys:
  assumes wf: "hm_wf crc hm"
  shows "distinct (map entry_key (active_entries (hm_table hm)))"
proof -
  let ?t = "hm_table hm"
  have "distinct (map entry_key (filter (\<lambda>e. he_flags e = ACTIVE) (map ((!) ?t) [0..<length ?t])))"
    unfolding filter_map map_map distinct_map
  proof (intro conjI inj_onI)
    show "distinct (filter ((\<lambda>e. he_flags e = ACTIVE) \<circ> (!) ?t) [0..<length ?t])" by simp
    fix i j assume ij: "i \<in> set (filter ((\<lambda>e. he_flags e = ACTIVE) \<circ> (!) ?t) [0..<length ?t])"
        "j \<in> set (filter ((\<lambda>e. he_flags e = ACTIVE) \<circ> (!) ?t) [0..<length ?t])"
      and eq: "(entry_key \<circ> (!) ?t) i = (entry_key \<circ> (!) ?t) j"
    then obtain k k' where "hm_is hm i k" "hm_is hm j k'"
      using hm_wfD(6) [OF wf, of i] hm_wfD(6) [OF wf, of j] by auto
    with eq entry_key_is [OF wf] hm_wfD(4) [OF wf] show "i = j" by auto
  qed
  then show ?thesis by (simp add: active_entries_def map_nth)
qed

lemma entries_map_table:
  assumes wf: "hm_wf crc hm" and es: "set es = set (hm_table hm)" "distinct (map entry_key (active_entries es))"
  shows "entries_map es = hm_abs hm"
proof
  fix k
  have acts: "set (active_entries es) = set (active_entries (hm_table hm))"
    using es(1) by (auto simp: active_entries_def)
  have some: "entries_map es k = Some d \<longleftrightarrow> hm_abs hm k = Some d" for d
  proof -
    have "entries_map es k = Some d \<longleftrightarrow> (k, d) \<in> set (map (\<lambda>e. (entry_key e, he_data e)) (active_entries es))"
      unfolding entries_map_def by (rule map_of_eq_Some_iff) (use es(2) in \<open>simp add: comp_def\<close>)
    also have "\<dots> \<longleftrightarrow> (\<exists>i \<in> hm_used (hm_table hm). entry_key (hm_table hm ! i) = k \<and> he_data (hm_table hm ! i) = d)"
      using acts active_entries_set [of hm] by auto
    also have "\<dots> \<longleftrightarrow> (\<exists>i. hm_is hm i k \<and> he_data (hm_table hm ! i) = d)"
    proof
      assume "\<exists>i \<in> hm_used (hm_table hm). entry_key (hm_table hm ! i) = k \<and> he_data (hm_table hm ! i) = d"
      then obtain i where i: "i < length (hm_table hm)" "he_flags (hm_table hm ! i) = ACTIVE"
          "entry_key (hm_table hm ! i) = k" "he_data (hm_table hm ! i) = d" by (auto simp: hm_used_def)
      with hm_wfD(6) [OF wf] entry_key_is [OF wf] show "\<exists>i. hm_is hm i k \<and> he_data (hm_table hm ! i) = d" by metis
    next
      assume "\<exists>i. hm_is hm i k \<and> he_data (hm_table hm ! i) = d"
      then obtain i where "hm_is hm i k" "he_data (hm_table hm ! i) = d" by blast
      with entry_key_is [OF wf] show "\<exists>i \<in> hm_used (hm_table hm). entry_key (hm_table hm ! i) = k \<and> he_data (hm_table hm ! i) = d"
        by (intro bexI [of _ i]) (auto simp: hm_is_def hm_used_def)
    qed
    also have "\<dots> \<longleftrightarrow> hm_abs hm k = Some d" using hm_abs_Some [OF wf] by blast
    finally show ?thesis .
  qed
  then show "entries_map es k = hm_abs hm k" by (metis not_None_eq)
qed

lemma rehash_abs:
  assumes wf: "hm_wf crc hm" and small: "hm_alloc hm \<le> 90248" and mem: "\<And>n. mem n"
  obtains hm' where "rehash mem crc (Suc (Suc fuel)) hm = Done hm'" "hm_wf crc hm'" "hm_abs hm' = hm_abs hm"
    "2 * hm_alloc hm \<le> hm_alloc hm'" "hm_alloc hm' \<le> 180497"
proof -
  have "0 < 2 * hm_alloc hm" "2 * hm_alloc hm \<le> 180497" using hm_wfD(2) [OF wf] small by simp_all
  then obtain n where n: "findPrimeGreaterThan (2 * hm_alloc hm) = Done n" "2 * hm_alloc hm \<le> n" "n \<le> 180497"
    using findPrimeGreaterThan_Done by metis
  let ?es = "rev (hm_table hm)"
  have acts: "active_entries ?es = rev (active_entries (hm_table hm))"
    by (simp add: active_entries_def rev_filter)
  then have dist: "distinct (map entry_key (active_entries ?es))"
    using distinct_entry_keys [OF wf] by (simp add: rev_map [symmetric])
  have "\<forall>e \<in> set (active_entries ?es). entry_key e \<noteq> []"
    using hm_wfD(5,6) [OF wf] entry_key_is [OF wf]
    unfolding acts set_rev active_entries_set by (fastforce simp: hm_used_def)
  moreover have "length (active_entries ?es) \<le> n * 3 div 4"
    using length_active_entries [OF wf] hm_active_le [OF wf] n(2) unfolding acts by simp
  moreover have "0 < n" using n(2) hm_wfD(2) [OF wf] by simp
  ultimately obtain hm' where hm': "hm_reinsert mem crc (Suc fuel) ?es (hm_fresh n) = Done hm'" "hm_wf crc hm'"
      "hm_abs hm' = Map.empty ++ entries_map ?es" "hm_alloc hm' = n"
    using hm_reinsert_abs [where mem = mem and crc = crc and es = ?es and hm = "hm_fresh n" and fuel = fuel,
        OF mem hm_fresh_wf _ dist] hm_fresh_abs
    by (metis (no_types, lifting) NC_hashmap.select_convs(1,2) add_0)
  have "rehash mem crc (Suc (Suc fuel)) hm = Done hm'"
    using n(1) small hm'(1) mem by simp
  moreover have "hm_abs hm' = hm_abs hm"
    using hm'(3) entries_map_table [OF wf _ dist] by simp
  ultimately show ?thesis using hm'(2,4) n that by blast
qed

lemma NC_hashmapadd_abs:
  assumes wf: "hm_wf crc hm" and k: "k \<noteq> []" and mem: "\<And>n. mem n"
    and room: "hm_alloc hm \<le> 90248 \<or> hm_active hm < hm_alloc hm * 3 div 4"
  obtains hm' where "NC_hashmapadd mem crc (Suc (Suc fuel)) hm d k = Done (True, hm')" "hm_wf crc hm'"
    "hm_abs hm' = (hm_abs hm)(k \<mapsto> d)"
proof (cases "hm_alloc hm * 3 div 4 \<le> hm_active hm")
  case False
  then have "hm_active hm < hm_alloc hm" by linarith
  then obtain hm' where "hm_add_loop mem crc (Suc (Suc fuel)) hm d k = Done (True, hm')" "hm_wf crc hm'"
      "hm_abs hm' = (hm_abs hm)(k \<mapsto> d)"
    by (rule hm_add_loop_abs [OF wf _ k mem, where fuel = "Suc fuel" and d = d]) (rule that)
  with False k show ?thesis by (intro that [of hm']) simp_all
next
  case True
  with room have small: "hm_alloc hm \<le> 90248" by simp
  obtain hm1 where hm1: "rehash mem crc (Suc (Suc fuel)) hm = Done hm1" "hm_wf crc hm1" "hm_abs hm1 = hm_abs hm"
      "2 * hm_alloc hm \<le> hm_alloc hm1"
    by (rule rehash_abs [OF wf small mem, where fuel = fuel]) (rule that)
  have "hm_active hm1 = hm_active hm" using card_dom_abs(1) [OF wf] card_dom_abs(1) [OF hm1(2)] hm1(3) by simp
  then have "hm_active hm1 < hm_alloc hm1" using hm_active_le [OF wf] hm_wfD(2) [OF wf] hm1(4) by simp
  then obtain hm' where "hm_add_loop mem crc (Suc (Suc fuel)) hm1 d k = Done (True, hm')" "hm_wf crc hm'"
      "hm_abs hm' = (hm_abs hm1)(k \<mapsto> d)"
    by (rule hm_add_loop_abs [OF hm1(2) _ k mem, where fuel = "Suc fuel" and d = d]) (rule that)
  with True k hm1(1,3) show ?thesis by (intro that [of hm']) simp_all
qed

text \<open>Below 67686 keys there is always room.\<close>

lemma hm_room:
  assumes "hm_wf crc hm" "card (dom (hm_abs hm)) < 67686"
  shows "hm_alloc hm \<le> 90248 \<or> hm_active hm < hm_alloc hm * 3 div 4"
  using card_dom_abs(1) [OF assms(1)] assms(2) by linarith

lemma NC_hashmapadd_full:
  assumes wf: "hm_wf crc hm" and k: "k \<noteq> []" and full: "hm_alloc hm * 3 div 4 \<le> hm_active hm"
    and big: "90248 < hm_alloc hm" "hm_alloc hm < 2147483647"
  shows "NC_hashmapadd mem crc fuel hm d k = Loop"
proof (cases fuel)
  case (Suc f)
  have "findPrimeGreaterThan (2 * hm_alloc hm) = Loop"
    using big by (intro findPrimeGreaterThan_Loop) simp_all
  with Suc k full big show ?thesis by simp
qed (use k full in simp)

lemma NC_hashmapnew_abs:
  assumes "\<And>n. mem n" "startsize \<le> 135373"
  obtains hm where "NC_hashmapnew mem startsize = Done hm" "hm_wf crc hm" "hm_abs hm = Map.empty"
proof -
  obtain n where n: "NC_hashmapnew mem startsize = Done (hm_fresh n)" "0 < n"
  proof (cases "startsize < MINTABLESIZE")
    case True
    then show ?thesis using assms(1) by (intro that [of MINTABLESIZE]) (simp_all add: NC_hashmapnew_def)
  next
    case False
    then have "0 < startsize * 4 div 3" "startsize * 4 div 3 \<le> 180497" using assms(2) by simp_all
    then obtain q where "findPrimeGreaterThan (startsize * 4 div 3) = Done q" "startsize * 4 div 3 \<le> q"
      using findPrimeGreaterThan_Done by metis
    with False assms show ?thesis by (intro that [of q]) (simp_all add: NC_hashmapnew_def)
  qed
  from n(1) hm_fresh_wf [OF n(2)] hm_fresh_abs show ?thesis by (rule that)
qed

lemma NC_hashmapsetdata_present:
  assumes wf: "hm_wf crc hm" and i: "hm_is hm i k"
  shows "NC_hashmapsetdata crc (Some hm) k d =
    Done (True, Some (hm\<lparr>hm_table := (hm_table hm)[i := (hm_table hm ! i)\<lparr>he_data := d\<rparr>]\<rparr>))"
proof -
  have il: "i < length (hm_table hm)" "he_flags (hm_table hm ! i) = ACTIVE" using i by (simp_all add: hm_is_def)
  then have "i \<in> hm_used (hm_table hm)" by (simp add: hm_used_def)
  then have "hm_active hm \<noteq> 0" using hm_wfD(3) [OF wf] by auto
  then show ?thesis
    using il hm_wfD(5) [OF wf i] locate_stored [OF wf i] by (simp add: NC_hashmapsetdata_def)
qed

lemma hm_deactivate_from_spec:
  assumes wf: "hm_wf crc hm"
  shows "i + n = hm_alloc hm \<Longrightarrow> \<forall>j < i. \<not> (he_flags (hm_table hm ! j) = ACTIVE \<and> he_data (hm_table hm ! j) = d) \<Longrightarrow>
    (if d \<in> ran (hm_abs hm)
     then \<exists>j k. hm_is hm j k \<and> he_data (hm_table hm ! j) = d \<and>
            hm_deactivate_from hm d i n = Done (True, hm_delete_at hm j)
     else hm_deactivate_from hm d i n = Done (False, hm))"
proof (induction n arbitrary: i)
  case 0
  have "d \<notin> ran (hm_abs hm)"
  proof
    assume "d \<in> ran (hm_abs hm)"
    then obtain k j where "hm_is hm j k" "he_data (hm_table hm ! j) = d"
      using hm_abs_Some [OF wf] by (auto simp: ran_def)
    with 0 hm_wfD(1) [OF wf] show False by (auto simp: hm_is_def)
  qed
  then show ?case by simp
next
  case (Suc n)
  then have il: "i < length (hm_table hm)" using hm_wfD(1) [OF wf] by simp
  show ?case
  proof (cases "he_flags (hm_table hm ! i) = ACTIVE \<and> he_data (hm_table hm ! i) = d")
    case True
    with hm_wfD(6) [OF wf il] obtain k where k: "hm_is hm i k" by blast
    with True have "d \<in> ran (hm_abs hm)" using hm_abs_is [OF wf k] by (auto simp: ran_def)
    with True k il show ?thesis by auto
  next
    case False
    moreover have "\<forall>j < Suc i. \<not> (he_flags (hm_table hm ! j) = ACTIVE \<and> he_data (hm_table hm ! j) = d)"
      using Suc.prems(2) False less_Suc_eq by auto
    moreover have "hm_deactivate_from hm d i (Suc n) = hm_deactivate_from hm d (Suc i) n"
      using il False by auto
    ultimately show ?thesis using Suc.IH [of "Suc i"] Suc.prems(1) by (simp only:) simp
  qed
qed

lemma NC_hashmapdeactivate_abs:
  assumes wf: "hm_wf crc hm" and d: "d \<in> ran (hm_abs hm)"
  shows "\<exists>hm' k. NC_hashmapdeactivate hm d = Done (True, hm') \<and> hm_wf crc hm' \<and>
    hm_abs hm k = Some d \<and> hm_abs hm' = (hm_abs hm)(k := None)"
proof -
  from hm_deactivate_from_spec [OF wf, of 0 "hm_alloc hm" d] d obtain j k where
    "hm_is hm j k" "he_data (hm_table hm ! j) = d" "NC_hashmapdeactivate hm d = Done (True, hm_delete_at hm j)"
    by (auto simp: NC_hashmapdeactivate_def)
  then show ?thesis using hm_delete [OF wf] hm_abs_is [OF wf] by blast
qed

subsection \<open>A map from names to indices\<close>

text \<open>
  What the dimension and variable arrays rely on: a finite map from names to indices, with
  room for \<open>cap\<close> names. \<open>names_map\<close> is the map of an array of names to their positions.
\<close>

definition names_map :: "string list \<Rightarrow> string \<Rightarrow> nat option" where
  "names_map names = map_of (zip names [0..<length names])"

lemma names_map_None: "names_map names k = None \<longleftrightarrow> k \<notin> set names"
  using dom_map_of_zip [of names "[0..<length names]"] by (auto simp: names_map_def)

lemma dom_names_map: "dom (names_map names) = set names"
  using names_map_None by (metis domIff subsetI subset_antisym)

lemma names_map_Some: "distinct names \<Longrightarrow> names_map names k = Some i \<longleftrightarrow> i < length names \<and> names ! i = k"
  unfolding names_map_def by (auto simp: map_of_eq_Some_iff set_zip)

lemma names_map_nth: "distinct names \<Longrightarrow> i < length names \<Longrightarrow> names_map names (names ! i) = Some i"
  by (simp add: names_map_Some)

lemma names_map_append: "k \<notin> set names \<Longrightarrow> names_map (names @ [k]) = (names_map names)(k \<mapsto> length names)"
proof
  fix q assume k: "k \<notin> set names"
  have "names_map (names @ [k]) = [k \<mapsto> length names] ++ names_map names" by (simp add: names_map_def)
  moreover have "names_map names k = None" using k by (simp add: names_map_None)
  ultimately show "names_map (names @ [k]) q = ((names_map names)(k \<mapsto> length names)) q"
    by (cases "names_map names q") (auto simp: map_add_def)
qed

lemma names_map_update:
  assumes "distinct names" "i < length names" "k \<notin> set names"
  shows "names_map (names[i := k]) = ((names_map names)(names ! i := None))(k \<mapsto> i)"
proof
  fix q
  have d: "distinct (names[i := k])" using assms by (simp add: distinct_list_update)
  show "names_map (names[i := k]) q = (((names_map names)(names ! i := None))(k \<mapsto> i)) q"
  proof (cases "names_map (names[i := k]) q")
    case None
    then have q: "q \<notin> set (names[i := k])" by (simp add: names_map_None)
    with assms(2) have "q \<noteq> k" by (metis set_update_memI)
    moreover have "q = names ! i \<or> q \<notin> set names"
      using q by (metis in_set_conv_nth length_list_update nth_list_update_neq)
    ultimately show ?thesis using None names_map_None [of names q] by auto
  next
    case (Some j)
    with names_map_Some [OF d] have j: "j < length names" "names[i := k] ! j = q" by auto
    show ?thesis
    proof (cases "j = i")
      case True
      with j Some show ?thesis by simp
    next
      case False
      with j have q: "q = names ! j" by simp
      with False j assms have "q \<noteq> names ! i" "q \<noteq> k" by (auto simp: nth_eq_iff_index_eq)
      with q j Some show ?thesis using names_map_nth [OF assms(1) j(1)] by simp
    qed
  qed
qed

locale name_map =
  fixes inv :: "'m \<Rightarrow> bool"
    and abs :: "'m \<Rightarrow> string \<Rightarrow> nat option"
    and get :: "'m \<Rightarrow> string \<Rightarrow> nat option run"
    and add :: "'m \<Rightarrow> nat \<Rightarrow> string \<Rightarrow> (bool \<times> 'm) run"
    and remove :: "'m \<Rightarrow> string \<Rightarrow> (nat option \<times> 'm) run"
    and cap :: nat
  assumes get_law: "inv m \<Longrightarrow> get m k = Done (abs m k)"
    and add_law: "inv m \<Longrightarrow> k \<noteq> [] \<Longrightarrow> card (dom (abs m)) < cap \<Longrightarrow>
      \<exists>m'. add m d k = Done (True, m') \<and> inv m' \<and> abs m' = (abs m)(k \<mapsto> d)"
    and remove_law: "inv m \<Longrightarrow>
      \<exists>m'. remove m k = Done (abs m k, m') \<and> inv m' \<and> abs m' = (abs m)(k := None)"
begin

definition indexes :: "'m \<Rightarrow> string list \<Rightarrow> bool" where
  "indexes m names \<longleftrightarrow> inv m \<and> distinct names \<and> [] \<notin> set names \<and> abs m = names_map names"

lemma indexes_find: "indexes m names \<Longrightarrow> get m k = Done (names_map names k)"
  by (simp add: indexes_def get_law)

lemma indexes_card: "indexes m names \<Longrightarrow> card (dom (abs m)) = length names"
  by (simp add: indexes_def dom_names_map distinct_card)

lemma indexes_add:
  assumes "indexes m names" "k \<noteq> []" "k \<notin> set names" "length names < cap"
  shows "\<exists>m'. add m (length names) k = Done (True, m') \<and> indexes m' (names @ [k])"
proof -
  from assms indexes_card obtain m' where m': "add m (length names) k = Done (True, m')" "inv m'"
      "abs m' = (abs m)(k \<mapsto> length names)"
    using add_law by (metis indexes_def)
  with assms have "indexes m' (names @ [k])" by (auto simp: indexes_def names_map_append)
  with m'(1) show ?thesis by blast
qed

text \<open>Renaming entry \<open>i\<close>: remove the old name, add the new one.\<close>

lemma indexes_rename:
  assumes ix: "indexes m names" and k: "k \<noteq> []" "k \<notin> set names" and i: "i < length names"
    and room: "length names \<le> cap"
  shows "\<exists>m1 m'. remove m (names ! i) = Done (Some i, m1) \<and> add m1 i k = Done (True, m') \<and>
    indexes m' (names[i := k])"
proof -
  let ?q = "names ! i"
  have d: "distinct names" "abs m = names_map names" "inv m" "[] \<notin> set names" using ix by (auto simp: indexes_def)
  then obtain m1 where m1: "remove m ?q = Done (Some i, m1)" "inv m1" "abs m1 = (names_map names)(?q := None)"
    using remove_law [of m ?q] names_map_nth [OF d(1) i] by auto
  have "dom (abs m1) = set names - {?q}" unfolding m1(3) using dom_names_map by auto
  then have "card (dom (abs m1)) < cap" using d(1) i room by (simp add: distinct_card)
  with add_law [OF m1(2) k(1), of i] obtain m' where
    m': "add m1 i k = Done (True, m')" "inv m'" "abs m' = ((names_map names)(?q := None))(k \<mapsto> i)"
    using m1(3) by auto
  have "indexes m' (names[i := k])"
    using m'(2,3) d k names_map_update [OF d(1) i k(2)]
    by (auto simp: indexes_def distinct_list_update dest: set_update_subset_insert [THEN subsetD])
  with m1(1) m'(1) show ?thesis by blast
qed

end

interpretation nm: name_map "hm_wf crc" hm_abs "NC_hashmapget crc" "NC_hashmapadd (\<lambda>_. True) crc 2"
    "NC_hashmapremove crc" 67686
  for crc
proof (unfold_locales, goal_cases)
  case (1 m k)
  then show ?case by (rule NC_hashmapget_abs)
next
  case (2 m k d)
  have "NC_hashmapadd (\<lambda>_. True) crc (Suc (Suc 0)) m d k = NC_hashmapadd (\<lambda>_. True) crc 2 m d k"
    by (simp add: numeral_2_eq_2)
  with 2 show ?case
    by (metis NC_hashmapadd_abs hm_room)
next
  case (3 m k)
  from 3 show ?case by (rule NC_hashmapremove_abs) blast
qed

lemma indexes_fresh: "0 < n \<Longrightarrow> nm.indexes crc (hm_fresh n) []"
  by (simp add: nm.indexes_def hm_fresh_wf hm_fresh_abs names_map_def)


lemma locate_absent_empty:
  assumes wf: "hm_wf crc hm" and k: "k \<noteq> []" "\<forall>i. \<not> hm_is hm i k"
    and e: "\<exists>m < hm_alloc hm. he_flags (hm_table hm ! hm_slot crc hm k m) = EMPTY"
  shows "\<exists>j. locate hm (crc k) k False = Done (Some (hm_slot crc hm k j)) \<and>
    he_flags (hm_table hm ! hm_slot crc hm k j) = EMPTY"
proof -
  obtain r del where r: "locate_loop (hm_table hm) (crc k) k (hm_alloc hm) (hm_slot crc hm k 0) None = Done (r, del)"
      "probe_ok crc hm k 0 r"
    using locate_loop_spec [OF wf k(1), of 0 "hm_alloc hm" None] by auto
  from r(2) e k(2) obtain j where "r = Some (hm_slot crc hm k j)" "he_flags (hm_table hm ! hm_slot crc hm k j) = EMPTY"
    by (cases r) (auto simp: probe_ok_def hm_stops_def)
  with r(1) hm_wfD(2) [OF wf] show ?thesis by (auto simp: locate_def hm_slot_def)
qed

lemma hm_one_wf: "hm_wf length (hm_put length (hm_fresh 131) 4 7 ''time'')"
proof -
  have "hm_slot length (hm_fresh 131) ''time'' 0 = 4" by (simp add: hm_slot_def)
  moreover have "hm_wf length (hm_put length (hm_fresh 131) (hm_slot length (hm_fresh 131) ''time'' 0) 7 ''time'')"
    by (rule hm_put_wf [OF hm_fresh_wf]) (simp_all add: hm_is_def empty_hentry_def hm_slot_def)
  ultimately show ?thesis by simp
qed

subsection \<open>Properties\<close>

text \<open>
  C34: adding a key to a well-formed table that holds fewer than 67686 keys returns, whether or
  not the table is rehashed on the way; afterwards the key has its new value and every other
  key the value it had.
\<close>

theorem NC_hashmapadd_get:
  assumes wf: "hm_wf crc hm" and k: "k \<noteq> []" and room: "card (dom (hm_abs hm)) < 67686"
  shows "\<exists>hm'. NC_hashmapadd (\<lambda>_. True) crc 2 hm d k = Done (True, hm') \<and> hm_wf crc hm' \<and>
    (\<forall>q. NC_hashmapget crc hm' q = (if q = k then Done (Some d) else NC_hashmapget crc hm q))"
  using nm.add_law [OF wf k room, of d] nm.get_law [OF wf] nm.get_law by (metis fun_upd_apply)

theorem NC_hashmapadd_get_witness:
  "\<exists>hm'. NC_hashmapadd (\<lambda>_. True) length 2 (hm_fresh 131) 7 ''time'' = Done (True, hm') \<and> hm_wf length hm' \<and>
    (\<forall>q. NC_hashmapget length hm' q = (if q = ''time'' then Done (Some 7) else NC_hashmapget length (hm_fresh 131) q))"
  by (rule NC_hashmapadd_get) (simp_all add: hm_fresh_wf hm_fresh_abs)

text \<open>
  Removing a key returns the value a lookup would have found (or reports that there is
  none), and afterwards only that key is gone, although the slot keeps its place in the probe
  sequences of the other keys.
\<close>

theorem NC_hashmapremove_get:
  assumes wf: "hm_wf crc hm"
  shows "\<exists>r hm'. NC_hashmapget crc hm k = Done r \<and> NC_hashmapremove crc hm k = Done (r, hm') \<and> hm_wf crc hm' \<and>
    (\<forall>q. NC_hashmapget crc hm' q = (if q = k then Done None else NC_hashmapget crc hm q))"
  using nm.remove_law [OF wf, of k] nm.get_law [OF wf] nm.get_law by (metis fun_upd_apply)

theorem NC_hashmapremove_get_witness:
  "\<exists>r hm'. NC_hashmapget length (hm_put length (hm_fresh 131) 4 7 ''time'') ''time'' = Done r \<and>
    NC_hashmapremove length (hm_put length (hm_fresh 131) 4 7 ''time'') ''time'' = Done (r, hm') \<and> hm_wf length hm' \<and>
    (\<forall>q. NC_hashmapget length hm' q = (if q = ''time'' then Done None
       else NC_hashmapget length (hm_put length (hm_fresh 131) 4 7 ''time'') q))"
  by (rule NC_hashmapremove_get [OF hm_one_wf])

text \<open>
  \<open>NC_hashmapsetdata\<close> on a key that a lookup does not find aborts, as soon as the table
  has one slot that was never used: \<open>locate\<close> hands it the empty slot and
  \<open>assert ((h->flags & ACTIVE) == ACTIVE)\<close> fails, where the function is meant to return 0.
\<close>

theorem NC_hashmapsetdata_absent:
  assumes wf: "hm_wf crc hm" and k: "k \<noteq> []" "NC_hashmapget crc hm k = Done None"
    and used: "hm_active hm \<noteq> 0" and slot: "\<exists>e \<in> set (hm_table hm). he_flags e = EMPTY"
  shows "NC_hashmapsetdata crc (Some hm) k d = Fault"
proof -
  have "\<forall>i. \<not> hm_is hm i k" using k(2) NC_hashmapget_abs [OF wf] hm_abs_None by simp
  note absent = this
  obtain n where "n < hm_alloc hm" "he_flags (hm_table hm ! n) = EMPTY"
    using slot hm_wfD(1) [OF wf] by (auto simp: in_set_conv_nth)
  with hm_slot_ex [of n hm crc k] have "\<exists>m < hm_alloc hm. he_flags (hm_table hm ! hm_slot crc hm k m) = EMPTY" by blast
  then obtain j where "locate hm (crc k) k False = Done (Some (hm_slot crc hm k j))"
      "he_flags (hm_table hm ! hm_slot crc hm k j) = EMPTY"
    using locate_absent_empty [OF wf k(1) absent] by blast
  with k(1) used hm_slot_in [OF wf] show ?thesis by (simp add: NC_hashmapsetdata_def)
qed

theorem NC_hashmapsetdata_absent_witness:
  "NC_hashmapsetdata length (Some (hm_put length (hm_fresh 131) 4 7 ''time'')) ''x'' 1 = Fault"
proof (rule NC_hashmapsetdata_absent [OF hm_one_wf])
  have "\<forall>i. \<not> hm_is (hm_put length (hm_fresh 131) 4 7 ''time'') i ''x''"
    by (simp add: hm_is_put) (simp add: hm_is_def empty_hentry_def)
  then show "NC_hashmapget length (hm_put length (hm_fresh 131) 4 7 ''time'') ''x'' = Done None"
    using NC_hashmapget_abs [OF hm_one_wf] hm_abs_None by simp
  have "hm_table (hm_put length (hm_fresh 131) 4 7 ''time'') ! 0 = empty_hentry" by (simp add: hm_put_def)
  moreover have "0 < length (hm_table (hm_put length (hm_fresh 131) 4 7 ''time''))" by (simp add: hm_put_def)
  ultimately show "\<exists>e \<in> set (hm_table (hm_put length (hm_fresh 131) 4 7 ''time'')). he_flags e = EMPTY"
    by (metis NC_hentry.select_convs(1) empty_hentry_def nth_mem)
qed (simp_all add: hm_put_def)

text \<open>
  C39: the size search does not return for a size between 180498 and 0xFFFFFFFE (the bisection
  stops halving once the bounds are neighbours), so that a table of 135374 or more entries
  cannot be created, and a table of more than 90248 slots cannot be rehashed.
\<close>

theorem NC_hashmap_growth_hangs:
  assumes "180497 < v" "v < 4294967295" "135374 \<le> startsize" "startsize \<le> 3221225470"
    and "90248 < hm_alloc hm" "hm_alloc hm < 2147483647"
  shows "findPrimeGreaterThan v = Loop \<and> NC_hashmapnew mem startsize = Loop \<and> rehash mem crc (Suc fuel) hm = Loop"
proof -
  have "findPrimeGreaterThan (startsize * 4 div 3) = Loop" "findPrimeGreaterThan (2 * hm_alloc hm) = Loop"
    using assms by (auto intro!: findPrimeGreaterThan_Loop)
  then show ?thesis using assms findPrimeGreaterThan_Loop by (simp add: NC_hashmapnew_def)
qed

theorem NC_hashmap_growth_hangs_witness:
  "findPrimeGreaterThan 180498 = Loop \<and> NC_hashmapnew (\<lambda>_. True) 135374 = Loop \<and>
    rehash (\<lambda>_. True) length (Suc 9) (hm_fresh 100003) = Loop"
  by (rule NC_hashmap_growth_hangs) simp_all

text \<open>From here on the operations are used through their laws.\<close>

declare rehash.simps [simp del]
declare hm_reinsert.simps [simp del]
declare NC_hashmapadd.simps [simp del]
declare hm_add_loop.simps [simp del]

end
