(* ===== verification/NC3_Types.thy ===== *)
theory NC3_Types
  imports NC_Hash
begin

text \<open>
  The data of \<open>include/nc3internal.h\<close>: what a classic (CDF-1, CDF-2, CDF-5) file keeps in
  memory. A byte is a \<open>char\<close>. A pointer array with its \<open>nelems\<close> is the list of what it
  points to, \<open>nalloc\<close> is kept beside it. \<open>size_t\<close>, \<open>off_t\<close> and \<open>long long\<close> values are
  \<open>int\<close>; the operations write out where they wrap. \<open>NC3_INFO\<close> is \<open>nc3_hdr\<close> with what a redef
  does not duplicate; the ncio behind \<open>nciop\<close> is the state argument of the operations that
  use it, only its \<open>ioflags\<close> are here.
\<close>

text \<open>\<open>NC_string\<close>: \<open>cp\<close> holds exactly \<open>nchars\<close> bytes, with NULs behind a shorter name.\<close>

record NC_string =
  nchars :: nat
  cp :: string

text \<open>The C string at \<open>cp\<close>, and its \<open>strlen\<close>.\<close>

definition cstr :: "NC_string \<Rightarrow> string" where
  "cstr s = takeWhile (\<lambda>c. c \<noteq> CHR 0x00) (cp s)"

record NC_dim =
  dim_name :: NC_string
  dim_size :: int

record NC_dimarray =
  dims_nalloc :: nat
  dims_hashmap :: "NC_hashmap option"
  dims_value :: "NC_dim list"

record NC_attr =
  att_xsz :: nat
  att_name :: NC_string
  att_type :: int
  att_nelems :: nat
  att_xvalue :: string

record NC_attrarray =
  atts_nalloc :: nat
  atts_value :: "NC_attr list"

text \<open>\<open>shape\<close>, \<open>dsizes\<close> and \<open>dimids\<close> are NULL exactly if \<open>ndims\<close> is 0: the empty list.\<close>

record NC_var =
  var_xsz :: int
  var_shape :: "int list"
  var_dsizes :: "int list"
  var_name :: NC_string
  var_ndims :: nat
  var_dimids :: "int list"
  var_attrs :: NC_attrarray
  var_type :: int
  var_len :: int
  var_begin :: int
  var_no_fill :: bool

record NC_vararray =
  vars_nalloc :: nat
  vars_hashmap :: "NC_hashmap option"
  vars_value :: "NC_var list"

record nc3_hdr =
  xsz :: int
  begin_var :: int
  begin_rec :: int
  recsize :: int
  numrecs :: int
  dims :: NC_dimarray
  attrs :: NC_attrarray
  vars :: NC_vararray

record nc3_info = nc3_hdr +
  old :: "nc3_hdr option"
  flags :: int
  ioflags :: int
  chunk :: int

subsection \<open>Flags\<close>

definition fIsSet :: "int \<Rightarrow> int \<Rightarrow> bool" where "fIsSet f b \<longleftrightarrow> and f b \<noteq> 0"
definition fSet :: "int \<Rightarrow> int \<Rightarrow> int" where "fSet f b = or f b"
definition fClr :: "int \<Rightarrow> int \<Rightarrow> int" where "fClr f b = and f (not b)"

abbreviation (input) "NC_WRITE \<equiv> (1::int)"
abbreviation (input) "NC_CREAT \<equiv> (2::int)"
abbreviation (input) "NC_INDEF \<equiv> (8::int)"
abbreviation (input) "NC_NSYNC \<equiv> (16::int)"
abbreviation (input) "NC_HSYNC \<equiv> (32::int)"
abbreviation (input) "NC_NDIRTY \<equiv> (64::int)"
abbreviation (input) "NC_HDIRTY \<equiv> (128::int)"
abbreviation (input) "NC_NOFILL \<equiv> (256::int)"
abbreviation (input) "NC_64BIT_DATA \<equiv> (32::int)"
abbreviation (input) "NC_64BIT_OFFSET \<equiv> (512::int)"

lemma fIsSet_bit: "fIsSet f (2 ^ n) \<longleftrightarrow> bit f n"
  by (simp add: fIsSet_def and_exp_eq_0_iff_not_bit)

lemma fSet_bit: "bit (fSet f b) n \<longleftrightarrow> bit f n \<or> bit b n"
  by (simp add: fSet_def bit_or_iff)

lemma fClr_bit: "bit (fClr f b) n \<longleftrightarrow> bit f n \<and> \<not> bit b n"
  by (simp add: fClr_def bit_and_iff bit_not_iff)

lemma fIsSet_single:
  "fIsSet f 1 \<longleftrightarrow> bit f 0" "fIsSet f 2 \<longleftrightarrow> bit f 1" "fIsSet f 8 \<longleftrightarrow> bit f 3" "fIsSet f 16 \<longleftrightarrow> bit f 4"
  "fIsSet f 32 \<longleftrightarrow> bit f 5" "fIsSet f 64 \<longleftrightarrow> bit f 6" "fIsSet f 128 \<longleftrightarrow> bit f 7" "fIsSet f 256 \<longleftrightarrow> bit f 8"
  "fIsSet f 512 \<longleftrightarrow> bit f 9"
  using fIsSet_bit [of f 0] fIsSet_bit [of f 1] fIsSet_bit [of f 3] fIsSet_bit [of f 4] fIsSet_bit [of f 5]
    fIsSet_bit [of f 6] fIsSet_bit [of f 7] fIsSet_bit [of f 8] fIsSet_bit [of f 9] by simp_all

definition NC_readonly :: "'a nc3_info_scheme \<Rightarrow> bool" where
  "NC_readonly ncp \<longleftrightarrow> \<not> fIsSet (ioflags ncp) NC_WRITE"
definition NC_IsNew :: "'a nc3_info_scheme \<Rightarrow> bool" where
  "NC_IsNew ncp \<longleftrightarrow> fIsSet (flags ncp) NC_CREAT"
definition NC_indef :: "'a nc3_info_scheme \<Rightarrow> bool" where
  "NC_indef ncp \<longleftrightarrow> NC_IsNew ncp \<or> fIsSet (flags ncp) NC_INDEF"
definition set_NC_ndirty :: "'a nc3_info_scheme \<Rightarrow> 'a nc3_info_scheme" where
  "set_NC_ndirty ncp = ncp\<lparr>flags := fSet (flags ncp) NC_NDIRTY\<rparr>"
definition NC_ndirty :: "'a nc3_info_scheme \<Rightarrow> bool" where
  "NC_ndirty ncp \<longleftrightarrow> fIsSet (flags ncp) NC_NDIRTY"
definition set_NC_hdirty :: "'a nc3_info_scheme \<Rightarrow> 'a nc3_info_scheme" where
  "set_NC_hdirty ncp = ncp\<lparr>flags := fSet (flags ncp) NC_HDIRTY\<rparr>"
definition NC_hdirty :: "'a nc3_info_scheme \<Rightarrow> bool" where
  "NC_hdirty ncp \<longleftrightarrow> fIsSet (flags ncp) NC_HDIRTY"
definition NC_dofill :: "'a nc3_info_scheme \<Rightarrow> bool" where
  "NC_dofill ncp \<longleftrightarrow> \<not> fIsSet (flags ncp) NC_NOFILL"
definition NC_doHsync :: "'a nc3_info_scheme \<Rightarrow> bool" where
  "NC_doHsync ncp \<longleftrightarrow> fIsSet (flags ncp) NC_HSYNC"
definition NC_doNsync :: "'a nc3_info_scheme \<Rightarrow> bool" where
  "NC_doNsync ncp \<longleftrightarrow> fIsSet (flags ncp) NC_NSYNC"

definition NC_increase_numrecs :: "'a nc3_info_scheme \<Rightarrow> int \<Rightarrow> 'a nc3_info_scheme" where
  "NC_increase_numrecs ncp nrecs = (if numrecs ncp < nrecs then ncp\<lparr>numrecs := nrecs\<rparr> else ncp)"

text \<open>\<open>IS_RECVAR\<close>: the first dimension is the unlimited one.\<close>

definition IS_RECVAR :: "NC_var \<Rightarrow> bool" where
  "IS_RECVAR v \<longleftrightarrow> var_shape v \<noteq> [] \<and> hd (var_shape v) = NC_UNLIMITED"

definition empty_dimarray :: NC_dimarray where
  "empty_dimarray = \<lparr>dims_nalloc = 0, dims_hashmap = None, dims_value = []\<rparr>"
definition empty_attrarray :: NC_attrarray where
  "empty_attrarray = \<lparr>atts_nalloc = 0, atts_value = []\<rparr>"
definition empty_vararray :: NC_vararray where
  "empty_vararray = \<lparr>vars_nalloc = 0, vars_hashmap = None, vars_value = []\<rparr>"

lemma NC_flags_bits:
  "NC_readonly ncp \<longleftrightarrow> \<not> bit (ioflags ncp) 0" "NC_IsNew ncp \<longleftrightarrow> bit (flags ncp) 1"
  "NC_indef ncp \<longleftrightarrow> bit (flags ncp) 1 \<or> bit (flags ncp) 3"
  "NC_ndirty ncp \<longleftrightarrow> bit (flags ncp) 6" "NC_hdirty ncp \<longleftrightarrow> bit (flags ncp) 7"
  "NC_dofill ncp \<longleftrightarrow> \<not> bit (flags ncp) 8" "NC_doHsync ncp \<longleftrightarrow> bit (flags ncp) 5" "NC_doNsync ncp \<longleftrightarrow> bit (flags ncp) 4"
  by (simp_all add: NC_readonly_def NC_IsNew_def NC_indef_def NC_ndirty_def NC_hdirty_def NC_dofill_def
      NC_doHsync_def NC_doNsync_def fIsSet_single)

end
