(* ===== verification/NC_String.thy ===== *)
theory NC_String
  imports NC3_Types
begin

text \<open>
  \<open>libdispatch/dstring.c\<close>: the syntax check on names and the counted strings that hold them. A C string
  argument is its list of bytes without the final NUL. \<open>utf8_validate\<close> is \<open>nc_utf8_validate\<close>,
  which calls the utf8proc library; it is a parameter.
\<close>

definition byte_at :: "string \<Rightarrow> nat \<Rightarrow> nat" where
  "byte_at s i = (if i < length s then of_char (s ! i) else 0)"

definition RANGE :: "nat \<Rightarrow> nat \<Rightarrow> nat \<Rightarrow> bool" where
  "RANGE c lo hi \<longleftrightarrow> lo \<le> c \<and> c \<le> hi"

text \<open>\<open>nextUTF8\<close> with \<open>UTF8_CHECK == 2\<close>; \<open>None\<close> is the result -1.\<close>

definition nextUTF8 :: "string \<Rightarrow> nat option" where
  "nextUTF8 s = (let ch0 = byte_at s 0; c1 = byte_at s 1; c2 = byte_at s 2; c3 = byte_at s 3 in
     if ch0 \<le> 0x7f then Some 1
     else if RANGE ch0 0xC0 0xDF then (if c1 \<noteq> 0 \<and> RANGE c1 0x80 0xBF then Some 2 else None)
     else if RANGE ch0 0xE0 0xEF then (if c1 \<noteq> 0 \<and> RANGE c1 0x80 0xBF \<and> c2 \<noteq> 0 \<and> RANGE c1 0x80 0xBF then Some 3 else None)
     else if RANGE ch0 0xF0 0xF7 then
       (if c1 \<noteq> 0 \<and> RANGE c1 0x80 0xBF \<and> c2 \<noteq> 0 \<and> RANGE c1 0x80 0xBF \<and> c3 \<noteq> 0 \<and> RANGE c1 0x80 0xBF then Some 4 else None)
     else None)"

definition isspace :: "nat \<Rightarrow> bool" where
  "isspace c \<longleftrightarrow> c = 0x20 \<or> RANGE c 0x09 0x0D"

text \<open>
  The \<open>while\<close> loop of \<open>NC_check_name\<close>: \<open>rest\<close> is what is left at \<open>cp\<close>, \<open>pos\<close> is
  \<open>cp - name\<close> and \<open>ch\<close> the last first byte read.
\<close>

function check_name_loop :: "string \<Rightarrow> nat \<Rightarrow> nat \<Rightarrow> int" where
  "check_name_loop rest pos ch = (if rest = [] then (if ch \<le> 0x7f \<and> isspace ch then NC_EBADNAME else NC_NOERR)
     else let ch' = byte_at rest 0 in
       if ch' \<le> 0x7f then
         (if ch' < 0x20 \<or> 0x7E < ch' then NC_EBADNAME
          else if NC_MAX_NAME < pos + 1 then NC_EMAXNAME
          else check_name_loop (drop 1 rest) (pos + 1) ch')
       else case nextUTF8 rest of None \<Rightarrow> NC_EBADNAME
         | Some skip \<Rightarrow> if NC_MAX_NAME < pos + skip then NC_EMAXNAME
                        else check_name_loop (drop skip rest) (pos + skip) ch')"
  by pat_completeness auto
termination
  by (relation "measure (\<lambda>(rest, pos, ch). length rest)")
    (auto simp: nextUTF8_def Let_def neq_Nil_conv split: if_splits)

declare check_name_loop.simps [simp del]

definition first_char_ok :: "nat \<Rightarrow> bool" where
  "first_char_ok ch \<longleftrightarrow> RANGE ch 0x41 0x5A \<or> RANGE ch 0x61 0x7A \<or> RANGE ch 0x30 0x39 \<or> ch = 0x5F"

definition NC_check_name :: "(string \<Rightarrow> int) \<Rightarrow> string \<Rightarrow> int" where
  "NC_check_name utf8_validate name = (if name = [] \<or> CHR 0x2F \<in> set name then NC_EBADNAME
     else if utf8_validate name \<noteq> NC_NOERR then NC_EBADNAME
     else let ch = byte_at name 0 in
       if ch \<le> 0x7f then (if first_char_ok ch then check_name_loop (drop 1 name) 1 ch else NC_EBADNAME)
       else case nextUTF8 name of None \<Rightarrow> NC_EBADNAME
         | Some skip \<Rightarrow> check_name_loop (drop skip name) skip ch)"

text \<open>\<open>new_NC_string(slen, str)\<close>: NULL is \<open>None\<close>, as argument and as result.\<close>

definition new_NC_string :: "(nat \<Rightarrow> bool) \<Rightarrow> nat \<Rightarrow> string option \<Rightarrow> NC_string option" where
  "new_NC_string mem slen str = (if \<not> mem (16 + slen + 1) then None
     else Some \<lparr>nchars = slen, cp = (case str of None \<Rightarrow> replicate slen (CHR 0x00)
       | Some s \<Rightarrow> take slen (s @ replicate slen (CHR 0x00)))\<rparr>)"

definition set_NC_string :: "NC_string \<Rightarrow> string \<Rightarrow> (int \<times> NC_string) run" where
  "set_NC_string ncstrp str = assert_run (str \<noteq> []) (if nchars ncstrp < length str then Done (NC_ENOTINDEFINE, ncstrp)
     else Done (NC_NOERR, ncstrp\<lparr>cp := str @ replicate (nchars ncstrp - length str) (CHR 0x00)\<rparr>))"

subsection \<open>Counted strings\<close>

definition str_wf :: "NC_string \<Rightarrow> bool" where
  "str_wf s \<longleftrightarrow> length (cp s) = nchars s"

lemma cstr_no_NUL: "CHR 0x00 \<notin> set (cstr s)"
  unfolding cstr_def by (metis set_takeWhileD)

lemma takeWhile_padded: "CHR 0x00 \<notin> set s \<Longrightarrow> takeWhile (\<lambda>c. c \<noteq> CHR 0x00) (s @ replicate n (CHR 0x00)) = s"
  by (induction s) (auto simp: takeWhile_eq_Nil_iff)

lemma new_NC_string_Some:
  assumes "mem (17 + length s)" "CHR 0x00 \<notin> set s"
  obtains strp where "new_NC_string mem (length s) (Some s) = Some strp" "str_wf strp" "cstr strp = s" "nchars strp = length s"
    "cp strp = s"
proof -
  have "takeWhile (\<lambda>c. c \<noteq> CHR 0x00) s = s" using takeWhile_padded [OF assms(2), of 0] by simp
  with assms show ?thesis
    by (intro that [of "\<lparr>nchars = length s, cp = s\<rparr>"]) (simp_all add: new_NC_string_def str_wf_def cstr_def)
qed

lemma set_NC_string_Done:
  assumes "s \<noteq> []" "CHR 0x00 \<notin> set s" "length s \<le> nchars strp"
  obtains strp' where "set_NC_string strp s = Done (NC_NOERR, strp')" "str_wf strp'" "cstr strp' = s" "nchars strp' = nchars strp"
  using assms by (intro that [of "strp\<lparr>cp := s @ replicate (nchars strp - length s) (CHR 0x00)\<rparr>"])
    (simp_all add: set_NC_string_def str_wf_def cstr_def takeWhile_padded)

end
