(* ===== verification/NC3_Dim.thy ===== *)
theory NC3_Dim
  imports NC_String
begin

text \<open>
  \<open>libsrc/dim.c\<close>, the dimension array and its name index. \<open>nc_env\<close> holds what the classic
  library takes from code that is not its own: the outcome of an allocation of a given size,
  the CRC of zlib, and UTF-8 validation and NFC normalization by utf8proc (a status, or the
  normalized name). The index is the hash table of \<open>NC_Hash\<close>; a NULL index that is followed
  is a fault.
\<close>

record nc_env =
  env_mem :: "nat \<Rightarrow> bool"
  env_crc :: "string \<Rightarrow> nat"
  env_validate :: "string \<Rightarrow> int"
  env_normalize :: "string \<Rightarrow> int + string"

subsection \<open>The name index\<close>

definition hash_add :: "nc_env \<Rightarrow> NC_hashmap option \<Rightarrow> nat \<Rightarrow> string \<Rightarrow> NC_hashmap option run" where
  "hash_add E hmo data key = (if key = [] then Done hmo else case hmo of None \<Rightarrow> Fault
     | Some hm \<Rightarrow> run_bind (NC_hashmapadd (env_mem E) (env_crc E) 2 hm data key) (\<lambda>(ok, hm'). Done (Some hm')))"

definition hash_get :: "nc_env \<Rightarrow> NC_hashmap option \<Rightarrow> string \<Rightarrow> nat option run" where
  "hash_get E hmo key = (if key = [] then Done None else case hmo of None \<Rightarrow> Fault
     | Some hm \<Rightarrow> NC_hashmapget (env_crc E) hm key)"

definition hash_remove :: "nc_env \<Rightarrow> NC_hashmap option \<Rightarrow> string \<Rightarrow> NC_hashmap option run" where
  "hash_remove E hmo key = (if key = [] then Done hmo else case hmo of None \<Rightarrow> Fault
     | Some hm \<Rightarrow> run_bind (NC_hashmapremove (env_crc E) hm key) (\<lambda>(r, hm'). Done (Some hm')))"

subsection \<open>Dimensions\<close>

definition new_x_NC_dim :: "nc_env \<Rightarrow> NC_string \<Rightarrow> NC_dim option" where
  "new_x_NC_dim E name = (if env_mem E 16 then Some \<lparr>dim_name = name, dim_size = 0\<rparr> else None)"

definition new_NC_dim :: "nc_env \<Rightarrow> string \<Rightarrow> int \<Rightarrow> NC_dim option" where
  "new_NC_dim E uname sz = (case env_normalize E uname of Inl stat \<Rightarrow> None
     | Inr name \<Rightarrow> case new_NC_string (env_mem E) (length name) (Some name) of None \<Rightarrow> None
     | Some strp \<Rightarrow> case new_x_NC_dim E strp of None \<Rightarrow> None
     | Some dimp \<Rightarrow> Some (dimp\<lparr>dim_size := sz\<rparr>))"

definition dup_NC_dim :: "nc_env \<Rightarrow> NC_dim \<Rightarrow> NC_dim option" where
  "dup_NC_dim E dimp = new_NC_dim E (cstr (dim_name dimp)) (dim_size dimp)"

text \<open>\<open>find_NC_Udim\<close>: the first dimension of size \<open>NC_UNLIMITED\<close>, or -1.\<close>

fun udim_loop :: "NC_dim list \<Rightarrow> int \<Rightarrow> int" where
  "udim_loop [] dimid = -1"
| "udim_loop (d # ds) dimid = (if dim_size d \<noteq> NC_UNLIMITED then udim_loop ds (dimid + 1) else dimid)"

definition find_NC_Udim :: "NC_dimarray \<Rightarrow> int" where
  "find_NC_Udim ncap = (if dims_value ncap = [] then -1 else udim_loop (dims_value ncap) 0)"

text \<open>The result is a dimension number or -1. \<open>*dimpp\<close> is read from the array, as the source does.\<close>

definition NC_finddim :: "nc_env \<Rightarrow> NC_dimarray \<Rightarrow> string \<Rightarrow> int run" where
  "NC_finddim E ncap uname = (if dims_value ncap = [] then Done (-1)
     else case env_normalize E uname of Inl stat \<Rightarrow> Done (-1)
     | Inr name \<Rightarrow> run_bind (hash_get E (dims_hashmap ncap) name) (\<lambda>r. case r of None \<Rightarrow> Done (-1)
        | Some data \<Rightarrow> run_bind (peek (dims_value ncap) data) (\<lambda>dimp. Done (int data))))"

definition free_NC_dimarrayV :: "NC_dimarray \<Rightarrow> NC_dimarray" where
  "free_NC_dimarrayV ncap = (if dims_nalloc ncap = 0 then ncap else empty_dimarray)"

text \<open>
  \<open>dup_NC_dimarrayV\<close> into a zeroed array. The duplicate gets no name index. \<open>dup_dims\<close> is its
  loop: the copies made, and whether all were.
\<close>

fun dup_dims :: "nc_env \<Rightarrow> NC_dim list \<Rightarrow> NC_dim list \<times> bool" where
  "dup_dims E [] = ([], True)"
| "dup_dims E (d # ds) = (case dup_NC_dim E d of None \<Rightarrow> ([], False)
     | Some d' \<Rightarrow> let (ds', ok) = dup_dims E ds in (d' # ds', ok))"

definition dup_NC_dimarrayV :: "nc_env \<Rightarrow> NC_dimarray \<Rightarrow> int \<times> NC_dimarray" where
  "dup_NC_dimarrayV E ref = (let n = length (dims_value ref) in
     if n \<noteq> 0 \<and> \<not> env_mem E (n * 8) then (NC_ENOMEM, empty_dimarray)
     else let (ds, ok) = dup_dims E (dims_value ref);
              ncap = \<lparr>dims_nalloc = n, dims_hashmap = None, dims_value = ds\<rparr>
          in if ok then (NC_NOERR, ncap) else (NC_ENOMEM, free_NC_dimarrayV ncap))"

text \<open>The growth of the array in \<open>incr_NC_dimarray\<close>; a status other than 0 returns at once.\<close>

definition grow_NC_dimarray :: "nc_env \<Rightarrow> NC_dimarray \<Rightarrow> (int \<times> NC_dimarray) run" where
  "grow_NC_dimarray E ncap = (if dims_nalloc ncap = 0
     then assert_run (dims_value ncap = []) (if \<not> env_mem E (NC_ARRAY_GROWBY * 8) then Done (NC_ENOMEM, ncap)
       else run_bind (NC_hashmapnew (env_mem E) 0) (\<lambda>hm.
         Done (NC_NOERR, ncap\<lparr>dims_nalloc := NC_ARRAY_GROWBY, dims_hashmap := Some hm\<rparr>)))
     else if dims_nalloc ncap < length (dims_value ncap) + 1
     then (if \<not> env_mem E ((dims_nalloc ncap + NC_ARRAY_GROWBY) * 8) then Done (NC_ENOMEM, ncap)
       else Done (NC_NOERR, ncap\<lparr>dims_nalloc := dims_nalloc ncap + NC_ARRAY_GROWBY\<rparr>))
     else Done (NC_NOERR, ncap))"

definition incr_NC_dimarray :: "nc_env \<Rightarrow> NC_dimarray \<Rightarrow> NC_dim \<Rightarrow> (int \<times> NC_dimarray) run" where
  "incr_NC_dimarray E ncap newelemp = run_bind (grow_NC_dimarray E ncap) (\<lambda>(status, ncap1).
     if status \<noteq> NC_NOERR then Done (status, ncap1)
     else run_bind (hash_add E (dims_hashmap ncap1) (length (dims_value ncap1)) (cstr (dim_name newelemp))) (\<lambda>hmo.
       Done (NC_NOERR, ncap1\<lparr>dims_hashmap := hmo, dims_value := dims_value ncap1 @ [newelemp]\<rparr>)))"

definition elem_NC_dimarray :: "NC_dimarray \<Rightarrow> int \<Rightarrow> NC_dim option" where
  "elem_NC_dimarray ncap elem = (if dims_value ncap = [] \<or> int (length (dims_value ncap)) \<le> u64 elem then None
     else Some (dims_value ncap ! nat (u64 elem)))"

subsection \<open>The index keeps to the array\<close>

text \<open>The names of the entries, and the index that maps each of them to its position.\<close>

definition dim_names :: "NC_dim list \<Rightarrow> string list" where
  "dim_names ds = map (\<lambda>d. cstr (dim_name d)) ds"

definition index_ok :: "nc_env \<Rightarrow> NC_hashmap option \<Rightarrow> string list \<Rightarrow> bool" where
  "index_ok E hmo names \<longleftrightarrow> (case hmo of None \<Rightarrow> names = [] | Some hm \<Rightarrow> nm.indexes (env_crc E) hm names)"

definition env_ok :: "nc_env \<Rightarrow> bool" where
  "env_ok E \<longleftrightarrow> env_mem E = (\<lambda>_. True)"

lemma index_ok_names: "index_ok E hmo names \<Longrightarrow> distinct names \<and> [] \<notin> set names"
  by (auto simp: index_ok_def nm.indexes_def split: option.splits)

lemma hash_add_ok:
  assumes "env_ok E" "nm.indexes (env_crc E) hm names" "k \<noteq> []" "k \<notin> set names" "length names < 67686"
  obtains hm' where "hash_add E (Some hm) (length names) k = Done (Some hm')" "nm.indexes (env_crc E) hm' (names @ [k])"
proof -
  obtain hm' where "NC_hashmapadd (env_mem E) (env_crc E) 2 hm (length names) k = Done (True, hm')"
      "nm.indexes (env_crc E) hm' (names @ [k])"
    using nm.indexes_add [OF assms(2-5)] assms(1) unfolding env_ok_def by metis
  then show ?thesis using assms(3) by (intro that [of hm']) (simp_all add: hash_add_def)
qed

lemma hash_get_ok: "index_ok E hmo names \<Longrightarrow> names \<noteq> [] \<Longrightarrow> hash_get E hmo k = Done (names_map names k)"
proof -
  assume ix: "index_ok E hmo names" and ne: "names \<noteq> []"
  then obtain hm where hm: "hmo = Some hm" "nm.indexes (env_crc E) hm names"
    by (cases hmo) (auto simp: index_ok_def)
  have "names_map names [] = None" using names_map_None index_ok_names [OF ix] by blast
  with hm nm.indexes_find [OF hm(2), of k] show ?thesis by (simp add: hash_get_def)
qed

lemma hash_rename_ok:
  assumes "env_ok E" "index_ok E hmo names" "k \<noteq> []" "k \<notin> set names" "i < length names" "length names \<le> 67686"
  obtains hmo1 hmo' where "hash_remove E hmo (names ! i) = Done hmo1" "hash_add E hmo1 i k = Done hmo'"
    "index_ok E hmo' (names[i := k])"
proof -
  obtain hm where hm: "hmo = Some hm" "nm.indexes (env_crc E) hm names"
    using assms(2,5) by (cases hmo) (auto simp: index_ok_def)
  obtain m1 m' where m: "NC_hashmapremove (env_crc E) hm (names ! i) = Done (Some i, m1)"
      "NC_hashmapadd (\<lambda>_. True) (env_crc E) 2 m1 i k = Done (True, m')" "nm.indexes (env_crc E) m' (names[i := k])"
    using nm.indexes_rename [OF hm(2) assms(3-6)] by blast
  have "names ! i \<noteq> []" using hm(2) assms(5) by (auto simp: nm.indexes_def in_set_conv_nth)
  with m hm assms(1,3) show ?thesis
    by (intro that [of "Some m1" "Some m'"]) (simp_all add: hash_remove_def hash_add_def env_ok_def index_ok_def)
qed

lemma hashmapnew_index:
  assumes "env_ok E" "n < 67686"
  obtains hm where "NC_hashmapnew (env_mem E) n = Done hm" "nm.indexes (env_crc E) hm []"
proof -
  have m: "\<And>n. env_mem E n" and n: "n \<le> 135373" using assms by (simp_all add: env_ok_def)
  obtain hm where "NC_hashmapnew (env_mem E) n = Done hm" "hm_wf (env_crc E) hm" "hm_abs hm = Map.empty"
    by (rule NC_hashmapnew_abs [OF m n, where crc = "env_crc E"]) (rule that)
  then show ?thesis by (intro that [of hm]) (simp_all add: nm.indexes_def names_map_def)
qed

end
