(* ===== verification/NC3_Attr.thy ===== *)
theory NC3_Attr
  imports NC3_Dim
begin

text \<open>
  \<open>libsrc/attr.c\<close>, the attribute arrays: the external size of an attribute's values, creation
  and duplication of attributes, growth of an array, and the lookup by name. An attribute
  array has no name index, it is searched.
\<close>

abbreviation (input) "NULB \<equiv> CHR 0x00"

text \<open>\<open>ncx_len_NC_attrV\<close>: the product is taken in \<open>size_t\<close>. \<open>Fault\<close> is the assertion on the type.\<close>

definition usz :: "nat \<Rightarrow> nat" where "usz n = n mod 18446744073709551616"

definition ncx_len_NC_attrV :: "int \<Rightarrow> nat \<Rightarrow> nat run" where
  "ncx_len_NC_attrV type nelems =
     (if type \<in> {NC_BYTE, NC_CHAR, NC_UBYTE} then Done (usz (usz (nelems + 3) div 4 * 4))
      else if type \<in> {NC_SHORT, NC_USHORT} then Done (usz (usz (nelems + nelems mod 2) * 2))
      else if type \<in> {NC_INT, NC_UINT, NC_FLOAT} then Done (usz (nelems * 4))
      else if type \<in> {NC_DOUBLE, NC_INT64, NC_UINT64} then Done (usz (nelems * 8))
      else Fault)"

text \<open>The values of a new attribute are not initialized; they are written as NULs.\<close>

definition new_x_NC_attr :: "nc_env \<Rightarrow> NC_string \<Rightarrow> int \<Rightarrow> nat \<Rightarrow> NC_attr option run" where
  "new_x_NC_attr E strp type nelems = run_bind (ncx_len_NC_attrV type nelems) (\<lambda>xsz.
     assert_run (\<not> (xsz = 0 \<and> nelems \<noteq> 0)) (Done (if env_mem E (usz (40 + xsz))
       then Some \<lparr>att_xsz = xsz, att_name = strp, att_type = type, att_nelems = nelems, att_xvalue = replicate xsz NULB\<rparr>
       else None)))"

definition new_NC_attr :: "nc_env \<Rightarrow> string \<Rightarrow> int \<Rightarrow> nat \<Rightarrow> NC_attr option run" where
  "new_NC_attr E uname type nelems = (case env_normalize E uname of Inl stat \<Rightarrow> Done None
     | Inr name \<Rightarrow> assert_run (name \<noteq> []) (case new_NC_string (env_mem E) (length name) (Some name) of None \<Rightarrow> Done None
        | Some strp \<Rightarrow> new_x_NC_attr E strp type nelems))"

definition dup_NC_attr :: "nc_env \<Rightarrow> NC_attr \<Rightarrow> NC_attr option run" where
  "dup_NC_attr E rattrp = run_bind (new_NC_attr E (cstr (att_name rattrp)) (att_type rattrp) (att_nelems rattrp)) (\<lambda>a.
     case a of None \<Rightarrow> Done None
     | Some attrp \<Rightarrow> Done (Some (if att_xvalue attrp \<noteq> [] \<and> att_xvalue rattrp \<noteq> []
         then attrp\<lparr>att_xvalue := blit (att_xvalue attrp) 0 (take (att_xsz rattrp) (att_xvalue rattrp))\<rparr> else attrp)))"

definition free_NC_attrarrayV :: "NC_attrarray \<Rightarrow> NC_attrarray" where
  "free_NC_attrarrayV ncap = (if atts_nalloc ncap = 0 then ncap else empty_attrarray)"

fun dup_attrs :: "nc_env \<Rightarrow> NC_attr list \<Rightarrow> (NC_attr list \<times> bool) run" where
  "dup_attrs E [] = Done ([], True)"
| "dup_attrs E (a # as) = run_bind (dup_NC_attr E a) (\<lambda>r. case r of None \<Rightarrow> Done ([], False)
     | Some a' \<Rightarrow> run_bind (dup_attrs E as) (\<lambda>(as', ok). Done (a' # as', ok)))"

definition dup_NC_attrarrayV :: "nc_env \<Rightarrow> NC_attrarray \<Rightarrow> (int \<times> NC_attrarray) run" where
  "dup_NC_attrarrayV E ref = (let n = length (atts_value ref) in
     if n \<noteq> 0 \<and> \<not> env_mem E (n * 8) then Done (NC_ENOMEM, empty_attrarray)
     else run_bind (dup_attrs E (atts_value ref)) (\<lambda>(as, ok).
       let ncap = \<lparr>atts_nalloc = n, atts_value = as\<rparr>
       in Done (if ok then (NC_NOERR, ncap) else (NC_ENOMEM, free_NC_attrarrayV ncap))))"

definition incr_NC_attrarray :: "nc_env \<Rightarrow> NC_attrarray \<Rightarrow> NC_attr \<Rightarrow> (int \<times> NC_attrarray) run" where
  "incr_NC_attrarray E ncap newelemp =
     (if atts_nalloc ncap = 0
      then assert_run (atts_value ncap = []) (if \<not> env_mem E (NC_ARRAY_GROWBY * 8) then Done (NC_ENOMEM, ncap)
        else Done (NC_NOERR, \<lparr>atts_nalloc = NC_ARRAY_GROWBY, atts_value = atts_value ncap @ [newelemp]\<rparr>))
      else if atts_nalloc ncap < length (atts_value ncap) + 1
      then (if \<not> env_mem E ((atts_nalloc ncap + NC_ARRAY_GROWBY) * 8) then Done (NC_ENOMEM, ncap)
        else Done (NC_NOERR, \<lparr>atts_nalloc = atts_nalloc ncap + NC_ARRAY_GROWBY, atts_value = atts_value ncap @ [newelemp]\<rparr>))
      else Done (NC_NOERR, ncap\<lparr>atts_value := atts_value ncap @ [newelemp]\<rparr>))"

definition elem_NC_attrarray :: "NC_attrarray \<Rightarrow> int \<Rightarrow> NC_attr option" where
  "elem_NC_attrarray ncap elem = (if atts_value ncap = [] \<or> int (length (atts_value ncap)) \<le> u64 elem then None
     else Some (atts_value ncap ! nat (u64 elem)))"

text \<open>\<open>NC_attrarray0\<close>: the array a variable number stands for, and its replacement.\<close>

definition NC_attrarray0 :: "'a nc3_hdr_scheme \<Rightarrow> int \<Rightarrow> NC_attrarray option" where
  "NC_attrarray0 ncp varid = (if varid = NC_GLOBAL then Some (attrs ncp)
     else if 0 \<le> varid \<and> varid < int (length (vars_value (vars ncp)))
     then Some (var_attrs (vars_value (vars ncp) ! nat varid)) else None)"

definition set_attrarray0 :: "'a nc3_hdr_scheme \<Rightarrow> int \<Rightarrow> NC_attrarray \<Rightarrow> 'a nc3_hdr_scheme" where
  "set_attrarray0 ncp varid ap = (if varid = NC_GLOBAL then ncp\<lparr>attrs := ap\<rparr>
     else ncp\<lparr>vars := (vars ncp)\<lparr>vars_value := (vars_value (vars ncp))[nat varid :=
       (vars_value (vars ncp) ! nat varid)\<lparr>var_attrs := ap\<rparr>]\<rparr>\<rparr>)"

text \<open>\<open>NC_findattr\<close>: the position of the match.\<close>

fun findattr_loop :: "NC_attr list \<Rightarrow> string \<Rightarrow> nat \<Rightarrow> nat option" where
  "findattr_loop [] name attrid = None"
| "findattr_loop (a # as) name attrid =
     (if length (cstr (att_name a)) = length name \<and> take (length name) (cstr (att_name a)) = name then Some attrid
      else findattr_loop as name (Suc attrid))"

definition NC_findattr :: "nc_env \<Rightarrow> NC_attrarray \<Rightarrow> string \<Rightarrow> nat option" where
  "NC_findattr E ncap uname = (if atts_value ncap = [] then None
     else case env_normalize E uname of Inl stat \<Rightarrow> None | Inr name \<Rightarrow> findattr_loop (atts_value ncap) name 0)"

end
