(* ===== verification/NC3_Var.thy ===== *)
theory NC3_Var
  imports NC3_Attr
begin

text \<open>
  \<open>libsrc/var.c\<close>, the variable array: creation and duplication of variables, the name index,
  and \<open>NC_var_shape\<close>, \<open>NC_check_vlen\<close>, which compute and bound a variable's size.
  \<open>size_t\<close> and \<open>off_t\<close> arithmetic is written with \<open>u64\<close> and \<open>s64\<close>.
\<close>

text \<open>The arrays of a new variable are not initialized; a failed \<open>malloc\<close> leaves NULL, the empty list.\<close>

definition new_x_NC_var :: "nc_env \<Rightarrow> NC_string \<Rightarrow> nat \<Rightarrow> NC_var option" where
  "new_x_NC_var E strp ndims = (if \<not> env_mem E 104 then None
     else Some \<lparr>var_xsz = 0,
       var_shape = (if env_mem E (ndims * 8) then replicate ndims 0 else []),
       var_dsizes = (if env_mem E (ndims * 8) then replicate ndims 0 else []),
       var_name = strp, var_ndims = ndims,
       var_dimids = (if env_mem E (RNDUP (ndims * 4) 8) then replicate ndims 0 else []),
       var_attrs = empty_attrarray, var_type = 0, var_len = 0, var_begin = 0, var_no_fill = False\<rparr>)"

definition new_NC_var :: "nc_env \<Rightarrow> string \<Rightarrow> int \<Rightarrow> nat \<Rightarrow> int list \<Rightarrow> NC_var option run" where
  "new_NC_var E uname type ndims dimids = (case env_normalize E uname of Inl stat \<Rightarrow> Done None
     | Inr name \<Rightarrow> case new_NC_string (env_mem E) (length name) (Some name) of None \<Rightarrow> Done None
     | Some strp \<Rightarrow> case new_x_NC_var E strp ndims of None \<Rightarrow> Done None
     | Some varp \<Rightarrow> if length dimids < ndims \<or> length (var_dimids varp) < ndims then Fault
         else Done (Some (varp\<lparr>var_type := type, var_dimids := take ndims dimids\<rparr>)))"

definition dup_NC_var :: "nc_env \<Rightarrow> NC_var \<Rightarrow> NC_var option run" where
  "dup_NC_var E rvarp = run_bind (new_NC_var E (cstr (var_name rvarp)) (var_type rvarp) (var_ndims rvarp) (var_dimids rvarp)) (\<lambda>r.
     case r of None \<Rightarrow> Done None
     | Some varp \<Rightarrow> run_bind (dup_NC_attrarrayV E (var_attrs rvarp)) (\<lambda>(status, ap).
         if status \<noteq> NC_NOERR then Done None
         else if length (var_shape varp) < var_ndims rvarp \<or> length (var_dsizes varp) < var_ndims rvarp then Fault
         else Done (Some (varp\<lparr>var_attrs := ap, var_shape := var_shape rvarp, var_dsizes := var_dsizes rvarp,
           var_xsz := var_xsz rvarp, var_len := var_len rvarp, var_begin := var_begin rvarp\<rparr>))))"

definition free_NC_vararrayV :: "NC_vararray \<Rightarrow> NC_vararray" where
  "free_NC_vararrayV ncap = (if vars_nalloc ncap = 0 then ncap else empty_vararray)"

fun dup_vars :: "nc_env \<Rightarrow> NC_var list \<Rightarrow> (NC_var list \<times> bool) run" where
  "dup_vars E [] = Done ([], True)"
| "dup_vars E (v # vs) = run_bind (dup_NC_var E v) (\<lambda>r. case r of None \<Rightarrow> Done ([], False)
     | Some v' \<Rightarrow> run_bind (dup_vars E vs) (\<lambda>(vs', ok). Done (v' # vs', ok)))"

definition dup_NC_vararrayV :: "nc_env \<Rightarrow> NC_vararray \<Rightarrow> (int \<times> NC_vararray) run" where
  "dup_NC_vararrayV E ref = (let n = length (vars_value ref) in
     if n \<noteq> 0 \<and> \<not> env_mem E (n * 8) then Done (NC_ENOMEM, empty_vararray)
     else run_bind (dup_vars E (vars_value ref)) (\<lambda>(vs, ok).
       let ncap = \<lparr>vars_nalloc = n, vars_hashmap = None, vars_value = vs\<rparr>
       in Done (if ok then (NC_NOERR, ncap) else (NC_ENOMEM, free_NC_vararrayV ncap))))"

definition grow_NC_vararray :: "nc_env \<Rightarrow> NC_vararray \<Rightarrow> (int \<times> NC_vararray) run" where
  "grow_NC_vararray E ncap = (if vars_nalloc ncap = 0
     then assert_run (vars_value ncap = []) (if \<not> env_mem E (NC_ARRAY_GROWBY * 8) then Done (NC_ENOMEM, ncap)
       else run_bind (NC_hashmapnew (env_mem E) 0) (\<lambda>hm.
         Done (NC_NOERR, ncap\<lparr>vars_nalloc := NC_ARRAY_GROWBY, vars_hashmap := Some hm\<rparr>)))
     else if vars_nalloc ncap < length (vars_value ncap) + 1
     then (if \<not> env_mem E ((vars_nalloc ncap + NC_ARRAY_GROWBY) * 8) then Done (NC_ENOMEM, ncap)
       else Done (NC_NOERR, ncap\<lparr>vars_nalloc := vars_nalloc ncap + NC_ARRAY_GROWBY\<rparr>))
     else Done (NC_NOERR, ncap))"

definition incr_NC_vararray :: "nc_env \<Rightarrow> NC_vararray \<Rightarrow> NC_var \<Rightarrow> (int \<times> NC_vararray) run" where
  "incr_NC_vararray E ncap newelemp = run_bind (grow_NC_vararray E ncap) (\<lambda>(status, ncap1).
     if status \<noteq> NC_NOERR then Done (status, ncap1)
     else run_bind (hash_add E (vars_hashmap ncap1) (length (vars_value ncap1)) (cstr (var_name newelemp))) (\<lambda>hmo.
       Done (NC_NOERR, ncap1\<lparr>vars_hashmap := hmo, vars_value := vars_value ncap1 @ [newelemp]\<rparr>)))"

definition elem_NC_vararray :: "NC_vararray \<Rightarrow> int \<Rightarrow> NC_var option" where
  "elem_NC_vararray ncap elem = (if vars_value ncap = [] \<or> int (length (vars_value ncap)) \<le> u64 elem then None
     else Some (vars_value ncap ! nat (u64 elem)))"

definition NC_findvar :: "nc_env \<Rightarrow> NC_vararray \<Rightarrow> string \<Rightarrow> int run" where
  "NC_findvar E ncap uname = (if vars_value ncap = [] then Done (-1)
     else case env_normalize E uname of Inl stat \<Rightarrow> Done (-1)
     | Inr name \<Rightarrow> run_bind (hash_get E (vars_hashmap ncap) name) (\<lambda>r. case r of None \<Rightarrow> Done (-1)
        | Some data \<Rightarrow> run_bind (peek (vars_value ncap) data) (\<lambda>varp. Done (int data))))"

definition NC_lookupvar :: "'a nc3_hdr_scheme \<Rightarrow> int \<Rightarrow> int \<times> NC_var option" where
  "NC_lookupvar ncp varid = (if varid = NC_GLOBAL then (NC_EGLOBAL, None)
     else case elem_NC_vararray (vars ncp) varid of None \<Rightarrow> (NC_ENOTVAR, None) | Some v \<Rightarrow> (NC_NOERR, Some v))"

subsection \<open>Shapes and sizes\<close>

definition ncx_szof :: "int \<Rightarrow> int run" where
  "ncx_szof type =
     (if type \<in> {NC_BYTE, NC_CHAR, NC_UBYTE} then Done 1
      else if type \<in> {NC_SHORT, NC_USHORT} then Done 2
      else if type \<in> {NC_INT, NC_FLOAT, NC_UINT} then Done 4
      else if type \<in> {NC_DOUBLE, NC_INT64, NC_UINT64} then Done 8
      else Fault)"

text \<open>The first loop of \<open>NC_var_shape\<close>: the status and the entries of \<open>shape\<close> written so far.\<close>

fun var_shape_loop :: "NC_dimarray \<Rightarrow> bool \<Rightarrow> int list \<Rightarrow> int \<times> int list" where
  "var_shape_loop da first [] = (NC_NOERR, [])"
| "var_shape_loop da first (ip # ips) =
     (if ip < 0 \<or> int (length (dims_value da)) \<le> ip then (NC_EBADDIM, [])
      else case elem_NC_dimarray da ip of None \<Rightarrow> (NC_EBADDIM, [])
      | Some dimp \<Rightarrow> if dim_size dimp = NC_UNLIMITED \<and> \<not> first then (NC_EUNLIMPOS, [dim_size dimp])
          else let (status, shp) = var_shape_loop da False ips in (status, dim_size dimp # shp))"

text \<open>C division truncates; a zero divisor traps.\<close>

definition c_div :: "int \<Rightarrow> int \<Rightarrow> int run" where
  "c_div a b = (if b = 0 then Fault else Done (sgn a * sgn b * (\<bar>a\<bar> div \<bar>b\<bar>)))"

definition dsize_step :: "int \<Rightarrow> int \<Rightarrow> int run" where
  "dsize_step product shp = run_bind (c_div OFF_T_MAX product) (\<lambda>q.
     Done (if s64 shp \<le> q then s64 (u64 product * (if 0 < shp then shp else 1)) else OFF_T_MAX))"

text \<open>The second loop, from the right: the product so far and the \<open>dsizes\<close>; \<open>skip\<close> says that the first entry is left out.\<close>

fun dsizes_loop :: "bool \<Rightarrow> int list \<Rightarrow> (int \<times> int list) run" where
  "dsizes_loop skip [] = Done (1, [])"
| "dsizes_loop skip (s # ss) = run_bind (dsizes_loop False ss) (\<lambda>(product, ds).
     run_bind (if skip then Done product else dsize_step product s) (\<lambda>p. Done (p, p # ds)))"

definition var_len_of :: "int \<Rightarrow> int \<Rightarrow> int" where
  "var_len_of product sz = (let len = s64 (u64 product * sz); r = len - 4 * (sgn len * (\<bar>len\<bar> div 4)) in
     if 0 < r then s64 (len + (4 - r)) else len)"

definition NC_var_shape :: "NC_var \<Rightarrow> NC_dimarray \<Rightarrow> (int \<times> NC_var) run" where
  "NC_var_shape varp da = run_bind (ncx_szof (var_type varp)) (\<lambda>sz.
     let varp1 = varp\<lparr>var_xsz := sz\<rparr> in
     if var_ndims varp = 0 \<or> var_dimids varp = [] then Done (NC_NOERR, varp1\<lparr>var_len := var_len_of 1 sz\<rparr>)
     else if length (var_shape varp) < var_ndims varp \<or> length (var_dsizes varp) < var_ndims varp then Fault
     else let (status, shp) = var_shape_loop da True (var_dimids varp);
              varp2 = varp1\<lparr>var_shape := shp @ drop (length shp) (var_shape varp)\<rparr> in
       if status \<noteq> NC_NOERR then Done (status, varp2)
       else run_bind (dsizes_loop (IS_RECVAR varp2) (var_shape varp2)) (\<lambda>(product, ds).
         Done (NC_NOERR, varp2\<lparr>var_dsizes := ds, var_len := var_len_of product sz\<rparr>)))"

fun check_vlen_loop :: "int list \<Rightarrow> int \<Rightarrow> int \<Rightarrow> bool run" where
  "check_vlen_loop [] vlen_max pr = Done True"
| "check_vlen_loop (s # ss) vlen_max pr = run_bind (c_div vlen_max pr) (\<lambda>q.
     if q < s64 s then Done False else check_vlen_loop ss vlen_max (s64 (u64 pr * s)))"

text \<open>The result 1 is \<open>True\<close>. A shape is NULL only if there are no dimensions.\<close>

definition NC_check_vlen :: "NC_var \<Rightarrow> int \<Rightarrow> bool run" where
  "NC_check_vlen varp vlen_max =
     check_vlen_loop (drop (if IS_RECVAR varp then 1 else 0) (take (var_ndims varp) (var_shape varp))) vlen_max (var_xsz varp)"

subsection \<open>Bounding a size\<close>

lemma int_le_div_iff: "0 < p \<Longrightarrow> s \<le> m div p \<longleftrightarrow> s * p \<le> (m::int)"
proof
  assume p: "0 < p" and "s \<le> m div p"
  then have "s * p \<le> m div p * p" by (simp add: mult_right_mono)
  also have "\<dots> \<le> m" using p div_mult_mod_eq [of m p] pos_mod_sign [of p m] by linarith
  finally show "s * p \<le> m" .
next
  assume "0 < p" "s * p \<le> m"
  then show "s \<le> m div p" using zdiv_mono1 [of "s * p" m p] by simp
qed

lemma prod_list_ge_1: "\<forall>s \<in> set ss. (1::int) \<le> s \<Longrightarrow> 1 \<le> prod_list ss"
proof (induction ss)
  case (Cons s ss)
  then show ?case using mult_mono [of 1 s 1 "prod_list ss"] by simp
qed simp

lemma check_vlen_loop_spec:
  "1 \<le> pr \<Longrightarrow> pr \<le> m \<Longrightarrow> m < 9223372036854775808 \<Longrightarrow> \<forall>s \<in> set ss. 1 \<le> s \<and> s < 9223372036854775808 \<Longrightarrow>
    check_vlen_loop ss m pr = Done (pr * prod_list ss \<le> m)"
proof (induction ss arbitrary: pr)
  case (Cons s ss)
  have s: "s64 s = s" "1 \<le> s" using Cons.prems by (simp_all add: s64_id)
  have q: "c_div m pr = Done (m div pr)" using Cons.prems by (simp add: c_div_def)
  have rest: "1 \<le> prod_list ss" using prod_list_ge_1 Cons.prems(4) by simp
  show ?case
  proof (cases "m div pr < s")
    case True
    then have "m < pr * s" using int_le_div_iff [of pr s m] Cons.prems(1) by (simp add: mult.commute)
    moreover have "0 \<le> pr * s" using Cons.prems(1) s(2) by simp
    then have "pr * s \<le> pr * s * prod_list ss" using rest mult_left_mono [of 1 "prod_list ss" "pr * s"] by simp
    ultimately show ?thesis using True q s by (simp add: mult.assoc)
  next
    case False
    then have le: "pr * s \<le> m" using int_le_div_iff [of pr s m] Cons.prems(1) by (simp add: mult.commute)
    moreover have "1 \<le> pr * s" using Cons.prems(1) s(2) mult_mono [of 1 pr 1 s] by simp
    moreover have "s64 (u64 pr * s) = pr * s" using Cons.prems calculation by (simp add: u64_id s64_id)
    ultimately show ?thesis using False q s Cons.IH [of "pr * s"] Cons.prems by (simp add: mult.assoc)
  qed
qed simp

text \<open>
  C38: for a variable whose dimension sizes are positive and below 2^63, \<open>NC_check_vlen\<close>
  decides whether the size in bytes of one record (or of the whole variable, when it has no
  record dimension) is at most the bound, although the product may be far beyond 64 bits.
\<close>

theorem NC_check_vlen_exact:
  assumes "length (var_shape v) = var_ndims v" and "1 \<le> var_xsz v" "var_xsz v \<le> vlen_max" "vlen_max < 9223372036854775808"
    and "sizes = (if IS_RECVAR v then tl (var_shape v) else var_shape v)"
    and "\<forall>s \<in> set sizes. 1 \<le> s \<and> s < 9223372036854775808"
  shows "NC_check_vlen v vlen_max = Done (var_xsz v * prod_list sizes \<le> vlen_max)"
  using assms check_vlen_loop_spec by (simp add: NC_check_vlen_def drop_Suc)

definition huge_var :: "int list \<Rightarrow> NC_var" where
  "huge_var shp = \<lparr>var_xsz = 4, var_shape = shp, var_dsizes = [], var_name = \<lparr>nchars = 1, cp = ''v''\<rparr>,
     var_ndims = length shp, var_dimids = [0..int (length shp) - 1], var_attrs = empty_attrarray, var_type = NC_INT, var_len = 0,
     var_begin = 0, var_no_fill = False\<rparr>"

theorem NC_check_vlen_exact_witness:
  "NC_check_vlen (huge_var [0, 65536, 65536, 65536, 65536]) 2147483644 =
     Done (var_xsz (huge_var [0, 65536, 65536, 65536, 65536]) * prod_list [65536, 65536, 65536, 65536] \<le> 2147483644)"
  by (rule NC_check_vlen_exact) (simp_all add: huge_var_def IS_RECVAR_def)

text \<open>
  a dimension of 2^63 elements, which \<open>NC3_def_dim\<close> accepts in a CDF-5 file, is read as a
  negative \<open>long long\<close>: as the only dimension it passes the check against the largest 64-bit
  size, and with a second dimension behind it the product becomes 0 and the next division traps.
\<close>

theorem NC_check_vlen_huge:
  "NC_check_vlen (huge_var [9223372036854775808]) (X_INT64_MAX - 3) = Done True \<and>
   NC_check_vlen (huge_var [9223372036854775808, 3]) (X_INT64_MAX - 3) = Fault"
  by (simp add: NC_check_vlen_def huge_var_def IS_RECVAR_def c_div_def s64_def u64_def)

subsection \<open>The shape of a variable\<close>

definition dim_sizes :: "NC_dimarray \<Rightarrow> int list \<Rightarrow> int list" where
  "dim_sizes da ids = map (\<lambda>i. dim_size (dims_value da ! nat i)) ids"

lemma elem_NC_dimarray_in:
  "0 \<le> i \<Longrightarrow> i < int (length (dims_value da)) \<Longrightarrow> length (dims_value da) < 18446744073709551616 \<Longrightarrow>
    elem_NC_dimarray da i = Some (dims_value da ! nat i)"
  by (auto simp: elem_NC_dimarray_def u64_id)

lemma var_shape_loop_ok:
  assumes "length (dims_value da) < 18446744073709551616"
  shows "\<forall>i \<in> set ids. 0 \<le> i \<and> i < int (length (dims_value da)) \<Longrightarrow>
    \<forall>s \<in> set (if first then tl (dim_sizes da ids) else dim_sizes da ids). s \<noteq> 0 \<Longrightarrow>
    var_shape_loop da first ids = (NC_NOERR, dim_sizes da ids)"
proof (induction ids arbitrary: first)
  case (Cons i ids)
  then have "var_shape_loop da False ids = (NC_NOERR, dim_sizes da ids)"
    by (auto simp: dim_sizes_def split: if_splits)
  with Cons.prems elem_NC_dimarray_in [OF _ _ assms, of i] show ?case
    by (auto simp: dim_sizes_def split: if_splits)
qed (simp add: dim_sizes_def)

definition suffix_product :: "int list \<Rightarrow> int" where
  "suffix_product shp = prod_list (map (max 1) shp)"

lemma suffix_product_ge: "1 \<le> suffix_product shp"
proof (induction shp)
  case (Cons s shp)
  then show ?case using mult_mono [of 1 "max 1 s" 1 "suffix_product shp"] by (simp add: suffix_product_def)
qed (simp add: suffix_product_def)

lemma suffix_product_Cons: "suffix_product (s # shp) = max 1 s * suffix_product shp"
  by (simp add: suffix_product_def)

lemma suffix_product_tl_le: "suffix_product shp \<le> suffix_product (s # shp)"
  using suffix_product_ge [of shp] by (simp add: suffix_product_Cons mult_le_cancel_right1)

lemma dsize_step_ok:
  assumes "1 \<le> p" "0 \<le> s" "max 1 s * p \<le> OFF_T_MAX"
  shows "dsize_step p s = Done (max 1 s * p)"
proof -
  have "p \<le> max 1 s * p" "max 1 s \<le> max 1 s * p" using assms(1) by (simp_all add: mult_le_cancel_right1 mult_le_cancel_left1)
  then have b: "p \<le> OFF_T_MAX" "s \<le> OFF_T_MAX" using assms(3) by linarith+
  have "s * p \<le> OFF_T_MAX" using assms by (cases "s = 0") (simp_all add: max_def split: if_splits)
  then have "s \<le> OFF_T_MAX div p" using int_le_div_iff [of p s] assms(1) by simp
  moreover have "c_div OFF_T_MAX p = Done (OFF_T_MAX div p)" using assms(1) by (simp add: c_div_def)
  moreover have "s64 s = s" using b assms(2) by (simp add: s64_id)
  moreover have "s64 (u64 p * (if 0 < s then s else 1)) = max 1 s * p"
  proof -
    have "u64 p = p" using assms(1) b by (intro u64_id) simp_all
    moreover have "0 \<le> max 1 s * p" using assms(1) by simp
    then have "s64 (max 1 s * p) = max 1 s * p" using assms(3) by (intro s64_id) linarith+
    ultimately show ?thesis by (auto simp: max_def mult.commute)
  qed
  ultimately show ?thesis by (simp add: dsize_step_def)
qed

lemma dsizes_loop_ok:
  "\<forall>s \<in> set shp. 0 \<le> s \<Longrightarrow> suffix_product shp \<le> OFF_T_MAX \<Longrightarrow>
    dsizes_loop (skip \<and> hd shp = 0) shp =
      Done (suffix_product shp, map (\<lambda>k. suffix_product (drop k shp)) [0..<length shp])"
proof (induction shp arbitrary: skip)
  case (Cons s shp)
  have "suffix_product shp \<le> OFF_T_MAX" using suffix_product_tl_le Cons.prems(2) by (rule order_trans)
  with Cons.IH [of False] Cons.prems have IH: "dsizes_loop False shp =
      Done (suffix_product shp, map (\<lambda>k. suffix_product (drop k shp)) [0..<length shp])" by simp
  have list: "map (\<lambda>k. suffix_product (drop k (s # shp))) [0..<length (s # shp)] =
      suffix_product (s # shp) # map (\<lambda>k. suffix_product (drop k shp)) [0..<length shp]"
    by (simp add: upt_conv_Cons map_Suc_upt [symmetric] comp_def del: upt_Suc)
  have "dsize_step (suffix_product shp) s = Done (suffix_product (s # shp))"
    using Cons.prems suffix_product_ge [of shp] dsize_step_ok [of "suffix_product shp" s] by (simp add: suffix_product_Cons)
  moreover have "suffix_product (s # shp) = suffix_product shp" if "s = 0" using that by (simp add: suffix_product_Cons)
  ultimately show ?case using IH unfolding list by (cases "skip \<and> s = 0") auto
qed (simp add: suffix_product_def)

lemma var_len_of_ok:
  assumes "1 \<le> p" "0 < sz" "p * sz + 3 \<le> OFF_T_MAX"
  shows "var_len_of p sz = (p * sz + 3) div 4 * 4"
proof -
  have pos: "p \<le> p * sz" "0 < p * sz" using assms by (simp_all add: mult_le_cancel_left1)
  then have "0 \<le> p" "p < 18446744073709551616" "- 9223372036854775808 \<le> p * sz" "p * sz < 9223372036854775808"
    using assms by linarith+
  then have "u64 p = p" "s64 (p * sz) = p * sz" using u64_id s64_id by blast+
  then have l: "s64 (u64 p * sz) = p * sz" by simp
  let ?l = "p * sz"
  have r: "?l - 4 * (sgn ?l * (\<bar>?l\<bar> div 4)) = ?l mod 4" using pos(2) by (simp add: minus_mult_div_eq_mod)
  have "s64 (?l + (4 - ?l mod 4)) = ?l + (4 - ?l mod 4)" if "0 < ?l mod 4"
    using pos(2) assms(3) that by (intro s64_id) linarith+
  moreover have "?l + (4 - ?l mod 4) = (?l + 3) div 4 * 4" if "0 < ?l mod 4" using that by presburger
  moreover have "(?l + 3) div 4 * 4 = ?l" if "\<not> 0 < ?l mod 4" using that by presburger
  ultimately show ?thesis unfolding var_len_of_def Let_def l r by auto
qed

lemma ncx_szof_cases: "ncx_szof type = Done sz \<Longrightarrow> sz \<in> {1, 2, 4, 8}"
  by (auto simp: ncx_szof_def split: if_splits)

text \<open>
  C37: for dimension numbers that exist, with at most the first dimension unlimited and a size
  in bytes that fits, \<open>NC_var_shape\<close> sets \<open>shape\<close> to the dimension sizes, \<open>dsizes\<close> to the
  products from each dimension to the right (the record dimension counting 1), and \<open>len\<close> to
  the byte size of the variable, or of one record, rounded up to a multiple of 4.
\<close>

theorem NC_var_shape_sizes:
  assumes "ncx_szof (var_type v) = Done sz" and "length (dims_value da) < 18446744073709551616"
    and "length (var_dimids v) = var_ndims v" "length (var_shape v) = var_ndims v" "length (var_dsizes v) = var_ndims v"
    and "\<forall>i \<in> set (var_dimids v). 0 \<le> i \<and> i < int (length (dims_value da))"
    and "shp = dim_sizes da (var_dimids v)" "\<forall>s \<in> set shp. 0 \<le> s" "\<forall>s \<in> set (tl shp). s \<noteq> 0"
    and "suffix_product shp * sz + 3 \<le> OFF_T_MAX"
  shows "NC_var_shape v da = Done (NC_NOERR, v\<lparr>var_xsz := sz, var_shape := shp,
    var_dsizes := map (\<lambda>k. suffix_product (drop k shp)) [0..<var_ndims v],
    var_len := (suffix_product shp * sz + 3) div 4 * 4\<rparr>)"
proof -
  have sz: "0 < sz" using ncx_szof_cases [OF assms(1)] by auto
  have len: "var_len_of (suffix_product shp) sz = (suffix_product shp * sz + 3) div 4 * 4"
    by (rule var_len_of_ok [OF suffix_product_ge sz assms(10)])
  have lshp: "length shp = var_ndims v" using assms(3,7) by (simp add: dim_sizes_def)
  show ?thesis
  proof (cases "var_ndims v = 0")
    case True
    with lshp have "shp = []" by simp
    with True len assms(1,4,5) show ?thesis by (simp add: NC_var_shape_def suffix_product_def)
  next
    case False
    then have ne: "shp \<noteq> []" "var_dimids v \<noteq> []" using lshp assms(3) by auto
    have loop: "var_shape_loop da True (var_dimids v) = (NC_NOERR, shp)"
      using var_shape_loop_ok [OF assms(2,6), of True] assms(7,9) by simp
    have "suffix_product shp \<le> suffix_product shp * sz" using sz suffix_product_ge [of shp] by (simp add: mult_le_cancel_left1)
    then have "suffix_product shp \<le> OFF_T_MAX" using assms(10) by linarith
    from dsizes_loop_ok [OF assms(8) this, of True] have "dsizes_loop (hd shp = 0) shp =
        Done (suffix_product shp, map (\<lambda>k. suffix_product (drop k shp)) [0..<length shp])" by simp
    moreover have "IS_RECVAR (v\<lparr>var_xsz := sz, var_shape := shp\<rparr>) \<longleftrightarrow> hd shp = 0" using ne by (simp add: IS_RECVAR_def)
    ultimately show ?thesis using False ne len loop assms(1,4,5) lshp by (simp add: NC_var_shape_def Let_def)
  qed
qed

definition demo_dims :: "int list \<Rightarrow> NC_dimarray" where
  "demo_dims sizes = \<lparr>dims_nalloc = length sizes, dims_hashmap = None,
     dims_value = map (\<lambda>n. \<lparr>dim_name = \<lparr>nchars = 1, cp = ''d''\<rparr>, dim_size = n\<rparr>) sizes\<rparr>"

theorem NC_var_shape_sizes_witness:
  "NC_var_shape ((huge_var [9, 9, 9])\<lparr>var_dsizes := [9, 9, 9], var_type := NC_SHORT\<rparr>) (demo_dims [0, 3, 5]) =
    Done (NC_NOERR, ((huge_var [9, 9, 9])\<lparr>var_dsizes := [9, 9, 9], var_type := NC_SHORT\<rparr>)\<lparr>var_xsz := 2, var_shape := [0, 3, 5],
      var_dsizes := map (\<lambda>k. suffix_product (drop k [0, 3, 5])) [0..<var_ndims ((huge_var [9, 9, 9])\<lparr>var_dsizes := [9, 9, 9], var_type := NC_SHORT\<rparr>)],
      var_len := (suffix_product [0, 3, 5] * 2 + 3) div 4 * 4\<rparr>)"
  by (rule NC_var_shape_sizes)
    (auto simp: huge_var_def demo_dims_def dim_sizes_def ncx_szof_def suffix_product_def upto_rec1)

definition dimid_ok :: "NC_dimarray \<Rightarrow> int list \<Rightarrow> nat \<Rightarrow> bool" where
  "dimid_ok da ids k \<longleftrightarrow> 0 \<le> ids ! k \<and> ids ! k < int (length (dims_value da))"

lemma var_shape_loop_fails:
  assumes "length (dims_value da) < 18446744073709551616"
  shows "k < length ids \<Longrightarrow> \<forall>j<k. dimid_ok da ids j \<and> (first \<and> j = 0 \<or> dim_sizes da ids ! j \<noteq> 0) \<Longrightarrow>
    (\<not> dimid_ok da ids k \<longrightarrow> fst (var_shape_loop da first ids) = NC_EBADDIM) \<and>
    (dimid_ok da ids k \<and> dim_sizes da ids ! k = 0 \<and> \<not> (first \<and> k = 0) \<longrightarrow> fst (var_shape_loop da first ids) = NC_EUNLIMPOS)"
proof (induction ids arbitrary: k first)
  case (Cons i ids)
  show ?case
  proof (cases k)
    case 0
    with elem_NC_dimarray_in [OF _ _ assms, of i] show ?thesis by (auto simp: dimid_ok_def dim_sizes_def)
  next
    case (Suc k')
    have head: "0 \<le> i" "i < int (length (dims_value da))" "first \<or> dim_size (dims_value da ! nat i) \<noteq> 0"
      using Cons.prems(2) Suc by (auto simp: dimid_ok_def dim_sizes_def dest: spec [of _ 0])
    have "\<forall>j<k'. dimid_ok da ids j \<and> (False \<and> j = 0 \<or> dim_sizes da ids ! j \<noteq> 0)"
      using Cons.prems(2) Suc by (fastforce simp: dimid_ok_def dim_sizes_def)
    with Cons.IH [of k' False] Cons.prems(1) Suc head elem_NC_dimarray_in [OF _ _ assms, of i] show ?thesis
      by (auto simp: dimid_ok_def dim_sizes_def split: prod.split)
  qed
qed simp

text \<open>
  The first dimension number at fault decides what \<open>NC_var_shape\<close> returns:
  \<open>NC_EBADDIM\<close> if it names no dimension, \<open>NC_EUNLIMPOS\<close> if it names the unlimited dimension
  out of the first place.
\<close>

theorem NC_var_shape_error:
  assumes "ncx_szof (var_type v) = Done sz" and "length (dims_value da) < 18446744073709551616"
    and "length (var_dimids v) = var_ndims v" "length (var_shape v) = var_ndims v" "length (var_dsizes v) = var_ndims v"
    and "k < var_ndims v" "\<forall>j<k. dimid_ok da (var_dimids v) j \<and> (j = 0 \<or> dim_sizes da (var_dimids v) ! j \<noteq> 0)"
    and "\<not> dimid_ok da (var_dimids v) k \<or> dim_sizes da (var_dimids v) ! k = 0 \<and> k \<noteq> 0"
  shows "\<exists>v'. NC_var_shape v da = Done (if dimid_ok da (var_dimids v) k then NC_EUNLIMPOS else NC_EBADDIM, v')"
proof -
  obtain status shp where loop: "var_shape_loop da True (var_dimids v) = (status, shp)" by fastforce
  have "status = (if dimid_ok da (var_dimids v) k then NC_EUNLIMPOS else NC_EBADDIM)"
    using var_shape_loop_fails [OF assms(2), of k "var_dimids v" True] assms(3,6-8) loop by auto
  with loop assms(1,3-6) show ?thesis by (auto simp: NC_var_shape_def Let_def)
qed

theorem NC_var_shape_error_witness:
  "\<exists>v'. NC_var_shape ((huge_var [9, 9, 9])\<lparr>var_dsizes := [9, 9, 9], var_dimids := [1, 0, 7]\<rparr>) (demo_dims [0, 3, 5]) =
    Done (if dimid_ok (demo_dims [0, 3, 5]) (var_dimids ((huge_var [9, 9, 9])\<lparr>var_dsizes := [9, 9, 9], var_dimids := [1, 0, 7]\<rparr>)) 1
      then NC_EUNLIMPOS else NC_EBADDIM, v')"
  by (rule NC_var_shape_error)
    (auto simp: huge_var_def demo_dims_def dim_sizes_def ncx_szof_def dimid_ok_def)

end
