(* ===== verification/NC_Ncio.thy ===== *)
theory NC_Ncio
  imports NC3_Var
begin

text \<open>
  The I/O layer under the classic file format, \<open>libsrc/ncio.c\<close>: the table of operations a
  driver provides, over a state of the driver's own. The pointer that \<open>get\<close> hands out is the
  contents of the region, and \<open>rel\<close> is given the region's contents back; between the two
  nothing else touches the region. Then the external representation of integers,
  \<open>libsrc/ncx.c\<close>: big-endian, in 4 or 8 bytes.
\<close>

abbreviation (input) "RGN_WRITE \<equiv> (4::int)"
abbreviation (input) "RGN_MODIFIED \<equiv> (8::int)"
abbreviation (input) "OFF_NONE \<equiv> (-1::int)"

text \<open>Arguments as in C: offset, extent and flags; for \<open>io_rel\<close> the contents come before the flags.\<close>

record 's ncio =
  io_get :: "'s \<Rightarrow> int \<Rightarrow> nat \<Rightarrow> int \<Rightarrow> (int \<times> string \<times> 's) run"
  io_rel :: "'s \<Rightarrow> int \<Rightarrow> string \<Rightarrow> int \<Rightarrow> (int \<times> 's) run"
  io_move :: "'s \<Rightarrow> int \<Rightarrow> int \<Rightarrow> nat \<Rightarrow> int \<Rightarrow> (int \<times> 's) run"
  io_sync :: "'s \<Rightarrow> (int \<times> 's) run"
  io_filesize :: "'s \<Rightarrow> int \<times> int"
  io_pad_length :: "'s \<Rightarrow> int \<Rightarrow> (int \<times> 's) run"

subsection \<open>What the classic layer relies on\<close>

text \<open>
  A driver that is \<open>ok\<close> holds \<open>bytes\<close>: inside them, \<open>get\<close> hands out a region unchanged, if it is no larger than the driver's \<open>limit\<close>. Then
  the region is \<open>held\<close>, until \<open>rel\<close> puts it back, modified if it was asked for with \<open>RGN_WRITE\<close>. The locale \<open>ncio_store\<close> adds \<open>move\<close>, which
  copies a region of any size, overlapping with its destination or not.
\<close>

locale ncio_region =
  fixes io :: "'s ncio"
    and ok :: "'s \<Rightarrow> bool"
    and bytes :: "'s \<Rightarrow> string"
    and held :: "'s \<Rightarrow> int \<Rightarrow> nat \<Rightarrow> int \<Rightarrow> bool"
    and limit :: nat
  assumes get_law: "ok s \<Longrightarrow> 0 \<le> off \<Longrightarrow> 0 < n \<Longrightarrow> n \<le> limit \<Longrightarrow> nat off + n \<le> length (bytes s) \<Longrightarrow> flg = 0 \<or> flg = RGN_WRITE \<Longrightarrow>
      \<exists>s'. io_get io s off n flg = Done (NC_NOERR, take n (drop (nat off) (bytes s)), s') \<and> held s' off n flg \<and> bytes s' = bytes s"
    and rel_law: "held s off (length buf) flg \<Longrightarrow>
      rflg = 0 \<and> buf = take (length buf) (drop (nat off) (bytes s)) \<or> rflg = RGN_MODIFIED \<and> flg = RGN_WRITE \<Longrightarrow>
      \<exists>s'. io_rel io s off buf rflg = Done (NC_NOERR, s') \<and> ok s' \<and> bytes s' = blit (bytes s) (nat off) buf"
    and sync_law: "ok s \<Longrightarrow> \<exists>s'. io_sync io s = Done (NC_NOERR, s') \<and> ok s' \<and> bytes s' = bytes s"

locale ncio_store = ncio_region +
  assumes move_law: "ok s \<Longrightarrow> 0 \<le> to \<Longrightarrow> 0 \<le> from_off \<Longrightarrow> nat to + n \<le> length (bytes s) \<Longrightarrow> nat from_off + n \<le> length (bytes s) \<Longrightarrow>
      \<exists>s'. io_move io s to from_off n flg = Done (NC_NOERR, s') \<and> ok s' \<and>
        bytes s' = blit (bytes s) (nat to) (take n (drop (nat from_off) (bytes s)))"

text \<open>A driver that accepts everything, with nothing behind it.\<close>

definition null_io :: "unit ncio" where
  "null_io = \<lparr>io_get = (\<lambda>s off n flg. Done (NC_NOERR, replicate n CHR ''z'', ())), io_rel = (\<lambda>s off buf flg. Done (NC_NOERR, ())),
     io_move = (\<lambda>s to from_off n flg. Done (NC_NOERR, ())), io_sync = (\<lambda>s. Done (NC_NOERR, ())), io_filesize = (\<lambda>s. (NC_NOERR, 0)),
     io_pad_length = (\<lambda>s n. Done (NC_NOERR, ()))\<rparr>"

subsection \<open>Big-endian integers\<close>

text \<open>The low \<open>n\<close> bytes of \<open>v\<close>, the most significant first; negative numbers in two's complement.\<close>

primrec be :: "nat \<Rightarrow> int \<Rightarrow> string" where
  "be 0 v = []"
| "be (Suc n) v = be n (v div 256) @ [char_of (v mod 256)]"

definition unbe :: "string \<Rightarrow> int" where
  "unbe bs = foldl (\<lambda>a b. a * 256 + of_char b) 0 bs"

lemma length_be [simp]: "length (be n v) = n"
  by (induction n arbitrary: v) simp_all

lemma unbe_snoc: "unbe (bs @ [b]) = unbe bs * 256 + of_char b"
  by (simp add: unbe_def)

lemma of_char_char_of_mod: "(of_char (char_of (v mod 256 :: int)) :: int) = v mod 256"
  by simp

lemma unbe_be: "unbe (be n v) = v mod 256 ^ n"
proof (induction n arbitrary: v)
  case (Suc n)
  have "v mod (256 ^ Suc n) = (v div 256) mod 256 ^ n * 256 + v mod 256"
    by (simp add: zmod_zmult2_eq)
  with Suc show ?case by (simp add: unbe_snoc of_char_char_of_mod)
qed (simp add: unbe_def)

lemma unbe_bounds: "0 \<le> unbe bs \<and> unbe bs < 256 ^ length bs"
proof (induction bs rule: rev_induct)
  case (snoc b bs)
  have "0 \<le> (of_char b :: int)" "(of_char b :: int) < 256"
    using of_char_of [of "of_char b :: int"] by (simp_all add: of_char_def) 
  with snoc show ?case by (simp add: unbe_snoc)
qed (simp add: unbe_def)

lemma s64_mod: "s64 (x mod 18446744073709551616) = s64 x"
  by (simp add: s64_def mod_add_left_eq)

end
