(* ===== verification/NC3_Header.thy ===== *)
theory NC3_Header
  imports NC_Ncio
begin

text \<open>
  \<open>libsrc/v1hpg.c\<close>, the external form of the header of a classic file, up to the arrays of
  dimensions, attributes and variables: the header stream over ncio, and for every part its
  length, its writer and its reader. A writer or reader is a function of the stream; its
  result is a status with the stream (\<open>Inl\<close>) or a value with the stream (\<open>Inr\<close>). Moving past
  the end of the buffer is \<open>Fault\<close>.
\<close>

record 's v1hs =
  gs_io :: 's
  gs_offset :: int
  gs_extent :: nat
  gs_flags :: int
  gs_version :: nat
  gs_base :: "string option"
  gs_pos :: nat

type_synonym ('a, 's) hm = "'s v1hs \<Rightarrow> ((int \<times> 's v1hs) + ('a \<times> 's v1hs)) run"

definition hm_return :: "'a \<Rightarrow> ('a, 's) hm" where
  "hm_return a gs = Done (Inr (a, gs))"

definition hm_fail :: "int \<Rightarrow> ('a, 's) hm" where
  "hm_fail status gs = Done (Inl (status, gs))"

definition hm_bind :: "('a, 's) hm \<Rightarrow> ('a \<Rightarrow> ('b, 's) hm) \<Rightarrow> ('b, 's) hm" where
  "hm_bind m f gs = run_bind (m gs) (\<lambda>r. case r of Inl e \<Rightarrow> Done (Inl e) | Inr (a, gs') \<Rightarrow> f a gs')"

definition hm_lift :: "'a run \<Rightarrow> ('a, 's) hm" where
  "hm_lift m gs = run_bind m (\<lambda>a. Done (Inr (a, gs)))"

text \<open>\<open>status = f(...); if(status) return status;\<close> after \<open>f\<close>.\<close>

definition hm_then :: "('a, 's) hm \<Rightarrow> ('b, 's) hm \<Rightarrow> ('b, 's) hm" where
  "hm_then m k = hm_bind m (\<lambda>_. k)"

subsection \<open>The stream\<close>

definition rel_v1hs :: "'s ncio \<Rightarrow> 's v1hs \<Rightarrow> (int \<times> 's v1hs) run" where
  "rel_v1hs io gs = (case gs_base gs of None \<Rightarrow> Done (NC_NOERR, gs)
     | Some buf \<Rightarrow> if gs_offset gs = OFF_NONE then Done (NC_NOERR, gs)
         else run_bind (io_rel io (gs_io gs) (gs_offset gs) buf (if gs_flags gs = RGN_WRITE then RGN_MODIFIED else 0))
           (\<lambda>(status, s'). Done (status, gs\<lparr>gs_io := s', gs_base := None, gs_pos := 0\<rparr>)))"

definition fault_v1hs :: "'s ncio \<Rightarrow> nat \<Rightarrow> (unit, 's) hm" where
  "fault_v1hs io extent gs = run_bind
     (case gs_base gs of None \<Rightarrow> Done (NC_NOERR, gs)
      | Some buf \<Rightarrow> run_bind (rel_v1hs io gs) (\<lambda>(status, gs').
          Done (status, if status = NC_NOERR then gs'\<lparr>gs_offset := gs_offset gs' + int (gs_pos gs)\<rparr> else gs')))
     (\<lambda>(status, gs1). if status \<noteq> NC_NOERR then Done (Inl (status, gs1))
      else let gs2 = gs1\<lparr>gs_extent := max extent (gs_extent gs1)\<rparr> in
        run_bind (io_get io (gs_io gs2) (gs_offset gs2) (gs_extent gs2) (gs_flags gs2)) (\<lambda>(status, buf, s').
          if status \<noteq> NC_NOERR then Done (Inl (status, gs2\<lparr>gs_io := s'\<rparr>))
          else Done (Inr ((), gs2\<lparr>gs_io := s', gs_base := Some buf, gs_pos := 0\<rparr>))))"

definition check_v1hs :: "'s ncio \<Rightarrow> nat \<Rightarrow> (unit, 's) hm" where
  "check_v1hs io nextread gs = (if gs_base gs \<noteq> None \<and> gs_pos gs + nextread \<le> gs_extent gs then Done (Inr ((), gs))
     else fault_v1hs io nextread gs)"

text \<open>The \<open>ncx_put\<close> and \<open>ncx_get\<close> functions move \<open>gsp->pos\<close> over the bytes they copy.\<close>

definition put_bytes :: "string \<Rightarrow> (unit, 's) hm" where
  "put_bytes bs gs = (case gs_base gs of None \<Rightarrow> Fault
     | Some buf \<Rightarrow> if gs_pos gs + length bs \<le> length buf
         then Done (Inr ((), gs\<lparr>gs_base := Some (blit buf (gs_pos gs) bs), gs_pos := gs_pos gs + length bs\<rparr>)) else Fault)"

definition get_bytes :: "nat \<Rightarrow> (string, 's) hm" where
  "get_bytes n gs = (case gs_base gs of None \<Rightarrow> Fault
     | Some buf \<Rightarrow> if gs_pos gs + n \<le> length buf
         then Done (Inr (take n (drop (gs_pos gs) buf), gs\<lparr>gs_pos := gs_pos gs + n\<rparr>)) else Fault)"

definition get_version :: "(nat, 's) hm" where
  "get_version gs = Done (Inr (gs_version gs, gs))"

definition get_extent :: "(nat, 's) hm" where
  "get_extent gs = Done (Inr (gs_extent gs, gs))"

definition ncx_put_size_t :: "int \<Rightarrow> (unit, 's) hm" where
  "ncx_put_size_t v = (if v \<le> X_UINT_MAX then put_bytes (be 4 v) else (\<lambda>gs. Fault))"

definition ncx_get_uint32 :: "(int, 's) hm" where
  "ncx_get_uint32 = hm_bind (get_bytes 4) (\<lambda>bs. hm_return (unbe bs))"

definition ncx_get_uint64 :: "(int, 's) hm" where
  "ncx_get_uint64 = hm_bind (get_bytes 8) (\<lambda>bs. hm_return (unbe bs))"

definition ncx_put_off_t :: "int \<Rightarrow> nat \<Rightarrow> (unit, 's) hm" where
  "ncx_put_off_t v sizeof_off_t = (if v < 0 then hm_fail NC_ERANGE else put_bytes (be sizeof_off_t v))"

definition ncx_get_off_t :: "nat \<Rightarrow> (int, 's) hm" where
  "ncx_get_off_t sizeof_off_t = hm_bind (get_bytes sizeof_off_t) (\<lambda>bs.
     hm_return (if sizeof_off_t = 4 then s32 (unbe bs) else s64 (unbe bs)))"

definition size_bytes :: "nat \<Rightarrow> nat" where
  "size_bytes version = (if version = 5 then 8 else 4)"

definition v1h_put_size_t :: "'s ncio \<Rightarrow> int \<Rightarrow> (unit, 's) hm" where
  "v1h_put_size_t io v = hm_bind get_version (\<lambda>ver. hm_then (check_v1hs io (size_bytes ver))
     (if ver = 5 then put_bytes (be 8 v) else ncx_put_size_t v))"

definition v1h_get_size_t :: "'s ncio \<Rightarrow> (int, 's) hm" where
  "v1h_get_size_t io = hm_bind get_version (\<lambda>ver. hm_then (check_v1hs io (size_bytes ver))
     (if ver = 5 then ncx_get_uint64 else ncx_get_uint32))"

definition v1h_put_nc_type :: "'s ncio \<Rightarrow> int \<Rightarrow> (unit, 's) hm" where
  "v1h_put_nc_type io type = hm_then (check_v1hs io 4) (put_bytes (be 4 type))"

definition v1h_get_nc_type :: "'s ncio \<Rightarrow> (int, 's) hm" where
  "v1h_get_nc_type io = hm_then (check_v1hs io 4) (hm_bind ncx_get_uint32 (\<lambda>type.
     if type \<in> {NC_BYTE, NC_CHAR, NC_SHORT, NC_INT, NC_FLOAT, NC_DOUBLE, NC_UBYTE, NC_USHORT, NC_UINT, NC_INT64, NC_UINT64, NC_STRING}
     then hm_return type else (\<lambda>gs. Fault)))"

abbreviation (input) "NC_UNSPECIFIED \<equiv> (0::int)"
abbreviation (input) "NC_DIMENSION \<equiv> (10::int)"
abbreviation (input) "NC_VARIABLE \<equiv> (11::int)"
abbreviation (input) "NC_ATTRIBUTE \<equiv> (12::int)"

definition v1h_put_NCtype :: "'s ncio \<Rightarrow> int \<Rightarrow> (unit, 's) hm" where
  "v1h_put_NCtype io type = hm_then (check_v1hs io 4) (put_bytes (be 4 type))"

definition v1h_get_NCtype :: "'s ncio \<Rightarrow> (int, 's) hm" where
  "v1h_get_NCtype io = hm_then (check_v1hs io 4) ncx_get_uint32"

subsection \<open>Strings\<close>

definition pad4 :: "nat \<Rightarrow> nat" where
  "pad4 n = (if n mod 4 = 0 then 0 else 4 - n mod 4)"

definition ncx_len_NC_string :: "NC_string \<Rightarrow> nat \<Rightarrow> nat" where
  "ncx_len_NC_string s version = size_bytes version + (if nchars s \<noteq> 0 then RNDUP (nchars s) 4 else 0)"

definition ncx_pad_putn_text :: "nat \<Rightarrow> string \<Rightarrow> (unit, 's) hm" where
  "ncx_pad_putn_text nelems tp = put_bytes (take nelems tp @ replicate (pad4 nelems) NULB)"

definition ncx_pad_getn_text :: "nat \<Rightarrow> (string, 's) hm" where
  "ncx_pad_getn_text nelems = hm_bind (get_bytes (nelems + pad4 nelems)) (\<lambda>bs. hm_return (take nelems bs))"

definition v1h_put_NC_string :: "'s ncio \<Rightarrow> NC_string \<Rightarrow> (unit, 's) hm" where
  "v1h_put_NC_string io s = hm_then (v1h_put_size_t io (int (nchars s)))
     (hm_then (check_v1hs io (RNDUP (nchars s) 4)) (ncx_pad_putn_text (nchars s) (cp s)))"

text \<open>A count so large that the sizes computed from it wrap is read into a block that is too small for it.\<close>

definition no_wrap :: "nat \<Rightarrow> nat \<Rightarrow> (unit, 's) hm" where
  "no_wrap n unit gs = (if n * unit + 32 < 18446744073709551616 then Done (Inr ((), gs)) else Fault)"

definition v1h_get_NC_string :: "nc_env \<Rightarrow> 's ncio \<Rightarrow> (NC_string, 's) hm" where
  "v1h_get_NC_string E io = hm_bind (v1h_get_size_t io) (\<lambda>n. let n = nat n in hm_then (no_wrap n 1)
     (case new_NC_string (env_mem E) n None of None \<Rightarrow> hm_fail NC_ENOMEM
      | Some strp \<Rightarrow> hm_then (check_v1hs io (RNDUP n 4)) (hm_bind (ncx_pad_getn_text n) (\<lambda>bs.
          hm_return (strp\<lparr>cp := bs\<rparr>)))))"

subsection \<open>Dimensions\<close>

definition ncx_len_NC_dim :: "NC_dim \<Rightarrow> nat \<Rightarrow> nat" where
  "ncx_len_NC_dim d version = ncx_len_NC_string (dim_name d) version + size_bytes version"

definition v1h_put_NC_dim :: "'s ncio \<Rightarrow> NC_dim \<Rightarrow> (unit, 's) hm" where
  "v1h_put_NC_dim io d = hm_then (v1h_put_NC_string io (dim_name d)) (v1h_put_size_t io (dim_size d))"

definition v1h_get_NC_dim :: "nc_env \<Rightarrow> 's ncio \<Rightarrow> (NC_dim, 's) hm" where
  "v1h_get_NC_dim E io = hm_bind (v1h_get_NC_string E io) (\<lambda>strp.
     case new_x_NC_dim E strp of None \<Rightarrow> hm_fail NC_ENOMEM
     | Some dimp \<Rightarrow> hm_bind (v1h_get_size_t io) (\<lambda>sz. hm_return (dimp\<lparr>dim_size := sz\<rparr>)))"

definition ncx_len_NC_dimarray :: "NC_dimarray \<Rightarrow> nat \<Rightarrow> nat" where
  "ncx_len_NC_dimarray ncap version = 4 + size_bytes version + sum_list (map (\<lambda>d. ncx_len_NC_dim d version) (dims_value ncap))"

fun put_all :: "('a \<Rightarrow> (unit, 's) hm) \<Rightarrow> 'a list \<Rightarrow> (unit, 's) hm" where
  "put_all put [] = hm_return ()"
| "put_all put (x # xs) = hm_then (put x) (put_all put xs)"

definition v1h_put_NC_dimarray :: "'s ncio \<Rightarrow> NC_dimarray \<Rightarrow> (unit, 's) hm" where
  "v1h_put_NC_dimarray io ncap = (if dims_value ncap = []
     then hm_then (v1h_put_NCtype io NC_UNSPECIFIED) (v1h_put_size_t io 0)
     else hm_then (v1h_put_NCtype io NC_DIMENSION) (hm_then (v1h_put_size_t io (int (length (dims_value ncap))))
       (put_all (v1h_put_NC_dim io) (dims_value ncap))))"

text \<open>The loop of the reader: \<open>n\<close> more entries after \<open>ds\<close>, with the name index.\<close>

fun get_dims :: "nc_env \<Rightarrow> 's ncio \<Rightarrow> nat \<Rightarrow> NC_dim list \<Rightarrow> NC_hashmap option \<Rightarrow> (NC_dim list \<times> NC_hashmap option, 's) hm" where
  "get_dims E io 0 ds hmo = hm_return (ds, hmo)"
| "get_dims E io (Suc n) ds hmo = hm_bind (v1h_get_NC_dim E io) (\<lambda>d.
     hm_bind (hm_lift (hash_add E hmo (length ds) (cstr (dim_name d)))) (\<lambda>hmo'. get_dims E io n (ds @ [d]) hmo'))"

definition v1h_get_NC_dimarray :: "nc_env \<Rightarrow> 's ncio \<Rightarrow> (NC_dimarray, 's) hm" where
  "v1h_get_NC_dimarray E io = hm_bind (v1h_get_NCtype io) (\<lambda>type. hm_bind (v1h_get_size_t io) (\<lambda>nelems.
     if nelems = 0 then hm_return empty_dimarray
     else if type \<noteq> NC_DIMENSION then hm_fail EINVAL
     else let n = nat nelems in
       if \<not> env_mem E (usz (n * 8)) then hm_fail NC_ENOMEM
       else hm_bind (hm_lift (NC_hashmapnew (env_mem E) n)) (\<lambda>hm. hm_then (no_wrap n 8)
         (hm_bind (get_dims E io n [] (Some hm)) (\<lambda>(ds, hmo).
            hm_return \<lparr>dims_nalloc = n, dims_hashmap = hmo, dims_value = ds\<rparr>)))))"

subsection \<open>Attributes\<close>

definition ncx_len_NC_attr :: "NC_attr \<Rightarrow> nat \<Rightarrow> nat" where
  "ncx_len_NC_attr a version = ncx_len_NC_string (att_name a) version + 4 + size_bytes version + att_xsz a"

definition ncmpix_len_nctype :: "int \<Rightarrow> nat run" where
  "ncmpix_len_nctype type =
     (if type \<in> {NC_BYTE, NC_CHAR, NC_UBYTE} then Done 1
      else if type \<in> {NC_SHORT, NC_USHORT} then Done 2
      else if type \<in> {NC_INT, NC_UINT, NC_FLOAT} then Done 4
      else if type \<in> {NC_DOUBLE, NC_INT64, NC_UINT64} then Done 8
      else Fault)"

text \<open>The \<open>do\<close> loop of \<open>v1h_put_NC_attrV\<close>; \<open>value\<close> is what remains.\<close>

function put_attrV_loop :: "'s ncio \<Rightarrow> nat \<Rightarrow> string \<Rightarrow> (unit, 's) hm" where
  "put_attrV_loop io perchunk val = (let nbytes = min perchunk (length val); rest = drop nbytes val in
     hm_then (check_v1hs io nbytes) (hm_then (put_bytes (take nbytes val))
       (if rest = [] then hm_return () else if nbytes = 0 then (\<lambda>gs. Loop) else put_attrV_loop io perchunk rest)))"
  by pat_completeness auto
termination
  by (relation "measure (\<lambda>(io, p, v). length v)") auto

declare put_attrV_loop.simps [simp del]

definition zero_back :: "nat \<Rightarrow> (unit, 's) hm" where
  "zero_back n gs = (if n = 0 then Done (Inr ((), gs)) else case gs_base gs of None \<Rightarrow> Fault
     | Some buf \<Rightarrow> if n \<le> gs_pos gs \<and> gs_pos gs \<le> length buf
         then Done (Inr ((), gs\<lparr>gs_base := Some (blit buf (gs_pos gs - n) (replicate n NULB))\<rparr>)) else Fault)"

definition v1h_put_NC_attrV :: "'s ncio \<Rightarrow> NC_attr \<Rightarrow> (unit, 's) hm" where
  "v1h_put_NC_attrV io a = hm_bind get_extent (\<lambda>perchunk.
     if perchunk mod 4 \<noteq> 0 \<or> length (att_xvalue a) < att_xsz a then (\<lambda>gs. Fault)
     else hm_then (put_attrV_loop io perchunk (take (att_xsz a) (att_xvalue a)))
       (hm_bind (hm_lift (ncmpix_len_nctype (att_type a))) (\<lambda>sz.
          zero_back (nat (u64 (int (att_xsz a) - int sz * int (att_nelems a)))))))"

definition v1h_put_NC_attr :: "'s ncio \<Rightarrow> NC_attr \<Rightarrow> (unit, 's) hm" where
  "v1h_put_NC_attr io a = hm_then (v1h_put_NC_string io (att_name a)) (hm_then (v1h_put_nc_type io (att_type a))
     (hm_then (v1h_put_size_t io (int (att_nelems a))) (v1h_put_NC_attrV io a)))"

function get_attrV_loop :: "'s ncio \<Rightarrow> nat \<Rightarrow> nat \<Rightarrow> string \<Rightarrow> (string, 's) hm" where
  "get_attrV_loop io perchunk remaining acc = (let nget = min perchunk remaining in
     hm_then (check_v1hs io nget) (hm_bind (get_bytes nget) (\<lambda>bs.
       if remaining - nget = 0 then hm_return (acc @ bs) else if nget = 0 then (\<lambda>gs. Loop)
       else get_attrV_loop io perchunk (remaining - nget) (acc @ bs))))"
  by pat_completeness auto
termination
  by (relation "measure (\<lambda>(io, p, r, acc). r)") auto

declare get_attrV_loop.simps [simp del]

definition v1h_get_NC_attrV :: "'s ncio \<Rightarrow> NC_attr \<Rightarrow> (NC_attr, 's) hm" where
  "v1h_get_NC_attrV io a = hm_bind get_extent (\<lambda>perchunk. hm_bind (get_attrV_loop io perchunk (att_xsz a) []) (\<lambda>bs.
     hm_return (a\<lparr>att_xvalue := bs\<rparr>)))"

definition v1h_get_NC_attr :: "nc_env \<Rightarrow> 's ncio \<Rightarrow> (NC_attr, 's) hm" where
  "v1h_get_NC_attr E io = hm_bind (v1h_get_NC_string E io) (\<lambda>strp. hm_bind (v1h_get_nc_type io) (\<lambda>type.
     hm_bind (v1h_get_size_t io) (\<lambda>nelems. hm_bind (hm_lift (new_x_NC_attr E strp type (nat nelems))) (\<lambda>r.
       case r of None \<Rightarrow> hm_fail NC_ENOMEM | Some attrp \<Rightarrow> v1h_get_NC_attrV io attrp))))"

definition ncx_len_NC_attrarray :: "NC_attrarray \<Rightarrow> nat \<Rightarrow> nat" where
  "ncx_len_NC_attrarray ncap version = 4 + size_bytes version + sum_list (map (\<lambda>a. ncx_len_NC_attr a version) (atts_value ncap))"

definition v1h_put_NC_attrarray :: "'s ncio \<Rightarrow> NC_attrarray \<Rightarrow> (unit, 's) hm" where
  "v1h_put_NC_attrarray io ncap = (if atts_value ncap = []
     then hm_then (v1h_put_NCtype io NC_UNSPECIFIED) (v1h_put_size_t io 0)
     else hm_then (v1h_put_NCtype io NC_ATTRIBUTE) (hm_then (v1h_put_size_t io (int (length (atts_value ncap))))
       (put_all (v1h_put_NC_attr io) (atts_value ncap))))"

fun get_attrs :: "nc_env \<Rightarrow> 's ncio \<Rightarrow> nat \<Rightarrow> NC_attr list \<Rightarrow> (NC_attr list, 's) hm" where
  "get_attrs E io 0 as = hm_return as"
| "get_attrs E io (Suc n) as = hm_bind (v1h_get_NC_attr E io) (\<lambda>a. get_attrs E io n (as @ [a]))"

definition v1h_get_NC_attrarray :: "nc_env \<Rightarrow> 's ncio \<Rightarrow> (NC_attrarray, 's) hm" where
  "v1h_get_NC_attrarray E io = hm_bind (v1h_get_NCtype io) (\<lambda>type. hm_bind (v1h_get_size_t io) (\<lambda>nelems.
     if nelems = 0 then hm_return empty_attrarray
     else if type \<noteq> NC_ATTRIBUTE then hm_fail EINVAL
     else let n = nat nelems in
       if \<not> env_mem E (usz (n * 8)) then hm_fail NC_ENOMEM
       else hm_then (no_wrap n 8) (hm_bind (get_attrs E io n []) (\<lambda>as.
            hm_return \<lparr>atts_nalloc = n, atts_value = as\<rparr>))))"

subsection \<open>Variables\<close>

definition ncx_len_NC_var :: "NC_var \<Rightarrow> nat \<Rightarrow> nat \<Rightarrow> nat" where
  "ncx_len_NC_var v sizeof_off_t version = ncx_len_NC_string (var_name v) version +
     (if version = 5 then 8 + var_ndims v * 8 else 4 + var_ndims v * 4) +
     ncx_len_NC_attrarray (var_attrs v) version + 4 + size_bytes version + sizeof_off_t"

definition off_bytes :: "nat \<Rightarrow> nat" where
  "off_bytes version = (if version = 1 then 4 else 8)"

definition v1h_put_NC_var :: "'s ncio \<Rightarrow> NC_var \<Rightarrow> (unit, 's) hm" where
  "v1h_put_NC_var io v = hm_then (v1h_put_NC_string io (var_name v)) (hm_then (v1h_put_size_t io (int (var_ndims v)))
     (hm_bind get_version (\<lambda>ver. hm_then
        (hm_then (check_v1hs io (var_ndims v * size_bytes ver))
           (if length (var_dimids v) < var_ndims v then (\<lambda>gs. Fault)
            else put_bytes (concat (map (be (size_bytes ver)) (take (var_ndims v) (var_dimids v))))))
        (hm_then (v1h_put_NC_attrarray io (var_attrs v)) (hm_then (v1h_put_nc_type io (var_type v))
           (hm_then (v1h_put_size_t io (if 4294967292 < u64 (var_len v) \<and> ver \<in> {1, 2} then 4294967295 else u64 (var_len v)))
              (hm_then (check_v1hs io (off_bytes ver)) (ncx_put_off_t (var_begin v) (off_bytes ver)))))))))"

text \<open>\<open>ncx_getn_longlong_int\<close> reports a value that is not an \<open>int\<close>; \<open>ncx_getn_int_int\<close> cannot fail.\<close>

fun get_dimids :: "nat \<Rightarrow> nat \<Rightarrow> (int list \<times> bool, 's) hm" where
  "get_dimids width 0 = hm_return ([], True)"
| "get_dimids width (Suc n) = hm_bind (get_bytes width) (\<lambda>bs. hm_bind (get_dimids width n) (\<lambda>(ids, ok).
     let x = (if width = 8 then s64 (unbe bs) else s32 (unbe bs)) in
     hm_return (s32 x # ids, ok \<and> - 2147483648 \<le> x \<and> x \<le> X_INT_MAX)))"

definition v1h_get_NC_var :: "nc_env \<Rightarrow> 's ncio \<Rightarrow> (NC_var, 's) hm" where
  "v1h_get_NC_var E io = hm_bind (v1h_get_NC_string E io) (\<lambda>strp. hm_bind (v1h_get_size_t io) (\<lambda>nd.
     let ndims = nat nd in hm_then (no_wrap ndims 8)
     (case new_x_NC_var E strp ndims of None \<Rightarrow> hm_fail NC_ENOMEM
      | Some varp \<Rightarrow> hm_bind get_version (\<lambda>ver. hm_then (check_v1hs io (ndims * size_bytes ver))
         (if length (var_dimids varp) < ndims then (\<lambda>gs. Fault)
          else hm_bind (get_dimids (size_bytes ver) ndims) (\<lambda>(ids, ok). if \<not> ok then hm_fail NC_ERANGE
            else hm_bind (v1h_get_NC_attrarray E io) (\<lambda>ap. hm_bind (v1h_get_nc_type io) (\<lambda>type.
              hm_bind (v1h_get_size_t io) (\<lambda>tmp. hm_then (check_v1hs io (off_bytes ver))
                (hm_bind (ncx_get_off_t (off_bytes ver)) (\<lambda>bgn.
                  hm_return (varp\<lparr>var_dimids := ids, var_attrs := ap, var_type := type, var_len := s64 tmp, var_begin := bgn\<rparr>))))))))))))"

definition ncx_len_NC_vararray :: "NC_vararray \<Rightarrow> nat \<Rightarrow> nat \<Rightarrow> nat" where
  "ncx_len_NC_vararray ncap sizeof_off_t version =
     4 + size_bytes version + sum_list (map (\<lambda>v. ncx_len_NC_var v sizeof_off_t version) (vars_value ncap))"

definition v1h_put_NC_vararray :: "'s ncio \<Rightarrow> NC_vararray \<Rightarrow> (unit, 's) hm" where
  "v1h_put_NC_vararray io ncap = (if vars_value ncap = []
     then hm_then (v1h_put_NCtype io NC_UNSPECIFIED) (v1h_put_size_t io 0)
     else hm_then (v1h_put_NCtype io NC_VARIABLE) (hm_then (v1h_put_size_t io (int (length (vars_value ncap))))
       (put_all (v1h_put_NC_var io) (vars_value ncap))))"

fun get_vars :: "nc_env \<Rightarrow> 's ncio \<Rightarrow> nat \<Rightarrow> NC_var list \<Rightarrow> NC_hashmap option \<Rightarrow> (NC_var list \<times> NC_hashmap option, 's) hm" where
  "get_vars E io 0 vs hmo = hm_return (vs, hmo)"
| "get_vars E io (Suc n) vs hmo = hm_bind (v1h_get_NC_var E io) (\<lambda>v.
     hm_bind (hm_lift (hash_add E hmo (length vs) (cstr (var_name v)))) (\<lambda>hmo'. get_vars E io n (vs @ [v]) hmo'))"

definition v1h_get_NC_vararray :: "nc_env \<Rightarrow> 's ncio \<Rightarrow> (NC_vararray, 's) hm" where
  "v1h_get_NC_vararray E io = hm_bind (v1h_get_NCtype io) (\<lambda>type. hm_bind (v1h_get_size_t io) (\<lambda>nelems.
     if nelems = 0 then hm_return empty_vararray
     else if type \<noteq> NC_VARIABLE then hm_fail EINVAL
     else let n = nat nelems in
       if \<not> env_mem E (usz (n * 8)) then hm_fail NC_ENOMEM
       else hm_bind (hm_lift (NC_hashmapnew (env_mem E) n)) (\<lambda>hm. hm_then (no_wrap n 8)
         (hm_bind (get_vars E io n [] (Some hm)) (\<lambda>(vs, hmo).
            hm_return \<lparr>vars_nalloc = n, vars_hashmap = hmo, vars_value = vs\<rparr>)))))"

end
