(* ===== verification/NC3_Codec.thy ===== *)
theory NC3_Codec
  imports NC3_Header
begin

text \<open>
  The header format as a function from data to bytes, independent of the stream, and the
  correctness of the writers and readers of \<open>NC3_Header\<close> against it, over any driver with the
  laws of \<open>ncio_store\<close>. \<open>put_spec\<close> says of a writer which bytes it adds to the file at the
  stream's position; \<open>get_spec\<close> says of a reader what it returns when certain bytes lie there.
  Both hide where the stream's buffer begins and ends.
\<close>

subsection \<open>Regions of the file\<close>

lemma blit_nested:
  assumes "p + length bs \<le> length buf" "off + length buf \<le> length xs"
  shows "blit xs off (blit buf p bs) = blit (blit xs off buf) (off + p) bs"
proof -
  have "blit xs off (blit buf p bs) = take off xs @ take p buf @ bs @ drop (p + length bs) buf @ drop (off + length buf) xs"
    using assms by (simp add: blit_def)
  moreover have "take (off + p) (blit xs off buf) = take off xs @ take p buf"
    using assms by (simp add: blit_def min_def)
  moreover have "drop (off + p + length bs) (blit xs off buf) = drop (p + length bs) buf @ drop (off + length buf) xs"
    using assms by (simp add: blit_def)
  ultimately show ?thesis by (simp add: blit_def)
qed

lemma blit_same: "off + n \<le> length xs \<Longrightarrow> blit xs off (take n (drop off xs)) = xs"
proof -
  assume "off + n \<le> length xs"
  then have "blit xs off (take n (drop off xs)) = take off xs @ take n (drop off xs) @ drop (n + off) xs"
    by (simp add: blit_def add.commute)
  also have "take n (drop off xs) @ drop (n + off) xs = drop off xs"
    using append_take_drop_id [of n "drop off xs"] by simp
  finally show ?thesis by simp
qed

lemma take_drop_blit: "off + length buf \<le> length xs \<Longrightarrow> p + n \<le> length buf \<Longrightarrow>
    take n (drop (off + p) (blit xs off buf)) = take n (drop p buf)"
  by (simp add: blit_def)

subsection \<open>The format\<close>

definition enc_size :: "nat \<Rightarrow> int \<Rightarrow> string" where
  "enc_size ver v = be (size_bytes ver) v"

definition enc_string :: "nat \<Rightarrow> NC_string \<Rightarrow> string" where
  "enc_string ver s = enc_size ver (int (nchars s)) @ cp s @ replicate (pad4 (nchars s)) NULB"

definition enc_dim :: "nat \<Rightarrow> NC_dim \<Rightarrow> string" where
  "enc_dim ver d = enc_string ver (dim_name d) @ enc_size ver (dim_size d)"

text \<open>A list of entries with its tag and count; an absent list is the tag 0 and the count 0.\<close>

definition enc_list :: "nat \<Rightarrow> int \<Rightarrow> ('a \<Rightarrow> string) \<Rightarrow> 'a list \<Rightarrow> string" where
  "enc_list ver tag enc xs = be 4 (if xs = [] then 0 else tag) @ enc_size ver (int (length xs)) @ concat (map enc xs)"

text \<open>The values of an attribute, with the bytes behind the last value set to NUL.\<close>

definition type_size :: "int \<Rightarrow> nat" where
  "type_size t = (case ncmpix_len_nctype t of Done n \<Rightarrow> n | _ \<Rightarrow> 0)"

definition enc_values :: "NC_attr \<Rightarrow> string" where
  "enc_values a = take (type_size (att_type a) * att_nelems a) (att_xvalue a) @
     replicate (att_xsz a - type_size (att_type a) * att_nelems a) NULB"

definition enc_attr :: "nat \<Rightarrow> NC_attr \<Rightarrow> string" where
  "enc_attr ver a = enc_string ver (att_name a) @ be 4 (att_type a) @ enc_size ver (int (att_nelems a)) @ enc_values a"

definition vsize :: "nat \<Rightarrow> NC_var \<Rightarrow> int" where
  "vsize ver v = (if 4294967292 < var_len v \<and> ver \<in> {1, 2} then 4294967295 else var_len v)"

definition enc_var :: "nat \<Rightarrow> NC_var \<Rightarrow> string" where
  "enc_var ver v = enc_string ver (var_name v) @ enc_size ver (int (var_ndims v)) @
     concat (map (be (size_bytes ver)) (var_dimids v)) @ enc_list ver NC_ATTRIBUTE (enc_attr ver) (atts_value (var_attrs v)) @
     be 4 (var_type v) @ enc_size ver (vsize ver v) @ be (off_bytes ver) (var_begin v)"

definition size_max :: "nat \<Rightarrow> int" where
  "size_max ver = (if ver = 5 then 18446744073709551615 else 4294967295)"

definition size_ok :: "nat \<Rightarrow> int \<Rightarrow> bool" where
  "size_ok ver v \<longleftrightarrow> 0 \<le> v \<and> v \<le> size_max ver"

definition string_ok :: "nat \<Rightarrow> NC_string \<Rightarrow> bool" where
  "string_ok ver s \<longleftrightarrow> str_wf s \<and> size_ok ver (int (nchars s)) \<and> int (nchars s) + 32 < 18446744073709551616"

definition dim_ok :: "nat \<Rightarrow> NC_dim \<Rightarrow> bool" where
  "dim_ok ver d \<longleftrightarrow> string_ok ver (dim_name d) \<and> size_ok ver (dim_size d)"

definition attr_ok :: "nat \<Rightarrow> NC_attr \<Rightarrow> bool" where
  "attr_ok ver a \<longleftrightarrow> string_ok ver (att_name a) \<and> att_type a \<in> {1..11} \<and> size_ok ver (int (att_nelems a)) \<and>
     length (att_xvalue a) = att_xsz a \<and> ncx_len_NC_attrV (att_type a) (att_nelems a) = Done (att_xsz a) \<and>
     type_size (att_type a) * att_nelems a + 64 < 18446744073709551616"

definition attrs_ok :: "nat \<Rightarrow> NC_attr list \<Rightarrow> bool" where
  "attrs_ok ver as \<longleftrightarrow> size_ok ver (int (length as)) \<and> length as * 8 + 64 < 18446744073709551616 \<and> (\<forall>a \<in> set as. attr_ok ver a)"

definition var_ok :: "nat \<Rightarrow> NC_var \<Rightarrow> bool" where
  "var_ok ver v \<longleftrightarrow> ver \<in> {1, 2, 5} \<and> string_ok ver (var_name v) \<and> length (var_dimids v) = var_ndims v \<and>
     (\<forall>i \<in> set (var_dimids v). 0 \<le> i \<and> i \<le> X_INT_MAX) \<and> size_ok ver (int (var_ndims v)) \<and>
     var_ndims v * 8 + 64 < 18446744073709551616 \<and> attrs_ok ver (atts_value (var_attrs v)) \<and>
     var_type v \<in> {1..11} \<and> 0 \<le> var_len v \<and> var_len v \<le> X_INT64_MAX \<and>
     0 \<le> var_begin v \<and> var_begin v \<le> (if ver = 1 then X_INT_MAX else X_INT64_MAX)"

definition dims_ok :: "nat \<Rightarrow> NC_dim list \<Rightarrow> bool" where
  "dims_ok ver ds \<longleftrightarrow> length ds < 67686 \<and> (\<forall>d \<in> set ds. dim_ok ver d) \<and> distinct (dim_names ds) \<and> [] \<notin> set (dim_names ds)"

definition var_names :: "NC_var list \<Rightarrow> string list" where
  "var_names vs = map (\<lambda>v. cstr (var_name v)) vs"

definition vars_ok :: "nat \<Rightarrow> NC_var list \<Rightarrow> bool" where
  "vars_ok ver vs \<longleftrightarrow> length vs < 67686 \<and> (\<forall>v \<in> set vs. var_ok ver v) \<and> distinct (var_names vs) \<and> [] \<notin> set (var_names vs)"

text \<open>What reading gives back: the padding of values is NUL, and what is not in the file is as \<open>new_x_NC_var\<close> makes it.\<close>

definition read_attr :: "NC_attr \<Rightarrow> NC_attr" where
  "read_attr a = a\<lparr>att_xvalue := enc_values a\<rparr>"

definition read_attrs :: "NC_attr list \<Rightarrow> NC_attrarray" where
  "read_attrs as = \<lparr>atts_nalloc = length as, atts_value = map read_attr as\<rparr>"

definition read_var :: "nat \<Rightarrow> NC_var \<Rightarrow> NC_var" where
  "read_var ver v = \<lparr>var_xsz = 0, var_shape = replicate (var_ndims v) 0, var_dsizes = replicate (var_ndims v) 0,
     var_name = var_name v, var_ndims = var_ndims v, var_dimids = var_dimids v,
     var_attrs = read_attrs (atts_value (var_attrs v)), var_type = var_type v, var_len = vsize ver v,
     var_begin = var_begin v, var_no_fill = False\<rparr>"

lemma length_enc_size [simp]: "length (enc_size ver v) = size_bytes ver"
  by (simp add: enc_size_def)

lemma pad4_RNDUP: "n + pad4 n = RNDUP n 4"
  unfolding pad4_def RNDUP_def by presburger

lemma RNDUP_mod4 [simp]: "RNDUP n 4 mod 4 = 0"
  by (simp add: RNDUP_def)

lemma size_bytes_mod4 [simp]: "size_bytes ver mod 4 = 0" "(n * size_bytes ver) mod 4 = 0"
  by (simp_all add: size_bytes_def mod_mult_right_eq [of n, symmetric])

lemma take_append_same: "length xs = n \<Longrightarrow> take n (xs @ ys) = xs" by simp

lemma RNDUP_4_lt: "RNDUP n 4 < n + 4"
  unfolding RNDUP_def by presburger

text \<open>The external size of an attribute's values: their bytes, rounded up to a multiple of 4.\<close>

lemma attr_len:
  assumes "t \<in> {1..11}" "type_size t * n + 64 < 18446744073709551616" "ncx_len_NC_attrV t n = Done sz"
  shows "\<exists>k. ncmpix_len_nctype t = Done k \<and> type_size t = k \<and> sz = RNDUP (k * n) 4"
proof -
  have small: "usz m = m" if "m < 18446744073709551616" for m using that by (simp add: usz_def)
  have s2: "n * 2 + n mod 2 * 2 = RNDUP (2 * n) 4" unfolding RNDUP_def by presburger
  have r4: "RNDUP (4 * n) 4 = n * 4" "RNDUP (8 * n) 4 = n * 8" "RNDUP (n * 4) 4 = n * 4" "RNDUP (n * 8) 4 = n * 8" unfolding RNDUP_def by presburger+
  have c: "(m + 3) div 4 * 4 = RNDUP m 4" for m unfolding RNDUP_def by simp
  have "1 \<le> t" "t \<le> 11" using assms(1) by simp_all
  then have "t = 1 \<or> t = 2 \<or> t = 3 \<or> t = 4 \<or> t = 5 \<or> t = 6 \<or> t = 7 \<or> t = 8 \<or> t = 9 \<or> t = 10 \<or> t = 11" by presburger
  then consider "t \<in> {1, 2, 7}" | "t \<in> {3, 8}" | "t \<in> {4, 5, 9}" | "t \<in> {6, 10, 11}" by blast
  then show ?thesis
  proof cases
    case 1
    then have "n + 64 < 18446744073709551616" using assms(2) by (auto simp: type_size_def ncmpix_len_nctype_def)
    then have "usz (RNDUP n 4) = RNDUP n 4" using small RNDUP_4_lt [of n] by simp
    with 1 assms show ?thesis by (auto simp: type_size_def ncmpix_len_nctype_def ncx_len_NC_attrV_def small c)
  next
    case 2
    have "(n + n mod 2) * 2 < 18446744073709551616" "n + n mod 2 < 18446744073709551616"
      using assms(2) 2 by (auto simp: type_size_def ncmpix_len_nctype_def)
    with 2 assms show ?thesis by (auto simp: type_size_def ncmpix_len_nctype_def ncx_len_NC_attrV_def small s2)
  next
    case 3
    with assms show ?thesis by (auto simp: type_size_def ncmpix_len_nctype_def ncx_len_NC_attrV_def small r4 mult.commute)
  next
    case 4
    with assms show ?thesis by (auto simp: type_size_def ncmpix_len_nctype_def ncx_len_NC_attrV_def small r4 mult.commute)
  qed
qed

lemma blit_tail:
  assumes "k \<le> length val" "h + length val \<le> length xs"
  shows "blit (blit xs h val) (h + length val - k) (replicate k c) = blit xs h (take (length val - k) val @ replicate k c)"
proof -
  define m where "m = length val - k"
  have m: "length val = m + k" "h + length val - k = h + m" using assms(1) by (simp_all add: m_def)
  have "take (h + m) (blit xs h val) = take h xs @ take m val"
    using assms(2) m(1) by (simp add: blit_def)
  moreover have "drop (h + m + k) (blit xs h val) = drop (h + m + k) xs"
    using assms(2) m(1) by (intro drop_blit_after) simp_all
  ultimately have "blit (blit xs h val) (h + m) (replicate k c) = take h xs @ take m val @ replicate k c @ drop (h + m + k) xs"
    by (simp add: blit_def)
  then show ?thesis using m(1) by (simp add: m(2)) (simp add: blit_def add.assoc)
qed

context ncio_region
begin

definition content :: "'s v1hs \<Rightarrow> string" where
  "content gs = blit (bytes (gs_io gs)) (nat (gs_offset gs)) (the (gs_base gs))"

definition hpos :: "'s v1hs \<Rightarrow> nat" where
  "hpos gs = nat (gs_offset gs) + gs_pos gs"

definition hinv :: "bool \<Rightarrow> nat \<Rightarrow> nat \<Rightarrow> 's v1hs \<Rightarrow> bool" where
  "hinv wr e ver gs \<longleftrightarrow> held (gs_io gs) (gs_offset gs) (gs_extent gs) (gs_flags gs) \<and> 0 \<le> gs_offset gs \<and> gs_flags gs = (if wr then RGN_WRITE else 0) \<and>
     gs_version gs = ver \<and> 0 < gs_extent gs \<and> gs_extent gs mod 4 = 0 \<and> gs_extent gs \<le> e \<and> e \<le> limit \<and> gs_pos gs \<le> gs_extent gs \<and>
     (\<exists>buf. gs_base gs = Some buf \<and> length buf = gs_extent gs \<and> nat (gs_offset gs) + length buf \<le> length (bytes (gs_io gs)) \<and>
        (wr \<or> buf = take (length buf) (drop (nat (gs_offset gs)) (bytes (gs_io gs)))))"

lemma hinv_length: "hinv wr e ver gs \<Longrightarrow> length (content gs) = length (bytes (gs_io gs))"
  by (auto simp: hinv_def content_def)

lemma check_v1hs_ok:
  assumes inv: "hinv wr e ver gs" and n: "n \<le> e" "n mod 4 = 0" and room: "hpos gs + e \<le> length (content gs)"
  shows "\<exists>gs'. check_v1hs io n gs = Done (Inr ((), gs')) \<and> hinv wr e ver gs' \<and> content gs' = content gs \<and>
    hpos gs' = hpos gs \<and> gs_pos gs' + n \<le> gs_extent gs'"
proof (cases "gs_pos gs + n \<le> gs_extent gs")
  case True
  with inv show ?thesis by (auto simp: check_v1hs_def hinv_def)
next
  case False
  obtain buf where b: "gs_base gs = Some buf" "length buf = gs_extent gs"
      "nat (gs_offset gs) + length buf \<le> length (bytes (gs_io gs))"
      "wr \<or> buf = take (length buf) (drop (nat (gs_offset gs)) (bytes (gs_io gs)))"
    using inv by (auto simp: hinv_def)
  let ?flg = "if gs_flags gs = RGN_WRITE then RGN_MODIFIED else 0"
  have off: "0 \<le> gs_offset gs" "held (gs_io gs) (gs_offset gs) (length buf) (gs_flags gs)" using inv b(2) by (auto simp: hinv_def)
  have flg: "gs_flags gs = 0 \<or> gs_flags gs = RGN_WRITE" using inv by (auto simp: hinv_def)
  have "?flg = 0 \<and> buf = take (length buf) (drop (nat (gs_offset gs)) (bytes (gs_io gs))) \<or> ?flg = RGN_MODIFIED \<and> gs_flags gs = RGN_WRITE"
    using inv b(4) by (auto simp: hinv_def)
  from rel_law [OF off(2) this] obtain s1 where s1: "io_rel io (gs_io gs) (gs_offset gs) buf ?flg = Done (NC_NOERR, s1)"
      "ok s1" "bytes s1 = content gs"
    by (auto simp: content_def b(1))
  define ext where "ext = max n (gs_extent gs)"
  have ext: "ext \<le> e" "0 < ext" "ext mod 4 = 0" "n \<le> ext" "ext \<le> limit" using inv n by (auto simp: hinv_def ext_def max_def)
  have hp: "int (hpos gs) = gs_offset gs + int (gs_pos gs)" using off(1) by (simp add: hpos_def)
  have fits: "nat (gs_offset gs + int (gs_pos gs)) + ext \<le> length (bytes s1)"
    using room ext(1) hp s1(3) by simp
  have o1: "0 \<le> gs_offset gs + int (gs_pos gs)" using off(1) by simp
  from get_law [OF s1(2) o1 ext(2,5) fits flg] obtain s2 where
    s2: "io_get io s1 (gs_offset gs + int (gs_pos gs)) ext (gs_flags gs) = Done (NC_NOERR, take ext (drop (hpos gs) (content gs)), s2)"
      "held s2 (gs_offset gs + int (gs_pos gs)) ext (gs_flags gs)" "bytes s2 = content gs"
    using hp s1(3) off(1) by (auto simp: nat_add_distrib hpos_def)
  let ?gs' = "gs\<lparr>gs_io := s2, gs_offset := gs_offset gs + int (gs_pos gs), gs_extent := ext,
      gs_base := Some (take ext (drop (hpos gs) (content gs))), gs_pos := 0\<rparr>"
  have nz: "gs_offset gs \<noteq> OFF_NONE" using off(1) by simp
  have "check_v1hs io n gs = Done (Inr ((), ?gs'))"
    using False b(1) nz s1(1) s2(1) unfolding check_v1hs_def fault_v1hs_def rel_v1hs_def
    by (simp add: Let_def ext_def [symmetric])
  moreover have len: "length (take ext (drop (hpos gs) (content gs))) = ext" using room ext(1) by simp
  have "hinv wr e ver ?gs'"
    using inv s2(2,3) ext len fits off hp by (auto simp: hinv_def s1(3) s2(3) nat_add_distrib hpos_def)
  moreover have "content ?gs' = content gs"
    unfolding content_def [of ?gs'] using room ext(1) off(1) s2(3)
    by (simp add: nat_add_distrib hpos_def [symmetric] blit_same)
  moreover have "hpos ?gs' = hpos gs" using off(1) by (simp add: hpos_def nat_add_distrib)
  ultimately show ?thesis using ext(4) by (intro exI [of _ ?gs']) simp
qed

lemma put_bytes_ok:
  assumes inv: "hinv True e ver gs" and n: "gs_pos gs + length bs \<le> gs_extent gs"
  shows "\<exists>gs'. put_bytes bs gs = Done (Inr ((), gs')) \<and> hinv True e ver gs' \<and>
    content gs' = blit (content gs) (hpos gs) bs \<and> hpos gs' = hpos gs + length bs \<and> gs_pos gs' = gs_pos gs + length bs"
proof -
  obtain buf where b: "gs_base gs = Some buf" "length buf = gs_extent gs"
      "nat (gs_offset gs) + length buf \<le> length (bytes (gs_io gs))"
    using inv by (auto simp: hinv_def)
  let ?gs' = "gs\<lparr>gs_base := Some (blit buf (gs_pos gs) bs), gs_pos := gs_pos gs + length bs\<rparr>"
  have "put_bytes bs gs = Done (Inr ((), ?gs'))" using b n by (simp add: put_bytes_def)
  moreover have "hinv True e ver ?gs'" using inv b n by (auto simp: hinv_def)
  moreover have "content ?gs' = blit (content gs) (hpos gs) bs"
    using blit_nested [of "gs_pos gs" bs buf "nat (gs_offset gs)" "bytes (gs_io gs)"] b n by (simp add: content_def hpos_def)
  ultimately show ?thesis by (intro exI [of _ ?gs']) (simp add: hpos_def)
qed

lemma get_bytes_ok:
  assumes inv: "hinv wr e ver gs" and n: "gs_pos gs + n \<le> gs_extent gs"
  shows "\<exists>gs'. get_bytes n gs = Done (Inr (take n (drop (hpos gs) (content gs)), gs')) \<and> hinv wr e ver gs' \<and>
    content gs' = content gs \<and> hpos gs' = hpos gs + n \<and> gs_pos gs' = gs_pos gs + n \<and> gs_extent gs' = gs_extent gs"
proof -
  obtain buf where b: "gs_base gs = Some buf" "length buf = gs_extent gs"
      "nat (gs_offset gs) + length buf \<le> length (bytes (gs_io gs))"
    using inv by (auto simp: hinv_def)
  have "take n (drop (hpos gs) (content gs)) = take n (drop (gs_pos gs) buf)"
    unfolding hpos_def content_def b(1) option.sel using b n by (intro take_drop_blit) simp_all
  with b n have "get_bytes n gs = Done (Inr (take n (drop (hpos gs) (content gs)), gs\<lparr>gs_pos := gs_pos gs + n\<rparr>))"
    by (simp add: get_bytes_def)
  moreover have "hinv wr e ver (gs\<lparr>gs_pos := gs_pos gs + n\<rparr>)" using inv b n by (auto simp: hinv_def)
  ultimately show ?thesis by (intro exI [of _ "gs\<lparr>gs_pos := gs_pos gs + n\<rparr>"]) (simp add: hpos_def content_def)
qed

text \<open>A writer adds \<open>bs\<close> at the stream's position.\<close>

definition put_spec :: "nat \<Rightarrow> nat \<Rightarrow> (unit, 's) hm \<Rightarrow> string \<Rightarrow> bool" where
  "put_spec e ver m bs \<longleftrightarrow> (\<forall>gs. hinv True e ver gs \<longrightarrow> hpos gs + length bs + e \<le> length (content gs) \<longrightarrow>
     (\<exists>gs'. m gs = Done (Inr ((), gs')) \<and> hinv True e ver gs' \<and> content gs' = blit (content gs) (hpos gs) bs \<and>
        hpos gs' = hpos gs + length bs))"

lemma put_specD:
  assumes "put_spec e ver m bs" "hinv True e ver gs" "hpos gs + length bs + e \<le> length (content gs)"
  obtains gs' where "m gs = Done (Inr ((), gs'))" "hinv True e ver gs'" "content gs' = blit (content gs) (hpos gs) bs"
    "hpos gs' = hpos gs + length bs"
  using assms unfolding put_spec_def by blast

lemma put_then:
  assumes "put_spec e ver m1 b1" "put_spec e ver m2 b2"
  shows "put_spec e ver (hm_then m1 m2) (b1 @ b2)"
  unfolding put_spec_def
proof (intro allI impI)
  fix gs assume inv: "hinv True e ver gs" and room: "hpos gs + length (b1 @ b2) + e \<le> length (content gs)"
  then have "hpos gs + length b1 + e \<le> length (content gs)" by simp
  from put_specD [OF assms(1) inv this] obtain gs1 where 1: "m1 gs = Done (Inr ((), gs1))" "hinv True e ver gs1"
    "content gs1 = blit (content gs) (hpos gs) b1" "hpos gs1 = hpos gs + length b1" .
  have "hpos gs1 + length b2 + e \<le> length (content gs1)" using room 1(3,4) by simp
  from put_specD [OF assms(2) 1(2) this] obtain gs2 where 2: "m2 gs1 = Done (Inr ((), gs2))" "hinv True e ver gs2"
    "content gs2 = blit (content gs1) (hpos gs1) b2" "hpos gs2 = hpos gs1 + length b2" .
  have "content gs2 = blit (content gs) (hpos gs) (b1 @ b2)" using 1(3,4) 2(3) room by (simp add: blit_blit)
  then show "\<exists>gs'. hm_then m1 m2 gs = Done (Inr ((), gs')) \<and> hinv True e ver gs' \<and>
      content gs' = blit (content gs) (hpos gs) (b1 @ b2) \<and> hpos gs' = hpos gs + length (b1 @ b2)"
    using 1 2 by (intro exI [of _ gs2]) (simp add: hm_then_def hm_bind_def)
qed

lemma put_version: "put_spec e ver (f ver) bs \<Longrightarrow> put_spec e ver (hm_bind get_version f) bs"
  by (auto simp: put_spec_def hm_bind_def get_version_def hinv_def)

lemma put_nil: "put_spec e ver (hm_return ()) []"
  by (simp add: put_spec_def hm_return_def)

lemma put_checked:
  assumes "length bs = n" "n mod 4 = 0" "n \<le> e"
  shows "put_spec e ver (hm_then (check_v1hs io n) (put_bytes bs)) bs"
  unfolding put_spec_def
proof (intro allI impI)
  fix gs assume inv: "hinv True e ver gs" and room: "hpos gs + length bs + e \<le> length (content gs)"
  then have "hpos gs + e \<le> length (content gs)" by simp
  from check_v1hs_ok [OF inv assms(3,2) this] obtain gs1 where 1: "check_v1hs io n gs = Done (Inr ((), gs1))"
      "hinv True e ver gs1" "content gs1 = content gs" "hpos gs1 = hpos gs" "gs_pos gs1 + n \<le> gs_extent gs1" by blast
  from put_bytes_ok [OF 1(2), of bs] 1(5) assms(1) obtain gs2 where "put_bytes bs gs1 = Done (Inr ((), gs2))"
      "hinv True e ver gs2" "content gs2 = blit (content gs1) (hpos gs1) bs" "hpos gs2 = hpos gs1 + length bs" by auto
  with 1 show "\<exists>gs'. hm_then (check_v1hs io n) (put_bytes bs) gs = Done (Inr ((), gs')) \<and> hinv True e ver gs' \<and>
      content gs' = blit (content gs) (hpos gs) bs \<and> hpos gs' = hpos gs + length bs"
    by (intro exI [of _ gs2]) (simp add: hm_then_def hm_bind_def)
qed

lemma put_all_spec: "(\<And>x. x \<in> set xs \<Longrightarrow> put_spec e ver (put x) (enc x)) \<Longrightarrow> put_spec e ver (put_all put xs) (concat (map enc xs))"
  by (induction xs) (simp_all add: put_nil put_then)

lemma put_size: "size_ok ver v \<Longrightarrow> 8 \<le> e \<Longrightarrow> put_spec e ver (v1h_put_size_t io v) (enc_size ver v)"
  unfolding v1h_put_size_t_def
  by (rule put_version, cases "ver = 5")
    (auto simp: size_ok_def size_max_def enc_size_def size_bytes_def ncx_put_size_t_def intro!: put_checked)

lemma put_tag: "8 \<le> e \<Longrightarrow> put_spec e ver (v1h_put_NCtype io t) (be 4 t)"
  and put_type: "8 \<le> e \<Longrightarrow> put_spec e ver (v1h_put_nc_type io t) (be 4 t)"
  unfolding v1h_put_NCtype_def v1h_put_nc_type_def by (auto intro!: put_checked)

lemma put_string:
  assumes "string_ok ver s" "8 + length (enc_string ver s) \<le> e"
  shows "put_spec e ver (v1h_put_NC_string io s) (enc_string ver s)"
  unfolding v1h_put_NC_string_def enc_string_def
proof (rule put_then)
  show "put_spec e ver (v1h_put_size_t io (int (nchars s))) (enc_size ver (int (nchars s)))"
    using assms by (intro put_size) (simp_all add: string_ok_def)
  have "take (nchars s) (cp s) = cp s" "length (cp s) = nchars s"
    using assms(1) by (simp_all add: string_ok_def str_wf_def)
  then show "put_spec e ver (hm_then (check_v1hs io (RNDUP (nchars s) 4)) (ncx_pad_putn_text (nchars s) (cp s)))
      (cp s @ replicate (pad4 (nchars s)) NULB)"
    unfolding ncx_pad_putn_text_def using assms(2) pad4_RNDUP [of "nchars s"]
    by (auto intro!: put_checked simp: enc_string_def)
qed

lemma put_dim: "dim_ok ver d \<Longrightarrow> 8 + length (enc_dim ver d) \<le> e \<Longrightarrow> put_spec e ver (v1h_put_NC_dim io d) (enc_dim ver d)"
  unfolding v1h_put_NC_dim_def enc_dim_def dim_ok_def by (intro put_then put_string put_size) auto

text \<open>The values of an attribute go out in chunks of the buffer's size; the padding is overwritten afterwards.\<close>

lemma put_attrV_loop_ok:
  assumes p: "0 < p" "p \<le> e" "p mod 4 = 0"
  shows "hinv True e ver gs \<Longrightarrow> length val mod 4 = 0 \<Longrightarrow> hpos gs + length val + e \<le> length (content gs) \<Longrightarrow>
    \<exists>gs'. put_attrV_loop io p val gs = Done (Inr ((), gs')) \<and> hinv True e ver gs' \<and>
      content gs' = blit (content gs) (hpos gs) val \<and> hpos gs' = hpos gs + length val \<and> (val \<noteq> [] \<longrightarrow> 4 \<le> gs_pos gs')"
proof (induction "length val" arbitrary: val gs rule: less_induct)
  case less
  define n where "n = min p (length val)"
  have n: "n \<le> e" "n mod 4 = 0" "n \<le> length val" using p less.prems(2) by (auto simp: n_def min_def)
  have pos: "n = 0 \<longleftrightarrow> val = []" using p(1) by (cases val) (auto simp: n_def min_def)
  have "hpos gs + e \<le> length (content gs)" using less.prems(3) by simp
  from check_v1hs_ok [OF less.prems(1) n(1,2) this] obtain g1 where g1: "check_v1hs io n gs = Done (Inr ((), g1))"
      "hinv True e ver g1" "content g1 = content gs" "hpos g1 = hpos gs" "gs_pos g1 + n \<le> gs_extent g1" by blast
  have tl: "length (take n val) = n" using n(3) by simp
  from put_bytes_ok [OF g1(2), of "take n val"] g1(5) tl obtain g2 where g2: "put_bytes (take n val) g1 = Done (Inr ((), g2))"
      "hinv True e ver g2" "content g2 = blit (content gs) (hpos gs) (take n val)" "hpos g2 = hpos gs + n" "gs_pos g2 = gs_pos g1 + n"
    using g1(3,4) by auto
  have four: "val \<noteq> [] \<Longrightarrow> 4 \<le> n" using n(2) pos by (cases "n = 0") (auto dest: dvd_imp_le simp: mod_eq_0_iff_dvd)
  show ?case
  proof (cases "drop n val = []")
    case True
    then have all: "take n val = val" "length val = n" using n(3) by auto
    have "put_attrV_loop io p val gs = Done (Inr ((), g2))"
      by (subst put_attrV_loop.simps)
        (use g1(1) g2(1) True in \<open>simp add: n_def [symmetric] Let_def hm_then_def hm_bind_def hm_return_def\<close>)
    with g2 all four show ?thesis by (intro exI [of _ g2]) (simp add: trans_le_add2)
  next
    case False
    then have nz: "n \<noteq> 0" "val \<noteq> []" using pos by auto
    have lt: "length (drop n val) < length val" using nz n(3) by auto
    have m: "length (drop n val) mod 4 = 0" using n(2,3) less.prems(2)
      by (metis length_drop mod_diff_right_eq mod_0 diff_zero dvd_diff_nat mod_eq_0_iff_dvd)
    have room: "hpos g2 + length (drop n val) + e \<le> length (content g2)"
      using less.prems(3) g2(3,4) n(3) by simp
    from less.hyps [OF lt g2(2) m room] obtain g3 where g3: "put_attrV_loop io p (drop n val) g2 = Done (Inr ((), g3))"
        "hinv True e ver g3" "content g3 = blit (content g2) (hpos g2) (drop n val)"
        "hpos g3 = hpos g2 + length (drop n val)" "drop n val \<noteq> [] \<longrightarrow> 4 \<le> gs_pos g3" by blast
    have "put_attrV_loop io p val gs = Done (Inr ((), g3))"
      by (subst put_attrV_loop.simps)
        (use g1(1) g2(1) g3(1) False nz in \<open>simp add: n_def [symmetric] Let_def hm_then_def hm_bind_def hm_return_def\<close>)
    moreover have "content g3 = blit (content gs) (hpos gs) (take n val @ drop n val)"
      using blit_blit [of "hpos gs" "take n val" "drop n val" "content gs"] g2(3,4) g3(3) less.prems(3) tl n(3)
      by (simp del: append_take_drop_id)
    ultimately show ?thesis using g2 g3 False n(3) by (intro exI [of _ g3]) simp
  qed
qed

lemma zero_back_ok:
  assumes inv: "hinv True e ver gs" and n: "n = 0 \<or> n \<le> gs_pos gs"
  shows "\<exists>gs'. zero_back n gs = Done (Inr ((), gs')) \<and> hinv True e ver gs' \<and>
    content gs' = blit (content gs) (hpos gs - n) (replicate n NULB) \<and> hpos gs' = hpos gs"
proof (cases "n = 0")
  case True
  with inv show ?thesis by (intro exI [of _ gs]) (simp add: zero_back_def)
next
  case False
  with n have n: "n \<le> gs_pos gs" by simp
  obtain buf where b: "gs_base gs = Some buf" "length buf = gs_extent gs"
      "nat (gs_offset gs) + length buf \<le> length (bytes (gs_io gs))" "gs_pos gs \<le> gs_extent gs"
    using inv by (auto simp: hinv_def)
  let ?gs' = "gs\<lparr>gs_base := Some (blit buf (gs_pos gs - n) (replicate n NULB))\<rparr>"
  have "zero_back n gs = Done (Inr ((), ?gs'))" using b n False by (simp add: zero_back_def)
  moreover have "hinv True e ver ?gs'" using inv b n by (auto simp: hinv_def)
  moreover have "content ?gs' = blit (content gs) (hpos gs - n) (replicate n NULB)"
    using blit_nested [of "gs_pos gs - n" "replicate n NULB" buf "nat (gs_offset gs)" "bytes (gs_io gs)"] b n
    by (simp add: content_def hpos_def)
  ultimately show ?thesis by (intro exI [of _ ?gs']) (simp add: hpos_def)
qed

lemma put_attrV:
  assumes a: "attr_ok ver a"
  shows "put_spec e ver (v1h_put_NC_attrV io a) (enc_values a)"
  unfolding put_spec_def
proof (intro allI impI)
  fix gs assume inv: "hinv True e ver gs" and room: "hpos gs + length (enc_values a) + e \<le> length (content gs)"
  obtain k where k: "ncmpix_len_nctype (att_type a) = Done k" "type_size (att_type a) = k" "att_xsz a = RNDUP (k * att_nelems a) 4"
    using a attr_len by (auto simp: attr_ok_def)
  let ?d = "k * att_nelems a" and ?val = "att_xvalue a"
  have len: "length ?val = att_xsz a" "?d \<le> att_xsz a" "att_xsz a < ?d + 4" "att_xsz a mod 4 = 0"
    using a k(3) RNDUP_4_ge RNDUP_4_lt by (auto simp: attr_ok_def)
  have small: "?d + 64 < 18446744073709551616" using a k(2) by (simp add: attr_ok_def)
  define pd where "pd = att_xsz a - ?d"
  have pd: "nat (u64 (int (att_xsz a) - int k * int (att_nelems a))) = pd"
    using len(2,3) small by (simp add: pd_def u64_id of_nat_diff flip: of_nat_mult)
  have enc: "enc_values a = take (length ?val - pd) ?val @ replicate pd NULB"
    using len(1,2) k(2) by (simp add: enc_values_def pd_def)
  have elen: "length (enc_values a) = length ?val" using len(1,2) by (simp add: enc pd_def)
  have ext: "0 < gs_extent gs" "gs_extent gs \<le> e" "gs_extent gs mod 4 = 0" using inv by (auto simp: hinv_def)
  have "length ?val mod 4 = 0" "hpos gs + length ?val + e \<le> length (content gs)" using len room elen by simp_all
  from put_attrV_loop_ok [OF ext inv this] obtain g1 where g1: "put_attrV_loop io (gs_extent gs) ?val gs = Done (Inr ((), g1))"
      "hinv True e ver g1" "content g1 = blit (content gs) (hpos gs) ?val" "hpos g1 = hpos gs + length ?val"
      "?val \<noteq> [] \<longrightarrow> 4 \<le> gs_pos g1" by blast
  have "pd = 0 \<or> pd \<le> gs_pos g1"
  proof (cases "?val = []")
    case True
    with len(1) show ?thesis by (simp add: pd_def)
  next
    case False
    with g1(5) len(2,3) have "4 \<le> gs_pos g1" "pd < 4" unfolding pd_def by linarith+
    then show ?thesis by linarith
  qed
  from zero_back_ok [OF g1(2) this] obtain g2 where g2: "zero_back pd g1 = Done (Inr ((), g2))" "hinv True e ver g2"
      "content g2 = blit (content g1) (hpos g1 - pd) (replicate pd NULB)" "hpos g2 = hpos g1" by blast
  have "v1h_put_NC_attrV io a gs = Done (Inr ((), g2))"
    using g1(1) g2(1) ext(3) len(1) k(1) pd
    by (simp add: v1h_put_NC_attrV_def hm_bind_def hm_then_def get_extent_def hm_lift_def)
  moreover have "content g2 = blit (content gs) (hpos gs) (enc_values a)"
    using g2(3) g1(3,4) blit_tail [of pd ?val "hpos gs" "content gs" NULB] room elen len(1) by (simp add: enc pd_def)
  ultimately show "\<exists>gs'. v1h_put_NC_attrV io a gs = Done (Inr ((), gs')) \<and> hinv True e ver gs' \<and>
      content gs' = blit (content gs) (hpos gs) (enc_values a) \<and> hpos gs' = hpos gs + length (enc_values a)"
    using g1(4) g2 elen by (intro exI [of _ g2]) simp
qed

lemma put_attr: "attr_ok ver a \<Longrightarrow> 8 + length (enc_attr ver a) \<le> e \<Longrightarrow> put_spec e ver (v1h_put_NC_attr io a) (enc_attr ver a)"
  unfolding v1h_put_NC_attr_def enc_attr_def
  by (intro put_then put_string put_type put_size put_attrV) (auto simp: attr_ok_def)

lemma put_list:
  assumes "size_ok ver (int (length xs))" "8 + length (enc_list ver tag enc xs) \<le> e"
    and "\<And>x. x \<in> set xs \<Longrightarrow> 8 + length (enc x) \<le> e \<Longrightarrow> put_spec e ver (put x) (enc x)"
  shows "put_spec e ver (if xs = [] then hm_then (v1h_put_NCtype io NC_UNSPECIFIED) (v1h_put_size_t io 0)
     else hm_then (v1h_put_NCtype io tag) (hm_then (v1h_put_size_t io (int (length xs))) (put_all put xs)))
    (enc_list ver tag enc xs)"
proof -
  have e: "8 \<le> e" using assms(2) by simp
  have "8 + length (enc x) \<le> e" if "x \<in> set xs" for x
  proof -
    have "length (enc x) \<le> length (concat (map enc xs))"
      using that by (induction xs) (auto simp: enc_list_def)
    also have "8 + \<dots> \<le> e" using assms(2) by (simp add: enc_list_def)
    finally show ?thesis by simp
  qed
  then have "put_spec e ver (put_all put xs) (concat (map enc xs))"
    using assms(3) by (intro put_all_spec) blast
  then have "put_spec e ver (hm_then (v1h_put_NCtype io tag) (hm_then (v1h_put_size_t io (int (length xs))) (put_all put xs)))
      (be 4 tag @ enc_size ver (int (length xs)) @ concat (map enc xs))"
    using assms(1) e by (intro put_then put_tag put_size)
  moreover have "put_spec e ver (hm_then (v1h_put_NCtype io NC_UNSPECIFIED) (v1h_put_size_t io 0)) (be 4 0 @ enc_size ver 0)"
    using e by (intro put_then put_tag put_size) (simp_all add: size_ok_def size_max_def)
  ultimately show ?thesis by (simp add: enc_list_def)
qed

lemma put_attrarray:
  assumes "attrs_ok ver (atts_value ap)" "8 + length (enc_list ver NC_ATTRIBUTE (enc_attr ver) (atts_value ap)) \<le> e"
  shows "put_spec e ver (v1h_put_NC_attrarray io ap) (enc_list ver NC_ATTRIBUTE (enc_attr ver) (atts_value ap))"
  unfolding v1h_put_NC_attrarray_def
  by (rule put_list) (use assms in \<open>auto simp: attrs_ok_def intro: put_attr\<close>)

lemma put_off: "0 \<le> v \<Longrightarrow> 8 \<le> e \<Longrightarrow> put_spec e ver (hm_then (check_v1hs io (off_bytes ver)) (ncx_put_off_t v (off_bytes ver)))
    (be (off_bytes ver) v)"
  by (auto simp: ncx_put_off_t_def off_bytes_def intro!: put_checked)

lemma length_concat_be: "length (concat (map (be n) xs)) = length xs * n"
  by (induction xs) simp_all

lemma put_var:
  assumes v: "var_ok ver v" and e: "8 + length (enc_var ver v) \<le> e"
  shows "put_spec e ver (v1h_put_NC_var io v) (enc_var ver v)"
  unfolding v1h_put_NC_var_def enc_var_def
proof (intro put_then)
  show "put_spec e ver (v1h_put_NC_string io (var_name v)) (enc_string ver (var_name v))"
    using v e by (intro put_string) (simp_all add: var_ok_def enc_var_def)
  show "put_spec e ver (v1h_put_size_t io (int (var_ndims v))) (enc_size ver (int (var_ndims v)))"
    using v e by (intro put_size) (simp_all add: var_ok_def)
  have ids: "put_spec e ver (hm_then (check_v1hs io (var_ndims v * size_bytes ver))
       (if length (var_dimids v) < var_ndims v then (\<lambda>gs. Fault)
        else put_bytes (concat (map (be (size_bytes ver)) (take (var_ndims v) (var_dimids v))))))
     (concat (map (be (size_bytes ver)) (var_dimids v)))"
    using v e by (auto intro!: put_checked simp: var_ok_def enc_var_def length_concat_be)
  have vs: "(if 4294967292 < u64 (var_len v) \<and> ver \<in> {1, 2} then 4294967295 else u64 (var_len v)) = vsize ver v"
    using v by (auto simp: vsize_def var_ok_def u64_id)
  have vok: "size_ok ver (vsize ver v)"
    using v by (auto simp: size_ok_def size_max_def vsize_def var_ok_def)
  have e8: "8 \<le> e" using e by simp
  have pv: "put_spec e ver (v1h_put_size_t io (if 4294967292 < u64 (var_len v) \<and> ver \<in> {1, 2} then 4294967295 else u64 (var_len v)))
      (enc_size ver (vsize ver v))"
    unfolding vs by (rule put_size [OF vok e8])
  have atts: "attrs_ok ver (atts_value (var_attrs v))"
      "8 + length (enc_list ver NC_ATTRIBUTE (enc_attr ver) (atts_value (var_attrs v))) \<le> e" "0 \<le> var_begin v"
    using v e by (simp_all add: var_ok_def enc_var_def)
  show "put_spec e ver (hm_bind get_version (\<lambda>ver. hm_then
        (hm_then (check_v1hs io (var_ndims v * size_bytes ver))
           (if length (var_dimids v) < var_ndims v then (\<lambda>gs. Fault)
            else put_bytes (concat (map (be (size_bytes ver)) (take (var_ndims v) (var_dimids v))))))
        (hm_then (v1h_put_NC_attrarray io (var_attrs v)) (hm_then (v1h_put_nc_type io (var_type v))
           (hm_then (v1h_put_size_t io (if 4294967292 < u64 (var_len v) \<and> ver \<in> {1, 2} then 4294967295 else u64 (var_len v)))
              (hm_then (check_v1hs io (off_bytes ver)) (ncx_put_off_t (var_begin v) (off_bytes ver))))))))
     (concat (map (be (size_bytes ver)) (var_dimids v)) @ enc_list ver NC_ATTRIBUTE (enc_attr ver) (atts_value (var_attrs v)) @
       be 4 (var_type v) @ enc_size ver (vsize ver v) @ be (off_bytes ver) (var_begin v))"
    by (intro put_version put_then ids pv put_attrarray put_type put_off atts e8)
qed

subsection \<open>Readers\<close>

definition get_spec :: "nat \<Rightarrow> nat \<Rightarrow> ('a, 's) hm \<Rightarrow> string \<Rightarrow> ('a \<Rightarrow> bool) \<Rightarrow> bool" where
  "get_spec e ver m bs q \<longleftrightarrow> (\<forall>gs. hinv False e ver gs \<longrightarrow> hpos gs + length bs + e \<le> length (content gs) \<longrightarrow>
     take (length bs) (drop (hpos gs) (content gs)) = bs \<longrightarrow>
     (\<exists>x gs'. m gs = Done (Inr (x, gs')) \<and> q x \<and> hinv False e ver gs' \<and> content gs' = content gs \<and>
        hpos gs' = hpos gs + length bs))"

lemma get_specD:
  assumes "get_spec e ver m bs q" "hinv False e ver gs" "hpos gs + length bs + e \<le> length (content gs)"
    "take (length bs) (drop (hpos gs) (content gs)) = bs"
  obtains x gs' where "m gs = Done (Inr (x, gs'))" "q x" "hinv False e ver gs'" "content gs' = content gs"
    "hpos gs' = hpos gs + length bs"
  using assms unfolding get_spec_def by blast

lemma get_bind:
  assumes "get_spec e ver m b1 q1" "\<And>x. q1 x \<Longrightarrow> get_spec e ver (f x) b2 q2"
  shows "get_spec e ver (hm_bind m f) (b1 @ b2) q2"
  unfolding get_spec_def
proof (intro allI impI)
  fix gs assume inv: "hinv False e ver gs" and room: "hpos gs + length (b1 @ b2) + e \<le> length (content gs)"
    and at: "take (length (b1 @ b2)) (drop (hpos gs) (content gs)) = b1 @ b2"
  have r1: "hpos gs + length b1 + e \<le> length (content gs)" using room by simp
  have split: "take (length b1) (drop (hpos gs) (content gs)) @ take (length b2) (drop (hpos gs + length b1) (content gs)) = b1 @ b2"
    using at by (simp add: take_add drop_drop add.commute)
  have l1: "length (take (length b1) (drop (hpos gs) (content gs))) = length b1" using room by simp
  have a1: "take (length b1) (drop (hpos gs) (content gs)) = b1"
    and a2: "take (length b2) (drop (hpos gs + length b1) (content gs)) = b2"
    using split l1 by (simp_all add: append_eq_append_conv)
  from get_specD [OF assms(1) inv r1 a1] obtain x g1 where 1: "m gs = Done (Inr (x, g1))" "q1 x" "hinv False e ver g1"
    "content g1 = content gs" "hpos g1 = hpos gs + length b1" .
  have "hpos g1 + length b2 + e \<le> length (content g1)" "take (length b2) (drop (hpos g1) (content g1)) = b2"
    using room a2 1(4,5) by simp_all
  from get_specD [OF assms(2) [OF 1(2)] 1(3) this] obtain y g2 where "f x g1 = Done (Inr (y, g2))" "q2 y" "hinv False e ver g2"
    "content g2 = content g1" "hpos g2 = hpos g1 + length b2" .
  with 1 show "\<exists>x gs'. hm_bind m f gs = Done (Inr (x, gs')) \<and> q2 x \<and> hinv False e ver gs' \<and> content gs' = content gs \<and>
      hpos gs' = hpos gs + length (b1 @ b2)"
    by (intro exI [of _ y] exI [of _ g2]) (simp add: hm_bind_def)
qed

lemma get_bind_eq:
  "get_spec e ver m b1 (\<lambda>x. x = v) \<Longrightarrow> get_spec e ver (f v) b2 q2 \<Longrightarrow> get_spec e ver (hm_bind m f) (b1 @ b2) q2"
  by (erule get_bind) simp

lemma get_return: "q x \<Longrightarrow> get_spec e ver (hm_return x) [] q"
  by (simp add: get_spec_def hm_return_def)

lemma get_lift: "m = Done x \<Longrightarrow> q x \<Longrightarrow> get_spec e ver (hm_lift m) [] q"
  by (simp add: get_spec_def hm_lift_def)

lemma get_bind_nil: "get_spec e ver m [] (\<lambda>x. x = v) \<Longrightarrow> get_spec e ver (f v) bs q \<Longrightarrow> get_spec e ver (hm_bind m f) bs q"
  using get_bind_eq [of e ver m "[]" v f bs q] by simp

lemma get_bind_lift: "m = Done v \<Longrightarrow> get_spec e ver (f v) bs q \<Longrightarrow> get_spec e ver (hm_bind (hm_lift m) f) bs q"
  by (rule get_bind_nil [OF get_lift]) simp_all

lemma get_bind_end: "get_spec e ver m bs q1 \<Longrightarrow> (\<And>x. q1 x \<Longrightarrow> get_spec e ver (f x) [] q2) \<Longrightarrow> get_spec e ver (hm_bind m f) bs q2"
  using get_bind [of e ver m bs q1 f "[]" q2] by simp

lemma get_then_nil: "get_spec e ver m [] (\<lambda>_. True) \<Longrightarrow> get_spec e ver k bs q \<Longrightarrow> get_spec e ver (hm_then m k) bs q"
  using get_bind [of e ver m "[]" "\<lambda>_. True" "\<lambda>_. k" bs q] by (simp add: hm_then_def)

lemma get_version_bind: "get_spec e ver (f ver) bs q \<Longrightarrow> get_spec e ver (hm_bind get_version f) bs q"
  by (auto simp: get_spec_def hm_bind_def get_version_def hinv_def)

lemma get_no_wrap: "n * u + 32 < 18446744073709551616 \<Longrightarrow> get_spec e ver (no_wrap n u) [] (\<lambda>_. True)"
  by (simp add: get_spec_def no_wrap_def)

lemma get_checked:
  assumes "length bs = n" "n mod 4 = 0" "n \<le> e"
  shows "get_spec e ver (hm_then (check_v1hs io n) (get_bytes n)) bs (\<lambda>x. x = bs)"
  unfolding get_spec_def
proof (intro allI impI)
  fix gs assume inv: "hinv False e ver gs" and room: "hpos gs + length bs + e \<le> length (content gs)"
    and at: "take (length bs) (drop (hpos gs) (content gs)) = bs"
  have "hpos gs + e \<le> length (content gs)" using room by simp
  from check_v1hs_ok [OF inv assms(3,2) this] obtain g1 where 1: "check_v1hs io n gs = Done (Inr ((), g1))"
      "hinv False e ver g1" "content g1 = content gs" "hpos g1 = hpos gs" "gs_pos g1 + n \<le> gs_extent g1" by blast
  from get_bytes_ok [OF 1(2,5)] obtain g2 where "get_bytes n g1 = Done (Inr (take n (drop (hpos g1) (content g1)), g2))"
      "hinv False e ver g2" "content g2 = content g1" "hpos g2 = hpos g1 + n" by blast
  with 1 at assms(1) show "\<exists>x gs'. hm_then (check_v1hs io n) (get_bytes n) gs = Done (Inr (x, gs')) \<and> x = bs \<and> hinv False e ver gs' \<and>
      content gs' = content gs \<and> hpos gs' = hpos gs + length bs"
    by (intro exI [of _ bs] exI [of _ g2]) (simp add: hm_then_def hm_bind_def)
qed

lemma hm_then_bind: "hm_then m (hm_bind k f) = hm_bind (hm_then m k) f"
  by (simp add: hm_then_def hm_bind_def fun_eq_iff run_bind_def split: run.splits sum.splits)

lemma get_int:
  assumes "n = 4 \<or> n = 8" "8 \<le> e" "0 \<le> v" "v < 256 ^ n"
  shows "get_spec e ver (hm_then (check_v1hs io n) (hm_bind (get_bytes n) (\<lambda>bs. hm_return (unbe bs)))) (be n v) (\<lambda>x. x = v)"
  unfolding hm_then_bind
  by (rule get_bind_end [OF get_checked]) (use assms in \<open>auto intro!: get_return simp: unbe_be\<close>)

lemma get_size:
  assumes "size_ok ver v" "8 \<le> e"
  shows "get_spec e ver (v1h_get_size_t io) (enc_size ver v) (\<lambda>x. x = v)"
  unfolding v1h_get_size_t_def enc_size_def
  by (rule get_version_bind, cases "ver = 5")
    (use assms get_int [of 8 e v ver] get_int [of 4 e v ver]
      in \<open>simp_all add: size_bytes_def ncx_get_uint64_def ncx_get_uint32_def size_ok_def size_max_def\<close>)

lemma get_tag: "8 \<le> e \<Longrightarrow> 0 \<le> t \<Longrightarrow> t < 4294967296 \<Longrightarrow> get_spec e ver (v1h_get_NCtype io) (be 4 t) (\<lambda>x. x = t)"
  unfolding v1h_get_NCtype_def ncx_get_uint32_def by (rule get_int) simp_all

lemma get_type: "8 \<le> e \<Longrightarrow> t \<in> {1..11} \<Longrightarrow> get_spec e ver (v1h_get_nc_type io) (be 4 t) (\<lambda>x. x = t)"
  unfolding v1h_get_nc_type_def ncx_get_uint32_def hm_then_bind
proof (rule get_bind_end)
  assume "8 \<le> e" and t: "t \<in> {1..11}"
  then show "get_spec e ver (hm_bind (hm_then (check_v1hs io 4) (get_bytes 4)) (\<lambda>bs. hm_return (unbe bs))) (be 4 t) (\<lambda>x. x = t)"
    unfolding hm_then_bind [symmetric] by (intro get_int) simp_all
  have "t = 1 \<or> t = 2 \<or> t = 3 \<or> t = 4 \<or> t = 5 \<or> t = 6 \<or> t = 7 \<or> t = 8 \<or> t = 9 \<or> t = 10 \<or> t = 11"
    using t by simp presburger
  then show "x = t \<Longrightarrow> get_spec e ver (if x \<in> {1, 2, 3, 4, 5, 6, 7, 8, 9, 10, 11, 12} then hm_return x else (\<lambda>gs. Fault)) [] (\<lambda>x. x = t)" for x
    by (auto intro!: get_return)
qed

lemma get_string:
  assumes env: "env_ok E" and s: "string_ok ver s" "8 + length (enc_string ver s) \<le> e"
  shows "get_spec e ver (v1h_get_NC_string E io) (enc_string ver s) (\<lambda>x. x = s)"
  unfolding v1h_get_NC_string_def enc_string_def Let_def
proof (rule get_bind_eq [OF get_size])
  let ?n = "nchars s"
  show "size_ok ver (int ?n)" "8 \<le> e" using s by (simp_all add: string_ok_def)
  have len: "length (cp s) = ?n" using s(1) by (simp add: string_ok_def str_wf_def)
  have "new_NC_string (env_mem E) ?n None = Some \<lparr>nchars = ?n, cp = replicate ?n NULB\<rparr>"
    using env by (simp add: new_NC_string_def env_ok_def)
  moreover have "get_spec e ver (hm_then (check_v1hs io (RNDUP ?n 4)) (hm_bind (ncx_pad_getn_text ?n)
       (\<lambda>bs. hm_return (\<lparr>nchars = ?n, cp = replicate ?n NULB\<rparr>\<lparr>cp := bs\<rparr>))))
     (cp s @ replicate (pad4 ?n) NULB) (\<lambda>x. x = s)"
    unfolding hm_then_bind ncx_pad_getn_text_def pad4_RNDUP
    by (rule get_bind_end, rule get_bind_end, rule get_checked)
      (use len s(2) pad4_RNDUP [of ?n] in \<open>auto intro!: get_return simp: enc_string_def\<close>)
  ultimately show "get_spec e ver (hm_then (no_wrap (nat (int ?n)) 1) (case new_NC_string (env_mem E) (nat (int ?n)) None of
        None \<Rightarrow> hm_fail NC_ENOMEM
      | Some strp \<Rightarrow> hm_then (check_v1hs io (RNDUP (nat (int ?n)) 4))
          (hm_bind (ncx_pad_getn_text (nat (int ?n))) (\<lambda>bs. hm_return (strp\<lparr>cp := bs\<rparr>)))))
     (cp s @ replicate (pad4 ?n) NULB) (\<lambda>x. x = s)"
    using s(1) by (intro get_then_nil get_no_wrap) (auto simp: string_ok_def)
qed

lemma get_dim:
  assumes env: "env_ok E" and d: "dim_ok ver d" "8 + length (enc_dim ver d) \<le> e"
  shows "get_spec e ver (v1h_get_NC_dim E io) (enc_dim ver d) (\<lambda>x. x = d)"
  unfolding v1h_get_NC_dim_def enc_dim_def
proof (rule get_bind_eq [OF get_string [OF env]])
  show "string_ok ver (dim_name d)" "8 + length (enc_string ver (dim_name d)) \<le> e"
    using d by (simp_all add: dim_ok_def enc_dim_def)
  have "new_x_NC_dim E (dim_name d) = Some \<lparr>dim_name = dim_name d, dim_size = 0\<rparr>"
    using env by (simp add: new_x_NC_dim_def env_ok_def)
  moreover have "get_spec e ver (hm_bind (v1h_get_size_t io) (\<lambda>sz. hm_return (\<lparr>dim_name = dim_name d, dim_size = 0\<rparr>\<lparr>dim_size := sz\<rparr>)))
      (enc_size ver (dim_size d)) (\<lambda>x. x = d)"
    by (rule get_bind_end [OF get_size]) (use d in \<open>auto intro!: get_return simp: dim_ok_def\<close>)
  ultimately show "get_spec e ver (case new_x_NC_dim E (dim_name d) of None \<Rightarrow> hm_fail NC_ENOMEM
     | Some dimp \<Rightarrow> hm_bind (v1h_get_size_t io) (\<lambda>sz. hm_return (dimp\<lparr>dim_size := sz\<rparr>)))
      (enc_size ver (dim_size d)) (\<lambda>x. x = d)" by simp
qed

lemma get_dims_spec:
  assumes env: "env_ok E"
  shows "nm.indexes (env_crc E) hm (dim_names ds0) \<Longrightarrow> distinct (dim_names (ds0 @ ds)) \<Longrightarrow> [] \<notin> set (dim_names ds) \<Longrightarrow>
    length (ds0 @ ds) \<le> 67686 \<Longrightarrow> \<forall>d \<in> set ds. dim_ok ver d \<and> 8 + length (enc_dim ver d) \<le> e \<Longrightarrow>
    get_spec e ver (get_dims E io (length ds) ds0 (Some hm)) (concat (map (enc_dim ver) ds))
      (\<lambda>(rs, hmo). rs = ds0 @ ds \<and> index_ok E hmo (dim_names (ds0 @ ds)))"
proof (induction ds arbitrary: ds0 hm)
  case Nil
  then show ?case by (auto intro!: get_return simp: index_ok_def)
next
  case (Cons d ds)
  have names: "dim_names (ds0 @ [d]) = dim_names ds0 @ [cstr (dim_name d)]" by (simp add: dim_names_def)
  have fresh: "cstr (dim_name d) \<noteq> []" "cstr (dim_name d) \<notin> set (dim_names ds0)" "length (dim_names ds0) < 67686"
    using Cons.prems(2-4) by (auto simp: dim_names_def)
  obtain hm1 where hm1: "hash_add E (Some hm) (length ds0) (cstr (dim_name d)) = Done (Some hm1)"
      "nm.indexes (env_crc E) hm1 (dim_names (ds0 @ [d]))"
    using hash_add_ok [OF env Cons.prems(1) fresh] unfolding names by (auto simp: dim_names_def)
  have "get_spec e ver (get_dims E io (length ds) (ds0 @ [d]) (Some hm1)) (concat (map (enc_dim ver) ds))
      (\<lambda>(rs, hmo). rs = (ds0 @ [d]) @ ds \<and> index_ok E hmo (dim_names ((ds0 @ [d]) @ ds)))"
    using Cons.prems by (intro Cons.IH [OF hm1(2)]) (auto simp: dim_names_def)
  then have "get_spec e ver (hm_bind (hm_lift (hash_add E (Some hm) (length ds0) (cstr (dim_name d))))
       (\<lambda>hmo'. get_dims E io (length ds) (ds0 @ [d]) hmo')) (concat (map (enc_dim ver) ds))
      (\<lambda>(rs, hmo). rs = ds0 @ d # ds \<and> index_ok E hmo (dim_names (ds0 @ d # ds)))"
    by (intro get_bind_nil [OF get_lift [OF hm1(1)]]) simp_all
  then show ?case
    using Cons.prems(5) by (simp, intro get_bind_eq [OF get_dim [OF env]]) simp_all
qed

lemma enc_list_member: "x \<in> set xs \<Longrightarrow> 8 + length (enc_list ver tag enc xs) \<le> e \<Longrightarrow> 8 + length (enc x) \<le> e"
proof -
  assume "x \<in> set xs" and e: "8 + length (enc_list ver tag enc xs) \<le> e"
  then have "length (enc x) \<le> length (concat (map enc xs))" by (induction xs) (auto simp: enc_list_def)
  with e show ?thesis by (simp add: enc_list_def)
qed

text \<open>The array readers share their head: tag, count, and the empty list for the count 0.\<close>

lemma get_list:
  assumes "size_ok ver (int (length xs))" "8 + length (enc_list ver tag enc xs) \<le> e" "0 < tag" "tag < 4294967296"
    and "xs = [] \<Longrightarrow> q none"
    and "xs \<noteq> [] \<Longrightarrow> get_spec e ver (body (length xs)) (concat (map enc xs)) q"
  shows "get_spec e ver (hm_bind (v1h_get_NCtype io) (\<lambda>type. hm_bind (v1h_get_size_t io) (\<lambda>nelems.
      if nelems = 0 then hm_return none else if type \<noteq> tag then hm_fail EINVAL else body (nat nelems))))
     (enc_list ver tag enc xs) q"
proof -
  have e: "8 \<le> e" using assms(2) by simp
  have tail: "get_spec e ver (if int (length xs) = 0 then hm_return none
      else if (if xs = [] then 0 else tag) \<noteq> tag then hm_fail EINVAL else body (nat (int (length xs)))) (concat (map enc xs)) q"
    using assms(3,5,6) by (cases "xs = []") (auto intro: get_return)
  have tag: "get_spec e ver (v1h_get_NCtype io) (be 4 (if xs = [] then 0 else tag)) (\<lambda>x. x = (if xs = [] then 0 else tag))"
    using e assms(3,4) by (intro get_tag) simp_all
  show ?thesis unfolding enc_list_def
    by (rule get_bind_eq [OF tag], rule get_bind_eq [OF get_size [OF assms(1) e]]) (rule tail)
qed

lemma get_dimarray:
  assumes env: "env_ok E" and ds: "dims_ok ver ds" "8 + length (enc_list ver NC_DIMENSION (enc_dim ver) ds) \<le> e"
  shows "get_spec e ver (v1h_get_NC_dimarray E io) (enc_list ver NC_DIMENSION (enc_dim ver) ds)
    (\<lambda>r. dims_value r = ds \<and> dims_nalloc r = length ds \<and> index_ok E (dims_hashmap r) (dim_names ds))"
  unfolding v1h_get_NC_dimarray_def Let_def
proof (rule get_list)
  show "size_ok ver (int (length ds))" using ds(1) by (simp add: dims_ok_def size_ok_def size_max_def)
  show "8 + length (enc_list ver 10 (enc_dim ver) ds) \<le> e" "(0::int) < 10" "(10::int) < 4294967296" using ds(2) by simp_all
  show "dims_value empty_dimarray = ds \<and> dims_nalloc empty_dimarray = length ds \<and>
      index_ok E (dims_hashmap empty_dimarray) (dim_names ds)" if "ds = []"
    using that by (simp add: empty_dimarray_def index_ok_def dim_names_def)
  have n: "length ds < 67686" using ds(1) by (simp add: dims_ok_def)
  obtain hm where hm: "NC_hashmapnew (env_mem E) (length ds) = Done hm" "nm.indexes (env_crc E) hm []"
    by (rule hashmapnew_index [OF env n]) (rule that)
  have "get_spec e ver (get_dims E io (length ds) [] (Some hm)) (concat (map (enc_dim ver) ds))
      (\<lambda>(rs, hmo). rs = [] @ ds \<and> index_ok E hmo (dim_names ([] @ ds)))"
    using hm(2) ds n by (intro get_dims_spec [OF env]) (auto simp: dims_ok_def dim_names_def dest: enc_list_member)
  then have main: "get_spec e ver (hm_bind (get_dims E io (length ds) [] (Some hm)) (\<lambda>(ds', hmo).
       hm_return \<lparr>dims_nalloc = length ds, dims_hashmap = hmo, dims_value = ds'\<rparr>)) (concat (map (enc_dim ver) ds))
      (\<lambda>r. dims_value r = ds \<and> dims_nalloc r = length ds \<and> index_ok E (dims_hashmap r) (dim_names ds))"
    by (rule get_bind_end) (auto intro!: get_return)
  have mem: "env_mem E (usz (length ds * 8))" using env by (simp add: env_ok_def)
  have nw: "length ds * 8 + 32 < 18446744073709551616" using n by simp
  show "get_spec e ver (if \<not> env_mem E (usz (length ds * 8)) then hm_fail NC_ENOMEM
       else hm_bind (hm_lift (NC_hashmapnew (env_mem E) (length ds))) (\<lambda>hm. hm_then (no_wrap (length ds) 8)
         (hm_bind (get_dims E io (length ds) [] (Some hm)) (\<lambda>(ds', hmo).
            hm_return \<lparr>dims_nalloc = length ds, dims_hashmap = hmo, dims_value = ds'\<rparr>)))) (concat (map (enc_dim ver) ds))
      (\<lambda>r. dims_value r = ds \<and> dims_nalloc r = length ds \<and> index_ok E (dims_hashmap r) (dim_names ds))"
    by (simp only: mem not_True_eq_False if_False) (intro get_bind_lift [OF hm(1)] get_then_nil get_no_wrap main nw)
qed

lemma get_attrV_loop_ok:
  assumes p: "0 < p" "p \<le> e" "p mod 4 = 0"
  shows "hinv False e ver gs \<Longrightarrow> length val mod 4 = 0 \<Longrightarrow> hpos gs + length val + e \<le> length (content gs) \<Longrightarrow>
    take (length val) (drop (hpos gs) (content gs)) = val \<Longrightarrow>
    \<exists>gs'. get_attrV_loop io p (length val) acc gs = Done (Inr (acc @ val, gs')) \<and> hinv False e ver gs' \<and>
      content gs' = content gs \<and> hpos gs' = hpos gs + length val"
proof (induction "length val" arbitrary: val gs acc rule: less_induct)
  case less
  define n where "n = min p (length val)"
  have n: "n \<le> e" "n mod 4 = 0" "n \<le> length val" using p less.prems(2) by (auto simp: n_def min_def)
  have pos: "n = 0 \<longleftrightarrow> val = []" using p(1) by (cases val) (auto simp: n_def min_def)
  have "hpos gs + e \<le> length (content gs)" using less.prems(3) by simp
  from check_v1hs_ok [OF less.prems(1) n(1,2) this] obtain g1 where g1: "check_v1hs io n gs = Done (Inr ((), g1))"
      "hinv False e ver g1" "content g1 = content gs" "hpos g1 = hpos gs" "gs_pos g1 + n \<le> gs_extent g1" by blast
  have first: "take n (drop (hpos gs) (content gs)) = take n val"
    using less.prems(4) n(3) by (metis min.absorb1 take_take)
  from get_bytes_ok [OF g1(2,5)] first obtain g2 where g2: "get_bytes n g1 = Done (Inr (take n val, g2))"
      "hinv False e ver g2" "content g2 = content gs" "hpos g2 = hpos gs + n"
    using g1(3,4) by auto
  show ?case
  proof (cases "n = length val")
    case True
    have "get_attrV_loop io p (length val) acc gs = Done (Inr (acc @ val, g2))"
      by (subst get_attrV_loop.simps)
        (use g1(1) g2(1) True in \<open>simp add: n_def [symmetric] Let_def hm_then_def hm_bind_def hm_return_def\<close>)
    with g2 True show ?thesis by (intro exI [of _ g2]) simp
  next
    case False
    then have nz: "n \<noteq> 0" "n < length val" using pos n(3) by auto
    have lt: "length (drop n val) < length val" using nz by auto
    have m: "length (drop n val) mod 4 = 0" using n(2,3) less.prems(2)
      by (metis length_drop mod_diff_right_eq mod_0 diff_zero dvd_diff_nat mod_eq_0_iff_dvd)
    have room: "hpos g2 + length (drop n val) + e \<le> length (content g2)"
      using less.prems(3) g2(3,4) n(3) by simp
    have "drop n (take (length val) (drop (hpos gs) (content gs))) = drop n val" using less.prems(4) by simp
    then have at: "take (length (drop n val)) (drop (hpos g2) (content g2)) = drop n val"
      by (simp add: g2(3,4) drop_take add.commute)
    from less.hyps [OF lt g2(2) m room at, of "acc @ take n val"] obtain g3 where
      g3: "get_attrV_loop io p (length (drop n val)) (acc @ take n val) g2 = Done (Inr ((acc @ take n val) @ drop n val, g3))"
        "hinv False e ver g3" "content g3 = content g2" "hpos g3 = hpos g2 + length (drop n val)" by blast
    have "get_attrV_loop io p (length val) acc gs = Done (Inr (acc @ val, g3))"
      by (subst get_attrV_loop.simps)
        (use g1(1) g2(1) g3(1) False nz in \<open>simp add: n_def [symmetric] Let_def hm_then_def hm_bind_def hm_return_def\<close>)
    with g2 g3 nz show ?thesis by (intro exI [of _ g3]) simp
  qed
qed

lemma enc_values_length:
  assumes "attr_ok ver a"
  shows "length (enc_values a) = att_xsz a" "att_xsz a mod 4 = 0" "\<not> (att_xsz a = 0 \<and> att_nelems a \<noteq> 0)"
    "ncx_len_NC_attrV (att_type a) (att_nelems a) = Done (att_xsz a)"
proof -
  obtain k where k: "ncmpix_len_nctype (att_type a) = Done k" "type_size (att_type a) = k" "att_xsz a = RNDUP (k * att_nelems a) 4"
    using assms attr_len by (auto simp: attr_ok_def)
  have "0 < k" using k(1) by (auto simp: ncmpix_len_nctype_def split: if_splits)
  then have "att_nelems a \<noteq> 0 \<Longrightarrow> 0 < RNDUP (k * att_nelems a) 4"
    using RNDUP_4_ge [of "k * att_nelems a"] by (metis bot_nat_0.not_eq_extremum le_zero_eq mult_is_0)
  with k RNDUP_4_ge [of "k * att_nelems a"] assms show "length (enc_values a) = att_xsz a" "att_xsz a mod 4 = 0"
    "\<not> (att_xsz a = 0 \<and> att_nelems a \<noteq> 0)" "ncx_len_NC_attrV (att_type a) (att_nelems a) = Done (att_xsz a)"
    by (auto simp: enc_values_def attr_ok_def)
qed

lemma get_attrV:
  assumes a: "attr_ok ver a"
  shows "get_spec e ver (v1h_get_NC_attrV io (a\<lparr>att_xvalue := w\<rparr>)) (enc_values a) (\<lambda>x. x = read_attr a)"
  unfolding get_spec_def
proof (intro allI impI)
  fix gs assume inv: "hinv False e ver gs" and room: "hpos gs + length (enc_values a) + e \<le> length (content gs)"
    and at: "take (length (enc_values a)) (drop (hpos gs) (content gs)) = enc_values a"
  have ext: "0 < gs_extent gs" "gs_extent gs \<le> e" "gs_extent gs mod 4 = 0" using inv by (auto simp: hinv_def)
  have "length (enc_values a) mod 4 = 0" using enc_values_length [OF a] by simp
  from get_attrV_loop_ok [OF ext inv this room at, of "[]"] obtain g1 where
    "get_attrV_loop io (gs_extent gs) (att_xsz a) [] gs = Done (Inr (enc_values a, g1))" "hinv False e ver g1"
    "content g1 = content gs" "hpos g1 = hpos gs + length (enc_values a)"
    using enc_values_length(1) [OF a] by auto
  then show "\<exists>x gs'. v1h_get_NC_attrV io (a\<lparr>att_xvalue := w\<rparr>) gs = Done (Inr (x, gs')) \<and> x = read_attr a \<and> hinv False e ver gs' \<and>
      content gs' = content gs \<and> hpos gs' = hpos gs + length (enc_values a)"
    by (intro exI [of _ "read_attr a"] exI [of _ g1])
      (simp add: v1h_get_NC_attrV_def hm_bind_def get_extent_def hm_return_def read_attr_def)
qed

lemma get_attr:
  assumes env: "env_ok E" and a: "attr_ok ver a" "8 + length (enc_attr ver a) \<le> e"
  shows "get_spec e ver (v1h_get_NC_attr E io) (enc_attr ver a) (\<lambda>x. x = read_attr a)"
  unfolding v1h_get_NC_attr_def enc_attr_def
proof (rule get_bind_eq [OF get_string [OF env]], goal_cases)
  case 3
  let ?z = "a\<lparr>att_xvalue := replicate (att_xsz a) NULB\<rparr>"
  have new: "new_x_NC_attr E (att_name a) (att_type a) (att_nelems a) = Done (Some ?z)"
    using env enc_values_length [OF a(1)] by (simp add: new_x_NC_attr_def env_ok_def)
  have body: "get_spec e ver (hm_bind (hm_lift (new_x_NC_attr E (att_name a) (att_type a) (nat (int (att_nelems a))))) (\<lambda>r.
       case r of None \<Rightarrow> hm_fail NC_ENOMEM | Some attrp \<Rightarrow> v1h_get_NC_attrV io attrp)) (enc_values a) (\<lambda>x. x = read_attr a)"
    by (rule get_bind_lift [where v = "Some ?z"]) (simp_all only: new nat_int option.case get_attrV [OF a(1)])
  show ?case
    by (rule get_bind_eq [OF get_type], goal_cases)
      (use a in \<open>auto simp: attr_ok_def enc_attr_def intro!: get_bind_eq [OF get_size] body\<close>)
qed (use a in \<open>simp_all add: attr_ok_def enc_attr_def\<close>)

lemma get_attrs_spec:
  assumes env: "env_ok E"
  shows "\<forall>a \<in> set as. attr_ok ver a \<and> 8 + length (enc_attr ver a) \<le> e \<Longrightarrow>
    get_spec e ver (get_attrs E io (length as) acc) (concat (map (enc_attr ver) as)) (\<lambda>r. r = acc @ map read_attr as)"
proof (induction as arbitrary: acc)
  case Nil
  then show ?case by (auto intro!: get_return)
next
  case (Cons a as)
  have "get_spec e ver (get_attrs E io (length as) (acc @ [read_attr a])) (concat (map (enc_attr ver) as))
      (\<lambda>r. r = (acc @ [read_attr a]) @ map read_attr as)" using Cons.prems by (intro Cons.IH) simp
  then show ?case using Cons.prems by (simp, intro get_bind_eq [OF get_attr [OF env]]) simp_all
qed

lemma get_attrarray:
  assumes env: "env_ok E" and as: "attrs_ok ver as" "8 + length (enc_list ver NC_ATTRIBUTE (enc_attr ver) as) \<le> e"
  shows "get_spec e ver (v1h_get_NC_attrarray E io) (enc_list ver NC_ATTRIBUTE (enc_attr ver) as) (\<lambda>r. r = read_attrs as)"
  unfolding v1h_get_NC_attrarray_def Let_def
proof (rule get_list)
  show "size_ok ver (int (length as))" using as(1) by (simp add: attrs_ok_def)
  show "8 + length (enc_list ver 12 (enc_attr ver) as) \<le> e" "(0::int) < 12" "(12::int) < 4294967296" using as(2) by simp_all
  show "empty_attrarray = read_attrs as" if "as = []" using that by (simp add: empty_attrarray_def read_attrs_def)
  have "\<forall>a \<in> set as. attr_ok ver a \<and> 8 + length (enc_attr ver a) \<le> e"
    using as by (auto simp: attrs_ok_def dest: enc_list_member)
  from get_attrs_spec [OF env this, of "[]"] have main: "get_spec e ver (hm_bind (get_attrs E io (length as) [])
      (\<lambda>as'. hm_return \<lparr>atts_nalloc = length as, atts_value = as'\<rparr>)) (concat (map (enc_attr ver) as)) (\<lambda>r. r = read_attrs as)"
    by (rule get_bind_end) (auto intro!: get_return simp: read_attrs_def)
  have mem: "env_mem E (usz (length as * 8))" using env by (simp add: env_ok_def)
  have nw: "length as * 8 + 32 < 18446744073709551616" using as(1) by (simp add: attrs_ok_def)
  show "get_spec e ver (if \<not> env_mem E (usz (length as * 8)) then hm_fail NC_ENOMEM
       else hm_then (no_wrap (length as) 8) (hm_bind (get_attrs E io (length as) []) (\<lambda>as'.
            hm_return \<lparr>atts_nalloc = length as, atts_value = as'\<rparr>))) (concat (map (enc_attr ver) as)) (\<lambda>r. r = read_attrs as)"
    by (simp only: mem not_True_eq_False if_False) (intro get_then_nil get_no_wrap main nw)
qed

lemma get_dimids_ok:
  assumes w: "w = 4 \<or> w = 8"
  shows "hinv False e ver gs \<Longrightarrow> gs_pos gs + length ids * w \<le> gs_extent gs \<Longrightarrow> \<forall>i \<in> set ids. 0 \<le> i \<and> i \<le> X_INT_MAX \<Longrightarrow>
    take (length ids * w) (drop (hpos gs) (content gs)) = concat (map (be w) ids) \<Longrightarrow>
    \<exists>gs'. get_dimids w (length ids) gs = Done (Inr ((ids, True), gs')) \<and> hinv False e ver gs' \<and> content gs' = content gs \<and>
      hpos gs' = hpos gs + length ids * w"
proof (induction ids arbitrary: gs)
  case Nil
  then show ?case by (auto simp: hm_return_def)
next
  case (Cons i ids)
  have first: "take w (drop (hpos gs) (content gs)) = be w i"
    using arg_cong [OF Cons.prems(4), of "take w"] by (simp add: min_def)
  have "gs_pos gs + w \<le> gs_extent gs" using Cons.prems(2) by simp
  from get_bytes_ok [OF Cons.prems(1) this] first obtain g1 where g1: "get_bytes w gs = Done (Inr (be w i, g1))"
      "hinv False e ver g1" "content g1 = content gs" "hpos g1 = hpos gs + w" "gs_pos g1 = gs_pos gs + w"
      "gs_extent g1 = gs_extent gs" by auto
  have "take (length ids * w) (drop (hpos g1) (content g1)) = concat (map (be w) ids)"
    using arg_cong [OF Cons.prems(4), of "drop w"] by (simp add: g1(3,4) drop_take add.commute)
  with Cons.IH [OF g1(2)] Cons.prems(2,3) g1(5,6) obtain g2 where g2: "get_dimids w (length ids) g1 = Done (Inr ((ids, True), g2))"
      "hinv False e ver g2" "content g2 = content g1" "hpos g2 = hpos g1 + length ids * w" by auto
  have i: "0 \<le> i" "i \<le> X_INT_MAX" using Cons.prems(3) by simp_all
  then have "(if w = 8 then s64 (unbe (be w i)) else s32 (unbe (be w i))) = i" "s32 i = i"
    using w by (auto simp: unbe_be s64_id s32_id)
  then have "get_dimids w (length (i # ids)) gs = Done (Inr ((i # ids, True), g2))"
    using g1(1) g2(1) i by (simp add: hm_bind_def hm_return_def Let_def)
  with g1 g2 show ?case by (intro exI [of _ g2]) simp
qed

lemma get_dimids_checked:
  assumes "8 + length ids * size_bytes ver \<le> e" "\<forall>i \<in> set ids. 0 \<le> i \<and> i \<le> X_INT_MAX" "length ids = n"
  shows "get_spec e ver (hm_then (check_v1hs io (n * size_bytes ver)) (get_dimids (size_bytes ver) n))
    (concat (map (be (size_bytes ver)) ids)) (\<lambda>r. r = (ids, True))"
  unfolding get_spec_def length_concat_be
proof (intro allI impI)
  fix gs assume inv: "hinv False e ver gs" and room: "hpos gs + length ids * size_bytes ver + e \<le> length (content gs)"
    and at: "take (length ids * size_bytes ver) (drop (hpos gs) (content gs)) = concat (map (be (size_bytes ver)) ids)"
  have w: "size_bytes ver = 4 \<or> size_bytes ver = 8" by (simp add: size_bytes_def)
  have "hpos gs + e \<le> length (content gs)" "n * size_bytes ver \<le> e" using room assms by simp_all
  from check_v1hs_ok [OF inv this(2) size_bytes_mod4(2) this(1)] obtain g1 where
    g1: "check_v1hs io (n * size_bytes ver) gs = Done (Inr ((), g1))" "hinv False e ver g1" "content g1 = content gs"
      "hpos g1 = hpos gs" "gs_pos g1 + n * size_bytes ver \<le> gs_extent g1" by blast
  from get_dimids_ok [OF w g1(2), of ids] g1 at assms(2,3) obtain g2 where
    "get_dimids (size_bytes ver) n g1 = Done (Inr ((ids, True), g2))" "hinv False e ver g2" "content g2 = content g1"
    "hpos g2 = hpos g1 + n * size_bytes ver" by auto
  with g1 assms(3) show "\<exists>x gs'. hm_then (check_v1hs io (n * size_bytes ver)) (get_dimids (size_bytes ver) n) gs = Done (Inr (x, gs')) \<and>
      x = (ids, True) \<and> hinv False e ver gs' \<and> content gs' = content gs \<and> hpos gs' = hpos gs + length ids * size_bytes ver"
    by (intro exI [of _ "(ids, True)"] exI [of _ g2]) (simp add: hm_then_def hm_bind_def)
qed

lemma get_off:
  assumes "8 \<le> e" "0 \<le> v" "v \<le> (if ver = 1 then X_INT_MAX else X_INT64_MAX)"
  shows "get_spec e ver (hm_then (check_v1hs io (off_bytes ver)) (ncx_get_off_t (off_bytes ver))) (be (off_bytes ver) v) (\<lambda>x. x = v)"
  unfolding ncx_get_off_t_def hm_then_bind
  by (rule get_bind_end [OF get_checked])
    (use assms in \<open>auto intro!: get_return simp: off_bytes_def unbe_be s32_id s64_id\<close>)

lemma get_var:
  assumes env: "env_ok E" and v: "var_ok ver v" and e: "8 + length (enc_var ver v) \<le> e"
  shows "get_spec e ver (v1h_get_NC_var E io) (enc_var ver v) (\<lambda>x. x = read_var ver v)"
  unfolding v1h_get_NC_var_def enc_var_def Let_def
proof (rule get_bind_eq [OF get_string [OF env]], goal_cases)
  case 3
  let ?n = "var_ndims v" and ?w = "size_bytes ver"
  have n: "?n * 8 + 32 < 18446744073709551616" using v by (simp add: var_ok_def)
  have e8: "8 \<le> e" "8 + length (var_dimids v) * ?w \<le> e"
      "8 + length (enc_list ver NC_ATTRIBUTE (enc_attr ver) (atts_value (var_attrs v))) \<le> e"
    using e by (simp_all add: enc_var_def length_concat_be)
  note vo = v [unfolded var_ok_def]
  define z where "z = \<lparr>var_xsz = 0, var_shape = replicate ?n 0, var_dsizes = replicate ?n 0, var_name = var_name v, var_ndims = ?n,
     var_dimids = replicate ?n 0, var_attrs = empty_attrarray, var_type = 0, var_len = 0, var_begin = 0, var_no_fill = False\<rparr>"
  have new: "new_x_NC_var E (var_name v) ?n = Some z" using env by (simp add: new_x_NC_var_def env_ok_def z_def)
  have zl: "\<not> length (var_dimids z) < ?n" by (simp add: z_def)
  have vs: "size_ok ver (vsize ver v)" "s64 (vsize ver v) = vsize ver v"
    using vo by (auto simp: size_ok_def size_max_def vsize_def s64_id)
  have fin: "get_spec e ver (hm_then (check_v1hs io (off_bytes ver)) (hm_bind (ncx_get_off_t (off_bytes ver)) (\<lambda>bgn.
       hm_return (z\<lparr>var_dimids := var_dimids v, var_attrs := read_attrs (atts_value (var_attrs v)), var_type := var_type v,
         var_len := s64 (vsize ver v), var_begin := bgn\<rparr>)))) (be (off_bytes ver) (var_begin v)) (\<lambda>x. x = read_var ver v)"
    unfolding hm_then_bind
    by (rule get_bind_end [OF get_off]) (use vo e8 vs(2) in \<open>auto intro!: get_return simp: z_def read_var_def\<close>)
  have tv: "attrs_ok ver (atts_value (var_attrs v))" "1 \<le> var_type v" "var_type v \<le> 11" using vo by simp_all
  have ids: "get_spec e ver (hm_then (check_v1hs io (?n * ?w)) (get_dimids ?w ?n)) (concat (map (be ?w) (var_dimids v)))
      (\<lambda>r. r = (var_dimids v, True))"
    using vo e8 by (intro get_dimids_checked) simp_all
  have rest: "get_spec e ver (hm_bind (v1h_get_NC_attrarray E io) (\<lambda>ap. hm_bind (v1h_get_nc_type io) (\<lambda>type.
       hm_bind (v1h_get_size_t io) (\<lambda>tmp. hm_then (check_v1hs io (off_bytes ver)) (hm_bind (ncx_get_off_t (off_bytes ver)) (\<lambda>bgn.
         hm_return (z\<lparr>var_dimids := var_dimids v, var_attrs := ap, var_type := type, var_len := s64 tmp, var_begin := bgn\<rparr>)))))))
     (enc_list ver NC_ATTRIBUTE (enc_attr ver) (atts_value (var_attrs v)) @ be 4 (var_type v) @ enc_size ver (vsize ver v) @
       be (off_bytes ver) (var_begin v)) (\<lambda>x. x = read_var ver v)"
    by (rule get_bind_eq [OF get_attrarray [OF env]], goal_cases)
      (use tv e8 vs(1) in \<open>auto intro!: get_bind_eq [OF get_type] get_bind_eq [OF get_size] fin\<close>)
  have "get_spec e ver (hm_then (no_wrap ?n 8) (case new_x_NC_var E (var_name v) ?n of None \<Rightarrow> hm_fail NC_ENOMEM
      | Some varp \<Rightarrow> hm_bind get_version (\<lambda>ver. hm_then (check_v1hs io (?n * size_bytes ver))
         (if length (var_dimids varp) < ?n then (\<lambda>gs. Fault)
          else hm_bind (get_dimids (size_bytes ver) ?n) (\<lambda>(ids, ok). if \<not> ok then hm_fail NC_ERANGE
            else hm_bind (v1h_get_NC_attrarray E io) (\<lambda>ap. hm_bind (v1h_get_nc_type io) (\<lambda>type.
              hm_bind (v1h_get_size_t io) (\<lambda>tmp. hm_then (check_v1hs io (off_bytes ver))
                (hm_bind (ncx_get_off_t (off_bytes ver)) (\<lambda>bgn.
                  hm_return (varp\<lparr>var_dimids := ids, var_attrs := ap, var_type := type, var_len := s64 tmp, var_begin := bgn\<rparr>)))))))))))
     (concat (map (be ?w) (var_dimids v)) @ enc_list ver NC_ATTRIBUTE (enc_attr ver) (atts_value (var_attrs v)) @
       be 4 (var_type v) @ enc_size ver (vsize ver v) @ be (off_bytes ver) (var_begin v)) (\<lambda>x. x = read_var ver v)"
    unfolding new option.case
    by (rule get_then_nil [OF get_no_wrap [OF n]], rule get_version_bind, simp only: zl if_False hm_then_bind,
        rule get_bind_eq [OF ids [unfolded hm_then_bind]]) (simp add: rest [unfolded hm_then_bind])
  note main = this
  have nd: "size_ok ver (int ?n)" using vo by simp
  show ?case by (rule get_bind_eq [OF get_size [OF nd e8(1)]]) (simp only: nat_int main)
qed (use v e in \<open>simp_all add: var_ok_def enc_var_def\<close>)

lemma get_vars_spec:
  assumes env: "env_ok E"
  shows "nm.indexes (env_crc E) hm (var_names vs0) \<Longrightarrow> length vs1 = length vs0 \<Longrightarrow> distinct (var_names (vs0 @ vs)) \<Longrightarrow> [] \<notin> set (var_names vs) \<Longrightarrow>
    length (vs0 @ vs) \<le> 67686 \<Longrightarrow> \<forall>v \<in> set vs. var_ok ver v \<and> 8 + length (enc_var ver v) \<le> e \<Longrightarrow>
    get_spec e ver (get_vars E io (length vs) vs1 (Some hm)) (concat (map (enc_var ver) vs))
      (\<lambda>(rs, hmo). rs = vs1 @ map (read_var ver) vs \<and> index_ok E hmo (var_names (vs0 @ vs)))"
proof (induction vs arbitrary: vs0 vs1 hm)
  case Nil
  then show ?case by (auto intro!: get_return simp: index_ok_def)
next
  case (Cons v vs)
  have names: "var_names (vs0 @ [v]) = var_names vs0 @ [cstr (var_name v)]" by (simp add: var_names_def)
  have fresh: "cstr (var_name v) \<noteq> []" "cstr (var_name v) \<notin> set (var_names vs0)" "length (var_names vs0) < 67686"
    using Cons.prems(3-5) by (auto simp: var_names_def)
  obtain hm1 where hm1: "hash_add E (Some hm) (length vs1) (cstr (var_name (read_var ver v))) = Done (Some hm1)"
      "nm.indexes (env_crc E) hm1 (var_names (vs0 @ [v]))"
    using hash_add_ok [OF env Cons.prems(1) fresh] Cons.prems(2) unfolding names by (auto simp: var_names_def read_var_def)
  have "get_spec e ver (get_vars E io (length vs) (vs1 @ [read_var ver v]) (Some hm1)) (concat (map (enc_var ver) vs))
      (\<lambda>(rs, hmo). rs = (vs1 @ [read_var ver v]) @ map (read_var ver) vs \<and> index_ok E hmo (var_names ((vs0 @ [v]) @ vs)))"
    using Cons.prems by (intro Cons.IH [OF hm1(2)]) (auto simp: var_names_def)
  then have "get_spec e ver (hm_bind (hm_lift (hash_add E (Some hm) (length vs1) (cstr (var_name (read_var ver v)))))
       (\<lambda>hmo'. get_vars E io (length vs) (vs1 @ [read_var ver v]) hmo')) (concat (map (enc_var ver) vs))
      (\<lambda>(rs, hmo). rs = vs1 @ map (read_var ver) (v # vs) \<and> index_ok E hmo (var_names (vs0 @ v # vs)))"
    by (intro get_bind_lift [OF hm1(1)]) simp_all
  then show ?case
    using Cons.prems(6) by (simp, intro get_bind_eq [OF get_var [OF env]]) simp_all
qed

lemma get_vararray:
  assumes env: "env_ok E" and vs: "vars_ok ver vs" "8 + length (enc_list ver NC_VARIABLE (enc_var ver) vs) \<le> e"
  shows "get_spec e ver (v1h_get_NC_vararray E io) (enc_list ver NC_VARIABLE (enc_var ver) vs)
    (\<lambda>r. vars_value r = map (read_var ver) vs \<and> vars_nalloc r = length vs \<and> index_ok E (vars_hashmap r) (var_names vs))"
  unfolding v1h_get_NC_vararray_def Let_def
proof (rule get_list)
  show "size_ok ver (int (length vs))" using vs(1) by (simp add: vars_ok_def size_ok_def size_max_def)
  show "8 + length (enc_list ver 11 (enc_var ver) vs) \<le> e" "(0::int) < 11" "(11::int) < 4294967296" using vs(2) by simp_all
  show "vars_value empty_vararray = map (read_var ver) vs \<and> vars_nalloc empty_vararray = length vs \<and>
      index_ok E (vars_hashmap empty_vararray) (var_names vs)" if "vs = []"
    using that by (simp add: empty_vararray_def index_ok_def var_names_def)
  have n: "length vs < 67686" using vs(1) by (simp add: vars_ok_def)
  obtain hm where hm: "NC_hashmapnew (env_mem E) (length vs) = Done hm" "nm.indexes (env_crc E) hm []"
    by (rule hashmapnew_index [OF env n]) (rule that)
  have "get_spec e ver (get_vars E io (length vs) [] (Some hm)) (concat (map (enc_var ver) vs))
      (\<lambda>(rs, hmo). rs = [] @ map (read_var ver) vs \<and> index_ok E hmo (var_names ([] @ vs)))"
    using hm(2) vs n by (intro get_vars_spec [OF env]) (auto simp: vars_ok_def var_names_def dest: enc_list_member)
  then have main: "get_spec e ver (hm_bind (get_vars E io (length vs) [] (Some hm)) (\<lambda>(vs', hmo).
       hm_return \<lparr>vars_nalloc = length vs, vars_hashmap = hmo, vars_value = vs'\<rparr>)) (concat (map (enc_var ver) vs))
      (\<lambda>r. vars_value r = map (read_var ver) vs \<and> vars_nalloc r = length vs \<and> index_ok E (vars_hashmap r) (var_names vs))"
    by (rule get_bind_end) (auto intro!: get_return)
  have mem: "env_mem E (usz (length vs * 8))" using env by (simp add: env_ok_def)
  have nw: "length vs * 8 + 32 < 18446744073709551616" using n by simp
  show "get_spec e ver (if \<not> env_mem E (usz (length vs * 8)) then hm_fail NC_ENOMEM
       else hm_bind (hm_lift (NC_hashmapnew (env_mem E) (length vs))) (\<lambda>hm. hm_then (no_wrap (length vs) 8)
         (hm_bind (get_vars E io (length vs) [] (Some hm)) (\<lambda>(vs', hmo).
            hm_return \<lparr>vars_nalloc = length vs, vars_hashmap = hmo, vars_value = vs'\<rparr>)))) (concat (map (enc_var ver) vs))
      (\<lambda>r. vars_value r = map (read_var ver) vs \<and> vars_nalloc r = length vs \<and> index_ok E (vars_hashmap r) (var_names vs))"
    by (simp only: mem not_True_eq_False if_False) (intro get_bind_lift [OF hm(1)] get_then_nil get_no_wrap main nw)
qed

lemma put_dimarray:
  assumes "dims_ok ver (dims_value da)" "8 + length (enc_list ver NC_DIMENSION (enc_dim ver) (dims_value da)) \<le> e"
  shows "put_spec e ver (v1h_put_NC_dimarray io da) (enc_list ver NC_DIMENSION (enc_dim ver) (dims_value da))"
  unfolding v1h_put_NC_dimarray_def
  by (rule put_list) (use assms in \<open>auto simp: dims_ok_def size_ok_def size_max_def intro: put_dim\<close>)

lemma put_vararray:
  assumes "vars_ok ver (vars_value va)" "8 + length (enc_list ver NC_VARIABLE (enc_var ver) (vars_value va)) \<le> e"
  shows "put_spec e ver (v1h_put_NC_vararray io va) (enc_list ver NC_VARIABLE (enc_var ver) (vars_value va))"
  unfolding v1h_put_NC_vararray_def
  by (rule put_list) (use assms in \<open>auto simp: vars_ok_def size_ok_def size_max_def intro: put_var\<close>)

end

end
