(* ===== verification/NC3_File.thy ===== *)
theory NC3_File
  imports NC3_Codec
begin

text \<open>
  The header of a whole file: from \<open>libsrc/nc3internal.c\<close> the checks on the sizes and offsets
  of the variables, from \<open>libsrc/v1hpg.c\<close> \<open>NC_computeshapes\<close>, \<open>ncx_len_NC\<close>, \<open>ncx_put_NC\<close> and
  \<open>nc_get_NC\<close>. The ncio state is an argument and part of the result.
\<close>

subsection \<open>Sizes of variables\<close>

text \<open>
  The two loops of \<open>NC_check_vlens\<close>, over the record variables (\<open>rv\<close>) or the others: the
  number of large variables and whether the last one seen is large; \<open>None\<close> is the early return.
\<close>

fun check_vlens_loop :: "bool \<Rightarrow> bool \<Rightarrow> int \<Rightarrow> NC_var list \<Rightarrow> nat \<Rightarrow> bool \<Rightarrow> (nat \<times> bool) option run" where
  "check_vlens_loop cdf5 rv vlen_max [] large last_large = Done (Some (large, last_large))"
| "check_vlens_loop cdf5 rv vlen_max (v # vs) large last_large =
     (if IS_RECVAR v \<noteq> rv then check_vlens_loop cdf5 rv vlen_max vs large last_large
      else run_bind (NC_check_vlen v vlen_max) (\<lambda>ok.
        if ok then check_vlens_loop cdf5 rv vlen_max vs large False
        else if cdf5 then Done None
        else check_vlens_loop cdf5 rv vlen_max vs (large + 1) True))"

definition vlen_max_of :: "int \<Rightarrow> int" where
  "vlen_max_of flgs = (if fIsSet flgs NC_64BIT_DATA then X_INT64_MAX - 3
     else if fIsSet flgs NC_64BIT_OFFSET then X_UINT_MAX - 3 else X_INT_MAX - 3)"

definition NC_check_vlens :: "'a nc3_info_scheme \<Rightarrow> int run" where
  "NC_check_vlens ncp = (let vs = vars_value (vars ncp); cdf5 = fIsSet (flags ncp) NC_64BIT_DATA; vm = vlen_max_of (flags ncp) in
     if vs = [] then Done NC_NOERR
     else run_bind (check_vlens_loop cdf5 False vm vs 0 False) (\<lambda>r. case r of None \<Rightarrow> Done NC_EVARSIZE
       | Some (large, last_large) \<Rightarrow>
         if 1 < large then Done NC_EVARSIZE
         else if large = 1 \<and> \<not> last_large then Done NC_EVARSIZE
         else if (\<exists>v \<in> set vs. IS_RECVAR v) then
           (if large = 1 \<and> last_large then Done NC_EVARSIZE
            else run_bind (check_vlens_loop cdf5 True vm vs 0 last_large) (\<lambda>r. case r of None \<Rightarrow> Done NC_EVARSIZE
              | Some (large, last_large) \<Rightarrow>
                if 1 < large then Done NC_EVARSIZE
                else if large = 1 \<and> \<not> last_large then Done NC_EVARSIZE else Done NC_NOERR))
         else Done NC_NOERR))"

text \<open>The loops of \<open>NC_check_voffs\<close>: the end of the last variable, or \<open>None\<close> when one begins before it.\<close>

fun check_voffs_loop :: "bool \<Rightarrow> int \<Rightarrow> NC_var list \<Rightarrow> int option" where
  "check_voffs_loop rv prev_off [] = Some prev_off"
| "check_voffs_loop rv prev_off (v # vs) = (if IS_RECVAR v \<noteq> rv then check_voffs_loop rv prev_off vs
     else if var_begin v < prev_off then None
     else check_voffs_loop rv (s64 (var_begin v + var_len v)) vs)"

definition NC_check_voffs :: "'a nc3_hdr_scheme \<Rightarrow> int" where
  "NC_check_voffs ncp = (let vs = vars_value (vars ncp) in if vs = [] then NC_NOERR
     else case check_voffs_loop False (begin_var ncp) vs of None \<Rightarrow> NC_ENOTNC
     | Some prev_off \<Rightarrow> if begin_rec ncp < prev_off then NC_ENOTNC
         else case check_voffs_loop True (begin_rec ncp) vs of None \<Rightarrow> NC_ENOTNC | Some _ \<Rightarrow> NC_NOERR)"

text \<open>
  The loop of \<open>NC_computeshapes\<close>: the variables with their shapes, the first fixed and the
  first record variable, \<open>begin_rec\<close> and \<open>recsize\<close>.
\<close>

fun computeshapes_loop :: "NC_dimarray \<Rightarrow> NC_var list \<Rightarrow> NC_var option \<Rightarrow> NC_var option \<Rightarrow> int \<Rightarrow> int \<Rightarrow>
    (int \<times> NC_var list \<times> NC_var option \<times> NC_var option \<times> int \<times> int) run" where
  "computeshapes_loop da [] first_var first_rec brec rsz = Done (NC_NOERR, [], first_var, first_rec, brec, rsz)"
| "computeshapes_loop da (v # vs) first_var first_rec brec rsz = run_bind (NC_var_shape v da) (\<lambda>(status, v').
     if status \<noteq> NC_NOERR then Done (status, v' # vs, first_var, first_rec, brec, rsz)
     else run_bind (if IS_RECVAR v'
        then computeshapes_loop da vs first_var (if first_rec = None then Some v' else first_rec) brec (u64 (rsz + var_len v'))
        else computeshapes_loop da vs (if first_var = None then Some v' else first_var) first_rec (s64 (var_begin v' + var_len v')) rsz)
       (\<lambda>(status, vs', fv, fr, b, r). Done (status, v' # vs', fv, fr, b, r)))"

definition NC_computeshapes :: "'a nc3_hdr_scheme \<Rightarrow> (int \<times> 'a nc3_hdr_scheme) run" where
  "NC_computeshapes ncp0 = (let ncp = ncp0\<lparr>begin_var := xsz ncp0, begin_rec := xsz ncp0, recsize := 0\<rparr> in
     if vars_value (vars ncp) = [] then Done (NC_NOERR, ncp)
     else run_bind (computeshapes_loop (dims ncp) (vars_value (vars ncp)) None None (xsz ncp) 0) (\<lambda>(status, vs, first_var, first_rec, brec, rsz).
       let ncp1 = ncp\<lparr>vars := (vars ncp)\<lparr>vars_value := vs\<rparr>, begin_rec := brec, recsize := rsz\<rparr> in
       if status \<noteq> NC_NOERR then Done (status, ncp1)
       else run_bind (case first_rec of None \<Rightarrow> Done (NC_NOERR, ncp1)
         | Some fr \<Rightarrow> if var_begin fr < brec then Done (NC_ENOTNC, ncp1)
             else run_bind (if rsz = u64 (var_len fr)
               then run_bind (peek (var_dsizes fr) 0) (\<lambda>d. Done (u64 (d * var_xsz fr))) else Done rsz)
               (\<lambda>rsz'. Done (NC_NOERR, ncp1\<lparr>begin_rec := var_begin fr, recsize := rsz'\<rparr>)))
         (\<lambda>(status, ncp2). if status \<noteq> NC_NOERR then Done (status, ncp2)
           else let ncp3 = ncp2\<lparr>begin_var := (case first_var of Some fv \<Rightarrow> var_begin fv | None \<Rightarrow> begin_rec ncp2)\<rparr> in
             Done (if begin_var ncp3 \<le> 0 \<or> u64 (begin_var ncp3) < xsz ncp3 \<or> begin_rec ncp3 \<le> 0 \<or> begin_rec ncp3 < begin_var ncp3
               then NC_ENOTNC else NC_NOERR, ncp3))))"

subsection \<open>What the checks mean\<close>

lemma check_voffs_loop_exact:
  assumes "\<forall>v \<in> set vs. 0 \<le> var_len v \<and> var_begin v + var_len v \<le> X_INT64_MAX \<and> 0 \<le> var_begin v"
  shows "case check_voffs_loop rv p vs of
      None \<Rightarrow> \<not> (sorted_wrt (\<lambda>v w. var_begin v + var_len v \<le> var_begin w) (filter (\<lambda>v. IS_RECVAR v = rv) vs) \<and>
        (\<forall>v \<in> set (filter (\<lambda>v. IS_RECVAR v = rv) vs). p \<le> var_begin v))
    | Some e \<Rightarrow> sorted_wrt (\<lambda>v w. var_begin v + var_len v \<le> var_begin w) (filter (\<lambda>v. IS_RECVAR v = rv) vs) \<and>
        (\<forall>v \<in> set (filter (\<lambda>v. IS_RECVAR v = rv) vs). p \<le> var_begin v) \<and>
        (\<forall>b. e \<le> b \<longleftrightarrow> p \<le> b \<and> (\<forall>v \<in> set (filter (\<lambda>v. IS_RECVAR v = rv) vs). var_begin v + var_len v \<le> b))"
  using assms
proof (induction rv p vs rule: check_voffs_loop.induct)
  case (2 rv p v vs)
  have s: "s64 (var_begin v + var_len v) = var_begin v + var_len v" using "2.prems" by (intro s64_id) auto
  have nn: "0 \<le> var_len v" using "2.prems" by simp
  show ?case
  proof (cases "IS_RECVAR v = rv \<and> p \<le> var_begin v")
    case True
    have up: "\<And>x. var_begin v + var_len v \<le> x \<Longrightarrow> p \<le> x" using True nn by linarith
    have nl: "\<not> var_begin v < p" using True by simp
    show ?thesis
      using 2(2) [OF _ nl] "2.prems" True up unfolding s
      by (cases "check_voffs_loop rv (var_begin v + var_len v) vs") (auto simp: s)
  next
    case False
    with 2 show ?thesis by (auto split: option.splits)
  qed
qed auto

lemma NC_check_voffs_iff:
  fixes ncp :: "'a nc3_hdr_scheme"
  defines "fixed \<equiv> filter (\<lambda>v. \<not> IS_RECVAR v) (vars_value (vars ncp))"
    and "recs \<equiv> filter IS_RECVAR (vars_value (vars ncp))"
  assumes "\<forall>v \<in> set (vars_value (vars ncp)). 0 \<le> var_len v \<and> 0 \<le> var_begin v \<and> var_begin v + var_len v \<le> X_INT64_MAX"
    and "vars_value (vars ncp) \<noteq> []"
  shows "NC_check_voffs ncp = NC_NOERR \<longleftrightarrow>
    sorted_wrt (\<lambda>v w. var_begin v + var_len v \<le> var_begin w) fixed \<and>
    sorted_wrt (\<lambda>v w. var_begin v + var_len v \<le> var_begin w) recs \<and> begin_var ncp \<le> begin_rec ncp \<and>
    (\<forall>v \<in> set fixed. begin_var ncp \<le> var_begin v \<and> var_begin v + var_len v \<le> begin_rec ncp) \<and>
    (\<forall>v \<in> set recs. begin_rec ncp \<le> var_begin v)"
proof -
  have a: "\<forall>v \<in> set (vars_value (vars ncp)). 0 \<le> var_len v \<and> var_begin v + var_len v \<le> X_INT64_MAX \<and> 0 \<le> var_begin v"
    using assms(3) by blast
  show ?thesis
  proof (cases "check_voffs_loop False (begin_var ncp) (vars_value (vars ncp))")
    case None
    then show ?thesis using check_voffs_loop_exact [OF a, of False "begin_var ncp"] assms(4)
      by (auto simp: NC_check_voffs_def fixed_def)
  next
    case (Some e)
    note first = check_voffs_loop_exact [OF a, of False "begin_var ncp", unfolded Some option.case]
    then have "e \<le> begin_rec ncp \<longleftrightarrow> begin_var ncp \<le> begin_rec ncp \<and> (\<forall>v \<in> set fixed. var_begin v + var_len v \<le> begin_rec ncp)"
      by (simp add: fixed_def)
    moreover have "NC_check_voffs ncp = NC_NOERR \<longleftrightarrow> e \<le> begin_rec ncp \<and> check_voffs_loop True (begin_rec ncp) (vars_value (vars ncp)) \<noteq> None"
      using assms(4) Some by (auto simp: NC_check_voffs_def split: option.splits)
    moreover have "check_voffs_loop True (begin_rec ncp) (vars_value (vars ncp)) \<noteq> None \<longleftrightarrow>
        sorted_wrt (\<lambda>v w. var_begin v + var_len v \<le> var_begin w) recs \<and> (\<forall>v \<in> set recs. begin_rec ncp \<le> var_begin v)"
      using check_voffs_loop_exact [OF a, of True "begin_rec ncp"] by (auto simp: recs_def split: option.splits)
    ultimately show ?thesis using first by (auto simp: fixed_def)
  qed
qed

text \<open>
  C35: \<open>NC_check_voffs\<close> accepts a header exactly if, in the order of definition, no fixed-size variable
  begins before the end of the one before it or before \<open>begin_var\<close>, all of them end before
  \<open>begin_rec\<close>, and the record variables follow each other in the same way from \<open>begin_rec\<close> on:
  the data of accepted variables never overlap (for offsets whose sums fit in \<open>off_t\<close>).
\<close>

theorem NC_check_voffs_exact:
  fixes ncp :: "'a nc3_hdr_scheme"
  defines "fixed \<equiv> filter (\<lambda>v. \<not> IS_RECVAR v) (vars_value (vars ncp))"
    and "recs \<equiv> filter IS_RECVAR (vars_value (vars ncp))"
  assumes "\<forall>v \<in> set (vars_value (vars ncp)). 0 \<le> var_len v \<and> 0 \<le> var_begin v \<and> var_begin v + var_len v \<le> X_INT64_MAX"
    and "vars_value (vars ncp) \<noteq> []"
  shows "NC_check_voffs ncp = NC_NOERR \<longleftrightarrow>
    sorted_wrt (\<lambda>v w. var_begin v + var_len v \<le> var_begin w) fixed \<and>
    sorted_wrt (\<lambda>v w. var_begin v + var_len v \<le> var_begin w) recs \<and> begin_var ncp \<le> begin_rec ncp \<and>
    (\<forall>v \<in> set fixed. begin_var ncp \<le> var_begin v \<and> var_begin v + var_len v \<le> begin_rec ncp) \<and>
    (\<forall>v \<in> set recs. begin_rec ncp \<le> var_begin v)"
  unfolding fixed_def recs_def using NC_check_voffs_iff [OF assms(3,4)] .

definition sample_var :: "int \<Rightarrow> int \<Rightarrow> int \<Rightarrow> NC_var" where
  "sample_var bgn len n = \<lparr>var_xsz = 4, var_shape = [n], var_dsizes = [if n = 0 then 1 else n], var_name = \<lparr>nchars = 1, cp = ''v''\<rparr>, var_ndims = 1,
     var_dimids = [0], var_attrs = empty_attrarray, var_type = NC_INT, var_len = len, var_begin = bgn, var_no_fill = False\<rparr>"

definition sample_hdr :: "int \<Rightarrow> int \<Rightarrow> NC_var list \<Rightarrow> nc3_info" where
  "sample_hdr bv br vs = \<lparr>xsz = 100, begin_var = bv, begin_rec = br, recsize = 4, numrecs = 0, dims = empty_dimarray, attrs = empty_attrarray,
     vars = \<lparr>vars_nalloc = 4, vars_hashmap = None, vars_value = vs\<rparr>, old = None, flags = 0, ioflags = NC_WRITE, chunk = 4096\<rparr>"

lemma NC_check_voffs_exact_witness:
  "NC_check_voffs (sample_hdr 100 132 [sample_var 100 8 2, sample_var 132 4 0, sample_var 112 20 5]) = NC_NOERR \<and>
   NC_check_voffs (sample_hdr 100 132 [sample_var 112 20 5, sample_var 132 4 0, sample_var 100 8 2]) \<noteq> NC_NOERR"
  using NC_check_voffs_exact [of "sample_hdr 100 132 [sample_var 100 8 2, sample_var 132 4 0, sample_var 112 20 5]"]
    NC_check_voffs_exact [of "sample_hdr 100 132 [sample_var 112 20 5, sample_var 132 4 0, sample_var 100 8 2]"]
  by (simp add: sample_hdr_def sample_var_def IS_RECVAR_def)

lemma check_vlens_loop_eq:
  assumes "\<forall>v \<in> set vs. NC_check_vlen v vm = Done (okv v)"
  shows "check_vlens_loop cdf5 rv vm vs large ll = Done (let f = filter (\<lambda>v. IS_RECVAR v = rv) vs in
     if cdf5 \<and> (\<exists>v \<in> set f. \<not> okv v) then None
     else Some (large + length (filter (\<lambda>v. \<not> okv v) f), if f = [] then ll else \<not> okv (last f)))"
  using assms by (induction cdf5 rv vm vs large ll rule: check_vlens_loop.induct) (auto simp: Let_def)

text \<open>At most one variable is too large, and it is the last of its kind.\<close>

lemma no_large: "(\<forall>v \<in> set f. okv v) \<longleftrightarrow> length (filter (\<lambda>v. \<not> okv v) f) = 0"
  by (simp add: filter_empty_conv)

lemma only_last_large:
  "1 < length (filter (\<lambda>v. \<not> okv v) f) \<or> length (filter (\<lambda>v. \<not> okv v) f) = 1 \<and> \<not> (if f = [] then ll else \<not> okv (last f)) \<longleftrightarrow>
   \<not> (\<forall>v \<in> set (butlast f). okv v)"
  unfolding no_large by (cases f rule: rev_cases) (auto simp del: length_0_conv split: if_splits intro: Suc_lessI)

text \<open>
  C36: what \<open>NC_check_vlens\<close> accepts, from the answers \<open>fits\<close> of \<open>NC_check_vlen\<close>: in a CDF-5 file every
  variable must fit; otherwise the last fixed-size variable may be too large, but only when there
  are no record variables, and when there are some, only the last of them may be too large.
\<close>

theorem NC_check_vlens_exact:
  fixes ncp :: "'a nc3_info_scheme"
  defines "fixed \<equiv> filter (\<lambda>v. \<not> IS_RECVAR v) (vars_value (vars ncp))"
    and "recs \<equiv> filter IS_RECVAR (vars_value (vars ncp))"
  assumes "\<forall>v \<in> set (vars_value (vars ncp)). NC_check_vlen v (vlen_max_of (flags ncp)) = Done (fits v)"
  shows "NC_check_vlens ncp = Done (if
      if fIsSet (flags ncp) NC_64BIT_DATA then \<forall>v \<in> set (vars_value (vars ncp)). fits v
      else if recs = [] then \<forall>v \<in> set (butlast fixed). fits v
      else (\<forall>v \<in> set fixed. fits v) \<and> (\<forall>v \<in> set (butlast recs). fits v)
    then NC_NOERR else NC_EVARSIZE)"
proof -
  let ?vs = "vars_value (vars ncp)"
  let ?c = "fIsSet (flags ncp) NC_64BIT_DATA"
  let ?n = "\<lambda>f. length (filter (\<lambda>v. \<not> fits v) f)"
  have loop: "check_vlens_loop ?c rv (vlen_max_of (flags ncp)) ?vs 0 ll = Done (let f = if rv then recs else fixed in
     if ?c \<and> (\<exists>v \<in> set f. \<not> fits v) then None else Some (?n f, if f = [] then ll else \<not> fits (last f)))" for rv ll
    using check_vlens_loop_eq [OF assms(3), of ?c rv 0 ll] by (cases rv) (simp_all only: recs_def fixed_def simp_thms if_True if_False add_0)
  have ex: "(\<exists>v \<in> set ?vs. IS_RECVAR v) \<longleftrightarrow> recs \<noteq> []" by (auto simp: recs_def filter_empty_conv)
  have all: "(\<forall>v \<in> set ?vs. fits v) \<longleftrightarrow> (\<forall>v \<in> set fixed. fits v) \<and> (\<forall>v \<in> set recs. fits v)" by (auto simp: fixed_def recs_def)
  have n0: "?n f = 0 \<longleftrightarrow> (\<forall>v \<in> set f. fits v)" for f by (simp add: filter_empty_conv)
  have one: "(\<forall>v \<in> set f. fits v) \<longleftrightarrow> \<not> (?n f = 1 \<and> (if f = [] then ll else \<not> fits (last f))) \<and> (\<forall>v \<in> set (butlast f). fits v)" for f ll
    unfolding no_large by (cases f rule: rev_cases) auto
  define n1 n2 where n: "n1 = ?n fixed" "n2 = ?n recs"
  define l1 l2 where l: "l1 = (if fixed = [] then False else \<not> fits (last fixed))"
    "l2 = (if recs = [] then l1 else \<not> fits (last recs))"
  have k: "(1 < n1 \<or> n1 = 1 \<and> \<not> l1) = (\<not> (\<forall>v \<in> set (butlast fixed). fits v))"
    "(1 < n2 \<or> n2 = 1 \<and> \<not> l2) = (\<not> (\<forall>v \<in> set (butlast recs). fits v))"
    "(\<forall>v \<in> set fixed. fits v) = (\<not> (n1 = 1 \<and> l1) \<and> (\<forall>v \<in> set (butlast fixed). fits v))"
    unfolding n l by (rule only_last_large, rule only_last_large, rule one)
  have z: "(\<forall>v \<in> set fixed. fits v) = (n1 = 0)" "(\<forall>v \<in> set recs. fits v) = (n2 = 0)" unfolding n by (rule no_large)+
  have loop1: "check_vlens_loop ?c False (vlen_max_of (flags ncp)) ?vs 0 False = Done (if ?c \<and> n1 \<noteq> 0 then None else Some (n1, l1))"
    using loop [of False False] z(1) by (auto simp: n(1) [symmetric] l(1) Let_def)
  have loop2: "check_vlens_loop ?c True (vlen_max_of (flags ncp)) ?vs 0 l1 = Done (if ?c \<and> n2 \<noteq> 0 then None else Some (n2, l2))"
    using loop [of True l1] z(2) by (auto simp: n(2) [symmetric] l(2) Let_def)
  have empty: "recs = [] \<Longrightarrow> n2 = 0" by (simp add: n)
  have zero: "n1 = 0 \<Longrightarrow> (\<forall>v \<in> set (butlast fixed). fits v)" "n2 = 0 \<Longrightarrow> (\<forall>v \<in> set (butlast recs). fits v)"
    using z by (auto dest: in_set_butlastD)
  define b1 b2 where b: "b1 = (\<forall>v \<in> set (butlast fixed). fits v)" "b2 = (\<forall>v \<in> set (butlast recs). fits v)"
  show ?thesis
  proof (cases "?vs = []")
    case True
    then show ?thesis by (simp add: NC_check_vlens_def fixed_def recs_def)
  next
    case False
    then have *: "NC_check_vlens ncp = Done (if ?c \<and> n1 \<noteq> 0 \<or> 1 < n1 \<or> n1 = 1 \<and> \<not> l1 then NC_EVARSIZE else
       if recs = [] then NC_NOERR else if n1 = 1 \<and> l1 \<or> ?c \<and> n2 \<noteq> 0 \<or> 1 < n2 \<or> n2 = 1 \<and> \<not> l2 then NC_EVARSIZE else NC_NOERR)"
      unfolding NC_check_vlens_def Let_def loop1 ex using loop2 by (cases ?c; cases "recs = []"; cases "n1 = 0"; cases "n2 = 0") simp_all
    show ?thesis unfolding * all b [symmetric] using k zero empty unfolding z b [symmetric]
      by (cases ?c; cases "recs = []"; cases "n1 = 0"; cases "n2 = 0") auto
  qed
qed


lemma NC_check_vlens_exact_witness:
  "NC_check_vlens (sample_hdr 100 132 [sample_var 100 8 2, sample_var 132 4 0, sample_var 112 20 600000000]) = Done NC_EVARSIZE \<and>
   NC_check_vlens (sample_hdr 100 132 [sample_var 100 8 2, sample_var 112 20 600000000]) = Done NC_NOERR"
proof -
  have f: "vlen_max_of 0 = 2147483644" by (simp add: vlen_max_of_def fIsSet_def)
  have v: "\<forall>v \<in> set (vars_value (vars (sample_hdr 100 132 [sample_var 100 8 2, sample_var 132 4 0, sample_var 112 20 600000000]))).
      NC_check_vlen v (vlen_max_of (flags (sample_hdr 100 132 [sample_var 100 8 2, sample_var 132 4 0, sample_var 112 20 600000000]))) =
      Done (hd (var_shape v) < 600000000)"
    "\<forall>v \<in> set (vars_value (vars (sample_hdr 100 132 [sample_var 100 8 2, sample_var 112 20 600000000]))).
      NC_check_vlen v (vlen_max_of (flags (sample_hdr 100 132 [sample_var 100 8 2, sample_var 112 20 600000000]))) =
      Done (hd (var_shape v) < 600000000)"
    by (simp_all add: sample_hdr_def sample_var_def f NC_check_vlen_def IS_RECVAR_def u64_def s64_def c_div_def)
  show ?thesis
    using NC_check_vlens_exact [OF v(1)] NC_check_vlens_exact [OF v(2)]
    by (simp add: sample_hdr_def sample_var_def IS_RECVAR_def fIsSet_def)
qed

subsection \<open>The whole header\<close>

definition version_of :: "int \<Rightarrow> nat" where
  "version_of flgs = (if fIsSet flgs NC_64BIT_DATA then 5 else if fIsSet flgs NC_64BIT_OFFSET then 2 else 1)"

definition ncx_len_NC :: "'a nc3_info_scheme \<Rightarrow> nat \<Rightarrow> nat" where
  "ncx_len_NC ncp sizeof_off_t = (let version = version_of (flags ncp) in
     4 + size_bytes version + ncx_len_NC_dimarray (dims ncp) version + ncx_len_NC_attrarray (attrs ncp) version +
     ncx_len_NC_vararray (vars ncp) sizeof_off_t version)"

abbreviation (input) "MIN_NC3_XSZ \<equiv> (32::int)"
abbreviation (input) "MIN_NC5_XSZ \<equiv> (48::int)"

definition magic :: "nat \<Rightarrow> string" where
  "magic version = [CHR 0x43, CHR 0x44, CHR 0x46, char_of version]"

text \<open>The body of \<open>ncx_put_NC\<close>, from the magic number to the variables.\<close>

definition put_hdr :: "'s ncio \<Rightarrow> 'a nc3_info_scheme \<Rightarrow> (unit, 's) hm" where
  "put_hdr io ncp = hm_bind get_version (\<lambda>ver. hm_then (put_bytes (magic ver))
     (hm_then (if ver = 5 then put_bytes (be 8 (numrecs ncp)) else ncx_put_size_t (numrecs ncp))
     (hm_then (\<lambda>gs. if gs_pos gs < gs_extent gs then Done (Inr ((), gs)) else Fault)
     (hm_then (v1h_put_NC_dimarray io (dims ncp)) (hm_then (v1h_put_NC_attrarray io (attrs ncp))
       (v1h_put_NC_vararray io (vars ncp)))))))"

definition first_extent :: "int \<Rightarrow> int \<Rightarrow> int \<Rightarrow> int" where
  "first_extent min_xsz x chnk = (if x \<le> min_xsz then min chnk 4096 else min x chnk)"

text \<open>
  \<open>ncx_put_NC\<close>: with \<open>xpp = None\<close> it gets its first buffer itself, with \<open>Some\<close> the caller hands
  over one of \<open>extent\<close> bytes at \<open>offset\<close>. The status of the final \<open>rel_v1hs\<close> is dropped.
\<close>

definition ncx_put_NC :: "'s ncio \<Rightarrow> 'a nc3_info_scheme \<Rightarrow> 's \<Rightarrow> string option \<Rightarrow> int \<Rightarrow> nat \<Rightarrow> (int \<times> 's) run" where
  "ncx_put_NC io ncp s xpp off extent = (let ver = version_of (flags ncp);
       ext = nat (first_extent (if ver = 5 then MIN_NC5_XSZ else MIN_NC3_XSZ) (xsz ncp) (chunk ncp));
       ps = \<lparr>gs_io = s, gs_offset = 0, gs_extent = ext, gs_flags = RGN_WRITE, gs_version = ver, gs_base = None, gs_pos = 0\<rparr> in
     run_bind (case xpp of None \<Rightarrow> fault_v1hs io ext ps
         | Some buf \<Rightarrow> Done (Inr ((), ps\<lparr>gs_offset := off, gs_extent := extent, gs_base := Some buf\<rparr>)))
       (\<lambda>r. case r of Inl (status, ps1) \<Rightarrow> Done (status, gs_io ps1)
        | Inr (_, ps1) \<Rightarrow> run_bind (put_hdr io ncp ps1) (\<lambda>r. case r of
            Inl (status, ps2) \<Rightarrow> run_bind (rel_v1hs io ps2) (\<lambda>(_, ps3). Done (status, gs_io ps3))
          | Inr (_, ps2) \<Rightarrow> run_bind (rel_v1hs io ps2) (\<lambda>(_, ps3). Done (NC_NOERR, gs_io ps3)))))"

text \<open>
  \<open>nc_get_NC\<close>. \<open>get_magic\<close> sets the stream's version; \<open>version_flag\<close> is what it sets in
  \<open>ncp->flags\<close>. \<open>finish_get\<close> is what follows the three arrays. When an array cannot be read the
  caller is left with the arrays read before it; here they are dropped.
\<close>

definition get_magic :: "(nat, 's) hm" where
  "get_magic = hm_bind (get_bytes 4) (\<lambda>m gs.
     if take 3 m \<noteq> [CHR 0x43, CHR 0x44, CHR 0x46] then Done (Inl (NC_ENOTNC, gs))
     else let v = of_char (m ! 3) :: nat in
       if v \<in> {1, 2, 5} then Done (Inr (v, gs\<lparr>gs_version := v\<rparr>)) else Done (Inl (NC_ENOTNC, gs)))"

definition version_flag :: "nat \<Rightarrow> int \<Rightarrow> int" where
  "version_flag ver flgs = (if ver = 2 then fSet flgs NC_64BIT_OFFSET else if ver = 5 then fSet flgs NC_64BIT_DATA else flgs)"

definition get_arrays :: "nc_env \<Rightarrow> 's ncio \<Rightarrow> (nat \<times> int \<times> NC_dimarray \<times> NC_attrarray \<times> NC_vararray, 's) hm" where
  "get_arrays E io = hm_bind get_magic (\<lambda>ver. hm_bind (if ver = 5 then ncx_get_uint64 else ncx_get_uint32) (\<lambda>nrecs.
     hm_then (\<lambda>gs. if gs_pos gs < gs_extent gs then Done (Inr ((), gs)) else Fault)
     (hm_bind (v1h_get_NC_dimarray E io) (\<lambda>da. hm_bind (v1h_get_NC_attrarray E io) (\<lambda>aa.
        hm_bind (v1h_get_NC_vararray E io) (\<lambda>va. hm_return (ver, nrecs, da, aa, va)))))))"

definition finish_get :: "nat \<Rightarrow> 'a nc3_info_scheme \<Rightarrow> (int \<times> 'a nc3_info_scheme) run" where
  "finish_get ver ncp0 = (let ncp = ncp0\<lparr>xsz := int (ncx_len_NC ncp0 (off_bytes ver))\<rparr> in
     run_bind (NC_computeshapes ncp) (\<lambda>(status, ncp1). if status \<noteq> NC_NOERR then Done (status, ncp1)
       else run_bind (NC_check_vlens ncp1) (\<lambda>status. if status \<noteq> NC_NOERR then Done (status, ncp1)
       else Done (NC_check_voffs ncp1, ncp1))))"

definition nc_get_NC :: "nc_env \<Rightarrow> 's ncio \<Rightarrow> 'a nc3_info_scheme \<Rightarrow> 's \<Rightarrow> (int \<times> 'a nc3_info_scheme \<times> 's) run" where
  "nc_get_NC E io ncp s = (let mn = (if fIsSet (flags ncp) NC_64BIT_DATA then MIN_NC5_XSZ else MIN_NC3_XSZ);
       (fst_status, filesize) = io_filesize io s;
       small = (xsz ncp \<le> mn) in
     if small \<and> fst_status \<noteq> NC_NOERR then Done (fst_status, ncp, s)
     else if small \<and> u64 filesize < 4 then Done (NC_ENOTNC, ncp, s)
     else let ext0 = first_extent mn (xsz ncp) (chunk ncp);
              ext = (if small \<and> u64 filesize < ext0 then filesize else ext0);
              gs = \<lparr>gs_io = s, gs_offset = 0, gs_extent = 0, gs_flags = 0, gs_version = 0, gs_base = None, gs_pos = 0\<rparr> in
       run_bind (io_sync io s) (\<lambda>(status, s1). if status \<noteq> NC_NOERR then Done (status, ncp, s1)
         else run_bind (fault_v1hs io (nat ext) (gs\<lparr>gs_io := s1\<rparr>)) (\<lambda>r. case r of
           Inl (status, gs1) \<Rightarrow> Done (status, ncp, gs_io gs1)
         | Inr (_, gs1) \<Rightarrow> run_bind (get_arrays E io gs1) (\<lambda>r. case r of
             Inl (status, gs2) \<Rightarrow> run_bind (rel_v1hs io gs2) (\<lambda>(_, gs3). Done (status, ncp, gs_io gs3))
           | Inr ((ver, nrecs, da, aa, va), gs2) \<Rightarrow>
               run_bind (finish_get ver (ncp\<lparr>flags := version_flag ver (flags ncp), numrecs := nrecs, dims := da, attrs := aa, vars := va\<rparr>))
                 (\<lambda>(status, ncp1). run_bind (rel_v1hs io gs2) (\<lambda>(_, gs3). Done (status, ncp1, gs_io gs3)))))))"

subsection \<open>The header as bytes\<close>

definition enc_hdr :: "nat \<Rightarrow> int \<Rightarrow> NC_dim list \<Rightarrow> NC_attr list \<Rightarrow> NC_var list \<Rightarrow> string" where
  "enc_hdr ver nrecs ds as vs = magic ver @ enc_size ver nrecs @ enc_list ver NC_DIMENSION (enc_dim ver) ds @
     enc_list ver NC_ATTRIBUTE (enc_attr ver) as @ enc_list ver NC_VARIABLE (enc_var ver) vs"

definition enc_NC :: "'a nc3_info_scheme \<Rightarrow> string" where
  "enc_NC ncp = enc_hdr (version_of (flags ncp)) (numrecs ncp) (dims_value (dims ncp)) (atts_value (attrs ncp)) (vars_value (vars ncp))"

text \<open>A header that can be written: counts in range, names distinct and not empty, values of the right size.\<close>

definition hdr_ok :: "'a nc3_info_scheme \<Rightarrow> bool" where
  "hdr_ok ncp \<longleftrightarrow> (let ver = version_of (flags ncp) in size_ok ver (numrecs ncp) \<and> dims_ok ver (dims_value (dims ncp)) \<and>
     attrs_ok ver (atts_value (attrs ncp)) \<and> vars_ok ver (vars_value (vars ncp)))"

lemma version_of_cases: "version_of f = 1 \<or> version_of f = 2 \<or> version_of f = 5"
  by (simp add: version_of_def)

lemma length_enc_string: "string_ok ver s \<Longrightarrow> length (enc_string ver s) = ncx_len_NC_string s ver"
  using pad4_RNDUP [of "nchars s"] by (simp add: enc_string_def ncx_len_NC_string_def string_ok_def str_wf_def RNDUP_def)

lemma length_concat_sum: "length (concat xss) = sum_list (map length xss)"
  by (induction xss) simp_all

lemma length_enc_list: "length (enc_list ver tag enc xs) = 4 + size_bytes ver + sum_list (map (\<lambda>x. length (enc x)) xs)"
  by (simp add: enc_list_def length_concat_sum comp_def)

lemma length_enc_attrs:
  "attrs_ok ver (atts_value ap) \<Longrightarrow> length (enc_list ver tag (enc_attr ver) (atts_value ap)) = ncx_len_NC_attrarray ap ver"
proof -
  assume "attrs_ok ver (atts_value ap)"
  then have "\<forall>a \<in> set (atts_value ap). length (enc_attr ver a) = ncx_len_NC_attr a ver"
  proof (intro ballI)
    fix a assume "a \<in> set (atts_value ap)" and ok: "attrs_ok ver (atts_value ap)"
    then have a: "attr_ok ver a" by (simp add: attrs_ok_def)
    obtain k where k: "ncmpix_len_nctype (att_type a) = Done k" "type_size (att_type a) = k" "att_xsz a = RNDUP (k * att_nelems a) 4"
      using a attr_len by (auto simp: attr_ok_def)
    have "length (enc_values a) = att_xsz a"
      using k(2,3) a RNDUP_4_ge [of "k * att_nelems a"] by (simp add: enc_values_def attr_ok_def)
    with a show "length (enc_attr ver a) = ncx_len_NC_attr a ver"
      by (simp add: enc_attr_def ncx_len_NC_attr_def length_enc_string attr_ok_def)
  qed
  then show ?thesis by (simp add: length_enc_list ncx_len_NC_attrarray_def cong: map_cong)
qed

lemma length_be_list: "length (concat (map (be n) xs)) = length xs * n"
  by (induction xs) simp_all

lemma length_enc_var: "var_ok ver v \<Longrightarrow> length (enc_var ver v) = ncx_len_NC_var v (off_bytes ver) ver"
  by (simp add: enc_var_def ncx_len_NC_var_def length_enc_string length_enc_attrs length_be_list var_ok_def)
    (simp add: size_bytes_def)

lemma length_enc_NC: "hdr_ok ncp \<Longrightarrow> length (enc_NC ncp) = ncx_len_NC ncp (off_bytes (version_of (flags ncp)))"
proof -
  assume ok: "hdr_ok ncp"
  let ?v = "version_of (flags ncp)"
  have d: "\<forall>d \<in> set (dims_value (dims ncp)). length (enc_dim ?v d) = ncx_len_NC_dim d ?v"
    using ok by (auto simp: hdr_ok_def Let_def dims_ok_def dim_ok_def enc_dim_def ncx_len_NC_dim_def length_enc_string)
  have v: "\<forall>v \<in> set (vars_value (vars ncp)). length (enc_var ?v v) = ncx_len_NC_var v (off_bytes ?v) ?v"
    using ok by (auto simp: hdr_ok_def Let_def vars_ok_def length_enc_var)
  have a: "attrs_ok ?v (atts_value (attrs ncp))" using ok by (simp add: hdr_ok_def Let_def)
  have "length (enc_list ?v 10 (enc_dim ?v) (dims_value (dims ncp))) = ncx_len_NC_dimarray (dims ncp) ?v"
    unfolding length_enc_list ncx_len_NC_dimarray_def using d by (simp cong: map_cong)
  moreover have "length (enc_list ?v 11 (enc_var ?v) (vars_value (vars ncp))) = ncx_len_NC_vararray (vars ncp) (off_bytes ?v) ?v"
    unfolding length_enc_list ncx_len_NC_vararray_def using v by (simp cong: map_cong)
  ultimately show ?thesis
    by (simp add: enc_NC_def enc_hdr_def magic_def ncx_len_NC_def Let_def length_enc_attrs [OF a])
qed

context ncio_region
begin

lemma fault_first:
  assumes "ok s" "0 < ext" "ext mod 4 = 0" "ext \<le> e" "e \<le> length (bytes s)" "e \<le> limit" "flg = (if wr then RGN_WRITE else 0)"
    "ext0 \<le> ext"
  shows "\<exists>gs. fault_v1hs io ext \<lparr>gs_io = s, gs_offset = 0, gs_extent = ext0, gs_flags = flg, gs_version = ver, gs_base = None, gs_pos = 0\<rparr> =
      Done (Inr ((), gs)) \<and> hinv wr e ver gs \<and> content gs = bytes s \<and> hpos gs = 0 \<and> gs_extent gs = ext \<and> gs_pos gs = 0"
proof -
  have "nat 0 + ext \<le> length (bytes s)" using assms by simp
  moreover have "flg = 0 \<or> flg = RGN_WRITE" "ext \<le> limit" using assms by simp_all
  ultimately obtain s1 where s1: "io_get io s 0 ext flg = Done (NC_NOERR, take ext (bytes s), s1)" "held s1 0 ext flg" "bytes s1 = bytes s"
    using get_law [OF assms(1) order_refl assms(2), of flg] by auto
  let ?gs = "\<lparr>gs_io = s1, gs_offset = 0, gs_extent = ext, gs_flags = flg, gs_version = ver, gs_base = Some (take ext (bytes s)), gs_pos = 0\<rparr>"
  have "max ext ext0 = ext" using assms(8) by simp
  with s1 have "fault_v1hs io ext \<lparr>gs_io = s, gs_offset = 0, gs_extent = ext0, gs_flags = flg, gs_version = ver, gs_base = None, gs_pos = 0\<rparr> =
      Done (Inr ((), ?gs))" by (simp add: fault_v1hs_def Let_def)
  moreover have "hinv wr e ver ?gs" using assms s1 by (auto simp: hinv_def min_def)
  moreover have "content ?gs = bytes s" using blit_same [of 0 ext "bytes s"] s1(3) assms by (simp add: content_def)
  ultimately show ?thesis by (intro exI [of _ ?gs]) (simp add: hpos_def)
qed

lemma rel_content:
  assumes "hinv wr e ver gs"
  shows "\<exists>gs'. rel_v1hs io gs = Done (NC_NOERR, gs') \<and> ok (gs_io gs') \<and> bytes (gs_io gs') = content gs"
proof -
  obtain buf where b: "gs_base gs = Some buf" "held (gs_io gs) (gs_offset gs) (length buf) (gs_flags gs)"
      "wr \<or> buf = take (length buf) (drop (nat (gs_offset gs)) (bytes (gs_io gs)))"
    using assms by (auto simp: hinv_def)
  have off: "gs_offset gs \<noteq> OFF_NONE" using assms by (auto simp: hinv_def)
  let ?flg = "if gs_flags gs = RGN_WRITE then RGN_MODIFIED else 0"
  have "?flg = 0 \<and> buf = take (length buf) (drop (nat (gs_offset gs)) (bytes (gs_io gs))) \<or> ?flg = RGN_MODIFIED \<and> gs_flags gs = RGN_WRITE"
    using assms b(3) by (auto simp: hinv_def)
  from rel_law [OF b(2) this] obtain s1 where "io_rel io (gs_io gs) (gs_offset gs) buf ?flg = Done (NC_NOERR, s1)"
      "ok s1" "bytes s1 = content gs" by (auto simp: content_def b(1))
  then show ?thesis using b(1) off by (auto simp: rel_v1hs_def)
qed

text \<open>The magic number and the record count go into the first buffer without a check.\<close>

lemma put_hdr_ok:
  assumes ok: "hdr_ok ncp" and ver: "ver = version_of (flags ncp)" and inv: "hinv True e ver gs"
    and pos: "gs_pos gs = 0" "12 < gs_extent gs" and e: "8 + length (enc_NC ncp) \<le> e"
    and room: "hpos gs + length (enc_NC ncp) + e \<le> length (content gs)"
  shows "\<exists>gs'. put_hdr io ncp gs = Done (Inr ((), gs')) \<and> hinv True e ver gs' \<and>
    content gs' = blit (content gs) (hpos gs) (enc_NC ncp)"
proof -
  have okD: "size_ok ver (numrecs ncp)" "dims_ok ver (dims_value (dims ncp))" "attrs_ok ver (atts_value (attrs ncp))"
      "vars_ok ver (vars_value (vars ncp))"
    using ok ver by (simp_all add: hdr_ok_def Let_def)
  have m: "length (magic ver) = 4" by (simp add: magic_def)
  have "gs_pos gs + length (magic ver) \<le> gs_extent gs" using pos m by simp
  from put_bytes_ok [OF inv this] obtain g1 where g1: "put_bytes (magic ver) gs = Done (Inr ((), g1))" "hinv True e ver g1"
      "content g1 = blit (content gs) (hpos gs) (magic ver)" "hpos g1 = hpos gs + 4" "gs_pos g1 = 4"
    using m pos by auto
  have ext1: "gs_extent g1 = gs_extent gs"
    using g1(1) inv by (auto simp: put_bytes_def hinv_def split: if_splits)
  let ?n = "enc_size ver (numrecs ncp)"
  have nput: "(if ver = 5 then put_bytes (be 8 (numrecs ncp)) else ncx_put_size_t (numrecs ncp)) = put_bytes ?n"
    using okD(1) by (auto simp: enc_size_def size_bytes_def ncx_put_size_t_def size_ok_def size_max_def)
  have "gs_pos g1 + length ?n \<le> gs_extent g1" using g1(5) ext1 pos by (simp add: size_bytes_def)
  from put_bytes_ok [OF g1(2) this] obtain g2 where g2: "put_bytes ?n g1 = Done (Inr ((), g2))" "hinv True e ver g2"
      "content g2 = blit (content g1) (hpos g1) ?n" "hpos g2 = hpos g1 + size_bytes ver" "gs_pos g2 = 4 + size_bytes ver"
    using g1(5) by auto
  have ext2: "gs_extent g2 = gs_extent gs"
    using g2(1) g1(2) ext1 by (auto simp: put_bytes_def hinv_def split: if_splits)
  let ?rest = "enc_list ver NC_DIMENSION (enc_dim ver) (dims_value (dims ncp)) @
     enc_list ver NC_ATTRIBUTE (enc_attr ver) (atts_value (attrs ncp)) @ enc_list ver NC_VARIABLE (enc_var ver) (vars_value (vars ncp))"
  have enc: "enc_NC ncp = (magic ver @ ?n) @ ?rest" by (simp add: enc_NC_def enc_hdr_def ver)
  have lens: "length (enc_NC ncp) = 4 + size_bytes ver + length ?rest" by (simp add: enc m)
  have spec: "put_spec e ver (hm_then (v1h_put_NC_dimarray io (dims ncp)) (hm_then (v1h_put_NC_attrarray io (attrs ncp))
       (v1h_put_NC_vararray io (vars ncp)))) ?rest"
    using okD e lens by (intro put_then put_dimarray put_attrarray put_vararray) auto
  have c2: "content g2 = blit (content gs) (hpos gs) (magic ver @ ?n)"
    using g2(3) g1(3,4) m room lens blit_blit [of "hpos gs" "magic ver" ?n "content gs"] by simp
  have "hpos g2 + length ?rest + e \<le> length (content g2)" using room lens g2(4) g1(4) c2 m by simp
  from put_specD [OF spec g2(2) this] obtain g3 where g3: "hm_then (v1h_put_NC_dimarray io (dims ncp))
       (hm_then (v1h_put_NC_attrarray io (attrs ncp)) (v1h_put_NC_vararray io (vars ncp))) g2 = Done (Inr ((), g3))"
      "hinv True e ver g3" "content g3 = blit (content g2) (hpos g2) ?rest" by metis
  have "gs_pos g2 < gs_extent g2" using g2(5) ext2 pos by (simp add: size_bytes_def)
  with g1(1) g2(1) g3(1) inv have "put_hdr io ncp gs = Done (Inr ((), g3))"
    by (simp add: put_hdr_def hm_bind_def hm_then_def get_version_def hinv_def nput [symmetric])
  moreover have "content g3 = blit (content gs) (hpos gs) (enc_NC ncp)"
    unfolding g3(3) c2 enc
    using blit_blit [of "hpos gs" "magic ver @ ?n" ?rest "content gs"] room lens m g2(4) g1(4) by (simp add: add.assoc)
  ultimately show ?thesis using g3(2) by blast
qed

lemma ncx_put_NC_bytes:
  assumes ok: "hdr_ok ncp" and s: "ok s"
    and ext: "ext = nat (first_extent (if version_of (flags ncp) = 5 then MIN_NC5_XSZ else MIN_NC3_XSZ) (xsz ncp) (chunk ncp))"
      "12 < ext" "ext mod 4 = 0"
    and room: "2 * length (enc_NC ncp) + ext + 8 \<le> length (bytes s)" and lim: "length (enc_NC ncp) + ext + 8 \<le> limit"
  shows "\<exists>s'. ncx_put_NC io ncp s None off n = Done (NC_NOERR, s') \<and> ok s' \<and> bytes s' = blit (bytes s) 0 (enc_NC ncp)"
proof -
  let ?ver = "version_of (flags ncp)"
  define e where "e = 8 + length (enc_NC ncp) + ext"
  have e: "ext \<le> e" "e \<le> length (bytes s)" "0 < ext" "8 + length (enc_NC ncp) \<le> e" "e \<le> limit" using room lim ext(2) by (simp_all add: e_def)
  have flg: "RGN_WRITE = (if True then RGN_WRITE else 0)" by simp
  from fault_first [OF s e(3) ext(3) e(1,2,5) flg order_refl, of ?ver] obtain g0 where
    g0: "fault_v1hs io ext \<lparr>gs_io = s, gs_offset = 0, gs_extent = ext, gs_flags = RGN_WRITE, gs_version = ?ver, gs_base = None, gs_pos = 0\<rparr> =
      Done (Inr ((), g0))" "hinv True e ?ver g0" "content g0 = bytes s" "hpos g0 = 0" "gs_extent g0 = ext" "gs_pos g0 = 0" by auto
  have "hpos g0 + length (enc_NC ncp) + e \<le> length (content g0)" using room g0 by (simp add: e_def)
  from put_hdr_ok [OF ok refl g0(2,6) _ e(4) this] ext(2) obtain g1 where
    g1: "put_hdr io ncp g0 = Done (Inr ((), g1))" "hinv True e ?ver g1" "content g1 = blit (bytes s) 0 (enc_NC ncp)"
    using g0 by auto
  from rel_content [OF g1(2)] obtain g2 where g2: "rel_v1hs io g1 = Done (NC_NOERR, g2)" "ok (gs_io g2)" "bytes (gs_io g2) = content g1"
    by blast
  from g0(1) g1(1) g2 ext(1) have "ncx_put_NC io ncp s None off n = Done (NC_NOERR, gs_io g2)"
    by (simp add: ncx_put_NC_def Let_def)
  with g2 g1(3) show ?thesis by auto
qed

lemma take_split: "take (length (xs @ ys)) zs = xs @ ys \<Longrightarrow> take (length xs) zs = xs \<and> take (length ys) (drop (length xs) zs) = ys"
proof -
  assume a: "take (length (xs @ ys)) zs = xs @ ys"
  then have "zs = (xs @ ys) @ drop (length (xs @ ys)) zs" by (metis append_take_drop_id)
  then obtain ws where "zs = xs @ ys @ ws" by auto
  then show ?thesis by simp
qed

text \<open>Reading a header back, from a stream that has its first buffer but no version yet.\<close>

lemma get_magic_ok:
  assumes inv: "hinv False e 0 gs" and v: "ver \<in> {1, 2, 5}" and pos: "gs_pos gs + 4 \<le> gs_extent gs"
    and at: "take 4 (drop (hpos gs) (content gs)) = magic ver"
  shows "\<exists>gs'. get_magic gs = Done (Inr (ver, gs')) \<and> hinv False e ver gs' \<and> content gs' = content gs \<and>
    hpos gs' = hpos gs + 4 \<and> gs_pos gs' = gs_pos gs + 4 \<and> gs_extent gs' = gs_extent gs"
proof -
  from get_bytes_ok [OF inv pos] at obtain g1 where g1: "get_bytes 4 gs = Done (Inr (magic ver, g1))" "hinv False e 0 g1"
      "content g1 = content gs" "hpos g1 = hpos gs + 4" "gs_pos g1 = gs_pos gs + 4" "gs_extent g1 = gs_extent gs" by auto
  have "(of_char (magic ver ! 3) :: nat) = ver" "take 3 (magic ver) = [CHR 0x43, CHR 0x44, CHR 0x46]"
    using v by (auto simp: magic_def numeral_3_eq_3 numeral_2_eq_2)
  then have "get_magic gs = Done (Inr (ver, g1\<lparr>gs_version := ver\<rparr>))"
    using g1(1) v by (auto simp: get_magic_def hm_bind_def Let_def)
  then show ?thesis using g1 by (intro exI [of _ "g1\<lparr>gs_version := ver\<rparr>"]) (auto simp: hinv_def content_def hpos_def)
qed

lemma get_nrecs_ok:
  assumes inv: "hinv False e ver gs" and n: "size_ok ver n" and pos: "gs_pos gs + size_bytes ver \<le> gs_extent gs"
    and at: "take (size_bytes ver) (drop (hpos gs) (content gs)) = enc_size ver n"
  shows "\<exists>gs'. (if ver = 5 then ncx_get_uint64 else ncx_get_uint32) gs = Done (Inr (n, gs')) \<and> hinv False e ver gs' \<and>
    content gs' = content gs \<and> hpos gs' = hpos gs + size_bytes ver \<and> gs_pos gs' = gs_pos gs + size_bytes ver \<and>
    gs_extent gs' = gs_extent gs"
proof -
  from get_bytes_ok [OF inv pos] at obtain g1 where g1: "get_bytes (size_bytes ver) gs = Done (Inr (enc_size ver n, g1))"
      "hinv False e ver g1" "content g1 = content gs" "hpos g1 = hpos gs + size_bytes ver"
      "gs_pos g1 = gs_pos gs + size_bytes ver" "gs_extent g1 = gs_extent gs" by auto
  have "unbe (enc_size ver n) = n" using n by (auto simp: enc_size_def unbe_be size_bytes_def size_ok_def size_max_def)
  then have "(if ver = 5 then ncx_get_uint64 else ncx_get_uint32) gs = Done (Inr (n, g1))"
    using g1(1) by (auto simp: ncx_get_uint64_def ncx_get_uint32_def hm_bind_def hm_return_def size_bytes_def split: if_splits)
  with g1 show ?thesis by blast
qed

lemma get_arrays_ok:
  assumes env: "env_ok E" and ver: "ver \<in> {1, 2, 5}" and inv: "hinv False e 0 gs" and pos: "gs_pos gs = 0" "12 < gs_extent gs"
    and okD: "size_ok ver nrecs" "dims_ok ver ds" "attrs_ok ver as" "vars_ok ver vs"
    and e: "8 + length (enc_hdr ver nrecs ds as vs) \<le> e"
    and room: "hpos gs + length (enc_hdr ver nrecs ds as vs) + e \<le> length (content gs)"
    and at: "take (length (enc_hdr ver nrecs ds as vs)) (drop (hpos gs) (content gs)) = enc_hdr ver nrecs ds as vs"
  shows "\<exists>da va gs'. get_arrays E io gs = Done (Inr ((ver, nrecs, da, read_attrs as, va), gs')) \<and>
    dims_value da = ds \<and> index_ok E (dims_hashmap da) (dim_names ds) \<and>
    vars_value va = map (read_var ver) vs \<and> index_ok E (vars_hashmap va) (var_names vs) \<and>
    hinv False e ver gs' \<and> content gs' = content gs"
proof -
  let ?n = "enc_size ver nrecs"
  let ?rest = "enc_list ver NC_DIMENSION (enc_dim ver) ds @ enc_list ver NC_ATTRIBUTE (enc_attr ver) as @
     enc_list ver NC_VARIABLE (enc_var ver) vs"
  let ?c = "drop (hpos gs) (content gs)"
  have m: "length (magic ver) = 4" by (simp add: magic_def)
  have enc: "enc_hdr ver nrecs ds as vs = magic ver @ ?n @ ?rest" by (simp add: enc_hdr_def)
  have at': "take (length (magic ver @ ?n @ ?rest)) ?c = magic ver @ ?n @ ?rest" using at unfolding enc .
  from take_split [OF at'] m have a1: "take 4 ?c = magic ver" and a23: "take (length (?n @ ?rest)) (drop 4 ?c) = ?n @ ?rest" by simp_all
  from take_split [OF a23] have a2: "take (size_bytes ver) (drop 4 ?c) = ?n"
    and a3: "take (length ?rest) (drop (4 + size_bytes ver) ?c) = ?rest" by (simp_all add: drop_drop add.commute add.left_commute)
  have sb: "size_bytes ver \<le> 8" by (simp add: size_bytes_def)
  have "gs_pos gs + 4 \<le> gs_extent gs" using pos by simp
  from get_magic_ok [OF inv ver this a1] obtain g1 where g1: "get_magic gs = Done (Inr (ver, g1))" "hinv False e ver g1"
      "content g1 = content gs" "hpos g1 = hpos gs + 4" "gs_pos g1 = 4" "gs_extent g1 = gs_extent gs" using pos by auto
  have "gs_pos g1 + size_bytes ver \<le> gs_extent g1" "take (size_bytes ver) (drop (hpos g1) (content g1)) = ?n"
    using pos sb g1(3-6) a2 by (simp_all add: drop_drop add.commute)
  from get_nrecs_ok [OF g1(2) okD(1) this] obtain g2 where
    g2: "(if ver = 5 then ncx_get_uint64 else ncx_get_uint32) g1 = Done (Inr (nrecs, g2))" "hinv False e ver g2"
      "content g2 = content gs" "hpos g2 = hpos gs + 4 + size_bytes ver" "gs_pos g2 = 4 + size_bytes ver" "gs_extent g2 = gs_extent gs"
    using g1 by auto
  let ?q = "\<lambda>r. \<exists>da va. r = (ver, nrecs, da, read_attrs as, va) \<and> dims_value da = ds \<and> index_ok E (dims_hashmap da) (dim_names ds) \<and>
    vars_value va = map (read_var ver) vs \<and> index_ok E (vars_hashmap va) (var_names vs)"
  let ?m = "hm_bind (v1h_get_NC_dimarray E io) (\<lambda>da. hm_bind (v1h_get_NC_attrarray E io) (\<lambda>aa.
        hm_bind (v1h_get_NC_vararray E io) (\<lambda>va. hm_return (ver, nrecs, da, aa, va))))"
  have spec: "get_spec e ver ?m ?rest ?q"
  proof (rule get_bind [OF get_dimarray [OF env okD(2)]])
    show "8 + length (enc_list ver 10 (enc_dim ver) ds) \<le> e" using e by (simp add: enc)
    fix da assume da: "dims_value da = ds \<and> dims_nalloc da = length ds \<and> index_ok E (dims_hashmap da) (dim_names ds)"
    have ea: "8 + length (enc_list ver 12 (enc_attr ver) as) \<le> e" "8 + length (enc_list ver 11 (enc_var ver) vs) \<le> e"
      using e by (simp_all add: enc)
    show "get_spec e ver (hm_bind (v1h_get_NC_attrarray E io) (\<lambda>aa. hm_bind (v1h_get_NC_vararray E io) (\<lambda>va. hm_return (ver, nrecs, da, aa, va))))
       (enc_list ver 12 (enc_attr ver) as @ enc_list ver 11 (enc_var ver) vs) ?q"
      using da by (intro get_bind_eq [OF get_attrarray [OF env okD(3) ea(1)]] get_bind_end [OF get_vararray [OF env okD(4) ea(2)]] get_return) blast
  qed
  have r2: "hpos g2 + length ?rest + e \<le> length (content g2)" using room g2(3,4) unfolding enc by (simp add: m)
  have dq: "drop (hpos g2) (content g2) = drop (4 + size_bytes ver) ?c"
    unfolding g2(3,4) drop_drop by (rule arg_cong [where f = "\<lambda>n. drop n (content gs)"]) simp
  have a4: "take (length ?rest) (drop (hpos g2) (content g2)) = ?rest" unfolding dq by (rule a3)
  obtain r g3 where g3: "?m g2 = Done (Inr (r, g3))" "?q r" "hinv False e ver g3" "content g3 = content g2"
    by (rule get_specD [OF spec g2(2) r2 a4]) (rule that)
  have "gs_pos g2 < gs_extent g2" using g2(5,6) pos sb by simp
  with g1(1) g2(1) have "get_arrays E io gs = ?m g2"
    by (simp add: get_arrays_def hm_bind_def hm_then_def)
  with g3 g2(3) show ?thesis by auto
qed

text \<open>What \<open>nc_get_NC\<close> does on a file that begins with a written header: everything up to \<open>finish_get\<close> succeeds.\<close>

lemma nc_get_NC_reads:
  assumes env: "env_ok E" and ver: "ver \<in> {1, 2, 5}" and s: "ok s"
    and okD: "size_ok ver nrecs" "dims_ok ver ds" "attrs_ok ver as" "vars_ok ver vs"
    and fs: "io_filesize io s = (NC_NOERR, filesize)" and small: "xsz ncp \<le> mn" "4 \<le> filesize" "filesize < 18446744073709551616"
    and mn: "mn = (if fIsSet (flags ncp) NC_64BIT_DATA then MIN_NC5_XSZ else MIN_NC3_XSZ)"
    and ext: "ext = nat (min filesize (min (chunk ncp) 4096))" "12 < ext" "ext mod 4 = 0"
    and room: "2 * length (enc_hdr ver nrecs ds as vs) + ext + 8 \<le> length (bytes s)" and lim: "length (enc_hdr ver nrecs ds as vs) + ext + 8 \<le> limit"
    and at: "take (length (enc_hdr ver nrecs ds as vs)) (bytes s) = enc_hdr ver nrecs ds as vs"
  shows "\<exists>da va s'. ok s' \<and> bytes s' = bytes s \<and> dims_value da = ds \<and> index_ok E (dims_hashmap da) (dim_names ds) \<and>
    vars_value va = map (read_var ver) vs \<and> index_ok E (vars_hashmap va) (var_names vs) \<and>
    nc_get_NC E io ncp s = run_bind (finish_get ver (ncp\<lparr>flags := version_flag ver (flags ncp), numrecs := nrecs, dims := da,
      attrs := read_attrs as, vars := va\<rparr>)) (\<lambda>(status, ncp1). Done (status, ncp1, s'))"
proof -
  let ?h = "enc_hdr ver nrecs ds as vs"
  define e where "e = 8 + length ?h + ext"
  have e: "ext \<le> e" "0 < ext" "8 + length ?h \<le> e" using ext(2) by (simp_all add: e_def)
  obtain s1 where s1: "io_sync io s = Done (NC_NOERR, s1)" "ok s1" "bytes s1 = bytes s" using sync_law [OF s] by blast
  have el: "e \<le> length (bytes s1)" "e \<le> limit" using room lim s1(3) by (simp_all add: e_def)
  have flg: "(0::int) = (if False then RGN_WRITE else 0)" by simp
  from fault_first [OF s1(2) e(2) ext(3) e(1) el flg, of 0 0] obtain g0 where
    g0: "fault_v1hs io ext \<lparr>gs_io = s1, gs_offset = 0, gs_extent = 0, gs_flags = 0, gs_version = 0, gs_base = None, gs_pos = 0\<rparr> =
      Done (Inr ((), g0))" "hinv False e 0 g0" "content g0 = bytes s" "hpos g0 = 0" "gs_extent g0 = ext" "gs_pos g0 = 0"
    using s1(3) by auto
  have "12 < gs_extent g0" "hpos g0 + length ?h + e \<le> length (content g0)" "take (length ?h) (drop (hpos g0) (content g0)) = ?h"
    using ext(2) room at g0 by (simp_all add: e_def)
  from get_arrays_ok [OF env ver g0(2,6) this(1) okD e(3) this(2,3)] obtain da va g1 where
    g1: "get_arrays E io g0 = Done (Inr ((ver, nrecs, da, read_attrs as, va), g1))"
      "dims_value da = ds" "index_ok E (dims_hashmap da) (dim_names ds)" "vars_value va = map (read_var ver) vs"
      "index_ok E (vars_hashmap va) (var_names vs)" "hinv False e ver g1" "content g1 = content g0" by blast
  from rel_content [OF g1(6)] obtain g2 where g2: "rel_v1hs io g1 = Done (NC_NOERR, g2)" "ok (gs_io g2)" "bytes (gs_io g2) = content g1"
    by blast
  have u: "u64 filesize = filesize" using small by (simp add: u64_id)
  have x: "nat (if filesize < first_extent mn (xsz ncp) (chunk ncp) then filesize else first_extent mn (xsz ncp) (chunk ncp)) = ext"
    using small(1) unfolding ext(1) first_extent_def by (simp add: min_def)
  have "nc_get_NC E io ncp s = run_bind (finish_get ver (ncp\<lparr>flags := version_flag ver (flags ncp), numrecs := nrecs, dims := da,
      attrs := read_attrs as, vars := va\<rparr>)) (\<lambda>(status, ncp1). Done (status, ncp1, gs_io g2))"
    unfolding nc_get_NC_def mn [symmetric] Let_def fs split_def fst_conv snd_conv u using small(1,2) s1(1) g0(1) g1(1) g2(1)
    by (simp only: x simp_thms if_True if_False refl) (simp add: x split_def)
  with g1 g2 g0(3) show ?thesis by auto
qed

end

end
