(* ===== verification/NC3_Memio.thy ===== *)
theory NC3_Memio
  imports NC3_File
begin

text \<open>
  \<open>libsrc/memio.c\<close>, the ncio driver that keeps the file in memory (NC_DISKLESS and
  NC_INMEMORY). The page size and the outcome of \<open>malloc\<close> (the bytes of the new block, if any)
  are arguments. The block at \<open>memory\<close> is a list of \<open>alloc\<close> bytes. The driver's operations make
  an \<open>ncio\<close> table, \<open>memio_io\<close>, that keeps the laws the header code relies on. Opening, closing
  and the copy from or to a disk file are outside.
\<close>

record NCMEMIO =
  mio_ioflags :: int
  mio_locked :: int
  mio_modified :: int
  mio_persist :: bool
  mio_memory :: "string option"
  mio_alloc :: int
  mio_size :: int
  mio_diskless :: bool
  mio_inmemory :: bool

abbreviation (input) "NC_DISKLESS \<equiv> (8::int)"
abbreviation (input) "NC_INMEMORY \<equiv> (32768::int)"
abbreviation (input) "NC_PERSIST \<equiv> (16384::int)"

text \<open>
  The rounding of a size to a multiple of the page size. \<open>memio_new\<close> rounds 0 up to a page,
  sets \<open>pos\<close> to 0 and \<open>memory\<close> to NULL; its allocations are taken to succeed.
\<close>

definition page_round :: "int \<Rightarrow> int \<Rightarrow> int" where
  "page_round pagesize n = (if n mod pagesize \<noteq> 0 then u64 (n + (pagesize - n mod pagesize)) else n)"

definition memio_new :: "int \<Rightarrow> int \<Rightarrow> int \<Rightarrow> NCMEMIO run" where
  "memio_new pagesize ioflags0 initialsize = (let ioflags = (if fIsSet ioflags0 NC_DISKLESS then fSet ioflags0 NC_INMEMORY else ioflags0) in
     assert_run (fIsSet ioflags NC_INMEMORY) (Done \<lparr>mio_ioflags = ioflags, mio_locked = 0, mio_modified = 0,
       mio_persist = fIsSet ioflags NC_PERSIST, mio_memory = None,
       mio_alloc = page_round pagesize (if initialsize = 0 then pagesize else initialsize), mio_size = initialsize,
       mio_diskless = fIsSet ioflags NC_DISKLESS, mio_inmemory = True\<rparr>))"

definition memio_filesize :: "NCMEMIO \<Rightarrow> int \<times> int" where
  "memio_filesize mio = (NC_NOERR, mio_size mio)"

text \<open>
  \<open>memio_pad_length\<close>. When the block must grow, \<open>realloc\<close> has given the old block away (or
  returned it), and \<open>free(memio->memory)\<close> after it frees that block: a fault. Only a driver whose
  memory was extracted (NULL) gets a fresh block, with its upper part zeroed.
\<close>

definition memio_pad_length :: "int \<Rightarrow> (int \<Rightarrow> string option) \<Rightarrow> NCMEMIO \<Rightarrow> int \<Rightarrow> (int \<times> NCMEMIO) run" where
  "memio_pad_length pagesize malloc mio len0 = (let len = u64 len0 in
     if \<not> fIsSet (mio_ioflags mio) NC_WRITE then Done (EPERM, mio)
     else if mio_locked mio \<noteq> 0 then Done (NC_EINMEMORY, mio)
     else if mio_alloc mio < len then (let newsize = page_round pagesize len in
       case malloc newsize of None \<Rightarrow> Done (NC_ENOMEM, mio)
       | Some newmem \<Rightarrow> if mio_memory mio \<noteq> None \<or> newsize < mio_alloc mio then Fault
           else Done (NC_NOERR, mio\<lparr>mio_memory := Some (take (nat (mio_alloc mio)) newmem @ replicate (nat (newsize - mio_alloc mio)) NULB),
             mio_alloc := newsize, mio_modified := 1, mio_size := len\<rparr>))
     else Done (NC_NOERR, mio\<lparr>mio_size := len\<rparr>))"

definition guarantee :: "int \<Rightarrow> (int \<Rightarrow> string option) \<Rightarrow> NCMEMIO \<Rightarrow> int \<Rightarrow> (int \<times> NCMEMIO) run" where
  "guarantee pagesize malloc mio endpoint0 = (let endpoint = u64 endpoint0 in
     run_bind (if mio_alloc mio < endpoint then memio_pad_length pagesize malloc mio endpoint else Done (NC_NOERR, mio)) (\<lambda>(status, mio1).
       if status \<noteq> NC_NOERR then Done (status, mio1)
       else Done (NC_NOERR, if mio_size mio1 < endpoint then mio1\<lparr>mio_size := endpoint\<rparr> else mio1)))"

text \<open>
  The region handed out is a copy of its contents, and \<open>memio_rel\<close> puts a modified region back:
  in C both share the block. A pointer outside of the block is a fault.
\<close>

definition mio_region :: "NCMEMIO \<Rightarrow> int \<Rightarrow> nat \<Rightarrow> string run" where
  "mio_region mio off n = (case mio_memory mio of None \<Rightarrow> Fault
     | Some m \<Rightarrow> if 0 \<le> off \<and> nat off + n \<le> length m then Done (take n (drop (nat off) m)) else Fault)"

definition memio_get :: "int \<Rightarrow> (int \<Rightarrow> string option) \<Rightarrow> NCMEMIO \<Rightarrow> int \<Rightarrow> nat \<Rightarrow> int \<Rightarrow> (int \<times> string \<times> NCMEMIO) run" where
  "memio_get pagesize malloc mio off extent rflags = run_bind (guarantee pagesize malloc mio (s64 (off + int extent))) (\<lambda>(status, mio1).
     let mio2 = mio1\<lparr>mio_locked := mio_locked mio1 + 1\<rparr> in
     if status \<noteq> NC_NOERR then Done (status, [], mio2)
     else run_bind (mio_region mio2 off extent) (\<lambda>buf. Done (NC_NOERR, buf, mio2)))"

definition mio_store :: "NCMEMIO \<Rightarrow> int \<Rightarrow> string \<Rightarrow> NCMEMIO run" where
  "mio_store mio off buf = (case mio_memory mio of None \<Rightarrow> Fault
     | Some m \<Rightarrow> if 0 \<le> off \<and> nat off + length buf \<le> length m then Done (mio\<lparr>mio_memory := Some (blit m (nat off) buf)\<rparr>) else Fault)"

definition memio_rel :: "NCMEMIO \<Rightarrow> int \<Rightarrow> string \<Rightarrow> int \<Rightarrow> (int \<times> NCMEMIO) run" where
  "memio_rel mio off buf rflags = run_bind (if rflags = RGN_MODIFIED then mio_store mio off buf else Done mio) (\<lambda>mio1.
     Done (NC_NOERR, mio1\<lparr>mio_locked := mio_locked mio1 - 1\<rparr>))"

text \<open>\<open>memio_move\<close>: overlapping or not, the destination gets what the source held before.\<close>

definition memio_move :: "int \<Rightarrow> (int \<Rightarrow> string option) \<Rightarrow> NCMEMIO \<Rightarrow> int \<Rightarrow> int \<Rightarrow> nat \<Rightarrow> int \<Rightarrow> (int \<times> NCMEMIO) run" where
  "memio_move pagesize malloc mio to from_off nbytes ignored = run_bind
     (if from_off < to then guarantee pagesize malloc mio (s64 (to + int nbytes)) else Done (NC_NOERR, mio)) (\<lambda>(status, mio1).
       if status \<noteq> NC_NOERR then Done (status, mio1)
       else run_bind (mio_region mio1 from_off nbytes) (\<lambda>buf. run_bind (mio_store mio1 to buf) (\<lambda>mio2. Done (NC_NOERR, mio2))))"

definition memio_sync :: "NCMEMIO \<Rightarrow> (int \<times> NCMEMIO) run" where
  "memio_sync mio = Done (NC_NOERR, mio)"

text \<open>\<open>memio_extract\<close> with both pointers given: the size, the memory, and the driver without it.\<close>

definition memio_extract :: "NCMEMIO \<Rightarrow> int \<times> string option \<times> NCMEMIO" where
  "memio_extract mio = (mio_size mio, mio_memory mio, mio\<lparr>mio_memory := None\<rparr>)"

text \<open>\<open>memio_create\<close>, without the check of the disk file and the initial get.\<close>

definition memio_create :: "int \<Rightarrow> (int \<Rightarrow> string option) \<Rightarrow> int \<Rightarrow> int \<Rightarrow> (int + NCMEMIO) run" where
  "memio_create pagesize malloc ioflags0 initialsz = run_bind (memio_new pagesize ioflags0 initialsz) (\<lambda>mio.
     case malloc (mio_alloc mio) of None \<Rightarrow> Done (Inl NC_ENOMEM)
     | Some m \<Rightarrow> Done (Inr (mio\<lparr>mio_memory := Some m, mio_locked := 0, mio_ioflags := fSet (mio_ioflags mio) NC_WRITE\<rparr>)))"

definition memio_io :: "int \<Rightarrow> (int \<Rightarrow> string option) \<Rightarrow> NCMEMIO ncio" where
  "memio_io pagesize malloc = \<lparr>io_get = memio_get pagesize malloc, io_rel = memio_rel, io_move = memio_move pagesize malloc,
     io_sync = memio_sync, io_filesize = memio_filesize, io_pad_length = memio_pad_length pagesize malloc\<rparr>"

subsection \<open>The driver keeps the contract\<close>

definition mio_bytes :: "NCMEMIO \<Rightarrow> string" where
  "mio_bytes mio = (case mio_memory mio of None \<Rightarrow> [] | Some m \<Rightarrow> m)"

definition mio_ok :: "NCMEMIO \<Rightarrow> bool" where
  "mio_ok mio \<longleftrightarrow> mio_memory mio \<noteq> None \<and> int (length (mio_bytes mio)) = mio_alloc mio \<and> mio_alloc mio \<le> X_INT64_MAX \<and>
     0 \<le> mio_size mio \<and> mio_size mio \<le> mio_alloc mio"

lemma guarantee_inside:
  assumes "mio_ok mio" "0 \<le> off" "nat off + n \<le> length (mio_bytes mio)"
  shows "\<exists>z. guarantee ps ml mio (s64 (off + int n)) = Done (NC_NOERR, mio\<lparr>mio_size := z\<rparr>) \<and> 0 \<le> z \<and> z \<le> mio_alloc mio \<and>
    z = max (mio_size mio) (off + int n)"
proof -
  have "off + int n \<le> mio_alloc mio" "mio_alloc mio \<le> X_INT64_MAX" using assms by (auto simp: mio_ok_def)
  then have "u64 (s64 (off + int n)) = off + int n" using assms(2) by (simp add: s64_id u64_id)
  with assms show ?thesis by (auto simp: guarantee_def Let_def mio_ok_def)
qed

lemma mio_bytes_update [simp]:
  "mio_bytes (mio\<lparr>mio_size := z\<rparr>) = mio_bytes mio" "mio_bytes (mio\<lparr>mio_locked := l\<rparr>) = mio_bytes mio"
  "mio_bytes (mio\<lparr>mio_memory := Some m\<rparr>) = m"
  by (simp_all add: mio_bytes_def)

lemma mio_region_inside:
  "mio_ok mio \<Longrightarrow> 0 \<le> off \<Longrightarrow> nat off + n \<le> length (mio_bytes mio) \<Longrightarrow> mio_region mio off n = Done (take n (drop (nat off) (mio_bytes mio)))"
  by (auto simp: mio_region_def mio_ok_def mio_bytes_def)

lemma mio_store_inside:
  "mio_ok mio \<Longrightarrow> 0 \<le> off \<Longrightarrow> nat off + length buf \<le> length (mio_bytes mio) \<Longrightarrow>
    mio_store mio off buf = Done (mio\<lparr>mio_memory := Some (blit (mio_bytes mio) (nat off) buf)\<rparr>)"
  by (auto simp: mio_store_def mio_ok_def mio_bytes_def)

lemma memio_move_inside:
  assumes "mio_ok s" "0 \<le> to" "0 \<le> from_off" "nat to + n \<le> length (mio_bytes s)" "nat from_off + n \<le> length (mio_bytes s)"
  shows "\<exists>s'. memio_move ps ml s to from_off n flg = Done (NC_NOERR, s') \<and> mio_ok s' \<and>
    mio_bytes s' = blit (mio_bytes s) (nat to) (take n (drop (nat from_off) (mio_bytes s)))"
proof -
  obtain s1 where s1: "(if from_off < to then guarantee ps ml s (s64 (to + int n)) else Done (NC_NOERR, s)) = Done (NC_NOERR, s1)"
      "mio_ok s1" "mio_bytes s1 = mio_bytes s"
  proof (cases "from_off < to")
    case True
    from guarantee_inside [OF assms(1,2,4), of ps ml] obtain z where
      z: "guarantee ps ml s (s64 (to + int n)) = Done (NC_NOERR, s\<lparr>mio_size := z\<rparr>)" "0 \<le> z" "z \<le> mio_alloc s" by blast
    have "mio_ok (s\<lparr>mio_size := z\<rparr>)" using assms(1) z(2,3) by (simp add: mio_ok_def)
    then show ?thesis using that [of "s\<lparr>mio_size := z\<rparr>"] True z(1) by simp
  next
    case False
    then show ?thesis using that [of s] assms(1) by simp
  qed
  have r: "mio_region s1 from_off n = Done (take n (drop (nat from_off) (mio_bytes s)))"
    using mio_region_inside [OF s1(2) assms(3)] assms(5) s1(3) by simp
  have w: "mio_store s1 to (take n (drop (nat from_off) (mio_bytes s))) =
      Done (s1\<lparr>mio_memory := Some (blit (mio_bytes s) (nat to) (take n (drop (nat from_off) (mio_bytes s))))\<rparr>)"
    using mio_store_inside [OF s1(2) assms(2)] assms(4,5) s1(3) by simp
  have "mio_ok (s1\<lparr>mio_memory := Some (blit (mio_bytes s) (nat to) (take n (drop (nat from_off) (mio_bytes s))))\<rparr>)"
    using s1(2,3) assms(4,5) by (simp add: mio_ok_def)
  with s1(1) r w show ?thesis by (simp add: memio_move_def)
qed

text \<open>While a region is out, other regions may be asked for and given back all the same.\<close>

definition mio_held :: "NCMEMIO \<Rightarrow> int \<Rightarrow> nat \<Rightarrow> int \<Rightarrow> bool" where
  "mio_held mio off n rflags \<longleftrightarrow> mio_ok mio \<and> 0 \<le> off \<and> nat off + n \<le> length (mio_bytes mio)"

interpretation mio: ncio_store "memio_io pagesize malloc" mio_ok mio_bytes mio_held limit for pagesize malloc limit
proof
  fix s off n flg assume a: "mio_ok s" "0 \<le> off" "nat off + n \<le> length (mio_bytes s)"
  obtain z where z: "guarantee pagesize malloc s (s64 (off + int n)) = Done (NC_NOERR, s\<lparr>mio_size := z\<rparr>)" "0 \<le> z" "z \<le> mio_alloc s"
    using guarantee_inside [OF a] by blast
  let ?s = "s\<lparr>mio_size := z, mio_locked := mio_locked s + 1\<rparr>"
  have ok: "mio_ok ?s" using a(1) z(2,3) by (simp add: mio_ok_def)
  have "mio_region ?s off n = Done (take n (drop (nat off) (mio_bytes s)))"
    using mio_region_inside [OF ok a(2)] a(3) by simp
  then show "\<exists>s'. io_get (memio_io pagesize malloc) s off n flg = Done (NC_NOERR, take n (drop (nat off) (mio_bytes s)), s') \<and>
      mio_held s' off n flg \<and> mio_bytes s' = mio_bytes s"
    using z(1) ok a(2,3) by (intro exI [of _ ?s]) (simp add: memio_io_def memio_get_def mio_held_def)
next
  fix s off flg' flg and buf :: string
  assume h: "mio_held s off (length buf) flg'" and f: "flg = 0 \<and> buf = take (length buf) (drop (nat off) (mio_bytes s)) \<or> flg = RGN_MODIFIED \<and> flg' = RGN_WRITE"
  have a: "mio_ok s" "0 \<le> off" "nat off + length buf \<le> length (mio_bytes s)"
    "flg = 0 \<and> buf = take (length buf) (drop (nat off) (mio_bytes s)) \<or> flg = RGN_MODIFIED" using h f by (auto simp: mio_held_def)
  show "\<exists>s'. io_rel (memio_io pagesize malloc) s off buf flg = Done (NC_NOERR, s') \<and> mio_ok s' \<and>
      mio_bytes s' = blit (mio_bytes s) (nat off) buf"
  proof (cases "flg = RGN_MODIFIED")
    case True
    with mio_store_inside [OF a(1-3)] a(1,3) show ?thesis
      by (simp add: memio_io_def memio_rel_def mio_ok_def mio_bytes_def)
  next
    case False
    with a(3,4) have "blit (mio_bytes s) (nat off) buf = mio_bytes s" by (metis blit_same)
    with False a(1) show ?thesis by (simp add: memio_io_def memio_rel_def mio_ok_def)
  qed
next
  fix s assume "mio_ok s"
  then show "\<exists>s'. io_sync (memio_io pagesize malloc) s = Done (NC_NOERR, s') \<and> mio_ok s' \<and> mio_bytes s' = mio_bytes s"
    by (simp add: memio_io_def memio_sync_def)
next
  fix s to from_off n flg
  assume "mio_ok s" "0 \<le> to" "0 \<le> from_off" "nat to + n \<le> length (mio_bytes s)" "nat from_off + n \<le> length (mio_bytes s)"
  from memio_move_inside [OF this, of pagesize malloc flg]
  show "\<exists>s'. io_move (memio_io pagesize malloc) s to from_off n flg = Done (NC_NOERR, s') \<and> mio_ok s' \<and>
      mio_bytes s' = blit (mio_bytes s) (nat to) (take n (drop (nat from_off) (mio_bytes s)))"
    by (simp add: memio_io_def)
qed

text \<open>
  a region that ends behind the block cannot be got: a driver opened for reading, one with a
  region still out, or one whose \<open>realloc\<close> fails reports an error, and counts the region as out
  all the same; one that could grow frees its block after \<open>realloc\<close> has taken it.
\<close>

theorem memio_get_beyond:
  assumes "mio_ok mio" "0 \<le> off" "mio_alloc mio < off + int n" "off + int n \<le> X_INT64_MAX"
  shows "memio_get pagesize malloc mio off n flg =
    (if \<not> fIsSet (mio_ioflags mio) NC_WRITE then Done (EPERM, [], mio\<lparr>mio_locked := mio_locked mio + 1\<rparr>)
     else if mio_locked mio \<noteq> 0 then Done (NC_EINMEMORY, [], mio\<lparr>mio_locked := mio_locked mio + 1\<rparr>)
     else if malloc (page_round pagesize (off + int n)) = None then Done (NC_ENOMEM, [], mio\<lparr>mio_locked := mio_locked mio + 1\<rparr>)
     else Fault)"
proof -
  have "u64 (s64 (off + int n)) = off + int n" "u64 (off + int n) = off + int n" using assms(2,4) by (simp_all add: s64_id u64_id)
  with assms show ?thesis
    by (auto simp: memio_get_def guarantee_def memio_pad_length_def Let_def mio_ok_def split: option.splits)
qed

subsection \<open>Reading back what was written\<close>

text \<open>
  What a variable is after it was read and its shape computed: as it was, but for the values of
  its attributes (padded with NULs) and the fill mode, which is not in the file.
\<close>

definition reread :: "NC_var \<Rightarrow> NC_var" where
  "reread v = v\<lparr>var_attrs := read_attrs (atts_value (var_attrs v)), var_no_fill := False\<rparr>"

lemma reread_eq: "reread v = \<lparr>var_xsz = var_xsz v, var_shape = var_shape v, var_dsizes = var_dsizes v, var_name = var_name v,
    var_ndims = var_ndims v, var_dimids = var_dimids v, var_attrs = read_attrs (atts_value (var_attrs v)), var_type = var_type v,
    var_len = var_len v, var_begin = var_begin v, var_no_fill = False\<rparr>"
  by (cases v) (simp add: reread_def)

lemma reread_sel [simp]: "var_shape (reread v) = var_shape v" "var_begin (reread v) = var_begin v" "var_len (reread v) = var_len v"
  "var_dsizes (reread v) = var_dsizes v" "var_xsz (reread v) = var_xsz v" "var_ndims (reread v) = var_ndims v"
  by (simp_all add: reread_def)

lemma var_shape_loop_cong: "dims_value da' = dims_value da \<Longrightarrow> var_shape_loop da' first ids = var_shape_loop da first ids"
  by (induction da first ids rule: var_shape_loop.induct) (simp_all add: elem_NC_dimarray_def)

lemma var_shape_loop_length: "var_shape_loop da first ids = (NC_NOERR, shp) \<Longrightarrow> length shp = length ids"
  by (induction da first ids arbitrary: shp rule: var_shape_loop.induct)
    (auto split: if_splits option.splits prod.splits simp: Let_def)

lemma NC_var_shape_read:
  assumes v: "NC_var_shape v da = Done (NC_NOERR, v)" "length (var_dimids v) = var_ndims v"
      "length (var_shape v) = var_ndims v" "length (var_dsizes v) = var_ndims v"
    and da: "dims_value da' = dims_value da"
  shows "NC_var_shape (read_var ver v) da' = Done (NC_NOERR, reread v)"
proof -
  obtain sz where sz: "ncx_szof (var_type v) = Done sz" using v(1) by (cases "ncx_szof (var_type v)") (simp_all add: NC_var_shape_def)
  show ?thesis
  proof (cases "var_ndims v = 0")
    case True
    then have eq: "v\<lparr>var_xsz := sz, var_len := var_len_of 1 sz\<rparr> = v" using v(1) sz by (simp add: NC_var_shape_def)
    have "var_xsz v = sz" "var_len v = var_len_of 1 sz"
      using arg_cong [OF eq, of var_xsz] arg_cong [OF eq, of var_len] by simp_all
    with True v sz show ?thesis by (simp add: NC_var_shape_def read_var_def reread_eq)
  next
    case False
    then have nd: "var_dimids v \<noteq> []" using v(2) by auto
    obtain st shp where l: "var_shape_loop da True (var_dimids v) = (st, shp)" by fastforce
    let ?v2 = "v\<lparr>var_xsz := sz, var_shape := shp @ drop (length shp) (var_shape v)\<rparr>"
    have st: "st = NC_NOERR" using v(1) sz False nd v(3,4) l by (auto simp: NC_var_shape_def Let_def split: if_splits)
    have len: "length shp = var_ndims v" using var_shape_loop_length l st v(2) by simp
    obtain p ds where d: "dsizes_loop (IS_RECVAR ?v2) (var_shape ?v2) = Done (p, ds)"
        "?v2\<lparr>var_dsizes := ds, var_len := var_len_of p sz\<rparr> = v"
      using v(1) sz False nd v(3,4) l st by (auto simp: NC_var_shape_def run_bind_Done Let_def)
    have f: "var_xsz v = sz" "var_shape v = shp" "var_dsizes v = ds" "var_len v = var_len_of p sz"
      using arg_cong [OF d(2), of var_xsz] arg_cong [OF d(2), of var_shape] arg_cong [OF d(2), of var_dsizes] arg_cong [OF d(2), of var_len]
        len v(3) by simp_all
    have "IS_RECVAR ?v2 = IS_RECVAR v" using f(2) len by (simp add: IS_RECVAR_def)
    then have "dsizes_loop (IS_RECVAR v) shp = Done (p, ds)" using d(1) f(2) len by simp
    moreover have "shp \<noteq> []" using len False by auto
    ultimately show ?thesis using sz False nd v(2-4) l st len f
      by (simp add: NC_var_shape_def read_var_def reread_eq var_shape_loop_cong [OF da] Let_def IS_RECVAR_def)
  qed
qed

lemma computeshapes_loop_map:
  assumes "\<forall>v \<in> set vs. NC_var_shape v da = Done (NC_NOERR, v)" "\<forall>v \<in> set vs. NC_var_shape (f v) da' = Done (NC_NOERR, g v)"
    and g: "\<And>v. var_shape (g v) = var_shape v" "\<And>v. var_begin (g v) = var_begin v" "\<And>v. var_len (g v) = var_len v"
  shows "computeshapes_loop da' (map f vs) (map_option g fv) (map_option g fr) b r =
    run_bind (computeshapes_loop da vs fv fr b r) (\<lambda>(st, vs', fv', fr', b', r').
      Done (st, map g vs', map_option g fv', map_option g fr', b', r'))"
  using assms(1,2)
proof (induction vs arbitrary: fv fr b r)
  case (Cons v vs)
  have rec: "IS_RECVAR (g v) = IS_RECVAR v" by (simp add: IS_RECVAR_def g)
  have opt: "(if map_option g o' = None then Some (g v) else map_option g o') = map_option g (if o' = None then Some v else o')" for o'
    by simp
  have shp: "NC_var_shape v da = Done (NC_NOERR, v)" "NC_var_shape (f v) da' = Done (NC_NOERR, g v)" using Cons.prems by simp_all
  have ih: "computeshapes_loop da' (map f vs) (map_option g fv) (map_option g fr) b r =
    run_bind (computeshapes_loop da vs fv fr b r) (\<lambda>(st, vs', fv', fr', b', r').
      Done (st, map g vs', map_option g fv', map_option g fr', b', r'))" for fv fr b r
    using Cons.prems by (intro Cons.IH) simp_all
  show ?case
    unfolding list.map computeshapes_loop.simps shp run_bind_simps split_def fst_conv snd_conv rec opt g
    by (cases "IS_RECVAR v") (simp_all only: simp_thms if_True if_False ih run_bind_assoc split_def run_bind_simps fst_conv snd_conv refl list.map)
qed simp

text \<open>\<open>NC_computeshapes\<close>, \<open>NC_check_vlens\<close> and \<open>NC_check_voffs\<close> see the same in both headers.\<close>

lemma NC_computeshapes_eq:
  fixes ncp :: "'a nc3_hdr_scheme"
  assumes "vars_value (vars ncp) \<noteq> []"
    and "computeshapes_loop (dims ncp) (vars_value (vars ncp)) None None (xsz ncp) 0 = Done (NC_NOERR, vs', fv, fr, b, r)"
    and "case fr of None \<Rightarrow> True | Some w \<Rightarrow> \<not> var_begin w < b"
    and "(case fr of None \<Rightarrow> Done r | Some w \<Rightarrow> if r = u64 (var_len w)
       then run_bind (peek (var_dsizes w) 0) (\<lambda>d. Done (u64 (d * var_xsz w))) else Done r) = Done rs"
    and "br = (case fr of None \<Rightarrow> b | Some w \<Rightarrow> var_begin w)" and "bv = (case fv of None \<Rightarrow> br | Some w \<Rightarrow> var_begin w)"
  shows "NC_computeshapes ncp = Done (if bv \<le> 0 \<or> u64 bv < xsz ncp \<or> br \<le> 0 \<or> br < bv then NC_ENOTNC else NC_NOERR,
    ncp\<lparr>begin_var := bv, begin_rec := br, recsize := rs, vars := (vars ncp)\<lparr>vars_value := vs'\<rparr>\<rparr>)"
proof (cases fr)
  case None
  with assms show ?thesis by (simp add: NC_computeshapes_def Let_def cong: option.case_cong)
next
  case (Some w)
  define rr where "rr = (if r = u64 (var_len w) then run_bind (peek (var_dsizes w) 0) (\<lambda>d. Done (u64 (d * var_xsz w))) else Done r)"
  have "rr = Done rs" "\<not> var_begin w < b" using assms(3,4) Some by (simp_all add: rr_def)
  with assms(1,2,5,6) Some show ?thesis
    unfolding NC_computeshapes_def Let_def by (simp add: rr_def [symmetric] cong: option.case_cong)
qed

lemma NC_computeshapes_map:
  fixes ncp :: "'a nc3_hdr_scheme" and ncp0 :: "'b nc3_hdr_scheme"
  assumes "\<forall>v \<in> set (vars_value (vars ncp)). NC_var_shape v (dims ncp) = Done (NC_NOERR, v)"
    "\<forall>v \<in> set (vars_value (vars ncp)). NC_var_shape (f v) (dims ncp0) = Done (NC_NOERR, g v)"
    and g: "\<And>v. var_shape (g v) = var_shape v" "\<And>v. var_begin (g v) = var_begin v" "\<And>v. var_len (g v) = var_len v"
      "\<And>v. var_dsizes (g v) = var_dsizes v" "\<And>v. var_xsz (g v) = var_xsz v"
    and vs: "vars_value (vars ncp0) = map f (vars_value (vars ncp))" and x: "xsz ncp0 = xsz ncp"
    and done': "NC_computeshapes ncp = Done (NC_NOERR, ncp)"
  shows "NC_computeshapes ncp0 = Done (NC_NOERR, ncp0\<lparr>begin_var := begin_var ncp, begin_rec := begin_rec ncp, recsize := recsize ncp,
    vars := (vars ncp0)\<lparr>vars_value := map g (vars_value (vars ncp))\<rparr>\<rparr>)"
proof (cases "vars_value (vars ncp) = []")
  case True
  have "ncp\<lparr>begin_var := xsz ncp, begin_rec := xsz ncp, recsize := 0\<rparr> = ncp"
    using True done' by (simp add: NC_computeshapes_def)
  from arg_cong [OF this, of begin_var] arg_cong [OF this, of begin_rec] arg_cong [OF this, of recsize]
  show ?thesis using True vs x by (simp add: NC_computeshapes_def)
next
  case False
  obtain st vs' fv fr b r where loop: "computeshapes_loop (dims ncp) (vars_value (vars ncp)) None None (xsz ncp) 0 = Done (st, vs', fv, fr, b, r)"
    using done' False by (cases "computeshapes_loop (dims ncp) (vars_value (vars ncp)) None None (xsz ncp) 0")
      (auto simp: NC_computeshapes_def Let_def)
  have loop': "computeshapes_loop (dims ncp0) (map f (vars_value (vars ncp))) None None (xsz ncp) 0 =
      Done (st, map g vs', map_option g fv, map_option g fr, b, r)"
    using computeshapes_loop_map [OF assms(1,2) g(1-3), of None None "xsz ncp" 0] loop by simp
  have st: "st = NC_NOERR" using done' False loop by (auto simp: NC_computeshapes_def Let_def split: if_splits)
  define br where "br = (case fr of None \<Rightarrow> b | Some w \<Rightarrow> var_begin w)"
  define bv where "bv = (case fv of None \<Rightarrow> br | Some w \<Rightarrow> var_begin w)"
  have fr: "case fr of None \<Rightarrow> True | Some w \<Rightarrow> \<not> var_begin w < b"
    using done' False loop st by (auto simp: NC_computeshapes_def Let_def split: option.splits if_splits)
  obtain rs where rs: "(case fr of None \<Rightarrow> Done r | Some w \<Rightarrow> if r = u64 (var_len w)
       then run_bind (peek (var_dsizes w) 0) (\<lambda>d. Done (u64 (d * var_xsz w))) else Done r) = Done rs"
    using done' False loop st fr by (auto simp: NC_computeshapes_def Let_def run_bind_Done split: option.splits if_splits)
  have *: "NC_computeshapes ncp = Done (if bv \<le> 0 \<or> u64 bv < xsz ncp \<or> br \<le> 0 \<or> br < bv then NC_ENOTNC else NC_NOERR,
    ncp\<lparr>begin_var := bv, begin_rec := br, recsize := rs, vars := (vars ncp)\<lparr>vars_value := vs'\<rparr>\<rparr>)"
    by (rule NC_computeshapes_eq [OF False loop [unfolded st] fr rs br_def bv_def])
  with done' have ok: "\<not> (bv \<le> 0 \<or> u64 bv < xsz ncp \<or> br \<le> 0 \<or> br < bv)"
    and eq: "ncp\<lparr>begin_var := bv, begin_rec := br, recsize := rs, vars := (vars ncp)\<lparr>vars_value := vs'\<rparr>\<rparr> = ncp" by (auto split: if_splits)
  have f: "begin_var ncp = bv" "begin_rec ncp = br" "recsize ncp = rs" "vars_value (vars ncp) = vs'"
    using arg_cong [OF eq, of begin_var] arg_cong [OF eq, of begin_rec] arg_cong [OF eq, of recsize]
      arg_cong [OF eq, of "\<lambda>n. vars_value (vars n)"] by simp_all
  have "NC_computeshapes ncp0 = Done (if bv \<le> 0 \<or> u64 bv < xsz ncp0 \<or> br \<le> 0 \<or> br < bv then NC_ENOTNC else NC_NOERR,
    ncp0\<lparr>begin_var := bv, begin_rec := br, recsize := rs, vars := (vars ncp0)\<lparr>vars_value := map g vs'\<rparr>\<rparr>)"
  proof (rule NC_computeshapes_eq)
    show "computeshapes_loop (dims ncp0) (vars_value (vars ncp0)) None None (xsz ncp0) 0 =
        Done (NC_NOERR, map g vs', map_option g fv, map_option g fr, b, r)" using loop' st vs x by simp
    show "vars_value (vars ncp0) \<noteq> []" using vs False by simp
    show "(case map_option g fr of None \<Rightarrow> Done r | Some w \<Rightarrow> if r = u64 (var_len w)
       then run_bind (peek (var_dsizes w) 0) (\<lambda>d. Done (u64 (d * var_xsz w))) else Done r) = Done rs"
      using rs by (cases fr) (auto simp: g split: if_splits)
  qed (use fr in \<open>cases fr; cases fv; simp add: g br_def bv_def\<close>)+
  with ok x show ?thesis unfolding f by simp
qed

lemma check_vlens_loop_map:
  assumes "\<And>v. var_shape (g v) = var_shape v" "\<And>v. var_ndims (g v) = var_ndims v" "\<And>v. var_xsz (g v) = var_xsz v"
  shows "check_vlens_loop c rv m (map g vs) n l = check_vlens_loop c rv m vs n l"
proof -
  have "IS_RECVAR (g v) = IS_RECVAR v" "NC_check_vlen (g v) m = NC_check_vlen v m" for v
    by (simp_all add: IS_RECVAR_def NC_check_vlen_def assms)
  then show ?thesis
  proof (induction vs arbitrary: n l)
    case (Cons v vs)
    then show ?case by (cases c; cases "NC_check_vlen v m") simp_all
  qed simp
qed

lemma check_voffs_loop_map:
  assumes "\<And>v. var_shape (g v) = var_shape v" "\<And>v. var_begin (g v) = var_begin v" "\<And>v. var_len (g v) = var_len v"
  shows "check_voffs_loop rv p (map g vs) = check_voffs_loop rv p vs"
  using assms by (induction rv p vs rule: check_voffs_loop.induct) (auto simp: IS_RECVAR_def)

lemma version_of_read: "version_of fl0 = 1 \<Longrightarrow> ver \<in> {1, 2, 5} \<Longrightarrow> version_of (version_flag ver fl0) = ver"
proof -
  assume a: "version_of fl0 = 1" "ver \<in> {1, 2, 5}"
  have "\<not> bit (512::int) 5" "bit (512::int) 9" "\<not> bit (32::int) 9" "bit (32::int) 5" by (simp_all add: bit_iff_odd)
  then have b: "bit (fSet fl0 512) 5 = bit fl0 5" "bit (fSet fl0 512) 9" "bit (fSet fl0 32) 5" by (simp_all add: fSet_bit)
  have "\<not> bit fl0 5" "\<not> bit fl0 9" using a(1) by (simp_all add: version_of_def fIsSet_single split: if_splits)
  then show ?thesis using a(2) b by (elim insertE emptyE) (simp_all add: version_of_def version_flag_def fIsSet_single)
qed

lemma vlen_max_version: "version_of f1 = version_of f2 \<Longrightarrow> vlen_max_of f1 = vlen_max_of f2"
  "version_of f1 = version_of f2 \<Longrightarrow> fIsSet f1 NC_64BIT_DATA = fIsSet f2 NC_64BIT_DATA"
  by (auto simp: version_of_def vlen_max_of_def split: if_splits)

lemma ncx_len_read: "ncx_len_NC_attrarray (read_attrs (atts_value ap)) ver = ncx_len_NC_attrarray ap ver"
  "ncx_len_NC_var (read_var ver' v) n ver = ncx_len_NC_var v n ver"
  by (simp_all add: ncx_len_NC_attrarray_def read_attrs_def comp_def ncx_len_NC_attr_def read_attr_def ncx_len_NC_var_def read_var_def)

lemma finish_get_read:
  fixes ncp :: "'a nc3_info_scheme" and ncp0 :: "'b nc3_info_scheme"
  assumes ver: "version_of (flags ncp) = ver" "version_of (flags ncp0) = ver"
    and fin: "finish_get ver ncp = Done (NC_NOERR, ncp)"
    and vs: "\<forall>v \<in> set (vars_value (vars ncp)). NC_var_shape v (dims ncp) = Done (NC_NOERR, v) \<and>
      length (var_dimids v) = var_ndims v \<and> length (var_shape v) = var_ndims v \<and> length (var_dsizes v) = var_ndims v"
    and rd: "dims_value (dims ncp0) = dims_value (dims ncp)" "attrs ncp0 = read_attrs (atts_value (attrs ncp))"
      "vars_value (vars ncp0) = map (read_var ver) (vars_value (vars ncp))"
  shows "finish_get ver ncp0 = Done (NC_NOERR, ncp0\<lparr>xsz := xsz ncp, begin_var := begin_var ncp, begin_rec := begin_rec ncp,
    recsize := recsize ncp, vars := (vars ncp0)\<lparr>vars_value := map reread (vars_value (vars ncp))\<rparr>\<rparr>)"
proof -
  have len: "ncx_len_NC ncp0 n = ncx_len_NC ncp n" for n
    by (simp add: ncx_len_NC_def Let_def ver ncx_len_NC_dimarray_def rd ncx_len_NC_vararray_def comp_def ncx_len_read)
  let ?n = "ncp\<lparr>xsz := int (ncx_len_NC ncp (off_bytes ver))\<rparr>"
  obtain n1 where n1: "NC_computeshapes ?n = Done (NC_NOERR, n1)" "NC_check_vlens n1 = Done NC_NOERR" "NC_check_voffs n1 = NC_NOERR" "n1 = ncp"
    using fin by (auto simp: finish_get_def Let_def run_bind_Done split: if_splits)
  have "xsz n1 = xsz ?n"
    using n1(1) by (auto simp: NC_computeshapes_def Let_def run_bind_Done split: if_splits option.splits)
  then have x: "xsz ncp = int (ncx_len_NC ncp (off_bytes ver))" "?n = ncp" using n1(4) by simp_all
  have cs: "NC_computeshapes ncp = Done (NC_NOERR, ncp)" using n1(1,4) x(2) by simp
  have "NC_computeshapes (ncp0\<lparr>xsz := xsz ncp\<rparr>) = Done (NC_NOERR, (ncp0\<lparr>xsz := xsz ncp\<rparr>)\<lparr>begin_var := begin_var ncp,
      begin_rec := begin_rec ncp, recsize := recsize ncp, vars := (vars (ncp0\<lparr>xsz := xsz ncp\<rparr>))\<lparr>vars_value := map reread (vars_value (vars ncp))\<rparr>\<rparr>)"
    by (rule NC_computeshapes_map [where f = "read_var ver"])
      (use vs cs rd in \<open>auto intro!: NC_var_shape_read\<close>)
  then have cs0: "NC_computeshapes (ncp0\<lparr>xsz := int (ncx_len_NC ncp0 (off_bytes ver))\<rparr>) =
      Done (NC_NOERR, ncp0\<lparr>xsz := xsz ncp, begin_var := begin_var ncp, begin_rec := begin_rec ncp, recsize := recsize ncp,
        vars := (vars ncp0)\<lparr>vars_value := map reread (vars_value (vars ncp))\<rparr>\<rparr>)" (is "_ = Done (_, ?r)")
    by (simp add: len x(1))
  have fl: "vlen_max_of (flags ncp0) = vlen_max_of (flags ncp)" "fIsSet (flags ncp0) NC_64BIT_DATA = fIsSet (flags ncp) NC_64BIT_DATA"
    using vlen_max_version ver by metis+
  have rec: "(\<exists>v \<in> set (map reread vs). IS_RECVAR v) = (\<exists>v \<in> set vs. IS_RECVAR v)" for vs
    by (simp add: IS_RECVAR_def)
  have "check_vlens_loop c rv m (map reread vs) n l = check_vlens_loop c rv m vs n l" for c rv m vs n l
    by (rule check_vlens_loop_map) simp_all
  note cv = this
  have sel: "vars_value (vars ?r) = map reread (vars_value (vars ncp))" "flags ?r = flags ncp0" by simp_all
  have "NC_check_vlens ?r = NC_check_vlens ncp"
    unfolding NC_check_vlens_def Let_def sel fl rec cv map_is_Nil_conv by (rule refl)
  moreover have "check_voffs_loop rv p (map reread vs) = check_voffs_loop rv p vs" for rv p vs
    by (rule check_voffs_loop_map) simp_all
  note co = this
  have sel2: "begin_var ?r = begin_var ncp" "begin_rec ?r = begin_rec ncp" by simp_all
  have "NC_check_voffs ?r = NC_check_voffs ncp"
    unfolding NC_check_voffs_def Let_def sel sel2 co map_is_Nil_conv by (rule refl)
  ultimately show ?thesis using cs0 n1(2-4) by (simp add: finish_get_def Let_def)
qed

text \<open>A header as the define mode leaves it: its shapes, offsets and external size computed and accepted.\<close>

definition hdr_complete :: "'a nc3_info_scheme \<Rightarrow> bool" where
  "hdr_complete ncp \<longleftrightarrow> hdr_ok ncp \<and> finish_get (version_of (flags ncp)) ncp = Done (NC_NOERR, ncp) \<and>
     (\<forall>v \<in> set (vars_value (vars ncp)). NC_var_shape v (dims ncp) = Done (NC_NOERR, v) \<and>
        length (var_shape v) = var_ndims v \<and> length (var_dsizes v) = var_ndims v)"

text \<open>
  C3: \<open>ncx_put_NC\<close> over the in-memory driver writes exactly the bytes of the format specification
  \<open>enc_NC\<close> at the start of the file and leaves every byte behind them alone, whatever buffer size
  \<open>chunk\<close> asks for (a multiple of 4 above 12) and however many buffers the header takes; and the
  number of bytes written is what \<open>ncx_len_NC\<close> computes.
\<close>

theorem ncx_put_NC_writes:
  fixes ncp :: "'a nc3_info_scheme"
  defines "ext \<equiv> nat (first_extent (if version_of (flags ncp) = 5 then MIN_NC5_XSZ else MIN_NC3_XSZ) (xsz ncp) (chunk ncp))"
  assumes "hdr_ok ncp" and "mio_ok mio" and "12 < ext" "ext mod 4 = 0"
    and "2 * length (enc_NC ncp) + ext + 8 \<le> length (mio_bytes mio)"
  shows "\<exists>mio'. ncx_put_NC (memio_io pagesize malloc) ncp mio None off n = Done (NC_NOERR, mio') \<and> mio_ok mio' \<and>
    mio_bytes mio' = enc_NC ncp @ drop (ncx_len_NC ncp (off_bytes (version_of (flags ncp)))) (mio_bytes mio)"
proof -
  from mio.ncx_put_NC_bytes [OF assms(2,3) _ assms(4-6) order_refl] obtain mio' where
    "ncx_put_NC (memio_io pagesize malloc) ncp mio None off n = Done (NC_NOERR, mio')" "mio_ok mio'" "mio_bytes mio' = blit (mio_bytes mio) 0 (enc_NC ncp)"
    unfolding ext_def by blast
  then show ?thesis by (simp add: blit_def length_enc_NC [OF assms(2)])
qed

text \<open>
  C2: a complete header that \<open>ncx_put_NC\<close> wrote is read back by \<open>nc_get_NC\<close>, from any driver
  that holds the written bytes: the same dimensions, the same attributes (their padding NUL), the same
  variables with the same shapes, lengths and offsets, the same \<open>numrecs\<close>, \<open>xsz\<close>, \<open>begin_var\<close>,
  \<open>begin_rec\<close> and \<open>recsize\<close>, and name indexes that find every dimension and variable.
\<close>

theorem ncx_put_NC_nc_get_NC:
  fixes ncp :: "'a nc3_info_scheme" and ncp0 :: "'b nc3_info_scheme"
  assumes "env_ok E" and "hdr_complete ncp" and "mio_ok mio" and "mio_ok mio2"
    and put: "ncx_put_NC (memio_io pagesize malloc) ncp mio None off n = Done (status, mio1)"
    and same: "mio_bytes mio2 = mio_bytes mio1"
    and ext: "ext = nat (first_extent (if version_of (flags ncp) = 5 then MIN_NC5_XSZ else MIN_NC3_XSZ) (xsz ncp) (chunk ncp))"
      "12 < ext" "ext mod 4 = 0" "2 * length (enc_NC ncp) + ext + 8 \<le> length (mio_bytes mio)"
    and fresh: "version_of (flags ncp0) = 1" "xsz ncp0 \<le> MIN_NC3_XSZ"
    and ext0: "ext0 = nat (min (mio_size mio2) (min (chunk ncp0) 4096))" "12 < ext0" "ext0 mod 4 = 0"
      "2 * length (enc_NC ncp) + ext0 + 8 \<le> length (mio_bytes mio)"
  shows "status = NC_NOERR \<and> (\<exists>mio3 da va.
    nc_get_NC E (memio_io pagesize malloc) ncp0 mio2 = Done (NC_NOERR, ncp0\<lparr>flags := version_flag (version_of (flags ncp)) (flags ncp0),
      numrecs := numrecs ncp, dims := da, attrs := read_attrs (atts_value (attrs ncp)), xsz := xsz ncp, begin_var := begin_var ncp,
      begin_rec := begin_rec ncp, recsize := recsize ncp, vars := va\<rparr>, mio3) \<and>
    dims_value da = dims_value (dims ncp) \<and> index_ok E (dims_hashmap da) (dim_names (dims_value da)) \<and>
    vars_value va = map reread (vars_value (vars ncp)) \<and> index_ok E (vars_hashmap va) (var_names (vars_value va)))"
proof -
  let ?ver = "version_of (flags ncp)" and ?enc = "enc_NC ncp"
  let ?fl = "version_flag ?ver (flags ncp0)"
  have ok: "hdr_ok ncp" and fin: "finish_get ?ver ncp = Done (NC_NOERR, ncp)" using assms(2) by (simp_all add: hdr_complete_def)
  from ok have okD: "size_ok ?ver (numrecs ncp)" "dims_ok ?ver (dims_value (dims ncp))" "attrs_ok ?ver (atts_value (attrs ncp))"
      "vars_ok ?ver (vars_value (vars ncp))" by (simp_all add: hdr_ok_def Let_def)
  from mio.ncx_put_NC_bytes [OF ok assms(3) ext order_refl, of pagesize malloc off n] put
  have st: "status = NC_NOERR" "mio_bytes mio1 = blit (mio_bytes mio) 0 ?enc" by auto
  have len: "length ?enc \<le> length (mio_bytes mio)" using ext(4) by simp
  have b2: "take (length ?enc) (mio_bytes mio2) = ?enc" "length (mio_bytes mio2) = length (mio_bytes mio)"
    using st(2) same len by (simp_all add: blit_def)
  have ver: "?ver \<in> {1, 2, 5}" using version_of_cases by blast
  have mn: "(32::int) = (if fIsSet (flags ncp0) NC_64BIT_DATA then MIN_NC5_XSZ else MIN_NC3_XSZ)"
    using fresh(1) by (auto simp: version_of_def)
  have fs: "io_filesize (memio_io pagesize malloc) mio2 = (NC_NOERR, mio_size mio2)" by (simp add: memio_io_def memio_filesize_def)
  have sz: "4 \<le> mio_size mio2" "mio_size mio2 < 18446744073709551616" using ext0(1,2) assms(4) by (auto simp: mio_ok_def)
  have room: "2 * length (enc_hdr ?ver (numrecs ncp) (dims_value (dims ncp)) (atts_value (attrs ncp)) (vars_value (vars ncp))) + ext0 + 8
      \<le> length (mio_bytes mio2)" using ext0(4) b2(2) by (simp add: enc_NC_def)
  have at: "take (length (enc_hdr ?ver (numrecs ncp) (dims_value (dims ncp)) (atts_value (attrs ncp)) (vars_value (vars ncp)))) (mio_bytes mio2) =
      enc_hdr ?ver (numrecs ncp) (dims_value (dims ncp)) (atts_value (attrs ncp)) (vars_value (vars ncp))"
    using b2(1) by (simp add: enc_NC_def)
  from mio.nc_get_NC_reads [OF assms(1) ver assms(4) okD fs fresh(2) sz mn ext0(1-3) room order_refl at] obtain da va mio3 where
    r: "dims_value da = dims_value (dims ncp)" "index_ok E (dims_hashmap da) (dim_names (dims_value (dims ncp)))"
      "vars_value va = map (read_var ?ver) (vars_value (vars ncp))" "index_ok E (vars_hashmap va) (var_names (vars_value (vars ncp)))"
      "nc_get_NC E (memio_io pagesize malloc) ncp0 mio2 = run_bind (finish_get ?ver (ncp0\<lparr>flags := ?fl, numrecs := numrecs ncp, dims := da,
        attrs := read_attrs (atts_value (attrs ncp)), vars := va\<rparr>)) (\<lambda>(status, ncp1). Done (status, ncp1, mio3))"
    by blast
  let ?n0 = "ncp0\<lparr>flags := ?fl, numrecs := numrecs ncp, dims := da, attrs := read_attrs (atts_value (attrs ncp)), vars := va\<rparr>"
  have sh: "\<forall>v \<in> set (vars_value (vars ncp)). NC_var_shape v (dims ncp) = Done (NC_NOERR, v) \<and>
      length (var_dimids v) = var_ndims v \<and> length (var_shape v) = var_ndims v \<and> length (var_dsizes v) = var_ndims v"
    using assms(2) okD(4) by (simp add: hdr_complete_def vars_ok_def var_ok_def)
  have v0: "version_of (flags ?n0) = ?ver" using version_of_read [OF fresh(1) ver] by simp
  have rd: "dims_value (dims ?n0) = dims_value (dims ncp)" "attrs ?n0 = read_attrs (atts_value (attrs ncp))"
      "vars_value (vars ?n0) = map (read_var ?ver) (vars_value (vars ncp))" using r by simp_all
  have names: "var_names (map reread vs) = var_names vs" for vs by (simp add: var_names_def reread_def)
  show ?thesis
    using finish_get_read [OF refl v0 fin sh rd] st(1) r
    by (intro conjI exI [of _ mio3] exI [of _ da] exI [of _ "va\<lparr>vars_value := map reread (vars_value (vars ncp))\<rparr>"])
      (simp_all add: names)
qed

subsection \<open>A sample file\<close>

text \<open>One dimension \<open>x = 2\<close>, the global attribute \<open>t = "abc"\<close> and the variable \<open>int v(x)\<close>, CDF-1.\<close>

definition sample_file :: nc3_info where
  "sample_file = (sample_hdr 100 108 [sample_var 100 8 2])\<lparr>recsize := 0,
     dims := \<lparr>dims_nalloc = 1, dims_hashmap = None, dims_value = [\<lparr>dim_name = \<lparr>nchars = 1, cp = ''x''\<rparr>, dim_size = 2\<rparr>]\<rparr>,
     attrs := \<lparr>atts_nalloc = 1, atts_value = [\<lparr>att_xsz = 4, att_name = \<lparr>nchars = 1, cp = ''t''\<rparr>, att_type = NC_CHAR,
       att_nelems = 3, att_xvalue = ''abcd''\<rparr>]\<rparr>\<rparr>"

definition sample_env :: nc_env where
  "sample_env = \<lparr>env_mem = \<lambda>n. True, env_crc = length, env_validate = \<lambda>s. NC_NOERR, env_normalize = Inr\<rparr>"

definition sample_mio :: NCMEMIO where
  "sample_mio = \<lparr>mio_ioflags = NC_WRITE, mio_locked = 0, mio_modified = 0, mio_persist = False, mio_memory = Some (replicate 512 CHR ''z''),
     mio_alloc = 512, mio_size = 200, mio_diskless = True, mio_inmemory = True\<rparr>"

lemma sample_flags: "version_of (flags sample_file) = 1" "version_of 0 = 1" "\<not> fIsSet 0 n"
  by (simp_all add: sample_file_def sample_hdr_def version_of_def fIsSet_def)

lemma sample_env_ok: "env_ok sample_env"
  by (simp add: env_ok_def sample_env_def)

lemma sample_mio_ok: "mio_ok sample_mio" "length (mio_bytes sample_mio) = 512"
  by (simp_all add: mio_ok_def sample_mio_def mio_bytes_def)

lemma memio_get_beyond_witness:
  "memio_get 4096 (\<lambda>n. Some (replicate (nat n) CHR ''q'')) sample_mio 500 20 0 = Fault \<and>
   memio_get 4096 (\<lambda>n. Some (replicate (nat n) CHR ''q'')) (sample_mio\<lparr>mio_locked := 1\<rparr>) 500 20 0 =
     Done (NC_EINMEMORY, [], sample_mio\<lparr>mio_locked := 2\<rparr>)"
proof -
  have ok: "mio_ok (sample_mio\<lparr>mio_locked := 1\<rparr>)" by (simp add: mio_ok_def sample_mio_def mio_bytes_def)
  show ?thesis
    using memio_get_beyond [OF sample_mio_ok(1), of 500 20 4096 "\<lambda>n. Some (replicate (nat n) CHR ''q'')" 0]
      memio_get_beyond [OF ok, of 500 20 4096 "\<lambda>n. Some (replicate (nat n) CHR ''q'')" 0]
    by (simp add: sample_mio_def fIsSet_def)
qed

lemma sample_hdr_ok: "hdr_ok sample_file"
  unfolding hdr_ok_def Let_def sample_flags
  by (simp add: sample_file_def sample_hdr_def sample_var_def size_ok_def size_max_def dims_ok_def dim_ok_def string_ok_def str_wf_def
      attrs_ok_def attr_ok_def vars_ok_def var_ok_def dim_names_def var_names_def cstr_def ncx_len_NC_attrV_def usz_def type_size_def
      ncmpix_len_nctype_def empty_attrarray_def)

lemma sample_len: "ncx_len_NC sample_file 4 = 100"
  unfolding ncx_len_NC_def Let_def sample_flags
  by (simp add: sample_file_def sample_hdr_def sample_var_def ncx_len_NC_dimarray_def ncx_len_NC_attrarray_def
      ncx_len_NC_vararray_def ncx_len_NC_dim_def ncx_len_NC_attr_def ncx_len_NC_var_def ncx_len_NC_string_def size_bytes_def RNDUP_def
      empty_attrarray_def)

lemma sample_enc_len: "length (enc_NC sample_file) = 100"
  using length_enc_NC [OF sample_hdr_ok] by (simp add: sample_flags off_bytes_def sample_len)

lemma sample_shape: "NC_var_shape (sample_var 100 8 2) (dims sample_file) = Done (NC_NOERR, sample_var 100 8 2)"
  by (simp add: sample_var_def sample_file_def sample_hdr_def NC_var_shape_def ncx_szof_def Let_def elem_NC_dimarray_def u64_def s64_def
      IS_RECVAR_def dsize_step_def c_div_def var_len_of_def)

lemma sample_complete: "hdr_complete sample_file"
proof -
  have vs: "vars_value (vars sample_file) = [sample_var 100 8 2]" by (simp add: sample_file_def sample_hdr_def)
  have x: "sample_file\<lparr>xsz := 100\<rparr> = sample_file" by (simp add: sample_file_def sample_hdr_def)
  have r: "\<not> IS_RECVAR (sample_var 100 8 2)" "var_len (sample_var 100 8 2) = 8" "var_begin (sample_var 100 8 2) = 100"
    by (simp_all add: sample_var_def IS_RECVAR_def)
  have "computeshapes_loop (dims sample_file) [sample_var 100 8 2] None None 100 0 =
      Done (NC_NOERR, [sample_var 100 8 2], Some (sample_var 100 8 2), None, 108, 0)"
    by (simp add: sample_shape r s64_def)
  note loop = this
  have xs: "xsz sample_file = 100" by (simp add: sample_file_def sample_hdr_def)
  have "NC_computeshapes sample_file = Done (if 100 \<le> (0::int) \<or> u64 100 < xsz sample_file \<or> (108::int) \<le> 0 \<or> (108::int) < 100 then NC_ENOTNC
      else NC_NOERR, sample_file\<lparr>begin_var := 100, begin_rec := 108, recsize := 0,
        vars := (vars sample_file)\<lparr>vars_value := [sample_var 100 8 2]\<rparr>\<rparr>)"
    by (rule NC_computeshapes_eq [where fv = "Some (sample_var 100 8 2)" and fr = None and b = 108 and r = 0]) (simp_all only: vs xs loop, simp_all add: r)
  moreover have "sample_file\<lparr>begin_var := 100, begin_rec := 108, recsize := 0,
        vars := (vars sample_file)\<lparr>vars_value := [sample_var 100 8 2]\<rparr>\<rparr> = sample_file" by (simp add: sample_file_def sample_hdr_def)
  ultimately have "NC_computeshapes sample_file = Done (NC_NOERR, sample_file)" by (simp add: xs u64_def)
  moreover have "NC_check_vlens sample_file = Done NC_NOERR"
  proof -
    have "NC_check_vlen (sample_var 100 8 2) (vlen_max_of 0) = Done True"
      by (simp add: NC_check_vlen_def IS_RECVAR_def sample_var_def vlen_max_of_def sample_flags s64_def u64_def c_div_def)
    then show ?thesis by (simp add: NC_check_vlens_def Let_def sample_file_def sample_hdr_def sample_flags r)
  qed
  moreover have "NC_check_voffs sample_file = NC_NOERR"
    by (simp add: NC_check_voffs_def Let_def sample_file_def sample_hdr_def r s64_def)
  ultimately have "finish_get 1 sample_file = Done (NC_NOERR, sample_file)"
    by (simp add: finish_get_def Let_def off_bytes_def sample_len x)
  then show ?thesis
    by (simp add: hdr_complete_def sample_hdr_ok sample_flags vs sample_shape) (simp add: sample_var_def)
qed

lemma sample_ext: "nat (first_extent (if version_of (flags sample_file) = 5 then MIN_NC5_XSZ else MIN_NC3_XSZ) (xsz sample_file) (chunk sample_file)) = 100"
  unfolding sample_flags by (simp add: sample_file_def sample_hdr_def first_extent_def)

lemma ncx_put_NC_writes_witness:
  "\<exists>mio'. ncx_put_NC (memio_io 4096 (\<lambda>n. None)) sample_file sample_mio None 0 0 = Done (NC_NOERR, mio') \<and> mio_ok mio' \<and>
    mio_bytes mio' = enc_NC sample_file @ drop (ncx_len_NC sample_file (off_bytes (version_of (flags sample_file)))) (mio_bytes sample_mio)"
  by (rule ncx_put_NC_writes [OF sample_hdr_ok sample_mio_ok(1)]) (simp_all only: sample_ext sample_enc_len sample_mio_ok, simp_all)

lemma ncx_put_NC_nc_get_NC_witness:
  "\<exists>mio1 mio3 da va. ncx_put_NC (memio_io 4096 (\<lambda>n. None)) sample_file sample_mio None 0 0 = Done (NC_NOERR, mio1) \<and>
    nc_get_NC sample_env (memio_io 4096 (\<lambda>n. None)) (sample_hdr 0 0 []\<lparr>xsz := 0\<rparr>) (mio1\<lparr>mio_size := 200\<rparr>) =
      Done (NC_NOERR, (sample_hdr 0 0 []\<lparr>xsz := 0\<rparr>)\<lparr>flags := version_flag (version_of (flags sample_file)) 0, numrecs := 0, dims := da,
        attrs := read_attrs (atts_value (attrs sample_file)), xsz := 100, begin_var := 100, begin_rec := 108, recsize := 0, vars := va\<rparr>, mio3) \<and>
    vars_value va = map reread [sample_var 100 8 2]"
proof -
  from mio.ncx_put_NC_bytes [OF sample_hdr_ok sample_mio_ok(1) sample_ext [symmetric] _ _ _ order_refl, of 4096 "\<lambda>n. None" 0 0] obtain mio1 where
    p: "ncx_put_NC (memio_io 4096 (\<lambda>n. None)) sample_file sample_mio None 0 0 = Done (NC_NOERR, mio1)" "mio_ok mio1"
      "mio_bytes mio1 = blit (mio_bytes sample_mio) 0 (enc_NC sample_file)"
    by (auto simp: sample_enc_len sample_mio_ok)
  have l: "length (mio_bytes mio1) = 512" using p(3) by (simp add: sample_enc_len sample_mio_ok)
  then have ok2: "mio_ok (mio1\<lparr>mio_size := 200\<rparr>)" using p(2) by (auto simp: mio_ok_def)
  let ?n0 = "sample_hdr 0 0 []\<lparr>xsz := 0\<rparr>"
  have f: "flags ?n0 = 0" "numrecs sample_file = 0" "xsz sample_file = 100" "begin_var sample_file = 100" "begin_rec sample_file = 108"
    "recsize sample_file = 0" "vars_value (vars sample_file) = [sample_var 100 8 2]"
    by (simp_all add: sample_hdr_def sample_file_def)
  have n0: "xsz ?n0 \<le> 32" "chunk ?n0 = 4096" by (simp_all add: sample_hdr_def)
  have e0: "200 = nat (min (mio_size (mio1\<lparr>mio_size := 200\<rparr>)) (min (chunk ?n0) 4096))" by (simp add: n0)
  have v0: "version_of (flags ?n0) = 1" using f(1) sample_flags(2) by simp
  note r = ncx_put_NC_nc_get_NC [OF sample_env_ok sample_complete sample_mio_ok(1) ok2 p(1) _ sample_ext [symmetric] _ _ _ v0 n0(1) e0,
      unfolded f sample_enc_len sample_mio_ok(2)]
  have "\<exists>mio3 da va. nc_get_NC sample_env (memio_io 4096 (\<lambda>n. None)) ?n0 (mio1\<lparr>mio_size := 200\<rparr>) =
      Done (NC_NOERR, ?n0\<lparr>flags := version_flag (version_of (flags sample_file)) 0, numrecs := 0, dims := da,
        attrs := read_attrs (atts_value (attrs sample_file)), xsz := 100, begin_var := 100, begin_rec := 108, recsize := 0, vars := va\<rparr>, mio3) \<and>
      vars_value va = map reread [sample_var 100 8 2]"
    using r by fastforce
  with p(1) show ?thesis by blast
qed

end
