(* ===== verification/NC3_Layout.thy ===== *)
theory NC3_Layout
  imports NC3_Memio
begin

text \<open>
  \<open>libsrc/nc3internal.c\<close>, leaving define mode: where the variables begin, writing the header
  and the record count, moving existing data to its new place and filling new variables. From
  \<open>libsrc/putget.c\<close> the fill values. \<open>ncp->nciop\<close> is the driver's state \<open>s\<close>.
\<close>

abbreviation (input) "NC_NUMRECS_OFFSET \<equiv> (4::int)"
abbreviation (input) "NC_SIZEHINT_DEFAULT \<equiv> (0::int)"
abbreviation (input) "NC_ALIGN_CHUNK \<equiv> (18446744073709551615::int)"

subsection \<open>The structure itself\<close>

definition new_NC3INFO :: "int option \<Rightarrow> nc3_info" where
  "new_NC3INFO chunkp = \<lparr>xsz = 0, begin_var = 0, begin_rec = 0, recsize = 0, numrecs = 0, dims = empty_dimarray, attrs = empty_attrarray,
     vars = empty_vararray, old = None, flags = 0, ioflags = 0, chunk = (case chunkp of None \<Rightarrow> NC_SIZEHINT_DEFAULT | Some c \<Rightarrow> c)\<rparr>"

text \<open>\<open>dup_NC3INFO\<close>: the part of the structure that \<open>old\<close> keeps; \<open>None\<close> when an allocation fails.\<close>

definition dup_NC3INFO :: "nc_env \<Rightarrow> 'a nc3_hdr_scheme \<Rightarrow> nc3_hdr option run" where
  "dup_NC3INFO E ref = (if \<not> env_mem E 192 then Done None
     else let (ds, da) = dup_NC_dimarrayV E (dims ref) in if ds \<noteq> NC_NOERR then Done None
     else run_bind (dup_NC_attrarrayV E (attrs ref)) (\<lambda>(st, aa). if st \<noteq> NC_NOERR then Done None
     else run_bind (dup_NC_vararrayV E (vars ref)) (\<lambda>(st, va). if st \<noteq> NC_NOERR then Done None
     else Done (Some \<lparr>xsz = xsz ref, begin_var = begin_var ref, begin_rec = begin_rec ref, recsize = recsize ref, numrecs = numrecs ref,
       dims = da, attrs = aa, vars = va\<rparr>))))"

definition nc3_cktype :: "int \<Rightarrow> int \<Rightarrow> int" where
  "nc3_cktype mode type = (if fIsSet mode NC_64BIT_DATA then (if NC_BYTE \<le> type \<and> type < NC_STRING then NC_NOERR else NC_EBADTYPE)
     else if NC_BYTE \<le> type \<and> type \<le> NC_DOUBLE then NC_NOERR else NC_EBADTYPE)"

definition ncx_howmany :: "int \<Rightarrow> nat \<Rightarrow> nat run" where
  "ncx_howmany type xbufsize =
     (if type \<in> {NC_BYTE, NC_CHAR, NC_UBYTE} then Done xbufsize
      else if type \<in> {NC_SHORT, NC_USHORT} then Done (xbufsize div 2)
      else if type \<in> {NC_INT, NC_FLOAT, NC_UINT} then Done (xbufsize div 4)
      else if type \<in> {NC_DOUBLE, NC_INT64, NC_UINT64} then Done (xbufsize div 8)
      else Fault)"

subsection \<open>Where the variables begin\<close>

text \<open>\<open>D_RNDUP\<close> divides by the alignment the caller gave.\<close>

definition D_RNDUP :: "int \<Rightarrow> int \<Rightarrow> int run" where
  "D_RNDUP x align = run_bind (c_div (s64 (x + s64 align - 1)) (s64 align)) (\<lambda>q. Done (s64 (q * s64 align)))"

text \<open>A start that leaves \<open>minfree\<close> behind \<open>used\<close> and is aligned: kept if it does, computed anew otherwise.\<close>

definition begins_start :: "int \<Rightarrow> int \<Rightarrow> int \<Rightarrow> int \<Rightarrow> int run" where
  "begins_start cur used minfree align = run_bind (if u64 cur < u64 (used + minfree) then Done 0 else D_RNDUP cur align) (\<lambda>r.
     if u64 cur < u64 (used + minfree) \<or> cur \<noteq> r then run_bind (D_RNDUP used align) (\<lambda>b.
       if u64 b < u64 (used + minfree) then D_RNDUP (s64 (used + s64 minfree)) align else Done b)
     else Done cur)"

text \<open>
  The passes over the fixed-size and over the record variables. \<open>olds\<close> are the old variables
  from \<open>j\<close> on, if there is an old header.
\<close>

fun begins_fixed :: "bool \<Rightarrow> int \<Rightarrow> NC_var list \<Rightarrow> NC_var list option \<Rightarrow> int \<times> int \<times> NC_var list" where
  "begins_fixed off4 index [] olds = (NC_NOERR, index, [])"
| "begins_fixed off4 index (v # vs) olds =
     (if IS_RECVAR v then (let (status, i, vs') = begins_fixed off4 index vs olds in (status, i, v # vs'))
      else if off4 \<and> (X_OFF_MAX < index \<or> index < 0) then (NC_EVARSIZE, index, v # vs)
      else let (b, olds') = (case olds of None \<Rightarrow> (index, None)
                 | Some os \<Rightarrow> case dropWhile IS_RECVAR os of [] \<Rightarrow> (index, Some [])
                   | o' # os' \<Rightarrow> (max index (var_begin o'), Some os'));
               (status, i, vs') = begins_fixed off4 (s64 (b + var_len v)) vs olds'
           in (status, i, v\<lparr>var_begin := b\<rparr> # vs'))"

fun begins_recs :: "bool \<Rightarrow> int \<Rightarrow> int \<Rightarrow> NC_var option \<Rightarrow> NC_var list \<Rightarrow> NC_var list option \<Rightarrow> int \<times> int \<times> NC_var option \<times> NC_var list" where
  "begins_recs off4 index rsz lst [] olds = (NC_NOERR, rsz, lst, [])"
| "begins_recs off4 index rsz lst (v # vs) olds =
     (if \<not> IS_RECVAR v then (let (status, r, l, vs') = begins_recs off4 index rsz lst vs olds in (status, r, l, v # vs'))
      else if off4 \<and> (X_OFF_MAX < index \<or> index < 0) then (NC_EVARSIZE, rsz, lst, v # vs)
      else let (b, olds') = (case olds of None \<Rightarrow> (index, None)
                 | Some os \<Rightarrow> case dropWhile (\<lambda>o'. \<not> IS_RECVAR o') os of [] \<Rightarrow> (index, Some [])
                   | o' # os' \<Rightarrow> (max index (var_begin o'), Some os'));
               v' = v\<lparr>var_begin := b\<rparr>;
               (status, r, l, vs') = begins_recs off4 (s64 (index + var_len v)) (u64 (rsz + var_len v)) (Some v') vs olds'
           in (status, r, l, v' # vs'))"

definition set_vars :: "'a nc3_hdr_scheme \<Rightarrow> NC_var list \<Rightarrow> 'a nc3_hdr_scheme" where
  "set_vars ncp vs = ncp\<lparr>vars := (vars ncp)\<lparr>vars_value := vs\<rparr>\<rparr>"

definition NC_begins :: "'a nc3_info_scheme \<Rightarrow> int \<Rightarrow> int \<Rightarrow> int \<Rightarrow> int \<Rightarrow> (int \<times> 'a nc3_info_scheme) run" where
  "NC_begins ncp0 h_minfree v_align0 v_minfree r_align0 = (let
     v_align = (if v_align0 = NC_ALIGN_CHUNK then chunk ncp0 else v_align0);
     r_align = (if r_align0 = NC_ALIGN_CHUNK then chunk ncp0 else r_align0);
     off4 = (\<not> (fIsSet (flags ncp0) NC_64BIT_OFFSET \<or> fIsSet (flags ncp0) NC_64BIT_DATA));
     ncp = ncp0\<lparr>xsz := int (ncx_len_NC ncp0 (if off4 then 4 else 8))\<rparr>;
     olds = map_option (\<lambda>o'. vars_value (vars o')) (old ncp) in
   if vars_value (vars ncp) = [] then Done (NC_NOERR, ncp)
   else run_bind (begins_start (begin_var ncp) (xsz ncp) h_minfree v_align) (\<lambda>bv0.
     let bv = (case old ncp of None \<Rightarrow> bv0 | Some o' \<Rightarrow> max bv0 (begin_var o'));
         (status, index, vs1) = begins_fixed off4 bv (vars_value (vars ncp)) olds
     in if status \<noteq> NC_NOERR then Done (status, set_vars ncp vs1)
     else let br0 = (case old ncp of None \<Rightarrow> begin_rec ncp | Some o' \<Rightarrow> max (begin_rec ncp) (begin_rec o'))
     in run_bind (begins_start br0 index v_minfree r_align) (\<lambda>br.
       let bv2 = (case filter (\<lambda>v. \<not> IS_RECVAR v) vs1 of [] \<Rightarrow> br | v # _ \<Rightarrow> var_begin v);
           (status, rsz, lst, vs2) = begins_recs off4 br 0 None vs1 olds
       in if status \<noteq> NC_NOERR then Done (status, (set_vars ncp vs2)\<lparr>begin_rec := br, recsize := rsz\<rparr>)
       else run_bind (case lst of None \<Rightarrow> Done rsz
           | Some l \<Rightarrow> if rsz = u64 (var_len l) then run_bind (peek (var_dsizes l) 0) (\<lambda>d. Done (u64 (d * var_xsz l))) else Done rsz) (\<lambda>rsz'.
         Done (NC_NOERR, (set_vars ncp vs2)\<lparr>begin_var := bv2, begin_rec := br, recsize := rsz',
           numrecs := (if NC_IsNew ncp then 0 else numrecs ncp)\<rparr>)))))"

subsection \<open>The header and the record count in the file\<close>

definition numrecs_extent :: "int \<Rightarrow> nat" where
  "numrecs_extent flgs = (if fIsSet flgs NC_64BIT_DATA then 8 else 4)"

definition read_numrecs :: "'s ncio \<Rightarrow> 'a nc3_info_scheme \<Rightarrow> 's \<Rightarrow> (int \<times> 'a nc3_info_scheme \<times> 's) run" where
  "read_numrecs io ncp s = assert_run (\<not> NC_indef ncp)
     (run_bind (io_get io s NC_NUMRECS_OFFSET (numrecs_extent (flags ncp)) 0) (\<lambda>(status, buf, s1).
       if status \<noteq> NC_NOERR then Done (status, ncp, s1)
       else run_bind (io_rel io s1 NC_NUMRECS_OFFSET buf 0) (\<lambda>(_, s2).
         Done (NC_NOERR, if numrecs ncp \<noteq> unbe buf then ncp\<lparr>numrecs := unbe buf, flags := fClr (flags ncp) NC_NDIRTY\<rparr> else ncp, s2))))"

definition write_numrecs :: "'s ncio \<Rightarrow> 'a nc3_info_scheme \<Rightarrow> 's \<Rightarrow> (int \<times> 'a nc3_info_scheme \<times> 's) run" where
  "write_numrecs io ncp s = assert_run (\<not> NC_readonly ncp \<and> \<not> NC_indef ncp)
     (run_bind (io_get io s NC_NUMRECS_OFFSET (numrecs_extent (flags ncp)) RGN_WRITE) (\<lambda>(status, buf, s1).
       if status \<noteq> NC_NOERR then Done (status, ncp, s1)
       else assert_run (fIsSet (flags ncp) NC_64BIT_DATA \<or> numrecs ncp \<le> X_UINT_MAX)
         (run_bind (io_rel io s1 NC_NUMRECS_OFFSET (be (numrecs_extent (flags ncp)) (numrecs ncp)) RGN_MODIFIED) (\<lambda>(_, s2).
            Done (NC_NOERR, ncp\<lparr>flags := fClr (flags ncp) NC_NDIRTY\<rparr>, s2)))))"

abbreviation (input) "NC_DIRTY_BITS \<equiv> (192::int)"

definition read_NC :: "nc_env \<Rightarrow> 's ncio \<Rightarrow> 'a nc3_info_scheme \<Rightarrow> 's \<Rightarrow> (int \<times> 'a nc3_info_scheme \<times> 's) run" where
  "read_NC E io ncp s = run_bind (nc_get_NC E io (ncp\<lparr>dims := free_NC_dimarrayV (dims ncp), attrs := free_NC_attrarrayV (attrs ncp),
     vars := free_NC_vararrayV (vars ncp)\<rparr>) s) (\<lambda>(status, ncp1, s1).
       Done (status, if status = NC_NOERR then ncp1\<lparr>flags := fClr (flags ncp1) NC_DIRTY_BITS\<rparr> else ncp1, s1))"

definition write_NC :: "'s ncio \<Rightarrow> 'a nc3_info_scheme \<Rightarrow> 's \<Rightarrow> (int \<times> 'a nc3_info_scheme \<times> 's) run" where
  "write_NC io ncp s = assert_run (\<not> NC_readonly ncp) (run_bind (ncx_put_NC io ncp s None 0 0) (\<lambda>(status, s1).
     Done (status, if status = NC_NOERR then ncp\<lparr>flags := fClr (flags ncp) NC_DIRTY_BITS\<rparr> else ncp, s1)))"

definition NC_sync :: "'s ncio \<Rightarrow> 'a nc3_info_scheme \<Rightarrow> 's \<Rightarrow> (int \<times> 'a nc3_info_scheme \<times> 's) run" where
  "NC_sync io ncp s = assert_run (\<not> NC_readonly ncp)
     (if NC_hdirty ncp then write_NC io ncp s else if NC_ndirty ncp then write_numrecs io ncp s else Done (NC_NOERR, ncp, s))"

subsection \<open>Fill values\<close>

text \<open>The external form of the default fill value of a type; \<open>Fault\<close> is the assertion on the type.\<close>

definition default_fill :: "int \<Rightarrow> string run" where
  "default_fill type =
     (if type = NC_BYTE then Done (be 1 (-127)) else if type = NC_CHAR then Done (be 1 0)
      else if type = NC_SHORT then Done (be 2 (-32767)) else if type = NC_INT then Done (be 4 (-2147483647))
      else if type = NC_FLOAT then Done (be 4 0x7CF00000) else if type = NC_DOUBLE then Done (be 8 0x479E000000000000)
      else if type = NC_UBYTE then Done (be 1 255) else if type = NC_USHORT then Done (be 2 65535)
      else if type = NC_UINT then Done (be 4 4294967295) else if type = NC_INT64 then Done (be 8 (-9223372036854775806))
      else if type = NC_UINT64 then Done (be 8 18446744073709551614) else Fault)"

text \<open>
  The first part of \<open>fill_NC_var\<close>: the 128 bytes of \<open>xfillp\<close>, as many copies of the value as fit.
  \<open>xsz\<close> is the size of a value of the variable; the copies must fit exactly.
\<close>

definition fill_pattern :: "nc_env \<Rightarrow> NC_var \<Rightarrow> (int + string) run" where
  "fill_pattern E varp = (let step = nat (var_xsz varp) in
     if step = 0 \<or> 128 mod step \<noteq> 0 then Fault
     else case NC_findattr E (var_attrs varp) ''_FillValue'' of
       Some i \<Rightarrow> (let a = atts_value (var_attrs varp) ! i in
         if att_type a \<noteq> var_type varp \<or> att_nelems a \<noteq> 1 then Done (Inl NC_EBADTYPE)
         else if step \<le> att_xsz a \<and> step \<le> length (att_xvalue a)
         then Done (Inr (concat (replicate (128 div step) (take step (att_xvalue a))))) else Fault)
     | None \<Rightarrow> run_bind (default_fill (var_type varp)) (\<lambda>v.
         if length v = step then Done (Inr (concat (replicate (128 div step) v))) else Fault))"

text \<open>A buffer of \<open>n\<close> bytes filled from the pattern, whole copies and a remainder.\<close>

definition fill_bytes :: "string \<Rightarrow> nat \<Rightarrow> string" where
  "fill_bytes pat n = concat (replicate (n div length pat) pat) @ take (n mod length pat) pat"

function fill_loop :: "'s ncio \<Rightarrow> nat \<Rightarrow> string \<Rightarrow> int \<Rightarrow> nat \<Rightarrow> 's \<Rightarrow> (int \<times> 's) run" where
  "fill_loop io chk pat off remaining s = (let chunksz = min remaining chk in
     run_bind (io_get io s off chunksz RGN_WRITE) (\<lambda>(status, buf, s1).
       if status \<noteq> NC_NOERR then Done (status, s1)
       else run_bind (io_rel io s1 off (fill_bytes pat chunksz) RGN_MODIFIED) (\<lambda>(status, s2).
         if status \<noteq> NC_NOERR then Done (status, s2)
         else if remaining - chunksz = 0 then Done (NC_NOERR, s2)
         else if chunksz = 0 then Loop
         else fill_loop io chk pat (s64 (off + int chunksz)) (remaining - chunksz) s2)))"
  by pat_completeness auto
termination
  by (relation "measure (\<lambda>(io, c, p, off, r, s). r)") auto

declare fill_loop.simps [simp del]

definition fill_NC_var :: "nc_env \<Rightarrow> 's ncio \<Rightarrow> 'a nc3_info_scheme \<Rightarrow> NC_var \<Rightarrow> int \<Rightarrow> int \<Rightarrow> 's \<Rightarrow> (int \<times> 's) run" where
  "fill_NC_var E io ncp varp varsize recno s = run_bind (fill_pattern E varp) (\<lambda>r. case r of Inl status \<Rightarrow> Done (status, s)
     | Inr pat \<Rightarrow> let off = (if IS_RECVAR varp then s64 (var_begin varp + s64 (recsize ncp * recno)) else var_begin varp) in
         assert_run (0 < varsize) (fill_loop io (nat (chunk ncp)) pat off (nat varsize) s))"

text \<open>\<open>fillerup\<close>: every fixed-size variable that is not \<open>no_fill\<close>.\<close>

fun fill_fixed :: "nc_env \<Rightarrow> 's ncio \<Rightarrow> 'a nc3_info_scheme \<Rightarrow> NC_var list \<Rightarrow> 's \<Rightarrow> (int \<times> 's) run" where
  "fill_fixed E io ncp [] s = Done (NC_NOERR, s)"
| "fill_fixed E io ncp (v # vs) s = (if var_no_fill v \<or> IS_RECVAR v then fill_fixed E io ncp vs s
     else run_bind (fill_NC_var E io ncp v (var_len v) 0 s) (\<lambda>(status, s1).
       if status \<noteq> NC_NOERR then Done (status, s1) else fill_fixed E io ncp vs s1))"

definition fillerup :: "nc_env \<Rightarrow> 's ncio \<Rightarrow> 'a nc3_info_scheme \<Rightarrow> 's \<Rightarrow> (int \<times> 's) run" where
  "fillerup E io ncp s = assert_run (\<not> NC_readonly ncp) (fill_fixed E io ncp (vars_value (vars ncp)) s)"

definition fill_added :: "nc_env \<Rightarrow> 's ncio \<Rightarrow> 'a nc3_info_scheme \<Rightarrow> 'b nc3_hdr_scheme \<Rightarrow> 's \<Rightarrow> (int \<times> 's) run" where
  "fill_added E io gnu od s = fill_fixed E io gnu (drop (length (vars_value (vars od))) (vars_value (vars gnu))) s"

text \<open>\<open>fill_added_recs\<close>: the new record variables of one record, then of each old record.\<close>

fun fill_recs :: "nc_env \<Rightarrow> 's ncio \<Rightarrow> 'a nc3_info_scheme \<Rightarrow> bool \<Rightarrow> int \<Rightarrow> NC_var list \<Rightarrow> 's \<Rightarrow> (int \<times> 's) run" where
  "fill_recs E io gnu one recno [] s = Done (NC_NOERR, s)"
| "fill_recs E io gnu one recno (v # vs) s = (if var_no_fill v \<or> \<not> IS_RECVAR v then fill_recs E io gnu one recno vs s
     else run_bind (fill_NC_var E io gnu v (s64 (if one then recsize gnu else u64 (var_len v))) recno s) (\<lambda>(status, s1).
       if status \<noteq> NC_NOERR then Done (status, s1) else fill_recs E io gnu one recno vs s1))"

fun fill_each_rec :: "nc_env \<Rightarrow> 's ncio \<Rightarrow> 'a nc3_info_scheme \<Rightarrow> bool \<Rightarrow> int list \<Rightarrow> NC_var list \<Rightarrow> 's \<Rightarrow> (int \<times> 's) run" where
  "fill_each_rec E io gnu one [] vs s = Done (NC_NOERR, s)"
| "fill_each_rec E io gnu one (r # rs) vs s = run_bind (fill_recs E io gnu one r vs s) (\<lambda>(status, s1).
     if status \<noteq> NC_NOERR then Done (status, s1) else fill_each_rec E io gnu one rs vs s1)"

definition fill_added_recs :: "nc_env \<Rightarrow> 's ncio \<Rightarrow> 'a nc3_info_scheme \<Rightarrow> 'b nc3_hdr_scheme \<Rightarrow> 's \<Rightarrow> (int \<times> 's) run" where
  "fill_added_recs E io gnu od s = fill_each_rec E io gnu (length (filter IS_RECVAR (vars_value (vars gnu))) = 1)
     [0..s32 (numrecs od) - 1] (drop (length (vars_value (vars od))) (vars_value (vars gnu))) s"

subsection \<open>Moving existing data\<close>

text \<open>
  \<open>move_recs_r\<close>: the pairs of new and old variable, the last first, for one record; then the
  records, the last first. Without as many new variables as old ones the C code reads past the array.
\<close>

fun move_rec :: "'s ncio \<Rightarrow> int \<Rightarrow> int \<Rightarrow> int \<Rightarrow> (NC_var \<times> NC_var) list \<Rightarrow> 's \<Rightarrow> (int \<times> 's) run" where
  "move_rec io gnu_rsz old_rsz recno [] s = Done (NC_NOERR, s)"
| "move_rec io gnu_rsz old_rsz recno ((g, o') # ps) s = (if \<not> IS_RECVAR g then move_rec io gnu_rsz old_rsz recno ps s
     else let gnu_off = s64 (var_begin g + gnu_rsz * recno); old_off = s64 (var_begin o' + old_rsz * recno) in
       if gnu_off = old_off then move_rec io gnu_rsz old_rsz recno ps s
       else assert_run (old_off < gnu_off) (run_bind (io_move io s gnu_off old_off (nat (u64 (var_len o'))) 0) (\<lambda>(status, s1).
         if status \<noteq> NC_NOERR then Done (status, s1) else move_rec io gnu_rsz old_rsz recno ps s1)))"

fun move_each_rec :: "'s ncio \<Rightarrow> int \<Rightarrow> int \<Rightarrow> int list \<Rightarrow> (NC_var \<times> NC_var) list \<Rightarrow> 's \<Rightarrow> (int \<times> 's) run" where
  "move_each_rec io gnu_rsz old_rsz [] ps s = Done (NC_NOERR, s)"
| "move_each_rec io gnu_rsz old_rsz (r # rs) ps s = run_bind (move_rec io gnu_rsz old_rsz r ps s) (\<lambda>(status, s1).
     if status \<noteq> NC_NOERR then Done (status, s1) else move_each_rec io gnu_rsz old_rsz rs ps s1)"

definition var_pairs :: "'a nc3_hdr_scheme \<Rightarrow> 'b nc3_hdr_scheme \<Rightarrow> (NC_var \<times> NC_var) list run" where
  "var_pairs gnu od = (if length (vars_value (vars gnu)) < length (vars_value (vars od)) then Fault
     else Done (rev (zip (vars_value (vars gnu)) (vars_value (vars od)))))"

definition move_recs_r :: "'s ncio \<Rightarrow> 'a nc3_info_scheme \<Rightarrow> 'b nc3_hdr_scheme \<Rightarrow> 's \<Rightarrow> (int \<times> 'a nc3_info_scheme \<times> 's) run" where
  "move_recs_r io gnu od s = run_bind (var_pairs gnu od) (\<lambda>ps.
     run_bind (move_each_rec io (recsize gnu) (recsize od) (rev [0..s32 (numrecs od) - 1]) ps s) (\<lambda>(status, s1).
       Done (status, if status = NC_NOERR then gnu\<lparr>numrecs := numrecs od\<rparr> else gnu, s1)))"

text \<open>\<open>move_vars_r\<close>: goes on after a failed move and reports the first failure.\<close>

fun move_fixed :: "'s ncio \<Rightarrow> int \<Rightarrow> (NC_var \<times> NC_var) list \<Rightarrow> 's \<Rightarrow> (int \<times> 's) run" where
  "move_fixed io status [] s = Done (status, s)"
| "move_fixed io status ((g, o') # ps) s = (if IS_RECVAR g \<or> var_begin g \<le> var_begin o' then move_fixed io status ps s
     else run_bind (io_move io s (var_begin g) (var_begin o') (nat (u64 (var_len o'))) 0) (\<lambda>(err, s1).
       move_fixed io (if status = NC_NOERR then err else status) ps s1))"

definition move_vars_r :: "'s ncio \<Rightarrow> 'a nc3_info_scheme \<Rightarrow> 'b nc3_hdr_scheme \<Rightarrow> 's \<Rightarrow> (int \<times> 's) run" where
  "move_vars_r io gnu od s = run_bind (var_pairs gnu od) (\<lambda>ps. move_fixed io NC_NOERR ps s)"

subsection \<open>Leaving define mode\<close>

text \<open>The moves of \<open>NC_endef\<close> after a redef.\<close>

definition endef_moves :: "'s ncio \<Rightarrow> 'a nc3_info_scheme \<Rightarrow> 'b nc3_hdr_scheme \<Rightarrow> 's \<Rightarrow> (int \<times> 'a nc3_info_scheme \<times> 's) run" where
  "endef_moves io ncp od s = (if vars_value (vars ncp) = [] then Done (NC_NOERR, ncp, s)
     else if begin_rec od < begin_rec ncp
     then run_bind (move_recs_r io ncp od s) (\<lambda>(status, ncp1, s1). if status \<noteq> NC_NOERR then Done (status, ncp1, s1)
       else if begin_var od < begin_var ncp1
       then run_bind (move_vars_r io ncp1 od s1) (\<lambda>(status, s2). Done (status, ncp1, s2))
       else Done (NC_NOERR, ncp1, s1))
     else run_bind (if begin_var od < begin_var ncp then move_vars_r io ncp od s else Done (NC_NOERR, s)) (\<lambda>(status, s1).
       if status \<noteq> NC_NOERR then Done (status, ncp, s1)
       else if recsize od < recsize ncp then move_recs_r io ncp od s1 else Done (NC_NOERR, ncp, s1)))"

definition endef_fill :: "nc_env \<Rightarrow> 's ncio \<Rightarrow> 'a nc3_info_scheme \<Rightarrow> 's \<Rightarrow> (int \<times> 's) run" where
  "endef_fill E io ncp s = (if NC_IsNew ncp then fillerup E io ncp s
     else case old ncp of None \<Rightarrow> Done (NC_NOERR, s)
     | Some o' \<Rightarrow> if length (vars_value (vars o')) < length (vars_value (vars ncp))
         then run_bind (fill_added E io ncp o' s) (\<lambda>(status, s1).
           if status \<noteq> NC_NOERR then Done (status, s1) else fill_added_recs E io ncp o' s1)
         else Done (NC_NOERR, s))"

abbreviation (input) "NC_DEFINE_BITS \<equiv> (10::int)"

definition NC_endef :: "nc_env \<Rightarrow> 's ncio \<Rightarrow> 'a nc3_info_scheme \<Rightarrow> int \<Rightarrow> int \<Rightarrow> int \<Rightarrow> int \<Rightarrow> 's \<Rightarrow> (int \<times> 'a nc3_info_scheme \<times> 's) run" where
  "NC_endef E io ncp h_minfree v_align v_minfree r_align s = assert_run (\<not> NC_readonly ncp \<and> NC_indef ncp)
    (run_bind (NC_check_vlens ncp) (\<lambda>status. if status \<noteq> NC_NOERR then Done (status, ncp, s)
     else run_bind (NC_begins ncp h_minfree v_align v_minfree r_align) (\<lambda>(status, ncp1). if status \<noteq> NC_NOERR then Done (status, ncp1, s)
     else if NC_check_voffs ncp1 \<noteq> NC_NOERR then Done (NC_check_voffs ncp1, ncp1, s)
     else run_bind (case old ncp1 of None \<Rightarrow> Done (NC_NOERR, ncp1, s)
         | Some o' \<Rightarrow> assert_run (\<not> NC_IsNew ncp1 \<and> fIsSet (flags ncp1) NC_INDEF \<and> begin_rec o' \<le> begin_rec ncp1 \<and> begin_var o' \<le> begin_var ncp1)
             (endef_moves io ncp1 o' s)) (\<lambda>(status, ncp2, s2). if status \<noteq> NC_NOERR then Done (status, ncp2, s2)
     else run_bind (write_NC io ncp2 s2) (\<lambda>(status, ncp3, s3). if status \<noteq> NC_NOERR then Done (status, ncp3, s3)
     else run_bind (endef_fill E io ncp3 s3) (\<lambda>(status, s4). if status \<noteq> NC_NOERR then Done (status, ncp3, s4)
     else run_bind (io_sync io s4) (\<lambda>(status, s5).
       Done (status, ncp3\<lparr>old := None, flags := fClr (flags ncp3) NC_DEFINE_BITS\<rparr>, s5))))))))"

text \<open>\<open>NC_calcsize\<close>. The branch for a huge last variable compares a length that was never cut to 32 bits.\<close>

definition NC_calcsize :: "'a nc3_hdr_scheme \<Rightarrow> int run" where
  "NC_calcsize ncp = (let vs = vars_value (vars ncp) in
     if vs = [] then Done (s64 (xsz ncp))
     else if filter IS_RECVAR vs = [] then (let lf = List.last vs in
       Done (s64 (var_begin lf + (if var_len lf = X_UINT_MAX
         then foldl (\<lambda>a d. s64 (a * d)) 1 (if var_shape lf = [] then replicate (var_ndims lf) 1 else take (var_ndims lf) (var_shape lf))
         else var_len lf))))
     else Done (s64 (begin_rec ncp + numrecs ncp * recsize ncp)))"

end
