(* ===== verification/NC3_Endef.thy ===== *)
theory NC3_Endef
  imports NC3_Layout
begin

text \<open>
  What leaving define mode achieves: the layout \<open>NC_begins\<close> computes for a new file, against a
  plain specification of it (\<open>place\<close>), and the moves of existing data, which never destroy bytes that are
  still to be moved.
\<close>

subsection \<open>Starts\<close>

lemma D_RNDUP_ok:
  assumes "0 \<le> x" "1 \<le> a" "x + a \<le> X_INT64_MAX"
  shows "D_RNDUP x a = Done ((x + a - 1) div a * a)"
proof -
  have a: "s64 a = a" "s64 (x + a - 1) = x + a - 1" using assms by (simp_all add: s64_id)
  have q: "0 \<le> (x + a - 1) div a" using assms by (simp add: pos_imp_zdiv_nonneg_iff)
  have m: "(x + a - 1) div a * a \<le> x + a - 1" using div_mult_mod_eq [of "x + a - 1" a] pos_mod_sign [of a "x + a - 1"] assms(2) by linarith
  have c: "c_div (x + a - 1) a = Done ((x + a - 1) div a)"
    using assms by (cases "x + a - 1 = 0") (auto simp: c_div_def sgn_if)
  have "0 \<le> (x + a - 1) div a * a" using q assms(2) by simp
  then have "s64 ((x + a - 1) div a * a) = (x + a - 1) div a * a" using m assms by (intro s64_id) linarith+
  with a c show ?thesis by (simp add: D_RNDUP_def)
qed

lemma round_up:
  assumes "1 \<le> (a::int)"
  shows "x \<le> (x + a - 1) div a * a" "(x + a - 1) div a * a < x + a" "(x + a - 1) div a * a mod a = 0"
proof -
  have "(x + a - 1) div a * a + (x + a - 1) mod a = x + a - 1" "0 \<le> (x + a - 1) mod a" "(x + a - 1) mod a < a" using assms by simp_all
  then show "x \<le> (x + a - 1) div a * a" "(x + a - 1) div a * a < x + a" by linarith+
qed simp

text \<open>A start leaves the room asked for and is aligned.\<close>

lemma begins_start_ok:
  assumes "0 \<le> cur" "0 \<le> used" "0 \<le> free" "1 \<le> a" "used + free + a \<le> X_INT64_MAX" "cur + a \<le> X_INT64_MAX"
  shows "\<exists>b. begins_start cur used free a = Done b \<and> used + free \<le> b \<and> b mod a = 0 \<and> (b = cur \<or> b < used + free + a) \<and>
    (cur < used + free \<longrightarrow> b < used + free + a)"
proof -
  have u: "u64 cur = cur" "u64 (used + free) = used + free" using assms by (simp_all add: u64_id)
  have s: "s64 free = free" "s64 (used + free) = used + free" using assms by (simp_all add: s64_id)
  let ?r = "\<lambda>x. (x + a - 1) div a * a"
  have d: "D_RNDUP cur a = Done (?r cur)" "D_RNDUP used a = Done (?r used)" "D_RNDUP (used + free) a = Done (?r (used + free))"
    using assms by (simp_all add: D_RNDUP_ok)
  note r1 = round_up [OF assms(4), of used] and r2 = round_up [OF assms(4), of "used + free"] and r0 = round_up [OF assms(4), of cur]
  have ub: "u64 (?r used) = ?r used" using r1(1,2) assms by (intro u64_id) linarith+
  have nf: "begins_start cur used free a = Done (if ?r used < used + free then ?r (used + free) else ?r used)" if "cur < used + free \<or> cur \<noteq> ?r cur"
    using that u s d ub by (auto simp: begins_start_def)
  show ?thesis
  proof (cases "cur < used + free \<or> cur \<noteq> ?r cur")
    case True
    show ?thesis unfolding nf [OF True] using r1 r2 assms(3) by (cases "?r used < used + free") auto
  next
    case False
    then have "begins_start cur used free a = Done cur" using u d by (simp add: begins_start_def)
    moreover have "cur mod a = 0" using r0(3) False by metis
    ultimately show ?thesis using False by auto
  qed
qed

lemma begins_start_keep:
  assumes "0 \<le> used" "0 \<le> free" "used + free \<le> cur" "cur mod a = 0" "1 \<le> a" "cur + a \<le> X_INT64_MAX"
  shows "begins_start cur used free a = Done cur"
proof -
  have "u64 cur = cur" "u64 (used + free) = used + free" using assms by (simp_all add: u64_id)
  moreover have "(cur + a - 1) div a * a = cur"
  proof -
    obtain k where k: "cur = a * k" using assms(4) by (auto elim: dvdE simp: mod_eq_0_iff_dvd)
    have "(a - 1) div a = 0" using assms(5) by simp
    then have "(a - 1 + a * k) div a = k" using assms(5) by (simp add: div_mult_self2)
    then show ?thesis by (simp add: k algebra_simps)
  qed
  ultimately show ?thesis using assms by (simp add: begins_start_def D_RNDUP_ok)
qed

subsection \<open>The layout of a new file\<close>

text \<open>One after the other from \<open>b\<close> on, the variables that \<open>P\<close> picks.\<close>

fun place :: "(NC_var \<Rightarrow> bool) \<Rightarrow> int \<Rightarrow> NC_var list \<Rightarrow> NC_var list" where
  "place P b [] = []"
| "place P b (v # vs) = (if P v then v\<lparr>var_begin := b\<rparr> # place P (b + var_len v) vs else v # place P b vs)"

definition total_len :: "(NC_var \<Rightarrow> bool) \<Rightarrow> NC_var list \<Rightarrow> int" where
  "total_len P vs = sum_list (map var_len (filter P vs))"

abbreviation "is_fixed v \<equiv> \<not> IS_RECVAR v"

lemma total_Cons: "total_len P (v # vs) = (if P v then var_len v else 0) + total_len P vs"
  by (simp add: total_len_def)

lemma total_nonneg: "\<forall>v \<in> set vs. 0 \<le> var_len v \<Longrightarrow> 0 \<le> total_len P vs"
  by (auto simp: total_len_def intro!: sum_list_nonneg)

lemma begins_fixed_new:
  assumes "0 \<le> b" "\<forall>v \<in> set vs. 0 \<le> var_len v" "b + total_len is_fixed vs \<le> (if off4 then X_OFF_MAX else X_INT64_MAX)"
  shows "begins_fixed off4 b vs None = (NC_NOERR, b + total_len is_fixed vs, place is_fixed b vs)"
  using assms
proof (induction vs arbitrary: b)
  case (Cons v vs)
  have t: "0 \<le> total_len is_fixed vs" using Cons.prems(2) by (simp add: total_nonneg)
  show ?case
  proof (cases "IS_RECVAR v")
    case True
    with Cons show ?thesis by (simp add: total_Cons)
  next
    case False
    with Cons.prems t have le: "b + var_len v \<le> (if off4 then X_OFF_MAX else X_INT64_MAX)" "0 \<le> var_len v" by (simp_all add: total_Cons)
    then have s: "s64 (b + var_len v) = b + var_len v" using Cons.prems(1) by (intro s64_id) (simp_all split: if_splits)
    have "begins_fixed off4 (b + var_len v) vs None = (NC_NOERR, b + var_len v + total_len is_fixed vs, place is_fixed (b + var_len v) vs)"
      using Cons.prems False by (intro Cons.IH) (simp_all add: total_Cons)
    with False Cons.prems(1) le s show ?thesis by (auto simp: total_Cons)
  qed
qed (simp add: total_len_def)

lemma begins_recs_new:
  assumes "0 \<le> b" "0 \<le> rsz" "\<forall>v \<in> set vs. 0 \<le> var_len v" "b + total_len IS_RECVAR vs \<le> (if off4 then X_OFF_MAX else X_INT64_MAX)"
    "rsz + total_len IS_RECVAR vs \<le> X_INT64_MAX"
  shows "begins_recs off4 b rsz lst vs None = (NC_NOERR, rsz + total_len IS_RECVAR vs,
    (if filter IS_RECVAR vs = [] then lst else Some (List.last (filter IS_RECVAR (place IS_RECVAR b vs)))), place IS_RECVAR b vs)"
  using assms
proof (induction vs arbitrary: b rsz lst)
  case (Cons v vs)
  have t: "0 \<le> total_len IS_RECVAR vs" using Cons.prems(3) by (simp add: total_nonneg)
  show ?case
  proof (cases "IS_RECVAR v")
    case False
    with Cons show ?thesis by (simp add: total_Cons)
  next
    case True
    with Cons.prems t have le: "b + var_len v \<le> (if off4 then X_OFF_MAX else X_INT64_MAX)" "rsz + var_len v \<le> X_INT64_MAX" "0 \<le> var_len v"
      by (simp_all add: total_Cons)
    then have s: "s64 (b + var_len v) = b + var_len v" using Cons.prems(1) by (intro s64_id) (simp_all split: if_splits)
    have u: "u64 (rsz + var_len v) = rsz + var_len v" using le Cons.prems(2) by (intro u64_id) simp_all
    have r: "IS_RECVAR (v\<lparr>var_begin := b\<rparr>)" using True by (simp add: IS_RECVAR_def)
    have "begins_recs off4 (b + var_len v) (rsz + var_len v) (Some (v\<lparr>var_begin := b\<rparr>)) vs None = (NC_NOERR, rsz + var_len v + total_len IS_RECVAR vs,
      (if filter IS_RECVAR vs = [] then Some (v\<lparr>var_begin := b\<rparr>) else Some (List.last (filter IS_RECVAR (place IS_RECVAR (b + var_len v) vs)))),
      place IS_RECVAR (b + var_len v) vs)"
      using Cons.prems True by (intro Cons.IH) (simp_all add: total_Cons)
    moreover have "filter IS_RECVAR (place IS_RECVAR b' ws) = [] \<longleftrightarrow> filter IS_RECVAR ws = []" for b' ws
      by (induction ws arbitrary: b') (simp_all add: IS_RECVAR_def)
    ultimately show ?thesis using True Cons.prems(1) le s u r by (auto simp: total_Cons Let_def)
  qed
qed (simp add: total_len_def)

lemma place_filter: "filter P (place P b vs) = place P b (filter P vs)" if "\<And>v c. P (v\<lparr>var_begin := c\<rparr>) = P v"
  by (induction vs arbitrary: b) (simp_all add: that)

lemma place_other: "filter Q (place P b vs) = filter Q vs" if "\<And>v. Q v \<Longrightarrow> \<not> P v" "\<And>v c. Q (v\<lparr>var_begin := c\<rparr>) = Q v"
  using that by (induction vs arbitrary: b) auto

lemma IS_RECVAR_begin [simp]: "IS_RECVAR (v\<lparr>var_begin := c\<rparr>) = IS_RECVAR v"
  by (simp add: IS_RECVAR_def)

lemma total_place: "total_len Q (place P b vs) = total_len Q vs" if "\<And>v c. Q (v\<lparr>var_begin := c\<rparr>) = Q v"
  by (induction vs arbitrary: b) (simp_all add: total_Cons total_len_def that)

lemma place_bounds: "\<forall>v \<in> set vs. 0 \<le> var_len v \<Longrightarrow> \<forall>w \<in> set (filter P (place P b vs)). b \<le> var_begin w \<and> var_begin w + var_len w \<le> b + total_len P vs"
proof (induction vs arbitrary: b)
  case (Cons v vs)
  have t: "0 \<le> total_len P vs" "0 \<le> var_len v" using Cons.prems by (simp_all add: total_nonneg)
  show ?case
  proof (cases "P v")
    case True
    have "\<forall>w \<in> set (filter P (place P (b + var_len v) vs)). b + var_len v \<le> var_begin w \<and> var_begin w + var_len w \<le> b + var_len v + total_len P vs"
      using Cons by simp
    with True t show ?thesis by (auto simp: total_Cons split: if_splits)
  next
    case False
    with Cons show ?thesis by (simp add: total_Cons)
  qed
qed simp

lemma place_sorted: "\<forall>v \<in> set vs. 0 \<le> var_len v \<Longrightarrow> (\<And>v c. P (v\<lparr>var_begin := c\<rparr>) = P v) \<Longrightarrow>
    sorted_wrt (\<lambda>v w. var_begin v + var_len v \<le> var_begin w) (filter P (place P b vs))"
  using place_bounds [of _ P] by (induction vs arbitrary: b) fastforce+

lemma place_len: "\<forall>v \<in> set vs. 0 \<le> var_len v \<Longrightarrow> \<forall>v \<in> set (place P b vs). 0 \<le> var_len v"
  by (induction vs arbitrary: b) auto

lemma one_rec_var:
  assumes "\<forall>v \<in> set (vs :: NC_var list). 0 < var_len v" "filter P vs \<noteq> []"
  shows "total_len P vs = var_len (List.last (filter P vs)) \<longleftrightarrow> length (filter P vs) = 1"
proof -
  obtain ws w where f: "filter P vs = ws @ [w]" using assms(2) by (cases "filter P vs" rule: rev_cases) auto
  have "set ws \<subseteq> set vs" using f by (metis filter_is_subset set_append Un_subset_iff)
  then have "ws \<noteq> [] \<Longrightarrow> 0 < sum_list (map var_len ws)" using assms(1)
    by (cases ws) (auto intro!: add_pos_nonneg sum_list_nonneg simp: less_imp_le subset_iff)
  then show ?thesis by (cases "ws = []") (auto simp: total_len_def f)
qed

lemma place_last:
  "xs \<noteq> [] \<Longrightarrow> (\<And>v c. f (v\<lparr>var_begin := c\<rparr>) = f v) \<Longrightarrow> f (List.last (place P b xs)) = f (List.last xs)"
proof (induction xs arbitrary: b)
  case (Cons x xs)
  have "place P b' xs \<noteq> []" if "xs \<noteq> []" for b' using that by (cases xs) auto
  with Cons show ?case by (cases "xs = []") auto
qed simp

lemma member_le_total: "\<forall>v \<in> set vs. 0 \<le> var_len v \<Longrightarrow> v \<in> set vs \<Longrightarrow> P v \<Longrightarrow> var_len v \<le> total_len P vs"
proof (induction vs)
  case (Cons w vs)
  have "0 \<le> total_len P vs" "0 \<le> var_len w" using Cons.prems(1) by (simp_all add: total_nonneg)
  with Cons show ?case by (cases "v = w") (auto simp: total_Cons)
qed simp

text \<open>The record size \<open>NC_begins\<close> ends with: unpadded for a single record variable.\<close>

definition packed_recsize :: "NC_var list \<Rightarrow> int" where
  "packed_recsize vs = (case filter IS_RECVAR vs of [v] \<Rightarrow> u64 (hd (var_dsizes v) * var_xsz v) | _ \<Rightarrow> total_len IS_RECVAR vs)"

lemma recsize_step:
  assumes lens: "\<forall>v \<in> set vs. 0 < var_len v" "\<forall>v \<in> set vs. IS_RECVAR v \<longrightarrow> var_dsizes v \<noteq> []"
    and t: "total_len IS_RECVAR vs \<le> X_INT64_MAX"
  shows "(case if filter IS_RECVAR vs = [] then None else Some (List.last (place IS_RECVAR br (filter IS_RECVAR vs))) of
      None \<Rightarrow> Done (total_len IS_RECVAR vs) | Some l \<Rightarrow> if total_len IS_RECVAR vs = u64 (var_len l)
        then run_bind (peek (var_dsizes l) 0) (\<lambda>d. Done (u64 (d * var_xsz l))) else Done (total_len IS_RECVAR vs)) = Done (packed_recsize vs)"
proof (cases "filter IS_RECVAR vs = []")
  case True
  then show ?thesis by (simp add: packed_recsize_def)
next
  case False
  let ?l = "List.last (filter IS_RECVAR vs)" and ?m = "List.last (place IS_RECVAR br (filter IS_RECVAR vs))"
  have nn: "\<forall>v \<in> set vs. 0 \<le> var_len v" using lens(1) by (simp add: less_imp_le)
  have same: "var_len ?m = var_len ?l" "var_xsz ?m = var_xsz ?l" "var_dsizes ?m = var_dsizes ?l"
    by (rule place_last; use False in simp)+
  have mem: "?l \<in> set vs" "IS_RECVAR ?l" using last_in_set [OF False] by auto
  have "var_len ?l \<le> total_len IS_RECVAR vs" by (rule member_le_total) (use nn mem in blast)+
  then have u: "u64 (var_len ?l) = var_len ?l" using mem nn t by (intro u64_id) force+
  have d: "var_dsizes ?l \<noteq> []" using mem lens(2) by blast
  show ?thesis
  proof (cases "length (filter IS_RECVAR vs) = 1")
    case True
    then obtain w where w: "filter IS_RECVAR vs = [w]" by (metis length_0_conv length_Suc_conv One_nat_def)
    then show ?thesis using same u d one_rec_var [OF lens(1) False] True
      by (simp add: packed_recsize_def hd_conv_nth peek_def)
  next
    case False': False
    then have "packed_recsize vs = total_len IS_RECVAR vs" by (auto simp: packed_recsize_def split: list.splits)
    then show ?thesis using same u one_rec_var [OF lens(1) False] False' False by simp
  qed
qed

text \<open>
  C16: for a new file, \<open>NC_begins\<close> lays the fixed-size variables out without gaps from an aligned
  start that leaves \<open>h_minfree\<close> bytes behind the header, and the record variables from an aligned start
  that leaves \<open>v_minfree\<close> bytes behind them; the record size is the sum of their lengths, or
  the unpadded size of a single record variable; and \<open>NC_check_voffs\<close> accepts the result.
\<close>

theorem NC_begins_new_file:
  fixes ncp :: "'a nc3_info_scheme"
  defines "vs \<equiv> vars_value (vars ncp)" and "hdr \<equiv> int (ncx_len_NC ncp (if version_of (flags ncp) = 1 then 4 else 8))"
  assumes new: "old ncp = None" "NC_IsNew ncp" "begin_var ncp = 0" "begin_rec ncp = 0" and vs: "vs \<noteq> []"
    and lens: "\<forall>v \<in> set vs. 0 < var_len v" "\<forall>v \<in> set vs. IS_RECVAR v \<longrightarrow> var_dsizes v \<noteq> []"
    and args: "0 \<le> h_minfree" "0 \<le> v_minfree" "1 \<le> v_align" "1 \<le> r_align"
    and limit: "hdr + h_minfree + v_align + total_len is_fixed vs + v_minfree + r_align + total_len IS_RECVAR vs
      \<le> (if version_of (flags ncp) = 1 then X_OFF_MAX else X_INT64_MAX)"
  shows "\<exists>bv br ncp'. NC_begins ncp h_minfree v_align v_minfree r_align = Done (NC_NOERR, ncp') \<and>
    hdr + h_minfree \<le> bv \<and> bv < hdr + h_minfree + v_align \<and> bv mod v_align = 0 \<and>
    bv + total_len is_fixed vs + v_minfree \<le> br \<and> br < bv + total_len is_fixed vs + v_minfree + r_align \<and> br mod r_align = 0 \<and>
    ncp' = ncp\<lparr>xsz := hdr, begin_var := (if filter is_fixed vs = [] then br else bv), begin_rec := br, numrecs := 0,
      recsize := packed_recsize vs,
      vars := (vars ncp)\<lparr>vars_value := place IS_RECVAR br (place is_fixed bv vs)\<rparr>\<rparr> \<and>
    NC_check_voffs ncp' = NC_NOERR"
proof -
  let ?off4 = "\<not> (fIsSet (flags ncp) NC_64BIT_OFFSET \<or> fIsSet (flags ncp) NC_64BIT_DATA)"
  have off4: "?off4 \<longleftrightarrow> version_of (flags ncp) = 1" by (auto simp: version_of_def)
  let ?max = "if version_of (flags ncp) = 1 then X_OFF_MAX else X_INT64_MAX"
  have mx: "?max \<le> X_INT64_MAX" by simp
  have nn: "\<forall>v \<in> set vs. 0 \<le> var_len v" using lens(1) by (simp add: less_imp_le)
  have t: "0 \<le> total_len is_fixed vs" "0 \<le> total_len IS_RECVAR vs" using nn by (simp_all add: total_nonneg)
  have hdr: "0 < hdr" by (simp add: hdr_def ncx_len_NC_def Let_def)
  have al: "v_align \<noteq> NC_ALIGN_CHUNK" "r_align \<noteq> NC_ALIGN_CHUNK" using limit mx t args hdr by auto
  have "\<exists>b. begins_start 0 hdr h_minfree v_align = Done b \<and> hdr + h_minfree \<le> b \<and> b mod v_align = 0 \<and> (b = 0 \<or> b < hdr + h_minfree + v_align) \<and>
      (0 < hdr + h_minfree \<longrightarrow> b < hdr + h_minfree + v_align)"
    using limit mx t args hdr by (intro begins_start_ok) linarith+
  then obtain bv where bv: "begins_start 0 hdr h_minfree v_align = Done bv" "hdr + h_minfree \<le> bv" "bv mod v_align = 0"
      "bv < hdr + h_minfree + v_align" using hdr args(1) by auto
  let ?fin = "bv + total_len is_fixed vs"
  have endb: "0 \<le> bv" "0 < ?fin" "?fin + v_minfree + r_align + total_len IS_RECVAR vs \<le> ?max" using bv hdr args t limit by linarith+
  have "\<exists>b. begins_start 0 ?fin v_minfree r_align = Done b \<and> ?fin + v_minfree \<le> b \<and> b mod r_align = 0 \<and> (b = 0 \<or> b < ?fin + v_minfree + r_align) \<and>
      (0 < ?fin + v_minfree \<longrightarrow> b < ?fin + v_minfree + r_align)"
    using endb mx t args by (intro begins_start_ok) linarith+
  then obtain br where br: "begins_start 0 ?fin v_minfree r_align = Done br" "?fin + v_minfree \<le> br" "br mod r_align = 0"
      "br < ?fin + v_minfree + r_align" using endb(2) args(2) by auto
  have recb: "0 \<le> br" "br + total_len IS_RECVAR vs \<le> ?max" "?fin \<le> ?max" "total_len IS_RECVAR vs \<le> X_INT64_MAX"
    using br endb args t mx by linarith+
  let ?vs1 = "place is_fixed bv vs"
  let ?vs2 = "place IS_RECVAR br ?vs1"
  have p1: "begins_fixed ?off4 bv vs None = (NC_NOERR, ?fin, ?vs1)"
    using begins_fixed_new [OF endb(1) nn, of ?off4] recb(3) unfolding off4 by simp
  have nn1: "\<forall>v \<in> set ?vs1. 0 \<le> var_len v" by (rule place_len [OF nn])
  have tp: "total_len IS_RECVAR ?vs1 = total_len IS_RECVAR vs" "filter IS_RECVAR ?vs1 = filter IS_RECVAR vs"
    by (simp_all add: total_place place_other)
  let ?lst = "if filter IS_RECVAR vs = [] then None else Some (List.last (filter IS_RECVAR ?vs2))"
  have p2: "begins_recs ?off4 br 0 None ?vs1 None = (NC_NOERR, total_len IS_RECVAR vs, ?lst, ?vs2)"
    using begins_recs_new [OF recb(1) _ nn1, of 0 ?off4 None] recb(2,4) tp unfolding off4 by simp
  have first: "(case filter is_fixed ?vs1 of [] \<Rightarrow> br | v # _ \<Rightarrow> var_begin v) = (if filter is_fixed vs = [] then br else bv)"
    by (cases "filter is_fixed vs") (auto simp: place_filter dest: filter_eq_ConsD)
  define rs where "rs = packed_recsize vs"
  have rsz: "(case ?lst of None \<Rightarrow> Done (total_len IS_RECVAR vs) | Some l \<Rightarrow> if total_len IS_RECVAR vs = u64 (var_len l)
      then run_bind (peek (var_dsizes l) 0) (\<lambda>d. Done (u64 (d * var_xsz l))) else Done (total_len IS_RECVAR vs)) = Done rs"
  proof -
    have f2: "filter IS_RECVAR ?vs2 = place IS_RECVAR br (filter IS_RECVAR vs)" using tp(2) by (simp add: place_filter)
    show ?thesis unfolding rs_def f2 by (rule recsize_step [OF lens recb(4)])
  qed
  let ?ncp = "ncp\<lparr>xsz := hdr, begin_var := (if filter is_fixed vs = [] then br else bv), begin_rec := br, numrecs := 0,
      recsize := rs, vars := (vars ncp)\<lparr>vars_value := ?vs2\<rparr>\<rparr>"
  define o4 where "o4 = ?off4"
  define vs1 where "vs1 = ?vs1"
  define vs2 where "vs2 = ?vs2"
  define l where "l = ?lst"
  have q: "begins_fixed o4 bv vs None = (NC_NOERR, ?fin, vs1)" "begins_recs o4 br 0 None vs1 None = (NC_NOERR, total_len IS_RECVAR vs, l, vs2)"
      "(case filter is_fixed vs1 of [] \<Rightarrow> br | v # _ \<Rightarrow> var_begin v) = (if filter is_fixed vs = [] then br else bv)"
      "(case l of None \<Rightarrow> Done (total_len IS_RECVAR vs) | Some l \<Rightarrow> if total_len IS_RECVAR vs = u64 (var_len l)
        then run_bind (peek (var_dsizes l) 0) (\<lambda>d. Done (u64 (d * var_xsz l))) else Done (total_len IS_RECVAR vs)) = Done rs"
    using p1 p2 first rsz unfolding o4_def vs1_def vs2_def l_def by blast+
  define n1 where "n1 = ncp\<lparr>xsz := hdr\<rparr>"
  have n1: "vars n1 = vars ncp" "vars_value (vars ncp) = vs" "begin_var n1 = 0" "begin_rec n1 = 0" "old n1 = None" "xsz n1 = hdr" "NC_IsNew n1"
    using new by (simp_all add: n1_def NC_IsNew_def vs_def)
  have olen: "int (ncx_len_NC ncp (if o4 then 4 else 8)) = hdr" unfolding hdr_def o4_def off4 by simp
  have "NC_begins ncp h_minfree v_align v_minfree r_align =
      Done (NC_NOERR, (set_vars n1 vs2)\<lparr>begin_var := (if filter is_fixed vs = [] then br else bv), begin_rec := br, recsize := rs, numrecs := 0\<rparr>)"
    unfolding NC_begins_def Let_def o4_def [symmetric] olen n1_def [symmetric] if_not_P [OF al(1)] if_not_P [OF al(2)] n1 option.case option.map
    using vs by (simp add: bv(1) q(1) br(1) q(2)) (simp add: q(3,4) n1(7))
  then have begins: "NC_begins ncp h_minfree v_align v_minfree r_align = Done (NC_NOERR, ?ncp)"
    by (simp add: n1_def set_vars_def vs2_def)
  have fx: "filter is_fixed ?vs2 = filter is_fixed ?vs1" by (rule place_other) simp_all
  have bf: "\<forall>w \<in> set (filter is_fixed ?vs1). bv \<le> var_begin w \<and> var_begin w + var_len w \<le> ?fin" by (rule place_bounds [OF nn])
  have brc: "\<forall>w \<in> set (filter IS_RECVAR ?vs2). br \<le> var_begin w \<and> var_begin w + var_len w \<le> br + total_len IS_RECVAR vs"
    using place_bounds [OF nn1, of IS_RECVAR br] tp(1) by simp
  have all: "\<forall>v \<in> set ?vs2. 0 \<le> var_len v \<and> 0 \<le> var_begin v \<and> var_begin v + var_len v \<le> X_INT64_MAX"
  proof
    fix w assume w: "w \<in> set ?vs2"
    have "0 \<le> var_len w" using place_len [OF nn1] w by blast
    moreover have "w \<in> set (filter IS_RECVAR ?vs2) \<or> w \<in> set (filter is_fixed ?vs2)" using w by auto
    ultimately show "0 \<le> var_len w \<and> 0 \<le> var_begin w \<and> var_begin w + var_len w \<le> X_INT64_MAX"
      using bf brc recb endb(1) mx unfolding fx by fastforce
  qed
  have "?vs2 \<noteq> []" using vs by (cases vs) auto
  let ?bv = "if filter is_fixed vs = [] then br else bv"
  have fe: "filter is_fixed vs = [] \<Longrightarrow> filter is_fixed ?vs1 = []" by (simp only: place_filter IS_RECVAR_begin place.simps)
  have bf': "\<forall>w \<in> set (filter is_fixed ?vs2). ?bv \<le> var_begin w \<and> var_begin w + var_len w \<le> br"
    unfolding fx using bf br(2) args(2) fe by (cases "filter is_fixed vs = []") (simp, fastforce)
  have bb: "?bv \<le> br" using br(2) args(2) t by (cases "filter is_fixed vs = []") auto
  have br': "\<forall>w \<in> set (filter IS_RECVAR ?vs2). br \<le> var_begin w" using brc by blast
  have s1: "sorted_wrt (\<lambda>v w. var_begin v + var_len v \<le> var_begin w) (filter is_fixed ?vs2)"
    unfolding fx by (rule place_sorted [OF nn]) simp
  have s2: "sorted_wrt (\<lambda>v w. var_begin v + var_len v \<le> var_begin w) (filter IS_RECVAR ?vs2)" by (rule place_sorted [OF nn1]) simp
  have sel: "vars_value (vars ?ncp) = ?vs2" "begin_var ?ncp = ?bv" "begin_rec ?ncp = br" by simp_all
  from \<open>?vs2 \<noteq> []\<close> have "NC_check_voffs ?ncp = NC_NOERR"
    using NC_check_voffs_iff [of ?ncp, unfolded sel] all bf' bb br' s1 s2 by blast
  with begins bv br show ?thesis unfolding rs_def [symmetric] by (intro exI [of _ bv] exI [of _ br] exI [of _ ?ncp]) simp
qed

lemma NC_begins_new_file_witness:
  "\<exists>(bv::int) (br::int) ncp'. NC_begins (sample_hdr 0 0 [sample_var 0 8 2, sample_var 0 4 0, sample_var 0 20 5]\<lparr>flags := NC_CREAT\<rparr>) 10 4 0 4 =
     Done (NC_NOERR, ncp') \<and> 10 + 28 \<le> br \<and> bv mod 4 = 0 \<and> NC_check_voffs ncp' = NC_NOERR"
proof -
  define n where "n = sample_hdr 0 0 [sample_var 0 8 2, sample_var 0 4 0, sample_var 0 20 5]\<lparr>flags := NC_CREAT\<rparr>"
  have v: "version_of (flags n) = 1" "NC_IsNew n" by (simp_all add: n_def version_of_def NC_IsNew_def fIsSet_def)
  have vs: "vars_value (vars n) = [sample_var 0 8 2, sample_var 0 4 0, sample_var 0 20 5]" by (simp add: n_def sample_hdr_def)
  have o: "old n = None" "begin_var n = 0" "begin_rec n = 0" by (simp_all add: n_def sample_hdr_def)
  have r: "\<not> IS_RECVAR (sample_var 0 8 2)" "IS_RECVAR (sample_var 0 4 0)" "\<not> IS_RECVAR (sample_var 0 20 5)"
      "var_len (sample_var b k m) = k" "var_dsizes (sample_var b k m) \<noteq> []" for b k m
    by (simp_all add: sample_var_def IS_RECVAR_def)
  have t: "total_len is_fixed (vars_value (vars n)) = 28" "total_len IS_RECVAR (vars_value (vars n)) = 4"
    unfolding vs by (simp_all add: total_len_def r)
  have l: "ncx_len_NC n 4 \<le> 1000"
    unfolding ncx_len_NC_def Let_def v
    by (simp add: n_def sample_hdr_def sample_var_def ncx_len_NC_dimarray_def ncx_len_NC_attrarray_def empty_dimarray_def
      ncx_len_NC_vararray_def ncx_len_NC_var_def ncx_len_NC_string_def size_bytes_def RNDUP_def empty_attrarray_def)
  have nv: "vars_value (vars n) \<noteq> []" "\<forall>v \<in> set (vars_value (vars n)). 0 < var_len v"
      "\<forall>v \<in> set (vars_value (vars n)). IS_RECVAR v \<longrightarrow> var_dsizes v \<noteq> []" by (simp_all add: vs r)
  obtain bv br ncp' where b: "NC_begins n 10 4 0 4 = Done (NC_NOERR, ncp')" "int (ncx_len_NC n 4) + 10 \<le> bv" "bv mod 4 = 0" "bv + 28 \<le> br"
      "NC_check_voffs ncp' = NC_NOERR"
    using NC_begins_new_file [OF o(1) v(2) o(2,3) nv, of 10 0 4 4, unfolded v t] l by auto
  then have "10 + 28 \<le> br" by linarith
  with b show ?thesis unfolding n_def [symmetric] by (intro exI [of _ bv] exI [of _ br] exI [of _ ncp']) simp
qed

subsection \<open>Moves\<close>

text \<open>A sequence of copies \<open>(to, from, n)\<close>, each within what the earlier ones left.\<close>

definition move_bytes :: "string \<Rightarrow> nat \<times> nat \<times> nat \<Rightarrow> string" where
  "move_bytes b m = (case m of (to, from_off, n) \<Rightarrow> blit b to (take n (drop from_off b)))"

definition moves_fit :: "string \<Rightarrow> (nat \<times> nat \<times> nat) list \<Rightarrow> bool" where
  "moves_fit b ms \<longleftrightarrow> (\<forall>(to, from_off, n) \<in> set ms. to + n \<le> length b \<and> from_off + n \<le> length b)"

text \<open>Every later source and destination lies below the earlier destinations.\<close>

definition moves_down :: "(nat \<times> nat \<times> nat) list \<Rightarrow> bool" where
  "moves_down ms \<longleftrightarrow> sorted_wrt (\<lambda>(t1, f1, n1) (t2, f2, n2). f2 + n2 \<le> t1 \<and> t2 + n2 \<le> t1) ms"

lemma length_move_bytes: "to + n \<le> length b \<Longrightarrow> from_off + n \<le> length b \<Longrightarrow> length (move_bytes b (to, from_off, n)) = length b"
  by (simp add: move_bytes_def)

lemma take_drop_blit_below: "p + n \<le> to \<Longrightarrow> to + length xs \<le> length b \<Longrightarrow> take n (drop p (blit b to xs)) = take n (drop p b)"
proof -
  assume a: "p + n \<le> to" "to + length xs \<le> length b"
  have "take n (drop p (blit b to xs)) = drop p (take (p + n) (blit b to xs))" by (simp add: take_drop add.commute)
  also have "\<dots> = drop p (take (p + n) b)" using a by (simp add: take_blit_before)
  finally show ?thesis by (simp add: take_drop add.commute)
qed

lemma moves_data:
  "moves_fit b ms \<Longrightarrow> moves_down ms \<Longrightarrow> length (foldl move_bytes b ms) = length b \<and>
    (\<forall>(t, f, n) \<in> set ms. take n (drop t (foldl move_bytes b ms)) = take n (drop f b)) \<and>
    (\<forall>p k. (\<forall>(t, f, n) \<in> set ms. p + k \<le> t \<or> t + n \<le> p) \<longrightarrow> take k (drop p (foldl move_bytes b ms)) = take k (drop p b))"
proof (induction ms arbitrary: b)
  case (Cons m ms)
  obtain t1 f1 n1 where m: "m = (t1, f1, n1)" by (cases m)
  let ?b = "move_bytes b m" and ?c = "foldl move_bytes (move_bytes b m) ms"
  have fit: "t1 + n1 \<le> length b" "f1 + n1 \<le> length b" "moves_fit b ms" and down: "moves_down ms"
    using Cons.prems by (auto simp: m moves_fit_def moves_down_def)
  have b: "?b = blit b t1 (take n1 (drop f1 b))" "length (take n1 (drop f1 b)) = n1" using fit by (simp_all add: m move_bytes_def)
  have len: "length ?b = length b" using fit by (simp add: m length_move_bytes)
  have fit': "moves_fit ?b ms" using fit(3) by (simp add: moves_fit_def len)
  have below: "\<forall>(t, f, n) \<in> set ms. f + n \<le> t1 \<and> t + n \<le> t1" using Cons.prems(2) by (auto simp: moves_down_def m)
  note ih = Cons.IH [OF fit' down]
  have outside: "take k (drop p ?b) = take k (drop p b)" if "p + k \<le> t1 \<or> t1 + n1 \<le> p" for p k
    using that
  proof
    assume "p + k \<le> t1"
    then show ?thesis unfolding b(1) using fit b(2) by (intro take_drop_blit_below) auto
  next
    assume "t1 + n1 \<le> p"
    then show ?thesis unfolding b(1) using fit b(2) by (subst drop_blit_after) auto
  qed
  have first: "take n1 (drop t1 ?c) = take n1 (drop f1 b)"
  proof -
    have "\<forall>(t, f, n) \<in> set ms. t1 + n1 \<le> t \<or> t + n \<le> t1" using below by auto
    then have "take n1 (drop t1 ?c) = take n1 (drop t1 ?b)" using ih by blast
    then show ?thesis unfolding b(1) using take_drop_blit [of t1 "take n1 (drop f1 b)" b 0 n1] fit b(2) by simp
  qed
  have later: "take n (drop t ?c) = take n (drop f b)" if "(t, f, n) \<in> set ms" for t f n
  proof -
    have "take n (drop t ?c) = take n (drop f ?b)" using ih that by blast
    also have "\<dots> = take n (drop f b)" using below that by (intro outside) auto
    finally show ?thesis .
  qed
  have "take k (drop p ?c) = take k (drop p b)" if "\<forall>(t, f, n) \<in> set (m # ms). p + k \<le> t \<or> t + n \<le> p" for p k
  proof -
    have "\<forall>(t, f, n) \<in> set ms. p + k \<le> t \<or> t + n \<le> p" using that by simp
    then have "take k (drop p ?c) = take k (drop p ?b)" using ih by blast
    also have "\<dots> = take k (drop p b)" using that m by (intro outside) simp
    finally show ?thesis .
  qed
  then show ?case using ih len first later by (auto simp: m)
qed simp

subsection \<open>The moves of a redef\<close>

text \<open>The copies of one record, as offsets in the file.\<close>

definition rec_moves :: "int \<Rightarrow> int \<Rightarrow> int \<Rightarrow> (NC_var \<times> NC_var) list \<Rightarrow> (nat \<times> nat \<times> nat) list" where
  "rec_moves grsz orsz r ps = map (\<lambda>(g, o'). (nat (var_begin g + grsz * r), nat (var_begin o' + orsz * r), nat (var_len o')))
     (filter (\<lambda>(g, o'). IS_RECVAR g) ps)"

definition fixed_moves :: "(NC_var \<times> NC_var) list \<Rightarrow> (nat \<times> nat \<times> nat) list" where
  "fixed_moves ps = map (\<lambda>(g, o'). (nat (var_begin g), nat (var_begin o'), nat (var_len o'))) (filter (\<lambda>(g, o'). is_fixed g) ps)"

text \<open>What makes one copy possible in a file of \<open>size\<close> bytes.\<close>

definition move_ok :: "int \<Rightarrow> int \<Rightarrow> int \<Rightarrow> int \<Rightarrow> bool" where
  "move_ok sz to from_off n \<longleftrightarrow> 0 \<le> from_off \<and> from_off \<le> to \<and> 0 \<le> n \<and> to + n \<le> sz \<and> sz \<le> X_INT64_MAX"

lemma move_ok_word:
  "move_ok sz to from_off n \<Longrightarrow> s64 to = to" "move_ok sz to from_off n \<Longrightarrow> s64 from_off = from_off"
  "move_ok sz to from_off n \<Longrightarrow> u64 n = n"
  by (simp_all add: move_ok_def s64_id u64_id)

lemma move_ok_fit: "move_ok (int (length b)) to from_off n \<Longrightarrow> nat to + nat n \<le> length b \<and> nat from_off + nat n \<le> length b"
  by (auto simp: move_ok_def)

lemma move_bytes_same: "t + n \<le> length b \<Longrightarrow> move_bytes b (t, t, n) = b"
  by (simp add: move_bytes_def blit_same)

context ncio_store
begin

lemma move_one:
  assumes "ok s" "move_ok (int (length (bytes s))) to from_off n"
  obtains s' where "io_move io s to from_off (nat n) flg = Done (NC_NOERR, s')" "ok s'"
    "bytes s' = move_bytes (bytes s) (nat to, nat from_off, nat n)" "length (bytes s') = length (bytes s)"
proof -
  have "0 \<le> to" "0 \<le> from_off" using assms(2) by (auto simp: move_ok_def)
  moreover note fit = move_ok_fit [OF assms(2)]
  ultimately obtain s' where "io_move io s to from_off (nat n) flg = Done (NC_NOERR, s')" "ok s'"
    "bytes s' = blit (bytes s) (nat to) (take (nat n) (drop (nat from_off) (bytes s)))"
    using move_law [OF assms(1), of to from_off "nat n" flg] by blast
  moreover have "length (move_bytes (bytes s) (nat to, nat from_off, nat n)) = length (bytes s)"
    using fit by (intro length_move_bytes) simp_all
  ultimately show ?thesis using that by (simp add: move_bytes_def)
qed

lemma move_rec_ok:
  "ok s \<Longrightarrow> \<forall>(g, o') \<in> set ps. IS_RECVAR g \<longrightarrow> move_ok (int (length (bytes s))) (var_begin g + grsz * r) (var_begin o' + orsz * r) (var_len o') \<Longrightarrow>
    \<exists>s'. move_rec io grsz orsz r ps s = Done (NC_NOERR, s') \<and> ok s' \<and> length (bytes s') = length (bytes s) \<and>
      bytes s' = foldl move_bytes (bytes s) (rec_moves grsz orsz r ps)"
proof (induction ps arbitrary: s)
  case (Cons p ps)
  obtain g o' where p: "p = (g, o')" by (cases p)
  show ?case
  proof (cases "IS_RECVAR g")
    case False
    with Cons p show ?thesis by (simp add: rec_moves_def)
  next
    case True
    let ?t = "var_begin g + grsz * r" and ?f = "var_begin o' + orsz * r"
    have m: "move_ok (int (length (bytes s))) ?t ?f (var_len o')" using Cons.prems(2) p True by simp
    show ?thesis
    proof (cases "?t = ?f")
      case True': True
      have "move_bytes (bytes s) (nat ?t, nat ?f, nat (var_len o')) = bytes s"
        unfolding True' using move_ok_fit [OF m] by (intro move_bytes_same) simp
      moreover have "s64 ?t = s64 ?f" using True' by simp
      ultimately show ?thesis using Cons True p by (simp add: rec_moves_def)
    next
      case False
      from move_one [OF Cons.prems(1) m] obtain s1 where s1: "io_move io s ?t ?f (nat (var_len o')) 0 = Done (NC_NOERR, s1)" "ok s1"
        "bytes s1 = move_bytes (bytes s) (nat ?t, nat ?f, nat (var_len o'))" "length (bytes s1) = length (bytes s)" by blast
      have "\<exists>s'. move_rec io grsz orsz r ps s1 = Done (NC_NOERR, s') \<and> ok s' \<and> length (bytes s') = length (bytes s1) \<and>
          bytes s' = foldl move_bytes (bytes s1) (rec_moves grsz orsz r ps)"
        using Cons.prems(2) s1(4) by (intro Cons.IH [OF s1(2)]) simp
      moreover have "?f < ?t" using m False by (simp add: move_ok_def)
      ultimately show ?thesis using True False p s1 move_ok_word [OF m] by (auto simp: rec_moves_def Let_def)
    qed
  qed
qed (simp add: rec_moves_def)

lemma move_each_rec_ok:
  "ok s \<Longrightarrow> \<forall>r \<in> set rs. \<forall>(g, o') \<in> set ps. IS_RECVAR g \<longrightarrow>
      move_ok (int (length (bytes s))) (var_begin g + grsz * r) (var_begin o' + orsz * r) (var_len o') \<Longrightarrow>
    \<exists>s'. move_each_rec io grsz orsz rs ps s = Done (NC_NOERR, s') \<and> ok s' \<and> length (bytes s') = length (bytes s) \<and>
      bytes s' = foldl move_bytes (bytes s) (concat (map (\<lambda>r. rec_moves grsz orsz r ps) rs))"
proof (induction rs arbitrary: s)
  case (Cons r rs)
  have "\<forall>(g, o') \<in> set ps. IS_RECVAR g \<longrightarrow> move_ok (int (length (bytes s))) (var_begin g + grsz * r) (var_begin o' + orsz * r) (var_len o')"
    using Cons.prems(2) by simp
  from move_rec_ok [OF Cons.prems(1) this] obtain s1 where s1: "move_rec io grsz orsz r ps s = Done (NC_NOERR, s1)" "ok s1"
    "length (bytes s1) = length (bytes s)" "bytes s1 = foldl move_bytes (bytes s) (rec_moves grsz orsz r ps)" by blast
  have "\<exists>s'. move_each_rec io grsz orsz rs ps s1 = Done (NC_NOERR, s') \<and> ok s' \<and> length (bytes s') = length (bytes s1) \<and>
      bytes s' = foldl move_bytes (bytes s1) (concat (map (\<lambda>r. rec_moves grsz orsz r ps) rs))"
    using Cons.prems(2) by (intro Cons.IH [OF s1(2)]) (simp add: s1(3))
  then show ?case using s1 by auto
qed simp

lemma move_fixed_ok:
  "ok s \<Longrightarrow> \<forall>(g, o') \<in> set ps. is_fixed g \<longrightarrow> move_ok (int (length (bytes s))) (var_begin g) (var_begin o') (var_len o') \<Longrightarrow>
    \<exists>s'. move_fixed io NC_NOERR ps s = Done (NC_NOERR, s') \<and> ok s' \<and> length (bytes s') = length (bytes s) \<and>
      bytes s' = foldl move_bytes (bytes s) (fixed_moves ps)"
proof (induction ps arbitrary: s)
  case (Cons p ps)
  obtain g o' where p: "p = (g, o')" by (cases p)
  show ?case
  proof (cases "IS_RECVAR g")
    case True
    with Cons p show ?thesis by (simp add: fixed_moves_def)
  next
    case False
    have m: "move_ok (int (length (bytes s))) (var_begin g) (var_begin o') (var_len o')" using Cons.prems(2) p False by simp
    show ?thesis
    proof (cases "var_begin g \<le> var_begin o'")
      case True
      then have eq: "var_begin g = var_begin o'" using m by (simp add: move_ok_def)
      then have "move_bytes (bytes s) (nat (var_begin g), nat (var_begin o'), nat (var_len o')) = bytes s"
        using move_ok_fit [OF m] by (simp add: move_bytes_same)
      with Cons False p True show ?thesis by (simp add: fixed_moves_def)
    next
      case False': False
      from move_one [OF Cons.prems(1) m] obtain s1 where s1: "io_move io s (var_begin g) (var_begin o') (nat (var_len o')) 0 = Done (NC_NOERR, s1)"
        "ok s1" "bytes s1 = move_bytes (bytes s) (nat (var_begin g), nat (var_begin o'), nat (var_len o'))" "length (bytes s1) = length (bytes s)"
        by blast
      have "\<exists>s'. move_fixed io NC_NOERR ps s1 = Done (NC_NOERR, s') \<and> ok s' \<and> length (bytes s') = length (bytes s1) \<and>
          bytes s' = foldl move_bytes (bytes s1) (fixed_moves ps)"
        using Cons.prems(2) s1(4) by (intro Cons.IH [OF s1(2)]) simp
      then show ?thesis using False False' p s1 move_ok_word [OF m] by (auto simp: fixed_moves_def)
    qed
  qed
qed (simp add: fixed_moves_def)

end

text \<open>
  How the new layout \<open>gnu\<close> relates to the old one \<open>od\<close>, for a file of \<open>sz\<close> bytes: the old variables come first
  and in the same order, nothing begins earlier than before, in both layouts variables
  follow each other without overlap, fixed-size ones before \<open>begin_rec\<close> and record variables inside
  their record's slot; and a start that did not move means that none of its variables did.
\<close>

definition redef_ok :: "int \<Rightarrow> 'a nc3_hdr_scheme \<Rightarrow> 'b nc3_hdr_scheme \<Rightarrow> bool" where
  "redef_ok sz gnu od \<longleftrightarrow> (let gv = vars_value (vars gnu); ov = vars_value (vars od); n = length ov in
     n \<le> length gv \<and> (\<forall>i<n. IS_RECVAR (gv ! i) = IS_RECVAR (ov ! i) \<and> 0 \<le> var_len (ov ! i) \<and> 0 \<le> var_begin (ov ! i) \<and>
       var_begin (ov ! i) \<le> var_begin (gv ! i)) \<and>
     (\<forall>j<n. \<forall>i<j. IS_RECVAR (ov ! i) = IS_RECVAR (ov ! j) \<longrightarrow> var_begin (ov ! i) + var_len (ov ! i) \<le> var_begin (ov ! j) \<and>
       var_begin (gv ! i) + var_len (ov ! i) \<le> var_begin (gv ! j)) \<and>
     (\<forall>i<n. is_fixed (ov ! i) \<longrightarrow> var_begin (ov ! i) + var_len (ov ! i) \<le> begin_rec od \<and> var_begin (gv ! i) + var_len (ov ! i) \<le> begin_rec gnu \<and>
       (begin_var gnu \<le> begin_var od \<longrightarrow> var_begin (gv ! i) = var_begin (ov ! i))) \<and>
     (\<forall>i<n. IS_RECVAR (ov ! i) \<longrightarrow> begin_rec od \<le> var_begin (ov ! i) \<and> var_begin (ov ! i) + var_len (ov ! i) \<le> begin_rec od + recsize od \<and>
       begin_rec gnu \<le> var_begin (gv ! i) \<and> var_begin (gv ! i) + var_len (ov ! i) \<le> begin_rec gnu + recsize gnu \<and>
       (begin_rec gnu = begin_rec od \<and> recsize gnu = recsize od \<longrightarrow> var_begin (gv ! i) = var_begin (ov ! i))) \<and>
     0 \<le> begin_rec od \<and> begin_rec od \<le> begin_rec gnu \<and> 0 \<le> recsize od \<and> recsize od \<le> recsize gnu \<and>
     0 \<le> numrecs od \<and> numrecs od < 2147483648 \<and> begin_rec gnu + recsize gnu * numrecs od \<le> sz \<and> sz \<le> X_INT64_MAX)"

lemma slot_order: "0 \<le> (rsz::int) \<Longrightarrow> q < r \<Longrightarrow> rsz * q + rsz \<le> rsz * r"
  using mult_left_mono [of "q + 1" r rsz] by (simp add: distrib_left)

lemma nat_add_le: "0 \<le> a \<Longrightarrow> 0 \<le> b \<Longrightarrow> a + b \<le> c \<Longrightarrow> nat a + nat b \<le> nat c"
  by linarith

lemma rec_moves_rev: "rec_moves g o' r (rev qs) = rev (rec_moves g o' r qs)"
  by (simp add: rec_moves_def rev_map rev_filter [symmetric])

lemma fixed_moves_rev: "fixed_moves (rev qs) = rev (fixed_moves qs)"
  by (simp add: fixed_moves_def rev_map rev_filter [symmetric])

lemma sorted_wrt_filter_map:
  "sorted_wrt (\<lambda>x y. P x \<longrightarrow> P y \<longrightarrow> R (f x) (f y)) xs \<Longrightarrow> sorted_wrt R (map f (filter P xs))"
  by (induction xs) auto

definition var_zip :: "'a nc3_hdr_scheme \<Rightarrow> 'b nc3_hdr_scheme \<Rightarrow> (NC_var \<times> NC_var) list" where
  "var_zip gnu od = zip (vars_value (vars gnu)) (vars_value (vars od))"

lemma redef_pair:
  assumes ok: "redef_ok sz gnu od" and p: "(g, o') \<in> set (var_zip gnu od)"
  shows "IS_RECVAR g = IS_RECVAR o'" "0 \<le> var_len o'" "0 \<le> var_begin o'" "var_begin o' \<le> var_begin g"
    "is_fixed o' \<Longrightarrow> var_begin o' + var_len o' \<le> begin_rec od \<and> var_begin g + var_len o' \<le> begin_rec gnu"
    "IS_RECVAR o' \<Longrightarrow> begin_rec od \<le> var_begin o' \<and> var_begin o' + var_len o' \<le> begin_rec od + recsize od \<and>
      begin_rec gnu \<le> var_begin g \<and> var_begin g + var_len o' \<le> begin_rec gnu + recsize gnu"
proof -
  obtain i where "i < length (vars_value (vars od))" "g = vars_value (vars gnu) ! i" "o' = vars_value (vars od) ! i"
    using p by (auto simp: in_set_zip var_zip_def)
  with ok show "IS_RECVAR g = IS_RECVAR o'" "0 \<le> var_len o'" "0 \<le> var_begin o'" "var_begin o' \<le> var_begin g"
    "is_fixed o' \<Longrightarrow> var_begin o' + var_len o' \<le> begin_rec od \<and> var_begin g + var_len o' \<le> begin_rec gnu"
    "IS_RECVAR o' \<Longrightarrow> begin_rec od \<le> var_begin o' \<and> var_begin o' + var_len o' \<le> begin_rec od + recsize od \<and>
      begin_rec gnu \<le> var_begin g \<and> var_begin g + var_len o' \<le> begin_rec gnu + recsize gnu"
    by (simp_all add: redef_ok_def Let_def)
qed

lemma redef_basic:
  "redef_ok sz gnu od \<Longrightarrow> (g, o') \<in> set (var_zip gnu od) \<Longrightarrow>
    IS_RECVAR g = IS_RECVAR o' \<and> 0 \<le> var_len o' \<and> 0 \<le> var_begin o' \<and> var_begin o' \<le> var_begin g"
  using redef_pair(1-4) by blast

lemma redef_order:
  assumes ok: "redef_ok sz gnu od"
  shows "sorted_wrt (\<lambda>(g1, o1) (g2, o2). IS_RECVAR o1 = IS_RECVAR o2 \<longrightarrow> var_begin o1 + var_len o1 \<le> var_begin o2 \<and>
     var_begin g1 + var_len o1 \<le> var_begin g2) (var_zip gnu od)"
  using ok by (auto simp: sorted_wrt_iff_nth_less redef_ok_def Let_def var_zip_def)

lemma redef_bounds:
  assumes ok: "redef_ok sz gnu od"
  shows "0 \<le> begin_rec od" "begin_rec od \<le> begin_rec gnu" "0 \<le> recsize od" "recsize od \<le> recsize gnu"
  "0 \<le> numrecs od" "numrecs od < 2147483648" "begin_rec gnu + recsize gnu * numrecs od \<le> sz" "sz \<le> X_INT64_MAX"
  using ok by (simp_all add: redef_ok_def Let_def)

lemma redef_move_rec:
  assumes ok: "redef_ok sz gnu od" and "(g, o') \<in> set (var_zip gnu od)" "IS_RECVAR g" "0 \<le> r" "r < numrecs od"
  shows "move_ok sz (var_begin g + recsize gnu * r) (var_begin o' + recsize od * r) (var_len o')"
proof -
  note p = redef_pair [OF assms(1,2)] and b = redef_bounds [OF ok]
  have "recsize od * r \<le> recsize gnu * r" "0 \<le> recsize od * r" using b(3,4) assms(4) by (simp_all add: mult_right_mono)
  moreover have "recsize gnu * r + recsize gnu \<le> recsize gnu * numrecs od" using b(3,4) assms(5) by (intro slot_order) simp_all
  moreover have "var_begin g + var_len o' \<le> begin_rec gnu + recsize gnu" using p(1,6) assms(3) by simp
  ultimately show ?thesis unfolding move_ok_def using p(2-4) b(7,8) by linarith
qed

lemma redef_move_fixed:
  assumes ok: "redef_ok sz gnu od" and "(g, o') \<in> set (var_zip gnu od)" "is_fixed g"
  shows "move_ok sz (var_begin g) (var_begin o') (var_len o')"
proof -
  have "0 \<le> recsize gnu * numrecs od" using redef_bounds(3-5) [OF ok] by simp
  then have "begin_rec gnu \<le> sz" using redef_bounds(7) [OF ok] by linarith
  then show ?thesis unfolding move_ok_def using redef_pair [OF assms(1,2)] assms(3) redef_bounds(8) [OF ok] by auto
qed

text \<open>The copies of the records below \<open>k\<close>, the last record first.\<close>

definition all_recs :: "'a nc3_hdr_scheme \<Rightarrow> 'b nc3_hdr_scheme \<Rightarrow> nat \<Rightarrow> (nat \<times> nat \<times> nat) list" where
  "all_recs gnu od k = concat (map (\<lambda>r. rec_moves (recsize gnu) (recsize od) r (rev (var_zip gnu od))) (rev [0..int k - 1]))"

lemma all_recs_Suc: "all_recs gnu od (Suc k) = rec_moves (recsize gnu) (recsize od) (int k) (rev (var_zip gnu od)) @ all_recs gnu od k"
proof -
  have "[0..int (Suc k) - 1] = [0..int k - 1] @ [int k]" using upto_rec2 [of 0 "int k"] by simp
  then show ?thesis by (simp add: all_recs_def)
qed

lemma rec_moves_member:
  "m \<in> set (rec_moves grsz orsz r qs) \<longleftrightarrow> (\<exists>g o'. (g, o') \<in> set qs \<and> IS_RECVAR g \<and>
     m = (nat (var_begin g + grsz * r), nat (var_begin o' + orsz * r), nat (var_len o')))"
  by (auto simp: rec_moves_def)

lemma all_recs_member:
  "m \<in> set (all_recs gnu od k) \<longleftrightarrow> (\<exists>g o' r. (g, o') \<in> set (var_zip gnu od) \<and> IS_RECVAR g \<and> 0 \<le> r \<and> r < int k \<and>
     m = (nat (var_begin g + recsize gnu * r), nat (var_begin o' + recsize od * r), nat (var_len o')))"
  by (force simp: all_recs_def rec_moves_member)

lemma rec_moves_down:
  assumes ok: "redef_ok sz gnu od" and r: "0 \<le> r"
  shows "moves_down (rec_moves (recsize gnu) (recsize od) r (rev (var_zip gnu od)))"
proof -
  note b = redef_bounds [OF ok]
  have "recsize od * r \<le> recsize gnu * r" "0 \<le> recsize od * r" using b(3,4) r by (simp_all add: mult_right_mono)
  then have "sorted_wrt (\<lambda>(g1, o1) (g2, o2). IS_RECVAR g1 \<longrightarrow> IS_RECVAR g2 \<longrightarrow>
      nat (var_begin o1 + recsize od * r) + nat (var_len o1) \<le> nat (var_begin g2 + recsize gnu * r) \<and>
      nat (var_begin g1 + recsize gnu * r) + nat (var_len o1) \<le> nat (var_begin g2 + recsize gnu * r)) (var_zip gnu od)"
    by (rule_tac sorted_wrt_mono_rel [OF _ redef_order [OF ok]]) (auto dest!: redef_basic [OF ok])
  then have "sorted_wrt (\<lambda>(t1, f1, n1) (t2, f2, n2). f1 + n1 \<le> t2 \<and> t1 + n1 \<le> t2) (rec_moves (recsize gnu) (recsize od) r (var_zip gnu od))"
    unfolding rec_moves_def by (intro sorted_wrt_filter_map) (simp add: split_def)
  then show ?thesis unfolding moves_down_def rec_moves_rev sorted_wrt_rev by (simp add: split_def)
qed

lemma all_recs_down:
  assumes ok: "redef_ok sz gnu od" and k: "int k \<le> numrecs od"
  shows "moves_down (all_recs gnu od k)"
  using k
proof (induction k)
  case (Suc k)
  note b = redef_bounds [OF ok]
  have cross: "f2 + n2 \<le> t1 \<and> t2 + n2 \<le> t1" if m1: "(t1, f1, n1) \<in> set (rec_moves (recsize gnu) (recsize od) (int k) (rev (var_zip gnu od)))"
    and m2: "(t2, f2, n2) \<in> set (all_recs gnu od k)" for t1 f1 n1 t2 f2 n2
  proof -
    from m1 obtain g1 o1 where 1: "(g1, o1) \<in> set (var_zip gnu od)" "IS_RECVAR g1" "t1 = nat (var_begin g1 + recsize gnu * int k)"
      by (auto simp: rec_moves_member)
    from m2 obtain g2 o2 r where 2: "(g2, o2) \<in> set (var_zip gnu od)" "IS_RECVAR g2" "0 \<le> r" "r < int k"
        "t2 = nat (var_begin g2 + recsize gnu * r)" "f2 = nat (var_begin o2 + recsize od * r)" "n2 = nat (var_len o2)"
      by (auto simp: all_recs_member)
    have s: "recsize gnu * r + recsize gnu \<le> recsize gnu * int k" "recsize od * r + recsize od \<le> recsize od * int k"
      "recsize od * int k \<le> recsize gnu * int k" "0 \<le> recsize od * r" "0 \<le> recsize gnu * r"
      using b(3,4) 2(3,4) slot_order [of "recsize gnu" r "int k"] slot_order [of "recsize od" r "int k"] by (simp_all add: mult_right_mono)
    note p1 = redef_pair [OF ok 1(1)] and p2 = redef_pair [OF ok 2(1)]
    have q: "begin_rec gnu \<le> var_begin g1" "var_begin o2 + var_len o2 \<le> begin_rec od + recsize od" "var_begin g2 + var_len o2 \<le> begin_rec gnu + recsize gnu"
      using p1(1,6) p2(1,6) 1(2) 2(2) by auto
    have "var_begin o2 + recsize od * r + var_len o2 \<le> var_begin g1 + recsize gnu * int k"
      "var_begin g2 + recsize gnu * r + var_len o2 \<le> var_begin g1 + recsize gnu * int k"
      using q s b(2) by linarith+
    moreover have "0 \<le> var_begin o2 + recsize od * r" "0 \<le> var_begin g2 + recsize gnu * r" using p2(3,4) s(4,5) by linarith+
    ultimately show ?thesis unfolding 1(3) 2(5-7) using p2(2) by (intro conjI nat_add_le)
  qed
  then show ?case using Suc rec_moves_down [OF ok, of "int k"]
    unfolding all_recs_Suc moves_down_def sorted_wrt_append by fastforce
qed (simp add: all_recs_def moves_down_def)

lemma fixed_down:
  assumes ok: "redef_ok sz gnu od"
  shows "moves_down (fixed_moves (rev (var_zip gnu od)))"
proof -
  have "sorted_wrt (\<lambda>(g1, o1) (g2, o2). is_fixed g1 \<longrightarrow> is_fixed g2 \<longrightarrow>
      nat (var_begin o1) + nat (var_len o1) \<le> nat (var_begin g2) \<and> nat (var_begin g1) + nat (var_len o1) \<le> nat (var_begin g2)) (var_zip gnu od)"
    by (rule sorted_wrt_mono_rel [OF _ redef_order [OF ok]]) (auto dest!: redef_basic [OF ok])
  then have "sorted_wrt (\<lambda>(t1, f1, n1) (t2, f2, n2). f1 + n1 \<le> t2 \<and> t1 + n1 \<le> t2) (fixed_moves (var_zip gnu od))"
    unfolding fixed_moves_def by (intro sorted_wrt_filter_map) (simp add: split_def)
  then show ?thesis unfolding moves_down_def fixed_moves_rev sorted_wrt_rev by (simp add: split_def)
qed

subsection \<open>Leaving define mode keeps the data\<close>

context ncio_store
begin

text \<open>What the bytes of the file are after each kind of move.\<close>

lemma move_recs_r_ok:
  assumes "ok s" "redef_ok (int (length (bytes s))) gnu od"
  shows "\<exists>s'. move_recs_r io gnu od s = Done (NC_NOERR, gnu\<lparr>numrecs := numrecs od\<rparr>, s') \<and> ok s' \<and>
    length (bytes s') = length (bytes s) \<and> bytes s' = foldl move_bytes (bytes s) (all_recs gnu od (nat (numrecs od)))"
proof -
  note b = redef_bounds [OF assms(2)]
  have n: "s32 (numrecs od) = numrecs od" using b(5,6) by (simp add: s32_id)
  have "\<forall>r \<in> set (rev [0..numrecs od - 1]). \<forall>(g, o') \<in> set (rev (var_zip gnu od)). IS_RECVAR g \<longrightarrow>
      move_ok (int (length (bytes s))) (var_begin g + recsize gnu * r) (var_begin o' + recsize od * r) (var_len o')"
    using redef_move_rec [OF assms(2)] by auto
  from move_each_rec_ok [OF assms(1) this] obtain s' where
    "move_each_rec io (recsize gnu) (recsize od) (rev [0..numrecs od - 1]) (rev (var_zip gnu od)) s = Done (NC_NOERR, s')" "ok s'"
    "length (bytes s') = length (bytes s)" "bytes s' = foldl move_bytes (bytes s) (all_recs gnu od (nat (numrecs od)))"
    using b(5) by (auto simp: all_recs_def)
  moreover have "var_pairs gnu od = Done (rev (var_zip gnu od))"
    using assms(2) by (auto simp: var_pairs_def redef_ok_def Let_def var_zip_def)
  ultimately show ?thesis by (simp add: move_recs_r_def n)
qed

lemma move_vars_r_ok:
  assumes "ok s" "redef_ok (int (length (bytes s))) gnu od"
  shows "\<exists>s'. move_vars_r io gnu od s = Done (NC_NOERR, s') \<and> ok s' \<and>
    length (bytes s') = length (bytes s) \<and> bytes s' = foldl move_bytes (bytes s) (fixed_moves (rev (var_zip gnu od)))"
proof -
  have "\<forall>(g, o') \<in> set (rev (var_zip gnu od)). is_fixed g \<longrightarrow> move_ok (int (length (bytes s))) (var_begin g) (var_begin o') (var_len o')"
    using redef_move_fixed [OF assms(2)] by auto
  from move_fixed_ok [OF assms(1) this] show ?thesis
    using assms(2) by (auto simp: move_vars_r_def var_pairs_def redef_ok_def Let_def var_zip_def)
qed

end

definition recs_moved :: "'a nc3_hdr_scheme \<Rightarrow> 'b nc3_hdr_scheme \<Rightarrow> string \<Rightarrow> string \<Rightarrow> bool" where
  "recs_moved gnu od b c \<longleftrightarrow> (\<forall>(g, o') \<in> set (var_zip gnu od). IS_RECVAR g \<longrightarrow> (\<forall>r. 0 \<le> r \<and> r < numrecs od \<longrightarrow>
     take (nat (var_len o')) (drop (nat (var_begin g + recsize gnu * r)) c) = take (nat (var_len o')) (drop (nat (var_begin o' + recsize od * r)) b)))"

definition fixed_moved :: "'a nc3_hdr_scheme \<Rightarrow> 'b nc3_hdr_scheme \<Rightarrow> string \<Rightarrow> string \<Rightarrow> bool" where
  "fixed_moved gnu od b c \<longleftrightarrow> (\<forall>(g, o') \<in> set (var_zip gnu od). is_fixed g \<longrightarrow>
     take (nat (var_len o')) (drop (nat (var_begin g)) c) = take (nat (var_len o')) (drop (nat (var_begin o')) b))"

lemma moves_length: "moves_fit b ms \<Longrightarrow> moves_down ms \<Longrightarrow> length (foldl move_bytes b ms) = length b"
  using moves_data by blast

lemma moves_dest:
  assumes "moves_fit b ms" "moves_down ms" "(t, f, n) \<in> set ms"
  shows "take n (drop t (foldl move_bytes b ms)) = take n (drop f b)"
  using moves_data [OF assms(1,2)] assms(3) by blast

lemma moves_outside:
  assumes "moves_fit b ms" "moves_down ms" "\<And>t f n. (t, f, n) \<in> set ms \<Longrightarrow> p + k \<le> t \<or> t + n \<le> p"
  shows "take k (drop p (foldl move_bytes b ms)) = take k (drop p b)"
  using moves_data [OF assms(1,2)] assms(3) by blast

lemma recs_stage:
  assumes ok: "redef_ok (int (length b)) gnu od"
  defines "c \<equiv> foldl move_bytes b (all_recs gnu od (nat (numrecs od)))"
  shows "length c = length b" "recs_moved gnu od b c" "p + k \<le> nat (begin_rec gnu) \<Longrightarrow> take k (drop p c) = take k (drop p b)"
proof -
  let ?ms = "all_recs gnu od (nat (numrecs od))"
  note bd = redef_bounds [OF ok]
  have n: "int (nat (numrecs od)) = numrecs od" using bd(5) by simp
  have fit: "moves_fit b ?ms"
    unfolding moves_fit_def
  proof clarify
    fix t f n
    assume "(t, f, n) \<in> set ?ms"
    then obtain g o' r where "(g, o') \<in> set (var_zip gnu od)" "IS_RECVAR g" "0 \<le> r" "r < numrecs od"
      and m: "t = nat (var_begin g + recsize gnu * r)" "f = nat (var_begin o' + recsize od * r)" "n = nat (var_len o')"
      unfolding all_recs_member n by blast
    from redef_move_rec [OF ok this(1-4)] show "t + n \<le> length b \<and> f + n \<le> length b" unfolding m by (rule move_ok_fit)
  qed
  have down: "moves_down ?ms" using n by (intro all_recs_down [OF ok]) simp
  show "length c = length b" unfolding c_def by (rule moves_length [OF fit down])
  show "recs_moved gnu od b c" unfolding recs_moved_def
  proof clarify
    fix g o' r
    assume "(g, o') \<in> set (var_zip gnu od)" "IS_RECVAR g" "0 \<le> r" "r < numrecs od"
    then have "(nat (var_begin g + recsize gnu * r), nat (var_begin o' + recsize od * r), nat (var_len o')) \<in> set ?ms"
      unfolding all_recs_member n by blast
    then show "take (nat (var_len o')) (drop (nat (var_begin g + recsize gnu * r)) c)
        = take (nat (var_len o')) (drop (nat (var_begin o' + recsize od * r)) b)"
      unfolding c_def by (rule moves_dest [OF fit down])
  qed
  assume p: "p + k \<le> nat (begin_rec gnu)"
  show "take k (drop p c) = take k (drop p b)" unfolding c_def
  proof (rule moves_outside [OF fit down])
    fix t f n
    assume "(t, f, n) \<in> set ?ms"
    then obtain g o' r where z: "(g, o') \<in> set (var_zip gnu od)" "IS_RECVAR g" "0 \<le> r" "t = nat (var_begin g + recsize gnu * r)"
      unfolding all_recs_member by blast
    have "IS_RECVAR o'" using redef_pair(1) [OF ok z(1)] z(2) by simp
    then have "begin_rec gnu \<le> var_begin g" using redef_pair(6) [OF ok z(1)] by blast
    moreover have "0 \<le> recsize gnu * r" using bd(3,4) z(3) by simp
    ultimately show "p + k \<le> t \<or> t + n \<le> p" using p unfolding z(4) by linarith
  qed
qed

lemma fixed_stage:
  assumes ok: "redef_ok (int (length b)) gnu od"
  defines "c \<equiv> foldl move_bytes b (fixed_moves (rev (var_zip gnu od)))"
  shows "length c = length b" "fixed_moved gnu od b c" "nat (begin_rec gnu) \<le> p \<Longrightarrow> take k (drop p c) = take k (drop p b)"
proof -
  let ?ms = "fixed_moves (rev (var_zip gnu od))"
  have member: "m \<in> set ?ms \<longleftrightarrow> (\<exists>g o'. (g, o') \<in> set (var_zip gnu od) \<and> is_fixed g \<and>
      m = (nat (var_begin g), nat (var_begin o'), nat (var_len o')))" for m
    by (auto simp: fixed_moves_def)
  have fit: "moves_fit b ?ms"
    unfolding moves_fit_def
  proof clarify
    fix t f n
    assume "(t, f, n) \<in> set ?ms"
    then obtain g o' where "(g, o') \<in> set (var_zip gnu od)" "is_fixed g"
      and m: "t = nat (var_begin g)" "f = nat (var_begin o')" "n = nat (var_len o')" unfolding member by blast
    from redef_move_fixed [OF ok this(1,2)] show "t + n \<le> length b \<and> f + n \<le> length b" unfolding m by (rule move_ok_fit)
  qed
  note down = fixed_down [OF ok]
  show "length c = length b" unfolding c_def by (rule moves_length [OF fit down])
  show "fixed_moved gnu od b c" unfolding fixed_moved_def
  proof clarify
    fix g o'
    assume "(g, o') \<in> set (var_zip gnu od)" "is_fixed g"
    then have "(nat (var_begin g), nat (var_begin o'), nat (var_len o')) \<in> set ?ms" unfolding member by blast
    then show "take (nat (var_len o')) (drop (nat (var_begin g)) c) = take (nat (var_len o')) (drop (nat (var_begin o')) b)"
      unfolding c_def by (rule moves_dest [OF fit down])
  qed
  assume p: "nat (begin_rec gnu) \<le> p"
  show "take k (drop p c) = take k (drop p b)" unfolding c_def
  proof (rule moves_outside [OF fit down])
    fix t f n
    assume "(t, f, n) \<in> set ?ms"
    then obtain g o' where z: "(g, o') \<in> set (var_zip gnu od)" "is_fixed g" "t = nat (var_begin g)" "n = nat (var_len o')"
      unfolding member by blast
    have "is_fixed o'" using redef_pair(1) [OF ok z(1)] z(2) by simp
    then have "var_begin g + var_len o' \<le> begin_rec gnu" using redef_pair(5) [OF ok z(1)] by blast
    moreover have "0 \<le> var_begin g" "0 \<le> var_len o'" using redef_pair(2-4) [OF ok z(1)] by linarith+
    ultimately show "p + k \<le> t \<or> t + n \<le> p" using p unfolding z(3,4) by linarith
  qed
qed

text \<open>The two kinds of data do not meet: what happens on one side of \<open>begin_rec\<close> leaves the other.\<close>

abbreviation "same_below q b c \<equiv> \<forall>p k. p + k \<le> nat q \<longrightarrow> take k (drop p c) = take k (drop p (b::string))"
abbreviation "same_above q b c \<equiv> \<forall>p k. nat q \<le> p \<longrightarrow> take k (drop p c) = take k (drop p (b::string))"

lemma fixed_moved_below:
  assumes ok: "redef_ok sz gnu od"
  shows "fixed_moved gnu od c d \<Longrightarrow> same_below (begin_rec gnu) b c \<Longrightarrow> fixed_moved gnu od b d"
    "fixed_moved gnu od b c \<Longrightarrow> same_below (begin_rec gnu) c d \<Longrightarrow> fixed_moved gnu od b d"
proof -
  have fit: "nat (var_begin o') + nat (var_len o') \<le> nat (begin_rec gnu) \<and> nat (var_begin g) + nat (var_len o') \<le> nat (begin_rec gnu)"
    if "(g, o') \<in> set (var_zip gnu od)" "is_fixed g" for g o'
    using redef_pair [OF ok that(1)] that(2) redef_bounds(1,2) [OF ok] by (intro conjI nat_add_le) auto
  show "fixed_moved gnu od c d \<Longrightarrow> same_below (begin_rec gnu) b c \<Longrightarrow> fixed_moved gnu od b d"
    "fixed_moved gnu od b c \<Longrightarrow> same_below (begin_rec gnu) c d \<Longrightarrow> fixed_moved gnu od b d"
    unfolding fixed_moved_def using fit by fastforce+
qed

lemma recs_moved_above:
  assumes ok: "redef_ok sz gnu od"
  shows "recs_moved gnu od b c \<Longrightarrow> same_above (begin_rec gnu) c d \<Longrightarrow> recs_moved gnu od b d"
    "recs_moved gnu od c d \<Longrightarrow> same_above (begin_rec od) b c \<Longrightarrow> recs_moved gnu od b d"
proof -
  have above: "nat (begin_rec gnu) \<le> nat (var_begin g + recsize gnu * r) \<and> nat (begin_rec od) \<le> nat (var_begin o' + recsize od * r)"
    if "(g, o') \<in> set (var_zip gnu od)" "IS_RECVAR g" "0 \<le> r" for g o' r
  proof -
    have "begin_rec od \<le> var_begin o'" "begin_rec gnu \<le> var_begin g" using redef_pair(1,6) [OF ok that(1)] that(2) by auto
    moreover have "0 \<le> recsize gnu * r" "0 \<le> recsize od * r" using redef_bounds(3,4) [OF ok] that(3) by simp_all
    ultimately show ?thesis by linarith
  qed
  show "recs_moved gnu od b c \<Longrightarrow> same_above (begin_rec gnu) c d \<Longrightarrow> recs_moved gnu od b d"
    "recs_moved gnu od c d \<Longrightarrow> same_above (begin_rec od) b c \<Longrightarrow> recs_moved gnu od b d"
    unfolding recs_moved_def using above by fastforce+
qed

lemma fixed_moved_none:
  assumes ok: "redef_ok sz gnu od" and "begin_var gnu \<le> begin_var od"
  shows "fixed_moved gnu od b b"
proof -
  have "var_begin g = var_begin o'" if "(g, o') \<in> set (var_zip gnu od)" "is_fixed g" for g o'
    using that ok assms(2) by (auto simp: in_set_zip var_zip_def redef_ok_def Let_def)
  then show ?thesis by (auto simp: fixed_moved_def)
qed

lemma recs_moved_none:
  assumes ok: "redef_ok sz gnu od" and "begin_rec gnu = begin_rec od" "recsize gnu = recsize od"
  shows "recs_moved gnu od b b"
proof -
  have "var_begin g = var_begin o'" if "(g, o') \<in> set (var_zip gnu od)" "IS_RECVAR g" for g o'
    using that ok assms(2,3) by (auto simp: in_set_zip var_zip_def redef_ok_def Let_def)
  then show ?thesis using assms(3) by (auto simp: recs_moved_def)
qed

context ncio_store
begin

lemma recs_step:
  assumes "ok s" "redef_ok (int (length (bytes s))) gnu od"
  obtains s' where "move_recs_r io gnu od s = Done (NC_NOERR, gnu\<lparr>numrecs := numrecs od\<rparr>, s')" "ok s'"
    "length (bytes s') = length (bytes s)" "recs_moved gnu od (bytes s) (bytes s')" "same_below (begin_rec gnu) (bytes s) (bytes s')"
proof -
  obtain s' where "move_recs_r io gnu od s = Done (NC_NOERR, gnu\<lparr>numrecs := numrecs od\<rparr>, s')" "ok s'"
    and l: "length (bytes s') = length (bytes s)" and b: "bytes s' = foldl move_bytes (bytes s) (all_recs gnu od (nat (numrecs od)))"
    using move_recs_r_ok [OF assms] by blast
  moreover note st = recs_stage [OF assms(2), folded b]
  have "same_below (begin_rec gnu) (bytes s) (bytes s')" by (intro allI impI) (rule st(3))
  ultimately show ?thesis using that l st(2) by blast
qed

lemma fixed_step:
  assumes "ok s" "redef_ok (int (length (bytes s))) gnu od"
  obtains s' where "move_vars_r io gnu od s = Done (NC_NOERR, s')" "ok s'"
    "length (bytes s') = length (bytes s)" "fixed_moved gnu od (bytes s) (bytes s')" "same_above (begin_rec gnu) (bytes s) (bytes s')"
proof -
  obtain s' where "move_vars_r io gnu od s = Done (NC_NOERR, s')" "ok s'"
    and l: "length (bytes s') = length (bytes s)" and b: "bytes s' = foldl move_bytes (bytes s) (fixed_moves (rev (var_zip gnu od)))"
    using move_vars_r_ok [OF assms] by blast
  moreover note st = fixed_stage [OF assms(2), folded b]
  have "same_above (begin_rec gnu) (bytes s) (bytes s')" by (intro allI impI) (rule st(3))
  ultimately show ?thesis using that l st(2) by blast
qed

lemma endef_moves_ok:
  assumes ok: "ok s" and r: "redef_ok (int (length (bytes s))) ncp od"
  shows "\<exists>s' n. endef_moves io ncp od s = Done (NC_NOERR, ncp\<lparr>numrecs := n\<rparr>, s') \<and> ok s' \<and> length (bytes s') = length (bytes s) \<and>
    n \<in> {numrecs ncp, numrecs od} \<and> recs_moved ncp od (bytes s) (bytes s') \<and> fixed_moved ncp od (bytes s) (bytes s')"
proof (cases "vars_value (vars ncp) = []")
  case True
  then have "var_zip ncp od = []" by (simp add: var_zip_def)
  with True ok show ?thesis by (intro exI [of _ s] exI [of _ "numrecs ncp"]) (simp add: endef_moves_def recs_moved_def fixed_moved_def)
next
  case vs: False
  show ?thesis
  proof (cases "begin_rec od < begin_rec ncp")
    case br: True
    obtain s1 where s1: "move_recs_r io ncp od s = Done (NC_NOERR, ncp\<lparr>numrecs := numrecs od\<rparr>, s1)" "ok s1"
      "length (bytes s1) = length (bytes s)" "recs_moved ncp od (bytes s) (bytes s1)" "same_below (begin_rec ncp) (bytes s) (bytes s1)"
      by (rule recs_step [OF ok r])
    let ?n = "ncp\<lparr>numrecs := numrecs od\<rparr>"
    have r1: "redef_ok (int (length (bytes s1))) ?n od" using r s1(3) by (simp add: redef_ok_def Let_def)
    have z: "var_zip ?n od = var_zip ncp od" by (simp add: var_zip_def)
    show ?thesis
    proof (cases "begin_var od < begin_var ncp")
      case True
      obtain s2 where s2: "move_vars_r io ?n od s1 = Done (NC_NOERR, s2)" "ok s2" "length (bytes s2) = length (bytes s1)"
        "fixed_moved ?n od (bytes s1) (bytes s2)" "same_above (begin_rec ?n) (bytes s1) (bytes s2)" by (rule fixed_step [OF s1(2) r1])
      have "fixed_moved ncp od (bytes s1) (bytes s2)" using s2(4) by (simp add: fixed_moved_def z)
      then have "fixed_moved ncp od (bytes s) (bytes s2)" using s1(5) by (rule fixed_moved_below(1) [OF r])
      moreover have "recs_moved ncp od (bytes s) (bytes s2)" using s2(5) by (intro recs_moved_above(1) [OF r s1(4)]) simp
      ultimately show ?thesis using vs br True s1(1) s2(1-3) s1(3) by (intro exI [of _ s2] exI [of _ "numrecs od"]) (simp add: endef_moves_def)
    next
      case False
      then have "fixed_moved ncp od (bytes s) (bytes s)" by (intro fixed_moved_none [OF r]) simp
      then have "fixed_moved ncp od (bytes s) (bytes s1)" using s1(5) by (rule fixed_moved_below(2) [OF r])
      then show ?thesis using vs br False s1(1-4) by (intro exI [of _ s1] exI [of _ "numrecs od"]) (simp add: endef_moves_def)
    qed
  next
    case False
    then have br: "begin_rec ncp = begin_rec od" using redef_bounds(2) [OF r] by simp
    obtain s1 where s1: "(if begin_var od < begin_var ncp then move_vars_r io ncp od s else Done (NC_NOERR, s)) = Done (NC_NOERR, s1)" "ok s1"
      "length (bytes s1) = length (bytes s)" "fixed_moved ncp od (bytes s) (bytes s1)" "same_above (begin_rec od) (bytes s) (bytes s1)"
    proof (cases "begin_var od < begin_var ncp")
      case True
      obtain s1 where "move_vars_r io ncp od s = Done (NC_NOERR, s1)" "ok s1" "length (bytes s1) = length (bytes s)"
        "fixed_moved ncp od (bytes s) (bytes s1)" "same_above (begin_rec od) (bytes s) (bytes s1)" by (rule fixed_step [OF ok r, unfolded br])
      with True show ?thesis by (intro that [of s1]) simp_all
    next
      case False
      with ok fixed_moved_none [OF r] show ?thesis by (intro that [of s]) simp_all
    qed
    have r1: "redef_ok (int (length (bytes s1))) ncp od" using r s1(3) by simp
    show ?thesis
    proof (cases "recsize od < recsize ncp")
      case True
      obtain s2 where s2: "move_recs_r io ncp od s1 = Done (NC_NOERR, ncp\<lparr>numrecs := numrecs od\<rparr>, s2)" "ok s2"
        "length (bytes s2) = length (bytes s1)" "recs_moved ncp od (bytes s1) (bytes s2)" "same_below (begin_rec ncp) (bytes s1) (bytes s2)"
        by (rule recs_step [OF s1(2) r1])
      have "recs_moved ncp od (bytes s) (bytes s2)" using s2(4) s1(5) by (rule recs_moved_above(2) [OF r])
      moreover have "fixed_moved ncp od (bytes s) (bytes s2)" using s1(4) s2(5) by (rule fixed_moved_below(2) [OF r])
      ultimately show ?thesis using vs False True s1(1,3) s2(1-3) by (intro exI [of _ s2] exI [of _ "numrecs od"]) (simp add: endef_moves_def)
    next
      case rs: False
      then have "recs_moved ncp od (bytes s) (bytes s)" using br redef_bounds(4) [OF r] by (intro recs_moved_none [OF r]) simp_all
      then have "recs_moved ncp od (bytes s) (bytes s1)" using s1(5) [folded br] by (rule recs_moved_above(1) [OF r])
      then show ?thesis using vs False rs s1(1-4) by (intro exI [of _ s1] exI [of _ "numrecs ncp"]) (simp add: endef_moves_def)
    qed
  qed
qed

end

text \<open>
  C14: the moves of \<open>NC_endef\<close> after a redef succeed on an in-memory file and keep all data: for every old
  variable, the bytes at its new place (in each old record, for a record variable) are those that were
  at its old place, although the regions overlap.
\<close>

theorem endef_moves_keep_data:
  assumes "mio_ok s" "redef_ok (int (length (mio_bytes s))) ncp od"
  shows "\<exists>s' n. endef_moves (memio_io pagesize malloc) ncp od s = Done (NC_NOERR, ncp\<lparr>numrecs := n\<rparr>, s') \<and> mio_ok s' \<and>
    n \<in> {numrecs ncp, numrecs od} \<and> recs_moved ncp od (mio_bytes s) (mio_bytes s') \<and> fixed_moved ncp od (mio_bytes s) (mio_bytes s')"
  using mio.endef_moves_ok [OF assms, of pagesize malloc] by blast

lemma endef_moves_keep_data_witness:
  "\<exists>s' n. endef_moves (memio_io 4096 (\<lambda>n. None)) (sample_hdr 120 140 [sample_var 120 8 2, sample_var 140 4 0, sample_var 144 4 0]\<lparr>recsize := 8, numrecs := 3\<rparr>)
      (sample_hdr 100 108 [sample_var 100 8 2, sample_var 108 4 0]\<lparr>numrecs := 3\<rparr>) sample_mio =
      Done (NC_NOERR, (sample_hdr 120 140 [sample_var 120 8 2, sample_var 140 4 0, sample_var 144 4 0])\<lparr>recsize := 8, numrecs := n\<rparr>, s') \<and>
    take 4 (drop 156 (mio_bytes s')) = take 4 (drop 116 (mio_bytes sample_mio))"
proof -
  let ?n = "sample_hdr 120 140 [sample_var 120 8 2, sample_var 140 4 0, sample_var 144 4 0]\<lparr>recsize := 8, numrecs := 3\<rparr>"
  let ?o = "sample_hdr 100 108 [sample_var 100 8 2, sample_var 108 4 0]\<lparr>numrecs := 3\<rparr>"
  have r: "IS_RECVAR (sample_var b k m) \<longleftrightarrow> m = 0" "var_len (sample_var b k m) = k" "var_begin (sample_var b k m) = b" for b k m
    by (simp_all add: sample_var_def IS_RECVAR_def)
  have "redef_ok (int (length (mio_bytes sample_mio))) ?n ?o"
    unfolding sample_mio_ok(2) by (auto simp: redef_ok_def Let_def sample_hdr_def r less_Suc_eq numeral_2_eq_2)
  from endef_moves_keep_data [OF sample_mio_ok(1) this, of 4096 "\<lambda>n. None"] obtain s' n where
    e: "endef_moves (memio_io 4096 (\<lambda>n. None)) ?n ?o sample_mio = Done (NC_NOERR, ?n\<lparr>numrecs := n\<rparr>, s')"
      "recs_moved ?n ?o (mio_bytes sample_mio) (mio_bytes s')" by blast
  have z: "(sample_var 140 4 0, sample_var 108 4 0) \<in> set (var_zip ?n ?o)" by (simp add: var_zip_def sample_hdr_def)
  have "take 4 (drop 156 (mio_bytes s')) = take 4 (drop 116 (mio_bytes sample_mio))"
    using bspec [OF e(2) [unfolded recs_moved_def] z] r by (auto simp: sample_hdr_def dest: spec [of _ "2::int"])
  with e(1) show ?thesis by (intro exI [of _ s'] exI [of _ n]) simp
qed

subsection \<open>The layout after a redef\<close>

text \<open>As \<open>place\<close>, but no variable before its old begin.\<close>

fun place_old :: "(NC_var \<Rightarrow> bool) \<Rightarrow> int \<Rightarrow> NC_var list \<Rightarrow> NC_var list \<Rightarrow> NC_var list" where
  "place_old P b [] os = []"
| "place_old P b (v # vs) [] = (if P v then v\<lparr>var_begin := b\<rparr> # place_old P (b + var_len v) vs [] else v # place_old P b vs [])"
| "place_old P b (v # vs) (w # os) = (if P v then let c = max b (var_begin w) in v\<lparr>var_begin := c\<rparr> # place_old P (c + var_len v) vs os
     else v # place_old P b vs os)"

text \<open>\<open>new\<close> starts with variables of the same kinds and lengths as \<open>od\<close>.\<close>

definition extends :: "NC_var list \<Rightarrow> NC_var list \<Rightarrow> bool" where
  "extends new od \<longleftrightarrow> map (\<lambda>v. (IS_RECVAR v, var_len v)) od = take (length od) (map (\<lambda>v. (IS_RECVAR v, var_len v)) new)"

lemma extends_Cons [simp]:
  "extends vs []" "\<not> extends [] (w # os)"
  "extends (v # vs) (w # os) \<longleftrightarrow> IS_RECVAR w = IS_RECVAR v \<and> var_len w = var_len v \<and> extends vs os"
  by (auto simp: extends_def)

lemma extends_nth:
  "extends new od \<Longrightarrow> length od \<le> length new \<and> (\<forall>i < length od. IS_RECVAR (new ! i) = IS_RECVAR (od ! i) \<and> var_len (new ! i) = var_len (od ! i))"
proof (induction od arbitrary: new)
  case (Cons w os)
  then show ?case by (cases new) (auto simp: nth_Cons split: nat.splits)
qed simp

lemma dropWhile_filter: "case filter P xs of [] \<Rightarrow> dropWhile (\<lambda>x. \<not> P x) xs = []
    | w # ws' \<Rightarrow> \<exists>ws. dropWhile (\<lambda>x. \<not> P x) xs = w # ws \<and> filter P ws = ws'"
  by (induction xs) (auto split: list.splits)

lemma begins_fixed_filter:
  "filter is_fixed os = filter is_fixed os' \<Longrightarrow> begins_fixed off4 b vs (Some os) = begins_fixed off4 b vs (Some os')"
proof (induction vs arbitrary: b os os')
  case (Cons v vs)
  have n: "dropWhile IS_RECVAR xs = dropWhile (\<lambda>x. \<not> is_fixed x) xs" for xs by simp
  note d = dropWhile_filter [of is_fixed os] dropWhile_filter [of is_fixed os']
  show ?case
  proof (cases "filter is_fixed os'")
    case Nil
    with d Cons have e: "dropWhile IS_RECVAR os = []" "dropWhile IS_RECVAR os' = []" by simp_all
    have "begins_fixed off4 c vs (Some os) = begins_fixed off4 c vs (Some os')" for c by (rule Cons.IH [OF Cons.prems])
    then show ?thesis unfolding begins_fixed.simps option.case e by simp
  next
    case (Cons w ws')
    with d Cons.prems obtain ws ws2 where e: "dropWhile IS_RECVAR os = w # ws" "dropWhile IS_RECVAR os' = w # ws2"
      and f: "filter is_fixed ws = ws'" "filter is_fixed ws2 = ws'" by auto
    have "begins_fixed off4 c vs (Some ws) = begins_fixed off4 c vs (Some ws2)" for c by (rule Cons.IH) (simp add: f)
    moreover have "begins_fixed off4 c vs (Some os) = begins_fixed off4 c vs (Some os')" for c by (rule Cons.IH [OF Cons.prems])
    ultimately show ?thesis using e by (auto simp: Let_def)
  qed
qed simp

lemma begins_recs_filter:
  "filter IS_RECVAR os = filter IS_RECVAR os' \<Longrightarrow> begins_recs off4 b r l vs (Some os) = begins_recs off4 b r l vs (Some os')"
proof (induction vs arbitrary: b r l os os')
  case (Cons v vs)
  note d = dropWhile_filter [of IS_RECVAR os] dropWhile_filter [of IS_RECVAR os']
  show ?case
  proof (cases "filter IS_RECVAR os'")
    case Nil
    with d Cons have e: "dropWhile is_fixed os = []" "dropWhile is_fixed os' = []" by simp_all
    have "begins_recs off4 c r' l' vs (Some os) = begins_recs off4 c r' l' vs (Some os')" for c r' l' by (rule Cons.IH [OF Cons.prems])
    then show ?thesis unfolding begins_recs.simps option.case e by simp
  next
    case (Cons w ws')
    with d Cons.prems obtain ws ws2 where e: "dropWhile is_fixed os = w # ws" "dropWhile is_fixed os' = w # ws2"
      and f: "filter IS_RECVAR ws = ws'" "filter IS_RECVAR ws2 = ws'" by auto
    have "begins_recs off4 c r' l' vs (Some ws) = begins_recs off4 c r' l' vs (Some ws2)" for c r' l' by (rule Cons.IH) (simp add: f)
    moreover have "begins_recs off4 c r' l' vs (Some os) = begins_recs off4 c r' l' vs (Some os')" for c r' l' by (rule Cons.IH [OF Cons.prems])
    ultimately show ?thesis using e by (auto simp: Let_def)
  qed
qed simp

text \<open>The end of the fixed part stays below \<open>m\<close> plus the lengths, if no old begin exceeds \<open>m\<close>.\<close>

lemma begins_fixed_old:
  assumes "extends vs os" "0 \<le> b" "b \<le> m" "\<forall>w \<in> set os. is_fixed w \<longrightarrow> var_begin w \<le> m" "\<forall>v \<in> set vs. 0 \<le> var_len v"
    "m + total_len is_fixed vs \<le> (if off4 then X_OFF_MAX else X_INT64_MAX)"
  shows "\<exists>i. begins_fixed off4 b vs (Some os) = (NC_NOERR, i, place_old is_fixed b vs os) \<and> b \<le> i \<and> i \<le> m + total_len is_fixed vs \<and>
    (\<forall>w \<in> set (filter is_fixed (place_old is_fixed b vs os)). b \<le> var_begin w \<and> var_begin w + var_len w \<le> i)"
  using assms
proof (induction vs arbitrary: b os m)
  case (Cons v vs)
  have t: "0 \<le> total_len is_fixed vs" "0 \<le> var_len v" using Cons.prems(5) by (simp_all add: total_nonneg)
  define c where "c = (case os of [] \<Rightarrow> b | w # _ \<Rightarrow> max b (var_begin w))"
  have step: "\<exists>i. begins_fixed off4 b' vs (Some (tl os)) = (NC_NOERR, i, place_old is_fixed b' vs (tl os)) \<and> b' \<le> i \<and>
      i \<le> m' + total_len is_fixed vs \<and> (\<forall>w \<in> set (filter is_fixed (place_old is_fixed b' vs (tl os))). b' \<le> var_begin w \<and> var_begin w + var_len w \<le> i)"
    if "0 \<le> b'" "b' \<le> m'" "m \<le> m'" "m' + total_len is_fixed vs \<le> (if off4 then X_OFF_MAX else X_INT64_MAX)" for b' m'
    using Cons.prems that by (intro Cons.IH) (cases os; auto)+
  show ?case
  proof (cases "IS_RECVAR v")
    case True
    have r: "filter is_fixed os = filter is_fixed (tl os)" using True Cons.prems(1) by (cases os) simp_all
    have p: "place_old is_fixed b (v # vs) os = v # place_old is_fixed b vs (tl os)" using True by (cases os) simp_all
    from step [of b m] obtain i where i: "begins_fixed off4 b vs (Some (tl os)) = (NC_NOERR, i, place_old is_fixed b vs (tl os))" "b \<le> i"
      "i \<le> m + total_len is_fixed vs" "\<forall>w \<in> set (filter is_fixed (place_old is_fixed b vs (tl os))). b \<le> var_begin w \<and> var_begin w + var_len w \<le> i"
      using Cons.prems True by (auto simp: total_Cons)
    have "begins_fixed off4 b (v # vs) (Some os) = (NC_NOERR, i, v # place_old is_fixed b vs (tl os))"
      using i(1) begins_fixed_filter [OF r, of off4 b vs] True by simp
    with i True show ?thesis unfolding p by (intro exI [of _ i]) (simp add: total_Cons)
  next
    case False
    have cm: "b \<le> c" "c \<le> m" using Cons.prems(1,3,4) False by (auto simp: c_def split: list.split)
    have lim: "m + var_len v + total_len is_fixed vs \<le> (if off4 then X_OFF_MAX else X_INT64_MAX)" using Cons.prems(6) False by (simp add: total_Cons)
    have p: "place_old is_fixed b (v # vs) os = v\<lparr>var_begin := c\<rparr> # place_old is_fixed (c + var_len v) vs (tl os)"
      using False by (cases os) (simp_all add: c_def Let_def)
    from step [of "c + var_len v" "m + var_len v"] obtain i where i: "begins_fixed off4 (c + var_len v) vs (Some (tl os)) =
        (NC_NOERR, i, place_old is_fixed (c + var_len v) vs (tl os))" "c + var_len v \<le> i" "i \<le> m + var_len v + total_len is_fixed vs"
      "\<forall>w \<in> set (filter is_fixed (place_old is_fixed (c + var_len v) vs (tl os))). c + var_len v \<le> var_begin w \<and> var_begin w + var_len w \<le> i"
      using Cons.prems(2) cm t lim by auto
    have lim': "m + var_len v + total_len is_fixed vs \<le> X_INT64_MAX" "off4 \<Longrightarrow> b \<le> X_OFF_MAX" using lim cm t by (auto split: if_splits)
    have s: "s64 (c + var_len v) = c + var_len v" using cm t lim'(1) Cons.prems(2) by (intro s64_id) linarith+
    have "begins_fixed off4 b (v # vs) (Some os) = (NC_NOERR, i, v\<lparr>var_begin := c\<rparr> # place_old is_fixed (c + var_len v) vs (tl os))"
    proof (cases os)
      case Nil
      with i(1) s False lim'(2) Cons.prems(2) show ?thesis by (auto simp: c_def Let_def)
    next
      case (Cons w ws)
      with Cons.prems(1) have "IS_RECVAR w = IS_RECVAR v" by simp
      with i(1) s False lim'(2) Cons.prems(2) Cons show ?thesis by (subst Cons) (auto simp: c_def Let_def)
    qed
    moreover have "b \<le> var_begin w \<and> var_begin w + var_len w \<le> i"
      if "w \<in> set (filter is_fixed (place_old is_fixed b (v # vs) os))" for w
      using that i(2,4) cm(1) t(2) False unfolding p by fastforce
    ultimately show ?thesis using i cm t False unfolding p by (intro exI [of _ i]) (simp add: total_Cons)
  qed
qed (simp add: total_len_def)

lemma extends_length_place [simp]: "length (place_old P b vs os) = length vs"
  by (induction P b vs os rule: place_old.induct) (simp_all add: Let_def)

lemma place_old_nth:
  "i < length vs \<Longrightarrow> \<exists>c. place_old P b vs os ! i = (if P (vs ! i) then (vs ! i)\<lparr>var_begin := c\<rparr> else vs ! i) \<and>
    (i < length os \<longrightarrow> P (vs ! i) \<longrightarrow> var_begin (os ! i) \<le> c)"
proof (induction vs arbitrary: b os i)
  case (Cons v vs)
  show ?case
  proof (cases i)
    case 0
    then show ?thesis by (cases os) (auto simp: Let_def)
  next
    case (Suc j)
    then have j: "j < length vs" using Cons.prems by simp
    show ?thesis
    proof (cases os)
      case Nil
      show ?thesis using Cons.IH [OF j, of "if P v then b + var_len v else b" "[]"] Suc Nil by (cases "P v") (auto split: if_splits)
    next
      case (Cons w ws)
      show ?thesis using Cons.IH [OF j, of "if P v then max b (var_begin w) + var_len v else b" ws] Suc Cons
        by (cases "P v") (auto simp: Let_def split: if_splits)
    qed
  qed
qed simp

lemma place_old_lower:
  assumes "\<forall>v \<in> set vs. 0 \<le> var_len v" "\<And>v c. P (v\<lparr>var_begin := c\<rparr>) = P v" "w \<in> set (place_old P b vs os)" "P w"
  shows "b \<le> var_begin w"
  using assms(1,3)
proof (induction vs arbitrary: b os)
  case (Cons v vs)
  have ih: "c \<le> var_begin w" if "w \<in> set (place_old P c vs ws)" for c ws using Cons.IH Cons.prems(1) that by simp
  have l: "0 \<le> var_len v" using Cons.prems(1) by simp
  show ?case
  proof (cases os)
    case Nil
    have "c \<le> var_begin w" if "w \<in> set (place_old P c vs [])" for c using ih that .
    with Cons.prems(2) Nil l assms(4) show ?thesis by (auto split: if_splits) force+
  next
    case (Cons x xs)
    have "c \<le> var_begin w" if "w \<in> set (place_old P c vs xs)" for c using ih that .
    with Cons.prems(2) Cons l assms(4) show ?thesis by (auto simp: Let_def split: if_splits) force+
  qed
qed simp

lemma place_old_sorted:
  assumes "\<forall>v \<in> set vs. 0 \<le> var_len v" "\<And>v c. P (v\<lparr>var_begin := c\<rparr>) = P v"
  shows "sorted_wrt (\<lambda>v w. P v \<longrightarrow> P w \<longrightarrow> var_begin v + var_len v \<le> var_begin w) (place_old P b vs os)"
  using assms(1)
proof (induction vs arbitrary: b os)
  case (Cons v vs)
  have low: "c \<le> var_begin w" if "w \<in> set (place_old P c vs ws)" "P w" for c w ws
    using Cons.prems by (intro place_old_lower [OF _ assms(2) that]) simp
  show ?case using Cons.IH Cons.prems low by (cases os) (auto simp: assms(2) Let_def)
qed simp

text \<open>Old begins that follow each other from \<open>b\<close> on are kept.\<close>

lemma place_old_same:
  "sorted_wrt (\<lambda>v w. P v \<longrightarrow> P w \<longrightarrow> var_begin v + var_len v \<le> var_begin w) os \<Longrightarrow> \<forall>w \<in> set os. P w \<longrightarrow> b \<le> var_begin w \<Longrightarrow>
    \<forall>i < length os. P (vs ! i) = P (os ! i) \<and> var_len (vs ! i) = var_len (os ! i) \<Longrightarrow> length os \<le> length vs \<Longrightarrow>
    i < length os \<Longrightarrow> P (vs ! i) \<Longrightarrow> var_begin (place_old P b vs os ! i) = var_begin (os ! i)"
proof (induction P b vs os arbitrary: i rule: place_old.induct)
  case (3 P b v vs w os)
  have e: "\<forall>i < length os. P (vs ! i) = P (os ! i) \<and> var_len (vs ! i) = var_len (os ! i)" "P v = P w" "var_len v = var_len w"
    using 3(5) by (auto simp: nth_Cons split: nat.splits)
  show ?case
  proof (cases "P v")
    case True
    then have c: "max b (var_begin w) = var_begin w" using 3(4) e by simp
    show ?thesis using 3(1) [OF True refl, unfolded c] 3(3-8) e True c by (cases i) (auto simp: Let_def)
  next
    case False
    with 3(2) [OF False] 3(3-8) e show ?thesis by (cases i) auto
  qed
next
  case (1 P b os)
  from 1(4,5) show ?case by simp
next
  case (2 P b v vs)
  from 2(7) show ?case by simp
qed

text \<open>Where \<open>place\<close> puts a variable.\<close>

lemma place_nth: "i < length vs \<Longrightarrow> place P b vs ! i = (if P (vs ! i) then (vs ! i)\<lparr>var_begin := b + total_len P (take i vs)\<rparr> else vs ! i)"
proof (induction vs arbitrary: b i)
  case (Cons v vs)
  then show ?case by (cases i) (auto simp: total_Cons total_len_def add.assoc)
qed simp

lemma place_length [simp]: "length (place P b vs) = length vs"
  by (induction vs arbitrary: b) simp_all

lemma extends_total: "extends vs os \<Longrightarrow> i \<le> length os \<Longrightarrow> total_len IS_RECVAR (take i vs) = total_len IS_RECVAR (take i os)"
proof (induction vs arbitrary: os i)
  case (Cons v vs)
  then show ?case by (cases os; cases i) (auto simp: total_Cons)
next
  case Nil
  then show ?case by (cases os) simp_all
qed

lemma total_take: "\<forall>v \<in> set vs. 0 \<le> var_len v \<Longrightarrow> i < length vs \<Longrightarrow> P (vs ! i) \<Longrightarrow> total_len P (take i vs) + var_len (vs ! i) \<le> total_len P vs"
proof (induction vs arbitrary: i)
  case (Cons v vs)
  have "0 \<le> total_len P vs" using Cons.prems(1) by (simp add: total_nonneg)
  with Cons show ?case by (cases i) (auto simp: total_Cons total_len_def)
qed simp

lemma total_mono: "\<forall>v \<in> set vs. 0 \<le> var_len v \<Longrightarrow> i < j \<Longrightarrow> j \<le> length vs \<Longrightarrow> P (vs ! i) \<Longrightarrow>
    total_len P (take i vs) + var_len (vs ! i) \<le> total_len P (take j vs)"
proof -
  assume a: "\<forall>v \<in> set vs. 0 \<le> var_len v" "i < j" "j \<le> length vs" "P (vs ! i)"
  have "\<forall>v \<in> set (take j vs). 0 \<le> var_len v" using a(1) by (meson in_set_takeD)
  moreover have "i < length (take j vs)" "take i (take j vs) = take i vs" "take j vs ! i = vs ! i" using a(2,3) by simp_all
  ultimately show ?thesis using total_take [of "take j vs" i P] a(4) by simp
qed

text \<open>Old record variables one after the other from an earlier start do not matter.\<close>

lemma begins_recs_old:
  assumes "extends vs os" "place IS_RECVAR a os = os" "0 \<le> a" "a \<le> b" "0 \<le> rsz" "\<forall>v \<in> set vs. 0 \<le> var_len v"
    "b + total_len IS_RECVAR vs \<le> (if off4 then X_OFF_MAX else X_INT64_MAX)" "rsz + total_len IS_RECVAR vs \<le> X_INT64_MAX"
  shows "begins_recs off4 b rsz lst vs (Some os) = begins_recs off4 b rsz lst vs None"
  using assms
proof (induction vs arbitrary: a b rsz lst os)
  case (Cons v vs)
  have t: "0 \<le> total_len IS_RECVAR vs" "0 \<le> var_len v" using Cons.prems(6) by (simp_all add: total_nonneg)
  show ?case
  proof (cases "IS_RECVAR v")
    case False
    have r: "filter IS_RECVAR os = filter IS_RECVAR (tl os)" using False Cons.prems(1) by (cases os) simp_all
    have "begins_recs off4 b rsz lst vs (Some (tl os)) = begins_recs off4 b rsz lst vs None"
    proof (rule Cons.IH [of _ a])
      show "extends vs (tl os)" "place IS_RECVAR a (tl os) = tl os" using Cons.prems(1,2) False by (cases os; simp)+
      show "b + total_len IS_RECVAR vs \<le> (if off4 then X_OFF_MAX else X_INT64_MAX)" "rsz + total_len IS_RECVAR vs \<le> X_INT64_MAX"
        using Cons.prems(7,8) False by (simp_all add: total_Cons)
    qed (use Cons.prems in simp_all)
    then show ?thesis using False begins_recs_filter [OF r, of off4 b rsz lst vs] by simp
  next
    case True
    have lim: "b + var_len v + total_len IS_RECVAR vs \<le> (if off4 then X_OFF_MAX else X_INT64_MAX)"
      "rsz + var_len v + total_len IS_RECVAR vs \<le> X_INT64_MAX" using Cons.prems(7,8) True by (simp_all add: total_Cons add.assoc)
    have b: "b + var_len v \<le> X_INT64_MAX" using lim(1) t by (auto split: if_splits)
    have w: "s64 (b + var_len v) = b + var_len v" "u64 (rsz + var_len v) = rsz + var_len v"
      using b lim(2) t Cons.prems(3-5) by (simp_all add: s64_id u64_id)
    show ?thesis
    proof (cases os)
      case Nil
      have "begins_recs off4 (b + var_len v) (rsz + var_len v) l vs (Some []) = begins_recs off4 (b + var_len v) (rsz + var_len v) l vs None" for l
        using Cons.prems t lim by (intro Cons.IH [of _ b]) simp_all
      with True w Nil show ?thesis by (auto simp: Let_def)
    next
      case (Cons x xs)
      have x: "IS_RECVAR x" "extends vs xs" "var_len x = var_len v" using Cons.prems(1) True Cons by simp_all
      have p: "x\<lparr>var_begin := a\<rparr> = x" "place IS_RECVAR (a + var_len x) xs = xs" using Cons.prems(2) x(1) Cons by simp_all
      have "var_begin (x\<lparr>var_begin := a\<rparr>) = a" by simp
      then have "max b (var_begin x) = b" using Cons.prems(4) unfolding p(1) by simp
      moreover have "begins_recs off4 (b + var_len v) (rsz + var_len v) l vs (Some xs) = begins_recs off4 (b + var_len v) (rsz + var_len v) l vs None" for l
        using Cons.prems t lim x p by (intro Cons.IH [of _ "a + var_len x"]) simp_all
      ultimately show ?thesis using True w x(1) Cons by (auto simp: Let_def)
    qed
  qed
qed simp

text \<open>The layout of an existing file: as this library writes it, its single record variable needing no padding.\<close>

definition old_layout :: "'a nc3_hdr_scheme \<Rightarrow> bool" where
  "old_layout od \<longleftrightarrow> (let ov = vars_value (vars od) in
     sorted_wrt (\<lambda>v w. is_fixed v \<longrightarrow> is_fixed w \<longrightarrow> var_begin v + var_len v \<le> var_begin w) ov \<and>
     (\<forall>v \<in> set ov. is_fixed v \<longrightarrow> begin_var od \<le> var_begin v \<and> var_begin v + var_len v \<le> begin_rec od) \<and>
     place IS_RECVAR (begin_rec od) ov = ov \<and> recsize od = total_len IS_RECVAR ov \<and> 0 \<le> begin_var od \<and> begin_var od \<le> begin_rec od \<and>
     0 \<le> numrecs od \<and> numrecs od < 2147483648)"

text \<open>The two passes after a redef, as lists.\<close>

lemma passes_redef_ok:
  assumes ext: "extends gv ov" and nn: "\<forall>v \<in> set gv. 0 \<le> var_len v"
    and od: "old_layout od" "vars_value (vars od) = ov" and bv: "begin_var od \<le> bv" and br: "begin_rec od \<le> br"
    and end1: "\<forall>w \<in> set (filter is_fixed (place_old is_fixed bv gv ov)). var_begin w + var_len w \<le> br"
    and gnu: "vars_value (vars gnu) = place IS_RECVAR br (place_old is_fixed bv gv ov)" "begin_rec gnu = br" "recsize gnu = total_len IS_RECVAR gv"
      "begin_var gnu \<le> begin_var od \<Longrightarrow> filter is_fixed ov \<noteq> [] \<Longrightarrow> bv = begin_var od"
    and sz: "br + recsize gnu * numrecs od \<le> sz" "sz \<le> X_INT64_MAX"
  shows "redef_ok sz gnu od"
proof -
  let ?v1 = "place_old is_fixed bv gv ov" and ?v2 = "place IS_RECVAR br (place_old is_fixed bv gv ov)"
  note e = extends_nth [OF ext]
  note o = od(1) [unfolded old_layout_def Let_def od(2)]
  have kind: "IS_RECVAR (?v1 ! i) = IS_RECVAR (gv ! i)" "var_len (?v1 ! i) = var_len (gv ! i)" if "i < length gv" for i
    using place_old_nth [OF that, of is_fixed bv ov] by (auto split: if_splits)
  have nn1: "\<forall>v \<in> set ?v1. 0 \<le> var_len v" using nn kind(2) by (fastforce simp: in_set_conv_nth)
  have map1: "map (\<lambda>v. (IS_RECVAR v, var_len v)) ?v1 = map (\<lambda>v. (IS_RECVAR v, var_len v)) gv"
    using kind by (intro nth_equalityI) auto
  have ext1: "extends ?v1 ov" using ext map1 by (simp add: extends_def)
  have tot1: "total_len IS_RECVAR (take i ?v1) = total_len IS_RECVAR (take i gv)" for i
  proof -
    have t: "total_len IS_RECVAR xs = sum_list (map snd (filter fst (map (\<lambda>v. (IS_RECVAR v, var_len v)) xs)))" for xs
      by (induction xs) (simp_all add: total_len_def)
    show ?thesis unfolding t take_map [symmetric] map1 ..
  qed
  have tot: "total_len IS_RECVAR ?v1 = total_len IS_RECVAR gv" using tot1 [of "length gv"] by simp
  have fixed: "?v2 ! i = ?v1 ! i" if "i < length gv" "is_fixed (gv ! i)" for i using that kind by (simp add: place_nth)
  have rec_new: "var_begin (?v2 ! i) = br + total_len IS_RECVAR (take i ov)" if "i < length ov" "IS_RECVAR (gv ! i)" for i
    using that kind e extends_total [OF ext1, of i] by (simp add: place_nth)
  have rec_old: "var_begin (ov ! i) = begin_rec od + total_len IS_RECVAR (take i ov)" if "i < length ov" "IS_RECVAR (ov ! i)" for i
  proof -
    have "place IS_RECVAR (begin_rec od) ov ! i = ov ! i" using o by simp
    then have "(ov ! i)\<lparr>var_begin := begin_rec od + total_len IS_RECVAR (take i ov)\<rparr> = ov ! i" using that by (simp add: place_nth)
    then show ?thesis by (metis NC_var.select_convs(10) NC_var.surjective NC_var.update_convs(10))
  qed
  have nno: "\<forall>v \<in> set ov. 0 \<le> var_len v" using e nn by (metis in_set_conv_nth order_less_le_trans)
  have tpos: "0 \<le> total_len IS_RECVAR (take i ov)" for i using nno by (intro total_nonneg) (meson in_set_takeD)
  have n: "length ov \<le> length gv" using e by simp
  have srt: "sorted_wrt (\<lambda>v w. is_fixed v \<longrightarrow> is_fixed w \<longrightarrow> var_begin v + var_len v \<le> var_begin w) ?v1"
    by (rule place_old_sorted [OF nn]) simp
  have k2: "IS_RECVAR (?v2 ! i) = IS_RECVAR (ov ! i) \<and> 0 \<le> var_len (ov ! i) \<and> 0 \<le> var_begin (ov ! i) \<and> var_begin (ov ! i) \<le> var_begin (?v2 ! i)"
    if "i < length ov" for i
  proof (cases "IS_RECVAR (ov ! i)")
    case True
    with that e have "IS_RECVAR (gv ! i)" by simp
    with True that n kind nno rec_new [OF that] rec_old [OF that] o br tpos [of i] show ?thesis by (simp add: place_nth)
  next
    case False
    with that e have g: "is_fixed (gv ! i)" "i < length gv" by simp_all
    have "0 \<le> var_begin (ov ! i)" using o False that by (metis nth_mem order_trans)
    moreover have "var_begin (ov ! i) \<le> var_begin (?v1 ! i)" using place_old_nth [OF g(2), of is_fixed bv ov] g that by auto
    ultimately show ?thesis using fixed [OF g(2,1)] kind(1) [OF g(2)] False g nno that by simp
  qed
  have ord: "var_begin (ov ! i) + var_len (ov ! i) \<le> var_begin (ov ! j) \<and> var_begin (?v2 ! i) + var_len (ov ! i) \<le> var_begin (?v2 ! j)"
    if "j < length ov" "i < j" "IS_RECVAR (ov ! i) = IS_RECVAR (ov ! j)" for i j
  proof (cases "IS_RECVAR (ov ! j)")
    case True
    then have g: "IS_RECVAR (gv ! i)" "IS_RECVAR (gv ! j)" "i < length ov" "IS_RECVAR (ov ! i)" using that e by simp_all
    have "total_len IS_RECVAR (take i ov) + var_len (ov ! i) \<le> total_len IS_RECVAR (take j ov)"
      using that g(4) by (intro total_mono [OF nno]) simp_all
    then show ?thesis using rec_new [OF g(3,1)] rec_new [OF that(1) g(2)] rec_old [OF g(3,4)] rec_old [OF that(1) True] by simp
  next
    case False
    then have g: "is_fixed (gv ! i)" "is_fixed (gv ! j)" "i < length gv" "j < length gv" "is_fixed (ov ! i)" using that e by simp_all
    have "var_begin (?v1 ! i) + var_len (?v1 ! i) \<le> var_begin (?v1 ! j)"
      using sorted_wrt_nth_less [OF srt that(2)] g kind by simp
    moreover have "var_begin (ov ! i) + var_len (ov ! i) \<le> var_begin (ov ! j)"
      using sorted_wrt_nth_less [OF _ that(2,1)] o g(5) False by blast
    moreover have "var_len (?v1 ! i) = var_len (ov ! i)" using kind(2) [OF g(3)] e that by simp
    ultimately show ?thesis using fixed g by simp
  qed
  have fx: "var_begin (ov ! i) + var_len (ov ! i) \<le> begin_rec od \<and> var_begin (?v2 ! i) + var_len (ov ! i) \<le> br \<and>
      (begin_var gnu \<le> begin_var od \<longrightarrow> var_begin (?v2 ! i) = var_begin (ov ! i))" if "i < length ov" "is_fixed (ov ! i)" for i
  proof -
    have g: "is_fixed (gv ! i)" "i < length gv" using that e by simp_all
    have "?v1 ! i \<in> set (filter is_fixed ?v1)" using g kind(1) [OF g(2)] by simp
    then have "var_begin (?v1 ! i) + var_len (?v1 ! i) \<le> br" using end1 by blast
    moreover have "var_begin (?v1 ! i) = var_begin (ov ! i)" if "begin_var gnu \<le> begin_var od"
    proof -
      have "filter is_fixed ov \<noteq> []" using \<open>is_fixed (ov ! i)\<close> \<open>i < length ov\<close> by (metis filter_empty_conv nth_mem)
      then have b: "bv = begin_var od" by (rule gnu(4) [OF that])
      show ?thesis unfolding b using o e g \<open>i < length ov\<close> by (intro place_old_same) auto
    qed
    ultimately show ?thesis using fixed [OF g(2,1)] kind(2) [OF g(2)] e that o by auto
  qed
  have rc: "begin_rec od \<le> var_begin (ov ! i) \<and> var_begin (ov ! i) + var_len (ov ! i) \<le> begin_rec od + recsize od \<and>
      br \<le> var_begin (?v2 ! i) \<and> var_begin (?v2 ! i) + var_len (ov ! i) \<le> br + recsize gnu \<and>
      (br = begin_rec od \<and> recsize gnu = recsize od \<longrightarrow> var_begin (?v2 ! i) = var_begin (ov ! i))" if "i < length ov" "IS_RECVAR (ov ! i)" for i
  proof -
    have g: "IS_RECVAR (gv ! i)" "i < length gv" using that e by simp_all
    have "total_len IS_RECVAR (take i ov) + var_len (ov ! i) \<le> recsize od" using total_take [of ov i IS_RECVAR] nno that o by simp
    moreover have "total_len IS_RECVAR (take i gv) + var_len (gv ! i) \<le> recsize gnu" using total_take [of gv i IS_RECVAR] nn g gnu(3) by simp
    moreover have "total_len IS_RECVAR (take i gv) = total_len IS_RECVAR (take i ov)" using that by (intro extends_total [OF ext]) simp
    ultimately show ?thesis using rec_new [OF that(1) g(1)] rec_old [OF that] tpos [of i] e that by auto
  qed
  have rs: "0 \<le> recsize od" "recsize od \<le> recsize gnu"
  proof -
    show "0 \<le> recsize od" using o nno by (simp add: total_nonneg)
    have "gv = take (length ov) gv @ drop (length ov) gv" by simp
    then have "total_len IS_RECVAR gv = total_len IS_RECVAR (take (length ov) gv) + total_len IS_RECVAR (drop (length ov) gv)"
      by (metis (no_types, lifting) filter_append map_append sum_list_append total_len_def)
    moreover have "0 \<le> total_len IS_RECVAR (drop (length ov) gv)" using nn by (intro total_nonneg) (meson in_set_dropD)
    moreover have "total_len IS_RECVAR (take (length ov) gv) = total_len IS_RECVAR ov" using extends_total [OF ext, of "length ov"] by simp
    ultimately show "recsize od \<le> recsize gnu" using o gnu(3) by simp
  qed
  show ?thesis unfolding redef_ok_def Let_def gnu(1,2) od(2) using n k2 ord fx rc rs o br sz by (auto simp: gnu(2))
qed

lemma passes_kinds:
  "map (\<lambda>v. (IS_RECVAR v, var_len v, var_dsizes v, var_xsz v)) (place_old is_fixed b vs os) = map (\<lambda>v. (IS_RECVAR v, var_len v, var_dsizes v, var_xsz v)) vs"
  by (induction "is_fixed" b vs os rule: place_old.induct) (auto simp: Let_def)

lemma place_old_other: "filter IS_RECVAR (place_old is_fixed b vs os) = filter IS_RECVAR vs"
  by (induction "is_fixed" b vs os rule: place_old.induct) (auto simp: Let_def)

text \<open>
  C15: after a redef that added variables, \<open>NC_begins\<close> computes a layout in which no old variable moves
  down and old variables keep their order without overlap (\<open>redef_ok\<close>), so that the data can be moved; the
  header has the room asked for, and a layout whose sizes stay within the offsets' range never fails.
\<close>

theorem NC_begins_redef:
  fixes ncp :: "'a nc3_info_scheme"
  defines "gv \<equiv> vars_value (vars ncp)" and "hdr \<equiv> int (ncx_len_NC ncp (if version_of (flags ncp) = 1 then 4 else 8))"
  assumes od: "old ncp = Some od" "old_layout od" "extends gv (vars_value (vars od))" and vs: "gv \<noteq> []"
    and cur: "begin_var ncp = begin_var od" "begin_rec ncp = begin_rec od" "\<not> NC_IsNew ncp"
    and lens: "\<forall>v \<in> set gv. 0 < var_len v" "\<forall>v \<in> set gv. IS_RECVAR v \<longrightarrow> var_dsizes v \<noteq> []" "packed_recsize gv = total_len IS_RECVAR gv"
    and args: "0 \<le> h_minfree" "0 \<le> v_minfree" "1 \<le> v_align" "1 \<le> r_align" "begin_rec od mod r_align = 0"
    and limit: "max (hdr + h_minfree + v_align) (begin_rec od + v_align) + total_len is_fixed gv + v_minfree + r_align + total_len IS_RECVAR gv
      \<le> (if version_of (flags ncp) = 1 then X_OFF_MAX else X_INT64_MAX)"
  shows "\<exists>ncp'. NC_begins ncp h_minfree v_align v_minfree r_align = Done (NC_NOERR, ncp') \<and>
    hdr + h_minfree \<le> begin_var ncp' \<and> xsz ncp' = hdr \<and> recsize ncp' = total_len IS_RECVAR gv \<and> numrecs ncp' = numrecs ncp \<and>
    map var_name (vars_value (vars ncp')) = map var_name gv \<and>
    (\<forall>sz. begin_rec ncp' + recsize ncp' * numrecs od \<le> sz \<longrightarrow> sz \<le> X_INT64_MAX \<longrightarrow> redef_ok sz ncp' od)"
proof -
  let ?off4 = "\<not> (fIsSet (flags ncp) NC_64BIT_OFFSET \<or> fIsSet (flags ncp) NC_64BIT_DATA)"
  have off4: "?off4 \<longleftrightarrow> version_of (flags ncp) = 1" by (auto simp: version_of_def)
  let ?max = "if version_of (flags ncp) = 1 then X_OFF_MAX else X_INT64_MAX"
  let ?ov = "vars_value (vars od)"
  note o = od(2) [unfolded old_layout_def Let_def]
  have mx: "?max \<le> X_INT64_MAX" by simp
  have nn: "\<forall>v \<in> set gv. 0 \<le> var_len v" using lens(1) by (simp add: less_imp_le)
  have t: "0 \<le> total_len is_fixed gv" "0 \<le> total_len IS_RECVAR gv" using nn by (simp_all add: total_nonneg)
  have hdr: "0 < hdr" by (simp add: hdr_def ncx_len_NC_def Let_def)
  have al: "v_align \<noteq> NC_ALIGN_CHUNK" "r_align \<noteq> NC_ALIGN_CHUNK" using limit mx t args hdr by auto
  have "\<exists>b. begins_start (begin_var od) hdr h_minfree v_align = Done b \<and> hdr + h_minfree \<le> b \<and> b mod v_align = 0 \<and>
      (b = begin_var od \<or> b < hdr + h_minfree + v_align) \<and> (begin_var od < hdr + h_minfree \<longrightarrow> b < hdr + h_minfree + v_align)"
    using limit mx t args hdr o by (intro begins_start_ok) linarith+
  then obtain bv0 where bv0: "begins_start (begin_var od) hdr h_minfree v_align = Done bv0" "hdr + h_minfree \<le> bv0"
    "bv0 = begin_var od \<or> bv0 < hdr + h_minfree + v_align" by auto
  define bv where "bv = max bv0 (begin_var od)"
  define m where "m = max bv (begin_rec od)"
  have bv: "0 \<le> bv" "begin_var od \<le> bv" "hdr + h_minfree \<le> bv" "bv \<le> m" "begin_rec od \<le> m" "m \<le> max (hdr + h_minfree + v_align) (begin_rec od + v_align)"
    using bv0 hdr args o unfolding bv_def m_def by linarith+
  let ?vs1 = "place_old is_fixed bv gv ?ov"
  have ofx: "\<forall>w \<in> set ?ov. is_fixed w \<longrightarrow> var_begin w \<le> m"
  proof (intro ballI impI)
    fix w assume w: "w \<in> set ?ov" "is_fixed w"
    then obtain i where i: "i < length ?ov" "?ov ! i = w" by (auto simp: in_set_conv_nth)
    have "gv ! i \<in> set gv" "var_len w = var_len (gv ! i)" using extends_nth [OF od(3)] i by auto
    then have "0 \<le> var_len w" using nn by simp
    then show "var_begin w \<le> m" using o w bv(5) by force
  qed
  have mlim: "m + total_len is_fixed gv + v_minfree + r_align + total_len IS_RECVAR gv \<le> ?max" using bv(6) limit by linarith
  have mt: "m + total_len is_fixed gv \<le> (if ?off4 then X_OFF_MAX else X_INT64_MAX)" unfolding off4 using mlim t args by linarith
  obtain i where p1: "begins_fixed ?off4 bv gv (Some ?ov) = (NC_NOERR, i, ?vs1)" "bv \<le> i" "i \<le> m + total_len is_fixed gv"
    "\<forall>w \<in> set (filter is_fixed ?vs1). bv \<le> var_begin w \<and> var_begin w + var_len w \<le> i"
    using begins_fixed_old [OF od(3) bv(1,4) ofx nn mt] by blast
  have "\<exists>b. begins_start (begin_rec od) i v_minfree r_align = Done b \<and> i + v_minfree \<le> b \<and> b mod r_align = 0 \<and>
      (b = begin_rec od \<or> b < i + v_minfree + r_align) \<and> (begin_rec od < i + v_minfree \<longrightarrow> b < i + v_minfree + r_align)"
    using p1(2,3) bv mlim mx t args o by (intro begins_start_ok) linarith+
  then obtain br where br: "begins_start (begin_rec od) i v_minfree r_align = Done br" "i + v_minfree \<le> br"
    "br = begin_rec od \<or> br < i + v_minfree + r_align" "begin_rec od < i + v_minfree \<longrightarrow> br < i + v_minfree + r_align" by blast
  have brec: "begin_rec od \<le> br"
  proof (cases "begin_rec od < i + v_minfree")
    case False
    then have "begins_start (begin_rec od) i v_minfree r_align = Done (begin_rec od)"
      using p1(2,3) bv mlim mx t args o by (intro begins_start_keep) linarith+
    with br(1) show ?thesis by simp
  qed (use br(2) in simp)
  have recb: "br + total_len IS_RECVAR gv \<le> ?max" "total_len IS_RECVAR gv \<le> X_INT64_MAX" "0 \<le> br"
    using br(2,3) p1(3) bv(1,4,5) mlim mx t args o brec by linarith+
  have kinds: "map (\<lambda>v. (IS_RECVAR v, var_len v)) ?vs1 = map (\<lambda>v. (IS_RECVAR v, var_len v)) gv"
    using arg_cong [OF passes_kinds [of bv gv ?ov], of "map (\<lambda>(a, b, c). (a, b))"] by (simp add: split_def comp_def)
  have ext1: "extends ?vs1 ?ov" using od(3) kinds by (simp add: extends_def)
  have nn1: "\<forall>v \<in> set ?vs1. 0 \<le> var_len v"
  proof -
    have "map var_len ?vs1 = map var_len gv" using arg_cong [OF kinds, of "map snd"] by (simp add: comp_def)
    then have "var_len ` set ?vs1 = var_len ` set gv" by (metis list.set_map)
    with nn show ?thesis by (metis imageE imageI)
  qed
  have tp: "filter IS_RECVAR ?vs1 = filter IS_RECVAR gv" "total_len IS_RECVAR ?vs1 = total_len IS_RECVAR gv"
    by (simp_all add: place_old_other total_len_def)
  let ?vs2 = "place IS_RECVAR br ?vs1"
  let ?lst = "if filter IS_RECVAR gv = [] then None else Some (List.last (place IS_RECVAR br (filter IS_RECVAR gv)))"
  have f2: "filter IS_RECVAR ?vs2 = place IS_RECVAR br (filter IS_RECVAR gv)" using tp(1) by (simp add: place_filter)
  have "begins_recs ?off4 br 0 None ?vs1 (Some ?ov) = begins_recs ?off4 br 0 None ?vs1 None"
    using o brec recb nn1 tp off4 by (intro begins_recs_old [OF ext1, of "begin_rec od"]) simp_all
  also have "\<dots> = (NC_NOERR, total_len IS_RECVAR gv, ?lst, ?vs2)"
    using begins_recs_new [OF recb(3) _ nn1, of 0 ?off4 None] recb(1,2) unfolding off4 f2 tp by simp
  finally have p2: "begins_recs ?off4 br 0 None ?vs1 (Some ?ov) = (NC_NOERR, total_len IS_RECVAR gv, ?lst, ?vs2)" .
  note rsz = recsize_step [OF lens(1,2) recb(2), of br, unfolded lens(3)]
  define o4 where "o4 = ?off4"
  define vs1 where "vs1 = ?vs1"
  define vs2 where "vs2 = ?vs2"
  define l where "l = ?lst"
  have q: "begins_fixed o4 bv gv (Some ?ov) = (NC_NOERR, i, vs1)"
      "begins_recs o4 br 0 None vs1 (Some ?ov) = (NC_NOERR, total_len IS_RECVAR gv, l, vs2)"
      "(case l of None \<Rightarrow> Done (total_len IS_RECVAR gv) | Some l \<Rightarrow> if total_len IS_RECVAR gv = u64 (var_len l)
        then run_bind (peek (var_dsizes l) 0) (\<lambda>d. Done (u64 (d * var_xsz l))) else Done (total_len IS_RECVAR gv)) = Done (total_len IS_RECVAR gv)"
    using p1(1) p2 rsz unfolding o4_def vs1_def vs2_def l_def by blast+
  define n1 where "n1 = ncp\<lparr>xsz := hdr\<rparr>"
  have n1: "vars n1 = vars ncp" "vars_value (vars ncp) = gv" "begin_var n1 = begin_var od" "begin_rec n1 = begin_rec od" "old n1 = Some od"
      "xsz n1 = hdr" "\<not> NC_IsNew n1" "numrecs n1 = numrecs ncp"
    using od(1) cur by (simp_all add: n1_def NC_IsNew_def gv_def)
  have olen: "int (ncx_len_NC ncp (if o4 then 4 else 8)) = hdr" unfolding hdr_def o4_def off4 by simp
  define bv2 where "bv2 = (case filter is_fixed vs1 of [] \<Rightarrow> br | v # _ \<Rightarrow> var_begin v)"
  let ?n = "(set_vars n1 vs2)\<lparr>begin_var := bv2, begin_rec := br, recsize := total_len IS_RECVAR gv, numrecs := numrecs n1\<rparr>"
  have begins: "NC_begins ncp h_minfree v_align v_minfree r_align = Done (NC_NOERR, ?n)"
    unfolding NC_begins_def Let_def o4_def [symmetric] olen n1_def [symmetric] if_not_P [OF al(1)] if_not_P [OF al(2)] n1 option.case option.map
      max.idem bv2_def
    using vs by (simp add: bv0(1) bv_def [symmetric] q(1) br(1) q(2)) (simp add: q(3) n1(7,8))
  have fne: "filter is_fixed vs1 = [] \<Longrightarrow> filter is_fixed gv = []" 
    using arg_cong [OF kinds, of "filter (\<lambda>x. \<not> fst x)"] by (simp add: vs1_def filter_map comp_def)
  have bv2: "bv \<le> bv2"
  proof (cases "filter is_fixed vs1")
    case Nil
    then show ?thesis using p1(2) br(2) args by (simp add: bv2_def)
  next
    case (Cons w ws)
    then have "w \<in> set (filter is_fixed ?vs1)" by (simp add: vs1_def)
    then show ?thesis using p1(4) Cons by (simp add: bv2_def)
  qed
  have redef: "redef_ok sz ?n od" if "begin_rec ?n + recsize ?n * numrecs od \<le> sz" "sz \<le> X_INT64_MAX" for sz
  proof (rule passes_redef_ok [OF od(3) nn od(2) refl bv(2) brec])
    show "\<forall>w \<in> set (filter is_fixed ?vs1). var_begin w + var_len w \<le> br" using p1(4) br(2) args(2) by fastforce
    show "vars_value (vars ?n) = place IS_RECVAR br ?vs1" by (simp add: set_vars_def vs2_def)
    show "begin_rec ?n = br" "recsize ?n = total_len IS_RECVAR gv" by simp_all
    show "bv = begin_var od" if "begin_var ?n \<le> begin_var od"
      using that bv(2) bv2 by simp
    show "br + recsize ?n * numrecs od \<le> sz" using that by simp
  qed (rule that(2))
  have "map var_name vs2 = map var_name gv"
  proof -
    have "map var_name (place P b vs) = map var_name vs" for P b vs by (induction vs arbitrary: b) simp_all
    moreover have "map var_name (place_old P b vs os) = map var_name vs" for P b vs os
      by (induction P b vs os rule: place_old.induct) (simp_all add: Let_def)
    ultimately show ?thesis by (simp add: vs2_def)
  qed
  with begins redef bv(3) bv2 n1 show ?thesis by (intro exI [of _ ?n]) (simp add: set_vars_def)
qed

text \<open>A file with a fixed-size and a record variable, at \<open>b\<close> and \<open>r\<close>, in define mode with \<open>new\<close> variables added.\<close>

definition sample_redef :: "int \<Rightarrow> int \<Rightarrow> NC_var list \<Rightarrow> nc3_info" where
  "sample_redef b r new = (let od = sample_hdr b r [sample_var b 8 2, sample_var r 4 0] in
     od\<lparr>old := Some (nc3_hdr.truncate od), flags := NC_INDEF, vars := (vars od)\<lparr>vars_value := vars_value (vars od) @ new\<rparr>\<rparr>)"

lemma sample_recvar:
  "IS_RECVAR (sample_var b k m) \<longleftrightarrow> m = 0" "var_len (sample_var b k m) = k" "var_begin (sample_var b k m) = b"
  "var_dsizes (sample_var b k m) = [if m = 0 then 1 else m]" "var_xsz (sample_var b k m) = 4" "(sample_var b k m)\<lparr>var_begin := c\<rparr> = sample_var c k m"
  by (simp_all add: sample_var_def IS_RECVAR_def)

lemma sample_redef_sel:
  "vars_value (vars (sample_redef b r new)) = sample_var b 8 2 # sample_var r 4 0 # new"
  "old (sample_redef b r new) = Some (nc3_hdr.truncate (sample_hdr b r [sample_var b 8 2, sample_var r 4 0]))"
  "begin_var (sample_redef b r new) = b" "begin_rec (sample_redef b r new) = r" "recsize (sample_redef b r new) = 4"
  "flags (sample_redef b r new) = NC_INDEF" "version_of (flags (sample_redef b r new)) = 1" "\<not> NC_IsNew (sample_redef b r new)"
  "numrecs (sample_redef b r new) = 0" "NC_indef (sample_redef b r new)" "\<not> NC_readonly (sample_redef b r new)" "xsz (sample_redef b r new) = 100"
  "chunk (sample_redef b r new) = 4096"
  by (simp_all add: sample_redef_def Let_def sample_hdr_def version_of_def fIsSet_def NC_IsNew_def NC_indef_def NC_readonly_def)

lemma sample_redef_flags: "version_of 8 = 1" "\<not> fIsSet 8 512" "\<not> fIsSet 8 32" "fIsSet 8 8"
  by (simp_all add: version_of_def fIsSet_def)

lemma sample_redef_len: "ncx_len_NC (sample_redef b r []) 4 = 104" "ncx_len_NC (sample_redef b r [sample_var 0 20 5]) 4 = 140"
  by (simp_all add: ncx_len_NC_def Let_def sample_redef_sel sample_redef_flags)
    (simp_all add: sample_redef_def Let_def sample_hdr_def sample_var_def ncx_len_NC_dimarray_def ncx_len_NC_attrarray_def empty_dimarray_def
      ncx_len_NC_vararray_def ncx_len_NC_var_def ncx_len_NC_string_def size_bytes_def RNDUP_def empty_attrarray_def)

lemma NC_begins_redef_witness:
  "\<exists>ncp'. NC_begins (sample_redef 104 112 [sample_var 0 20 5]) 0 4 0 4 = Done (NC_NOERR, ncp') \<and> 140 \<le> begin_var ncp' \<and> recsize ncp' = 4 \<and>
    (begin_rec ncp' \<le> 512 \<longrightarrow> redef_ok 512 ncp' (nc3_hdr.truncate (sample_hdr 104 112 [sample_var 104 8 2, sample_var 112 4 0])))"
proof -
  let ?od = "nc3_hdr.truncate (sample_hdr 104 112 [sample_var 104 8 2, sample_var 112 4 0])"
  have o: "vars_value (vars ?od) = [sample_var 104 8 2, sample_var 112 4 0]" "begin_var ?od = 104" "begin_rec ?od = 112" "recsize ?od = 4" "numrecs ?od = 0"
    by (simp_all add: sample_hdr_def nc3_hdr.truncate_def)
  have od: "old_layout ?od" unfolding old_layout_def Let_def o by (simp add: sample_recvar total_len_def)
  have x: "extends (vars_value (vars (sample_redef 104 112 [sample_var 0 20 5]))) (vars_value (vars ?od))"
    unfolding o sample_redef_sel by (simp add: sample_recvar)
  have t: "total_len is_fixed (vars_value (vars (sample_redef 104 112 [sample_var 0 20 5]))) = 28"
      "total_len IS_RECVAR (vars_value (vars (sample_redef 104 112 [sample_var 0 20 5]))) = 4"
      "packed_recsize (vars_value (vars (sample_redef 104 112 [sample_var 0 20 5]))) = 4"
    unfolding sample_redef_sel by (simp_all add: total_len_def packed_recsize_def sample_recvar u64_def)
  show ?thesis
    using NC_begins_redef [OF sample_redef_sel(2) od x, of 0 0 4 4, unfolded t] sample_redef_len(2) [of 104 112]
    by (auto simp: sample_redef_sel sample_redef_flags sample_recvar o)
qed

text \<open>The two passes of \<open>NC_begins\<close> over variables that already have their places: nothing moves.\<close>

lemma sorted_wrt_filter_imp: "sorted_wrt (\<lambda>v w. P v \<longrightarrow> P w \<longrightarrow> R v w) xs \<Longrightarrow> sorted_wrt R (filter P xs)"
  by (induction xs) auto

lemma begins_fixed_same:
  assumes "0 \<le> b" "b \<le> e" "e \<le> (if off4 then X_OFF_MAX else X_INT64_MAX)" "\<forall>v \<in> set vs. 0 \<le> var_len v"
    "sorted_wrt (\<lambda>v w. is_fixed v \<longrightarrow> is_fixed w \<longrightarrow> var_begin v + var_len v \<le> var_begin w) vs"
    "\<forall>v \<in> set vs. is_fixed v \<longrightarrow> b \<le> var_begin v \<and> var_begin v + var_len v \<le> e"
  shows "\<exists>i. begins_fixed off4 b vs (Some vs) = (NC_NOERR, i, vs) \<and> b \<le> i \<and> i \<le> e \<and> (\<forall>v \<in> set vs. is_fixed v \<longrightarrow> var_begin v + var_len v \<le> i)"
  using assms
proof (induction vs arbitrary: b)
  case (Cons v vs)
  show ?case
  proof (cases "IS_RECVAR v")
    case True
    have "filter is_fixed (v # vs) = filter is_fixed vs" using True by simp
    from begins_fixed_filter [OF this, of off4 b vs] Cons.IH [OF Cons.prems(1-3)] Cons.prems(4-6) True show ?thesis by auto
  next
    case False
    have v: "b \<le> var_begin v" "var_begin v + var_len v \<le> e" "0 \<le> var_len v" using Cons.prems(4,6) False by auto
    have s: "s64 (var_begin v + var_len v) = var_begin v + var_len v" using v Cons.prems(1,3) by (intro s64_id) (auto split: if_splits)
    have m: "max b (var_begin v) = var_begin v" "v\<lparr>var_begin := var_begin v\<rparr> = v" using v(1) by simp_all
    obtain i where "begins_fixed off4 (var_begin v + var_len v) vs (Some vs) = (NC_NOERR, i, vs)" "var_begin v + var_len v \<le> i" "i \<le> e"
        "\<forall>w \<in> set vs. is_fixed w \<longrightarrow> var_begin w + var_len w \<le> i"
      using Cons.IH [of "var_begin v + var_len v"] Cons.prems v False by auto
    moreover have "\<not> (off4 \<and> (X_OFF_MAX < b \<or> b < 0))" using Cons.prems(1-3) by (auto split: if_splits)
    ultimately show ?thesis using False s m v by (auto simp: Let_def)
  qed
qed simp

lemma begins_recs_same:
  assumes "place IS_RECVAR a vs = vs" "0 \<le> b" "b \<le> a" "0 \<le> rsz" "\<forall>v \<in> set vs. 0 \<le> var_len v"
    "a + total_len IS_RECVAR vs \<le> (if off4 then X_OFF_MAX else X_INT64_MAX)" "rsz + total_len IS_RECVAR vs \<le> X_INT64_MAX"
  shows "begins_recs off4 b rsz lst vs (Some vs) = (NC_NOERR, rsz + total_len IS_RECVAR vs,
    (if filter IS_RECVAR vs = [] then lst else Some (List.last (filter IS_RECVAR vs))), vs)"
  using assms
proof (induction vs arbitrary: a b rsz lst)
  case (Cons v vs)
  have t: "0 \<le> total_len IS_RECVAR vs" "0 \<le> var_len v" using Cons.prems(5) by (simp_all add: total_nonneg)
  show ?case
  proof (cases "IS_RECVAR v")
    case False
    have "filter IS_RECVAR (v # vs) = filter IS_RECVAR vs" using False by simp
    from begins_recs_filter [OF this, of off4 b rsz lst vs] Cons.IH [of a b rsz lst] Cons.prems False show ?thesis by (simp add: total_Cons)
  next
    case True
    have p: "v\<lparr>var_begin := a\<rparr> = v" "place IS_RECVAR (a + var_len v) vs = vs" using Cons.prems(1) True by simp_all
    have "var_begin (v\<lparr>var_begin := a\<rparr>) = a" by simp
    then have m: "max b (var_begin v) = var_begin v" "v\<lparr>var_begin := var_begin v\<rparr> = v" using Cons.prems(3) unfolding p(1) by simp_all
    have lim: "a + var_len v + total_len IS_RECVAR vs \<le> (if off4 then X_OFF_MAX else X_INT64_MAX)" "rsz + var_len v + total_len IS_RECVAR vs \<le> X_INT64_MAX"
      using Cons.prems(6,7) True by (simp_all add: total_Cons add.assoc)
    have w: "s64 (b + var_len v) = b + var_len v" "u64 (rsz + var_len v) = rsz + var_len v"
      using lim t Cons.prems(2-4) by (auto simp: s64_id u64_id split: if_splits)
    have "begins_recs off4 (b + var_len v) (rsz + var_len v) (Some v) vs (Some vs) = (NC_NOERR, rsz + var_len v + total_len IS_RECVAR vs,
        (if filter IS_RECVAR vs = [] then Some v else Some (List.last (filter IS_RECVAR vs))), vs)"
      using Cons.prems(2-5) lim t p(2) by (intro Cons.IH [of "a + var_len v"]) auto
    moreover have "\<not> (off4 \<and> (X_OFF_MAX < b \<or> b < 0))" using Cons.prems(2,3) lim(1) t by (auto split: if_splits)
    ultimately show ?thesis using True w m by (auto simp: total_Cons Let_def)
  qed
qed (simp add: total_len_def)

text \<open>
  Without the alignment hypothesis of the previous property the C code is wrong. Let a redef add no variable and ask for an alignment
  \<open>r_align\<close> of the record section that its old start is not a multiple of, and let the fixed-size part end at or before some \<open>e\<close> with room
  for \<open>v_minfree\<close> and one alignment step between \<open>e\<close> and the old start. Then \<open>NC_begins\<close> succeeds and moves the start of the record section
  to an aligned offset strictly below the old one, although no variable changes its place; \<open>NC_endef\<close> then runs into its assertion that
  the record section never moves down.
\<close>

theorem NC_begins_realign_moves_down:
  fixes ncp :: "'a nc3_info_scheme"
  defines "gv \<equiv> vars_value (vars ncp)" and "hdr \<equiv> int (ncx_len_NC ncp (if version_of (flags ncp) = 1 then 4 else 8))"
  assumes od: "old ncp = Some od" "old_layout od" "vars_value (vars od) = gv" and vs: "gv \<noteq> []"
    and cur: "begin_var ncp = begin_var od" "begin_rec ncp = begin_rec od" "\<not> NC_IsNew ncp" "\<not> NC_readonly ncp" "fIsSet (flags ncp) NC_INDEF"
    and lens: "\<forall>v \<in> set gv. 0 < var_len v" "\<forall>v \<in> set gv. IS_RECVAR v \<longrightarrow> var_dsizes v \<noteq> []" "packed_recsize gv = total_len IS_RECVAR gv"
      "NC_check_vlens ncp = Done NC_NOERR"
    and args: "0 \<le> h_minfree" "0 \<le> v_minfree" "1 \<le> v_align" "1 \<le> r_align" "hdr + h_minfree \<le> begin_var od" "begin_var od mod v_align = 0"
    and gap: "begin_rec od mod r_align \<noteq> 0" "begin_var od \<le> e" "\<forall>v \<in> set gv. is_fixed v \<longrightarrow> var_begin v + var_len v \<le> e"
      "e + v_minfree + r_align \<le> begin_rec od"
    and limit: "begin_rec od + v_align + r_align + total_len IS_RECVAR gv \<le> (if version_of (flags ncp) = 1 then X_OFF_MAX else X_INT64_MAX)"
  shows "\<exists>ncp'. NC_begins ncp h_minfree v_align v_minfree r_align = Done (NC_NOERR, ncp') \<and> begin_rec ncp' < begin_rec od \<and>
    begin_rec ncp' mod r_align = 0 \<and> vars_value (vars ncp') = gv \<and> NC_endef E io ncp h_minfree v_align v_minfree r_align s = Fault"
proof -
  let ?off4 = "\<not> (fIsSet (flags ncp) NC_64BIT_OFFSET \<or> fIsSet (flags ncp) NC_64BIT_DATA)"
  have off4: "?off4 \<longleftrightarrow> version_of (flags ncp) = 1" by (auto simp: version_of_def)
  let ?max = "if version_of (flags ncp) = 1 then X_OFF_MAX else X_INT64_MAX"
  note o = od(2) [unfolded old_layout_def Let_def od(3)]
  have mx: "?max \<le> X_INT64_MAX" by simp
  have nn: "\<forall>v \<in> set gv. 0 \<le> var_len v" using lens(1) by (simp add: less_imp_le)
  have t: "0 \<le> total_len IS_RECVAR gv" using nn by (simp add: total_nonneg)
  have hdr: "0 < hdr" by (simp add: hdr_def ncx_len_NC_def Let_def)
  have al: "v_align \<noteq> NC_ALIGN_CHUNK" "r_align \<noteq> NC_ALIGN_CHUNK" using limit mx t args hdr o by auto
  have bv: "begins_start (begin_var od) hdr h_minfree v_align = Done (begin_var od)"
    using limit mx t args hdr o by (intro begins_start_keep) linarith+
  have ele: "e \<le> (if ?off4 then X_OFF_MAX else X_INT64_MAX)" unfolding off4 using gap(4) limit args t by linarith
  obtain i where p1: "begins_fixed ?off4 (begin_var od) gv (Some gv) = (NC_NOERR, i, gv)" "begin_var od \<le> i" "i \<le> e"
      "\<forall>v \<in> set gv. is_fixed v \<longrightarrow> var_begin v + var_len v \<le> i"
    using begins_fixed_same [OF _ gap(2) ele nn] o gap(3) by blast
  have "\<exists>b. begins_start (begin_rec od) i v_minfree r_align = Done b \<and> i + v_minfree \<le> b \<and> b mod r_align = 0 \<and>
      (b = begin_rec od \<or> b < i + v_minfree + r_align) \<and> (begin_rec od < i + v_minfree \<longrightarrow> b < i + v_minfree + r_align)"
    using p1(2,3) gap(4) limit mx t args o by (intro begins_start_ok) linarith+
  then obtain br where br: "begins_start (begin_rec od) i v_minfree r_align = Done br" "i + v_minfree \<le> br" "br mod r_align = 0" "br < i + v_minfree + r_align"
    using gap(1) by auto
  have low: "0 \<le> br" "br < begin_rec od" using br(2,4) p1(2,3) gap(4) args o by linarith+
  define l where "l = (if filter IS_RECVAR gv = [] then None else Some (List.last (filter IS_RECVAR gv)))"
  have rb: "begin_rec od + total_len IS_RECVAR gv \<le> (if ?off4 then X_OFF_MAX else X_INT64_MAX)" "0 + total_len IS_RECVAR gv \<le> X_INT64_MAX"
    unfolding off4 using limit mx args o by linarith+
  have p2: "begins_recs ?off4 br 0 None gv (Some gv) = (NC_NOERR, total_len IS_RECVAR gv, l, gv)"
    using begins_recs_same [OF _ low(1) _ _ nn rb, of None] low(2) o by (simp add: l_def)
  have f2: "place IS_RECVAR (begin_rec od) (filter IS_RECVAR gv) = filter IS_RECVAR gv" using place_filter [of IS_RECVAR "begin_rec od" gv] o by simp
  have rsz: "(case l of None \<Rightarrow> Done (total_len IS_RECVAR gv) | Some l \<Rightarrow> if total_len IS_RECVAR gv = u64 (var_len l)
      then run_bind (peek (var_dsizes l) 0) (\<lambda>d. Done (u64 (d * var_xsz l))) else Done (total_len IS_RECVAR gv)) = Done (total_len IS_RECVAR gv)"
    using recsize_step [OF lens(1,2), of "begin_rec od", unfolded f2 lens(3)] rb(2) by (simp add: l_def)
  define n1 where "n1 = ncp\<lparr>xsz := hdr\<rparr>"
  have n1: "vars n1 = vars ncp" "vars_value (vars ncp) = gv" "begin_var n1 = begin_var od" "begin_rec n1 = begin_rec od" "old n1 = Some od"
      "xsz n1 = hdr" "\<not> NC_IsNew n1" "flags n1 = flags ncp"
    using od(1) cur by (simp_all add: n1_def NC_IsNew_def gv_def)
  define o4 where "o4 = ?off4"
  note q = p1(1) [folded o4_def] p2 [folded o4_def]
  have olen: "int (ncx_len_NC ncp (if o4 then 4 else 8)) = hdr" unfolding hdr_def o4_def off4 by simp
  define bv2 where "bv2 = (case filter is_fixed gv of [] \<Rightarrow> br | v # _ \<Rightarrow> var_begin v)"
  let ?n = "(set_vars n1 gv)\<lparr>begin_var := bv2, begin_rec := br, recsize := total_len IS_RECVAR gv, numrecs := numrecs n1\<rparr>"
  have begins: "NC_begins ncp h_minfree v_align v_minfree r_align = Done (NC_NOERR, ?n)"
    unfolding NC_begins_def Let_def o4_def [symmetric] olen n1_def [symmetric] if_not_P [OF al(1)] if_not_P [OF al(2)] n1 option.case option.map
      max.idem bv2_def od(3)
    using vs by (simp add: bv q br(1)) (simp add: rsz n1(7))
  have sel: "vars_value (vars ?n) = gv" "begin_var ?n = bv2" "begin_rec ?n = br" by (simp_all add: set_vars_def)
  have recs: "\<forall>w \<in> set (filter IS_RECVAR gv). begin_rec od \<le> var_begin w \<and> var_begin w + var_len w \<le> begin_rec od + total_len IS_RECVAR gv"
      "sorted_wrt (\<lambda>v w. var_begin v + var_len v \<le> var_begin w) (filter IS_RECVAR gv)"
    using place_bounds [OF nn, of IS_RECVAR "begin_rec od"] place_sorted [OF nn, of IS_RECVAR "begin_rec od"] o by simp_all
  have fx: "\<forall>w \<in> set (filter is_fixed gv). begin_var od \<le> var_begin w \<and> var_begin w + var_len w \<le> br"
    using o p1(4) br(2) args(2) by fastforce
  have fs: "sorted_wrt (\<lambda>v w. var_begin v + var_len v \<le> var_begin w) (filter is_fixed gv)"
    using o by (intro sorted_wrt_filter_imp) simp
  have b2: "bv2 \<le> br \<and> (\<forall>w \<in> set (filter is_fixed gv). bv2 \<le> var_begin w)"
  proof (cases "filter is_fixed gv")
    case (Cons v vs)
    have "var_begin v + var_len v \<le> br" "0 \<le> var_len v" using fx Cons nn by (auto dest!: filter_eq_ConsD)
    moreover have "\<forall>w \<in> set vs. var_begin v + var_len v \<le> var_begin w" using fs Cons by simp
    ultimately show ?thesis using Cons by (force simp: bv2_def)
  qed (simp add: bv2_def)
  have all: "\<forall>v \<in> set gv. 0 \<le> var_len v \<and> 0 \<le> var_begin v \<and> var_begin v + var_len v \<le> X_INT64_MAX"
  proof
    fix w assume w: "w \<in> set gv"
    have "0 \<le> var_begin w \<and> var_begin w + var_len w \<le> begin_rec od + total_len IS_RECVAR gv"
    proof (cases "IS_RECVAR w")
      case True
      then have "w \<in> set (filter IS_RECVAR gv)" using w by simp
      then have "begin_rec od \<le> var_begin w" "var_begin w + var_len w \<le> begin_rec od + total_len IS_RECVAR gv" using recs(1) by blast+
      then show ?thesis using low by linarith
    next
      case False
      then have "w \<in> set (filter is_fixed gv)" using w by simp
      then have "begin_var od \<le> var_begin w" "var_begin w + var_len w \<le> br" using fx by blast+
      then show ?thesis using low t o by linarith
    qed
    then have "var_begin w + var_len w \<le> X_INT64_MAX \<and> 0 \<le> var_begin w" using rb(1) by (auto split: if_splits)
    then show "0 \<le> var_len w \<and> 0 \<le> var_begin w \<and> var_begin w + var_len w \<le> X_INT64_MAX" using nn w by simp
  qed
  have "NC_check_voffs ?n = NC_NOERR"
    using NC_check_voffs_iff [of ?n, unfolded sel] all vs fx fs recs b2 low by fastforce
  then have "NC_endef E io ncp h_minfree v_align v_minfree r_align s = Fault"
    using low(2) cur lens(4) n1(5) by (simp add: NC_endef_def begins NC_indef_def set_vars_def)
  with begins low(2) br(3) show ?thesis by (intro exI [of _ ?n]) (simp add: set_vars_def)
qed

lemma sample_redef_vlens: "NC_check_vlens (sample_redef 104 208 []) = Done NC_NOERR"
proof -
  have v: "NC_check_vlen (sample_var 104 8 2) 2147483644 = Done True" "NC_check_vlen (sample_var 208 4 0) 2147483644 = Done True"
    by (simp_all add: NC_check_vlen_def sample_recvar) (simp_all add: sample_var_def s64_def u64_def c_div_def)
  show ?thesis by (simp add: NC_check_vlens_def Let_def sample_redef_sel sample_redef_flags sample_recvar vlen_max_of_def v)
qed

lemma NC_begins_realign_moves_down_witness:
  "\<forall>E io s. \<exists>ncp'. NC_begins (sample_redef 104 208 []) 0 4 0 64 = Done (NC_NOERR, ncp') \<and> begin_rec ncp' < 208 \<and> begin_rec ncp' mod 64 = 0 \<and>
    NC_endef E io (sample_redef 104 208 []) 0 4 0 64 s = Fault"
proof (intro allI)
  fix E io s
  let ?od = "nc3_hdr.truncate (sample_hdr 104 208 [sample_var 104 8 2, sample_var 208 4 0])"
  have o: "vars_value (vars ?od) = [sample_var 104 8 2, sample_var 208 4 0]" "begin_var ?od = 104" "begin_rec ?od = 208" "recsize ?od = 4" "numrecs ?od = 0"
    by (simp_all add: sample_hdr_def nc3_hdr.truncate_def)
  have od: "old_layout ?od" unfolding old_layout_def Let_def o by (simp add: sample_recvar total_len_def)
  have t: "total_len IS_RECVAR (vars_value (vars (sample_redef 104 208 []))) = 4" "packed_recsize (vars_value (vars (sample_redef 104 208 []))) = 4"
    unfolding sample_redef_sel by (simp_all add: total_len_def packed_recsize_def sample_recvar u64_def)
  show "\<exists>ncp'. NC_begins (sample_redef 104 208 []) 0 4 0 64 = Done (NC_NOERR, ncp') \<and> begin_rec ncp' < 208 \<and> begin_rec ncp' mod 64 = 0 \<and>
    NC_endef E io (sample_redef 104 208 []) 0 4 0 64 s = Fault"
    using NC_begins_realign_moves_down [OF sample_redef_sel(2) od, where h_minfree = 0 and v_align = 4 and v_minfree = 0 and r_align = 64 and e = 112 and E = E and io = io and s = s, unfolded t] sample_redef_len(1) [of 104 208] sample_redef_vlens
    by (auto simp: sample_redef_sel sample_redef_flags sample_recvar o fIsSet_def t [unfolded sample_redef_sel])
qed

end
