(* ===== verification/NC_Files.thy ===== *)
theory NC_Files
  imports NC3_Var
begin

text \<open>
  \<open>libdispatch/nclistmgr.c\<close>, the table of open files, and from \<open>libdispatch/nc.c\<close> the \<open>NC\<close>
  structure's creation and the check of a file number. \<open>NC\<close> structures are shared by pointer: a
  pointer is an index into \<open>objs\<close>, a freed structure is \<open>None\<close>. \<open>USE_REFCOUNT\<close> is off.
\<close>

record 'd NC =
  ext_ncid :: int
  nc_path :: string
  nc_mode :: int
  nc_model :: int
  dispatchdata :: "'d option"

record 'd nc_files =
  nc_filelist :: "(nat \<Rightarrow> nat option) option"
  numfiles :: int
  objs :: "'d NC option list"

abbreviation (input) "NCFILELISTLENGTH \<equiv> (65536::nat)"
abbreviation (input) "NC_FORMATX_NC3 \<equiv> (1::int)"

definition NC_deref :: "'d nc_files \<Rightarrow> nat \<Rightarrow> 'd NC run" where
  "NC_deref fs p = run_bind (peek (objs fs) p) (\<lambda>r. case r of None \<Rightarrow> Fault | Some nc \<Rightarrow> Done nc)"

definition NC_store :: "'d nc_files \<Rightarrow> nat \<Rightarrow> 'd NC \<Rightarrow> 'd nc_files" where
  "NC_store fs p nc = fs\<lparr>objs := (objs fs)[p := Some nc]\<rparr>"

subsection \<open>The table\<close>

definition count_NCList :: "'d nc_files \<Rightarrow> int" where
  "count_NCList fs = numfiles fs"

definition free_NCList :: "'d nc_files \<Rightarrow> 'd nc_files" where
  "free_NCList fs = (if 0 < numfiles fs then fs else fs\<lparr>nc_filelist := None\<rparr>)"

text \<open>The first free slot, or 0.\<close>

function first_free :: "(nat \<Rightarrow> nat option) \<Rightarrow> nat \<Rightarrow> nat" where
  "first_free l i = (if NCFILELISTLENGTH \<le> i then 0 else if l i = None then i else first_free l (Suc i))"
  by pat_completeness auto
termination by (relation "measure (\<lambda>(l, i). NCFILELISTLENGTH - i)") auto

declare first_free.simps [simp del]

definition add_to_NCList :: "(nat \<Rightarrow> bool) \<Rightarrow> 'd nc_files \<Rightarrow> nat \<Rightarrow> (int \<times> 'd nc_files) run" where
  "add_to_NCList mem fs0 p = (
     if nc_filelist fs0 = None \<and> \<not> mem (8 * NCFILELISTLENGTH) then Done (NC_ENOMEM, fs0)
     else let fs = (if nc_filelist fs0 = None then fs0\<lparr>nc_filelist := Some (\<lambda>_. None), numfiles := 0\<rparr> else fs0);
              l = the (nc_filelist fs); new_id = first_free l 1
     in if new_id = 0 then Done (NC_ENOMEM, fs)
     else run_bind (NC_deref fs p) (\<lambda>nc.
       Done (NC_NOERR, NC_store (fs\<lparr>nc_filelist := Some (l(new_id := Some p)), numfiles := numfiles fs + 1\<rparr>) p
         (nc\<lparr>ext_ncid := s32 (int new_id * 65536)\<rparr>))))"

definition slot_of :: "int \<Rightarrow> nat" where
  "slot_of ext = nat (u32 ext div 65536)"

definition del_from_NCList :: "'d nc_files \<Rightarrow> nat \<Rightarrow> 'd nc_files run" where
  "del_from_NCList fs p = run_bind (NC_deref fs p) (\<lambda>nc. let ncid = slot_of (ext_ncid nc) in
     case nc_filelist fs of None \<Rightarrow> Done fs
     | Some l \<Rightarrow> if numfiles fs = 0 \<or> ncid = 0 then Done fs
         else if l ncid \<noteq> Some p then Done fs
         else let fs1 = fs\<lparr>nc_filelist := Some (l(ncid := None)), numfiles := numfiles fs - 1\<rparr>
           in Done (if numfiles fs1 = 0 then free_NCList fs1 else fs1))"

definition find_in_NCList :: "'d nc_files \<Rightarrow> int \<Rightarrow> nat option run" where
  "find_in_NCList fs ext = (let ncid = slot_of ext;
       f = (case nc_filelist fs of Some l \<Rightarrow> if 0 < numfiles fs \<and> ncid < NCFILELISTLENGTH then l ncid else None | None \<Rightarrow> None)
     in case f of None \<Rightarrow> Done None
     | Some p \<Rightarrow> run_bind (NC_deref fs p) (\<lambda>nc.
         Done (if nc_model nc = NC_FORMATX_NC3 \<and> ext mod 65536 \<noteq> 0 then None else Some p)))"

function by_name_loop :: "'d nc_files \<Rightarrow> (nat \<Rightarrow> nat option) \<Rightarrow> string \<Rightarrow> nat \<Rightarrow> nat option run" where
  "by_name_loop fs l path i = (if NCFILELISTLENGTH \<le> i then Done None
     else case l i of None \<Rightarrow> by_name_loop fs l path (Suc i)
     | Some p \<Rightarrow> run_bind (NC_deref fs p) (\<lambda>nc. if nc_path nc = path then Done (Some p) else by_name_loop fs l path (Suc i)))"
  by pat_completeness auto
termination by (relation "measure (\<lambda>(fs, l, path, i). NCFILELISTLENGTH - i)") auto

declare by_name_loop.simps [simp del]

definition find_in_NCList_by_name :: "'d nc_files \<Rightarrow> string \<Rightarrow> nat option run" where
  "find_in_NCList_by_name fs path = (case nc_filelist fs of None \<Rightarrow> Done None | Some l \<Rightarrow> by_name_loop fs l path 1)"

text \<open>A table that was never made, or is freed, is read through a NULL pointer.\<close>

definition iterate_NCList :: "'d nc_files \<Rightarrow> int \<Rightarrow> (int \<times> nat option) run" where
  "iterate_NCList fs index = (if index < 0 \<or> 65536 \<le> index then Done (NC_ERANGE, None)
     else case nc_filelist fs of None \<Rightarrow> Fault | Some l \<Rightarrow> Done (NC_NOERR, l (nat index)))"

subsection \<open>NC structures\<close>

definition NC_check_id :: "'d nc_files \<Rightarrow> int \<Rightarrow> (int \<times> nat option) run" where
  "NC_check_id fs ncid = run_bind (find_in_NCList fs ncid) (\<lambda>r. case r of None \<Rightarrow> Done (NC_EBADID, None) | Some p \<Rightarrow> Done (NC_NOERR, Some p))"

definition new_NC :: "(nat \<Rightarrow> bool) \<Rightarrow> 'd nc_files \<Rightarrow> string \<Rightarrow> int \<Rightarrow> int \<Rightarrow> int \<times> nat option \<times> 'd nc_files" where
  "new_NC mem fs path md mdl = (if \<not> mem 48 \<or> \<not> mem (length path + 1) then (NC_ENOMEM, None, fs)
     else (NC_NOERR, Some (length (objs fs)),
       fs\<lparr>objs := objs fs @ [Some \<lparr>ext_ncid = 0, nc_path = path, nc_mode = md, nc_model = mdl, dispatchdata = None\<rparr>]\<rparr>))"

definition free_NC :: "'d nc_files \<Rightarrow> nat \<Rightarrow> 'd nc_files" where
  "free_NC fs p = fs\<lparr>objs := (objs fs)[p := None]\<rparr>"

subsection \<open>The table's invariant\<close>

text \<open>
  The slots in use lie in the table, not at 0, and are \<open>numfiles\<close>; a structure in the table is there
  once, knows its number, and is not freed; a freed table is empty.
\<close>

definition slots :: "'d nc_files \<Rightarrow> nat set" where
  "slots fs = (case nc_filelist fs of None \<Rightarrow> {} | Some l \<Rightarrow> dom l)"

definition files_ok :: "'d nc_files \<Rightarrow> bool" where
  "files_ok fs \<longleftrightarrow> slots fs \<subseteq> {1..<NCFILELISTLENGTH} \<and> numfiles fs = int (card (slots fs)) \<and>
     (case nc_filelist fs of None \<Rightarrow> True
      | Some l \<Rightarrow> \<forall>i p. l i = Some p \<longrightarrow> (\<exists>nc. p < length (objs fs) \<and> objs fs ! p = Some nc \<and> ext_ncid nc = s32 (int i * 65536)))"

lemma first_free_spec:
  "first_free l i = 0 \<and> (\<forall>j. i \<le> j \<and> j < NCFILELISTLENGTH \<longrightarrow> l j \<noteq> None) \<or>
   i \<le> first_free l i \<and> first_free l i < NCFILELISTLENGTH \<and> l (first_free l i) = None \<and> (\<forall>j. i \<le> j \<and> j < first_free l i \<longrightarrow> l j \<noteq> None)"
proof (induction l i rule: first_free.induct)
  case (1 l i)
  consider "NCFILELISTLENGTH \<le> i" | "i < NCFILELISTLENGTH" "l i = None" | "i < NCFILELISTLENGTH" "l i \<noteq> None" by linarith
  then show ?case
  proof cases
    case 1
    then have "first_free l i = 0" by (subst first_free.simps) simp
    with 1 show ?thesis by auto
  next
    case 2
    then have "first_free l i = i" by (subst first_free.simps) simp
    with 2 show ?thesis by auto
  next
    case 3
    then have e: "first_free l i = first_free l (Suc i)" by (subst first_free.simps) auto
    have "j = i \<or> Suc i \<le> j" if "i \<le> j" for j using that by linarith
    with 3 1 [OF _ 3(2)] show ?thesis unfolding e by (metis Suc_leD not_less)
  qed
qed

lemma slot_of_id: "i < NCFILELISTLENGTH \<Longrightarrow> slot_of (s32 (int i * 65536)) = i"
proof -
  assume i: "i < NCFILELISTLENGTH"
  have "u32 (s32 (int i * 65536)) = int i * 65536 mod 4294967296" by (simp add: u32_def s32_def mod_diff_left_eq)
  also have "\<dots> = int i * 65536" using i by simp
  finally show ?thesis by (simp add: slot_of_def)
qed

lemma id_multiple: "s32 (int i * 65536) mod 65536 = 0"
proof -
  have "s32 (int i * 65536) = int i * 65536 - 4294967296 * ((int i * 65536 + 2147483648) div 4294967296)"
    unfolding s32_def using div_mult_mod_eq [of "int i * 65536 + 2147483648" 4294967296] by linarith
  also have "\<dots> = 65536 * (int i - 65536 * ((int i * 65536 + 2147483648) div 4294967296))" by (simp add: algebra_simps)
  finally show ?thesis by simp
qed

text \<open>Freeing an empty table changes nothing that a lookup sees.\<close>

lemma slots_finite: "files_ok fs \<Longrightarrow> finite (slots fs)"
  unfolding files_ok_def by (meson finite_atLeastLessThan finite_subset)

lemma find_in_NCList_eq:
  assumes "files_ok fs"
  shows "find_in_NCList fs ext = Done (case nc_filelist fs of None \<Rightarrow> None
    | Some l \<Rightarrow> case l (slot_of ext) of None \<Rightarrow> None
      | Some p \<Rightarrow> if (case objs fs ! p of Some nc \<Rightarrow> nc_model nc = NC_FORMATX_NC3 | None \<Rightarrow> False) \<and> ext mod 65536 \<noteq> 0 then None else Some p)"
proof (cases "nc_filelist fs")
  case None
  then show ?thesis by (simp add: find_in_NCList_def)
next
  case (Some l)
  show ?thesis
  proof (cases "l (slot_of ext)")
    case None
    with Some show ?thesis by (simp add: find_in_NCList_def Let_def)
  next
    case (Some p)
    have l: "slots fs = dom l" using \<open>nc_filelist fs = Some l\<close> by (simp add: slots_def)
    have "slot_of ext \<in> slots fs" using Some l by blast
    then have "0 < numfiles fs" using assms slots_finite [OF assms] by (auto simp: files_ok_def card_gt_0_iff)
    moreover have "slot_of ext < NCFILELISTLENGTH" using assms \<open>slot_of ext \<in> slots fs\<close> by (auto simp: files_ok_def)
    moreover obtain nc where "p < length (objs fs)" "objs fs ! p = Some nc"
      using assms Some \<open>nc_filelist fs = Some l\<close> by (fastforce simp: files_ok_def)
    ultimately show ?thesis using Some \<open>nc_filelist fs = Some l\<close>
      by (simp add: find_in_NCList_def NC_deref_def Let_def)
  qed
qed

definition in_table :: "'d nc_files \<Rightarrow> nat \<Rightarrow> bool" where
  "in_table fs p \<longleftrightarrow> (\<exists>l. nc_filelist fs = Some l \<and> Some p \<in> range l)"

lemma add_to_NCList_result:
  assumes ok: "files_ok fs" and p: "p < length (objs fs)" "objs fs ! p = Some nc" "\<not> in_table fs p"
    and room: "card (slots fs) < 65535" and mem: "mem (8 * NCFILELISTLENGTH)"
  shows "\<exists>fs' nc'. add_to_NCList mem fs p = Done (NC_NOERR, fs') \<and> files_ok fs' \<and> objs fs' ! p = Some nc' \<and>
    nc' = nc\<lparr>ext_ncid := ext_ncid nc'\<rparr> \<and> ext_ncid nc' mod 65536 = 0 \<and> ext_ncid nc' \<noteq> 0 \<and> find_in_NCList fs (ext_ncid nc') = Done None \<and> find_in_NCList fs' (ext_ncid nc') = Done (Some p) \<and>
    (\<forall>ext. slot_of ext \<noteq> slot_of (ext_ncid nc') \<longrightarrow> find_in_NCList fs' ext = find_in_NCList fs ext) \<and> numfiles fs' = numfiles fs + 1"
proof -
  define fs1 where "fs1 = (if nc_filelist fs = None then fs\<lparr>nc_filelist := Some (\<lambda>_. None), numfiles := 0\<rparr> else fs)"
  define l where "l = the (nc_filelist fs1)"
  have l: "nc_filelist fs1 = Some l" "objs fs1 = objs fs" "slots fs1 = slots fs" "slots fs = dom l" "numfiles fs1 = numfiles fs"
    using ok by (auto simp: fs1_def l_def slots_def files_ok_def split: option.splits)
  define i where "i = first_free l 1"
  have "i \<noteq> 0"
  proof
    assume "i = 0"
    then have "\<forall>j. 1 \<le> j \<and> j < NCFILELISTLENGTH \<longrightarrow> l j \<noteq> None" using first_free_spec [of l 1] unfolding i_def by auto
    then have "{1..<NCFILELISTLENGTH} \<subseteq> dom l" by auto
    then have "card {1..<NCFILELISTLENGTH} \<le> card (dom l)" using slots_finite [OF ok] l(4) by (intro card_mono) simp_all
    then show False using room l(4) by simp
  qed
  then have i: "1 \<le> i" "i < NCFILELISTLENGTH" "l i = None" using first_free_spec [of l 1] unfolding i_def by auto
  let ?nc = "nc\<lparr>ext_ncid := s32 (int i * 65536)\<rparr>"
  let ?fs = "NC_store (fs1\<lparr>nc_filelist := Some (l(i := Some p)), numfiles := numfiles fs1 + 1\<rparr>) p ?nc"
  have sl: "slots ?fs = insert i (dom l)" "objs ?fs = (objs fs)[p := Some ?nc]" "nc_filelist ?fs = Some (l(i := Some p))" "numfiles ?fs = numfiles fs + 1"
    by (auto simp: slots_def NC_store_def l)
  have ff: "first_free l (Suc 0) = i" by (simp add: i_def)
  have add: "add_to_NCList mem fs p = Done (NC_NOERR, ?fs)"
    using mem p(1,2) \<open>i \<noteq> 0\<close> unfolding add_to_NCList_def by (simp add: fs1_def [symmetric] l_def [symmetric] ff NC_deref_def l Let_def)
  have other: "q \<noteq> p" if "l j = Some q" for j q
  proof
    assume "q = p"
    moreover have "nc_filelist fs = Some l" using that by (auto simp: fs1_def l_def split: if_splits)
    ultimately show False using p(3) that unfolding in_table_def by (metis rangeI)
  qed
  have old: "\<exists>nc. q < length (objs fs) \<and> objs fs ! q = Some nc \<and> ext_ncid nc = s32 (int j * 65536)" if "l j = Some q" for j q
  proof -
    have "nc_filelist fs = Some l" using that by (auto simp: fs1_def l_def split: if_splits)
    with ok that show ?thesis by (auto simp: files_ok_def)
  qed
  have "i \<notin> dom l" using i(3) by auto
  then have cd: "int (card (insert i (dom l))) = numfiles fs + 1"
    using ok slots_finite [OF ok] by (simp add: files_ok_def l(4))
  have ok': "files_ok ?fs"
    unfolding files_ok_def sl(1-4)
    using ok i old other p(1) by (auto simp: cd l(4) files_ok_def nth_list_update split: if_splits)
  have sid: "slot_of (s32 (int i * 65536)) = i" using i(2) by (rule slot_of_id)
  have find: "find_in_NCList ?fs (s32 (int i * 65536)) = Done (Some p)"
    unfolding find_in_NCList_eq [OF ok'] sl using p(1) by (simp add: sid id_multiple)
  have rest: "find_in_NCList ?fs ext = find_in_NCList fs ext" if "slot_of ext \<noteq> i" for ext
  proof (cases "l (slot_of ext)")
    case None
    with that show ?thesis unfolding find_in_NCList_eq [OF ok'] find_in_NCList_eq [OF ok] sl
      by (auto simp: fs1_def l_def split: option.splits if_splits)
  next
    case (Some q)
    then have "nc_filelist fs = Some l" "q \<noteq> p" using other by (auto simp: fs1_def l_def split: if_splits)
    with that Some show ?thesis unfolding find_in_NCList_eq [OF ok'] find_in_NCList_eq [OF ok] sl by simp
  qed
  have unused: "find_in_NCList fs (s32 (int i * 65536)) = Done None"
    unfolding find_in_NCList_eq [OF ok] sid using i(3) by (auto simp: fs1_def l_def split: option.splits if_splits)
  have "s32 (int i * 65536) \<noteq> 0" using sid i(1) by (metis slot_of_def div_0 nat_0 not_one_le_zero u32_def mod_0)
  then show ?thesis using add ok' find unused rest p(1) sid sl id_multiple by (intro exI [of _ ?fs] exI [of _ ?nc]) simp
qed

text \<open>
  C32: adding a structure to the table of open files gives it a number under which it is found, a
  multiple of 65536 other than 0, that led nowhere before; what every other number finds is unchanged, and the table stays well-formed. It fails only when all
  65535 slots are taken.
\<close>

theorem add_to_NCList_find:
  assumes ok: "files_ok fs" and p: "p < length (objs fs)" "objs fs ! p = Some nc" "\<not> in_table fs p"
    and room: "card (slots fs) < 65535" and mem: "mem (8 * NCFILELISTLENGTH)"
  shows "\<exists>fs' nc'. add_to_NCList mem fs p = Done (NC_NOERR, fs') \<and> files_ok fs' \<and> objs fs' ! p = Some nc' \<and>
    nc' = nc\<lparr>ext_ncid := ext_ncid nc'\<rparr> \<and> ext_ncid nc' mod 65536 = 0 \<and> ext_ncid nc' \<noteq> 0 \<and> find_in_NCList fs (ext_ncid nc') = Done None \<and> find_in_NCList fs' (ext_ncid nc') = Done (Some p) \<and>
    (\<forall>ext. slot_of ext \<noteq> slot_of (ext_ncid nc') \<longrightarrow> find_in_NCList fs' ext = find_in_NCList fs ext) \<and> numfiles fs' = numfiles fs + 1"
  using assms by (rule add_to_NCList_result)

definition two_files :: "nat nc_files" where
  "two_files = \<lparr>nc_filelist = Some [1 \<mapsto> 0], numfiles = 1, objs = [Some \<lparr>ext_ncid = 65536, nc_path = ''a'', nc_mode = 0, nc_model = 1, dispatchdata = None\<rparr>,
     Some \<lparr>ext_ncid = 0, nc_path = ''b'', nc_mode = 0, nc_model = 1, dispatchdata = None\<rparr>]\<rparr>"

lemma two_files_ok: "files_ok two_files" "\<not> in_table two_files 1" "slots two_files = {1}"
  by (simp_all add: files_ok_def two_files_def slots_def s32_def in_table_def) auto

lemma add_to_NCList_find_witness:
  "\<exists>fs' nc'. add_to_NCList (\<lambda>_. True) two_files 1 = Done (NC_NOERR, fs') \<and> objs fs' ! 1 = Some nc' \<and>
    find_in_NCList fs' (ext_ncid nc') = Done (Some 1) \<and> numfiles fs' = 2"
proof -
  have p: "1 < length (objs two_files)" "objs two_files ! 1 = Some \<lparr>ext_ncid = 0, nc_path = ''b'', nc_mode = 0, nc_model = 1, dispatchdata = None\<rparr>"
    "numfiles two_files = 1" by (simp_all add: two_files_def)
  show ?thesis using add_to_NCList_find [OF two_files_ok(1) p(1,2) two_files_ok(2), of "\<lambda>_. True"] unfolding two_files_ok(3) p(3) by auto
qed

lemma del_from_NCList_result:
  assumes ok: "files_ok fs" and l: "nc_filelist fs = Some l" "l i = Some p" and nc: "objs fs ! p = Some nc"
  shows "\<exists>fs'. del_from_NCList fs p = Done fs' \<and> files_ok fs' \<and> objs fs' = objs fs \<and> numfiles fs' = numfiles fs - 1 \<and>
    NC_check_id fs' (ext_ncid nc) = Done (NC_EBADID, None) \<and>
    (\<forall>ext. slot_of ext \<noteq> slot_of (ext_ncid nc) \<longrightarrow> NC_check_id fs' ext = NC_check_id fs ext)"
proof -
  have p: "p < length (objs fs)" "ext_ncid nc = s32 (int i * 65536)" using ok l nc by (fastforce simp: files_ok_def)+
  have dl: "slots fs = dom l" by (simp add: slots_def l)
  then have i: "1 \<le> i" "i < NCFILELISTLENGTH" "i \<in> slots fs" using ok l(2) by (auto simp: files_ok_def)
  have sid: "slot_of (ext_ncid nc) = i" unfolding p(2) using i(2) by (rule slot_of_id)
  have n: "0 < numfiles fs" using ok slots_finite [OF ok] i(3) by (auto simp: files_ok_def card_gt_0_iff)
  define fs1 where "fs1 = fs\<lparr>nc_filelist := Some (l(i := None)), numfiles := numfiles fs - 1\<rparr>"
  define fs' where "fs' = (if numfiles fs1 = 0 then free_NCList fs1 else fs1)"
  have del: "del_from_NCList fs p = Done fs'"
    using p(1) nc n i(1) l by (simp add: del_from_NCList_def NC_deref_def sid Let_def fs1_def fs'_def)
  have c: "card (dom l - {i}) = card (dom l) - 1" using i(3) dl by simp
  have "1 \<le> card (dom l)" using i(3) slots_finite [OF ok] by (auto simp: dl Suc_le_eq card_gt_0_iff)
  then have cd: "int (card (dom l)) - 1 = int (card (dom l) - Suc 0)" by linarith
  have nf: "numfiles fs = int (card (dom l))" "numfiles fs1 = numfiles fs - 1" using ok dl by (simp_all add: files_ok_def fs1_def)
  have s1: "slots fs1 = dom l - {i}" "numfiles fs1 = int (card (dom l - {i}))" "objs fs1 = objs fs"
  proof -
    show "numfiles fs1 = int (card (dom l - {i}))" using nf cd c by linarith
  qed (auto simp: slots_def fs1_def)
  have empty: "dom l - {i} = {}" if "numfiles fs1 = 0" using that s1(2) slots_finite [OF ok] dl by simp
  have ok1: "files_ok fs1" unfolding files_ok_def
  proof (intro conjI)
    show "slots fs1 \<subseteq> {1..<NCFILELISTLENGTH}" using ok unfolding s1(1) files_ok_def dl by blast
    show "numfiles fs1 = int (card (slots fs1))" unfolding s1(1) by (rule s1(2))
    have "\<forall>i p. l i = Some p \<longrightarrow> (\<exists>nc. p < length (objs fs) \<and> objs fs ! p = Some nc \<and> ext_ncid nc = s32 (int i * 65536))"
      using ok by (simp add: files_ok_def l)
    then show "case nc_filelist fs1 of None \<Rightarrow> True
      | Some l \<Rightarrow> \<forall>i p. l i = Some p \<longrightarrow> (\<exists>nc. p < length (objs fs1) \<and> objs fs1 ! p = Some nc \<and> ext_ncid nc = s32 (int i * 65536))"
      by (simp add: fs1_def)
  qed
  have ok': "files_ok fs'"
  proof (cases "numfiles fs1 = 0")
    case True
    then show ?thesis by (simp add: fs'_def free_NCList_def files_ok_def slots_def)
  qed (simp add: fs'_def ok1)
  have o: "objs fs' = objs fs" "numfiles fs' = numfiles fs - 1" by (simp_all add: fs'_def free_NCList_def fs1_def)
  have look: "find_in_NCList fs' ext = find_in_NCList fs1 ext" for ext
  proof (cases "numfiles fs1 = 0")
    case True
    with empty have "dom (l(i := None)) = {}" by simp
    then have "l(i := None) = Map.empty" by (simp only: dom_eq_empty_conv)
    with True show ?thesis unfolding find_in_NCList_eq [OF ok'] find_in_NCList_eq [OF ok1] by (simp add: fs'_def free_NCList_def fs1_def)
  qed (simp add: fs'_def)
  have "find_in_NCList fs1 ext = (if slot_of ext = i then Done None else find_in_NCList fs ext)" for ext
    unfolding find_in_NCList_eq [OF ok1] find_in_NCList_eq [OF ok] s1(3) by (simp add: fs1_def l)
  with look sid del ok' o show ?thesis by (intro exI [of _ fs']) (simp add: NC_check_id_def)
qed

text \<open>
  C33: removing a structure from the table makes its number unknown to \<open>NC_check_id\<close> and leaves all other
  numbers as they were; the table stays well-formed.
\<close>

theorem del_from_NCList_check:
  assumes ok: "files_ok fs" and l: "nc_filelist fs = Some l" "l i = Some p" and nc: "objs fs ! p = Some nc"
  shows "\<exists>fs'. del_from_NCList fs p = Done fs' \<and> files_ok fs' \<and> objs fs' = objs fs \<and> numfiles fs' = numfiles fs - 1 \<and>
    NC_check_id fs' (ext_ncid nc) = Done (NC_EBADID, None) \<and>
    (\<forall>ext. slot_of ext \<noteq> slot_of (ext_ncid nc) \<longrightarrow> NC_check_id fs' ext = NC_check_id fs ext)"
  using assms by (rule del_from_NCList_result)

lemma del_from_NCList_check_witness:
  "\<exists>fs'. del_from_NCList two_files 0 = Done fs' \<and> numfiles fs' = 0 \<and> NC_check_id fs' 65536 = Done (NC_EBADID, None)"
proof -
  have l: "nc_filelist two_files = Some [1 \<mapsto> 0]" "objs two_files ! 0 = Some \<lparr>ext_ncid = 65536, nc_path = ''a'', nc_mode = 0, nc_model = 1, dispatchdata = None\<rparr>"
    "numfiles two_files = 1" by (simp_all add: two_files_def)
  show ?thesis using del_from_NCList_check [OF two_files_ok(1) l(1) _ l(2), of 1] unfolding l(3) by auto
qed

end
