(* ===== verification/NC3_Define.thy ===== *)
theory NC3_Define
  imports NC3_Endef NC_Files
begin

text \<open>
  The calls that define dimensions, variables and attributes of a classic file: the public part of
  \<open>libsrc/dim.c\<close>, \<open>var.c\<close> and \<open>attr.c\<close>. Each works on the table of open files; \<open>dispatchdata\<close> holds the
  in-memory header and the state of its ncio driver. Result pointers are part of the result, a name
  copied to the caller is the string up to its NUL.
\<close>

type_synonym 's nc3_files = "(nc3_info \<times> 's) nc_files"

text \<open>What every call starts with: the file behind \<open>ncid\<close>; \<open>r0\<close> is the result when there is none.\<close>

definition with_nc3 :: "'s nc3_files \<Rightarrow> int \<Rightarrow> 'r \<Rightarrow> (int \<Rightarrow> nc3_info \<Rightarrow> 's \<Rightarrow> (int \<times> 'r \<times> nc3_info \<times> 's) run) \<Rightarrow> (int \<times> 'r \<times> 's nc3_files) run" where
  "with_nc3 fs ncid r0 f = run_bind (NC_check_id fs ncid) (\<lambda>(status, pp). case pp of None \<Rightarrow> Done (status, r0, fs)
     | Some p \<Rightarrow> run_bind (NC_deref fs p) (\<lambda>nc. case dispatchdata nc of None \<Rightarrow> Fault
     | Some (ncp, s) \<Rightarrow> run_bind (f (nc_mode nc) ncp s) (\<lambda>(status, r, ncp', s').
         Done (status, r, NC_store fs p (nc\<lparr>dispatchdata := Some (ncp', s')\<rparr>)))))"

text \<open>The end of the renaming calls outside define mode: the header is dirty, and written at once if it is to be synchronized.\<close>

definition dirty_sync :: "'s ncio \<Rightarrow> nc3_info \<Rightarrow> 's \<Rightarrow> (int \<times> unit \<times> nc3_info \<times> 's) run" where
  "dirty_sync io ncp0 s = (let ncp = set_NC_hdirty ncp0 in
     if NC_doHsync ncp then run_bind (NC_sync io ncp s) (\<lambda>(status, ncp1, s1). Done (status, (), ncp1, s1))
     else Done (NC_NOERR, (), ncp, s))"

subsection \<open>Dimensions\<close>

definition dim_size_max :: "int \<Rightarrow> int" where
  "dim_size_max flgs = (if fIsSet flgs NC_64BIT_DATA then X_UINT64_MAX - 3 else if fIsSet flgs NC_64BIT_OFFSET then X_UINT_MAX - 3 else X_INT_MAX - 3)"

definition NC3_def_dim :: "nc_env \<Rightarrow> 's nc3_files \<Rightarrow> int \<Rightarrow> string \<Rightarrow> int \<Rightarrow> (int \<times> int option \<times> 's nc3_files) run" where
  "NC3_def_dim E fs ncid name sz = with_nc3 fs ncid None (\<lambda>mode ncp s.
     if \<not> NC_indef ncp then Done (NC_ENOTINDEFINE, None, ncp, s)
     else if NC_check_name (env_validate E) name \<noteq> NC_NOERR then Done (NC_check_name (env_validate E) name, None, ncp, s)
     else if dim_size_max (flags ncp) < sz then Done (NC_EDIMSIZE, None, ncp, s)
     else if sz = NC_UNLIMITED \<and> find_NC_Udim (dims ncp) \<noteq> -1 then Done (NC_EUNLIMIT, None, ncp, s)
     else run_bind (NC_finddim E (dims ncp) name) (\<lambda>dimid. if dimid \<noteq> -1 then Done (NC_ENAMEINUSE, None, ncp, s)
     else case new_NC_dim E name sz of None \<Rightarrow> Done (NC_ENOMEM, None, ncp, s)
     | Some dimp \<Rightarrow> run_bind (incr_NC_dimarray E (dims ncp) dimp) (\<lambda>(status, da). let ncp1 = ncp\<lparr>dims := da\<rparr> in
         if status \<noteq> NC_NOERR then Done (status, None, ncp1, s)
         else Done (NC_NOERR, Some (int (length (dims_value da)) - 1), ncp1, s))))"

definition NC3_inq_dimid :: "nc_env \<Rightarrow> 's nc3_files \<Rightarrow> int \<Rightarrow> string \<Rightarrow> (int \<times> int option \<times> 's nc3_files) run" where
  "NC3_inq_dimid E fs ncid name = with_nc3 fs ncid None (\<lambda>mode ncp s. run_bind (NC_finddim E (dims ncp) name) (\<lambda>dimid.
     if dimid = -1 then Done (NC_EBADDIM, None, ncp, s) else Done (NC_NOERR, Some dimid, ncp, s)))"

definition NC3_inq_dim :: "'s nc3_files \<Rightarrow> int \<Rightarrow> int \<Rightarrow> (int \<times> (string \<times> int) option \<times> 's nc3_files) run" where
  "NC3_inq_dim fs ncid dimid = with_nc3 fs ncid None (\<lambda>mode ncp s. case elem_NC_dimarray (dims ncp) dimid of
       None \<Rightarrow> Done (NC_EBADDIM, None, ncp, s)
     | Some dimp \<Rightarrow> Done (NC_NOERR, Some (cstr (dim_name dimp), if dim_size dimp = NC_UNLIMITED then numrecs ncp else dim_size dimp), ncp, s))"

definition set_dim :: "nc3_info \<Rightarrow> nat \<Rightarrow> NC_string \<Rightarrow> NC_hashmap option \<Rightarrow> nc3_info" where
  "set_dim ncp i str hmo = ncp\<lparr>dims := (dims ncp)\<lparr>dims_hashmap := hmo,
     dims_value := (dims_value (dims ncp))[i := (dims_value (dims ncp) ! i)\<lparr>dim_name := str\<rparr>]\<rparr>\<rparr>"

definition NC3_rename_dim :: "nc_env \<Rightarrow> 's ncio \<Rightarrow> 's nc3_files \<Rightarrow> int \<Rightarrow> int \<Rightarrow> string \<Rightarrow> (int \<times> unit \<times> 's nc3_files) run" where
  "NC3_rename_dim E io fs ncid dimid unewname = with_nc3 fs ncid () (\<lambda>mode ncp s.
     if NC_readonly ncp then Done (NC_EPERM, (), ncp, s)
     else if NC_check_name (env_validate E) unewname \<noteq> NC_NOERR then Done (NC_check_name (env_validate E) unewname, (), ncp, s)
     else run_bind (NC_finddim E (dims ncp) unewname) (\<lambda>existid. if existid \<noteq> -1 then Done (NC_ENAMEINUSE, (), ncp, s)
     else case elem_NC_dimarray (dims ncp) dimid of None \<Rightarrow> Done (NC_EBADDIM, (), ncp, s)
     | Some dimp \<Rightarrow> let od = dim_name dimp; i = nat dimid in
     case env_normalize E unewname of Inl status \<Rightarrow> Done (status, (), ncp, s)
     | Inr newname \<Rightarrow> if NC_indef ncp
       then (case new_NC_string (env_mem E) (length newname) (Some newname) of None \<Rightarrow> Done (NC_ENOMEM, (), ncp, s)
         | Some newStr \<Rightarrow> run_bind (hash_remove E (dims_hashmap (dims ncp)) (cstr od)) (\<lambda>h1.
             run_bind (hash_add E h1 i (cstr newStr)) (\<lambda>h2. Done (NC_NOERR, (), set_dim ncp i newStr h2, s))))
       else if nchars od < length newname then Done (NC_ENOTINDEFINE, (), ncp, s)
       else run_bind (hash_remove E (dims_hashmap (dims ncp)) (cstr od)) (\<lambda>h1.
         run_bind (set_NC_string od newname) (\<lambda>(status, newStr). if status \<noteq> NC_NOERR then Done (status, (), set_dim ncp i newStr h1, s)
         else run_bind (hash_add E h1 i (cstr newStr)) (\<lambda>h2. dirty_sync io (set_dim ncp i newStr h2) s)))))"

subsection \<open>Variables\<close>

definition NC3_def_var :: "nc_env \<Rightarrow> 's nc3_files \<Rightarrow> int \<Rightarrow> string \<Rightarrow> int \<Rightarrow> int \<Rightarrow> int list \<Rightarrow> (int \<times> int option \<times> 's nc3_files) run" where
  "NC3_def_var E fs ncid name type ndims dimids = with_nc3 fs ncid None (\<lambda>mode ncp s.
     if \<not> NC_indef ncp then Done (NC_ENOTINDEFINE, None, ncp, s)
     else if NC_check_name (env_validate E) name \<noteq> NC_NOERR then Done (NC_check_name (env_validate E) name, None, ncp, s)
     else if nc3_cktype mode type \<noteq> NC_NOERR then Done (nc3_cktype mode type, None, ncp, s)
     else if NC_MAX_VAR_DIMS < ndims then Done (NC_EMAXDIMS, None, ncp, s)
     else if X_INT_MAX < u64 ndims then Done (NC_EINVAL, None, ncp, s)
     else run_bind (NC_findvar E (vars ncp) name) (\<lambda>varid. if varid \<noteq> -1 then Done (NC_ENAMEINUSE, None, ncp, s)
     else run_bind (new_NC_var E name type (nat ndims) dimids) (\<lambda>r. case r of None \<Rightarrow> Done (NC_ENOMEM, None, ncp, s)
     | Some varp0 \<Rightarrow> run_bind (NC_var_shape varp0 (dims ncp)) (\<lambda>(status, varp). if status \<noteq> NC_NOERR then Done (status, None, ncp, s)
     else run_bind (incr_NC_vararray E (vars ncp) varp) (\<lambda>(status, va). if status \<noteq> NC_NOERR then Done (status, None, ncp\<lparr>vars := va\<rparr>, s)
     else let k = length (vars_value va) - 1 in
       Done (NC_NOERR, Some (int k),
         ncp\<lparr>vars := va\<lparr>vars_value := (vars_value va)[k := (vars_value va ! k)\<lparr>var_no_fill := \<not> NC_dofill ncp\<rparr>]\<rparr>\<rparr>, s))))))"

definition NC3_inq_varid :: "nc_env \<Rightarrow> 's nc3_files \<Rightarrow> int \<Rightarrow> string \<Rightarrow> (int \<times> int option \<times> 's nc3_files) run" where
  "NC3_inq_varid E fs ncid name = with_nc3 fs ncid None (\<lambda>mode ncp s. run_bind (NC_findvar E (vars ncp) name) (\<lambda>varid.
     if varid = -1 then Done (NC_ENOTVAR, None, ncp, s) else Done (NC_NOERR, Some varid, ncp, s)))"

text \<open>\<open>NC3_inq_var\<close> without a place for the fill value: name, type, dimensions, number of attributes and fill mode.\<close>

definition NC3_inq_var :: "'s nc3_files \<Rightarrow> int \<Rightarrow> int \<Rightarrow> (int \<times> (string \<times> int \<times> int list \<times> nat \<times> bool) option \<times> 's nc3_files) run" where
  "NC3_inq_var fs ncid varid = with_nc3 fs ncid None (\<lambda>mode ncp s. case elem_NC_vararray (vars ncp) varid of
       None \<Rightarrow> Done (NC_ENOTVAR, None, ncp, s)
     | Some varp \<Rightarrow> Done (NC_NOERR, Some (cstr (var_name varp), var_type varp, take (var_ndims varp) (var_dimids varp),
         length (atts_value (var_attrs varp)), var_no_fill varp), ncp, s))"

definition set_var :: "nc3_info \<Rightarrow> nat \<Rightarrow> (NC_var \<Rightarrow> NC_var) \<Rightarrow> NC_hashmap option \<Rightarrow> nc3_info" where
  "set_var ncp i f hmo = ncp\<lparr>vars := (vars ncp)\<lparr>vars_hashmap := hmo, vars_value := (vars_value (vars ncp))[i := f (vars_value (vars ncp) ! i)]\<rparr>\<rparr>"

definition NC3_rename_var :: "nc_env \<Rightarrow> 's ncio \<Rightarrow> 's nc3_files \<Rightarrow> int \<Rightarrow> int \<Rightarrow> string \<Rightarrow> (int \<times> unit \<times> 's nc3_files) run" where
  "NC3_rename_var E io fs ncid varid unewname = with_nc3 fs ncid () (\<lambda>mode ncp s.
     if NC_readonly ncp then Done (NC_EPERM, (), ncp, s)
     else if NC_check_name (env_validate E) unewname \<noteq> NC_NOERR then Done (NC_check_name (env_validate E) unewname, (), ncp, s)
     else run_bind (NC_findvar E (vars ncp) unewname) (\<lambda>other. if other \<noteq> -1 then Done (NC_ENAMEINUSE, (), ncp, s)
     else case NC_lookupvar ncp varid of (status, None) \<Rightarrow> Done (status, (), ncp, s)
     | (_, Some varp) \<Rightarrow> let od = var_name varp; i = nat varid in
     case env_normalize E unewname of Inl status \<Rightarrow> Done (status, (), ncp, s)
     | Inr newname \<Rightarrow> if NC_indef ncp
       then run_bind (hash_remove E (vars_hashmap (vars ncp)) (cstr od)) (\<lambda>h1.
         case new_NC_string (env_mem E) (length newname) (Some newname) of None \<Rightarrow> Done (NC_ENOMEM, (), set_var ncp i id h1, s)
         | Some newStr \<Rightarrow> run_bind (hash_add E h1 i (cstr newStr)) (\<lambda>h2.
             Done (NC_NOERR, (), set_var ncp i (var_name_update (\<lambda>_. newStr)) h2, s)))
       else if nchars od < length newname then Done (NC_ENOTINDEFINE, (), ncp, s)
       else run_bind (hash_remove E (vars_hashmap (vars ncp)) (cstr od)) (\<lambda>h1.
         run_bind (set_NC_string od newname) (\<lambda>(status, newStr). if status \<noteq> NC_NOERR
           then Done (status, (), set_var ncp i (var_name_update (\<lambda>_. newStr)) h1, s)
         else run_bind (hash_add E h1 i (cstr newStr)) (\<lambda>h2. dirty_sync io (set_var ncp i (var_name_update (\<lambda>_. newStr)) h2) s)))))"

text \<open>\<open>NC3_def_var_fill\<close> without a fill value.\<close>

definition NC3_def_var_fill :: "'s nc3_files \<Rightarrow> int \<Rightarrow> int \<Rightarrow> bool \<Rightarrow> (int \<times> unit \<times> 's nc3_files) run" where
  "NC3_def_var_fill fs ncid varid no_fill = with_nc3 fs ncid () (\<lambda>mode ncp s.
     if NC_readonly ncp then Done (NC_EPERM, (), ncp, s)
     else if \<not> NC_indef ncp then Done (NC_ENOTINDEFINE, (), ncp, s)
     else case elem_NC_vararray (vars ncp) varid of None \<Rightarrow> Done (NC_ENOTVAR, (), ncp, s)
     | Some varp \<Rightarrow> Done (NC_NOERR, (), set_var ncp (nat varid) (var_no_fill_update (\<lambda>_. no_fill)) (vars_hashmap (vars ncp)), s))"

subsection \<open>Attributes\<close>

definition NC_lookupattr :: "nc_env \<Rightarrow> nc3_info \<Rightarrow> int \<Rightarrow> string option \<Rightarrow> int \<times> NC_attr option" where
  "NC_lookupattr E ncp varid name = (case NC_attrarray0 ncp varid of None \<Rightarrow> (NC_ENOTVAR, None)
     | Some ncap \<Rightarrow> case name of None \<Rightarrow> (NC_EBADNAME, None)
     | Some nm' \<Rightarrow> case NC_findattr E ncap nm' of None \<Rightarrow> (NC_ENOTATT, None) | Some i \<Rightarrow> (NC_NOERR, Some (atts_value ncap ! i)))"

definition NC3_inq_attname :: "'s nc3_files \<Rightarrow> int \<Rightarrow> int \<Rightarrow> int \<Rightarrow> (int \<times> string option \<times> 's nc3_files) run" where
  "NC3_inq_attname fs ncid varid attnum = with_nc3 fs ncid None (\<lambda>mode ncp s. case NC_attrarray0 ncp varid of None \<Rightarrow> Done (NC_ENOTVAR, None, ncp, s)
     | Some ncap \<Rightarrow> case elem_NC_attrarray ncap attnum of None \<Rightarrow> Done (NC_ENOTATT, None, ncp, s)
     | Some attrp \<Rightarrow> Done (NC_NOERR, Some (cstr (att_name attrp)), ncp, s))"

definition NC3_inq_attid :: "nc_env \<Rightarrow> 's nc3_files \<Rightarrow> int \<Rightarrow> int \<Rightarrow> string \<Rightarrow> (int \<times> int option \<times> 's nc3_files) run" where
  "NC3_inq_attid E fs ncid varid name = with_nc3 fs ncid None (\<lambda>mode ncp s. case NC_attrarray0 ncp varid of None \<Rightarrow> Done (NC_ENOTVAR, None, ncp, s)
     | Some ncap \<Rightarrow> case NC_findattr E ncap name of None \<Rightarrow> Done (NC_ENOTATT, None, ncp, s)
     | Some i \<Rightarrow> Done (NC_NOERR, Some (int i), ncp, s))"

definition NC3_inq_att :: "nc_env \<Rightarrow> 's nc3_files \<Rightarrow> int \<Rightarrow> int \<Rightarrow> string option \<Rightarrow> (int \<times> (int \<times> nat) option \<times> 's nc3_files) run" where
  "NC3_inq_att E fs ncid varid name = with_nc3 fs ncid None (\<lambda>mode ncp s. case NC_lookupattr E ncp varid name of
       (status, None) \<Rightarrow> Done (status, None, ncp, s)
     | (_, Some attrp) \<Rightarrow> Done (NC_NOERR, Some (att_type attrp, att_nelems attrp), ncp, s))"

definition set_att :: "NC_attrarray \<Rightarrow> nat \<Rightarrow> NC_string \<Rightarrow> NC_attrarray" where
  "set_att ncap i str = ncap\<lparr>atts_value := (atts_value ncap)[i := (atts_value ncap ! i)\<lparr>att_name := str\<rparr>]\<rparr>"

definition NC3_rename_att :: "nc_env \<Rightarrow> 's ncio \<Rightarrow> 's nc3_files \<Rightarrow> int \<Rightarrow> int \<Rightarrow> string \<Rightarrow> string \<Rightarrow> (int \<times> unit \<times> 's nc3_files) run" where
  "NC3_rename_att E io fs ncid varid name unewname = with_nc3 fs ncid () (\<lambda>mode ncp s.
     if NC_readonly ncp then Done (NC_EPERM, (), ncp, s)
     else case NC_attrarray0 ncp varid of None \<Rightarrow> Done (NC_ENOTVAR, (), ncp, s)
     | Some ncap \<Rightarrow> if NC_check_name (env_validate E) unewname \<noteq> NC_NOERR then Done (NC_check_name (env_validate E) unewname, (), ncp, s)
     else case NC_findattr E ncap name of None \<Rightarrow> Done (NC_ENOTATT, (), ncp, s)
     | Some i \<Rightarrow> if NC_findattr E ncap unewname \<noteq> None then Done (NC_ENAMEINUSE, (), ncp, s)
     else let od = att_name (atts_value ncap ! i) in
     case env_normalize E unewname of Inl status \<Rightarrow> Done (status, (), ncp, s)
     | Inr newname \<Rightarrow> if NC_indef ncp
       then (case new_NC_string (env_mem E) (length newname) (Some newname) of None \<Rightarrow> Done (NC_ENOMEM, (), ncp, s)
         | Some newStr \<Rightarrow> Done (NC_NOERR, (), set_attrarray0 ncp varid (set_att ncap i newStr), s))
       else if nchars od < length newname then Done (NC_ENOTINDEFINE, (), ncp, s)
       else run_bind (set_NC_string od newname) (\<lambda>(status, newStr). if status \<noteq> NC_NOERR then Done (status, (), ncp, s)
         else dirty_sync io (set_attrarray0 ncp varid (set_att ncap i newStr)) s))"

text \<open>The search of \<open>NC3_del_att\<close> compares with \<open>nchars\<close>, the one of \<open>NC_findattr\<close> with \<open>strlen\<close>.\<close>

fun del_att_find :: "NC_attr list \<Rightarrow> string \<Rightarrow> nat \<Rightarrow> nat option" where
  "del_att_find [] name attrid = None"
| "del_att_find (a # as) name attrid = (if length name = nchars (att_name a) \<and> take (length name) (cp (att_name a)) = name then Some attrid
     else del_att_find as name (Suc attrid))"

definition NC3_del_att :: "nc_env \<Rightarrow> 's nc3_files \<Rightarrow> int \<Rightarrow> int \<Rightarrow> string \<Rightarrow> (int \<times> unit \<times> 's nc3_files) run" where
  "NC3_del_att E fs ncid varid uname = with_nc3 fs ncid () (\<lambda>mode ncp s.
     if \<not> NC_indef ncp then Done (NC_ENOTINDEFINE, (), ncp, s)
     else case NC_attrarray0 ncp varid of None \<Rightarrow> Done (NC_ENOTVAR, (), ncp, s)
     | Some ncap \<Rightarrow> case env_normalize E uname of Inl status \<Rightarrow> Done (status, (), ncp, s)
     | Inr name \<Rightarrow> case del_att_find (atts_value ncap) name 0 of None \<Rightarrow> Done (NC_ENOTATT, (), ncp, s)
     | Some i \<Rightarrow> Done (NC_NOERR, (), set_attrarray0 ncp varid
         (ncap\<lparr>atts_value := take i (atts_value ncap) @ drop (Suc i) (atts_value ncap)\<rparr>), s))"

subsection \<open>A call on an open file\<close>

text \<open>\<open>ncid\<close> is the number of an open classic file with header \<open>ncp\<close> and driver state \<open>s\<close>.\<close>

definition open_file :: "'s nc3_files \<Rightarrow> int \<Rightarrow> int \<Rightarrow> nc3_info \<Rightarrow> 's \<Rightarrow> bool" where
  "open_file fs ncid mode ncp s \<longleftrightarrow> (\<exists>p nc. NC_check_id fs ncid = Done (NC_NOERR, Some p) \<and> p < length (objs fs) \<and> objs fs ! p = Some nc \<and>
     dispatchdata nc = Some (ncp, s) \<and> nc_mode nc = mode)"

definition update_file :: "'s nc3_files \<Rightarrow> int \<Rightarrow> nc3_info \<Rightarrow> 's \<Rightarrow> 's nc3_files" where
  "update_file fs ncid ncp s = (case NC_check_id fs ncid of Done (_, Some p) \<Rightarrow>
       NC_store fs p ((the (objs fs ! p))\<lparr>dispatchdata := Some (ncp, s)\<rparr>) | _ \<Rightarrow> fs)"

lemma with_nc3_open:
  assumes "open_file fs ncid mode ncp s"
  shows "with_nc3 fs ncid r0 f = run_bind (f mode ncp s) (\<lambda>(status, r, ncp', s'). Done (status, r, update_file fs ncid ncp' s'))"
  using assms by (auto simp: open_file_def with_nc3_def NC_deref_def update_file_def)

lemma with_nc3_closed: "NC_check_id fs ncid = Done (status, None) \<Longrightarrow> with_nc3 fs ncid r0 f = Done (status, r0, fs)"
  by (simp add: with_nc3_def)

lemma find_in_NCList_NC_store:
  assumes "objs fs ! p = Some nc" "nc_model nc' = nc_model nc" "p < length (objs fs)"
  shows "find_in_NCList (NC_store fs p nc') ext = find_in_NCList fs ext"
  using assms by (auto simp: find_in_NCList_def NC_store_def NC_deref_def peek_def nth_list_update Let_def split: option.split)

lemma open_file_update:
  assumes "open_file fs ncid mode ncp s"
  shows "open_file (update_file fs ncid ncp' s') ncid mode ncp' s'"
    "update_file (update_file fs ncid ncp1 s1) ncid ncp' s' = update_file fs ncid ncp' s'"
proof -
  obtain p nc where p: "NC_check_id fs ncid = Done (NC_NOERR, Some p)" "p < length (objs fs)" "objs fs ! p = Some nc"
      "dispatchdata nc = Some (ncp, s)" "nc_mode nc = mode" using assms by (auto simp: open_file_def)
  have c: "NC_check_id (NC_store fs p (nc\<lparr>dispatchdata := d\<rparr>)) ncid = Done (NC_NOERR, Some p)" for d
    using p(1) find_in_NCList_NC_store [OF p(3) _ p(2), of "nc\<lparr>dispatchdata := d\<rparr>"] by (simp add: NC_check_id_def)
  show "open_file (update_file fs ncid ncp' s') ncid mode ncp' s'"
    unfolding open_file_def update_file_def using p c [of "Some (ncp', s')"] by (intro exI [of _ p]) (simp add: NC_store_def)
  show "update_file (update_file fs ncid ncp1 s1) ncid ncp' s' = update_file fs ncid ncp' s'"
    unfolding update_file_def using p c [of "Some (ncp1, s1)"] by (simp add: NC_store_def)
qed

lemma update_file_same: "open_file fs ncid mode ncp s \<Longrightarrow> update_file fs ncid ncp s = fs"
proof -
  assume "open_file fs ncid mode ncp s"
  then obtain p nc where p: "NC_check_id fs ncid = Done (NC_NOERR, Some p)" "p < length (objs fs)" "objs fs ! p = Some nc"
      "dispatchdata nc = Some (ncp, s)" by (auto simp: open_file_def)
  have "(objs fs)[p := Some nc] = objs fs" using p(2,3) by (metis list_update_id)
  moreover have n: "nc\<lparr>dispatchdata := Some (ncp, s)\<rparr> = nc" using p(4) by simp
  moreover have "update_file fs ncid ncp s = fs\<lparr>objs := (objs fs)[p := Some (nc\<lparr>dispatchdata := Some (ncp, s)\<rparr>)]\<rparr>"
    using p by (simp add: update_file_def NC_store_def)
  ultimately show ?thesis unfolding n by simp
qed

subsection \<open>The name indexes follow the arrays\<close>

text \<open>The arrays as every call finds and leaves them: the index maps each name to its number.\<close>

definition dim_array_ok :: "nc_env \<Rightarrow> NC_dimarray \<Rightarrow> bool" where
  "dim_array_ok E a \<longleftrightarrow> index_ok E (dims_hashmap a) (dim_names (dims_value a)) \<and> (dims_nalloc a = 0 \<longleftrightarrow> dims_hashmap a = None)"

definition var_array_ok :: "nc_env \<Rightarrow> NC_vararray \<Rightarrow> bool" where
  "var_array_ok E a \<longleftrightarrow> index_ok E (vars_hashmap a) (var_names (vars_value a)) \<and> (vars_nalloc a = 0 \<longleftrightarrow> vars_hashmap a = None)"

lemma empty_arrays_ok: "dim_array_ok E empty_dimarray" "var_array_ok E empty_vararray"
  by (simp_all add: dim_array_ok_def var_array_ok_def empty_dimarray_def empty_vararray_def index_ok_def dim_names_def var_names_def)

lemma names_append [simp]:
  "dim_names (ds @ es) = dim_names ds @ dim_names es" "dim_names [d] = [cstr (dim_name d)]" "length (dim_names ds) = length ds"
  "var_names (vs @ ws) = var_names vs @ var_names ws" "var_names [v] = [cstr (var_name v)]" "length (var_names vs) = length vs"
  by (simp_all add: dim_names_def var_names_def)

lemma index_add:
  assumes "env_ok E" "nm.indexes (env_crc E) hm names" "k \<noteq> []" "k \<notin> set names" "length names < 67686"
  shows "\<exists>hm'. hash_add E (Some hm) (length names) k = Done (Some hm') \<and> index_ok E (Some hm') (names @ [k])"
  using hash_add_ok [OF assms] by (metis index_ok_def option.simps(5))

lemma incr_NC_dimarray_ok:
  assumes env: "env_ok E" and a: "dim_array_ok E a" and d: "cstr (dim_name d) \<noteq> []" "cstr (dim_name d) \<notin> set (dim_names (dims_value a))"
    and len: "length (dims_value a) < 67686"
  shows "\<exists>a'. incr_NC_dimarray E a d = Done (NC_NOERR, a') \<and> dims_value a' = dims_value a @ [d] \<and> dim_array_ok E a'"
proof -
  have mem: "\<And>n. env_mem E n" using env by (simp add: env_ok_def)
  obtain a1 hm where a1: "grow_NC_dimarray E a = Done (NC_NOERR, a1)" "dims_value a1 = dims_value a" "dims_hashmap a1 = Some hm"
    "nm.indexes (env_crc E) hm (dim_names (dims_value a))" "dims_nalloc a1 \<noteq> 0"
  proof (cases "dims_hashmap a")
    case None
    then have e: "dims_nalloc a = 0" "dims_value a = []" using a by (auto simp: dim_array_ok_def index_ok_def dim_names_def)
    obtain hm where hm: "NC_hashmapnew (env_mem E) 0 = Done hm" "nm.indexes (env_crc E) hm []" using hashmapnew_index [OF env, of 0] by auto
    show ?thesis
      by (rule that [of "a\<lparr>dims_nalloc := NC_ARRAY_GROWBY, dims_hashmap := Some hm\<rparr>" hm]) (simp_all add: grow_NC_dimarray_def e hm mem dim_names_def)
  next
    case (Some hm)
    then have "dims_nalloc a \<noteq> 0" "nm.indexes (env_crc E) hm (dim_names (dims_value a))" using a by (auto simp: dim_array_ok_def index_ok_def)
    with Some show ?thesis
      by (intro that [of "if dims_nalloc a < length (dims_value a) + 1 then a\<lparr>dims_nalloc := dims_nalloc a + NC_ARRAY_GROWBY\<rparr> else a" hm])
        (auto simp: grow_NC_dimarray_def mem)
  qed
  obtain hm' where "hash_add E (Some hm) (length (dims_value a)) (cstr (dim_name d)) = Done (Some hm')"
    "index_ok E (Some hm') (dim_names (dims_value a) @ [cstr (dim_name d)])"
    using index_add [OF env a1(4) d] len by auto
  with a1 show ?thesis by (simp add: incr_NC_dimarray_def dim_array_ok_def)
qed

lemma incr_NC_vararray_ok:
  assumes env: "env_ok E" and a: "var_array_ok E a" and d: "cstr (var_name d) \<noteq> []" "cstr (var_name d) \<notin> set (var_names (vars_value a))"
    and len: "length (vars_value a) < 67686"
  shows "\<exists>a'. incr_NC_vararray E a d = Done (NC_NOERR, a') \<and> vars_value a' = vars_value a @ [d] \<and> var_array_ok E a'"
proof -
  have mem: "\<And>n. env_mem E n" using env by (simp add: env_ok_def)
  obtain a1 hm where a1: "grow_NC_vararray E a = Done (NC_NOERR, a1)" "vars_value a1 = vars_value a" "vars_hashmap a1 = Some hm"
    "nm.indexes (env_crc E) hm (var_names (vars_value a))" "vars_nalloc a1 \<noteq> 0"
  proof (cases "vars_hashmap a")
    case None
    then have e: "vars_nalloc a = 0" "vars_value a = []" using a by (auto simp: var_array_ok_def index_ok_def var_names_def)
    obtain hm where hm: "NC_hashmapnew (env_mem E) 0 = Done hm" "nm.indexes (env_crc E) hm []" using hashmapnew_index [OF env, of 0] by auto
    show ?thesis
      by (rule that [of "a\<lparr>vars_nalloc := NC_ARRAY_GROWBY, vars_hashmap := Some hm\<rparr>" hm]) (simp_all add: grow_NC_vararray_def e hm mem var_names_def)
  next
    case (Some hm)
    then have "vars_nalloc a \<noteq> 0" "nm.indexes (env_crc E) hm (var_names (vars_value a))" using a by (auto simp: var_array_ok_def index_ok_def)
    with Some show ?thesis
      by (intro that [of "if vars_nalloc a < length (vars_value a) + 1 then a\<lparr>vars_nalloc := vars_nalloc a + NC_ARRAY_GROWBY\<rparr> else a" hm])
        (auto simp: grow_NC_vararray_def mem)
  qed
  obtain hm' where "hash_add E (Some hm) (length (vars_value a)) (cstr (var_name d)) = Done (Some hm')"
    "index_ok E (Some hm') (var_names (vars_value a) @ [cstr (var_name d)])"
    using index_add [OF env a1(4) d] len by auto
  with a1 show ?thesis by (simp add: incr_NC_vararray_def var_array_ok_def)
qed

text \<open>The lookups in terms of the names.\<close>

definition name_number :: "string list \<Rightarrow> string \<Rightarrow> int" where
  "name_number names k = (case names_map names k of None \<Rightarrow> -1 | Some i \<Rightarrow> int i)"

lemma names_map_lt: "names_map names k = Some i \<Longrightarrow> i < length names \<and> names ! i = k" if "distinct names"
  using names_map_Some [OF that] by blast

lemma NC_finddim_ok:
  assumes "dim_array_ok E a" "env_normalize E name = Inr k"
  shows "NC_finddim E a name = Done (name_number (dim_names (dims_value a)) k)"
proof (cases "dims_value a = []")
  case True
  then show ?thesis by (simp add: NC_finddim_def name_number_def dim_names_def names_map_def)
next
  case False
  have ix: "index_ok E (dims_hashmap a) (dim_names (dims_value a))" using assms(1) by (simp add: dim_array_ok_def)
  have "dim_names (dims_value a) \<noteq> []" using False by (simp add: dim_names_def)
  note g = hash_get_ok [OF ix this, of k]
  show ?thesis
    using g False assms(2) names_map_lt [OF conjunct1 [OF index_ok_names [OF ix]], of k]
    by (auto simp: NC_finddim_def name_number_def split: option.split)
qed

lemma NC_findvar_ok:
  assumes "var_array_ok E a" "env_normalize E name = Inr k"
  shows "NC_findvar E a name = Done (name_number (var_names (vars_value a)) k)"
proof (cases "vars_value a = []")
  case True
  then show ?thesis by (simp add: NC_findvar_def name_number_def var_names_def names_map_def)
next
  case False
  have ix: "index_ok E (vars_hashmap a) (var_names (vars_value a))" using assms(1) by (simp add: var_array_ok_def)
  have "var_names (vars_value a) \<noteq> []" using False by (simp add: var_names_def)
  note g = hash_get_ok [OF ix this, of k]
  show ?thesis
    using g False assms(2) names_map_lt [OF conjunct1 [OF index_ok_names [OF ix]], of k]
    by (auto simp: NC_findvar_def name_number_def split: option.split)
qed

lemma name_number_absent: "name_number names k = -1 \<longleftrightarrow> k \<notin> set names"
  using names_map_None [of names k] by (auto simp: name_number_def split: option.split)


lemma norm_string:
  assumes "env_ok E" "k \<noteq> []" "NULB \<notin> set k"
  obtains str where "new_NC_string (env_mem E) (length k) (Some k) = Some str" "cstr str = k" "nchars str = length k" "str_wf str"
proof -
  have "env_mem E (17 + length k)" using assms(1) by (simp add: env_ok_def)
  from new_NC_string_Some [of "env_mem E" k, OF this assms(3)] that show ?thesis by metis
qed

text \<open>What utf8proc gives for a valid name: a non-empty string without NUL.\<close>

definition normal_name :: "nc_env \<Rightarrow> string \<Rightarrow> string \<Rightarrow> bool" where
  "normal_name E name k \<longleftrightarrow> env_normalize E name = Inr k \<and> k \<noteq> [] \<and> NULB \<notin> set k"

subsection \<open>Dimensions: what the calls do\<close>

lemma udim_loop_absent: "0 \<le> i \<Longrightarrow> udim_loop ds i = -1 \<longleftrightarrow> (\<forall>d \<in> set ds. dim_size d \<noteq> NC_UNLIMITED)"
  by (induction ds i rule: udim_loop.induct) auto

text \<open>
  C25: \<open>NC3_def_dim\<close> in define mode refuses a size beyond the format's limit, a second unlimited
  dimension and a name in use, in that order and without changing the file; otherwise the dimension is appended with the next number and the index
  follows.
\<close>

theorem NC3_def_dim_result:
  assumes f: "open_file fs ncid mode ncp s" and env: "env_ok E" and nm': "normal_name E name k" and a: "dim_array_ok E (dims ncp)"
    and c: "NC_indef ncp" "NC_check_name (env_validate E) name = NC_NOERR" "length (dims_value (dims ncp)) < 67686"
  shows "\<exists>da str. NC3_def_dim E fs ncid name sz = Done (
      if dim_size_max (flags ncp) < sz then (NC_EDIMSIZE, None, fs)
      else if sz = NC_UNLIMITED \<and> (\<exists>d \<in> set (dims_value (dims ncp)). dim_size d = NC_UNLIMITED) then (NC_EUNLIMIT, None, fs)
      else if k \<in> set (dim_names (dims_value (dims ncp))) then (NC_ENAMEINUSE, None, fs)
      else (NC_NOERR, Some (int (length (dims_value (dims ncp)))), update_file fs ncid (ncp\<lparr>dims := da\<rparr>) s)) \<and>
    cstr str = k \<and> dims_value da = dims_value (dims ncp) @ [\<lparr>dim_name = str, dim_size = sz\<rparr>] \<and>
    (k \<notin> set (dim_names (dims_value (dims ncp))) \<longrightarrow> dim_array_ok E da)"
proof -
  let ?ds = "dims_value (dims ncp)"
  have k: "env_normalize E name = Inr k" "k \<noteq> []" "NULB \<notin> set k" using nm' by (simp_all add: normal_name_def)
  obtain str where str: "new_NC_string (env_mem E) (length k) (Some k) = Some str" "cstr str = k" using norm_string [OF env k(2,3)] by metis
  define d where "d = \<lparr>dim_name = str, dim_size = sz\<rparr>"
  have nd: "new_NC_dim E name sz = Some d" using str k env by (simp add: new_NC_dim_def new_x_NC_dim_def env_ok_def d_def)
  have u: "find_NC_Udim (dims ncp) \<noteq> -1 \<longleftrightarrow> (\<exists>d \<in> set ?ds. dim_size d = NC_UNLIMITED)"
    using udim_loop_absent [of 0 ?ds] by (auto simp: find_NC_Udim_def)
  have fd: "NC_finddim E (dims ncp) name = Done (name_number (dim_names ?ds) k)" by (rule NC_finddim_ok [OF a k(1)])
  have same: "update_file fs ncid ncp s = fs" by (rule update_file_same [OF f])
  show ?thesis
  proof (cases "k \<in> set (dim_names ?ds)")
    case True
    then have "name_number (dim_names ?ds) k \<noteq> -1" by (simp add: name_number_absent)
    with True c u fd same show ?thesis
      by (intro exI [of _ "(dims ncp)\<lparr>dims_value := ?ds @ [d]\<rparr>"] exI [of _ str]) (auto simp: NC3_def_dim_def with_nc3_open [OF f] str d_def)
  next
    case False
    then have nn: "name_number (dim_names ?ds) k = -1" by (simp add: name_number_absent)
    obtain da where da: "incr_NC_dimarray E (dims ncp) d = Done (NC_NOERR, da)" "dims_value da = ?ds @ [d]" "dim_array_ok E da"
      using incr_NC_dimarray_ok [OF env a, of d] False str k(2) c(3) by (auto simp: d_def)
    with False nn c u fd same nd show ?thesis
      by (intro exI [of _ da] exI [of _ str]) (auto simp: NC3_def_dim_def with_nc3_open [OF f] str d_def)
  qed
qed

text \<open>
  After \<open>NC3_def_dim\<close> has succeeded, \<open>NC3_inq_dimid\<close> finds the new dimension by its name and every
  other one as before, and \<open>NC3_inq_dim\<close> gives back name and size, for the unlimited one the number of records.
\<close>

theorem NC3_def_dim_inq:
  assumes f: "open_file fs ncid mode ncp s" and env: "env_ok E" and nm': "normal_name E name k" and a: "dim_array_ok E (dims ncp)"
    and c: "NC_indef ncp" "NC_check_name (env_validate E) name = NC_NOERR" "length (dims_value (dims ncp)) < 67686"
    and def: "NC3_def_dim E fs ncid name sz = Done (NC_NOERR, Some n, fs')"
  shows "NC3_inq_dimid E fs' ncid name = Done (NC_NOERR, Some n, fs') \<and>
    NC3_inq_dim fs' ncid n = Done (NC_NOERR, Some (k, if sz = NC_UNLIMITED then numrecs ncp else sz), fs') \<and>
    (\<forall>other k'. env_normalize E other = Inr k' \<longrightarrow> k' \<noteq> k \<longrightarrow>
      (\<exists>st r. NC3_inq_dimid E fs' ncid other = Done (st, r, fs') \<and> NC3_inq_dimid E fs ncid other = Done (st, r, fs)))"
proof -
  let ?ds = "dims_value (dims ncp)"
  obtain da str where r: "NC3_def_dim E fs ncid name sz = Done (
      if dim_size_max (flags ncp) < sz then (NC_EDIMSIZE, None, fs)
      else if sz = NC_UNLIMITED \<and> (\<exists>d \<in> set ?ds. dim_size d = NC_UNLIMITED) then (NC_EUNLIMIT, None, fs)
      else if k \<in> set (dim_names ?ds) then (NC_ENAMEINUSE, None, fs)
      else (NC_NOERR, Some (int (length ?ds)), update_file fs ncid (ncp\<lparr>dims := da\<rparr>) s))"
    and str: "cstr str = k" and da: "dims_value da = ?ds @ [\<lparr>dim_name = str, dim_size = sz\<rparr>]" "k \<notin> set (dim_names ?ds) \<longrightarrow> dim_array_ok E da"
    using NC3_def_dim_result [OF f env nm' a c, of sz] by blast
  have k: "env_normalize E name = Inr k" using nm' by (simp add: normal_name_def)
  have n: "k \<notin> set (dim_names ?ds)" "n = int (length ?ds)" "fs' = update_file fs ncid (ncp\<lparr>dims := da\<rparr>) s"
    using def unfolding r by (auto split: if_splits)
  have f': "open_file fs' ncid mode (ncp\<lparr>dims := da\<rparr>) s" unfolding n(3) by (rule open_file_update(1) [OF f])
  have same: "update_file fs' ncid (ncp\<lparr>dims := da\<rparr>) s = fs'" "update_file fs ncid ncp s = fs"
    by (rule update_file_same, rule f' f)+
  have names: "dim_names (dims_value da) = dim_names ?ds @ [k]" using str by (simp add: da(1))
  have dok: "dim_array_ok E da" using da(2) n(1) by blast
  have find: "NC3_inq_dimid E fs' ncid other = (let i = name_number (dim_names ?ds @ [k]) k' in
      Done (if i = -1 then NC_EBADDIM else NC_NOERR, if i = -1 then None else Some i, fs'))"
    "NC3_inq_dimid E fs ncid other = (let i = name_number (dim_names ?ds) k' in
      Done (if i = -1 then NC_EBADDIM else NC_NOERR, if i = -1 then None else Some i, fs))"
    if "env_normalize E other = Inr k'" for other k'
    using NC_finddim_ok [OF dok that] NC_finddim_ok [OF a that] same names
    by (simp_all add: NC3_inq_dimid_def with_nc3_open [OF f'] with_nc3_open [OF f])
  have num: "name_number (dim_names ?ds @ [k]) k' = (if k' = k then int (length ?ds) else name_number (dim_names ?ds) k')" for k'
    using names_map_append [OF n(1)] by (simp add: name_number_def)
  have "NC3_inq_dim fs' ncid n = Done (NC_NOERR, Some (k, if sz = NC_UNLIMITED then numrecs ncp else sz), fs')"
    using same(1) str c(3) by (simp add: NC3_inq_dim_def with_nc3_open [OF f'] elem_NC_dimarray_def da(1) n(2) u64_id nth_append)
  moreover have "NC3_inq_dimid E fs' ncid name = Done (NC_NOERR, Some n, fs')"
    using find(1) [OF k] n(2) by (simp add: num Let_def)
  ultimately show ?thesis using find num by (auto simp: Let_def)
qed

text \<open>A table with one open file, in define mode.\<close>

definition sample_files :: "nc3_info \<Rightarrow> unit nc3_files" where
  "sample_files ncp = \<lparr>nc_filelist = Some [1 \<mapsto> 0], numfiles = 1,
     objs = [Some \<lparr>ext_ncid = 65536, nc_path = ''f'', nc_mode = 0, nc_model = 1, dispatchdata = Some (ncp, ())\<rparr>]\<rparr>"

definition sample_new :: nc3_info where
  "sample_new = (sample_hdr 0 0 [])\<lparr>flags := NC_CREAT, vars := empty_vararray\<rparr>"

lemma sample_files_open: "open_file (sample_files ncp) 65536 0 ncp ()"
  by (simp add: open_file_def sample_files_def NC_check_id_def find_in_NCList_def NC_deref_def slot_of_def u32_def)

lemma sample_name: "normal_name sample_env ''time'' ''time''" "NC_check_name (env_validate sample_env) ''time'' = NC_NOERR"
  by (simp_all add: normal_name_def sample_env_def NC_check_name_def byte_at_def first_char_ok_def RANGE_def check_name_loop.simps Let_def isspace_def)

lemma sample_new_sel: "NC_indef sample_new" "dims sample_new = empty_dimarray" "vars sample_new = empty_vararray" "flags sample_new = 2"
  "numrecs sample_new = 0" "\<not> fIsSet 2 512" "\<not> fIsSet 2 32" "dims_value empty_dimarray = []" "vars_value empty_vararray = []" "\<not> NC_readonly sample_new"
  by (simp_all add: sample_new_def sample_hdr_def NC_indef_def NC_IsNew_def fIsSet_def empty_dimarray_def empty_vararray_def NC_readonly_def)

lemma NC3_def_dim_result_witness:
  "\<exists>da. NC3_def_dim sample_env (sample_files sample_new) 65536 ''time'' 2147483645 = Done (NC_EDIMSIZE, None, sample_files sample_new) \<and>
    NC3_def_dim sample_env (sample_files sample_new) 65536 ''time'' 0 =
      Done (NC_NOERR, Some 0, update_file (sample_files sample_new) 65536 (sample_new\<lparr>dims := da\<rparr>) ()) \<and> length (dims_value da) = 1"
  using NC3_def_dim_result [OF sample_files_open sample_env_ok sample_name(1) _ _ sample_name(2), where ncp = sample_new and sz = 0]
    NC3_def_dim_result [OF sample_files_open sample_env_ok sample_name(1) _ _ sample_name(2), where ncp = sample_new and sz = 2147483645]
  by (auto simp: sample_new_sel empty_arrays_ok dim_size_max_def dim_names_def)

lemma NC3_def_dim_inq_witness:
  "\<exists>fs'. NC3_def_dim sample_env (sample_files sample_new) 65536 ''time'' 7 = Done (NC_NOERR, Some 0, fs') \<and>
    NC3_inq_dimid sample_env fs' 65536 ''time'' = Done (NC_NOERR, Some 0, fs') \<and> NC3_inq_dim fs' 65536 0 = Done (NC_NOERR, Some (''time'', 7), fs')"
proof -
  have a: "dim_array_ok sample_env (dims sample_new)" by (simp add: sample_new_sel empty_arrays_ok)
  have l: "length (dims_value (dims sample_new)) < 67686" by (simp add: sample_new_sel)
  obtain fs' where d: "NC3_def_dim sample_env (sample_files sample_new) 65536 ''time'' 7 = Done (NC_NOERR, Some 0, fs')"
    using NC3_def_dim_result [OF sample_files_open sample_env_ok sample_name(1) a _ sample_name(2) l, where sz = 7]
    by (auto simp: sample_new_sel dim_size_max_def dim_names_def)
  show ?thesis
    using NC3_def_dim_inq [OF sample_files_open sample_env_ok sample_name(1) a _ sample_name(2) l d] d by (simp add: sample_new_sel)
qed

subsection \<open>Renaming a dimension\<close>

lemma dim_names_update: "i < length ds \<Longrightarrow> dim_names (ds[i := (ds ! i)\<lparr>dim_name := str\<rparr>]) = (dim_names ds)[i := cstr str]"
  by (simp add: dim_names_def map_update)

lemma var_names_update: "i < length vs \<Longrightarrow> var_names (vs[i := (vs ! i)\<lparr>var_name := str\<rparr>]) = (var_names vs)[i := cstr str]"
  by (simp add: var_names_def map_update)

lemma sum_list_update_same: "f y = f (xs ! i) \<Longrightarrow> sum_list (map f (xs[i := y])) = sum_list (map f xs)" for f :: "'a \<Rightarrow> nat"
  by (metis list_update_beyond list_update_id map_update not_le)

lemma ncx_len_set_dim:
  "nchars str = nchars (dim_name (dims_value (dims ncp) ! i)) \<Longrightarrow> ncx_len_NC (set_dim ncp i str hmo) z = ncx_len_NC ncp z"
  by (simp add: ncx_len_NC_def set_dim_def Let_def ncx_len_NC_dimarray_def sum_list_update_same ncx_len_NC_dim_def ncx_len_NC_string_def)

lemma version_hdirty: "version_of (fSet f NC_HDIRTY) = version_of f"
  by (simp add: version_of_def fIsSet_single fSet_bit)

lemma hdirty_facts:
  "ncx_len_NC (set_NC_hdirty ncp) z = ncx_len_NC ncp z" "NC_hdirty (set_NC_hdirty ncp)" "dims (set_NC_hdirty ncp) = dims ncp"
  "vars (set_NC_hdirty ncp) = vars ncp" "attrs (set_NC_hdirty ncp) = attrs ncp" "NC_doHsync (set_NC_hdirty ncp) = NC_doHsync ncp"
  by (simp_all add: ncx_len_NC_def set_NC_hdirty_def version_hdirty Let_def NC_flags_bits fSet_bit)

lemma dirty_sync_plain: "\<not> NC_doHsync ncp \<Longrightarrow> dirty_sync io ncp s = Done (NC_NOERR, (), set_NC_hdirty ncp, s)"
  by (simp add: dirty_sync_def hdirty_facts)

lemma set_dim_facts:
  "dims (set_dim ncp i str h) = (dims ncp)\<lparr>dims_hashmap := h, dims_value := (dims_value (dims ncp))[i := (dims_value (dims ncp) ! i)\<lparr>dim_name := str\<rparr>]\<rparr>"
  "NC_doHsync (set_dim ncp i str h) = NC_doHsync ncp"
  by (simp_all add: set_dim_def NC_doHsync_def)

text \<open>
  C24: \<open>NC3_rename_dim\<close> refuses a name in use, and outside define mode a longer name, without changing the
  file. Otherwise the name index leads to the dimension by its new name only; outside define mode the
  header keeps its size exactly and is marked dirty, so that it can be rewritten in place.
\<close>

theorem NC3_rename_dim_result:
  fixes ncp :: nc3_info and dimid :: int
  defines "ds \<equiv> dims_value (dims ncp)" and "i \<equiv> nat dimid"
  assumes f: "open_file fs ncid mode ncp s" and env: "env_ok E" and nm': "normal_name E new k" and a: "dim_array_ok E (dims ncp)"
    and c: "\<not> NC_readonly ncp" "NC_check_name (env_validate E) new = NC_NOERR" "length ds \<le> 67686" "0 \<le> dimid" "dimid < int (length ds)"
    and hs: "\<not> NC_indef ncp \<Longrightarrow> \<not> NC_doHsync ncp"
  shows "\<exists>ncp' str hmo. NC3_rename_dim E io fs ncid dimid new = Done (
      if k \<in> set (dim_names ds) then (NC_ENAMEINUSE, (), fs)
      else if \<not> NC_indef ncp \<and> nchars (dim_name (ds ! i)) < length k then (NC_ENOTINDEFINE, (), fs)
      else (NC_NOERR, (), update_file fs ncid ncp' s)) \<and>
    ncp' = (if NC_indef ncp then set_dim ncp i str hmo else set_NC_hdirty (set_dim ncp i str hmo)) \<and> cstr str = k \<and>
    (k \<notin> set (dim_names ds) \<longrightarrow> dim_array_ok E (dims ncp') \<and> dim_names (dims_value (dims ncp')) = (dim_names ds)[i := k]) \<and>
    (k \<notin> set (dim_names ds) \<and> \<not> NC_indef ncp \<and> length k \<le> nchars (dim_name (ds ! i)) \<longrightarrow> (\<forall>z. ncx_len_NC ncp' z = ncx_len_NC ncp z) \<and> NC_hdirty ncp')"
proof -
  have k: "env_normalize E new = Inr k" "k \<noteq> []" "NULB \<notin> set k" using nm' by (simp_all add: normal_name_def)
  have i: "i < length ds" using c(4,5) by (simp add: i_def)
  have el: "elem_NC_dimarray (dims ncp) dimid = Some (ds ! i)"
    using elem_NC_dimarray_in [of dimid "dims ncp"] c(3-5) by (simp add: ds_def i_def)
  have fd: "NC_finddim E (dims ncp) new = Done (name_number (dim_names ds) k)" unfolding ds_def by (rule NC_finddim_ok [OF a k(1)])
  have same: "update_file fs ncid ncp s = fs" by (rule update_file_same [OF f])
  let ?d = "dim_name (ds ! i)"
  define longer where "longer \<longleftrightarrow> \<not> NC_indef ncp \<and> nchars ?d < length k"
  obtain str where str: "cstr str = k" "NC_indef ncp \<Longrightarrow> new_NC_string (env_mem E) (length k) (Some k) = Some str"
    "\<not> NC_indef ncp \<Longrightarrow> \<not> longer \<Longrightarrow> set_NC_string ?d k = Done (NC_NOERR, str) \<and> nchars str = nchars ?d"
  proof (cases "NC_indef ncp")
    case True
    then show ?thesis using norm_string [OF env k(2,3)] that by metis
  next
    case False
    show ?thesis
    proof (cases longer)
      case True
      then show ?thesis using norm_string [OF env k(2,3)] that False by metis
    next
      case notl: False
      then have "length k \<le> nchars ?d" using False by (simp add: longer_def)
      from set_NC_string_Done [OF k(2,3) this] False that show ?thesis by metis
    qed
  qed
  have ix: "index_ok E (dims_hashmap (dims ncp)) (dim_names ds)" using a by (simp add: dim_array_ok_def ds_def)
  have nth: "dim_names ds ! i = cstr ?d" using i by (simp add: dim_names_def)
  show ?thesis
  proof (cases "k \<in> set (dim_names ds)")
    case True
    then have "name_number (dim_names ds) k \<noteq> -1" by (simp add: name_number_absent)
    with True c fd same str(1) show ?thesis
      by (intro exI [of _ "if NC_indef ncp then set_dim ncp i str None else set_NC_hdirty (set_dim ncp i str None)"] exI [of _ str] exI [of _ None])
        (simp add: NC3_rename_dim_def with_nc3_open [OF f])
  next
    case False
    then have nn: "name_number (dim_names ds) k = -1" by (simp add: name_number_absent)
    obtain h1 h2 where h: "hash_remove E (dims_hashmap (dims ncp)) (cstr ?d) = Done h1" "hash_add E h1 i k = Done h2"
      "index_ok E h2 ((dim_names ds)[i := k])"
      using hash_rename_ok [OF env ix k(2) False, of i] i c(3) unfolding nth by auto
    let ?n = "if NC_indef ncp then set_dim ncp i str h2 else set_NC_hdirty (set_dim ncp i str h2)"
    have ok: "dim_array_ok E (dims ?n)" "dim_names (dims_value (dims ?n)) = (dim_names ds)[i := k]"
    proof -
      have d: "dims ?n = (dims ncp)\<lparr>dims_hashmap := h2, dims_value := ds[i := (ds ! i)\<lparr>dim_name := str\<rparr>]\<rparr>"
        by (simp add: set_dim_facts hdirty_facts ds_def)
      show n: "dim_names (dims_value (dims ?n)) = (dim_names ds)[i := k]" unfolding d using i str(1) by (simp add: dim_names_update)
      have "dims_nalloc (dims ncp) \<noteq> 0" using a i ix by (auto simp: dim_array_ok_def index_ok_def dim_names_def ds_def)
      moreover have "h2 \<noteq> None" using h(3) i by (cases h2) (auto simp: index_ok_def dim_names_def)
      ultimately show "dim_array_ok E (dims ?n)" using h(3) unfolding dim_array_ok_def n by (simp add: d)
    qed
    have len: "ncx_len_NC ?n z = ncx_len_NC ncp z" if "\<not> NC_indef ncp" "length k \<le> nchars ?d" for z
      using that str(3) by (simp add: hdirty_facts longer_def ncx_len_set_dim ds_def)
    have "NC3_rename_dim E io fs ncid dimid new = Done (if longer then (NC_ENOTINDEFINE, (), fs) else (NC_NOERR, (), update_file fs ncid ?n s))"
    proof (cases "NC_indef ncp")
      case True
      with False nn fd el c(1,2) k(1) h(1,2) str(1) str(2) [OF True] show ?thesis
        by (simp add: NC3_rename_dim_def with_nc3_open [OF f] i_def [symmetric] longer_def Let_def)
    next
      case notdef: False
      show ?thesis
      proof (cases longer)
        case True
        with nn fd el c(1,2) k(1) notdef same show ?thesis
          by (simp add: NC3_rename_dim_def with_nc3_open [OF f] i_def [symmetric] longer_def Let_def)
      next
        case nl: False
        then have "\<not> nchars ?d < length k" using notdef by (simp add: longer_def)
        with nl nn fd el c(1,2) k(1) notdef h(1,2) str(1) str(3) [OF notdef nl] hs [OF notdef] show ?thesis
          by (simp add: NC3_rename_dim_def with_nc3_open [OF f] i_def [symmetric] Let_def dirty_sync_plain set_dim_facts)
      qed
    qed
    with False ok len str(1) show ?thesis
      by (intro exI [of _ ?n] exI [of _ str] exI [of _ h2]) (simp add: longer_def hdirty_facts(2))
  qed
qed


subsection \<open>Variables: what the calls do\<close>

text \<open>
  C26: \<open>NC3_def_var\<close> in define mode refuses a bad type, too many dimensions and a name in use, and passes on the error of
  a bad dimension list, without changing the file; otherwise the variable is appended with the next number, with the shape \<open>NC_var_shape\<close>
  computes and the fill mode of the file, and the index follows.
\<close>

theorem NC3_def_var_result:
  fixes ncp :: nc3_info
  defines "vs \<equiv> vars_value (vars ncp)"
  assumes f: "open_file fs ncid mode ncp s" and env: "env_ok E" and nm': "normal_name E name k" and a: "var_array_ok E (vars ncp)"
    and c: "NC_indef ncp" "NC_check_name (env_validate E) name = NC_NOERR" "length vs < 67686" "0 \<le> ndims" "nat ndims \<le> length dimids"
    and shape: "\<And>str. cstr str = k \<Longrightarrow> nchars str = length k \<Longrightarrow> NC_var_shape \<lparr>var_xsz = 0, var_shape = replicate (nat ndims) 0, var_dsizes = replicate (nat ndims) 0, var_name = str,
      var_ndims = nat ndims, var_dimids = take (nat ndims) dimids, var_attrs = empty_attrarray, var_type = type, var_len = 0, var_begin = 0,
      var_no_fill = False\<rparr> (dims ncp) = Done (st, sv str)" "\<And>str. var_name (sv str) = str"
  shows "\<exists>va str. NC3_def_var E fs ncid name type ndims dimids = Done (
      if nc3_cktype mode type \<noteq> NC_NOERR then (NC_EBADTYPE, None, fs)
      else if NC_MAX_VAR_DIMS < ndims then (NC_EMAXDIMS, None, fs)
      else if k \<in> set (var_names vs) then (NC_ENAMEINUSE, None, fs)
      else if st \<noteq> NC_NOERR then (st, None, fs)
      else (NC_NOERR, Some (int (length vs)), update_file fs ncid (ncp\<lparr>vars := va\<rparr>) s)) \<and>
    cstr str = k \<and> vars_value va = vs @ [(sv str)\<lparr>var_no_fill := \<not> NC_dofill ncp\<rparr>] \<and> (k \<notin> set (var_names vs) \<longrightarrow> var_array_ok E va)"
proof -
  have k: "env_normalize E name = Inr k" "k \<noteq> []" "NULB \<notin> set k" using nm' by (simp_all add: normal_name_def)
  obtain str where str: "new_NC_string (env_mem E) (length k) (Some k) = Some str" "cstr str = k" "nchars str = length k"
    using norm_string [OF env k(2,3)] by metis
  let ?v0 = "\<lparr>var_xsz = 0, var_shape = replicate (nat ndims) 0, var_dsizes = replicate (nat ndims) 0, var_name = str,
      var_ndims = nat ndims, var_dimids = take (nat ndims) dimids, var_attrs = empty_attrarray, var_type = type, var_len = 0, var_begin = 0,
      var_no_fill = False\<rparr>"
  have nv: "new_NC_var E name type (nat ndims) dimids = Done (Some ?v0)"
    using str k env c(5) by (simp add: new_NC_var_def new_x_NC_var_def env_ok_def)
  have fd: "NC_findvar E (vars ncp) name = Done (name_number (var_names vs) k)" unfolding vs_def by (rule NC_findvar_ok [OF a k(1)])
  have same: "update_file fs ncid ncp s = fs" by (rule update_file_same [OF f])
  have ty: "nc3_cktype mode type \<noteq> NC_NOERR \<Longrightarrow> nc3_cktype mode type = NC_EBADTYPE" by (auto simp: nc3_cktype_def split: if_splits)
  have nd: "NC_MAX_VAR_DIMS < ndims \<or> u64 ndims \<le> X_INT_MAX" using c(4) by (cases "NC_MAX_VAR_DIMS < ndims") (simp_all add: u64_id)
  show ?thesis
  proof (cases "k \<in> set (var_names vs)")
    case True
    then have "name_number (var_names vs) k \<noteq> -1" by (simp add: name_number_absent)
    with True c nd ty fd same str(2) show ?thesis
      by (intro exI [of _ "(vars ncp)\<lparr>vars_value := vs @ [(sv str)\<lparr>var_no_fill := \<not> NC_dofill ncp\<rparr>]\<rparr>"] exI [of _ str])
        (auto simp: NC3_def_var_def with_nc3_open [OF f])
  next
    case False
    then have nn: "name_number (var_names vs) k = -1" by (simp add: name_number_absent)
    have nm'': "cstr (var_name (sv str)) = k" using shape(2) str(2) by simp
    obtain va where va: "incr_NC_vararray E (vars ncp) (sv str) = Done (NC_NOERR, va)" "vars_value va = vs @ [sv str]" "var_array_ok E va"
      using incr_NC_vararray_ok [OF env a, of "sv str"] False nm'' k(2) c(3) unfolding vs_def by auto
    let ?va = "va\<lparr>vars_value := vs @ [(sv str)\<lparr>var_no_fill := \<not> NC_dofill ncp\<rparr>]\<rparr>"
    have "var_names (vars_value ?va) = var_names (vars_value va)" by (simp add: va(2))
    then have ok: "var_array_ok E ?va" using va(3) by (simp add: var_array_ok_def)
    have u: "vars_value va ! (length (vars_value va) - 1) = sv str" "(vars_value va)[length (vars_value va) - 1 := x] = vs @ [x]" for x
      by (simp_all add: va(2))
    have "NC3_def_var E fs ncid name type ndims dimids = Done (
      if nc3_cktype mode type \<noteq> NC_NOERR then (NC_EBADTYPE, None, fs)
      else if NC_MAX_VAR_DIMS < ndims then (NC_EMAXDIMS, None, fs)
      else if st \<noteq> NC_NOERR then (st, None, fs)
      else (NC_NOERR, Some (int (length vs)), update_file fs ncid (ncp\<lparr>vars := ?va\<rparr>) s))"
      using nn c nd ty fd same nv shape(1) [OF str(2,3)] va(1) u
      by (auto simp: NC3_def_var_def with_nc3_open [OF f] Let_def va(2))
    with False ok str(2) show ?thesis by (intro exI [of _ ?va] exI [of _ str]) simp
  qed
qed


lemma hash_remove_only:
  assumes ix: "index_ok E hmo names" and i: "i < length names"
  shows "\<exists>hm'. hash_remove E hmo (names ! i) = Done (Some hm') \<and> (\<forall>k. hash_get E (Some hm') k = Done (if k = names ! i then None else names_map names k))"
proof -
  obtain hm where hm: "hmo = Some hm" "nm.indexes (env_crc E) hm names" using ix i by (cases hmo) (auto simp: index_ok_def)
  then have d: "hm_wf (env_crc E) hm" "hm_abs hm = names_map names" "[] \<notin> set names" by (simp_all add: nm.indexes_def)
  have ne: "names ! i \<noteq> []" using d(3) i by (metis nth_mem)
  obtain hm' where m: "NC_hashmapremove (env_crc E) hm (names ! i) = Done (hm_abs hm (names ! i), hm')" "hm_wf (env_crc E) hm'"
    "hm_abs hm' = (hm_abs hm)(names ! i := None)" using nm.remove_law [OF d(1), of "names ! i"] by blast
  have "hash_get E (Some hm') k = Done (if k = names ! i then None else names_map names k)" for k
    using nm.get_law [OF m(2), of k] m(3) d(2) names_map_None [of names "[]"] d(3) ne by (auto simp: hash_get_def)
  with m(1) hm(1) ne show ?thesis by (auto simp: hash_remove_def)
qed

text \<open>
  when the allocation of the new name fails, \<open>NC3_rename_var\<close> in define mode reports \<open>NC_ENOMEM\<close> but has already
  taken the old name out of the index: the variable keeps its name and can no longer be found by it.
\<close>

theorem NC3_rename_var_nomem:
  fixes ncp :: nc3_info and varid :: int
  defines "vs \<equiv> vars_value (vars ncp)"
  assumes f: "open_file fs ncid mode ncp s" and a: "var_array_ok E (vars ncp)" and k: "env_normalize E new = Inr k" "k \<notin> set (var_names vs)"
    and old: "env_normalize E oldname = Inr (cstr (var_name (vs ! nat varid)))"
    and c: "\<not> NC_readonly ncp" "NC_indef ncp" "NC_check_name (env_validate E) new = NC_NOERR" "0 \<le> varid" "varid < int (length vs)"
      "int (length vs) \<le> X_UINT64_MAX" and nomem: "\<not> env_mem E (16 + length k + 1)"
  shows "\<exists>fs'. NC3_rename_var E io fs ncid varid new = Done (NC_ENOMEM, (), fs') \<and> NC3_inq_varid E fs ncid oldname = Done (NC_NOERR, Some varid, fs) \<and>
    NC3_inq_varid E fs' ncid oldname = Done (NC_ENOTVAR, None, fs')"
proof -
  let ?i = "nat varid" and ?q = "cstr (var_name (vs ! nat varid))"
  have i: "?i < length vs" using c(4,5) by simp
  have ix: "index_ok E (vars_hashmap (vars ncp)) (var_names vs)" using a by (simp add: var_array_ok_def vs_def)
  have nth: "var_names vs ! ?i = ?q" using i by (simp add: var_names_def)
  obtain hm' where h: "hash_remove E (vars_hashmap (vars ncp)) ?q = Done (Some hm')"
    "\<And>k. hash_get E (Some hm') k = Done (if k = ?q then None else names_map (var_names vs) k)"
    using hash_remove_only [OF ix, of ?i] i unfolding nth by auto
  have dist: "distinct (var_names vs)" using index_ok_names [OF ix] by blast
  have fd: "NC_findvar E (vars ncp) new = Done (-1)" using NC_findvar_ok [OF a k(1)] k(2) name_number_absent unfolding vs_def by metis
  have fo: "NC_findvar E (vars ncp) oldname = Done varid"
    using NC_findvar_ok [OF a old] names_map_nth [OF dist, of ?i] i nth c(4) unfolding vs_def [symmetric] by (simp add: name_number_def)
  have lk: "NC_lookupvar ncp varid = (NC_NOERR, Some (vs ! ?i))"
    using c(4-6) i by (auto simp: NC_lookupvar_def elem_NC_vararray_def u64_id vs_def)
  let ?n = "set_var ncp ?i id (Some hm')"
  have r: "NC3_rename_var E io fs ncid varid new = Done (NC_ENOMEM, (), update_file fs ncid ?n s)"
    using c(1-3) fd lk k(1) h(1) nomem by (simp add: NC3_rename_var_def with_nc3_open [OF f] new_NC_string_def Let_def)
  have f': "open_file (update_file fs ncid ?n s) ncid mode ?n s" by (rule open_file_update(1) [OF f])
  have "NC_findvar E (vars ?n) oldname = Done (-1)" using old h(2) [of ?q] i by (auto simp: NC_findvar_def set_var_def)
  then have "NC3_inq_varid E (update_file fs ncid ?n s) ncid oldname = Done (NC_ENOTVAR, None, update_file fs ncid ?n s)"
    using update_file_same [OF f'] by (simp add: NC3_inq_varid_def with_nc3_open [OF f'])
  moreover have "NC3_inq_varid E fs ncid oldname = Done (NC_NOERR, Some varid, fs)"
    using fo c(4) update_file_same [OF f] by (simp add: NC3_inq_varid_def with_nc3_open [OF f])
  ultimately show ?thesis using r by blast
qed

subsection \<open>Attributes: what the calls do\<close>

lemma findattr_loop_eq: "findattr_loop (a # as) k n = (if cstr (att_name a) = k then Some n else findattr_loop as k (Suc n))"
  by (auto simp: take_all_iff)

lemma findattr_loop_absent: "findattr_loop as k n = None \<longleftrightarrow> (\<forall>a \<in> set as. cstr (att_name a) \<noteq> k)"
  by (induction as arbitrary: n) (simp_all add: findattr_loop_eq del: findattr_loop.simps(2))

lemma findattr_loop_update:
  "findattr_loop as k n = None \<Longrightarrow> i < length as \<Longrightarrow> cstr (att_name b) = k \<Longrightarrow> findattr_loop (as[i := b]) k n = Some (n + i)"
proof (induction as arbitrary: n i)
  case (Cons a as)
  then show ?case by (cases i) (auto simp: findattr_loop_eq simp del: findattr_loop.simps(2) split: if_splits)
qed simp

lemma findattr_loop_Some: "findattr_loop as k n = Some j \<Longrightarrow> n \<le> j \<and> j - n < length as"
  by (induction as arbitrary: n) (force simp: findattr_loop_eq simp del: findattr_loop.simps(2) split: if_splits)+

lemma del_att_find_absent: "(\<forall>a \<in> set as. nchars (att_name a) = length k \<longrightarrow> take (length k) (cp (att_name a)) \<noteq> k) \<Longrightarrow> del_att_find as k n = None"
  by (induction as arbitrary: n) auto


text \<open>
  Outside define mode an attribute may be renamed to a shorter name, which keeps the stored length. After that
  \<open>NC3_inq_attid\<close> finds the attribute by its new name, but \<open>NC3_del_att\<close> does not: it compares the name's length with the stored
  one.
\<close>

theorem NC3_rename_att_then_del:
  fixes ncp :: nc3_info and fs :: "'s nc3_files"
  assumes f: "open_file fs ncid mode ncp s" and ncap: "NC_attrarray0 ncp varid = Some ncap" "\<forall>a \<in> set (atts_value ncap). str_wf (att_name a)"
    and old: "NC_findattr E ncap name = Some i" and nm': "normal_name E new k" "NC_findattr E ncap new = None"
      "length k < nchars (att_name (atts_value ncap ! i))"
    and c: "\<not> NC_readonly ncp" "\<not> NC_indef ncp" "\<not> NC_doHsync ncp" "NC_check_name (env_validate E) new = NC_NOERR"
  shows "\<exists>ncp'. NC3_rename_att E io fs ncid varid name new = Done (NC_NOERR, (), update_file fs ncid ncp' s) \<and>
    (\<forall>(fs2 :: 's nc3_files) s2 fl. open_file fs2 ncid mode (ncp'\<lparr>flags := fl\<rparr>) s2 \<longrightarrow> NC_indef (ncp'\<lparr>flags := fl\<rparr>) \<longrightarrow>
      NC3_inq_attid E fs2 ncid varid new = Done (NC_NOERR, Some (int i), fs2) \<and> NC3_del_att E fs2 ncid varid new = Done (NC_ENOTATT, (), fs2))"
proof -
  let ?as = "atts_value ncap"
  have k: "env_normalize E new = Inr k" "k \<noteq> []" "NULB \<notin> set k" using nm'(1) by (simp_all add: normal_name_def)
  have ne: "?as \<noteq> []" "i < length ?as" using old findattr_loop_Some [of ?as _ 0 i]
    by (auto simp: NC_findattr_def split: if_splits sum.splits)
  have absent: "findattr_loop ?as k 0 = None" using nm'(2) k(1) ne by (simp add: NC_findattr_def)
  have "length k \<le> nchars (att_name (?as ! i))" using nm'(3) by simp
  from set_NC_string_Done [OF k(2,3) this] obtain str where str: "set_NC_string (att_name (?as ! i)) k = Done (NC_NOERR, str)"
    "str_wf str" "cstr str = k" "nchars str = nchars (att_name (?as ! i))" by metis
  let ?ap = "set_att ncap i str" and ?n = "set_NC_hdirty (set_attrarray0 ncp varid (set_att ncap i str))"
  have h: "\<not> NC_doHsync (set_attrarray0 ncp varid ?ap)" using c(3) by (simp add: set_attrarray0_def NC_doHsync_def)
  have ren: "NC3_rename_att E io fs ncid varid name new = Done (NC_NOERR, (), update_file fs ncid ?n s)"
    using c ncap(1) old nm'(2,3) k(1) str(1) by (simp add: NC3_rename_att_def with_nc3_open [OF f] Let_def dirty_sync_plain [OF h])
  have arr: "NC_attrarray0 (?n\<lparr>flags := fl\<rparr>) varid = Some ?ap" for fl
    using ncap(1) by (auto simp: NC_attrarray0_def set_attrarray0_def set_NC_hdirty_def split: if_splits)
  let ?bs = "?as[i := (?as ! i)\<lparr>att_name := str\<rparr>]"
  have find: "findattr_loop ?bs k 0 = Some i" using findattr_loop_update [OF absent ne(2), of "(?as ! i)\<lparr>att_name := str\<rparr>"] str(3) by simp
  have "take (length k) (cp (att_name a)) \<noteq> k" if "a \<in> set ?bs" "nchars (att_name a) = length k" for a
  proof -
    have "a \<noteq> (?as ! i)\<lparr>att_name := str\<rparr>" using that(2) str(4) nm'(3) by auto
    with that(1) have a: "a \<in> set ?as" using set_update_subset_insert by fastforce
    then have "cstr (att_name a) \<noteq> k" using absent by (simp add: findattr_loop_absent)
    moreover have "length (cp (att_name a)) = length k" using a ncap(2) that(2) by (simp add: str_wf_def)
    moreover have "cstr (att_name a) = k" if "cp (att_name a) = k" using that k(3) takeWhile_padded [of k 0] by (simp add: cstr_def)
    ultimately show ?thesis by auto
  qed
  then have del: "del_att_find ?bs k 0 = None" by (intro del_att_find_absent) blast
  have av: "atts_value ?ap = ?bs" by (simp add: set_att_def)
  have fa: "NC_findattr E ?ap new = Some i" unfolding NC_findattr_def av k(1) sum.case find using ne by simp
  have "NC3_inq_attid E fs2 ncid varid new = Done (NC_NOERR, Some (int i), fs2) \<and> NC3_del_att E fs2 ncid varid new = Done (NC_ENOTATT, (), fs2)"
    if f2: "open_file fs2 ncid mode (?n\<lparr>flags := fl\<rparr>) s2" and d: "NC_indef (?n\<lparr>flags := fl\<rparr>)" for fs2 :: "'s nc3_files" and s2 fl
  proof -
    note a = arr [of fl] and u = update_file_same [OF f2]
    have "NC3_inq_attid E fs2 ncid varid new = Done (NC_NOERR, Some (int i), fs2)"
      unfolding NC3_inq_attid_def with_nc3_open [OF f2] a option.case fa by (simp add: u)
    moreover have "NC3_del_att E fs2 ncid varid new = Done (NC_ENOTATT, (), fs2)"
      unfolding NC3_del_att_def with_nc3_open [OF f2] a option.case k(1) sum.case av del using d by (simp add: u)
    ultimately show ?thesis ..
  qed
  with ren show ?thesis by blast
qed

subsection \<open>Witnesses\<close>

definition sample_data :: nc3_info where
  "sample_data = sample_file\<lparr>attrs := \<lparr>atts_nalloc = 1, atts_value = [\<lparr>att_xsz = 4, att_name = \<lparr>nchars = 7, cp = ''history''\<rparr>, att_type = NC_CHAR,
       att_nelems = 3, att_xvalue = ''abcd''\<rparr>]\<rparr>\<rparr>"

lemma sample_data_sel: "\<not> NC_readonly sample_data" "\<not> NC_indef sample_data" "\<not> NC_doHsync sample_data"
  by (simp_all add: sample_data_def sample_file_def sample_hdr_def NC_flags_bits)

lemma NC3_rename_att_then_del_witness:
  "\<exists>ncp'. NC3_rename_att sample_env null_io (sample_files sample_data) 65536 NC_GLOBAL ''history'' ''time'' =
      Done (NC_NOERR, (), update_file (sample_files sample_data) 65536 ncp' ()) \<and>
    NC3_del_att sample_env (sample_files (ncp'\<lparr>flags := NC_INDEF\<rparr>)) 65536 NC_GLOBAL ''time'' = Done (NC_ENOTATT, (), sample_files (ncp'\<lparr>flags := NC_INDEF\<rparr>))"
proof -
  have ap: "NC_attrarray0 sample_data NC_GLOBAL = Some (attrs sample_data)" by (simp add: NC_attrarray0_def)
  have e: "env_normalize sample_env = Inr" by (simp add: sample_env_def)
  have vals: "atts_value (attrs sample_data) = [\<lparr>att_xsz = 4, att_name = \<lparr>nchars = 7, cp = ''history''\<rparr>, att_type = NC_CHAR, att_nelems = 3, att_xvalue = ''abcd''\<rparr>]"
    by (simp add: sample_data_def)
  have wf: "\<forall>a \<in> set (atts_value (attrs sample_data)). str_wf (att_name a)" by (simp add: vals str_wf_def)
  have find: "NC_findattr sample_env (attrs sample_data) ''history'' = Some 0" "NC_findattr sample_env (attrs sample_data) ''time'' = None"
    by (simp_all add: NC_findattr_def e vals cstr_def)
  have len: "length ''time'' < nchars (att_name (atts_value (attrs sample_data) ! 0))" by (simp add: vals)
  have ind: "NC_indef (n\<lparr>flags := NC_INDEF\<rparr>)" for n :: nc3_info by (simp add: NC_indef_def fIsSet_def)
  show ?thesis
  proof -
    obtain ncp' where r: "NC3_rename_att sample_env null_io (sample_files sample_data) 65536 NC_GLOBAL ''history'' ''time'' =
        Done (NC_NOERR, (), update_file (sample_files sample_data) 65536 ncp' ())"
      and d: "\<And>(fs2 :: unit nc3_files) s2 fl. open_file fs2 65536 0 (ncp'\<lparr>flags := fl\<rparr>) s2 \<Longrightarrow> NC_indef (ncp'\<lparr>flags := fl\<rparr>) \<Longrightarrow>
        NC3_del_att sample_env fs2 65536 NC_GLOBAL ''time'' = Done (NC_ENOTATT, (), fs2)"
      using NC3_rename_att_then_del [OF sample_files_open ap wf find(1) sample_name(1) find(2) len sample_data_sel sample_name(2), of null_io] by blast
    from r d [OF sample_files_open ind] show ?thesis by blast
  qed
qed


lemma sample_name2: "normal_name sample_env ''lat'' ''lat''" "NC_check_name (env_validate sample_env) ''lat'' = NC_NOERR"
  by (simp_all add: normal_name_def sample_env_def NC_check_name_def byte_at_def first_char_ok_def RANGE_def check_name_loop.simps Let_def isspace_def)

definition sample_dim :: NC_dim where
  "sample_dim = \<lparr>dim_name = \<lparr>nchars = 4, cp = ''time''\<rparr>, dim_size = 7\<rparr>"

lemma sample_dims:
  obtains da where "dims_value da = [sample_dim]" "dim_array_ok sample_env da"
  using incr_NC_dimarray_ok [OF sample_env_ok empty_arrays_ok(1), of sample_dim]
  by (auto simp: sample_dim_def cstr_def sample_new_sel dim_names_def)

lemma NC3_rename_dim_result_witness:
  "\<exists>da ncp'. dim_names (dims_value da) = [''time''] \<and> NC3_rename_dim sample_env null_io (sample_files (sample_new\<lparr>dims := da\<rparr>)) 65536 0 ''lat'' =
      Done (NC_NOERR, (), update_file (sample_files (sample_new\<lparr>dims := da\<rparr>)) 65536 ncp' ()) \<and> dim_names (dims_value (dims ncp')) = [''lat'']"
proof -
  obtain da where da: "dims_value da = [sample_dim]" "dim_array_ok sample_env da" by (rule sample_dims)
  let ?n = "sample_new\<lparr>dims := da\<rparr>"
  have n: "dim_array_ok sample_env (dims ?n)" "\<not> NC_readonly ?n" "NC_indef ?n" "dims_value (dims ?n) = [sample_dim]"
    using da by (simp_all add: sample_new_def sample_hdr_def NC_readonly_def NC_indef_def NC_IsNew_def fIsSet_def)
  have names: "dim_names [sample_dim] = [''time'']" by (simp add: dim_names_def sample_dim_def cstr_def)
  obtain ncp' where "NC3_rename_dim sample_env null_io (sample_files ?n) 65536 0 ''lat'' = Done (NC_NOERR, (), update_file (sample_files ?n) 65536 ncp' ())"
    "dim_names (dims_value (dims ncp')) = [''lat'']"
    using NC3_rename_dim_result [OF sample_files_open sample_env_ok sample_name2(1) n(1,2) sample_name2(2), of 0 null_io] n(3,4) names by auto
  with names da(1) show ?thesis by (intro exI [of _ da] exI [of _ ncp']) simp
qed

lemma NC3_def_var_result_witness:
  "\<exists>da va. NC3_def_var sample_env (sample_files (sample_new\<lparr>dims := da\<rparr>)) 65536 ''lat'' NC_SHORT 1 [0] =
      Done (NC_NOERR, Some 0, update_file (sample_files (sample_new\<lparr>dims := da\<rparr>)) 65536 (sample_new\<lparr>dims := da, vars := va\<rparr>) ()) \<and>
    map var_len (vars_value va) = [16]"
proof -
  obtain da where da: "dims_value da = [sample_dim]" "dim_array_ok sample_env da" by (rule sample_dims)
  let ?n = "sample_new\<lparr>dims := da\<rparr>"
  define sv where "sv str = \<lparr>var_xsz = 2, var_shape = [7], var_dsizes = [7], var_name = str, var_ndims = 1, var_dimids = [0],
      var_attrs = empty_attrarray, var_type = NC_SHORT, var_len = 16, var_begin = 0, var_no_fill = False\<rparr>" for str
  have n: "NC_indef ?n" "vars ?n = empty_vararray" "dims ?n = da" "nc3_cktype 0 NC_SHORT = NC_NOERR"
    by (simp_all add: sample_new_def sample_hdr_def NC_indef_def NC_IsNew_def fIsSet_def nc3_cktype_def)
  have v: "var_array_ok sample_env (vars ?n)" by (simp add: n empty_arrays_ok)
  have shp: "NC_var_shape \<lparr>var_xsz = 0, var_shape = replicate (nat 1) 0, var_dsizes = replicate (nat 1) 0, var_name = str,
      var_ndims = nat 1, var_dimids = take (nat 1) [0], var_attrs = empty_attrarray, var_type = NC_SHORT, var_len = 0, var_begin = 0,
      var_no_fill = False\<rparr> (dims ?n) = Done (NC_NOERR, sv str)" "var_name (sv str) = str" for str
    by (simp_all add: NC_var_shape_def ncx_szof_def n(3) da(1) elem_NC_dimarray_def u64_def Let_def sample_dim_def IS_RECVAR_def dsize_step_def
      c_div_def s64_def var_len_of_def sv_def)
  have len: "length (vars_value (vars ?n)) < 67686" "0 \<le> (1::int)" "nat 1 \<le> length [0::int]" by (simp_all add: n sample_new_sel)
  obtain va str where "NC3_def_var sample_env (sample_files ?n) 65536 ''lat'' NC_SHORT 1 [0] =
      Done (NC_NOERR, Some 0, update_file (sample_files ?n) 65536 (?n\<lparr>vars := va\<rparr>) ())" "vars_value va = [(sv str)\<lparr>var_no_fill := \<not> NC_dofill ?n\<rparr>]"
    using NC3_def_var_result [OF sample_files_open sample_env_ok sample_name2(1) v n(1) sample_name2(2) len shp] by (auto simp: n sample_new_sel var_names_def)
  then show ?thesis by (intro exI [of _ da] exI [of _ va]) (simp add: sv_def)
qed

lemma NC3_rename_var_nomem_witness:
  "\<exists>va fs'. NC3_rename_var (sample_env\<lparr>env_mem := \<lambda>n. n \<noteq> 20\<rparr>) null_io (sample_files (sample_new\<lparr>vars := va\<rparr>)) 65536 0 ''lat'' = Done (NC_ENOMEM, (), fs') \<and>
    NC3_inq_varid (sample_env\<lparr>env_mem := \<lambda>n. n \<noteq> 20\<rparr>) fs' 65536 ''v'' = Done (NC_ENOTVAR, None, fs')"
proof -
  let ?v = "sample_var 0 8 2" and ?E = "sample_env\<lparr>env_mem := \<lambda>n. n \<noteq> 20\<rparr>"
  have nm': "cstr (var_name ?v) = ''v''" by (simp add: sample_var_def cstr_def)
  obtain va where va: "vars_value va = [?v]" "var_array_ok sample_env va"
    using incr_NC_vararray_ok [OF sample_env_ok empty_arrays_ok(2), of ?v] nm' by (auto simp: sample_new_sel var_names_def)
  let ?n = "sample_new\<lparr>vars := va\<rparr>"
  have n: "vars ?n = va" "\<not> NC_readonly ?n" "NC_indef ?n"
    by (simp_all add: sample_new_def sample_hdr_def NC_readonly_def NC_indef_def NC_IsNew_def fIsSet_def)
  have "env_crc ?E = env_crc sample_env" by simp
  then have a: "var_array_ok ?E (vars ?n)" using va(2) unfolding n var_array_ok_def index_ok_def by metis
  have k: "env_normalize ?E ''lat'' = Inr ''lat''" "env_normalize ?E ''v'' = Inr (cstr (var_name (vars_value (vars ?n) ! nat 0)))"
    "''lat'' \<notin> set (var_names (vars_value (vars ?n)))" "NC_check_name (env_validate ?E) ''lat'' = NC_NOERR" "\<not> env_mem ?E (16 + length ''lat'' + 1)"
    using sample_name2(2) nm' by (simp_all add: n va(1) var_names_def) (simp_all add: sample_env_def)
  show ?thesis
    using NC3_rename_var_nomem [OF sample_files_open a k(1,3,2) n(2,3) k(4) _ _ _ k(5), of null_io] by (auto simp: n va(1))
qed

end
