(* ===== verification/NC3_State.thy ===== *)
theory NC3_State
  imports NC3_Define
begin

text \<open>
  The life of a classic file, \<open>libsrc/nc3internal.c\<close>: create and open, define mode and data mode, sync, fill
  mode, abort and close. \<open>ncio_create\<close> and \<open>ncio_open\<close> choose a driver; what it does with the file system is
  the argument \<open>drv\<close>. A call that closes the driver shows the arguments \<open>ncio_close\<close> got in its result.
\<close>

record 's driver =
  drv_create :: "string \<Rightarrow> int \<Rightarrow> int \<Rightarrow> int \<Rightarrow> nat \<Rightarrow> int \<Rightarrow> (int + int \<times> int \<times> string \<times> 's) run"
  drv_open :: "string \<Rightarrow> int \<Rightarrow> int \<Rightarrow> (int + int \<times> int \<times> 's) run"

abbreviation (input) "NC_SHARE \<equiv> (2048::int)"
abbreviation (input) "NC_FILL \<equiv> (0::int)"
abbreviation (input) "NC_EEXIST \<equiv> (-35::int)"
abbreviation (input) "EEXIST \<equiv> (17::int)"
abbreviation (input) "NC_FORMAT_CLASSIC \<equiv> (1::int)"
abbreviation (input) "NC_FORMAT_64BIT_OFFSET \<equiv> (2::int)"
abbreviation (input) "NC_FORMAT_CDF5 \<equiv> (5::int)"

subsection \<open>Creating and opening\<close>

text \<open>
  \<open>p\<close> is the \<open>NC\<close> structure the dispatcher made. The result is the status, the chunk size for the caller and,
  when the driver was opened and closed again, its last state and the unlink flag. A failed allocation of the
  structure is not checked: its \<open>flags\<close> and \<open>chunk\<close> are reached through NULL. \<open>NC3_create\<close> puts the header into the region at offset 0 that
  the driver's create call handed out; the offset \<open>sizeof_off_t\<close> it passes on only names that region to \<open>ncio_rel\<close>, so it is 0 here, where
  a release carries its bytes.
\<close>

definition NC3_create :: "nc_env \<Rightarrow> 's ncio \<Rightarrow> 's driver \<Rightarrow> string \<Rightarrow> int \<Rightarrow> int \<Rightarrow> int \<Rightarrow> int option \<Rightarrow> 's nc3_files \<Rightarrow> nat \<Rightarrow>
    (int \<times> int option \<times> ('s \<times> bool) option \<times> 's nc3_files) run" where
  "NC3_create E io drv path ioflgs initialsz basepe chunkp fs p = run_bind (NC_deref fs p) (\<lambda>nc.
     if basepe \<noteq> 0 then Done (NC_EINVAL, None, None, fs)
     else if \<not> env_mem E 280 then Fault
     else let nc30 = new_NC3INFO chunkp;
              nc31 = nc30\<lparr>xsz := (if fIsSet ioflgs NC_64BIT_DATA then MIN_NC5_XSZ else MIN_NC3_XSZ),
                flags := (if fIsSet ioflgs NC_64BIT_OFFSET then fSet 0 NC_64BIT_OFFSET else if fIsSet ioflgs NC_64BIT_DATA then fSet 0 NC_64BIT_DATA else 0)\<rparr>;
              sizeof_off_t = (if fIsSet ioflgs NC_64BIT_OFFSET \<or> fIsSet ioflgs NC_64BIT_DATA then 8 else 4)
     in assert_run (xsz nc31 = int (ncx_len_NC nc31 sizeof_off_t))
       (run_bind (drv_create drv path ioflgs initialsz 0 (nat (xsz nc31)) (chunk nc31)) (\<lambda>r. case r of
         Inl status \<Rightarrow> Done (if status = EEXIST then NC_EEXIST else status, None, None, NC_store fs p (nc\<lparr>dispatchdata := None\<rparr>))
       | Inr (ioflgs', chunk', buf, s) \<Rightarrow>
           let nc32 = nc31\<lparr>ioflags := ioflgs', chunk := chunk', flags := fSet (flags nc31) NC_CREAT\<rparr>;
               nc33 = (if fIsSet ioflgs' NC_SHARE then nc32\<lparr>flags := fSet (flags nc32) NC_NSYNC\<rparr> else nc32)
           in run_bind (ncx_put_NC io nc33 s (Some buf) 0 (nat (xsz nc33))) (\<lambda>(status, s1).
             if status \<noteq> NC_NOERR then Done (status, None, Some (s1, True), NC_store fs p (nc\<lparr>dispatchdata := None\<rparr>))
             else Done (NC_NOERR, (case chunkp of None \<Rightarrow> None | Some _ \<Rightarrow> Some (chunk nc33)), None,
               NC_store fs p (nc\<lparr>dispatchdata := Some (nc33, s1)\<rparr>))))))"

definition NC3_open :: "nc_env \<Rightarrow> 's ncio \<Rightarrow> 's driver \<Rightarrow> string \<Rightarrow> int \<Rightarrow> int \<Rightarrow> int option \<Rightarrow> 's nc3_files \<Rightarrow> nat \<Rightarrow>
    (int \<times> int option \<times> ('s \<times> bool) option \<times> 's nc3_files) run" where
  "NC3_open E io drv path ioflgs basepe chunkp fs p = run_bind (NC_deref fs p) (\<lambda>nc.
     if basepe \<noteq> 0 then Done (NC_EINVAL, None, None, NC_store fs p (nc\<lparr>dispatchdata := None\<rparr>))
     else if \<not> env_mem E 280 then Fault
     else run_bind (drv_open drv path ioflgs (chunk (new_NC3INFO chunkp))) (\<lambda>r. case r of
       Inl status \<Rightarrow> Done (status, None, None, NC_store fs p (nc\<lparr>dispatchdata := None\<rparr>))
     | Inr (ioflgs', chunk', s) \<Rightarrow>
         let nc31 = (new_NC3INFO chunkp)\<lparr>ioflags := ioflgs', chunk := chunk', flags := (if fIsSet ioflgs' NC_SHARE then fSet 0 NC_NSYNC else 0)\<rparr>
         in run_bind (nc_get_NC E io nc31 s) (\<lambda>(status, nc32, s1).
           if status \<noteq> NC_NOERR then Done (status, None, Some (s1, False), NC_store fs p (nc\<lparr>dispatchdata := None\<rparr>))
           else Done (NC_NOERR, (case chunkp of None \<Rightarrow> None | Some _ \<Rightarrow> Some (chunk nc32)), None,
             NC_store fs p (nc\<lparr>dispatchdata := Some (nc32, s1)\<rparr>)))))"

subsection \<open>Define mode and data mode\<close>

definition NC3_enddef :: "nc_env \<Rightarrow> 's ncio \<Rightarrow> 's nc3_files \<Rightarrow> int \<Rightarrow> int \<Rightarrow> int \<Rightarrow> int \<Rightarrow> int \<Rightarrow> (int \<times> unit \<times> 's nc3_files) run" where
  "NC3_enddef E io fs ncid h_minfree v_align v_minfree r_align = with_nc3 fs ncid () (\<lambda>mode ncp s.
     if \<not> NC_indef ncp then Done (NC_ENOTINDEFINE, (), ncp, s)
     else run_bind (NC_endef E io ncp h_minfree v_align v_minfree r_align s) (\<lambda>(status, ncp1, s1). Done (status, (), ncp1, s1)))"

definition NC3_redef :: "nc_env \<Rightarrow> 's ncio \<Rightarrow> 's nc3_files \<Rightarrow> int \<Rightarrow> (int \<times> unit \<times> 's nc3_files) run" where
  "NC3_redef E io fs ncid = with_nc3 fs ncid () (\<lambda>mode ncp s.
     if NC_readonly ncp then Done (NC_EPERM, (), ncp, s)
     else if NC_indef ncp then Done (NC_EINDEFINE, (), ncp, s)
     else run_bind (if fIsSet (ioflags ncp) NC_SHARE then read_NC E io ncp s else Done (NC_NOERR, ncp, s)) (\<lambda>(status, ncp1, s1).
       if status \<noteq> NC_NOERR then Done (status, (), ncp1, s1)
       else run_bind (dup_NC3INFO E ncp1) (\<lambda>od. case od of None \<Rightarrow> Done (NC_ENOMEM, (), ncp1\<lparr>old := None\<rparr>, s1)
         | Some od \<Rightarrow> Done (NC_NOERR, (), ncp1\<lparr>old := Some od, flags := fSet (flags ncp1) NC_INDEF\<rparr>, s1))))"

definition NC3_sync :: "nc_env \<Rightarrow> 's ncio \<Rightarrow> 's nc3_files \<Rightarrow> int \<Rightarrow> (int \<times> unit \<times> 's nc3_files) run" where
  "NC3_sync E io fs ncid = with_nc3 fs ncid () (\<lambda>mode ncp s.
     if NC_indef ncp then Done (NC_EINDEFINE, (), ncp, s)
     else if NC_readonly ncp then run_bind (read_NC E io ncp s) (\<lambda>(status, ncp1, s1). Done (status, (), ncp1, s1))
     else run_bind (NC_sync io ncp s) (\<lambda>(status, ncp1, s1). if status \<noteq> NC_NOERR then Done (status, (), ncp1, s1)
       else run_bind (io_sync io s1) (\<lambda>(status, s2). Done (status, (), ncp1, s2))))"

definition NC3_set_fill :: "'s ncio \<Rightarrow> 's nc3_files \<Rightarrow> int \<Rightarrow> int \<Rightarrow> (int \<times> int option \<times> 's nc3_files) run" where
  "NC3_set_fill io fs ncid fillmode = with_nc3 fs ncid None (\<lambda>mode ncp s.
     let oldmode = (if fIsSet (flags ncp) NC_NOFILL then NC_NOFILL else NC_FILL);
         finish = (\<lambda>ncp s. Done (NC_NOERR, Some oldmode,
           set_vars ncp (map (var_no_fill_update (\<lambda>_. fillmode = NC_NOFILL)) (vars_value (vars ncp))), s)) in
     if NC_readonly ncp then Done (NC_EPERM, None, ncp, s)
     else if fillmode = NC_NOFILL then finish (ncp\<lparr>flags := fSet (flags ncp) NC_NOFILL\<rparr>) s
     else if fillmode = NC_FILL
     then run_bind (if fIsSet (flags ncp) NC_NOFILL then NC_sync io ncp s else Done (NC_NOERR, ncp, s)) (\<lambda>(status, ncp1, s1).
       if status \<noteq> NC_NOERR then Done (status, None, ncp1, s1)
       else finish (ncp1\<lparr>flags := fClr (flags ncp1) NC_NOFILL\<rparr>) s1)
     else Done (NC_EINVAL, None, ncp, s))"

subsection \<open>Aborting and closing\<close>

text \<open>
  As \<open>with_nc3\<close>, for calls that may end with the file closed: then \<open>dispatchdata\<close> is NULL and the result has the driver's last state
  and the flag \<open>ncio_close\<close> got.
\<close>

definition with_nc3_close :: "'s nc3_files \<Rightarrow> int \<Rightarrow> (nc3_info \<Rightarrow> 's \<Rightarrow> (int \<times> ('s \<times> bool) option \<times> nc3_info \<times> 's) run) \<Rightarrow>
    (int \<times> ('s \<times> bool) option \<times> 's nc3_files) run" where
  "with_nc3_close fs ncid f = run_bind (NC_check_id fs ncid) (\<lambda>(status, pp). case pp of None \<Rightarrow> Done (status, None, fs)
     | Some p \<Rightarrow> run_bind (NC_deref fs p) (\<lambda>nc. case dispatchdata nc of None \<Rightarrow> Fault
     | Some (ncp, s) \<Rightarrow> run_bind (f ncp s) (\<lambda>(status, closed, ncp', s').
         Done (status, closed, NC_store fs p (nc\<lparr>dispatchdata := (if closed = None then Some (ncp', s') else None)\<rparr>)))))"

definition abort_body :: "'s ncio \<Rightarrow> nc3_info \<Rightarrow> 's \<Rightarrow> (int \<times> ('s \<times> bool) option \<times> nc3_info \<times> 's) run" where
  "abort_body io ncp s = (let doUnlink = NC_IsNew ncp in
     if old ncp \<noteq> None
     then assert_run (\<not> NC_IsNew ncp \<and> fIsSet (flags ncp) NC_INDEF)
       (Done (NC_NOERR, Some (s, doUnlink), ncp\<lparr>old := None, flags := fClr (flags ncp) NC_INDEF\<rparr>, s))
     else run_bind (if NC_readonly ncp then Done (NC_NOERR, ncp, s) else NC_sync io ncp s) (\<lambda>(status, ncp1, s1).
       if status \<noteq> NC_NOERR then Done (status, None, ncp1, s1) else Done (NC_NOERR, Some (s1, doUnlink), ncp1, s1)))"

definition NC3_abort :: "'s ncio \<Rightarrow> 's nc3_files \<Rightarrow> int \<Rightarrow> (int \<times> ('s \<times> bool) option \<times> 's nc3_files) run" where
  "NC3_abort io fs ncid = with_nc3_close fs ncid (abort_body io)"

text \<open>\<open>NC3_close\<close> without the extraction of an in-memory file; \<open>close_file\<close> is what follows the sync.\<close>

definition close_file :: "'s ncio \<Rightarrow> nc3_info \<Rightarrow> 's \<Rightarrow> int \<Rightarrow> (int \<times> ('s \<times> bool) option \<times> nc3_info \<times> 's) run" where
  "close_file io ncp s status0 = (if status0 \<noteq> NC_NOERR then Done (status0, Some (s, False), ncp, s)
     else let (status, filesize) = io_filesize io s in
     if status \<noteq> NC_NOERR then Done (status, None, ncp, s)
     else run_bind (NC_calcsize ncp) (\<lambda>calcsize.
       run_bind (if filesize < calcsize \<and> \<not> NC_readonly ncp then io_pad_length io s calcsize else Done (NC_NOERR, s)) (\<lambda>(status, s1).
         if status \<noteq> NC_NOERR then Done (status, None, ncp, s1) else Done (NC_NOERR, Some (s1, False), ncp, s1))))"

definition NC3_close :: "nc_env \<Rightarrow> 's ncio \<Rightarrow> 's nc3_files \<Rightarrow> int \<Rightarrow> (int \<times> ('s \<times> bool) option \<times> 's nc3_files) run" where
  "NC3_close E io fs ncid = with_nc3_close fs ncid (\<lambda>ncp s.
     if NC_indef ncp
     then run_bind (NC_endef E io ncp 0 1 0 1 s) (\<lambda>(status, ncp1, s1). if status \<noteq> NC_NOERR
       then run_bind (abort_body io ncp1 s1) (\<lambda>(_, closed, ncp2, s2). Done (status, closed, ncp2, s2))
       else close_file io ncp1 s1 NC_NOERR)
     else if NC_readonly ncp then close_file io ncp s NC_NOERR
     else run_bind (NC_sync io ncp s) (\<lambda>(status, ncp1, s1). run_bind (io_sync io s1) (\<lambda>(_, s2). close_file io ncp1 s2 status)))"

subsection \<open>Inquiries\<close>

definition NC3_inq :: "'s nc3_files \<Rightarrow> int \<Rightarrow> (int \<times> (nat \<times> nat \<times> nat \<times> int) option \<times> 's nc3_files) run" where
  "NC3_inq fs ncid = with_nc3 fs ncid None (\<lambda>mode ncp s. Done (NC_NOERR, Some (length (dims_value (dims ncp)), length (vars_value (vars ncp)),
     length (atts_value (attrs ncp)), find_NC_Udim (dims ncp)), ncp, s))"

definition NC3_inq_unlimdim :: "'s nc3_files \<Rightarrow> int \<Rightarrow> (int \<times> int option \<times> 's nc3_files) run" where
  "NC3_inq_unlimdim fs ncid = with_nc3 fs ncid None (\<lambda>mode ncp s. Done (NC_NOERR, Some (find_NC_Udim (dims ncp)), ncp, s))"

definition NC3_inq_format :: "'s nc3_files \<Rightarrow> int \<Rightarrow> (int \<times> int option \<times> 's nc3_files) run" where
  "NC3_inq_format fs ncid = with_nc3 fs ncid None (\<lambda>mode ncp s. Done (NC_NOERR,
     Some (if fIsSet (flags ncp) NC_64BIT_DATA then NC_FORMAT_CDF5 else if fIsSet (flags ncp) NC_64BIT_OFFSET then NC_FORMAT_64BIT_OFFSET
       else NC_FORMAT_CLASSIC), ncp, s))"

definition NC3_inq_format_extended :: "'s nc3_files \<Rightarrow> int \<Rightarrow> (int \<times> (int \<times> int) option \<times> 's nc3_files) run" where
  "NC3_inq_format_extended fs ncid = run_bind (NC_check_id fs ncid) (\<lambda>(status, pp). case pp of None \<Rightarrow> Done (status, None, fs)
     | Some p \<Rightarrow> run_bind (NC_deref fs p) (\<lambda>nc. Done (NC_NOERR, Some (NC_FORMATX_NC3, nc_mode nc), fs)))"

subsection \<open>Define mode as a state machine\<close>

text \<open>
  In define mode after a redef, and only then, there is an old header; a new file is in define mode without one; and a
  file that cannot be written is never in define mode.
\<close>

definition mode_ok :: "nc3_info \<Rightarrow> bool" where
  "mode_ok ncp \<longleftrightarrow> (old ncp \<noteq> None \<longleftrightarrow> bit (flags ncp) 3) \<and> \<not> (bit (flags ncp) 1 \<and> bit (flags ncp) 3) \<and> (NC_readonly ncp \<longrightarrow> \<not> NC_indef ncp)"

definition same_mode :: "nc3_info \<Rightarrow> nc3_info \<Rightarrow> bool" where
  "same_mode ncp ncp' \<longleftrightarrow> old ncp' = old ncp \<and> bit (flags ncp') 1 = bit (flags ncp) 1 \<and> bit (flags ncp') 3 = bit (flags ncp) 3 \<and> ioflags ncp' = ioflags ncp"

lemma same_mode_ok: "same_mode ncp ncp' \<Longrightarrow> mode_ok ncp \<Longrightarrow> mode_ok ncp'"
  by (auto simp: same_mode_def mode_ok_def NC_flags_bits)

lemma same_mode_refl [simp]: "same_mode n n"
  by (simp add: same_mode_def)

lemma same_mode_trans: "same_mode a b \<Longrightarrow> same_mode b c \<Longrightarrow> same_mode a c"
  by (simp add: same_mode_def)

lemma bit_192: "bit (192::int) n \<longleftrightarrow> n = 6 \<or> n = 7"
proof -
  have e: "(192::int) = or (2 ^ 6) (2 ^ 7)" by simp
  show ?thesis unfolding e by (simp only: bit_or_iff bit_exp_iff) auto
qed

lemma bit_10: "bit (10::int) n \<longleftrightarrow> n = 1 \<or> n = 3"
proof -
  have e: "(10::int) = or (2 ^ 1) (2 ^ 3)" by simp
  show ?thesis unfolding e by (simp only: bit_or_iff bit_exp_iff) auto
qed

lemma bit_power: "bit (1::int) n \<longleftrightarrow> n = 0" "bit (2::int) n \<longleftrightarrow> n = 1" "bit (8::int) n \<longleftrightarrow> n = 3" "bit (16::int) n \<longleftrightarrow> n = 4" "bit (32::int) n \<longleftrightarrow> n = 5"
    "bit (64::int) n \<longleftrightarrow> n = 6" "bit (128::int) n \<longleftrightarrow> n = 7" "bit (256::int) n \<longleftrightarrow> n = 8" "bit (512::int) n \<longleftrightarrow> n = 9"
  using bit_exp_iff [where 'a = int, of 0 n] bit_exp_iff [where 'a = int, of 1 n] bit_exp_iff [where 'a = int, of 3 n] bit_exp_iff [where 'a = int, of 4 n]
    bit_exp_iff [where 'a = int, of 5 n] bit_exp_iff [where 'a = int, of 6 n] bit_exp_iff [where 'a = int, of 7 n] bit_exp_iff [where 'a = int, of 8 n]
    bit_exp_iff [where 'a = int, of 9 n] by auto

lemmas flag_bits = fSet_bit fClr_bit bit_192 bit_10 bit_power

lemma same_mode_simps [simp]:
  "same_mode n (n\<lparr>dims := a\<rparr>)" "same_mode n (n\<lparr>attrs := b\<rparr>)" "same_mode n (n\<lparr>vars := c\<rparr>)" "same_mode n (n\<lparr>numrecs := r\<rparr>)"
  "same_mode n (n\<lparr>flags := fClr (flags n) NC_DIRTY_BITS\<rparr>)" "same_mode n (set_NC_hdirty n)" "same_mode n (set_vars n vs)" "same_mode n (set_attrarray0 n v ap)"
  "same_mode n (set_dim n i str h)" "same_mode n (set_var n i f h)" "same_mode n (n\<lparr>flags := fClr (flags n) NC_NDIRTY\<rparr>)"
  "same_mode n (n\<lparr>flags := fClr (flags n) NC_NOFILL\<rparr>)" "same_mode n (n\<lparr>flags := fSet (flags n) NC_NOFILL\<rparr>)"
  by (simp_all add: same_mode_def flag_bits set_NC_hdirty_def set_vars_def set_attrarray0_def set_dim_def set_var_def)

text \<open>A property of the result, if the call returns.\<close>

definition when_done :: "('a \<Rightarrow> bool) \<Rightarrow> 'a run \<Rightarrow> bool" where
  "when_done P m \<longleftrightarrow> (\<forall>a. m = Done a \<longrightarrow> P a)"

lemma when_done_simps [simp]: "when_done P (Done a) = P a" "when_done P Fault" "when_done P Loop"
  by (simp_all add: when_done_def)

lemma when_done_bind: "when_done Q m \<Longrightarrow> (\<And>a. Q a \<Longrightarrow> when_done P (f a)) \<Longrightarrow> when_done P (run_bind m f)"
  by (cases m) (auto simp: when_done_def)

lemma when_done_bind_any: "(\<And>a. when_done P (f a)) \<Longrightarrow> when_done P (run_bind m f)"
  by (cases m) (auto simp: when_done_def)

lemma when_done_assert: "(b \<Longrightarrow> when_done P m) \<Longrightarrow> when_done P (assert_run b m)"
  by (cases b) simp_all

lemma when_done_if: "(b \<Longrightarrow> when_done P m) \<Longrightarrow> (\<not> b \<Longrightarrow> when_done P m') \<Longrightarrow> when_done P (if b then m else m')"
  by simp

lemma when_done_mono: "when_done P m \<Longrightarrow> (\<And>a. P a \<Longrightarrow> Q a) \<Longrightarrow> when_done Q m"
  by (auto simp: when_done_def)

lemma when_done_option: "(x = None \<Longrightarrow> when_done P m) \<Longrightarrow> (\<And>y. x = Some y \<Longrightarrow> when_done P (f y)) \<Longrightarrow> when_done P (case x of None \<Rightarrow> m | Some y \<Rightarrow> f y)"
  by (cases x) auto

lemma when_done_sum: "(\<And>y. when_done P (f y)) \<Longrightarrow> (\<And>y. when_done P (g y)) \<Longrightarrow> when_done P (case x of Inl y \<Rightarrow> f y | Inr y \<Rightarrow> g y)"
  by (cases x) auto

lemma when_done_prod: "(\<And>y z. x = (y, z) \<Longrightarrow> when_done P (f y z)) \<Longrightarrow> when_done P (case x of (y, z) \<Rightarrow> f y z)"
  by (cases x) auto

lemmas when_done_intros = when_done_if when_done_assert when_done_option when_done_sum when_done_prod when_done_bind_any

abbreviation "same1 ncp \<equiv> \<lambda>(st::int, ncp'). same_mode ncp ncp'"
abbreviation "same2 ncp \<equiv> \<lambda>(st::int, ncp', s'). same_mode ncp ncp'"
abbreviation "same3 ncp \<equiv> \<lambda>(st::int, r, ncp', s'). same_mode ncp ncp'"

lemma write_NC_mode: "when_done (same2 ncp) (write_NC io ncp s)"
  unfolding write_NC_def by (rule when_done_assert, rule when_done_bind_any) (simp split: prod.split)

lemma write_numrecs_mode: "when_done (same2 ncp) (write_numrecs io ncp s)"
  unfolding write_numrecs_def
  by (rule when_done_assert, rule when_done_bind_any)
    (auto split: prod.split intro!: when_done_if when_done_assert when_done_bind_any)

lemma NC_sync_mode: "when_done (same2 ncp) (NC_sync io ncp s)"
  unfolding NC_sync_def by (intro when_done_assert when_done_if write_NC_mode write_numrecs_mode) simp

lemma dirty_sync_mode: "when_done (same3 ncp) (dirty_sync io ncp s)"
  unfolding dirty_sync_def Let_def
  by (intro when_done_if when_done_bind [OF NC_sync_mode]) (auto intro: same_mode_trans [OF same_mode_simps(6)])

lemma computeshapes_mode: "when_done (same1 ncp) (NC_computeshapes ncp)"
  unfolding NC_computeshapes_def Let_def
  apply (rule when_done_if)
   apply (simp add: same_mode_def)
  apply (rule when_done_bind_any, clarsimp split del: if_split)
  apply (rule when_done_if)
   apply (simp add: same_mode_def)
  apply (rule when_done_bind [where Q = "same1 ncp"])
   apply (auto simp: same_mode_def split: option.split intro!: when_done_if when_done_bind_any)
  done

lemma finish_get_mode: "when_done (same1 ncp) (finish_get ver ncp)"
  unfolding finish_get_def Let_def
  apply (rule when_done_bind [OF computeshapes_mode], clarsimp split del: if_split)
  apply (rule when_done_if)
   apply (simp add: same_mode_def)
  apply (rule when_done_bind_any)
  apply (rule when_done_if)
   apply (simp_all add: same_mode_def)
  done

lemma version_flag_bits: "n \<noteq> 5 \<Longrightarrow> n \<noteq> 9 \<Longrightarrow> bit (version_flag v f) n = bit f n"
  by (simp add: version_flag_def flag_bits)

lemma nc_get_NC_mode: "when_done (same2 ncp) (nc_get_NC E io ncp s)"
proof -
  have f: "when_done (same2 ncp) (run_bind (finish_get ver (ncp\<lparr>flags := version_flag ver (flags ncp), numrecs := nrecs, dims := da, attrs := aa, vars := va\<rparr>))
      (\<lambda>(status, ncp1). run_bind (rel_v1hs io gs2) (\<lambda>(_, gs3). Done (status, ncp1, gs_io gs3))))" for ver nrecs da aa va gs2
    apply (rule when_done_bind [OF finish_get_mode], clarsimp)
    apply (rule when_done_bind_any, clarsimp simp: same_mode_def version_flag_bits)
    done
  show ?thesis
    unfolding nc_get_NC_def Let_def
    apply (clarsimp split: prod.split split del: if_split)
    apply (intro when_done_if)
      apply simp_all
    apply (intro conjI impI; rule when_done_bind_any, clarsimp split del: if_split)
     apply (rule when_done_if, simp, rule when_done_bind_any, clarsimp split: sum.split split del: if_split, rule when_done_bind_any,
         clarsimp split: sum.split split del: if_split, intro conjI allI impI f when_done_bind_any, clarsimp)+
    done
qed

lemma read_NC_mode: "when_done (same2 ncp) (read_NC E io ncp s)"
  unfolding read_NC_def
  apply (rule when_done_bind [OF nc_get_NC_mode], clarsimp)
  apply (auto simp: same_mode_def flag_bits)
  done

lemma NC_begins_mode: "when_done (same1 ncp) (NC_begins ncp h va v ra)"
proof -
  have m: "same_mode ncp (n\<lparr>begin_var := b, begin_rec := br, recsize := r, numrecs := k\<rparr>)" "same_mode ncp (n\<lparr>begin_rec := br, recsize := r\<rparr>)"
    if "same_mode ncp n" for n b br r k using that by (simp_all add: same_mode_def)
  have v: "same_mode ncp (set_vars (ncp\<lparr>xsz := x\<rparr>) vs)" "same_mode ncp (ncp\<lparr>xsz := x\<rparr>)" for x vs
    by (simp_all add: same_mode_def set_vars_def)
  show ?thesis
    unfolding NC_begins_def Let_def
    by (auto split: prod.split intro!: when_done_if when_done_bind_any m v)
qed

lemma move_recs_mode: "when_done (same2 ncp) (move_recs_r io ncp od s)"
  unfolding move_recs_r_def by (rule when_done_bind_any, rule when_done_bind_any) (simp split: prod.split)

lemma endef_moves_mode: "when_done (same2 ncp) (endef_moves io ncp od s)"
  unfolding endef_moves_def
  apply (intro when_done_if)
    apply simp
   apply (rule when_done_bind [OF move_recs_mode], clarsimp split del: if_split)
   apply (intro when_done_if; (rule when_done_bind_any)?; clarsimp)
  apply (rule when_done_bind_any, clarsimp split del: if_split)
  apply (intro when_done_if)
    apply simp
   apply (rule move_recs_mode)
  apply simp
  done

text \<open>Leaving define mode either fails and leaves the mode, or ends it.\<close>

abbreviation "data_mode ncp \<equiv> old ncp = None \<and> \<not> bit (flags ncp) 1 \<and> \<not> bit (flags ncp) 3"

lemma NC_endef_mode: "when_done (\<lambda>(st, ncp', s'). (same_mode ncp ncp' \<and> st \<noteq> NC_NOERR) \<or> (data_mode ncp' \<and> ioflags ncp' = ioflags ncp)) (NC_endef E io ncp h va v ra s)"
  unfolding NC_endef_def
  apply (rule when_done_assert)
  apply (rule when_done_bind_any)
  apply (rule when_done_if)
   apply simp
  apply (rule when_done_bind [OF NC_begins_mode], clarsimp split del: if_split)
  apply (rule when_done_if)
   apply simp
  apply (rule when_done_if)
   apply simp
  apply (rule when_done_bind [where Q = "same2 ncp"])
   apply (auto split: option.split intro!: when_done_assert when_done_mono [OF endef_moves_mode] intro: same_mode_trans)[1]
  apply (clarsimp split del: if_split)
  apply (rule when_done_if)
   apply simp
  apply (rule when_done_bind [OF write_NC_mode], clarsimp split del: if_split)
  apply (rule when_done_if)
   apply (simp, blast intro: same_mode_trans)
  apply (rule when_done_bind_any, clarsimp split del: if_split)
  apply (rule when_done_if)
   apply (simp, blast intro: same_mode_trans)
  apply (rule when_done_bind_any, clarsimp)
  apply (simp add: flag_bits same_mode_def)
  done

subsection \<open>Every call keeps the mode right\<close>

text \<open>No \<open>NC\<close> structure holds a header in a wrong mode.\<close>

definition files_mode_ok :: "'s nc3_files \<Rightarrow> bool" where
  "files_mode_ok fs \<longleftrightarrow> (\<forall>p nc ncp s. p < length (objs fs) \<longrightarrow> objs fs ! p = Some nc \<longrightarrow> dispatchdata nc = Some (ncp, s) \<longrightarrow> mode_ok ncp)"

lemma files_mode_store:
  "files_mode_ok fs \<Longrightarrow> (\<And>ncp s. dispatchdata nc = Some (ncp, s) \<Longrightarrow> mode_ok ncp) \<Longrightarrow> files_mode_ok (NC_store fs p nc)"
  unfolding files_mode_ok_def NC_store_def
  apply (intro allI impI)
  subgoal for q nc' ncp s by (cases "q = p") auto
  done

abbreviation "nc_mode_ok nc \<equiv> \<forall>ncp s. dispatchdata nc = Some (ncp, s) \<longrightarrow> mode_ok ncp"
abbreviation "result_mode_ok \<equiv> \<lambda>(st::int, r, fs'). files_mode_ok fs'"

lemma NC_deref_mode: "files_mode_ok fs \<Longrightarrow> when_done nc_mode_ok (NC_deref fs p)"
  by (auto simp: files_mode_ok_def NC_deref_def when_done_def run_bind_Done peek_def split: if_splits option.splits)

lemma with_nc3_mode:
  assumes fs: "files_mode_ok fs" and f: "\<And>mode ncp s. mode_ok ncp \<Longrightarrow> when_done (\<lambda>(st, r, ncp', s'). mode_ok ncp') (f mode ncp s)"
  shows "when_done result_mode_ok (with_nc3 fs ncid r0 f)"
proof -
  have step: "when_done result_mode_ok (run_bind (f (nc_mode nc) ncp s) (\<lambda>(status, r, ncp', s').
      Done (status, r, NC_store fs p (nc\<lparr>dispatchdata := Some (ncp', s')\<rparr>))))" if "mode_ok ncp" for p nc ncp s
    by (rule when_done_bind [OF f [OF that]]) (auto intro!: files_mode_store [OF fs])
  show ?thesis
    unfolding with_nc3_def
    apply (rule when_done_bind_any, clarsimp split: option.split, intro conjI allI impI)
     apply (rule fs)
    apply (rule when_done_bind [OF NC_deref_mode [OF fs]], clarsimp split: option.split)
    apply (rule step, blast)
    done
qed

lemma with_nc3_close_mode:
  assumes fs: "files_mode_ok fs" and f: "\<And>ncp s. mode_ok ncp \<Longrightarrow> when_done (\<lambda>(st, c, ncp', s'). c = None \<longrightarrow> mode_ok ncp') (f ncp s)"
  shows "when_done result_mode_ok (with_nc3_close fs ncid f)"
proof -
  have step: "when_done result_mode_ok (run_bind (f ncp s) (\<lambda>(status, c, ncp', s').
      Done (status, c, NC_store fs p (nc\<lparr>dispatchdata := (if c = None then Some (ncp', s') else None)\<rparr>))))" if "mode_ok ncp" for p nc ncp s
    by (rule when_done_bind [OF f [OF that]]) (auto intro!: files_mode_store [OF fs] split: if_splits)
  show ?thesis
    unfolding with_nc3_close_def
    apply (rule when_done_bind_any, clarsimp split: option.split, intro conjI allI impI)
     apply (rule fs)
    apply (rule when_done_bind [OF NC_deref_mode [OF fs]], clarsimp split: option.split)
    apply (rule step, blast)
    done
qed

text \<open>A call whose body keeps the mode, and the body of each call.\<close>

lemma with_nc3_same:
  "files_mode_ok fs \<Longrightarrow> (\<And>mode ncp s. when_done (same3 ncp) (f mode ncp s)) \<Longrightarrow> when_done result_mode_ok (with_nc3 fs ncid r0 f)"
  apply (rule with_nc3_mode, assumption)
  apply (rule when_done_mono, assumption)
  apply (auto intro: same_mode_ok)
  done

lemma inquiries_mode:
  assumes "files_mode_ok fs"
  shows "when_done result_mode_ok (NC3_inq_dimid E fs ncid name)" "when_done result_mode_ok (NC3_inq_dim fs ncid i)"
    "when_done result_mode_ok (NC3_inq_varid E fs ncid name)" "when_done result_mode_ok (NC3_inq_var fs ncid i)"
    "when_done result_mode_ok (NC3_inq_attname fs ncid i j)" "when_done result_mode_ok (NC3_inq_attid E fs ncid i name)"
    "when_done result_mode_ok (NC3_inq_att E fs ncid i oname)" "when_done result_mode_ok (NC3_inq fs ncid)"
    "when_done result_mode_ok (NC3_inq_unlimdim fs ncid)" "when_done result_mode_ok (NC3_inq_format fs ncid)"
    "when_done result_mode_ok (NC3_inq_format_extended fs ncid)"
proof -
  show "when_done result_mode_ok (NC3_inq_format_extended fs ncid)"
    unfolding NC3_inq_format_extended_def
    by (rule when_done_bind_any, clarsimp, rule when_done_option, simp add: assms, rule when_done_bind_any, simp add: assms)
qed (unfold NC3_inq_dimid_def NC3_inq_dim_def NC3_inq_varid_def NC3_inq_var_def NC3_inq_attname_def NC3_inq_attid_def NC3_inq_att_def
    NC3_inq_def NC3_inq_unlimdim_def NC3_inq_format_def, (rule with_nc3_same [OF assms]; (intro when_done_intros)?; simp)+)

lemma dirty_steps:
  "when_done (same3 ncp) (dirty_sync io (set_dim ncp i str h) s)" "when_done (same3 ncp) (dirty_sync io (set_var ncp i f h) s)"
  "when_done (same3 ncp) (dirty_sync io (set_attrarray0 ncp v ap) s)"
  by (rule when_done_mono [OF dirty_sync_mode]; auto intro: same_mode_trans [OF same_mode_simps(9)] same_mode_trans [OF same_mode_simps(10)]
    same_mode_trans [OF same_mode_simps(8)])+

lemma definitions_mode:
  assumes "files_mode_ok fs"
  shows "when_done result_mode_ok (NC3_def_dim E fs ncid name sz)" "when_done result_mode_ok (NC3_rename_dim E io fs ncid i name)"
    "when_done result_mode_ok (NC3_def_var E fs ncid name ty nd ids)" "when_done result_mode_ok (NC3_rename_var E io fs ncid i name)"
    "when_done result_mode_ok (NC3_def_var_fill fs ncid i nofill)" "when_done result_mode_ok (NC3_rename_att E io fs ncid i name new)"
    "when_done result_mode_ok (NC3_del_att E fs ncid i name)"
  unfolding NC3_def_dim_def NC3_rename_dim_def NC3_def_var_def NC3_rename_var_def NC3_def_var_fill_def NC3_rename_att_def NC3_del_att_def Let_def
  by (rule with_nc3_same [OF assms]; intro when_done_intros dirty_steps; simp)+

lemma enddef_mode: "mode_ok ncp \<Longrightarrow> when_done (\<lambda>(st, ncp', s'). mode_ok ncp') (NC_endef E io ncp h va v ra s)"
  apply (rule when_done_mono [OF NC_endef_mode], clarsimp)
  apply (erule disjE)
   apply (auto intro: same_mode_ok)[1]
  apply (auto simp: mode_ok_def NC_flags_bits)
  done

lemma sync_same: "when_done (same2 ncp) (if b then NC_sync io ncp s else Done (NC_NOERR, ncp, s))"
  by (simp add: NC_sync_mode)

lemma NC3_redef_mode:
  assumes "files_mode_ok fs"
  shows "when_done result_mode_ok (NC3_redef E io fs ncid)"
  unfolding NC3_redef_def
proof (rule with_nc3_mode [OF assms], intro when_done_if)
  fix mode ncp s
  assume ok: "mode_ok ncp" and w: "\<not> NC_readonly ncp" "\<not> NC_indef ncp"
  have "when_done (same2 ncp) (if fIsSet (ioflags ncp) NC_SHARE then read_NC E io ncp s else Done (NC_NOERR, ncp, s))"
    by (simp add: read_NC_mode)
  then show "when_done (\<lambda>(st, r, ncp', s'). mode_ok ncp') (run_bind (if fIsSet (ioflags ncp) NC_SHARE then read_NC E io ncp s else Done (NC_NOERR, ncp, s))
    (\<lambda>(status, ncp1, s1). if status \<noteq> NC_NOERR then Done (status, (), ncp1, s1)
     else run_bind (dup_NC3INFO E ncp1) (\<lambda>od. case od of None \<Rightarrow> Done (NC_ENOMEM, (), ncp1\<lparr>old := None\<rparr>, s1)
         | Some od \<Rightarrow> Done (NC_NOERR, (), ncp1\<lparr>old := Some od, flags := fSet (flags ncp1) NC_INDEF\<rparr>, s1))))"
    apply (rule when_done_bind, clarsimp split del: if_split)
    apply (rule when_done_if)
     apply (simp, erule same_mode_ok, rule ok)
    apply (rule when_done_bind_any, rule when_done_option)
    using ok w by (auto simp: mode_ok_def same_mode_def NC_flags_bits flag_bits)
qed auto

lemma states_mode:
  assumes "files_mode_ok fs"
  shows "when_done result_mode_ok (NC3_enddef E io fs ncid h va v ra)" "when_done result_mode_ok (NC3_sync E io fs ncid)"
    "when_done result_mode_ok (NC3_set_fill io fs ncid m)"
proof -
  show "when_done result_mode_ok (NC3_enddef E io fs ncid h va v ra)"
    unfolding NC3_enddef_def
    by (rule with_nc3_mode [OF assms], rule when_done_if, simp, rule when_done_bind, erule enddef_mode, clarsimp)
  show "when_done result_mode_ok (NC3_sync E io fs ncid)"
    unfolding NC3_sync_def
    apply (rule with_nc3_same [OF assms], intro when_done_if)
      apply simp
     apply (rule when_done_bind [OF read_NC_mode], clarsimp)
    apply (rule when_done_bind [OF NC_sync_mode], clarsimp split del: if_split)
    apply (intro when_done_if when_done_bind_any; clarsimp)
    done
  have t: "same_mode ncp (set_vars n vs)" if "same_mode ncp n" for ncp n :: nc3_info and vs
    using that by (auto simp: same_mode_def set_vars_def)
  have t': "same_mode ncp (n\<lparr>flags := fClr (flags n) NC_NOFILL\<rparr>)" if "same_mode ncp n" for ncp n
    using same_mode_trans [OF that same_mode_simps(12)] .
  show "when_done result_mode_ok (NC3_set_fill io fs ncid m)"
    unfolding NC3_set_fill_def Let_def
    apply (rule with_nc3_same [OF assms], intro when_done_if)
       apply simp
      apply (simp only: when_done_simps prod.case, rule t, rule same_mode_simps)
     apply (rule when_done_bind [OF sync_same], clarsimp split del: if_split)
     apply (intro when_done_if)
      apply simp
     apply (simp only: when_done_simps prod.case, intro t t', assumption)
    apply simp
    done
qed

lemma abort_body_mode: "mode_ok ncp \<Longrightarrow> when_done (\<lambda>(st, c, ncp', s'). c = None \<longrightarrow> mode_ok ncp') (abort_body io ncp s)"
  unfolding abort_body_def Let_def
  apply (intro when_done_if when_done_assert)
   apply simp
  apply (rule when_done_bind [where Q = "same2 ncp"])
   apply (simp add: NC_sync_mode)
  apply (clarsimp split del: if_split)
  apply (intro when_done_if)
   apply (auto intro: same_mode_ok)
  done

lemma close_file_mode: "mode_ok ncp \<Longrightarrow> when_done (\<lambda>(st, c, ncp', s'). c = None \<longrightarrow> mode_ok ncp') (close_file io ncp s st)"
  unfolding close_file_def Let_def
  by (intro when_done_intros; simp)

lemma closings_mode:
  assumes "files_mode_ok fs"
  shows "when_done result_mode_ok (NC3_abort io fs ncid)" "when_done result_mode_ok (NC3_close E io fs ncid)"
proof -
  show "when_done result_mode_ok (NC3_abort io fs ncid)"
    unfolding NC3_abort_def by (rule with_nc3_close_mode [OF assms abort_body_mode])
  show "when_done result_mode_ok (NC3_close E io fs ncid)"
    unfolding NC3_close_def
    apply (rule with_nc3_close_mode [OF assms], intro when_done_if)
      apply (rule when_done_bind, erule enddef_mode, clarsimp split del: if_split)
      apply (rule when_done_if)
       apply (rule when_done_bind, erule abort_body_mode, clarsimp)
      apply (erule close_file_mode)
     apply (erule close_file_mode)
    apply (rule when_done_bind [OF NC_sync_mode], clarsimp)
    apply (rule when_done_bind_any, clarsimp)
    apply (rule close_file_mode, erule same_mode_ok, assumption)
    done
qed

text \<open>A driver's error is not 0, and the files it creates can be written: \<open>ncio_create\<close> sets \<open>NC_WRITE\<close>.\<close>

definition driver_ok :: "'s driver \<Rightarrow> bool" where
  "driver_ok drv \<longleftrightarrow> (\<forall>path flg isz off len chk. (\<forall>st. drv_create drv path flg isz off len chk = Done (Inl st) \<longrightarrow> st \<noteq> NC_NOERR) \<and>
     (\<forall>fl c b s. drv_create drv path flg isz off len chk = Done (Inr (fl, c, b, s)) \<longrightarrow> fIsSet fl NC_WRITE))"

lemma driver_okD:
  assumes "driver_ok drv"
  shows "when_done (\<lambda>r. (\<forall>st. r = Inl st \<longrightarrow> st \<noteq> NC_NOERR) \<and> (\<forall>fl c b s. r = Inr (fl, c, b, s) \<longrightarrow> fIsSet fl NC_WRITE))
    (drv_create drv path flg isz off len chk)"
proof (cases "drv_create drv path flg isz off len chk")
  case (Done r)
  with assms show ?thesis unfolding driver_ok_def when_done_def by metis
qed simp_all

abbreviation "result4_mode_ok \<equiv> \<lambda>(st::int, r, c, fs'). files_mode_ok fs'"

lemma NC3_create_mode:
  assumes fs: "files_mode_ok fs" and w: "driver_ok drv"
  shows "when_done result4_mode_ok (NC3_create E io drv path flg isz pe ch fs p)"
proof -
  show ?thesis
    unfolding NC3_create_def Let_def
    apply (rule when_done_bind_any, intro when_done_if)
      apply (simp add: fs)
     apply simp
    apply (rule when_done_assert, rule when_done_bind [OF driver_okD [OF w]])
    apply (clarsimp split: sum.split split del: if_split, intro conjI allI impI)
     apply (rule files_mode_store [OF fs], simp)
    apply (rule when_done_bind_any, clarsimp)
    apply (intro conjI impI; rule files_mode_store [OF fs]; clarsimp simp: mode_ok_def new_NC3INFO_def NC_flags_bits flag_bits fIsSet_single(1))
    done
qed

lemma NC3_open_mode:
  assumes fs: "files_mode_ok fs"
  shows "when_done result4_mode_ok (NC3_open E io drv path flg pe ch fs p)"
proof -
  have new: "mode_ok ((new_NC3INFO ch)\<lparr>ioflags := fl, chunk := c, flags := (if b then fSet 0 NC_NSYNC else 0)\<rparr>)" for fl c b
    by (simp add: mode_ok_def new_NC3INFO_def NC_flags_bits flag_bits)
  show ?thesis
    unfolding NC3_open_def Let_def
    apply (rule when_done_bind_any, intro when_done_if)
      apply (simp, rule files_mode_store [OF fs], simp)
     apply simp
    apply (rule when_done_bind_any)
    apply (clarsimp split: sum.split split del: if_split, intro conjI allI impI)
     apply (rule files_mode_store [OF fs], simp)
    apply (rule when_done_bind [OF nc_get_NC_mode], clarsimp split del: if_split)
    apply (rule when_done_if)
     apply (simp, rule files_mode_store [OF fs], simp)
    apply (simp, rule files_mode_store [OF fs], clarsimp)
    apply (erule same_mode_ok, rule new)
    done
qed

subsection \<open>The record count in the file\<close>

context ncio_region
begin

text \<open>Writing the count changes its bytes and nothing else; what a reader then gets is the count.\<close>

lemma write_numrecs_bytes:
  assumes ok: "ok s" and len: "4 + numrecs_extent (flags ncp) \<le> length (bytes s)" "8 \<le> limit" and m: "\<not> NC_readonly ncp" "\<not> NC_indef ncp"
    and n: "fIsSet (flags ncp) NC_64BIT_DATA \<or> numrecs ncp \<le> X_UINT_MAX"
  shows "\<exists>s'. write_numrecs io ncp s = Done (NC_NOERR, ncp\<lparr>flags := fClr (flags ncp) NC_NDIRTY\<rparr>, s') \<and> ok s' \<and>
    bytes s' = blit (bytes s) 4 (be (numrecs_extent (flags ncp)) (numrecs ncp))"
proof -
  let ?e = "numrecs_extent (flags ncp)"
  have e: "0 < ?e" "?e \<le> limit" using len(2) by (simp_all add: numrecs_extent_def)
  obtain s1 where g: "io_get io s NC_NUMRECS_OFFSET ?e RGN_WRITE = Done (NC_NOERR, take ?e (drop 4 (bytes s)), s1)" "held s1 NC_NUMRECS_OFFSET ?e RGN_WRITE" "bytes s1 = bytes s"
    using get_law [OF ok, of NC_NUMRECS_OFFSET ?e RGN_WRITE] len e by auto
  obtain s2 where r: "io_rel io s1 NC_NUMRECS_OFFSET (be ?e (numrecs ncp)) RGN_MODIFIED = Done (NC_NOERR, s2)" "ok s2"
      "bytes s2 = blit (bytes s1) 4 (be ?e (numrecs ncp))"
    using rel_law [of s1 NC_NUMRECS_OFFSET "be ?e (numrecs ncp)" RGN_WRITE RGN_MODIFIED] g(2,3) by auto
  show ?thesis unfolding write_numrecs_def using m n g(1,3) r by simp
qed

lemma read_numrecs_bytes:
  assumes ok: "ok s" and len: "4 + numrecs_extent (flags ncp) \<le> length (bytes s)" "8 \<le> limit" and m: "\<not> NC_indef ncp"
    and n: "unbe (take (numrecs_extent (flags ncp)) (drop 4 (bytes s))) = k"
  shows "\<exists>s'. read_numrecs io ncp s = Done (NC_NOERR, if numrecs ncp \<noteq> k then ncp\<lparr>numrecs := k, flags := fClr (flags ncp) NC_NDIRTY\<rparr> else ncp, s') \<and>
    ok s' \<and> bytes s' = bytes s"
proof -
  let ?e = "numrecs_extent (flags ncp)" and ?b = "take (numrecs_extent (flags ncp)) (drop 4 (bytes s))"
  have e: "0 < ?e" "?e \<le> limit" using len(2) by (simp_all add: numrecs_extent_def)
  obtain s1 where g: "io_get io s NC_NUMRECS_OFFSET ?e 0 = Done (NC_NOERR, ?b, s1)" "held s1 NC_NUMRECS_OFFSET ?e 0" "bytes s1 = bytes s"
    using get_law [OF ok, of NC_NUMRECS_OFFSET ?e 0] len e by auto
  have l: "length ?b = ?e" using len by simp
  obtain s2 where r: "io_rel io s1 NC_NUMRECS_OFFSET ?b 0 = Done (NC_NOERR, s2)" "ok s2" "bytes s2 = blit (bytes s1) 4 ?b"
    using rel_law [of s1 NC_NUMRECS_OFFSET ?b 0 0] g(2,3) l by auto
  have "blit (bytes s) 4 ?b = bytes s" unfolding blit_def l
    by (metis add.commute append_take_drop_id drop_drop)
  with r g show ?thesis unfolding read_numrecs_def using m n by simp
qed

end

lemma numrecs_extent_le: "numrecs_extent f \<le> 8" "numrecs_extent f = 4 \<or> fIsSet f NC_64BIT_DATA"
  by (simp_all add: numrecs_extent_def)

lemma fIsSet_fClr_ndirty: "fIsSet (fClr f NC_NDIRTY) NC_64BIT_DATA = fIsSet f NC_64BIT_DATA"
  by (simp add: fIsSet_single flag_bits)

text \<open>
  C30: over a memory file, \<open>write_numrecs\<close> changes the bytes of the record count and no others, and any process that has the
  file open in the same format then reads that count with \<open>read_numrecs\<close>, whatever count it had.
\<close>

theorem write_numrecs_read_numrecs:
  fixes ncp ncp2 :: nc3_info
  assumes ok: "mio_ok mio" and len: "12 \<le> length (mio_bytes mio)" and m: "\<not> NC_readonly ncp" "\<not> NC_indef ncp" "\<not> NC_indef ncp2"
    and n: "0 \<le> numrecs ncp" "numrecs ncp \<le> (if fIsSet (flags ncp) NC_64BIT_DATA then X_UINT64_MAX else X_UINT_MAX)"
    and same: "fIsSet (flags ncp2) NC_64BIT_DATA = fIsSet (flags ncp) NC_64BIT_DATA"
  shows "\<exists>mio1 mio2. write_numrecs (memio_io pagesize malloc) ncp mio = Done (NC_NOERR, ncp\<lparr>flags := fClr (flags ncp) NC_NDIRTY\<rparr>, mio1) \<and>
    take 4 (mio_bytes mio1) = take 4 (mio_bytes mio) \<and>
    drop (4 + numrecs_extent (flags ncp)) (mio_bytes mio1) = drop (4 + numrecs_extent (flags ncp)) (mio_bytes mio) \<and>
    read_numrecs (memio_io pagesize malloc) ncp2 mio1 = Done (NC_NOERR, if numrecs ncp2 \<noteq> numrecs ncp
      then ncp2\<lparr>numrecs := numrecs ncp, flags := fClr (flags ncp2) NC_NDIRTY\<rparr> else ncp2, mio2) \<and> mio_bytes mio2 = mio_bytes mio1"
proof -
  let ?e = "numrecs_extent (flags ncp)" and ?b = "be (numrecs_extent (flags ncp)) (numrecs ncp)"
  have e: "numrecs_extent (flags ncp2) = ?e" using same by (simp add: numrecs_extent_def)
  have l: "4 + ?e \<le> length (mio_bytes mio)" "4 + length ?b \<le> length (mio_bytes mio)" using len numrecs_extent_le(1) [of "flags ncp"] by simp_all
  have x: "fIsSet (flags ncp) NC_64BIT_DATA \<or> numrecs ncp \<le> X_UINT_MAX" using n(2) by (cases "fIsSet (flags ncp) NC_64BIT_DATA") simp_all
  obtain mio1 where w: "write_numrecs (memio_io pagesize malloc) ncp mio = Done (NC_NOERR, ncp\<lparr>flags := fClr (flags ncp) NC_NDIRTY\<rparr>, mio1)"
      "mio_ok mio1" "mio_bytes mio1 = blit (mio_bytes mio) 4 ?b"
    using mio.write_numrecs_bytes [OF ok l(1) order_refl m(1,2) x] by blast
  have len1: "length (mio_bytes mio1) = length (mio_bytes mio)" unfolding w(3) by (rule length_blit [OF l(2)])
  have t: "take ?e (drop 4 (mio_bytes mio1)) = ?b" using l len by (simp add: w(3) blit_def)
  have "unbe ?b = numrecs ncp" unfolding unbe_be using n by (auto simp: numrecs_extent_def split: if_splits)
  then have "unbe (take (numrecs_extent (flags ncp2)) (drop 4 (mio_bytes mio1))) = numrecs ncp" unfolding e t .
  from mio.read_numrecs_bytes [OF w(2) _ order_refl m(3) this] l(1) len1 e obtain mio2 where
    "read_numrecs (memio_io pagesize malloc) ncp2 mio1 = Done (NC_NOERR, if numrecs ncp2 \<noteq> numrecs ncp
      then ncp2\<lparr>numrecs := numrecs ncp, flags := fClr (flags ncp2) NC_NDIRTY\<rparr> else ncp2, mio2)" "mio_bytes mio2 = mio_bytes mio1"
    by (auto simp del: if_split_asm)
  moreover have "take 4 (mio_bytes mio1) = take 4 (mio_bytes mio)" unfolding w(3) by (rule take_blit_before [OF _ l(2)]) simp
  moreover have "drop (4 + ?e) (mio_bytes mio1) = drop (4 + ?e) (mio_bytes mio)" unfolding w(3)
    by (rule drop_blit_after [OF _ l(2)]) simp
  ultimately show ?thesis using w(1) by blast
qed

lemma sample_file_sel: "\<not> NC_readonly sample_file" "\<not> NC_indef sample_file" "flags sample_file = 0"
  by (simp_all add: sample_file_def sample_hdr_def NC_flags_bits)

lemma write_numrecs_read_numrecs_witness:
  "\<exists>mio1 mio2. write_numrecs (memio_io 4096 (\<lambda>n. None)) (sample_file\<lparr>numrecs := 70000\<rparr>) sample_mio =
      Done (NC_NOERR, sample_file\<lparr>numrecs := 70000, flags := fClr 0 NC_NDIRTY\<rparr>, mio1) \<and>
    read_numrecs (memio_io 4096 (\<lambda>n. None)) sample_file mio1 = Done (NC_NOERR, sample_file\<lparr>numrecs := 70000, flags := fClr 0 NC_NDIRTY\<rparr>, mio2)"
proof -
  have f: "\<not> NC_readonly (sample_file\<lparr>numrecs := 70000\<rparr>)" "\<not> NC_indef (sample_file\<lparr>numrecs := 70000\<rparr>)" "\<not> fIsSet 0 NC_64BIT_DATA"
    "numrecs sample_file = 0" "flags sample_file = 0"
    using sample_file_sel by (simp_all add: NC_readonly_def NC_indef_def NC_IsNew_def fIsSet_def) (simp_all add: sample_file_def sample_hdr_def)
  show ?thesis
    using write_numrecs_read_numrecs [OF sample_mio_ok(1) _ f(1,2) sample_file_sel(2), of 4096 "\<lambda>n. None"] f(3-5) sample_mio_ok(2) by auto
qed

subsection \<open>An unwritten record count and define mode\<close>

text \<open>The state after \<open>NC3_redef\<close> of a file that is not shared.\<close>

definition redef_state :: "nc3_info \<Rightarrow> nc3_hdr \<Rightarrow> nc3_info" where
  "redef_state ncp od = ncp\<lparr>old := Some od, flags := fSet (flags ncp) NC_INDEF\<rparr>"

lemma NC3_redef_open:
  assumes f: "open_file fs ncid mode ncp s" and m: "\<not> NC_readonly ncp" "\<not> NC_indef ncp" "\<not> fIsSet (ioflags ncp) NC_SHARE"
    and d: "dup_NC3INFO E ncp = Done (Some od)"
  shows "NC3_redef E io fs ncid = Done (NC_NOERR, (), update_file fs ncid (redef_state ncp od) s)"
  using m d by (simp add: NC3_redef_def with_nc3_open [OF f] redef_state_def)

lemma with_nc3_close_open:
  fixes fs :: "'s nc3_files"
  assumes "open_file fs ncid mode ncp s"
  shows "with_nc3_close fs ncid f = run_bind (f ncp s) (\<lambda>(status, c, ncp', s'). Done (status, c,
    if c = None then update_file fs ncid ncp' s' else (case NC_check_id fs ncid of Done (_, Some p) \<Rightarrow>
       NC_store fs p ((the (objs fs ! p))\<lparr>dispatchdata := None\<rparr>) | _ \<Rightarrow> fs)))"
proof -
  have e: "(\<lambda>(status, c, ncp', s'). Done (status, c, NC_store fs p (nc\<lparr>dispatchdata := (if c = None then Some (ncp', s') else None)\<rparr>))) =
      (\<lambda>(status, c, ncp', s'). Done (status, c, if c = None then NC_store fs p (nc\<lparr>dispatchdata := Some (ncp', s')\<rparr>)
        else NC_store fs p (nc\<lparr>dispatchdata := None\<rparr>)))" for p and nc :: "(nc3_info \<times> 's) NC"
    by (auto simp: fun_eq_iff)
  show ?thesis using assms by (auto simp: open_file_def with_nc3_close_def NC_deref_def update_file_def e cong: if_cong)
qed

text \<open>
  C31: an unwritten record count is lost when define mode is aborted: \<open>NC3_redef\<close> does not write it, and \<open>NC3_abort\<close> after it
  closes the driver in the very state it had, whereas \<open>NC3_abort\<close> without a redef writes the count first.
\<close>

theorem NC3_redef_abort_loses_numrecs:
  fixes ncp :: nc3_info and fs :: "'s nc3_files"
  assumes f: "open_file fs ncid mode ncp s" and m: "\<not> NC_readonly ncp" "\<not> NC_indef ncp" "\<not> fIsSet (ioflags ncp) NC_SHARE" "old ncp = None"
    and dirty: "NC_ndirty ncp" "\<not> NC_hdirty ncp"
    and d: "dup_NC3INFO E ncp = Done (Some od)"
    and w: "write_numrecs io ncp s = Done (NC_NOERR, ncp', s')"
  shows "\<exists>fs1 fs2. NC3_redef E io fs ncid = Done (NC_NOERR, (), fs1) \<and> NC3_abort io fs1 ncid = Done (NC_NOERR, Some (s, False), fs2) \<and>
    (\<exists>fs3. NC3_abort io fs ncid = Done (NC_NOERR, Some (s', False), fs3))"
proof -
  let ?n = "redef_state ncp od"
  note f1 = open_file_update(1) [OF f, of ?n s]
  have "old ?n \<noteq> None" "\<not> NC_IsNew ?n" "fIsSet (flags ?n) NC_INDEF"
    using m(2) by (simp_all add: redef_state_def NC_flags_bits flag_bits fIsSet_single)
  then have "abort_body io ?n s = Done (NC_NOERR, Some (s, False), ?n\<lparr>old := None, flags := fClr (flags ?n) NC_INDEF\<rparr>, s)"
    by (simp add: abort_body_def)
  with NC3_redef_open [OF f m(1-3) d]
  have "\<exists>fs1 fs2. NC3_redef E io fs ncid = Done (NC_NOERR, (), fs1) \<and> NC3_abort io fs1 ncid = Done (NC_NOERR, Some (s, False), fs2)"
    by (simp add: NC3_abort_def with_nc3_close_open [OF f1])
  moreover have "abort_body io ncp s = Done (NC_NOERR, Some (s', False), ncp', s')"
    using m dirty w by (simp add: abort_body_def NC_sync_def NC_indef_def)
  then have "\<exists>fs2. NC3_abort io fs ncid = Done (NC_NOERR, Some (s', False), fs2)"
    by (simp add: NC3_abort_def with_nc3_close_open [OF f])
  ultimately show ?thesis by blast
qed

text \<open>
  Turning the filling of new variables on again in define mode, for a file opened before with an unwritten record count, fails an
  assertion: \<open>NC3_set_fill\<close> synchronizes the file, and \<open>write_numrecs\<close> may not be called in define mode. In data mode
  the same call returns with the count written.
\<close>

theorem NC3_redef_set_fill_faults:
  fixes ncp :: nc3_info and fs :: "'s nc3_files"
  assumes f: "open_file fs ncid mode ncp s" and m: "\<not> NC_readonly ncp" "\<not> NC_indef ncp" "\<not> fIsSet (ioflags ncp) NC_SHARE"
    and dirty: "NC_ndirty ncp" "\<not> NC_hdirty ncp" "fIsSet (flags ncp) NC_NOFILL"
    and d: "dup_NC3INFO E ncp = Done (Some od)"
    and w: "write_numrecs io ncp s = Done (NC_NOERR, ncp', s')"
  shows "\<exists>fs1. NC3_redef E io fs ncid = Done (NC_NOERR, (), fs1) \<and> NC3_set_fill io fs1 ncid NC_FILL = Fault \<and>
    (\<exists>fs2. NC3_set_fill io fs ncid NC_FILL = Done (NC_NOERR, Some NC_NOFILL, fs2))"
proof -
  let ?n = "redef_state ncp od"
  note f1 = open_file_update(1) [OF f, of ?n s]
  have "\<not> NC_readonly ?n" "NC_indef ?n" "NC_ndirty ?n" "\<not> NC_hdirty ?n" "fIsSet (flags ?n) NC_NOFILL"
    using m dirty by (simp_all add: redef_state_def NC_flags_bits flag_bits fIsSet_single)
  then have "NC3_set_fill io (update_file fs ncid ?n s) ncid NC_FILL = Fault"
    by (simp add: NC3_set_fill_def with_nc3_open [OF f1] NC_sync_def write_numrecs_def)
  with NC3_redef_open [OF f m d] have "\<exists>fs1. NC3_redef E io fs ncid = Done (NC_NOERR, (), fs1) \<and> NC3_set_fill io fs1 ncid NC_FILL = Fault"
    by simp
  moreover have "\<exists>fs1. NC3_set_fill io fs ncid NC_FILL = Done (NC_NOERR, Some NC_NOFILL, fs1)"
    using m dirty w by (simp add: NC3_set_fill_def with_nc3_open [OF f] NC_sync_def)
  ultimately show ?thesis by blast
qed

text \<open>A file in a memory driver, with a record count that is not yet written.\<close>

definition memory_files :: "nc3_info \<Rightarrow> NCMEMIO nc3_files" where
  "memory_files ncp = \<lparr>nc_filelist = Some [1 \<mapsto> 0], numfiles = 1,
     objs = [Some \<lparr>ext_ncid = 65536, nc_path = ''f'', nc_mode = 0, nc_model = 1, dispatchdata = Some (ncp, sample_mio)\<rparr>]\<rparr>"

lemma memory_files_open: "open_file (memory_files ncp) 65536 0 ncp sample_mio"
  by (simp add: open_file_def memory_files_def NC_check_id_def find_in_NCList_def NC_deref_def slot_of_def u32_def)

definition sample_dirty :: nc3_info where
  "sample_dirty = (sample_hdr 100 108 [])\<lparr>vars := empty_vararray, numrecs := 3, ioflags := NC_WRITE, flags := 320\<rparr>"

lemma sample_dirty_flags: "bit (320::int) n \<longleftrightarrow> n = 6 \<or> n = 8"
proof -
  have e: "(320::int) = or (2 ^ 6) (2 ^ 8)" by simp
  show ?thesis unfolding e by (simp only: bit_or_iff bit_exp_iff) auto
qed

lemma sample_dirty_sel: "\<not> NC_readonly sample_dirty" "\<not> NC_indef sample_dirty" "\<not> fIsSet (ioflags sample_dirty) NC_SHARE" "old sample_dirty = None"
  "NC_ndirty sample_dirty" "\<not> NC_hdirty sample_dirty" "fIsSet (flags sample_dirty) NC_NOFILL" "numrecs sample_dirty = 3"
  "\<not> fIsSet (flags sample_dirty) NC_64BIT_DATA"
  by (simp_all add: sample_dirty_def NC_flags_bits fIsSet_single sample_dirty_flags) (simp_all add: sample_hdr_def fIsSet_def)

lemma sample_dirty_dup: "\<exists>od. dup_NC3INFO sample_env sample_dirty = Done (Some od)"
  by (simp add: dup_NC3INFO_def sample_dirty_def sample_hdr_def sample_env_def dup_NC_dimarrayV_def dup_NC_attrarrayV_def dup_NC_vararrayV_def
      empty_vararray_def empty_dimarray_def empty_attrarray_def)

lemma sample_dirty_write:
  "\<exists>mio1. write_numrecs (memio_io 4096 (\<lambda>n. None)) sample_dirty sample_mio = Done (NC_NOERR, sample_dirty\<lparr>flags := fClr (flags sample_dirty) NC_NDIRTY\<rparr>, mio1) \<and>
    take 4 (drop 4 (mio_bytes mio1)) = be 4 3 \<and> take 4 (drop 4 (mio_bytes sample_mio)) = replicate 4 CHR ''z''"
proof -
  have e: "numrecs_extent (flags sample_dirty) = 4" using sample_dirty_sel(9) by (simp add: numrecs_extent_def)
  have l: "4 + numrecs_extent (flags sample_dirty) \<le> length (mio_bytes sample_mio)" unfolding e sample_mio_ok(2) by simp
  have z: "take 4 (drop 4 (mio_bytes sample_mio)) = replicate 4 CHR ''z''"
    unfolding mio_bytes_def sample_mio_def by simp
  show ?thesis
    using mio.write_numrecs_bytes [OF sample_mio_ok(1) l order_refl sample_dirty_sel(1,2), of 4096 "\<lambda>n. None"] z
    unfolding e sample_dirty_sel(8) by (auto simp: blit_def sample_mio_ok(2))
qed

lemma NC3_redef_abort_loses_numrecs_witness:
  "\<exists>fs1 fs2 fs3 mio1. NC3_redef sample_env (memio_io 4096 (\<lambda>n. None)) (memory_files sample_dirty) 65536 = Done (NC_NOERR, (), fs1) \<and>
    NC3_abort (memio_io 4096 (\<lambda>n. None)) fs1 65536 = Done (NC_NOERR, Some (sample_mio, False), fs2) \<and>
    NC3_abort (memio_io 4096 (\<lambda>n. None)) (memory_files sample_dirty) 65536 = Done (NC_NOERR, Some (mio1, False), fs3) \<and>
    take 4 (drop 4 (mio_bytes mio1)) = be 4 3 \<and> take 4 (drop 4 (mio_bytes sample_mio)) = replicate 4 CHR ''z''"
proof -
  obtain od where od: "dup_NC3INFO sample_env sample_dirty = Done (Some od)" using sample_dirty_dup by blast
  from sample_dirty_write obtain mio1 where w: "write_numrecs (memio_io 4096 (\<lambda>n. None)) sample_dirty sample_mio =
      Done (NC_NOERR, sample_dirty\<lparr>flags := fClr (flags sample_dirty) NC_NDIRTY\<rparr>, mio1)"
    "take 4 (drop 4 (mio_bytes mio1)) = be 4 3" "take 4 (drop 4 (mio_bytes sample_mio)) = replicate 4 CHR ''z''" by blast
  show ?thesis using NC3_redef_abort_loses_numrecs [OF memory_files_open sample_dirty_sel(1-6) od w(1)] w(2,3) by blast
qed

lemma NC3_redef_set_fill_faults_witness:
  "\<exists>fs1. NC3_redef sample_env (memio_io 4096 (\<lambda>n. None)) (memory_files sample_dirty) 65536 = Done (NC_NOERR, (), fs1) \<and>
    NC3_set_fill (memio_io 4096 (\<lambda>n. None)) fs1 65536 NC_FILL = Fault"
proof -
  obtain od where od: "dup_NC3INFO sample_env sample_dirty = Done (Some od)" using sample_dirty_dup by blast
  from sample_dirty_write obtain mio1 where w: "write_numrecs (memio_io 4096 (\<lambda>n. None)) sample_dirty sample_mio =
      Done (NC_NOERR, sample_dirty\<lparr>flags := fClr (flags sample_dirty) NC_NDIRTY\<rparr>, mio1)" by blast
  show ?thesis using NC3_redef_set_fill_faults [OF memory_files_open sample_dirty_sel(1-3,5-7) od w] by blast
qed

end
