(* ===== verification/NC_Dfile.thy ===== *)
theory NC_Dfile
  imports NC3_State
begin

text \<open>
  \<open>libdispatch/dfile.c\<close>: what kind of file it is, and creating, opening, aborting and closing a file through the
  table of open files. The library is the classic one: built without netCDF-4, DAP, PnetCDF and ESDM, so that
  \<open>NC3_dispatch_table\<close> is the only dispatch table, with CDF-5, and without \<open>USE_PARALLEL\<close> and \<open>USE_REFCOUNT\<close>; it is
  initialized. \<open>url\<close> is what \<open>NC_urlmodel\<close> makes of a path: a model and the path to use, the model 0 if it is no URL.
  \<open>disk\<close> is what \<open>fopen\<close> and reading give: an error number or the file's bytes.
\<close>

abbreviation (input) "NC_MMAP \<equiv> (16::int)"
abbreviation (input) "NC_CLASSIC_MODEL \<equiv> (256::int)"
abbreviation (input) "NC_NETCDF4 \<equiv> (4096::int)"
abbreviation (input) "NC_MPIIO \<equiv> (8192::int)"
abbreviation (input) "NC_ESDM \<equiv> (65536::int)"
abbreviation (input) "NC_ENOTBUILT \<equiv> (-128::int)"
abbreviation (input) "NC_EDISKLESS \<equiv> (-129::int)"
abbreviation (input) "NC_FORMATX_UNDEFINED \<equiv> (0::int)"
abbreviation (input) "NC_FORMATX_NC4 \<equiv> (2::int)"
abbreviation (input) "NC_FORMATX_NC_HDF4 \<equiv> (3::int)"
abbreviation (input) "NC_FORMATX_PNETCDF \<equiv> (4::int)"
abbreviation (input) "NC_FORMATX_ESDM \<equiv> (10::int)"
abbreviation (input) "NC_FORMAT_NETCDF4 \<equiv> (3::int)"
abbreviation (input) "NC_FORMAT_NETCDF4_CLASSIC \<equiv> (4::int)"
abbreviation (input) "MAGIC_NUMBER_LEN \<equiv> (8::nat)"

subsection \<open>The kind of a file\<close>

definition HDF5_SIGNATURE :: string where
  "HDF5_SIGNATURE = [char_of (137::nat), CHR ''H'', CHR ''D'', CHR ''F'', char_of (13::nat), char_of (10::nat), char_of (26::nat), char_of (10::nat)]"

text \<open>Status, model and version; the argument has 8 bytes.\<close>

definition NC_interpret_magic_number :: "string \<Rightarrow> int \<times> int \<times> int" where
  "NC_interpret_magic_number mg =
     (if take 8 mg = HDF5_SIGNATURE then (NC_NOERR, NC_FORMATX_NC4, 5)
      else if take 4 mg = map char_of [14::nat, 3, 19, 1] then (NC_NOERR, NC_FORMATX_NC_HDF4, 4)
      else if take 4 mg = ''CDF'' @ [char_of (1::nat)] then (NC_NOERR, NC_FORMATX_NC3, 1)
      else if take 4 mg = ''CDF'' @ [char_of (2::nat)] then (NC_NOERR, NC_FORMATX_NC3, 2)
      else if take 4 mg = ''CDF'' @ [char_of (5::nat)] then (NC_NOERR, NC_FORMATX_NC3, 5)
      else (NC_ENOTNC, 0, 0))"

text \<open>
  \<open>openmagic\<close>: the contents of the file, in memory or on disk. \<open>readmagic\<close>: the 8 bytes at a position that is in the
  file; reading a file that could be opened does not fail.
\<close>

definition openmagic :: "(string \<Rightarrow> int + string) \<Rightarrow> bool \<Rightarrow> string \<Rightarrow> string option \<Rightarrow> (int + string) run" where
  "openmagic disk inmemory path mem = (if inmemory then (case mem of None \<Rightarrow> Fault | Some m \<Rightarrow> Done (Inr m))
     else if path = [] then Done (Inl NC_EINVAL) else Done (disk path))"

definition readmagic :: "string \<Rightarrow> nat \<Rightarrow> string" where
  "readmagic bytes pos = take MAGIC_NUMBER_LEN (drop pos bytes)"

text \<open>The search for an HDF5 signature at 512, 1024 and so on; the position is \<open>512 * 2 ^ n\<close>.\<close>

function search_hdf5 :: "string \<Rightarrow> nat \<Rightarrow> int \<Rightarrow> int \<Rightarrow> int \<times> int \<times> int" where
  "search_hdf5 bytes n model version = (let pos = 512 * 2 ^ n in
     if length bytes < pos + MAGIC_NUMBER_LEN then (NC_ENOTNC, model, version)
     else let (_, m, v) = NC_interpret_magic_number (readmagic bytes pos) in
       if m = NC_FORMATX_NC4 then (NC_NOERR, m, v) else search_hdf5 bytes (Suc n) m v)"
  by pat_completeness auto
termination
proof (relation "measure (\<lambda>(b, n, m, v). length b - n)")
  fix b :: string and n pos :: nat and x m v ma va
  assume "pos = 512 * 2 ^ n" "\<not> length b < pos + MAGIC_NUMBER_LEN"
  moreover have "n < 2 ^ n" by simp
  ultimately have "n < length b" by linarith
  then show "((b, Suc n, m, v), (b, n, ma, va)) \<in> measure (\<lambda>(b, n, m, v). length b - n)" by simp
qed simp

declare search_hdf5.simps [simp del]

text \<open>
  Conflicting modes jump to \<open>closemagic\<close> with a file structure that was never initialized: the file pointer it closes is
  whatever is on the stack.
\<close>

definition NC_check_file_type :: "(string \<Rightarrow> int + string) \<Rightarrow> string \<Rightarrow> int \<Rightarrow> bool \<Rightarrow> string option \<Rightarrow> (int \<times> int \<times> int) run" where
  "NC_check_file_type disk path flgs use_parallel mem = (
     let diskless = fIsSet flgs NC_DISKLESS; inmemory = fIsSet flgs NC_INMEMORY; mmap = fIsSet flgs NC_MMAP in
     if diskless \<and> inmemory \<or> diskless \<and> mmap \<or> inmemory \<and> mmap \<or> mmap \<and> fIsSet flgs NC_NETCDF4 then Fault
     else run_bind (openmagic disk inmemory path mem) (\<lambda>r. case r of Inl status \<Rightarrow> Done (status, 0, 0)
       | Inr bytes \<Rightarrow> if length bytes < MAGIC_NUMBER_LEN then Done (NC_ENOTNC, 0, 0)
         else let (st, model, version) = NC_interpret_magic_number (readmagic bytes 0) in
           if st = NC_NOERR \<and> model \<noteq> 0 then Done (NC_NOERR, if model = NC_FORMATX_NC3 \<and> use_parallel then NC_FORMATX_PNETCDF else model, version)
           else Done (search_hdf5 bytes 0 model version)))"

subsection \<open>The format of a new file\<close>

definition check_create_mode :: "int \<Rightarrow> int" where
  "check_create_mode mode = (
     let mode_format = and mode (or NC_NETCDF4 (or NC_64BIT_OFFSET (or NC_64BIT_DATA NC_ESDM)));
         mmap = fIsSet mode NC_MMAP; inmemory = fIsSet mode NC_INMEMORY; diskless = fIsSet mode NC_DISKLESS in
     if mode_format \<noteq> 0 \<and> and mode_format (mode_format - 1) \<noteq> 0 then NC_EINVAL
     else if diskless \<and> inmemory then NC_EDISKLESS
     else if diskless \<and> mmap then NC_EDISKLESS
     else if inmemory \<and> mmap then NC_EINMEMORY
     else if mmap \<and> fIsSet mode NC_NETCDF4 then NC_EINVAL
     else if fIsSet mode NC_MPIIO \<and> (diskless \<or> inmemory \<or> mmap) then NC_EINVAL
     else if fIsSet mode NC_NETCDF4 then NC_ENOTBUILT
     else NC_NOERR)"

definition nc_set_default_format :: "int \<Rightarrow> int \<Rightarrow> int \<times> int \<times> int" where
  "nc_set_default_format cur format = (if format = NC_FORMATX_ESDM then (NC_EINVAL, cur, cur)
     else if format = NC_FORMAT_NETCDF4 \<or> format = NC_FORMAT_NETCDF4_CLASSIC then (NC_ENOTBUILT, cur, cur)
     else if format \<noteq> NC_FORMAT_CLASSIC \<and> format \<noteq> NC_FORMAT_64BIT_OFFSET \<and> format \<noteq> NC_FORMAT_CDF5 then (NC_EINVAL, cur, cur)
     else (NC_NOERR, cur, format))"

text \<open>The status, or the model and the mode with the default format's flag.\<close>

definition create_model :: "int \<Rightarrow> int \<Rightarrow> int \<Rightarrow> bool \<Rightarrow> int + int \<times> int" where
  "create_model deffmt model0 cmode0 useparallel =
     (if model0 = NC_FORMATX_UNDEFINED \<and> fIsSet cmode0 NC_NETCDF4 then Inl NC_ENOTBUILT
      else if model0 = NC_FORMATX_UNDEFINED \<and> useparallel then Inl NC_ENOTBUILT
      else if model0 = NC_FORMATX_UNDEFINED \<and> fIsSet cmode0 NC_ESDM then Inl NC_ENOTBUILT
      else let cmode = (if \<not> fIsSet cmode0 NC_64BIT_OFFSET \<and> \<not> fIsSet cmode0 NC_64BIT_DATA \<and> \<not> fIsSet cmode0 NC_CLASSIC_MODEL \<and>
                 \<not> fIsSet cmode0 NC_NETCDF4 \<and> \<not> fIsSet cmode0 NC_ESDM
               then (if deffmt = NC_FORMAT_CDF5 then fSet cmode0 NC_64BIT_DATA
                     else if deffmt = NC_FORMAT_64BIT_OFFSET then fSet cmode0 NC_64BIT_OFFSET else cmode0)
               else cmode0);
             model = (if model0 = NC_FORMATX_UNDEFINED then if useparallel then NC_FORMATX_PNETCDF else NC_FORMATX_NC3 else model0) in
        if model = NC_FORMATX_ESDM \<or> model = NC_FORMATX_NC4 \<or> model = NC_FORMATX_PNETCDF then Inl NC_ENOTBUILT
        else if model = NC_FORMATX_NC3 then Inr (model, cmode) else Inl NC_ENOTNC)"

text \<open>The model and the mode of a file to be opened.\<close>

definition open_model :: "(string \<Rightarrow> int + string) \<Rightarrow> int \<Rightarrow> string \<Rightarrow> int \<Rightarrow> bool \<Rightarrow> string option \<Rightarrow> (int + int \<times> int) run" where
  "open_model disk model0 path omode useparallel mem =
     (if model0 = NC_FORMATX_UNDEFINED \<and> fIsSet omode NC_ESDM then Done (Inl NC_ENOTBUILT)
      else run_bind (if model0 = 0 then NC_check_file_type disk path omode useparallel mem else Done (NC_NOERR, model0, 0)) (\<lambda>(stat, model, version).
        if stat \<noteq> NC_NOERR then Done (Inl stat)
        else if model = 0 then Done (Inl NC_ENOTNC)
        else if model = NC_FORMATX_NC4 then Done (Inl NC_ENOTBUILT)
        else if model \<noteq> NC_FORMATX_NC3 then Done (Inl NC_ENOTNC)
        else let om = fClr omode NC_NETCDF4 in
          Done (Inr (model, if version = 2 then fSet om NC_64BIT_OFFSET else if version = 5 then fSet om NC_64BIT_DATA else om))))"

subsection \<open>Creating and opening\<close>

text \<open>
  The result is the status, the number for the caller, what the file format's routine returned besides, and the table. That the
  file got no place in the table is not noticed.
\<close>

definition NC_enter :: "nc_env \<Rightarrow> string \<Rightarrow> int \<Rightarrow> int \<Rightarrow> 's nc3_files \<Rightarrow>
    ('s nc3_files \<Rightarrow> nat \<Rightarrow> (int \<times> int option \<times> ('s \<times> bool) option \<times> 's nc3_files) run) \<Rightarrow>
    (int \<times> int option \<times> (int option \<times> ('s \<times> bool) option) \<times> 's nc3_files) run" where
  "NC_enter E path mode model fs f = (let (stat, pp, fs1) = new_NC (env_mem E) fs path mode model in
     case pp of None \<Rightarrow> Done (stat, None, (None, None), fs1)
     | Some p \<Rightarrow> run_bind (add_to_NCList (env_mem E) fs1 p) (\<lambda>(_, fs2).
         run_bind (f fs2 p) (\<lambda>(stat, chunk', closed, fs3).
           if stat \<noteq> NC_NOERR then run_bind (del_from_NCList fs3 p) (\<lambda>fs4. Done (stat, None, (chunk', closed), free_NC fs4 p))
           else run_bind (NC_deref fs3 p) (\<lambda>nc. Done (stat, Some (ext_ncid nc), (chunk', closed), fs3)))))"

definition NC_create :: "nc_env \<Rightarrow> 's ncio \<Rightarrow> 's driver \<Rightarrow> (string \<Rightarrow> int \<Rightarrow> int \<times> string) \<Rightarrow> int \<Rightarrow> 's nc3_files \<Rightarrow>
    string \<Rightarrow> int \<Rightarrow> int \<Rightarrow> int \<Rightarrow> int option \<Rightarrow> bool \<Rightarrow> (int \<times> int option \<times> (int option \<times> ('s \<times> bool) option) \<times> 's nc3_files) run" where
  "NC_create E io drv url deffmt fs path0 cmode0 initialsz basepe chunkp useparallel = (
     if check_create_mode cmode0 \<noteq> NC_NOERR then Done (check_create_mode cmode0, None, (None, None), fs)
     else let (model0, newpath) = url path0 cmode0 in
       case create_model deffmt model0 cmode0 useparallel of Inl status \<Rightarrow> Done (status, None, (None, None), fs)
       | Inr (model, cmode) \<Rightarrow> NC_enter E (if model0 \<noteq> 0 then newpath else path0) cmode model fs
           (\<lambda>fs' p. NC3_create E io drv (if model0 \<noteq> 0 then newpath else path0) cmode initialsz basepe chunkp fs' p))"

definition NC_open :: "nc_env \<Rightarrow> 's ncio \<Rightarrow> 's driver \<Rightarrow> (string \<Rightarrow> int \<Rightarrow> int \<times> string) \<Rightarrow> (string \<Rightarrow> int + string) \<Rightarrow> 's nc3_files \<Rightarrow>
    string \<Rightarrow> int \<Rightarrow> int \<Rightarrow> int option \<Rightarrow> bool \<Rightarrow> string option \<Rightarrow> (int \<times> int option \<times> (int option \<times> ('s \<times> bool) option) \<times> 's nc3_files) run" where
  "NC_open E io drv url disk fs path0 omode0 basepe chunkp useparallel mem = (
     let inmemory = fIsSet omode0 NC_INMEMORY; mmap = fIsSet omode0 NC_MMAP; diskless = fIsSet omode0 NC_DISKLESS in
     if mmap \<and> inmemory then Done (NC_EINMEMORY, None, (None, None), fs)
     else if mmap \<and> diskless then Done (NC_EDISKLESS, None, (None, None), fs)
     else let (model0, newpath) = (if inmemory then (0, path0) else url path0 omode0); path = (if model0 \<noteq> 0 then newpath else path0) in
       run_bind (open_model disk model0 path omode0 useparallel mem) (\<lambda>r. case r of Inl status \<Rightarrow> Done (status, None, (None, None), fs)
       | Inr (model, omode) \<Rightarrow> NC_enter E path omode model fs (\<lambda>fs' p. NC3_open E io drv path omode basepe chunkp fs' p)))"

subsection \<open>Aborting and closing\<close>

definition NC_leave :: "'s nc3_files \<Rightarrow> int \<Rightarrow> bool \<Rightarrow> (int \<times> ('s \<times> bool) option \<times> 's nc3_files) run \<Rightarrow> (int \<times> ('s \<times> bool) option \<times> 's nc3_files) run" where
  "NC_leave fs ncid always m = run_bind (NC_check_id fs ncid) (\<lambda>(stat, pp). case pp of None \<Rightarrow> Done (stat, None, fs)
     | Some p \<Rightarrow> run_bind m (\<lambda>(stat, closed, fs1).
         if always \<or> stat = NC_NOERR then run_bind (del_from_NCList fs1 p) (\<lambda>fs2. Done (stat, closed, free_NC fs2 p))
         else Done (stat, closed, fs1)))"

definition nc_abort :: "'s ncio \<Rightarrow> 's nc3_files \<Rightarrow> int \<Rightarrow> (int \<times> ('s \<times> bool) option \<times> 's nc3_files) run" where
  "nc_abort io fs ncid = NC_leave fs ncid True (NC3_abort io fs ncid)"

definition nc_close :: "nc_env \<Rightarrow> 's ncio \<Rightarrow> 's nc3_files \<Rightarrow> int \<Rightarrow> (int \<times> ('s \<times> bool) option \<times> 's nc3_files) run" where
  "nc_close E io fs ncid = NC_leave fs ncid False (NC3_close E io fs ncid)"

definition nc_enddef :: "nc_env \<Rightarrow> 's ncio \<Rightarrow> 's nc3_files \<Rightarrow> int \<Rightarrow> (int \<times> unit \<times> 's nc3_files) run" where
  "nc_enddef E io fs ncid = NC3_enddef E io fs ncid 0 1 0 1"

definition nc_inq_path :: "'s nc3_files \<Rightarrow> int \<Rightarrow> (int \<times> (nat \<times> string) option) run" where
  "nc_inq_path fs ncid = run_bind (NC_check_id fs ncid) (\<lambda>(stat, pp). case pp of None \<Rightarrow> Done (stat, None)
     | Some p \<Rightarrow> run_bind (NC_deref fs p) (\<lambda>nc. Done (stat, Some (length (nc_path nc), nc_path nc))))"

subsection \<open>What the magic number decides\<close>

definition classic_magic :: "int \<Rightarrow> string" where
  "classic_magic v = ''CDF'' @ [char_of (nat v)]"

definition hdf4_magic :: string where
  "hdf4_magic = map char_of [14::nat, 3, 19, 1]"

lemma classic_magic_eq: "classic_magic 1 = ''CDF'' @ [char_of (1::nat)]" "classic_magic 2 = ''CDF'' @ [char_of (2::nat)]"
  "classic_magic 5 = ''CDF'' @ [char_of (5::nat)]"
  by (simp_all add: classic_magic_def)

lemma magic_distinct:
  "take 4 HDF5_SIGNATURE \<noteq> hdf4_magic" "take 4 HDF5_SIGNATURE \<noteq> classic_magic v" "hdf4_magic \<noteq> classic_magic v"
  "classic_magic 1 \<noteq> classic_magic 2" "classic_magic 1 \<noteq> classic_magic 5" "classic_magic 2 \<noteq> classic_magic 5"
  by (simp_all add: HDF5_SIGNATURE_def hdf4_magic_def classic_magic_def char_of_def bit_0)

lemma interpret_cases:
  "NC_interpret_magic_number mg =
     (if take 8 mg = HDF5_SIGNATURE then (NC_NOERR, NC_FORMATX_NC4, 5) else if take 4 mg = hdf4_magic then (NC_NOERR, NC_FORMATX_NC_HDF4, 4)
      else if take 4 mg = classic_magic 1 then (NC_NOERR, NC_FORMATX_NC3, 1) else if take 4 mg = classic_magic 2 then (NC_NOERR, NC_FORMATX_NC3, 2)
      else if take 4 mg = classic_magic 5 then (NC_NOERR, NC_FORMATX_NC3, 5) else (NC_ENOTNC, 0, 0))"
  by (simp only: NC_interpret_magic_number_def classic_magic_eq hdf4_magic_def)

text \<open>The search succeeds exactly when a signature is at one of its positions.\<close>

definition hdf5_from :: "string \<Rightarrow> nat \<Rightarrow> bool" where
  "hdf5_from bytes n \<longleftrightarrow> (\<exists>k\<ge>n. 512 * 2 ^ k + MAGIC_NUMBER_LEN \<le> length bytes \<and> readmagic bytes (512 * 2 ^ k) = HDF5_SIGNATURE)"

lemma hdf5_from_step: "hdf5_from bytes n \<longleftrightarrow>
    512 * 2 ^ n + MAGIC_NUMBER_LEN \<le> length bytes \<and> (readmagic bytes (512 * 2 ^ n) = HDF5_SIGNATURE \<or> hdf5_from bytes (Suc n))"
proof
  assume "hdf5_from bytes n"
  then obtain k where k: "n \<le> k" "512 * 2 ^ k + MAGIC_NUMBER_LEN \<le> length bytes" "readmagic bytes (512 * 2 ^ k) = HDF5_SIGNATURE"
    unfolding hdf5_from_def by blast
  have "(2::nat) ^ n \<le> 2 ^ k" using k(1) by simp
  then have "512 * 2 ^ n + MAGIC_NUMBER_LEN \<le> length bytes" using k(2) by linarith
  with k show "512 * 2 ^ n + MAGIC_NUMBER_LEN \<le> length bytes \<and> (readmagic bytes (512 * 2 ^ n) = HDF5_SIGNATURE \<or> hdf5_from bytes (Suc n))"
    unfolding hdf5_from_def by (cases "k = n") (auto intro: exI [of _ k])
next
  assume r: "512 * 2 ^ n + MAGIC_NUMBER_LEN \<le> length bytes \<and> (readmagic bytes (512 * 2 ^ n) = HDF5_SIGNATURE \<or> hdf5_from bytes (Suc n))"
  show "hdf5_from bytes n"
  proof (cases "readmagic bytes (512 * 2 ^ n) = HDF5_SIGNATURE")
    case True
    with r show ?thesis unfolding hdf5_from_def by blast
  next
    case False
    with r have "hdf5_from bytes (Suc n)" by blast
    then show ?thesis unfolding hdf5_from_def by (meson Suc_leD)
  qed
qed

lemma search_hdf5_result:
  "(hdf5_from bytes n \<longrightarrow> search_hdf5 bytes n m v = (NC_NOERR, NC_FORMATX_NC4, 5)) \<and> (\<not> hdf5_from bytes n \<longrightarrow> fst (search_hdf5 bytes n m v) = NC_ENOTNC)"
proof (induction bytes n m v rule: search_hdf5.induct)
  case (1 bytes n m v)
  show ?case
  proof (cases "512 * 2 ^ n + MAGIC_NUMBER_LEN \<le> length bytes")
    case False
    then show ?thesis by (subst (1 2) search_hdf5.simps) (simp add: hdf5_from_step [of bytes n])
  next
    case True
    have t: "take 8 (readmagic bytes p) = readmagic bytes p" for p by (simp add: readmagic_def)
    obtain st m' v' where i: "NC_interpret_magic_number (readmagic bytes (512 * 2 ^ n)) = (st, m', v')" by (metis prod_cases3)
    then have m': "m' = NC_FORMATX_NC4 \<longleftrightarrow> readmagic bytes (512 * 2 ^ n) = HDF5_SIGNATURE" "m' = NC_FORMATX_NC4 \<longrightarrow> v' = 5"
      by (auto simp: interpret_cases t split: if_splits)
    show ?thesis
    proof (cases "m' = NC_FORMATX_NC4")
      case True
      with \<open>512 * 2 ^ n + MAGIC_NUMBER_LEN \<le> length bytes\<close> m' i show ?thesis
        by (subst (1 2) search_hdf5.simps) (simp add: hdf5_from_step [of bytes n])
    next
      case False
      have e: "search_hdf5 bytes n m v = search_hdf5 bytes (Suc n) m' v'"
        using True False i by (subst search_hdf5.simps) simp
      have "hdf5_from bytes n = hdf5_from bytes (Suc n)" using True False m'(1) hdf5_from_step [of bytes n] by blast
      with 1 [OF refl _ i [symmetric] refl refl False] True show ?thesis unfolding e by simp
    qed
  qed
qed

text \<open>
  C29: the kind \<open>NC_check_file_type\<close> finds is the one the formats define, and the search always ends: a classic file begins with
  CDF and its version; a netCDF-4 file has the HDF5 signature at its start, or else at 512, 1024, 2048 and so on, the
  first 4 bytes being no other known magic number; every other file, or a shorter one, is none.
\<close>

theorem NC_check_file_type_result:
  assumes flg: "\<not> fIsSet flgs NC_DISKLESS" "\<not> fIsSet flgs NC_MMAP" "\<not> fIsSet flgs NC_INMEMORY" and pth: "path \<noteq> []" "disk path = Inr bytes"
  shows "\<exists>st m v. NC_check_file_type disk path flgs False mem = Done (st, m, v) \<and>
    (st = NC_NOERR \<and> m = NC_FORMATX_NC3 \<longleftrightarrow> 8 \<le> length bytes \<and> v \<in> {1, 2, 5} \<and> take 4 bytes = classic_magic v) \<and>
    (st = NC_NOERR \<and> m = NC_FORMATX_NC4 \<longleftrightarrow> readmagic bytes 0 = HDF5_SIGNATURE \<or> hdf5_from bytes 0 \<and>
      take 4 bytes \<notin> {hdf4_magic, classic_magic 1, classic_magic 2, classic_magic 5}) \<and>
    (st = NC_NOERR \<and> m = NC_FORMATX_NC_HDF4 \<longleftrightarrow> 8 \<le> length bytes \<and> take 4 bytes = hdf4_magic) \<and>
    (st = NC_NOERR \<or> st = NC_ENOTNC)"
proof -
  have t: "take 8 (readmagic bytes 0) = readmagic bytes 0" "take 4 (readmagic bytes 0) = take 4 bytes" by (simp_all add: readmagic_def)
  have l: "length HDF5_SIGNATURE = 8" by (simp add: HDF5_SIGNATURE_def)
  show ?thesis
  proof (cases "length bytes < MAGIC_NUMBER_LEN")
    case True
    then have "readmagic bytes 0 \<noteq> HDF5_SIGNATURE" using l by (auto simp: readmagic_def)
    moreover have "\<not> hdf5_from bytes 0" using True by (simp add: hdf5_from_def)
    ultimately show ?thesis using True flg pth by (simp add: NC_check_file_type_def openmagic_def)
  next
    case False
    let ?i = "NC_interpret_magic_number (readmagic bytes 0)"
    have r: "NC_check_file_type disk path flgs False mem = Done (if fst ?i = NC_NOERR then ?i else search_hdf5 bytes 0 (fst (snd ?i)) (snd (snd ?i)))"
      using False flg pth by (simp add: NC_check_file_type_def openmagic_def interpret_cases)
    have h: "take 4 bytes = take 4 HDF5_SIGNATURE" if "readmagic bytes 0 = HDF5_SIGNATURE" using that t(2) by simp
    note s = search_hdf5_result [of bytes 0]
    show ?thesis
    proof (cases "fst ?i = NC_NOERR")
      case True
      then show ?thesis unfolding r using False h magic_distinct
        by (auto simp: interpret_cases t split: if_splits)
    next
      case no: False
      then have none: "readmagic bytes 0 \<noteq> HDF5_SIGNATURE" "take 4 bytes \<notin> {hdf4_magic, classic_magic 1, classic_magic 2, classic_magic 5}"
          "?i = (NC_ENOTNC, 0, 0)"
        by (auto simp: interpret_cases t split: if_splits)
      show ?thesis
      proof (cases "hdf5_from bytes 0")
        case True
        with s none no show ?thesis unfolding r by auto
      next
        case False
        with s [of 0 0] obtain m v where "search_hdf5 bytes 0 0 0 = (NC_ENOTNC, m, v)" by (metis eq_fst_iff prod.collapse)
        with False none no show ?thesis unfolding r by auto
      qed
    qed
  qed
qed

lemma NC_check_file_type_result_witness:
  "\<exists>m v. NC_check_file_type (\<lambda>_. Inr (classic_magic 2 @ ''....'')) ''f'' 0 False None = Done (NC_NOERR, m, v) \<and> m = NC_FORMATX_NC3 \<and> v = 2"
proof -
  let ?b = "classic_magic 2 @ ''....''"
  have t: "take 4 (classic_magic v @ ''....'') = classic_magic v" "length (classic_magic v @ ''....'') = 8" for v by (simp_all add: classic_magic_def)
  have f: "\<not> fIsSet 0 n" for n by (simp add: fIsSet_def)
  obtain st m v where r: "NC_check_file_type (\<lambda>_. Inr (classic_magic 2 @ ''....'')) ''f'' 0 False None = Done (st, m, v)"
    "st = NC_NOERR \<and> m = NC_FORMATX_NC3 \<longleftrightarrow> v \<in> {1, 2, 5} \<and> classic_magic 2 = classic_magic v" "st = NC_NOERR \<or> st = NC_ENOTNC"
    using NC_check_file_type_result [OF f f f, of "''f''" "\<lambda>_. Inr (classic_magic 2 @ ''....'')" "classic_magic 2 @ ''....''" None]
    unfolding t by auto
  have "readmagic (classic_magic 2 @ ''....'') 0 = classic_magic 2 @ ''....''" unfolding readmagic_def drop_0 using t(2) by (intro take_all) simp
  then have rd: "readmagic ?b 0 = ?b" .
  have "take 8 ?b \<noteq> HDF5_SIGNATURE"
  proof
    assume "take 8 ?b = HDF5_SIGNATURE"
    then have "take 4 (take 8 ?b) = take 4 HDF5_SIGNATURE" by (rule arg_cong)
    moreover have "take 4 (take 8 ?b) = take 4 ?b" by (simp only: take_take) simp
    ultimately show False using t(1) [of 2] magic_distinct(2) [of 2] by metis
  qed
  moreover have "classic_magic 2 \<noteq> hdf4_magic" "classic_magic 2 \<noteq> classic_magic 1" using magic_distinct by metis+
  ultimately have "NC_interpret_magic_number ?b = (NC_NOERR, NC_FORMATX_NC3, 2)" unfolding interpret_cases t(1) by (simp only: if_False if_True refl)
  then have "NC_check_file_type (\<lambda>_. Inr ?b) ''f'' 0 False None = Done (NC_NOERR, NC_FORMATX_NC3, 2)"
    unfolding NC_check_file_type_def openmagic_def Let_def using rd t(2) f by simp
  with r show ?thesis by simp
qed

end
