(* ===== verification/NC_Convert.thy ===== *)
theory NC_Convert
  imports NC_Ncio
begin

text \<open>
  The conversions of \<open>libsrc/ncx.c\<close> between the external representation of a value and the C types, as
  \<open>libsrc/putget.c\<close> uses them: no \<open>ERANGE_FILL\<close>, IEEE floating point. The nc_type codes name both the external
  and the memory type, \<open>NC_CHAR\<close> being text. A value of an integer type is an \<open>int\<close>; one of \<open>NC_FLOAT\<close> or \<open>NC_DOUBLE\<close> is
  its bit pattern. What the machine gives for a cast that C leaves undefined is the argument \<open>ub\<close>.
\<close>

subsection \<open>Types\<close>

definition type_bytes :: "int \<Rightarrow> nat" where
  "type_bytes t = (if t \<in> {NC_BYTE, NC_CHAR, NC_UBYTE} then 1 else if t \<in> {NC_SHORT, NC_USHORT} then 2
     else if t \<in> {NC_INT, NC_UINT, NC_FLOAT} then 4 else 8)"

definition is_float :: "int \<Rightarrow> bool" where
  "is_float t \<longleftrightarrow> t = NC_FLOAT \<or> t = NC_DOUBLE"

definition is_signed :: "int \<Rightarrow> bool" where
  "is_signed t \<longleftrightarrow> t \<in> {NC_BYTE, NC_SHORT, NC_INT, NC_INT64}"

definition type_min :: "int \<Rightarrow> int" where
  "type_min t = (if is_signed t then - (2 ^ (8 * type_bytes t - 1)) else 0)"

definition type_max :: "int \<Rightarrow> int" where
  "type_max t = (if is_signed t then 2 ^ (8 * type_bytes t - 1) - 1 else 2 ^ (8 * type_bytes t) - 1)"

definition in_type :: "int \<Rightarrow> int \<Rightarrow> bool" where
  "in_type t v \<longleftrightarrow> type_min t \<le> v \<and> v \<le> type_max t"

text \<open>A cast between integer types: two's complement of the type's width.\<close>

definition type_wrap :: "int \<Rightarrow> int \<Rightarrow> int" where
  "type_wrap t v = (v - type_min t) mod 2 ^ (8 * type_bytes t) + type_min t"

lemma type_bytes_cases: "type_bytes t \<in> {1, 2, 4, 8}"
  by (simp add: type_bytes_def)

lemma type_bytes_pos: "0 < type_bytes t"
  by (simp add: type_bytes_def)

lemma type_range: "type_max t = type_min t + 2 ^ (8 * type_bytes t) - 1"
  using type_bytes_cases [of t] by (auto simp: type_max_def type_min_def)

lemma type_wrap_in: "in_type t (type_wrap t v)"
proof -
  have "0 \<le> (v - type_min t) mod 2 ^ (8 * type_bytes t)" "(v - type_min t) mod 2 ^ (8 * type_bytes t) < 2 ^ (8 * type_bytes t)" by simp_all
  then show ?thesis by (simp add: in_type_def type_wrap_def type_range)
qed

lemma type_wrap_id: "in_type t v \<Longrightarrow> type_wrap t v = v"
  by (simp add: in_type_def type_wrap_def type_range)

lemma type_wrap_id_iff: "type_wrap t v = v \<longleftrightarrow> in_type t v"
  using type_wrap_id type_wrap_in by metis

lemma type_wrap_mod: "type_wrap t (v mod 2 ^ (8 * type_bytes t)) = type_wrap t v"
  by (simp add: type_wrap_def mod_diff_left_eq)

subsection \<open>External representation of one value\<close>

definition ext_bytes :: "int \<Rightarrow> int \<Rightarrow> string" where
  "ext_bytes t v = be (type_bytes t) v"

definition ext_value :: "int \<Rightarrow> string \<Rightarrow> int" where
  "ext_value t bs = type_wrap t (unbe bs)"

lemma length_ext_bytes [simp]: "length (ext_bytes t v) = type_bytes t"
  by (simp add: ext_bytes_def)

lemma ext_value_bytes: "ext_value t (ext_bytes t v) = type_wrap t v"
proof -
  have "(256::int) ^ type_bytes t = 2 ^ (8 * type_bytes t)" by (simp add: power_mult)
  then show ?thesis by (simp add: ext_value_def ext_bytes_def unbe_be type_wrap_mod)
qed

lemma ext_value_in: "in_type t (ext_value t bs)"
  by (simp add: ext_value_def type_wrap_in)

subsection \<open>IEEE floating point\<close>

text \<open>A number is \<open>(-1) ^ s * m * 2 ^ e\<close>; the payload of a NaN is kept as the 52 bits a double has.\<close>

datatype fval = FNan bool int | FInf bool | FNum bool int int

definition float_frac :: "int \<Rightarrow> nat" where
  "float_frac t = (if t = NC_FLOAT then 23 else 52)"

definition float_emax :: "int \<Rightarrow> int" where
  "float_emax t = (if t = NC_FLOAT then 255 else 2047)"

definition float_emin :: "int \<Rightarrow> int" where
  "float_emin t = (if t = NC_FLOAT then -149 else -1074)"

definition float_sign :: "int \<Rightarrow> bool \<Rightarrow> int" where
  "float_sign t s = (if s then (float_emax t + 1) * 2 ^ float_frac t else 0)"

definition float_decode :: "int \<Rightarrow> int \<Rightarrow> fval" where
  "float_decode t b = (let p = 2 ^ float_frac t; s = (b div (p * (float_emax t + 1)) mod 2 = 1); e = b div p mod (float_emax t + 1); f = b mod p in
     if e = float_emax t then (if f = 0 then FInf s else FNan s (f * 2 ^ (52 - float_frac t)))
     else if e = 0 then FNum s f (float_emin t) else FNum s (f + p) (e - 1 + float_emin t))"

function bit_length :: "int \<Rightarrow> int" where
  "bit_length n = (if n \<le> 0 then 0 else bit_length (n div 2) + 1)"
  by pat_completeness auto
termination by (relation "measure nat") auto

declare bit_length.simps [simp del]

text \<open>\<open>m / 2 ^ k\<close>, rounded to the nearest integer, ties to even.\<close>

definition round_even :: "int \<Rightarrow> nat \<Rightarrow> int" where
  "round_even m k = (let q = m div 2 ^ k; r = m mod 2 ^ k in if 2 ^ k < 2 * r \<or> 2 ^ k = 2 * r \<and> odd q then q + 1 else q)"

definition float_encode :: "int \<Rightarrow> fval \<Rightarrow> int" where
  "float_encode t x = (let p = 2 ^ float_frac t in case x of
     FNan s f \<Rightarrow> float_sign t s + float_emax t * p + (if f < 2 ^ 51 then f + 2 ^ 51 else f) div 2 ^ (52 - float_frac t)
   | FInf s \<Rightarrow> float_sign t s + float_emax t * p
   | FNum s m e \<Rightarrow> if m = 0 then float_sign t s
       else let q = max (e + bit_length m - int (float_frac t) - 1) (float_emin t);
                k = (if q \<le> e then m * 2 ^ nat (e - q) else round_even m (nat (q - e)))
         in float_sign t s + min ((q - float_emin t) * p + k) (float_emax t * p))"

definition int_to_float :: "int \<Rightarrow> int \<Rightarrow> int" where
  "int_to_float t v = float_encode t (FNum (v < 0) \<bar>v\<bar> 0)"

text \<open>Comparison with an integer, truncation towards zero, and \<open>(double) v\<close> of an integer, as a number.\<close>

fun float_cmp :: "fval \<Rightarrow> int \<Rightarrow> int option" where
  "float_cmp (FNan s f) k = None"
| "float_cmp (FInf s) k = Some (if s then -1 else 1)"
| "float_cmp (FNum s m e) k = Some (sgn ((if s then - m else m) * 2 ^ nat e - k * 2 ^ nat (- e)))"

fun float_trunc :: "fval \<Rightarrow> int option" where
  "float_trunc (FNum s m e) = Some ((if s then -1 else 1) * (m * 2 ^ nat e div 2 ^ nat (- e)))"
| "float_trunc _ = None"

definition as_double :: "int \<Rightarrow> int" where
  "as_double v = (let k = nat (bit_length \<bar>v\<bar> - 53) in sgn v * round_even \<bar>v\<bar> k * 2 ^ k)"

abbreviation (input) "FLT_MAX \<equiv> ((2 ^ 24 - 1) * 2 ^ 104 :: int)"

definition float_to_int :: "(int \<Rightarrow> fval \<Rightarrow> int) \<Rightarrow> int \<Rightarrow> fval \<Rightarrow> int" where
  "float_to_int ub t x = (case float_trunc x of Some k \<Rightarrow> if in_type t k then k else ub t x | None \<Rightarrow> ub t x)"

subsection \<open>One value\<close>

text \<open>
  \<open>ncx_get_*\<close>: the status and the value stored, \<open>None\<close> where the function returns before it stores one.
  \<open>ncx_put_*\<close>: the status and the external value.
\<close>

definition conv_get :: "(int \<Rightarrow> fval \<Rightarrow> int) \<Rightarrow> int \<Rightarrow> int \<Rightarrow> int \<Rightarrow> int \<times> int option" where
  "conv_get ub ext mem xx =
     (if ext = mem then (NC_NOERR, Some xx)
      else if is_float ext \<and> is_float mem
      then let x = float_decode ext xx in
        if ext = NC_DOUBLE \<and> float_cmp x FLT_MAX = Some 1 then (NC_ERANGE, Some (float_encode NC_FLOAT (FNum False FLT_MAX 0)))
        else if ext = NC_DOUBLE \<and> float_cmp x (- FLT_MAX) = Some (-1) then (NC_ERANGE, Some (float_encode NC_FLOAT (FNum True FLT_MAX 0)))
        else (NC_NOERR, Some (float_encode mem x))
      else if is_float ext
      then let x = float_decode ext xx in
        if mem \<in> {NC_INT64, NC_UINT64} \<and> float_cmp x (as_double (type_max mem)) = Some 0 then (NC_NOERR, Some (type_max mem))
        else if mem = NC_INT64 \<and> float_cmp x (type_min mem) = Some 0 then (NC_NOERR, Some (type_min mem))
        else if float_cmp x (as_double (type_max mem)) = Some 1 \<or> float_cmp x (type_min mem) = Some (-1) then (NC_ERANGE, None)
        else (NC_NOERR, Some (float_to_int ub mem x))
      else if is_float mem then (NC_NOERR, Some (int_to_float mem xx))
      else (if in_type mem xx then NC_NOERR else NC_ERANGE, Some (type_wrap mem xx)))"

definition conv_put :: "(int \<Rightarrow> fval \<Rightarrow> int) \<Rightarrow> int \<Rightarrow> int \<Rightarrow> int \<Rightarrow> int \<times> int" where
  "conv_put ub ext mem v =
     (if ext = mem then (NC_NOERR, v)
      else if is_float ext \<and> is_float mem
      then let x = float_decode mem v in
        (if ext = NC_FLOAT \<and> (float_cmp x FLT_MAX = Some 1 \<or> float_cmp x (- FLT_MAX) = Some (-1)) \<or> ext = NC_DOUBLE \<and> x \<in> {FInf False, FInf True}
         then NC_ERANGE else NC_NOERR, float_encode ext x)
      else if is_float mem
      then let x = float_decode mem v in
        (if float_cmp x (as_double (type_max ext)) = Some 1 \<or> float_cmp x (type_min ext) = Some (-1) then NC_ERANGE else NC_NOERR, float_to_int ub ext x)
      else if is_float ext then (NC_NOERR, int_to_float ext v)
      else (if in_type ext v then NC_NOERR else NC_ERANGE, type_wrap ext v))"

subsection \<open>Arrays of values\<close>

text \<open>\<open>ncx_getn_*\<close> on \<open>n\<close> values at \<open>xp\<close>, \<open>ncx_putn_*\<close>; a value out of range does not stop them.\<close>

primrec ncx_getn :: "(int \<Rightarrow> fval \<Rightarrow> int) \<Rightarrow> int \<Rightarrow> int \<Rightarrow> nat \<Rightarrow> string \<Rightarrow> int \<times> int option list" where
  "ncx_getn ub ext mem 0 xp = (NC_NOERR, [])"
| "ncx_getn ub ext mem (Suc n) xp = (let (lstatus, v) = conv_get ub ext mem (ext_value ext (take (type_bytes ext) xp));
       (status, vs) = ncx_getn ub ext mem n (drop (type_bytes ext) xp)
     in (if lstatus \<noteq> NC_NOERR then lstatus else status, v # vs))"

primrec ncx_putn :: "(int \<Rightarrow> fval \<Rightarrow> int) \<Rightarrow> int \<Rightarrow> int \<Rightarrow> int list \<Rightarrow> int \<times> string" where
  "ncx_putn ub ext mem [] = (NC_NOERR, [])"
| "ncx_putn ub ext mem (v # vs) = (let (lstatus, xx) = conv_put ub ext mem v; (status, bs) = ncx_putn ub ext mem vs
     in (if lstatus \<noteq> NC_NOERR then lstatus else status, ext_bytes ext xx @ bs))"

lemma length_ncx_putn: "length (snd (ncx_putn ub ext mem vs)) = length vs * type_bytes ext"
  by (induction vs) (auto split: prod.splits)

lemma length_ncx_getn: "length (snd (ncx_getn ub ext mem n xp)) = n"
  by (induction n arbitrary: xp) (auto split: prod.splits, metis snd_conv)

subsection \<open>Conversions of a list\<close>

text \<open>The status of an array: \<open>NC_ERANGE\<close> as soon as one value has it.\<close>

definition range_status :: "int list \<Rightarrow> int" where
  "range_status sts = (if \<forall>st \<in> set sts. st = NC_NOERR then NC_NOERR else NC_ERANGE)"

definition getn_values :: "(int \<Rightarrow> fval \<Rightarrow> int) \<Rightarrow> int \<Rightarrow> int \<Rightarrow> int list \<Rightarrow> int \<times> int option list" where
  "getn_values ub ext mem xs = (range_status (map (fst \<circ> conv_get ub ext mem) xs), map (snd \<circ> conv_get ub ext mem) xs)"

definition ext_values :: "int \<Rightarrow> nat \<Rightarrow> string \<Rightarrow> int list" where
  "ext_values ext n xp = map (\<lambda>i. ext_value ext (take (type_bytes ext) (drop (i * type_bytes ext) xp))) [0..<n]"

lemma ext_values_Suc: "ext_values ext (Suc n) xp = ext_value ext (take (type_bytes ext) xp) # ext_values ext n (drop (type_bytes ext) xp)"
  by (simp add: ext_values_def upt_conv_Cons map_Suc_upt [symmetric] comp_def add.commute del: upt_Suc)

lemma map_upt_add: "map f [0..<m + n] = map f [0..<m] @ map (\<lambda>i. f (m + i)) [0..<n]"
  by (induction n) simp_all

lemma ext_values_add: "ext_values ext (m + n) xp = ext_values ext m xp @ ext_values ext n (drop (m * type_bytes ext) xp)"
  by (simp add: ext_values_def map_upt_add add_mult_distrib add.commute)

lemma ext_values_take: "n * type_bytes ext \<le> k \<Longrightarrow> ext_values ext n (take k xp) = ext_values ext n xp"
proof (unfold ext_values_def, rule map_cong [OF refl])
  fix i assume k: "n * type_bytes ext \<le> k" and "i \<in> set [0..<n]"
  then have "Suc i * type_bytes ext \<le> n * type_bytes ext" by (intro mult_le_mono1) simp
  with k have "i * type_bytes ext + type_bytes ext \<le> k" by simp
  then show "ext_value ext (take (type_bytes ext) (drop (i * type_bytes ext) (take k xp))) = ext_value ext (take (type_bytes ext) (drop (i * type_bytes ext) xp))"
    by (simp add: drop_take min_def)
qed

lemma conv_get_status: "fst (conv_get ub ext mem x) \<in> {NC_NOERR, NC_ERANGE}"
  by (simp add: conv_get_def Let_def)

lemma conv_put_status: "fst (conv_put ub ext mem x) \<in> {NC_NOERR, NC_ERANGE}"
  by (simp add: conv_put_def Let_def)

lemma range_status_Cons: "st \<in> {NC_NOERR, NC_ERANGE} \<Longrightarrow> range_status (st # sts) = (if st \<noteq> NC_NOERR then st else range_status sts)"
  by (auto simp: range_status_def)

lemma range_status_append: "range_status (xs @ ys) = (if range_status xs = NC_NOERR then range_status ys else range_status xs)"
  by (auto simp: range_status_def)

lemma range_status_in: "range_status sts \<in> {NC_NOERR, NC_ERANGE}"
  by (simp add: range_status_def)

lemma ncx_getn_values: "ncx_getn ub ext mem n xp = getn_values ub ext mem (ext_values ext n xp)"
proof (induction n arbitrary: xp)
  case (Suc n)
  then show ?case
    using conv_get_status [of ub ext mem "ext_value ext (take (type_bytes ext) xp)"]
    by (simp add: getn_values_def ext_values_Suc range_status_Cons split: prod.split)
qed (simp add: getn_values_def ext_values_def range_status_def)

lemma getn_values_append:
  "getn_values ub ext mem (xs @ ys) = (let (st, vs) = getn_values ub ext mem xs; (st', vs') = getn_values ub ext mem ys
     in (if st = NC_NOERR then st' else st, vs @ vs'))"
  by (simp add: getn_values_def range_status_append)

definition putn_status :: "(int \<Rightarrow> fval \<Rightarrow> int) \<Rightarrow> int \<Rightarrow> int \<Rightarrow> int list \<Rightarrow> int" where
  "putn_status ub ext mem vs = range_status (map (fst \<circ> conv_put ub ext mem) vs)"

definition conv_bytes :: "(int \<Rightarrow> fval \<Rightarrow> int) \<Rightarrow> int \<Rightarrow> int \<Rightarrow> int \<Rightarrow> string" where
  "conv_bytes ub ext mem v = ext_bytes ext (snd (conv_put ub ext mem v))"

lemma length_conv_bytes [simp]: "length (conv_bytes ub ext mem v) = type_bytes ext"
  by (simp add: conv_bytes_def)

lemma ncx_putn_values: "ncx_putn ub ext mem vs = (putn_status ub ext mem vs, concat (map (conv_bytes ub ext mem) vs))"
proof (induction vs)
  case (Cons v vs)
  then show ?case
    using conv_put_status [of ub ext mem v]
    by (simp add: putn_status_def conv_bytes_def range_status_Cons split: prod.split)
qed (simp add: putn_status_def range_status_def)

lemma putn_status_append: "putn_status ub ext mem (xs @ ys) = (if putn_status ub ext mem xs = NC_NOERR then putn_status ub ext mem ys else putn_status ub ext mem xs)"
  by (simp add: putn_status_def range_status_append)

lemma length_concat_bytes: "length (concat (map (conv_bytes ub ext mem) vs)) = length vs * type_bytes ext"
  by (induction vs) simp_all

subsection \<open>Exactness\<close>

text \<open>Between integer types a conversion is exact or says \<open>NC_ERANGE\<close>, in both directions.\<close>

definition integer_type :: "int \<Rightarrow> bool" where
  "integer_type t \<longleftrightarrow> t \<in> {NC_BYTE, NC_SHORT, NC_INT, NC_UBYTE, NC_USHORT, NC_UINT, NC_INT64, NC_UINT64}"

lemma integer_not_float: "integer_type t \<Longrightarrow> \<not> is_float t"
  by (auto simp: integer_type_def is_float_def)

lemma conv_get_integer:
  "integer_type ext \<Longrightarrow> integer_type mem \<Longrightarrow> in_type ext x \<Longrightarrow>
    conv_get ub ext mem x = (if in_type mem x then NC_NOERR else NC_ERANGE, Some (type_wrap mem x))"
  by (auto simp: conv_get_def integer_not_float type_wrap_id)

lemma conv_put_integer:
  "integer_type ext \<Longrightarrow> integer_type mem \<Longrightarrow> in_type mem v \<Longrightarrow>
    conv_put ub ext mem v = (if in_type ext v then NC_NOERR else NC_ERANGE, type_wrap ext v)"
  by (auto simp: conv_put_def integer_not_float type_wrap_id)

text \<open>A value that was stored without \<open>NC_ERANGE\<close> comes back: integers, and any type into itself.\<close>

lemma conv_round_trip:
  assumes "integer_type ext \<and> integer_type mem \<or> ext = mem" "in_type mem v" "fst (conv_put ub ext mem v) = NC_NOERR"
  shows "conv_get ub ext mem (ext_value ext (conv_bytes ub ext mem v)) = (NC_NOERR, Some v)"
proof (cases "ext = mem")
  case True
  with assms(2) show ?thesis by (simp add: conv_get_def conv_put_def conv_bytes_def ext_value_bytes type_wrap_id)
next
  case False
  with assms have t: "integer_type ext" "integer_type mem" by auto
  from assms(3) have "in_type ext v" by (simp add: conv_put_integer [OF t assms(2)] split: if_splits)
  with t assms(2) show ?thesis
    by (simp add: conv_bytes_def conv_put_integer [OF t assms(2)] ext_value_bytes type_wrap_id conv_get_integer)
qed

subsection \<open>What the conversions promise\<close>

lemma be_mod: "be n (v mod 256 ^ n) = be n v"
proof (induction n arbitrary: v)
  case (Suc n)
  have "v mod 256 ^ Suc n div 256 = v div 256 mod 256 ^ n" "v mod 256 ^ Suc n mod 256 = v mod 256"
    by (simp_all add: zmod_zmult2_eq mod_mod_cancel)
  with Suc [of "v div 256"] show ?case by (simp del: power_Suc)
qed simp

lemma ext_bytes_wrap: "ext_bytes t (type_wrap t v) = ext_bytes t v"
proof -
  have p: "(2::int) ^ (8 * type_bytes t) = 256 ^ type_bytes t" by (simp add: power_mult)
  have "type_wrap t v mod 256 ^ type_bytes t = v mod 256 ^ type_bytes t"
    by (simp add: type_wrap_def p mod_add_left_eq)
  then show ?thesis using be_mod [of "type_bytes t" "type_wrap t v"] be_mod [of "type_bytes t" v] by (simp add: ext_bytes_def)
qed

lemma ext_values_bytes: "ext_values ext (length vs) (concat (map (ext_bytes ext) vs) @ ys) = map (type_wrap ext) vs"
  by (induction vs) (simp add: ext_values_def, simp add: ext_values_Suc ext_value_bytes)



text \<open>
  The double 2^63 does not fit a 64-bit integer, but the bound it is compared with is the maximum of the type converted to double, which is
  2^63 as well: storing it reports no error, and what is stored is what the machine makes of a cast that C leaves undefined. Reading it into
  \<open>long long\<close> reports no error either and gives 2^63 - 1. The next double above is reported in both directions.
\<close>

theorem ncx_longlong_double_limit:
  "conv_put ub NC_INT64 NC_DOUBLE 4890909195324358656 = (NC_NOERR, ub NC_INT64 (FNum False 4503599627370496 11)) \<and>
   float_trunc (float_decode NC_DOUBLE 4890909195324358656) = Some 9223372036854775808 \<and>
   conv_get ub NC_DOUBLE NC_INT64 4890909195324358656 = (NC_NOERR, Some 9223372036854775807) \<and>
   fst (conv_put ub NC_INT64 NC_DOUBLE 4890909195324358657) = NC_ERANGE \<and> conv_get ub NC_DOUBLE NC_INT64 4890909195324358657 = (NC_ERANGE, None)"
proof -
  have d: "float_decode NC_DOUBLE 4890909195324358656 = FNum False 4503599627370496 11" "float_decode NC_DOUBLE 4890909195324358657 = FNum False 4503599627370497 11"
    by code_simp+
  have a: "as_double 9223372036854775807 = 9223372036854775808" "type_min NC_INT64 = -9223372036854775808" "type_max NC_INT64 = 9223372036854775807" by code_simp+
  show ?thesis by (simp add: conv_put_def conv_get_def is_float_def Let_def d a float_to_int_def in_type_def)
qed

end
