(* ===== verification/NC3_Attval.thy ===== *)
theory NC3_Attval
  imports NC3_State NC_Convert
begin

text \<open>
  The values of attributes: \<open>NC3_put_att\<close> and \<open>NC3_get_att\<close> of \<open>libsrc/attr.c\<close> with the dispatch over the pairs of types below them, and the
  fill value of a variable, which is its attribute \<open>_FillValue\<close>. The values of the caller are a list of the memory type's values, text
  included; \<open>None\<close> stands for NULL. The padding of short values is NUL (\<open>nada\<close> in \<open>ncx.c\<close>).
\<close>

subsection \<open>Fill values\<close>

text \<open>The bit patterns of \<open>NC_FILL_FLOAT\<close> and \<open>NC_FILL_DOUBLE\<close>, both 15 * 2^119, for the floating types.\<close>

definition NC3_inq_default_fill_value :: "int \<Rightarrow> int \<times> int" where
  "NC3_inq_default_fill_value xtype =
     (if xtype = NC_CHAR then (NC_NOERR, 0) else if xtype = NC_BYTE then (NC_NOERR, -127) else if xtype = NC_SHORT then (NC_NOERR, -32767)
      else if xtype = NC_INT then (NC_NOERR, -2147483647) else if xtype = NC_FLOAT then (NC_NOERR, 0x7CF00000)
      else if xtype = NC_DOUBLE then (NC_NOERR, 0x479E000000000000) else if xtype = NC_UBYTE then (NC_NOERR, 255)
      else if xtype = NC_USHORT then (NC_NOERR, 65535) else if xtype = NC_UINT then (NC_NOERR, 4294967295)
      else if xtype = NC_INT64 then (NC_NOERR, -9223372036854775806) else if xtype = NC_UINT64 then (NC_NOERR, 18446744073709551614)
      else (NC_EBADTYPE, 0))"

subsection \<open>Dispatch over the types\<close>

text \<open>
  The \<open>ncx_pad_putn\<close> functions fill bytes up to a multiple of 4 and shorts up to an even number; those of \<open>NC_USHORT\<close> do not pad.
  \<open>byte_ext\<close>: in a CDF-1 or CDF-2 file bytes are unsigned when the memory type is.
\<close>

definition pad_bytes :: "int \<Rightarrow> nat \<Rightarrow> string" where
  "pad_bytes type n = replicate (if type \<in> {NC_BYTE, NC_CHAR, NC_UBYTE} then (4 - n mod 4) mod 4
     else if type = NC_SHORT then n mod 2 * 2 else 0) NULB"

definition byte_ext :: "int \<Rightarrow> int \<Rightarrow> int \<Rightarrow> int" where
  "byte_ext flgs type memtype = (if \<not> fIsSet flgs NC_64BIT_DATA \<and> type = NC_BYTE \<and> memtype = NC_UBYTE then NC_UBYTE else type)"

definition dispatchput :: "(int \<Rightarrow> fval \<Rightarrow> int) \<Rightarrow> string \<Rightarrow> nat \<Rightarrow> int list \<Rightarrow> int \<Rightarrow> int \<Rightarrow> (int \<times> string) run" where
  "dispatchput ub xp nelems tp atype memtype =
     (if memtype < NC_BYTE \<or> NC_UINT64 < memtype then Done (NC_EBADTYPE, xp)
      else if memtype \<noteq> NC_CHAR \<and> atype = NC_CHAR then Done (NC_ECHAR, xp)
      else let ext = (if memtype = NC_CHAR then NC_CHAR else atype) in
        assert_run (NC_BYTE \<le> ext \<and> ext \<le> NC_UINT64 \<and> nelems \<le> length tp)
          (let (status, bs) = ncx_putn ub ext memtype (take nelems tp); w = bs @ pad_bytes ext nelems in
           if length xp < length w then Fault else Done (status, blit xp 0 w)))"

text \<open>The \<open>switch\<close> of \<open>NC3_get_att\<close> with the \<open>ncx_pad_getn\<close> functions it calls.\<close>

definition dispatchget :: "(int \<Rightarrow> fval \<Rightarrow> int) \<Rightarrow> string \<Rightarrow> nat \<Rightarrow> int \<Rightarrow> int \<Rightarrow> (int \<times> int option list) run" where
  "dispatchget ub xp nelems atype memtype =
     (if memtype < NC_BYTE \<or> NC_UINT64 < memtype then Done (NC_EBADTYPE, [])
      else if memtype \<noteq> NC_CHAR \<and> atype = NC_CHAR then Done (NC_ECHAR, [])
      else let ext = (if memtype = NC_CHAR then NC_CHAR else atype) in
        assert_run (NC_BYTE \<le> ext \<and> ext \<le> NC_UINT64)
          (if length xp < nelems * type_bytes ext then Fault else Done (ncx_getn ub ext memtype nelems xp)))"

subsection \<open>The calls\<close>

text \<open>
  An attribute that is there already is overwritten in place outside define mode, if it does not get longer: its block stays, with
  \<open>xsz\<close> bytes of it in use. In define mode the new attribute takes its place. \<open>put_values\<close> is the conversion both have in common.
\<close>

definition put_values :: "(int \<Rightarrow> fval \<Rightarrow> int) \<Rightarrow> int \<Rightarrow> string \<Rightarrow> int \<Rightarrow> nat \<Rightarrow> int list option \<Rightarrow> int \<Rightarrow> (int \<times> string) run" where
  "put_values ub flgs xvalue type nelems value memtype = (if nelems = 0 then Done (NC_NOERR, xvalue)
     else dispatchput ub xvalue nelems (case value of None \<Rightarrow> [] | Some vs \<Rightarrow> vs) (byte_ext flgs type memtype) memtype)"

definition att_overwrite :: "(int \<Rightarrow> fval \<Rightarrow> int) \<Rightarrow> 's ncio \<Rightarrow> nc3_info \<Rightarrow> int \<Rightarrow> NC_attrarray \<Rightarrow> nat \<Rightarrow> int \<Rightarrow> nat \<Rightarrow> int list option \<Rightarrow> int \<Rightarrow> 's \<Rightarrow>
    (int \<times> unit \<times> nc3_info \<times> 's) run" where
  "att_overwrite ub io ncp varid ncap i type nelems value memtype s = (let attrp = atts_value ncap ! i in
     run_bind (ncx_len_NC_attrV type nelems) (\<lambda>xsz. if att_xsz attrp < xsz then Done (NC_ENOTINDEFINE, (), ncp, s)
       else run_bind (put_values ub (flags ncp) (att_xvalue attrp) type nelems value memtype) (\<lambda>(status, xvalue).
         run_bind (dirty_sync io (set_attrarray0 ncp varid (ncap\<lparr>atts_value := (atts_value ncap)[i :=
             attrp\<lparr>att_xsz := xsz, att_type := type, att_nelems := nelems, att_xvalue := take xsz xvalue\<rparr>]\<rparr>)) s) (\<lambda>(lstatus, u, ncp1, s1).
           Done (if lstatus \<noteq> NC_NOERR then lstatus else status, (), ncp1, s1)))))"

definition att_define :: "nc_env \<Rightarrow> (int \<Rightarrow> fval \<Rightarrow> int) \<Rightarrow> nc3_info \<Rightarrow> int \<Rightarrow> NC_attrarray \<Rightarrow> nat option \<Rightarrow> string \<Rightarrow> int \<Rightarrow> nat \<Rightarrow> int list option \<Rightarrow> int \<Rightarrow> 's \<Rightarrow>
    (int \<times> unit \<times> nc3_info \<times> 's) run" where
  "att_define E ub ncp varid ncap prev name type nelems value memtype s =
     (if NC_check_name (env_validate E) name \<noteq> NC_NOERR then Done (NC_check_name (env_validate E) name, (), ncp, s)
      else run_bind (new_NC_attr E name type nelems) (\<lambda>a. case a of None \<Rightarrow> Done (NC_ENOMEM, (), ncp, s)
      | Some new \<Rightarrow> run_bind (put_values ub (flags ncp) (att_xvalue new) type nelems value memtype) (\<lambda>(status, xvalue).
          let attrp = new\<lparr>att_xvalue := xvalue\<rparr> in case prev of
            Some i \<Rightarrow> Done (status, (), set_attrarray0 ncp varid (ncap\<lparr>atts_value := (atts_value ncap)[i := attrp]\<rparr>), s)
          | None \<Rightarrow> run_bind (incr_NC_attrarray E ncap attrp) (\<lambda>(lstatus, ncap1).
              if lstatus \<noteq> NC_NOERR then Done (lstatus, (), ncp, s) else Done (status, (), set_attrarray0 ncp varid ncap1, s)))))"

definition NC3_put_att :: "nc_env \<Rightarrow> (int \<Rightarrow> fval \<Rightarrow> int) \<Rightarrow> 's ncio \<Rightarrow> 's nc3_files \<Rightarrow> int \<Rightarrow> int \<Rightarrow> string option \<Rightarrow> int \<Rightarrow> nat \<Rightarrow> int list option \<Rightarrow> int \<Rightarrow>
    (int \<times> unit \<times> 's nc3_files) run" where
  "NC3_put_att E ub io fs ncid varid name0 type nelems value memtype0 = with_nc3 fs ncid () (\<lambda>mode ncp s.
     if NC_readonly ncp then Done (NC_EPERM, (), ncp, s)
     else case NC_attrarray0 ncp varid of None \<Rightarrow> Done (NC_ENOTVAR, (), ncp, s)
     | Some ncap \<Rightarrow> case name0 of None \<Rightarrow> Done (NC_EBADNAME, (), ncp, s)
     | Some name \<Rightarrow> if nc3_cktype mode type \<noteq> NC_NOERR then Done (nc3_cktype mode type, (), ncp, s)
     else let memtype = (if memtype0 = 0 then type else memtype0) in
       if (memtype = NC_CHAR) \<noteq> (type = NC_CHAR) then Done (NC_ECHAR, (), ncp, s)
       else if X_INT_MAX < int nelems then Done (NC_EINVAL, (), ncp, s)
       else if nelems \<noteq> 0 \<and> value = None then Done (NC_EINVAL, (), ncp, s)
       else if fst (NC3_inq_default_fill_value type) \<noteq> NC_NOERR then Done (fst (NC3_inq_default_fill_value type), (), ncp, s)
       else (case NC_findattr E ncap name of
           Some i \<Rightarrow> if \<not> NC_indef ncp then att_overwrite ub io ncp varid ncap i type nelems value memtype s
             else att_define E ub ncp varid ncap (Some i) name type nelems value memtype s
         | None \<Rightarrow> if \<not> NC_indef ncp then Done (NC_ENOTINDEFINE, (), ncp, s)
             else att_define E ub ncp varid ncap None name type nelems value memtype s))"

definition NC3_get_att :: "nc_env \<Rightarrow> (int \<Rightarrow> fval \<Rightarrow> int) \<Rightarrow> 's nc3_files \<Rightarrow> int \<Rightarrow> int \<Rightarrow> string option \<Rightarrow> int \<Rightarrow>
    (int \<times> int option list \<times> 's nc3_files) run" where
  "NC3_get_att E ub fs ncid varid name memtype0 = with_nc3 fs ncid [] (\<lambda>mode ncp s. case NC_lookupattr E ncp varid name of
       (status, None) \<Rightarrow> Done (status, [], ncp, s)
     | (_, Some attrp) \<Rightarrow> if att_nelems attrp = 0 then Done (NC_NOERR, [], ncp, s)
     else let memtype = (if memtype0 = 0 then att_type attrp else memtype0) in
       if (memtype = NC_CHAR) \<noteq> (att_type attrp = NC_CHAR) then Done (NC_ECHAR, [], ncp, s)
       else run_bind (dispatchget ub (att_xvalue attrp) (att_nelems attrp) (byte_ext (flags ncp) (att_type attrp) memtype) memtype)
         (\<lambda>(status, vs). Done (status, vs, ncp, s)))"

text \<open>\<open>nc_get_att\<close> of \<open>libdispatch/dattget.c\<close>: the values in the attribute's own type.\<close>

definition nc_get_att :: "nc_env \<Rightarrow> (int \<Rightarrow> fval \<Rightarrow> int) \<Rightarrow> 's nc3_files \<Rightarrow> int \<Rightarrow> int \<Rightarrow> string option \<Rightarrow> (int \<times> int option list \<times> 's nc3_files) run" where
  "nc_get_att E ub fs ncid varid name = run_bind (NC3_inq_att E fs ncid varid name) (\<lambda>(status, r, fs1). case r of
       None \<Rightarrow> Done (status, [], fs1)
     | Some (xtype, len) \<Rightarrow> NC3_get_att E ub fs1 ncid varid name xtype)"

text \<open>The end of \<open>NC3_inq_var\<close>, with a place for the fill value: the attribute or the default of the type.\<close>

definition inq_var_fill_value :: "nc_env \<Rightarrow> (int \<Rightarrow> fval \<Rightarrow> int) \<Rightarrow> 's nc3_files \<Rightarrow> int \<Rightarrow> int \<Rightarrow> (int \<times> int option list \<times> 's nc3_files) run" where
  "inq_var_fill_value E ub fs ncid varid = run_bind (NC3_inq_var fs ncid varid) (\<lambda>(status, r, fs1). case r of
       None \<Rightarrow> Done (status, [], fs1)
     | Some (nm, type, rest) \<Rightarrow> run_bind (nc_get_att E ub fs1 ncid varid (Some ''_FillValue'')) (\<lambda>(status, vs, fs2).
         if status \<noteq> NC_NOERR \<and> status \<noteq> NC_ENOTATT then Done (status, vs, fs2)
         else if status = NC_ENOTATT
         then (let (st, v) = NC3_inq_default_fill_value type in if st \<noteq> NC_NOERR then Done (st, [], fs2) else Done (NC_NOERR, [Some v], fs2))
         else Done (NC_NOERR, vs, fs2)))"

text \<open>\<open>NC3_def_var_fill\<close> with a fill value: the mode first, then the attribute is deleted and made again.\<close>

definition def_var_fill_value :: "nc_env \<Rightarrow> (int \<Rightarrow> fval \<Rightarrow> int) \<Rightarrow> 's ncio \<Rightarrow> 's nc3_files \<Rightarrow> int \<Rightarrow> int \<Rightarrow> bool \<Rightarrow> int option \<Rightarrow> (int \<times> unit \<times> 's nc3_files) run" where
  "def_var_fill_value E ub io fs ncid varid no_fill fill_value = run_bind (NC3_def_var_fill fs ncid varid no_fill) (\<lambda>(status, u, fs1).
     if status \<noteq> NC_NOERR then Done (status, (), fs1)
     else case fill_value of None \<Rightarrow> Done (NC_NOERR, (), fs1)
     | Some v \<Rightarrow> if no_fill then Done (NC_NOERR, (), fs1)
     else run_bind (NC3_del_att E fs1 ncid varid ''_FillValue'') (\<lambda>(status, u, fs2).
       if status \<noteq> NC_NOERR \<and> status \<noteq> NC_ENOTATT then Done (status, (), fs2)
       else run_bind (NC3_inq_var fs2 ncid varid) (\<lambda>(st, r, fs3). case r of None \<Rightarrow> Fault
         | Some (nm, type, rest) \<Rightarrow> NC3_put_att E ub io fs3 ncid varid (Some ''_FillValue'') type 1 (Some [v]) type)))"

subsection \<open>Values that come back\<close>

lemma putn_getn:
  assumes "integer_type ext \<and> integer_type mem \<or> ext = mem" "\<forall>v \<in> set vs. in_type mem v" "fst (ncx_putn ub ext mem vs) = NC_NOERR"
  shows "ncx_getn ub ext mem (length vs) (snd (ncx_putn ub ext mem vs) @ w) = (NC_NOERR, map Some vs)"
  using assms(2,3)
proof (induction vs)
  case (Cons v vs)
  have st: "fst (conv_put ub ext mem v) = NC_NOERR" "fst (ncx_putn ub ext mem vs) = NC_NOERR"
    using Cons.prems(2) by (auto split: prod.splits if_splits)
  have b: "snd (ncx_putn ub ext mem (v # vs)) = conv_bytes ub ext mem v @ snd (ncx_putn ub ext mem vs)"
    by (simp add: conv_bytes_def split: prod.split)
  have "conv_get ub ext mem (ext_value ext (conv_bytes ub ext mem v)) = (NC_NOERR, Some v)"
    by (rule conv_round_trip) (use assms(1) Cons.prems(1) st(1) in auto)
  moreover have "ncx_getn ub ext mem (length vs) (snd (ncx_putn ub ext mem vs) @ w) = (NC_NOERR, map Some vs)"
    using Cons.IH Cons.prems(1) st(2) by simp
  ultimately show ?case unfolding b by simp
qed simp

lemma types_cases: "(t::int) \<in> {1..11} \<Longrightarrow> t = 1 \<or> t = 2 \<or> t = 3 \<or> t = 4 \<or> t = 5 \<or> t = 6 \<or> t = 7 \<or> t = 8 \<or> t = 9 \<or> t = 10 \<or> t = 11"
  by simp presburger

lemma type_size_bytes: "t \<in> {1..11} \<Longrightarrow> type_size t = type_bytes t"
  by (drule types_cases, elim disjE) (simp_all add: type_size_def ncmpix_len_nctype_def type_bytes_def)

lemma ncx_len_Done: "t \<in> {1..11} \<Longrightarrow> \<exists>sz. ncx_len_NC_attrV t n = Done sz"
  by (drule types_cases, elim disjE) (simp_all add: ncx_len_NC_attrV_def)

text \<open>The size of the values: as many bytes as they take, rounded up to a multiple of 4.\<close>

lemma att_len:
  assumes t: "t \<in> {1..11}" and n: "int n \<le> X_INT_MAX"
  shows "ncx_len_NC_attrV t n = Done (RNDUP (type_bytes t * n) 4)"
proof -
  have "type_bytes t * n \<le> 8 * n" using type_bytes_cases [of t] by (intro mult_right_mono) auto
  with n have "type_bytes t * n + 64 < 18446744073709551616" by linarith
  then have small: "type_size t * n + 64 < 18446744073709551616" using type_size_bytes [OF t] by simp
  obtain sz where "ncx_len_NC_attrV t n = Done sz" using ncx_len_Done [OF t] by blast
  with attr_len [OF t small this] type_size_bytes [OF t] show ?thesis by auto
qed

lemma pad_bytes_fit: "t \<in> {1..11} \<Longrightarrow> type_bytes t * n + length (pad_bytes t n) \<le> RNDUP (type_bytes t * n) 4"
proof -
  assume "t \<in> {1..11}"
  have r: "m + (4 - m mod 4) mod 4 \<le> RNDUP m 4" "2 * m + m mod 2 * 2 \<le> RNDUP (2 * m) 4" for m
  proof -
    have "m mod 4 = 0 \<or> m mod 4 = 1 \<or> m mod 4 = 2 \<or> m mod 4 = 3" "m = m div 4 * 4 + m mod 4" by (presburger, simp)
    then show "m + (4 - m mod 4) mod 4 \<le> RNDUP m 4" unfolding RNDUP_def by (elim disjE) (simp_all, presburger+)
    show "2 * m + m mod 2 * 2 \<le> RNDUP (2 * m) 4" unfolding RNDUP_def by presburger
  qed
  consider "t \<in> {1, 2, 7}" | "t = 3" | "t \<notin> {1, 2, 3, 7}" by blast
  then show ?thesis
  proof cases
    case 1
    then have "type_bytes t = 1" "length (pad_bytes t n) = (4 - n mod 4) mod 4" by (auto simp: pad_bytes_def type_bytes_def)
    with r(1) show ?thesis by simp
  next
    case 2
    then have "type_bytes t = 2" "length (pad_bytes t n) = n mod 2 * 2" by (auto simp: pad_bytes_def type_bytes_def)
    with r(2) show ?thesis by simp
  next
    case 3
    then have "length (pad_bytes t n) = 0" by (simp add: pad_bytes_def)
    with RNDUP_4_ge show ?thesis by simp
  qed
qed

lemma byte_ext_bytes: "type_bytes (byte_ext flgs t mem) = type_bytes t" "t \<in> {1..11} \<Longrightarrow> byte_ext flgs t mem \<in> {1..11}"
  by (auto simp: byte_ext_def type_bytes_def)

text \<open>
  What \<open>put_values\<close> stores in a block that has room, \<open>dispatchget\<close> reads, unless it reported \<open>NC_ERANGE\<close>: between integer types, and in the
  type itself.
\<close>

lemma put_values_get:
  assumes t: "type \<in> {1..11}" "mem \<in> {1..11}" "(mem = NC_CHAR) = (type = NC_CHAR)" and c: "integer_type type \<and> integer_type mem \<or> type = mem"
    and vs: "\<forall>v \<in> set vs. in_type mem v" "vs \<noteq> []" and room: "RNDUP (type_bytes type * length vs) 4 \<le> length xv"
  obtains st w where "put_values ub flgs xv type (length vs) (Some vs) mem = Done (st, w)" "length w = length xv"
    "st = NC_NOERR \<Longrightarrow> dispatchget ub (take (RNDUP (type_bytes type * length vs) 4) w) (length vs) (byte_ext flgs type mem) mem = Done (NC_NOERR, map Some vs)"
proof -
  let ?x = "byte_ext flgs type mem" and ?n = "length vs"
  have x: "?x \<in> {1..11}" "type_bytes ?x = type_bytes type" "mem \<noteq> NC_CHAR \<Longrightarrow> ?x \<noteq> NC_CHAR" "mem = NC_CHAR \<Longrightarrow> ?x = NC_CHAR"
    using byte_ext_bytes t by (auto simp: byte_ext_def)
  have xt: "integer_type ?x \<and> integer_type mem \<or> ?x = mem" using c by (auto simp: byte_ext_def integer_type_def)
  obtain st bs where p: "ncx_putn ub ?x mem vs = (st, bs)" by fastforce
  then have l: "length bs = ?n * type_bytes type" using length_ncx_putn [of ub ?x mem vs] x(2) by simp
  let ?w = "bs @ pad_bytes ?x ?n"
  have lw: "length ?w \<le> RNDUP (type_bytes type * ?n) 4" using pad_bytes_fit [OF x(1), of ?n] l x(2) by (simp add: mult.commute)
  have e: "(if mem = NC_CHAR then NC_CHAR else ?x) = ?x" using x(4) by simp
  have put: "put_values ub flgs xv type ?n (Some vs) mem = Done (st, blit xv 0 ?w)"
    using x t(2) vs(2) lw room p unfolding put_values_def dispatchput_def Let_def e by auto
  have tk: "take (RNDUP (type_bytes type * ?n) 4) (blit xv 0 ?w) = bs @ (pad_bytes ?x ?n @ take (RNDUP (type_bytes type * ?n) 4 - length ?w) (drop (length ?w) xv))"
    using lw by (simp add: blit_def)
  have "ncx_getn ub ?x mem ?n (bs @ u) = (NC_NOERR, map Some vs)" if "st = NC_NOERR" for u
    using putn_getn [OF xt vs(1), of ub u] p that by simp
  then have "dispatchget ub (take (RNDUP (type_bytes type * ?n) 4) (blit xv 0 ?w)) ?n ?x mem = Done (NC_NOERR, map Some vs)" if "st = NC_NOERR"
    using that x t(2) unfolding dispatchget_def Let_def tk e by (auto simp: l)
  moreover have "length (blit xv 0 ?w) = length xv" using lw room by simp
  ultimately show thesis using put that by blast
qed

subsection \<open>What the calls do to the array\<close>

text \<open>A sync changes nothing of the header but bits of the flags.\<close>

definition same_atts :: "nc3_info \<Rightarrow> nc3_info \<Rightarrow> bool" where
  "same_atts ncp ncp' \<longleftrightarrow> (\<exists>f. ncp' = ncp\<lparr>flags := f\<rparr> \<and> fIsSet f NC_64BIT_DATA = fIsSet (flags ncp) NC_64BIT_DATA \<and>
     fIsSet f NC_64BIT_OFFSET = fIsSet (flags ncp) NC_64BIT_OFFSET)"

lemma same_attsI:
  "fIsSet f NC_64BIT_DATA = fIsSet (flags n) NC_64BIT_DATA \<Longrightarrow> fIsSet f NC_64BIT_OFFSET = fIsSet (flags n) NC_64BIT_OFFSET \<Longrightarrow> same_atts n (n\<lparr>flags := f\<rparr>)"
  by (auto simp: same_atts_def)

lemma same_atts_simps [simp]:
  "same_atts n n" "same_atts n (set_NC_hdirty n)" "same_atts n (n\<lparr>flags := fClr (flags n) NC_DIRTY_BITS\<rparr>)" "same_atts n (n\<lparr>flags := fClr (flags n) NC_NDIRTY\<rparr>)"
proof -
  show "same_atts n n" using same_attsI [OF refl refl, of n] by simp
  show "same_atts n (set_NC_hdirty n)" unfolding set_NC_hdirty_def by (rule same_attsI) (simp_all add: fIsSet_single flag_bits)
  show "same_atts n (n\<lparr>flags := fClr (flags n) NC_DIRTY_BITS\<rparr>)" by (rule same_attsI) (simp_all add: fIsSet_single flag_bits)
  show "same_atts n (n\<lparr>flags := fClr (flags n) NC_NDIRTY\<rparr>)" by (rule same_attsI) (simp_all add: fIsSet_single flag_bits)
qed

lemma same_atts_trans: "same_atts a b \<Longrightarrow> same_atts b c \<Longrightarrow> same_atts a c"
proof -
  assume "same_atts a b" "same_atts b c"
  then obtain f g where b: "b = a\<lparr>flags := f\<rparr>" and c: "c = b\<lparr>flags := g\<rparr>"
    and e: "fIsSet g NC_64BIT_DATA = fIsSet (flags a) NC_64BIT_DATA" "fIsSet g NC_64BIT_OFFSET = fIsSet (flags a) NC_64BIT_OFFSET"
    unfolding same_atts_def by force
  have "c = a\<lparr>flags := g\<rparr>" unfolding c b by simp
  then show "same_atts a c" using same_attsI [OF e] by simp
qed

lemma NC_sync_atts: "when_done (\<lambda>(st, ncp', s'). same_atts ncp ncp') (NC_sync io ncp s)"
  unfolding NC_sync_def write_NC_def write_numrecs_def
  by (intro when_done_assert when_done_if when_done_bind_any when_done_prod) (simp_all split: prod.split)

lemma dirty_sync_atts: "when_done (\<lambda>(st, u, ncp', s'). same_atts ncp ncp') (dirty_sync io ncp s)"
  unfolding dirty_sync_def Let_def
  by (intro when_done_if when_done_bind [OF NC_sync_atts]) (auto intro: same_atts_trans [OF same_atts_simps(2)])

lemma attrarray0_set:
  assumes "NC_attrarray0 ncp varid = Some ncap"
  shows "NC_attrarray0 (set_attrarray0 ncp varid ap) varid' = (if varid' = varid then Some ap else NC_attrarray0 ncp varid')"
  using assms by (auto simp: NC_attrarray0_def set_attrarray0_def nth_list_update split: if_splits)

lemma set_attrarray0_sel [simp]: "flags (set_attrarray0 ncp varid ap) = flags ncp" "dims (set_attrarray0 ncp varid ap) = dims ncp"
  by (simp_all add: set_attrarray0_def)

lemma attrarray0_same: "same_atts ncp ncp' \<Longrightarrow> NC_attrarray0 ncp' = NC_attrarray0 ncp"
  by (auto simp: same_atts_def NC_attrarray0_def)

text \<open>
  The attribute \<open>a\<close> with the name \<open>k\<close> holds the values \<open>vs\<close> that were stored through the memory type \<open>mem\<close>: \<open>NC3_get_att\<close> finds them.
\<close>

definition holds :: "(int \<Rightarrow> fval \<Rightarrow> int) \<Rightarrow> int \<Rightarrow> NC_attr \<Rightarrow> string \<Rightarrow> int \<Rightarrow> int list \<Rightarrow> int \<Rightarrow> bool" where
  "holds ub flgs a k type vs mem \<longleftrightarrow> cstr (att_name a) = k \<and> att_type a = type \<and> att_nelems a = length vs \<and>
     (vs \<noteq> [] \<longrightarrow> dispatchget ub (att_xvalue a) (length vs) (byte_ext flgs type mem) mem = Done (NC_NOERR, map Some vs))"

text \<open>Types and values a call can round-trip.\<close>

definition storable :: "int \<Rightarrow> int \<Rightarrow> int list \<Rightarrow> bool" where
  "storable type mem vs \<longleftrightarrow> type \<in> {1..11} \<and> mem \<in> {1..11} \<and> (mem = NC_CHAR) = (type = NC_CHAR) \<and>
     (integer_type type \<and> integer_type mem \<or> type = mem) \<and> (\<forall>v \<in> set vs. in_type mem v) \<and> int (length vs) \<le> X_INT_MAX"

lemma put_values_holds:
  assumes "storable type mem vs" "RNDUP (type_bytes type * length vs) 4 \<le> length xv"
  obtains st w where "put_values ub flgs xv type (length vs) (Some vs) mem = Done (st, w)" "length w = length xv"
    "st = NC_NOERR \<Longrightarrow> holds ub flgs (a\<lparr>att_type := type, att_nelems := length vs, att_xvalue := take (RNDUP (type_bytes type * length vs) 4) w\<rparr>)
       (cstr (att_name a)) type vs mem"
proof (cases "vs = []")
  case True
  then show thesis by (intro that [of NC_NOERR xv]) (simp_all add: put_values_def holds_def)
next
  case False
  have s: "type \<in> {1..11}" "mem \<in> {1..11}" "(mem = NC_CHAR) = (type = NC_CHAR)" "integer_type type \<and> integer_type mem \<or> type = mem" "\<forall>v \<in> set vs. in_type mem v"
    using assms(1) unfolding storable_def by blast+
  from put_values_get [OF s False assms(2)] obtain st w where "put_values ub flgs xv type (length vs) (Some vs) mem = Done (st, w)" "length w = length xv"
    "st = NC_NOERR \<Longrightarrow> dispatchget ub (take (RNDUP (type_bytes type * length vs) 4) w) (length vs) (byte_ext flgs type mem) mem = Done (NC_NOERR, map Some vs)" by metis
  then show thesis by (intro that [of st w]) (simp_all add: holds_def)
qed

lemma new_NC_attr_ok:
  assumes "env_ok E" "normal_name E name k" "type \<in> {1..11}" "int n \<le> X_INT_MAX"
  obtains a where "new_NC_attr E name type n = Done (Some a)" "cstr (att_name a) = k" "str_wf (att_name a)" "nchars (att_name a) = length k"
    "att_type a = type" "att_nelems a = n" "att_xsz a = RNDUP (type_bytes type * n) 4" "length (att_xvalue a) = att_xsz a"
proof -
  have k: "env_normalize E name = Inr k" "k \<noteq> []" "NULB \<notin> set k" using assms(2) by (simp_all add: normal_name_def)
  from new_NC_string_Some [OF _ k(3), of "env_mem E"] assms(1) obtain strp where
    str: "new_NC_string (env_mem E) (length k) (Some k) = Some strp" "str_wf strp" "cstr strp = k" "nchars strp = length k" by (auto simp: env_ok_def)
  let ?sz = "RNDUP (type_bytes type * n) 4"
  have "0 < ?sz \<or> n = 0" using RNDUP_4_ge [of "type_bytes type * n"] type_bytes_pos [of type] by (metis gr_zeroI leD mult_is_0)
  then show thesis using k str assms(1)
    by (intro that [of "\<lparr>att_xsz = ?sz, att_name = strp, att_type = type, att_nelems = n, att_xvalue = replicate ?sz NULB\<rparr>"])
      (simp_all add: new_NC_attr_def new_x_NC_attr_def att_len [OF assms(3,4)] env_ok_def)
qed

lemma findattr_loop_name: "findattr_loop as k n = Some j \<Longrightarrow> n \<le> j \<and> j - n < length as \<and> cstr (att_name (as ! (j - n))) = k"
proof (induction as arbitrary: n)
  case (Cons a as)
  show ?case
  proof (cases "cstr (att_name a) = k")
    case True
    with Cons.prems show ?thesis by (simp add: findattr_loop_eq del: findattr_loop.simps(2))
  next
    case False
    with Cons have "Suc n \<le> j \<and> j - Suc n < length as \<and> cstr (att_name (as ! (j - Suc n))) = k"
      by (simp add: findattr_loop_eq del: findattr_loop.simps(2))
    moreover from this have "j - n = Suc (j - Suc n)" by linarith
    ultimately show ?thesis by simp
  qed
qed simp

text \<open>What is common to the ways \<open>NC3_put_att\<close> may go: the array gets one attribute with the values, in place of the old one or at the end.\<close>

definition att_put :: "(int \<Rightarrow> fval \<Rightarrow> int) \<Rightarrow> int \<Rightarrow> NC_attr list \<Rightarrow> NC_attr list \<Rightarrow> string \<Rightarrow> int \<Rightarrow> int list \<Rightarrow> int \<Rightarrow> bool" where
  "att_put ub flgs as as' k type vs mem \<longleftrightarrow> (\<exists>a. holds ub flgs a k type vs mem \<and>
     (case findattr_loop as k 0 of Some i \<Rightarrow> as' = as[i := a] | None \<Rightarrow> as' = as @ [a]))"

lemma incr_atts: "when_done (\<lambda>(st, ncap'). st = NC_NOERR \<longrightarrow> atts_value ncap' = atts_value ncap @ [a]) (incr_NC_attrarray E ncap a)"
  by (auto simp: incr_NC_attrarray_def intro!: when_done_assert)

lemma att_define_ok:
  fixes s :: 's
  assumes e: "env_ok E" "normal_name E name k" and v: "storable type mem vs" and p: "prev = findattr_loop (atts_value ncap) k 0"
  shows "when_done (\<lambda>(st, u, ncp', s' :: 's). st = NC_NOERR \<longrightarrow> (\<exists>ncap'. ncp' = set_attrarray0 ncp varid ncap' \<and>
      att_put ub (flags ncp) (atts_value ncap) (atts_value ncap') k type vs mem))
    (att_define E ub ncp varid ncap prev name type (length vs) (Some vs) mem s)"
proof -
  have t: "type \<in> {1..11}" "int (length vs) \<le> X_INT_MAX" using v by (simp_all add: storable_def)
  from new_NC_attr_ok [OF e t] obtain a where a: "new_NC_attr E name type (length vs) = Done (Some a)" "cstr (att_name a) = k" "att_type a = type"
    "att_nelems a = length vs" "att_xsz a = RNDUP (type_bytes type * length vs) 4" "length (att_xvalue a) = att_xsz a" by metis
  from put_values_holds [OF v, of "att_xvalue a" ub "flags ncp" a] a(5,6) obtain st w where
    w: "put_values ub (flags ncp) (att_xvalue a) type (length vs) (Some vs) mem = Done (st, w)" "length w = length (att_xvalue a)"
    "st = NC_NOERR \<Longrightarrow> holds ub (flags ncp) (a\<lparr>att_type := type, att_nelems := length vs, att_xvalue := take (RNDUP (type_bytes type * length vs) 4) w\<rparr>)
       (cstr (att_name a)) type vs mem" by auto
  have "a\<lparr>att_type := type, att_nelems := length vs, att_xvalue := take (RNDUP (type_bytes type * length vs) 4) w\<rparr> = a\<lparr>att_xvalue := w\<rparr>"
    using a(3-6) w(2) by simp
  then have h: "st = NC_NOERR \<Longrightarrow> holds ub (flags ncp) (a\<lparr>att_xvalue := w\<rparr>) k type vs mem" using w(3) a(2) by simp
  show ?thesis
  proof (cases prev)
    case (Some i)
    then show ?thesis using h p by (auto simp: att_define_def a(1) w(1) Let_def att_put_def intro!: exI [of _ "ncap\<lparr>atts_value := (atts_value ncap)[i := a\<lparr>att_xvalue := w\<rparr>]\<rparr>"])
  next
    case None
    have "when_done (\<lambda>(st', u, ncp', s'). st' = NC_NOERR \<longrightarrow> (\<exists>ncap'. ncp' = set_attrarray0 ncp varid ncap' \<and> att_put ub (flags ncp) (atts_value ncap) (atts_value ncap') k type vs mem))
      (run_bind (incr_NC_attrarray E ncap (a\<lparr>att_xvalue := w\<rparr>)) (\<lambda>(lstatus, ncap1).
         if lstatus \<noteq> NC_NOERR then Done (lstatus, (), ncp, s) else Done (st, (), set_attrarray0 ncp varid ncap1, s)))"
      by (rule when_done_bind [OF incr_atts]) (use h p None in \<open>auto simp: att_put_def, metis\<close>)
    with None show ?thesis by (simp add: att_define_def a(1) w(1) Let_def)
  qed
qed

lemma att_overwrite_ok:
  fixes s :: 's
  assumes v: "storable type mem vs" and p: "findattr_loop (atts_value ncap) k 0 = Some i" and room: "att_xsz (atts_value ncap ! i) \<le> length (att_xvalue (atts_value ncap ! i))"
  shows "when_done (\<lambda>(st, u, ncp', s' :: 's). st = NC_NOERR \<longrightarrow> (\<exists>ncap'. same_atts (set_attrarray0 ncp varid ncap') ncp' \<and>
      att_put ub (flags ncp) (atts_value ncap) (atts_value ncap') k type vs mem))
    (att_overwrite ub io ncp varid ncap i type (length vs) (Some vs) mem s)"
proof -
  let ?a = "atts_value ncap ! i" and ?xsz = "RNDUP (type_bytes type * length vs) 4"
  have t: "type \<in> {1..11}" "int (length vs) \<le> X_INT_MAX" using v by (simp_all add: storable_def)
  have nm: "cstr (att_name ?a) = k" using findattr_loop_name [OF p] by simp
  show ?thesis
  proof (cases "att_xsz ?a < ?xsz")
    case True
    then show ?thesis by (simp add: att_overwrite_def att_len [OF t])
  next
    case False
    with room have "?xsz \<le> length (att_xvalue ?a)" by simp
    from put_values_holds [OF v this, of ub "flags ncp" "?a\<lparr>att_xsz := ?xsz\<rparr>"] nm obtain st w where
      w: "put_values ub (flags ncp) (att_xvalue ?a) type (length vs) (Some vs) mem = Done (st, w)"
      "st = NC_NOERR \<Longrightarrow> holds ub (flags ncp) (?a\<lparr>att_xsz := ?xsz, att_type := type, att_nelems := length vs, att_xvalue := take ?xsz w\<rparr>) k type vs mem" by (simp add: nm) metis
    let ?n = "ncap\<lparr>atts_value := (atts_value ncap)[i := ?a\<lparr>att_xsz := ?xsz, att_type := type, att_nelems := length vs, att_xvalue := take ?xsz w\<rparr>]\<rparr>"
    have "st = NC_NOERR \<Longrightarrow> att_put ub (flags ncp) (atts_value ncap) (atts_value ?n) k type vs mem" using w(2) p by (auto simp: att_put_def)
    then show ?thesis
      using False w(1) unfolding att_overwrite_def Let_def att_len [OF t]
      by (auto intro!: when_done_bind [OF dirty_sync_atts] exI [of _ ?n])
  qed
qed

subsection \<open>Looking the attributes up\<close>

lemma findattr_append: "findattr_loop (as @ bs) k n = (case findattr_loop as k n of Some i \<Rightarrow> Some i | None \<Rightarrow> findattr_loop bs k (n + length as))"
  by (induction as arbitrary: n) (auto simp: findattr_loop_eq simp del: findattr_loop.simps(2) split: option.split)

lemma findattr_same:
  "i < length as \<Longrightarrow> (cstr (att_name a) = k \<longleftrightarrow> cstr (att_name (as ! i)) = k) \<Longrightarrow> findattr_loop (as[i := a]) k n = findattr_loop as k n"
proof (induction as arbitrary: i n)
  case (Cons b as)
  then show ?case by (cases i) (simp_all add: findattr_loop_eq del: findattr_loop.simps(2))
qed simp

lemma att_put_find:
  assumes "att_put ub flgs as as' k type vs mem"
  obtains j where "findattr_loop as' k 0 = Some j" "j < length as'" "holds ub flgs (as' ! j) k type vs mem"
    "\<And>k'. k' \<noteq> k \<Longrightarrow> findattr_loop as' k' 0 = findattr_loop as k' 0" "\<And>l. l \<noteq> j \<Longrightarrow> l < length as \<Longrightarrow> as' ! l = as ! l"
proof -
  from assms obtain a where a: "holds ub flgs a k type vs mem" "case findattr_loop as k 0 of Some i \<Rightarrow> as' = as[i := a] | None \<Rightarrow> as' = as @ [a]"
    by (auto simp: att_put_def)
  then have n: "cstr (att_name a) = k" by (simp add: holds_def)
  show thesis
  proof (cases "findattr_loop as k 0")
    case None
    then show thesis using a n by (intro that [of "length as"]) (simp_all add: findattr_append findattr_loop_eq nth_append del: findattr_loop.simps(2) split: option.split)
  next
    case (Some i)
    with a(2) have as': "as' = as[i := a]" by simp
    note i = findattr_loop_name [OF Some]
    show thesis by (rule that [of i]) (use a(1) i n Some in \<open>auto simp: as' findattr_same\<close>)
  qed
qed

lemma lookup_put:
  assumes p: "att_put ub flgs (atts_value ncap) (atts_value ncap') k type vs mem" and ncap: "NC_attrarray0 ncp varid = Some ncap"
    and same: "same_atts (set_attrarray0 ncp varid ncap') ncp'"
  shows "env_normalize E name = Inr k \<Longrightarrow> \<exists>a. NC_lookupattr E ncp' varid (Some name) = (NC_NOERR, Some a) \<and> holds ub flgs a k type vs mem"
    "env_normalize E other = Inr k' \<Longrightarrow> varid' \<noteq> varid \<or> k' \<noteq> k \<Longrightarrow> NC_lookupattr E ncp' varid' (Some other) = NC_lookupattr E ncp varid' (Some other)"
proof -
  have arr: "NC_attrarray0 ncp' v = (if v = varid then Some ncap' else NC_attrarray0 ncp v)" for v
    using attrarray0_same [OF same] attrarray0_set [OF ncap] by simp
  from att_put_find [OF p] obtain j where j: "findattr_loop (atts_value ncap') k 0 = Some j" "j < length (atts_value ncap')"
    "holds ub flgs (atts_value ncap' ! j) k type vs mem" "\<And>k'. k' \<noteq> k \<Longrightarrow> findattr_loop (atts_value ncap') k' 0 = findattr_loop (atts_value ncap) k' 0"
    "\<And>l. l \<noteq> j \<Longrightarrow> l < length (atts_value ncap) \<Longrightarrow> atts_value ncap' ! l = atts_value ncap ! l" by metis
  have ne: "atts_value ncap' \<noteq> []" using j(2) by auto
  show "\<exists>a. NC_lookupattr E ncp' varid (Some name) = (NC_NOERR, Some a) \<and> holds ub flgs a k type vs mem" if "env_normalize E name = Inr k"
    using that j(1,3) ne by (simp add: NC_lookupattr_def arr NC_findattr_def)
  show "NC_lookupattr E ncp' varid' (Some other) = NC_lookupattr E ncp varid' (Some other)"
    if k': "env_normalize E other = Inr k'" "varid' \<noteq> varid \<or> k' \<noteq> k"
  proof (cases "varid' = varid")
    case False
    then show ?thesis by (simp add: NC_lookupattr_def arr)
  next
    case True
    with k'(2) have kk: "k' \<noteq> k" by simp
    have "findattr_loop [] k' 0 = None" by simp
    then have f: "NC_findattr E c other = findattr_loop (atts_value c) k' 0" for c using k'(1) by (simp add: NC_findattr_def)
    show ?thesis
    proof (cases "findattr_loop (atts_value ncap) k' 0")
      case None
      with True j(4) [OF kk] show ?thesis by (simp add: NC_lookupattr_def arr ncap f)
    next
      case (Some l)
      note l = findattr_loop_name [OF Some]
      have l': "cstr (att_name (atts_value ncap' ! l)) = k'" using findattr_loop_name [of "atts_value ncap'" k' 0 l] j(4) [OF kk] Some by simp
      have "l \<noteq> j" using l' j(3) kk by (auto simp: holds_def)
      with True Some l j(5) j(4) [OF kk] show ?thesis by (simp add: NC_lookupattr_def arr ncap f)
    qed
  qed
qed

lemma with_nc3_result:
  assumes "open_file fs ncid mode ncp s" "when_done Q (f mode ncp s)" "with_nc3 fs ncid r0 f = Done (st, r, fs')"
  shows "\<exists>ncp' s'. fs' = update_file fs ncid ncp' s' \<and> Q (st, r, ncp', s')"
  using assms(2,3) unfolding with_nc3_open [OF assms(1)] by (cases "f mode ncp s") auto

text \<open>
  C7: Values that \<open>NC3_put_att\<close> accepted without \<open>NC_ERANGE\<close> are what \<open>NC3_get_att\<close> then returns, whether the attribute is new, takes the
  place of an old one in define mode or overwrites it outside define mode, between integer types and in the type itself; every other attribute
  of the file reads as before.
\<close>

theorem NC3_put_get_att:
  fixes fs :: "'s nc3_files"
  assumes f: "open_file fs ncid mode ncp s" and e: "env_ok E" "normal_name E name k" and v: "storable type memtype vs"
    and ncap: "NC_attrarray0 ncp varid = Some ncap" "\<forall>a \<in> set (atts_value ncap). att_xsz a \<le> length (att_xvalue a)"
    and put: "NC3_put_att E ub io fs ncid varid (Some name) type (length vs) (Some vs) memtype = Done (NC_NOERR, u, fs')"
  shows "NC3_get_att E ub fs' ncid varid (Some name) memtype = Done (NC_NOERR, map Some vs, fs') \<and>
    (\<forall>other k' varid' mem'. normal_name E other k' \<longrightarrow> varid' \<noteq> varid \<or> k' \<noteq> k \<longrightarrow>
      NC3_get_att E ub fs' ncid varid' (Some other) mem' = run_bind (NC3_get_att E ub fs ncid varid' (Some other) mem') (\<lambda>(st, vs', _). Done (st, vs', fs')))"
proof -
  have k: "env_normalize E name = Inr k" "findattr_loop [] k 0 = None" using e(2) by (simp_all add: normal_name_def)
  then have fa: "NC_findattr E ncap name = findattr_loop (atts_value ncap) k 0" by (simp add: NC_findattr_def)
  have ty: "memtype \<noteq> 0" using v by (simp add: storable_def)
  let ?Q = "\<lambda>(st, u :: unit, ncp', s' :: 's). st = NC_NOERR \<longrightarrow> (\<exists>ncap'. same_atts (set_attrarray0 ncp varid ncap') ncp' \<and>
      att_put ub (flags ncp) (atts_value ncap) (atts_value ncap') k type vs memtype)"
  have def: "when_done ?Q (att_define E ub ncp varid ncap prev name type (length vs) (Some vs) memtype s)" if "prev = findattr_loop (atts_value ncap) k 0" for prev
    by (rule when_done_mono [OF att_define_ok [OF e v that]]) (clarsimp, metis same_atts_simps(1))
  have over: "when_done ?Q (att_overwrite ub io ncp varid ncap i type (length vs) (Some vs) memtype s)" if "findattr_loop (atts_value ncap) k 0 = Some i" for i
    using att_overwrite_ok [OF v that] ncap(2) findattr_loop_name [OF that] by simp
  have "\<exists>ncp' s'. fs' = update_file fs ncid ncp' s' \<and> ?Q (NC_NOERR, u, ncp', s')"
    by (rule with_nc3_result [OF f _ put [unfolded NC3_put_att_def]])
      (unfold ncap(1) Let_def option.case fa, insert def over ty, auto intro!: when_done_intros)
  then obtain ncp' s' where p0: "fs' = update_file fs ncid ncp' s'" and q: "\<exists>ncap'. same_atts (set_attrarray0 ncp varid ncap') ncp' \<and>
      att_put ub (flags ncp) (atts_value ncap) (atts_value ncap') k type vs memtype" by auto
  from q obtain ncap' where p1: "same_atts (set_attrarray0 ncp varid ncap') ncp'"
      "att_put ub (flags ncp) (atts_value ncap) (atts_value ncap') k type vs memtype" by blast
  note p = p0 p1
  have o: "open_file fs' ncid mode ncp' s'" unfolding p(1) by (rule open_file_update(1) [OF f])
  have g: "fIsSet (flags ncp') NC_64BIT_DATA = fIsSet (flags ncp) NC_64BIT_DATA" using p(2) by (auto simp: same_atts_def)
  then have bx: "byte_ext (flags ncp') = byte_ext (flags ncp)" by (simp add: byte_ext_def fun_eq_iff)
  from lookup_put(1) [OF p(3) ncap(1) p(2) k(1)] obtain a where
    a: "NC_lookupattr E ncp' varid (Some name) = (NC_NOERR, Some a)" "holds ub (flags ncp) a k type vs memtype" by blast
  have "NC3_get_att E ub fs' ncid varid (Some name) memtype = Done (NC_NOERR, map Some vs, fs')"
    using a v ty by (auto simp: NC3_get_att_def with_nc3_open [OF o] holds_def storable_def bx update_file_same [OF o] Let_def)
  moreover have "NC3_get_att E ub fs' ncid varid' (Some other) mem' = run_bind (NC3_get_att E ub fs ncid varid' (Some other) mem') (\<lambda>(st, vs', _). Done (st, vs', fs'))"
    if "normal_name E other k'" "varid' \<noteq> varid \<or> k' \<noteq> k" for other k' varid' mem'
  proof -
    have "NC_lookupattr E ncp' varid' (Some other) = NC_lookupattr E ncp varid' (Some other)"
      using lookup_put(2) [OF p(3) ncap(1) p(2) _ that(2)] that(1) by (simp add: normal_name_def)
    then show ?thesis unfolding NC3_get_att_def with_nc3_open [OF o] with_nc3_open [OF f] bx
      by (auto simp: update_file_same [OF o] update_file_same [OF f] Let_def run_bind_assoc split_beta split: option.split)
  qed
  ultimately show ?thesis by blast
qed

lemma put_values_length: "when_done (\<lambda>(st, w). length w = length xv) (put_values ub flgs xv type n vals mem)"
  by (auto simp: put_values_def dispatchput_def Let_def split: prod.split intro!: when_done_intros)

lemma attr_ok_resize:
  assumes "attr_ok ver a" "t \<in> {1..11}" "int n \<le> X_INT_MAX" "length w = RNDUP (type_bytes t * n) 4"
  shows "attr_ok ver (a\<lparr>att_xsz := RNDUP (type_bytes t * n) 4, att_type := t, att_nelems := n, att_xvalue := w\<rparr>)"
proof -
  have "type_bytes t * n \<le> 8 * n" using type_bytes_cases [of t] by (intro mult_right_mono) auto
  with assms(3) have "type_bytes t * n + 64 < 18446744073709551616" by linarith
  moreover have "size_ok ver (int n)" using assms(3) by (auto simp: size_ok_def size_max_def)
  ultimately show ?thesis using assms att_len [OF assms(2,3)] type_size_bytes [OF assms(2)] by (simp add: attr_ok_def)
qed

text \<open>
  The array after \<open>NC3_put_att\<close> with the name \<open>k\<close>, whatever its status: its attributes can be written to a file, those with other names are
  untouched, at most one is added. Outside define mode none is added, the names stay, and no attribute takes more room.
\<close>

definition atts_kept :: "nat \<Rightarrow> bool \<Rightarrow> string \<Rightarrow> NC_attr list \<Rightarrow> NC_attr list \<Rightarrow> bool" where
  "atts_kept ver indef k as as' \<longleftrightarrow> (\<forall>a \<in> set as'. attr_ok ver a) \<and> length as \<le> length as' \<and> length as' \<le> Suc (length as) \<and>
     (\<forall>j < length as. cstr (att_name (as ! j)) \<noteq> k \<longrightarrow> as' ! j = as ! j) \<and>
     (\<not> indef \<longrightarrow> list_all2 (\<lambda>a' a. att_name a' = att_name a \<and> att_xsz a' \<le> att_xsz a) as' as)"

lemma atts_kept_refl: "\<forall>a \<in> set as. attr_ok ver a \<Longrightarrow> atts_kept ver ind k as as"
  by (simp add: atts_kept_def list_all2_refl)

text \<open>The header around the array: everything but the array itself, and bits of the flags, stays.\<close>

definition put_kept :: "nat \<Rightarrow> string \<Rightarrow> nc3_info \<Rightarrow> int \<Rightarrow> NC_attr list \<Rightarrow> nc3_info \<Rightarrow> bool" where
  "put_kept ver k ncp varid as ncp' \<longleftrightarrow> (\<exists>ncap'. same_atts (set_attrarray0 ncp varid ncap') ncp' \<and> atts_kept ver (NC_indef ncp) k as (atts_value ncap'))"

lemma set_attrarray0_same: "NC_attrarray0 ncp varid = Some ncap \<Longrightarrow> set_attrarray0 ncp varid ncap = ncp"
  by (auto simp: NC_attrarray0_def set_attrarray0_def list_update_same_conv split: if_splits)

lemma put_kept_refl: "NC_attrarray0 ncp varid = Some ncap \<Longrightarrow> \<forall>a \<in> set (atts_value ncap). attr_ok ver a \<Longrightarrow> put_kept ver k ncp varid (atts_value ncap) ncp"
  unfolding put_kept_def by (rule exI [of _ ncap]) (simp add: set_attrarray0_same atts_kept_refl)

lemma att_overwrite_keeps:
  fixes s :: 's
  assumes ok: "\<forall>a \<in> set (atts_value ncap). attr_ok ver a" and i: "findattr_loop (atts_value ncap) k 0 = Some i" and t: "type \<in> {1..11}" "int n \<le> X_INT_MAX"
    and ncap: "NC_attrarray0 ncp varid = Some ncap" and m: "\<not> NC_indef ncp"
  shows "when_done (\<lambda>(st, u, ncp', s' :: 's). put_kept ver k ncp varid (atts_value ncap) ncp') (att_overwrite ub io ncp varid ncap i type n vals mem s)"
proof -
  let ?a = "atts_value ncap ! i" and ?xsz = "RNDUP (type_bytes type * n) 4"
  let ?n = "\<lambda>w. ncap\<lparr>atts_value := (atts_value ncap)[i := ?a\<lparr>att_xsz := ?xsz, att_type := type, att_nelems := n, att_xvalue := take ?xsz w\<rparr>]\<rparr>"
  note li = findattr_loop_name [OF i]
  have a: "attr_ok ver ?a" using ok li by simp
  show ?thesis
  proof (cases "att_xsz ?a < ?xsz")
    case True
    then show ?thesis using put_kept_refl [OF ncap ok] by (simp add: att_overwrite_def att_len [OF t])
  next
    case False
    have k: "atts_kept ver False k (atts_value ncap) (atts_value (?n w))" if "length w = length (att_xvalue ?a)" for w
    proof -
      have "length (take ?xsz w) = ?xsz" using that a False by (simp add: attr_ok_def)
      from attr_ok_resize [OF a t this] have "attr_ok ver (?a\<lparr>att_xsz := ?xsz, att_type := type, att_nelems := n, att_xvalue := take ?xsz w\<rparr>)" .
      then have "\<forall>b \<in> set (atts_value (?n w)). attr_ok ver b" using ok by (auto dest: set_update_subset_insert [THEN subsetD])
      moreover have "list_all2 (\<lambda>a' a. att_name a' = att_name a \<and> att_xsz a' \<le> att_xsz a) (atts_value (?n w)) (atts_value ncap)"
        using False li by (auto simp: list_all2_conv_all_nth nth_list_update)
      moreover have "\<forall>j < length (atts_value ncap). cstr (att_name (atts_value ncap ! j)) \<noteq> k \<longrightarrow> atts_value (?n w) ! j = atts_value ncap ! j"
        using li by (auto simp: nth_list_update)
      ultimately show ?thesis by (simp add: atts_kept_def)
    qed
    show ?thesis
      unfolding att_overwrite_def Let_def att_len [OF t] run_bind_simps if_not_P [OF False]
      by (rule when_done_bind [OF put_values_length], clarsimp, rule when_done_bind [OF dirty_sync_atts]) (use k m in \<open>fastforce simp: put_kept_def\<close>)
  qed
qed

lemma att_define_keeps:
  fixes s :: 's
  assumes ok: "\<forall>a \<in> set (atts_value ncap). attr_ok ver a" and e: "env_ok E" "normal_name E name k" "length k + 32 < 18446744073709551616" "size_ok ver (int (length k))"
    and t: "type \<in> {1..11}" "int n \<le> X_INT_MAX" and ncap: "NC_attrarray0 ncp varid = Some ncap" and p: "prev = findattr_loop (atts_value ncap) k 0"
    and m: "NC_indef ncp"
  shows "when_done (\<lambda>(st, u, ncp', s' :: 's). put_kept ver k ncp varid (atts_value ncap) ncp') (att_define E ub ncp varid ncap prev name type n vals mem s)"
proof -
  let ?xsz = "RNDUP (type_bytes type * n) 4"
  from new_NC_attr_ok [OF e(1,2) t] obtain a where a: "new_NC_attr E name type n = Done (Some a)" "cstr (att_name a) = k" "str_wf (att_name a)"
    "nchars (att_name a) = length k" "att_type a = type" "att_nelems a = n" "att_xsz a = ?xsz" "length (att_xvalue a) = att_xsz a" .
  have "string_ok ver (att_name a)" using a(3,4) e(3,4) by (simp add: string_ok_def)
  moreover have "size_ok ver (int n)" using t(2) by (auto simp: size_ok_def size_max_def)
  moreover have "type_bytes type * n \<le> 8 * n" using type_bytes_cases [of type] by (intro mult_right_mono) auto
  then have "type_bytes type * n + 64 < 18446744073709551616" using t(2) by linarith
  ultimately have aok: "attr_ok ver (a\<lparr>att_xvalue := w\<rparr>)" if "length w = length (att_xvalue a)" for w
    using that a t att_len [OF t] type_size_bytes [OF t(1)] by (simp add: attr_ok_def)
  have upd: "atts_kept ver True k (atts_value ncap) ((atts_value ncap)[i := a\<lparr>att_xvalue := w\<rparr>])" if "length w = length (att_xvalue a)" "prev = Some i" for w i
    using ok aok [OF that(1)] findattr_loop_name [of "atts_value ncap" k 0 i] that(2) p
    by (auto simp: atts_kept_def nth_list_update dest: set_update_subset_insert [THEN subsetD])
  have app: "atts_kept ver True k (atts_value ncap) (atts_value ncap @ [a\<lparr>att_xvalue := w\<rparr>])" if "length w = length (att_xvalue a)" for w
    using ok aok [OF that] by (simp add: atts_kept_def nth_append)
  have put: "put_kept ver k ncp varid (atts_value ncap) (set_attrarray0 ncp varid n)" if "atts_kept ver True k (atts_value ncap) (atts_value n)" for n
    using that m unfolding put_kept_def by (intro exI [of _ n]) simp
  note same = put_kept_refl [OF ncap ok, of k]
  show ?thesis
    unfolding att_define_def a(1) run_bind_simps option.case Let_def
    apply (rule when_done_if, simp add: same)
    apply (rule when_done_bind [OF put_values_length], clarsimp)
    apply (rule when_done_option)
     apply (rule when_done_bind [OF incr_atts])
     apply (use same app put in \<open>auto intro!: when_done_if\<close>)
    apply (use upd put in auto)
    done
qed

lemma sum_list_map_update_le: "f y \<le> f (xs ! i) \<Longrightarrow> sum_list (map f (xs[i := y])) \<le> sum_list (map f xs)" for f :: "'a \<Rightarrow> nat"
  by (induction xs arbitrary: i) (auto split: nat.split)

text \<open>The length of the header when only attributes of one array change.\<close>

lemma ncx_len_atts_le:
  assumes a: "list_all2 (\<lambda>a' a. att_name a' = att_name a \<and> att_xsz a' \<le> att_xsz a) (atts_value ncap') (atts_value ncap)"
    and n: "NC_attrarray0 ncp varid = Some ncap" and s: "same_atts (set_attrarray0 ncp varid ncap') ncp'"
  shows "ncx_len_NC ncp' off \<le> ncx_len_NC ncp off"
proof -
  let ?v = "version_of (flags ncp)"
  have ver: "version_of (flags ncp') = ?v" "dims ncp' = dims ncp" "attrs ncp' = attrs (set_attrarray0 ncp varid ncap')"
      "vars ncp' = vars (set_attrarray0 ncp varid ncap')"
    using s by (auto simp: same_atts_def version_of_def)
  have "list_all2 (\<lambda>a' a. ncx_len_NC_attr a' ?v \<le> ncx_len_NC_attr a ?v) (atts_value ncap') (atts_value ncap)"
    using a by (rule list_all2_mono) (simp add: ncx_len_NC_attr_def)
  then have len: "ncx_len_NC_attrarray ncap' ?v \<le> ncx_len_NC_attrarray ncap ?v"
    unfolding ncx_len_NC_attrarray_def by (induction rule: list_all2_induct) auto
  show ?thesis
  proof (cases "varid = NC_GLOBAL")
    case True
    then show ?thesis using n len by (simp add: ncx_len_NC_def ver Let_def set_attrarray0_def NC_attrarray0_def)
  next
    case False
    let ?vs = "vars_value (vars ncp)"
    have i: "nat varid < length ?vs" "var_attrs (?vs ! nat varid) = ncap" using n False by (auto simp: NC_attrarray0_def split: if_splits)
    have "ncx_len_NC_var ((?vs ! nat varid)\<lparr>var_attrs := ncap'\<rparr>) off ?v \<le> ncx_len_NC_var (?vs ! nat varid) off ?v"
      using len i(2) by (auto simp: ncx_len_NC_var_def)
    then have "sum_list (map (\<lambda>v. ncx_len_NC_var v off ?v) (?vs[nat varid := (?vs ! nat varid)\<lparr>var_attrs := ncap'\<rparr>])) \<le>
        sum_list (map (\<lambda>v. ncx_len_NC_var v off ?v) ?vs)"
      by (rule sum_list_map_update_le)
    then show ?thesis using False by (simp add: ncx_len_NC_def ver Let_def set_attrarray0_def ncx_len_NC_vararray_def)
  qed
qed

text \<open>
  C8: For a name that can be normalized, whatever status \<open>NC3_put_att\<close> returns, also after a conversion that failed half-way, the header differs from the one before only in
  bits of the flags, which keep the file's format, and in the array of attributes the call names: dimensions, variables, sizes, offsets and the
  attributes of every other array are untouched. In that array at most one attribute is added, the attributes with other names are untouched,
  and all of them can be written to a file. Outside define mode no attribute is added or renamed, none takes more room, and the header is not
  longer than before, so it still fits its place in the file.
\<close>

theorem NC3_put_att_keeps:
  fixes fs :: "'s nc3_files"
  assumes f: "open_file fs ncid mode ncp s" and e: "env_ok E" "normal_name E name k" "length k + 32 < 18446744073709551616" "size_ok ver (int (length k))"
    and ncap: "NC_attrarray0 ncp varid = Some ncap" "\<forall>a \<in> set (atts_value ncap). attr_ok ver a"
    and put: "NC3_put_att E ub io fs ncid varid (Some name) type n vals memtype = Done (st, u, fs')"
  shows "\<exists>f' s' ncap'. fs' = update_file fs ncid ((set_attrarray0 ncp varid ncap')\<lparr>flags := f'\<rparr>) s' \<and> version_of f' = version_of (flags ncp) \<and>
    (\<forall>varid'. NC_attrarray0 ((set_attrarray0 ncp varid ncap')\<lparr>flags := f'\<rparr>) varid' = (if varid' = varid then Some ncap' else NC_attrarray0 ncp varid')) \<and>
    atts_kept ver (NC_indef ncp) k (atts_value ncap) (atts_value ncap') \<and>
    (NC_indef ncp \<or> (\<forall>off. ncx_len_NC ((set_attrarray0 ncp varid ncap')\<lparr>flags := f'\<rparr>) off \<le> ncx_len_NC ncp off))"
proof -
  have k: "env_normalize E name = Inr k" "findattr_loop [] k 0 = None" using e(2) by (simp_all add: normal_name_def)
  then have fa: "NC_findattr E ncap name = findattr_loop (atts_value ncap) k 0" by (simp add: NC_findattr_def)
  let ?Q = "\<lambda>(st, u :: unit, ncp', s' :: 's). put_kept ver k ncp varid (atts_value ncap) ncp'"
  note same = put_kept_refl [OF ncap, of k]
  have ty: "type \<in> {1..11}" if "nc3_cktype mode type = NC_NOERR" using that by (auto simp: nc3_cktype_def split: if_splits)
  have def: "when_done ?Q (att_define E ub ncp varid ncap (findattr_loop (atts_value ncap) k 0) name type n vals mem s)"
    if "NC_indef ncp" "type \<in> {1..11}" "int n \<le> X_INT_MAX" for mem
    by (rule att_define_keeps [OF ncap(2) e that(2,3) ncap(1) refl that(1)])
  have over: "when_done ?Q (att_overwrite ub io ncp varid ncap i type n vals mem s)"
    if "\<not> NC_indef ncp" "type \<in> {1..11}" "int n \<le> X_INT_MAX" "findattr_loop (atts_value ncap) k 0 = Some i" for i mem
    by (rule att_overwrite_keeps [OF ncap(2) that(4,2,3) ncap(1) that(1)])
  have "\<exists>ncp' s'. fs' = update_file fs ncid ncp' s' \<and> ?Q (st, u, ncp', s')"
    by (rule with_nc3_result [OF f _ put [unfolded NC3_put_att_def]])
      (unfold ncap(1) Let_def option.case fa, insert def over ty same, auto intro!: when_done_intros)
  then obtain ncp' s' ncap' where p: "fs' = update_file fs ncid ncp' s'" and q: "same_atts (set_attrarray0 ncp varid ncap') ncp'"
    and r: "atts_kept ver (NC_indef ncp) k (atts_value ncap) (atts_value ncap')" by (auto simp: put_kept_def)
  from q obtain f' where f': "ncp' = (set_attrarray0 ncp varid ncap')\<lparr>flags := f'\<rparr>" "version_of f' = version_of (flags ncp)"
    by (auto simp: same_atts_def version_of_def)
  have "NC_indef ncp \<or> (\<forall>off. ncx_len_NC ncp' off \<le> ncx_len_NC ncp off)"
    using ncx_len_atts_le [OF _ ncap(1) q] r by (auto simp: atts_kept_def)
  moreover have "\<forall>varid'. NC_attrarray0 ncp' varid' = (if varid' = varid then Some ncap' else NC_attrarray0 ncp varid')"
    using attrarray0_same [OF q] attrarray0_set [OF ncap(1)] by simp
  ultimately show ?thesis using p r f' by blast
qed

lemma sample_put_values:
  "put_values (\<lambda>t x. 0) 2 [NULB, NULB, NULB, NULB] NC_SHORT 2 (Some [7, -2]) NC_INT = Done (NC_NOERR, [CHR 0x00, CHR 0x07, CHR 0xFF, CHR 0xFE])"
  by code_simp

lemma NC3_put_get_att_witness:
  "\<exists>fs'. NC3_put_att sample_env (\<lambda>t x. 0) null_io (sample_files sample_new) 65536 NC_GLOBAL (Some ''time'') NC_SHORT 2 (Some [7, -2]) NC_INT = Done (NC_NOERR, (), fs') \<and>
    NC3_get_att sample_env (\<lambda>t x. 0) fs' 65536 NC_GLOBAL (Some ''time'') NC_INT = Done (NC_NOERR, [Some 7, Some (-2)], fs')"
proof -
  have v: "storable NC_SHORT NC_INT [7, -2]"
    by (simp add: storable_def integer_type_def in_type_def type_min_def type_max_def is_signed_def type_bytes_def)
  have a0: "NC_attrarray0 sample_new NC_GLOBAL = Some empty_attrarray" by (simp add: NC_attrarray0_def sample_new_def sample_hdr_def)
  have r4: "replicate 4 NULB = [NULB, NULB, NULB, NULB]" by (simp add: eval_nat_numeral)
  have n: "new_NC_attr sample_env ''time'' NC_SHORT 2 = Done (Some \<lparr>att_xsz = 4, att_name = \<lparr>nchars = 4, cp = ''time''\<rparr>, att_type = NC_SHORT, att_nelems = 2,
      att_xvalue = [NULB, NULB, NULB, NULB]\<rparr>)"
    unfolding r4 [symmetric] by (simp add: new_NC_attr_def new_x_NC_attr_def ncx_len_NC_attrV_def usz_def sample_env_def new_NC_string_def)
  have "\<exists>fs'. NC3_put_att sample_env (\<lambda>t x. 0) null_io (sample_files sample_new) 65536 NC_GLOBAL (Some ''time'') NC_SHORT 2 (Some [7, -2]) NC_INT = Done (NC_NOERR, (), fs')"
    unfolding NC3_put_att_def with_nc3_open [OF sample_files_open] a0 att_define_def
    by (simp add: n sample_name(2) sample_new_sel nc3_cktype_def fIsSet_def NC3_inq_default_fill_value_def NC_findattr_def empty_attrarray_def incr_NC_attrarray_def
        sample_put_values Let_def sample_env_ok [unfolded env_ok_def])
  then obtain fs' where p: "NC3_put_att sample_env (\<lambda>t x. 0) null_io (sample_files sample_new) 65536 NC_GLOBAL (Some ''time'') NC_SHORT 2 (Some [7, -2]) NC_INT = Done (NC_NOERR, (), fs')" ..
  then show ?thesis
    using NC3_put_get_att [OF sample_files_open sample_env_ok sample_name(1) v a0, of "\<lambda>t x. 0" null_io "()" fs'] by (simp add: empty_attrarray_def numeral_2_eq_2)
qed

text \<open>Outside define mode the three characters of \<open>history\<close> are overwritten with two.\<close>

lemma sample_text_values: "put_values (\<lambda>t x. 0) 0 ''abcd'' NC_CHAR 2 (Some [120, 121]) NC_CHAR = Done (NC_NOERR, [CHR ''x'', CHR ''y'', NULB, NULB])"
  by code_simp

lemma NC3_put_att_keeps_witness:
  "\<exists>ncp'. NC3_put_att sample_env (\<lambda>t x. 0) null_io (sample_files sample_data) 65536 NC_GLOBAL (Some ''history'') NC_CHAR 2 (Some [120, 121]) NC_CHAR =
      Done (NC_NOERR, (), update_file (sample_files sample_data) 65536 ncp' ()) \<and>
    (\<exists>f' ncap'. update_file (sample_files sample_data) 65536 ncp' () =
        update_file (sample_files sample_data) 65536 ((set_attrarray0 sample_data NC_GLOBAL ncap')\<lparr>flags := f'\<rparr>) () \<and>
      atts_kept 1 False ''history'' (atts_value (attrs sample_data)) (atts_value ncap') \<and>
      (\<forall>off. ncx_len_NC ((set_attrarray0 sample_data NC_GLOBAL ncap')\<lparr>flags := f'\<rparr>) off \<le> ncx_len_NC sample_data off))"
proof -
  have ap: "NC_attrarray0 sample_data NC_GLOBAL = Some (attrs sample_data)" by (simp add: NC_attrarray0_def)
  have vals: "atts_value (attrs sample_data) = [\<lparr>att_xsz = 4, att_name = \<lparr>nchars = 7, cp = ''history''\<rparr>, att_type = NC_CHAR, att_nelems = 3, att_xvalue = ''abcd''\<rparr>]"
    by (simp add: sample_data_def)
  have nm: "normal_name sample_env ''history'' ''history''" "length ''history'' + 32 < 18446744073709551616" "size_ok 1 (int (length ''history''))"
    by (simp_all add: normal_name_def sample_env_def size_ok_def size_max_def)
  have ok: "\<forall>a \<in> set (atts_value (attrs sample_data)). attr_ok 1 a"
    by (simp add: vals attr_ok_def string_ok_def str_wf_def size_ok_def size_max_def ncx_len_NC_attrV_def usz_def type_size_def ncmpix_len_nctype_def)
  have fl: "flags sample_data = 0" by (simp add: sample_data_def sample_file_def sample_hdr_def)
  have find: "NC_findattr sample_env (attrs sample_data) ''history'' = Some 0" by (simp add: NC_findattr_def vals cstr_def sample_env_def)
  have hs: "\<not> NC_doHsync (set_attrarray0 sample_data NC_GLOBAL ncap)" for ncap using sample_data_sel(3) by (simp add: set_attrarray0_def NC_doHsync_def)
  have len: "ncx_len_NC_attrV NC_CHAR 2 = Done 4" by (simp add: ncx_len_NC_attrV_def usz_def)
  obtain ncp' where p: "NC3_put_att sample_env (\<lambda>t x. 0) null_io (sample_files sample_data) 65536 NC_GLOBAL (Some ''history'') NC_CHAR 2 (Some [120, 121]) NC_CHAR =
      Done (NC_NOERR, (), update_file (sample_files sample_data) 65536 ncp' ())"
    unfolding NC3_put_att_def with_nc3_open [OF sample_files_open] ap Let_def option.case find att_overwrite_def vals fl
    using sample_data_sel by (simp add: len sample_text_values nc3_cktype_def fIsSet_def NC3_inq_default_fill_value_def dirty_sync_plain [OF hs])
  from NC3_put_att_keeps [OF sample_files_open sample_env_ok nm ap ok p] p sample_data_sel(2) show ?thesis by (intro exI [of _ ncp']) auto
qed

end
