(* ===== verification/NC3_Data.thy ===== *)
theory NC3_Data
  imports NC3_State NC_Convert
begin

text \<open>
  \<open>libsrc/putget.c\<close>: reading and writing the values of a variable. A rectangle of values, \<open>start\<close> and \<open>edges\<close>, is
  split into contiguous pieces (\<open>NCiocount\<close>), visited with an odometer (\<open>odo1\<close>); each piece goes through the driver in
  chunks. Writing past the last record extends the file (\<open>NCvnrecs\<close>). The arrays of the caller are lists, at least as long
  as the variable has dimensions (else \<open>Fault\<close>); the caller's buffer is not NULL; values read come out as a list, \<open>None\<close>
  for an element that is left unchanged. The build option \<open>RELAX_COORD_BOUND\<close> is the argument \<open>relax\<close>.
\<close>

subsection \<open>Records\<close>

fun NCfillrecord :: "nc_env \<Rightarrow> 's ncio \<Rightarrow> 'a nc3_info_scheme \<Rightarrow> NC_var list \<Rightarrow> int \<Rightarrow> 's \<Rightarrow> (int \<times> 's) run" where
  "NCfillrecord E io ncp [] recno s = Done (NC_NOERR, s)"
| "NCfillrecord E io ncp (v # vs) recno s = (if \<not> IS_RECVAR v then NCfillrecord E io ncp vs recno s
     else run_bind (fill_NC_var E io ncp v (var_len v) recno s) (\<lambda>(status, s1).
       if status \<noteq> NC_NOERR then Done (status, s1) else NCfillrecord E io ncp vs recno s1))"

definition NCfillspecialrecord :: "nc_env \<Rightarrow> 's ncio \<Rightarrow> 'a nc3_info_scheme \<Rightarrow> NC_var \<Rightarrow> int \<Rightarrow> 's \<Rightarrow> (int \<times> 's) run" where
  "NCfillspecialrecord E io ncp varp recno s = assert_run (IS_RECVAR varp) (fill_NC_var E io ncp varp (s64 (recsize ncp)) recno s)"

text \<open>The two \<open>while\<close> loops of \<open>NCvnrecs\<close>, which differ in the fill routine.\<close>

function vnrecs_loop :: "(nc3_info \<Rightarrow> int \<Rightarrow> 's \<Rightarrow> (int \<times> 's) run) \<Rightarrow> nc3_info \<Rightarrow> int \<Rightarrow> 's \<Rightarrow> (int \<times> nc3_info \<times> 's) run" where
  "vnrecs_loop fill ncp nrecs s = (if \<not> numrecs ncp < nrecs then Done (NC_NOERR, ncp, s)
     else run_bind (fill ncp (numrecs ncp) s) (\<lambda>(status, s1). if status \<noteq> NC_NOERR then Done (status, ncp, s1)
       else vnrecs_loop fill (NC_increase_numrecs ncp (numrecs ncp + 1)) nrecs s1))"
  by pat_completeness auto
termination
  by (relation "measure (\<lambda>(f, ncp, n, s). nat (n - numrecs ncp))") (auto simp: NC_increase_numrecs_def)

declare vnrecs_loop.simps [simp del]

definition NCvnrecs :: "nc_env \<Rightarrow> 's ncio \<Rightarrow> nc3_info \<Rightarrow> int \<Rightarrow> 's \<Rightarrow> (int \<times> nc3_info \<times> 's) run" where
  "NCvnrecs E io ncp0 nrecs s = (if \<not> numrecs ncp0 < nrecs then Done (NC_NOERR, ncp0, s)
     else let ncp = set_NC_ndirty ncp0; vs = vars_value (vars ncp) in
       run_bind (if \<not> NC_dofill ncp then Done (NC_NOERR, ncp\<lparr>numrecs := nrecs\<rparr>, s)
         else case filter IS_RECVAR vs of [recvarp] \<Rightarrow> vnrecs_loop (\<lambda>n. NCfillspecialrecord E io n recvarp) ncp nrecs s
           | _ \<Rightarrow> vnrecs_loop (\<lambda>n. NCfillrecord E io n vs) ncp nrecs s) (\<lambda>(status, ncp1, s1).
         if status \<noteq> NC_NOERR then Done (status, ncp1, s1)
         else if NC_doNsync ncp1 then write_numrecs io ncp1 s1 else Done (NC_NOERR, ncp1, s1)))"

subsection \<open>Checking coordinates\<close>

definition beyond :: "bool \<Rightarrow> int \<Rightarrow> int \<Rightarrow> bool" where
  "beyond relax c bound \<longleftrightarrow> (if relax then bound < c else bound \<le> c)"

definition NCcoordck :: "bool \<Rightarrow> 's ncio \<Rightarrow> nc3_info \<Rightarrow> NC_var \<Rightarrow> int list \<Rightarrow> 's \<Rightarrow> (int \<times> nc3_info \<times> 's) run" where
  "NCcoordck relax io ncp varp coord s =
     (if var_ndims varp = 0 then Done (NC_NOERR, ncp, s)
      else if length coord < var_ndims varp then Fault
      else let n = var_ndims varp; inner = (\<lambda>k ncp s. Done (if \<exists>(c, u) \<in> set (zip (drop k (take n coord)) (drop k (var_shape varp))). beyond relax c u
             then NC_EINVALCOORDS else NC_NOERR, ncp, s)) in
        if \<not> IS_RECVAR varp then inner 0 ncp s
        else if X_UINT_MAX < hd coord then Done (NC_EINVALCOORDS, ncp, s)
        else if NC_readonly ncp \<and> beyond relax (hd coord) (numrecs ncp)
        then (if \<not> NC_doNsync ncp then Done (NC_EINVALCOORDS, ncp, s)
          else run_bind (read_numrecs io ncp s) (\<lambda>(status, ncp1, s1). if status \<noteq> NC_NOERR then Done (status, ncp1, s1)
            else if beyond relax (hd coord) (numrecs ncp1) then Done (NC_EINVALCOORDS, ncp1, s1) else inner 1 ncp1 s1))
        else inner 1 ncp s)"

text \<open>The loop of \<open>NCedgeck\<close> over the dimensions that are not the record dimension.\<close>

fun edgeck_loop :: "bool \<Rightarrow> int list \<Rightarrow> int list \<Rightarrow> int list \<Rightarrow> int run" where
  "edgeck_loop relax (sh # shape) (st # start) (e # edges) =
     (if relax \<and> st = sh \<and> 0 < e then Done NC_EINVALCOORDS
      else if sh < e \<or> sh < u64 (st + e) then Done NC_EEDGE
      else edgeck_loop relax shape start edges)"
| "edgeck_loop relax [] start edges = Done NC_NOERR"
| "edgeck_loop relax shape start edges = Fault"

definition NCedgeck :: "bool \<Rightarrow> nc3_info \<Rightarrow> NC_var \<Rightarrow> int list \<Rightarrow> int list \<Rightarrow> int run" where
  "NCedgeck relax ncp varp start edges =
     (if var_ndims varp = 0 then Done NC_NOERR
      else if length start < var_ndims varp \<or> length edges < var_ndims varp then Fault
      else if IS_RECVAR varp
      then (if relax \<and> NC_readonly ncp \<and> hd start = numrecs ncp \<and> 0 < hd edges then Done NC_EINVALCOORDS
        else edgeck_loop relax (tl (var_shape varp)) (tl start) (tl edges))
      else edgeck_loop relax (var_shape varp) start edges)"

subsection \<open>Where a value is\<close>

definition NC_varoffset :: "'a nc3_hdr_scheme \<Rightarrow> NC_var \<Rightarrow> int list \<Rightarrow> int run" where
  "NC_varoffset ncp varp coord =
     (if var_ndims varp = 0 then Done (var_begin varp)
      else if length coord < var_ndims varp \<or> length (var_dsizes varp) < var_ndims varp then Fault
      else let n = var_ndims varp in
        if n = 1 then Done (s64 (var_begin varp + s64 (hd coord * (if IS_RECVAR varp then recsize ncp else var_xsz varp))))
        else let k = (if IS_RECVAR varp then 1 else 0);
                 lcoord = foldl (\<lambda>l (u, i). s64 (l + s64 (u * i))) (s64 (coord ! (n - 1)))
                   (zip (drop (k + 1) (take n (var_dsizes varp))) (drop k coord));
                 lc = s64 (lcoord * var_xsz varp)
          in Done (s64 ((if IS_RECVAR varp then s64 (lc + s64 (hd coord * recsize ncp)) else lc) + var_begin varp)))"

subsection \<open>One contiguous piece\<close>

text \<open>
  The loop of the \<open>getNCvx\<close> functions: a failing \<open>ncio_get\<close> ends it, a value out of range does not. \<open>ext\<close> and \<open>mem\<close> are the
  types of the conversion routine, \<open>ty\<close> the variable's type, which \<open>ncx_howmany\<close> goes by.
\<close>

function getNCvx_loop :: "(int \<Rightarrow> fval \<Rightarrow> int) \<Rightarrow> 's ncio \<Rightarrow> int \<Rightarrow> int \<Rightarrow> int \<Rightarrow> nat \<Rightarrow> int \<Rightarrow> nat \<Rightarrow> int \<Rightarrow> 's \<Rightarrow> (int \<times> int option list \<times> 's) run" where
  "getNCvx_loop ub io ext mem ty chk off remaining status s = (let extent = min remaining chk in run_bind (ncx_howmany ty extent) (\<lambda>nget.
     run_bind (io_get io s off extent 0) (\<lambda>(lstatus, xp, s1). if lstatus \<noteq> NC_NOERR then Done (lstatus, [], s1)
       else let (lstatus, vs) = ncx_getn ub ext mem nget xp; st = (if status = NC_NOERR then lstatus else status) in
         run_bind (io_rel io s1 off xp 0) (\<lambda>(_, s2). if remaining - extent = 0 then Done (st, vs, s2)
           else if extent = 0 then Loop
           else run_bind (getNCvx_loop ub io ext mem ty chk (s64 (off + int extent)) (remaining - extent) st s2) (\<lambda>(st', vs', s3).
             Done (st', vs @ vs', s3))))))"
  by pat_completeness auto
termination
  by (relation "measure (\<lambda>(u, io, e, m, t, c, off, r, st, s). r)") auto

declare getNCvx_loop.simps [simp del]

definition getNCvx :: "(int \<Rightarrow> fval \<Rightarrow> int) \<Rightarrow> 's ncio \<Rightarrow> int \<Rightarrow> int \<Rightarrow> nc3_info \<Rightarrow> NC_var \<Rightarrow> int list \<Rightarrow> int \<Rightarrow> 's \<Rightarrow> (int \<times> int option list \<times> 's) run" where
  "getNCvx ub io ext mem ncp varp start nelems s = run_bind (NC_varoffset ncp varp start) (\<lambda>off.
     if nelems = 0 then Done (NC_NOERR, [], s)
     else getNCvx_loop ub io ext mem (var_type varp) (nat (chunk ncp)) off (nat (u64 (var_xsz varp * nelems))) NC_NOERR s)"

text \<open>
  The same for \<open>putNCvx\<close>, which consumes the caller's values; the region that goes back is the one from \<open>get\<close> with the new values
  in front.
\<close>

function putNCvx_loop :: "(int \<Rightarrow> fval \<Rightarrow> int) \<Rightarrow> 's ncio \<Rightarrow> int \<Rightarrow> int \<Rightarrow> int \<Rightarrow> nat \<Rightarrow> int \<Rightarrow> nat \<Rightarrow> int list \<Rightarrow> int \<Rightarrow> 's \<Rightarrow> (int \<times> 's) run" where
  "putNCvx_loop ub io ext mem ty chk off remaining vs status s = (let extent = min remaining chk in run_bind (ncx_howmany ty extent) (\<lambda>nput.
     run_bind (io_get io s off extent RGN_WRITE) (\<lambda>(lstatus, xp, s1). if lstatus \<noteq> NC_NOERR then Done (lstatus, s1)
       else if length vs < nput then Fault
       else let (lstatus, bs) = ncx_putn ub ext mem (take nput vs); st = (if status = NC_NOERR then lstatus else status) in
         run_bind (io_rel io s1 off (blit xp 0 bs) RGN_MODIFIED) (\<lambda>(_, s2). if remaining - extent = 0 then Done (st, s2)
           else if extent = 0 then Loop
           else putNCvx_loop ub io ext mem ty chk (s64 (off + int extent)) (remaining - extent) (drop nput vs) st s2))))"
  by pat_completeness auto
termination
  by (relation "measure (\<lambda>(u, io, e, m, t, c, off, r, vs, st, s). r)") auto

declare putNCvx_loop.simps [simp del]

definition putNCvx :: "(int \<Rightarrow> fval \<Rightarrow> int) \<Rightarrow> 's ncio \<Rightarrow> int \<Rightarrow> int \<Rightarrow> nc3_info \<Rightarrow> NC_var \<Rightarrow> int list \<Rightarrow> int \<Rightarrow> int list \<Rightarrow> 's \<Rightarrow> (int \<times> 's) run" where
  "putNCvx ub io ext mem ncp varp start nelems vs s = run_bind (NC_varoffset ncp varp start) (\<lambda>off.
     if nelems = 0 then Done (NC_NOERR, s)
     else putNCvx_loop ub io ext mem (var_type varp) (nat (chunk ncp)) off (nat (u64 (var_xsz varp * nelems))) vs NC_NOERR s)"

text \<open>
  The \<open>switch\<close> over pairs of types in \<open>readNCv\<close> and \<open>writeNCv\<close>: the external type of the routine chosen. In a CDF-1 or CDF-2 file
  bytes are read and written as unsigned when the memory type is.
\<close>

definition case_ext :: "int \<Rightarrow> int \<Rightarrow> int \<Rightarrow> int option" where
  "case_ext flgs type memtype =
     (if type = NC_CHAR then (if memtype = NC_CHAR \<or> memtype = NC_UBYTE then Some NC_CHAR else None)
      else if type < NC_BYTE \<or> NC_UINT64 < type \<or> memtype < NC_BYTE \<or> NC_UINT64 < memtype \<or> memtype = NC_CHAR then None
      else if type = NC_BYTE \<and> memtype = NC_UBYTE \<and> \<not> fIsSet flgs NC_64BIT_DATA then Some NC_UBYTE
      else Some type)"

definition readNCv :: "(int \<Rightarrow> fval \<Rightarrow> int) \<Rightarrow> 's ncio \<Rightarrow> nc3_info \<Rightarrow> NC_var \<Rightarrow> int list \<Rightarrow> int \<Rightarrow> int \<Rightarrow> 's \<Rightarrow> (int \<times> int option list \<times> 's) run" where
  "readNCv ub io ncp varp start nelems memtype s = (case case_ext (flags ncp) (var_type varp) memtype of None \<Rightarrow> Done (NC_EBADTYPE, [], s)
     | Some ext \<Rightarrow> getNCvx ub io ext (if ext = NC_CHAR then NC_CHAR else memtype) ncp varp start nelems s)"

definition writeNCv :: "(int \<Rightarrow> fval \<Rightarrow> int) \<Rightarrow> 's ncio \<Rightarrow> nc3_info \<Rightarrow> NC_var \<Rightarrow> int list \<Rightarrow> int \<Rightarrow> int list \<Rightarrow> int \<Rightarrow> 's \<Rightarrow> (int \<times> 's) run" where
  "writeNCv ub io ncp varp start nelems vs memtype s = (case case_ext (flags ncp) (var_type varp) memtype of None \<Rightarrow> Done (NC_EBADTYPE, s)
     | Some ext \<Rightarrow> putNCvx ub io ext (if ext = NC_CHAR then NC_CHAR else memtype) ncp varp start nelems vs s)"

subsection \<open>Splitting a rectangle\<close>

text \<open>
  \<open>NCiocount\<close>: from the right, the dimensions that are taken in full. The result is the index of the dimension left of the
  contiguous ones, -1 if there is none, and the number of values in a piece. In \<open>iocount_find\<close> the flag says that an edge
  at or left of the dimension found is zero.
\<close>

fun iocount_find :: "int list \<Rightarrow> int list \<Rightarrow> nat \<Rightarrow> nat \<Rightarrow> (nat \<times> bool) run" where
  "iocount_find shape edges j0 0 = Done (0, False)"
| "iocount_find shape edges j0 (Suc j) = (if Suc j \<le> j0 then Done (Suc j, False)
     else if edges ! j < shape ! j then Done (j, 0 \<in> set (drop j0 (take (Suc j) edges)))
     else assert_run (edges ! j = shape ! j) (iocount_find shape edges j0 j))"

definition NCiocount :: "nc3_info \<Rightarrow> NC_var \<Rightarrow> int list \<Rightarrow> (int \<times> int) run" where
  "NCiocount ncp varp edges = (let n = var_ndims varp in
     if length edges < n \<or> length (var_shape varp) < n then Fault
     else if IS_RECVAR varp \<and> n = 1 \<and> recsize ncp \<le> u64 (var_len varp) then Done (0, hd edges)
     else run_bind (iocount_find (var_shape varp) edges (if IS_RECVAR varp then 1 else 0) n) (\<lambda>(j, zero).
       if zero then Done (int j - 1, 0)
       else assert_run (n \<le> j + 1 \<or> edges ! (j + 1) = var_shape varp ! (j + 1))
         (Done (int j - 1, foldl (\<lambda>c e. u64 (c * e)) 1 (drop j (take n edges))))))"

definition set_upper :: "int list \<Rightarrow> int list \<Rightarrow> nat \<Rightarrow> int list" where
  "set_upper stp edp n = map (\<lambda>(a, b). u64 (a + b)) (take n (zip stp edp))"

text \<open>The odometer: one step at place \<open>i\<close>, carried to the left; the first place does not wrap around.\<close>

primrec odo1 :: "int list \<Rightarrow> int list \<Rightarrow> int list \<Rightarrow> nat \<Rightarrow> int list run" where
  "odo1 start upper coord 0 = assert_run (coord ! 0 \<le> upper ! 0) (Done (coord[0 := u64 (coord ! 0 + 1)]))"
| "odo1 start upper coord (Suc i) = assert_run (int (Suc i) \<le> NC_MAX_VAR_DIMS \<and> coord ! Suc i \<le> upper ! Suc i)
     (let c = u64 (coord ! Suc i + 1) in
       if upper ! Suc i \<le> c then odo1 start upper (coord[Suc i := start ! Suc i]) i else Done (coord[Suc i := c]))"

subsection \<open>Reading and writing a rectangle\<close>

text \<open>
  The loops at the end of \<open>NC3_get_vara\<close> and \<open>NC3_put_vara\<close>. They take \<open>vara_fuel\<close> rounds at most: one for each coordinate of the
  dimensions up to \<open>index\<close>, where an empty inner dimension counts as one.
\<close>

definition vara_fuel :: "int list \<Rightarrow> nat \<Rightarrow> nat" where
  "vara_fuel edges index = nat (prod_list (map (max 1) (take (Suc index) edges))) + 1"

primrec get_rows :: "nat \<Rightarrow> (int list \<Rightarrow> 's \<Rightarrow> (int \<times> int option list \<times> 's) run) \<Rightarrow> int list \<Rightarrow> int list \<Rightarrow> nat \<Rightarrow> int list \<Rightarrow> int \<Rightarrow> 's \<Rightarrow>
    (int \<times> int option list \<times> 's) run" where
  "get_rows 0 rd start upper index coord status s = Loop"
| "get_rows (Suc fuel) rd start upper index coord status s = (if \<not> coord ! 0 < upper ! 0 then Done (status, [], s)
     else run_bind (rd coord s) (\<lambda>(lstatus, vs, s1). if lstatus \<noteq> NC_NOERR \<and> lstatus \<noteq> NC_ERANGE then Done (lstatus, vs, s1)
       else run_bind (odo1 start upper coord index) (\<lambda>coord'.
         run_bind (get_rows fuel rd start upper index coord' (if status = NC_NOERR then lstatus else status) s1) (\<lambda>(st, vs', s2).
           Done (st, vs @ vs', s2)))))"

primrec put_rows :: "nat \<Rightarrow> (int list \<Rightarrow> int list \<Rightarrow> 's \<Rightarrow> (int \<times> 's) run) \<Rightarrow> nat \<Rightarrow> int list \<Rightarrow> int list \<Rightarrow> nat \<Rightarrow> int list \<Rightarrow> int list \<Rightarrow> int \<Rightarrow> 's \<Rightarrow>
    (int \<times> 's) run" where
  "put_rows 0 wr iocount start upper index coord vs status s = Loop"
| "put_rows (Suc fuel) wr iocount start upper index coord vs status s = (if \<not> coord ! 0 < upper ! 0 then Done (status, s)
     else run_bind (wr coord vs s) (\<lambda>(lstatus, s1). if lstatus \<noteq> NC_NOERR \<and> lstatus \<noteq> NC_ERANGE then Done (lstatus, s1)
       else run_bind (odo1 start upper coord index) (\<lambda>coord'.
         put_rows fuel wr iocount start upper index coord' (drop iocount vs) (if status = NC_NOERR then lstatus else status) s1)))"

text \<open>\<open>edges\<close> is NULL when the whole variable is meant; the record dimension then stands for the number of records.\<close>

definition vara_edges :: "nc3_info \<Rightarrow> NC_var \<Rightarrow> int list option \<Rightarrow> int list run" where
  "vara_edges ncp varp edges = (case edges of Some e \<Rightarrow> Done e
     | None \<Rightarrow> if var_ndims varp = 0 then Done []
         else if IS_RECVAR varp then assert_run (int (var_ndims varp) \<le> NC_MAX_VAR_DIMS) (Done (numrecs ncp # tl (var_shape varp)))
         else Done (var_shape varp))"

text \<open>What follows the checks: a scalar, a contiguous piece, or the loop.\<close>

definition get_slab :: "(int \<Rightarrow> fval \<Rightarrow> int) \<Rightarrow> 's ncio \<Rightarrow> nc3_info \<Rightarrow> NC_var \<Rightarrow> int list \<Rightarrow> int list \<Rightarrow> int \<Rightarrow> 's \<Rightarrow> (int \<times> int option list \<times> 's) run" where
  "get_slab ub io ncp varp start edges memtype s =
     (if var_ndims varp = 0 then readNCv ub io ncp varp start 1 memtype s
      else if IS_RECVAR varp \<and> numrecs ncp < u64 (hd start + hd edges) then Done (NC_EEDGE, [], s)
      else if IS_RECVAR varp \<and> var_ndims varp = 1 \<and> recsize ncp \<le> u64 (var_len varp)
      then readNCv ub io ncp varp start (hd edges) memtype s
      else run_bind (NCiocount ncp varp edges) (\<lambda>(ii, iocount).
        if ii = -1 then readNCv ub io ncp varp start iocount memtype s
        else get_rows (vara_fuel edges (nat ii)) (\<lambda>coord. readNCv ub io ncp varp coord iocount memtype)
          start (set_upper start edges (var_ndims varp)) (nat ii) (take (var_ndims varp) start) NC_NOERR s))"

definition NC3_get_vara :: "(int \<Rightarrow> fval \<Rightarrow> int) \<Rightarrow> bool \<Rightarrow> 's ncio \<Rightarrow> 's nc3_files \<Rightarrow> int \<Rightarrow> int \<Rightarrow> int list \<Rightarrow> int list option \<Rightarrow> int \<Rightarrow>
    (int \<times> int option list \<times> 's nc3_files) run" where
  "NC3_get_vara ub relax io fs ncid varid start edges0 memtype0 = with_nc3 fs ncid [] (\<lambda>mode ncp s.
     if NC_indef ncp then Done (NC_EINDEFINE, [], ncp, s)
     else let (status, vp) = NC_lookupvar ncp varid in case vp of None \<Rightarrow> Done (status, [], ncp, s)
     | Some varp \<Rightarrow> let memtype = (if memtype0 = 0 then var_type varp else memtype0) in
       if (memtype = NC_CHAR) \<noteq> (var_type varp = NC_CHAR) then Done (NC_ECHAR, [], ncp, s)
       else run_bind (vara_edges ncp varp edges0) (\<lambda>edges. run_bind (NCcoordck relax io ncp varp start s) (\<lambda>(status, ncp1, s1).
         if status \<noteq> NC_NOERR then Done (status, [], ncp1, s1)
         else run_bind (NCedgeck relax ncp1 varp start edges) (\<lambda>status. if status \<noteq> NC_NOERR then Done (status, [], ncp1, s1)
           else run_bind (get_slab ub io ncp1 varp start edges memtype s1) (\<lambda>(status, vs, s2). Done (status, vs, ncp1, s2))))))"

definition put_slab :: "nc_env \<Rightarrow> (int \<Rightarrow> fval \<Rightarrow> int) \<Rightarrow> 's ncio \<Rightarrow> nc3_info \<Rightarrow> NC_var \<Rightarrow> int list \<Rightarrow> int list \<Rightarrow> int list \<Rightarrow> int \<Rightarrow> 's \<Rightarrow>
    (int \<times> nc3_info \<times> 's) run" where
  "put_slab E ub io ncp varp start edges vs memtype s =
     (if var_ndims varp = 0 then run_bind (writeNCv ub io ncp varp start 1 vs memtype s) (\<lambda>(status, s1). Done (status, ncp, s1))
      else run_bind (if IS_RECVAR varp then NCvnrecs E io ncp (u64 (hd start + hd edges)) s else Done (NC_NOERR, ncp, s)) (\<lambda>(status, ncp1, s1).
        if status \<noteq> NC_NOERR then Done (status, ncp1, s1)
        else run_bind (if IS_RECVAR varp \<and> var_ndims varp = 1 \<and> recsize ncp1 \<le> u64 (var_len varp)
          then writeNCv ub io ncp1 varp start (hd edges) vs memtype s1
          else run_bind (NCiocount ncp1 varp edges) (\<lambda>(ii, iocount).
            if ii = -1 then writeNCv ub io ncp1 varp start iocount vs memtype s1
            else put_rows (vara_fuel edges (nat ii)) (\<lambda>coord vs. writeNCv ub io ncp1 varp coord iocount vs memtype) (nat iocount)
              start (set_upper start edges (var_ndims varp)) (nat ii) (take (var_ndims varp) start) vs NC_NOERR s1))
          (\<lambda>(status, s2). Done (status, ncp1, s2))))"

definition NC3_put_vara :: "nc_env \<Rightarrow> (int \<Rightarrow> fval \<Rightarrow> int) \<Rightarrow> bool \<Rightarrow> 's ncio \<Rightarrow> 's nc3_files \<Rightarrow> int \<Rightarrow> int \<Rightarrow> int list \<Rightarrow> int list option \<Rightarrow> int list \<Rightarrow> int \<Rightarrow>
    (int \<times> unit \<times> 's nc3_files) run" where
  "NC3_put_vara E ub relax io fs ncid varid start edges0 vs memtype0 = with_nc3 fs ncid () (\<lambda>mode ncp s.
     if NC_readonly ncp then Done (NC_EPERM, (), ncp, s)
     else if NC_indef ncp then Done (NC_EINDEFINE, (), ncp, s)
     else let (status, vp) = NC_lookupvar ncp varid in case vp of None \<Rightarrow> Done (status, (), ncp, s)
     | Some varp \<Rightarrow> let memtype = (if memtype0 = 0 then var_type varp else memtype0) in
       if (memtype = NC_CHAR) \<noteq> (var_type varp = NC_CHAR) then Done (NC_ECHAR, (), ncp, s)
       else run_bind (vara_edges ncp varp edges0) (\<lambda>edges. run_bind (NCcoordck relax io ncp varp start s) (\<lambda>(status, ncp1, s1).
         if status \<noteq> NC_NOERR then Done (status, (), ncp1, s1)
         else run_bind (NCedgeck relax ncp1 varp start edges) (\<lambda>status. if status \<noteq> NC_NOERR then Done (status, (), ncp1, s1)
           else run_bind (put_slab E ub io ncp1 varp start edges vs memtype s1) (\<lambda>(status, ncp2, s2). Done (status, (), ncp2, s2))))))"

end
