(* ===== verification/NC3_Values.thy ===== *)
theory NC3_Values
  imports NC3_Attval NC3_Data
begin

text \<open>
  The calls that move values, \<open>NC3_put_att\<close>, \<open>NC3_get_att\<close>, \<open>NC3_get_vara\<close>, \<open>NC3_put_vara\<close> and the fill values of a variable, keep every file in
  its mode: what they change of a header are attributes, the record count and the bits of the flags that say what is to be written.
\<close>

lemma same_mode_numrecs [simp]:
  "same_mode n (set_NC_ndirty n)" "same_mode n (NC_increase_numrecs n r)" "same_mode n (set_NC_ndirty n\<lparr>numrecs := r\<rparr>)"
  by (simp_all add: same_mode_def set_NC_ndirty_def NC_increase_numrecs_def flag_bits)

lemma when_done_same: "when_done (same3 ncp) m \<Longrightarrow> same_mode n ncp \<Longrightarrow> when_done (same3 n) m"
  by (erule when_done_mono) (auto intro: same_mode_trans)

subsection \<open>Attributes\<close>

lemma att_overwrite_mode: "when_done (same3 ncp) (att_overwrite ub io ncp varid ncap i type n vals mem s)"
  unfolding att_overwrite_def Let_def
  by (intro when_done_intros when_done_bind [OF dirty_steps(3)]; simp split: prod.split)

lemma att_define_mode: "when_done (same3 ncp) (att_define E ub ncp varid ncap prev name type n vals mem s)"
  unfolding att_define_def Let_def
  by (intro when_done_intros) simp_all

lemma atts_mode:
  assumes "files_mode_ok fs"
  shows "when_done result_mode_ok (NC3_put_att E ub io fs ncid varid name type n vals mem)" "when_done result_mode_ok (NC3_get_att E ub fs ncid varid name mem)"
proof -
  show "when_done result_mode_ok (NC3_put_att E ub io fs ncid varid name type n vals mem)"
    unfolding NC3_put_att_def Let_def
    by (rule with_nc3_same [OF assms]; intro when_done_if when_done_option att_overwrite_mode att_define_mode; simp)
  show "when_done result_mode_ok (NC3_get_att E ub fs ncid varid name mem)"
    unfolding NC3_get_att_def Let_def
    by (rule with_nc3_same [OF assms]; intro when_done_intros; simp)
qed

subsection \<open>Data\<close>

lemma vnrecs_loop_mode:
  "when_done (same2 ncp) (vnrecs_loop fill ncp n s)"
proof (induction fill ncp n s rule: vnrecs_loop.induct)
  case (1 fill ncp n s)
  have "when_done (same2 ncp) (vnrecs_loop fill (NC_increase_numrecs ncp (numrecs ncp + 1)) n s1)" if "numrecs ncp < n" for s1
    by (rule when_done_mono [OF 1]) (use that in \<open>auto intro: same_mode_trans [OF same_mode_numrecs(2)]\<close>)
  then show ?case by (subst vnrecs_loop.simps) (intro when_done_intros; simp)
qed

lemma same2_trans: "when_done (same2 ncp) m \<Longrightarrow> same_mode n ncp \<Longrightarrow> when_done (same2 n) m"
  by (erule when_done_mono) (auto intro: same_mode_trans)

lemma NCvnrecs_mode: "when_done (same2 ncp) (NCvnrecs E io ncp n s)"
proof -
  let ?ncp = "set_NC_ndirty ncp" and ?vs = "vars_value (vars (set_NC_ndirty ncp))"
  have loop: "when_done (same2 ncp) (vnrecs_loop fill ?ncp n s)" for fill
    by (rule same2_trans [OF vnrecs_loop_mode]) simp
  have fin: "when_done (same2 ncp) (if status \<noteq> NC_NOERR then Done (status, ncp1, s1)
      else if NC_doNsync ncp1 then write_numrecs io ncp1 s1 else Done (NC_NOERR, ncp1, s1))" if "same_mode ncp ncp1" for status :: int and ncp1 s1
    using that by (intro when_done_if same2_trans [OF write_numrecs_mode]) simp_all
  have "when_done (same2 ncp) (if \<not> NC_dofill ?ncp then Done (NC_NOERR, ?ncp\<lparr>numrecs := n\<rparr>, s)
      else case filter IS_RECVAR ?vs of [recvarp] \<Rightarrow> vnrecs_loop (\<lambda>n. NCfillspecialrecord E io n recvarp) ?ncp n s
        | _ \<Rightarrow> vnrecs_loop (\<lambda>n. NCfillrecord E io n ?vs) ?ncp n s)"
    using loop by (simp split: list.split)
  then show ?thesis unfolding NCvnrecs_def Let_def
    by (intro when_done_if) (simp, erule when_done_bind, clarsimp split del: if_split, erule fin)
qed

lemma read_numrecs_same: "when_done (same2 ncp) (read_numrecs io ncp s)"
  unfolding read_numrecs_def
  by (intro when_done_intros; simp add: same_mode_def flag_bits split: prod.split)

lemma NCcoordck_mode: "when_done (same2 ncp) (NCcoordck relax io ncp varp coord s)"
  unfolding NCcoordck_def Let_def
  by (intro when_done_if when_done_bind [OF read_numrecs_same]) (auto split: if_splits)

lemma put_slab_mode: "when_done (same2 ncp) (put_slab E ub io ncp varp start edges vals mem s)"
  unfolding put_slab_def
  apply (rule when_done_if)
   apply (rule when_done_bind_any, simp split: prod.split)
  apply (rule when_done_bind [where Q = "same2 ncp"])
   apply (simp add: NCvnrecs_mode)
  apply (clarsimp split del: if_split)
  apply (intro when_done_if when_done_bind_any; simp split: prod.split)
  done

lemma vara_mode:
  assumes "files_mode_ok fs"
  shows "when_done result_mode_ok (NC3_get_vara ub relax io fs ncid varid start edges mem)"
    "when_done result_mode_ok (NC3_put_vara E ub relax io fs ncid varid start edges vals mem)"
proof -
  have get: "when_done (same3 ncp) (run_bind (NCcoordck relax io ncp varp start s) (\<lambda>(status, ncp1, s1).
      if status \<noteq> NC_NOERR then Done (status, [], ncp1, s1)
      else run_bind (NCedgeck relax ncp1 varp start edges) (\<lambda>status. if status \<noteq> NC_NOERR then Done (status, [], ncp1, s1)
        else run_bind (get_slab ub io ncp1 varp start edges mem s1) (\<lambda>(status, vs, s2). Done (status, vs, ncp1, s2)))))" for ncp :: nc3_info and varp edges mem s
    apply (rule when_done_bind [OF NCcoordck_mode], clarsimp split del: if_split)
    apply (intro when_done_if when_done_bind_any; simp split: prod.split)
    done
  have put: "when_done (same3 ncp) (run_bind (NCcoordck relax io ncp varp start s) (\<lambda>(status, ncp1, s1).
      if status \<noteq> NC_NOERR then Done (status, (), ncp1, s1)
      else run_bind (NCedgeck relax ncp1 varp start edges) (\<lambda>status. if status \<noteq> NC_NOERR then Done (status, (), ncp1, s1)
        else run_bind (put_slab E ub io ncp1 varp start edges vals mem s1) (\<lambda>(status, ncp2, s2). Done (status, (), ncp2, s2)))))" for ncp :: nc3_info and varp edges mem s
    apply (rule when_done_bind [OF NCcoordck_mode], clarsimp split del: if_split)
    apply (rule when_done_if, simp, rule when_done_bind_any, rule when_done_if, simp)
    apply (rule when_done_bind [OF put_slab_mode], auto intro: same_mode_trans)
    done
  show "when_done result_mode_ok (NC3_get_vara ub relax io fs ncid varid start edges mem)"
    unfolding NC3_get_vara_def Let_def
    by (rule with_nc3_same [OF assms]) (intro when_done_if when_done_prod when_done_option when_done_bind_any get; simp)
  show "when_done result_mode_ok (NC3_put_vara E ub relax io fs ncid varid start edges vals mem)"
    unfolding NC3_put_vara_def Let_def
    by (rule with_nc3_same [OF assms]) (intro when_done_if when_done_prod when_done_option when_done_bind_any put; simp)
qed

text \<open>The calls for fill values, each a sequence of the others.\<close>

lemma nc_get_att_mode: "files_mode_ok fs \<Longrightarrow> when_done result_mode_ok (nc_get_att E ub fs ncid varid name)"
  unfolding nc_get_att_def
  by (rule when_done_bind [OF inquiries_mode(7)]) (auto intro: atts_mode split: option.split)

lemma fill_values_mode:
  assumes "files_mode_ok fs"
  shows "when_done result_mode_ok (inq_var_fill_value E ub fs ncid varid)" "when_done result_mode_ok (def_var_fill_value E ub io fs ncid varid no_fill v)"
proof -
  show "when_done result_mode_ok (inq_var_fill_value E ub fs ncid varid)"
    unfolding inq_var_fill_value_def
    apply (rule when_done_bind [OF inquiries_mode(4) [OF assms]], clarsimp split: option.split)
    apply (rule when_done_bind [OF nc_get_att_mode], assumption)
    apply (auto split: prod.split intro!: when_done_if)
    done
  have put: "when_done result_mode_ok (run_bind (NC3_inq_var fs2 ncid varid) (\<lambda>(st, r, fs3). case r of None \<Rightarrow> Fault
      | Some (nm, type, rest) \<Rightarrow> NC3_put_att E ub io fs3 ncid varid (Some ''_FillValue'') type 1 (Some [w]) type))" if "files_mode_ok fs2" for fs2 w
    by (rule when_done_bind [OF inquiries_mode(4) [OF that]]) (auto intro: atts_mode split: option.split)
  show "when_done result_mode_ok (def_var_fill_value E ub io fs ncid varid no_fill v)"
    unfolding def_var_fill_value_def
    apply (rule when_done_bind [OF definitions_mode(5) [OF assms]], clarsimp split del: if_split)
    apply (rule when_done_if, simp, rule when_done_option, simp)
    apply (rule when_done_if, simp)
    apply (rule when_done_bind [OF definitions_mode(7)], assumption, clarsimp split del: if_split)
    apply (rule when_done_if, simp, rule put, assumption)
    done
qed

end
