(* ===== verification/NC_Calls.thy ===== *)
theory NC_Calls
  imports NC_Dfile NC3_Values
begin

text \<open>
  Sequences of calls of the library. Each call keeps the table of open files well-formed and every header in a proper mode;
  then what creating does to the numbers of the open files, and what a failed close leaves behind.
\<close>

subsection \<open>The table is kept\<close>

abbreviation "result_files_ok \<equiv> \<lambda>(st::int, r, fs'). files_ok fs'"

lemma when_done_conj: "when_done P m \<Longrightarrow> when_done Q m \<Longrightarrow> when_done (\<lambda>a. P a \<and> Q a) m"
  by (auto simp: when_done_def)

lemma slots_objs [simp]: "slots (fs\<lparr>objs := os\<rparr>) = slots fs"
  by (simp add: slots_def)

lemma NC_deref_Done: "NC_deref fs p = Done nc \<longleftrightarrow> p < length (objs fs) \<and> objs fs ! p = Some nc"
  by (auto simp: NC_deref_def peek_def split: option.splits)

lemma files_ok_alt:
  "files_ok fs \<longleftrightarrow> slots fs \<subseteq> {1..<NCFILELISTLENGTH} \<and> numfiles fs = int (card (slots fs)) \<and>
     (\<forall>l i p. nc_filelist fs = Some l \<longrightarrow> l i = Some p \<longrightarrow> (\<exists>nc. NC_deref fs p = Done nc \<and> ext_ncid nc = s32 (int i * 65536)))"
  by (auto simp: files_ok_def NC_deref_Done split: option.split)

lemma files_okD:
  assumes "files_ok fs" "nc_filelist fs = Some l" "l i = Some p" "NC_deref fs p = Done nc"
  shows "ext_ncid nc = s32 (int i * 65536)" "slot_of (ext_ncid nc) = i"
proof -
  have "i \<in> slots fs" using assms(2,3) by (auto simp: slots_def)
  then have "i < NCFILELISTLENGTH" using assms(1) by (auto simp: files_ok_def)
  moreover show e: "ext_ncid nc = s32 (int i * 65536)" using assms unfolding files_ok_alt by fastforce
  ultimately show "slot_of (ext_ncid nc) = i" by (simp add: slot_of_id)
qed

lemma NC_store_simps [simp]:
  "slots (NC_store fs p nc) = slots fs" "numfiles (NC_store fs p nc) = numfiles fs" "nc_filelist (NC_store fs p nc) = nc_filelist fs"
  "objs (NC_store fs p nc) = (objs fs)[p := Some nc]"
  by (simp_all add: NC_store_def slots_def)

lemma NC_deref_update:
  "NC_deref (fs\<lparr>objs := (objs fs)[p := x]\<rparr>) q = (if q = p \<and> p < length (objs fs) then (case x of None \<Rightarrow> Fault | Some nc \<Rightarrow> Done nc) else NC_deref fs q)"
  by (auto simp: NC_deref_def peek_def nth_list_update split: option.split)

lemma NC_deref_store: "NC_deref fs p = Done nc \<Longrightarrow> NC_deref (NC_store fs p nc') q = (if q = p then Done nc' else NC_deref fs q)"
  by (auto simp: NC_store_def NC_deref_update NC_deref_Done)

lemma files_ok_store:
  assumes "files_ok fs" "NC_deref fs p = Done nc" "ext_ncid nc' = ext_ncid nc"
  shows "files_ok (NC_store fs p nc')"
  using assms(1,3) unfolding files_ok_alt NC_store_simps NC_deref_store [OF assms(2)] by (metis assms(2) run.inject)

lemma files_ok_dispatch: "files_ok fs \<Longrightarrow> NC_deref fs p = Done nc \<Longrightarrow> files_ok (NC_store fs p (nc\<lparr>dispatchdata := d\<rparr>))"
  by (rule files_ok_store) simp_all

lemma with_nc3_files:
  assumes "files_ok fs"
  shows "when_done result_files_ok (with_nc3 fs ncid r0 f)" "when_done result_files_ok (with_nc3_close fs ncid g)"
  using assms by (auto simp: when_done_def run_bind_Done with_nc3_def with_nc3_close_def files_ok_dispatch split: option.splits prod.splits if_splits)

lemma free_NC_files:
  assumes "files_ok fs" "\<not> in_table fs p"
  shows "files_ok (free_NC fs p)"
proof -
  have "q \<noteq> p" if "nc_filelist fs = Some l" "l i = Some q" for l i q using assms(2) that by (metis in_table_def rangeI)
  with assms(1) show ?thesis unfolding files_ok_alt free_NC_def NC_deref_update by (auto simp: slots_def)
qed

lemma free_NC_mode: "files_mode_ok fs \<Longrightarrow> files_mode_ok (free_NC fs p)"
  unfolding files_mode_ok_def free_NC_def
  apply (intro allI impI)
  subgoal for q nc ncp s by (cases "q = p") auto
  done

lemma files_mode_objs: "files_mode_ok fs \<Longrightarrow> objs fs' = objs fs \<Longrightarrow> files_mode_ok fs'"
  by (simp add: files_mode_ok_def)

lemma when_done_self: "when_done (\<lambda>a. m = Done a) m"
  by (simp add: when_done_def)

text \<open>A structure that was removed is not in the table any more, wherever it was.\<close>

lemma del_from_NCList_files:
  assumes ok: "files_ok fs"
  shows "when_done (\<lambda>fs'. files_ok fs' \<and> \<not> in_table fs' p \<and> objs fs' = objs fs) (del_from_NCList fs p)"
proof (cases "\<exists>l nc. nc_filelist fs = Some l \<and> NC_deref fs p = Done nc \<and> l (slot_of (ext_ncid nc)) = Some p")
  case True
  then obtain l nc where l: "nc_filelist fs = Some l" "NC_deref fs p = Done nc" "l (slot_of (ext_ncid nc)) = Some p" by blast
  let ?i = "slot_of (ext_ncid nc)"
  have nc: "objs fs ! p = Some nc" using l(2) by (simp add: NC_deref_Done)
  obtain fs' where d: "del_from_NCList fs p = Done fs'" "files_ok fs'" "objs fs' = objs fs"
    using del_from_NCList_result [OF ok l(1,3) nc] by blast
  have "?i \<in> slots fs" using l by (auto simp: slots_def)
  then have "?i \<noteq> 0" using ok by (auto simp: files_ok_def)
  then have "nc_filelist fs' = None \<or> nc_filelist fs' = Some (l(?i := None)) \<or> numfiles fs = 0"
    using d(1) l by (auto simp: del_from_NCList_def Let_def free_NCList_def split: if_splits)
  moreover have "numfiles fs \<noteq> 0" using \<open>?i \<in> slots fs\<close> ok slots_finite [OF ok] by (auto simp: files_ok_def)
  moreover have "?i = i" if "l i = Some p" for i using files_okD(2) [OF ok l(1) that l(2)] .
  ultimately have "\<not> in_table fs' p" by (auto simp: in_table_def split: if_splits)
  with d show ?thesis by simp
next
  case False
  have "\<not> in_table fs p" if "NC_deref fs p = Done nc" for nc
  proof
    assume "in_table fs p"
    then obtain l i where "nc_filelist fs = Some l" "l i = Some p" by (auto simp: in_table_def)
    with files_okD(2) [OF ok this that] False that show False by blast
  qed
  with False ok show ?thesis
    by (auto simp: when_done_def run_bind_Done del_from_NCList_def Let_def split: option.splits if_splits)
qed

lemma add_to_NCList_files:
  assumes ok: "files_ok fs" and out: "\<not> in_table fs p"
  shows "when_done (\<lambda>(st, fs'). files_ok fs' \<and> (\<forall>nc. NC_deref fs p = Done nc \<longrightarrow> (\<exists>i. objs fs' = (objs fs)[p := Some (nc\<lparr>ext_ncid := i\<rparr>)])))
    (add_to_NCList mem fs p)"
proof -
  define fs1 where "fs1 = (if nc_filelist fs = None then fs\<lparr>nc_filelist := Some (\<lambda>_. None), numfiles := 0\<rparr> else fs)"
  define l where "l = the (nc_filelist fs1)"
  define i where "i = first_free l 1"
  have ok1: "files_ok fs1" "objs fs1 = objs fs" "nc_filelist fs1 = Some l" using ok by (auto simp: files_ok_def slots_def fs1_def l_def)
  have d1: "NC_deref fs1 q = NC_deref fs q" for q using ok1(2) by (simp add: NC_deref_def)
  have same: "\<exists>i. objs fs = (objs fs)[p := Some (nc\<lparr>ext_ncid := i\<rparr>)]" if "NC_deref fs p = Done nc" for nc
    using that by (intro exI [of _ "ext_ncid nc"]) (metis NC_deref_Done NC.surjective NC.update_convs(1) list_update_id)
  have new: "files_ok (NC_store (fs1\<lparr>nc_filelist := Some (l(i := Some p)), numfiles := numfiles fs1 + 1\<rparr>) p (nc\<lparr>ext_ncid := s32 (int i * 65536)\<rparr>))"
    (is "files_ok ?fs'") if "i \<noteq> 0" "NC_deref fs p = Done nc" for nc
  proof -
    have i: "1 \<le> i" "i < NCFILELISTLENGTH" "l i = None" using first_free_spec [of l 1] that(1) unfolding i_def by auto
    have "q \<noteq> p" if "l j = Some q" for j q
      using that out by (cases "nc_filelist fs") (auto simp: in_table_def fs1_def l_def split: if_splits, metis rangeI)
    moreover have "slots fs1 = dom l" "slots ?fs' = insert i (dom l)" by (auto simp: slots_def ok1(3))
    moreover have "i \<notin> dom l" "finite (dom l)" using i(3) slots_finite [OF ok1(1)] by (auto simp: slots_def ok1(3))
    moreover have "NC_deref ?fs' q = (if q = p then Done (nc\<lparr>ext_ncid := s32 (int i * 65536)\<rparr>) else NC_deref fs1 q)" for q
      using that(2) ok1(2) by (auto simp: NC_deref_def peek_def split: if_splits option.splits)
    ultimately show ?thesis using ok1(1,3) i(1,2) unfolding files_ok_alt by (auto split: if_splits)
  qed
  show ?thesis
    unfolding add_to_NCList_def fs1_def [symmetric] Let_def l_def [symmetric] i_def [symmetric]
    using ok ok1 same d1 new by (auto simp: when_done_def run_bind_Done)
qed

subsection \<open>The calls\<close>

datatype nc_call =
    Create string int int int "int option" bool
  | Open string int int "int option" bool "string option"
  | Close int
  | Abort int
  | Redef int
  | Enddef int int int int int
  | Sync int
  | Set_fill int int
  | Def_dim int string int
  | Rename_dim int int string
  | Def_var int string int int "int list"
  | Rename_var int int string
  | Def_var_fill int int bool
  | Rename_att int int string string
  | Del_att int int string
  | Put_att int int "string option" int nat "int list option" int
  | Get_att int int "string option" int
  | Inq_fill int int
  | Set_fill_value int int bool "int option"
  | Get_vara int int "int list" "int list option" int
  | Put_vara int int "int list" "int list option" "int list" int

text \<open>What the calls depend on besides the table.\<close>

record 's nc_world =
  w_env :: nc_env
  w_io :: "'s ncio"
  w_drv :: "'s driver"
  w_url :: "string \<Rightarrow> int \<Rightarrow> int \<times> string"
  w_disk :: "string \<Rightarrow> int + string"
  w_deffmt :: int
  w_ub :: "int \<Rightarrow> fval \<Rightarrow> int"
  w_relax :: bool

definition files_after :: "(int \<times> 'r \<times> 's nc3_files) run \<Rightarrow> 's nc3_files run" where
  "files_after m = run_bind m (\<lambda>(st, r, fs). Done fs)"

fun nc_exec :: "'s nc_world \<Rightarrow> 's nc3_files \<Rightarrow> nc_call \<Rightarrow> 's nc3_files run" where
  "nc_exec w fs (Create path cmode isz pe chunkp par) = run_bind (NC_create (w_env w) (w_io w) (w_drv w) (w_url w) (w_deffmt w) fs path cmode isz pe chunkp par)
     (\<lambda>(st, r, c, fs'). Done fs')"
| "nc_exec w fs (Open path omode pe chunkp par mem) = run_bind (NC_open (w_env w) (w_io w) (w_drv w) (w_url w) (w_disk w) fs path omode pe chunkp par mem)
     (\<lambda>(st, r, c, fs'). Done fs')"
| "nc_exec w fs (Close ncid) = files_after (nc_close (w_env w) (w_io w) fs ncid)"
| "nc_exec w fs (Abort ncid) = files_after (nc_abort (w_io w) fs ncid)"
| "nc_exec w fs (Redef ncid) = files_after (NC3_redef (w_env w) (w_io w) fs ncid)"
| "nc_exec w fs (Enddef ncid h va v ra) = files_after (NC3_enddef (w_env w) (w_io w) fs ncid h va v ra)"
| "nc_exec w fs (Sync ncid) = files_after (NC3_sync (w_env w) (w_io w) fs ncid)"
| "nc_exec w fs (Set_fill ncid m) = files_after (NC3_set_fill (w_io w) fs ncid m)"
| "nc_exec w fs (Def_dim ncid name sz) = files_after (NC3_def_dim (w_env w) fs ncid name sz)"
| "nc_exec w fs (Rename_dim ncid i name) = files_after (NC3_rename_dim (w_env w) (w_io w) fs ncid i name)"
| "nc_exec w fs (Def_var ncid name ty nd ids) = files_after (NC3_def_var (w_env w) fs ncid name ty nd ids)"
| "nc_exec w fs (Rename_var ncid i name) = files_after (NC3_rename_var (w_env w) (w_io w) fs ncid i name)"
| "nc_exec w fs (Def_var_fill ncid i nofill) = files_after (NC3_def_var_fill fs ncid i nofill)"
| "nc_exec w fs (Rename_att ncid i name new) = files_after (NC3_rename_att (w_env w) (w_io w) fs ncid i name new)"
| "nc_exec w fs (Del_att ncid i name) = files_after (NC3_del_att (w_env w) fs ncid i name)"
| "nc_exec w fs (Put_att ncid i name ty n vals mem) = files_after (NC3_put_att (w_env w) (w_ub w) (w_io w) fs ncid i name ty n vals mem)"
| "nc_exec w fs (Get_att ncid i name mem) = files_after (NC3_get_att (w_env w) (w_ub w) fs ncid i name mem)"
| "nc_exec w fs (Inq_fill ncid i) = files_after (inq_var_fill_value (w_env w) (w_ub w) fs ncid i)"
| "nc_exec w fs (Set_fill_value ncid i nofill v) = files_after (def_var_fill_value (w_env w) (w_ub w) (w_io w) fs ncid i nofill v)"
| "nc_exec w fs (Get_vara ncid i start edges mem) = files_after (NC3_get_vara (w_ub w) (w_relax w) (w_io w) fs ncid i start edges mem)"
| "nc_exec w fs (Put_vara ncid i start edges vals mem) = files_after (NC3_put_vara (w_env w) (w_ub w) (w_relax w) (w_io w) fs ncid i start edges vals mem)"

text \<open>The tables a program reaches that starts with none; calls that do not return end it.\<close>

definition no_files :: "'s nc3_files" where
  "no_files = \<lparr>nc_filelist = None, numfiles = 0, objs = []\<rparr>"

inductive nc_reachable :: "'s nc_world \<Rightarrow> 's nc3_files \<Rightarrow> bool" for w where
  start: "nc_reachable w no_files"
| step: "nc_reachable w fs \<Longrightarrow> nc_exec w fs call = Done fs' \<Longrightarrow> nc_reachable w fs'"

definition nc_files_inv :: "'s nc3_files \<Rightarrow> bool" where
  "nc_files_inv fs \<longleftrightarrow> files_ok fs \<and> files_mode_ok fs"

lemma files_after_inv:
  "when_done result_files_ok m \<Longrightarrow> when_done result_mode_ok m \<Longrightarrow> when_done nc_files_inv (files_after m)"
  by (cases m) (auto simp: files_after_def nc_files_inv_def)

lemma handlers_files:
  assumes "files_ok fs"
  shows "when_done result_files_ok (NC3_redef E io fs ncid)" "when_done result_files_ok (NC3_enddef E io fs ncid h va v ra)"
    "when_done result_files_ok (NC3_sync E io fs ncid)" "when_done result_files_ok (NC3_set_fill io fs ncid m)"
    "when_done result_files_ok (NC3_def_dim E fs ncid name sz)" "when_done result_files_ok (NC3_rename_dim E io fs ncid i name)"
    "when_done result_files_ok (NC3_def_var E fs ncid name ty nd ids)" "when_done result_files_ok (NC3_rename_var E io fs ncid i name)"
    "when_done result_files_ok (NC3_def_var_fill fs ncid i nofill)" "when_done result_files_ok (NC3_rename_att E io fs ncid i name new)"
    "when_done result_files_ok (NC3_del_att E fs ncid i name)"
    "when_done result_files_ok (NC3_abort io fs ncid)" "when_done result_files_ok (NC3_close E io fs ncid)"
  unfolding NC3_redef_def NC3_enddef_def NC3_sync_def NC3_set_fill_def NC3_def_dim_def NC3_rename_dim_def NC3_def_var_def NC3_rename_var_def
    NC3_def_var_fill_def NC3_rename_att_def NC3_del_att_def NC3_abort_def NC3_close_def
  by (rule with_nc3_files [OF assms])+

lemma values_files:
  assumes "files_ok fs"
  shows "when_done result_files_ok (NC3_put_att E ub io fs ncid i oname ty n vals mem)" "when_done result_files_ok (NC3_get_att E ub fs ncid i oname mem)"
    "when_done result_files_ok (NC3_inq_att E fs ncid i oname)" "when_done result_files_ok (NC3_inq_var fs ncid i)"
    "when_done result_files_ok (NC3_get_vara ub relax io fs ncid i start edges mem)" "when_done result_files_ok (NC3_put_vara E ub relax io fs ncid i start edges ws mem)"
  unfolding NC3_put_att_def NC3_get_att_def NC3_inq_att_def NC3_inq_var_def NC3_get_vara_def NC3_put_vara_def
  by (rule with_nc3_files [OF assms])+

lemma fill_values_files:
  assumes "files_ok fs"
  shows "when_done result_files_ok (inq_var_fill_value E ub fs ncid i)" "when_done result_files_ok (def_var_fill_value E ub io fs ncid i no_fill v)"
proof -
  have get: "when_done result_files_ok (nc_get_att E ub fs1 ncid i oname)" if "files_ok fs1" for fs1 oname
    unfolding nc_get_att_def by (rule when_done_bind [OF values_files(3) [OF that]]) (auto intro: values_files split: option.split)
  show "when_done result_files_ok (inq_var_fill_value E ub fs ncid i)"
    unfolding inq_var_fill_value_def
    apply (rule when_done_bind [OF values_files(4) [OF assms]], clarsimp split: option.split)
    apply (rule when_done_bind [OF get], assumption)
    apply (auto split: prod.split intro!: when_done_if)
    done
  have put: "when_done result_files_ok (run_bind (NC3_inq_var fs2 ncid i) (\<lambda>(st, r, fs3). case r of None \<Rightarrow> Fault
      | Some (nm, type, rest) \<Rightarrow> NC3_put_att E ub io fs3 ncid i (Some ''_FillValue'') type 1 (Some [w]) type))" if "files_ok fs2" for fs2 w
    by (rule when_done_bind [OF values_files(4) [OF that]]) (auto intro: values_files split: option.split)
  show "when_done result_files_ok (def_var_fill_value E ub io fs ncid i no_fill v)"
    unfolding def_var_fill_value_def
    apply (rule when_done_bind [OF handlers_files(9) [OF assms]], clarsimp split del: if_split)
    apply (rule when_done_if, simp, rule when_done_option, simp)
    apply (rule when_done_if, simp)
    apply (rule when_done_bind [OF handlers_files(11)], assumption, clarsimp split del: if_split)
    apply (rule when_done_if, simp, rule put, assumption)
    done
qed

lemma NC_leave_inv:
  assumes inv: "nc_files_inv fs" and m: "when_done result_files_ok m" "when_done result_mode_ok m"
  shows "when_done (\<lambda>(st, c, fs'). nc_files_inv fs') (NC_leave fs ncid always m)"
proof -
  have fin: "when_done nc_files_inv (run_bind (del_from_NCList fs1 p) (\<lambda>fs2. Done (free_NC fs2 p)))" if "nc_files_inv fs1" for fs1 p
    apply (rule when_done_bind [OF del_from_NCList_files])
    using that by (auto simp: nc_files_inv_def intro: free_NC_files free_NC_mode files_mode_objs)
  have fin': "when_done (\<lambda>(st, c, fs'). nc_files_inv fs') (run_bind (del_from_NCList fs1 p) (\<lambda>fs2. Done (st, c, free_NC fs2 p)))"
    if "nc_files_inv fs1" for fs1 p st c
    using fin [OF that, of p] by (cases "del_from_NCList fs1 p") auto
  show ?thesis
    unfolding NC_leave_def
    apply (rule when_done_bind_any, clarsimp split: option.split split del: if_split, intro conjI allI impI)
     apply (rule inv)
    apply (rule when_done_bind [OF when_done_conj [OF m]], clarsimp split del: if_split)
    apply (rule when_done_if)
     apply (rule fin', simp add: nc_files_inv_def)
    apply (simp add: nc_files_inv_def)
    done
qed

lemma NC3_create_files: "files_ok fs \<Longrightarrow> when_done (\<lambda>(st, r, c, fs'). files_ok fs') (NC3_create E io drv path flg isz pe ch fs p)"
  unfolding NC3_create_def Let_def
  by (rule when_done_bind [OF when_done_self], intro when_done_intros) (simp_all add: files_ok_dispatch)

lemma NC3_open_files: "files_ok fs \<Longrightarrow> when_done (\<lambda>(st, r, c, fs'). files_ok fs') (NC3_open E io drv path flg pe ch fs p)"
  unfolding NC3_open_def Let_def
  by (rule when_done_bind [OF when_done_self], intro when_done_intros) (simp_all add: files_ok_dispatch)

lemma NC_enter_inv:
  fixes fs :: "'s nc3_files"
  assumes inv: "nc_files_inv fs"
    and f: "\<And>fs' p. nc_files_inv fs' \<Longrightarrow> when_done (\<lambda>(st, r, c, fs2). nc_files_inv fs2) (f fs' p)"
  shows "when_done (\<lambda>(st, r, c, fs'). nc_files_inv fs') (NC_enter E path mode model fs f)"
proof -
  have fin: "when_done (\<lambda>(st, r, c, fs'). nc_files_inv fs') (run_bind (del_from_NCList fs1 p) (\<lambda>fs2. Done (st, r, c, free_NC fs2 p)))"
    if "nc_files_inv fs1" for fs1 p st r c
    apply (rule when_done_bind [OF del_from_NCList_files])
    using that by (auto simp: nc_files_inv_def intro: free_NC_files free_NC_mode files_mode_objs)
  let ?nc = "\<lparr>ext_ncid = 0, nc_path = path, nc_mode = mode, nc_model = model, dispatchdata = None\<rparr> :: (nc3_info \<times> 's) NC"
  let ?fs1 = "fs\<lparr>objs := objs fs @ [Some ?nc]\<rparr>" and ?p = "length (objs fs)"
  have d: "NC_deref ?fs1 q = (if q = ?p then Done ?nc else NC_deref fs q)" for q
    by (auto simp: NC_deref_def peek_def nth_append)
  have new: "files_ok ?fs1" "\<not> in_table ?fs1 ?p" "files_mode_ok ?fs1"
  proof -
    have lt: "q < ?p" if "nc_filelist fs = Some l" "l i = Some q" for l i q
      using inv that by (fastforce simp: nc_files_inv_def files_ok_alt NC_deref_Done)
    then show "files_ok ?fs1" using inv unfolding nc_files_inv_def files_ok_alt d by (auto simp: slots_def)
    show "\<not> in_table ?fs1 ?p" using lt [OF _ sym] by (fastforce simp: in_table_def)
    show "files_mode_ok ?fs1" using inv by (auto simp: nc_files_inv_def files_mode_ok_def nth_append less_Suc_eq)
  qed
  have om: "files_mode_ok fs2" if "objs fs2 = objs fs @ [Some (?nc\<lparr>ext_ncid := i\<rparr>)]" for fs2 :: "'s nc3_files" and i
    using inv that by (auto simp: nc_files_inv_def files_mode_ok_def nth_append less_Suc_eq)
  have add: "when_done (\<lambda>(st, fs2). nc_files_inv fs2) (add_to_NCList (env_mem E) ?fs1 ?p)"
    by (rule when_done_mono [OF add_to_NCList_files [OF new(1,2)]]) (use om in \<open>auto simp: d nc_files_inv_def\<close>)
  show ?thesis
  proof (cases "env_mem E 48 \<and> env_mem E (length path + 1)")
    case True
    then have n: "new_NC (env_mem E) fs path mode model = (NC_NOERR, Some ?p, ?fs1)" by (simp add: new_NC_def)
    show ?thesis
      unfolding NC_enter_def n Let_def prod.case option.case
      apply (rule when_done_bind [OF add], clarsimp)
      apply (rule when_done_bind, erule f, clarsimp split del: if_split)
      apply (rule when_done_if)
       apply (erule fin)
      apply (rule when_done_bind_any, simp)
      done
  qed (use inv in \<open>auto simp: NC_enter_def new_NC_def\<close>)
qed

lemma nc_exec_inv:
  fixes fs :: "'s nc3_files"
  assumes inv: "nc_files_inv fs" and w: "driver_ok (w_drv w)"
  shows "when_done nc_files_inv (nc_exec w fs call)"
proof -
  have fs: "files_ok fs" "files_mode_ok fs" using inv by (simp_all add: nc_files_inv_def)
  have leave: "when_done nc_files_inv (files_after m)" if "when_done (\<lambda>(st, c, fs'). nc_files_inv fs') m" for m :: "(int \<times> ('s \<times> bool) option \<times> 's nc3_files) run"
    using that by (cases m) (auto simp: files_after_def)
  have four: "when_done nc_files_inv (run_bind m (\<lambda>(st, r, c, fs'). Done fs'))"
    if "when_done (\<lambda>(st, r, c, fs'). nc_files_inv fs') m" for m :: "(int \<times> int option \<times> (int option \<times> ('s \<times> bool) option) \<times> 's nc3_files) run"
    using that by (cases m) auto
  show ?thesis
  proof (cases call)
    case (Create path cmode isz pe chunkp par)
    have c: "when_done (\<lambda>(st, r, c, fs2). nc_files_inv fs2) (NC3_create (w_env w) (w_io w) (w_drv w) path' cm isz pe chunkp fs' p)"
      if "nc_files_inv fs'" for fs' p path' cm
      by (rule when_done_mono [OF when_done_conj [OF NC3_create_files NC3_create_mode]])
        (use that w in \<open>auto simp: nc_files_inv_def\<close>)
    show ?thesis unfolding Create nc_exec.simps
      by (rule four) (auto simp: NC_create_def inv split: prod.split sum.split intro!: NC_enter_inv c)
  next
    case (Open path omode pe chunkp par mem)
    have c: "when_done (\<lambda>(st, r, c, fs2). nc_files_inv fs2) (NC3_open (w_env w) (w_io w) (w_drv w) path' cm pe chunkp fs' p)"
      if "nc_files_inv fs'" for fs' p path' cm
      by (rule when_done_mono [OF when_done_conj [OF NC3_open_files NC3_open_mode]])
        (use that in \<open>auto simp: nc_files_inv_def\<close>)
    show ?thesis unfolding Open nc_exec.simps
      by (rule four) (auto simp: NC_open_def Let_def inv split: prod.split sum.split intro!: NC_enter_inv c when_done_bind_any)
  next
    case (Close ncid)
    show ?thesis unfolding Close nc_exec.simps nc_close_def
      by (rule leave, rule NC_leave_inv [OF inv handlers_files(13) [OF fs(1)] closings_mode(2) [OF fs(2)]])
  next
    case (Abort ncid)
    show ?thesis unfolding Abort nc_exec.simps nc_abort_def
      by (rule leave, rule NC_leave_inv [OF inv handlers_files(12) [OF fs(1)] closings_mode(1) [OF fs(2)]])
  qed (simp_all only: nc_exec.simps, (rule files_after_inv, rule handlers_files [OF fs(1)] values_files [OF fs(1)] fill_values_files [OF fs(1)],
      rule NC3_redef_mode states_mode definitions_mode atts_mode vara_mode fill_values_mode, rule fs(2))+)
qed

text \<open>
  C1: whatever a program does with the library, as long as its calls return, the table of open files is well-formed - every number
  leads to the one live structure that has it, and \<open>numfiles\<close> counts them - and every open file's header is in a proper mode:
  an old header exactly in define mode after a redef, never in a new file, and no define mode in a file that cannot be written.
\<close>

theorem nc_reachable_inv:
  assumes "nc_reachable w fs" "driver_ok (w_drv w)"
  shows "files_ok fs \<and> files_mode_ok fs"
  using assms
proof induction
  case start
  show ?case by (simp add: no_files_def files_ok_def slots_def files_mode_ok_def)
next
  case (step fs call fs')
  then have "nc_files_inv fs" by (simp add: nc_files_inv_def)
  from nc_exec_inv [OF this step.prems, of call] step.hyps(2) show ?case by (simp add: nc_files_inv_def)
qed

subsection \<open>The number of a new file\<close>

lemma new_NC_find:
  assumes ok: "files_ok fs" and d: "objs fs' = objs fs @ [x]" "nc_filelist fs' = nc_filelist fs" "numfiles fs' = numfiles fs"
  shows "find_in_NCList fs' ext = find_in_NCList fs ext"
proof -
  have "NC_deref fs' p = NC_deref fs p" if "nc_filelist fs = Some l" "l i = Some p" for l i p
    using ok that d(1) unfolding files_ok_alt by (fastforce simp: NC_deref_def peek_def nth_append)
  then show ?thesis using d by (auto simp: find_in_NCList_def Let_def split: option.split)
qed

lemma NC3_create_Done:
  assumes "driver_ok drv" "NC3_create E io drv path flg isz pe ch fs p = Done (NC_NOERR, r, c, fs')"
  shows "\<exists>nc ncp s. NC_deref fs p = Done nc \<and> fs' = NC_store fs p (nc\<lparr>dispatchdata := Some (ncp, s)\<rparr>) \<and> NC_indef ncp \<and> old ncp = None"
proof -
  have "when_done (\<lambda>(st, r, c, fs'). st = NC_NOERR \<longrightarrow>
    (\<exists>nc ncp s. NC_deref fs p = Done nc \<and> fs' = NC_store fs p (nc\<lparr>dispatchdata := Some (ncp, s)\<rparr>) \<and> NC_indef ncp \<and> old ncp = None))
      (NC3_create E io drv path flg isz pe ch fs p)"
    unfolding NC3_create_def Let_def
    apply (rule when_done_bind [OF when_done_self], intro when_done_if)
      apply simp
     apply simp
    apply (rule when_done_assert, rule when_done_bind [OF driver_okD [OF assms(1)]])
    apply (clarsimp split: sum.split split del: if_split, intro conjI allI impI)
     apply (clarsimp split: if_splits)
    apply (rule when_done_bind_any, clarsimp split del: if_split)
    apply (rule when_done_if)
     apply (simp split del: if_split)
    apply (clarsimp split del: if_split)
    apply (intro exI conjI, rule refl)
     apply (auto simp: NC_flags_bits flag_bits new_NC3INFO_def)
    done
  with assms show ?thesis by simp
qed

lemma find_in_NCList_cong:
  assumes "objs fs ! p = Some nc" "nc_model nc' = nc_model nc" "p < length (objs fs)"
  shows "NC_check_id (NC_store fs p nc') ext = NC_check_id fs ext"
  using find_in_NCList_NC_store [OF assms] by (simp add: NC_check_id_def)

text \<open>What a successful \<open>NC_create\<close> did: the new structure, its place in the table, and its header.\<close>

lemma NC_create_Done:
  fixes fs :: "'s nc3_files"
  assumes w: "driver_ok drv" and c: "NC_create E io drv url deffmt fs path cmode isz pe ch par = Done (NC_NOERR, Some ncid, r, fs')"
  shows "\<exists>nc0 st fs2 nc ncp s. add_to_NCList (env_mem E) (fs\<lparr>objs := objs fs @ [Some nc0]\<rparr>) (length (objs fs)) = Done (st, fs2) \<and>
    ext_ncid nc0 = 0 \<and> NC_deref fs2 (length (objs fs)) = Done nc \<and> fs' = NC_store fs2 (length (objs fs)) (nc\<lparr>dispatchdata := Some (ncp, s)\<rparr>) \<and>
    ncid = ext_ncid nc \<and> NC_indef ncp \<and> old ncp = None"
proof -
  obtain model0 newpath where u: "url path cmode = (model0, newpath)" by (metis surj_pair)
  have ck: "check_create_mode cmode = NC_NOERR" using c by (auto simp: NC_create_def split: if_splits)
  obtain model cm where m: "create_model deffmt model0 cmode par = Inr (model, cm)"
    using c ck by (auto simp: NC_create_def u split: sum.splits)
  let ?path = "if model0 \<noteq> 0 then newpath else path"
  let ?nc = "\<lparr>ext_ncid = 0, nc_path = ?path, nc_mode = cm, nc_model = model, dispatchdata = None\<rparr> :: (nc3_info \<times> 's) NC"
  have e: "NC_enter E ?path cm model fs (\<lambda>fs' p. NC3_create E io drv ?path cm isz pe ch fs' p) = Done (NC_NOERR, Some ncid, r, fs')"
    using c ck m by (simp add: NC_create_def u)
  then have mem: "env_mem E 48" "env_mem E (length ?path + 1)" by (auto simp: NC_enter_def new_NC_def split: if_splits)
  from e obtain st fs2 stat chunk' closed fs3 where
    a: "add_to_NCList (env_mem E) (fs\<lparr>objs := objs fs @ [Some ?nc]\<rparr>) (length (objs fs)) = Done (st, fs2)"
      "NC3_create E io drv ?path cm isz pe ch fs2 (length (objs fs)) = Done (stat, chunk', closed, fs3)"
      "(if stat \<noteq> NC_NOERR then run_bind (del_from_NCList fs3 (length (objs fs))) (\<lambda>fs4. Done (stat, None, (chunk', closed), free_NC fs4 (length (objs fs))))
        else run_bind (NC_deref fs3 (length (objs fs))) (\<lambda>nc. Done (stat, Some (ext_ncid nc), (chunk', closed), fs3))) = Done (NC_NOERR, Some ncid, r, fs')"
    unfolding NC_enter_def new_NC_def Let_def using mem by (auto simp: run_bind_Done)
  then have "stat = NC_NOERR" by (auto simp: run_bind_Done split: if_splits)
  with a(2) NC3_create_Done [OF w] obtain nc ncp s where n: "NC_deref fs2 (length (objs fs)) = Done nc"
    "fs3 = NC_store fs2 (length (objs fs)) (nc\<lparr>dispatchdata := Some (ncp, s)\<rparr>)" "NC_indef ncp" "old ncp = None" by metis
  with a(3) \<open>stat = NC_NOERR\<close> have "fs' = fs3" "ncid = ext_ncid nc" by (simp_all add: NC_deref_store [OF n(1)])
  with a(1) n show ?thesis by (intro exI [of _ ?nc]) auto
qed

text \<open>
  C27: while the table has room, a successful \<open>NC_create\<close> returns a number that led nowhere before and leads to the new file now,
  which is in define mode; no other number's file changes.
\<close>

theorem NC_create_new_id:
  fixes fs :: "'s nc3_files"
  assumes ok: "files_ok fs" and room: "card (slots fs) < 65535" "env_mem E (8 * NCFILELISTLENGTH)" and w: "driver_ok drv"
    and c: "NC_create E io drv url deffmt fs path cmode isz pe ch par = Done (NC_NOERR, Some ncid, r, fs')"
  shows "NC_check_id fs ncid = Done (NC_EBADID, None) \<and> (\<exists>mode ncp s. open_file fs' ncid mode ncp s \<and> NC_indef ncp \<and> old ncp = None) \<and>
    (\<forall>ext. slot_of ext \<noteq> slot_of ncid \<longrightarrow> NC_check_id fs' ext = NC_check_id fs ext) \<and>
    (\<forall>p nc. NC_deref fs p = Done nc \<longrightarrow> NC_deref fs' p = Done nc) \<and> numfiles fs' = numfiles fs + 1"
proof -
  from NC_create_Done [OF w c] obtain nc0 st fs2 nc ncp s where
    a: "add_to_NCList (env_mem E) (fs\<lparr>objs := objs fs @ [Some nc0]\<rparr>) (length (objs fs)) = Done (st, fs2)" "NC_deref fs2 (length (objs fs)) = Done nc"
      "fs' = NC_store fs2 (length (objs fs)) (nc\<lparr>dispatchdata := Some (ncp, s)\<rparr>)" "ncid = ext_ncid nc" "NC_indef ncp" "old ncp = None" by metis
  let ?fs1 = "fs\<lparr>objs := objs fs @ [Some nc0]\<rparr>" and ?p = "length (objs fs)"
  have d: "NC_deref ?fs1 q = (if q = ?p then Done nc0 else NC_deref fs q)" for q by (auto simp: NC_deref_def peek_def nth_append)
  have lt: "q < ?p" if "nc_filelist fs = Some l" "l i = Some q" for l i q
    using ok that by (fastforce simp: files_ok_alt NC_deref_Done)
  have ok1: "files_ok ?fs1" using ok lt unfolding files_ok_alt d by (auto simp: slots_def)
  have out: "\<not> in_table ?fs1 ?p" using lt [OF _ sym] by (fastforce simp: in_table_def)
  have f1: "find_in_NCList ?fs1 ext = find_in_NCList fs ext" for ext by (rule new_NC_find [OF ok]) simp_all
  from add_to_NCList_result [where mem = "env_mem E", OF ok1 _ _ out, of nc0] room obtain fs2' nc' where
    b: "add_to_NCList (env_mem E) ?fs1 ?p = Done (NC_NOERR, fs2')" "objs fs2' ! ?p = Some nc'"
      "find_in_NCList fs (ext_ncid nc') = Done None" "find_in_NCList fs2' (ext_ncid nc') = Done (Some ?p)"
      "\<forall>ext. slot_of ext \<noteq> slot_of (ext_ncid nc') \<longrightarrow> find_in_NCList fs2' ext = find_in_NCList fs ext" "numfiles fs2' = numfiles fs + 1"
    by (auto simp: f1)
  have e: "fs2' = fs2" "nc' = nc" using a(1,2) b(1,2) by (auto simp: NC_deref_Done)
  note nd = a(2) [unfolded NC_deref_Done]
  have ck: "NC_check_id fs' ext = NC_check_id fs2 ext" for ext unfolding a(3) using nd by (intro find_in_NCList_cong) auto
  have keep: "NC_deref fs' p = Done n" if "NC_deref fs p = Done n" for p n
  proof -
    have "p \<noteq> ?p" using that by (auto simp: NC_deref_Done)
    moreover from add_to_NCList_files [OF ok1 out, of "env_mem E"] a(1) obtain i where "objs fs2 = (objs ?fs1)[?p := Some (nc0\<lparr>ext_ncid := i\<rparr>)]"
      by (auto simp: d)
    ultimately show ?thesis using that unfolding a(3) by (auto simp: NC_deref_def peek_def nth_append split: if_splits)
  qed
  have "open_file fs' ncid (nc_mode nc) ncp s" unfolding open_file_def ck using b(4) nd
    by (intro exI [of _ ?p] exI [of _ "nc\<lparr>dispatchdata := Some (ncp, s)\<rparr>"]) (simp add: a(3,4) NC_check_id_def e)
  moreover have "NC_check_id fs' ext = NC_check_id fs ext" if "slot_of ext \<noteq> slot_of ncid" for ext
    unfolding ck using that b(5) by (simp add: NC_check_id_def a(4) e)
  moreover have "NC_check_id fs ncid = Done (NC_EBADID, None)" "numfiles fs' = numfiles fs + 1"
    using b(3,6) by (simp_all add: NC_check_id_def a(3,4) e)
  ultimately show ?thesis using a(5,6) keep by blast
qed

text \<open>
  \<open>NC_create\<close> does not look at the status of \<open>add_to_NCList\<close>. When the table has no room, or cannot be allocated, it returns success and the
  number 0, which no call accepts: the file it created, in define mode, cannot be reached or closed any more.
\<close>

theorem NC_create_table_full:
  fixes fs :: "'s nc3_files"
  assumes ok: "files_ok fs" and full: "slots fs = {1..<NCFILELISTLENGTH} \<or> nc_filelist fs = None \<and> \<not> env_mem E (8 * NCFILELISTLENGTH)"
    and w: "driver_ok drv"
    and c: "NC_create E io drv url deffmt fs path cmode isz pe ch par = Done (NC_NOERR, Some ncid, r, fs')"
  shows "ncid = 0 \<and> NC_check_id fs' 0 = Done (NC_EBADID, None) \<and> \<not> in_table fs' (length (objs fs)) \<and>
    (\<exists>nc ncp s. NC_deref fs' (length (objs fs)) = Done nc \<and> dispatchdata nc = Some (ncp, s) \<and> NC_indef ncp)"
proof -
  from NC_create_Done [OF w c] obtain nc0 st fs2 nc ncp s where
    a: "add_to_NCList (env_mem E) (fs\<lparr>objs := objs fs @ [Some nc0]\<rparr>) (length (objs fs)) = Done (st, fs2)" "ext_ncid nc0 = 0"
      "NC_deref fs2 (length (objs fs)) = Done nc"
      "fs' = NC_store fs2 (length (objs fs)) (nc\<lparr>dispatchdata := Some (ncp, s)\<rparr>)" "ncid = ext_ncid nc" "NC_indef ncp" by metis
  let ?fs1 = "fs\<lparr>objs := objs fs @ [Some nc0]\<rparr>" and ?p = "length (objs fs)"
  have ff: "first_free l 1 = 0" if "nc_filelist fs = Some l" for l
  proof -
    have "l j \<noteq> None" if "1 \<le> j" "j < NCFILELISTLENGTH" for j using full that \<open>nc_filelist fs = Some l\<close> by (auto simp: slots_def)
    with first_free_spec [of l 1] show ?thesis by metis
  qed
  have fs2: "fs2 = ?fs1"
  proof (cases "nc_filelist fs")
    case None
    then have "slots fs = {}" by (simp add: slots_def)
    moreover have "(1::nat) \<in> {1..<NCFILELISTLENGTH}" by simp
    ultimately have "\<not> env_mem E (8 * NCFILELISTLENGTH)" using full by blast
    with None a(1) show ?thesis by (simp add: add_to_NCList_def)
  next
    case (Some l)
    with a(1) ff show ?thesis by (simp add: add_to_NCList_def)
  qed
  have nc: "nc = nc0" using a(3) unfolding fs2 by (simp add: NC_deref_def)
  have lt: "q < ?p" if "nc_filelist fs = Some l" "l i = Some q" for l i q
    using ok that by (fastforce simp: files_ok_alt NC_deref_Done)
  have "\<not> in_table fs' ?p" using lt [OF _ sym] unfolding a(4) fs2 in_table_def by fastforce
  moreover have "NC_check_id fs' 0 = NC_check_id fs 0"
    using find_in_NCList_cong [of fs2 ?p nc "nc\<lparr>dispatchdata := Some (ncp, s)\<rparr>" 0] new_NC_find [OF ok, of ?fs1 "Some nc0" 0] a(3)
    unfolding a(4) by (simp add: fs2 NC_deref_Done NC_check_id_def)
  moreover have "NC_check_id fs 0 = Done (NC_EBADID, None)"
  proof -
    have "0 \<notin> slots fs" using ok by (auto simp: files_ok_alt)
    then show ?thesis unfolding NC_check_id_def find_in_NCList_eq [OF ok]
      by (auto simp: slot_of_def u32_def slots_def split: option.splits)
  qed
  ultimately show ?thesis using a(2,5,6) nc NC_deref_store [OF a(3)] unfolding a(4) by simp
qed

subsection \<open>A failed close\<close>

lemma with_nc3_gone:
  assumes "NC_check_id fs ncid = Done (NC_NOERR, Some p)" "NC_deref fs p = Done nc" "dispatchdata nc = None"
  shows "with_nc3 fs ncid r0 f = Fault" "with_nc3_close fs ncid g = Fault"
  using assms by (simp_all add: with_nc3_def with_nc3_close_def)

lemmas header_calls = NC3_redef_def NC3_enddef_def NC3_sync_def NC3_set_fill_def NC3_def_dim_def NC3_def_var_def NC3_inq_def NC3_inq_dim_def
  NC3_inq_var_def NC3_inq_format_def NC3_put_att_def NC3_get_att_def NC3_get_vara_def NC3_put_vara_def


definition sample_large :: nc3_info where
  "sample_large = (sample_hdr 100 132 [sample_var 100 8 2, sample_var 132 4 0, sample_var 112 20 600000000])
     \<lparr>old := Some (nc3_hdr.truncate (sample_hdr 100 132 [])), flags := NC_INDEF\<rparr>"

lemma sample_large_vlens: "NC_check_vlens sample_large = Done NC_EVARSIZE"
proof -
  have f: "vlen_max_of NC_INDEF = 2147483644" "\<not> fIsSet NC_INDEF NC_64BIT_DATA" by (simp_all add: vlen_max_of_def fIsSet_def)
  have v: "vars_value (vars sample_large) = [sample_var 100 8 2, sample_var 132 4 0, sample_var 112 20 600000000]" "flags sample_large = NC_INDEF"
    by (simp_all add: sample_large_def sample_hdr_def)
  have l: "NC_check_vlen (sample_var 100 8 2) 2147483644 = Done True" "NC_check_vlen (sample_var 112 20 600000000) 2147483644 = Done False"
    "IS_RECVAR (sample_var 132 4 0)" "\<not> IS_RECVAR (sample_var 100 8 2)" "\<not> IS_RECVAR (sample_var 112 20 600000000)"
    by (simp_all add: sample_var_def NC_check_vlen_def IS_RECVAR_def u64_def s64_def c_div_def)
  show ?thesis by (simp add: NC_check_vlens_def v f l Let_def)
qed


subsection \<open>Witnesses\<close>

text \<open>A driver that accepts everything, over \<open>null_io\<close>.\<close>

definition null_driver :: "unit driver" where
  "null_driver = \<lparr>drv_create = (\<lambda>path flg isz off len chk. Done (Inr (NC_WRITE, 4096, replicate len CHR ''z'', ()))),
     drv_open = (\<lambda>path flg chk. Done (Inl 2))\<rparr>"

lemma null_driver_ok: "driver_ok null_driver"
  by (simp add: driver_ok_def null_driver_def fIsSet_def)

definition null_header :: nc3_info where
  "null_header = (new_NC3INFO None)\<lparr>xsz := MIN_NC3_XSZ, ioflags := NC_WRITE, chunk := 4096, flags := NC_CREAT\<rparr>"

lemma null_header_put: "ncx_put_NC null_io null_header () (Some (replicate 32 CHR ''z'')) 0 32 = Done (NC_NOERR, ())"
  by code_simp

lemma null_create:
  assumes p: "NC_deref fs p = Done nc" and mem: "env_mem E 280"
  shows "NC3_create E null_io null_driver path 0 0 0 None fs p = Done (NC_NOERR, None, None, NC_store fs p (nc\<lparr>dispatchdata := Some (null_header, ())\<rparr>))"
proof -
  have f: "\<not> fIsSet 0 n" "\<not> fIsSet NC_WRITE NC_SHARE" "fSet 0 NC_CREAT = NC_CREAT" for n by (simp_all add: fIsSet_def fSet_def)
  have l: "int (ncx_len_NC ((new_NC3INFO None)\<lparr>xsz := MIN_NC3_XSZ, flags := 0\<rparr>) 4) = MIN_NC3_XSZ" by code_simp
  have h: "(new_NC3INFO None)\<lparr>xsz := MIN_NC3_XSZ, ioflags := NC_WRITE, chunk := 4096, flags := NC_CREAT\<rparr> = null_header" by (simp add: null_header_def)
  have d: "drv_create null_driver path flg isz off 32 c = Done (Inr (NC_WRITE, 4096, replicate 32 CHR ''z'', ()))" for flg isz off c
    by (simp add: null_driver_def)
  show ?thesis
    unfolding NC3_create_def Let_def p run_bind_simps
    using mem l null_header_put by (simp add: f d h)
qed

lemma null_mode: "check_create_mode 0 = NC_NOERR" "create_model 1 0 0 False = Inr (NC_FORMATX_NC3, 0)"
  by (simp_all add: check_create_mode_def create_model_def fIsSet_def Let_def)

text \<open>The structure a new file has before it is entered, and the table with the first file.\<close>

definition null_nc :: "(nc3_info \<times> unit) NC" where
  "null_nc = \<lparr>ext_ncid = 0, nc_path = ''f'', nc_mode = 0, nc_model = NC_FORMATX_NC3, dispatchdata = None\<rparr>"

lemma null_NC_create:
  assumes mem: "env_mem E 48" "env_mem E 2" "env_mem E 280"
    and add: "add_to_NCList (env_mem E) (no_files\<lparr>objs := [Some null_nc]\<rparr>) 0 = Done (st, fs)" and d: "NC_deref fs 0 = Done nc"
  shows "NC_create E null_io null_driver (\<lambda>p m. (0, p)) 1 no_files ''f'' 0 0 0 None False =
    Done (NC_NOERR, Some (ext_ncid nc), (None, None), NC_store fs 0 (nc\<lparr>dispatchdata := Some (null_header, ())\<rparr>))"
proof -
  have n: "new_NC (env_mem E) no_files ''f'' 0 NC_FORMATX_NC3 = (NC_NOERR, Some 0, no_files\<lparr>objs := [Some null_nc]\<rparr>)"
    using mem by (simp add: new_NC_def null_nc_def no_files_def numeral_2_eq_2)
  show ?thesis
    unfolding NC_create_def null_mode NC_enter_def
    using add d null_create [OF d mem(3)] NC_deref_store [OF d] by (simp add: null_mode n)
qed

lemma null_add:
  "add_to_NCList (\<lambda>n. n \<noteq> 8 * NCFILELISTLENGTH) (no_files\<lparr>objs := [Some null_nc]\<rparr>) 0 = Done (NC_ENOMEM, no_files\<lparr>objs := [Some null_nc]\<rparr>)"
  "add_to_NCList (\<lambda>n. True) (no_files\<lparr>objs := [Some null_nc]\<rparr>) 0 =
    Done (NC_NOERR, \<lparr>nc_filelist = Some [1 \<mapsto> 0], numfiles = 1, objs = [Some (null_nc\<lparr>ext_ncid := 65536\<rparr>)]\<rparr>)"
proof -
  have f: "first_free (\<lambda>_. None) (Suc 0) = 1" by (subst first_free.simps) simp
  show "add_to_NCList (\<lambda>n. n \<noteq> 8 * NCFILELISTLENGTH) (no_files\<lparr>objs := [Some null_nc]\<rparr>) 0 = Done (NC_ENOMEM, no_files\<lparr>objs := [Some null_nc]\<rparr>)"
    by (simp add: add_to_NCList_def no_files_def)
  show "add_to_NCList (\<lambda>n. True) (no_files\<lparr>objs := [Some null_nc]\<rparr>) 0 =
    Done (NC_NOERR, \<lparr>nc_filelist = Some [1 \<mapsto> 0], numfiles = 1, objs = [Some (null_nc\<lparr>ext_ncid := 65536\<rparr>)]\<rparr>)"
    by (simp add: add_to_NCList_def no_files_def f NC_deref_def NC_store_def s32_def)
qed

lemma no_files_ok: "files_ok no_files" "slots no_files = {}" "nc_filelist no_files = None"
  by (simp_all add: no_files_def files_ok_def slots_def)

lemma first_create: "\<exists>fs'. NC_create sample_env null_io null_driver (\<lambda>p m. (0, p)) 1 no_files ''f'' 0 0 0 None False =
    Done (NC_NOERR, Some 65536, (None, None), fs')"
proof -
  have m: "env_mem sample_env = (\<lambda>n. True)" by (simp add: sample_env_def)
  let ?fs = "\<lparr>nc_filelist = Some [1 \<mapsto> 0], numfiles = 1, objs = [Some (null_nc\<lparr>ext_ncid := 65536\<rparr>)]\<rparr> :: unit nc3_files"
  have "NC_deref ?fs 0 = Done (null_nc\<lparr>ext_ncid := 65536\<rparr>)" by (simp add: NC_deref_def)
  from null_NC_create [OF _ _ _ _ this, of sample_env NC_NOERR] null_add(2) show ?thesis by (simp add: m)
qed

lemma NC_create_new_id_witness:
  "\<exists>fs'. NC_create sample_env null_io null_driver (\<lambda>p m. (0, p)) 1 no_files ''f'' 0 0 0 None False = Done (NC_NOERR, Some 65536, (None, None), fs') \<and>
    numfiles fs' = 1 \<and> (\<exists>mode ncp s. open_file fs' 65536 mode ncp s \<and> NC_indef ncp)"
proof -
  obtain fs' where c: "NC_create sample_env null_io null_driver (\<lambda>p m. (0, p)) 1 no_files ''f'' 0 0 0 None False =
    Done (NC_NOERR, Some 65536, (None, None), fs')" using first_create by blast
  have n: "numfiles no_files = 0" by (simp add: no_files_def)
  show ?thesis using NC_create_new_id [OF no_files_ok(1) _ _ null_driver_ok c] c by (auto simp: no_files_ok(2) sample_env_def n)
qed

lemma NC_create_table_full_witness:
  "\<exists>fs'. NC_create (sample_env\<lparr>env_mem := \<lambda>n. n \<noteq> 524288\<rparr>) null_io null_driver (\<lambda>p m. (0, p)) 1 no_files ''f'' 0 0 0 None False =
      Done (NC_NOERR, Some 0, (None, None), fs') \<and> NC_check_id fs' 0 = Done (NC_EBADID, None)"
proof -
  let ?E = "sample_env\<lparr>env_mem := \<lambda>n. n \<noteq> 524288\<rparr>" and ?fs = "no_files\<lparr>objs := [Some null_nc]\<rparr>"
  have d: "NC_deref ?fs 0 = Done null_nc" by (simp add: NC_deref_def)
  have c: "NC_create ?E null_io null_driver (\<lambda>p m. (0, p)) 1 no_files ''f'' 0 0 0 None False =
      Done (NC_NOERR, Some 0, (None, None), NC_store ?fs 0 (null_nc\<lparr>dispatchdata := Some (null_header, ())\<rparr>))"
    using null_NC_create [OF _ _ _ _ d, of ?E NC_ENOMEM] null_add(1) by (simp add: null_nc_def)
  show ?thesis using NC_create_table_full [OF no_files_ok(1) _ null_driver_ok c] c by (auto simp: no_files_ok)
qed

lemma nc_reachable_inv_witness:
  "\<exists>fs'. nc_exec \<lparr>w_env = sample_env, w_io = null_io, w_drv = null_driver, w_url = (\<lambda>p m. (0, p)), w_disk = (\<lambda>p. Inl 2), w_deffmt = 1, w_ub = \<lambda>t x. 0, w_relax = False\<rparr> no_files
      (Create ''f'' 0 0 0 None False) = Done fs' \<and> files_ok fs' \<and> files_mode_ok fs'"
proof -
  let ?w = "\<lparr>w_env = sample_env, w_io = null_io, w_drv = null_driver, w_url = (\<lambda>p m. (0, p)), w_disk = (\<lambda>p. Inl 2), w_deffmt = 1, w_ub = \<lambda>t x. 0, w_relax = False\<rparr>"
  obtain fs' where c: "nc_exec ?w no_files (Create ''f'' 0 0 0 None False) = Done fs'" using first_create by auto
  have "nc_reachable ?w fs'" using nc_reachable.step [OF nc_reachable.start c] .
  with nc_reachable_inv [of ?w fs'] null_driver_ok c show ?thesis by auto
qed

end
