(* ===== verification/NC3_Coords.thy ===== *)
theory NC3_Coords
  imports NC3_Data
begin

text \<open>
  The rectangle of values that \<open>NC3_get_vara\<close> and \<open>NC3_put_vara\<close> work on, as a list of coordinates in row-major order, and
  the proof that the odometer of \<open>libsrc/putget.c\<close> visits it.
\<close>

subsection \<open>Rectangles\<close>

fun rect :: "int list \<Rightarrow> int list \<Rightarrow> int list list" where
  "rect (s # ss) (e # es) = concat (map (\<lambda>i. map ((#) i) (rect ss es)) [s..s + e - 1])"
| "rect _ _ = [[]]"

lemma length_upto_count: "length [s..s + e - 1] = nat e"
  by simp

lemma length_rect: "length ss = length es \<Longrightarrow> length (rect ss es) = nat (prod_list (map (max 0) es))"
proof (induction ss es rule: list_induct2)
  case (Cons s ss e es)
  have "length (rect (s # ss) (e # es)) = length [s..s + e - 1] * length (rect ss es)"
    by (simp add: length_concat comp_def sum_list_triv)
  with Cons.IH show ?case
    by (cases "0 \<le> e") (simp_all add: nat_mult_distrib max_def)
qed simp

lemma rect_mem: "length ss = length es \<Longrightarrow> c \<in> set (rect ss es) \<Longrightarrow> length c = length es \<and> (\<forall>k<length es. ss ! k \<le> c ! k \<and> c ! k < ss ! k + es ! k)"
proof (induction ss es arbitrary: c rule: list_induct2)
  case (Cons s ss e es)
  then obtain i c' where c: "c = i # c'" "s \<le> i" "i < s + e" "c' \<in> set (rect ss es)" by auto
  with Cons.IH [OF c(4)] show ?case by (auto simp: nth_Cons split: nat.split)
qed simp

lemma concat_twice: "concat (concat xss) = concat (map concat xss)"
  by (induction xss) simp_all

lemma rect_append: "length ss = length es \<Longrightarrow> rect (ss @ ss') (es @ es') = concat (map (\<lambda>p. map ((@) p) (rect ss' es')) (rect ss es))"
proof (induction ss es rule: list_induct2)
  case Nil
  then show ?case by (simp add: map_idI)
next
  case (Cons s ss e es)
  have "(@) (x # p) = (\<lambda>q. x # p @ q)" for x :: int and p by auto
  with Cons show ?case by (simp add: map_concat concat_twice comp_def)
qed

text \<open>A full dimension starts at 0; then the places in a row are consecutive.\<close>

fun lin :: "int list \<Rightarrow> int list \<Rightarrow> int" where
  "lin (s # shape) (c # coord) = c * suffix_product shape + lin shape coord"
| "lin _ _ = 0"

lemma map_upto_shift: "map f [a..b] = map (\<lambda>i. f (i + a)) [0..b - a]"
proof -
  have "[a..b] = map (\<lambda>i. i + a) [0..b - a]"
    by (rule nth_equalityI) (simp_all add: nth_upto)
  then have "map f [a..b] = map f (map (\<lambda>i. i + a) [0..b - a])" by (rule arg_cong)
  then show ?thesis by (simp only: map_map comp_def)
qed

lemma upto_blocks: "0 \<le> m \<Longrightarrow> 0 \<le> n \<Longrightarrow> concat (map (\<lambda>i. map (\<lambda>k. i * m + k) [0..m - 1]) [0..n - 1]) = [0..n * m - 1]"
proof (induction "nat n" arbitrary: n)
  case (Suc k)
  then have n: "n = int k + 1" "nat (n - 1) = k" by simp_all
  from Suc(1) [of "n - 1"] Suc(3) n have IH: "concat (map (\<lambda>i. map (\<lambda>k. i * m + k) [0..m - 1]) [0..n - 2]) = [0..(n - 1) * m - 1]" by simp
  have "[0..n - 1] = [0..n - 2] @ [n - 1]" using upto_rec2 [of 0 "n - 1"] n by simp
  moreover have "[0..n * m - 1] = [0..(n - 1) * m - 1] @ map (\<lambda>k. (n - 1) * m + k) [0..m - 1]"
  proof -
    have "0 \<le> (n - 1) * m" using n Suc(3) by simp
    then have "[0..n * m - 1] = [0..(n - 1) * m - 1] @ [(n - 1) * m..n * m - 1]"
      using upto_split1 [of 0 "(n - 1) * m" "n * m - 1"] Suc(3) by (cases "m = 0") (auto simp: algebra_simps)
    moreover have "[(n - 1) * m..n * m - 1] = map (\<lambda>k. (n - 1) * m + k) [0..m - 1]"
      using map_upto_shift [of "\<lambda>x. x" "(n - 1) * m" "n * m - 1"] by (simp add: algebra_simps)
    ultimately show ?thesis by simp
  qed
  ultimately show ?case using IH by simp
qed simp

lemma suffix_product_pos: "\<forall>s \<in> set shp. 0 < s \<Longrightarrow> suffix_product shp = prod_list shp"
  by (induction shp) (auto simp: suffix_product_def max_def)

lemma lin_rect_full: "\<forall>s \<in> set shp. 0 < s \<Longrightarrow> map (lin shp) (rect (map (\<lambda>_. 0) shp) shp) = [0..suffix_product shp - 1]"
proof (induction shp)
  case (Cons s shp)
  have "map (lin (s # shp)) (rect (map (\<lambda>_. 0) (s # shp)) (s # shp)) =
      concat (map (\<lambda>i. map (\<lambda>k. i * suffix_product shp + k) (map (lin shp) (rect (map (\<lambda>_. 0) shp) shp))) [0..s - 1])"
    by (simp add: map_concat comp_def)
  also have "\<dots> = concat (map (\<lambda>i. map (\<lambda>k. i * suffix_product shp + k) [0..suffix_product shp - 1]) [0..s - 1])"
    using Cons by simp
  also have "\<dots> = [0..s * suffix_product shp - 1]"
    using upto_blocks [of "suffix_product shp" s] suffix_product_ge [of shp] Cons.prems by simp
  finally show ?case using Cons.prems by (simp add: suffix_product_Cons max_def)
qed (simp add: suffix_product_def)

text \<open>One partly taken dimension in front of full ones: still consecutive.\<close>

lemma lin_rect_block:
  assumes "\<forall>s \<in> set shp. 0 < s" "0 \<le> e"
  shows "map (lin (s # shp)) (rect (st # map (\<lambda>_. 0) shp) (e # shp)) =
    map (\<lambda>k. lin (s # shp) (st # map (\<lambda>_. 0) shp) + k) [0..e * suffix_product shp - 1]"
proof -
  have l0: "lin shp (map (\<lambda>_. 0) shp) = 0" for shp by (induction shp) simp_all
  have "map (lin (s # shp)) (rect (st # map (\<lambda>_. 0) shp) (e # shp)) =
      concat (map (\<lambda>i. map (\<lambda>k. i * suffix_product shp + k) (map (lin shp) (rect (map (\<lambda>_. 0) shp) shp))) [st..st + e - 1])"
    by (simp add: map_concat comp_def)
  also have "\<dots> = map (\<lambda>k. st * suffix_product shp + k) (concat (map (\<lambda>i. map (\<lambda>k. i * suffix_product shp + k) [0..suffix_product shp - 1]) [0..e - 1]))"
    unfolding lin_rect_full [OF assms(1)] map_upto_shift [of _ st] map_concat map_map comp_def
    by (intro arg_cong [where f = concat] map_cong refl) (simp_all add: algebra_simps)
  also have "\<dots> = map (\<lambda>k. st * suffix_product shp + k) [0..e * suffix_product shp - 1]"
    using upto_blocks [of "suffix_product shp" e] suffix_product_ge [of shp] assms(2) by simp
  finally show ?thesis by (simp add: l0)
qed

subsection \<open>The odometer\<close>

text \<open>
  The coordinate after \<open>r\<close> steps from \<open>c\<close> at place \<open>i\<close>: \<open>r\<close> written in the mixed radix of the edges, an empty dimension counting one.
\<close>

primrec coord_at :: "int list \<Rightarrow> int list \<Rightarrow> nat \<Rightarrow> int \<Rightarrow> int list \<Rightarrow> int list" where
  "coord_at start edges 0 r c = c[0 := start ! 0 + r]"
| "coord_at start edges (Suc i) r c = coord_at start edges i (r div max 1 (edges ! Suc i)) (c[Suc i := start ! Suc i + r mod max 1 (edges ! Suc i)])"

lemma length_coord_at [simp]: "length (coord_at start edges i r c) = length c"
  by (induction i arbitrary: r c) simp_all

lemma coord_at_above: "i < k \<Longrightarrow> coord_at start edges i r c ! k = c ! k"
  by (induction i arbitrary: r c) simp_all

lemma coord_at_update: "i < k \<Longrightarrow> (coord_at start edges i r c)[k := v] = coord_at start edges i r (c[k := v])"
  by (induction i arbitrary: r c) (simp_all add: list_update_swap)

text \<open>Coordinates and their upper bounds fit 64 bits.\<close>

definition slab_ok :: "int list \<Rightarrow> int list \<Rightarrow> bool" where
  "slab_ok start edges \<longleftrightarrow> length edges = length start \<and> (\<forall>k<length start. 0 \<le> start ! k \<and> 0 \<le> edges ! k \<and> start ! k + edges ! k < 18446744073709551615)"

lemma set_upper_nth: "slab_ok start edges \<Longrightarrow> k < length start \<Longrightarrow> set_upper start edges (length start) ! k = start ! k + edges ! k"
  by (auto simp: slab_ok_def set_upper_def intro!: u64_id)

lemma div_mod_carry:
  assumes "0 < (E::int)"
  shows "r mod E + 1 = E \<Longrightarrow> (r + 1) div E = r div E + 1 \<and> (r + 1) mod E = 0"
    and "r mod E + 1 \<noteq> E \<Longrightarrow> (r + 1) div E = r div E \<and> (r + 1) mod E = r mod E + 1"
proof -
  have r: "r + 1 = (r mod E + 1) + r div E * E" by simp
  { assume e: "r mod E + 1 = E"
    have "r + 1 = E + r div E * E" using r unfolding e .
    then have "r + 1 = (r div E + 1) * E" by (simp only: distrib_right mult_1_left add.commute)
    then show "(r + 1) div E = r div E + 1 \<and> (r + 1) mod E = 0" using assms by simp }
  { assume "r mod E + 1 \<noteq> E"
    moreover have "0 \<le> r mod E" "r mod E < E" using assms by simp_all
    ultimately have "0 \<le> r mod E + 1" "r mod E + 1 < E" by linarith+
    then have d: "(r mod E + 1) div E = 0" "(r mod E + 1) mod E = r mod E + 1" by simp_all
    have "((r mod E + 1) + r div E * E) div E = r div E + (r mod E + 1) div E" using assms by (intro div_mult_self1) simp
    moreover have "((r mod E + 1) + r div E * E) mod E = (r mod E + 1) mod E" by (rule mod_mult_self1)
    ultimately show "(r + 1) div E = r div E \<and> (r + 1) mod E = r mod E + 1" 
      using d arg_cong [OF r, of "\<lambda>x. x div E"] arg_cong [OF r, of "\<lambda>x. x mod E"] by (intro conjI) linarith+ }
qed

lemma odo1_coord_at:
  assumes "slab_ok start edges" "length start \<le> 1025"
  shows "i < length start \<Longrightarrow> length c = length start \<Longrightarrow> 0 \<le> r \<Longrightarrow> r < edges ! 0 * prod_list (map (max 1) (take i (tl edges))) \<Longrightarrow>
    odo1 start (set_upper start edges (length start)) (coord_at start edges i r c) i = Done (coord_at start edges i (r + 1) c)"
proof (induction i arbitrary: r c)
  case 0
  then have "start \<noteq> []" by auto
  with 0 assms(1) have "coord_at start edges 0 r c ! 0 = start ! 0 + r" "start ! 0 + edges ! 0 < 18446744073709551615" "0 \<le> start ! 0"
    by (auto simp: slab_ok_def)
  with 0 set_upper_nth [OF assms(1), of 0] show ?case by (simp add: u64_id add.assoc)
next
  case (Suc i)
  let ?E = "max 1 (edges ! Suc i)" and ?u = "set_upper start edges (length start)"
  have b: "0 \<le> start ! Suc i" "0 \<le> edges ! Suc i" "start ! Suc i + edges ! Suc i < 18446744073709551615"
    using assms(1) Suc.prems(1) by (auto simp: slab_ok_def)
  have m: "0 \<le> r mod ?E" "r mod ?E < ?E" by simp_all
  have c: "coord_at start edges (Suc i) r c ! Suc i = start ! Suc i + r mod ?E" using Suc.prems by (simp add: coord_at_above)
  have u: "?u ! Suc i = start ! Suc i + edges ! Suc i" using set_upper_nth [OF assms(1) Suc.prems(1)] .
  have len: "length edges = length start" using assms(1) by (simp add: slab_ok_def)
  have "take (Suc i) (tl edges) = take i (tl edges) @ [edges ! Suc i]"
    using Suc.prems(1) len by (simp add: take_Suc_conv_app_nth nth_tl)
  with Suc.prems(4) have "r < edges ! 0 * prod_list (map (max 1) (take i (tl edges))) * ?E" by (simp add: mult.assoc)
  then have q: "r div ?E < edges ! 0 * prod_list (map (max 1) (take i (tl edges)))"
    by (intro div_less_mult) simp_all
  have q0: "0 \<le> r div ?E" using Suc.prems(3) by (simp add: pos_imp_zdiv_nonneg_iff)
  have u1: "u64 (start ! Suc i + r mod ?E + 1) = start ! Suc i + r mod ?E + 1" using b m by (intro u64_id) linarith+
  show ?case
  proof (cases "r mod ?E + 1 = ?E")
    case True
    then have dm: "(r + 1) div ?E = r div ?E + 1" "(r + 1) mod ?E = 0" using div_mod_carry(1) [of ?E r] by simp_all
    have "?u ! Suc i \<le> start ! Suc i + r mod ?E + 1" using True b(2) unfolding u by linarith
    moreover have "start ! Suc i + r mod ?E \<le> ?u ! Suc i" using True b(2) unfolding u by (auto simp: max_def split: if_splits)
    ultimately have "odo1 start ?u (coord_at start edges (Suc i) r c) (Suc i) =
        odo1 start ?u (coord_at start edges i (r div ?E) (c[Suc i := start ! Suc i])) i"
      using c u1 assms(2) Suc.prems(1) by (simp add: coord_at_update)
    also have "\<dots> = Done (coord_at start edges i (r div ?E + 1) (c[Suc i := start ! Suc i]))"
      using Suc.prems(1,2) q q0 by (intro Suc.IH) simp_all
    finally show ?thesis by (simp add: dm)
  next
    case False
    then have dm: "(r + 1) div ?E = r div ?E" "(r + 1) mod ?E = r mod ?E + 1" using div_mod_carry(2) [of ?E r] by simp_all
    have "r mod ?E + 1 < ?E" using False m by linarith
    then have "r mod ?E + 1 < edges ! Suc i" using m(1) by (auto simp: max_def split: if_splits)
    then have "start ! Suc i + r mod ?E + 1 < ?u ! Suc i" unfolding u by linarith
    then show ?thesis using c u1 assms(2) Suc.prems(1) by (simp add: dm coord_at_update add.assoc)
  qed
qed

definition inner_count :: "int list \<Rightarrow> nat \<Rightarrow> int" where
  "inner_count edges i = prod_list (map (max 1) (take i (tl edges)))"

lemma inner_count_pos: "0 < inner_count edges i"
proof -
  have "0 < prod_list (map (max 1) xs)" for xs :: "int list" by (induction xs) auto
  then show ?thesis by (simp add: inner_count_def)
qed

lemma inner_count_Suc: "Suc i < length edges \<Longrightarrow> inner_count edges (Suc i) = inner_count edges i * max 1 (edges ! Suc i)"
  by (simp add: inner_count_def take_Suc_conv_app_nth nth_tl)

lemma coord_at_first:
  "i < length edges \<Longrightarrow> length c = length edges \<Longrightarrow> coord_at start edges i r c ! 0 = start ! 0 + r div inner_count edges i"
proof (induction i arbitrary: r c)
  case 0
  then show ?case by (cases c) (simp_all add: inner_count_def)
next
  case (Suc i)
  have "r div inner_count edges (Suc i) = r div max 1 (edges ! Suc i) div inner_count edges i"
    using Suc.prems(1) inner_count_pos [of edges i] by (simp add: inner_count_Suc mult.commute [of "inner_count edges i"] zdiv_zmult2_eq)
  with Suc show ?case by simp
qed

definition steps :: "int list \<Rightarrow> nat \<Rightarrow> int" where
  "steps edges i = edges ! 0 * inner_count edges i"

text \<open>The coordinates the loops of \<open>NC3_get_vara\<close> and \<open>NC3_put_vara\<close> go through.\<close>

definition visits :: "int list \<Rightarrow> int list \<Rightarrow> nat \<Rightarrow> int list list" where
  "visits start edges i = map (\<lambda>r. coord_at start edges i r start) [0..steps edges i - 1]"

fun read_all :: "(int list \<Rightarrow> 's \<Rightarrow> (int \<times> int option list \<times> 's) run) \<Rightarrow> int list list \<Rightarrow> int \<Rightarrow> 's \<Rightarrow> (int \<times> int option list \<times> 's) run" where
  "read_all rd [] status s = Done (status, [], s)"
| "read_all rd (c # cs) status s = run_bind (rd c s) (\<lambda>(lstatus, vs, s1). if lstatus \<noteq> NC_NOERR \<and> lstatus \<noteq> NC_ERANGE then Done (lstatus, vs, s1)
     else run_bind (read_all rd cs (if status = NC_NOERR then lstatus else status) s1) (\<lambda>(st, vs', s2). Done (st, vs @ vs', s2)))"

fun write_all :: "(int list \<Rightarrow> int list \<Rightarrow> 's \<Rightarrow> (int \<times> 's) run) \<Rightarrow> nat \<Rightarrow> int list list \<Rightarrow> int list \<Rightarrow> int \<Rightarrow> 's \<Rightarrow> (int \<times> 's) run" where
  "write_all wr k [] vs status s = Done (status, s)"
| "write_all wr k (c # cs) vs status s = run_bind (wr c vs s) (\<lambda>(lstatus, s1). if lstatus \<noteq> NC_NOERR \<and> lstatus \<noteq> NC_ERANGE then Done (lstatus, s1)
     else write_all wr k cs (drop k vs) (if status = NC_NOERR then lstatus else status) s1)"

definition loop_ok :: "int list \<Rightarrow> int list \<Rightarrow> nat \<Rightarrow> bool" where
  "loop_ok start edges i \<longleftrightarrow> slab_ok start edges \<and> i < length start \<and> length start \<le> 1025"

lemma loop_okD: "loop_ok start edges i \<Longrightarrow> slab_ok start edges \<and> i < length start \<and> length start \<le> 1025 \<and> length edges = length start"
  by (simp add: loop_ok_def slab_ok_def)

lemma steps_nonneg: "loop_ok start edges i \<Longrightarrow> 0 \<le> steps edges i"
proof -
  assume l: "loop_ok start edges i"
  then have "0 \<le> edges ! 0" by (cases start) (auto simp: loop_ok_def slab_ok_def)
  then show ?thesis using inner_count_pos [of edges i] by (simp add: steps_def)
qed

lemma loop_test:
  assumes l: "loop_ok start edges i" and "0 \<le> r"
  shows "coord_at start edges i r start ! 0 < set_upper start edges (length start) ! 0 \<longleftrightarrow> r < steps edges i"
proof -
  note ok = loop_okD [OF l]
  have "set_upper start edges (length start) ! 0 = start ! 0 + edges ! 0"
    using ok by (intro set_upper_nth) auto
  moreover have "coord_at start edges i r start ! 0 = start ! 0 + r div inner_count edges i"
    using ok by (intro coord_at_first) auto
  moreover have "r div inner_count edges i < edges ! 0 \<longleftrightarrow> r < edges ! 0 * inner_count edges i"
    using div_less_mult [of "inner_count edges i" r "edges ! 0"] inner_count_pos [of edges i]
    by (metis not_le pos_imp_zdiv_nonneg_iff zdiv_mono1 nonzero_mult_div_cancel_right less_irrefl)
  ultimately show ?thesis by (simp add: steps_def)
qed

lemma odometer: "loop_ok start edges i \<Longrightarrow> 0 \<le> r \<Longrightarrow> r < steps edges i \<Longrightarrow>
    odo1 start (set_upper start edges (length start)) (coord_at start edges i r start) i = Done (coord_at start edges i (r + 1) start)"
  using loop_okD [of start edges i] by (intro odo1_coord_at) (auto simp: inner_count_def steps_def)

lemma get_rows_visits:
  "loop_ok start edges i \<Longrightarrow> 0 \<le> r \<Longrightarrow> r \<le> steps edges i \<Longrightarrow> steps edges i - r < int fuel \<Longrightarrow>
    get_rows fuel rd start (set_upper start edges (length start)) i (coord_at start edges i r start) status s =
    read_all rd (map (\<lambda>r. coord_at start edges i r start) [r..steps edges i - 1]) status s"
proof (induction fuel arbitrary: r status s)
  case (Suc fuel)
  show ?case
  proof (cases "r < steps edges i")
    case True
    then have "[r..steps edges i - 1] = r # [r + 1..steps edges i - 1]" by (intro upto_rec1) simp
    with True Suc.IH [where r = "r + 1"] Suc.prems loop_test [where r = r] odometer [where r = r] show ?thesis
      by (simp cong: if_cong)
  next
    case False
    with Suc.prems loop_test [where r = r] show ?thesis by simp
  qed
qed simp

lemma put_rows_visits:
  "loop_ok start edges i \<Longrightarrow> 0 \<le> r \<Longrightarrow> r \<le> steps edges i \<Longrightarrow> steps edges i - r < int fuel \<Longrightarrow>
    put_rows fuel wr k start (set_upper start edges (length start)) i (coord_at start edges i r start) vs status s =
    write_all wr k (map (\<lambda>r. coord_at start edges i r start) [r..steps edges i - 1]) vs status s"
proof (induction fuel arbitrary: r vs status s)
  case (Suc fuel)
  show ?case
  proof (cases "r < steps edges i")
    case True
    then have "[r..steps edges i - 1] = r # [r + 1..steps edges i - 1]" by (intro upto_rec1) simp
    with True Suc.IH [where r = "r + 1"] Suc.prems loop_test [where r = r] odometer [where r = r] show ?thesis
      by (simp cong: if_cong)
  next
    case False
    with Suc.prems loop_test [where r = r] show ?thesis by simp
  qed
qed simp

lemma coord_at_start: "coord_at start edges i 0 start = start"
proof -
  have "coord_at start edges i 0 c = c" if "\<forall>k. c ! k = start ! k" for c
    using that by (induction i) (simp_all, metis list_update_id, metis list_update_id)
  then show ?thesis by simp
qed

lemma enough_fuel:
  assumes l: "loop_ok start edges i"
  shows "steps edges i < int (vara_fuel edges i)"
proof -
  note ok = loop_okD [OF l]
  then obtain e es where e: "edges = e # es" by (cases edges) auto
  then have p: "prod_list (map (max 1) (take (Suc i) edges)) = max 1 e * inner_count edges i" by (simp add: inner_count_def)
  have "edges ! 0 = e" using e by simp
  moreover have "e * inner_count edges i \<le> max 1 e * inner_count edges i"
    using inner_count_pos [of edges i] by (intro mult_right_mono) simp_all
  moreover have "0 \<le> max 1 e * inner_count edges i" using inner_count_pos [of edges i] by simp
  ultimately show ?thesis unfolding vara_fuel_def steps_def p by simp
qed

lemma get_rows_all:
  "loop_ok start edges i \<Longrightarrow> get_rows (vara_fuel edges i) rd start (set_upper start edges (length start)) i start status s = read_all rd (visits start edges i) status s"
  using get_rows_visits [where r = 0 and fuel = "vara_fuel edges i"] steps_nonneg [of start edges i] enough_fuel [of start edges i] by (simp add: coord_at_start visits_def)

lemma put_rows_all:
  "loop_ok start edges i \<Longrightarrow> put_rows (vara_fuel edges i) wr k start (set_upper start edges (length start)) i start vs status s = write_all wr k (visits start edges i) vs status s"
  using put_rows_visits [where r = 0 and fuel = "vara_fuel edges i"] steps_nonneg [of start edges i] enough_fuel [of start edges i] by (simp add: coord_at_start visits_def)

end
