(* ===== verification/NC3_Slab.thy ===== *)
theory NC3_Slab
  imports NC3_Coords
begin

lemma rect_mem_length: "length ss = length es \<Longrightarrow> p \<in> set (rect ss es) \<Longrightarrow> length p = length ss"
  using rect_mem [of ss es p] by simp

lemma coord_at_split:
  assumes "k < max 1 (edges ! Suc i)" "0 \<le> k"
  shows "coord_at start edges (Suc i) (q * max 1 (edges ! Suc i) + k) c = (coord_at start edges i q c)[Suc i := start ! Suc i + k]"
proof -
  have "(q * max 1 (edges ! Suc i) + k) div max 1 (edges ! Suc i) = q" "(q * max 1 (edges ! Suc i) + k) mod max 1 (edges ! Suc i) = k"
    using assms by simp_all
  then show ?thesis by (simp add: coord_at_update)
qed

lemma rect_snoc: "length ss = length es \<Longrightarrow> rect (ss @ [s]) (es @ [e]) = concat (map (\<lambda>p. map (\<lambda>i. p @ [i]) [s..s + e - 1]) (rect ss es))"
  by (simp add: rect_append map_concat comp_def)

lemma coords_rect:
  "i < length start \<Longrightarrow> length edges = length start \<Longrightarrow> length c = length start \<Longrightarrow> 0 \<le> edges ! 0 \<Longrightarrow> \<forall>k. 0 < k \<and> k \<le> i \<longrightarrow> 0 < edges ! k \<Longrightarrow>
    map (\<lambda>r. coord_at start edges i r c) [0..steps edges i - 1] = map (\<lambda>p. p @ drop (Suc i) c) (rect (take (Suc i) start) (take (Suc i) edges))"
proof (induction i)
  case 0
  then obtain s ss e es x xs where "start = s # ss" "edges = e # es" "c = x # xs" by (metis length_0_conv neq_Nil_conv not_less_zero)
  moreover have "[s..s + e - 1] = map (\<lambda>i. i + s) [0..e - 1]" using map_upto_shift [of "\<lambda>i. i" s "s + e - 1"] by (simp add: algebra_simps)
  ultimately show ?case by (simp add: steps_def inner_count_def map_concat comp_def add.commute)
next
  case (Suc i)
  let ?E = "edges ! Suc i" and ?s = "start ! Suc i"
  have E: "0 < ?E" "max 1 ?E = ?E" using Suc.prems(5) by auto
  have n: "0 \<le> steps edges i" using Suc.prems(4) inner_count_pos [of edges i] by (simp add: steps_def)
  have "steps edges (Suc i) = steps edges i * ?E"
    using Suc.prems(1,2) E by (simp add: steps_def inner_count_Suc)
  then have "map (\<lambda>r. coord_at start edges (Suc i) r c) [0..steps edges (Suc i) - 1] =
      map (\<lambda>r. coord_at start edges (Suc i) r c) (concat (map (\<lambda>q. map (\<lambda>k. q * ?E + k) [0..?E - 1]) [0..steps edges i - 1]))"
    using upto_blocks [of ?E "steps edges i"] E n by simp
  also have "\<dots> = concat (map (\<lambda>q. map (\<lambda>k. (coord_at start edges i q c)[Suc i := ?s + k]) [0..?E - 1]) [0..steps edges i - 1])"
  proof -
    have e: "map (\<lambda>k. coord_at start edges (Suc i) (q * ?E + k) c) [0..?E - 1] = map (\<lambda>k. (coord_at start edges i q c)[Suc i := ?s + k]) [0..?E - 1]" for q
      using coord_at_split [where edges = edges and i = i] E by (intro map_cong refl) (simp del: coord_at.simps)
    show ?thesis by (simp only: map_concat map_map comp_def e)
  qed
  also have "\<dots> = concat (map (\<lambda>x. map (\<lambda>k. x[Suc i := ?s + k]) [0..?E - 1]) (map (\<lambda>q. coord_at start edges i q c) [0..steps edges i - 1]))"
    by (simp add: comp_def)
  also have "\<dots> = concat (map (\<lambda>p. map (\<lambda>k. (p @ drop (Suc i) c)[Suc i := ?s + k]) [0..?E - 1]) (rect (take (Suc i) start) (take (Suc i) edges)))"
    using Suc by (simp add: comp_def)
  also have "\<dots> = concat (map (\<lambda>p. map (\<lambda>k. p @ (?s + k) # drop (Suc (Suc i)) c) [0..?E - 1]) (rect (take (Suc i) start) (take (Suc i) edges)))"
  proof (intro arg_cong [where f = concat] map_cong refl)
    fix p k assume "p \<in> set (rect (take (Suc i) start) (take (Suc i) edges))"
    then have "length p = length (take (Suc i) start)"
      using rect_mem_length [of "take (Suc i) start" "take (Suc i) edges" p] Suc.prems(2) by simp
    then have "length p = Suc i" using Suc.prems(1) by simp
    moreover have "drop (Suc i) c = c ! Suc i # drop (Suc (Suc i)) c" using Suc.prems(1,3) by (simp add: Cons_nth_drop_Suc)
    ultimately show "(p @ drop (Suc i) c)[Suc i := ?s + k] = p @ (?s + k) # drop (Suc (Suc i)) c"
      by (simp add: list_update_append)
  qed
  also have "\<dots> = map (\<lambda>p. p @ drop (Suc (Suc i)) c) (rect (take (Suc i) start @ [?s]) (take (Suc i) edges @ [?E]))"
  proof -
    have "map f [?s..?s + ?E - 1] = map (\<lambda>k. f (?s + k)) [0..?E - 1]" for f :: "int \<Rightarrow> int list"
      using map_upto_shift [of f ?s "?s + ?E - 1"] by (simp add: add.commute)
    then show ?thesis using Suc.prems(1,2) by (simp add: rect_snoc map_concat comp_def)
  qed
  finally show ?case using Suc.prems(1,2) by (simp add: take_Suc_conv_app_nth)
qed

subsection \<open>The place of an element\<close>

definition elem_offset :: "'a nc3_hdr_scheme \<Rightarrow> NC_var \<Rightarrow> int list \<Rightarrow> int" where
  "elem_offset ncp v coord = var_begin v + (if IS_RECVAR v then hd coord * recsize ncp + lin (tl (var_shape v)) (tl coord) * var_xsz v
     else lin (var_shape v) coord * var_xsz v)"

text \<open>A variable as \<open>NC_var_shape\<close> leaves it.\<close>

definition var_shaped :: "NC_var \<Rightarrow> bool" where
  "var_shaped v \<longleftrightarrow> length (var_shape v) = var_ndims v \<and> var_dsizes v = map (\<lambda>k. suffix_product (drop k (var_shape v))) [0..<var_ndims v] \<and>
     (\<forall>s \<in> set (var_shape v). 0 \<le> s) \<and> (\<forall>s \<in> set (if IS_RECVAR v then tl (var_shape v) else var_shape v). 0 < s) \<and>
     NC_BYTE \<le> var_type v \<and> var_type v \<le> NC_UINT64 \<and> var_xsz v = int (type_bytes (var_type v))"

lemma lin_nonneg: "\<forall>c \<in> set cs. 0 \<le> c \<Longrightarrow> 0 \<le> lin ss cs"
proof (induction ss cs rule: lin.induct)
  case (1 s ss c cs)
  then show ?case using suffix_product_ge [of ss] by simp
qed simp_all

definition weighted :: "(int \<times> int) list \<Rightarrow> int" where
  "weighted zs = sum_list (map (\<lambda>(u, c). u * c) zs)"

lemma lin_weighted:
  "ss \<noteq> [] \<Longrightarrow> length ss \<le> length cs \<Longrightarrow> lin ss cs = cs ! (length ss - 1) + weighted (zip (map (\<lambda>k. suffix_product (drop k ss)) [1..<length ss]) cs)"
proof (induction ss cs rule: lin.induct)
  case (1 s ss c cs)
  show ?case
  proof (cases "ss = []")
    case False
    have l: "[1..<length (s # ss)] = map Suc [0..<length ss]" by (simp only: map_Suc_upt length_Cons One_nat_def)
    have l0: "[0..<length ss] = 0 # [1..<length ss]" using False by (simp add: upt_conv_Cons)
    have "zip (map (\<lambda>k. suffix_product (drop k (s # ss))) [1..<length (s # ss)]) (c # cs) = 
        (suffix_product ss, c) # zip (map (\<lambda>k. suffix_product (drop k ss)) [1..<length ss]) cs"
      unfolding l by (simp add: l0 comp_def)
    with 1 False show ?thesis by (simp add: weighted_def nth_Cons split: nat.split)
  qed (simp add: weighted_def suffix_product_def)
qed simp_all

lemma weighted_nonneg: "\<forall>(u, c) \<in> set zs. 0 \<le> u \<and> 0 \<le> c \<Longrightarrow> 0 \<le> weighted zs"
  by (induction zs) (auto simp: weighted_def)

lemma foldl_weighted:
  "0 \<le> l \<Longrightarrow> \<forall>(u, c) \<in> set zs. 0 \<le> u \<and> 0 \<le> c \<Longrightarrow> l + weighted zs \<le> OFF_T_MAX \<Longrightarrow> foldl (\<lambda>l (u, i). s64 (l + s64 (u * i))) l zs = l + weighted zs"
proof (induction zs arbitrary: l)
  case (Cons z zs)
  obtain u c where z: "z = (u, c)" by fastforce
  then have n: "0 \<le> u * c" "0 \<le> weighted zs" using Cons.prems(2) weighted_nonneg [of zs] by auto
  have w: "weighted (z # zs) = u * c + weighted zs" by (simp add: weighted_def z)
  with Cons.prems(1,3) n have b: "u * c \<le> OFF_T_MAX" "l + u * c \<le> OFF_T_MAX" by linarith+
  have "s64 (u * c) = u * c" using b(1) n(1) by (intro s64_id) linarith+
  moreover have "s64 (l + u * c) = l + u * c" using b(2) n(1) Cons.prems(1) by (intro s64_id) linarith+
  ultimately show ?case using Cons.IH [of "l + u * c"] Cons.prems n w by (simp add: z)
qed (simp add: weighted_def)

lemma s64_nonneg: "0 \<le> x \<Longrightarrow> x \<le> OFF_T_MAX \<Longrightarrow> s64 x = x"
  by (simp add: s64_id)

lemma foldl_lin:
  assumes "ss \<noteq> []" "length cs = length ss" "\<forall>c \<in> set cs. 0 \<le> c" "lin ss cs \<le> OFF_T_MAX"
  shows "foldl (\<lambda>l (u, i). s64 (l + s64 (u * i))) (s64 (cs ! (length ss - 1))) (zip (map (\<lambda>k. suffix_product (drop k ss)) [1..<length ss]) cs) = lin ss cs"
proof -
  let ?z = "zip (map (\<lambda>k. suffix_product (drop k ss)) [1..<length ss]) cs" and ?l = "cs ! (length ss - 1)"
  have l: "lin ss cs = ?l + weighted ?z" using assms(1,2) by (intro lin_weighted) simp_all
  have z: "\<forall>(u, c) \<in> set ?z. 0 \<le> u \<and> 0 \<le> c"
  proof (clarify)
    fix u c assume "(u, c) \<in> set ?z"
    then have "u \<in> set (map (\<lambda>k. suffix_product (drop k ss)) [1..<length ss])" "c \<in> set cs" by (blast dest: set_zip_leftD set_zip_rightD)+
    then show "0 \<le> u \<and> 0 \<le> c" using assms(3) suffix_product_ge by (auto intro: order_trans [of 0 1])
  qed
  have "?l \<in> set cs" using assms(1,2) by (intro nth_mem) (cases ss, auto)
  then have "0 \<le> ?l" using assms(3) by blast
  moreover from this have "s64 ?l = ?l" using l weighted_nonneg [OF z] assms(4) by (intro s64_nonneg) linarith+
  ultimately show ?thesis using foldl_weighted [OF _ z, of ?l] l assms(4) by simp
qed

lemma drop_dsizes:
  assumes "length shp = n"
  shows "drop (k + 1) (map (\<lambda>j. suffix_product (drop j shp)) [0..<n]) = map (\<lambda>j. suffix_product (drop j (drop k shp))) [1..<length (drop k shp)]"
  using assms by (intro nth_equalityI) (auto simp: add.commute)

lemma NC_varoffset_elem:
  assumes v: "var_shaped v" and len: "length coord = var_ndims v" and c: "\<forall>c \<in> set coord. 0 \<le> c"
    and b: "0 \<le> var_begin v" "0 \<le> recsize ncp" and off: "elem_offset ncp v coord \<le> OFF_T_MAX"
  shows "NC_varoffset ncp v coord = Done (elem_offset ncp v coord)"
proof -
  let ?n = "var_ndims v" and ?k = "if IS_RECVAR v then 1 else 0 :: nat" and ?L = "lin (drop (if IS_RECVAR v then 1 else 0) (var_shape v)) (drop (if IS_RECVAR v then 1 else 0) coord)"
  let ?R = "if IS_RECVAR v then hd coord * recsize ncp else 0"
  have sh: "length (var_shape v) = ?n" "var_dsizes v = map (\<lambda>k. suffix_product (drop k (var_shape v))) [0..<?n]" "1 \<le> var_xsz v"
    using v type_bytes_pos [of "var_type v"] by (simp_all add: var_shaped_def)
  have e: "elem_offset ncp v coord = var_begin v + (?L * var_xsz v + ?R)" by (simp add: elem_offset_def drop_Suc)
  have L: "0 \<le> ?L" using c by (intro lin_nonneg) (auto dest: in_set_dropD)
  then have Lx: "?L \<le> ?L * var_xsz v" "0 \<le> ?L * var_xsz v" using sh(3) by (simp_all add: mult_le_cancel_left1)
  have R: "0 \<le> ?R" using c b(2) len by (cases coord) (auto simp: IS_RECVAR_def sh(1) [symmetric])
  have bounds: "?L \<le> OFF_T_MAX" "?L * var_xsz v \<le> OFF_T_MAX" "?R \<le> OFF_T_MAX" "?L * var_xsz v + ?R \<le> OFF_T_MAX"
    using off e Lx R b(1) by linarith+
  note ids = s64_nonneg [OF Lx(2) bounds(2)] s64_nonneg [OF R bounds(3)] s64_nonneg [OF _ bounds(4)] s64_nonneg [OF _ off]
  have tot: "0 \<le> elem_offset ncp v coord" "0 \<le> ?L * var_xsz v + ?R" using e Lx R b(1) by linarith+
  consider "?n = 0" | "?n = 1" | "2 \<le> ?n" by linarith
  then show ?thesis
  proof cases
    case 1
    with sh(1) show ?thesis by (simp add: NC_varoffset_def elem_offset_def IS_RECVAR_def)
  next
    case 2
    then obtain s i where si: "var_shape v = [s]" "coord = [i]" using sh(1) len by (metis One_nat_def length_0_conv length_Suc_conv)
    have "s64 (var_begin v + s64 (i * (if IS_RECVAR v then recsize ncp else var_xsz v))) = elem_offset ncp v coord"
      using ids tot e by (simp add: si suffix_product_def split: if_splits)
    with 2 si sh(2) show ?thesis by (simp add: NC_varoffset_def)
  next
    case 3
    have d: "drop (?k + 1) (take ?n (var_dsizes v)) = map (\<lambda>j. suffix_product (drop j (drop ?k (var_shape v)))) [1..<length (drop ?k (var_shape v))]"
      using drop_dsizes [OF sh(1), of ?k] sh(2) by simp
    have "drop ?k (var_shape v) \<noteq> []" "length (drop ?k coord) = length (drop ?k (var_shape v))" "coord ! (?n - 1) = drop ?k coord ! (length (drop ?k (var_shape v)) - 1)"
      using 3 sh(1) len by auto
    moreover have "\<forall>c \<in> set (drop ?k coord). 0 \<le> c" using c by (auto dest: in_set_dropD)
    ultimately have f: "foldl (\<lambda>l (u, i). s64 (l + s64 (u * i))) (s64 (coord ! (?n - 1))) (zip (drop (?k + 1) (take ?n (var_dsizes v))) (drop ?k coord)) = ?L"
      using foldl_lin [of "drop ?k (var_shape v)" "drop ?k coord"] bounds(1) unfolding d by simp
    have "s64 ((if IS_RECVAR v then s64 (s64 (?L * var_xsz v) + s64 (hd coord * recsize ncp)) else s64 (?L * var_xsz v)) + var_begin v) = elem_offset ncp v coord"
      using ids tot e by (simp add: add.commute split: if_splits)
    with 3 sh(1,2) len f show ?thesis by (cases "IS_RECVAR v") (simp_all add: NC_varoffset_def Let_def)
  qed
qed

end
