(* ===== verification/NC3_Piece.thy ===== *)
theory NC3_Piece
  imports NC3_Slab
begin

lemma blit_all: "length src = length dst \<Longrightarrow> blit dst 0 src = src"
  by (simp add: blit_def)

lemma nat_plus_int: "0 \<le> off \<Longrightarrow> nat (off + int k) = nat off + k"
  by (simp add: nat_add_distrib)

lemma rest_mult: "k \<le> n \<Longrightarrow> n * sz - k * sz = (n - k) * sz \<and> n * sz = k * sz + (n - k) * (sz::nat)"
  by (simp add: diff_mult_distrib)

lemma piece_bytes:
  assumes "0 \<le> off" "off + int (n * sz) \<le> OFF_T_MAX"
  shows "nat (u64 (int sz * int n)) = n * sz"
proof -
  have e: "int sz * int n = int (n * sz)" by (simp add: mult.commute)
  have "u64 (int (n * sz)) = int (n * sz)" using assms by (intro u64_id) linarith+
  then show ?thesis unfolding e by (simp only: nat_int)
qed

lemma howmany_type:
  assumes "NC_BYTE \<le> ty" "ty \<le> NC_UINT64"
  shows "ncx_howmany ty (k * type_bytes ty) = Done k"
proof -
  have "ty \<in> {1, 2, 3, 4, 5, 6, 7, 8, 9, 10, 11}" using assms by simp arith
  then show ?thesis by (auto simp: ncx_howmany_def type_bytes_def)
qed

text \<open>A file whose chunks the driver hands out whole.\<close>

locale ncio_client = ncio_region +
  fixes ncp :: nc3_info
  assumes chunk_fits: "chunk ncp \<le> int limit"

context ncio_client
begin

lemma get_rel:
  assumes "ok s" "0 \<le> off" "0 < n" "n \<le> limit" "nat off + n \<le> length (bytes s)"
  shows "\<exists>s1 s2. io_get io s off n 0 = Done (NC_NOERR, take n (drop (nat off) (bytes s)), s1) \<and>
    io_rel io s1 off (take n (drop (nat off) (bytes s))) 0 = Done (NC_NOERR, s2) \<and> ok s2 \<and> bytes s2 = bytes s"
proof -
  let ?b = "take n (drop (nat off) (bytes s))"
  obtain s1 where g: "io_get io s off n 0 = Done (NC_NOERR, ?b, s1)" "held s1 off n 0" "bytes s1 = bytes s"
    using get_law [OF assms, of 0] by auto
  have l: "length ?b = n" using assms(5) by simp
  obtain s2 where "io_rel io s1 off ?b 0 = Done (NC_NOERR, s2)" "ok s2" "bytes s2 = blit (bytes s1) (nat off) ?b"
    using rel_law [of s1 off ?b 0 0] g(2,3) l by auto
  with g assms(5) show ?thesis by (auto simp: blit_same)
qed

lemma get_rel_write:
  assumes "ok s" "0 \<le> off" "0 < length buf" "length buf \<le> limit" "nat off + length buf \<le> length (bytes s)"
  shows "\<exists>xp s1 s2. io_get io s off (length buf) RGN_WRITE = Done (NC_NOERR, xp, s1) \<and> length xp = length buf \<and>
    io_rel io s1 off buf RGN_MODIFIED = Done (NC_NOERR, s2) \<and> ok s2 \<and> bytes s2 = blit (bytes s) (nat off) buf"
proof -
  obtain s1 where g: "io_get io s off (length buf) RGN_WRITE = Done (NC_NOERR, take (length buf) (drop (nat off) (bytes s)), s1)" "held s1 off (length buf) RGN_WRITE" "bytes s1 = bytes s"
    using get_law [OF assms, of RGN_WRITE] by auto
  obtain s2 where "io_rel io s1 off buf RGN_MODIFIED = Done (NC_NOERR, s2)" "ok s2" "bytes s2 = blit (bytes s1) (nat off) buf"
    using rel_law [OF g(2), of RGN_MODIFIED] g(3) by auto
  with g assms(5) show ?thesis by (intro exI [of _ "take (length buf) (drop (nat off) (bytes s))"] exI [of _ s1] exI [of _ s2]) simp
qed

text \<open>The loops over the chunks of a piece move exactly the values of the piece, whatever the chunk size.\<close>

lemma getNCvx_loop_ok:
  assumes "0 < chk" "type_bytes ext dvd chk" "type_bytes ty = type_bytes ext" "NC_BYTE \<le> ty" "ty \<le> NC_UINT64" and lim: "chk \<le> limit"
  shows "ok s \<Longrightarrow> 0 \<le> off \<Longrightarrow> 0 < n \<Longrightarrow> nat off + n * type_bytes ext \<le> length (bytes s) \<Longrightarrow> off + int (n * type_bytes ext) \<le> OFF_T_MAX \<Longrightarrow>
    \<exists>s'. getNCvx_loop ub io ext mem ty chk off (n * type_bytes ext) status s =
      Done (if status = NC_NOERR then fst (getn_values ub ext mem (ext_values ext n (drop (nat off) (bytes s)))) else status,
        snd (getn_values ub ext mem (ext_values ext n (drop (nat off) (bytes s)))), s') \<and> ok s' \<and> bytes s' = bytes s"
proof (induction n arbitrary: off status s rule: less_induct)
  case (less n)
  let ?sz = "type_bytes ext"
  obtain m where m: "chk = m * ?sz" "0 < m" using assms(1,2) by (metis dvd_def gr0I mult.commute mult_0)
  define k where "k = min n m"
  then have k: "0 < k" "k \<le> n" using m less.prems(3) by simp_all
  have ext: "min (n * ?sz) chk = k * ?sz" unfolding m(1) k_def by (simp only: nat_mult_min_left)
  have hm: "ncx_howmany ty (k * ?sz) = Done k" using howmany_type [OF assms(4,5), of k] by (simp only: assms(3))
  have ksz: "k * ?sz \<le> n * ?sz" "0 < k * ?sz" "k * ?sz \<le> limit" using k type_bytes_pos [of ext] min.cobounded2 [of "n * ?sz" chk] lim unfolding ext by simp_all
  obtain s1 s2 where g: "io_get io s off (k * ?sz) 0 = Done (NC_NOERR, take (k * ?sz) (drop (nat off) (bytes s)), s1)"
      "io_rel io s1 off (take (k * ?sz) (drop (nat off) (bytes s))) 0 = Done (NC_NOERR, s2)" "ok s2" "bytes s2 = bytes s"
    using get_rel [OF less.prems(1,2) ksz(2,3)] less.prems(4) ksz(1) by auto
  obtain st vs where v: "getn_values ub ext mem (ext_values ext k (drop (nat off) (bytes s))) = (st, vs)" by fastforce
  have getn: "ncx_getn ub ext mem k (take (k * ?sz) (drop (nat off) (bytes s))) = (st, vs)"
    by (simp add: ncx_getn_values ext_values_take v)
  show ?case
  proof (cases "k = n")
    case True
    have "getNCvx_loop ub io ext mem ty chk off (n * ?sz) status s = Done (if status = NC_NOERR then st else status, vs, s2)"
      using g(1,2) hm getn ext unfolding True by (subst getNCvx_loop.simps) (simp add: Let_def)
    with g(3,4) v show ?thesis unfolding True by auto
  next
    case False
    with k have n: "0 < n - k" "n - k < n" "k + (n - k) = n" by linarith+
    have rest: "n * ?sz - k * ?sz = (n - k) * ?sz" "n * ?sz = k * ?sz + (n - k) * ?sz"
      using rest_mult [OF k(2), of ?sz] by blast+
    let ?off = "off + int (k * ?sz)"
    have off: "s64 ?off = ?off" using less.prems(2,5) ksz by (intro s64_nonneg) linarith+
    have noff: "nat ?off = nat off + k * ?sz" using less.prems(2) by (rule nat_plus_int)
    obtain s3 where ih: "getNCvx_loop ub io ext mem ty chk ?off ((n - k) * ?sz) (if status = NC_NOERR then st else status) s2 =
        Done (if (if status = NC_NOERR then st else status) = NC_NOERR then fst (getn_values ub ext mem (ext_values ext (n - k) (drop (nat ?off) (bytes s)))) else (if status = NC_NOERR then st else status),
          snd (getn_values ub ext mem (ext_values ext (n - k) (drop (nat ?off) (bytes s)))), s3)" "ok s3" "bytes s3 = bytes s"
      using less.IH [OF n(2) g(3), of ?off "if status = NC_NOERR then st else status"] n(1) less.prems(2,4,5) noff rest(2) g(4) by auto
    have "getNCvx_loop ub io ext mem ty chk off (n * ?sz) status s =
        run_bind (getNCvx_loop ub io ext mem ty chk ?off ((n - k) * ?sz) (if status = NC_NOERR then st else status) s2) (\<lambda>(st', vs', s3). Done (st', vs @ vs', s3))"
      using g(1,2) hm getn ext off n(1) k(1) type_bytes_pos [of ext] by (subst getNCvx_loop.simps) (simp add: Let_def rest(1))
    moreover have "ext_values ext n (drop (nat off) (bytes s)) = ext_values ext k (drop (nat off) (bytes s)) @ ext_values ext (n - k) (drop (nat ?off) (bytes s))"
      using ext_values_add [of ext k "n - k" "drop (nat off) (bytes s)"] n(3) noff by (simp add: add.commute)
    ultimately show ?thesis using ih v by (auto simp: getn_values_append split: prod.split)
  qed
qed

lemma putNCvx_loop_ok:
  assumes "0 < chk" "type_bytes ext dvd chk" "type_bytes ty = type_bytes ext" "NC_BYTE \<le> ty" "ty \<le> NC_UINT64" and lim: "chk \<le> limit"
  shows "ok s \<Longrightarrow> 0 \<le> off \<Longrightarrow> 0 < n \<Longrightarrow> n \<le> length vs \<Longrightarrow> nat off + n * type_bytes ext \<le> length (bytes s) \<Longrightarrow> off + int (n * type_bytes ext) \<le> OFF_T_MAX \<Longrightarrow>
    \<exists>s'. putNCvx_loop ub io ext mem ty chk off (n * type_bytes ext) vs status s =
      Done (if status = NC_NOERR then putn_status ub ext mem (take n vs) else status, s') \<and> ok s' \<and>
      bytes s' = blit (bytes s) (nat off) (concat (map (conv_bytes ub ext mem) (take n vs)))"
proof (induction n arbitrary: off vs status s rule: less_induct)
  case (less n)
  let ?sz = "type_bytes ext"
  obtain m where m: "chk = m * ?sz" "0 < m" using assms(1,2) by (metis dvd_def gr0I mult.commute mult_0)
  define k where "k = min n m"
  then have k: "0 < k" "k \<le> n" using m less.prems(3) by simp_all
  have ext: "min (n * ?sz) chk = k * ?sz" unfolding m(1) k_def by (simp only: nat_mult_min_left)
  have hm: "ncx_howmany ty (k * ?sz) = Done k" using howmany_type [OF assms(4,5), of k] by (simp only: assms(3))
  have ksz: "k * ?sz \<le> n * ?sz" "0 < k * ?sz" "k * ?sz \<le> limit" using k type_bytes_pos [of ext] min.cobounded2 [of "n * ?sz" chk] lim unfolding ext by simp_all
  let ?b = "concat (map (conv_bytes ub ext mem) (take k vs))"
  have lb: "length ?b = k * ?sz" using k less.prems(4) by (simp add: length_concat_bytes)
  have fit: "0 < length ?b" "length ?b \<le> limit" "nat off + length ?b \<le> length (bytes s)" unfolding lb using less.prems(5) ksz by linarith+
  obtain xp s1 s2 where g: "io_get io s off (k * ?sz) RGN_WRITE = Done (NC_NOERR, xp, s1)" "length xp = k * ?sz"
      "io_rel io s1 off ?b RGN_MODIFIED = Done (NC_NOERR, s2)" "ok s2" "bytes s2 = blit (bytes s) (nat off) ?b"
    using get_rel_write [OF less.prems(1,2) fit] unfolding lb by blast
  have putn: "ncx_putn ub ext mem (take k vs) = (putn_status ub ext mem (take k vs), ?b)" by (rule ncx_putn_values)
  have bl: "blit xp 0 ?b = ?b" using g(2) lb by (intro blit_all) simp
  have enough: "\<not> length vs < k" using k less.prems(4) by linarith
  let ?st = "if status = NC_NOERR then putn_status ub ext mem (take k vs) else status"
  show ?case
  proof (cases "k = n")
    case True
    have "putNCvx_loop ub io ext mem ty chk off (n * ?sz) vs status s = Done (?st, s2)"
      using g(1,3) hm putn ext bl enough unfolding True by (subst putNCvx_loop.simps) (simp add: Let_def)
    with g(4,5) show ?thesis unfolding True by auto
  next
    case False
    with k have n: "0 < n - k" "n - k < n" "k + (n - k) = n" by linarith+
    have rest: "n * ?sz - k * ?sz = (n - k) * ?sz" "n * ?sz = k * ?sz + (n - k) * ?sz"
      using rest_mult [OF k(2), of ?sz] by blast+
    let ?off = "off + int (k * ?sz)" and ?vs = "drop k vs"
    have off: "s64 ?off = ?off" using less.prems(2,6) ksz by (intro s64_nonneg) linarith+
    have noff: "nat ?off = nat off + k * ?sz" using less.prems(2) by (rule nat_plus_int)
    have lbs: "length (bytes s2) = length (bytes s)" unfolding g(5) using lb less.prems(5) ksz by (intro length_blit) linarith
    let ?b' = "concat (map (conv_bytes ub ext mem) (take (n - k) ?vs))"
    obtain s3 where ih: "putNCvx_loop ub io ext mem ty chk ?off ((n - k) * ?sz) ?vs ?st s2 =
        Done (if ?st = NC_NOERR then putn_status ub ext mem (take (n - k) ?vs) else ?st, s3)" "ok s3" "bytes s3 = blit (bytes s2) (nat ?off) ?b'"
    proof -
      have "n - k \<le> length ?vs" "nat ?off + (n - k) * ?sz \<le> length (bytes s2)" "?off + int ((n - k) * ?sz) \<le> OFF_T_MAX" "0 \<le> ?off"
        using less.prems(2,4,5,6) noff rest(2) lbs by simp_all
      with less.IH [OF n(2) g(4) _ n(1), of ?off ?vs ?st] show ?thesis using that by blast
    qed
    have "putNCvx_loop ub io ext mem ty chk off (n * ?sz) vs status s = putNCvx_loop ub io ext mem ty chk ?off ((n - k) * ?sz) ?vs ?st s2"
      using g(1,3) hm putn ext off n(1) k(1) bl enough type_bytes_pos [of ext] by (subst putNCvx_loop.simps) (simp add: Let_def rest(1))
    moreover have split: "take n vs = take k vs @ take (n - k) ?vs" using n(3) take_add [of k "n - k" vs] by simp
    moreover have "bytes s3 = blit (bytes s) (nat off) (?b @ ?b')"
    proof -
      have "length ?b' = (n - k) * ?sz" using less.prems(4) by (simp add: length_concat_bytes)
      then have "nat off + length ?b + length ?b' \<le> length (bytes s)" using less.prems(5) lb rest(2) by simp
      from blit_blit [OF this] show ?thesis using ih(3) g(5) lb noff by simp
    qed
    ultimately show ?thesis using ih(1,2) by (simp add: putn_status_append)
  qed
qed

text \<open>A piece at \<open>coord\<close>.\<close>

lemma getNCvx_ok:
  assumes "0 < chunk ncp" "int (type_bytes ext) dvd chunk ncp" "type_bytes (var_type v) = type_bytes ext" "NC_BYTE \<le> var_type v" "var_type v \<le> NC_UINT64" "var_xsz v = int (type_bytes ext)"
    and off: "NC_varoffset ncp v coord = Done off" "0 \<le> off" "off + int (n * type_bytes ext) \<le> OFF_T_MAX"
    and "ok s" "nat off + n * type_bytes ext \<le> length (bytes s)"
  shows "\<exists>s'. getNCvx ub io ext mem ncp v coord (int n) s = Done (fst (getn_values ub ext mem (ext_values ext n (drop (nat off) (bytes s)))),
    snd (getn_values ub ext mem (ext_values ext n (drop (nat off) (bytes s)))), s') \<and> ok s' \<and> bytes s' = bytes s"
proof (cases "n = 0")
  case True
  with off(1) assms(10) show ?thesis by (simp add: getNCvx_def ext_values_def getn_values_def range_status_def)
next
  case False
  have "nat (u64 (var_xsz v * int n)) = n * type_bytes ext"
    using piece_bytes [OF off(2,3)] assms(6) by simp
  moreover have "type_bytes ext dvd nat (chunk ncp)" using assms(1,2) by (metis int_dvd_int_iff int_nat_eq less_imp_le)
  moreover have "nat (chunk ncp) \<le> limit" using chunk_fits by simp
  ultimately show ?thesis
    using getNCvx_loop_ok [of "nat (chunk ncp)" ext "var_type v" s off n ub mem NC_NOERR] assms False by (auto simp: getNCvx_def)
qed

lemma putNCvx_ok:
  assumes "0 < chunk ncp" "int (type_bytes ext) dvd chunk ncp" "type_bytes (var_type v) = type_bytes ext" "NC_BYTE \<le> var_type v" "var_type v \<le> NC_UINT64" "var_xsz v = int (type_bytes ext)"
    and off: "NC_varoffset ncp v coord = Done off" "0 \<le> off" "off + int (n * type_bytes ext) \<le> OFF_T_MAX"
    and "ok s" "nat off + n * type_bytes ext \<le> length (bytes s)" "n \<le> length vs"
  shows "\<exists>s'. putNCvx ub io ext mem ncp v coord (int n) vs s = Done (putn_status ub ext mem (take n vs), s') \<and> ok s' \<and>
    bytes s' = blit (bytes s) (nat off) (concat (map (conv_bytes ub ext mem) (take n vs)))"
proof (cases "n = 0")
  case True
  with off(1) assms(10) show ?thesis by (simp add: putNCvx_def putn_status_def range_status_def)
next
  case False
  have "nat (u64 (var_xsz v * int n)) = n * type_bytes ext"
    using piece_bytes [OF off(2,3)] assms(6) by simp
  moreover have "type_bytes ext dvd nat (chunk ncp)" using assms(1,2) by (metis int_dvd_int_iff int_nat_eq less_imp_le)
  moreover have "nat (chunk ncp) \<le> limit" using chunk_fits by simp
  ultimately show ?thesis
    using putNCvx_loop_ok [of "nat (chunk ncp)" ext "var_type v" s off n vs ub mem NC_NOERR] assms False by (auto simp: putNCvx_def)
qed

end

end
