(* ===== verification/NC3_Vara.thy ===== *)
theory NC3_Vara
  imports NC3_Piece
begin

subsection \<open>Rectangles inside a variable\<close>

definition slab_in :: "nc3_info \<Rightarrow> NC_var \<Rightarrow> int list \<Rightarrow> int list \<Rightarrow> bool" where
  "slab_in ncp v start edges \<longleftrightarrow> length start = var_ndims v \<and> length edges = var_ndims v \<and>
     (\<forall>k<var_ndims v. 0 \<le> start ! k \<and> 0 \<le> edges ! k \<and>
       start ! k + edges ! k \<le> (if k = 0 \<and> IS_RECVAR v then numrecs ncp else var_shape v ! k))"

lemma set_drop_take: "b \<le> length xs \<Longrightarrow> x \<in> set (drop a (take b xs)) \<longleftrightarrow> (\<exists>k. a \<le> k \<and> k < b \<and> xs ! k = x)"
proof
  assume b: "b \<le> length xs" and "x \<in> set (drop a (take b xs))"
  then obtain i where "i < length (drop a (take b xs))" "drop a (take b xs) ! i = x" by (auto simp: in_set_conv_nth)
  with b have "a + i < b" "xs ! (a + i) = x" by simp_all
  then show "\<exists>k. a \<le> k \<and> k < b \<and> xs ! k = x" by (intro exI [of _ "a + i"]) simp
next
  assume b: "b \<le> length xs" and "\<exists>k. a \<le> k \<and> k < b \<and> xs ! k = x"
  then obtain k where k: "a \<le> k" "k < b" "xs ! k = x" by auto
  with b have "k - a < length (drop a (take b xs))" "drop a (take b xs) ! (k - a) = x" by simp_all
  then show "x \<in> set (drop a (take b xs))" by (metis nth_mem)
qed

lemma iocount_find_ok:
  assumes "\<forall>k<N. j0 \<le> k \<longrightarrow> edges ! k \<le> shape ! k \<and> 0 < shape ! k" "N \<le> length edges"
  shows "j0 \<le> n \<Longrightarrow> n \<le> N \<Longrightarrow> \<forall>k. n \<le> k \<and> k < N \<longrightarrow> edges ! k = shape ! k \<Longrightarrow>
    \<exists>j z. iocount_find shape edges j0 n = Done (j, z) \<and> j0 \<le> j \<and> j \<le> n \<and> (\<forall>k<N. j < k \<longrightarrow> edges ! k = shape ! k) \<and>
      (z \<longleftrightarrow> (\<exists>k. j0 \<le> k \<and> k < N \<and> edges ! k = 0)) \<and> (j = n \<longrightarrow> j = j0)"
proof (induction n)
  case 0
  have "edges ! k \<noteq> 0" if "j0 \<le> k" "k < N" for k using 0 assms(1) that by (metis less_irrefl zero_le)
  with 0 show ?case by (intro exI [of _ 0] exI [of _ False]) auto
next
  case (Suc n)
  have pos: "edges ! k \<noteq> 0" if "Suc n \<le> k" "k < N" for k using Suc.prems assms(1) that by (metis less_irrefl order_trans)
  consider "j0 = Suc n" | "j0 \<le> n" "edges ! n < shape ! n" | "j0 \<le> n" "edges ! n = shape ! n"
    using Suc.prems(1,2) assms(1) by (metis Suc_le_lessD le_Suc_eq less_le)
  then show ?case
  proof cases
    case 1
    with pos Suc.prems show ?thesis by (intro exI [of _ "Suc n"] exI [of _ False]) auto
  next
    case 2
    let ?z = "0 \<in> set (drop j0 (take (Suc n) edges))"
    have "?z \<longleftrightarrow> (\<exists>k. j0 \<le> k \<and> k < Suc n \<and> edges ! k = 0)" using Suc.prems(2) assms(2) by (intro set_drop_take) simp
    also have "\<dots> \<longleftrightarrow> (\<exists>k. j0 \<le> k \<and> k < N \<and> edges ! k = 0)"
      using pos Suc.prems(2) by (meson leI less_le_trans)
    finally have z: "?z \<longleftrightarrow> (\<exists>k. j0 \<le> k \<and> k < N \<and> edges ! k = 0)" .
    have "iocount_find shape edges j0 (Suc n) = Done (n, ?z)" using 2 by simp
    with z 2(1) Suc.prems(3) show ?thesis by (intro exI [of _ n] exI [of _ ?z]) auto
  next
    case 3
    have "\<forall>k. n \<le> k \<and> k < N \<longrightarrow> edges ! k = shape ! k" using 3(2) Suc.prems(3) by (metis Suc_leI le_neq_implies_less)
    with Suc.IH 3 Suc.prems(2) obtain j z where "iocount_find shape edges j0 n = Done (j, z)" "j0 \<le> j" "j \<le> n" "\<forall>k<N. j < k \<longrightarrow> edges ! k = shape ! k"
      "z \<longleftrightarrow> (\<exists>k. j0 \<le> k \<and> k < N \<and> edges ! k = 0)" by (auto simp: Suc_le_eq)
    with 3 show ?thesis by (intro exI [of _ j] exI [of _ z]) simp
  qed
qed

lemma foldl_u64_prod:
  "\<forall>e \<in> set es. 0 < e \<Longrightarrow> 0 < c \<Longrightarrow> c * prod_list es < 18446744073709551616 \<Longrightarrow> foldl (\<lambda>c e. u64 (c * e)) c es = c * prod_list es"
proof (induction es arbitrary: c)
  case (Cons e es)
  have "0 < prod_list es" using Cons.prems(1) by (induction es) auto
  moreover have ce: "0 < c * e" using Cons.prems(1,2) by simp
  ultimately have "c * e * 1 \<le> c * e * prod_list es" by (intro mult_left_mono) simp_all
  moreover from this ce have "u64 (c * e) = c * e" using Cons.prems(3) by (intro u64_id) (simp_all add: mult.assoc)
  ultimately show ?case using Cons ce by (simp add: mult.assoc)
qed simp

lemma lin_append_diff:
  "length p = length ss \<Longrightarrow> lin (ss @ ss') (p @ q) - lin ss' q = lin (ss @ ss') (p @ q') - lin ss' q'"
  by (induction p ss rule: list_induct2) simp_all

text \<open>The elements of a piece are next to each other.\<close>

lemma block_lin:
  assumes "length p = length ss" "\<forall>s \<in> set shp. 0 < s" "0 \<le> e"
  shows "map (\<lambda>q. lin (ss @ s # shp) (p @ q)) (rect (st # map (\<lambda>_. 0) shp) (e # shp)) =
    map (\<lambda>k. lin (ss @ s # shp) (p @ st # map (\<lambda>_. 0) shp) + k) [0..e * suffix_product shp - 1]"
proof -
  let ?q0 = "st # map (\<lambda>_. 0) shp"
  let ?D = "lin (ss @ s # shp) (p @ ?q0) - lin (s # shp) ?q0"
  have "map (\<lambda>q. lin (ss @ s # shp) (p @ q)) (rect ?q0 (e # shp)) = map (\<lambda>q. lin (s # shp) q + ?D) (rect ?q0 (e # shp))"
  proof (rule map_cong [OF refl])
    fix q show "lin (ss @ s # shp) (p @ q) = lin (s # shp) q + ?D"
      using lin_append_diff [OF assms(1), of "s # shp" q ?q0] by linarith
  qed
  also have "\<dots> = map (\<lambda>x. x + ?D) (map (lin (s # shp)) (rect ?q0 (e # shp)))" by (simp only: map_map comp_def)
  also have "\<dots> = map (\<lambda>k. lin (ss @ s # shp) (p @ ?q0) + k) [0..e * suffix_product shp - 1]"
    unfolding lin_rect_block [OF assms(2,3)] by simp
  finally show ?thesis .
qed

definition full_right :: "NC_var \<Rightarrow> int list \<Rightarrow> nat \<Rightarrow> bool" where
  "full_right v edges j \<longleftrightarrow> (\<forall>k<var_ndims v. j < k \<longrightarrow> edges ! k = var_shape v ! k) \<and> (IS_RECVAR v \<longrightarrow> 1 \<le> j)"

lemma shape_pos: "var_shaped v \<Longrightarrow> k < var_ndims v \<Longrightarrow> (IS_RECVAR v \<longrightarrow> 1 \<le> k) \<Longrightarrow> 0 < var_shape v ! k"
  by (cases "var_shape v"; cases k) (auto simp: var_shaped_def split: if_splits)

lemma block_split:
  assumes v: "var_shaped v" and r: "slab_in ncp v start edges" and f: "full_right v edges j" and j: "j < var_ndims v"
  shows "drop j start = start ! j # map (\<lambda>_. 0) (drop (Suc j) (var_shape v))" "drop j edges = edges ! j # drop (Suc j) (var_shape v)"
    "\<forall>s \<in> set (drop (Suc j) (var_shape v)). 0 < s"
proof -
  have len: "length (var_shape v) = var_ndims v" "length start = var_ndims v" "length edges = var_ndims v"
    using v r by (simp_all add: var_shaped_def slab_in_def)
  have k: "edges ! k = var_shape v ! k \<and> start ! k = 0 \<and> 0 < var_shape v ! k" if "j < k" "k < var_ndims v" for k
    using f r that shape_pos [OF v that(2)] by (fastforce simp: full_right_def slab_in_def)
  have "drop (Suc j) start = map (\<lambda>_. 0) (drop (Suc j) (var_shape v))" using k len by (intro nth_equalityI) auto
  then show "drop j start = start ! j # map (\<lambda>_. 0) (drop (Suc j) (var_shape v))" using j len by (simp add: Cons_nth_drop_Suc [symmetric])
  have "drop (Suc j) edges = drop (Suc j) (var_shape v)" using k len by (intro nth_equalityI) auto
  then show "drop j edges = edges ! j # drop (Suc j) (var_shape v)" using j len by (simp add: Cons_nth_drop_Suc [symmetric])
  show "\<forall>s \<in> set (drop (Suc j) (var_shape v)). 0 < s"
  proof
    fix s assume "s \<in> set (drop (Suc j) (var_shape v))"
    then obtain i where "i < var_ndims v - Suc j" "s = var_shape v ! (Suc j + i)" using len by (auto simp: in_set_conv_nth)
    with k [of "Suc j + i"] show "0 < s" by simp
  qed
qed

lemma block_offsets:
  assumes v: "var_shaped v" and r: "slab_in ncp v start edges" and f: "full_right v edges j" and j: "j \<le> var_ndims v" and p: "length p = j"
  shows "map (\<lambda>q. elem_offset ncp v (p @ q)) (rect (drop j start) (drop j edges)) =
    map (\<lambda>k. elem_offset ncp v (p @ drop j start) + k * var_xsz v) [0..prod_list (drop j edges) - 1]"
proof (cases "j = var_ndims v")
  case True
  with r show ?thesis by (simp add: slab_in_def)
next
  case False
  with j have j: "j < var_ndims v" by simp
  let ?shp = "drop (Suc j) (var_shape v)" and ?s = "var_shape v ! j"
  note sp = block_split [OF v r f j]
  have len: "length (var_shape v) = var_ndims v" using v by (simp add: var_shaped_def)
  have shape: "var_shape v = take j (var_shape v) @ ?s # ?shp" using j len by (simp add: id_take_nth_drop)
  have e: "0 \<le> edges ! j" using r j by (simp add: slab_in_def)
  have cnt: "prod_list (drop j edges) = edges ! j * suffix_product ?shp" using sp(2,3) by (simp add: suffix_product_pos)
  define ss where "ss = (if IS_RECVAR v then tl (take j (var_shape v)) else take j (var_shape v))"
  define p' where "p' = (if IS_RECVAR v then tl p else p)"
  have lp: "length p' = length ss" using p j len by (simp add: p'_def ss_def)
  have off: "elem_offset ncp v (p @ q) = (var_begin v + (if IS_RECVAR v then hd p * recsize ncp else 0)) + lin (ss @ ?s # ?shp) (p' @ q) * var_xsz v" for q
  proof (cases "IS_RECVAR v")
    case True
    with f p have ne: "p \<noteq> []" "take j (var_shape v) \<noteq> []" using j len by (auto simp: full_right_def)
    then have "tl (var_shape v) = tl (take j (var_shape v)) @ ?s # ?shp" using shape by (metis tl_append2)
    with ne show ?thesis by (simp add: elem_offset_def True ss_def p'_def)
  next
    case False
    with shape show ?thesis by (simp add: elem_offset_def ss_def p'_def)
  qed
  let ?B = "var_begin v + (if IS_RECVAR v then hd p * recsize ncp else 0)"
  have "map (\<lambda>q. elem_offset ncp v (p @ q)) (rect (drop j start) (drop j edges)) =
      map (\<lambda>l. ?B + l * var_xsz v) (map (\<lambda>q. lin (ss @ ?s # ?shp) (p' @ q)) (rect (drop j start) (drop j edges)))"
    by (simp only: off map_map comp_def)
  also have "\<dots> = map (\<lambda>k. elem_offset ncp v (p @ drop j start) + k * var_xsz v) [0..prod_list (drop j edges) - 1]"
    unfolding off cnt unfolding sp(1,2) block_lin [OF lp sp(3) e]
    by (simp add: algebra_simps)
  finally show ?thesis .
qed

subsection \<open>Pieces in the file\<close>

definition elem_at :: "int \<Rightarrow> 'a nc3_hdr_scheme \<Rightarrow> NC_var \<Rightarrow> string \<Rightarrow> int list \<Rightarrow> int" where
  "elem_at ext ncp v b coord = ext_value ext (take (type_bytes ext) (drop (nat (elem_offset ncp v coord)) b))"

text \<open>What the layout of the file gives: the values asked for are inside it, and a lone record variable has its records unpadded.\<close>

definition data_ok :: "nc3_info \<Rightarrow> NC_var \<Rightarrow> int \<Rightarrow> nat \<Rightarrow> int list \<Rightarrow> int list \<Rightarrow> bool" where
  "data_ok ncp v ext len start edges \<longleftrightarrow> var_shaped v \<and> var_ndims v \<le> 1024 \<and> 0 \<le> var_begin v \<and> 0 \<le> recsize ncp \<and>
     0 < chunk ncp \<and> 8 dvd chunk ncp \<and> type_bytes ext = type_bytes (var_type v) \<and> slab_in ncp v start edges \<and> slab_ok start edges \<and>
     (\<forall>c \<in> set (rect start edges). elem_offset ncp v c + int (type_bytes ext) \<le> int len) \<and> int len \<le> OFF_T_MAX \<and>
     suffix_product (var_shape v) \<le> OFF_T_MAX \<and> (IS_RECVAR v \<and> var_ndims v = 1 \<and> recsize ncp \<le> u64 (var_len v) \<longrightarrow> recsize ncp = var_xsz v)"

lemma rect_split: "length start = length edges \<Longrightarrow>
    rect start edges = concat (map (\<lambda>p. map ((@) p) (rect (drop j start) (drop j edges))) (rect (take j start) (take j edges)))"
  using rect_append [of "take j start" "take j edges" "drop j start" "drop j edges"] by simp

lemma upto_int: "[0..int n - 1] = map int [0..<n]"
  by (rule nth_equalityI) (simp_all add: nth_upto)

lemma elem_offset_nonneg:
  assumes "0 \<le> var_begin v" "0 \<le> recsize ncp" "0 \<le> var_xsz v" "\<forall>c \<in> set coord. 0 \<le> c" "IS_RECVAR v \<longrightarrow> coord \<noteq> []"
  shows "0 \<le> elem_offset ncp v coord"
proof -
  have "0 \<le> lin (var_shape v) coord" "0 \<le> lin (tl (var_shape v)) (tl coord)" using assms(4) by (intro lin_nonneg; cases coord; auto)+
  moreover have "IS_RECVAR v \<longrightarrow> 0 \<le> hd coord" using assms(4,5) by (cases coord) auto
  ultimately show ?thesis using assms(1-3) by (simp add: elem_offset_def)
qed

lemma rect_nonneg: "slab_in ncp v start edges \<Longrightarrow> c \<in> set (rect start edges) \<Longrightarrow> (\<forall>i \<in> set c. 0 \<le> i) \<and> length c = var_ndims v"
  using rect_mem [of start edges c] by (fastforce simp: slab_in_def in_set_conv_nth)

lemma type_bytes_dvd: "int (type_bytes t) dvd 8"
  using type_bytes_cases [of t] by auto

text \<open>A piece: the elements \<open>cs\<close>, one behind the other from \<open>c\<close> on.\<close>

definition piece :: "nc3_info \<Rightarrow> NC_var \<Rightarrow> int list \<Rightarrow> int list \<Rightarrow> int list \<Rightarrow> int list list \<Rightarrow> bool" where
  "piece ncp v start edges c cs \<longleftrightarrow> length c = var_ndims v \<and> (\<forall>i \<in> set c. 0 \<le> i) \<and> cs \<noteq> [] \<and> set cs \<subseteq> set (rect start edges) \<and>
     map (elem_offset ncp v) cs = map (\<lambda>k. elem_offset ncp v c + k * var_xsz v) [0..int (length cs) - 1]"

lemma piece_place:
  assumes d: "data_ok ncp v ext len start edges" and p: "piece ncp v start edges c cs"
  shows "NC_varoffset ncp v c = Done (elem_offset ncp v c)" "0 \<le> elem_offset ncp v c" "elem_offset ncp v c + int (length cs * type_bytes ext) \<le> int len"
proof -
  have v: "var_shaped v" and b: "0 \<le> var_begin v" "0 \<le> recsize ncp" and sz: "var_xsz v = int (type_bytes ext)"
    and inside: "\<forall>c \<in> set (rect start edges). elem_offset ncp v c + int (type_bytes ext) \<le> int len" "int len \<le> OFF_T_MAX"
    using d by (auto simp: data_ok_def var_shaped_def)
  have c: "length c = var_ndims v" "\<forall>i \<in> set c. 0 \<le> i" and ne: "0 < length cs" and sub: "set cs \<subseteq> set (rect start edges)"
    and offs: "map (elem_offset ncp v) cs = map (\<lambda>k. elem_offset ncp v c + k * var_xsz v) [0..int (length cs) - 1]"
    using p by (auto simp: piece_def)
  let ?n = "length cs" and ?o = "elem_offset ncp v c"
  obtain m where m: "length cs = Suc m" using ne by (cases "length cs") auto
  have "map (elem_offset ncp v) cs ! m = ?o + int m * var_xsz v"
    unfolding offs upto_int using m by (simp del: upt_Suc)
  then have "elem_offset ncp v (cs ! m) = ?o + int m * var_xsz v" using m by simp
  moreover have "cs ! m \<in> set (rect start edges)" using m sub by auto
  moreover have "int m * var_xsz v + int (type_bytes ext) = int (?n * type_bytes ext)"
    using m sz by (simp add: algebra_simps)
  ultimately show last: "?o + int (?n * type_bytes ext) \<le> int len" using inside(1) by fastforce
  have "IS_RECVAR v \<longrightarrow> c \<noteq> []" using c(1) v by (auto simp: var_shaped_def IS_RECVAR_def)
  then show "0 \<le> ?o" using b sz c by (intro elem_offset_nonneg) simp_all
  have "?o \<le> OFF_T_MAX" using last inside(2) by linarith
  with c b show "NC_varoffset ncp v c = Done ?o" by (intro NC_varoffset_elem [OF v]) simp_all
qed

lemma piece_values:
  assumes d: "data_ok ncp v ext len start edges" and p: "piece ncp v start edges c cs"
  shows "ext_values ext (length cs) (drop (nat (elem_offset ncp v c)) b) = map (elem_at ext ncp v b) cs"
proof -
  have sz: "var_xsz v = int (type_bytes ext)" using d by (auto simp: data_ok_def var_shaped_def)
  let ?o = "elem_offset ncp v c" and ?F = "\<lambda>x. ext_value ext (take (type_bytes ext) (drop (nat x) b))"
  have "map (elem_at ext ncp v b) cs = map ?F (map (elem_offset ncp v) cs)" by (simp add: elem_at_def)
  also have "\<dots> = map (\<lambda>i. ?F (?o + int i * var_xsz v)) [0..<length cs]"
    using p unfolding piece_def upto_int by simp
  also have "\<dots> = ext_values ext (length cs) (drop (nat ?o) b)"
  proof (unfold ext_values_def, rule map_cong [OF refl])
    fix i
    have "nat (?o + int i * var_xsz v) = nat ?o + i * type_bytes ext"
      using nat_plus_int [OF piece_place(2) [OF d p], of "i * type_bytes ext"] sz by simp
    then show "?F (?o + int i * var_xsz v) = ext_value ext (take (type_bytes ext) (drop (i * type_bytes ext) (drop (nat ?o) b)))"
      by (simp add: add.commute)
  qed
  finally show ?thesis by simp
qed

text \<open>The pieces of \<open>NCiocount\<close>; the records of a lone one-dimensional record variable.\<close>

lemma block_piece:
  assumes d: "data_ok ncp v ext len start edges" and f: "full_right v edges j" and j: "j \<le> var_ndims v"
    and p: "p \<in> set (rect (take j start) (take j edges))" and n: "prod_list (drop j edges) = int n" "0 < n"
  shows "piece ncp v start edges (p @ drop j start) (map ((@) p) (rect (drop j start) (drop j edges)))"
    "length (rect (drop j start) (drop j edges)) = n"
proof -
  have v: "var_shaped v" and r: "slab_in ncp v start edges" and len: "length start = length edges" "length start = var_ndims v"
    using d by (auto simp: data_ok_def slab_in_def)
  have lp: "length p = j" using rect_mem_length [of "take j start" "take j edges" p] p len j by simp
  have offs: "map (\<lambda>q. elem_offset ncp v (p @ q)) (rect (drop j start) (drop j edges)) = map (\<lambda>k. elem_offset ncp v (p @ drop j start) + k * var_xsz v) [0..int n - 1]"
    using block_offsets [OF v r f j lp] n(1) by simp
  then have "length (map (\<lambda>q. elem_offset ncp v (p @ q)) (rect (drop j start) (drop j edges))) = length [0..int n - 1]" by (simp only: length_map)
  then show cnt: "length (rect (drop j start) (drop j edges)) = n" by simp
  have sub: "set (map ((@) p) (rect (drop j start) (drop j edges))) \<subseteq> set (rect start edges)"
    using p unfolding rect_split [OF len(1), of j] by auto
  obtain q where q: "q \<in> set (rect (drop j start) (drop j edges))" using cnt n(2) by (cases "rect (drop j start) (drop j edges)") auto
  with sub have "p @ q \<in> set (rect start edges)" by auto
  from rect_nonneg [OF r this] have "\<forall>i \<in> set p. 0 \<le> i" by simp
  moreover have "\<forall>i \<in> set start. 0 \<le> i" using r by (auto simp: slab_in_def in_set_conv_nth)
  ultimately have "\<forall>i \<in> set (p @ drop j start). 0 \<le> i" by (auto dest: in_set_dropD)
  with offs sub cnt n(2) lp len j show "piece ncp v start edges (p @ drop j start) (map ((@) p) (rect (drop j start) (drop j edges)))"
    by (auto simp: piece_def comp_def)
qed

lemma lone_piece:
  assumes d: "data_ok ncp v ext len start edges" and l: "IS_RECVAR v" "var_ndims v = 1" "recsize ncp \<le> u64 (var_len v)" and e: "0 < hd edges"
  shows "piece ncp v start edges start (rect start edges)" "length (rect start edges) = nat (hd edges)"
proof -
  have r: "slab_in ncp v start edges" and rs: "recsize ncp = var_xsz v" using d l by (auto simp: data_ok_def)
  then obtain s n where sn: "start = [s]" "edges = [n]" using l(2) unfolding slab_in_def by (metis One_nat_def length_0_conv length_Suc_conv)
  show cnt: "length (rect start edges) = nat (hd edges)" by (simp add: sn length_rect max_def)
  have "[s..s + n - 1] = map (\<lambda>k. s + k) [0..n - 1]" using map_upto_shift [of "\<lambda>i. i" s "s + n - 1"] by (simp add: add.commute)
  then have "map (elem_offset ncp v) (rect start edges) = map (\<lambda>k. elem_offset ncp v start + k * var_xsz v) [0..n - 1]"
    using l(1) rs by (simp add: sn map_concat comp_def elem_offset_def algebra_simps)
  with cnt e r l(2) show "piece ncp v start edges start (rect start edges)" by (auto simp: piece_def sn slab_in_def)
qed

end
