(* ===== verification/NC3_Access.thy ===== *)
theory NC3_Access
  imports NC3_Vara
begin

lemma suffix_product_drop_le: "suffix_product (drop j shp) \<le> suffix_product shp"
proof (induction j arbitrary: shp)
  case (Suc j)
  then show ?case using suffix_product_tl_le order_trans by (cases shp) (simp, simp, blast)
qed simp

lemma block_count_le:
  assumes d: "data_ok ncp v ext len start edges" and f: "full_right v edges j" and j: "j \<le> var_ndims v"
  shows "prod_list (drop j edges) \<le> suffix_product (var_shape v)"
proof (cases "j = var_ndims v")
  case True
  with d suffix_product_ge [of "var_shape v"] show ?thesis by (simp add: data_ok_def slab_in_def)
next
  case False
  with j have j: "j < var_ndims v" by simp
  have v: "var_shaped v" and r: "slab_in ncp v start edges" using d by (auto simp: data_ok_def)
  note sp = block_split [OF v r f j]
  have pos: "0 < var_shape v ! j" if "\<not> (j = 0 \<and> IS_RECVAR v)" using shape_pos [OF v j] that by linarith
  have notrec: "\<not> (j = 0 \<and> IS_RECVAR v)" using f by (auto simp: full_right_def)
  have "0 \<le> start ! j \<and> start ! j + edges ! j \<le> (if j = 0 \<and> IS_RECVAR v then numrecs ncp else var_shape v ! j)"
    using r j by (simp add: slab_in_def)
  with notrec have "edges ! j \<le> var_shape v ! j" by auto
  then have "edges ! j * suffix_product (drop (Suc j) (var_shape v)) \<le> var_shape v ! j * suffix_product (drop (Suc j) (var_shape v))"
    using suffix_product_ge [of "drop (Suc j) (var_shape v)"] by (intro mult_right_mono) simp_all
  also have "\<dots> = suffix_product (drop j (var_shape v))"
    using pos [OF notrec] j v by (simp add: Cons_nth_drop_Suc [symmetric] suffix_product_Cons var_shaped_def max_def)
  also have "\<dots> \<le> suffix_product (var_shape v)" by (rule suffix_product_drop_le)
  finally show ?thesis using sp(2,3) by (simp add: suffix_product_pos)
qed

lemma NCiocount_ok:
  assumes d: "data_ok ncp v ext len start edges" and n: "0 < var_ndims v" and sp: "\<not> (IS_RECVAR v \<and> var_ndims v = 1 \<and> recsize ncp \<le> u64 (var_len v))"
  obtains j z where "j \<le> var_ndims v" "full_right v edges j" "z \<longleftrightarrow> (\<exists>k<var_ndims v. (IS_RECVAR v \<longrightarrow> 1 \<le> k) \<and> edges ! k = 0)"
    "NCiocount ncp v edges = Done (int j - 1, if z then 0 else prod_list (drop j edges))"
proof -
  have v: "var_shaped v" and r: "slab_in ncp v start edges" and b: "suffix_product (var_shape v) \<le> OFF_T_MAX" using d by (auto simp: data_ok_def)
  have len: "length (var_shape v) = var_ndims v" "length edges = var_ndims v" using v r by (auto simp: var_shaped_def slab_in_def)
  let ?n = "var_ndims v" and ?j0 = "if IS_RECVAR v then 1 else 0 :: nat"
  have inner: "\<forall>k<?n. ?j0 \<le> k \<longrightarrow> edges ! k \<le> var_shape v ! k \<and> 0 < var_shape v ! k"
    using r shape_pos [OF v] by (fastforce simp: slab_in_def split: if_splits)
  have "?j0 \<le> ?n" using n by simp
  then obtain j z where jz: "iocount_find (var_shape v) edges ?j0 ?n = Done (j, z)" "?j0 \<le> j" "j \<le> ?n" "\<forall>k<?n. j < k \<longrightarrow> edges ! k = var_shape v ! k"
      "z \<longleftrightarrow> (\<exists>k. ?j0 \<le> k \<and> k < ?n \<and> edges ! k = 0)"
    using iocount_find_ok [OF inner, of ?n] len(2) by auto
  have f: "full_right v edges j" using jz(2,4) by (auto simp: full_right_def split: if_splits)
  have "NCiocount ncp v edges = Done (int j - 1, if z then 0 else prod_list (drop j edges))"
  proof (cases z)
    case True
    have "\<not> (IS_RECVAR v \<and> ?n = Suc 0 \<and> recsize ncp \<le> u64 (var_len v))" using sp by simp
    with True jz(1) len show ?thesis by (auto simp: NCiocount_def Let_def)
  next
    case False
    have pos: "\<forall>e \<in> set (drop j edges). 0 < e"
    proof
      fix e assume "e \<in> set (drop j edges)"
      then obtain i where i: "i < ?n - j" "e = edges ! (j + i)" using len(2) by (auto simp: in_set_conv_nth)
      then have "edges ! (j + i) \<noteq> 0" "0 \<le> edges ! (j + i)" using False jz(2,5) r by (auto simp: slab_in_def)
      with i show "0 < e" by simp
    qed
    have "prod_list (drop j edges) < 18446744073709551616" using block_count_le [OF d f jz(3)] b by linarith
    then have "foldl (\<lambda>c e. u64 (c * e)) 1 (drop j edges) = prod_list (drop j edges)"
      using foldl_u64_prod [OF pos, of 1] by simp
    moreover have "?n \<le> j + 1 \<or> edges ! (j + 1) = var_shape v ! (j + 1)" using jz(4) by (cases "j + 1 < ?n") auto
    moreover have "\<not> (IS_RECVAR v \<and> ?n = Suc 0 \<and> recsize ncp \<le> u64 (var_len v))" using sp by simp
    ultimately show ?thesis using jz(1) len False by (auto simp: NCiocount_def Let_def)
  qed
  moreover have "z \<longleftrightarrow> (\<exists>k<?n. (IS_RECVAR v \<longrightarrow> 1 \<le> k) \<and> edges ! k = 0)" using jz(5) by auto
  ultimately show ?thesis using that jz(3) f by blast
qed

text \<open>An empty dimension makes the rectangle empty.\<close>

lemma rect_empty: "length start = length edges \<Longrightarrow> k < length edges \<Longrightarrow> edges ! k = 0 \<Longrightarrow> rect start edges = []"
  using length_rect [of start edges] by (metis length_0_conv list.size(3) nat_0_iff prod_list_zero_iff in_set_conv_nth length_map max.idem nth_map order_refl)

lemma recvar_ndims: "var_shaped v \<Longrightarrow> IS_RECVAR v \<Longrightarrow> 0 < var_ndims v"
  by (metis IS_RECVAR_def length_greater_0_conv var_shaped_def)

lemma slab_records:
  assumes d: "data_ok ncp v ext len start edges" and v: "IS_RECVAR v"
  shows "u64 (hd start + hd edges) \<le> numrecs ncp"
proof -
  have n: "0 < var_ndims v" using d v by (simp add: data_ok_def recvar_ndims)
  have r: "slab_in ncp v start edges" and so: "slab_ok start edges" and len: "length start = var_ndims v" "length edges = var_ndims v"
    using d by (auto simp: data_ok_def slab_in_def)
  have h: "hd start = start ! 0" "hd edges = edges ! 0" using len n by (metis hd_conv_nth length_0_conv less_irrefl)+
  have "0 \<le> start ! 0" "0 \<le> edges ! 0" "start ! 0 + edges ! 0 < 18446744073709551615" using so n len by (auto simp: slab_ok_def)
  then have "u64 (hd start + hd edges) = start ! 0 + edges ! 0" unfolding h by (intro u64_id) linarith+
  moreover have "start ! 0 + edges ! 0 \<le> numrecs ncp" using r v n by (auto simp: slab_in_def)
  ultimately show ?thesis by simp
qed

text \<open>
  What the pieces are: their first coordinates \<open>cs\<close>, and for each the elements it is made of. Together, in this order, they are the
  rectangle; or the rectangle is empty and so are the pieces.
\<close>

definition piece_starts :: "int list \<Rightarrow> int list \<Rightarrow> nat \<Rightarrow> int list list" where
  "piece_starts start edges j = (if j = 0 then [start] else visits start edges (j - 1))"

lemma piece_starts_length: "length edges = length start \<Longrightarrow> c \<in> set (piece_starts start edges j) \<Longrightarrow> length c = length start"
  by (auto simp: piece_starts_def visits_def split: if_splits)

lemma piece_starts_rect:
  assumes d: "data_ok ncp v ext len start edges" and j: "j \<le> var_ndims v" "0 < var_ndims v"
    and pos: "\<And>k. k < var_ndims v \<Longrightarrow> 0 < k \<Longrightarrow> 0 < edges ! k"
  shows "piece_starts start edges j = map (\<lambda>p. p @ drop j start) (rect (take j start) (take j edges))"
proof (cases "j = 0")
  case False
  have r: "slab_in ncp v start edges" and len: "length start = var_ndims v" "length edges = var_ndims v" using d by (auto simp: data_ok_def slab_in_def)
  have "map (\<lambda>r. coord_at start edges (j - 1) r start) [0..steps edges (j - 1) - 1] =
      map (\<lambda>p. p @ drop (Suc (j - 1)) start) (rect (take (Suc (j - 1)) start) (take (Suc (j - 1)) edges))"
    using False j len r pos by (intro coords_rect) (auto simp: slab_in_def)
  with False show ?thesis by (simp add: piece_starts_def visits_def)
qed (simp add: piece_starts_def)

lemma slab_plan:
  assumes d: "data_ok ncp v ext len start edges" and n: "0 < var_ndims v" and sp: "\<not> (IS_RECVAR v \<and> var_ndims v = 1 \<and> recsize ncp \<le> u64 (var_len v))"
  obtains j iocount B where "j \<le> var_ndims v" "NCiocount ncp v edges = Done (int j - 1, iocount)" "0 \<le> iocount"
    "iocount = 0 \<and> rect start edges = [] \<or>
     (\<forall>c \<in> set (piece_starts start edges j). piece ncp v start edges c (B c) \<and> int (length (B c)) = iocount) \<and>
     concat (map B (piece_starts start edges j)) = rect start edges"
proof -
  have r: "slab_in ncp v start edges" and len: "length start = var_ndims v" "length edges = var_ndims v" using d by (auto simp: data_ok_def slab_in_def)
  obtain j z where j: "j \<le> var_ndims v" "full_right v edges j" and z: "z \<longleftrightarrow> (\<exists>k<var_ndims v. (IS_RECVAR v \<longrightarrow> 1 \<le> k) \<and> edges ! k = 0)"
    and ioc: "NCiocount ncp v edges = Done (int j - 1, if z then 0 else prod_list (drop j edges))"
    using NCiocount_ok [OF d n sp] by blast
  show ?thesis
  proof (cases z)
    case True
    then obtain k where "k < var_ndims v" "edges ! k = 0" using z by blast
    then have "rect start edges = []" using len by (intro rect_empty [of _ _ k]) simp_all
    with True ioc j(1) show ?thesis by (intro that [of j 0]) simp_all
  next
    case False
    have pos: "0 < edges ! k" if "k < var_ndims v" "IS_RECVAR v \<longrightarrow> 1 \<le> k" for k
      using False z that r by (metis (no_types, lifting) less_le slab_in_def)
    have "\<forall>e \<in> set (drop j edges). 0 < e"
    proof
      fix e assume "e \<in> set (drop j edges)"
      then obtain i where i: "i < var_ndims v - j" "e = edges ! (j + i)" using len by (auto simp: in_set_conv_nth)
      with pos [of "j + i"] j(2) show "0 < e" by (auto simp: full_right_def)
    qed
    then have "0 < prod_list (drop j edges)" by (metis suffix_product_ge suffix_product_pos zero_less_one order_less_le_trans)
    then obtain m where m: "prod_list (drop j edges) = int m" "0 < m" by (metis zero_less_imp_eq_int)
    let ?B = "\<lambda>c. map ((@) (take j c)) (rect (drop j start) (drop j edges))"
    have st: "piece_starts start edges j = map (\<lambda>p. p @ drop j start) (rect (take j start) (take j edges))"
      using pos by (intro piece_starts_rect [OF d j(1) n]) simp
    have lp: "length p = j" if "p \<in> set (rect (take j start) (take j edges))" for p
      using rect_mem_length [of "take j start" "take j edges" p] that len j(1) by simp
    have "\<forall>c \<in> set (piece_starts start edges j). piece ncp v start edges c (?B c) \<and> int (length (?B c)) = int m"
    proof
      fix c assume "c \<in> set (piece_starts start edges j)"
      then obtain p where p: "p \<in> set (rect (take j start) (take j edges))" "c = p @ drop j start" unfolding st set_map by blast
      have "take j c = p" unfolding p(2) using lp [OF p(1)] by simp
      with block_piece [OF d j(2,1) p(1) m] p(2) show "piece ncp v start edges c (?B c) \<and> int (length (?B c)) = int m" by simp
    qed
    moreover have "concat (map ?B (piece_starts start edges j)) = rect start edges"
    proof -
      have "map ?B (piece_starts start edges j) = map (\<lambda>p. map ((@) p) (rect (drop j start) (drop j edges))) (rect (take j start) (take j edges))"
        unfolding st map_map comp_def
      proof (rule map_cong [OF refl])
        fix p assume "p \<in> set (rect (take j start) (take j edges))"
        from lp [OF this] show "?B (p @ drop j start) = map ((@) p) (rect (drop j start) (drop j edges))" by simp
      qed
      with rect_split [of start edges j] len show ?thesis by simp
    qed
    ultimately show ?thesis using False ioc j(1) m(1) by (intro that [of j "int m" ?B]) simp_all
  qed
qed

subsection \<open>Reading\<close>

definition mem_type :: "int \<Rightarrow> int \<Rightarrow> int" where
  "mem_type ext memtype = (if ext = NC_CHAR then NC_CHAR else memtype)"

lemma NC_varoffset_returns: "var_shaped v \<Longrightarrow> var_ndims v \<le> length c \<Longrightarrow> \<exists>off. NC_varoffset ncp v c = Done off"
  by (auto simp: NC_varoffset_def var_shaped_def Let_def)

context ncio_client
begin

lemma read_piece:
  assumes d: "data_ok ncp v ext (length (bytes s)) start edges" and c: "case_ext (flags ncp) (var_type v) memtype = Some ext"
    and p: "piece ncp v start edges c cs" and s: "ok s"
  shows "\<exists>s'. readNCv ub io ncp v c (int (length cs)) memtype s =
    Done (fst (getn_values ub ext (mem_type ext memtype) (map (elem_at ext ncp v (bytes s)) cs)),
      snd (getn_values ub ext (mem_type ext memtype) (map (elem_at ext ncp v (bytes s)) cs)), s') \<and> ok s' \<and> bytes s' = bytes s"
proof -
  note pl = piece_place [OF d p]
  have k: "0 < chunk ncp" "int (type_bytes ext) dvd chunk ncp" "type_bytes (var_type v) = type_bytes ext" "NC_BYTE \<le> var_type v" "var_type v \<le> NC_UINT64"
      "var_xsz v = int (type_bytes ext)" "int (length (bytes s)) \<le> OFF_T_MAX"
    using d dvd_trans [OF type_bytes_dvd, of "chunk ncp" ext] by (auto simp: data_ok_def var_shaped_def)
  have "elem_offset ncp v c + int (length cs * type_bytes ext) \<le> OFF_T_MAX" "nat (elem_offset ncp v c) + length cs * type_bytes ext \<le> length (bytes s)"
    using pl(2,3) k(7) by linarith+
  from getNCvx_ok [OF k(1-6) pl(1,2) this(1) s this(2)] piece_values [OF d p]
  show ?thesis by (simp add: readNCv_def c mem_type_def)
qed

text \<open>A piece of no values: nothing is read.\<close>

lemma read_none:
  assumes "var_shaped v" "var_ndims v \<le> length c" "case_ext (flags ncp) (var_type v) memtype = Some ext"
  shows "readNCv ub io ncp v c 0 memtype s = Done (NC_NOERR, [], s)"
  using NC_varoffset_returns [OF assms(1,2), of ncp] assms(3) by (auto simp: readNCv_def getNCvx_def)

lemma read_all_none:
  "\<forall>c \<in> set cs. \<forall>s. rd c s = Done (NC_NOERR, [], s) \<Longrightarrow> read_all rd cs status s = Done (status, [], s)"
  by (induction cs arbitrary: status) auto

lemma read_all_values:
  assumes "\<forall>c \<in> set cs. \<forall>s. ok s \<and> bytes s = b \<longrightarrow>
    (\<exists>s'. rd c s = Done (fst (getn_values ub ext mem (f c)), snd (getn_values ub ext mem (f c)), s') \<and> ok s' \<and> bytes s' = b)"
  shows "ok s \<Longrightarrow> bytes s = b \<Longrightarrow> \<exists>s'. read_all rd cs status s =
    Done (if status = NC_NOERR then fst (getn_values ub ext mem (concat (map f cs))) else status, snd (getn_values ub ext mem (concat (map f cs))), s') \<and>
    ok s' \<and> bytes s' = b"
  using assms
proof (induction cs arbitrary: status s)
  case Nil
  then show ?case by (simp add: getn_values_def range_status_def)
next
  case (Cons c cs)
  obtain st vs where g: "getn_values ub ext mem (f c) = (st, vs)" by fastforce
  have st: "st \<in> {NC_NOERR, NC_ERANGE}" using g range_status_in by (auto simp: getn_values_def)
  from Cons.prems g obtain s1 where s1: "rd c s = Done (st, vs, s1)" "ok s1" "bytes s1 = b" by fastforce
  from Cons.IH [OF s1(2,3), of "if status = NC_NOERR then st else status"] Cons.prems(3)
  obtain s2 where "read_all rd cs (if status = NC_NOERR then st else status) s1 =
      Done (if (if status = NC_NOERR then st else status) = NC_NOERR then fst (getn_values ub ext mem (concat (map f cs))) else (if status = NC_NOERR then st else status),
        snd (getn_values ub ext mem (concat (map f cs))), s2)" "ok s2" "bytes s2 = b" by auto
  then show ?case using s1(1) st g by (auto simp: getn_values_append split: prod.split)
qed

lemma read_all_single: "read_all rd [c] NC_NOERR s = rd c s"
  by (cases "rd c s") auto

lemma get_slab_pieces:
  assumes d: "data_ok ncp v ext len start edges" and n: "0 < var_ndims v" and sp: "\<not> (IS_RECVAR v \<and> var_ndims v = 1 \<and> recsize ncp \<le> u64 (var_len v))"
    and j: "j \<le> var_ndims v" "NCiocount ncp v edges = Done (int j - 1, iocount)"
  shows "get_slab ub io ncp v start edges memtype s = read_all (\<lambda>coord. readNCv ub io ncp v coord iocount memtype) (piece_starts start edges j) NC_NOERR s"
proof -
  have len: "length start = var_ndims v" "length edges = var_ndims v" and so: "slab_ok start edges" and le: "var_ndims v \<le> 1024"
    using d by (auto simp: data_ok_def slab_in_def)
  have rec: "\<not> (IS_RECVAR v \<and> numrecs ncp < u64 (hd start + hd edges))" using slab_records [OF d] by auto
  show ?thesis
  proof (cases "j = 0")
    case True
    with n sp rec j(2) show ?thesis by (auto simp: get_slab_def piece_starts_def read_all_single simp del: read_all.simps)
  next
    case False
    then have i: "nat (int j - 1) = j - 1" "int j - 1 \<noteq> -1" by linarith+
    have "loop_ok start edges (j - 1)" using so j(1) False len le by (simp add: loop_ok_def)
    from get_rows_all [OF this, where status = NC_NOERR and s = s] len n sp rec j(2) i False show ?thesis by (auto simp: get_slab_def piece_starts_def simp del: read_all.simps)
  qed
qed

lemma get_slab_ok:
  assumes d: "data_ok ncp v ext (length (bytes s)) start edges" and c: "case_ext (flags ncp) (var_type v) memtype = Some ext" and s: "ok s"
  shows "\<exists>s'. get_slab ub io ncp v start edges memtype s =
    Done (fst (getn_values ub ext (mem_type ext memtype) (map (elem_at ext ncp v (bytes s)) (rect start edges))),
      snd (getn_values ub ext (mem_type ext memtype) (map (elem_at ext ncp v (bytes s)) (rect start edges))), s') \<and> ok s' \<and> bytes s' = bytes s"
proof -
  let ?n = "var_ndims v" and ?lone = "IS_RECVAR v \<and> var_ndims v = 1 \<and> recsize ncp \<le> u64 (var_len v)"
  have v: "var_shaped v" and r: "slab_in ncp v start edges" and len: "length start = ?n" "length edges = ?n" using d by (auto simp: data_ok_def slab_in_def)
  have G0: "getn_values ub ext (mem_type ext memtype) [] = (NC_NOERR, [])" by (simp add: getn_values_def range_status_def)
  consider "?n = 0" | "0 < ?n" "?lone" "0 < hd edges" | "0 < ?n" "?lone" "\<not> 0 < hd edges" | "0 < ?n" "\<not> ?lone" by blast
  then show ?thesis
  proof cases
    case 1
    with len have z: "start = []" "edges = []" by simp_all
    have "full_right v edges 0" using 1 v by (auto simp: full_right_def IS_RECVAR_def var_shaped_def)
    from block_piece [OF d this, of "[]" 1] have "piece ncp v start edges [] [[]]" by (simp add: z)
    from read_piece [OF d c this s, of ub] 1 show ?thesis by (simp add: get_slab_def z)
  next
    case 2
    have "piece ncp v start edges start (rect start edges)" "length (rect start edges) = nat (hd edges)" using lone_piece [OF d _ _ _ 2(3)] 2(2) by blast+
    with read_piece [OF d c _ s, of start "rect start edges" ub] 2 slab_records [OF d] show ?thesis by (auto simp: get_slab_def)
  next
    case 3
    obtain e where e: "edges = [e]" using len 3(2) by (metis One_nat_def length_0_conv length_Suc_conv)
    then have e0: "e = 0" using 3(3) r 3(2) by (auto simp: slab_in_def)
    then have "rect start edges = []" using len e by (intro rect_empty [of _ _ 0]) simp_all
    with 3 slab_records [OF d] e e0 read_none [OF v _ c] len G0 s show ?thesis by (auto simp: get_slab_def)
  next
    case 4
    obtain j iocount B where j: "j \<le> ?n" "NCiocount ncp v edges = Done (int j - 1, iocount)" and "0 \<le> iocount"
      and p: "iocount = 0 \<and> rect start edges = [] \<or> (\<forall>c \<in> set (piece_starts start edges j). piece ncp v start edges c (B c) \<and> int (length (B c)) = iocount) \<and>
         concat (map B (piece_starts start edges j)) = rect start edges"
      by (rule slab_plan [OF d 4])
    note slab = get_slab_pieces [OF d 4 j, where ub = ub and memtype = memtype and s = s]
    from p show ?thesis
    proof
      assume z: "iocount = 0 \<and> rect start edges = []"
      have "\<forall>c \<in> set (piece_starts start edges j). \<forall>s. readNCv ub io ncp v c 0 memtype s = Done (NC_NOERR, [], s)"
        using read_none [OF v _ c] piece_starts_length [of edges start] len by simp
      from read_all_none [OF this] z G0 s show ?thesis unfolding slab by simp
    next
      assume B: "(\<forall>c \<in> set (piece_starts start edges j). piece ncp v start edges c (B c) \<and> int (length (B c)) = iocount) \<and>
         concat (map B (piece_starts start edges j)) = rect start edges"
      have "\<forall>c \<in> set (piece_starts start edges j). \<forall>s1. ok s1 \<and> bytes s1 = bytes s \<longrightarrow> (\<exists>s'. readNCv ub io ncp v c iocount memtype s1 =
          Done (fst (getn_values ub ext (mem_type ext memtype) (map (elem_at ext ncp v (bytes s)) (B c))),
            snd (getn_values ub ext (mem_type ext memtype) (map (elem_at ext ncp v (bytes s)) (B c))), s') \<and> ok s' \<and> bytes s' = bytes s)"
      proof (intro ballI allI impI)
        fix c' s1 assume c': "c' \<in> set (piece_starts start edges j)" and s1: "ok s1 \<and> bytes s1 = bytes s"
        then have "piece ncp v start edges c' (B c')" "iocount = int (length (B c'))" using B by auto
        with read_piece [of v ext s1 start edges memtype c' "B c'" ub] d c s1
        show "\<exists>s'. readNCv ub io ncp v c' iocount memtype s1 = Done (fst (getn_values ub ext (mem_type ext memtype) (map (elem_at ext ncp v (bytes s)) (B c'))),
            snd (getn_values ub ext (mem_type ext memtype) (map (elem_at ext ncp v (bytes s)) (B c'))), s') \<and> ok s' \<and> bytes s' = bytes s" by simp
      qed
      moreover have "concat (map (\<lambda>c. map (elem_at ext ncp v (bytes s)) (B c)) (piece_starts start edges j)) = map (elem_at ext ncp v (bytes s)) (rect start edges)"
        using arg_cong [OF conjunct2 [OF B], of "map (elem_at ext ncp v (bytes s))"] by (simp add: map_concat comp_def)
      ultimately show ?thesis unfolding slab using read_all_values [OF _ s refl, where status = NC_NOERR and cs = "piece_starts start edges j"] by fastforce
    qed
  qed
qed

end

end
