(* ===== verification/NC3_Store.thy ===== *)
theory NC3_Store
  imports NC3_Access
begin

text \<open>
  Writing a rectangle: \<open>NC3_put_vara\<close> changes the bytes of its elements, one after the other, and nothing else. Then what
  \<open>NC3_get_vara\<close> reads back.
\<close>

subsection \<open>Writing element by element\<close>

fun write_elems :: "(int \<Rightarrow> string) \<Rightarrow> (int \<times> int) list \<Rightarrow> string \<Rightarrow> string" where
  "write_elems f [] b = b"
| "write_elems f ((off, x) # r) b = write_elems f r (blit b (nat off) (f x))"

lemma zip_take_length: "zip xs (take (length xs) ys) = zip xs ys"
proof (induction xs arbitrary: ys)
  case (Cons x xs)
  then show ?case by (cases ys) simp_all
qed simp

lemma write_elems_append: "write_elems f (xs @ ys) b = write_elems f ys (write_elems f xs b)"
  by (induction xs arbitrary: b) auto

lemma length_write_elems: "\<forall>(off, x) \<in> set zs. nat off + length (f x) \<le> length b \<Longrightarrow> length (write_elems f zs b) = length b"
  by (induction zs arbitrary: b) auto

lemma upto_shift_Cons: "map (\<lambda>k. x + k * d) [0..int (Suc n) - 1] = (x::int) # map (\<lambda>k. x + d + k * d) [0..int n - 1]"
proof -
  have "[0..int (Suc n) - 1] = 0 # [1..int n]" by (simp add: upto_rec1)
  moreover have "[1..int n] = map (\<lambda>k. k + 1) [0..int n - 1]" using map_upto_shift [of "\<lambda>k. k" 1 "int n"] by simp
  ultimately show ?thesis by (simp add: algebra_simps)
qed

lemma write_elems_contiguous:
  "\<forall>x. length (f x) = sz \<Longrightarrow> 0 \<le> off \<Longrightarrow> nat off + length vs * sz \<le> length b \<Longrightarrow>
    write_elems f (zip (map (\<lambda>k. off + k * int sz) [0..int (length vs) - 1]) vs) b = blit b (nat off) (concat (map f vs))"
proof (induction vs arbitrary: off b)
  case (Cons v vs)
  have n: "nat (off + int sz) = nat off + sz" using Cons.prems(2) by (rule nat_plus_int)
  have l: "length (blit b (nat off) (f v)) = length b" using Cons.prems by (intro length_blit) simp
  have "write_elems f (zip (map (\<lambda>k. off + k * int sz) [0..int (length (v # vs)) - 1]) (v # vs)) b =
      write_elems f (zip (map (\<lambda>k. off + int sz + k * int sz) [0..int (length vs) - 1]) vs) (blit b (nat off) (f v))"
    unfolding length_Cons upto_shift_Cons by simp
  also have "\<dots> = blit (blit b (nat off) (f v)) (nat (off + int sz)) (concat (map f vs))"
    using Cons.prems l n by (intro Cons.IH) simp_all
  also have "\<dots> = blit b (nat off) (f v @ concat (map f vs))"
  proof -
    have "length (concat (map f vs)) = length vs * sz" using Cons.prems(1) by (induction vs) simp_all
    then have "nat off + length (f v) + length (concat (map f vs)) \<le> length b" using Cons.prems(1,3) by simp
    from blit_blit [OF this] show ?thesis using n Cons.prems(1) by simp
  qed
  finally show ?case by simp
qed simp

lemma write_bytes_length:
  assumes d: "data_ok ncp v ext (length b) start edges" and sub: "set cs \<subseteq> set (rect start edges)"
  shows "length (write_elems (conv_bytes ub ext mem) (zip (map (elem_offset ncp v) cs) vs) b) = length b"
proof (intro length_write_elems, clarify)
  fix off x assume "(off, x) \<in> set (zip (map (elem_offset ncp v) cs) vs)"
  then have "off \<in> set (map (elem_offset ncp v) cs)" by (rule set_zip_leftD)
  then obtain c where c: "c \<in> set (rect start edges)" "off = elem_offset ncp v c" using sub by auto
  have v: "var_shaped v" and r: "slab_in ncp v start edges" and b: "0 \<le> var_begin v" "0 \<le> recsize ncp" "0 \<le> var_xsz v"
    using d by (auto simp: data_ok_def var_shaped_def)
  from rect_nonneg [OF r c(1)] have cn: "\<forall>i \<in> set c. 0 \<le> i" "length c = var_ndims v" by auto
  have "IS_RECVAR v \<longrightarrow> c \<noteq> []" using recvar_ndims [OF v] cn(2) by auto
  with b cn(1) have "0 \<le> off" unfolding c(2) by (intro elem_offset_nonneg) simp_all
  moreover have "off + int (type_bytes ext) \<le> int (length b)" using d c by (auto simp: data_ok_def)
  ultimately show "nat off + length (conv_bytes ub ext mem x) \<le> length b" by simp
qed

context ncio_client
begin

lemma write_piece:
  assumes d: "data_ok ncp v ext (length (bytes s)) start edges" and c: "case_ext (flags ncp) (var_type v) memtype = Some ext"
    and p: "piece ncp v start edges c cs" and s: "ok s" and vs: "length cs \<le> length vs"
  shows "\<exists>s'. writeNCv ub io ncp v c (int (length cs)) vs memtype s = Done (putn_status ub ext (mem_type ext memtype) (take (length cs) vs), s') \<and> ok s' \<and>
    bytes s' = write_elems (conv_bytes ub ext (mem_type ext memtype)) (zip (map (elem_offset ncp v) cs) (take (length cs) vs)) (bytes s)"
proof -
  note pl = piece_place [OF d p]
  let ?n = "length cs" and ?f = "conv_bytes ub ext (mem_type ext memtype)"
  have k: "0 < chunk ncp" "int (type_bytes ext) dvd chunk ncp" "type_bytes (var_type v) = type_bytes ext" "NC_BYTE \<le> var_type v" "var_type v \<le> NC_UINT64"
      "var_xsz v = int (type_bytes ext)" "int (length (bytes s)) \<le> OFF_T_MAX"
    using d dvd_trans [OF type_bytes_dvd, of "chunk ncp" ext] by (auto simp: data_ok_def var_shaped_def)
  have b: "elem_offset ncp v c + int (?n * type_bytes ext) \<le> OFF_T_MAX" "nat (elem_offset ncp v c) + ?n * type_bytes ext \<le> length (bytes s)"
    using pl(2,3) k(7) by linarith+
  have "zip (map (elem_offset ncp v) cs) (take ?n vs) = zip (map (\<lambda>k. elem_offset ncp v c + k * int (type_bytes ext)) [0..int (length (take ?n vs)) - 1]) (take ?n vs)"
    using p k(6) vs by (simp add: piece_def)
  then have "write_elems ?f (zip (map (elem_offset ncp v) cs) (take ?n vs)) (bytes s) = blit (bytes s) (nat (elem_offset ncp v c)) (concat (map ?f (take ?n vs)))"
    using write_elems_contiguous [of ?f "type_bytes ext" "elem_offset ncp v c" "take ?n vs" "bytes s"] pl(2) b(2) vs by simp
  with putNCvx_ok [OF k(1-6) pl(1,2) b(1) s b(2) vs] show ?thesis by (simp add: writeNCv_def c mem_type_def)
qed

lemma write_none:
  assumes "var_shaped v" "var_ndims v \<le> length c" "case_ext (flags ncp) (var_type v) memtype = Some ext"
  shows "writeNCv ub io ncp v c 0 vs memtype s = Done (NC_NOERR, s)"
  using NC_varoffset_returns [OF assms(1,2), of ncp] assms(3) by (auto simp: writeNCv_def putNCvx_def)

lemma write_all_none:
  "\<forall>c \<in> set cs. \<forall>vs s. wr c vs s = Done (NC_NOERR, s) \<Longrightarrow> write_all wr k cs vs status s = Done (status, s)"
  by (induction cs arbitrary: vs status) auto

lemma write_all_single: "write_all wr k [c] vs NC_NOERR s = wr c vs s"
  by (cases "wr c vs s") auto

lemma write_all_values:
  assumes "\<forall>c \<in> set cs. length (B c) = k \<and> (\<forall>vs s. ok s \<and> length (bytes s) = len \<and> k \<le> length vs \<longrightarrow>
    (\<exists>s'. wr c vs s = Done (putn_status ub ext mem (take k vs), s') \<and> ok s' \<and> length (bytes s') = len \<and>
      bytes s' = write_elems f (zip (map g (B c)) (take k vs)) (bytes s)))"
  shows "ok s \<Longrightarrow> length (bytes s) = len \<Longrightarrow> length cs * k \<le> length vs \<Longrightarrow> \<exists>s'. write_all wr k cs vs status s =
    Done (if status = NC_NOERR then putn_status ub ext mem (take (length cs * k) vs) else status, s') \<and> ok s' \<and> length (bytes s') = len \<and>
    bytes s' = write_elems f (zip (map g (concat (map B cs))) (take (length cs * k) vs)) (bytes s)"
  using assms
proof (induction cs arbitrary: status s vs)
  case Nil
  then show ?case by (simp add: putn_status_def range_status_def)
next
  case (Cons c cs)
  let ?st = "putn_status ub ext mem (take k vs)"
  have st: "?st \<in> {NC_NOERR, NC_ERANGE}" using range_status_in by (simp add: putn_status_def)
  have k: "k \<le> length vs" "length cs * k \<le> length (drop k vs)" using Cons.prems(3) by simp_all
  from Cons.prems(1,2,4) k(1) obtain s1 where s1: "wr c vs s = Done (?st, s1)" "ok s1" "length (bytes s1) = len"
      "bytes s1 = write_elems f (zip (map g (B c)) (take k vs)) (bytes s)" "length (B c) = k" by fastforce
  let ?s2 = "if status = NC_NOERR then ?st else status"
  from Cons.IH [OF s1(2,3) k(2), of ?s2] Cons.prems(4) obtain s2 where s2: "write_all wr k cs (drop k vs) ?s2 s1 =
      Done (if ?s2 = NC_NOERR then putn_status ub ext mem (take (length cs * k) (drop k vs)) else ?s2, s2)" "ok s2" "length (bytes s2) = len"
      "bytes s2 = write_elems f (zip (map g (concat (map B cs))) (take (length cs * k) (drop k vs))) (bytes s1)" by auto
  have split: "take (length (c # cs) * k) vs = take k vs @ take (length cs * k) (drop k vs)"
    using take_add [of k "length cs * k" vs] by simp
  have "zip (map g (concat (map B (c # cs)))) (take (length (c # cs) * k) vs) =
      zip (map g (B c)) (take k vs) @ zip (map g (concat (map B cs))) (take (length cs * k) (drop k vs))"
    unfolding split using s1(5) k(1) by simp
  with s1 s2 st split show ?case by (auto simp: write_elems_append putn_status_append)
qed

lemma put_slab_pieces:
  assumes d: "data_ok ncp v ext len start edges" and n: "0 < var_ndims v" and sp: "\<not> (IS_RECVAR v \<and> var_ndims v = 1 \<and> recsize ncp \<le> u64 (var_len v))"
    and j: "j \<le> var_ndims v" "NCiocount ncp v edges = Done (int j - 1, iocount)"
  shows "put_slab E ub io ncp v start edges vs memtype s =
    run_bind (write_all (\<lambda>coord vs. writeNCv ub io ncp v coord iocount vs memtype) (nat iocount) (piece_starts start edges j) vs NC_NOERR s)
      (\<lambda>(status, s1). Done (status, ncp, s1))"
proof -
  have len: "length start = var_ndims v" "length edges = var_ndims v" and so: "slab_ok start edges" and le: "var_ndims v \<le> 1024"
    using d by (auto simp: data_ok_def slab_in_def)
  have rec: "(if IS_RECVAR v then NCvnrecs E io ncp (u64 (hd start + hd edges)) s else Done (NC_NOERR, ncp, s)) = Done (NC_NOERR, ncp, s)"
    using slab_records [OF d] by (auto simp: NCvnrecs_def)
  show ?thesis
  proof (cases "j = 0")
    case True
    with n sp rec j(2) show ?thesis by (auto simp: put_slab_def piece_starts_def write_all_single simp del: write_all.simps)
  next
    case False
    then have i: "nat (int j - 1) = j - 1" "int j - 1 \<noteq> -1" by linarith+
    have "loop_ok start edges (j - 1)" using so j(1) False len le by (simp add: loop_ok_def)
    from put_rows_all [OF this, where status = NC_NOERR and s = s] len n sp rec j(2) i False
    show ?thesis by (auto simp: put_slab_def piece_starts_def simp del: write_all.simps)
  qed
qed

lemma put_slab_ok:
  assumes d: "data_ok ncp v ext (length (bytes s)) start edges" and c: "case_ext (flags ncp) (var_type v) memtype = Some ext" and s: "ok s"
    and vs: "length (rect start edges) \<le> length vs"
  shows "\<exists>s'. put_slab E ub io ncp v start edges vs memtype s =
    Done (putn_status ub ext (mem_type ext memtype) (take (length (rect start edges)) vs), ncp, s') \<and> ok s' \<and>
    bytes s' = write_elems (conv_bytes ub ext (mem_type ext memtype)) (zip (map (elem_offset ncp v) (rect start edges)) vs) (bytes s)"
proof -
  let ?n = "var_ndims v" and ?lone = "IS_RECVAR v \<and> var_ndims v = 1 \<and> recsize ncp \<le> u64 (var_len v)" and ?R = "rect start edges"
  let ?f = "conv_bytes ub ext (mem_type ext memtype)"
  have v: "var_shaped v" and r: "slab_in ncp v start edges" and len: "length start = ?n" "length edges = ?n" using d by (auto simp: data_ok_def slab_in_def)
  have rec: "(if IS_RECVAR v then NCvnrecs E io ncp (u64 (hd start + hd edges)) s else Done (NC_NOERR, ncp, s)) = Done (NC_NOERR, ncp, s)"
    using slab_records [OF d] by (auto simp: NCvnrecs_def)
  have zt: "zip (map g (rect start edges)) (take (length ?R) vs) = zip (map g ?R) vs" for g :: "int list \<Rightarrow> int"
    using zip_take_length [of "map g ?R" vs] by simp
  have P0: "putn_status ub ext (mem_type ext memtype) [] = NC_NOERR" by (simp add: putn_status_def range_status_def)
  consider "?n = 0" | "0 < ?n" "?lone" "0 < hd edges" | "0 < ?n" "?lone" "\<not> 0 < hd edges" | "0 < ?n" "\<not> ?lone" by blast
  then show ?thesis
  proof cases
    case 1
    with len have z: "start = []" "edges = []" by simp_all
    have "full_right v edges 0" using 1 v by (auto simp: full_right_def IS_RECVAR_def var_shaped_def)
    from block_piece [OF d this, of "[]" 1] have "piece ncp v start edges [] [[]]" by (simp add: z)
    from write_piece [OF d c this s, of vs ub] 1 vs zt [of "elem_offset ncp v"] show ?thesis by (auto simp: put_slab_def z)
  next
    case 2
    have "piece ncp v start edges start ?R" and lR: "length ?R = nat (hd edges)" using lone_piece [OF d _ _ _ 2(3)] 2(2) by blast+
    from write_piece [OF d c this(1) s vs, of ub] obtain s' where "writeNCv ub io ncp v start (hd edges) vs memtype s =
        Done (putn_status ub ext (mem_type ext memtype) (take (length ?R) vs), s')" "ok s'" "bytes s' = write_elems ?f (zip (map (elem_offset ncp v) ?R) vs) (bytes s)"
      using lR 2(3) zt by auto
    with 2 rec show ?thesis by (auto simp: put_slab_def)
  next
    case 3
    obtain e where e: "edges = [e]" using len 3(2) by (metis One_nat_def length_0_conv length_Suc_conv)
    then have e0: "e = 0" using 3(3) r 3(2) by (auto simp: slab_in_def)
    then have "?R = []" using len e by (intro rect_empty [of _ _ 0]) simp_all
    with 3 rec e e0 write_none [OF v _ c] len P0 s show ?thesis by (auto simp: put_slab_def)
  next
    case 4
    obtain j iocount B where j: "j \<le> ?n" "NCiocount ncp v edges = Done (int j - 1, iocount)" and io: "0 \<le> iocount"
      and p: "iocount = 0 \<and> ?R = [] \<or> (\<forall>c \<in> set (piece_starts start edges j). piece ncp v start edges c (B c) \<and> int (length (B c)) = iocount) \<and>
         concat (map B (piece_starts start edges j)) = ?R"
      by (rule slab_plan [OF d 4])
    note slab = put_slab_pieces [OF d 4 j, where E = E and ub = ub and memtype = memtype and vs = vs and s = s]
    from p show ?thesis
    proof
      assume z: "iocount = 0 \<and> ?R = []"
      have "\<forall>c \<in> set (piece_starts start edges j). \<forall>vs s. writeNCv ub io ncp v c 0 vs memtype s = Done (NC_NOERR, s)"
        using write_none [OF v _ c] piece_starts_length [of edges start] len by simp
      from write_all_none [OF this] z P0 s show ?thesis unfolding slab by simp
    next
      let ?cs = "piece_starts start edges j" and ?k = "nat iocount"
      assume B: "(\<forall>c \<in> set ?cs. piece ncp v start edges c (B c) \<and> int (length (B c)) = iocount) \<and> concat (map B ?cs) = ?R"
      have lB: "length (B c) = ?k" if "c \<in> set ?cs" for c using B that by auto
      have tot: "length ?cs * ?k = length ?R"
        using lB arg_cong [OF conjunct2 [OF B], of length] by (simp add: length_concat comp_def sum_list_triv cong: map_cong)
      have W: "\<forall>c \<in> set ?cs. length (B c) = ?k \<and> (\<forall>vs s1. ok s1 \<and> length (bytes s1) = length (bytes s) \<and> ?k \<le> length vs \<longrightarrow>
          (\<exists>s'. writeNCv ub io ncp v c iocount vs memtype s1 = Done (putn_status ub ext (mem_type ext memtype) (take ?k vs), s') \<and> ok s' \<and> length (bytes s') = length (bytes s) \<and>
            bytes s' = write_elems ?f (zip (map (elem_offset ncp v) (B c)) (take ?k vs)) (bytes s1)))"
      proof (intro ballI conjI allI impI)
        fix c' and vs :: "int list" and s1 assume c': "c' \<in> set ?cs" and s1: "ok s1 \<and> length (bytes s1) = length (bytes s) \<and> ?k \<le> length vs"
        have p: "piece ncp v start edges c' (B c')" using B c' by auto
        have d1: "data_ok ncp v ext (length (bytes s1)) start edges" using d s1 by simp
        have "set (B c') \<subseteq> set ?R" using p by (auto simp: piece_def)
        from write_piece [OF d1 c p _ , of vs ub] write_bytes_length [OF d1 this] s1 lB [OF c'] io
        show "\<exists>s'. writeNCv ub io ncp v c' iocount vs memtype s1 = Done (putn_status ub ext (mem_type ext memtype) (take ?k vs), s') \<and> ok s' \<and> length (bytes s') = length (bytes s) \<and>
            bytes s' = write_elems ?f (zip (map (elem_offset ncp v) (B c')) (take ?k vs)) (bytes s1)" by auto
      qed (rule lB)
      from write_all_values [OF W s refl, of vs NC_NOERR] tot vs B zt show ?thesis unfolding slab by auto
    qed
  qed
qed

end

end
