(* ===== verification/NC3_Rw.thy ===== *)
theory NC3_Rw
  imports NC3_Store
begin

text \<open>
  Different elements of a variable do not overlap, so what \<open>NC3_put_vara\<close> wrote is what \<open>NC3_get_vara\<close> reads.
\<close>

subsection \<open>Elements do not overlap\<close>

definition inside :: "int list \<Rightarrow> int list \<Rightarrow> bool" where
  "inside shp c \<longleftrightarrow> length c = length shp \<and> (\<forall>k<length shp. 0 \<le> c ! k \<and> c ! k < shp ! k)"

lemma inside_Cons: "inside (s # shp) (i # c) \<longleftrightarrow> 0 \<le> i \<and> i < s \<and> inside shp c"
  by (auto simp: inside_def nth_Cons split: nat.splits)

lemma inside_Nil: "inside [] c \<longleftrightarrow> c = []"
  by (auto simp: inside_def)

lemma lin_bounds: "inside shp c \<Longrightarrow> 0 \<le> lin shp c \<and> lin shp c < suffix_product shp"
proof (induction shp c rule: lin.induct)
  case (1 s shp i c)
  then have i: "0 \<le> i" "i + 1 \<le> s" and IH: "0 \<le> lin shp c" "lin shp c < suffix_product shp" by (simp_all add: inside_Cons)
  have p: "0 < suffix_product shp" using suffix_product_ge [of shp] by simp
  have "(i + 1) * suffix_product shp \<le> s * suffix_product shp" using i(2) p by (intro mult_right_mono) simp_all
  then have "i * suffix_product shp + lin shp c < s * suffix_product shp" using IH(2) by (simp add: distrib_right)
  with i IH(1) p show ?case by (simp add: suffix_product_Cons max_def)
qed (auto simp: inside_def suffix_product_def)

lemma lin_inj: "inside shp c \<Longrightarrow> inside shp c' \<Longrightarrow> lin shp c = lin shp c' \<Longrightarrow> c = c'"
proof (induction shp arbitrary: c c')
  case (Cons s shp)
  then obtain i d i' d' where c: "c = i # d" "c' = i' # d'" by (metis inside_def length_0_conv list.exhaust list.simps(3))
  with Cons.prems have ins: "inside shp d" "inside shp d'" by (simp_all add: inside_Cons)
  have e: "i * suffix_product shp + lin shp d = i' * suffix_product shp + lin shp d'" using Cons.prems(3) c by simp
  have q: "(i * suffix_product shp + lin shp d) div suffix_product shp = i" "(i' * suffix_product shp + lin shp d') div suffix_product shp = i'"
    using lin_bounds [OF ins(1)] lin_bounds [OF ins(2)] by simp_all
  then have "i = i'" using e by metis
  with e Cons.IH [OF ins] c show ?case by simp
qed (simp add: inside_Nil)

lemma rect_inside:
  assumes v: "var_shaped v" and r: "slab_in ncp v start edges" and c: "c \<in> set (rect start edges)"
  shows "if IS_RECVAR v then \<exists>i d. c = i # d \<and> 0 \<le> i \<and> inside (tl (var_shape v)) d else inside (var_shape v) c"
proof -
  have len: "length start = var_ndims v" "length edges = var_ndims v" "length (var_shape v) = var_ndims v" using v r by (auto simp: slab_in_def var_shaped_def)
  from rect_mem [of start edges c] c len have m: "length c = var_ndims v" "\<forall>k<var_ndims v. start ! k \<le> c ! k \<and> c ! k < start ! k + edges ! k" by auto
  have k: "0 \<le> c ! k \<and> (k = 0 \<and> IS_RECVAR v \<or> c ! k < var_shape v ! k)" if "k < var_ndims v" for k
  proof -
    have "0 \<le> start ! k \<and> start ! k + edges ! k \<le> (if k = 0 \<and> IS_RECVAR v then numrecs ncp else var_shape v ! k)"
      using r that by (simp add: slab_in_def)
    moreover have "start ! k \<le> c ! k \<and> c ! k < start ! k + edges ! k" using m(2) that by blast
    ultimately show ?thesis by (auto split: if_splits)
  qed
  show ?thesis
  proof (cases "IS_RECVAR v")
    case True
    then have n: "0 < var_ndims v" using recvar_ndims [OF v] by simp
    then obtain i d where c: "c = i # d" using m(1) by (cases c) auto
    have "inside (tl (var_shape v)) d" unfolding inside_def
    proof (intro conjI allI impI)
      show "length d = length (tl (var_shape v))" using m(1) c len(3) by simp
      fix k assume "k < length (tl (var_shape v))"
      then have "Suc k < var_ndims v" "tl (var_shape v) ! k = var_shape v ! Suc k" using len(3) by (simp_all add: nth_tl)
      with k [of "Suc k"] c show "0 \<le> d ! k" "d ! k < tl (var_shape v) ! k" by auto
    qed
    with True c k [OF n] show ?thesis by simp
  next
    case False
    with k m(1) len(3) show ?thesis by (simp add: inside_def)
  qed
qed

text \<open>A record has room for the values of one record.\<close>

definition rec_room :: "nc3_info \<Rightarrow> NC_var \<Rightarrow> bool" where
  "rec_room ncp v \<longleftrightarrow> (IS_RECVAR v \<longrightarrow> suffix_product (tl (var_shape v)) * var_xsz v \<le> recsize ncp)"

lemma scaled_apart:
  assumes "a \<noteq> b" "0 < (z::int)"
  shows "z \<le> \<bar>a * z - b * z\<bar>"
proof -
  have "1 * z \<le> \<bar>a - b\<bar> * z" using assms by (intro mult_right_mono) simp_all
  then show ?thesis using assms(2) by (simp add: abs_mult left_diff_distrib [symmetric])
qed

lemma elements_apart:
  assumes v: "var_shaped v" and r: "slab_in ncp v start edges" and room: "rec_room ncp v"
    and c: "c \<in> set (rect start edges)" "c' \<in> set (rect start edges)" "c \<noteq> c'"
  shows "var_xsz v \<le> \<bar>elem_offset ncp v c - elem_offset ncp v c'\<bar>"
proof -
  have z: "0 < var_xsz v" using v type_bytes_pos by (simp add: var_shaped_def)
  show ?thesis
  proof (cases "IS_RECVAR v")
    case False
    then have "inside (var_shape v) c" "inside (var_shape v) c'" using rect_inside [OF v r c(1)] rect_inside [OF v r c(2)] by simp_all
    then have "lin (var_shape v) c \<noteq> lin (var_shape v) c'" using lin_inj c(3) by blast
    from scaled_apart [OF this z] False show ?thesis by (simp add: elem_offset_def)
  next
    case True
    then obtain i d i' d' where e: "c = i # d" "c' = i' # d'" and ins: "inside (tl (var_shape v)) d" "inside (tl (var_shape v)) d'"
      using rect_inside [OF v r c(1)] rect_inside [OF v r c(2)] by auto
    let ?l = "lin (tl (var_shape v))" and ?P = "suffix_product (tl (var_shape v))"
    show ?thesis
    proof (cases "i = i'")
      case same: True
      then have "?l d \<noteq> ?l d'" using lin_inj [OF ins] c(3) e by blast
      from scaled_apart [OF this z] True e same show ?thesis by (simp add: elem_offset_def)
    next
      case False
      have R: "?P * var_xsz v \<le> recsize ncp" using room True by (simp add: rec_room_def)
      have b: "0 \<le> ?l d" "?l d \<le> ?P - 1" "0 \<le> ?l d'" "?l d' \<le> ?P - 1" using lin_bounds [OF ins(1)] lin_bounds [OF ins(2)] by linarith+
      have m: "?l d * var_xsz v \<le> (?P - 1) * var_xsz v" "?l d' * var_xsz v \<le> (?P - 1) * var_xsz v" "0 \<le> ?l d * var_xsz v" "0 \<le> ?l d' * var_xsz v"
        using b z by (simp_all add: mult_right_mono)
      have "0 < recsize ncp" using R z suffix_product_ge [of "tl (var_shape v)"] mult_pos_pos [of ?P "var_xsz v"] by linarith
      from scaled_apart [OF False this] have "recsize ncp \<le> \<bar>i * recsize ncp - i' * recsize ncp\<bar>" .
      with m R True e show ?thesis by (simp add: elem_offset_def left_diff_distrib)
    qed
  qed
qed

lemma distinct_rect: "length ss = length es \<Longrightarrow> distinct (rect ss es)"
proof (induction ss es rule: list_induct2)
  case (Cons s ss e es)
  have "distinct (concat (map (\<lambda>i. map ((#) i) (rect ss es)) xs))" if "distinct xs" for xs
    using that Cons.IH by (induction xs) (auto simp: distinct_map inj_on_def)
  then show ?case by simp
qed simp

subsection \<open>Reading back\<close>

lemma blit_read_same: "nat off + length w \<le> length b \<Longrightarrow> take (length w) (drop (nat off) (blit b (nat off) w)) = w"
  by (simp add: blit_def)

lemma blit_read_other:
  assumes "0 \<le> off" "0 \<le> off'" "int (length w) \<le> \<bar>off - off'\<bar>" "n = length w" "nat off + length w \<le> length b"
  shows "take n (drop (nat off') (blit b (nat off) w)) = take n (drop (nat off') b)"
proof (cases "off' < off")
  case True
  then have "nat off' + n \<le> nat off" using assms by linarith
  then show ?thesis using assms by (intro take_drop_blit_below) simp_all
next
  case False
  then have "nat off + length w \<le> nat off'" using assms by linarith
  then show ?thesis using assms(5) by (simp add: drop_blit_after)
qed

definition apart :: "nat \<Rightarrow> int list \<Rightarrow> bool" where
  "apart n offs \<longleftrightarrow> (\<forall>i<length offs. \<forall>j<length offs. i \<noteq> j \<longrightarrow> int n \<le> \<bar>offs ! i - offs ! j\<bar>)"

lemma apart_Cons: "apart n (x # xs) \<longleftrightarrow> apart n xs \<and> (\<forall>y \<in> set xs. int n \<le> \<bar>x - y\<bar>)"
proof
  assume a: "apart n (x # xs)"
  have "int n \<le> \<bar>xs ! i - xs ! j\<bar>" if "i < length xs" "j < length xs" "i \<noteq> j" for i j
    using a that unfolding apart_def by (metis Suc_less_eq length_Cons nat.inject nth_Cons_Suc)
  moreover have "int n \<le> \<bar>x - xs ! j\<bar>" if "j < length xs" for j
    using a that unfolding apart_def by (metis Suc_less_eq length_Cons nat.distinct(1) nth_Cons_0 nth_Cons_Suc zero_less_Suc)
  ultimately show "apart n xs \<and> (\<forall>y \<in> set xs. int n \<le> \<bar>x - y\<bar>)" by (auto simp: apart_def in_set_conv_nth)
next
  assume a: "apart n xs \<and> (\<forall>y \<in> set xs. int n \<le> \<bar>x - y\<bar>)"
  then show "apart n (x # xs)" by (auto simp: apart_def nth_Cons abs_minus_commute split: nat.split)
qed

lemma write_elems_other:
  assumes "\<forall>x. length (f x) = n" "0 \<le> p"
  shows "\<forall>(off, x) \<in> set zs. 0 \<le> off \<and> nat off + n \<le> length b \<and> int n \<le> \<bar>off - p\<bar> \<Longrightarrow> take n (drop (nat p) (write_elems f zs b)) = take n (drop (nat p) b)"
proof (induction zs arbitrary: b)
  case (Cons z zs)
  obtain off x where z: "z = (off, x)" by fastforce
  have "take n (drop (nat p) (blit b (nat off) (f x))) = take n (drop (nat p) b)"
    using Cons.prems z assms by (intro blit_read_other) auto
  moreover have "length (blit b (nat off) (f x)) = length b" using Cons.prems z assms(1) by (intro length_blit) auto
  ultimately show ?case using Cons z by (auto intro!: trans [OF Cons.IH])
qed simp

lemma write_elems_read:
  assumes f: "\<forall>x. length (f x) = n"
  shows "apart n offs \<Longrightarrow> \<forall>off \<in> set offs. 0 \<le> off \<and> nat off + n \<le> length b \<Longrightarrow> length offs \<le> length vs \<Longrightarrow> i < length offs \<Longrightarrow>
    take n (drop (nat (offs ! i)) (write_elems f (zip offs vs) b)) = f (vs ! i)"
proof (induction offs arbitrary: vs b i)
  case (Cons x offs)
  then obtain w ws where vs: "vs = w # ws" by (cases vs) auto
  let ?b = "blit b (nat x) (f w)"
  have lb: "length ?b = length b" using Cons.prems f by (intro length_blit) simp
  show ?case
  proof (cases i)
    case 0
    have "\<forall>(off, y) \<in> set (zip offs ws). 0 \<le> off \<and> nat off + n \<le> length ?b \<and> int n \<le> \<bar>off - x\<bar>"
      using Cons.prems(1,2) lb by (auto simp: apart_Cons abs_minus_commute dest: set_zip_leftD)
    from write_elems_other [OF f _ this] Cons.prems(2)
    have "take n (drop (nat x) (write_elems f (zip offs ws) ?b)) = take n (drop (nat x) ?b)" by simp
    also have "\<dots> = f w" using blit_read_same [of x "f w" b] f Cons.prems(2) by simp
    finally show ?thesis by (simp add: 0 vs)
  next
    case (Suc k)
    with Cons.prems lb Cons.IH [of ?b ws k] show ?thesis by (simp add: vs apart_Cons)
  qed
qed simp

end
