(* ===== verification/NC3_Transfer.thy ===== *)
theory NC3_Transfer
  imports NC3_Rw
begin

text \<open>
  What \<open>NC3_get_vara\<close> and \<open>NC3_put_vara\<close> promise: the checks let exactly the rectangles inside the variable through, a rectangle is read
  and written element by element in row-major order, and what was written is read back.
\<close>

subsection \<open>The checks\<close>

text \<open>Coordinates the checks accept: where they end is inside the variable; without \<open>RELAX_COORD_BOUND\<close> also where they start.\<close>

definition args_ok :: "bool \<Rightarrow> NC_var \<Rightarrow> int list \<Rightarrow> int list \<Rightarrow> bool" where
  "args_ok relax v start edges \<longleftrightarrow> (relax \<or> (\<forall>k<length edges. 0 < edges ! k)) \<and> (IS_RECVAR v \<longrightarrow> hd start \<le> X_UINT_MAX)"

lemma zip_all_nth: "(\<exists>(a, b) \<in> set (zip xs ys). P a b) \<longleftrightarrow> (\<exists>k<min (length xs) (length ys). P (xs ! k) (ys ! k))"
  by (auto simp: set_zip)

lemma edgeck_loop_ok:
  "length start = length shape \<Longrightarrow> length edges = length shape \<Longrightarrow>
    \<forall>k<length shape. 0 \<le> start ! k \<and> 0 \<le> edges ! k \<and> start ! k + edges ! k \<le> shape ! k \<and> start ! k + edges ! k < 18446744073709551616 \<Longrightarrow>
    edgeck_loop relax shape start edges = Done NC_NOERR"
proof (induction relax shape start edges rule: edgeck_loop.induct)
  case (1 relax sh shape st start e edges)
  from 1(4) have h: "0 \<le> st" "0 \<le> e" "st + e \<le> sh" "st + e < 18446744073709551616" by (auto dest: spec [of _ 0])
  then have "u64 (st + e) = st + e" by (intro u64_id) linarith+
  moreover have "\<forall>k<length shape. 0 \<le> start ! k \<and> 0 \<le> edges ! k \<and> start ! k + edges ! k \<le> shape ! k \<and> start ! k + edges ! k < 18446744073709551616"
    using 1(4) by (metis Suc_less_eq length_Cons nth_Cons_Suc)
  ultimately show ?case using 1 h by auto
qed simp_all

lemma checks_ok:
  assumes v: "var_shaped v" and r: "slab_in ncp v start edges" and so: "slab_ok start edges" and a: "args_ok relax v start edges"
  shows "NCcoordck relax io ncp v start s = Done (NC_NOERR, ncp, s)" "NCedgeck relax ncp v start edges = Done NC_NOERR"
proof -
  let ?n = "var_ndims v"
  have len: "length start = ?n" "length edges = ?n" "length (var_shape v) = ?n" using v r by (auto simp: slab_in_def var_shaped_def)
  have k: "0 \<le> start ! k" "0 \<le> edges ! k" "start ! k + edges ! k \<le> (if k = 0 \<and> IS_RECVAR v then numrecs ncp else var_shape v ! k)"
    "start ! k + edges ! k < 18446744073709551616" "relax \<or> 0 < edges ! k" if "k < ?n" for k
    using r so a that len by (auto simp: slab_in_def slab_ok_def args_ok_def)
  have nb: "\<not> beyond relax (start ! k) (if k = 0 \<and> IS_RECVAR v then numrecs ncp else var_shape v ! k)" if "k < ?n" for k
    using k(1,2,3,5) [OF that] by (auto simp: beyond_def split: if_splits)
  have inner: "\<not> (\<exists>(c, u) \<in> set (zip (drop j (take ?n start)) (drop j (var_shape v))). beyond relax c u)" if "IS_RECVAR v \<longrightarrow> 1 \<le> j" for j
    unfolding zip_all_nth using nb len that by (fastforce simp: less_diff_conv add.commute split: if_splits)
  show "NCcoordck relax io ncp v start s = Done (NC_NOERR, ncp, s)"
  proof (cases "?n = 0")
    case False
    then have h: "hd start = start ! 0" using len by (metis hd_conv_nth length_0_conv)
    have "IS_RECVAR v \<Longrightarrow> \<not> beyond relax (hd start) (numrecs ncp)" using nb [of 0] False h by simp
    with inner [of 0] inner [of 1] a len False show ?thesis by (auto simp: NCcoordck_def Let_def args_ok_def)
  qed (simp add: NCcoordck_def)
  show "NCedgeck relax ncp v start edges = Done NC_NOERR"
  proof (cases "?n = 0")
    case False
    then have h: "hd start = start ! 0" "hd edges = edges ! 0" using len by (metis hd_conv_nth length_0_conv)+
    have "edgeck_loop relax (var_shape v) start edges = Done NC_NOERR" if "\<not> IS_RECVAR v"
      using k len that by (intro edgeck_loop_ok) auto
    moreover have "edgeck_loop relax (tl (var_shape v)) (tl start) (tl edges) = Done NC_NOERR"
    proof (intro edgeck_loop_ok allI impI)
      fix j assume "j < length (tl (var_shape v))"
      then have j: "Suc j < ?n" "tl start ! j = start ! Suc j" "tl edges ! j = edges ! Suc j" "tl (var_shape v) ! j = var_shape v ! Suc j"
        using len by (simp_all add: nth_tl)
      then show "0 \<le> tl start ! j \<and> 0 \<le> tl edges ! j \<and> tl start ! j + tl edges ! j \<le> tl (var_shape v) ! j \<and> tl start ! j + tl edges ! j < 18446744073709551616"
        using k [of "Suc j"] by simp
    qed (use len in simp_all)
    moreover have "\<not> (hd start = numrecs ncp \<and> 0 < hd edges)" if "IS_RECVAR v" using k(3) [of 0] False h that by auto
    ultimately show ?thesis using False len by (auto simp: NCedgeck_def)
  qed (simp add: NCedgeck_def)
qed

lemma edgeck_loop_conv:
  "length start = length shape \<Longrightarrow> length edges = length shape \<Longrightarrow> \<forall>k<length shape. 0 \<le> edges ! k \<and> 0 \<le> start ! k \<and> start ! k \<le> shape ! k \<and> shape ! k \<le> OFF_T_MAX \<Longrightarrow>
    edgeck_loop relax shape start edges = Done NC_NOERR \<Longrightarrow> k < length shape \<Longrightarrow> start ! k + edges ! k \<le> shape ! k"
proof (induction relax shape start edges arbitrary: k rule: edgeck_loop.induct)
  case (1 relax sh shape st start e edges)
  have h: "0 \<le> e" "0 \<le> st" "st \<le> sh" "sh \<le> OFF_T_MAX" using 1(4) by (auto dest: spec [of _ 0])
  have e: "e \<le> sh" "u64 (st + e) \<le> sh" and rest: "edgeck_loop relax shape start edges = Done NC_NOERR" "\<not> (relax \<and> st = sh \<and> 0 < e)"
    using 1(5) by (auto split: if_splits)
  have "u64 (st + e) = st + e" using h e(1) by (intro u64_id) linarith+
  then have first: "st + e \<le> sh" using e(2) by simp
  have all: "\<forall>k<length shape. 0 \<le> edges ! k \<and> 0 \<le> start ! k \<and> start ! k \<le> shape ! k \<and> shape ! k \<le> OFF_T_MAX"
    using 1(4) by (metis Suc_less_eq length_Cons nth_Cons_Suc)
  show ?case
  proof (cases k)
    case (Suc j)
    have "start ! j + edges ! j \<le> shape ! j"
      using rest e 1(2,3,6) all Suc by (intro 1(1)) auto
    with Suc show ?thesis by simp
  qed (use first in simp)
qed simp_all

text \<open>
  C18: for a fixed-size variable the two checks accept a rectangle exactly if every \<open>start + edge\<close>, computed without wrapping around, is
  at most the size of the dimension, and, when \<open>RELAX_COORD_BOUND\<close> is off, the start is inside the dimension as well.
\<close>

theorem vara_checks_exact:
  assumes v: "var_shaped v" "\<not> IS_RECVAR v" "suffix_product (var_shape v) \<le> OFF_T_MAX"
    and len: "length start = var_ndims v" "length edges = var_ndims v" and nn: "\<forall>k<var_ndims v. 0 \<le> start ! k \<and> 0 \<le> edges ! k"
  shows "NCcoordck relax io ncp v start s = Done (NC_NOERR, ncp, s) \<and> NCedgeck relax ncp v start edges = Done NC_NOERR \<longleftrightarrow>
    (\<forall>k<var_ndims v. start ! k + edges ! k \<le> var_shape v ! k \<and> (relax \<or> start ! k < var_shape v ! k))"
proof -
  let ?n = "var_ndims v"
  have ls: "length (var_shape v) = ?n" using v(1) by (simp add: var_shaped_def)
  have sh: "var_shape v ! k \<le> OFF_T_MAX" if "k < ?n" for k
  proof -
    have "var_shape v ! k * 1 \<le> var_shape v ! k * suffix_product (drop (Suc k) (var_shape v))"
      using suffix_product_ge [of "drop (Suc k) (var_shape v)"] shape_pos [OF v(1) that] v(2) by (intro mult_left_mono) simp_all
    also have "\<dots> \<le> suffix_product (drop k (var_shape v))"
      using that ls suffix_product_ge [of "drop (Suc k) (var_shape v)"] by (simp add: Cons_nth_drop_Suc [symmetric] suffix_product_Cons mult_right_mono)
    finally show ?thesis using suffix_product_drop_le [of k "var_shape v"] v(3) by linarith
  qed
  have ck: "NCcoordck relax io ncp v start s = Done (NC_NOERR, ncp, s) \<longleftrightarrow> (\<forall>k<?n. \<not> beyond relax (start ! k) (var_shape v ! k))"
  proof (cases "?n = 0")
    case False
    have "(\<exists>(c, u) \<in> set (zip (drop 0 (take ?n start)) (drop 0 (var_shape v))). beyond relax c u) \<longleftrightarrow> (\<exists>k<?n. beyond relax (start ! k) (var_shape v ! k))"
      unfolding zip_all_nth using len ls by simp
    with False v(2) len show ?thesis by (auto simp: NCcoordck_def Let_def)
  qed (simp add: NCcoordck_def)
  have ek: "NCedgeck relax ncp v start edges = (if ?n = 0 then Done NC_NOERR else edgeck_loop relax (var_shape v) start edges)"
    using len v(2) by (simp add: NCedgeck_def)
  show ?thesis
  proof
    assume a: "NCcoordck relax io ncp v start s = Done (NC_NOERR, ncp, s) \<and> NCedgeck relax ncp v start edges = Done NC_NOERR"
    show "\<forall>k<?n. start ! k + edges ! k \<le> var_shape v ! k \<and> (relax \<or> start ! k < var_shape v ! k)"
    proof (intro allI impI)
      fix k assume k: "k < ?n"
      have b: "\<forall>j<?n. \<not> beyond relax (start ! j) (var_shape v ! j)" using a ck by blast
      then have le: "\<forall>j<?n. start ! j \<le> var_shape v ! j" by (auto simp: beyond_def split: if_splits)
      have "start ! k + edges ! k \<le> var_shape v ! k"
        using a ek k le nn sh ls len by (intro edgeck_loop_conv [of start "var_shape v" edges relax]) auto
      with b k show "start ! k + edges ! k \<le> var_shape v ! k \<and> (relax \<or> start ! k < var_shape v ! k)" by (auto simp: beyond_def split: if_splits)
    qed
  next
    assume a: "\<forall>k<?n. start ! k + edges ! k \<le> var_shape v ! k \<and> (relax \<or> start ! k < var_shape v ! k)"
    have "\<not> beyond relax (start ! k) (var_shape v ! k)" if "k < ?n" for k
    proof -
      have "start ! k + edges ! k \<le> var_shape v ! k" "relax \<or> start ! k < var_shape v ! k" "0 \<le> edges ! k" using a nn that by blast+
      then show ?thesis by (cases relax) (auto simp: beyond_def)
    qed
    moreover have "edgeck_loop relax (var_shape v) start edges = Done NC_NOERR"
      using a nn sh ls len by (intro edgeck_loop_ok) fastforce+
    ultimately show "NCcoordck relax io ncp v start s = Done (NC_NOERR, ncp, s) \<and> NCedgeck relax ncp v start edges = Done NC_NOERR"
      using ck ek by simp
  qed
qed

subsection \<open>Reading and writing an open file\<close>

text \<open>A call that the checks of type and mode let through.\<close>

definition access_ok :: "nc3_info \<Rightarrow> int \<Rightarrow> NC_var \<Rightarrow> int \<Rightarrow> int \<Rightarrow> bool" where
  "access_ok ncp varid v memtype ext \<longleftrightarrow> \<not> NC_indef ncp \<and> NC_lookupvar ncp varid = (NC_NOERR, Some v) \<and>
     memtype \<noteq> 0 \<and> ((memtype = NC_CHAR) = (var_type v = NC_CHAR)) \<and> case_ext (flags ncp) (var_type v) memtype = Some ext"

text \<open>The values of the rectangle, as they are in the file.\<close>

definition slab_values :: "nc3_info \<Rightarrow> NC_var \<Rightarrow> int \<Rightarrow> string \<Rightarrow> int list \<Rightarrow> int list \<Rightarrow> int list" where
  "slab_values ncp v ext b start edges = map (elem_at ext ncp v b) (rect start edges)"

definition slab_write :: "(int \<Rightarrow> fval \<Rightarrow> int) \<Rightarrow> nc3_info \<Rightarrow> NC_var \<Rightarrow> int \<Rightarrow> int \<Rightarrow> int list \<Rightarrow> int list \<Rightarrow> int list \<Rightarrow> string \<Rightarrow> string" where
  "slab_write ub ncp v ext memtype start edges vs b =
     write_elems (conv_bytes ub ext (mem_type ext memtype)) (zip (map (elem_offset ncp v) (rect start edges)) vs) b"

context ncio_client
begin

lemma NC3_get_vara_result:
  assumes f: "open_file fs ncid mode ncp s" and a: "access_ok ncp varid v memtype ext" "args_ok relax v start edges"
    and d: "data_ok ncp v ext (length (bytes s)) start edges" and s: "ok s"
  shows "\<exists>s'. NC3_get_vara ub relax io fs ncid varid start (Some edges) memtype =
    Done (fst (getn_values ub ext (mem_type ext memtype) (slab_values ncp v ext (bytes s) start edges)),
      snd (getn_values ub ext (mem_type ext memtype) (slab_values ncp v ext (bytes s) start edges)), update_file fs ncid ncp s') \<and>
    ok s' \<and> bytes s' = bytes s"
proof -
  have v: "var_shaped v" "slab_in ncp v start edges" "slab_ok start edges" using d by (auto simp: data_ok_def)
  have c: "case_ext (flags ncp) (var_type v) memtype = Some ext" using a(1) by (simp add: access_ok_def)
  from get_slab_ok [OF d c s, of ub] checks_ok(1) [OF v a(2), where io = io and s = s] checks_ok(2) [OF v a(2)] a(1)
  show ?thesis by (auto simp: NC3_get_vara_def with_nc3_open [OF f] access_ok_def vara_edges_def slab_values_def)
qed

lemma NC3_put_vara_prefix:
  assumes f: "open_file fs ncid mode ncp s" and w: "\<not> NC_readonly ncp" and a: "access_ok ncp varid v memtype ext" "args_ok relax v start edges"
    and d: "data_ok ncp v ext (length (bytes s)) start edges" and s: "ok s" and vs: "length (rect start edges) \<le> length vs"
  shows "\<exists>s'. NC3_put_vara E ub relax io fs ncid varid start (Some edges) vs memtype =
    Done (putn_status ub ext (mem_type ext memtype) (take (length (rect start edges)) vs), (), update_file fs ncid ncp s') \<and> ok s' \<and>
    bytes s' = slab_write ub ncp v ext memtype start edges vs (bytes s)"
proof -
  have v: "var_shaped v" "slab_in ncp v start edges" "slab_ok start edges" using d by (auto simp: data_ok_def)
  have c: "case_ext (flags ncp) (var_type v) memtype = Some ext" using a(1) by (simp add: access_ok_def)
  from put_slab_ok [OF d c s vs, of E ub] checks_ok(1) [OF v a(2), where io = io and s = s] checks_ok(2) [OF v a(2)] a(1) w
  show ?thesis by (auto simp: NC3_put_vara_def with_nc3_open [OF f] access_ok_def vara_edges_def slab_write_def)
qed

lemma NC3_put_vara_result:
  assumes f: "open_file fs ncid mode ncp s" and w: "\<not> NC_readonly ncp" and a: "access_ok ncp varid v memtype ext" "args_ok relax v start edges"
    and d: "data_ok ncp v ext (length (bytes s)) start edges" and s: "ok s" and vs: "length vs = length (rect start edges)"
  shows "\<exists>s'. NC3_put_vara E ub relax io fs ncid varid start (Some edges) vs memtype =
    Done (putn_status ub ext (mem_type ext memtype) vs, (), update_file fs ncid ncp s') \<and> ok s' \<and>
    bytes s' = slab_write ub ncp v ext memtype start edges vs (bytes s)"
  using NC3_put_vara_prefix [OF f w a d s, of vs E ub] vs by simp

end

lemma slab_write_length: "data_ok ncp v ext (length b) start edges \<Longrightarrow> length (slab_write ub ncp v ext memtype start edges vs b) = length b"
  by (simp add: slab_write_def write_bytes_length)

text \<open>What is read where something was written, and where nothing was.\<close>

lemma slab_offsets:
  assumes d: "data_ok ncp v ext (length b) start edges" and c: "c \<in> set (rect start edges)"
  shows "0 \<le> elem_offset ncp v c" "nat (elem_offset ncp v c) + type_bytes ext \<le> length b"
proof -
  have v: "var_shaped v" and r: "slab_in ncp v start edges" and b: "0 \<le> var_begin v" "0 \<le> recsize ncp" "0 \<le> var_xsz v"
    using d by (auto simp: data_ok_def var_shaped_def)
  have "IS_RECVAR v \<longrightarrow> c \<noteq> []" using recvar_ndims [OF v] rect_nonneg [OF r c] by auto
  with b rect_nonneg [OF r c] show "0 \<le> elem_offset ncp v c" by (intro elem_offset_nonneg) simp_all
  moreover have "elem_offset ncp v c + int (type_bytes ext) \<le> int (length b)" using d c by (auto simp: data_ok_def)
  ultimately show "nat (elem_offset ncp v c) + type_bytes ext \<le> length b" by linarith
qed

lemma elems_write_values:
  assumes d: "data_ok ncp v ext (length b) start edges" and room: "rec_room ncp v" and cs: "set cs \<subseteq> set (rect start edges)" "distinct cs" and vs: "length vs = length cs"
  shows "map (elem_at ext ncp v (write_elems (conv_bytes ub ext mem) (zip (map (elem_offset ncp v) cs) vs) b)) cs = map (\<lambda>x. ext_value ext (conv_bytes ub ext mem x)) vs"
proof (rule nth_equalityI)
  fix i assume "i < length (map (elem_at ext ncp v (write_elems (conv_bytes ub ext mem) (zip (map (elem_offset ncp v) cs) vs) b)) cs)"
  then have i: "i < length cs" by simp
  have v: "var_shaped v" and r: "slab_in ncp v start edges" and sz: "var_xsz v = int (type_bytes ext)"
    using d by (auto simp: data_ok_def var_shaped_def)
  have "apart (type_bytes ext) (map (elem_offset ncp v) cs)"
    unfolding apart_def length_map
  proof (intro allI impI)
    fix j k assume j: "j < length cs" and k: "k < length cs" and "j \<noteq> k"
    then have "cs ! j \<noteq> cs ! k" using cs(2) by (simp add: nth_eq_iff_index_eq)
    moreover have "cs ! j \<in> set (rect start edges)" "cs ! k \<in> set (rect start edges)" using cs(1) nth_mem j k by blast+
    ultimately show "int (type_bytes ext) \<le> \<bar>map (elem_offset ncp v) cs ! j - map (elem_offset ncp v) cs ! k\<bar>"
      using elements_apart [OF v r room] j k by (simp add: sz)
  qed
  from write_elems_read [OF _ this, of "conv_bytes ub ext mem" b vs i] slab_offsets [OF d subsetD [OF cs(1)]] vs i
  have "take (type_bytes ext) (drop (nat (elem_offset ncp v (cs ! i))) (write_elems (conv_bytes ub ext mem) (zip (map (elem_offset ncp v) cs) vs) b)) = conv_bytes ub ext mem (vs ! i)"
    by simp
  then show "map (elem_at ext ncp v (write_elems (conv_bytes ub ext mem) (zip (map (elem_offset ncp v) cs) vs) b)) cs ! i = map (\<lambda>x. ext_value ext (conv_bytes ub ext mem x)) vs ! i"
    using i vs by (simp add: elem_at_def)
qed (simp add: vs)

lemma slab_write_values:
  assumes d: "data_ok ncp v ext (length b) start edges" and room: "rec_room ncp v" and vs: "length vs = length (rect start edges)"
  shows "slab_values ncp v ext (slab_write ub ncp v ext memtype start edges vs b) start edges = map (\<lambda>x. ext_value ext (conv_bytes ub ext (mem_type ext memtype) x)) vs"
proof -
  have "length start = length edges" using d by (simp add: data_ok_def slab_in_def)
  then show ?thesis using elems_write_values [OF d room subset_refl _ vs] distinct_rect by (simp add: slab_values_def slab_write_def)
qed

text \<open>Values that were stored without \<open>NC_ERANGE\<close> are converted back to themselves.\<close>

lemma stored_values_back:
  assumes t: "integer_type ext \<and> integer_type memtype \<or> ext = memtype" "\<forall>x \<in> set vs. in_type memtype x" and r: "putn_status ub ext memtype vs = NC_NOERR"
  shows "getn_values ub ext memtype (map (\<lambda>x. ext_value ext (conv_bytes ub ext memtype x)) vs) = (NC_NOERR, map Some vs)"
proof -
  have "fst (conv_put ub ext memtype x) = NC_NOERR" if "x \<in> set vs" for x
    using r that by (auto simp: putn_status_def range_status_def split: if_splits)
  then have "conv_get ub ext memtype (ext_value ext (conv_bytes ub ext memtype x)) = (NC_NOERR, Some x)" if "x \<in> set vs" for x
    using that t by (intro conv_round_trip) auto
  then show ?thesis by (auto simp: getn_values_def range_status_def)
qed

interpretation mioc: ncio_client "memio_io pagesize malloc" mio_ok mio_bytes mio_held "nat (chunk ncp)" ncp for pagesize malloc ncp
  by unfold_locales simp

text \<open>
  C6: over a memory file, \<open>NC3_get_vara\<close> of a rectangle inside a variable reads the values of its elements, in row-major order, each from the place
  the layout gives it, converts them to the memory type, and leaves the file as it is; it returns, with \<open>NC_ERANGE\<close> if a value did not fit
  and 0 otherwise. Pieces, chunks and the odometer do not show.
\<close>

theorem NC3_get_vara_elements:
  assumes "open_file fs ncid mode ncp mio" "access_ok ncp varid v memtype ext" "args_ok relax v start edges"
    and "data_ok ncp v ext (length (mio_bytes mio)) start edges" "mio_ok mio"
  shows "\<exists>mio'. NC3_get_vara ub relax (memio_io pagesize malloc) fs ncid varid start (Some edges) memtype =
    Done (fst (getn_values ub ext (mem_type ext memtype) (slab_values ncp v ext (mio_bytes mio) start edges)),
      snd (getn_values ub ext (mem_type ext memtype) (slab_values ncp v ext (mio_bytes mio) start edges)), update_file fs ncid ncp mio') \<and>
    mio_bytes mio' = mio_bytes mio"
  using mioc.NC3_get_vara_result [OF assms] by blast


text \<open>
  C4: over a memory file, values that \<open>NC3_put_vara\<close> accepted without \<open>NC_ERANGE\<close> are what \<open>NC3_get_vara\<close> of the same rectangle then
  returns: between integer types, and for any type that is stored as itself.
\<close>

theorem NC3_put_get_vara:
  assumes f: "open_file fs ncid mode ncp mio" and w: "\<not> NC_readonly ncp" and a: "access_ok ncp varid v memtype ext" "args_ok relax v start edges"
    and d: "data_ok ncp v ext (length (mio_bytes mio)) start edges" "rec_room ncp v" "mio_ok mio" and vs: "length vs = length (rect start edges)"
    and t: "integer_type ext \<and> integer_type memtype \<or> ext = memtype" "\<forall>x \<in> set vs. in_type memtype x"
    and r: "putn_status ub ext memtype vs = NC_NOERR"
  shows "\<exists>fs1 fs2. NC3_put_vara E ub relax (memio_io pagesize malloc) fs ncid varid start (Some edges) vs memtype = Done (NC_NOERR, (), fs1) \<and>
    NC3_get_vara ub relax (memio_io pagesize malloc) fs1 ncid varid start (Some edges) memtype = Done (NC_NOERR, map Some vs, fs2)"
proof -
  have m: "mem_type ext memtype = memtype" using t(1) by (auto simp: mem_type_def integer_type_def)
  obtain mio1 where p: "NC3_put_vara E ub relax (memio_io pagesize malloc) fs ncid varid start (Some edges) vs memtype = Done (NC_NOERR, (), update_file fs ncid ncp mio1)"
      "mio_ok mio1" "mio_bytes mio1 = slab_write ub ncp v ext memtype start edges vs (mio_bytes mio)"
    using mioc.NC3_put_vara_result [OF f w a d(1,3) vs, of E ub pagesize malloc] r m by auto
  have d1: "data_ok ncp v ext (length (mio_bytes mio1)) start edges" unfolding p(3) slab_write_length [OF d(1)] by (rule d(1))
  have "getn_values ub ext memtype (slab_values ncp v ext (mio_bytes mio1) start edges) = (NC_NOERR, map Some vs)"
    unfolding p(3) slab_write_values [OF d(1,2) vs] m by (rule stored_values_back [OF t r])
  then show ?thesis
    using mioc.NC3_get_vara_result [OF open_file_update(1) [OF f] a d1 p(2), of ub pagesize malloc] p(1) m by auto
qed

subsection \<open>Placement\<close>

text \<open>
  C17: two different elements of a rectangle inside a variable have places at least the size of one value apart, and \<open>NC_varoffset\<close> computes
  them without overflow: no value is stored on top of another, in records as in fixed-size variables.
\<close>

theorem NC_varoffset_apart:
  assumes d: "data_ok ncp v ext len start edges" "rec_room ncp v" and c: "c \<in> set (rect start edges)" "c' \<in> set (rect start edges)" "c \<noteq> c'"
  shows "\<exists>off off'. NC_varoffset ncp v c = Done off \<and> NC_varoffset ncp v c' = Done off' \<and> 0 \<le> off \<and> off + int (type_bytes ext) \<le> int len \<and>
    int (type_bytes ext) \<le> \<bar>off - off'\<bar>"
proof -
  have v: "var_shaped v" and r: "slab_in ncp v start edges" and b: "0 \<le> var_begin v" "0 \<le> recsize ncp" and sz: "var_xsz v = int (type_bytes ext)"
    and le: "int len \<le> OFF_T_MAX" "\<forall>c \<in> set (rect start edges). elem_offset ncp v c + int (type_bytes ext) \<le> int len"
    using d(1) by (auto simp: data_ok_def var_shaped_def)
  have off: "NC_varoffset ncp v x = Done (elem_offset ncp v x) \<and> 0 \<le> elem_offset ncp v x" if "x \<in> set (rect start edges)" for x
  proof -
    have "IS_RECVAR v \<longrightarrow> x \<noteq> []" using recvar_ndims [OF v] rect_nonneg [OF r that] by auto
    moreover have "elem_offset ncp v x \<le> OFF_T_MAX" using le that by fastforce
    ultimately show ?thesis using rect_nonneg [OF r that] b sz NC_varoffset_elem [OF v _ _ b, of x] elem_offset_nonneg [OF b, of x] by simp
  qed
  with elements_apart [OF v r d(2) c] le(2) c(1,2) sz show ?thesis by auto
qed

text \<open>
  C19: the loop at the end of \<open>NC3_get_vara\<close> ends, within the rounds the model grants it, and the coordinates it has visited then are
  exactly the rectangle in the dimensions up to \<open>index\<close>, in row-major order, with the start coordinate in the dimensions to the right.
\<close>

theorem vara_loop_visits:
  assumes "slab_ok start edges" "i < length start" "length start \<le> 1025" "\<forall>k. 0 < k \<and> k \<le> i \<longrightarrow> 0 < edges ! k"
  shows "get_rows (vara_fuel edges i) rd start (set_upper start edges (length start)) i start status s =
    read_all rd (map (\<lambda>p. p @ drop (Suc i) start) (rect (take (Suc i) start) (take (Suc i) edges))) status s"
proof -
  have len: "length edges = length start" using assms(1) by (simp add: slab_ok_def)
  have "0 < length start" using assms(2) by (rule le_less_trans [OF le0])
  then have e: "0 \<le> edges ! 0" using assms(1) unfolding slab_ok_def by blast
  have "loop_ok start edges i" using assms(1-3) by (simp add: loop_ok_def)
  from get_rows_all [OF this, of rd status s] coords_rect [OF assms(2) len refl e assms(4)] show ?thesis by (simp add: visits_def)
qed

subsection \<open>Records\<close>

lemma case_ext_flags: "fIsSet f 32 = fIsSet g 32 \<Longrightarrow> case_ext f type memtype = case_ext g type memtype"
  by (simp add: case_ext_def)

text \<open>
  Writing nothing at a place behind the last record still makes the file longer: with \<open>RELAX_COORD_BOUND\<close>, \<open>NC3_put_vara\<close> of a record
  variable with start \<open>k\<close> and count 0 sets the number of records to \<open>k\<close> (here without filling, where the new records are never written).
\<close>

theorem NC3_put_vara_nothing_grows:
  assumes f: "open_file fs ncid mode ncp s" and w: "\<not> NC_readonly ncp" and a: "access_ok ncp varid v memtype ext" and v: "var_shaped v" "IS_RECVAR v" "var_ndims v = 1"
    and m: "\<not> NC_dofill ncp" "\<not> NC_doNsync ncp" and k: "numrecs ncp < k" "0 \<le> numrecs ncp" "k \<le> X_UINT_MAX"
  shows "NC3_put_vara E ub relax io fs ncid varid [k] (Some [0]) vs memtype =
    Done (NC_NOERR, (), update_file fs ncid ((set_NC_ndirty ncp)\<lparr>numrecs := k\<rparr>) s)"
proof -
  obtain sh where sh: "var_shape v = [sh]" using v(1,3) unfolding var_shaped_def by (metis One_nat_def length_0_conv length_Suc_conv)
  let ?ncp = "(set_NC_ndirty ncp)\<lparr>numrecs := k\<rparr>"
  have ndirty: "\<not> bit (64::int) 8" "\<not> bit (64::int) 4" by (simp_all add: bit_iff_odd)
  then have fl: "\<not> NC_dofill (set_NC_ndirty ncp)" "\<not> NC_doNsync ?ncp" "fIsSet (flags ?ncp) 32 = fIsSet (flags ncp) 32"
    using m by (simp_all add: NC_flags_bits set_NC_ndirty_def fSet_bit fIsSet_single)
  have ck: "NCcoordck relax io ncp v [k] s = Done (NC_NOERR, ncp, s)" using v(2,3) sh k(3) w by (simp add: NCcoordck_def)
  have ek: "NCedgeck relax ncp v [k] [0] = Done NC_NOERR" using v(2,3) sh by (simp add: NCedgeck_def)
  have u: "u64 (k + 0) = k" using k by (simp add: u64_id)
  have nr: "NCvnrecs E io ncp k s = Done (NC_NOERR, ?ncp, s)" using k(1) fl by (simp add: NCvnrecs_def Let_def)
  have c: "case_ext (flags ?ncp) (var_type v) memtype = Some ext" using a case_ext_flags [OF fl(3)] by (simp add: access_ok_def)
  have none: "writeNCv ub io ?ncp v [k] 0 vs memtype s = Done (NC_NOERR, s)"
    using NC_varoffset_returns [OF v(1), of "[k]" ?ncp] v(3) c by (auto simp: writeNCv_def putNCvx_def)
  have io: "NCiocount ?ncp v [0] = (if recsize ncp \<le> u64 (var_len v) then Done (0, 0) else Done (0, 1))"
    using v(2,3) sh by (simp add: NCiocount_def set_NC_ndirty_def)
  have "put_slab E ub io ncp v [k] [0] vs memtype s = Done (NC_NOERR, ?ncp, s)"
    using v(2,3) nr none u io by (simp add: put_slab_def set_NC_ndirty_def vara_fuel_def set_upper_def)
  then show ?thesis using a w ck ek v(3) by (simp add: NC3_put_vara_def with_nc3_open [OF f] access_ok_def vara_edges_def)
qed

text \<open>
  C23: \<open>NC3_get_vara\<close> compares \<open>start + count\<close> with the number of records in \<open>size_t\<close>, where the sum wraps around: for a lone record variable,
  start 1 and the largest count pass all checks, and that many values are asked of the driver.
\<close>

theorem NC3_get_vara_start_wraps:
  assumes f: "open_file fs ncid mode ncp s" and a: "access_ok ncp varid v memtype ext" and v: "var_shaped v" "IS_RECVAR v" "var_ndims v = 1" "recsize ncp \<le> u64 (var_len v)"
    and k: "1 < numrecs ncp"
  shows "NC3_get_vara ub relax io fs ncid varid [1] (Some [18446744073709551615]) memtype =
    run_bind (readNCv ub io ncp v [1] 18446744073709551615 memtype s) (\<lambda>(status, vs, s1). Done (status, vs, update_file fs ncid ncp s1))"
proof -
  obtain sh where sh: "var_shape v = [sh]" using v(1,3) unfolding var_shaped_def by (metis One_nat_def length_0_conv length_Suc_conv)
  have ck: "NCcoordck relax io ncp v [1] s = Done (NC_NOERR, ncp, s)" using v(2,3) sh k by (auto simp: NCcoordck_def beyond_def)
  have ek: "NCedgeck relax ncp v [1] [18446744073709551615] = Done NC_NOERR" using v(2,3) sh k by (simp add: NCedgeck_def)
  have "get_slab ub io ncp v [1] [18446744073709551615] memtype s = readNCv ub io ncp v [1] 18446744073709551615 memtype s"
    using v(2-4) k by (simp add: get_slab_def u64_def)
  then show ?thesis using a ck ek v(3)
    by (simp add: NC3_get_vara_def with_nc3_open [OF f] access_ok_def vara_edges_def run_bind_assoc split_def)
qed

subsection \<open>A file with a grid and a series\<close>

text \<open>A 2 by 3 grid of shorts and a record variable of shorts, alone in its records, in a memory file.\<close>

definition grid_var :: NC_var where
  "grid_var = (sample_var 100 12 2)\<lparr>var_xsz := 2, var_type := NC_SHORT, var_shape := [2, 3], var_dsizes := [6, 3], var_ndims := 2, var_dimids := [0, 1]\<rparr>"

definition series_var :: NC_var where
  "series_var = (sample_var 112 4 0)\<lparr>var_xsz := 2, var_type := NC_SHORT\<rparr>"

definition grid_file :: nc3_info where
  "grid_file = (sample_hdr 100 112 [grid_var, series_var])\<lparr>recsize := 2, numrecs := 3, flags := 256\<rparr>"

lemma grid_sel: "\<not> NC_readonly grid_file" "\<not> NC_indef grid_file" "\<not> NC_dofill grid_file" "\<not> NC_doNsync grid_file" "\<not> fIsSet (flags grid_file) NC_64BIT_DATA"
  "NC_lookupvar grid_file 0 = (NC_NOERR, Some grid_var)" "NC_lookupvar grid_file 1 = (NC_NOERR, Some series_var)" "numrecs grid_file = 3" "recsize grid_file = 2"
  "chunk grid_file = 4096"
  by (simp_all add: grid_file_def sample_hdr_def NC_flags_bits fIsSet_def bit_iff_odd NC_lookupvar_def elem_NC_vararray_def u64_def)

lemma grid_rec: "\<not> IS_RECVAR grid_var" "IS_RECVAR series_var" "var_ndims grid_var = 2" "var_ndims series_var = 1" "var_shape grid_var = [2, 3]" "var_shape series_var = [0]"
  "var_type grid_var = NC_SHORT" "var_type series_var = NC_SHORT" "var_begin grid_var = 100" "var_begin series_var = 112" "var_xsz grid_var = 2" "var_xsz series_var = 2"
  "var_len series_var = 4"
  by (simp_all add: grid_var_def series_var_def sample_var_def IS_RECVAR_def)

lemma type_bytes_SHORT: "type_bytes NC_SHORT = 2"
  by (simp add: type_bytes_def)

lemma grid_shaped: "var_shaped grid_var" "var_shaped series_var"
  by (simp_all add: var_shaped_def grid_rec type_bytes_SHORT) (simp_all add: grid_var_def series_var_def sample_var_def suffix_product_def upt_rec)

lemma grid_rect: "rect [0, 1] [2, 2] = [[0, 1], [0, 2], [1, 1], [1, 2]]" "rect [1] [2] = [[1], [2::int]]"
  by (simp_all add: upto_rec1)

lemma grid_data: "data_ok grid_file grid_var NC_SHORT (length (mio_bytes sample_mio)) [0, 1] [2, 2]"
  "data_ok grid_file series_var NC_SHORT (length (mio_bytes sample_mio)) [1] [2]" "rec_room grid_file grid_var" "rec_room grid_file series_var"
  unfolding sample_mio_ok(2) data_ok_def grid_rect
  by (simp_all add: grid_shaped grid_rec grid_sel type_bytes_SHORT slab_in_def slab_ok_def elem_offset_def suffix_product_def rec_room_def less_Suc_eq numeral_2_eq_2)

lemma grid_access: "access_ok grid_file 0 grid_var NC_INT NC_SHORT" "access_ok grid_file 1 series_var NC_INT NC_SHORT"
  "args_ok False grid_var [0, 1] [2, 2]" "args_ok True series_var [1] [2]"
  by (simp_all add: access_ok_def grid_sel grid_rec case_ext_def args_ok_def less_Suc_eq)

lemma vara_checks_exact_witness:
  "\<not> (NCcoordck True null_io grid_file grid_var [1, 18446744073709551615] () = Done (NC_NOERR, grid_file, ()) \<and> NCedgeck True grid_file grid_var [1, 18446744073709551615] [1, 2] = Done NC_NOERR)"
  using vara_checks_exact [OF grid_shaped(1) grid_rec(1), of "[1, 18446744073709551615]" "[1, 2]" True null_io grid_file "()"]
  by (auto simp: grid_rec suffix_product_def less_Suc_eq numeral_2_eq_2)

lemma NC3_get_vara_elements_witness:
  "\<exists>mio'. NC3_get_vara (\<lambda>t x. 0) False (memio_io 4096 (\<lambda>n. None)) (memory_files grid_file) 65536 0 [0, 1] (Some [2, 2]) NC_INT =
    Done (NC_NOERR, map Some [31354, 31354, 31354, 31354], update_file (memory_files grid_file) 65536 grid_file mio')"
proof -
  have "take 2 (drop n (mio_bytes sample_mio)) = ''zz''" if "n \<le> 510" for n
    using that unfolding mio_bytes_def sample_mio_def by (simp add: min_def numeral_2_eq_2)
  then have "slab_values grid_file grid_var NC_SHORT (mio_bytes sample_mio) [0, 1] [2, 2] = [31354, 31354, 31354, 31354]"
    unfolding slab_values_def grid_rect
    by (simp add: elem_at_def elem_offset_def grid_rec type_bytes_SHORT suffix_product_def ext_value_def unbe_def type_wrap_def type_min_def is_signed_def of_char_def)
  then show ?thesis
    using NC3_get_vara_elements [OF memory_files_open grid_access(1,3) grid_data(1) sample_mio_ok(1), of "\<lambda>t x. 0" 4096 "\<lambda>n. None"]
    by (auto simp: getn_values_def range_status_def mem_type_def conv_get_def is_float_def in_type_def type_min_def type_max_def is_signed_def type_bytes_def type_wrap_def)
qed


lemma NC3_put_get_vara_witness:
  "\<exists>fs1 fs2. NC3_put_vara sample_env (\<lambda>t x. 0) True (memio_io 4096 (\<lambda>n. None)) (memory_files grid_file) 65536 1 [1] (Some [2]) [-5, 600] NC_INT = Done (NC_NOERR, (), fs1) \<and>
    NC3_get_vara (\<lambda>t x. 0) True (memio_io 4096 (\<lambda>n. None)) fs1 65536 1 [1] (Some [2]) NC_INT = Done (NC_NOERR, map Some [-5, 600], fs2)"
proof (rule NC3_put_get_vara [OF memory_files_open grid_sel(1) grid_access(2,4) grid_data(2,4) sample_mio_ok(1)])
  show "length [- 5, 600::int] = length (rect [1] [2])" unfolding grid_rect by simp
qed (simp_all add: integer_type_def putn_status_def range_status_def conv_put_def is_float_def in_type_def type_min_def type_max_def is_signed_def type_bytes_def)

lemma NC_varoffset_apart_witness:
  "\<exists>off off'. NC_varoffset grid_file grid_var [0, 2] = Done off \<and> NC_varoffset grid_file grid_var [1, 1] = Done off' \<and> 2 \<le> \<bar>off - off'\<bar>"
  using NC_varoffset_apart [OF grid_data(1,3), of "[0, 2]" "[1, 1]"] by (fastforce simp: grid_rect type_bytes_SHORT)

lemma vara_loop_visits_witness:
  "get_rows (vara_fuel [2, 2] 0) (\<lambda>c s. Done (NC_NOERR, map Some c, s)) [0, 1] (set_upper [0, 1] [2, 2] 2) 0 [0, 1] NC_NOERR () =
    Done (NC_NOERR, map Some [0, 1, 1, 1], ())"
proof -
  have "slab_ok [0, 1] [2, 2]" by (simp add: slab_ok_def less_Suc_eq)
  from vara_loop_visits [OF this, of 0 "\<lambda>c s. Done (NC_NOERR, map Some c, s)" NC_NOERR "()"] show ?thesis by (simp add: upto_rec1 numeral_2_eq_2)
qed

lemma NC3_put_vara_nothing_grows_witness:
  "NC3_put_vara sample_env (\<lambda>t x. 0) True (memio_io 4096 (\<lambda>n. None)) (memory_files grid_file) 65536 1 [1000000] (Some [0]) [] NC_INT =
    Done (NC_NOERR, (), update_file (memory_files grid_file) 65536 ((set_NC_ndirty grid_file)\<lparr>numrecs := 1000000\<rparr>) sample_mio)"
  by (rule NC3_put_vara_nothing_grows [OF memory_files_open grid_sel(1) grid_access(2) grid_shaped(2) grid_rec(2,4) grid_sel(3,4)]) (simp_all add: grid_sel)

lemma NC3_get_vara_start_wraps_witness:
  "NC3_get_vara (\<lambda>t x. 0) True (memio_io 4096 (\<lambda>n. None)) (memory_files grid_file) 65536 1 [1] (Some [18446744073709551615]) NC_INT =
    run_bind (readNCv (\<lambda>t x. 0) (memio_io 4096 (\<lambda>n. None)) grid_file series_var [1] 18446744073709551615 NC_INT sample_mio)
      (\<lambda>(status, vs, s1). Done (status, vs, update_file (memory_files grid_file) 65536 grid_file s1))"
  by (rule NC3_get_vara_start_wraps [OF memory_files_open grid_access(2) grid_shaped(2) grid_rec(2,4)]) (simp_all add: grid_sel grid_rec u64_def)

end
