(* ===== verification/NC_Vars.thy ===== *)
theory NC_Vars
  imports NC3_Transfer NC3_Attval
begin

text \<open>
  The calls on values above the dispatch table, \<open>libdispatch/dvarget.c\<close> and \<open>dvarput.c\<close>, for a classic file: \<open>NULL\<close> arguments, whole
  variables, single values, and strided access, which for the classic formats is a loop over single values. The arrays of the caller are
  lists, \<open>None\<close> is \<open>NULL\<close>; reading behind the end of one is a \<open>Fault\<close>.
\<close>

subsection \<open>Shapes\<close>

text \<open>\<open>NC_is_recvar\<close>: the number of records, for a record variable.\<close>

definition NC_is_recvar :: "'s nc3_files \<Rightarrow> int \<Rightarrow> int \<Rightarrow> (int option \<times> 's nc3_files) run" where
  "NC_is_recvar fs ncid varid = run_bind (NC3_inq_unlimdim fs ncid) (\<lambda>(status, u, fs1). case u of None \<Rightarrow> Done (None, fs1)
     | Some unlimid \<Rightarrow> run_bind (NC3_inq_var fs1 ncid varid) (\<lambda>(status, r, fs2). case r of None \<Rightarrow> Done (None, fs2)
     | Some (nm, xtype, dimset, rest) \<Rightarrow> if dimset = [] then Done (None, fs2)
     else run_bind (NC3_inq_dim fs2 ncid (hd dimset)) (\<lambda>(status, d, fs3). case d of None \<Rightarrow> Done (None, fs3)
     | Some (nm, nrecs) \<Rightarrow> Done (if hd dimset = unlimid then Some nrecs else None, fs3))))"

text \<open>
  \<open>NC_inq_recvar\<close> without \<open>USE_NETCDF4\<close>. The number of record dimensions, which a file without an unlimited dimension leaves unset, is not
  among the results: its only caller tests it together with a flag.
\<close>

definition NC_inq_recvar :: "'s nc3_files \<Rightarrow> int \<Rightarrow> int \<Rightarrow> (int \<times> bool list \<times> 's nc3_files) run" where
  "NC_inq_recvar fs ncid varid = run_bind (NC3_inq_var fs ncid varid) (\<lambda>(status, r, fs1). case r of None \<Rightarrow> Done (status, [], fs1)
     | Some (nm, xtype, dimset, rest) \<Rightarrow> if dimset = [] then Done (NC_NOERR, [], fs1)
     else run_bind (NC3_inq_unlimdim fs1 ncid) (\<lambda>(status, u, fs2). case u of None \<Rightarrow> Done (status, [], fs2)
     | Some unlimid \<Rightarrow> if unlimid = -1 then Done (status, map (\<lambda>_. False) dimset, fs2)
     else Done (NC_NOERR, (hd dimset = unlimid) # map (\<lambda>_. False) (tl dimset), fs2)))"

primrec shape_loop :: "'s nc3_files \<Rightarrow> int \<Rightarrow> int list \<Rightarrow> (int \<times> int list \<times> 's nc3_files) run" where
  "shape_loop fs ncid [] = Done (NC_NOERR, [], fs)"
| "shape_loop fs ncid (dimid # dimids) = run_bind (NC3_inq_dim fs ncid dimid) (\<lambda>(status, d, fs1). case d of None \<Rightarrow> Done (status, [], fs1)
     | Some (nm, len) \<Rightarrow> run_bind (shape_loop fs1 ncid dimids) (\<lambda>(status, shape, fs2). Done (status, len # shape, fs2)))"

definition NC_getshape :: "'s nc3_files \<Rightarrow> int \<Rightarrow> int \<Rightarrow> nat \<Rightarrow> (int \<times> int list \<times> 's nc3_files) run" where
  "NC_getshape fs ncid varid ndims = run_bind (NC3_inq_var fs ncid varid) (\<lambda>(status, r, fs1). case r of None \<Rightarrow> Done (status, [], fs1)
     | Some (nm, xtype, dimids, rest) \<Rightarrow> shape_loop fs1 ncid (take ndims dimids))"

text \<open>
  \<open>NC_check_nulls\<close>: a \<open>NULL\<close> count means the whole variable. \<open>stride\<close> is \<open>None\<close> where the caller has no strides and \<open>Some None\<close> where its
  strides are \<open>NULL\<close>. In that case the code writes \<open>*stride[i] = 1\<close>, not \<open>(*stride)[i] = 1\<close>: from the second dimension on it takes what lies
  behind the caller's pointer for another pointer.
\<close>

definition NC_check_nulls :: "nc_env \<Rightarrow> 's nc3_files \<Rightarrow> int \<Rightarrow> int \<Rightarrow> int list option \<Rightarrow> int list option \<Rightarrow> int list option option \<Rightarrow>
    (int \<times> (int list option \<times> int list option option) \<times> 's nc3_files) run" where
  "NC_check_nulls E fs ncid varid start count stride = run_bind (NC3_inq_var fs ncid varid) (\<lambda>(status, r, fs1). case r of
       None \<Rightarrow> Done (status, (count, stride), fs1)
     | Some (nm, xtype, dimids, rest) \<Rightarrow> let varndims = length dimids in
       if start = None \<and> varndims \<noteq> 0 then Done (NC_EINVALCOORDS, (count, stride), fs1)
       else run_bind (case count of Some c \<Rightarrow> Done (NC_NOERR, count, fs1)
           | None \<Rightarrow> if \<not> env_mem E (8 * varndims) then Done (NC_ENOMEM, None, fs1)
               else run_bind (NC_getshape fs1 ncid varid varndims) (\<lambda>(stat, shape, fs2).
                 if stat \<noteq> NC_NOERR then Done (stat, None, fs2) else Done (NC_NOERR, Some shape, fs2)))
         (\<lambda>(stat, count1, fs2). if stat \<noteq> NC_NOERR then Done (stat, (count1, stride), fs2)
           else if stride \<noteq> Some None then Done (NC_NOERR, (count1, stride), fs2)
           else if \<not> env_mem E (8 * varndims) then Done (NC_ENOMEM, (count1, stride), fs2)
           else if 2 \<le> varndims then Fault else Done (NC_NOERR, (count1, Some (Some (replicate varndims 1))), fs2)))"

subsection \<open>Rectangles and single values\<close>

definition NC_get_vara :: "nc_env \<Rightarrow> (int \<Rightarrow> fval \<Rightarrow> int) \<Rightarrow> bool \<Rightarrow> 's ncio \<Rightarrow> 's nc3_files \<Rightarrow> int \<Rightarrow> int \<Rightarrow> int list option \<Rightarrow> int list option \<Rightarrow> int \<Rightarrow>
    (int \<times> int option list \<times> 's nc3_files) run" where
  "NC_get_vara E ub relax io fs ncid varid start edges memtype =
     run_bind (if start = None \<or> edges = None then NC_check_nulls E fs ncid varid start edges None else Done (NC_NOERR, (edges, None), fs))
       (\<lambda>(stat, (my_count, u), fs1). if stat \<noteq> NC_NOERR then Done (stat, [], fs1)
         else NC3_get_vara ub relax io fs1 ncid varid (case start of None \<Rightarrow> [] | Some st \<Rightarrow> st) my_count memtype)"

definition NC_put_vara :: "nc_env \<Rightarrow> (int \<Rightarrow> fval \<Rightarrow> int) \<Rightarrow> bool \<Rightarrow> 's ncio \<Rightarrow> 's nc3_files \<Rightarrow> int \<Rightarrow> int \<Rightarrow> int list option \<Rightarrow> int list option \<Rightarrow> int list \<Rightarrow> int \<Rightarrow>
    (int \<times> unit \<times> 's nc3_files) run" where
  "NC_put_vara E ub relax io fs ncid varid start edges vs memtype =
     run_bind (if start = None \<or> edges = None then NC_check_nulls E fs ncid varid start edges None else Done (NC_NOERR, (edges, None), fs))
       (\<lambda>(stat, (my_count, u), fs1). if stat \<noteq> NC_NOERR then Done (stat, (), fs1)
         else NC3_put_vara E ub relax io fs1 ncid varid (case start of None \<Rightarrow> [] | Some st \<Rightarrow> st) my_count vs memtype)"

text \<open>\<open>NC_coord_zero\<close> and \<open>NC_coord_one\<close> have an entry for every dimension a variable may have.\<close>

definition NC_get_var :: "nc_env \<Rightarrow> (int \<Rightarrow> fval \<Rightarrow> int) \<Rightarrow> bool \<Rightarrow> 's ncio \<Rightarrow> 's nc3_files \<Rightarrow> int \<Rightarrow> int \<Rightarrow> int \<Rightarrow> (int \<times> int option list \<times> 's nc3_files) run" where
  "NC_get_var E ub relax io fs ncid varid memtype = NC_get_vara E ub relax io fs ncid varid (Some (replicate 1024 0)) None memtype"

definition NC_put_var :: "nc_env \<Rightarrow> (int \<Rightarrow> fval \<Rightarrow> int) \<Rightarrow> bool \<Rightarrow> 's ncio \<Rightarrow> 's nc3_files \<Rightarrow> int \<Rightarrow> int \<Rightarrow> int list \<Rightarrow> int \<Rightarrow> (int \<times> unit \<times> 's nc3_files) run" where
  "NC_put_var E ub relax io fs ncid varid vs memtype = run_bind (NC3_inq_var fs ncid varid) (\<lambda>(stat, r, fs1). case r of None \<Rightarrow> Done (stat, (), fs1)
     | Some (nm, xtype, dimids, rest) \<Rightarrow> run_bind (NC_getshape fs1 ncid varid (length dimids)) (\<lambda>(stat, shape, fs2).
         if stat \<noteq> NC_NOERR then Done (stat, (), fs2)
         else NC_put_vara E ub relax io fs2 ncid varid (Some (replicate 1024 0)) (Some shape) vs memtype))"

definition NC_get_var1 :: "nc_env \<Rightarrow> (int \<Rightarrow> fval \<Rightarrow> int) \<Rightarrow> bool \<Rightarrow> 's ncio \<Rightarrow> 's nc3_files \<Rightarrow> int \<Rightarrow> int \<Rightarrow> int list option \<Rightarrow> int \<Rightarrow>
    (int \<times> int option list \<times> 's nc3_files) run" where
  "NC_get_var1 E ub relax io fs ncid varid coord memtype = NC_get_vara E ub relax io fs ncid varid coord (Some (replicate 1024 1)) memtype"

definition NC_put_var1 :: "nc_env \<Rightarrow> (int \<Rightarrow> fval \<Rightarrow> int) \<Rightarrow> bool \<Rightarrow> 's ncio \<Rightarrow> 's nc3_files \<Rightarrow> int \<Rightarrow> int \<Rightarrow> int list option \<Rightarrow> int list \<Rightarrow> int \<Rightarrow>
    (int \<times> unit \<times> 's nc3_files) run" where
  "NC_put_var1 E ub relax io fs ncid varid coord vs memtype = NC_put_vara E ub relax io fs ncid varid coord (Some (replicate 1024 1)) vs memtype"

subsection \<open>The odometer\<close>

text \<open>\<open>struct GETodometer\<close> and \<open>struct PUTodometer\<close>, the arrays as far as they are used.\<close>

record odometer =
  odo_rank :: nat
  odo_index :: "int list"
  odo_start :: "int list"
  odo_edges :: "int list"
  odo_stride :: "int list"
  odo_stop :: "int list"

definition odom_init :: "nat \<Rightarrow> int list \<Rightarrow> int list \<Rightarrow> int list \<Rightarrow> odometer" where
  "odom_init rank start edges stride = \<lparr>odo_rank = rank, odo_index = take rank start, odo_start = take rank start, odo_edges = take rank edges,
     odo_stride = take rank stride, odo_stop = map (\<lambda>i. u64 (start ! i + u64 (edges ! i * u64 (stride ! i)))) [0..<rank]\<rparr>"

definition odom_more :: "odometer \<Rightarrow> bool" where
  "odom_more odom \<longleftrightarrow> odo_rank odom \<noteq> 0 \<and> odo_index odom ! 0 < odo_stop odom ! 0"

primrec odom_carry :: "int list \<Rightarrow> int list \<Rightarrow> int list \<Rightarrow> nat \<Rightarrow> int list \<Rightarrow> bool \<times> int list" where
  "odom_carry start stride stop 0 index = (let n = u64 (index ! 0 + u64 (stride ! 0)) in (n < stop ! 0, index[0 := n]))"
| "odom_carry start stride stop (Suc i) index = (let n = u64 (index ! Suc i + u64 (stride ! Suc i)) in
     if n < stop ! Suc i then (True, index[Suc i := n]) else odom_carry start stride stop i (index[Suc i := start ! Suc i]))"

definition odom_next :: "odometer \<Rightarrow> bool \<times> odometer" where
  "odom_next odom = (if odo_rank odom = 0 then (False, odom)
     else let (more, index) = odom_carry (odo_start odom) (odo_stride odom) (odo_stop odom) (odo_rank odom - 1) (odo_index odom) in
       (more, odom\<lparr>odo_index := index\<rparr>))"

text \<open>The loops; errors are collected, a serious one wins over \<open>NC_ERANGE\<close>. A value that could not be read leaves its place in memory as it is.\<close>

definition later_status :: "int \<Rightarrow> int \<Rightarrow> int" where
  "later_status status localstatus = (if localstatus \<noteq> NC_NOERR \<and> (status = NC_NOERR \<or> localstatus \<noteq> NC_ERANGE) then localstatus else status)"

primrec odo_get :: "nat \<Rightarrow> (int list \<Rightarrow> 's \<Rightarrow> (int \<times> int option list \<times> 's) run) \<Rightarrow> odometer \<Rightarrow> int \<Rightarrow> 's \<Rightarrow> (int \<times> int option list \<times> 's) run" where
  "odo_get 0 rd odom status s = Loop"
| "odo_get (Suc fuel) rd odom status s = (if \<not> odom_more odom then Done (status, [], s)
     else run_bind (rd (odo_index odom) s) (\<lambda>(localstatus, vs, s1).
       run_bind (odo_get fuel rd (snd (odom_next odom)) (later_status status localstatus) s1) (\<lambda>(st, vs', s2).
         Done (st, (case vs of [] \<Rightarrow> None | v # _ \<Rightarrow> v) # vs', s2))))"

primrec odo_put :: "nat \<Rightarrow> (int list \<Rightarrow> int list \<Rightarrow> 's \<Rightarrow> (int \<times> unit \<times> 's) run) \<Rightarrow> odometer \<Rightarrow> int list \<Rightarrow> int \<Rightarrow> 's \<Rightarrow> (int \<times> unit \<times> 's) run" where
  "odo_put 0 wr odom vs status s = Loop"
| "odo_put (Suc fuel) wr odom vs status s = (if \<not> odom_more odom then Done (status, (), s)
     else run_bind (wr (odo_index odom) vs s) (\<lambda>(localstatus, u, s1).
       odo_put fuel wr (snd (odom_next odom)) (drop 1 vs) (later_status status localstatus) s1))"

definition vars_fuel :: "int list \<Rightarrow> nat" where
  "vars_fuel edges = nat (prod_list (map (max 0) edges)) + 1"

subsection \<open>Strided access\<close>

text \<open>The checks of the types both directions share.\<close>

definition vars_types :: "int \<Rightarrow> int \<Rightarrow> int" where
  "vars_types vartype memtype = (if vartype \<le> 0 \<or> NC_STRING < vartype then NC_EBADTYPE else if vartype = memtype then NC_NOERR
     else if NC_STRING < memtype then NC_EBADTYPE else if memtype = NC_CHAR \<or> vartype = NC_CHAR then NC_ECHAR else NC_NOERR)"

text \<open>
  The checks of the arguments, dimension by dimension. The end of the rectangle is checked as if the strides were 1. A writer does not
  check the record dimension.
\<close>

fun vars_check :: "bool \<Rightarrow> bool list \<Rightarrow> int list \<Rightarrow> int list \<Rightarrow> int list \<Rightarrow> int list \<Rightarrow> int" where
  "vars_check relax (free # frees) (dimlen # dimlens) (st # start) (e # edges) (sd # stride) =
     (if \<not> free \<and> beyond relax st dimlen then NC_EINVALCOORDS
      else if \<not> free \<and> relax \<and> st = dimlen \<and> 0 < e then NC_EINVALCOORDS
      else if \<not> free \<and> dimlen < u64 (st + e) then NC_EEDGE
      else if sd \<le> 0 \<or> X_INT_MAX \<le> sd then NC_ESTRIDE
      else vars_check relax frees dimlens start edges stride)"
| "vars_check relax _ _ _ _ _ = NC_NOERR"

text \<open>The arguments with \<open>NULL\<close> counts and strides filled in; \<open>dimlens\<close> has the number of records for the record dimension.\<close>

definition vars_edges :: "int list \<Rightarrow> int list \<Rightarrow> int list option \<Rightarrow> int list" where
  "vars_edges dimlens start edges = (case edges of Some e \<Rightarrow> take (length dimlens) e | None \<Rightarrow> map (\<lambda>(d, st). u64 (d - st)) (zip dimlens start))"

definition vars_stride :: "int list \<Rightarrow> int list option \<Rightarrow> int list" where
  "vars_stride dimlens stride = (case stride of Some sd \<Rightarrow> take (length dimlens) sd | None \<Rightarrow> replicate (length dimlens) 1)"

definition long_enough :: "nat \<Rightarrow> int list option \<Rightarrow> bool" where
  "long_enough rank a \<longleftrightarrow> (case a of None \<Rightarrow> True | Some xs \<Rightarrow> rank \<le> length xs)"

definition NCDEFAULT_get_vars :: "nc_env \<Rightarrow> (int \<Rightarrow> fval \<Rightarrow> int) \<Rightarrow> bool \<Rightarrow> 's ncio \<Rightarrow> 's nc3_files \<Rightarrow> int \<Rightarrow> int \<Rightarrow> int list option \<Rightarrow> int list option \<Rightarrow>
    int list option \<Rightarrow> int \<Rightarrow> (int \<times> int option list \<times> 's nc3_files) run" where
  "NCDEFAULT_get_vars E ub relax io fs ncid varid start edges stride memtype0 = run_bind (NC3_inq_var fs ncid varid) (\<lambda>(status, r, fs1). case r of
       None \<Rightarrow> Done (status, [], fs1)
     | Some (nm, vartype, dimids, rest) \<Rightarrow> let memtype = (if memtype0 = 0 then vartype else memtype0); rank = length dimids in
       if vars_types vartype memtype \<noteq> NC_NOERR then Done (vars_types vartype memtype, [], fs1)
       else if 0 < rank \<and> start = None then Done (NC_EINVALCOORDS, [], fs1)
       else run_bind (NC_is_recvar fs1 ncid varid) (\<lambda>(numrecs, fs2). run_bind (NC_getshape fs2 ncid varid rank) (\<lambda>(st, varshape, fs3).
         if rank = 0 then NC_get_vara E ub relax io fs3 ncid varid start (Some [1]) memtype
         else assert_run (length varshape = rank \<and> int rank \<le> NC_MAX_VAR_DIMS \<and> long_enough rank start \<and> long_enough rank edges \<and> long_enough rank stride)
           (let dimlens = (case numrecs of Some n \<Rightarrow> n # tl varshape | None \<Rightarrow> varshape); mystart = take rank (the start);
              myedges = vars_edges dimlens mystart edges; mystride = vars_stride dimlens stride;
              st = vars_check relax (map (\<lambda>_. False) dimlens) dimlens mystart myedges mystride in
            if st \<noteq> NC_NOERR then Done (st, [], fs3)
            else if 0 \<in> set myedges then Done (NC_NOERR, [], fs3)
            else if \<forall>sd \<in> set mystride. sd = 1 then NC_get_vara E ub relax io fs3 ncid varid (Some mystart) (Some myedges) memtype
            else odo_get (vars_fuel myedges) (\<lambda>index fs. NC_get_vara E ub relax io fs ncid varid (Some index) (Some (replicate 1024 1)) memtype)
              (odom_init rank mystart myedges mystride) NC_NOERR fs3))))"

definition NCDEFAULT_put_vars :: "nc_env \<Rightarrow> (int \<Rightarrow> fval \<Rightarrow> int) \<Rightarrow> bool \<Rightarrow> 's ncio \<Rightarrow> 's nc3_files \<Rightarrow> int \<Rightarrow> int \<Rightarrow> int list option \<Rightarrow> int list option \<Rightarrow>
    int list option \<Rightarrow> int list \<Rightarrow> int \<Rightarrow> (int \<times> unit \<times> 's nc3_files) run" where
  "NCDEFAULT_put_vars E ub relax io fs ncid varid start edges stride vs memtype0 = run_bind (NC3_inq_var fs ncid varid) (\<lambda>(status, r, fs1). case r of
       None \<Rightarrow> Done (status, (), fs1)
     | Some (nm, vartype, dimids, rest) \<Rightarrow> let memtype = (if memtype0 = 0 then vartype else memtype0); rank = length dimids in
       if vars_types vartype memtype \<noteq> NC_NOERR then Done (vars_types vartype memtype, (), fs1)
       else if 0 < rank \<and> start = None then Done (NC_EINVALCOORDS, (), fs1)
       else run_bind (NC_inq_recvar fs1 ncid varid) (\<lambda>(st, is_recdim, fs2). if st \<noteq> NC_NOERR then Done (st, (), fs2)
       else run_bind (NC_getshape fs2 ncid varid rank) (\<lambda>(st, varshape, fs3).
         if rank = 0 then NC_put_vara E ub relax io fs3 ncid varid start (Some [1]) vs memtype
         else assert_run (length varshape = rank \<and> int rank \<le> NC_MAX_VAR_DIMS \<and> long_enough rank start \<and> long_enough rank edges \<and> long_enough rank stride)
           (let mystart = take rank (the start); myedges = vars_edges varshape mystart edges; mystride = vars_stride varshape stride;
              st = vars_check relax is_recdim varshape mystart myedges mystride in
            if st \<noteq> NC_NOERR then Done (st, (), fs3)
            else if \<forall>sd \<in> set mystride. sd = 1 then NC_put_vara E ub relax io fs3 ncid varid (Some mystart) (Some myedges) vs memtype
            else if foldl (\<lambda>n e. u64 (n * e)) 1 myedges = 0 then Done (NC_NOERR, (), fs3)
            else odo_put (vars_fuel myedges) (\<lambda>index vs fs. NC_put_vara E ub relax io fs ncid varid (Some index) (Some (replicate 1024 1)) vs memtype)
              (odom_init rank mystart myedges mystride) vs NC_NOERR fs3))))"

text \<open>\<open>NC_get_vars\<close> and \<open>NC_put_vars\<close>, which all the calls \<open>nc_get_vars_int\<close>, \<open>nc_put_vars_double\<close> and so on are.\<close>

definition NC_get_vars :: "nc_env \<Rightarrow> (int \<Rightarrow> fval \<Rightarrow> int) \<Rightarrow> bool \<Rightarrow> 's ncio \<Rightarrow> 's nc3_files \<Rightarrow> int \<Rightarrow> int \<Rightarrow> int list option \<Rightarrow> int list option \<Rightarrow>
    int list option \<Rightarrow> int \<Rightarrow> (int \<times> int option list \<times> 's nc3_files) run" where
  "NC_get_vars E ub relax io fs ncid varid start edges stride memtype =
     run_bind (if start = None \<or> edges = None \<or> stride = None then NC_check_nulls E fs ncid varid start edges (Some stride)
       else Done (NC_NOERR, (edges, Some stride), fs)) (\<lambda>(stat, (my_count, my_stride), fs1). if stat \<noteq> NC_NOERR then Done (stat, [], fs1)
         else NCDEFAULT_get_vars E ub relax io fs1 ncid varid start my_count (the my_stride) memtype)"

definition NC_put_vars :: "nc_env \<Rightarrow> (int \<Rightarrow> fval \<Rightarrow> int) \<Rightarrow> bool \<Rightarrow> 's ncio \<Rightarrow> 's nc3_files \<Rightarrow> int \<Rightarrow> int \<Rightarrow> int list option \<Rightarrow> int list option \<Rightarrow>
    int list option \<Rightarrow> int list \<Rightarrow> int \<Rightarrow> (int \<times> unit \<times> 's nc3_files) run" where
  "NC_put_vars E ub relax io fs ncid varid start edges stride vs memtype =
     run_bind (if start = None \<or> edges = None \<or> stride = None then NC_check_nulls E fs ncid varid start edges (Some stride)
       else Done (NC_NOERR, (edges, Some stride), fs)) (\<lambda>(stat, (my_count, my_stride), fs1). if stat \<noteq> NC_NOERR then Done (stat, (), fs1)
         else NCDEFAULT_put_vars E ub relax io fs1 ncid varid start my_count (the my_stride) vs memtype)"

end
