(* ===== verification/NC_Varm.thy ===== *)
theory NC_Varm
  imports NC_Vars
begin

text \<open>
  Mapped access, \<open>NC_get_varm\<close> and \<open>NC_put_varm\<close> of \<open>libdispatch/dvarget.c\<close> and \<open>dvarput.c\<close>: a strided rectangle of a variable, whose elements
  are spread over the memory of the caller with one step, in elements, for each dimension. The caller's array is the list \<open>mem\<close>, \<open>value0\<close> points
  to its element \<open>base\<close>; the pointer \<open>value\<close> of the loops is kept as its distance in bytes from \<open>value0\<close>, modulo 64 bits.
\<close>

definition nctypelen :: "int \<Rightarrow> int" where
  "nctypelen type = (if type \<in> {NC_CHAR, NC_BYTE, NC_UBYTE} then 1 else if type \<in> {NC_SHORT, NC_USHORT} then 2
     else if type \<in> {NC_INT, NC_FLOAT, NC_UINT} then 4 else if type \<in> {NC_DOUBLE, NC_INT64, NC_UINT64} then 8 else -1)"

subsection \<open>The caller's memory\<close>

text \<open>A value that was not read leaves its place as it is; storing outside of the array is a \<open>Fault\<close>, and so is reading there.\<close>

primrec mem_store :: "int list \<Rightarrow> int \<Rightarrow> int option list \<Rightarrow> int list run" where
  "mem_store mem p [] = Done mem"
| "mem_store mem p (v # vs) = (case v of None \<Rightarrow> mem_store mem (p + 1) vs
     | Some x \<Rightarrow> if 0 \<le> p \<and> p < int (length mem) then mem_store (mem[nat p := x]) (p + 1) vs else Fault)"

definition mem_from :: "int list \<Rightarrow> int \<Rightarrow> int list" where
  "mem_from mem p = (if p < 0 then [] else drop (nat p) mem)"

text \<open>The element of the caller's array \<open>value\<close> points to.\<close>

definition elem_index :: "nat \<Rightarrow> int \<Rightarrow> int \<Rightarrow> int" where
  "elem_index base memtypelen off = int base + s64 off div memtypelen"

subsection \<open>The arguments\<close>

text \<open>The checks of one dimension after the other. The reader goes from the last to the first, the writer from the first one that is not the record dimension.\<close>

fun varm_check :: "bool \<Rightarrow> int list \<Rightarrow> int list \<Rightarrow> int list \<Rightarrow> int" where
  "varm_check relax (dimlen # dimlens) (st # start) (e # edges) =
     (if beyond relax st dimlen \<or> relax \<and> st = dimlen \<and> 0 < e then NC_EINVALCOORDS
      else if dimlen < u64 (st + e) then NC_EEDGE else varm_check relax dimlens start edges)"
| "varm_check relax _ _ _ = NC_NOERR"

definition varm_strides_ok :: "int list \<Rightarrow> bool" where
  "varm_strides_ok stride \<longleftrightarrow> (\<forall>sd \<in> set stride. sd \<noteq> 0 \<and> u64 sd < X_INT_MAX)"

text \<open>Without a map the values are dense, the last dimension fastest.\<close>

fun dense_map :: "int list \<Rightarrow> int list" where
  "dense_map [] = []"
| "dense_map [e] = [1]"
| "dense_map (e # e' # edges) = (let m = dense_map (e' # edges) in s64 (hd m * s64 e') # m)"

text \<open>The arrays \<open>stop\<close>, \<open>length\<close>, \<open>mystride\<close>, \<open>mymap\<close> and \<open>iocount\<close>, before and after the adjustment for a last dimension that is dense on both sides.\<close>

record varm_arrays =
  vm_stop :: "int list"
  vm_length :: "int list"
  vm_stride :: "int list"
  vm_map :: "int list"
  vm_iocount :: "int list"

definition varm_init :: "int list \<Rightarrow> int list \<Rightarrow> int list \<Rightarrow> int list \<Rightarrow> varm_arrays" where
  "varm_init start edges stride imap = (let rank = length start; m = rank - 1;
     A = \<lparr>vm_stop = map (\<lambda>i. u64 (start ! i + u64 (edges ! i * u64 (stride ! i)))) [0..<rank], vm_length = map (\<lambda>i. u64 (u64 (imap ! i) * edges ! i)) [0..<rank],
       vm_stride = stride, vm_map = imap, vm_iocount = replicate rank 1\<rparr> in
     if stride ! m = 1 \<and> imap ! m = 1 then A\<lparr>vm_iocount := (vm_iocount A)[m := edges ! m], vm_stride := stride[m := s64 (edges ! m)], vm_map := imap[m := s64 (vm_length A ! m)]\<rparr>
     else A)"

subsection \<open>The loops\<close>

text \<open>
  From \<open>carry:\<close> on: \<open>None\<close> is the normal end. The caller's \<open>start\<close> is read again where a dimension is done. The step in memory of the reader is
  the product of two \<open>int\<close>s, which wraps; the writer's is a \<open>ptrdiff_t\<close>.
\<close>

definition get_step :: "int \<Rightarrow> int \<Rightarrow> int" where
  "get_step memtypelen m = s32 (s32 m * memtypelen)"

definition put_step :: "int \<Rightarrow> int \<Rightarrow> int" where
  "put_step memtypelen m = s64 (m * memtypelen)"

primrec varm_carry :: "(int \<Rightarrow> int) \<Rightarrow> int \<Rightarrow> varm_arrays \<Rightarrow> int list option \<Rightarrow> nat \<Rightarrow> int list \<Rightarrow> int \<Rightarrow> (int list \<times> int) option run" where
  "varm_carry step memtypelen A start 0 mystart off = (let off1 = u64 (off + step (vm_map A ! 0)); n = u64 (mystart ! 0 + u64 (vm_stride A ! 0)) in
     if n = vm_stop A ! 0 then (case start of None \<Rightarrow> Fault | Some st \<Rightarrow> Done None) else Done (Some (mystart[0 := n], off1)))"
| "varm_carry step memtypelen A start (Suc i) mystart off = (let off1 = u64 (off + step (vm_map A ! Suc i)); n = u64 (mystart ! Suc i + u64 (vm_stride A ! Suc i)) in
     if n = vm_stop A ! Suc i then (case start of None \<Rightarrow> Fault
       | Some st \<Rightarrow> varm_carry step memtypelen A start i (mystart[Suc i := st ! Suc i]) (u64 (off1 - u64 (vm_length A ! Suc i * u64 memtypelen))))
     else Done (Some (mystart[Suc i := n], off1)))"

primrec varm_get :: "nat \<Rightarrow> (int list \<Rightarrow> 's \<Rightarrow> (int \<times> int option list \<times> 's) run) \<Rightarrow> (int list \<Rightarrow> int \<Rightarrow> (int list \<times> int) option run) \<Rightarrow> (int \<Rightarrow> int) \<Rightarrow>
    int list \<Rightarrow> int \<Rightarrow> int list \<Rightarrow> int \<Rightarrow> 's \<Rightarrow> (int \<times> int list \<times> 's) run" where
  "varm_get 0 rd carry index mystart off mem status s = Loop"
| "varm_get (Suc fuel) rd carry index mystart off mem status s = run_bind (rd mystart s) (\<lambda>(lstatus, vs, s1).
     run_bind (mem_store mem (index off) vs) (\<lambda>mem1. run_bind (carry mystart off) (\<lambda>next. case next of None \<Rightarrow> Done (later_status status lstatus, mem1, s1)
       | Some (mystart1, off1) \<Rightarrow> varm_get fuel rd carry index mystart1 off1 mem1 (later_status status lstatus) s1)))"

primrec varm_put :: "nat \<Rightarrow> (int list \<Rightarrow> int list \<Rightarrow> 's \<Rightarrow> (int \<times> unit \<times> 's) run) \<Rightarrow> (int list \<Rightarrow> int \<Rightarrow> (int list \<times> int) option run) \<Rightarrow> (int \<Rightarrow> int) \<Rightarrow>
    int list \<Rightarrow> int \<Rightarrow> int list \<Rightarrow> int \<Rightarrow> 's \<Rightarrow> (int \<times> unit \<times> 's) run" where
  "varm_put 0 wr carry index mystart off mem status s = Loop"
| "varm_put (Suc fuel) wr carry index mystart off mem status s = run_bind (wr mystart (mem_from mem (index off)) s) (\<lambda>(lstatus, u, s1).
     run_bind (carry mystart off) (\<lambda>next. case next of None \<Rightarrow> Done (later_status status lstatus, (), s1)
       | Some (mystart1, off1) \<Rightarrow> varm_put fuel wr carry index mystart1 off1 mem (later_status status lstatus) s1))"

subsection \<open>The calls\<close>

text \<open>The types; text and numbers do not mix.\<close>

definition varm_types :: "int \<Rightarrow> int \<Rightarrow> int" where
  "varm_types vartype memtype = (if NC_STRING < vartype then NC_EMAPTYPE else if (memtype = NC_CHAR) \<noteq> (vartype = NC_CHAR) then NC_ECHAR else NC_NOERR)"

text \<open>What the reader fetched, stored from \<open>value0\<close> on.\<close>

definition mem_result :: "int list \<Rightarrow> nat \<Rightarrow> (int \<times> int option list \<times> 's) run \<Rightarrow> (int \<times> int list \<times> 's) run" where
  "mem_result mem base r = run_bind r (\<lambda>(status, vs, s). run_bind (mem_store mem (int base) vs) (\<lambda>mem1. Done (status, mem1, s)))"

definition NCDEFAULT_get_varm :: "nc_env \<Rightarrow> (int \<Rightarrow> fval \<Rightarrow> int) \<Rightarrow> bool \<Rightarrow> 's ncio \<Rightarrow> 's nc3_files \<Rightarrow> int \<Rightarrow> int \<Rightarrow> int list option \<Rightarrow> int list option \<Rightarrow>
    int list option \<Rightarrow> int list option \<Rightarrow> int list \<Rightarrow> nat \<Rightarrow> int \<Rightarrow> (int \<times> int list \<times> 's nc3_files) run" where
  "NCDEFAULT_get_varm E ub relax io fs ncid varid start edges stride imapp mem base memtype0 = run_bind (NC3_inq_var fs ncid varid) (\<lambda>(status, r, fs1). case r of
       None \<Rightarrow> Done (status, mem, fs1)
     | Some (nm, vartype, dimids, rest) \<Rightarrow> let memtype = (if memtype0 = 0 then vartype else memtype0); rank = length dimids; memtypelen = nctypelen memtype in
       if varm_types vartype memtype \<noteq> NC_NOERR then Done (varm_types vartype memtype, mem, fs1)
       else if rank = 0 then mem_result mem base (NC_get_vara E ub relax io fs1 ncid varid start (Some [1]) memtype)
       else run_bind (NC_is_recvar fs1 ncid varid) (\<lambda>(numrecs, fs2). run_bind (NC_getshape fs2 ncid varid rank) (\<lambda>(st, varshape, fs3).
         assert_run (length varshape = rank \<and> int rank \<le> NC_MAX_VAR_DIMS \<and> long_enough rank start \<and> long_enough rank edges \<and> long_enough rank stride \<and> long_enough rank imapp)
           (let dimlens = (case numrecs of Some n \<Rightarrow> n # tl varshape | None \<Rightarrow> varshape);
              mystart = (case start of None \<Rightarrow> replicate rank 0 | Some xs \<Rightarrow> take rank xs); myedges = vars_edges dimlens mystart edges;
              mystride = vars_stride dimlens stride; mymap = (case imapp of None \<Rightarrow> dense_map myedges | Some m \<Rightarrow> take rank m);
              ck = varm_check relax (rev dimlens) (rev mystart) (rev myedges); A = varm_init mystart myedges mystride mymap in
            if stride \<noteq> None \<and> \<not> varm_strides_ok mystride then Done (NC_ESTRIDE, mem, fs3)
            else if stride \<noteq> None \<and> (\<forall>sd \<in> set mystride. sd = 1) \<and> imapp = None then mem_result mem base (NC_get_vara E ub relax io fs3 ncid varid start edges memtype)
            else if \<not> env_mem E (56 * rank) then Done (NC_ENOMEM, mem, fs3)
            else if ck \<noteq> NC_NOERR then Done (ck, mem, fs3)
            else if edges \<noteq> None \<and> 0 \<in> set myedges then Done (NC_NOERR, mem, fs3)
            else varm_get (vars_fuel myedges) (\<lambda>index fs. NC_get_vara E ub relax io fs ncid varid (Some index) (Some (vm_iocount A)) memtype)
              (varm_carry (get_step memtypelen) memtypelen A start (rank - 1)) (elem_index base memtypelen) mystart 0 mem NC_NOERR fs3))))"

definition NCDEFAULT_put_varm :: "nc_env \<Rightarrow> (int \<Rightarrow> fval \<Rightarrow> int) \<Rightarrow> bool \<Rightarrow> 's ncio \<Rightarrow> 's nc3_files \<Rightarrow> int \<Rightarrow> int \<Rightarrow> int list option \<Rightarrow> int list option \<Rightarrow>
    int list option \<Rightarrow> int list option \<Rightarrow> int list \<Rightarrow> nat \<Rightarrow> int \<Rightarrow> (int \<times> unit \<times> 's nc3_files) run" where
  "NCDEFAULT_put_varm E ub relax io fs ncid varid start edges stride imapp mem base memtype0 = run_bind (NC3_inq_var fs ncid varid) (\<lambda>(status, r, fs1). case r of
       None \<Rightarrow> Done (status, (), fs1)
     | Some (nm, vartype, dimids, rest) \<Rightarrow> let memtype = (if memtype0 = 0 then vartype else memtype0); rank = length dimids; memtypelen = nctypelen memtype in
       if varm_types vartype memtype \<noteq> NC_NOERR then Done (varm_types vartype memtype, (), fs1)
       else if rank = 0 then NC_put_vara E ub relax io fs1 ncid varid start (Some [1]) (drop base mem) memtype
       else assert_run (long_enough rank stride) (let stride1 = (case stride of None \<Rightarrow> replicate rank 1 | Some sd \<Rightarrow> take rank sd) in
         if stride \<noteq> None \<and> \<not> varm_strides_ok stride1 then Done (NC_ESTRIDE, (), fs1)
         else if (\<forall>sd \<in> set stride1. sd = 1) \<and> imapp = None then NC_put_vara E ub relax io fs1 ncid varid start edges (drop base mem) memtype
         else run_bind (NC_is_recvar fs1 ncid varid) (\<lambda>(numrecs, fs2). run_bind (NC_getshape fs2 ncid varid rank) (\<lambda>(st, varshape, fs3).
           assert_run (length varshape = rank \<and> int rank \<le> NC_MAX_VAR_DIMS \<and> long_enough rank start \<and> long_enough rank edges \<and> long_enough rank imapp)
             (let isrecvar = (if numrecs = None then 0 else 1); dimlens = (case numrecs of Some n \<Rightarrow> n # tl varshape | None \<Rightarrow> varshape);
                mystart = (case start of None \<Rightarrow> replicate rank 0 | Some xs \<Rightarrow> take rank xs); myedges = vars_edges dimlens mystart edges;
                mymap = (case imapp of None \<Rightarrow> dense_map myedges | Some m \<Rightarrow> take rank m);
                ck = varm_check relax (drop isrecvar varshape) (drop isrecvar mystart) (drop isrecvar myedges); A = varm_init mystart myedges stride1 mymap in
              if \<not> env_mem E (56 * rank) then Done (NC_ENOMEM, (), fs3)
              else if ck \<noteq> NC_NOERR then Done (ck, (), fs3)
              else if edges \<noteq> None \<and> 0 \<in> set myedges then Done (NC_NOERR, (), fs3)
              else varm_put (vars_fuel myedges) (\<lambda>index vs fs. NC_put_vara E ub relax io fs ncid varid (Some index) (Some (vm_iocount A)) vs memtype)
                (varm_carry (put_step memtypelen) memtypelen A start (rank - 1)) (elem_index base memtypelen) mystart 0 mem NC_NOERR fs3)))))"

text \<open>\<open>NC_get_varm\<close> and \<open>NC_put_varm\<close>, which all the calls \<open>nc_get_varm_int\<close>, \<open>nc_put_varm_double\<close> and so on are.\<close>

definition NC_get_varm :: "nc_env \<Rightarrow> (int \<Rightarrow> fval \<Rightarrow> int) \<Rightarrow> bool \<Rightarrow> 's ncio \<Rightarrow> 's nc3_files \<Rightarrow> int \<Rightarrow> int \<Rightarrow> int list option \<Rightarrow> int list option \<Rightarrow>
    int list option \<Rightarrow> int list option \<Rightarrow> int list \<Rightarrow> nat \<Rightarrow> int \<Rightarrow> (int \<times> int list \<times> 's nc3_files) run" where
  "NC_get_varm E ub relax io fs ncid varid start edges stride imapp mem base memtype =
     run_bind (if start = None \<or> edges = None \<or> stride = None then NC_check_nulls E fs ncid varid start edges (Some stride)
       else Done (NC_NOERR, (edges, Some stride), fs)) (\<lambda>(stat, (my_count, my_stride), fs1). if stat \<noteq> NC_NOERR then Done (stat, mem, fs1)
         else NCDEFAULT_get_varm E ub relax io fs1 ncid varid start my_count (the my_stride) imapp mem base memtype)"

definition NC_put_varm :: "nc_env \<Rightarrow> (int \<Rightarrow> fval \<Rightarrow> int) \<Rightarrow> bool \<Rightarrow> 's ncio \<Rightarrow> 's nc3_files \<Rightarrow> int \<Rightarrow> int \<Rightarrow> int list option \<Rightarrow> int list option \<Rightarrow>
    int list option \<Rightarrow> int list option \<Rightarrow> int list \<Rightarrow> nat \<Rightarrow> int \<Rightarrow> (int \<times> unit \<times> 's nc3_files) run" where
  "NC_put_varm E ub relax io fs ncid varid start edges stride imapp mem base memtype =
     run_bind (if start = None \<or> edges = None \<or> stride = None then NC_check_nulls E fs ncid varid start edges (Some stride)
       else Done (NC_NOERR, (edges, Some stride), fs)) (\<lambda>(stat, (my_count, my_stride), fs1). if stat \<noteq> NC_NOERR then Done (stat, (), fs1)
         else NCDEFAULT_put_varm E ub relax io fs1 ncid varid start my_count (the my_stride) imapp mem base memtype)"

end
