(* ===== verification/NC_Odometer.thy ===== *)
theory NC_Odometer
  imports NC_Vars
begin

text \<open>
  The loops of strided access visit the strided rectangle: each step of the odometer of \<open>dvarget.c\<close> is a step of the odometer of \<open>putget.c\<close> in
  the box of the counts. First, that arrays longer than the variable has dimensions do not matter to \<open>NC3_get_vara\<close> and \<open>NC3_put_vara\<close>.
\<close>

subsection \<open>Longer arrays\<close>

text \<open>Of the caller's arrays only as many entries count as the variable has dimensions.\<close>

lemma set_upper_take: "set_upper (take n start) (take n edges) n = set_upper start edges n"
  by (simp add: set_upper_def take_zip)

lemma iocount_find_take: "j \<le> n \<Longrightarrow> iocount_find shape (take n edges) j0 j = iocount_find shape edges j0 j"
  by (induction j) simp_all

lemma iocount_find_le: "iocount_find shape edges j0 j = Done (i, z) \<Longrightarrow> i \<le> j"
proof (induction j)
  case (Suc j)
  then show ?case by (cases "edges ! j = shape ! j") (auto split: if_splits)
qed simp

lemma run_bind_cong: "m = m' \<Longrightarrow> (\<And>a. m' = Done a \<Longrightarrow> f a = g a) \<Longrightarrow> run_bind m f = run_bind m' g"
  by (cases m') auto

lemma NCiocount_take: "NCiocount ncp v (take (var_ndims v) edges) = NCiocount ncp v edges"
proof -
  let ?n = "var_ndims v" and ?j0 = "if IS_RECVAR v then 1 else 0"
  have f: "iocount_find (var_shape v) (take ?n edges) ?j0 ?n = iocount_find (var_shape v) edges ?j0 ?n" by (rule iocount_find_take) simp
  have nth: "(?n \<le> j + 1 \<or> take ?n edges ! (j + 1) = x) \<longleftrightarrow> (?n \<le> j + 1 \<or> edges ! (j + 1) = x)" for j x by (cases "j + 1 < ?n") simp_all
  have "IS_RECVAR v \<and> ?n = 1 \<Longrightarrow> hd (take ?n edges) = hd edges" by (simp add: hd_take)
  then show ?thesis unfolding NCiocount_def Let_def f nth take_take min.idem by auto
qed

lemma NCiocount_index: "NCiocount ncp v edges = Done (ii, n) \<Longrightarrow> 0 < var_ndims v \<Longrightarrow> ii \<noteq> -1 \<Longrightarrow> nat ii < var_ndims v"
  by (auto simp: NCiocount_def Let_def run_bind_Done assert_run_def split: if_splits dest!: iocount_find_le)

lemma edgeck_loop_take: "length shape \<le> n \<Longrightarrow> length shape \<le> m \<Longrightarrow> edgeck_loop relax shape (take n start) (take m edges) = edgeck_loop relax shape start edges"
proof (induction relax shape start edges arbitrary: n m rule: edgeck_loop.induct)
  case (1 relax sh shape st start e edges)
  then obtain n' m' where "n = Suc n'" "m = Suc m'" by (metis Suc_le_D length_Cons)
  with 1 show ?case by simp
qed (auto simp: take_Cons' split: if_splits)

lemma NCedgeck_take:
  "length (var_shape v) = var_ndims v \<Longrightarrow> NCedgeck relax ncp v (take (var_ndims v) start) (take (var_ndims v) edges) = NCedgeck relax ncp v start edges"
proof (cases "var_ndims v = 0 \<or> length start < var_ndims v \<or> length edges < var_ndims v")
  case False
  assume "length (var_shape v) = var_ndims v"
  with False show ?thesis
    by (auto simp: NCedgeck_def edgeck_loop_take tl_take hd_take)
qed (auto simp: NCedgeck_def)

lemma NCcoordck_take: "NCcoordck relax io ncp v (take (var_ndims v) start) s = NCcoordck relax io ncp v start s"
  by (cases "var_ndims v = 0") (simp_all add: NCcoordck_def hd_take Let_def cong: if_cong)

lemma NC_varoffset_take: "NC_varoffset ncp v (take (var_ndims v) coord) = NC_varoffset ncp v coord"
proof (cases "var_ndims v = 0 \<or> length coord < var_ndims v")
  case False
  have "zip (drop (k + 1) (take n xs)) (drop k (take n ys)) = zip (drop (k + 1) (take n xs)) (drop k ys)" for k n and xs ys :: "int list"
  proof -
    have "zip (drop (k + 1) (take n xs)) (drop k ys) = take (n - k) (zip (drop (k + 1) (take n xs)) (drop k ys))" by simp
    then show ?thesis by (simp add: take_zip drop_take)
  qed
  with False show ?thesis by (simp add: NC_varoffset_def hd_take Let_def)
qed (auto simp: NC_varoffset_def)

lemma readNCv_take: "readNCv ub io ncp v (take (var_ndims v) start) n memtype s = readNCv ub io ncp v start n memtype s"
  by (simp add: readNCv_def getNCvx_def NC_varoffset_take cong: option.case_cong)

lemma writeNCv_take: "writeNCv ub io ncp v (take (var_ndims v) start) n vs memtype s = writeNCv ub io ncp v start n vs memtype s"
  by (simp add: writeNCv_def putNCvx_def NC_varoffset_take cong: option.case_cong)

lemma odo1_take: "i < n \<Longrightarrow> odo1 (take n start) upper coord i = odo1 start upper coord i"
  by (induction i arbitrary: coord) (simp_all add: Let_def)

lemma get_rows_take: "i < n \<Longrightarrow> get_rows fuel rd (take n start) upper i coord status s = get_rows fuel rd start upper i coord status s"
  by (induction fuel arbitrary: coord status s) (simp_all add: odo1_take cong: if_cong)

lemma put_rows_take: "i < n \<Longrightarrow> put_rows fuel wr k (take n start) upper i coord vs status s = put_rows fuel wr k start upper i coord vs status s"
  by (induction fuel arbitrary: coord vs status s) (simp_all add: odo1_take cong: if_cong)

lemma vara_fuel_take: "i < n \<Longrightarrow> vara_fuel (take n edges) i = vara_fuel edges i"
  by (simp add: vara_fuel_def)

lemma get_slab_take:
  "get_slab ub io ncp v (take (var_ndims v) start) (take (var_ndims v) edges) memtype s = get_slab ub io ncp v start edges memtype s"
proof (cases "var_ndims v = 0")
  case True
  then show ?thesis using readNCv_take [of ub io ncp v start 1 memtype s] by (simp add: get_slab_def)
next
  case False
  have "run_bind (NCiocount ncp v edges) (\<lambda>(ii, iocount). if ii = -1 then readNCv ub io ncp v start iocount memtype s
      else get_rows (vara_fuel (take (var_ndims v) edges) (nat ii)) (\<lambda>coord. readNCv ub io ncp v coord iocount memtype)
        (take (var_ndims v) start) (set_upper start edges (var_ndims v)) (nat ii) (take (var_ndims v) start) NC_NOERR s) =
    run_bind (NCiocount ncp v edges) (\<lambda>(ii, iocount). if ii = -1 then readNCv ub io ncp v start iocount memtype s
      else get_rows (vara_fuel edges (nat ii)) (\<lambda>coord. readNCv ub io ncp v coord iocount memtype)
        start (set_upper start edges (var_ndims v)) (nat ii) (take (var_ndims v) start) NC_NOERR s)"
    by (rule run_bind_cong [OF refl]) (use False in \<open>clarsimp simp: vara_fuel_take get_rows_take NCiocount_index\<close>)
  moreover have h: "hd (take (var_ndims v) start) = hd start" "hd (take (var_ndims v) edges) = hd edges" "take (var_ndims v) (take (var_ndims v) start) = take (var_ndims v) start"
    using False by (simp_all add: hd_take)
  ultimately show ?thesis using False unfolding get_slab_def readNCv_take NCiocount_take set_upper_take h by presburger
qed

lemma put_slab_take:
  "put_slab E ub io ncp v (take (var_ndims v) start) (take (var_ndims v) edges) vs memtype s = put_slab E ub io ncp v start edges vs memtype s"
proof (cases "var_ndims v = 0")
  case True
  then show ?thesis using writeNCv_take [of ub io ncp v start 1 vs memtype s] by (simp add: put_slab_def)
next
  case False
  have "run_bind (NCiocount ncp v edges) (\<lambda>(ii, iocount). if ii = -1 then writeNCv ub io ncp v start iocount vs memtype s
      else put_rows (vara_fuel (take (var_ndims v) edges) (nat ii)) (\<lambda>coord vs. writeNCv ub io ncp v coord iocount vs memtype) (nat iocount)
        (take (var_ndims v) start) (set_upper start edges (var_ndims v)) (nat ii) (take (var_ndims v) start) vs NC_NOERR s) =
    run_bind (NCiocount ncp v edges) (\<lambda>(ii, iocount). if ii = -1 then writeNCv ub io ncp v start iocount vs memtype s
      else put_rows (vara_fuel edges (nat ii)) (\<lambda>coord vs. writeNCv ub io ncp v coord iocount vs memtype) (nat iocount)
        start (set_upper start edges (var_ndims v)) (nat ii) (take (var_ndims v) start) vs NC_NOERR s)" for ncp s
    by (rule run_bind_cong [OF refl]) (use False in \<open>clarsimp simp: vara_fuel_take put_rows_take NCiocount_index\<close>)
  moreover have h: "hd (take (var_ndims v) start) = hd start" "hd (take (var_ndims v) edges) = hd edges" "take (var_ndims v) (take (var_ndims v) start) = take (var_ndims v) start"
    using False by (simp_all add: hd_take)
  ultimately show ?thesis using False unfolding put_slab_def writeNCv_take NCiocount_take set_upper_take h by presburger
qed

text \<open>Hence the calls themselves.\<close>

lemma NC3_get_vara_take:
  assumes f: "open_file fs ncid mode ncp s" and v: "NC_lookupvar ncp varid = (NC_NOERR, Some v)" "length (var_shape v) = var_ndims v"
  shows "NC3_get_vara ub relax io fs ncid varid (take (var_ndims v) start) (Some (take (var_ndims v) edges)) memtype =
    NC3_get_vara ub relax io fs ncid varid start (Some edges) memtype"
  unfolding NC3_get_vara_def with_nc3_open [OF f] v(1) prod.case option.case Let_def vara_edges_def run_bind_simps NCcoordck_take NCedgeck_take [OF v(2)] get_slab_take ..

lemma NC3_put_vara_take:
  assumes f: "open_file fs ncid mode ncp s" and v: "NC_lookupvar ncp varid = (NC_NOERR, Some v)" "length (var_shape v) = var_ndims v"
  shows "NC3_put_vara E ub relax io fs ncid varid (take (var_ndims v) start) (Some (take (var_ndims v) edges)) vs memtype =
    NC3_put_vara E ub relax io fs ncid varid start (Some edges) vs memtype"
  unfolding NC3_put_vara_def with_nc3_open [OF f] v(1) prod.case option.case Let_def vara_edges_def run_bind_simps NCcoordck_take NCedgeck_take [OF v(2)] put_slab_take ..

subsection \<open>What the odometer visits\<close>

text \<open>
  The strided rectangle: the coordinates \<open>start ! i + k ! i * stride ! i\<close> for \<open>k\<close> in the box of the counts, in row-major order.
\<close>

definition strided :: "int list \<Rightarrow> int list \<Rightarrow> int list \<Rightarrow> int list" where
  "strided start stride k = map (\<lambda>i. start ! i + k ! i * stride ! i) [0..<length start]"

definition srect :: "int list \<Rightarrow> int list \<Rightarrow> int list \<Rightarrow> int list list" where
  "srect start edges stride = map (strided start stride) (rect (map (\<lambda>_. 0) start) edges)"

fun get_each :: "(int list \<Rightarrow> 's \<Rightarrow> (int \<times> int option list \<times> 's) run) \<Rightarrow> int list list \<Rightarrow> int \<Rightarrow> 's \<Rightarrow> (int \<times> int option list \<times> 's) run" where
  "get_each rd [] status s = Done (status, [], s)"
| "get_each rd (c # cs) status s = run_bind (rd c s) (\<lambda>(localstatus, vs, s1).
     run_bind (get_each rd cs (later_status status localstatus) s1) (\<lambda>(st, vs', s2). Done (st, (case vs of [] \<Rightarrow> None | v # _ \<Rightarrow> v) # vs', s2)))"

fun put_each :: "(int list \<Rightarrow> int list \<Rightarrow> 's \<Rightarrow> (int \<times> unit \<times> 's) run) \<Rightarrow> int list list \<Rightarrow> int list \<Rightarrow> int \<Rightarrow> 's \<Rightarrow> (int \<times> unit \<times> 's) run" where
  "put_each wr [] vs status s = Done (status, (), s)"
| "put_each wr (c # cs) vs status s = run_bind (wr c vs s) (\<lambda>(localstatus, u, s1). put_each wr cs (drop 1 vs) (later_status status localstatus) s1)"

text \<open>Strided rectangles whose coordinates, and the first one past them, fit 64 bits.\<close>

definition strides_ok :: "int list \<Rightarrow> int list \<Rightarrow> int list \<Rightarrow> bool" where
  "strides_ok start edges stride \<longleftrightarrow> start \<noteq> [] \<and> length start \<le> 1024 \<and> length edges = length start \<and> length stride = length start \<and>
     (\<forall>i<length start. 0 \<le> start ! i \<and> 0 < edges ! i \<and> 0 < stride ! i \<and> start ! i + edges ! i * stride ! i < 18446744073709551615)"

lemma strides_okD:
  assumes "strides_ok start edges stride" "i < length start"
  shows "0 \<le> start ! i" "0 < edges ! i" "0 < stride ! i" "start ! i + edges ! i * stride ! i < 18446744073709551615" "edges ! i < 18446744073709551615"
    "stride ! i < 18446744073709551615"
proof -
  show a: "0 \<le> start ! i" "0 < edges ! i" "0 < stride ! i" "start ! i + edges ! i * stride ! i < 18446744073709551615" using assms by (auto simp: strides_ok_def)
  have "edges ! i * 1 \<le> edges ! i * stride ! i" "1 * stride ! i \<le> edges ! i * stride ! i" using a by (intro mult_left_mono mult_right_mono; simp)+
  with a show "edges ! i < 18446744073709551615" "stride ! i < 18446744073709551615" by linarith+
qed

lemma strides_slab_ok: "strides_ok start edges stride \<Longrightarrow> slab_ok (map (\<lambda>_. 0) start) edges"
proof -
  assume s: "strides_ok start edges stride"
  then have "length edges = length start" by (simp add: strides_ok_def)
  with strides_okD(2,5) [OF s] show ?thesis by (auto simp: slab_ok_def intro: less_imp_le)
qed

lemma strided_update: "i < length start \<Longrightarrow> length k = length start \<Longrightarrow> strided start stride (k[i := x]) = (strided start stride k)[i := start ! i + x * stride ! i]"
  by (rule nth_equalityI) (auto simp: strided_def nth_list_update)

lemma strided_nth: "i < length start \<Longrightarrow> strided start stride k ! i = start ! i + k ! i * stride ! i"
  by (simp add: strided_def)

lemma odom_stop_nth: "strides_ok start edges stride \<Longrightarrow> i < length start \<Longrightarrow>
    odo_stop (odom_init (length start) start edges stride) ! i = start ! i + edges ! i * stride ! i"
proof -
  assume "strides_ok start edges stride" "i < length start"
  note d = strides_okD [OF this]
  have "0 \<le> edges ! i * stride ! i" using d by simp
  then have "u64 (stride ! i) = stride ! i" "u64 (edges ! i * stride ! i) = edges ! i * stride ! i" "u64 (start ! i + edges ! i * stride ! i) = start ! i + edges ! i * stride ! i"
    using d by (intro u64_id; linarith)+
  with \<open>i < length start\<close> show ?thesis by (simp add: odom_init_def)
qed

text \<open>One step of the odometer is one step of the odometer of \<open>putget.c\<close> in the box of the counts.\<close>

lemma stride_step:
  assumes "strides_ok start edges stride" "i < length start" "0 \<le> k" "k < edges ! i"
  shows "u64 (start ! i + k * stride ! i + u64 (stride ! i)) = start ! i + (k + 1) * stride ! i"
    "start ! i + (k + 1) * stride ! i < start ! i + edges ! i * stride ! i \<longleftrightarrow> k + 1 < edges ! i" "u64 (k + 1) = k + 1"
proof -
  note d = strides_okD [OF assms(1,2)]
  have "(k + 1) * stride ! i \<le> edges ! i * stride ! i" "0 \<le> (k + 1) * stride ! i" using d assms(3,4) by (auto intro!: mult_right_mono)
  then have "0 \<le> start ! i + (k + 1) * stride ! i" "start ! i + (k + 1) * stride ! i < 18446744073709551616" using d by linarith+
  moreover have "start ! i + k * stride ! i + stride ! i = start ! i + (k + 1) * stride ! i" by (simp add: distrib_right)
  ultimately show "u64 (start ! i + k * stride ! i + u64 (stride ! i)) = start ! i + (k + 1) * stride ! i" using d by (simp add: u64_id)
  show "start ! i + (k + 1) * stride ! i < start ! i + edges ! i * stride ! i \<longleftrightarrow> k + 1 < edges ! i" using d(3) by simp
  show "u64 (k + 1) = k + 1" using d assms(3,4) by (intro u64_id) linarith+
qed

lemma odom_carry_strided:
  assumes s: "strides_ok start edges stride"
  defines "stop \<equiv> odo_stop (odom_init (length start) start edges stride)" and "zero \<equiv> map (\<lambda>_. 0) start"
  shows "i < length start \<Longrightarrow> length k = length start \<Longrightarrow> \<forall>j\<le>i. 0 \<le> k ! j \<and> k ! j < edges ! j \<Longrightarrow>
    odo1 zero (set_upper zero edges (length start)) k i = Done k' \<Longrightarrow> snd (odom_carry start stride stop i (strided start stride k)) = strided start stride k'"
proof (induction i arbitrary: k)
  case 0
  then have k: "0 \<le> k ! 0" "k ! 0 < edges ! 0" by auto
  with 0 stride_step [OF s 0(1) k] show ?case by (auto simp: Let_def strided_nth strided_update assert_run_def split: if_splits)
next
  case (Suc i)
  have k: "0 \<le> k ! Suc i" "k ! Suc i < edges ! Suc i" using Suc.prems(3) by auto
  note st = stride_step [OF s Suc.prems(1) k]
  have up: "set_upper zero edges (length start) ! Suc i = edges ! Suc i"
    using set_upper_nth [OF strides_slab_ok [OF s], of "Suc i"] Suc.prems(1) by (simp add: zero_def)
  have z: "zero ! Suc i = 0" using Suc.prems(1) by (simp add: zero_def)
  have carry: "odom_carry start stride stop (Suc i) (strided start stride k) = (if k ! Suc i + 1 < edges ! Suc i
      then (True, strided start stride (k[Suc i := k ! Suc i + 1])) else odom_carry start stride stop i (strided start stride (k[Suc i := 0])))"
    using st Suc.prems(1,2) odom_stop_nth [OF s Suc.prems(1)] by (simp add: strided_nth strided_update stop_def)
  show ?case
  proof (cases "k ! Suc i + 1 < edges ! Suc i")
    case True
    with Suc.prems(4) st(3) up have "k' = k[Suc i := k ! Suc i + 1]" by (auto simp: Let_def assert_run_def split: if_splits)
    with carry True show ?thesis by simp
  next
    case False
    with Suc.prems(4) st(3) up z have "odo1 zero (set_upper zero edges (length start)) (k[Suc i := 0]) i = Done k'"
      by (auto simp: Let_def assert_run_def split: if_splits)
    then have "snd (odom_carry start stride stop i (strided start stride (k[Suc i := 0]))) = strided start stride k'"
      using Suc.prems(1-3) by (intro Suc.IH) auto
    with carry False show ?thesis by simp
  qed
qed

text \<open>The loop over the odometer is the loop over the strided rectangle.\<close>

lemma box_steps:
  assumes s: "strides_ok start edges stride"
  defines "zero \<equiv> map (\<lambda>_. 0) start" and "i \<equiv> length start - 1"
  shows "loop_ok zero edges i" "map (\<lambda>r. coord_at zero edges i r zero) [0..steps edges i - 1] = rect zero edges" "steps edges i < int (vars_fuel edges)"
    "0 \<le> r \<Longrightarrow> r < steps edges i \<Longrightarrow> length (coord_at zero edges i r zero) = length start \<and>
      (\<forall>j\<le>i. 0 \<le> coord_at zero edges i r zero ! j \<and> coord_at zero edges i r zero ! j < edges ! j)"
proof -
  have n: "0 < length start" "length start \<le> 1024" "length edges = length start" "Suc i = length start" using s by (auto simp: strides_ok_def i_def)
  show l: "loop_ok zero edges i" using strides_slab_ok [OF s] n by (simp add: loop_ok_def zero_def i_def)
  have "map (\<lambda>r. coord_at zero edges i r zero) [0..steps edges i - 1] = map (\<lambda>p. p @ drop (Suc i) zero) (rect (take (Suc i) zero) (take (Suc i) edges))"
    by (rule coords_rect) (use n strides_okD(2) [OF s] in \<open>auto simp: zero_def less_imp_le\<close>)
  then show r: "map (\<lambda>r. coord_at zero edges i r zero) [0..steps edges i - 1] = rect zero edges" using n by (simp add: zero_def)
  have lr: "length (rect zero edges) = nat (prod_list (map (max 0) edges))" using n by (intro length_rect) (simp add: zero_def)
  have "length [0..steps edges i - 1] = length (rect zero edges)" unfolding r [symmetric] by simp
  with lr steps_nonneg [OF l] show "steps edges i < int (vars_fuel edges)" by (simp add: vars_fuel_def) linarith
  assume "0 \<le> r" "r < steps edges i"
  then have "coord_at zero edges i r zero \<in> set (rect zero edges)" unfolding r [symmetric] by simp
  from rect_mem [OF _ this] n show "length (coord_at zero edges i r zero) = length start \<and>
      (\<forall>j\<le>i. 0 \<le> coord_at zero edges i r zero ! j \<and> coord_at zero edges i r zero ! j < edges ! j)"
    by (auto simp: zero_def)
qed

lemma odom_steps:
  assumes s: "strides_ok start edges stride"
  defines "zero \<equiv> map (\<lambda>_. 0) start" and "i \<equiv> length start - 1"
  defines "odom r \<equiv> odom_init (length start) start edges stride\<lparr>odo_index := strided start stride (coord_at zero edges i r zero)\<rparr>"
  shows "0 \<le> r \<Longrightarrow> odom_more (odom r) \<longleftrightarrow> r < steps edges i"
    and "0 \<le> r \<Longrightarrow> r < steps edges i \<Longrightarrow> snd (odom_next (odom r)) = odom (r + 1)"
    and "odom 0 = odom_init (length start) start edges stride"
proof -
  note b = box_steps [OF s, folded zero_def i_def]
  have n: "0 < length start" "length zero = length start" using s by (auto simp: strides_ok_def zero_def)
  note d = strides_okD [OF s n(1)]
  have sel: "odo_rank (odom r) = length start" "odo_stop (odom r) = odo_stop (odom_init (length start) start edges stride)" "odo_start (odom r) = start"
    "odo_stride (odom r) = stride" "odo_index (odom r) = strided start stride (coord_at zero edges i r zero)" for r
    using s by (simp_all add: odom_def odom_init_def strides_ok_def)
  have "set_upper zero edges (length zero) ! 0 = edges ! 0" 
    using set_upper_nth [OF strides_slab_ok [OF s], of 0] n by (simp add: zero_def)
  moreover have "start ! 0 + k * stride ! 0 < start ! 0 + edges ! 0 * stride ! 0 \<longleftrightarrow> k < edges ! 0" for k using d(3) by simp
  ultimately show "0 \<le> r \<Longrightarrow> odom_more (odom r) \<longleftrightarrow> r < steps edges i"
    using loop_test [OF b(1), of r] n odom_stop_nth [OF s n(1)] by (auto simp: odom_more_def sel strided_nth)
  show "snd (odom_next (odom r)) = odom (r + 1)" if r: "0 \<le> r" "r < steps edges i"
  proof -
    have "snd (odom_carry start stride (odo_stop (odom_init (length start) start edges stride)) i (strided start stride (coord_at zero edges i r zero))) =
        strided start stride (coord_at zero edges i (r + 1) zero)"
      unfolding zero_def
      by (rule odom_carry_strided [OF s]) (use b(4) [OF r] odometer [OF b(1) r] n in \<open>auto simp: i_def zero_def\<close>)
    moreover have "odom r\<lparr>odo_index := x\<rparr> = odom (r + 1)\<lparr>odo_index := x\<rparr>" for x by (simp add: odom_def)
    ultimately show ?thesis using n unfolding odom_next_def sel by (auto simp: i_def odom_def split: prod.split)
  qed
  have "strided start stride zero = start" by (rule nth_equalityI) (simp_all add: strided_def zero_def)
  moreover have "coord_at zero edges i 0 zero = zero" by (rule coord_at_start)
  ultimately show "odom 0 = odom_init (length start) start edges stride" by (simp add: odom_def odom_init_def)
qed

lemma srect_steps:
  assumes "strides_ok start edges stride"
  shows "srect start edges stride = map (\<lambda>r. strided start stride (coord_at (map (\<lambda>_. 0) start) edges (length start - 1) r (map (\<lambda>_. 0) start)))
    [0..steps edges (length start - 1) - 1]"
  unfolding srect_def box_steps(2) [OF assms, symmetric] by simp

text \<open>A loop that runs while the odometer has more goes through the strided rectangle.\<close>

lemma odo_loop:
  assumes s: "strides_ok start edges stride"
    and stop: "\<And>fuel odom x. \<not> odom_more odom \<Longrightarrow> run (Suc fuel) odom x = each [] x"
    and step: "\<And>fuel odom x c cs. odom_more odom \<Longrightarrow> odo_index odom = c \<Longrightarrow> (\<And>x. run fuel (snd (odom_next odom)) x = each cs x) \<Longrightarrow> run (Suc fuel) odom x = each (c # cs) x"
  shows "run (vars_fuel edges) (odom_init (length start) start edges stride) x = each (srect start edges stride) x"
proof -
  define zero i odom where "zero = map (\<lambda>_. 0 :: int) start" and "i = length start - 1" and
    "odom = (\<lambda>r. odom_init (length start) start edges stride\<lparr>odo_index := strided start stride (coord_at zero edges i r zero)\<rparr>)"
  note st = odom_steps [OF s, folded zero_def i_def, folded odom_def] and b = box_steps [OF s, folded zero_def i_def]
  have "0 \<le> r \<Longrightarrow> r \<le> steps edges i \<Longrightarrow> steps edges i - r < int fuel \<Longrightarrow> run fuel (odom r) x =
      each (map (\<lambda>r. strided start stride (coord_at zero edges i r zero)) [r..steps edges i - 1]) x" for r fuel x
  proof (induction fuel arbitrary: r x)
    case (Suc fuel)
    show ?case
    proof (cases "r < steps edges i")
      case True
      have "run (Suc fuel) (odom r) x = each (strided start stride (coord_at zero edges i r zero) # map (\<lambda>r. strided start stride (coord_at zero edges i r zero)) [r + 1..steps edges i - 1]) x"
        by (rule step) (use True Suc.prems Suc.IH [of "r + 1"] st(1,2) [of r] in \<open>simp_all add: odom_def\<close>)
      moreover have "[r..steps edges i - 1] = r # [r + 1..steps edges i - 1]" using True by (intro upto_rec1) simp
      ultimately show ?thesis by simp
    next
      case False
      with st(1) [OF Suc.prems(1)] stop show ?thesis by (simp add: odom_def)
    qed
  qed simp
  from this [of 0 "vars_fuel edges"] st(3) b(3) steps_nonneg [OF b(1)] show ?thesis unfolding srect_steps [OF s] by (simp add: odom_def zero_def i_def)
qed

lemma odo_get_srect:
  assumes "strides_ok start edges stride"
  shows "odo_get (vars_fuel edges) rd (odom_init (length start) start edges stride) status s = get_each rd (srect start edges stride) status s"
  by (rule odo_loop [OF assms, of "\<lambda>fuel odom (status, s). odo_get fuel rd odom status s" "\<lambda>cs (status, s). get_each rd cs status s" "(status, s)", unfolded split_conv]) (auto simp: split_paired_all intro!: run_bind_cong)

lemma odo_put_srect:
  assumes "strides_ok start edges stride"
  shows "odo_put (vars_fuel edges) wr (odom_init (length start) start edges stride) vs status s = put_each wr (srect start edges stride) vs status s"
  by (rule odo_loop [OF assms, of "\<lambda>fuel odom (vs, status, s). odo_put fuel wr odom vs status s" "\<lambda>cs (vs, status, s). put_each wr cs vs status s" "(vs, status, s)", unfolded split_conv]) (auto simp: split_paired_all intro!: run_bind_cong)

end
