(* ===== verification/NC_Strided.thy ===== *)
theory NC_Strided
  imports NC_Odometer
begin

text \<open>
  What \<open>NC_get_vars\<close> and \<open>NC_put_vars\<close> do to an open file: the inquiries they begin with find the shape, their checks let rectangles inside the
  variable through, and the elements are read and written one by one.
\<close>

subsection \<open>What the inquiries find\<close>

text \<open>A variable whose dimensions are those of the file, only the first of them unlimited; its shape at the moment.\<close>

definition dims_match :: "nc3_info \<Rightarrow> NC_var \<Rightarrow> bool" where
  "dims_match ncp v \<longleftrightarrow> length (var_dimids v) = var_ndims v \<and> (\<forall>dimid \<in> set (var_dimids v). 0 \<le> dimid) \<and>
     list_all2 (\<lambda>dimid len. \<exists>d. elem_NC_dimarray (dims ncp) dimid = Some d \<and> dim_size d = len) (var_dimids v) (var_shape v) \<and>
     (0 < var_ndims v \<longrightarrow> (hd (var_dimids v) = find_NC_Udim (dims ncp)) = IS_RECVAR v)"

definition cur_shape :: "nc3_info \<Rightarrow> NC_var \<Rightarrow> int list" where
  "cur_shape ncp v = (if IS_RECVAR v then numrecs ncp # tl (var_shape v) else var_shape v)"

lemma inq_var_found: "open_file fs ncid mode ncp s \<Longrightarrow> NC_lookupvar ncp varid = (NC_NOERR, Some v) \<Longrightarrow> var_ndims v = length (var_dimids v) \<Longrightarrow>
    NC3_inq_var fs ncid varid = Done (NC_NOERR, Some (cstr (var_name v), var_type v, var_dimids v, length (atts_value (var_attrs v)), var_no_fill v), fs)"
  by (simp add: NC3_inq_var_def with_nc3_open update_file_same NC_lookupvar_def split: if_splits option.splits)

lemma inq_unlimdim_found: "open_file fs ncid mode ncp s \<Longrightarrow> NC3_inq_unlimdim fs ncid = Done (NC_NOERR, Some (find_NC_Udim (dims ncp)), fs)"
  by (simp add: NC3_inq_unlimdim_def with_nc3_open update_file_same)

lemma inq_dim_found: "open_file fs ncid mode ncp s \<Longrightarrow> elem_NC_dimarray (dims ncp) dimid = Some d \<Longrightarrow>
    NC3_inq_dim fs ncid dimid = Done (NC_NOERR, Some (cstr (dim_name d), if dim_size d = NC_UNLIMITED then numrecs ncp else dim_size d), fs)"
  by (simp add: NC3_inq_dim_def with_nc3_open update_file_same)

lemma shape_loop_found:
  assumes f: "open_file fs ncid mode ncp s"
  shows "list_all2 (\<lambda>dimid len. \<exists>d. elem_NC_dimarray (dims ncp) dimid = Some d \<and> dim_size d = len) ids lens \<Longrightarrow>
    shape_loop fs ncid ids = Done (NC_NOERR, map (\<lambda>l. if l = NC_UNLIMITED then numrecs ncp else l) lens, fs)"
  by (induction rule: list_all2_induct) (auto simp: inq_dim_found [OF f])

lemma cur_shape_map:
  "var_shaped v \<Longrightarrow> map (\<lambda>l. if l = NC_UNLIMITED then numrecs ncp else l) (var_shape v) = cur_shape ncp v"
proof -
  assume v: "var_shaped v"
  show ?thesis
  proof (cases "var_shape v")
    case Nil
    then show ?thesis by (simp add: cur_shape_def IS_RECVAR_def)
  next
    case (Cons l ls)
    with v have "\<forall>x \<in> set ls. x \<noteq> 0" by (auto simp: var_shaped_def split: if_splits)
    then have "map (\<lambda>l. if l = NC_UNLIMITED then numrecs ncp else l) ls = ls" by (intro map_idI) simp
    with Cons show ?thesis by (simp add: cur_shape_def IS_RECVAR_def)
  qed
qed

lemma getshape_found:
  assumes f: "open_file fs ncid mode ncp s" and v: "NC_lookupvar ncp varid = (NC_NOERR, Some v)" "dims_match ncp v" "var_shaped v"
  shows "NC_getshape fs ncid varid (length (var_dimids v)) = Done (NC_NOERR, cur_shape ncp v, fs)"
  using v(2) shape_loop_found [OF f, of "var_dimids v" "var_shape v"] cur_shape_map [OF v(3), of ncp]
  by (simp add: NC_getshape_def inq_var_found [OF f v(1)] dims_match_def)

lemma is_recvar_found:
  assumes f: "open_file fs ncid mode ncp s" and v: "NC_lookupvar ncp varid = (NC_NOERR, Some v)" "dims_match ncp v" "var_shaped v"
  shows "NC_is_recvar fs ncid varid = Done (if IS_RECVAR v then Some (numrecs ncp) else None, fs)"
proof (cases "var_dimids v")
  case Nil
  with v(2,3) have "\<not> IS_RECVAR v" by (auto simp: IS_RECVAR_def dims_match_def var_shaped_def)
  with Nil v(2) show ?thesis by (simp add: NC_is_recvar_def inq_unlimdim_found [OF f] inq_var_found [OF f v(1)] dims_match_def)
next
  case (Cons i ids)
  with v(2) obtain l ls d where l: "var_shape v = l # ls" "elem_NC_dimarray (dims ncp) i = Some d" "dim_size d = l"
    by (auto simp: dims_match_def list_all2_Cons1)
  with Cons v(2) show ?thesis
    by (auto simp: NC_is_recvar_def inq_unlimdim_found [OF f] inq_var_found [OF f v(1)] inq_dim_found [OF f l(2)] dims_match_def IS_RECVAR_def)
qed

lemma inq_recvar_found:
  assumes f: "open_file fs ncid mode ncp s" and v: "NC_lookupvar ncp varid = (NC_NOERR, Some v)" "dims_match ncp v" "var_shaped v"
  shows "NC_inq_recvar fs ncid varid = Done (NC_NOERR, map (\<lambda>k. k = 0 \<and> IS_RECVAR v) [0..<var_ndims v], fs)"
proof (cases "var_dimids v")
  case Nil
  with v(2) show ?thesis by (simp add: NC_inq_recvar_def inq_var_found [OF f v(1)] dims_match_def)
next
  case (Cons i ids)
  with v(2) have i: "0 \<le> i" "(i = find_NC_Udim (dims ncp)) = IS_RECVAR v" "var_ndims v = Suc (length ids)" by (auto simp: dims_match_def)
  moreover have "map (\<lambda>k. k = 0 \<and> IS_RECVAR v) [0..<Suc (length ids)] = IS_RECVAR v # map (\<lambda>_. False) ids"
    by (rule nth_equalityI) (auto simp: nth_Cons nth_append split: nat.split)
  ultimately show ?thesis using Cons by (auto simp: NC_inq_recvar_def inq_unlimdim_found [OF f] inq_var_found [OF f v(1)])
qed

subsection \<open>Rectangles with strides inside a variable\<close>

text \<open>The counts of the smallest rectangle around a strided one.\<close>

definition span :: "int list \<Rightarrow> int list \<Rightarrow> int list" where
  "span edges stride = map (\<lambda>(e, sd). (e - 1) * sd + 1) (zip edges stride)"

lemma span_nth: "length stride = length edges \<Longrightarrow> i < length edges \<Longrightarrow> span edges stride ! i = (edges ! i - 1) * stride ! i + 1"
  by (simp add: span_def)

lemma srect_mem:
  assumes l: "length edges = length start" and c: "c \<in> set (srect start edges stride)"
  obtains k where "c = strided start stride k" "length c = length start" "length k = length start" "\<And>i. i < length start \<Longrightarrow> 0 \<le> k ! i \<and> k ! i < edges ! i"
proof -
  obtain k where k: "c = strided start stride k" "k \<in> set (rect (map (\<lambda>_. 0) start) edges)" using c by (auto simp: srect_def)
  with rect_mem [of "map (\<lambda>_. 0) start" edges k] l show thesis by (intro that [of k]) (auto simp: strided_def)
qed

lemma rect_intro: "length ss = length es \<Longrightarrow> length c = length es \<Longrightarrow> \<forall>k<length es. ss ! k \<le> c ! k \<and> c ! k < ss ! k + es ! k \<Longrightarrow> c \<in> set (rect ss es)"
proof (induction ss es arbitrary: c rule: list_induct2)
  case (Cons s ss e es)
  then obtain i c' where "c = i # c'" by (cases c) auto
  moreover have "s \<le> i" "i < s + e" using Cons.prems(2) calculation by auto
  moreover have "c' \<in> set (rect ss es)" using Cons.prems calculation(1) by (intro Cons.IH) auto
  ultimately show ?case by auto
qed simp

lemma srect_span:
  assumes l: "length edges = length start" "length stride = length start" and pos: "\<forall>i<length start. 0 < stride ! i" and c: "c \<in> set (srect start edges stride)"
  shows "c \<in> set (rect start (span edges stride))"
proof -
  obtain k where k: "c = strided start stride k" "length c = length start" "\<And>i. i < length start \<Longrightarrow> 0 \<le> k ! i \<and> k ! i < edges ! i"
    by (rule srect_mem [OF l(1) c]) blast
  have "start ! i \<le> c ! i \<and> c ! i < start ! i + span edges stride ! i" if i: "i < length start" for i
  proof -
    have "0 \<le> k ! i * stride ! i" "k ! i * stride ! i \<le> (edges ! i - 1) * stride ! i" using k(3) [OF i] pos i by (auto intro!: mult_right_mono)
    then show ?thesis using k(1) l i by (simp add: strided_nth span_nth)
  qed
  then show ?thesis using l k(2) by (intro rect_intro) (auto simp: span_def)
qed

lemma srect_distinct:
  assumes l: "length edges = length start" and pos: "\<forall>i<length start. 0 < stride ! i"
  shows "distinct (srect start edges stride)"
proof -
  have "inj_on (strided start stride) (set (rect (map (\<lambda>_. 0) start) edges))"
  proof (rule inj_onI)
    fix k k' assume k: "k \<in> set (rect (map (\<lambda>_. 0) start) edges)" "k' \<in> set (rect (map (\<lambda>_. 0) start) edges)" and e: "strided start stride k = strided start stride k'"
    have len: "length k = length start" "length k' = length start" using rect_mem [of "map (\<lambda>_. 0) start" edges] k l by auto
    have "k ! i = k' ! i" if "i < length start" for i
      using arg_cong [OF e, of "\<lambda>c. c ! i"] that pos by (auto simp: strided_nth)
    then show "k = k'" using len by (intro nth_equalityI) simp_all
  qed
  then show ?thesis using distinct_rect [of "map (\<lambda>_. 0) start" edges] l by (simp add: srect_def distinct_map)
qed

text \<open>A single element of a rectangle is a rectangle the file has room for.\<close>

lemma rect_single: "rect c (replicate (length c) 1) = [c]"
  by (induction c) simp_all

lemma data_ok_single:
  assumes d: "data_ok ncp v ext len start edges" and c: "c \<in> set (rect start edges)"
  shows "data_ok ncp v ext len c (replicate (var_ndims v) 1)" "length c = var_ndims v"
proof -
  have d': "slab_in ncp v start edges" "slab_ok start edges" "length start = var_ndims v" "length edges = var_ndims v" using d by (auto simp: data_ok_def slab_in_def)
  have m: "length c = var_ndims v" "\<And>k. k < var_ndims v \<Longrightarrow> start ! k \<le> c ! k \<and> c ! k + 1 \<le> start ! k + edges ! k" using rect_mem [OF _ c] d' by auto
  then show "length c = var_ndims v" by simp
  have "slab_in ncp v c (replicate (var_ndims v) 1)" "slab_ok c (replicate (var_ndims v) 1)"
    using d' m by (force simp: slab_in_def slab_ok_def)+
  moreover have "elem_offset ncp v c + int (type_bytes ext) \<le> int len" using d c by (auto simp: data_ok_def)
  moreover have "rect c (replicate (var_ndims v) 1) = [c]" using rect_single [of c] m(1) by simp
  ultimately show "data_ok ncp v ext len c (replicate (var_ndims v) 1)" using d by (simp add: data_ok_def)
qed

lemma suffix_product_nth: "k < length shp \<Longrightarrow> shp ! k \<le> suffix_product shp"
proof (induction shp arbitrary: k)
  case (Cons s shp)
  have p: "1 \<le> suffix_product shp" by (rule suffix_product_ge)
  show ?case
  proof (cases k)
    case 0
    have "max 1 s * 1 \<le> max 1 s * suffix_product shp" using p by (intro mult_left_mono) simp_all
    with 0 show ?thesis by (simp add: suffix_product_Cons)
  next
    case (Suc j)
    have "1 * suffix_product shp \<le> max 1 s * suffix_product shp" using p by (intro mult_right_mono) simp_all
    with Suc Cons show ?thesis by (fastforce simp: suffix_product_Cons)
  qed
qed simp

text \<open>What a strided access needs: counts and strides that are positive, and the smallest rectangle around it inside the variable.\<close>

definition strided_ok :: "nc3_info \<Rightarrow> NC_var \<Rightarrow> int \<Rightarrow> nat \<Rightarrow> int list \<Rightarrow> int list \<Rightarrow> int list \<Rightarrow> bool" where
  "strided_ok ncp v ext len start edges stride \<longleftrightarrow> dims_match ncp v \<and> (IS_RECVAR v \<longrightarrow> numrecs ncp \<le> X_UINT_MAX) \<and>
     length start = var_ndims v \<and> length edges = var_ndims v \<and> length stride = var_ndims v \<and>
     (\<forall>k<var_ndims v. 0 < edges ! k \<and> 0 < stride ! k \<and> stride ! k < X_INT_MAX) \<and> data_ok ncp v ext len start (span edges stride)"

lemma strided_okD:
  assumes d: "strided_ok ncp v ext len start edges stride"
  shows "dims_match ncp v" "IS_RECVAR v \<Longrightarrow> numrecs ncp \<le> X_UINT_MAX" "length start = var_ndims v" "length edges = var_ndims v" "length stride = var_ndims v"
    "data_ok ncp v ext len start (span edges stride)" "var_shaped v" "var_ndims v \<le> 1024" "length (cur_shape ncp v) = var_ndims v"
    "k < var_ndims v \<Longrightarrow> 0 < edges ! k" "k < var_ndims v \<Longrightarrow> 0 < stride ! k" "k < var_ndims v \<Longrightarrow> stride ! k < X_INT_MAX" "k < var_ndims v \<Longrightarrow> 0 \<le> start ! k"
    "k < var_ndims v \<Longrightarrow> start ! k + (edges ! k - 1) * stride ! k + 1 \<le> cur_shape ncp v ! k"
    "k < var_ndims v \<Longrightarrow> edges ! k \<le> (edges ! k - 1) * stride ! k + 1"
    "k < var_ndims v \<Longrightarrow> cur_shape ncp v ! k \<le> OFF_T_MAX"
proof -
  show b: "dims_match ncp v" "IS_RECVAR v \<Longrightarrow> numrecs ncp \<le> X_UINT_MAX" "length start = var_ndims v" "length edges = var_ndims v" "length stride = var_ndims v"
    "data_ok ncp v ext len start (span edges stride)" "k < var_ndims v \<Longrightarrow> 0 < edges ! k" "k < var_ndims v \<Longrightarrow> 0 < stride ! k" "k < var_ndims v \<Longrightarrow> stride ! k < X_INT_MAX"
    using d by (auto simp: strided_ok_def)
  then show v: "var_shaped v" "var_ndims v \<le> 1024" by (auto simp: data_ok_def)
  have sh: "length (var_shape v) = var_ndims v" using v by (simp add: var_shaped_def)
  then show "length (cur_shape ncp v) = var_ndims v" by (cases "var_shape v") (auto simp: cur_shape_def IS_RECVAR_def)
  have nth: "cur_shape ncp v ! k = (if k = 0 \<and> IS_RECVAR v then numrecs ncp else var_shape v ! k)" if "k < var_ndims v"
    using that sh by (cases "var_shape v"; cases k) (auto simp: cur_shape_def)
  have r: "slab_in ncp v start (span edges stride)" "suffix_product (var_shape v) \<le> OFF_T_MAX" using b(6) by (auto simp: data_ok_def)
  then show "k < var_ndims v \<Longrightarrow> 0 \<le> start ! k" by (auto simp: slab_in_def)
  show "start ! k + (edges ! k - 1) * stride ! k + 1 \<le> cur_shape ncp v ! k" if "k < var_ndims v"
    using r(1) that b(4,5) nth [OF that] by (auto simp: slab_in_def span_nth split: if_splits)
  show "edges ! k \<le> (edges ! k - 1) * stride ! k + 1" if "k < var_ndims v"
  proof -
    have "(edges ! k - 1) * 1 \<le> (edges ! k - 1) * stride ! k" using b(7) [OF that] b(8) [OF that] by (intro mult_left_mono) linarith+
    then show ?thesis by (simp only: mult_1_right diff_le_eq)
  qed
  show "cur_shape ncp v ! k \<le> OFF_T_MAX" if "k < var_ndims v"
  proof (cases "k = 0 \<and> IS_RECVAR v")
    case True
    then have "numrecs ncp \<le> X_UINT_MAX" using b(2) by simp
    then have "numrecs ncp \<le> OFF_T_MAX" by linarith
    with True nth [OF that] show ?thesis by (simp only: if_P)
  next
    case False
    have "var_shape v ! k \<le> suffix_product (var_shape v)" using that sh by (intro suffix_product_nth) simp
    with r(2) nth [OF that] False show ?thesis by simp
  qed
qed

lemma strided_strides_ok: "strided_ok ncp v ext len start edges stride \<Longrightarrow> 0 < var_ndims v \<Longrightarrow> strides_ok start edges stride"
proof -
  assume s: "strided_ok ncp v ext len start edges stride" and n: "0 < var_ndims v"
  note d = strided_okD [OF s]
  have "start ! k + edges ! k * stride ! k < 18446744073709551615" if "k < var_ndims v" for k
  proof -
    have "start ! k + edges ! k * stride ! k = start ! k + (edges ! k - 1) * stride ! k + 1 + (stride ! k - 1)" by (simp add: left_diff_distrib)
    with d(12,14,16) [OF that] show ?thesis by linarith
  qed
  with d n show ?thesis by (auto simp: strides_ok_def)
qed

lemma vars_check_passes:
  "length frees = length dimlens \<Longrightarrow> length start = length dimlens \<Longrightarrow> length edges = length dimlens \<Longrightarrow> length stride = length dimlens \<Longrightarrow>
   \<forall>k<length dimlens. 0 \<le> start ! k \<and> 0 < edges ! k \<and> start ! k + edges ! k \<le> dimlens ! k \<and> dimlens ! k \<le> OFF_T_MAX \<and> 0 < stride ! k \<and> stride ! k < X_INT_MAX \<Longrightarrow>
   vars_check relax frees dimlens start edges stride = NC_NOERR"
proof (induction relax frees dimlens start edges stride rule: vars_check.induct)
  case (1 relax free frees dimlen dimlens st start e edges sd stride)
  have h: "0 \<le> st" "0 < e" "st + e \<le> dimlen" "dimlen \<le> OFF_T_MAX" "0 < sd" "sd < X_INT_MAX" using 1(6) by (auto dest: spec [of _ 0])
  moreover have "u64 (st + e) = st + e" using h by (intro u64_id) linarith+
  moreover have "\<forall>k<length dimlens. 0 \<le> start ! k \<and> 0 < edges ! k \<and> start ! k + edges ! k \<le> dimlens ! k \<and> dimlens ! k \<le> OFF_T_MAX \<and> 0 < stride ! k \<and> stride ! k < X_INT_MAX"
    using 1(6) by (metis Suc_less_eq length_Cons nth_Cons_Suc)
  ultimately show ?case using 1 by (simp add: beyond_def)
qed auto

lemma strided_check:
  assumes s: "strided_ok ncp v ext len start edges stride" and l: "length frees = var_ndims v"
  shows "vars_check relax frees (cur_shape ncp v) start edges stride = NC_NOERR"
proof (rule vars_check_passes)
  note d = strided_okD [OF s]
  have "start ! k + edges ! k \<le> cur_shape ncp v ! k" if "k < var_ndims v" for k using d(14,15) [OF that] by linarith
  then show "\<forall>k<length (cur_shape ncp v). 0 \<le> start ! k \<and> 0 < edges ! k \<and> start ! k + edges ! k \<le> cur_shape ncp v ! k \<and> cur_shape ncp v ! k \<le> OFF_T_MAX \<and> 0 < stride ! k \<and> stride ! k < X_INT_MAX"
    using d by auto
qed (use strided_okD [OF s] l in simp_all)

text \<open>With strides of 1 the strided rectangle is the rectangle.\<close>

lemma strided_Cons: "strided (s # start) (d # stride) (k # ks) = (s + k * d) # strided start stride ks"
  by (rule nth_equalityI) (auto simp: strided_def nth_Cons' simp del: upt_Suc)

lemma srect_ones: "length start = length edges \<Longrightarrow> srect start edges (replicate (length edges) 1) = rect start edges"
proof (induction start edges rule: list_induct2)
  case Nil
  then show ?case by (simp add: srect_def strided_def)
next
  case (Cons s start e edges)
  let ?R = "rect (map (\<lambda>_. 0) start) edges"
  have IH: "map (strided start (replicate (length edges) 1)) ?R = rect start edges" using Cons.IH by (simp add: srect_def)
  have "map (\<lambda>xs. strided (s # start) (1 # replicate (length edges) 1) (i # xs)) ?R = map ((#) (s + i)) (map (strided start (replicate (length edges) 1)) ?R)" for i
    by (simp add: strided_Cons)
  note this [unfolded IH]
  moreover have "[s..s + e - 1] = map (\<lambda>i. s + i) [0..e - 1]" using map_upto_shift [of "\<lambda>i. i" s "s + e - 1"] by (simp add: algebra_simps)
  ultimately show ?case by (simp add: srect_def map_concat comp_def)
qed

lemma span_ones: "length edges = n \<Longrightarrow> span edges (replicate n 1) = edges"
  by (rule nth_equalityI) (simp_all add: span_def)

subsection \<open>Element by element\<close>

lemma getn_values_Nil: "getn_values ub ext mem [] = (NC_NOERR, [])"
  by (simp add: getn_values_def range_status_def)

lemma get_each_values:
  assumes step: "\<And>c x. c \<in> set cs \<Longrightarrow> Inv x \<Longrightarrow> \<exists>x'. rd c x = Done (fst (getn_values ub ext mem [f c]), snd (getn_values ub ext mem [f c]), x') \<and> Inv x'"
    and "Inv x" "status \<in> {NC_NOERR, NC_ERANGE}"
  shows "\<exists>x'. get_each rd cs status x = Done (if status = NC_NOERR then fst (getn_values ub ext mem (map f cs)) else status,
    snd (getn_values ub ext mem (map f cs)), x') \<and> Inv x'"
  using assms
proof (induction cs arbitrary: x status)
  case Nil
  then show ?case by (simp add: getn_values_Nil)
next
  case (Cons c cs)
  obtain l w where g: "conv_get ub ext mem (f c) = (l, w)" by fastforce
  define st where "st = fst (getn_values ub ext mem [f c])"
  have st: "st \<in> {NC_NOERR, NC_ERANGE}" using range_status_in by (simp add: st_def getn_values_def)
  have one: "getn_values ub ext mem [f c] = (st, [w])" using g by (simp add: st_def getn_values_def)
  obtain x1 where x1: "rd c x = Done (st, [w], x1)" "Inv x1" using Cons.prems(1) [of c x] Cons.prems(2) one by auto
  obtain x2 where x2: "get_each rd cs (later_status status st) x1 = Done (if later_status status st = NC_NOERR then fst (getn_values ub ext mem (map f cs)) else later_status status st,
      snd (getn_values ub ext mem (map f cs)), x2)" "Inv x2"
    using Cons.IH [of x1 "later_status status st"] Cons.prems x1(2) st by (auto simp: later_status_def)
  have "getn_values ub ext mem (map f (c # cs)) = (if st = NC_NOERR then fst (getn_values ub ext mem (map f cs)) else st, w # snd (getn_values ub ext mem (map f cs)))"
    using getn_values_append [of ub ext mem "[f c]" "map f cs"] one by (simp split: prod.splits)
  then show ?case using x1(1) x2 st Cons.prems(3) by (auto simp: later_status_def)
qed

text \<open>A writer that refuses some elements with \<open>NC_EINVALCOORDS\<close> writes the others.\<close>

lemma put_each_partial:
  assumes step: "\<And>c b vs x. c \<in> set cs \<Longrightarrow> good c \<Longrightarrow> Inv b x \<Longrightarrow> vs \<noteq> [] \<Longrightarrow> \<exists>x'. wr c vs x = Done (putn_status ub ext mem [hd vs], (), x') \<and> Inv (write_elems g [(off c, hd vs)] b) x'"
    and bad: "\<And>c b vs x. c \<in> set cs \<Longrightarrow> \<not> good c \<Longrightarrow> Inv b x \<Longrightarrow> vs \<noteq> [] \<Longrightarrow> wr c vs x = Done (NC_EINVALCOORDS, (), x)"
    and "Inv b x" "status \<in> {NC_NOERR, NC_ERANGE, NC_EINVALCOORDS}" "length cs \<le> length vs"
  shows "\<exists>x'. put_each wr cs vs status x = Done (if status = NC_EINVALCOORDS \<or> (\<exists>c \<in> set cs. \<not> good c) then NC_EINVALCOORDS
      else if status = NC_NOERR then putn_status ub ext mem (take (length cs) vs) else status, (), x') \<and>
    Inv (write_elems g (map (\<lambda>(c, v). (off c, v)) (filter (\<lambda>(c, v). good c) (zip cs vs))) b) x'"
  using assms
proof (induction cs arbitrary: b x status vs)
  case Nil
  then show ?case by (auto simp: putn_status_def range_status_def)
next
  case (Cons c cs)
  obtain w ws where vs: "vs = w # ws" using Cons.prems(5) by (cases vs) auto
  define st where "st = (if good c then putn_status ub ext mem [w] else NC_EINVALCOORDS)"
  have pst: "putn_status ub ext mem [w] \<in> {NC_NOERR, NC_ERANGE}" using range_status_in by (simp add: putn_status_def)
  define b1 where "b1 = (if good c then write_elems g [(off c, w)] b else b)"
  obtain x1 where x1: "wr c vs x = Done (st, (), x1)" "Inv b1 x1" using Cons.prems(1,2) [of c b x vs] Cons.prems(3) vs by (cases "good c") (auto simp: st_def b1_def)
  have ls: "later_status status st \<in> {NC_NOERR, NC_ERANGE, NC_EINVALCOORDS}" using Cons.prems(4) pst by (auto simp: later_status_def st_def)
  have "\<exists>x2. put_each wr cs ws (later_status status st) x1 = Done (if later_status status st = NC_EINVALCOORDS \<or> (\<exists>c \<in> set cs. \<not> good c) then NC_EINVALCOORDS
      else if later_status status st = NC_NOERR then putn_status ub ext mem (take (length cs) ws) else later_status status st, (), x2) \<and>
      Inv (write_elems g (map (\<lambda>(c, v). (off c, v)) (filter (\<lambda>(c, v). good c) (zip cs ws))) b1) x2"
    by (rule Cons.IH [OF Cons.prems(1,2) x1(2) ls]) (use Cons.prems(5) vs in auto)
  then obtain x2 where x2: "put_each wr cs ws (later_status status st) x1 = Done (if later_status status st = NC_EINVALCOORDS \<or> (\<exists>c \<in> set cs. \<not> good c) then NC_EINVALCOORDS
      else if later_status status st = NC_NOERR then putn_status ub ext mem (take (length cs) ws) else later_status status st, (), x2)"
      "Inv (write_elems g (map (\<lambda>(c, v). (off c, v)) (filter (\<lambda>(c, v). good c) (zip cs ws))) b1) x2" by blast
  have run: "put_each wr (c # cs) vs status x = put_each wr cs ws (later_status status st) x1" using x1(1) vs by simp
  have bytes: "write_elems g (map (\<lambda>(c, v). (off c, v)) (filter (\<lambda>(c, v). good c) (zip (c # cs) vs))) b =
      write_elems g (map (\<lambda>(c, v). (off c, v)) (filter (\<lambda>(c, v). good c) (zip cs ws))) b1" by (simp add: vs b1_def)
  define P q r where "P = (\<exists>c \<in> set cs. \<not> good c)" and "q = putn_status ub ext mem (take (length cs) ws)" and "r = putn_status ub ext mem [w]"
  have all: "putn_status ub ext mem (take (length (c # cs)) vs) = (if r = NC_NOERR then q else r)"
    using putn_status_append [of ub ext mem "[w]" "take (length cs) ws"] by (simp add: vs q_def r_def)
  have "(if later_status status st = NC_EINVALCOORDS \<or> P then NC_EINVALCOORDS else if later_status status st = NC_NOERR then q else later_status status st) =
      (if status = NC_EINVALCOORDS \<or> \<not> good c \<or> P then NC_EINVALCOORDS else if status = NC_NOERR then if r = NC_NOERR then q else r else status)"
    using pst Cons.prems(4) unfolding later_status_def st_def r_def [symmetric] by auto
  then show ?case using x2 unfolding run bytes all P_def q_def by auto
qed

lemma put_each_values:
  assumes step: "\<And>c b vs x. c \<in> set cs \<Longrightarrow> Inv b x \<Longrightarrow> vs \<noteq> [] \<Longrightarrow> \<exists>x'. wr c vs x = Done (putn_status ub ext mem [hd vs], (), x') \<and> Inv (write_elems g [(off c, hd vs)] b) x'"
    and "Inv b x" "length cs \<le> length vs"
  shows "\<exists>x'. put_each wr cs vs NC_NOERR x = Done (putn_status ub ext mem (take (length cs) vs), (), x') \<and> Inv (write_elems g (zip (map off cs) vs) b) x'"
  using put_each_partial [where good = "\<lambda>_. True" and Inv = Inv and status = NC_NOERR, OF step _ assms(2) _ assms(3)] by (simp add: zip_map1)

lemma NC_get_vara_given: "NC_get_vara E ub relax io fs ncid varid (Some start) (Some edges) memtype = NC3_get_vara ub relax io fs ncid varid start (Some edges) memtype"
  by (simp add: NC_get_vara_def)

lemma NC_put_vara_given: "NC_put_vara E ub relax io fs ncid varid (Some start) (Some edges) vs memtype = NC3_put_vara E ub relax io fs ncid varid start (Some edges) vs memtype"
  by (simp add: NC_put_vara_def)

lemma vars_types_ok: "access_ok ncp varid v memtype ext \<Longrightarrow> vars_types (var_type v) memtype = NC_NOERR"
  by (auto simp: access_ok_def case_ext_def vars_types_def split: if_splits)

lemma element_args: "IS_RECVAR v \<Longrightarrow> c \<in> set (rect start edges) \<Longrightarrow> slab_in ncp v start edges \<Longrightarrow> var_shaped v \<Longrightarrow> numrecs ncp \<le> X_UINT_MAX \<Longrightarrow> hd c \<le> X_UINT_MAX"
proof -
  assume a: "IS_RECVAR v" "c \<in> set (rect start edges)" "slab_in ncp v start edges" "var_shaped v" "numrecs ncp \<le> X_UINT_MAX"
  have n: "0 < var_ndims v" using recvar_ndims [OF a(4,1)] .
  have "length c = length edges" "c ! 0 < start ! 0 + edges ! 0" "start ! 0 + edges ! 0 \<le> numrecs ncp" using rect_mem [OF _ a(2)] a(1,3) n by (auto simp: slab_in_def)
  moreover have "hd c = c ! 0" using calculation(1) a(3) n by (intro hd_conv_nth) (auto simp: slab_in_def)
  ultimately show ?thesis using a(5) by simp
qed

lemma foldl_product: "0 \<le> a \<Longrightarrow> \<forall>e \<in> set es. 0 < e \<Longrightarrow> a * prod_list es < 18446744073709551616 \<Longrightarrow> foldl (\<lambda>n e. u64 (n * e)) a es = a * prod_list es"
proof (induction es arbitrary: a)
  case (Cons e es)
  have "0 < prod_list es" using Cons.prems(2) by (induction es) auto
  then have "1 \<le> prod_list es" by linarith
  then have "a * e * 1 \<le> a * e * prod_list es" using Cons.prems by (intro mult_left_mono) auto
  then have "a * e < 18446744073709551616" using Cons.prems(3) by (simp add: mult.assoc)
  moreover have "0 \<le> a * e" using Cons.prems by simp
  ultimately show ?case using Cons.IH [of "a * e"] Cons.prems by (simp add: u64_id mult.assoc)
qed simp

lemma length_srect: "length edges = length start \<Longrightarrow> length (srect start edges stride) = nat (prod_list (map (max 0) edges))"
  using length_rect [of "map (\<lambda>_. 0) start" edges] by (simp add: srect_def)

lemma nels_positive:
  assumes l: "length edges = length start" and pos: "\<forall>e \<in> set edges. 0 < e" and vs: "length vs = length (srect start edges stride)" "int (length vs) < 18446744073709551616"
  shows "foldl (\<lambda>n e. u64 (n * e)) 1 edges \<noteq> 0"
proof -
  have "map (max 0) edges = edges" using pos by (intro map_idI) auto
  moreover have p: "0 < prod_list edges" using pos by (induction edges) auto
  ultimately have "prod_list edges = int (length vs)" using vs(1) length_srect [OF l, of stride] by simp
  then show ?thesis using foldl_product [of 1 edges] pos vs(2) p by simp
qed

text \<open>Strides that are all 1.\<close>

lemma strided_ones:
  assumes d: "strided_ok ncp v ext len start edges stride" and one: "\<forall>sd \<in> set stride. sd = 1"
  shows "data_ok ncp v ext len start edges" "srect start edges stride = rect start edges" "args_ok relax v start edges"
proof -
  note D = strided_okD [OF d]
  have s1: "stride = replicate (var_ndims v) 1" using D(5) one by (metis replicate_eqI)
  show d1: "data_ok ncp v ext len start edges" using D(6) span_ones [of edges "var_ndims v"] D(4) s1 by simp
  show "srect start edges stride = rect start edges" using srect_ones [of start edges] D(3,4) s1 by simp
  have "hd start \<le> X_UINT_MAX" if r: "IS_RECVAR v"
  proof -
    have n: "0 < var_ndims v" using recvar_ndims [OF D(7) r] .
    have "start ! 0 + edges ! 0 \<le> numrecs ncp" using d1 r n by (auto simp: data_ok_def slab_in_def)
    moreover have "hd start = start ! 0" using n D(3) by (intro hd_conv_nth) auto
    ultimately show ?thesis using D(2) [OF r] D(10) [OF n] by linarith
  qed
  with D(4,10) show "args_ok relax v start edges" by (auto simp: args_ok_def)
qed

context ncio_client
begin

text \<open>One element, which the loops ask for with a count of ones as long as a variable can have dimensions.\<close>

lemma get_element:
  assumes f: "open_file fs ncid mode ncp s" and a: "access_ok ncp varid v memtype ext" and x: "IS_RECVAR v \<Longrightarrow> numrecs ncp \<le> X_UINT_MAX"
    and d: "data_ok ncp v ext (length (bytes s)) start edges" "c \<in> set (rect start edges)" and s: "ok s"
  shows "\<exists>s'. NC_get_vara E ub relax io fs ncid varid (Some c) (Some (replicate 1024 1)) memtype =
    Done (fst (getn_values ub ext (mem_type ext memtype) [elem_at ext ncp v (bytes s) c]), snd (getn_values ub ext (mem_type ext memtype) [elem_at ext ncp v (bytes s) c]),
      update_file fs ncid ncp s') \<and> ok s' \<and> bytes s' = bytes s"
proof -
  note d1 = data_ok_single [OF d]
  have v: "NC_lookupvar ncp varid = (NC_NOERR, Some v)" "var_shaped v" "var_ndims v \<le> 1024" "slab_in ncp v start edges" using a d(1) by (auto simp: access_ok_def data_ok_def)
  have ar: "args_ok relax v c (replicate (var_ndims v) 1)" using element_args [OF _ d(2) v(4,2)] x by (auto simp: args_ok_def)
  have r: "rect c (replicate (var_ndims v) 1) = [c]" using rect_single [of c] d1(2) by simp
  have t: "take (var_ndims v) (replicate 1024 (1::int)) = replicate (var_ndims v) 1" "take (var_ndims v) c = c" using v(3) d1(2) by simp_all
  have "length (var_shape v) = var_ndims v" using v(2) by (simp add: var_shaped_def)
  from NC3_get_vara_take [OF f v(1) this, of ub relax io c "replicate 1024 1" memtype, unfolded t] NC3_get_vara_result [OF f a ar d1(1) s, of ub]
  show ?thesis by (simp add: NC_get_vara_given slab_values_def r)
qed

lemma put_element:
  assumes f: "open_file fs ncid mode ncp s" and w: "\<not> NC_readonly ncp" and a: "access_ok ncp varid v memtype ext" and x: "IS_RECVAR v \<Longrightarrow> numrecs ncp \<le> X_UINT_MAX"
    and d: "data_ok ncp v ext (length (bytes s)) start edges" "c \<in> set (rect start edges)" and s: "ok s" and vs: "vs \<noteq> []"
  shows "\<exists>s'. NC_put_vara E ub relax io fs ncid varid (Some c) (Some (replicate 1024 1)) vs memtype =
    Done (putn_status ub ext (mem_type ext memtype) [hd vs], (), update_file fs ncid ncp s') \<and> ok s' \<and>
    bytes s' = write_elems (conv_bytes ub ext (mem_type ext memtype)) [(elem_offset ncp v c, hd vs)] (bytes s)"
proof -
  note d1 = data_ok_single [OF d]
  have v: "NC_lookupvar ncp varid = (NC_NOERR, Some v)" "var_shaped v" "var_ndims v \<le> 1024" "slab_in ncp v start edges" using a d(1) by (auto simp: access_ok_def data_ok_def)
  have ar: "args_ok relax v c (replicate (var_ndims v) 1)" using element_args [OF _ d(2) v(4,2)] x by (auto simp: args_ok_def)
  have r: "rect c (replicate (var_ndims v) 1) = [c]" using rect_single [of c] d1(2) by simp
  have t: "take (var_ndims v) (replicate 1024 (1::int)) = replicate (var_ndims v) 1" "take (var_ndims v) c = c" using v(3) d1(2) by simp_all
  have sh: "length (var_shape v) = var_ndims v" using v(2) by (simp add: var_shaped_def)
  obtain y ys where y: "vs = y # ys" using vs by (cases vs) auto
  from NC3_put_vara_take [OF f v(1) sh, of E ub relax io c "replicate 1024 1" vs memtype, unfolded t] NC3_put_vara_prefix [OF f w a ar d1(1) s, of vs E ub]
  show ?thesis by (simp add: NC_put_vara_given slab_write_def r y)
qed

text \<open>\<open>NC_get_vars\<close> and \<open>NC_put_vars\<close> of a strided rectangle inside a variable.\<close>

lemma NC_get_vars_result:
  assumes f: "open_file fs ncid mode ncp s" and a: "access_ok ncp varid v memtype ext"
    and d: "strided_ok ncp v ext (length (bytes s)) start edges stride" and s: "ok s"
  shows "\<exists>s'. NC_get_vars E ub relax io fs ncid varid (Some start) (Some edges) (Some stride) memtype =
    Done (fst (getn_values ub ext (mem_type ext memtype) (map (elem_at ext ncp v (bytes s)) (srect start edges stride))),
      snd (getn_values ub ext (mem_type ext memtype) (map (elem_at ext ncp v (bytes s)) (srect start edges stride))), update_file fs ncid ncp s') \<and>
    ok s' \<and> bytes s' = bytes s"
proof -
  note D = strided_okD [OF d]
  have v: "NC_lookupvar ncp varid = (NC_NOERR, Some v)" "memtype \<noteq> 0" using a by (simp_all add: access_ok_def)
  have nd: "var_ndims v = length (var_dimids v)" using D(1) by (simp add: dims_match_def)
  note inq = inq_var_found [OF f v(1) nd] is_recvar_found [OF f v(1) D(1,7)] getshape_found [OF f v(1) D(1,7)]
  have dimlens: "(case if IS_RECVAR v then Some (numrecs ncp) else None of Some n \<Rightarrow> n # tl (cur_shape ncp v) | None \<Rightarrow> cur_shape ncp v) = cur_shape ncp v"
    by (simp add: cur_shape_def)
  have args: "take (var_ndims v) start = start" "vars_edges (cur_shape ncp v) start (Some edges) = edges" "vars_stride (cur_shape ncp v) (Some stride) = stride"
    using D(3,4,5,9) by (simp_all add: vars_edges_def vars_stride_def)
  have chk: "vars_check relax (map (\<lambda>_. False) (cur_shape ncp v)) (cur_shape ncp v) start edges stride = NC_NOERR"
    by (rule strided_check [OF d]) (simp add: D(9))
  have e0: "0 \<notin> set edges" using D(10) D(4) by (metis in_set_conv_nth less_irrefl)
  let ?rd = "\<lambda>index fs. NC_get_vara E ub relax io fs ncid varid (Some index) (Some (replicate 1024 1)) memtype"
  have vars: "NC_get_vars E ub relax io fs ncid varid (Some start) (Some edges) (Some stride) memtype =
      (if var_ndims v = 0 then NC3_get_vara ub relax io fs ncid varid start (Some [1]) memtype
       else if \<forall>sd \<in> set stride. sd = 1 then NC3_get_vara ub relax io fs ncid varid start (Some edges) memtype
       else odo_get (vars_fuel edges) ?rd (odom_init (length start) start edges stride) NC_NOERR fs)"
    using D(3,4,5,8,9) nd v(2) e0 chk args dimlens
    by (simp add: NC_get_vars_def NCDEFAULT_get_vars_def inq vars_types_ok [OF a] long_enough_def NC_get_vara_given Let_def cong: if_cong)
  show ?thesis
  proof (cases "\<forall>sd \<in> set stride. sd = 1")
    case True
    note one = strided_ones [OF d True]
    have z: "NC3_get_vara ub relax io fs ncid varid start (Some [1]) memtype = NC3_get_vara ub relax io fs ncid varid start (Some edges) memtype" if "var_ndims v = 0"
      using NC3_get_vara_take [OF f v(1), of ub relax io start "[1]" memtype] D(7) D(3,4) that by (simp add: var_shaped_def)
    show ?thesis using NC3_get_vara_result [OF f a one(3,1) s, of ub] unfolding vars if_P [OF True] one(2) slab_values_def using z by (auto split: if_splits)
  next
    case False
    then have n: "0 < var_ndims v" using D(5) by (cases stride) auto
    let ?Inv = "\<lambda>x. \<exists>s'. x = update_file fs ncid ncp s' \<and> ok s' \<and> bytes s' = bytes s"
    have step: "\<exists>x'. ?rd c x = Done (fst (getn_values ub ext (mem_type ext memtype) [elem_at ext ncp v (bytes s) c]),
        snd (getn_values ub ext (mem_type ext memtype) [elem_at ext ncp v (bytes s) c]), x') \<and> ?Inv x'"
      if c: "c \<in> set (srect start edges stride)" and x: "?Inv x" for c x
    proof -
      obtain s1 where s1: "x = update_file fs ncid ncp s1" "ok s1" "bytes s1 = bytes s" using x by blast
      have "c \<in> set (rect start (span edges stride))" by (rule srect_span [OF _ _ _ c]) (use D(3,4,5,11) in auto)
      from get_element [OF open_file_update(1) [OF f] a D(2) _ this s1(2), of E ub relax] D(6) s1(3)
      show ?thesis unfolding s1(1) using open_file_update(2) [OF f] by metis
    qed
    have "?Inv fs" using update_file_same [OF f] s by metis
    from get_each_values [where Inv = ?Inv and cs = "srect start edges stride" and status = NC_NOERR and rd = ?rd and f = "elem_at ext ncp v (bytes s)", OF step this] odo_get_srect [OF strided_strides_ok [OF d n], of ?rd NC_NOERR fs] n False vars
    show ?thesis by auto
  qed
qed

lemma NC_put_vars_result:
  assumes f: "open_file fs ncid mode ncp s" and w: "\<not> NC_readonly ncp" and a: "access_ok ncp varid v memtype ext"
    and d: "strided_ok ncp v ext (length (bytes s)) start edges stride" and s: "ok s"
    and vs: "length vs = length (srect start edges stride)" "int (length vs) < 18446744073709551616"
  shows "\<exists>s'. NC_put_vars E ub relax io fs ncid varid (Some start) (Some edges) (Some stride) vs memtype =
    Done (putn_status ub ext (mem_type ext memtype) vs, (), update_file fs ncid ncp s') \<and> ok s' \<and>
    bytes s' = write_elems (conv_bytes ub ext (mem_type ext memtype)) (zip (map (elem_offset ncp v) (srect start edges stride)) vs) (bytes s)"
proof -
  note D = strided_okD [OF d]
  have v: "NC_lookupvar ncp varid = (NC_NOERR, Some v)" "memtype \<noteq> 0" using a by (simp_all add: access_ok_def)
  have nd: "var_ndims v = length (var_dimids v)" using D(1) by (simp add: dims_match_def)
  note inq = inq_var_found [OF f v(1) nd] inq_recvar_found [OF f v(1) D(1,7)] getshape_found [OF f v(1) D(1,7)]
  have args: "take (var_ndims v) start = start" "vars_edges (cur_shape ncp v) start (Some edges) = edges" "vars_stride (cur_shape ncp v) (Some stride) = stride"
    using D(3,4,5,9) by (simp_all add: vars_edges_def vars_stride_def)
  have chk: "vars_check relax (map (\<lambda>k. k = 0 \<and> IS_RECVAR v) [0..<var_ndims v]) (cur_shape ncp v) start edges stride = NC_NOERR"
    by (rule strided_check [OF d]) simp
  have pos: "\<forall>e \<in> set edges. 0 < e" using D(10) D(4) by (metis in_set_conv_nth)
  have nels: "foldl (\<lambda>n e. u64 (n * e)) 1 edges \<noteq> 0" by (rule nels_positive [OF _ pos vs]) (simp add: D(3,4))
  let ?wr = "\<lambda>index vs fs. NC_put_vara E ub relax io fs ncid varid (Some index) (Some (replicate 1024 1)) vs memtype"
  have vars: "NC_put_vars E ub relax io fs ncid varid (Some start) (Some edges) (Some stride) vs memtype =
      (if var_ndims v = 0 then NC3_put_vara E ub relax io fs ncid varid start (Some [1]) vs memtype
       else if \<forall>sd \<in> set stride. sd = 1 then NC3_put_vara E ub relax io fs ncid varid start (Some edges) vs memtype
       else odo_put (vars_fuel edges) ?wr (odom_init (length start) start edges stride) vs NC_NOERR fs)"
    using D(3,4,5,8,9) nd v(2) nels chk args
    by (simp add: NC_put_vars_def NCDEFAULT_put_vars_def inq vars_types_ok [OF a] long_enough_def NC_put_vara_given Let_def cong: if_cong)
  show ?thesis
  proof (cases "\<forall>sd \<in> set stride. sd = 1")
    case True
    note one = strided_ones [OF d True]
    have z: "NC3_put_vara E ub relax io fs ncid varid start (Some [1]) vs memtype = NC3_put_vara E ub relax io fs ncid varid start (Some edges) vs memtype" if "var_ndims v = 0"
      using NC3_put_vara_take [OF f v(1), of E ub relax io start "[1]" vs memtype] D(7) D(3,4) that by (simp add: var_shaped_def)
    show ?thesis using NC3_put_vara_result [OF f w a one(3,1) s, of vs E ub] vs(1) unfolding vars if_P [OF True] one(2) slab_write_def using z by (auto split: if_splits)
  next
    case False
    then have n: "0 < var_ndims v" using D(5) by (cases stride) auto
    let ?g = "conv_bytes ub ext (mem_type ext memtype)"
    let ?Inv = "\<lambda>b x. \<exists>s'. x = update_file fs ncid ncp s' \<and> ok s' \<and> bytes s' = b \<and> length b = length (bytes s)"
    have step: "\<exists>x'. ?wr c us x = Done (putn_status ub ext (mem_type ext memtype) [hd us], (), x') \<and> ?Inv (write_elems ?g [(elem_offset ncp v c, hd us)] b) x'"
      if c: "c \<in> set (srect start edges stride)" and x: "?Inv b x" and us: "us \<noteq> []" for c b us x
    proof -
      obtain s1 where s1: "x = update_file fs ncid ncp s1" "ok s1" "bytes s1 = b" "length b = length (bytes s)" using x by blast
      have c': "c \<in> set (rect start (span edges stride))" by (rule srect_span [OF _ _ _ c]) (use D(3,4,5,11) in auto)
      have "length (write_elems ?g [(elem_offset ncp v c, hd us)] b) = length b"
        using write_bytes_length [of ncp v ext b start "span edges stride" "[c]" ub "mem_type ext memtype" "[hd us]"] D(6) s1(4) c' by simp
      with put_element [OF open_file_update(1) [OF f] w a D(2) _ c' s1(2) us, of E ub relax] D(6) s1(3,4)
      show ?thesis unfolding s1(1) using open_file_update(2) [OF f] by metis
    qed
    have "?Inv (bytes s) fs" using update_file_same [OF f] s by metis
    from put_each_values [where Inv = ?Inv and cs = "srect start edges stride" and wr = ?wr and g = ?g and off = "elem_offset ncp v" and vs = vs, OF step this]
      odo_put_srect [OF strided_strides_ok [OF d n], of ?wr vs NC_NOERR fs] n False vars vs(1)
    show ?thesis by auto
  qed
qed

end

subsection \<open>Writing past the end\<close>

lemma edgeck_loop_edge: "length start = length shape \<Longrightarrow> length shape \<le> n \<Longrightarrow> \<forall>k<length shape. 0 \<le> start ! k \<and> start ! k \<le> shape ! k \<and> 0 < shape ! k \<and> shape ! k \<le> OFF_T_MAX \<Longrightarrow>
    \<exists>k<length shape. start ! k = shape ! k \<Longrightarrow> edgeck_loop True shape start (replicate n 1) = Done NC_EINVALCOORDS"
proof (induction shape arbitrary: start n)
  case (Cons sh shape)
  obtain st start' m where [simp]: "start = st # start'" "n = Suc m" using Cons.prems(1,2) by (cases start; cases n) auto
  have h: "0 \<le> st" "st \<le> sh" "0 < sh" "sh \<le> OFF_T_MAX" using Cons.prems(3) by (auto dest: spec [of _ 0])
  then have u: "u64 (st + 1) = st + 1" by (intro u64_id) linarith+
  have r: "\<forall>k<length shape. 0 \<le> start' ! k \<and> start' ! k \<le> shape ! k \<and> 0 < shape ! k \<and> shape ! k \<le> OFF_T_MAX"
    using Cons.prems(3) by (metis Suc_less_eq \<open>start = st # start'\<close> length_Cons nth_Cons_Suc)
  show ?case
  proof (cases "st = sh")
    case False
    then have "\<exists>k<length shape. start' ! k = shape ! k" using Cons.prems(4) by (auto simp: nth_Cons split: nat.splits)
    with Cons.IH [of start' m] Cons.prems(1,2) r have "edgeck_loop True shape start' (replicate m 1) = Done NC_EINVALCOORDS" by simp
    with False h u show ?thesis by auto
  qed simp
qed simp

lemma put_outside:
  assumes f: "open_file fs ncid mode ncp s" and w: "\<not> NC_readonly ncp" and a: "access_ok ncp varid v memtype ext"
    and v: "var_shaped v" "\<not> IS_RECVAR v" "var_ndims v \<le> 1024" "suffix_product (var_shape v) \<le> OFF_T_MAX"
    and c: "length c = var_ndims v" "\<forall>k<var_ndims v. 0 \<le> c ! k" "k < var_ndims v" "var_shape v ! k \<le> c ! k"
  shows "NC_put_vara E ub relax io fs ncid varid (Some c) (Some (replicate 1024 1)) vs memtype = Done (NC_EINVALCOORDS, (), fs)"
proof -
  have l: "length (var_shape v) = var_ndims v" using v(1) by (simp add: var_shaped_def)
  have n: "0 < var_ndims v" using c(3) by simp
  have sh: "0 < var_shape v ! j \<and> var_shape v ! j \<le> OFF_T_MAX" if "j < var_ndims v" for j
    using shape_pos [OF v(1) that] v(2,4) suffix_product_nth [of j "var_shape v"] that l by fastforce
  have ck: "NCcoordck relax io ncp v c s = Done (if \<exists>k<var_ndims v. beyond relax (c ! k) (var_shape v ! k) then NC_EINVALCOORDS else NC_NOERR, ncp, s)"
  proof -
    have "(\<exists>(x, u) \<in> set (zip (drop 0 (take (var_ndims v) c)) (drop 0 (var_shape v))). beyond relax x u) \<longleftrightarrow> (\<exists>k<var_ndims v. beyond relax (c ! k) (var_shape v ! k))"
      unfolding zip_all_nth using c(1) l by simp
    with n v(2) c(1) show ?thesis by (simp add: NCcoordck_def Let_def)
  qed
  show ?thesis
  proof (cases "\<exists>k<var_ndims v. beyond relax (c ! k) (var_shape v ! k)")
    case True
    with ck a w show ?thesis by (auto simp: NC_put_vara_given NC3_put_vara_def with_nc3_open [OF f] access_ok_def vara_edges_def update_file_same [OF f])
  next
    case False
    then have "\<not> beyond relax (c ! k) (var_shape v ! k)" using c(3) by blast
    with c(4) have r: "relax" by (auto simp: beyond_def split: if_splits)
    then have le: "\<forall>k<var_ndims v. c ! k \<le> var_shape v ! k" using False by (intro allI impI) (metis beyond_def not_less)
    have "edgeck_loop True (var_shape v) c (replicate 1024 1) = Done NC_EINVALCOORDS"
    proof (rule edgeck_loop_edge)
      have "c ! k = var_shape v ! k" using le c(3,4) by (intro order_antisym) auto
      then show "\<exists>k<length (var_shape v). c ! k = var_shape v ! k" using c(3) l by auto
      show "\<forall>k<length (var_shape v). 0 \<le> c ! k \<and> c ! k \<le> var_shape v ! k \<and> 0 < var_shape v ! k \<and> var_shape v ! k \<le> OFF_T_MAX"
        unfolding l using c(2) sh le by blast
    qed (use c(1) l v(3) in simp_all)
    then have "NCedgeck relax ncp v c (replicate 1024 1) = Done NC_EINVALCOORDS" using n r v(2,3) c(1) by (simp add: NCedgeck_def)
    with False ck a w show ?thesis by (auto simp: NC_put_vara_given NC3_put_vara_def with_nc3_open [OF f] access_ok_def vara_edges_def update_file_same [OF f])
  qed
qed

text \<open>The checks let a strided rectangle through whose last elements are outside the variable.\<close>

definition stride_passes :: "nc3_info \<Rightarrow> NC_var \<Rightarrow> int list \<Rightarrow> int list \<Rightarrow> int list \<Rightarrow> bool" where
  "stride_passes ncp v start edges stride \<longleftrightarrow> dims_match ncp v \<and> \<not> IS_RECVAR v \<and> length start = var_ndims v \<and> strides_ok start edges stride \<and>
     (\<forall>k<var_ndims v. start ! k + edges ! k \<le> var_shape v ! k \<and> stride ! k < X_INT_MAX) \<and> (\<exists>sd \<in> set stride. sd \<noteq> 1)"

context ncio_client
begin

lemma NC_put_vars_partial_result:
  assumes f: "open_file fs ncid mode ncp s" and w: "\<not> NC_readonly ncp" and a: "access_ok ncp varid v memtype ext"
    and p: "stride_passes ncp v start edges stride" and d: "data_ok ncp v ext (length (bytes s)) (map (\<lambda>_. 0) (var_shape v)) (var_shape v)" and s: "ok s"
    and vs: "length vs = length (srect start edges stride)" "int (length vs) < 18446744073709551616"
  shows "\<exists>s'. NC_put_vars E ub relax io fs ncid varid (Some start) (Some edges) (Some stride) vs memtype =
    Done (if \<exists>c \<in> set (srect start edges stride). \<not> inside (var_shape v) c then NC_EINVALCOORDS else putn_status ub ext (mem_type ext memtype) vs, (), update_file fs ncid ncp s') \<and>
    ok s' \<and> bytes s' = write_elems (conv_bytes ub ext (mem_type ext memtype))
      (map (\<lambda>(c, x). (elem_offset ncp v c, x)) (filter (\<lambda>(c, x). inside (var_shape v) c) (zip (srect start edges stride) vs))) (bytes s)"
proof -
  have p': "dims_match ncp v" "\<not> IS_RECVAR v" "length start = var_ndims v" "strides_ok start edges stride" "\<exists>sd \<in> set stride. sd \<noteq> 1"
    "\<And>k. k < var_ndims v \<Longrightarrow> start ! k + edges ! k \<le> var_shape v ! k \<and> stride ! k < X_INT_MAX" using p by (auto simp: stride_passes_def)
  note D = strides_okD [OF p'(4)]
  have l: "length edges = var_ndims v" "length stride = var_ndims v" "0 < var_ndims v" using p'(3,4) by (simp_all add: strides_ok_def) (metis length_greater_0_conv)
  have v: "NC_lookupvar ncp varid = (NC_NOERR, Some v)" "memtype \<noteq> 0" "var_shaped v" "var_ndims v \<le> 1024" "suffix_product (var_shape v) \<le> OFF_T_MAX"
    using a d by (auto simp: access_ok_def data_ok_def)
  have sh: "length (var_shape v) = var_ndims v" "cur_shape ncp v = var_shape v" using v(3) p'(2) by (simp_all add: var_shaped_def cur_shape_def)
  have nd: "var_ndims v = length (var_dimids v)" using p'(1) by (simp add: dims_match_def)
  note inq = inq_var_found [OF f v(1) nd] inq_recvar_found [OF f v(1) p'(1) v(3)] getshape_found [OF f v(1) p'(1) v(3)]
  have args: "take (var_ndims v) start = start" "vars_edges (var_shape v) start (Some edges) = edges" "vars_stride (var_shape v) (Some stride) = stride"
    using p'(3) l sh by (simp_all add: vars_edges_def vars_stride_def)
  have chk: "vars_check relax (map (\<lambda>k. k = 0 \<and> IS_RECVAR v) [0..<var_ndims v]) (var_shape v) start edges stride = NC_NOERR"
  proof (rule vars_check_passes)
    have "var_shape v ! k \<le> OFF_T_MAX" if "k < var_ndims v" for k using suffix_product_nth [of k "var_shape v"] that sh v(5) by simp
    then show "\<forall>k<length (var_shape v). 0 \<le> start ! k \<and> 0 < edges ! k \<and> start ! k + edges ! k \<le> var_shape v ! k \<and> var_shape v ! k \<le> OFF_T_MAX \<and> 0 < stride ! k \<and> stride ! k < X_INT_MAX"
      using p'(3,6) D sh by auto
  qed (use p'(3) l sh in simp_all)
  have pos: "\<forall>e \<in> set edges. 0 < e" using D(2) p'(3) l(1) by (metis in_set_conv_nth)
  have nels: "foldl (\<lambda>n e. u64 (n * e)) 1 edges \<noteq> 0" by (rule nels_positive [OF _ pos vs]) (simp add: p'(3) l)
  let ?wr = "\<lambda>index vs fs. NC_put_vara E ub relax io fs ncid varid (Some index) (Some (replicate 1024 1)) vs memtype"
  have vars: "NC_put_vars E ub relax io fs ncid varid (Some start) (Some edges) (Some stride) vs memtype =
      odo_put (vars_fuel edges) ?wr (odom_init (length start) start edges stride) vs NC_NOERR fs"
    using p'(3,5) l sh v(2,4) nd nels chk args
    by (auto simp add: NC_put_vars_def NCDEFAULT_put_vars_def inq vars_types_ok [OF a] long_enough_def Let_def cong: if_cong)
  let ?g = "conv_bytes ub ext (mem_type ext memtype)" and ?zero = "map (\<lambda>_. 0) (var_shape v)" and ?cs = "srect start edges stride"
  let ?Inv = "\<lambda>b x. \<exists>s'. x = update_file fs ncid ncp s' \<and> ok s' \<and> bytes s' = b \<and> length b = length (bytes s)"
  have step: "\<exists>x'. ?wr c us x = Done (putn_status ub ext (mem_type ext memtype) [hd us], (), x') \<and> ?Inv (write_elems ?g [(elem_offset ncp v c, hd us)] b) x'"
    if c: "c \<in> set ?cs" "inside (var_shape v) c" and x: "?Inv b x" and us: "us \<noteq> []" for c b us x
  proof -
    obtain s1 where s1: "x = update_file fs ncid ncp s1" "ok s1" "bytes s1 = b" "length b = length (bytes s)" using x by blast
    have c': "c \<in> set (rect ?zero (var_shape v))" using c(2) by (intro rect_intro) (auto simp: inside_def)
    have "length (write_elems ?g [(elem_offset ncp v c, hd us)] b) = length b"
      using write_bytes_length [of ncp v ext b ?zero "var_shape v" "[c]" ub "mem_type ext memtype" "[hd us]"] d s1(4) c' by simp
    with put_element [OF open_file_update(1) [OF f] w a _ _ c' s1(2) us, of E ub relax] p'(2) d s1(3,4)
    show ?thesis unfolding s1(1) using open_file_update(2) [OF f] by metis
  qed
  have bad: "?wr c us x = Done (NC_EINVALCOORDS, (), x)" if c: "c \<in> set ?cs" "\<not> inside (var_shape v) c" and x: "?Inv b x" for c b x and us :: "int list"
  proof -
    obtain s1 where s1: "x = update_file fs ncid ncp s1" using x by blast
    obtain k where k: "c = strided start stride k" "length c = length start" "\<And>i. i < length start \<Longrightarrow> 0 \<le> k ! i \<and> k ! i < edges ! i"
      by (rule srect_mem [OF _ c(1)]) (use l p'(3) in auto)
    have nn: "0 \<le> c ! i" if "i < var_ndims v" for i using k D(1,3) [of i] that p'(3) by (simp add: strided_nth)
    then obtain i where "i < var_ndims v" "var_shape v ! i \<le> c ! i" using c(2) k(2) p'(3) sh by (auto simp: inside_def not_less)
    with put_outside [OF open_file_update(1) [OF f] w a v(3) p'(2) v(4,5), of c i E ub relax] nn k(2) p'(3) s1 show ?thesis by simp
  qed
  have "?Inv (bytes s) fs" using update_file_same [OF f] s by metis
  then have "\<exists>x'. put_each ?wr ?cs vs NC_NOERR fs = Done (if NC_NOERR = NC_EINVALCOORDS \<or> (\<exists>c \<in> set ?cs. \<not> inside (var_shape v) c) then NC_EINVALCOORDS
      else if NC_NOERR = NC_NOERR then putn_status ub ext (mem_type ext memtype) (take (length ?cs) vs) else NC_NOERR, (), x') \<and>
      ?Inv (write_elems ?g (map (\<lambda>(c, x). (elem_offset ncp v c, x)) (filter (\<lambda>(c, x). inside (var_shape v) c) (zip ?cs vs))) (bytes s)) x'"
    by (rule put_each_partial [where Inv = ?Inv and good = "inside (var_shape v)", rotated 2]) (simp, simp add: vs(1), erule (3) step, erule (2) bad)
  then show ?thesis using odo_put_srect [OF p'(4), of ?wr vs NC_NOERR fs] vars vs(1) by auto
qed

end

subsection \<open>What the strided calls promise\<close>

text \<open>
  C10: over a memory file, \<open>NC_get_vars\<close> with strides returns the values of the elements at \<open>start + k * stride\<close>, in row-major order, converted
  to the memory type, and leaves the file as it is: neither the odometer nor the shortcut for strides of 1 shows.
\<close>

theorem NC_get_vars_elements:
  assumes "open_file fs ncid mode ncp mio" "access_ok ncp varid v memtype ext" "strided_ok ncp v ext (length (mio_bytes mio)) start edges stride" "mio_ok mio"
  shows "\<exists>mio'. NC_get_vars E ub relax (memio_io pagesize malloc) fs ncid varid (Some start) (Some edges) (Some stride) memtype =
    Done (fst (getn_values ub ext (mem_type ext memtype) (map (elem_at ext ncp v (mio_bytes mio)) (srect start edges stride))),
      snd (getn_values ub ext (mem_type ext memtype) (map (elem_at ext ncp v (mio_bytes mio)) (srect start edges stride))), update_file fs ncid ncp mio') \<and>
    mio_bytes mio' = mio_bytes mio"
  using mioc.NC_get_vars_result [OF assms] by blast

text \<open>
  C9: over a memory file, values that \<open>NC_put_vars\<close> accepted without \<open>NC_ERANGE\<close> are what \<open>NC_get_vars\<close> with the same strides then returns.
\<close>

theorem NC_put_get_vars:
  assumes f: "open_file fs ncid mode ncp mio" and w: "\<not> NC_readonly ncp" and a: "access_ok ncp varid v memtype ext"
    and d: "strided_ok ncp v ext (length (mio_bytes mio)) start edges stride" "rec_room ncp v" "mio_ok mio"
    and vs: "length vs = length (srect start edges stride)" "int (length vs) < 18446744073709551616"
    and t: "integer_type ext \<and> integer_type memtype \<or> ext = memtype" "\<forall>x \<in> set vs. in_type memtype x"
    and r: "putn_status ub ext memtype vs = NC_NOERR"
  shows "\<exists>fs1 fs2. NC_put_vars E ub relax (memio_io pagesize malloc) fs ncid varid (Some start) (Some edges) (Some stride) vs memtype = Done (NC_NOERR, (), fs1) \<and>
    NC_get_vars E ub relax (memio_io pagesize malloc) fs1 ncid varid (Some start) (Some edges) (Some stride) memtype = Done (NC_NOERR, map Some vs, fs2)"
proof -
  note D = strided_okD [OF d(1)]
  have m: "mem_type ext memtype = memtype" using t(1) by (auto simp: mem_type_def integer_type_def)
  have sub: "set (srect start edges stride) \<subseteq> set (rect start (span edges stride))"
    using srect_span [of edges start stride] D(3,4,5,11) by auto
  obtain mio1 where p: "NC_put_vars E ub relax (memio_io pagesize malloc) fs ncid varid (Some start) (Some edges) (Some stride) vs memtype = Done (NC_NOERR, (), update_file fs ncid ncp mio1)"
      "mio_ok mio1" "mio_bytes mio1 = write_elems (conv_bytes ub ext memtype) (zip (map (elem_offset ncp v) (srect start edges stride)) vs) (mio_bytes mio)"
    using mioc.NC_put_vars_result [OF f w a d(1,3) vs, of E ub relax pagesize malloc] r m by auto
  have "length (mio_bytes mio1) = length (mio_bytes mio)" unfolding p(3) by (rule write_bytes_length [OF D(6) sub])
  then have d1: "strided_ok ncp v ext (length (mio_bytes mio1)) start edges stride" using d(1) by simp
  have "distinct (srect start edges stride)" by (rule srect_distinct) (use D(3,4,11) in auto)
  from elems_write_values [OF D(6) d(2) sub this vs(1)] stored_values_back [OF t r]
  have "getn_values ub ext memtype (map (elem_at ext ncp v (mio_bytes mio1)) (srect start edges stride)) = (NC_NOERR, map Some vs)" unfolding p(3) by simp
  then show ?thesis
    using mioc.NC_get_vars_result [OF open_file_update(1) [OF f] a d1 p(2), of E ub relax pagesize malloc] p(1) m by auto
qed


text \<open>
  A \<open>NULL\<close> stride, which stands for strides of 1, works for variables with at most one dimension only: with more, \<open>NC_check_nulls\<close> writes
  through pointers it was never given.
\<close>

theorem NC_vars_null_stride:
  assumes f: "open_file fs ncid mode ncp s" and v: "NC_lookupvar ncp varid = (NC_NOERR, Some v)" "length (var_dimids v) = var_ndims v" and e: "env_ok E"
  shows "NC_get_vars E ub relax io fs ncid varid (Some start) (Some edges) None memtype =
      (if 2 \<le> var_ndims v then Fault else NC_get_vars E ub relax io fs ncid varid (Some start) (Some edges) (Some (replicate (var_ndims v) 1)) memtype) \<and>
    NC_put_vars E ub relax io fs ncid varid (Some start) (Some edges) None vs memtype =
      (if 2 \<le> var_ndims v then Fault else NC_put_vars E ub relax io fs ncid varid (Some start) (Some edges) (Some (replicate (var_ndims v) 1)) vs memtype)"
  using inq_var_found [OF f v(1) v(2) [symmetric]] v(2) e
  by (simp add: NC_get_vars_def NC_put_vars_def NC_check_nulls_def env_ok_def Let_def)

subsection \<open>Witnesses\<close>

definition strided_file :: nc3_info where
  "strided_file = grid_file\<lparr>dims := \<lparr>dims_nalloc = 4, dims_hashmap = None,
     dims_value = [\<lparr>dim_name = \<lparr>nchars = 1, cp = ''y''\<rparr>, dim_size = 2\<rparr>, \<lparr>dim_name = \<lparr>nchars = 1, cp = ''x''\<rparr>, dim_size = 3\<rparr>]\<rparr>\<rparr>"

lemma strided_file_sel: "\<not> NC_readonly strided_file" "access_ok strided_file 0 grid_var NC_INT NC_SHORT" "rec_room strided_file grid_var" "IS_RECVAR grid_var = False"
  "dims_match strided_file grid_var"
  using grid_sel(1,2) grid_access(1) grid_data(3) grid_rec(1)
  by (simp_all add: strided_file_def access_ok_def NC_lookupvar_def rec_room_def dims_match_def grid_rec elem_NC_dimarray_def find_NC_Udim_def NC_readonly_def NC_indef_def NC_IsNew_def)
    (simp_all add: grid_var_def sample_var_def u64_def)

lemma strided_srect: "srect [0, 0] [2, 2] [1, 2] = [[0, 0], [0, 2], [1, 0], [1, 2]]" "srect [0, 1] [2, 2] [1, 2] = [[0, 1], [0, 3], [1, 1], [1, 3]]"
  by (simp_all add: srect_def upto_rec1 strided_def)

lemma full_grid_rect: "rect [0, 0] [2, 3] = [[0, 0], [0, 1], [0, 2], [1, 0], [1, 1], [1, 2::int]]"
  by (simp add: upto_rec1)

lemma strided_grid: "strided_ok strided_file grid_var NC_SHORT (length (mio_bytes sample_mio)) [0, 0] [2, 2] [1, 2]"
  "stride_passes strided_file grid_var [0, 1] [2, 2] [1, 2]"
  "data_ok strided_file grid_var NC_SHORT (length (mio_bytes sample_mio)) (map (\<lambda>_. 0) (var_shape grid_var)) (var_shape grid_var)"
proof -
  show d: "data_ok strided_file grid_var NC_SHORT (length (mio_bytes sample_mio)) (map (\<lambda>_. 0) (var_shape grid_var)) (var_shape grid_var)"
    unfolding sample_mio_ok(2) data_ok_def
    by (simp add: grid_shaped grid_rec full_grid_rect type_bytes_SHORT slab_in_def slab_ok_def elem_offset_def suffix_product_def less_Suc_eq numeral_2_eq_2)
      (simp add: strided_file_def grid_file_def sample_hdr_def)
  have "span [2, 2] [1, 2] = [2, 3::int]" by (simp add: span_def)
  with d show "strided_ok strided_file grid_var NC_SHORT (length (mio_bytes sample_mio)) [0, 0] [2, 2] [1, 2]"
    by (simp add: strided_ok_def strided_file_sel grid_rec less_Suc_eq numeral_2_eq_2)
  show "stride_passes strided_file grid_var [0, 1] [2, 2] [1, 2]"
    by (simp add: stride_passes_def strides_ok_def strided_file_sel grid_rec less_Suc_eq numeral_2_eq_2)
qed

lemma NC_get_vars_elements_witness:
  "\<exists>mio'. NC_get_vars sample_env (\<lambda>t x. 0) False (memio_io 4096 (\<lambda>n. None)) (memory_files strided_file) 65536 0 (Some [0, 0]) (Some [2, 2]) (Some [1, 2]) NC_INT =
    Done (NC_NOERR, map Some [31354, 31354, 31354, 31354], update_file (memory_files strided_file) 65536 strided_file mio')"
proof -
  have "take 2 (drop n (mio_bytes sample_mio)) = ''zz''" if "n \<le> 510" for n
    using that unfolding mio_bytes_def sample_mio_def by (simp add: min_def numeral_2_eq_2)
  then have "map (elem_at NC_SHORT strided_file grid_var (mio_bytes sample_mio)) (srect [0, 0] [2, 2] [1, 2]) = [31354, 31354, 31354, 31354]"
    unfolding strided_srect
    by (simp add: elem_at_def elem_offset_def grid_rec type_bytes_SHORT suffix_product_def ext_value_def unbe_def type_wrap_def type_min_def is_signed_def of_char_def)
  then show ?thesis
    using NC_get_vars_elements [OF memory_files_open strided_file_sel(2) strided_grid(1) sample_mio_ok(1), of sample_env "\<lambda>t x. 0" False 4096 "\<lambda>n. None"]
    by (auto simp: getn_values_def range_status_def mem_type_def conv_get_def is_float_def in_type_def type_min_def type_max_def is_signed_def type_bytes_def type_wrap_def)
qed

lemma NC_put_get_vars_witness:
  "\<exists>fs1 fs2. NC_put_vars sample_env (\<lambda>t x. 0) False (memio_io 4096 (\<lambda>n. None)) (memory_files strided_file) 65536 0 (Some [0, 0]) (Some [2, 2]) (Some [1, 2]) [1, 2, 3, 4] NC_INT =
      Done (NC_NOERR, (), fs1) \<and>
    NC_get_vars sample_env (\<lambda>t x. 0) False (memio_io 4096 (\<lambda>n. None)) fs1 65536 0 (Some [0, 0]) (Some [2, 2]) (Some [1, 2]) NC_INT = Done (NC_NOERR, map Some [1, 2, 3, 4], fs2)"
  by (rule NC_put_get_vars [OF memory_files_open strided_file_sel(1,2) strided_grid(1) strided_file_sel(3) sample_mio_ok(1)])
    (simp_all add: strided_srect integer_type_def putn_status_def range_status_def conv_put_def is_float_def in_type_def type_min_def type_max_def is_signed_def type_bytes_def)


lemma NC_vars_null_stride_witness:
  "NC_get_vars sample_env (\<lambda>t x. 0) False (memio_io 4096 (\<lambda>n. None)) (memory_files strided_file) 65536 0 (Some [0, 0]) (Some [2, 3]) None NC_INT = Fault"
proof -
  have "NC_lookupvar strided_file 0 = (NC_NOERR, Some grid_var)" using strided_file_sel(2) by (simp add: access_ok_def)
  from NC_vars_null_stride [OF memory_files_open this _ sample_env_ok, of "\<lambda>t x. 0" False "memio_io 4096 (\<lambda>n. None)" "[0, 0]" "[2, 3]" NC_INT] strided_file_sel(5)
  show ?thesis by (simp add: grid_rec dims_match_def)
qed

end
