(* ===== verification/NC_Mapped.thy ===== *)
theory NC_Mapped
  imports NC_Varm NC_Strided
begin

text \<open>
  What \<open>NC_get_varm\<close> and \<open>NC_put_varm\<close> do to an open file and to the caller's array. The loop goes through the strided rectangle in row-major order,
  and its pointer is at the place \<open>dot imap k\<close> of the element \<open>k\<close>; rows that are dense on both sides, which the loop takes at once, are rows of
  that rectangle. From this, the calls gather and scatter what \<open>NC_put_vars\<close> and \<open>NC_get_vars\<close> write and read.
\<close>

subsection \<open>The loop goes through the strided rectangle\<close>

text \<open>The place in memory of the element \<open>k\<close> steps away from the first, counted in elements from \<open>value0\<close>.\<close>

definition dot :: "int list \<Rightarrow> int list \<Rightarrow> int" where
  "dot imap k = (\<Sum>(m, x)\<leftarrow>zip imap k. m * x)"

lemma dot_simps [simp]: "dot [] k = 0" "dot imap [] = 0" "dot (m # imap) (x # k) = m * x + dot imap k"
  by (simp_all add: dot_def)

lemma dot_update: "length k = length imap \<Longrightarrow> i < length k \<Longrightarrow> dot imap (k[i := x]) = dot imap k + imap ! i * (x - k ! i)"
proof (induction k imap arbitrary: i rule: list_induct2)
  case (Cons y k m imap)
  then show ?case by (cases i) (simp_all add: algebra_simps)
qed simp

lemma dot_zero: "dot imap (map (\<lambda>_. 0) k) = 0"
  by (induction imap k rule: list_induct2') simp_all

lemma strided_zero: "strided start stride (map (\<lambda>_. 0) start) = start"
  by (rule nth_equalityI) (simp_all add: strided_def)

text \<open>What the arrays of the loop have to be, for steps and strides that do not wrap.\<close>

definition arrays_fit :: "(int \<Rightarrow> int) \<Rightarrow> int \<Rightarrow> varm_arrays \<Rightarrow> int list \<Rightarrow> int list \<Rightarrow> int list \<Rightarrow> int list \<Rightarrow> bool" where
  "arrays_fit step memtypelen A start edges stride imap \<longleftrightarrow> (\<forall>i<length start. vm_stride A ! i = stride ! i \<and>
     vm_stop A ! i = start ! i + edges ! i * stride ! i \<and> u64 (step (vm_map A ! i)) = u64 (imap ! i * memtypelen) \<and>
     u64 (vm_length A ! i * u64 memtypelen) = u64 (imap ! i * edges ! i * memtypelen))"

lemma u64_add: "u64 (u64 a + b) = u64 (a + b)" "u64 (a + u64 b) = u64 (a + b)" "u64 (u64 a - b) = u64 (a - b)" "u64 (a - u64 b) = u64 (a - b)"
  by (simp_all add: u64_def mod_simps)

lemma u64_step: "u64 x = u64 y \<Longrightarrow> u64 (u64 a + x) = u64 (a + y)"
  by (metis u64_add(1,2))

lemma carry_strided:
  assumes s: "strides_ok start edges stride" and a: "arrays_fit step memtypelen A start edges stride imap" and st: "\<forall>j<length start. st ! j = start ! j"
    and m: "length imap = length start"
  defines "zero \<equiv> map (\<lambda>_. 0) start"
  shows "i < length start \<Longrightarrow> length k = length start \<Longrightarrow> \<forall>j\<le>i. 0 \<le> k ! j \<and> k ! j < edges ! j \<Longrightarrow>
    odo1 zero (set_upper zero edges (length start)) k i = Done k' \<Longrightarrow>
    varm_carry step memtypelen A (Some st) i (strided start stride k) (u64 (memtypelen * dot imap k)) =
      Done (if k' ! 0 < edges ! 0 then Some (strided start stride k', u64 (memtypelen * dot imap k')) else None)"
proof (induction i arbitrary: k)
  case 0
  then have k: "0 \<le> k ! 0" "k ! 0 < edges ! 0" by auto
  note st0 = stride_step [OF s 0(1) k]
  have k': "k' = k[0 := k ! 0 + 1]" using 0(4) st0 by (auto simp: Let_def assert_run_def split: if_splits)
  have off: "u64 (u64 (memtypelen * dot imap k) + step (vm_map A ! 0)) = u64 (memtypelen * dot imap k')"
    using a 0(1,2) m by (subst u64_step [of _ "imap ! 0 * memtypelen"]) (auto simp: arrays_fit_def k' dot_update algebra_simps)
  have "u64 (strided start stride k ! 0 + u64 (vm_stride A ! 0)) = start ! 0 + (k ! 0 + 1) * stride ! 0"
    using st0(1) a 0(1) by (simp add: strided_nth arrays_fit_def)
  moreover have "start ! 0 + (k ! 0 + 1) * stride ! 0 = vm_stop A ! 0 \<longleftrightarrow> \<not> k ! 0 + 1 < edges ! 0"
    using st0(2) a 0(1) k strides_okD [OF s 0(1)] by (auto simp: arrays_fit_def)
  moreover have "strided start stride k' = (strided start stride k)[0 := start ! 0 + (k ! 0 + 1) * stride ! 0]" unfolding k' by (rule strided_update [OF 0(1,2)])
  ultimately show ?case using off 0(1,2) by (auto simp: Let_def k')
next
  case (Suc i)
  have k: "0 \<le> k ! Suc i" "k ! Suc i < edges ! Suc i" using Suc.prems(3) by auto
  note st1 = stride_step [OF s Suc.prems(1) k]
  have up: "set_upper zero edges (length start) ! Suc i = edges ! Suc i"
    using set_upper_nth [OF strides_slab_ok [OF s], of "Suc i"] Suc.prems(1) by (simp add: zero_def)
  have z: "zero ! Suc i = 0" using Suc.prems(1) by (simp add: zero_def)
  have next': "u64 (strided start stride k ! Suc i + u64 (vm_stride A ! Suc i)) = start ! Suc i + (k ! Suc i + 1) * stride ! Suc i"
    using st1(1) a Suc.prems(1) by (simp add: strided_nth arrays_fit_def)
  have stop: "start ! Suc i + (k ! Suc i + 1) * stride ! Suc i = vm_stop A ! Suc i \<longleftrightarrow> \<not> k ! Suc i + 1 < edges ! Suc i"
    using st1(2) a Suc.prems(1) k strides_okD [OF s Suc.prems(1)] by (auto simp: arrays_fit_def)
  have off: "u64 (u64 (memtypelen * dot imap k) + step (vm_map A ! Suc i)) = u64 (memtypelen * dot imap (k[Suc i := k ! Suc i + 1]))"
    using a Suc.prems(1,2) m by (subst u64_step [of _ "imap ! Suc i * memtypelen"]) (auto simp: arrays_fit_def dot_update algebra_simps)
  show ?case
  proof (cases "k ! Suc i + 1 < edges ! Suc i")
    case True
    with Suc.prems(4) st1(3) up have k': "k' = k[Suc i := k ! Suc i + 1]" by (auto simp: Let_def assert_run_def split: if_splits)
    have "k' ! 0 < edges ! 0" using Suc.prems(2,3) by (simp add: k')
    moreover have "strided start stride k' = (strided start stride k)[Suc i := start ! Suc i + (k ! Suc i + 1) * stride ! Suc i]"
      unfolding k' by (rule strided_update [OF Suc.prems(1,2)])
    ultimately show ?thesis using True stop off next' by (simp add: Let_def k')
  next
    case False
    then have e: "k ! Suc i + 1 = edges ! Suc i" using k by simp
    from False Suc.prems(4) st1(3) up z have "odo1 zero (set_upper zero edges (length start)) (k[Suc i := 0]) i = Done k'"
      by (auto simp: Let_def assert_run_def split: if_splits)
    then have IH: "varm_carry step memtypelen A (Some st) i (strided start stride (k[Suc i := 0])) (u64 (memtypelen * dot imap (k[Suc i := 0]))) =
        Done (if k' ! 0 < edges ! 0 then Some (strided start stride k', u64 (memtypelen * dot imap k')) else None)"
      using Suc.prems(1-3) by (intro Suc.IH) auto
    have "u64 (vm_length A ! Suc i * u64 memtypelen) = u64 (imap ! Suc i * edges ! Suc i * memtypelen)" using a Suc.prems(1) by (simp add: arrays_fit_def)
    moreover have "memtypelen * dot imap (k[Suc i := k ! Suc i + 1]) - imap ! Suc i * edges ! Suc i * memtypelen = memtypelen * dot imap (k[Suc i := 0])"
      using Suc.prems(1,2) m by (simp add: dot_update e [symmetric] algebra_simps)
    ultimately have "u64 (u64 (memtypelen * dot imap (k[Suc i := k ! Suc i + 1])) - u64 (vm_length A ! Suc i * u64 memtypelen)) = u64 (memtypelen * dot imap (k[Suc i := 0]))"
      by (metis u64_add(3,4))
    with IH False stop off next' st Suc.prems(1,2) show ?thesis by (simp add: Let_def strided_update)
  qed
qed

text \<open>A loop of this form goes through the strided rectangle and the places in memory at the same time.\<close>

lemma varm_loop:
  assumes s: "strides_ok start edges stride" and a: "arrays_fit step memtypelen A start edges stride imap" and st: "\<forall>j<length start. st ! j = start ! j"
    and m: "length imap = length start" and fuel: "length (rect (map (\<lambda>_. 0) start) edges) \<le> fuel"
    and step: "\<And>fuel c off nxt cs x. varm_carry step memtypelen A (Some st) (length start - 1) c off = Done nxt \<Longrightarrow>
      (case nxt of None \<Rightarrow> cs = [] | Some (c', off') \<Rightarrow> \<forall>x. run fuel c' off' x = each cs x) \<Longrightarrow> run (Suc fuel) c off x = each ((c, index off) # cs) x"
  shows "run fuel start 0 x = each (map (\<lambda>k. (strided start stride k, index (u64 (memtypelen * dot imap k)))) (rect (map (\<lambda>_. 0) start) edges)) x"
proof -
  define zero i where "zero = map (\<lambda>_. 0 :: int) start" and "i = length start - 1"
  define ev where "ev = (\<lambda>r. (strided start stride (coord_at zero edges i r zero), index (u64 (memtypelen * dot imap (coord_at zero edges i r zero)))))"
  note b = box_steps [OF s, folded zero_def i_def]
  have n: "i < length start" using s by (cases start) (auto simp: strides_ok_def i_def)
  have up0: "set_upper zero edges (length zero) ! 0 = edges ! 0" using set_upper_nth [OF strides_slab_ok [OF s], of 0] n by (cases "start = []") (simp_all add: zero_def)
  have go: "varm_carry step memtypelen A (Some st) i (strided start stride (coord_at zero edges i r zero)) (u64 (memtypelen * dot imap (coord_at zero edges i r zero))) =
      Done (if r + 1 < steps edges i then Some (strided start stride (coord_at zero edges i (r + 1) zero), u64 (memtypelen * dot imap (coord_at zero edges i (r + 1) zero))) else None)"
    if r: "0 \<le> r" "r < steps edges i" for r
  proof -
    have "coord_at zero edges i (r + 1) zero ! 0 < edges ! 0 \<longleftrightarrow> r + 1 < steps edges i" using loop_test [OF b(1), of "r + 1"] r up0 by simp
    with carry_strided [OF s a st m n, of "coord_at zero edges i r zero" "coord_at zero edges i (r + 1) zero"] b(4) [OF r] odometer [OF b(1) r]
    show ?thesis by (simp add: zero_def)
  qed
  have "0 \<le> r \<Longrightarrow> r < steps edges i \<Longrightarrow> steps edges i - r \<le> int fuel \<Longrightarrow>
      run fuel (strided start stride (coord_at zero edges i r zero)) (u64 (memtypelen * dot imap (coord_at zero edges i r zero))) x = each (map ev [r..steps edges i - 1]) x" for r fuel x
  proof (induction fuel arbitrary: r x)
    case (Suc fuel)
    have "[r..steps edges i - 1] = r # [r + 1..steps edges i - 1]" using Suc.prems by (intro upto_rec1) simp
    then have "map ev [r..steps edges i - 1] = (strided start stride (coord_at zero edges i r zero), index (u64 (memtypelen * dot imap (coord_at zero edges i r zero)))) # map ev [r + 1..steps edges i - 1]"
      by (simp add: ev_def)
    then show ?case by (simp only:) (rule step [OF go [OF Suc.prems(1,2), unfolded i_def], folded i_def], use Suc in \<open>auto split: if_splits\<close>)
  qed simp
  from this [of 0 fuel] have "0 < steps edges i \<Longrightarrow> steps edges i \<le> int fuel \<Longrightarrow> run fuel start 0 x = each (map ev [0..steps edges i - 1]) x"
    using coord_at_start [of zero edges i] dot_zero [of imap start] strided_zero by (simp add: zero_def u64_def)
  moreover have "map ev [0..steps edges i - 1] = map (\<lambda>k. (strided start stride k, index (u64 (memtypelen * dot imap k)))) (rect zero edges)"
    unfolding b(2) [symmetric] by (simp add: ev_def)
  moreover have "0 < steps edges i" using strides_okD(2) [OF s, of 0] n inner_count_pos [of edges i] by (cases "start = []") (simp_all add: steps_def)
  moreover have "length (rect zero edges) = nat (steps edges i)" unfolding b(2) [symmetric] by simp
  ultimately show ?thesis using fuel by (simp add: zero_def)
qed

fun get_to :: "(int list \<Rightarrow> 's \<Rightarrow> (int \<times> int option list \<times> 's) run) \<Rightarrow> (int list \<times> int) list \<Rightarrow> int list \<Rightarrow> int \<Rightarrow> 's \<Rightarrow> (int \<times> int list \<times> 's) run" where
  "get_to rd [] mem status s = Done (status, mem, s)"
| "get_to rd ((c, p) # cs) mem status s = run_bind (rd c s) (\<lambda>(lstatus, vs, s1). run_bind (mem_store mem p vs) (\<lambda>mem1. get_to rd cs mem1 (later_status status lstatus) s1))"

fun put_from :: "(int list \<Rightarrow> int list \<Rightarrow> 's \<Rightarrow> (int \<times> unit \<times> 's) run) \<Rightarrow> int list \<Rightarrow> (int list \<times> int) list \<Rightarrow> int \<Rightarrow> 's \<Rightarrow> (int \<times> unit \<times> 's) run" where
  "put_from wr mem [] status s = Done (status, (), s)"
| "put_from wr mem ((c, p) # cs) status s = run_bind (wr c (mem_from mem p) s) (\<lambda>(lstatus, u, s1). put_from wr mem cs (later_status status lstatus) s1)"

lemma varm_get_box:
  assumes "strides_ok start edges stride" "arrays_fit step memtypelen A start edges stride imap" "\<forall>j<length start. st ! j = start ! j"
    and "length imap = length start" "length (rect (map (\<lambda>_. 0) start) edges) \<le> fuel"
  shows "varm_get fuel rd (varm_carry step memtypelen A (Some st) (length start - 1)) index start 0 mem status s =
    get_to rd (map (\<lambda>k. (strided start stride k, index (u64 (memtypelen * dot imap k)))) (rect (map (\<lambda>_. 0) start) edges)) mem status s"
  by (rule varm_loop [OF assms, of "\<lambda>fuel c off (mem, status, s). varm_get fuel rd (varm_carry step memtypelen A (Some st) (length start - 1)) index c off mem status s"
    "\<lambda>cs (mem, status, s). get_to rd cs mem status s" index "(mem, status, s)", unfolded split_conv])
    (auto simp: split_paired_all split: option.splits intro!: run_bind_cong)

lemma varm_put_box:
  assumes "strides_ok start edges stride" "arrays_fit step memtypelen A start edges stride imap" "\<forall>j<length start. st ! j = start ! j"
    and "length imap = length start" "length (rect (map (\<lambda>_. 0) start) edges) \<le> fuel"
  shows "varm_put fuel wr (varm_carry step memtypelen A (Some st) (length start - 1)) index start 0 mem status s =
    put_from wr mem (map (\<lambda>k. (strided start stride k, index (u64 (memtypelen * dot imap k)))) (rect (map (\<lambda>_. 0) start) edges)) status s"
  by (rule varm_loop [OF assms, of "\<lambda>fuel c off (status, s). varm_put fuel wr (varm_carry step memtypelen A (Some st) (length start - 1)) index c off mem status s"
    "\<lambda>cs (status, s). put_from wr mem cs status s" index "(status, s)", unfolded split_conv])
    (auto simp: split_paired_all split: option.splits intro!: run_bind_cong)

subsection \<open>The adjusted arrays\<close>

text \<open>
  Where the last dimension is dense in the variable and in memory, the loop takes a row at a time: one step of the length of the row.
\<close>

definition dense_last :: "int list \<Rightarrow> int list \<Rightarrow> bool" where
  "dense_last stride imap \<longleftrightarrow> last stride = 1 \<and> last imap = 1"

definition row_edges :: "int list \<Rightarrow> int list \<Rightarrow> int list \<Rightarrow> int list" where
  "row_edges stride imap edges = (if dense_last stride imap then butlast edges @ [1] else edges)"

definition row_steps :: "int list \<Rightarrow> int list \<Rightarrow> int list \<Rightarrow> int list \<Rightarrow> int list" where
  "row_steps stride imap edges xs = (if dense_last stride imap then butlast xs @ [last edges] else xs)"

text \<open>The elements of the rows, and their places in memory, are those of the rectangle.\<close>

lemma strided_snoc: "length p = length start \<Longrightarrow> length stride = length start \<Longrightarrow> strided (start @ [x]) (stride @ [d]) (p @ [i]) = strided start stride p @ [x + i * d]"
  by (rule nth_equalityI) (auto simp: strided_def nth_append)

lemma dot_snoc: "length imap = length p \<Longrightarrow> dot (imap @ [m]) (p @ [i]) = dot imap p + m * i"
  by (simp add: dot_def)

lemma length_strided [simp]: "length (strided start stride k) = length start"
  by (simp add: strided_def)

lemma rows_elements:
  assumes l: "length edges = length start" "length stride = length start" "length imap = length start" "start \<noteq> []" and e: "0 < last edges"
  defines "zero \<equiv> map (\<lambda>_. 0) start" and "rows \<equiv> rect (map (\<lambda>_. 0) start) (row_edges stride imap edges)"
    and "cells \<equiv> (\<lambda>c. rect c (row_steps stride imap edges (replicate (length start) 1)))"
  shows "concat (map (\<lambda>k. cells (strided start (row_steps stride imap edges stride) k)) rows) = srect start edges stride"
    and "concat (map (\<lambda>k. [b + dot (row_steps stride imap edges imap) k..b + dot (row_steps stride imap edges imap) k + int (length (cells (strided start (row_steps stride imap edges stride) k))) - 1]) rows) =
      map (\<lambda>k. b + dot imap k) (rect zero edges)"
    and "k \<in> set rows \<Longrightarrow> length k = length start"
proof -
  obtain start0 x where s: "start = start0 @ [x]" using l(4) by (cases start rule: rev_cases) auto
  obtain edges0 e where ed: "edges = edges0 @ [e]" "length edges0 = length start0" using l(1) s by (cases edges rule: rev_cases) auto
  obtain stride0 d where sd: "stride = stride0 @ [d]" "length stride0 = length start0" using l(2) s by (cases stride rule: rev_cases) auto
  obtain imap0 m where im: "imap = imap0 @ [m]" "length imap0 = length start0" using l(3) s by (cases imap rule: rev_cases) auto
  let ?z = "map (\<lambda>_. 0) start0"
  have all: "rect zero edges = concat (map (\<lambda>p. map (\<lambda>i. p @ [i]) [0..e - 1]) (rect ?z edges0))"
    using rect_snoc [of ?z edges0 0 e] ed by (simp add: zero_def s)
  have lp: "length p = length start0" if "p \<in> set (rect ?z edges0)" for p using rect_mem_length [OF _ that] ed by simp
  have one: "rect c (replicate (length c) 1) = [c]" for c by (rule rect_single)
  show "k \<in> set rows \<Longrightarrow> length k = length start"
    using rect_mem_length [of zero "row_edges stride imap edges" k] l(1,4) by (auto simp: rows_def zero_def row_edges_def)
  have "concat (map (\<lambda>k. cells (strided start (row_steps stride imap edges stride) k)) rows) = srect start edges stride \<and>
    concat (map (\<lambda>k. [b + dot (row_steps stride imap edges imap) k..b + dot (row_steps stride imap edges imap) k + int (length (cells (strided start (row_steps stride imap edges stride) k))) - 1]) rows) =
      map (\<lambda>k. b + dot imap k) (rect zero edges)"
  proof (cases "d = 1 \<and> m = 1")
    case True
    then have adj: "dense_last stride imap" by (simp add: dense_last_def sd im)
    have rows: "rows = map (\<lambda>p. p @ [0]) (rect ?z edges0)" using rect_snoc [of ?z edges0 0 1] ed adj by (simp add: rows_def row_edges_def s)
    have cells: "cells (q @ [x]) = map (\<lambda>i. q @ [i]) [x..x + e - 1]" if "length q = length start0" for q
      using rect_snoc [of q "replicate (length q) 1" x e] one [of q] that adj
      by (simp add: cells_def row_steps_def s ed replicate_append_same [symmetric])
    have c: "cells (strided start (row_steps stride imap edges stride) (p @ [0])) = map (\<lambda>i. strided start stride (p @ [i])) [0..e - 1]" if "p \<in> set (rect ?z edges0)" for p
      using lp [OF that] True adj cells [of "strided start0 stride0 p"] map_upto_shift [of "\<lambda>i. strided start0 stride0 p @ [i]" x "x + e - 1"]
      by (simp add: s sd ed row_steps_def strided_snoc add.commute)
    have d: "[b + dot (row_steps stride imap edges imap) (p @ [0])..b + dot (row_steps stride imap edges imap) (p @ [0]) + int (length (map (\<lambda>i. strided start stride (p @ [i])) [0..e - 1])) - 1] =
        map (\<lambda>i. b + dot imap (p @ [i])) [0..e - 1]" if "p \<in> set (rect ?z edges0)" for p
      using lp [OF that] True adj e map_upto_shift [of "\<lambda>i. i" "b + dot imap0 p" "b + dot imap0 p + e - 1"]
      by (simp add: im ed row_steps_def dot_snoc algebra_simps)
    show ?thesis using c d by (simp add: rows all srect_def zero_def [symmetric] map_concat comp_def cong: map_cong)
  next
    case False
    then have adj: "\<not> dense_last stride imap" by (simp add: dense_last_def sd im)
    have "cells (strided start stride k) = [strided start stride k]" for k
      using one [of "strided start stride k"] adj by (simp add: cells_def row_steps_def)
    then show ?thesis using adj by (simp add: row_steps_def rows_def row_edges_def srect_def zero_def concat_map_singleton)
  qed
  then show "concat (map (\<lambda>k. cells (strided start (row_steps stride imap edges stride) k)) rows) = srect start edges stride"
    "concat (map (\<lambda>k. [b + dot (row_steps stride imap edges imap) k..b + dot (row_steps stride imap edges imap) k + int (length (cells (strided start (row_steps stride imap edges stride) k))) - 1]) rows) =
      map (\<lambda>k. b + dot imap k) (rect zero edges)" by blast+
qed

lemma last_update: "xs \<noteq> [] \<Longrightarrow> xs[length xs - 1 := y] = butlast xs @ [y]"
  by (cases xs rule: rev_cases) simp_all

lemma row_steps_nth: "i < length xs \<Longrightarrow> row_steps stride imap edges xs ! i = (if dense_last stride imap \<and> i = length xs - 1 then last edges else xs ! i)"
  by (auto simp: row_steps_def nth_append nth_butlast)

lemma row_edges_nth: "i < length edges \<Longrightarrow> row_edges stride imap edges ! i = (if dense_last stride imap \<and> i = length edges - 1 then 1 else edges ! i)"
  by (auto simp: row_edges_def nth_append nth_butlast)

lemma length_rows [simp]: "xs \<noteq> [] \<Longrightarrow> length (row_steps stride imap edges xs) = length xs" "edges \<noteq> [] \<Longrightarrow> length (row_edges stride imap edges) = length edges"
  by (simp_all add: row_steps_def row_edges_def)

lemma rows_strides_ok:
  assumes s: "strides_ok start edges stride" and m: "length imap = length start"
  shows "strides_ok start (row_edges stride imap edges) (row_steps stride imap edges stride)"
proof -
  have n: "start \<noteq> []" "edges \<noteq> []" "stride \<noteq> []" "length edges = length start" "length stride = length start" "length start \<le> 1024" using s by (auto simp: strides_ok_def)
  have "0 < row_edges stride imap edges ! i \<and> 0 < row_steps stride imap edges stride ! i \<and>
      row_edges stride imap edges ! i * row_steps stride imap edges stride ! i = edges ! i * stride ! i" if "i < length start" for i
    using strides_okD [OF s that] that n by (auto simp: row_edges_nth row_steps_nth dense_last_def last_conv_nth)
  with s n show ?thesis by (auto simp: strides_ok_def)
qed

lemma rows_fewer:
  assumes e: "\<forall>x \<in> set edges. 0 < x" and "length edges = length start" "edges \<noteq> []"
  shows "length (rect (map (\<lambda>_. 0) start) (row_edges stride imap edges)) \<le> vars_fuel edges"
proof -
  obtain es x where ed: "edges = es @ [x]" using assms(3) by (cases edges rule: rev_cases) auto
  have p: "0 \<le> prod_list (map (max 0) es)" by (induction es) auto
  have "prod_list (map (max 0) (row_edges stride imap edges)) \<le> prod_list (map (max 0) edges)"
    using e p by (auto simp: row_edges_def ed intro!: mult_left_mono [of 1 x "prod_list (map (max 0) es)", simplified])
  then show ?thesis using assms(2,3) by (subst length_rect) (simp_all add: vars_fuel_def)
qed

lemma u64_u64 [simp]: "u64 (u64 x) = u64 x"
  by (simp add: u64_def)

lemma u64_s64: "u64 (s64 x) = u64 x"
  by (simp add: u64_def s64_def mod_simps)

lemma u64_mult: "u64 (u64 a * b) = u64 (a * b)" "u64 (a * u64 b) = u64 (a * b)"
  by (simp_all add: u64_def mod_simps)

lemma rows_init:
  assumes s: "strides_ok start edges stride" and m: "length imap = length start" and e: "last edges \<le> OFF_T_MAX"
  shows "vm_stride (varm_init start edges stride imap) = row_steps stride imap edges stride" "vm_map (varm_init start edges stride imap) = row_steps stride imap edges imap"
    "vm_iocount (varm_init start edges stride imap) = row_steps stride imap edges (replicate (length start) 1)"
proof -
  let ?n = "length start"
  have n: "start \<noteq> []" "edges \<noteq> []" "stride \<noteq> []" "imap \<noteq> []" "length edges = ?n" "length stride = ?n" "0 < ?n" using s m by (auto simp: strides_ok_def)
  have dl: "dense_last stride imap \<longleftrightarrow> stride ! (?n - 1) = 1 \<and> imap ! (?n - 1) = 1" using n m by (simp add: dense_last_def last_conv_nth)
  have le: "last edges = edges ! (?n - 1)" using n by (simp add: last_conv_nth)
  have e0: "0 < edges ! (?n - 1)" "edges ! (?n - 1) < 18446744073709551615" using strides_okD [OF s, of "?n - 1"] n(7) by auto
  have ids: "u64 (edges ! (?n - 1)) = edges ! (?n - 1)" "s64 (edges ! (?n - 1)) = edges ! (?n - 1)"
    using e0 e le by (auto intro!: u64_id s64_nonneg)
  have ups: "row_steps stride imap edges xs = (if dense_last stride imap then xs[?n - 1 := last edges] else xs)" if "length xs = ?n" for xs
    using that [symmetric] n(1) last_update [of xs "last edges"] by (cases "xs = []") (simp_all add: row_steps_def)
  show "vm_stride (varm_init start edges stride imap) = row_steps stride imap edges stride" "vm_map (varm_init start edges stride imap) = row_steps stride imap edges imap"
    "vm_iocount (varm_init start edges stride imap) = row_steps stride imap edges (replicate (length start) 1)"
    using m n ids by (simp_all add: varm_init_def Let_def ups dl le u64_def [of 1])
qed

lemma rows_arrays:
  assumes s: "strides_ok start edges stride" and m: "length imap = length start" and e: "last edges \<le> OFF_T_MAX"
    and st: "\<And>i. i < length start \<Longrightarrow> u64 (step (row_steps stride imap edges imap ! i)) = u64 (row_steps stride imap edges imap ! i * memtypelen)"
  shows "arrays_fit step memtypelen (varm_init start edges stride imap) start (row_edges stride imap edges) (row_steps stride imap edges stride) (row_steps stride imap edges imap)"
proof -
  let ?n = "length start" and ?A = "varm_init start edges stride imap"
  note A = rows_init [OF s m e]
  have n: "edges \<noteq> []" "stride \<noteq> []" "imap \<noteq> []" "length edges = ?n" "length stride = ?n" "0 < ?n" using s m by (auto simp: strides_ok_def)
  have B: "vm_stop ?A ! i = u64 (start ! i + u64 (edges ! i * u64 (stride ! i)))" "vm_length ?A ! i = u64 (u64 (imap ! i) * edges ! i)" if "i < ?n" for i
    using that by (simp_all add: varm_init_def Let_def)
  show ?thesis
    unfolding arrays_fit_def
  proof (intro allI impI conjI)
    fix i assume i: "i < ?n"
    have q: "row_edges stride imap edges ! i * row_steps stride imap edges stride ! i = edges ! i * stride ! i"
      "row_edges stride imap edges ! i * row_steps stride imap edges imap ! i = edges ! i * imap ! i"
      using i n m by (auto simp: row_edges_nth row_steps_nth dense_last_def last_conv_nth)
    show "vm_stride ?A ! i = row_steps stride imap edges stride ! i" by (simp add: A)
    have "u64 (start ! i + u64 (edges ! i * u64 (stride ! i))) = start ! i + edges ! i * stride ! i"
      using odom_stop_nth [OF s i] i by (simp add: odom_init_def)
    then show "vm_stop ?A ! i = start ! i + row_edges stride imap edges ! i * row_steps stride imap edges stride ! i" by (simp add: B [OF i] q)
    show "u64 (step (vm_map ?A ! i)) = u64 (row_steps stride imap edges imap ! i * memtypelen)" using st [OF i] by (simp add: A)
    have "u64 (vm_length ?A ! i * u64 memtypelen) = u64 (imap ! i * edges ! i * memtypelen)"
      using u64_mult by (metis B(2) [OF i])
    then show "u64 (vm_length ?A ! i * u64 memtypelen) = u64 (row_steps stride imap edges imap ! i * row_edges stride imap edges ! i * memtypelen)"
      using q(2) by (simp add: mult.commute)
  qed
qed

text \<open>The writer's steps in memory are exact modulo 64 bits, the reader's only as far as they fit an \<open>int\<close>.\<close>

lemma put_step_exact: "u64 (put_step memtypelen m) = u64 (m * memtypelen)"
  by (simp add: put_step_def u64_s64)

definition steps_fit :: "int \<Rightarrow> int list \<Rightarrow> int list \<Rightarrow> int list \<Rightarrow> bool" where
  "steps_fit memtypelen edges stride imap \<longleftrightarrow> (\<forall>m \<in> set imap. - 2147483648 \<le> m * memtypelen \<and> m * memtypelen < 2147483648) \<and>
     (stride \<noteq> [] \<and> last stride = 1 \<and> last imap = 1 \<longrightarrow> last edges * memtypelen < 2147483648)"

lemma get_step_exact: "0 < memtypelen \<Longrightarrow> - 2147483648 \<le> m * memtypelen \<Longrightarrow> m * memtypelen < 2147483648 \<Longrightarrow> get_step memtypelen m = m * memtypelen"
proof -
  assume a: "0 < memtypelen" "- 2147483648 \<le> m * memtypelen" "m * memtypelen < 2147483648"
  have "- 2147483648 \<le> m \<and> m < 2147483648"
  proof (cases "0 \<le> m")
    case True
    then have "m * 1 \<le> m * memtypelen" using a(1) by (intro mult_left_mono) auto
    then have "m \<le> m * memtypelen" by (simp only: mult_1_right)
    with a True show ?thesis by linarith
  next
    case False
    then have "m * memtypelen \<le> m * 1" using a(1) by (intro mult_left_mono_neg) auto
    then have "m * memtypelen \<le> m" by (simp only: mult_1_right)
    with a False show ?thesis by linarith
  qed
  with a show ?thesis by (simp add: get_step_def s32_id)
qed

lemma get_steps_exact:
  assumes f: "steps_fit memtypelen edges stride imap" and l: "0 < memtypelen" "length imap = length start" "length stride = length start" "i < length start" "0 \<le> last edges"
  shows "u64 (get_step memtypelen (row_steps stride imap edges imap ! i)) = u64 (row_steps stride imap edges imap ! i * memtypelen)"
proof -
  have "0 \<le> last edges * memtypelen" using l by simp
  then have "- 2147483648 \<le> last edges * memtypelen" by linarith
  with f l have "- 2147483648 \<le> row_steps stride imap edges imap ! i * memtypelen \<and> row_steps stride imap edges imap ! i * memtypelen < 2147483648"
    by (auto simp: row_steps_nth steps_fit_def dense_last_def)
  with l(1) show ?thesis by (simp add: get_step_exact)
qed

subsection \<open>The caller's memory afterwards\<close>

definition mem_put :: "int list \<Rightarrow> (int \<times> int option) list \<Rightarrow> int list" where
  "mem_put mem ps = foldl (\<lambda>m (p, v). case v of None \<Rightarrow> m | Some x \<Rightarrow> m[nat p := x]) mem ps"

lemma mem_put_simps [simp]: "mem_put mem [] = mem" "mem_put mem ((p, None) # ps) = mem_put mem ps" "mem_put mem ((p, Some x) # ps) = mem_put (mem[nat p := x]) ps"
  "mem_put mem (ps @ qs) = mem_put (mem_put mem ps) qs"
  by (simp_all add: mem_put_def)

lemma length_mem_put [simp]: "length (mem_put mem ps) = length mem"
proof (induction ps arbitrary: mem)
  case (Cons pv ps)
  then show ?case by (cases pv; cases "snd pv") simp_all
qed simp

lemma mem_store_ok: "vs \<noteq> [] \<longrightarrow> 0 \<le> p \<and> p + int (length vs) \<le> int (length mem) \<Longrightarrow> mem_store mem p vs = Done (mem_put mem (zip [p..p + int (length vs) - 1] vs))"
proof (induction vs arbitrary: mem p)
  case (Cons v vs)
  have "[p..p + int (length (v # vs)) - 1] = p # [p + 1..p + 1 + int (length vs) - 1]" by (simp add: upto_rec1)
  with Cons show ?case by (cases v) simp_all
qed simp

text \<open>Storing values that are all there, into the places they came from.\<close>

lemma mem_put_nth: "\<forall>(p, v) \<in> set ps. v = Some (f p) \<and> 0 \<le> p \<Longrightarrow> i < length mem \<Longrightarrow> mem_put mem ps ! i = (if int i \<in> fst ` set ps then f (int i) else mem ! i)"
proof (induction ps arbitrary: mem)
  case (Cons pv ps)
  then obtain p where "pv = (p, Some (f p))" "0 \<le> p" by (cases pv) auto
  with Cons show ?case by (auto simp: nth_list_update)
qed simp

lemma getn_values_length: "length (snd (getn_values ub ext mt xs)) = length xs"
  by (simp add: getn_values_def)

lemma getn_values_app:
  "fst (getn_values ub ext mt (xs @ ys)) = (if fst (getn_values ub ext mt xs) = NC_NOERR then fst (getn_values ub ext mt ys) else fst (getn_values ub ext mt xs))"
  "snd (getn_values ub ext mt (xs @ ys)) = snd (getn_values ub ext mt xs) @ snd (getn_values ub ext mt ys)"
  by (simp_all add: getn_values_append case_prod_beta Let_def)

text \<open>The loops over rows read and write what one transfer of all their elements would.\<close>

definition row_places :: "(int list \<Rightarrow> int list list) \<Rightarrow> (int list \<times> int) list \<Rightarrow> int list" where
  "row_places cells cs = concat (map (\<lambda>(c, p). [p..p + int (length (cells c)) - 1]) cs)"

lemma get_to_values:
  assumes step: "\<And>c x. c \<in> fst ` set cs \<Longrightarrow> Inv x \<Longrightarrow>
      \<exists>x'. rd c x = Done (fst (getn_values ub ext mt (map f (cells c))), snd (getn_values ub ext mt (map f (cells c))), x') \<and> Inv x'"
    and room: "\<And>c p. (c, p) \<in> set cs \<Longrightarrow> 0 \<le> p \<and> p + int (length (cells c)) \<le> int (length mem)"
    and "Inv x" "status \<in> {NC_NOERR, NC_ERANGE}"
  shows "\<exists>x'. get_to rd cs mem status x = Done (if status = NC_NOERR then fst (getn_values ub ext mt (map f (concat (map (cells \<circ> fst) cs)))) else status,
    mem_put mem (zip (row_places cells cs) (snd (getn_values ub ext mt (map f (concat (map (cells \<circ> fst) cs)))))), x') \<and> Inv x'"
  using assms
proof (induction cs arbitrary: x status mem)
  case Nil
  then show ?case by (simp add: getn_values_Nil row_places_def)
next
  case (Cons cp cs)
  obtain c p where cp [simp]: "cp = (c, p)" by fastforce
  let ?gv = "getn_values ub ext mt" and ?all = "map f (concat (map (cells \<circ> fst) cs))"
  define st vs where "st = fst (?gv (map f (cells c)))" and "vs = snd (?gv (map f (cells c)))"
  have st: "st \<in> {NC_NOERR, NC_ERANGE}" using range_status_in by (simp add: st_def getn_values_def)
  obtain x1 where x1: "rd c x = Done (st, vs, x1)" "Inv x1" using Cons.prems(1) [of c x] Cons.prems(3) by (auto simp: st_def vs_def)
  have lv: "length vs = length (cells c)" by (simp add: vs_def getn_values_length)
  define mem1 where "mem1 = mem_put mem (zip [p..p + int (length (cells c)) - 1] vs)"
  have m1: "mem_store mem p vs = Done mem1" using mem_store_ok [of vs p mem] Cons.prems(2) [of c p] lv by (simp add: mem1_def)
  have ls: "later_status status st \<in> {NC_NOERR, NC_ERANGE}" using st Cons.prems(4) by (auto simp: later_status_def)
  have "\<exists>x2. get_to rd cs mem1 (later_status status st) x1 = Done (if later_status status st = NC_NOERR then fst (?gv ?all) else later_status status st,
      mem_put mem1 (zip (row_places cells cs) (snd (?gv ?all))), x2) \<and> Inv x2"
    by (rule Cons.IH [OF Cons.prems(1) _ x1(2) ls]) (use Cons.prems(2) in \<open>auto simp: mem1_def\<close>)
  moreover have "mem_put mem (zip (row_places cells (cp # cs)) (snd (?gv (map f (concat (map (cells \<circ> fst) (cp # cs))))))) = mem_put mem1 (zip (row_places cells cs) (snd (?gv ?all)))"
    using lv by (simp add: row_places_def getn_values_app mem1_def vs_def zip_append)
  moreover have "(if later_status status st = NC_NOERR then fst (?gv ?all) else later_status status st) =
      (if status = NC_NOERR then fst (?gv (map f (concat (map (cells \<circ> fst) (cp # cs))))) else status)"
    using st Cons.prems(4) by (auto simp: later_status_def getn_values_app st_def)
  moreover have "get_to rd (cp # cs) mem status x = get_to rd cs mem1 (later_status status st) x1" using x1(1) m1 by simp
  ultimately show ?case by (simp only:)
qed

lemma mem_from_take: "0 \<le> p \<Longrightarrow> p + int n \<le> int (length mem) \<Longrightarrow> take n (mem_from mem p) = map (\<lambda>i. mem ! nat i) [p..p + int n - 1] \<and> n \<le> length (mem_from mem p)"
  by (auto simp: mem_from_def nat_add_distrib intro!: nth_equalityI)

lemma put_from_values:
  assumes step: "\<And>c b x us. c \<in> fst ` set cs \<Longrightarrow> Inv b x \<Longrightarrow> length (cells c) \<le> length us \<Longrightarrow>
      \<exists>x'. wr c us x = Done (putn_status ub ext mt (take (length (cells c)) us), (), x') \<and> Inv (write_elems g (zip (map off (cells c)) us) b) x'"
    and room: "\<And>c p. (c, p) \<in> set cs \<Longrightarrow> 0 \<le> p \<and> p + int (length (cells c)) \<le> int (length mem)"
    and "Inv b x" "status \<in> {NC_NOERR, NC_ERANGE}"
  shows "\<exists>x'. put_from wr mem cs status x = Done (if status = NC_NOERR then putn_status ub ext mt (map (\<lambda>i. mem ! nat i) (row_places cells cs)) else status, (), x') \<and>
    Inv (write_elems g (zip (map off (concat (map (cells \<circ> fst) cs))) (map (\<lambda>i. mem ! nat i) (row_places cells cs))) b) x'"
  using assms
proof (induction cs arbitrary: x status b)
  case Nil
  then show ?case by (auto simp: putn_status_def range_status_def row_places_def)
next
  case (Cons cp cs)
  obtain c p where cp [simp]: "cp = (c, p)" by fastforce
  let ?ps = "putn_status ub ext mt" and ?us = "map (\<lambda>i. mem ! nat i) (row_places cells cs)" and ?n = "length (cells c)"
  define vs where "vs = map (\<lambda>i. mem ! nat i) [p..p + int ?n - 1]"
  have lv: "length vs = ?n" by (simp add: vs_def)
  have mf: "take ?n (mem_from mem p) = vs" "?n \<le> length (mem_from mem p)" using mem_from_take [of p ?n mem] Cons.prems(2) [of c p] by (simp_all add: vs_def)
  define st b1 where "st = ?ps vs" and "b1 = write_elems g (zip (map off (cells c)) vs) b"
  have st: "st \<in> {NC_NOERR, NC_ERANGE}" using range_status_in by (simp add: st_def putn_status_def)
  have "zip (map off (cells c)) (mem_from mem p) = take ?n (zip (map off (cells c)) (mem_from mem p))" by simp
  also have "\<dots> = zip (map off (cells c)) vs" unfolding take_zip mf(1) by simp
  finally have "zip (map off (cells c)) (mem_from mem p) = zip (map off (cells c)) vs" .
  then obtain x1 where x1: "wr c (mem_from mem p) x = Done (st, (), x1)" "Inv b1 x1"
    using Cons.prems(1) [of c b x "mem_from mem p"] Cons.prems(3) mf by (auto simp: st_def b1_def)
  have ls: "later_status status st \<in> {NC_NOERR, NC_ERANGE}" using st Cons.prems(4) by (auto simp: later_status_def)
  have "\<exists>x2. put_from wr mem cs (later_status status st) x1 = Done (if later_status status st = NC_NOERR then ?ps ?us else later_status status st, (), x2) \<and>
      Inv (write_elems g (zip (map off (concat (map (cells \<circ> fst) cs))) ?us) b1) x2"
    by (rule Cons.IH [OF Cons.prems(1,2) x1(2) ls]) auto
  moreover have "map (\<lambda>i. mem ! nat i) (row_places cells (cp # cs)) = vs @ ?us" by (simp add: row_places_def vs_def)
  moreover have "write_elems g (zip (map off (concat (map (cells \<circ> fst) (cp # cs)))) (vs @ ?us)) b = write_elems g (zip (map off (concat (map (cells \<circ> fst) cs))) ?us) b1"
    using lv by (simp add: b1_def write_elems_append zip_append)
  moreover have "(if later_status status st = NC_NOERR then ?ps ?us else later_status status st) = (if status = NC_NOERR then ?ps (vs @ ?us) else status)"
    using st Cons.prems(4) by (auto simp: later_status_def putn_status_append st_def)
  moreover have "put_from wr mem (cp # cs) status x = put_from wr mem cs (later_status status st) x1" using x1(1) by simp
  ultimately show ?case by (simp only:)
qed

subsection \<open>Rows of a variable\<close>

text \<open>A rectangle inside a rectangle the file has room for.\<close>

definition sub_rect :: "nat \<Rightarrow> int list \<Rightarrow> int list \<Rightarrow> int list \<Rightarrow> int list \<Rightarrow> bool" where
  "sub_rect n c es start edges \<longleftrightarrow> length c = n \<and> length es = n \<and> (\<forall>k<n. start ! k \<le> c ! k \<and> 0 < es ! k \<and> c ! k + es ! k \<le> start ! k + edges ! k)"

lemma sub_rect_mem: "sub_rect n c es start edges \<Longrightarrow> length start = n \<Longrightarrow> length edges = n \<Longrightarrow> p \<in> set (rect c es) \<Longrightarrow> p \<in> set (rect start edges)"
  by (rule rect_intro) (use rect_mem [of c es p] in \<open>force simp: sub_rect_def\<close>)+

lemma sub_rect_corner: "sub_rect n c es start edges \<Longrightarrow> length start = n \<Longrightarrow> length edges = n \<Longrightarrow> c \<in> set (rect start edges)"
  by (rule rect_intro) (force simp: sub_rect_def)+

lemma data_ok_sub:
  assumes d: "data_ok ncp v ext len start edges" and s: "sub_rect (var_ndims v) c es start edges"
  shows "data_ok ncp v ext len c es"
proof -
  have l: "slab_in ncp v start edges" "slab_ok start edges" "length start = var_ndims v" "length edges = var_ndims v" using d by (auto simp: data_ok_def slab_in_def)
  have k: "start ! k \<le> c ! k" "0 < es ! k" "c ! k + es ! k \<le> start ! k + edges ! k" if "k < var_ndims v" for k using s that by (auto simp: sub_rect_def)
  have lc: "length c = var_ndims v" "length es = var_ndims v" using s by (auto simp: sub_rect_def)
  have b: "0 \<le> start ! k" "start ! k + edges ! k \<le> (if k = 0 \<and> IS_RECVAR v then numrecs ncp else var_shape v ! k)" "start ! k + edges ! k < 18446744073709551615"
    if "k < var_ndims v" for k using l that by (auto simp: slab_in_def slab_ok_def)
  have "0 \<le> c ! j \<and> 0 \<le> es ! j \<and> c ! j + es ! j \<le> (if j = 0 \<and> IS_RECVAR v then numrecs ncp else var_shape v ! j) \<and> c ! j + es ! j < 18446744073709551615"
    if "j < var_ndims v" for j using k [OF that] b [OF that] by linarith
  then have "slab_in ncp v c es" "slab_ok c es" unfolding slab_in_def slab_ok_def lc by blast+
  moreover have "elem_offset ncp v p + int (type_bytes ext) \<le> int len" if "p \<in> set (rect c es)" for p
    using d sub_rect_mem [OF s l(3,4) that] by (auto simp: data_ok_def)
  ultimately show ?thesis using d by (simp add: data_ok_def)
qed

lemma row_args:
  assumes d: "data_ok ncp v ext len start edges" and s: "sub_rect (var_ndims v) c es start edges" and x: "IS_RECVAR v \<Longrightarrow> numrecs ncp \<le> X_UINT_MAX"
  shows "args_ok relax v c es"
proof -
  have l: "slab_in ncp v start edges" "var_shaped v" "length start = var_ndims v" "length edges = var_ndims v" using d by (auto simp: data_ok_def slab_in_def)
  have "\<forall>k<length es. 0 < es ! k" using s by (simp add: sub_rect_def)
  moreover have "IS_RECVAR v \<longrightarrow> hd c \<le> X_UINT_MAX" using element_args [OF _ sub_rect_corner [OF s l(3,4)] l(1,2) x] by blast
  ultimately show ?thesis unfolding args_ok_def by blast
qed

text \<open>The rows of a strided rectangle.\<close>

lemma row_sub_rect:
  assumes d: "strided_ok ncp v ext len start edges stride" and n: "0 < var_ndims v" and m: "length imap = length start"
    and k: "k \<in> set (rect (map (\<lambda>_. 0) start) (row_edges stride imap edges))"
  shows "sub_rect (var_ndims v) (strided start (row_steps stride imap edges stride) k) (row_steps stride imap edges (replicate (length start) 1)) start (span edges stride)"
proof -
  note D = strided_okD [OF d]
  have ne: "start \<noteq> []" "edges \<noteq> []" "stride \<noteq> []" using D(3,4,5) n by auto
  have kk: "length k = length start" "\<And>i. i < length start \<Longrightarrow> 0 \<le> k ! i \<and> k ! i < row_edges stride imap edges ! i"
    using rect_mem [OF _ k] D(3,4) ne by auto
  have "start ! i \<le> strided start (row_steps stride imap edges stride) k ! i \<and> 0 < row_steps stride imap edges (replicate (length start) 1) ! i \<and>
      strided start (row_steps stride imap edges stride) k ! i + row_steps stride imap edges (replicate (length start) 1) ! i \<le> start ! i + span edges stride ! i" if i: "i < var_ndims v" for i
  proof (cases "dense_last stride imap \<and> i = var_ndims v - 1")
    case True
    then have s1: "stride ! i = 1" "last edges = edges ! i" using D(3,4,5) ne by (simp_all add: dense_last_def last_conv_nth)
    have "k ! i = 0" using kk(2) [of i] True i D(3,4) by (simp add: row_edges_nth)
    then show ?thesis using True s1 i D(3,4,5) D(10) [OF i] by (simp add: strided_nth row_steps_nth span_nth)
  next
    case False
    then have "0 \<le> k ! i" "k ! i \<le> edges ! i - 1" using kk(2) [of i] i D(3,4) by (auto simp: row_edges_nth)
    then have "0 \<le> k ! i * stride ! i" "k ! i * stride ! i \<le> (edges ! i - 1) * stride ! i" using D(11) [OF i] by (auto intro!: mult_right_mono)
    then show ?thesis using False i D(3,4,5) by (auto simp: strided_nth row_steps_nth span_nth)
  qed
  moreover have "replicate (var_ndims v) (1 :: int) \<noteq> []" using n by simp
  ultimately show ?thesis using D(3) by (simp add: sub_rect_def)
qed

context ncio_client
begin

lemma get_row:
  assumes f: "open_file fs ncid mode ncp s" and a: "access_ok ncp varid v memtype ext" and x: "IS_RECVAR v \<Longrightarrow> numrecs ncp \<le> X_UINT_MAX"
    and d: "data_ok ncp v ext (length (bytes s)) start edges" "sub_rect (var_ndims v) c es start edges" and s: "ok s"
  shows "\<exists>s'. NC_get_vara E ub relax io fs ncid varid (Some c) (Some es) memtype =
    Done (fst (getn_values ub ext (mem_type ext memtype) (map (elem_at ext ncp v (bytes s)) (rect c es))),
      snd (getn_values ub ext (mem_type ext memtype) (map (elem_at ext ncp v (bytes s)) (rect c es))), update_file fs ncid ncp s') \<and> ok s' \<and> bytes s' = bytes s"
  using NC3_get_vara_result [OF f a row_args [OF d x] data_ok_sub [OF d] s, of ub relax] by (simp add: NC_get_vara_given slab_values_def)

lemma put_row:
  assumes f: "open_file fs ncid mode ncp s" and w: "\<not> NC_readonly ncp" and a: "access_ok ncp varid v memtype ext" and x: "IS_RECVAR v \<Longrightarrow> numrecs ncp \<le> X_UINT_MAX"
    and d: "data_ok ncp v ext (length (bytes s)) start edges" "sub_rect (var_ndims v) c es start edges" and s: "ok s" and vs: "length (rect c es) \<le> length vs"
  shows "\<exists>s'. NC_put_vara E ub relax io fs ncid varid (Some c) (Some es) vs memtype =
    Done (putn_status ub ext (mem_type ext memtype) (take (length (rect c es)) vs), (), update_file fs ncid ncp s') \<and> ok s' \<and>
    bytes s' = write_elems (conv_bytes ub ext (mem_type ext memtype)) (zip (map (elem_offset ncp v) (rect c es)) vs) (bytes s) \<and> length (bytes s') = length (bytes s)"
  using NC3_put_vara_prefix [OF f w a row_args [OF d x] data_ok_sub [OF d] s vs, of E ub relax] slab_write_length [OF data_ok_sub [OF d], of ub memtype vs]
  by (auto simp: NC_put_vara_given slab_write_def)

end

subsection \<open>The arguments\<close>

lemma varm_check_passes:
  "length start = length dimlens \<Longrightarrow> length edges = length dimlens \<Longrightarrow>
   \<forall>k<length dimlens. 0 \<le> start ! k \<and> 0 < edges ! k \<and> start ! k + edges ! k \<le> dimlens ! k \<and> dimlens ! k \<le> OFF_T_MAX \<Longrightarrow>
   varm_check relax dimlens start edges = NC_NOERR"
proof (induction relax dimlens start edges rule: varm_check.induct)
  case (1 relax dimlen dimlens st start e edges)
  have h: "0 \<le> st" "0 < e" "st + e \<le> dimlen" "dimlen \<le> OFF_T_MAX" using 1(4) by (auto dest: spec [of _ 0])
  moreover have "u64 (st + e) = st + e" using h by (intro u64_id) linarith+
  moreover have "\<forall>k<length dimlens. 0 \<le> start ! k \<and> 0 < edges ! k \<and> start ! k + edges ! k \<le> dimlens ! k \<and> dimlens ! k \<le> OFF_T_MAX"
    using 1(4) by (metis Suc_less_eq length_Cons nth_Cons_Suc)
  ultimately show ?case using 1 by (auto simp: beyond_def)
qed auto

lemma strided_varm_check:
  assumes d: "strided_ok ncp v ext len start edges stride"
  shows "varm_check relax (rev (cur_shape ncp v)) (rev start) (rev edges) = NC_NOERR"
    and "varm_check relax (drop r (cur_shape ncp v)) (drop r start) (drop r edges) = NC_NOERR"
    and "varm_strides_ok stride"
proof -
  note D = strided_okD [OF d]
  have k: "0 \<le> start ! k \<and> 0 < edges ! k \<and> start ! k + edges ! k \<le> cur_shape ncp v ! k \<and> cur_shape ncp v ! k \<le> OFF_T_MAX" if "k < var_ndims v" for k
    using D(10,13,14,15,16) [OF that] by linarith
  show "varm_check relax (rev (cur_shape ncp v)) (rev start) (rev edges) = NC_NOERR"
    by (rule varm_check_passes) (use D(3,4,9) k in \<open>simp_all add: rev_nth\<close>)
  show "varm_check relax (drop r (cur_shape ncp v)) (drop r start) (drop r edges) = NC_NOERR"
    by (rule varm_check_passes) (use D(3,4,9) k in \<open>simp_all add: add.commute\<close>)
  have "0 < sd \<and> sd < X_INT_MAX" if "sd \<in> set stride" for sd using that D(5,11,12) by (metis in_set_conv_nth)
  then show "varm_strides_ok stride" by (force simp: varm_strides_ok_def u64_def)
qed

subsection \<open>The calls\<close>

text \<open>The map in use: without one, values are dense in row-major order.\<close>

definition varm_map :: "int list option \<Rightarrow> int list \<Rightarrow> int list" where
  "varm_map imapp edges = (case imapp of None \<Rightarrow> dense_map edges | Some m \<Rightarrow> m)"

text \<open>The places in the caller's array of the elements of a rectangle with these counts, in row-major order.\<close>

definition places :: "nat \<Rightarrow> int list option \<Rightarrow> int list \<Rightarrow> int list" where
  "places base imapp edges = map (\<lambda>k. int base + dot (varm_map imapp edges) k) (rect (map (\<lambda>_. 0) edges) edges)"

definition places_ok :: "int \<Rightarrow> int list \<Rightarrow> nat \<Rightarrow> int list option \<Rightarrow> int list \<Rightarrow> bool" where
  "places_ok memtype mem base imapp edges \<longleftrightarrow> length (varm_map imapp edges) = length edges \<and> int (length mem) * nctypelen memtype \<le> 9223372036854775808 \<and>
     (\<forall>p \<in> set (places base imapp edges). 0 \<le> p \<and> p < int (length mem))"

lemma length_dense_map [simp]: "length (dense_map edges) = length edges"
  by (induction edges rule: dense_map.induct) (simp_all add: Let_def)

lemma nctypelen_pos: "access_ok ncp varid v memtype ext \<Longrightarrow> 0 < nctypelen memtype"
proof -
  assume "access_ok ncp varid v memtype ext"
  then have "1 \<le> memtype" "memtype \<le> 11" by (auto simp: access_ok_def case_ext_def split: if_splits)
  then show ?thesis by (simp add: nctypelen_def) presburger
qed

lemma varm_types_ok: "access_ok ncp varid v memtype ext \<Longrightarrow> varm_types (var_type v) memtype = NC_NOERR"
  by (auto simp: access_ok_def case_ext_def varm_types_def split: if_splits)

lemma elem_index_exact:
  assumes l: "0 < memtypelen" "int (length mem) * memtypelen \<le> 9223372036854775808" "int base \<le> int (length mem)" and d: "0 \<le> int base + d" "int base + d < int (length mem)"
  shows "elem_index base memtypelen (u64 (memtypelen * d)) = int base + d"
proof -
  have "- int (length mem) \<le> d" "d < int (length mem)" using l(3) d by linarith+
  then have "- int (length mem) * memtypelen \<le> d * memtypelen" "d * memtypelen < int (length mem) * memtypelen" using l(1) by (intro mult_right_mono, auto)
  then have "- 9223372036854775808 \<le> memtypelen * d" "memtypelen * d < 9223372036854775808" using l(2) by (simp_all add: mult.commute)
  then have "s64 (u64 (memtypelen * d)) = memtypelen * d" by (simp add: s64_def u64_def mod_simps)
  then show ?thesis using l(1) by (simp add: elem_index_def)
qed

lemma zeros: "length xs = length ys \<Longrightarrow> map (\<lambda>_. 0 :: int) xs = map (\<lambda>_. 0) ys"
  by (simp add: map_replicate_const)

text \<open>Each row begins and ends inside the caller's array.\<close>

lemma rows_room:
  assumes p: "places_ok memtype mem base imapp edges" and l: "0 < nctypelen memtype" "length edges = length start" "length stride = length start" "start \<noteq> []"
    and e: "\<forall>e \<in> set edges. 0 < e"
  defines "imap \<equiv> varm_map imapp edges"
  defines "rows \<equiv> rect (map (\<lambda>_. 0) start) (row_edges stride imap edges)" and "cells \<equiv> (\<lambda>c. rect c (row_steps stride imap edges (replicate (length start) 1)))"
    and "row \<equiv> (\<lambda>k. (strided start (row_steps stride imap edges stride) k, elem_index base (nctypelen memtype) (u64 (nctypelen memtype * dot (row_steps stride imap edges imap) k))))"
  shows "(c, q) \<in> set (map row rows) \<Longrightarrow> 0 \<le> q \<and> q + int (length (cells c)) \<le> int (length mem)"
    and "row_places cells (map row rows) = places base imapp edges"
    and "concat (map (cells \<circ> fst) (map row rows)) = srect start edges stride"
proof -
  have m: "length imap = length start" using p l by (simp add: places_ok_def imap_def)
  have le: "0 < last edges" using e l by (intro bspec [OF e] last_in_set) auto
  note re = rows_elements [OF l(2,3) m l(4) le]
  have z: "rect (map (\<lambda>_. 0) start) edges = rect (map (\<lambda>_. 0) edges) edges" using zeros [OF l(2) [symmetric]] by simp
  let ?d = "\<lambda>k. int base + dot (row_steps stride imap edges imap) k" and ?n = "\<lambda>k. int (length (cells (strided start (row_steps stride imap edges stride) k)))"
  have pl: "concat (map (\<lambda>k. [?d k..?d k + ?n k - 1]) rows) = places base imapp edges" unfolding rows_def cells_def re(2) z by (simp add: places_def imap_def)
  have n1: "1 \<le> ?n k" if "k \<in> set rows" for k
  proof -
    have "strided start (row_steps stride imap edges stride) k \<in> set (cells (strided start (row_steps stride imap edges stride) k))"
      unfolding cells_def by (rule rect_intro) (use l le in \<open>auto simp: row_steps_nth\<close>)
    then show ?thesis by (cases "cells (strided start (row_steps stride imap edges stride) k)") auto
  qed
  have inr: "0 \<le> ?d k \<and> ?d k + ?n k \<le> int (length mem)" if k: "k \<in> set rows" for k
  proof -
    have "set [?d k..?d k + ?n k - 1] \<subseteq> set (places base imapp edges)" unfolding pl [symmetric] using k by auto
    moreover have "?d k \<in> set [?d k..?d k + ?n k - 1]" "?d k + ?n k - 1 \<in> set [?d k..?d k + ?n k - 1]" using n1 [OF k] by auto
    ultimately have "?d k \<in> set (places base imapp edges)" "?d k + ?n k - 1 \<in> set (places base imapp edges)" by blast+
    with p have "0 \<le> ?d k" "?d k + ?n k - 1 < int (length mem)" by (auto simp: places_ok_def)
    then show ?thesis by simp
  qed
  have b: "int base \<le> int (length mem)"
  proof -
    have "map (\<lambda>_. 0) edges \<in> set (rect (map (\<lambda>_. 0) edges) edges)" by (rule rect_intro) (use e in auto)
    then have "int base + dot imap (map (\<lambda>_. 0) edges) \<in> set (places base imapp edges)" by (auto simp: places_def imap_def)
    with p show ?thesis by (auto simp: places_ok_def dot_zero)
  qed
  have ix: "row k = (strided start (row_steps stride imap edges stride) k, ?d k)" if k: "k \<in> set rows" for k
  proof -
    have "?d k < int (length mem)" using inr [OF k] n1 [OF k] by linarith
    with inr [OF k] p b show ?thesis unfolding row_def by (subst elem_index_exact [of _ mem]) (auto simp: places_ok_def l)
  qed
  show "(c, q) \<in> set (map row rows) \<Longrightarrow> 0 \<le> q \<and> q + int (length (cells c)) \<le> int (length mem)" using inr ix by auto
  have mr: "map row rows = map (\<lambda>k. (strided start (row_steps stride imap edges stride) k, ?d k)) rows" using ix by simp
  show "row_places cells (map row rows) = places base imapp edges" by (simp only: row_places_def mr map_map comp_def prod.case pl)
  show "concat (map (cells \<circ> fst) (map row rows)) = srect start edges stride" using re(1) by (simp add: comp_def row_def rows_def cells_def)
qed

text \<open>Without a map.\<close>

lemma dense_places:
  assumes e: "\<forall>x \<in> set edges. 0 < x" and b: "prod_list (tl edges) \<le> OFF_T_MAX"
  shows "places base None edges = [int base..int base + prod_list edges - 1]"
proof -
  have p: "0 < prod_list es" if "\<forall>x \<in> set es. 0 < x" for es :: "int list" using that by (induction es) auto
  have "dot (dense_map edges) k = lin edges k \<and> (edges \<noteq> [] \<longrightarrow> hd (dense_map edges) = prod_list (tl edges))" if "length k = length edges" for k
    using that e b
  proof (induction edges arbitrary: k rule: dense_map.induct)
    case (2 e)
    then show ?case by (cases k) (auto simp: suffix_product_def)
  next
    case (3 e e' es)
    obtain x k' where k: "k = x # k'" "length k' = length (e' # es)" using 3(2) by (cases k) auto
    have es: "0 < prod_list es" "0 < e'" using 3(3) p by auto
    have "1 \<le> prod_list es" "1 \<le> e'" using es by linarith+
    then have "1 * prod_list es \<le> e' * prod_list es" "e' * 1 \<le> e' * prod_list es" by (rule_tac mult_right_mono mult_left_mono; linarith)+
    moreover have "e' * prod_list es \<le> OFF_T_MAX" using 3(4) by simp
    ultimately have le: "prod_list es \<le> OFF_T_MAX" "e' \<le> OFF_T_MAX" by linarith+
    then have IH: "dot (dense_map (e' # es)) k' = lin (e' # es) k'" "hd (dense_map (e' # es)) = prod_list es" using 3(1) [OF k(2)] 3(3) by auto
    have h: "s64 (hd (dense_map (e' # es)) * s64 e') = e' * prod_list es"
      using le es 3(4) IH(2) by (simp add: s64_nonneg mult.commute)
    have "suffix_product (e' # es) = e' * prod_list es" using suffix_product_pos [of "e' # es"] 3(3) by simp
    then show ?case using IH(1) h k(1) by (simp add: Let_def mult.commute)
  qed simp
  then have "int base + dot (dense_map edges) k = int base + lin edges k" if "k \<in> set (rect (map (\<lambda>_. 0) edges) edges)" for k
    using rect_mem_length [OF _ that] by simp
  then have "places base None edges = map (\<lambda>k. int base + lin edges k) (rect (map (\<lambda>_. 0) edges) edges)"
    unfolding places_def varm_map_def option.case by (intro map_cong refl) blast
  also have "\<dots> = map (\<lambda>i. int base + i) (map (lin edges) (rect (map (\<lambda>_. 0) edges) edges))" by simp
  also have "\<dots> = [int base..int base + prod_list edges - 1]"
    unfolding lin_rect_full [OF e] suffix_product_pos [OF e] using map_upto_shift [of "\<lambda>i. i" "int base" "int base + prod_list edges - 1"] by (simp add: add.commute)
  finally show ?thesis .
qed

lemma prod_le_suffix: "list_all2 (\<lambda>e sh. 0 < e \<and> e \<le> sh) es shp \<Longrightarrow> 0 < prod_list es \<and> prod_list es \<le> suffix_product shp"
proof (induction rule: list_all2_induct)
  case (Cons e es sh shp)
  have "e * prod_list es \<le> max 1 sh * suffix_product shp" using Cons by (intro mult_mono) auto
  with Cons show ?case by (simp add: suffix_product_Cons)
qed (simp add: suffix_product_def)

lemma strided_dense_fits: "strided_ok ncp v ext len start edges stride \<Longrightarrow> prod_list (tl edges) \<le> OFF_T_MAX"
proof -
  assume s: "strided_ok ncp v ext len start edges stride"
  note D = strided_okD [OF s]
  have sh: "length (var_shape v) = var_ndims v" using D(7) by (simp add: var_shaped_def)
  have "0 < edges ! Suc k \<and> edges ! Suc k \<le> var_shape v ! Suc k" if k: "Suc k < var_ndims v" for k
  proof -
    have "cur_shape ncp v ! Suc k = var_shape v ! Suc k" using k sh by (cases "var_shape v") (simp_all add: cur_shape_def)
    then show ?thesis using D(10,13,14,15) [OF k] by linarith
  qed
  then have "list_all2 (\<lambda>e sh. 0 < e \<and> e \<le> sh) (tl edges) (tl (var_shape v))" using D(4) sh by (auto simp: list_all2_conv_all_nth nth_tl)
  from prod_le_suffix [OF this] suffix_product_drop_le [of 1 "var_shape v"] D(6) show ?thesis by (simp add: data_ok_def drop_Suc)
qed

lemma strided_whole: "strided_ok ncp v ext len start edges stride \<Longrightarrow> sub_rect (var_ndims v) start edges start edges"
  using strided_okD(3,4,10) by (simp add: sub_rect_def)

lemma strided_last:
  assumes s: "strided_ok ncp v ext len start edges stride" and n: "0 < var_ndims v"
  shows "0 \<le> last edges" "last edges \<le> OFF_T_MAX"
proof -
  note D = strided_okD [OF s]
  have "last edges = edges ! (var_ndims v - 1)" using D(4) n by (metis last_conv_nth length_greater_0_conv)
  moreover have "0 < edges ! (var_ndims v - 1)" "edges ! (var_ndims v - 1) \<le> OFF_T_MAX" using D(10,13,14,15,16) [of "var_ndims v - 1"] n by linarith+
  ultimately show "0 \<le> last edges" "last edges \<le> OFF_T_MAX" by simp_all
qed

lemma scalar_places: "places base imapp [] = [int base]"
  by (cases imapp) (simp_all add: places_def varm_map_def)

context ncio_client
begin

lemma NC_get_varm_result:
  fixes ub :: "int \<Rightarrow> fval \<Rightarrow> int"
  assumes f: "open_file fs ncid mode ncp s" and a: "access_ok ncp varid v memtype ext" and d: "strided_ok ncp v ext (length (bytes s)) start edges stride" and s: "ok s"
    and e: "env_ok E" and p: "places_ok memtype mem base imapp edges" and fit: "steps_fit (nctypelen memtype) edges stride (varm_map imapp edges)"
  defines "gv \<equiv> getn_values ub ext (mem_type ext memtype) (map (elem_at ext ncp v (bytes s)) (srect start edges stride))"
  shows "\<exists>s'. NC_get_varm E ub relax io fs ncid varid (Some start) (Some edges) (Some stride) imapp mem base memtype =
    Done (fst gv, mem_put mem (zip (places base imapp edges) (snd gv)), update_file fs ncid ncp s') \<and> ok s' \<and> bytes s' = bytes s"
proof -
  note D = strided_okD [OF d]
  have v: "NC_lookupvar ncp varid = (NC_NOERR, Some v)" "memtype \<noteq> 0" using a by (simp_all add: access_ok_def)
  have nd: "var_ndims v = length (var_dimids v)" using D(1) by (simp add: dims_match_def)
  note inq = inq_var_found [OF f v(1) nd] is_recvar_found [OF f v(1) D(1,7)] getshape_found [OF f v(1) D(1,7)]
  have dimlens: "(case if IS_RECVAR v then Some (numrecs ncp) else None of Some n \<Rightarrow> n # tl (cur_shape ncp v) | None \<Rightarrow> cur_shape ncp v) = cur_shape ncp v"
    by (simp add: cur_shape_def)
  have args: "take (var_ndims v) start = start" "vars_edges (cur_shape ncp v) start (Some edges) = edges" "vars_stride (cur_shape ncp v) (Some stride) = stride"
    using D(3,4,5,9) by (simp_all add: vars_edges_def vars_stride_def)
  have pos: "\<forall>x \<in> set edges. 0 < x" using D(10) D(4) by (metis in_set_conv_nth)
  then have e0: "0 \<notin> set edges" by blast
  let ?imap = "varm_map imapp edges" and ?len = "nctypelen memtype"
  let ?A = "varm_init start edges stride ?imap"
  let ?rd = "\<lambda>index fs. NC_get_vara E ub relax io fs ncid varid (Some index) (Some (vm_iocount ?A)) memtype"
  have lm: "length ?imap = var_ndims v" using p D(4) by (simp add: places_ok_def)
  have map: "(case imapp of None \<Rightarrow> dense_map edges | Some m \<Rightarrow> take (var_ndims v) m) = ?imap" using lm by (cases imapp) (simp_all add: varm_map_def)
  have le: "long_enough (var_ndims v) imapp" using lm by (cases imapp) (simp_all add: long_enough_def varm_map_def)
  have call: "NC_get_varm E ub relax io fs ncid varid (Some start) (Some edges) (Some stride) imapp mem base memtype =
      (if var_ndims v = 0 then mem_result mem base (NC_get_vara E ub relax io fs ncid varid (Some start) (Some [1]) memtype)
       else if (\<forall>sd \<in> set stride. sd = 1) \<and> imapp = None then mem_result mem base (NC_get_vara E ub relax io fs ncid varid (Some start) (Some edges) memtype)
       else varm_get (vars_fuel edges) ?rd (varm_carry (get_step ?len) ?len ?A (Some start) (length start - 1)) (elem_index base ?len) start 0 mem NC_NOERR fs)"
    using D(3,4,5,8,9) nd v(2) e0 e le strided_varm_check(1) [OF d, of relax] strided_varm_check(3) [OF d] args dimlens map
    by (cases imapp) (simp_all add: NC_get_varm_def NCDEFAULT_get_varm_def inq varm_types_ok [OF a] long_enough_def Let_def env_ok_def cong: if_cong)
  show ?thesis
  proof (cases "var_ndims v = 0 \<or> (\<forall>sd \<in> set stride. sd = 1) \<and> imapp = None")
    case True
    then have one: "\<forall>sd \<in> set stride. sd = 1" using D(5) by auto
    note so = strided_ones [OF d one]
    have z: "NC_get_vara E ub relax io fs ncid varid (Some start) (Some [1]) memtype = NC_get_vara E ub relax io fs ncid varid (Some start) (Some edges) memtype" if "var_ndims v = 0"
      using NC3_get_vara_take [OF f v(1), of ub relax io start "[1]" memtype] D(7) D(3,4) that by (simp add: var_shaped_def NC_get_vara_given)
    obtain s' where s': "NC_get_vara E ub relax io fs ncid varid (Some start) (Some edges) memtype = Done (fst gv, snd gv, update_file fs ncid ncp s')" "ok s'" "bytes s' = bytes s"
      using get_row [OF f a D(2) so(1) strided_whole [OF d] s, of E ub relax] unfolding gv_def so(2) by blast
    have lg: "length (snd gv) = nat (prod_list edges)"
      using length_rect [of start edges] D(3,4) pos by (simp add: gv_def getn_values_length so(2) max_absorb2 cong: map_cong)
    have pl: "places base imapp edges = [int base..int base + prod_list edges - 1]"
      using True dense_places [OF pos strided_dense_fits [OF d], of base] scalar_places [of base imapp] D(4) by auto
    have pp: "0 < prod_list edges" using pos by (induction edges) auto
    have st: "mem_store mem (int base) (snd gv) = Done (mem_put mem (zip (places base imapp edges) (snd gv)))"
    proof -
      have "int base + prod_list edges - 1 \<in> set (places base imapp edges)" using pp by (simp add: pl)
      then have "int base + prod_list edges \<le> int (length mem)" using p by (auto simp: places_ok_def)
      with mem_store_ok [of "snd gv" "int base" mem] lg pp show ?thesis by (simp add: pl)
    qed
    show ?thesis using True z s' st unfolding call by (auto simp: mem_result_def)
  next
    case False
    then have n: "0 < var_ndims v" "start \<noteq> []" using D(3) by auto
    have lm': "length ?imap = length start" "length edges = length start" "length stride = length start" "edges \<noteq> []" "?imap \<noteq> []" using lm D(3,4,5) n by auto
    have len: "0 < ?len" by (rule nctypelen_pos [OF a])
    note le0 = strided_last [OF d n(1)]
    note so = strided_strides_ok [OF d n(1)]
    have "u64 (get_step ?len (row_steps stride ?imap edges ?imap ! i)) = u64 (row_steps stride ?imap edges ?imap ! i * ?len)" if "i < length start" for i
      by (rule get_steps_exact [OF fit len lm'(1,3) that le0(1)])
    note ra = rows_arrays [OF so lm'(1) le0(2) this]
    note room = rows_room [OF p len lm'(2,3) n(2) pos]
    let ?row = "\<lambda>k. (strided start (row_steps stride ?imap edges stride) k, elem_index base ?len (u64 (?len * dot (row_steps stride ?imap edges ?imap) k)))"
    let ?rows = "rect (map (\<lambda>_. 0) start) (row_edges stride ?imap edges)" and ?cells = "\<lambda>c. rect c (row_steps stride ?imap edges (replicate (length start) 1))"
    have loop: "varm_get (vars_fuel edges) ?rd (varm_carry (get_step ?len) ?len ?A (Some start) (length start - 1)) (elem_index base ?len) start 0 mem NC_NOERR fs =
        get_to ?rd (map ?row ?rows) mem NC_NOERR fs"
      by (rule varm_get_box [OF rows_strides_ok [OF so lm'(1)] ra]) (use lm' rows_fewer [OF pos lm'(2,4)] in simp_all)
    let ?Inv = "\<lambda>x. \<exists>s'. x = update_file fs ncid ncp s' \<and> ok s' \<and> bytes s' = bytes s" and ?f = "elem_at ext ncp v (bytes s)"
    have step: "\<exists>x'. ?rd c x = Done (fst (getn_values ub ext (mem_type ext memtype) (map ?f (?cells c))), snd (getn_values ub ext (mem_type ext memtype) (map ?f (?cells c))), x') \<and> ?Inv x'"
      if c: "c \<in> fst ` set (map ?row ?rows)" and x: "?Inv x" for c x
    proof -
      obtain k where k: "k \<in> set ?rows" "c = strided start (row_steps stride ?imap edges stride) k" using c by auto
      obtain s1 where s1: "x = update_file fs ncid ncp s1" "ok s1" "bytes s1 = bytes s" using x by blast
      have "data_ok ncp v ext (length (bytes s1)) start (span edges stride)" using D(6) s1(3) by simp
      from get_row [OF open_file_update(1) [OF f] a D(2) this row_sub_rect [OF d n(1) lm'(1) k(1)] s1(2), of E ub relax] s1(3)
      show ?thesis unfolding s1(1) k(2) rows_init(3) [OF so lm'(1) strided_last(2) [OF d n(1)]] using open_file_update(2) [OF f] by metis
    qed
    have "?Inv fs" using update_file_same [OF f] s by metis
    from get_to_values [where cs = "map ?row ?rows" and Inv = ?Inv and rd = ?rd and f = ?f and cells = ?cells and mem = mem and status = NC_NOERR, OF step room(1) this]
    show ?thesis unfolding call loop room(2,3) gv_def using False n by auto
  qed
qed

lemma NC_put_varm_result:
  fixes ub :: "int \<Rightarrow> fval \<Rightarrow> int"
  assumes f: "open_file fs ncid mode ncp s" and w: "\<not> NC_readonly ncp" and a: "access_ok ncp varid v memtype ext"
    and d: "strided_ok ncp v ext (length (bytes s)) start edges stride" and s: "ok s" and e: "env_ok E" and p: "places_ok memtype mem base imapp edges"
  defines "vs \<equiv> map (\<lambda>i. mem ! nat i) (places base imapp edges)"
  shows "\<exists>s'. NC_put_varm E ub relax io fs ncid varid (Some start) (Some edges) (Some stride) imapp mem base memtype =
    Done (putn_status ub ext (mem_type ext memtype) vs, (), update_file fs ncid ncp s') \<and> ok s' \<and>
    bytes s' = write_elems (conv_bytes ub ext (mem_type ext memtype)) (zip (map (elem_offset ncp v) (srect start edges stride)) vs) (bytes s)"
proof -
  note D = strided_okD [OF d]
  have v: "NC_lookupvar ncp varid = (NC_NOERR, Some v)" "memtype \<noteq> 0" using a by (simp_all add: access_ok_def)
  have nd: "var_ndims v = length (var_dimids v)" using D(1) by (simp add: dims_match_def)
  note inq = inq_var_found [OF f v(1) nd] is_recvar_found [OF f v(1) D(1,7)] getshape_found [OF f v(1) D(1,7)]
  have args: "take (var_ndims v) start = start" "take (var_ndims v) stride = stride" "vars_edges xs start (Some edges) = edges" if "length xs = var_ndims v" for xs
    using D(3,4,5) that by (simp_all add: vars_edges_def)
  have pos: "\<forall>x \<in> set edges. 0 < x" using D(10) D(4) by (metis in_set_conv_nth)
  then have e0: "0 \<notin> set edges" by blast
  let ?imap = "varm_map imapp edges" and ?len = "nctypelen memtype" and ?g = "conv_bytes ub ext (mem_type ext memtype)"
  let ?A = "varm_init start edges stride ?imap"
  let ?wr = "\<lambda>index vs fs. NC_put_vara E ub relax io fs ncid varid (Some index) (Some (vm_iocount ?A)) vs memtype"
  have lm: "length ?imap = var_ndims v" using p D(4) by (simp add: places_ok_def)
  have map: "(case imapp of None \<Rightarrow> dense_map edges | Some m \<Rightarrow> take (var_ndims v) m) = ?imap" using lm by (cases imapp) (simp_all add: varm_map_def)
  have le: "long_enough (var_ndims v) imapp" using lm by (cases imapp) (simp_all add: long_enough_def varm_map_def)
  have dimlens: "(case if IS_RECVAR v then Some (numrecs ncp) else None of Some n \<Rightarrow> n # tl (cur_shape ncp v) | None \<Rightarrow> cur_shape ncp v) = cur_shape ncp v"
    by (simp add: cur_shape_def)
  have call: "NC_put_varm E ub relax io fs ncid varid (Some start) (Some edges) (Some stride) imapp mem base memtype =
      (if var_ndims v = 0 then NC_put_vara E ub relax io fs ncid varid (Some start) (Some [1]) (drop base mem) memtype
       else if (\<forall>sd \<in> set stride. sd = 1) \<and> imapp = None then NC_put_vara E ub relax io fs ncid varid (Some start) (Some edges) (drop base mem) memtype
       else varm_put (vars_fuel edges) ?wr (varm_carry (put_step ?len) ?len ?A (Some start) (length start - 1)) (elem_index base ?len) start 0 mem NC_NOERR fs)"
    using D(3,4,5,8,9) nd v(2) e0 e le strided_varm_check(2) [OF d, of relax] strided_varm_check(3) [OF d] args [OF D(9)] dimlens map
    by (cases imapp) (simp_all add: NC_put_varm_def NCDEFAULT_put_varm_def inq varm_types_ok [OF a] long_enough_def Let_def env_ok_def cong: if_cong)
  have len: "0 < ?len" by (rule nctypelen_pos [OF a])
  show ?thesis
  proof (cases "var_ndims v = 0 \<or> (\<forall>sd \<in> set stride. sd = 1) \<and> imapp = None")
    case True
    then have one: "\<forall>sd \<in> set stride. sd = 1" using D(5) by auto
    note so = strided_ones [OF d one]
    have z: "NC_put_vara E ub relax io fs ncid varid (Some start) (Some [1]) us memtype = NC_put_vara E ub relax io fs ncid varid (Some start) (Some edges) us memtype"
      if "var_ndims v = 0" for us
      using NC3_put_vara_take [OF f v(1), of E ub relax io start "[1]" us memtype] D(7) D(3,4) that by (simp add: var_shaped_def NC_put_vara_given)
    have pl: "places base imapp edges = [int base..int base + prod_list edges - 1]"
      using True dense_places [OF pos strided_dense_fits [OF d], of base] scalar_places [of base imapp] D(4) by auto
    have pp: "0 < prod_list edges" using pos by (induction edges) auto
    have lr: "length (rect start edges) = nat (prod_list edges)"
      using length_rect [of start edges] D(3,4) pos by (simp add: max_absorb2 cong: map_cong)
    have "int base + prod_list edges - 1 \<in> set (places base imapp edges)" using pp by (simp add: pl)
    then have room: "int base + prod_list edges \<le> int (length mem)" using p by (auto simp: places_ok_def)
    then have lv: "length (rect start edges) \<le> length (drop base mem)" using lr pp by simp
    have "take (length (rect start edges)) (mem_from mem (int base)) = vs"
      using mem_from_take [of "int base" "length (rect start edges)" mem] room lr pp by (simp add: vs_def pl)
    then have tk: "take (length (rect start edges)) (drop base mem) = vs" by (simp add: mem_from_def)
    have "zip (map (elem_offset ncp v) (rect start edges)) (drop base mem) = take (length (rect start edges)) (zip (map (elem_offset ncp v) (rect start edges)) (drop base mem))" by simp
    also have "\<dots> = zip (map (elem_offset ncp v) (rect start edges)) vs" unfolding take_zip tk by simp
    finally show ?thesis using True z put_row [OF f w a D(2) so(1) strided_whole [OF d] s lv, of E ub relax] unfolding call so(2) tk by auto
  next
    case False
    then have n: "0 < var_ndims v" "start \<noteq> []" using D(3) by auto
    have lm': "length ?imap = length start" "length edges = length start" "length stride = length start" "edges \<noteq> []" "?imap \<noteq> []" using lm D(3,4,5) n by auto
    note so = strided_strides_ok [OF d n(1)]
    note ra = rows_arrays [OF so lm'(1) strided_last(2) [OF d n(1)] put_step_exact]
    note room = rows_room [OF p len lm'(2,3) n(2) pos]
    let ?row = "\<lambda>k. (strided start (row_steps stride ?imap edges stride) k, elem_index base ?len (u64 (?len * dot (row_steps stride ?imap edges ?imap) k)))"
    let ?rows = "rect (map (\<lambda>_. 0) start) (row_edges stride ?imap edges)" and ?cells = "\<lambda>c. rect c (row_steps stride ?imap edges (replicate (length start) 1))"
    have loop: "varm_put (vars_fuel edges) ?wr (varm_carry (put_step ?len) ?len ?A (Some start) (length start - 1)) (elem_index base ?len) start 0 mem NC_NOERR fs =
        put_from ?wr mem (map ?row ?rows) NC_NOERR fs"
      by (rule varm_put_box [OF rows_strides_ok [OF so lm'(1)] ra]) (use lm' rows_fewer [OF pos lm'(2,4)] in simp_all)
    let ?Inv = "\<lambda>b x. \<exists>s'. x = update_file fs ncid ncp s' \<and> ok s' \<and> bytes s' = b \<and> length b = length (bytes s)"
    have step: "\<exists>x'. ?wr c us x = Done (putn_status ub ext (mem_type ext memtype) (take (length (?cells c)) us), (), x') \<and>
        ?Inv (write_elems ?g (zip (map (elem_offset ncp v) (?cells c)) us) b) x'"
      if c: "c \<in> fst ` set (map ?row ?rows)" and x: "?Inv b x" and us: "length (?cells c) \<le> length us" for c b x us
    proof -
      obtain k where k: "k \<in> set ?rows" "c = strided start (row_steps stride ?imap edges stride) k" using c by auto
      obtain s1 where s1: "x = update_file fs ncid ncp s1" "ok s1" "bytes s1 = b" "length b = length (bytes s)" using x by blast
      have "data_ok ncp v ext (length (bytes s1)) start (span edges stride)" using D(6) s1(3,4) by simp
      from put_row [OF open_file_update(1) [OF f] w a D(2) this row_sub_rect [OF d n(1) lm'(1) k(1)] s1(2) us [unfolded k(2)], of E ub relax] s1(3,4)
      show ?thesis unfolding s1(1) k(2) rows_init(3) [OF so lm'(1) strided_last(2) [OF d n(1)]] using open_file_update(2) [OF f] by metis
    qed
    have "?Inv (bytes s) fs" using update_file_same [OF f] s by metis
    from put_from_values [where cs = "map ?row ?rows" and Inv = ?Inv and wr = ?wr and cells = ?cells and mem = mem and off = "elem_offset ncp v" and status = NC_NOERR, OF step room(1) this]
    show ?thesis unfolding call loop room(2,3) vs_def using False n by auto
  qed
qed

end

subsection \<open>What the mapped calls promise\<close>

text \<open>
  C12: over a memory file, \<open>NC_get_varm\<close> returns the status of \<open>NC_get_vars\<close> with the same rectangle and strides, and scatters the values that call
  returns over the caller's array: the element \<open>k\<close> counted from the start of the rectangle goes to the place \<open>base\<close> plus the sum of
  \<open>imap ! i * k ! i\<close>. Taking whole rows where the last dimension is dense does not show, nor does the pointer that walks through the array.
  The steps of the map, in bytes, must fit an \<open>int\<close> (\<open>steps_fit\<close>), in which the C code computes them.
\<close>

theorem NC_get_varm_scatters:
  assumes "open_file fs ncid mode ncp mio" "access_ok ncp varid v memtype ext" "strided_ok ncp v ext (length (mio_bytes mio)) start edges stride" "mio_ok mio" "env_ok E"
    and "places_ok memtype mem base imapp edges" "steps_fit (nctypelen memtype) edges stride (varm_map imapp edges)"
  shows "\<exists>st vals fs1 mio'. NC_get_vars E ub relax (memio_io pagesize malloc) fs ncid varid (Some start) (Some edges) (Some stride) memtype = Done (st, vals, fs1) \<and>
    NC_get_varm E ub relax (memio_io pagesize malloc) fs ncid varid (Some start) (Some edges) (Some stride) imapp mem base memtype =
      Done (st, mem_put mem (zip (places base imapp edges) vals), update_file fs ncid ncp mio') \<and> mio_bytes mio' = mio_bytes mio"
  using mioc.NC_get_vars_result [OF assms(1-4)] mioc.NC_get_varm_result [OF assms] by blast

text \<open>
  C11: over a memory file, values that \<open>NC_put_varm\<close> took from the caller's array and accepted without \<open>NC_ERANGE\<close> are put back by \<open>NC_get_varm\<close>
  with the same map into the places they came from, and the rest of the array it fills stays as it is. The map may be transposed, with gaps or
  with negative steps. Two conditions limit it: all places are inside the arrays (\<open>places_ok\<close>), and every step of the map, and a whole row where
  the last dimension is dense, is below 2^31 bytes (\<open>steps_fit\<close>), because \<open>NCDEFAULT_get_varm\<close> computes its steps in an \<open>int\<close> and goes wrong
  beyond that (\<open>get_step_wraps\<close>).
\<close>

theorem NC_put_get_varm:
  assumes f: "open_file fs ncid mode ncp mio" and w: "\<not> NC_readonly ncp" and a: "access_ok ncp varid v memtype ext"
    and d: "strided_ok ncp v ext (length (mio_bytes mio)) start edges stride" "rec_room ncp v" "mio_ok mio" and e: "env_ok E"
    and p: "places_ok memtype mem base imapp edges" "places_ok memtype mem' base imapp edges" "steps_fit (nctypelen memtype) edges stride (varm_map imapp edges)"
    and t: "integer_type ext \<and> integer_type memtype \<or> ext = memtype" "\<forall>i \<in> set (places base imapp edges). in_type memtype (mem ! nat i)"
    and r: "putn_status ub ext memtype (map (\<lambda>i. mem ! nat i) (places base imapp edges)) = NC_NOERR"
  shows "\<exists>fs1 fs2 mem2. NC_put_varm E ub relax (memio_io pagesize malloc) fs ncid varid (Some start) (Some edges) (Some stride) imapp mem base memtype = Done (NC_NOERR, (), fs1) \<and>
    NC_get_varm E ub relax (memio_io pagesize malloc) fs1 ncid varid (Some start) (Some edges) (Some stride) imapp mem' base memtype = Done (NC_NOERR, mem2, fs2) \<and>
    length mem2 = length mem' \<and> (\<forall>i<length mem'. mem2 ! i = (if int i \<in> set (places base imapp edges) then mem ! i else mem' ! i))"
proof -
  note D = strided_okD [OF d(1)]
  let ?vs = "map (\<lambda>i. mem ! nat i) (places base imapp edges)" and ?cs = "srect start edges stride"
  have m: "mem_type ext memtype = memtype" using t(1) by (auto simp: mem_type_def integer_type_def)
  have sub: "set ?cs \<subseteq> set (rect start (span edges stride))" using srect_span [of edges start stride] D(3,4,5,11) by auto
  have lv: "length ?vs = length ?cs" using length_srect [of edges start stride] length_rect [of "map (\<lambda>_. 0) edges" edges] D(3,4) by (simp add: places_def)
  obtain mio1 where q: "NC_put_varm E ub relax (memio_io pagesize malloc) fs ncid varid (Some start) (Some edges) (Some stride) imapp mem base memtype = Done (NC_NOERR, (), update_file fs ncid ncp mio1)"
      "mio_ok mio1" "mio_bytes mio1 = write_elems (conv_bytes ub ext memtype) (zip (map (elem_offset ncp v) ?cs) ?vs) (mio_bytes mio)"
    using mioc.NC_put_varm_result [OF f w a d(1,3) e p(1), of ub relax pagesize malloc] r m by auto
  have "length (mio_bytes mio1) = length (mio_bytes mio)" unfolding q(3) by (rule write_bytes_length [OF D(6) sub])
  then have d1: "strided_ok ncp v ext (length (mio_bytes mio1)) start edges stride" using d(1) by simp
  have "distinct ?cs" by (rule srect_distinct) (use D(3,4,11) in auto)
  moreover have "\<forall>x \<in> set ?vs. in_type memtype x" using t(2) by simp
  ultimately have g: "getn_values ub ext memtype (map (elem_at ext ncp v (mio_bytes mio1)) ?cs) = (NC_NOERR, map Some ?vs)"
    using elems_write_values [OF D(6) d(2) sub _ lv] stored_values_back [OF t(1) _ r] unfolding q(3) by simp
  let ?mem2 = "mem_put mem' (zip (places base imapp edges) (map Some ?vs))"
  have z: "zip (places base imapp edges) (map Some ?vs) = map (\<lambda>i. (i, Some (mem ! nat i))) (places base imapp edges)" by (rule nth_equalityI) simp_all
  have "\<forall>(q, x) \<in> set (zip (places base imapp edges) (map Some ?vs)). x = Some (mem ! nat q) \<and> 0 \<le> q" using p(1) unfolding z by (auto simp: places_ok_def)
  note mem_put_nth [OF this]
  moreover have "fst ` set (zip (places base imapp edges) (map Some ?vs)) = set (places base imapp edges)" unfolding z by (simp add: image_image)
  ultimately have "\<forall>i<length mem'. ?mem2 ! i = (if int i \<in> set (places base imapp edges) then mem ! i else mem' ! i)" by simp
  moreover obtain mio2 where "NC_get_varm E ub relax (memio_io pagesize malloc) (update_file fs ncid ncp mio1) ncid varid (Some start) (Some edges) (Some stride) imapp mem' base memtype =
      Done (NC_NOERR, ?mem2, update_file (update_file fs ncid ncp mio1) ncid ncp mio2)"
    using mioc.NC_get_varm_result [OF open_file_update(1) [OF f] a d1 q(2) e p(2,3), of ub relax pagesize malloc] unfolding m g fst_conv snd_conv by blast
  ultimately show ?thesis using q(1) length_mem_put by blast
qed

text \<open>
  The reader's step in memory, computed in \<open>int\<close>, is wrong from 2^31 bytes on, also for the rows of a dense array; the writer's is right.
\<close>

lemma get_step_wraps: "2147483648 \<le> m * memtypelen \<Longrightarrow> m * memtypelen < 4294967296 \<Longrightarrow> 1 < memtypelen \<Longrightarrow>
    get_step memtypelen m = m * memtypelen - 4294967296 \<and> put_step memtypelen m = m * memtypelen"
proof -
  assume a: "2147483648 \<le> m * memtypelen" "m * memtypelen < 4294967296" "1 < memtypelen"
  have m0: "0 \<le> m"
  proof (rule ccontr)
    assume "\<not> 0 \<le> m"
    then have "m * memtypelen \<le> 0" using a(3) by (simp add: mult_nonpos_nonneg)
    with a(1) show False by simp
  qed
  then have "m * 2 \<le> m * memtypelen" using a(3) by (intro mult_left_mono) auto
  then have "m < 2147483648" using a(2) by linarith
  then have "s32 m = m" using m0 by (intro s32_id) auto
  moreover have "s32 (m * memtypelen) = m * memtypelen - 4294967296"
  proof -
    have "(m * memtypelen + 2147483648) mod 4294967296 = m * memtypelen + 2147483648 - 4294967296"
      using a by (subst mod_pos_geq) (auto intro!: mod_pos_pos_trivial)
    then show ?thesis by (simp add: s32_def)
  qed
  moreover have "s64 (m * memtypelen) = m * memtypelen" using a by (intro s64_nonneg) auto
  ultimately show ?thesis by (simp add: get_step_def put_step_def)
qed

subsection \<open>Witnesses\<close>

text \<open>The transposed map: an array of two columns, of which the file has the rows.\<close>

lemma transposed: "places 0 (Some [1, 2]) [2, 2] = [0, 2, 1, 3]" "places_ok NC_INT [1, 2, 3, 4] 0 (Some [1, 2]) [2, 2]" "places_ok NC_INT [9, 9, 9, 9] 0 (Some [1, 2]) [2, 2]"
  "steps_fit (nctypelen NC_INT) [2, 2] [1, 2] (varm_map (Some [1, 2]) [2, 2])"
proof -
  show "places 0 (Some [1, 2]) [2, 2] = [0, 2, 1, 3]" by (simp add: places_def varm_map_def upto_rec1)
  then show "places_ok NC_INT [1, 2, 3, 4] 0 (Some [1, 2]) [2, 2]" "places_ok NC_INT [9, 9, 9, 9] 0 (Some [1, 2]) [2, 2]"
    by (simp_all add: places_ok_def varm_map_def nctypelen_def)
  show "steps_fit (nctypelen NC_INT) [2, 2] [1, 2] (varm_map (Some [1, 2]) [2, 2])" by (simp add: steps_fit_def varm_map_def nctypelen_def)
qed

lemma NC_get_varm_scatters_witness:
  "\<exists>st vals fs1 mio'. NC_get_vars sample_env (\<lambda>t x. 0) False (memio_io 4096 (\<lambda>n. None)) (memory_files strided_file) 65536 0 (Some [0, 0]) (Some [2, 2]) (Some [1, 2]) NC_INT = Done (st, vals, fs1) \<and>
    NC_get_varm sample_env (\<lambda>t x. 0) False (memio_io 4096 (\<lambda>n. None)) (memory_files strided_file) 65536 0 (Some [0, 0]) (Some [2, 2]) (Some [1, 2]) (Some [1, 2]) [9, 9, 9, 9] 0 NC_INT =
      Done (st, mem_put [9, 9, 9, 9] (zip [0, 2, 1, 3] vals), update_file (memory_files strided_file) 65536 strided_file mio') \<and> mio_bytes mio' = mio_bytes sample_mio"
  using NC_get_varm_scatters [OF memory_files_open strided_file_sel(2) strided_grid(1) sample_mio_ok(1) sample_env_ok transposed(3,4), of "\<lambda>t x. 0" False 4096 "\<lambda>n. None"]
  unfolding transposed(1) .

lemma NC_put_get_varm_witness:
  "\<exists>fs1 fs2. NC_put_varm sample_env (\<lambda>t x. 0) False (memio_io 4096 (\<lambda>n. None)) (memory_files strided_file) 65536 0 (Some [0, 0]) (Some [2, 2]) (Some [1, 2]) (Some [1, 2]) [1, 2, 3, 4] 0 NC_INT =
      Done (NC_NOERR, (), fs1) \<and>
    NC_get_varm sample_env (\<lambda>t x. 0) False (memio_io 4096 (\<lambda>n. None)) fs1 65536 0 (Some [0, 0]) (Some [2, 2]) (Some [1, 2]) (Some [1, 2]) [9, 9, 9, 9] 0 NC_INT = Done (NC_NOERR, [1, 2, 3, 4], fs2)"
proof -
  have t1: "\<forall>i \<in> set (places 0 (Some [1, 2]) [2, 2]). in_type NC_INT ([1, 2, 3, 4] ! nat i)"
    by (simp add: transposed(1) in_type_def type_min_def type_max_def is_signed_def type_bytes_def numeral_2_eq_2 numeral_3_eq_3)
  have t2: "putn_status (\<lambda>t x. 0) NC_SHORT NC_INT (map (\<lambda>i. [1, 2, 3, 4] ! nat i) (places 0 (Some [1, 2]) [2, 2])) = NC_NOERR"
    by (simp add: transposed(1) putn_status_def range_status_def conv_put_def is_float_def in_type_def type_min_def type_max_def is_signed_def type_bytes_def numeral_2_eq_2 numeral_3_eq_3)
  have t0: "integer_type NC_SHORT \<and> integer_type NC_INT \<or> NC_SHORT = NC_INT" by (simp add: integer_type_def)
  obtain fs1 fs2 mem2 where r: "NC_put_varm sample_env (\<lambda>t x. 0) False (memio_io 4096 (\<lambda>n. None)) (memory_files strided_file) 65536 0 (Some [0, 0]) (Some [2, 2]) (Some [1, 2]) (Some [1, 2]) [1, 2, 3, 4] 0 NC_INT = Done (NC_NOERR, (), fs1)"
    "NC_get_varm sample_env (\<lambda>t x. 0) False (memio_io 4096 (\<lambda>n. None)) fs1 65536 0 (Some [0, 0]) (Some [2, 2]) (Some [1, 2]) (Some [1, 2]) [9, 9, 9, 9] 0 NC_INT = Done (NC_NOERR, mem2, fs2)"
    "length mem2 = length [9, 9, 9, 9 :: int]" "\<forall>i<length [9, 9, 9, 9 :: int]. mem2 ! i = (if int i \<in> set (places 0 (Some [1, 2]) [2, 2]) then [1, 2, 3, 4] ! i else [9, 9, 9, 9] ! i)"
    using NC_put_get_varm [OF memory_files_open strided_file_sel(1,2) strided_grid(1) strided_file_sel(3) sample_mio_ok(1) sample_env_ok transposed(2,3,4) t0 t1 t2, of False 4096 "\<lambda>n. None"]
    by (elim exE conjE)
  have "mem2 = [1, 2, 3, 4]"
  proof (rule nth_equalityI)
    fix i assume "i < length mem2"
    then have "i < length [9, 9, 9, 9 :: int]" "i = 0 \<or> i = 1 \<or> i = 2 \<or> i = 3" using r(3) by auto
    with r(4) show "mem2 ! i = [1, 2, 3, 4] ! i" unfolding transposed(1) by (elim disjE) simp_all
  qed (use r(3) in simp)
  with r(1,2) show ?thesis by blast
qed

end
