(* ===== verification/NC_Floats.thy ===== *)
theory NC_Floats
  imports NC_Convert Complex_Main
begin

text \<open>
  Floating-point values through \<open>libsrc/ncx.c\<close>: a float stored in a double variable comes back bit by bit, and reading into integers
  truncates towards zero.
\<close>

lemma float_types:
  "is_float t \<Longrightarrow> float_emax t + 1 = 2 ^ (8 * type_bytes t - 1 - float_frac t)"
  "is_float t \<Longrightarrow> type_max t = 2 * ((float_emax t + 1) * 2 ^ float_frac t) - 1" "is_float t \<Longrightarrow> type_min t = 0"
  "0 < float_emax t" "float_frac t \<le> 52" "float_emin t < 0"
  by (auto simp: is_float_def float_emax_def float_frac_def float_emin_def type_bytes_def type_max_def type_min_def is_signed_def)

text \<open>What \<open>float_decode\<close> gives: a payload of 52 bits, a mantissa that is not negative.\<close>

definition fval_ok :: "fval \<Rightarrow> bool" where
  "fval_ok x = (case x of FNan s f \<Rightarrow> 0 \<le> f \<and> f < 2 ^ 52 | FInf s \<Rightarrow> True | FNum s m e \<Rightarrow> 0 \<le> m)"

lemma float_decode_ok: "fval_ok (float_decode t b)"
proof -
  let ?p = "2 ^ float_frac t :: int"
  have "b mod ?p < ?p" "0 \<le> b mod ?p" by simp_all
  moreover have "?p * 2 ^ (52 - float_frac t) = 2 ^ 52" using float_types(5) [of t] by (simp add: power_add [symmetric])
  ultimately have "b mod ?p * 2 ^ (52 - float_frac t) < 2 ^ 52" by (metis mult_strict_right_mono zero_less_numeral zero_less_power)
  moreover have "0 \<le> b mod ?p * 2 ^ (52 - float_frac t)" by simp
  ultimately show ?thesis by (simp add: float_decode_def fval_ok_def Let_def)
qed

lemma round_even_nonneg: "0 \<le> m \<Longrightarrow> 0 \<le> round_even m k"
  by (simp add: round_even_def Let_def pos_imp_zdiv_nonneg_iff)

lemma float_encode_bounds:
  assumes "fval_ok x" "is_float t"
  shows "0 \<le> float_encode t x \<and> float_encode t x < 2 * ((float_emax t + 1) * 2 ^ float_frac t)"
proof -
  let ?p = "2 ^ float_frac t :: int" and ?M = "float_emax t"
  have s: "0 \<le> float_sign t s \<and> float_sign t s \<le> (?M + 1) * ?p" for s
    using float_types(4) [of t] by (simp add: float_sign_def)
  have body: "0 \<le> r \<Longrightarrow> r < (?M + 1) * ?p \<Longrightarrow> 0 \<le> float_sign t s + r \<and> float_sign t s + r < 2 * ((?M + 1) * ?p)" for s r
    using s [of s] by linarith
  have Mp: "0 \<le> ?M * ?p" "?M * ?p < (?M + 1) * ?p" using float_types(4) [of t] by (simp_all add: distrib_right)
  show ?thesis
  proof (cases x)
    case (FNan s f)
    let ?f = "if f < 2 ^ 51 then f + 2 ^ 51 else f"
    have f: "0 \<le> ?f" "?f < 2 ^ 52" using assms(1) by (auto simp: FNan fval_ok_def)
    have "?p * 2 ^ (52 - float_frac t) = 2 ^ 52" using float_types(5) [of t] by (simp add: power_add [symmetric])
    then have "?f div 2 ^ (52 - float_frac t) < ?p" using f(2) by (intro div_less_mult) simp_all
    moreover have "0 \<le> ?f div 2 ^ (52 - float_frac t)" using f(1) by (simp add: pos_imp_zdiv_nonneg_iff)
    ultimately have "0 \<le> ?M * ?p + ?f div 2 ^ (52 - float_frac t)" "?M * ?p + ?f div 2 ^ (52 - float_frac t) < (?M + 1) * ?p"
      using Mp by (simp_all add: distrib_right)
    from body [OF this, of s] show ?thesis by (simp add: FNan float_encode_def Let_def add.assoc)
  next
    case (FInf s)
    from body [OF Mp, of s] show ?thesis by (simp add: FInf float_encode_def)
  next
    case (FNum s m e)
    have m: "0 \<le> m" using assms(1) by (simp add: FNum fval_ok_def)
    show ?thesis
    proof (cases "m = 0")
      case True
      have "0 < (?M + 1) * ?p" using float_types(4) [of t] by simp
      from body [OF _ this, of s] True show ?thesis by (simp add: FNum float_encode_def Let_def)
    next
      case False
      let ?q = "max (e + bit_length m - int (float_frac t) - 1) (float_emin t)"
      let ?k = "if ?q \<le> e then m * 2 ^ nat (e - ?q) else round_even m (nat (?q - e))"
      have "0 \<le> ?k" using m round_even_nonneg by simp
      then have "0 \<le> (?q - float_emin t) * ?p + ?k" by simp
      then have "0 \<le> min ((?q - float_emin t) * ?p + ?k) (?M * ?p)" "min ((?q - float_emin t) * ?p + ?k) (?M * ?p) < (?M + 1) * ?p"
        using Mp by linarith+
      from body [OF this, of s] False show ?thesis by (simp add: FNum float_encode_def Let_def)
    qed
  qed
qed

lemma float_encode_in: "fval_ok x \<Longrightarrow> is_float t \<Longrightarrow> in_type t (float_encode t x)"
  using float_encode_bounds [of x t] float_types(2,3) [of t] by (simp add: in_type_def)

subsection \<open>A float as a double\<close>

lemma bit_length_bounds: "0 < n \<Longrightarrow> 0 < bit_length n \<and> 2 ^ nat (bit_length n - 1) \<le> n \<and> n < 2 ^ nat (bit_length n)"
proof (induction n rule: bit_length.induct)
  case (1 n)
  show ?case
  proof (cases "n = 1")
    case True
    have "bit_length 1 = 1" by (simp add: bit_length.simps)
    then show ?thesis by (simp add: True)
  next
    case False
    with 1(2) have h: "0 < n div 2" by simp
    with 1 have IH: "0 < bit_length (n div 2)" "2 ^ nat (bit_length (n div 2) - 1) \<le> n div 2" "n div 2 < 2 ^ nat (bit_length (n div 2))" by auto
    have b: "bit_length n = bit_length (n div 2) + 1" using 1(2) by (simp add: bit_length.simps)
    have "nat (bit_length (n div 2)) = Suc (nat (bit_length (n div 2) - 1))" "nat (bit_length n) = Suc (nat (bit_length (n div 2)))"
      using IH(1) b by linarith+
    then have "(2::int) ^ nat (bit_length n - 1) = 2 * 2 ^ nat (bit_length (n div 2) - 1)" "(2::int) ^ nat (bit_length n) = 2 * 2 ^ nat (bit_length (n div 2))"
      using b by simp_all
    with IH b show ?thesis by linarith
  qed
qed

lemma bit_length_unique: "0 < n \<Longrightarrow> 0 < k \<Longrightarrow> 2 ^ nat (k - 1) \<le> n \<Longrightarrow> n < 2 ^ nat k \<Longrightarrow> bit_length n = k"
proof (rule ccontr)
  assume n: "0 < n" "0 < k" "2 ^ nat (k - 1) \<le> n" "n < 2 ^ nat k" and ne: "bit_length n \<noteq> k"
  note b = bit_length_bounds [OF n(1)]
  from ne consider "bit_length n \<le> k - 1" | "k \<le> bit_length n - 1" by linarith
  then show False
  proof cases
    case 1
    then have "(2::int) ^ nat (bit_length n) \<le> 2 ^ nat (k - 1)" by (intro power_increasing) simp_all
    with b n(3) show False by linarith
  next
    case 2
    then have "(2::int) ^ nat k \<le> 2 ^ nat (bit_length n - 1)" by (intro power_increasing) simp_all
    with b n(4) show False by linarith
  qed
qed

lemma bit_length_shift: "0 < n \<Longrightarrow> bit_length (n * 2 ^ k) = bit_length n + int k"
proof (rule bit_length_unique)
  assume n: "0 < n"
  note b = bit_length_bounds [OF n]
  from b have "0 < bit_length n" by simp
  then have e: "nat (bit_length n + int k - 1) = nat (bit_length n - 1) + k" "nat (bit_length n + int k) = nat (bit_length n) + k" by linarith+
  have p: "0 < (2::int) ^ k" by simp
  show "2 ^ nat (bit_length n + int k - 1) \<le> n * 2 ^ k" unfolding e power_add using b by (intro mult_right_mono) simp_all
  show "n * 2 ^ k < 2 ^ nat (bit_length n + int k)" unfolding e power_add using b by (intro mult_strict_right_mono) simp_all
  show "0 < n * 2 ^ k" using n by simp
  show "0 < bit_length n + int k" using b by linarith
qed

lemma round_even_exact: "round_even (m * 2 ^ k) k = m"
  by (simp add: round_even_def)

lemma round_even_shift: "j \<le> k \<Longrightarrow> round_even (m * 2 ^ k) j = m * 2 ^ (k - j)"
  using round_even_exact [of "m * 2 ^ (k - j)" j] by (simp add: power_add [symmetric] mult.assoc)

text \<open>A number of at most 24 bits above the smallest float, stored as a double, and the double seen as a float again.\<close>

lemma digit: "0 \<le> (f::int) \<Longrightarrow> f < p \<Longrightarrow> (c * p + f) div p = c \<and> (c * p + f) mod p = f"
  by simp

lemma float_decode_double:
  assumes "b div (2 ^ 52 * 2048) = (if s then 1 else 0)" "b div 2 ^ 52 mod 2048 = E" "b mod 2 ^ 52 = f" "1 \<le> E" "E < 2047"
  shows "float_decode NC_DOUBLE b = FNum s (f + 2 ^ 52) (E - 1075)"
proof -
  have d: "float_frac NC_DOUBLE = 52" "float_emax NC_DOUBLE = 2047" "2047 + 1 = (2048 :: int)" "float_emin NC_DOUBLE = -1074"
    by (simp_all add: float_frac_def float_emax_def float_emin_def)
  show ?thesis using assms(4,5) unfolding float_decode_def d Let_def assms(1,2,3) by simp
qed

lemma widen:
  assumes m: "0 < m" "bit_length m \<le> 24" and e: "-149 \<le> e" "e \<le> 104"
  shows "float_decode NC_DOUBLE (float_encode NC_DOUBLE (FNum s m e)) = FNum s (m * 2 ^ nat (53 - bit_length m)) (e + bit_length m - 53)"
proof -
  let ?n = "bit_length m" and ?k = "m * 2 ^ nat (53 - bit_length m)"
  note b = bit_length_bounds [OF m(1)]
  have q: "max (e + ?n - 52 - 1) (-1074) = e + ?n - 53" "e + ?n - 53 \<le> e" using b m(2) e by linarith+
  have ex: "nat (?n - 1) + nat (53 - ?n) = 52" "nat ?n + nat (53 - ?n) = 53" using b m(2) by linarith+
  have "2 ^ nat (?n - 1) * 2 ^ nat (53 - ?n) \<le> ?k" "?k < 2 ^ nat ?n * 2 ^ nat (53 - ?n)"
    using b by (intro mult_right_mono mult_strict_right_mono; simp)+
  then have k: "2 ^ 52 \<le> ?k" "?k < 2 ^ 53" unfolding power_add [symmetric] ex .
  let ?E = "e + ?n + 1022"
  have E: "1 \<le> ?E" "?E \<le> 1150" using b m(2) e by linarith+
  have "nat (e - (e + ?n - 53)) = nat (53 - ?n)" by simp
  moreover have "(e + ?n - 53 - (-1074)) * 2 ^ 52 + ?k = ?E * 2 ^ 52 + (?k - 2 ^ 52)" by (simp add: algebra_simps)
  moreover have "?E * 2 ^ 52 \<le> 1150 * 2 ^ 52" using E(2) by (intro mult_right_mono) simp_all
  then have "?E * 2 ^ 52 + (?k - 2 ^ 52) \<le> 2047 * 2 ^ 52" using k(2) by simp
  ultimately have enc: "float_encode NC_DOUBLE (FNum s m e) = float_sign NC_DOUBLE s + (?E * 2 ^ 52 + (?k - 2 ^ 52))"
    using m(1) q e by (simp add: float_encode_def Let_def float_frac_def float_emin_def float_emax_def)
  let ?b = "float_sign NC_DOUBLE s + (?E * 2 ^ 52 + (?k - 2 ^ 52))" and ?S = "if s then 1 else 0 :: int"
  have sg: "float_sign NC_DOUBLE s = ?S * 2 ^ 63" by (simp add: float_sign_def float_emax_def float_frac_def)
  have kk: "0 \<le> ?k - 2 ^ 52" "?k - 2 ^ 52 < 2 ^ 52" using k by simp_all
  have d1: "?b = (?S * 2048 + ?E) * 2 ^ 52 + (?k - 2 ^ 52)" unfolding sg by (simp add: algebra_simps)
  from digit [OF kk] have "?b div 2 ^ 52 = ?S * 2048 + ?E" "?b mod 2 ^ 52 = ?k - 2 ^ 52" unfolding d1 by blast+
  moreover have S: "0 \<le> ?E" "?E < 2048" using E by linarith+
  moreover have "(?S * 2048 + ?E) div 2048 = ?S" "(?S * 2048 + ?E) mod 2048 = ?E" using digit [OF S, of ?S] by blast+
  moreover have "?b div (2 ^ 52 * 2048) = ?b div 2 ^ 52 div 2048" by (rule zdiv_zmult2_eq) simp
  ultimately have "?b div (2 ^ 52 * 2048) = ?S" "?b div 2 ^ 52 mod 2048 = ?E" "?b mod 2 ^ 52 = ?k - 2 ^ 52" by presburger+
  from float_decode_double [OF this E(1)] E(2) show ?thesis unfolding enc by (simp add: algebra_simps)
qed


text \<open>The double is not beyond \<open>FLT_MAX\<close>.\<close>

lemma widened_below:
  assumes m: "0 < m" "bit_length m \<le> 24" and e: "-149 \<le> e" "e \<le> 104"
  shows "m * 2 ^ nat (53 - bit_length m) * 2 ^ nat (e + bit_length m - 53) \<le> FLT_MAX * 2 ^ nat (- (e + bit_length m - 53))"
proof -
  let ?n = "bit_length m" and ?e = "e + bit_length m - 53"
  note b = bit_length_bounds [OF m(1)]
  have "(2::int) ^ nat ?n \<le> 2 ^ 24" using m(2) by (intro power_increasing) simp_all
  with b have mm: "m \<le> 2 ^ 24 - 1" by simp
  show ?thesis
  proof (cases "0 \<le> ?e")
    case True
    then have "nat (53 - ?n) + nat ?e = nat e" using b m(2) by linarith
    then have "m * 2 ^ nat (53 - ?n) * 2 ^ nat ?e = m * 2 ^ nat e" by (simp only: mult.assoc power_add [symmetric])
    also have "\<dots> \<le> (2 ^ 24 - 1) * 2 ^ 104" using mm e(2) m(1) by (intro mult_mono power_increasing) simp_all
    finally show ?thesis using True by simp
  next
    case False
    have "nat ?n + nat (53 - ?n) = 53" using b m(2) by linarith
    then have "(2::int) ^ nat ?n * 2 ^ nat (53 - ?n) = 2 ^ 53" by (simp only: power_add [symmetric])
    moreover have "m * 2 ^ nat (53 - ?n) < 2 ^ nat ?n * 2 ^ nat (53 - ?n)" using b by (intro mult_strict_right_mono) simp_all
    ultimately have "m * 2 ^ nat (53 - ?n) \<le> FLT_MAX * 1" by simp
    also have "\<dots> \<le> FLT_MAX * 2 ^ nat (- ?e)" by (intro mult_left_mono one_le_power) simp_all
    finally have "m * 2 ^ nat (53 - ?n) \<le> FLT_MAX * 2 ^ nat (- ?e)" .
    moreover have "nat ?e = 0" using False by simp
    ultimately show ?thesis by simp
  qed
qed

lemma cmp_below: "0 \<le> m \<Longrightarrow> 0 < K \<Longrightarrow> m * 2 ^ nat e \<le> K * 2 ^ nat (- e) \<Longrightarrow>
  float_cmp (FNum s m e) K \<noteq> Some 1 \<and> float_cmp (FNum s m e) (- K) \<noteq> Some (-1)"
proof -
  assume a: "0 \<le> m" "0 < K" "m * 2 ^ nat e \<le> K * 2 ^ nat (- e)"
  have "0 \<le> m * 2 ^ nat e" "0 < K * 2 ^ nat (- e)" using a by simp_all
  with a(3) show ?thesis by (auto simp: sgn_if)
qed

lemma float_encode_num:
  assumes "0 < k" "max (e + bit_length k - 23 - 1) (-149) = q" "(if q \<le> e then k * 2 ^ nat (e - q) else round_even k (nat (q - e))) = r"
  shows "float_encode NC_FLOAT (FNum s k e) = float_sign NC_FLOAT s + min ((q + 149) * 2 ^ 23 + r) (255 * 2 ^ 23)"
  unfolding assms(2,3) [symmetric] using assms(1) by (simp add: float_encode_def Let_def float_frac_def float_emin_def float_emax_def)

lemma float_wide_round_trip:
  assumes "float_decode NC_FLOAT b = FNum s m e" "0 < m" "bit_length m \<le> 24" "bit_length m = 24 \<or> e = -149" "-149 \<le> e" "e \<le> 104"
  shows "conv_put ub NC_DOUBLE NC_FLOAT b = (NC_NOERR, float_encode NC_DOUBLE (FNum s m e)) \<and>
    conv_get ub NC_DOUBLE NC_FLOAT (float_encode NC_DOUBLE (FNum s m e)) = (NC_NOERR, Some (float_sign NC_FLOAT s + ((e + 149) * 2 ^ 23 + m)))"
proof -
  let ?n = "bit_length m" and ?k = "m * 2 ^ nat (53 - bit_length m)" and ?e = "e + bit_length m - 53"
  note b = bit_length_bounds [OF assms(2)]
  note w = widen [OF assms(2,3,5,6), of s] and l = cmp_below [OF _ _ widened_below [OF assms(2,3,5,6)], of s]
  have k: "0 < ?k" using assms(2) by simp
  have "bit_length ?k = 53" using bit_length_shift [OF assms(2), of "nat (53 - ?n)"] assms(3) by simp
  then have q: "max (?e + bit_length ?k - 23 - 1) (-149) = e" using assms(3,4,5) b by auto
  have "nat (e - ?e) = nat (53 - ?n)" by simp
  moreover have "e \<le> ?e \<Longrightarrow> nat (?e - e) = 0 \<and> nat (53 - ?n) = 0" using assms(3) by linarith
  ultimately have r: "(if e \<le> ?e then ?k * 2 ^ nat (?e - e) else round_even ?k (nat (e - ?e))) = m"
    by (auto simp: round_even_exact)
  have "(2::int) ^ nat ?n \<le> 2 ^ 24" using assms(3) by (intro power_increasing) simp_all
  with b have mm: "m < 2 ^ 24" by simp
  have "(e + 149) * 2 ^ 23 \<le> 253 * 2 ^ 23" using assms(6) by (intro mult_right_mono) simp_all
  with mm have mn: "min ((e + 149) * 2 ^ 23 + m) (255 * 2 ^ 23) = (e + 149) * 2 ^ 23 + m" by simp
  have enc: "float_encode NC_FLOAT (FNum s ?k ?e) = float_sign NC_FLOAT s + ((e + 149) * 2 ^ 23 + m)"
    using float_encode_num [OF k q r, of s] unfolding mn .
  have t: "is_float NC_DOUBLE" "is_float NC_FLOAT" "NC_DOUBLE \<noteq> NC_FLOAT" by (simp_all add: is_float_def)
  have "conv_put ub NC_DOUBLE NC_FLOAT b = (NC_NOERR, float_encode NC_DOUBLE (FNum s m e))" using assms(1) t by (simp add: conv_put_def)
  moreover have "conv_get ub NC_DOUBLE NC_FLOAT (float_encode NC_DOUBLE (FNum s m e)) = (NC_NOERR, Some (float_encode NC_FLOAT (FNum s ?k ?e)))"
    using l k t unfolding conv_get_def w Let_def by auto
  ultimately show ?thesis unfolding enc by blast
qed


lemma small_bit_length: "0 < n \<Longrightarrow> n < 2 ^ k \<Longrightarrow> bit_length n \<le> int k"
proof (rule ccontr)
  assume n: "0 < n" "n < 2 ^ k" and "\<not> bit_length n \<le> int k"
  then have "(2::int) ^ k \<le> 2 ^ nat (bit_length n - 1)" by (intro power_increasing) simp_all
  with bit_length_bounds [OF n(1)] n(2) show False by linarith
qed

lemma digits: "q = d \<Longrightarrow> c = d * 256 + E \<Longrightarrow> (b::int) = c * 2 ^ 23 + f \<Longrightarrow> b = q * 2 ^ 31 + E * 2 ^ 23 + f"
  by simp

lemma float_decode_finite:
  assumes "0 \<le> b" "b < 2 ^ 32" "b div 2 ^ 23 mod 256 \<noteq> 255"
  obtains s m e where "float_decode NC_FLOAT b = FNum s m e" "0 \<le> m" "m < 2 ^ 24" "2 ^ 23 \<le> m \<or> e = -149" "-149 \<le> e" "e \<le> 104"
    "b = float_sign NC_FLOAT s + ((e + 149) * 2 ^ 23 + m)"
proof -
  let ?s = "b div 2 ^ 31 = 1" and ?E = "b div 2 ^ 23 mod 256" and ?f = "b mod 2 ^ 23"
  have f: "0 \<le> ?f" "?f < 2 ^ 23" and E: "0 \<le> ?E" "?E < 255" using assms(3) by (simp_all add: order_less_le) (smt (verit) pos_mod_bound)
  have "b div 2 ^ 31 < 2" "0 \<le> b div 2 ^ 31" using assms(1,2) by (auto intro!: div_less_mult simp: pos_imp_zdiv_nonneg_iff)
  then have "b div 2 ^ 31 = 0 \<or> b div 2 ^ 31 = 1" by arith
  then have sg: "float_sign NC_FLOAT ?s = b div 2 ^ 31 * 2 ^ 31" by (auto simp: float_sign_def float_emax_def float_frac_def)
  have "b div 2 ^ 31 = b div 2 ^ 23 div 256" by (simp add: zdiv_zmult2_eq [symmetric])
  from digits [OF this div_mult_mod_eq [symmetric] div_mult_mod_eq [symmetric]]
  have "b = b div 2 ^ 31 * 2 ^ 31 + ?E * 2 ^ 23 + ?f" .
  then have b: "b = float_sign NC_FLOAT ?s + (?E * 2 ^ 23 + ?f)" unfolding sg by (simp only: add.assoc)
  have d: "float_decode NC_FLOAT b = (if ?E = 0 then FNum ?s ?f (-149) else FNum ?s (?f + 2 ^ 23) (?E - 150))"
    using assms E by (simp add: float_decode_def Let_def float_frac_def float_emax_def float_emin_def)
  show thesis
  proof (cases "?E = 0")
    case True
    show thesis by (rule that [of ?s ?f "-149"]) (use d b f True in simp_all)
  next
    case False
    with E(1) have "1 \<le> ?E" by arith
    with False show thesis by (intro that [of ?s "?f + 2 ^ 23" "?E - 150"]) (use d b f E in \<open>simp_all add: algebra_simps\<close>)
  qed
qed


text \<open>
  C21: A float stored in a variable of doubles and read as a float again is the same bit pattern, and neither call reports \<open>NC_ERANGE\<close>: every
  finite float, zeros of both signs and subnormal ones included.
\<close>

theorem float_double_round_trip:
  assumes "0 \<le> b" "b < 2 ^ 32" "b div 2 ^ 23 mod 256 \<noteq> 255"
  shows "\<exists>bs. ncx_putn ub NC_DOUBLE NC_FLOAT [b] = (NC_NOERR, bs) \<and> ncx_getn ub NC_DOUBLE NC_FLOAT 1 bs = (NC_NOERR, [Some b])"
proof -
  from float_decode_finite [OF assms] obtain s m e where
    x: "float_decode NC_FLOAT b = FNum s m e" "0 \<le> m" "m < 2 ^ 24" "2 ^ 23 \<le> m \<or> e = -149" "-149 \<le> e" "e \<le> 104"
      "b = float_sign NC_FLOAT s + ((e + 149) * 2 ^ 23 + m)" .
  let ?d = "float_encode NC_DOUBLE (FNum s m e)"
  have t: "is_float NC_DOUBLE" "is_float NC_FLOAT" "NC_DOUBLE \<noteq> NC_FLOAT" by (simp_all add: is_float_def)
  have "conv_put ub NC_DOUBLE NC_FLOAT b = (NC_NOERR, ?d) \<and> conv_get ub NC_DOUBLE NC_FLOAT ?d = (NC_NOERR, Some b)"
  proof (cases "m = 0")
    case True
    with x(4) have e: "e = -149" by simp
    have d: "float_decode NC_DOUBLE ?d = FNum s 0 (-1074)" by (simp add: True float_encode_def float_sign_def float_decode_def float_frac_def float_emax_def float_emin_def)
    have "float_encode NC_FLOAT (FNum s 0 (-1074)) = b" using x(7) True e by (simp add: float_encode_def)
    then have "conv_get ub NC_DOUBLE NC_FLOAT ?d = (NC_NOERR, Some b)" using t by (simp add: conv_get_def d)
    moreover have "conv_put ub NC_DOUBLE NC_FLOAT b = (NC_NOERR, ?d)" using x(1) t by (simp add: conv_put_def)
    ultimately show ?thesis by blast
  next
    case False
    with x(2) have m: "0 < m" by simp
    have n: "bit_length m \<le> 24" using small_bit_length [OF m, of 24] x(3) by simp
    have "bit_length m = 24" if "2 ^ 23 \<le> m" using bit_length_unique [OF m, of 24] that x(3) by simp
    with x(4) have "bit_length m = 24 \<or> e = -149" by blast
    from float_wide_round_trip [OF x(1) m n this x(5,6)] show ?thesis unfolding x(7) by blast
  qed
  moreover have "in_type NC_DOUBLE ?d"
    by (rule float_encode_in) (use x(2) in \<open>simp_all add: fval_ok_def is_float_def\<close>)
  then have "ext_value NC_DOUBLE (ext_bytes NC_DOUBLE ?d) = ?d" by (simp add: ext_value_bytes type_wrap_id)
  ultimately show ?thesis by (simp)
qed

text \<open>\<open>0.1f\<close>.\<close>

lemma float_double_round_trip_witness:
  "\<exists>bs. ncx_putn (\<lambda>t x. 0) NC_DOUBLE NC_FLOAT [0x3DCCCCCD] = (NC_NOERR, bs) \<and> ncx_getn (\<lambda>t x. 0) NC_DOUBLE NC_FLOAT 1 bs = (NC_NOERR, [Some 0x3DCCCCCD])"
  by (rule float_double_round_trip) simp_all

subsection \<open>Floating-point values as integers\<close>

text \<open>The real number of a finite floating-point value, and its truncation towards zero.\<close>

definition float_real :: "fval \<Rightarrow> real" where
  "float_real x = (case x of FNum s m e \<Rightarrow> (if s then -1 else 1) * of_int m * (2 ^ nat e / 2 ^ nat (- e)) | _ \<Rightarrow> 0)"

definition is_number :: "fval \<Rightarrow> bool" where
  "is_number x \<longleftrightarrow> (case x of FNum s m e \<Rightarrow> 0 \<le> m | _ \<Rightarrow> False)"

definition real_trunc :: "real \<Rightarrow> int" where
  "real_trunc r = (if r < 0 then \<lceil>r\<rceil> else \<lfloor>r\<rfloor>)"

lemma float_cmp_real: "is_number x \<Longrightarrow> float_cmp x k = Some (if float_real x < of_int k then -1 else if float_real x = of_int k then 0 else 1)"
proof -
  assume "is_number x"
  then obtain s m e where x: "x = FNum s m e" by (auto simp: is_number_def split: fval.splits)
  let ?a = "(if s then - m else m) * 2 ^ nat e" and ?b = "2 ^ nat (- e) :: int"
  have r: "float_real x = of_int ?a / of_int ?b" by (simp add: float_real_def x)
  have b: "(0::real) < of_int ?b" by simp
  have "float_real x < of_int k \<longleftrightarrow> of_int ?a < (of_int (k * ?b) :: real)" unfolding r of_int_mult using b by (simp only: pos_divide_less_eq)
  moreover have "float_real x = of_int k \<longleftrightarrow> of_int ?a = (of_int (k * ?b) :: real)" unfolding r of_int_mult using b by (simp only: nonzero_divide_eq_eq [OF less_imp_neq [THEN not_sym, OF b]])
  ultimately show ?thesis unfolding of_int_less_iff of_int_eq_iff x by (simp add: sgn_if)
qed

lemma float_trunc_real: "is_number x \<Longrightarrow> float_trunc x = Some (real_trunc (float_real x))"
proof -
  assume "is_number x"
  then obtain s m e where x: "x = FNum s m e" "0 \<le> m" by (auto simp: is_number_def split: fval.splits)
  let ?a = "m * 2 ^ nat e" and ?b = "2 ^ nat (- e) :: int"
  have q: "\<lfloor>(of_int ?a :: real) / of_int ?b\<rfloor> = ?a div ?b" by (rule floor_divide_of_int_eq)
  have p: "0 \<le> (of_int ?a :: real) / of_int ?b" using x(2) by simp
  show ?thesis
  proof (cases s)
    case True
    have r: "float_real x = - (of_int ?a / of_int ?b)" by (simp add: float_real_def x True)
    have "real_trunc (float_real x) = - (?a div ?b)"
      using p unfolding real_trunc_def r q [symmetric] by (cases "(of_int ?a :: real) / of_int ?b = 0") (simp_all only: ceiling_minus neg_less_0_iff_less less_le if_True if_False minus_zero floor_zero simp_thms, simp_all)
    then show ?thesis by (simp add: x True)
  next
    case False
    have r: "float_real x = of_int ?a / of_int ?b" by (simp add: float_real_def x False)
    have "real_trunc (float_real x) = ?a div ?b" using p unfolding real_trunc_def r q [symmetric] by simp
    then show ?thesis by (simp add: x False)
  qed
qed

definition small_integer :: "int \<Rightarrow> bool" where
  "small_integer t \<longleftrightarrow> t \<in> {NC_BYTE, NC_SHORT, NC_INT, NC_UBYTE, NC_USHORT, NC_UINT}"

lemma as_double_max: "small_integer t \<Longrightarrow> as_double (type_max t) = type_max t"
proof -
  have "as_double 127 = 127" "as_double 255 = 255" "as_double 32767 = 32767" "as_double 65535 = 65535" "as_double 2147483647 = 2147483647"
      "as_double 4294967295 = 4294967295" by code_simp+
  then show "small_integer t \<Longrightarrow> as_double (type_max t) = type_max t"
    by (auto simp: small_integer_def type_max_def is_signed_def type_bytes_def)
qed

lemma real_trunc_in: "of_int a \<le> r \<Longrightarrow> r \<le> of_int b \<Longrightarrow> a \<le> real_trunc r \<and> real_trunc r \<le> b"
  unfolding real_trunc_def by (auto simp: le_floor_iff ceiling_le_iff) linarith+

lemma conv_get_float_small:
  assumes t: "is_float ext" "small_integer mem" and x: "is_number (float_decode ext xx)"
  shows "conv_get ub ext mem xx = (if of_int (type_min mem) \<le> float_real (float_decode ext xx) \<and> float_real (float_decode ext xx) \<le> of_int (type_max mem)
    then (NC_NOERR, Some (real_trunc (float_real (float_decode ext xx)))) else (NC_ERANGE, None))"
proof -
  let ?r = "float_real (float_decode ext xx)"
  have n: "ext \<noteq> mem" "\<not> is_float mem" "mem \<notin> {NC_INT64, NC_UINT64}" "mem \<noteq> NC_INT64"
    using t by (auto simp: is_float_def small_integer_def)
  have "float_to_int ub mem (float_decode ext xx) = real_trunc ?r" if "of_int (type_min mem) \<le> ?r" "?r \<le> of_int (type_max mem)"
    using real_trunc_in [OF that] by (simp add: float_to_int_def float_trunc_real [OF x] in_type_def)
  then show ?thesis
    using n t(1) unfolding conv_get_def Let_def as_double_max [OF t(2)] float_cmp_real [OF x] by auto
qed

text \<open>
  Reading finite floating-point values into integers of up to 32 bits: \<open>ncx_getn\<close> returns the truncation towards zero of every value
  that lies between the bounds of the memory type, whose cast C therefore defines, stores nothing for the others, and reports \<open>NC_ERANGE\<close>
  exactly if there is one of them.
\<close>

theorem ncx_getn_float_integers:
  assumes t: "is_float ext" "small_integer mem" and x: "\<forall>xx \<in> set (ext_values ext n xp). is_number (float_decode ext xx)"
  shows "ncx_getn ub ext mem n xp =
    (if \<forall>xx \<in> set (ext_values ext n xp). of_int (type_min mem) \<le> float_real (float_decode ext xx) \<and> float_real (float_decode ext xx) \<le> of_int (type_max mem)
     then NC_NOERR else NC_ERANGE,
     map (\<lambda>xx. let r = float_real (float_decode ext xx) in
       if of_int (type_min mem) \<le> r \<and> r \<le> of_int (type_max mem) then Some (real_trunc r) else None) (ext_values ext n xp))"
proof -
  note c = conv_get_float_small [OF t, of _ ub]
  have "(\<forall>st \<in> set (map (fst \<circ> conv_get ub ext mem) (ext_values ext n xp)). st = NC_NOERR) \<longleftrightarrow>
      (\<forall>xx \<in> set (ext_values ext n xp). of_int (type_min mem) \<le> float_real (float_decode ext xx) \<and> float_real (float_decode ext xx) \<le> of_int (type_max mem))"
    unfolding set_map ball_simps comp_def using x by (intro ball_cong refl) (simp add: c)
  moreover have "map (snd \<circ> conv_get ub ext mem) (ext_values ext n xp) = map (\<lambda>xx. let r = float_real (float_decode ext xx) in
       if of_int (type_min mem) \<le> r \<and> r \<le> of_int (type_max mem) then Some (real_trunc r) else None) (ext_values ext n xp)"
    using x by (intro map_cong refl) (simp add: c Let_def)
  ultimately show ?thesis unfolding ncx_getn_values getn_values_def range_status_def by simp
qed

text \<open>The doubles -2.75 and 300 as signed bytes.\<close>

lemma ncx_getn_float_integers_witness:
  "ncx_getn (\<lambda>t x. 0) NC_DOUBLE NC_BYTE 2 (be 8 0xC006000000000000 @ be 8 0x4072C00000000000) = (NC_ERANGE, [Some (-2), None])"
proof -
  let ?xp = "be 8 0xC006000000000000 @ be 8 0x4072C00000000000"
  have v: "ext_values NC_DOUBLE 2 ?xp = [0xC006000000000000, 0x4072C00000000000]" by code_simp
  have d: "float_decode NC_DOUBLE 0xC006000000000000 = FNum True 6192449487634432 (-51)" "float_decode NC_DOUBLE 0x4072C00000000000 = FNum False 5277655813324800 (-44)"
    by code_simp+
  have r: "float_real (FNum True 6192449487634432 (-51)) = - 2.75" "float_real (FNum False 5277655813324800 (-44)) = 300"
    by (simp_all add: float_real_def)
  show ?thesis
    using ncx_getn_float_integers [of NC_DOUBLE NC_BYTE 2 ?xp "\<lambda>t x. 0"]
    by (simp add: v d r is_float_def small_integer_def is_number_def type_min_def type_max_def is_signed_def type_bytes_def real_trunc_def Let_def)
qed

end
