(* ===== verification/NC_Posixio.thy ===== *)
theory NC_Posixio
  imports NC3_Codec
begin

text \<open>
  \<open>libsrc/posixio.c\<close>, the ncio drivers for files on disk: below, an open file as the system calls \<open>lseek\<close>, \<open>read\<close> and \<open>write\<close> show it, and
  the two routines \<open>px_pgout\<close> and \<open>px_pgin\<close> that move a block of bytes; then the driver without a buffer that is used with \<open>NC_SHARE\<close>.
  The other driver, with its buffer, is in \<open>NC_Pxbuf\<close>. \<open>X_ALIGN\<close> is undefined, as \<open>posixio.c\<close> has it.
\<close>

abbreviation (input) "EINTR \<equiv> (4::int)"
abbreviation (input) "ENOMEM \<equiv> (12::int)"
abbreviation (input) "RGN_NOLOCK \<equiv> (1::int)"

subsection \<open>An open file\<close>

text \<open>
  What the next \<open>read\<close> or \<open>write\<close> does: move all bytes it can, at most so many, or fail with an error and move none. The script of a file
  says so for the calls to come; behind its end all calls move all they can.
\<close>

datatype outcome = Full | Part nat | Fail int

record disk =
  d_bytes :: string
  d_pos :: int
  d_errno :: int
  d_script :: "outcome list"

text \<open>Bytes stored at a position; what lies between the old end of the file and them reads as NULs.\<close>

definition overlay :: "string \<Rightarrow> nat \<Rightarrow> string \<Rightarrow> string" where
  "overlay f p buf = (if buf = [] then f else take p f @ replicate (p - length f) NULB @ buf @ drop (p + length buf) f)"

definition next_outcome :: "disk \<Rightarrow> outcome \<times> disk" where
  "next_outcome d = (case d_script d of [] \<Rightarrow> (Full, d) | x # xs \<Rightarrow> (x, d\<lparr>d_script := xs\<rparr>))"

definition store_at :: "disk \<Rightarrow> string \<Rightarrow> disk" where
  "store_at d buf = d\<lparr>d_bytes := overlay (d_bytes d) (nat (d_pos d)) buf, d_pos := d_pos d + int (length buf)\<rparr>"

definition sys_write :: "disk \<Rightarrow> string \<Rightarrow> int \<times> disk" where
  "sys_write d buf = (let (x, d1) = next_outcome d in case x of
       Full \<Rightarrow> (int (length buf), store_at d1 buf)
     | Part k \<Rightarrow> (int (length (take k buf)), store_at d1 (take k buf))
     | Fail e \<Rightarrow> (-1, d1\<lparr>d_errno := e\<rparr>))"

definition sys_read :: "disk \<Rightarrow> nat \<Rightarrow> int \<times> string \<times> disk" where
  "sys_read d n = (let (x, d1) = next_outcome d; got = (\<lambda>k. let bs = take k (drop (nat (d_pos d)) (d_bytes d)) in
        (int (length bs), bs, d1\<lparr>d_pos := d_pos d + int (length bs)\<rparr>)) in case x of
       Full \<Rightarrow> got n
     | Part k \<Rightarrow> got (min k n)
     | Fail e \<Rightarrow> (-1, [], d1\<lparr>d_errno := e\<rparr>))"

text \<open>\<open>lseek (fd, off, SEEK_SET)\<close>: the new position, or -1.\<close>

definition sys_lseek :: "disk \<Rightarrow> int \<Rightarrow> int \<times> disk" where
  "sys_lseek d off = (if off < 0 then (-1, d\<lparr>d_errno := EINVAL\<rparr>) else (off, d\<lparr>d_pos := off\<rparr>))"

subsection \<open>Growing a file\<close>

text \<open>\<open>fgrow\<close> writes a \<open>long\<close> of zero so that it ends at the new length, also if the file is that long already; a short write passes.\<close>

definition fgrow :: "disk \<Rightarrow> int \<Rightarrow> int \<times> disk" where
  "fgrow d len = (if len < int (length (d_bytes d)) then (NC_NOERR, d)
     else let pos = d_pos d; (r1, d1) = sys_lseek d (s64 (len - 8)) in
       if r1 < 0 then (d_errno d1, d1)
       else let (r2, d2) = sys_write d1 (replicate 8 NULB) in
         if r2 < 0 then (d_errno d2, d2)
         else let (r3, d3) = sys_lseek d2 pos in if r3 < 0 then (d_errno d3, d3) else (NC_NOERR, d3))"

definition fgrow2 :: "disk \<Rightarrow> int \<Rightarrow> int \<times> disk" where
  "fgrow2 d len = (if len \<le> int (length (d_bytes d)) then (NC_NOERR, d)
     else let pos = d_pos d; (r1, d1) = sys_lseek d (s64 (len - 1)) in
       if r1 < 0 then (d_errno d1, d1)
       else let (r2, d2) = sys_write d1 [NULB] in
         if r2 < 0 then (d_errno d2, d2)
         else let (r3, d3) = sys_lseek d2 pos in if r3 < 0 then (d_errno d3, d3) else (NC_NOERR, d3))"

subsection \<open>Moving a block\<close>

text \<open>
  \<open>posp\<close> is what the driver takes for the position of the file, \<open>OFF_NONE\<close> if it does not know. Both routines seek only if that is not
  where they want to be.
\<close>

definition px_seek :: "disk \<Rightarrow> int \<Rightarrow> int \<Rightarrow> int \<times> int \<times> disk" where
  "px_seek d posp off = (if posp = off then (NC_NOERR, posp, d)
     else let (r, d1) = sys_lseek d off in if r \<noteq> off then (d_errno d1, posp, d1) else (NC_NOERR, off, d1))"

lemma sys_write_script:
  "sys_write d buf = (n, d1) \<Longrightarrow> n \<noteq> -1 \<Longrightarrow> n \<noteq> int (length buf) \<Longrightarrow> length (d_script d1) < length (d_script d)"
  by (auto simp: sys_write_def next_outcome_def store_at_def split: outcome.splits list.splits prod.splits)

text \<open>The loop of \<open>px_pgout\<close> around \<open>write\<close>: the status, 0 once all is written.\<close>

function pgout_loop :: "disk \<Rightarrow> string \<Rightarrow> int \<times> disk" where
  "pgout_loop d buf = (let r = sys_write d buf in
     if fst r = -1 then (d_errno (snd r), snd r)
     else if fst r = int (length buf) then (NC_NOERR, snd r)
     else pgout_loop (snd r) (drop (nat (fst r)) buf))"
  by pat_completeness auto
termination
  by (relation "measure (\<lambda>(d, buf). length (d_script d))") (auto intro: sys_write_script [OF prod.collapse [symmetric]])

declare pgout_loop.simps [simp del]

definition px_pgout :: "disk \<Rightarrow> int \<Rightarrow> int \<Rightarrow> string \<Rightarrow> (int \<times> int \<times> disk) run" where
  "px_pgout d posp off buf = assert_run (posp = OFF_NONE \<or> posp = d_pos d) (let (st, posp1, d1) = px_seek d posp off in
     if st \<noteq> NC_NOERR then Done (st, posp1, d1)
     else let (st2, d2) = pgout_loop d1 buf in
       if st2 \<noteq> NC_NOERR then Done (st2, posp1, d2) else Done (NC_NOERR, posp1 + int (length buf), d2))"

text \<open>The loop of \<open>px_pgin\<close> around \<open>read\<close>: tried again while a signal interrupts it.\<close>

lemma sys_read_script: "fst (sys_read d n) = -1 \<Longrightarrow> length (d_script (snd (snd (sys_read d n)))) < length (d_script d)"
  by (auto simp: sys_read_def next_outcome_def Let_def split: outcome.splits list.splits)

function pgin_loop :: "disk \<Rightarrow> nat \<Rightarrow> int \<times> string \<times> disk" where
  "pgin_loop d n = (let r = sys_read d n in
     if fst r = -1 \<and> d_errno (snd (snd r)) = EINTR then pgin_loop (snd (snd r)) n else r)"
  by pat_completeness auto
termination
  by (relation "measure (\<lambda>(d, n). length (d_script d))") (auto intro: sys_read_script)

declare pgin_loop.simps [simp del]

text \<open>
  The status, the contents of the block, of which \<open>nread\<close> bytes are from the file, the position and the file. On an error the block is as it was.
\<close>

definition px_pgin :: "disk \<Rightarrow> int \<Rightarrow> int \<Rightarrow> nat \<Rightarrow> int \<times> string \<times> nat \<times> int \<times> disk" where
  "px_pgin d posp off extent = (if posp \<noteq> OFF_NONE \<and> posp \<noteq> d_pos d \<and> d_errno d \<noteq> 0 then (d_errno d, [], 0, posp, d)
     else let (st, posp1, d1) = px_seek d posp off in
       if st \<noteq> NC_NOERR then (st, [], 0, posp1, d1)
       else let (nread, bs, d2) = pgin_loop (d1\<lparr>d_errno := 0\<rparr>) extent; status = d_errno d2 in
         if nread \<noteq> int extent \<and> (nread = -1 \<or> status \<noteq> EINTR \<and> status \<noteq> NC_NOERR) then (status, [], 0, posp1, d2)
         else (NC_NOERR, bs @ replicate (extent - length bs) NULB, length bs, posp1 + nread, d2))"

subsection \<open>What the two routines do\<close>

lemma overlay_Nil [simp]: "overlay f p [] = f"
  by (simp add: overlay_def)

lemma length_overlay: "length (overlay f p buf) = (if buf = [] then length f else max (length f) (p + length buf))"
  by (auto simp: overlay_def)

lemma overlay_blit: "p + length buf \<le> length f \<Longrightarrow> overlay f p buf = blit f p buf"
  by (simp add: overlay_def blit_def)

lemma overlay_overlay: "overlay (overlay f p xs) (p + length xs) ys = overlay f p (xs @ ys)"
  by (auto simp: overlay_def min_def ac_simps)

text \<open>A failed call has an error number.\<close>

definition script_ok :: "disk \<Rightarrow> bool" where
  "script_ok d \<longleftrightarrow> (\<forall>e. Fail e \<in> set (d_script d) \<longrightarrow> 0 < e)"

lemma sys_write_cases:
  assumes "script_ok d" "d_pos d = int p"
  obtains (fail) "fst (sys_write d buf) = -1" "d_bytes (snd (sys_write d buf)) = d_bytes d" "d_pos (snd (sys_write d buf)) = int p"
      "0 < d_errno (snd (sys_write d buf))"
  | (moved) k where "k \<le> length buf" "fst (sys_write d buf) = int k" "d_bytes (snd (sys_write d buf)) = overlay (d_bytes d) p (take k buf)"
      "d_pos (snd (sys_write d buf)) = int (p + k)" "script_ok (snd (sys_write d buf))"
proof (cases "fst (next_outcome d)")
  case (Fail e)
  then have "0 < e" using assms(1) by (auto simp: next_outcome_def script_ok_def split: list.splits)
  with Fail assms(2) show ?thesis by (intro fail) (auto simp: sys_write_def next_outcome_def split: list.splits prod.splits)
next
  case Full
  then show ?thesis using assms
    by (intro moved [of "length buf"]) (auto simp: sys_write_def next_outcome_def store_at_def script_ok_def split: list.splits prod.splits)
next
  case (Part k)
  then show ?thesis using assms
    by (intro moved [of "min k (length buf)"]) (auto simp: sys_write_def next_outcome_def store_at_def script_ok_def min_def split: list.splits prod.splits)
qed

lemma pgout_loop_result:
  assumes "script_ok d" "d_pos d = int p" "pgout_loop d buf = (st, d')"
  shows "\<exists>k \<le> length buf. d_bytes d' = overlay (d_bytes d) p (take k buf) \<and> d_pos d' = int (p + k) \<and>
    (if st = NC_NOERR then k = length buf \<and> script_ok d' else 0 < st \<and> st = d_errno d')"
  using assms
proof (induction d buf arbitrary: p rule: pgout_loop.induct)
  case (1 d buf)
  note eq = "1.prems"(3) [unfolded pgout_loop.simps [of d buf] Let_def]
  from "1.prems"(1,2) show ?case
  proof (cases rule: sys_write_cases [where d = d and p = p and buf = buf])
    case fail
    then show ?thesis using eq by (intro exI [of _ 0]) auto
  next
    case (moved k)
    show ?thesis
    proof (cases "k = length buf")
      case True
      then show ?thesis using eq moved by (intro exI [of _ k]) auto
    next
      case False
      then have rec: "pgout_loop (snd (sys_write d buf)) (drop k buf) = (st, d')" using eq moved by simp
      have "\<exists>j \<le> length (drop k buf). d_bytes d' = overlay (d_bytes (snd (sys_write d buf))) (p + k) (take j (drop k buf)) \<and>
          d_pos d' = int (p + k + j) \<and> (if st = NC_NOERR then j = length (drop k buf) \<and> script_ok d' else 0 < st \<and> st = d_errno d')"
        by (rule "1.IH" [OF refl, unfolded moved(2) nat_int]) (use moved False rec in simp_all)
      then obtain j where j: "j \<le> length buf - k" "d_bytes d' = overlay (overlay (d_bytes d) p (take k buf)) (p + k) (take j (drop k buf))"
          "d_pos d' = int (p + k + j)" "if st = NC_NOERR then j = length buf - k \<and> script_ok d' else 0 < st \<and> st = d_errno d'"
        using moved(3) by auto
      have "overlay (overlay (d_bytes d) p (take k buf)) (p + length (take k buf)) (take j (drop k buf)) = overlay (d_bytes d) p (take (k + j) buf)"
        unfolding overlay_overlay by (simp add: take_add)
      then show ?thesis using j moved(1) by (intro exI [of _ "k + j"]) (auto simp: min_def split: if_splits)
    qed
  qed
qed

lemma px_seek_ok: "0 \<le> off \<Longrightarrow> posp = OFF_NONE \<or> posp = d_pos d \<Longrightarrow>
    px_seek d posp off = (NC_NOERR, off, d\<lparr>d_pos := off\<rparr>)"
  by (auto simp: px_seek_def sys_lseek_def)

text \<open>
  Whatever the calls of \<open>write\<close> do, \<open>px_pgout\<close> returns. Either all bytes are in the file and the position is known, or a first part of them is,
  and an error is returned: the driver then takes the start of the block for the position, and if the part was not empty, the next \<open>px_pgout\<close> fails its
  assertion.
\<close>

theorem px_pgout_result:
  assumes "script_ok d" "0 \<le> off" "posp = OFF_NONE \<or> posp = d_pos d"
  shows "\<exists>st posp' d' k. px_pgout d posp off buf = Done (st, posp', d') \<and> k \<le> length buf \<and>
    d_bytes d' = overlay (d_bytes d) (nat off) (take k buf) \<and>
    (if st = NC_NOERR then k = length buf \<and> posp' = off + int k \<and> d_pos d' = posp'
     else posp' = off \<and> d_pos d' = off + int k \<and> (0 < k \<longrightarrow> (\<forall>off' buf'. px_pgout d' posp' off' buf' = Fault)))"
proof -
  obtain st d' where l: "pgout_loop (d\<lparr>d_pos := off\<rparr>) buf = (st, d')" by fastforce
  have "script_ok (d\<lparr>d_pos := off\<rparr>)" "d_pos (d\<lparr>d_pos := off\<rparr>) = int (nat off)" using assms(1,2) by (simp_all add: script_ok_def)
  from pgout_loop_result [OF this l] obtain k where k: "k \<le> length buf" "d_bytes d' = overlay (d_bytes d) (nat off) (take k buf)"
      "d_pos d' = int (nat off + k)" "if st = NC_NOERR then k = length buf \<and> script_ok d' else 0 < st \<and> st = d_errno d'" by auto
  have "px_pgout d posp off buf = Done (if st = NC_NOERR then (NC_NOERR, off + int (length buf), d') else (st, off, d'))"
    using assms(3) l by (simp add: px_pgout_def px_seek_ok [OF assms(2,3)])
  then show ?thesis using k assms(2)
    by (cases "st = NC_NOERR") (auto simp: px_pgout_def intro!: exI [of _ k])
qed

definition sample_disk :: disk where
  "sample_disk = \<lparr>d_bytes = ''abcdef'', d_pos = 0, d_errno = 0, d_script = [Part 2, Fail 28]\<rparr>"

lemma sample_disk_ok: "script_ok sample_disk" "d_pos sample_disk = 0"
  by (auto simp: script_ok_def sample_disk_def)

lemma sample_disk_pgout: "px_pgout sample_disk 0 4 ''uvwx'' = Done (28, 4, \<lparr>d_bytes = ''abcduv'', d_pos = 6, d_errno = 28, d_script = []\<rparr>)"
  by (simp add: px_pgout_def sample_disk_def px_seek_def sys_lseek_def pgout_loop.simps sys_write_def next_outcome_def store_at_def overlay_def)

theorem px_pgout_result_witness:
  "\<exists>d'. px_pgout sample_disk 0 4 ''uvwx'' = Done (28, 4, d') \<and> d_bytes d' = ''abcduv'' \<and> px_pgout d' 4 0 ''xy'' = Fault"
proof -
  from px_pgout_result [OF sample_disk_ok(1), of 4 0 "''uvwx''"] sample_disk_ok(2) sample_disk_pgout
  obtain k where "d_pos \<lparr>d_bytes = ''abcduv'', d_pos = 6, d_errno = 28, d_script = []\<rparr> = 4 + int k"
      "0 < k \<longrightarrow> (\<forall>off' buf'. px_pgout \<lparr>d_bytes = ''abcduv'', d_pos = 6, d_errno = 28, d_script = []\<rparr> 4 off' buf' = Fault)"
    by auto
  with sample_disk_pgout show ?thesis by simp
qed

lemma px_pgout_ok:
  assumes "d_script d = []" "0 \<le> off" "posp = OFF_NONE \<or> posp = d_pos d"
  shows "px_pgout d posp off buf = Done (NC_NOERR, off + int (length buf),
    d\<lparr>d_bytes := overlay (d_bytes d) (nat off) buf, d_pos := off + int (length buf)\<rparr>)"
  using assms by (simp add: px_pgout_def px_seek_ok pgout_loop.simps sys_write_def next_outcome_def store_at_def)

lemma px_pgin_ok:
  assumes "d_script d = []" "0 \<le> off" "posp = OFF_NONE \<or> posp = d_pos d"
  shows "px_pgin d posp off n = (let bs = take n (drop (nat off) (d_bytes d)) in
    (NC_NOERR, bs @ replicate (n - length bs) NULB, length bs, off + int (length bs), d\<lparr>d_pos := off + int (length bs), d_errno := 0\<rparr>))"
  using assms by (auto simp: px_pgin_def px_seek_ok pgin_loop.simps sys_read_def next_outcome_def Let_def)

text \<open>A read that stops short inside the file: the bytes behind it, which the file has, come out as NULs, with no error.\<close>

lemma px_pgin_short_read:
  "px_pgin (sample_disk\<lparr>d_script := [Part 2]\<rparr>) 0 0 4 = (NC_NOERR, [CHR ''a'', CHR ''b'', NULB, NULB], 2, 2, sample_disk\<lparr>d_pos := 2, d_script := []\<rparr>)"
  by (simp add: px_pgin_def sample_disk_def px_seek_def pgin_loop.simps sys_read_def next_outcome_def Let_def numeral_2_eq_2)

text \<open>\<open>fgrow\<close> of a file that has the length asked for already overwrites its last eight bytes; below eight bytes it fails.\<close>

lemma fgrow_same_length:
  assumes "d_script d = []" "len = int (length (d_bytes d))" "8 \<le> len" "len \<le> X_INT64_MAX" "0 \<le> d_pos d"
  shows "fgrow d len = (NC_NOERR, d\<lparr>d_bytes := blit (d_bytes d) (length (d_bytes d) - 8) (replicate 8 NULB)\<rparr>)"
  using assms by (auto simp: fgrow_def sys_lseek_def sys_write_def next_outcome_def store_at_def s64_id overlay_blit nat_diff_distrib)

lemma fgrow_small: "d_bytes d = [] \<Longrightarrow> 0 \<le> len \<Longrightarrow> len < 8 \<Longrightarrow> fst (fgrow d len) = EINVAL"
  by (simp add: fgrow_def sys_lseek_def s64_id)

lemma fgrow_new:
  assumes "d_script d = []" "d_bytes d = []" "8 \<le> len" "len \<le> X_INT64_MAX" "0 \<le> d_pos d"
  shows "fgrow d len = (NC_NOERR, d\<lparr>d_bytes := replicate (nat len) NULB\<rparr>)"
proof -
  have "replicate (nat (len - 8)) NULB @ replicate 8 NULB = replicate (nat len) NULB"
    using assms(3) by (simp only: replicate_add [symmetric]) (simp add: nat_diff_distrib)
  then show ?thesis using assms by (simp add: fgrow_def sys_lseek_def sys_write_def next_outcome_def store_at_def s64_id overlay_def)
qed

lemma fgrow2_result:
  assumes "d_script d = []" "len \<le> X_INT64_MAX" "0 \<le> d_pos d"
  shows "fgrow2 d len = (NC_NOERR, d\<lparr>d_bytes := d_bytes d @ replicate (nat len - length (d_bytes d)) NULB\<rparr>)"
proof (cases "len \<le> int (length (d_bytes d))")
  case True
  then show ?thesis by (simp add: fgrow2_def)
next
  case False
  then have "overlay (d_bytes d) (nat (len - 1)) [NULB] = d_bytes d @ replicate (nat len - length (d_bytes d)) NULB"
    by (cases "nat len - length (d_bytes d)") (simp_all add: overlay_def replicate_append_same nat_diff_distrib)
  then show ?thesis using False assms by (simp add: fgrow2_def sys_lseek_def sys_write_def next_outcome_def store_at_def s64_id)
qed

subsection \<open>The driver without a buffer\<close>

text \<open>
  \<open>ncio_spx\<close>, with the flags and the file of its \<open>ncio\<close>. A block that \<open>malloc\<close> gives out has the size asked for and any contents; \<open>malloc\<close>
  is an argument. The region that \<open>get\<close> hands out is a copy of the bytes at \<open>bf_base\<close>; \<open>rel\<close> puts the client's bytes there first: in C both are
  the same memory.
\<close>

record NCSPX =
  spx_ioflags :: int
  spx_pos :: int
  spx_bf_offset :: int
  spx_bf_extent :: nat
  spx_bf_cnt :: nat
  spx_bf_base :: "string option"
  spx_disk :: disk

definition malloc_block :: "(nat \<Rightarrow> string option) \<Rightarrow> nat \<Rightarrow> string option" where
  "malloc_block malloc n = (case malloc n of None \<Rightarrow> None | Some m \<Rightarrow> Some (take n (m @ replicate n NULB)))"

definition mem_read :: "string option \<Rightarrow> nat \<Rightarrow> nat \<Rightarrow> string run" where
  "mem_read base i n = (case base of None \<Rightarrow> Fault | Some b \<Rightarrow> if i + n \<le> length b then Done (take n (drop i b)) else Fault)"

definition mem_write :: "string option \<Rightarrow> nat \<Rightarrow> string \<Rightarrow> string option run" where
  "mem_write base i buf = (case base of None \<Rightarrow> Fault | Some b \<Rightarrow> if i + length buf \<le> length b then Done (Some (blit b i buf)) else Fault)"

definition ncio_spx_new :: "int \<Rightarrow> disk \<Rightarrow> NCSPX" where
  "ncio_spx_new flg d = \<lparr>spx_ioflags = flg, spx_pos = -1, spx_bf_offset = OFF_NONE, spx_bf_extent = 0, spx_bf_cnt = 0, spx_bf_base = None, spx_disk = d\<rparr>"

definition ncio_spx_init2 :: "(nat \<Rightarrow> string option) \<Rightarrow> NCSPX \<Rightarrow> nat \<Rightarrow> (int \<times> NCSPX) run" where
  "ncio_spx_init2 malloc s sizehint = assert_run (spx_bf_base s = None) (case malloc_block malloc sizehint of
       None \<Rightarrow> Done (ENOMEM, s\<lparr>spx_bf_extent := 0\<rparr>)
     | Some m \<Rightarrow> Done (NC_NOERR, s\<lparr>spx_bf_extent := sizehint, spx_bf_base := Some m\<rparr>))"

definition spx_reserve :: "(nat \<Rightarrow> string option) \<Rightarrow> NCSPX \<Rightarrow> nat \<Rightarrow> (int \<times> NCSPX) run" where
  "spx_reserve malloc s extent = (if \<not> spx_bf_extent s < extent then Done (NC_NOERR, s)
     else let s1 = (if spx_bf_base s \<noteq> None then s\<lparr>spx_bf_base := None, spx_bf_extent := 0\<rparr> else s) in
       assert_run (spx_bf_extent s1 = 0) (case malloc_block malloc (extent + 1) of
         None \<Rightarrow> Done (ENOMEM, s1)
       | Some m \<Rightarrow> Done (NC_NOERR, s1\<lparr>spx_bf_base := Some m, spx_bf_extent := extent\<rparr>)))"

definition ncio_spx_get :: "(nat \<Rightarrow> string option) \<Rightarrow> NCSPX \<Rightarrow> int \<Rightarrow> nat \<Rightarrow> int \<Rightarrow> (int \<times> string \<times> NCSPX) run" where
  "ncio_spx_get malloc s off extent rflags = (if fIsSet rflags RGN_WRITE \<and> \<not> fIsSet (spx_ioflags s) NC_WRITE then Done (EPERM, [], s)
     else assert_run (extent \<noteq> 0 \<and> int extent < X_INT_MAX \<and> spx_bf_cnt s = 0) (run_bind (spx_reserve malloc s extent) (\<lambda>(st, s1).
       if st \<noteq> NC_NOERR then Done (st, [], s1)
       else let (st2, block, nread, posp, d) = px_pgin (spx_disk s1) (spx_pos s1) off extent; s2 = s1\<lparr>spx_pos := posp, spx_disk := d\<rparr> in
         if st2 \<noteq> NC_NOERR then Done (st2, [], s2)
         else run_bind (mem_write (spx_bf_base s2) 0 block) (\<lambda>base.
           let s3 = s2\<lparr>spx_bf_base := base, spx_bf_offset := off, spx_bf_cnt := max nread extent\<rparr> in
           run_bind (mem_read base 0 extent) (\<lambda>buf. Done (NC_NOERR, buf, s3))))))"

definition ncio_spx_rel :: "NCSPX \<Rightarrow> int \<Rightarrow> string \<Rightarrow> int \<Rightarrow> (int \<times> NCSPX) run" where
  "ncio_spx_rel s off buf rflags = assert_run (spx_bf_offset s \<le> off \<and> spx_bf_cnt s \<noteq> 0 \<and> spx_bf_cnt s \<le> spx_bf_extent s)
     (run_bind (mem_write (spx_bf_base s) (nat (off - spx_bf_offset s)) buf) (\<lambda>base. let s1 = s\<lparr>spx_bf_base := base\<rparr> in
       if fIsSet rflags RGN_MODIFIED then
         if \<not> fIsSet (spx_ioflags s1) NC_WRITE then Done (EPERM, s1)
         else run_bind (mem_read base 0 (spx_bf_cnt s1)) (\<lambda>block.
           run_bind (px_pgout (spx_disk s1) (spx_pos s1) (spx_bf_offset s1) block) (\<lambda>(st, posp, d).
             Done (st, s1\<lparr>spx_pos := posp, spx_disk := d, spx_bf_offset := OFF_NONE, spx_bf_cnt := 0\<rparr>)))
       else Done (NC_NOERR, s1\<lparr>spx_bf_offset := OFF_NONE, spx_bf_cnt := 0\<rparr>)))"

text \<open>\<open>memmove\<close> inside a region of \<open>diff + nbytes\<close> bytes, up or down by \<open>diff\<close>.\<close>

definition move_in :: "bool \<Rightarrow> nat \<Rightarrow> nat \<Rightarrow> string \<Rightarrow> string" where
  "move_in up diff nbytes buf = (if up then blit buf diff (take nbytes buf) else blit buf 0 (take nbytes (drop diff buf)))"

definition ncio_spx_move :: "(nat \<Rightarrow> string option) \<Rightarrow> NCSPX \<Rightarrow> int \<Rightarrow> int \<Rightarrow> nat \<Rightarrow> int \<Rightarrow> (int \<times> NCSPX) run" where
  "ncio_spx_move malloc s to from_off nbytes rflags0 = (let rflags = and rflags0 RGN_NOLOCK in
     if to = from_off then Done (NC_NOERR, s)
     else let lower = (if from_off < to then from_off else to); upper = (if from_off < to then to else from_off);
         diff = nat (u64 (upper - lower)); extent = nat (u64 (int (diff + nbytes))) in
       run_bind (ncio_spx_get malloc s lower extent (or RGN_WRITE rflags)) (\<lambda>(st, buf, s1).
         if st \<noteq> NC_NOERR then Done (st, s1)
         else run_bind (ncio_spx_rel s1 lower (move_in (from_off < to) diff nbytes buf) RGN_MODIFIED) (\<lambda>(_, s2). Done (NC_NOERR, s2))))"

definition ncio_spx_sync :: "NCSPX \<Rightarrow> (int \<times> NCSPX) run" where
  "ncio_spx_sync s = Done (NC_NOERR, s)"

definition ncio_spx_filesize :: "NCSPX \<Rightarrow> int \<times> int" where
  "ncio_spx_filesize s = (NC_NOERR, int (length (d_bytes (spx_disk s))))"

definition ncio_spx_pad_length :: "NCSPX \<Rightarrow> int \<Rightarrow> (int \<times> NCSPX) run" where
  "ncio_spx_pad_length s len = (if \<not> fIsSet (spx_ioflags s) NC_WRITE then Done (EPERM, s)
     else run_bind (ncio_spx_sync s) (\<lambda>(st, s1). if st \<noteq> NC_NOERR then Done (st, s1)
       else let (st2, d) = fgrow2 (spx_disk s1) len in Done (st2, s1\<lparr>spx_disk := d\<rparr>)))"

definition spx_io :: "(nat \<Rightarrow> string option) \<Rightarrow> NCSPX ncio" where
  "spx_io malloc = \<lparr>io_get = ncio_spx_get malloc, io_rel = ncio_spx_rel, io_move = ncio_spx_move malloc, io_sync = ncio_spx_sync,
     io_filesize = ncio_spx_filesize, io_pad_length = ncio_spx_pad_length\<rparr>"

subsection \<open>The driver keeps the contract\<close>

text \<open>The file does all it is asked for, the driver knows the position or does not claim to, and memory is available.\<close>

definition disk_ready :: "disk \<Rightarrow> int \<Rightarrow> bool" where
  "disk_ready d posp \<longleftrightarrow> d_script d = [] \<and> (posp = OFF_NONE \<or> posp = d_pos d)"

definition spx_sane :: "(nat \<Rightarrow> string option) \<Rightarrow> NCSPX \<Rightarrow> bool" where
  "spx_sane malloc s \<longleftrightarrow> fIsSet (spx_ioflags s) NC_WRITE \<and> disk_ready (spx_disk s) (spx_pos s) \<and> (\<forall>n. malloc n \<noteq> None) \<and>
     (case spx_bf_base s of None \<Rightarrow> spx_bf_extent s = 0 | Some b \<Rightarrow> spx_bf_extent s \<le> length b)"

definition spx_bytes :: "NCSPX \<Rightarrow> string" where
  "spx_bytes s = d_bytes (spx_disk s)"

definition spx_out :: "(nat \<Rightarrow> string option) \<Rightarrow> NCSPX \<Rightarrow> int \<Rightarrow> nat \<Rightarrow> bool" where
  "spx_out malloc s off n \<longleftrightarrow> spx_sane malloc s \<and> 0 \<le> off \<and> 0 < n \<and> spx_bf_offset s = off \<and> spx_bf_cnt s = n \<and> n \<le> spx_bf_extent s"

lemma length_malloc_block: "malloc_block malloc n = Some m \<Longrightarrow> length m = n"
  by (auto simp: malloc_block_def split: option.splits)

lemma spx_reserve_ok:
  assumes "spx_sane malloc s"
  shows "\<exists>b e. spx_reserve malloc s n = Done (NC_NOERR, s\<lparr>spx_bf_base := b, spx_bf_extent := e\<rparr>) \<and> n \<le> e \<and>
    (case b of None \<Rightarrow> e = 0 | Some b \<Rightarrow> e \<le> length b)"
proof (cases "spx_bf_extent s < n")
  case False
  then show ?thesis using assms by (intro exI [of _ "spx_bf_base s"] exI [of _ "spx_bf_extent s"]) (simp add: spx_reserve_def spx_sane_def)
next
  case True
  have "malloc (n + 1) \<noteq> None" using assms by (simp add: spx_sane_def)
  then obtain m where m: "malloc_block malloc (n + 1) = Some m" by (auto simp: malloc_block_def)
  show ?thesis using True assms m length_malloc_block [OF m]
    by (intro exI [of _ "Some m"] exI [of _ n]) (auto simp: spx_reserve_def Let_def spx_sane_def split: option.splits)
qed

text \<open>A region may lie behind the end of the file; what the file does not have reads as NULs.\<close>

lemma spx_get_ok:
  assumes s: "spx_sane malloc s" "spx_bf_cnt s = 0" and n: "0 \<le> off" "0 < n" "int n < X_INT_MAX"
  shows "\<exists>s'. ncio_spx_get malloc s off n flg = Done (NC_NOERR, take n (drop (nat off) (spx_bytes s)) @ replicate (n - (length (spx_bytes s) - nat off)) NULB, s') \<and>
    spx_out malloc s' off n \<and> spx_bytes s' = spx_bytes s"
proof -
  obtain b e where r: "spx_reserve malloc s n = Done (NC_NOERR, s\<lparr>spx_bf_base := b, spx_bf_extent := e\<rparr>)" "n \<le> e"
      "case b of None \<Rightarrow> e = 0 | Some b \<Rightarrow> e \<le> length b" using spx_reserve_ok [OF s(1)] by blast
  then obtain m where m: "b = Some m" "e \<le> length m" using n(2) by (cases b) auto
  let ?bs = "take n (drop (nat off) (spx_bytes s))"
  let ?block = "?bs @ replicate (n - length ?bs) NULB"
  have d: "d_script (spx_disk s) = []" "spx_pos s = OFF_NONE \<or> spx_pos s = d_pos (spx_disk s)" using s(1) by (auto simp: spx_sane_def disk_ready_def)
  have len: "length ?block = n" by simp
  have w: "mem_write (Some m) 0 ?block = Done (Some (blit m 0 ?block))" using len m(2) r(2) by (simp add: mem_write_def del: length_append)
  have rd: "mem_read (Some (blit m 0 ?block)) 0 n = Done ?block"
    using len m(2) r(2) by (simp add: mem_read_def del: length_append) (simp add: blit_def)
  have z: "n - length ?bs = n - (length (spx_bytes s) - nat off)" by simp
  have mx: "max (length ?bs) n = n" by simp
  have lb: "length (blit m 0 ?block) = length m" using len m(2) r(2) by (simp del: length_append)
  note pg = px_pgin_ok [OF d(1) n(1) d(2), of n, folded spx_bytes_def, unfolded Let_def]
  show ?thesis
    using n s w rd lb r(1,2) m unfolding z [symmetric]
    by (simp add: ncio_spx_get_def pg mx del: length_take length_drop)
      (auto simp: spx_out_def spx_sane_def disk_ready_def spx_bytes_def simp del: length_take length_drop length_append)
qed

lemma spx_rel_ok:
  assumes s: "spx_out malloc s off (length buf)"
  shows "\<exists>s'. ncio_spx_rel s off buf rflags = Done (NC_NOERR, s') \<and> spx_sane malloc s' \<and> spx_bf_cnt s' = 0 \<and>
    spx_bytes s' = (if fIsSet rflags RGN_MODIFIED then overlay (spx_bytes s) (nat off) buf else spx_bytes s)"
proof -
  obtain m where m: "spx_bf_base s = Some m" "length buf \<le> length m" using s by (auto simp: spx_out_def spx_sane_def split: option.splits)
  have w: "mem_write (Some m) 0 buf = Done (Some (blit m 0 buf))" "mem_read (Some (blit m 0 buf)) 0 (length buf) = Done buf"
    using m(2) by (auto simp: mem_write_def mem_read_def blit_def)
  have d: "d_script (spx_disk s) = []" "0 \<le> off" "spx_pos s = OFF_NONE \<or> spx_pos s = d_pos (spx_disk s)"
    using s by (auto simp: spx_out_def spx_sane_def disk_ready_def)
  show ?thesis using s m w
    by (auto simp: ncio_spx_rel_def Let_def spx_out_def spx_sane_def disk_ready_def spx_bytes_def px_pgout_ok [OF d])
qed

lemma move_in_blit:
  fixes f :: string
  assumes "low + diff + n \<le> length f"
  shows "blit f low (move_in up diff n (take (diff + n) (drop low f))) =
    (if up then blit f (low + diff) (take n (drop low f)) else blit f low (take n (drop (low + diff) f)))"
proof (cases up)
  case True
  have "blit f low (blit (take (diff + n) (drop low f)) diff (take n (drop low f))) = blit f (low + diff) (take n (drop low f))"
    using assms by (simp add: blit_nested blit_same)
  then show ?thesis using True by (simp add: move_in_def)
next
  case False
  have "take n (drop diff (take (diff + n) (drop low f))) = take n (drop (low + diff) f)" by (simp add: drop_take add.commute)
  then have "blit f low (blit (take (diff + n) (drop low f)) 0 (take n (drop diff (take (diff + n) (drop low f))))) = blit f (low + 0) (take n (drop (low + diff) f))"
    using assms by (subst blit_nested) (simp_all add: blit_same)
  then show ?thesis using False by (simp add: move_in_def)
qed

lemma spx_move_ok:
  assumes s: "spx_sane malloc s" "spx_bf_cnt s = 0" "int (length (spx_bytes s)) < X_INT_MAX"
    and r: "0 \<le> to" "0 \<le> from_off" "nat to + n \<le> length (spx_bytes s)" "nat from_off + n \<le> length (spx_bytes s)"
  shows "\<exists>s'. ncio_spx_move malloc s to from_off n flg = Done (NC_NOERR, s') \<and> spx_sane malloc s' \<and> spx_bf_cnt s' = 0 \<and>
    spx_bytes s' = blit (spx_bytes s) (nat to) (take n (drop (nat from_off) (spx_bytes s)))"
proof (cases "to = from_off")
  case True
  then show ?thesis using s r by (simp add: ncio_spx_move_def blit_same)
next
  case False
  define up where "up \<longleftrightarrow> from_off < to"
  define lower where "lower = (if up then from_off else to)"
  define diff where "diff = nat ((if up then to else from_off) - lower)"
  have a: "0 \<le> lower" "0 < diff" "nat lower + diff + n \<le> length (spx_bytes s)" "int (diff + n) < X_INT_MAX"
      "nat (u64 ((if up then to else from_off) - lower)) = diff" "nat (u64 (int (diff + n))) = diff + n"
    using False r s(3) by (auto simp: lower_def diff_def up_def u64_id)
  obtain s1 where g: "ncio_spx_get malloc s lower (diff + n) (or RGN_WRITE (and flg RGN_NOLOCK)) = Done (NC_NOERR, take (diff + n) (drop (nat lower) (spx_bytes s)), s1)"
      "spx_out malloc s1 lower (diff + n)" "spx_bytes s1 = spx_bytes s"
    using spx_get_ok [OF s(1,2) a(1), of "diff + n" "or RGN_WRITE (and flg RGN_NOLOCK)"] a by auto
  let ?new = "move_in up diff n (take (diff + n) (drop (nat lower) (spx_bytes s)))"
  have len: "length ?new = diff + n" using a(3) by (auto simp: move_in_def)
  obtain s2 where w: "ncio_spx_rel s1 lower ?new RGN_MODIFIED = Done (NC_NOERR, s2)" "spx_sane malloc s2" "spx_bf_cnt s2 = 0"
      "spx_bytes s2 = overlay (spx_bytes s) (nat lower) ?new"
    using spx_rel_ok [of malloc s1 lower ?new RGN_MODIFIED] g(2,3) len by (auto simp: fIsSet_def)
  have "overlay (spx_bytes s) (nat lower) ?new = blit (spx_bytes s) (nat to) (take n (drop (nat from_off) (spx_bytes s)))"
  proof -
    have "nat lower + diff = nat (if up then to else from_off)" using r by (auto simp: lower_def diff_def up_def nat_diff_distrib)
    moreover have "overlay (spx_bytes s) (nat lower) ?new = blit (spx_bytes s) (nat lower) ?new" using a(3) len by (intro overlay_blit) simp
    ultimately show ?thesis using move_in_blit [OF a(3), of up] by (auto simp: lower_def)
  qed
  with False g(1) w a(5,6) show ?thesis
    by (auto simp: ncio_spx_move_def Let_def lower_def up_def split: if_splits)
qed

definition spx_ok :: "(nat \<Rightarrow> string option) \<Rightarrow> NCSPX \<Rightarrow> bool" where
  "spx_ok malloc s \<longleftrightarrow> spx_sane malloc s \<and> spx_bf_cnt s = 0 \<and> int (length (spx_bytes s)) < X_INT_MAX"

definition spx_held :: "(nat \<Rightarrow> string option) \<Rightarrow> NCSPX \<Rightarrow> int \<Rightarrow> nat \<Rightarrow> int \<Rightarrow> bool" where
  "spx_held malloc s off n rflags \<longleftrightarrow> spx_out malloc s off n \<and> nat off + n \<le> length (spx_bytes s) \<and> int (length (spx_bytes s)) < X_INT_MAX"

interpretation spx: ncio_store "spx_io malloc" "spx_ok malloc" spx_bytes "spx_held malloc" limit for malloc limit
proof
  fix s off flg and n :: nat assume a: "spx_ok malloc s" "0 \<le> off" "0 < n" "nat off + n \<le> length (spx_bytes s)"
  then show "\<exists>s'. io_get (spx_io malloc) s off n flg = Done (NC_NOERR, take n (drop (nat off) (spx_bytes s)), s') \<and>
      spx_held malloc s' off n flg \<and> spx_bytes s' = spx_bytes s"
    using spx_get_ok [of malloc s off n flg] by (auto simp: spx_ok_def spx_held_def spx_io_def)
next
  fix s off flg rflg and buf :: string
  assume h: "spx_held malloc s off (length buf) flg"
    and f: "rflg = 0 \<and> buf = take (length buf) (drop (nat off) (spx_bytes s)) \<or> rflg = RGN_MODIFIED \<and> flg = RGN_WRITE"
  obtain s' where s': "ncio_spx_rel s off buf rflg = Done (NC_NOERR, s')" "spx_sane malloc s'" "spx_bf_cnt s' = 0"
      "spx_bytes s' = (if fIsSet rflg RGN_MODIFIED then overlay (spx_bytes s) (nat off) buf else spx_bytes s)"
    using spx_rel_ok [of malloc s off buf rflg] h by (auto simp: spx_held_def)
  have "spx_bytes s' = blit (spx_bytes s) (nat off) buf"
    using f
  proof
    assume "rflg = 0 \<and> buf = take (length buf) (drop (nat off) (spx_bytes s))"
    then show ?thesis using s'(4) h by (metis blit_same fIsSet_def and_zero_eq(1) spx_held_def bit.conj_zero_left)
  next
    assume "rflg = RGN_MODIFIED \<and> flg = RGN_WRITE"
    then show ?thesis using s'(4) h by (simp add: fIsSet_def overlay_blit spx_held_def)
  qed
  then show "\<exists>s'. io_rel (spx_io malloc) s off buf rflg = Done (NC_NOERR, s') \<and> spx_ok malloc s' \<and> spx_bytes s' = blit (spx_bytes s) (nat off) buf"
    using s'(1-3) h by (auto simp: spx_io_def spx_ok_def spx_held_def)
next
  fix s assume "spx_ok malloc s"
  then show "\<exists>s'. io_sync (spx_io malloc) s = Done (NC_NOERR, s') \<and> spx_ok malloc s' \<and> spx_bytes s' = spx_bytes s"
    by (simp add: spx_io_def ncio_spx_sync_def)
next
  fix s to from_off n flg
  assume "spx_ok malloc s" "0 \<le> to" "0 \<le> from_off" "nat to + n \<le> length (spx_bytes s)" "nat from_off + n \<le> length (spx_bytes s)"
  then show "\<exists>s'. io_move (spx_io malloc) s to from_off n flg = Done (NC_NOERR, s') \<and> spx_ok malloc s' \<and>
      spx_bytes s' = blit (spx_bytes s) (nat to) (take n (drop (nat from_off) (spx_bytes s)))"
    using spx_move_ok [of malloc s to from_off n flg] by (auto simp: spx_io_def spx_ok_def)
qed

end
