(* ===== verification/NC_Pxbuf.thy ===== *)
theory NC_Pxbuf
  imports NC_Posixio
begin

text \<open>
  The driver of \<open>libsrc/posixio.c\<close> that is used without \<open>NC_SHARE\<close>: \<open>ncio_px\<close>. It keeps one or two neighbouring blocks of the file in a
  buffer, pages blocks in when a region asks for them and writes the buffer back only when it needs the room or on \<open>sync\<close>. A move that is
  too large for the buffer goes through a second one, the slave.
\<close>

abbreviation (input) "E2BIG \<equiv> (7::int)"

subsection \<open>The state\<close>

text \<open>\<open>ncio_px\<close> without the chain to its slave, whose own chain is always empty.\<close>

record ncio_px =
  px_blksz :: nat
  px_pos :: int
  px_bf_offset :: int
  px_bf_extent :: nat
  px_bf_cnt :: nat
  px_bf_base :: "string option"
  px_bf_rflags :: int
  px_bf_refcount :: int

record NCPX =
  pxf_ioflags :: int
  pxf_main :: ncio_px
  pxf_slave :: "ncio_px option"
  pxf_disk :: disk

abbreviation px_dirty :: "ncio_px \<Rightarrow> bool" where "px_dirty p \<equiv> fIsSet (px_bf_rflags p) RGN_MODIFIED"

subsection \<open>Paging\<close>

text \<open>Writing \<open>n\<close> bytes of the buffer from \<open>start\<close> on, and reading a block of the file into it; \<open>px_pgin\<close> stores the number of bytes in \<open>bf_cnt\<close>.\<close>

definition px_flush :: "disk \<Rightarrow> ncio_px \<Rightarrow> int \<Rightarrow> nat \<Rightarrow> nat \<Rightarrow> (int \<times> ncio_px \<times> disk) run" where
  "px_flush d p off start n = run_bind (mem_read (px_bf_base p) start n) (\<lambda>block.
     run_bind (px_pgout d (px_pos p) off block) (\<lambda>(st, posp, d1). Done (st, p\<lparr>px_pos := posp\<rparr>, d1)))"

definition px_flush_dirty :: "disk \<Rightarrow> ncio_px \<Rightarrow> int \<Rightarrow> nat \<Rightarrow> nat \<Rightarrow> (int \<times> ncio_px \<times> disk) run" where
  "px_flush_dirty d p off start n = (if px_dirty p then assert_run (px_bf_refcount p \<le> 0) (px_flush d p off start n) else Done (NC_NOERR, p, d))"

definition px_fill :: "disk \<Rightarrow> ncio_px \<Rightarrow> int \<Rightarrow> nat \<Rightarrow> nat \<Rightarrow> (int \<times> ncio_px \<times> disk) run" where
  "px_fill d p off start n = (let (st, block, nread, posp, d1) = px_pgin d (px_pos p) off n; p1 = p\<lparr>px_pos := posp\<rparr> in
     if st \<noteq> NC_NOERR then Done (st, p1, d1)
     else run_bind (mem_write (px_bf_base p1) start block) (\<lambda>base. Done (NC_NOERR, p1\<lparr>px_bf_base := base, px_bf_cnt := nread\<rparr>, d1)))"

definition run_ok :: "(int \<times> ncio_px \<times> disk) run \<Rightarrow> (ncio_px \<Rightarrow> disk \<Rightarrow> (int \<times> ncio_px \<times> disk) run) \<Rightarrow> (int \<times> ncio_px \<times> disk) run" where
  "run_ok m f = run_bind m (\<lambda>(st, p, d). if st \<noteq> NC_NOERR then Done (st, p, d) else f p d)"

text \<open>The page behind the first block of the buffer is read into the upper half.\<close>

definition px_upper :: "disk \<Rightarrow> ncio_px \<Rightarrow> (int \<times> ncio_px \<times> disk) run" where
  "px_upper d p = run_ok (px_fill d p (px_bf_offset p + int (px_blksz p)) (px_blksz p) (px_blksz p)) (\<lambda>p1 d1.
     Done (NC_NOERR, p1\<lparr>px_bf_extent := 2 * px_blksz p1, px_bf_cnt := px_bf_cnt p1 + px_blksz p1\<rparr>, d1))"

text \<open>The label \<open>pgin\<close>: one or two blocks are read into an empty buffer.\<close>

definition px_load :: "disk \<Rightarrow> ncio_px \<Rightarrow> int \<Rightarrow> nat \<Rightarrow> (int \<times> ncio_px \<times> disk) run" where
  "px_load d p blkoffset blkextent = run_ok (px_fill d p blkoffset 0 blkextent) (\<lambda>p1 d1.
     Done (NC_NOERR, p1\<lparr>px_bf_offset := blkoffset, px_bf_extent := blkextent\<rparr>, d1))"

text \<open>A region that begins in the upper half and goes on behind it: the upper half becomes the lower one.\<close>

definition px_shift_up :: "disk \<Rightarrow> ncio_px \<Rightarrow> int \<Rightarrow> (int \<times> ncio_px \<times> disk) run" where
  "px_shift_up d p blkoffset = assert_run (px_bf_extent p = 2 * px_blksz p)
     (run_ok (px_flush_dirty d p (px_bf_offset p) 0 (px_blksz p)) (\<lambda>p1 d1.
       run_ok (if px_blksz p1 < px_bf_cnt p1 then
           let cnt = px_bf_cnt p1 - px_blksz p1 in
           run_bind (mem_read (px_bf_base p1) (px_blksz p1) cnt) (\<lambda>block. run_bind (mem_write (px_bf_base p1) 0 block) (\<lambda>base.
             Done (NC_NOERR, p1\<lparr>px_bf_cnt := cnt, px_bf_base := base\<rparr>, d1)))
         else Done (NC_NOERR, p1, d1)) (\<lambda>p2 d2. px_upper d2 (p2\<lparr>px_bf_offset := blkoffset\<rparr>))))"

text \<open>A region that begins in the page below the buffer: the lower half becomes the upper one.\<close>

definition px_below :: "disk \<Rightarrow> ncio_px \<Rightarrow> int \<Rightarrow> (int \<times> ncio_px \<times> disk) run" where
  "px_below d p blkoffset = run_ok (if px_blksz p < px_bf_cnt p then assert_run (px_bf_extent p = 2 * px_blksz p)
       (run_ok (px_flush_dirty d p (px_bf_offset p + int (px_blksz p)) (px_blksz p) (px_bf_cnt p - px_blksz p)) (\<lambda>p1 d1.
         Done (NC_NOERR, p1\<lparr>px_bf_cnt := px_blksz p1, px_bf_extent := px_blksz p1\<rparr>, d1)))
     else Done (NC_NOERR, p, d)) (\<lambda>p1 d1. let upper_cnt = px_bf_cnt p1 in
       run_ok (if 0 < upper_cnt then run_bind (mem_read (px_bf_base p1) 0 (px_blksz p1)) (\<lambda>block. run_bind (mem_write (px_bf_base p1) (px_blksz p1) block) (\<lambda>base.
           Done (NC_NOERR, p1\<lparr>px_bf_base := base\<rparr>, d1)))
         else Done (NC_NOERR, p1, d1)) (\<lambda>p2 d2.
       run_ok (px_fill d2 p2 blkoffset 0 (px_blksz p2)) (\<lambda>p3 d3. let p4 = p3\<lparr>px_bf_offset := blkoffset\<rparr> in
         Done (NC_NOERR, if upper_cnt \<noteq> 0 then p4\<lparr>px_bf_extent := 2 * px_blksz p4, px_bf_cnt := px_blksz p4 + upper_cnt\<rparr>
           else p4\<lparr>px_bf_extent := px_blksz p4\<rparr>, d3))))"

text \<open>No overlap with the buffer: what was modified is written, and the flags are cleared then, and the buffer loaded.\<close>

definition px_elsewhere :: "disk \<Rightarrow> ncio_px \<Rightarrow> int \<Rightarrow> nat \<Rightarrow> (int \<times> ncio_px \<times> disk) run" where
  "px_elsewhere d p blkoffset blkextent = run_ok (px_flush_dirty d p (px_bf_offset p) 0 (px_bf_cnt p)) (\<lambda>p1 d1.
     px_load d1 (if px_dirty p1 then p1\<lparr>px_bf_rflags := 0\<rparr> else p1) blkoffset blkextent)"

definition px_alloc :: "(nat \<Rightarrow> string option) \<Rightarrow> ncio_px \<Rightarrow> (int \<times> ncio_px) run" where
  "px_alloc malloc p = (if px_bf_base p \<noteq> None then Done (NC_NOERR, p)
     else assert_run (px_bf_extent p = 0) (case malloc_block malloc (2 * px_blksz p) of
       None \<Rightarrow> Done (ENOMEM, p) | Some m \<Rightarrow> Done (NC_NOERR, p\<lparr>px_bf_base := Some m\<rparr>)))"

text \<open>The label \<open>done\<close>; the region begins \<open>diff\<close> bytes into the buffer.\<close>

definition px_done :: "disk \<Rightarrow> ncio_px \<Rightarrow> nat \<Rightarrow> nat \<Rightarrow> int \<Rightarrow> (int \<times> nat \<times> ncio_px \<times> disk) run" where
  "px_done d p diff extent rflags = (let cnt = max (px_bf_cnt p) (extent + diff) in
     assert_run (cnt \<le> px_bf_extent p)
       (Done (NC_NOERR, diff, p\<lparr>px_bf_cnt := cnt, px_bf_rflags := or (px_bf_rflags p) rflags, px_bf_refcount := px_bf_refcount p + 1\<rparr>, d)))"

text \<open>\<open>px_get\<close>: the status, where in the buffer the region begins, the driver and the file.\<close>

definition px_get :: "(nat \<Rightarrow> string option) \<Rightarrow> disk \<Rightarrow> ncio_px \<Rightarrow> int \<Rightarrow> nat \<Rightarrow> int \<Rightarrow> (int \<times> nat \<times> ncio_px \<times> disk) run" where
  "px_get malloc d p off extent rflags = assert_run (px_blksz p \<noteq> 0 \<and> extent \<noteq> 0 \<and> int extent < X_INT_MAX \<and> 0 \<le> off)
     (let blksz = px_blksz p; diff = nat off mod blksz; blkoffset = int (nat off - diff); blkextent = RNDUP (diff + extent) blksz;
        finish = (\<lambda>place m. run_bind m (\<lambda>(st, p1, d1). if st \<noteq> NC_NOERR then Done (st, 0, p1, d1) else px_done d1 p1 place extent rflags)) in
      if 2 * blksz < blkextent then Done (E2BIG, 0, p, d)
      else if px_bf_offset p = OFF_NONE then finish diff (run_bind (px_alloc malloc p) (\<lambda>(st, p1).
        if st \<noteq> NC_NOERR then Done (st, p1, d) else px_load d p1 blkoffset blkextent))
      else if blkoffset = px_bf_offset p then
        finish diff (if px_bf_extent p < blkextent then assert_run (px_bf_extent p = blksz) (px_upper d p) else Done (NC_NOERR, p, d))
      else if blksz < px_bf_extent p \<and> blkoffset = px_bf_offset p + int blksz then
        if blkextent = blksz then finish (diff + blksz) (Done (NC_NOERR, p, d))
        else finish diff (assert_run (blkextent = 2 * blksz) (px_shift_up d p blkoffset))
      else if blkoffset = px_bf_offset p - int blksz then finish diff (px_below d p blkoffset)
      else finish diff (px_elsewhere d p blkoffset blkextent))"

definition px_rel :: "ncio_px \<Rightarrow> int \<Rightarrow> int \<Rightarrow> ncio_px run" where
  "px_rel p off rflags = assert_run (px_bf_offset p \<le> off \<and> off < px_bf_offset p + int (px_bf_extent p) \<and>
       (fIsSet rflags RGN_MODIFIED \<longrightarrow> fIsSet (px_bf_rflags p) RGN_WRITE))
     (Done (p\<lparr>px_bf_rflags := if fIsSet rflags RGN_MODIFIED then fSet (px_bf_rflags p) RGN_MODIFIED else px_bf_rflags p,
        px_bf_refcount := px_bf_refcount p - 1\<rparr>))"

subsection \<open>The operations of the driver\<close>

text \<open>A driver for a file just opened, and its buffer: a new file is known to be empty, so that nothing has to be read.\<close>

definition ncio_px_new :: "int \<Rightarrow> disk \<Rightarrow> NCPX" where
  "ncio_px_new flg d = \<lparr>pxf_ioflags = flg, pxf_main = \<lparr>px_blksz = 0, px_pos = -1, px_bf_offset = OFF_NONE, px_bf_extent = 0, px_bf_cnt = 0, px_bf_base = None,
     px_bf_rflags = 0, px_bf_refcount = 0\<rparr>, pxf_slave = None, pxf_disk = d\<rparr>"

definition ncio_px_init2 :: "(nat \<Rightarrow> string option) \<Rightarrow> NCPX \<Rightarrow> nat \<Rightarrow> bool \<Rightarrow> (int \<times> NCPX) run" where
  "ncio_px_init2 malloc s sizehint isNew = (let p = (pxf_main s)\<lparr>px_blksz := sizehint\<rparr>; bufsz = 2 * sizehint in
     assert_run (px_bf_base p = None) (case malloc_block malloc bufsz of None \<Rightarrow> Done (ENOMEM, s\<lparr>pxf_main := p\<rparr>)
     | Some m \<Rightarrow> let p1 = p\<lparr>px_bf_base := Some m, px_bf_cnt := 0\<rparr> in
         Done (NC_NOERR, s\<lparr>pxf_main := if isNew then p1\<lparr>px_pos := 0, px_bf_offset := 0, px_bf_extent := bufsz, px_bf_base := Some (replicate bufsz NULB)\<rparr> else p1\<rparr>)))"

text \<open>\<open>get\<close> frees the slave of an earlier move. As before, \<open>rel\<close> is given the region's contents.\<close>

definition ncio_px_get :: "(nat \<Rightarrow> string option) \<Rightarrow> NCPX \<Rightarrow> int \<Rightarrow> nat \<Rightarrow> int \<Rightarrow> (int \<times> string \<times> NCPX) run" where
  "ncio_px_get malloc s off extent rflags = (if fIsSet rflags RGN_WRITE \<and> \<not> fIsSet (pxf_ioflags s) NC_WRITE then Done (EPERM, [], s)
     else run_bind (px_get malloc (pxf_disk s) (pxf_main s) off extent rflags) (\<lambda>(st, place, p, d).
       let s1 = s\<lparr>pxf_main := p, pxf_slave := None, pxf_disk := d\<rparr> in
       if st \<noteq> NC_NOERR then Done (st, [], s1)
       else run_bind (mem_read (px_bf_base p) place extent) (\<lambda>buf. Done (NC_NOERR, buf, s1))))"

definition ncio_px_rel :: "NCPX \<Rightarrow> int \<Rightarrow> string \<Rightarrow> int \<Rightarrow> (int \<times> NCPX) run" where
  "ncio_px_rel s off buf rflags = (let p = pxf_main s in
     run_bind (mem_write (px_bf_base p) (nat (off - px_bf_offset p)) buf) (\<lambda>base. let p1 = p\<lparr>px_bf_base := base\<rparr> in
       if fIsSet rflags RGN_MODIFIED \<and> \<not> fIsSet (pxf_ioflags s) NC_WRITE then Done (EPERM, s\<lparr>pxf_main := p1\<rparr>)
       else run_bind (px_rel p1 off rflags) (\<lambda>p2. Done (NC_NOERR, s\<lparr>pxf_main := p2\<rparr>))))"

definition ncio_px_sync :: "NCPX \<Rightarrow> (int \<times> NCPX) run" where
  "ncio_px_sync s = (let p = pxf_main s in
     if px_dirty p then run_bind (px_flush_dirty (pxf_disk s) p (px_bf_offset p) 0 (px_bf_cnt p)) (\<lambda>(st, p1, d).
       if st \<noteq> NC_NOERR then Done (st, s\<lparr>pxf_main := p1, pxf_disk := d\<rparr>)
       else Done (NC_NOERR, s\<lparr>pxf_main := p1\<lparr>px_bf_rflags := 0\<rparr>, pxf_disk := d\<rparr>))
     else if \<not> fIsSet (px_bf_rflags p) RGN_WRITE then Done (NC_NOERR, s\<lparr>pxf_main := p\<lparr>px_bf_offset := OFF_NONE, px_bf_cnt := 0\<rparr>\<rparr>)
     else Done (NC_NOERR, s))"

definition ncio_px_filesize :: "NCPX \<Rightarrow> int \<times> int" where
  "ncio_px_filesize s = (NC_NOERR, int (length (d_bytes (pxf_disk s))))"

definition ncio_px_pad_length :: "NCPX \<Rightarrow> int \<Rightarrow> (int \<times> NCPX) run" where
  "ncio_px_pad_length s len = (if \<not> fIsSet (pxf_ioflags s) NC_WRITE then Done (EPERM, s)
     else run_bind (ncio_px_sync s) (\<lambda>(st, s1). if st \<noteq> NC_NOERR then Done (st, s1)
       else let (st2, d) = fgrow2 (pxf_disk s1) len in Done (st2, s1\<lparr>pxf_disk := d\<rparr>)))"

text \<open>
  \<open>px_double_buffer\<close>: one piece of a large move, from the slave's buffer into the main one. The slave starts as a copy of the main buffer, and
  stays until the next \<open>get\<close>; \<open>sizeof (ncio_px)\<close> is 64.
\<close>

definition px_new_slave :: "(nat \<Rightarrow> string option) \<Rightarrow> ncio_px \<Rightarrow> (int \<times> ncio_px option) run" where
  "px_new_slave malloc p = (if malloc 64 = None then Done (ENOMEM, None)
     else let q = p\<lparr>px_bf_rflags := 0, px_bf_refcount := 0\<rparr> in
       case malloc_block malloc (2 * px_blksz p) of None \<Rightarrow> Done (ENOMEM, Some (q\<lparr>px_bf_base := None\<rparr>))
       | Some m \<Rightarrow> run_bind (mem_read (px_bf_base p) 0 (px_bf_extent p)) (\<lambda>block. run_bind (mem_write (Some m) 0 block) (\<lambda>base.
           Done (NC_NOERR, Some (q\<lparr>px_bf_base := base\<rparr>)))))"

definition px_double_buffer :: "(nat \<Rightarrow> string option) \<Rightarrow> NCPX \<Rightarrow> int \<Rightarrow> int \<Rightarrow> nat \<Rightarrow> (int \<times> NCPX) run" where
  "px_double_buffer malloc s to from_off nbytes = run_bind (px_get malloc (pxf_disk s) (pxf_main s) to nbytes RGN_WRITE) (\<lambda>(st, dest, p, d).
     let s1 = s\<lparr>pxf_main := p, pxf_disk := d\<rparr> in
     if st \<noteq> NC_NOERR then Done (st, s1)
     else run_bind (case pxf_slave s1 of Some q \<Rightarrow> Done (NC_NOERR, Some q) | None \<Rightarrow> px_new_slave malloc p) (\<lambda>(st1, slave).
       if st1 \<noteq> NC_NOERR then Done (st1, s1\<lparr>pxf_slave := slave\<rparr>)
       else run_bind (px_get malloc d ((the slave)\<lparr>px_pos := px_pos p\<rparr>) from_off nbytes 0) (\<lambda>(st2, src, q, d2).
         let s2 = s1\<lparr>pxf_slave := Some q, pxf_disk := d2\<rparr> in
         if st2 \<noteq> NC_NOERR then Done (st2, s2)
         else run_bind (mem_read (px_bf_base q) src nbytes) (\<lambda>block. run_bind (mem_write (px_bf_base p) dest block) (\<lambda>base.
           run_bind (px_rel q from_off 0) (\<lambda>q1. run_bind (px_rel (p\<lparr>px_bf_base := base, px_pos := px_pos q\<rparr>) to RGN_MODIFIED) (\<lambda>p1.
             Done (NC_NOERR, s2\<lparr>pxf_main := p1, pxf_slave := Some q1\<rparr>))))))))"

text \<open>The two loops of a large move, downwards from the end when data moves up; \<open>remaining\<close> bytes are left. They end as \<open>blksz\<close> is positive.\<close>

function px_move_up :: "(nat \<Rightarrow> string option) \<Rightarrow> NCPX \<Rightarrow> int \<Rightarrow> int \<Rightarrow> nat \<Rightarrow> (int \<times> NCPX) run" where
  "px_move_up malloc s toh frm remaining = (let n = min remaining (px_blksz (pxf_main s)); frm1 = frm - int n; toh1 = toh - int n in
     run_bind (px_double_buffer malloc s toh1 frm1 n) (\<lambda>(st, s1).
       if st \<noteq> NC_NOERR then Done (st, s1)
       else if remaining - n = 0 then Done (NC_NOERR, s1)
       else if n = 0 then Loop else px_move_up malloc s1 toh1 frm1 (remaining - n)))"
  by pat_completeness auto
termination
  by (relation "measure (\<lambda>(malloc, s, toh, frm, remaining). remaining)") auto

function px_move_down :: "(nat \<Rightarrow> string option) \<Rightarrow> NCPX \<Rightarrow> int \<Rightarrow> int \<Rightarrow> nat \<Rightarrow> (int \<times> NCPX) run" where
  "px_move_down malloc s to from_off remaining = (let n = min remaining (px_blksz (pxf_main s)) in
     run_bind (px_double_buffer malloc s to from_off n) (\<lambda>(st, s1).
       if st \<noteq> NC_NOERR then Done (st, s1)
       else if remaining - n = 0 then Done (NC_NOERR, s1)
       else if n = 0 then Loop else px_move_down malloc s1 (to + int n) (from_off + int n) (remaining - n)))"
  by pat_completeness auto
termination
  by (relation "measure (\<lambda>(malloc, s, to, from_off, remaining). remaining)") auto

declare px_move_up.simps [simp del] px_move_down.simps [simp del]

definition ncio_px_move :: "(nat \<Rightarrow> string option) \<Rightarrow> NCPX \<Rightarrow> int \<Rightarrow> int \<Rightarrow> nat \<Rightarrow> int \<Rightarrow> (int \<times> NCPX) run" where
  "ncio_px_move malloc s to from_off nbytes rflags0 = (if to = from_off then Done (NC_NOERR, s)
     else if fIsSet rflags0 RGN_WRITE \<and> \<not> fIsSet (pxf_ioflags s) NC_WRITE then Done (EPERM, s)
     else let rflags = and rflags0 RGN_NOLOCK; lower = (if from_off < to then from_off else to); upper = (if from_off < to then to else from_off);
         diff = nat (u64 (upper - lower)); extent = nat (u64 (int (diff + nbytes))) in
       if px_blksz (pxf_main s) < extent then
         if from_off < to then px_move_up malloc s (to + int nbytes) (from_off + int nbytes) nbytes else px_move_down malloc s to from_off nbytes
       else run_bind (px_get malloc (pxf_disk s) (pxf_main s) lower extent (or RGN_WRITE rflags)) (\<lambda>(st, place, p, d).
         let s1 = s\<lparr>pxf_main := p, pxf_disk := d\<rparr> in
         if st \<noteq> NC_NOERR then Done (st, s1)
         else run_bind (mem_read (px_bf_base p) place extent) (\<lambda>buf.
           run_bind (mem_write (px_bf_base p) place (move_in (from_off < to) diff nbytes buf)) (\<lambda>base.
             run_bind (px_rel (p\<lparr>px_bf_base := base\<rparr>) lower RGN_MODIFIED) (\<lambda>p1. Done (NC_NOERR, s1\<lparr>pxf_main := p1\<rparr>))))))"

definition px_io :: "(nat \<Rightarrow> string option) \<Rightarrow> NCPX ncio" where
  "px_io malloc = \<lparr>io_get = ncio_px_get malloc, io_rel = ncio_px_rel, io_move = ncio_px_move malloc, io_sync = ncio_px_sync,
     io_filesize = ncio_px_filesize, io_pad_length = ncio_px_pad_length\<rparr>"

subsection \<open>A window on the contents\<close>

text \<open>
  \<open>b\<close> holds the bytes of the contents \<open>B\<close> from \<open>off\<close> on, \<open>c\<close> of them: all of the extent \<open>e\<close>, or all there are. The file \<open>f\<close> need not have them:
  \<open>covers\<close> says that it agrees with \<open>B\<close> everywhere else, reading NULs behind its end.
\<close>

definition window :: "string \<Rightarrow> nat \<Rightarrow> nat \<Rightarrow> nat \<Rightarrow> string \<Rightarrow> bool" where
  "window B off e c b \<longleftrightarrow> c \<le> e \<and> off + c \<le> length B \<and> (c = e \<or> off + c = length B) \<and> take c b = take c (drop off B)"

definition covers :: "string \<Rightarrow> string \<Rightarrow> nat \<Rightarrow> nat \<Rightarrow> bool" where
  "covers f B off c \<longleftrightarrow> 0 < c \<and> off + c \<le> length B \<and> length f \<le> length B \<and> (length f = length B \<or> off + c = length B) \<and>
     (\<forall>i < length B. i < off \<or> off + c \<le> i \<longrightarrow> B ! i = (if i < length f then f ! i else NULB))"

lemma nth_overlay:
  "i < length (overlay f p buf) \<Longrightarrow> overlay f p buf ! i =
    (if p \<le> i \<and> i < p + length buf then buf ! (i - p) else if i < length f then f ! i else NULB)"
  by (auto simp: overlay_def nth_append min_def)

lemma covers_overlay_part:
  assumes "covers f B off c" "off \<le> p" "p + k \<le> off + c" "0 < k"
  shows "i < length (overlay f p (take k (drop p B))) \<Longrightarrow> overlay f p (take k (drop p B)) ! i =
    (if p \<le> i \<and> i < p + k then B ! i else if i < length f then f ! i else NULB)"
    "length (overlay f p (take k (drop p B))) = max (length f) (p + k)"
  using assms by (auto simp: covers_def length_overlay nth_overlay min_def)

lemma overlay_covers:
  assumes "covers f B off c"
  shows "overlay f off (take c (drop off B)) = B"
proof (rule nth_equalityI)
  have c: "0 < c" "off + c \<le> off + c" using assms by (simp_all add: covers_def)
  note part = covers_overlay_part [OF assms order_refl c(2,1)]
  show l: "length (overlay f off (take c (drop off B))) = length B" using assms by (auto simp: part(2) covers_def)
  fix i assume "i < length (overlay f off (take c (drop off B)))"
  then show "overlay f off (take c (drop off B)) ! i = B ! i" using assms l by (auto simp: part(1) covers_def)
qed

lemma covers_grow:
  assumes "covers f B off c" "off' \<le> off" "off + c \<le> off' + c'" "off' + c' \<le> length B"
  shows "covers f B off' c'"
  using assms by (auto simp: covers_def)

lemma covers_same: "0 < c \<Longrightarrow> off + c \<le> length f \<Longrightarrow> covers f f off c"
  by (simp add: covers_def)

lemma covers_lower:
  assumes "covers f B off c" "0 < k" "k < c"
  shows "covers (overlay f off (take k (drop off B))) B (off + k) (c - k)"
proof -
  have k: "off + k \<le> off + c" using assms(3) by simp
  note part = covers_overlay_part [OF assms(1) order_refl k assms(2)]
  show ?thesis
    unfolding covers_def part(2)
  proof (intro conjI allI impI)
    fix i assume i: "i < length B" "i < off + k \<or> off + k + (c - k) \<le> i"
    show "B ! i = (if i < max (length f) (off + k) then overlay f off (take k (drop off B)) ! i else NULB)"
      using assms i by (auto simp: part covers_def)
  qed (use assms in \<open>auto simp: covers_def\<close>)
qed

lemma covers_upper:
  assumes "covers f B off c" "0 < k" "k < c"
  shows "covers (overlay f (off + k) (take (c - k) (drop (off + k) B))) B off k"
proof -
  have k: "off \<le> off + k" "off + k + (c - k) \<le> off + c" "0 < c - k" using assms(3) by simp_all
  note part = covers_overlay_part [OF assms(1) k]
  show ?thesis
    unfolding covers_def part(2)
  proof (intro conjI allI impI)
    fix i assume i: "i < length B" "i < off \<or> off + k \<le> i"
    show "B ! i = (if i < max (length f) (off + k + (c - k)) then overlay f (off + k) (take (c - k) (drop (off + k) B)) ! i else NULB)"
      using assms i by (auto simp: part covers_def)
  qed (use assms in \<open>auto simp: covers_def\<close>)
qed

text \<open>What is read from the file outside of the window.\<close>

lemma covers_read_above:
  assumes "covers f B off c" "off + c \<le> p"
  shows "take n (drop p f) = take n (drop p B)"
proof (cases "length f = length B")
  case True
  then have "drop p f = drop p B" using assms by (intro nth_equalityI) (auto simp: covers_def)
  then show ?thesis by simp
next
  case False
  then show ?thesis using assms by (auto simp: covers_def)
qed

lemma covers_read_below:
  assumes "covers f B off c" "p + n \<le> off"
  shows "take n (drop p f) @ replicate (n - (length f - p)) NULB = take n (drop p B)"
  by (rule nth_equalityI) (use assms in \<open>auto simp: covers_def nth_append min_def\<close>)

subsection \<open>The invariant of the buffer\<close>

text \<open>\<open>B\<close> is what the file would hold if all that was modified were written.\<close>

definition px_sane :: "disk \<Rightarrow> ncio_px \<Rightarrow> string \<Rightarrow> bool" where
  "px_sane d p B \<longleftrightarrow> 0 < px_blksz p \<and> disk_ready d (px_pos p) \<and> (\<exists>b. px_bf_base p = Some b \<and> length b = 2 * px_blksz p \<and>
     (if px_bf_offset p = OFF_NONE then \<not> px_dirty p \<and> d_bytes d = B
      else \<exists>off. px_bf_offset p = int off \<and> px_blksz p dvd off \<and> (px_bf_extent p = px_blksz p \<or> px_bf_extent p = 2 * px_blksz p) \<and>
        window B off (px_bf_extent p) (px_bf_cnt p) b \<and> (if px_dirty p then covers (d_bytes d) B off (px_bf_cnt p) else d_bytes d = B)))"

lemma px_fill_ok:
  assumes "disk_ready d (px_pos p)" "px_bf_base p = Some b" "start + n \<le> length b"
  shows "px_fill d p (int off) start n = (let bs = take n (drop off (d_bytes d)) in
    Done (NC_NOERR, p\<lparr>px_pos := int (off + length bs), px_bf_base := Some (blit b start (bs @ replicate (n - length bs) NULB)), px_bf_cnt := length bs\<rparr>,
      d\<lparr>d_pos := int (off + length bs), d_errno := 0\<rparr>))"
proof -
  have d: "d_script d = []" "px_pos p = OFF_NONE \<or> px_pos p = d_pos d" using assms(1) by (simp_all add: disk_ready_def)
  show ?thesis using assms(2,3) by (simp add: px_fill_def px_pgin_ok [OF d(1) _ d(2)] Let_def mem_write_def)
qed

lemma px_flush_ok:
  assumes "disk_ready d (px_pos p)" "px_bf_base p = Some b" "start + n \<le> length b"
  shows "px_flush d p (int off) start n = Done (NC_NOERR, p\<lparr>px_pos := int (off + n)\<rparr>,
    d\<lparr>d_bytes := overlay (d_bytes d) off (take n (drop start b)), d_pos := int (off + n)\<rparr>)"
proof -
  have d: "d_script d = []" "px_pos p = OFF_NONE \<or> px_pos p = d_pos d" using assms(1) by (simp_all add: disk_ready_def)
  show ?thesis using assms(2,3) by (simp add: px_flush_def px_pgout_ok [OF d(1) _ d(2)] mem_read_def min_def)
qed

text \<open>What a paging step must achieve: the buffer begins at \<open>off\<close> and extends at least to \<open>e\<close>, and the contents are what they were.\<close>

definition paged :: "string \<Rightarrow> nat \<Rightarrow> nat \<Rightarrow> ncio_px \<Rightarrow> (int \<times> ncio_px \<times> disk) run \<Rightarrow> bool" where
  "paged B off e p m \<longleftrightarrow> (\<exists>p' d'. m = Done (NC_NOERR, p', d') \<and> px_sane d' p' B \<and> px_bf_offset p' = int off \<and> e \<le> px_bf_extent p' \<and>
     px_blksz p' = px_blksz p \<and> px_bf_refcount p' = px_bf_refcount p)"

definition px_half :: "disk \<Rightarrow> ncio_px \<Rightarrow> string \<Rightarrow> nat \<Rightarrow> bool" where
  "px_half d p B off \<longleftrightarrow> 0 < px_blksz p \<and> disk_ready d (px_pos p) \<and> px_bf_offset p = int off \<and> px_blksz p dvd off \<and> off + px_blksz p \<le> length B \<and>
     (\<exists>b. px_bf_base p = Some b \<and> length b = 2 * px_blksz p \<and> take (px_blksz p) b = take (px_blksz p) (drop off B)) \<and>
     (if px_dirty p then covers (d_bytes d) B off (px_blksz p) else d_bytes d = B)"

lemma px_upper_ok:
  assumes "px_half d p B off"
  shows "paged B off (2 * px_blksz p) p (px_upper d p)"
proof -
  let ?k = "px_blksz p"
  obtain b where h: "0 < ?k" "disk_ready d (px_pos p)" "px_bf_offset p = int off" "?k dvd off" "off + ?k \<le> length B"
      "px_bf_base p = Some b" "length b = 2 * ?k" "take ?k b = take ?k (drop off B)" and f: "if px_dirty p then covers (d_bytes d) B off ?k else d_bytes d = B"
    using assms by (auto simp: px_half_def)
  define bs where "bs = take ?k (drop (off + ?k) (d_bytes d))"
  have bs: "bs = take ?k (drop (off + ?k) B)" using f covers_read_above [of "d_bytes d" B off ?k "off + ?k" ?k] by (auto simp: bs_def split: if_splits)
  have len: "length bs = min ?k (length B - (off + ?k))" by (simp add: bs)
  have bst: "take (length bs) (drop (off + ?k) B) = bs" by (simp add: bs min_def)
  let ?b = "blit b ?k (bs @ replicate (?k - length bs) NULB)"
  let ?p = "p\<lparr>px_pos := int (off + ?k + length bs), px_bf_base := Some ?b, px_bf_cnt := length bs + ?k, px_bf_extent := 2 * ?k\<rparr>"
  let ?d = "d\<lparr>d_pos := int (off + ?k + length bs), d_errno := 0\<rparr>"
  have lb: "length ?b = 2 * ?k" using h(7) len by simp
  have off: "int off + int ?k = int (off + ?k)" by simp
  have "px_fill d p (int (off + ?k)) ?k ?k = Done (NC_NOERR, p\<lparr>px_pos := int (off + ?k + length bs), px_bf_base := Some ?b, px_bf_cnt := length bs\<rparr>, ?d)"
    using px_fill_ok [OF h(2,6), of ?k ?k "off + ?k"] h(7) by (simp add: Let_def bs_def)
  then have u: "px_upper d p = Done (NC_NOERR, ?p, ?d)" unfolding px_upper_def h(3) off by (simp add: run_ok_def)
  have "take (length bs + ?k) ?b = take ?k b @ bs" using h(7) len by (simp add: blit_def min_def)
  also have "\<dots> = take (length bs + ?k) (drop off B)"
    unfolding h(8) using take_add [of ?k "length bs" "drop off B"] bst by (simp add: add.commute)
  finally have "window B off (2 * ?k) (length bs + ?k) ?b" using h(5) len by (auto simp: window_def)
  moreover have "covers (d_bytes d) B off (length bs + ?k)" if "px_dirty p"
    using f that covers_grow [of "d_bytes d" B off ?k off "length bs + ?k"] h(5) len by auto
  ultimately have "px_sane ?d ?p B" using h(1-4) f lb by (auto simp: px_sane_def disk_ready_def)
  with u h(3) show ?thesis by (auto simp: paged_def)
qed

lemma px_load_ok:
  assumes "0 < px_blksz p" "disk_ready d (px_pos p)" "px_bf_base p = Some b" "length b = 2 * px_blksz p" "\<not> px_dirty p" "d_bytes d = B"
    and e: "e = px_blksz p \<or> e = 2 * px_blksz p" "px_blksz p dvd off" "off \<le> length B"
  shows "paged B off e p (px_load d p (int off) e)"
proof -
  define bs where "bs = take e (drop off B)"
  have len: "length bs = min e (length B - off)" by (simp add: bs_def)
  let ?b = "blit b 0 (bs @ replicate (e - length bs) NULB)"
  let ?p = "p\<lparr>px_pos := int (off + length bs), px_bf_base := Some ?b, px_bf_cnt := length bs, px_bf_offset := int off, px_bf_extent := e\<rparr>"
  let ?d = "d\<lparr>d_pos := int (off + length bs), d_errno := 0\<rparr>"
  have le: "0 + e \<le> length b" using assms(4) e(1) by auto
  have lb: "length ?b = 2 * px_blksz p" using le len assms(4) by simp
  have "px_load d p (int off) e = Done (NC_NOERR, ?p, ?d)"
    using px_fill_ok [OF assms(2,3) le, of off] assms(6) by (simp add: px_load_def run_ok_def Let_def bs_def)
  moreover have "window B off e (length bs) ?b" using e(3) len by (auto simp: window_def blit_def) (simp add: bs_def min_def)
  then have "px_sane ?d ?p B" using assms e lb by (auto simp: px_sane_def disk_ready_def)
  ultimately show ?thesis by (auto simp: paged_def)
qed

lemma window_slice: "window B off e c b \<Longrightarrow> i + n \<le> c \<Longrightarrow> take n (drop i b) = take n (drop (off + i) B)"
proof -
  assume w: "window B off e c b" and i: "i + n \<le> c"
  have "take n (drop i b) = take n (drop i (take c b))" using i by (simp add: drop_take min_def)
  also have "\<dots> = take n (drop (off + i) B)" using w i by (simp add: window_def drop_take min_def add.commute)
  finally show ?thesis .
qed

lemma px_saneD:
  assumes "px_sane d p B" "px_bf_offset p = int off"
  obtains b where "0 < px_blksz p" "disk_ready d (px_pos p)" "px_bf_base p = Some b" "length b = 2 * px_blksz p" "px_blksz p dvd off"
    "px_bf_extent p = px_blksz p \<or> px_bf_extent p = 2 * px_blksz p" "window B off (px_bf_extent p) (px_bf_cnt p) b"
    "if px_dirty p then covers (d_bytes d) B off (px_bf_cnt p) else d_bytes d = B"
  using assms by (auto simp: px_sane_def split: if_splits)

lemma px_flush_dirty_ok:
  assumes "disk_ready d (px_pos p)" "px_bf_base p = Some b" "start + n \<le> length b" "px_bf_refcount p \<le> 0"
  shows "\<exists>d1 posp. px_flush_dirty d p (int off) start n = Done (NC_NOERR, p\<lparr>px_pos := posp\<rparr>, d1) \<and> disk_ready d1 posp \<and>
    d_bytes d1 = (if px_dirty p then overlay (d_bytes d) off (take n (drop start b)) else d_bytes d)"
proof (cases "px_dirty p")
  case True
  then show ?thesis using px_flush_ok [OF assms(1-3), of off] assms(1,4)
    by (intro exI [of _ "d\<lparr>d_bytes := overlay (d_bytes d) off (take n (drop start b)), d_pos := int (off + n)\<rparr>"] exI [of _ "int (off + n)"])
      (simp add: px_flush_dirty_def disk_ready_def)
next
  case False
  then show ?thesis using assms(1) by (intro exI [of _ d] exI [of _ "px_pos p"]) (simp add: px_flush_dirty_def)
qed

lemma px_shift_up_ok:
  assumes "px_sane d p B" "px_bf_offset p = int off" "px_bf_extent p = 2 * px_blksz p" "off + 2 * px_blksz p \<le> length B" "px_bf_refcount p \<le> 0"
  shows "paged B (off + px_blksz p) (2 * px_blksz p) p (px_shift_up d p (int (off + px_blksz p)))"
proof -
  let ?k = "px_blksz p"
  from px_saneD [OF assms(1,2)] obtain b where h: "0 < ?k" "disk_ready d (px_pos p)" "px_bf_base p = Some b" "length b = 2 * ?k" "?k dvd off"
    and w: "window B off (px_bf_extent p) (px_bf_cnt p) b" and f: "if px_dirty p then covers (d_bytes d) B off (px_bf_cnt p) else d_bytes d = B" by metis
  have c: "px_bf_cnt p = 2 * ?k" using w assms(3,4) by (auto simp: window_def)
  have le: "0 + ?k \<le> length b" using h(4) by simp
  obtain d1 posp where fl: "px_flush_dirty d p (int off) 0 ?k = Done (NC_NOERR, p\<lparr>px_pos := posp\<rparr>, d1)" "disk_ready d1 posp"
      "d_bytes d1 = (if px_dirty p then overlay (d_bytes d) off (take ?k (drop 0 b)) else d_bytes d)"
    using px_flush_dirty_ok [OF h(2,3) le assms(5)] by blast
  let ?b = "blit b 0 (take ?k (drop ?k b))"
  let ?p = "p\<lparr>px_pos := posp, px_bf_cnt := ?k, px_bf_base := Some ?b, px_bf_offset := int (off + ?k)\<rparr>"
  have low: "take ?k b = take ?k (drop off B)" "take ?k (drop ?k b) = take ?k (drop (off + ?k) B)"
    using window_slice [OF w, of 0 ?k] window_slice [OF w, of ?k ?k] c by simp_all
  have cov: "if px_dirty p then covers (d_bytes d1) B (off + ?k) ?k else d_bytes d1 = B"
    using fl(3) f covers_lower [of "d_bytes d" B off "px_bf_cnt p" ?k] h(1) c low(1) by (cases "px_dirty p") simp_all
  have "length (take ?k (drop ?k b)) = ?k" using h(4) by simp
  then have "take ?k ?b = take ?k (drop (off + ?k) B)" "length ?b = 2 * ?k" using low(2) h(4) by (simp_all add: blit_def)
  then have half: "px_half d1 ?p B (off + ?k)" using h(1,5) fl(2) cov assms(4) by (simp add: px_half_def)
  have "px_shift_up d p (int (off + ?k)) = px_upper d1 ?p"
    using assms(2,3) fl(1) h(1,3,4) c by (simp add: px_shift_up_def run_ok_def Let_def mem_read_def mem_write_def)
  then show ?thesis using px_upper_ok [OF half] by (simp add: paged_def)
qed

lemma px_elsewhere_ok:
  assumes "px_sane d p B" "px_bf_offset p = int off" "px_bf_refcount p \<le> 0"
    and e: "e = px_blksz p \<or> e = 2 * px_blksz p" "px_blksz p dvd off'" "off' \<le> length B"
  shows "paged B off' e p (px_elsewhere d p (int off') e)"
proof -
  let ?k = "px_blksz p"
  from px_saneD [OF assms(1,2)] obtain b where h: "0 < ?k" "disk_ready d (px_pos p)" "px_bf_base p = Some b" "length b = 2 * ?k"
    and w: "window B off (px_bf_extent p) (px_bf_cnt p) b" and x: "px_bf_extent p = ?k \<or> px_bf_extent p = 2 * ?k"
    and f: "if px_dirty p then covers (d_bytes d) B off (px_bf_cnt p) else d_bytes d = B" by metis
  have le: "0 + px_bf_cnt p \<le> length b" using h(4) w x by (auto simp: window_def)
  obtain d1 posp where fl: "px_flush_dirty d p (int off) 0 (px_bf_cnt p) = Done (NC_NOERR, p\<lparr>px_pos := posp\<rparr>, d1)" "disk_ready d1 posp"
      "d_bytes d1 = (if px_dirty p then overlay (d_bytes d) off (take (px_bf_cnt p) (drop 0 b)) else d_bytes d)"
    using px_flush_dirty_ok [OF h(2,3) le assms(3)] by blast
  have B: "d_bytes d1 = B" using fl(3) f w overlay_covers [of "d_bytes d" B off "px_bf_cnt p"] by (auto simp: window_def split: if_splits)
  let ?p = "if px_dirty p then p\<lparr>px_pos := posp, px_bf_rflags := 0\<rparr> else p\<lparr>px_pos := posp\<rparr>"
  have "px_elsewhere d p (int off') e = px_load d1 ?p (int off') e"
    using assms(2) fl(1) by (simp add: px_elsewhere_def run_ok_def)
  moreover have "paged B off' e ?p (px_load d1 ?p (int off') e)"
    by (rule px_load_ok) (use h fl(2) B e in \<open>auto simp: fIsSet_def\<close>)
  ultimately show ?thesis by (auto simp: paged_def)
qed

lemma px_below_ok:
  assumes "px_sane d p B" "px_bf_offset p = int (low + px_blksz p)" "px_bf_refcount p \<le> 0" "px_bf_cnt p = 0 \<longrightarrow> e = px_blksz p" "e \<le> 2 * px_blksz p"
  shows "paged B low e p (px_below d p (int low))"
proof -
  let ?k = "px_blksz p" and ?off = "low + px_blksz p"
  from px_saneD [OF assms(1,2)] obtain b where h: "0 < ?k" "disk_ready d (px_pos p)" "px_bf_base p = Some b" "length b = 2 * ?k" "?k dvd ?off"
    and w: "window B ?off (px_bf_extent p) (px_bf_cnt p) b" and x: "px_bf_extent p = ?k \<or> px_bf_extent p = 2 * ?k"
    and f: "if px_dirty p then covers (d_bytes d) B ?off (px_bf_cnt p) else d_bytes d = B" by metis
  define c where "c = min ?k (px_bf_cnt p)"
  have w1: "?off + c \<le> length B" "c = ?k \<or> ?off + c = length B" using w x h(1) by (auto simp: window_def c_def)
  have tc: "take c b = take c (drop ?off B)" using window_slice [OF w, of 0 c] by (simp add: c_def)
  obtain d1 posp ext where s1: "(if ?k < px_bf_cnt p then assert_run (px_bf_extent p = 2 * ?k)
       (run_ok (px_flush_dirty d p (px_bf_offset p + int ?k) ?k (px_bf_cnt p - ?k)) (\<lambda>p1 d1.
         Done (NC_NOERR, p1\<lparr>px_bf_cnt := px_blksz p1, px_bf_extent := px_blksz p1\<rparr>, d1)))
     else Done (NC_NOERR, p, d)) = Done (NC_NOERR, p\<lparr>px_pos := posp, px_bf_cnt := c, px_bf_extent := ext\<rparr>, d1)" "disk_ready d1 posp"
    and f1: "if px_dirty p then covers (d_bytes d1) B ?off c else d_bytes d1 = B"
  proof (cases "?k < px_bf_cnt p")
    case False
    then have "c = px_bf_cnt p" by (simp add: c_def)
    then show ?thesis using that [of "px_bf_extent p" "px_pos p" d] h(2) f False by simp
  next
    case True
    have cx: "c = ?k" "px_bf_extent p = 2 * ?k" "?k + (px_bf_cnt p - ?k) \<le> length b" using True w x h(4) by (auto simp: c_def window_def)
    obtain d1 posp where fl: "px_flush_dirty d p (int (?off + ?k)) ?k (px_bf_cnt p - ?k) = Done (NC_NOERR, p\<lparr>px_pos := posp\<rparr>, d1)" "disk_ready d1 posp"
        "d_bytes d1 = (if px_dirty p then overlay (d_bytes d) (?off + ?k) (take (px_bf_cnt p - ?k) (drop ?k b)) else d_bytes d)"
      using px_flush_dirty_ok [OF h(2,3) cx(3) assms(3)] by blast
    have "take (px_bf_cnt p - ?k) (drop ?k b) = take (px_bf_cnt p - ?k) (drop (?off + ?k) B)" using window_slice [OF w, of ?k "px_bf_cnt p - ?k"] True by simp
    then have "if px_dirty p then covers (d_bytes d1) B ?off c else d_bytes d1 = B"
      using fl(3) f covers_upper [of "d_bytes d" B ?off "px_bf_cnt p" ?k] h(1) True cx(1) by (cases "px_dirty p") simp_all
    moreover have "px_bf_offset p + int ?k = int (?off + ?k)" using assms(2) by simp
    ultimately show ?thesis using that [of ?k posp d1] fl(1,2) True cx(1,2) by (simp add: run_ok_def)
  qed
  define b1 where "b1 = (if 0 < c then blit b ?k (take ?k b) else b)"
  have b1: "length b1 = 2 * ?k" "take c (drop ?k b1) = take c b" using h(4) by (auto simp: b1_def blit_def c_def min_def)
  define bs where "bs = take ?k (drop low (d_bytes d1))"
  have z: "?k - length bs = ?k - (length (d_bytes d1) - low)" by (simp add: bs_def)
  have blk: "bs @ replicate (?k - length bs) NULB = take ?k (drop low B)"
  proof (cases "px_dirty p")
    case True
    then show ?thesis using f1 covers_read_below [of "d_bytes d1" B ?off c low ?k] unfolding z by (simp add: bs_def)
  next
    case False
    then show ?thesis using f1 w1(1) by (simp add: bs_def)
  qed
  have lb: "length (take ?k (drop low B)) = ?k" using w1(1) by simp
  let ?b = "blit b1 0 (take ?k (drop low B))"
  let ?d = "d1\<lparr>d_pos := int (low + length bs), d_errno := 0\<rparr>"
  let ?q = "p\<lparr>px_pos := posp, px_bf_cnt := c, px_bf_extent := ext, px_bf_base := Some b1\<rparr>"
  let ?p = "?q\<lparr>px_pos := int (low + length bs), px_bf_base := Some ?b, px_bf_cnt := (if c = 0 then length bs else ?k + c), px_bf_offset := int low,
    px_bf_extent := (if c = 0 then ?k else 2 * ?k)\<rparr>"
  have fill: "px_fill d1 ?q (int low) 0 ?k = Done (NC_NOERR, ?q\<lparr>px_pos := int (low + length bs), px_bf_base := Some ?b, px_bf_cnt := length bs\<rparr>, ?d)"
    using px_fill_ok [of d1 ?q b1 0 ?k low] s1(2) b1(1) blk by (simp add: Let_def bs_def [symmetric])
  have run: "px_below d p (int low) = Done (NC_NOERR, ?p, ?d)"
  proof (cases "c = 0")
    case True
    let ?q0 = "p\<lparr>px_pos := posp, px_bf_cnt := c, px_bf_extent := ext\<rparr>"
    have "b1 = b" using True by (simp add: b1_def)
    then have "px_fill d1 ?q0 (int low) 0 ?k = Done (NC_NOERR, ?q0\<lparr>px_pos := int (low + length bs), px_bf_base := Some ?b, px_bf_cnt := length bs\<rparr>, ?d)"
      using px_fill_ok [of d1 ?q0 b 0 ?k low] s1(2) h(3,4) blk by (simp add: Let_def bs_def [symmetric])
    then show ?thesis unfolding px_below_def s1(1) using True by (simp add: run_ok_def Let_def)
  next
    case False
    then have "mem_read (Some b) 0 ?k = Done (take ?k b)" "mem_write (Some b) ?k (take ?k b) = Done (Some b1)"
      using h(4) by (simp_all add: b1_def mem_read_def mem_write_def)
    then show ?thesis unfolding px_below_def s1(1) using False fill h(3) by (simp add: run_ok_def Let_def)
  qed
  have win: "window B low (px_bf_extent ?p) (px_bf_cnt ?p) ?b"
  proof (cases "c = 0")
    case True
    then have "d_bytes d1 = B" using f1 by (auto simp: covers_def split: if_splits)
    then have "length bs = ?k" using lb by (simp add: bs_def)
    with True w1(1) lb show ?thesis by (simp add: window_def blit_def)
  next
    case False
    have "take (?k + c) ?b = take ?k (drop low B) @ take c b" using lb b1 by (simp add: blit_def min_def)
    also have "\<dots> = take (?k + c) (drop low B)" using take_add [of ?k c "drop low B"] tc by (simp add: add.commute)
    finally show ?thesis using False w1 by (auto simp: window_def c_def)
  qed
  have "if px_dirty p then covers (d_bytes d1) B low (px_bf_cnt ?p) else d_bytes d1 = B"
    using f1 w1(1) covers_grow [of "d_bytes d1" B ?off c low "?k + c"] by (cases "px_dirty p") (auto simp: covers_def)
  moreover have "?k dvd low" using h(5) by simp
  moreover have "length ?b = 2 * ?k" using b1(1) lb by simp
  ultimately have "px_sane ?d ?p B" using h(1) s1(2) win by (cases "px_dirty p") (simp_all add: px_sane_def disk_ready_def)
  moreover have "e \<le> px_bf_extent ?p" using assms(4,5) h(1) by (auto simp: c_def min_def split: if_splits)
  ultimately show ?thesis unfolding paged_def run by (intro exI [of _ ?p] exI [of _ ?d]) simp
qed

subsection \<open>Regions of the buffer\<close>

lemma fIsSet_or: "fIsSet (or a b) m \<longleftrightarrow> fIsSet a m \<or> fIsSet b m"
  by (simp add: fIsSet_def bit.conj_disj_distrib2 or_eq_0_iff)

lemma RNDUP_one: "0 < m \<Longrightarrow> m \<le> k \<Longrightarrow> RNDUP m k = k"
  by (simp add: RNDUP_def div_nat_eqI)

lemma RNDUP_two: "k < m \<Longrightarrow> m \<le> 2 * k \<Longrightarrow> RNDUP m k = 2 * k"
proof -
  assume "k < m" "m \<le> 2 * k"
  then have "(m + k - 1) div k = 2" by (intro div_nat_eqI) simp_all
  then show ?thesis by (simp add: RNDUP_def)
qed

text \<open>What \<open>px_get\<close> must achieve: the region is inside the buffer, and the contents are what they were.\<close>

definition got :: "string \<Rightarrow> nat \<Rightarrow> nat \<Rightarrow> int \<Rightarrow> ncio_px \<Rightarrow> (int \<times> nat \<times> ncio_px \<times> disk) run \<Rightarrow> bool" where
  "got B off n flg p m \<longleftrightarrow> (\<exists>start place p' d'. m = Done (NC_NOERR, place, p', d') \<and> px_sane d' p' B \<and> px_bf_offset p' = int start \<and> start + place = off \<and>
     place + n \<le> px_bf_cnt p' \<and> px_blksz p' = px_blksz p \<and> px_bf_refcount p' = px_bf_refcount p + 1 \<and> (\<forall>w. fIsSet flg w \<longrightarrow> fIsSet (px_bf_rflags p') w))"

lemma px_sane_cong:
  assumes "px_blksz q = px_blksz p" "px_pos q = px_pos p" "px_bf_offset q = px_bf_offset p" "px_bf_extent q = px_bf_extent p"
    "px_bf_cnt q = px_bf_cnt p" "px_bf_base q = px_bf_base p" "px_dirty q = px_dirty p"
  shows "px_sane d q B = px_sane d p B"
  unfolding px_sane_def assms ..

lemma px_done_ok:
  assumes "paged B start e p m" "place + n \<le> e" "start + place + n \<le> length B" "0 < n" "\<not> fIsSet flg RGN_MODIFIED"
  shows "got B (start + place) n flg p (run_bind m (\<lambda>(st, p1, d1). if st \<noteq> NC_NOERR then Done (st, 0, p1, d1) else px_done d1 p1 place n flg))"
proof -
  obtain p1 d1 where m: "m = Done (NC_NOERR, p1, d1)" "px_sane d1 p1 B" "px_bf_offset p1 = int start" "e \<le> px_bf_extent p1"
      "px_blksz p1 = px_blksz p" "px_bf_refcount p1 = px_bf_refcount p" using assms(1) by (auto simp: paged_def)
  from px_saneD [OF m(2,3)] obtain b where w: "window B start (px_bf_extent p1) (px_bf_cnt p1) b" by metis
  have c: "place + n \<le> px_bf_cnt p1" "px_bf_cnt p1 \<le> px_bf_extent p1" using w assms(2,3) m(4) by (auto simp: window_def)
  let ?p = "p1\<lparr>px_bf_rflags := or (px_bf_rflags p1) flg, px_bf_refcount := px_bf_refcount p1 + 1\<rparr>"
  have mx: "max (px_bf_cnt p1) (n + place) = px_bf_cnt p1" using c(1) by simp
  have "px_done d1 p1 place n flg = Done (NC_NOERR, place, ?p, d1)" using c(2) by (simp add: px_done_def mx)
  moreover have "fIsSet (or (px_bf_rflags p1) flg) RGN_MODIFIED = px_dirty p1" using assms(5) by (simp add: fIsSet_or)
  then have "px_sane d1 ?p B" using m(2) px_sane_cong [of ?p p1] by simp
  ultimately show ?thesis unfolding got_def using m c by (intro exI [of _ start] exI [of _ place] exI [of _ ?p] exI [of _ d1]) (simp add: fIsSet_or)
qed

lemma paged_stay: "px_sane d p B \<Longrightarrow> px_bf_offset p = int off \<Longrightarrow> e \<le> px_bf_extent p \<Longrightarrow> paged B off e p (Done (NC_NOERR, p, d))"
  by (auto simp: paged_def)

lemma px_get_ok:
  assumes inv: "px_sane d p B" "px_bf_refcount p \<le> 0" and n: "0 < n" "n \<le> px_blksz p" "int n < X_INT_MAX" and B: "off + n \<le> length B"
    and flg: "\<not> fIsSet flg RGN_MODIFIED"
  shows "got B off n flg p (px_get malloc d p (int off) n flg)"
proof -
  let ?k = "px_blksz p"
  define diff where "diff = off mod ?k"
  define low where "low = off - diff"
  have k: "0 < ?k" using inv(1) by (simp add: px_sane_def)
  have low: "low + diff = off" "diff < ?k" "?k dvd low" using k by (simp_all add: low_def diff_def dvd_minus_mod)
  define e where "e = RNDUP (diff + n) ?k"
  have e: "e = (if diff + n \<le> ?k then ?k else 2 * ?k)" using n low(2) by (auto simp: e_def RNDUP_one RNDUP_two)
  have fit: "diff + n \<le> e" "e = ?k \<or> e = 2 * ?k" "e \<le> 2 * ?k" using n low(2) by (auto simp: e)
  have ln: "low + diff + n \<le> length B" "low \<le> length B" using B low(1) by simp_all
  note fin = px_done_ok [OF _ fit(1) ln(1) n(1) flg, unfolded low(1)]
  have guard: "?k \<noteq> 0 \<and> n \<noteq> 0 \<and> int n < X_INT_MAX \<and> 0 \<le> int off" and nle: "\<not> 2 * ?k < e" using k n fit(3) by auto
  let ?fin = "\<lambda>place m. run_bind m (\<lambda>(st, p1, d1). if st \<noteq> NC_NOERR then Done (st, 0, p1, d1) else px_done d1 p1 place n flg)"
  have get: "px_get malloc d p (int off) n flg = (if px_bf_offset p = OFF_NONE then ?fin diff (run_bind (px_alloc malloc p) (\<lambda>(st, p1).
        if st \<noteq> NC_NOERR then Done (st, p1, d) else px_load d p1 (int low) e))
      else if int low = px_bf_offset p then
        ?fin diff (if px_bf_extent p < e then assert_run (px_bf_extent p = ?k) (px_upper d p) else Done (NC_NOERR, p, d))
      else if ?k < px_bf_extent p \<and> int low = px_bf_offset p + int ?k then
        if e = ?k then ?fin (diff + ?k) (Done (NC_NOERR, p, d))
        else ?fin diff (assert_run (e = 2 * ?k) (px_shift_up d p (int low)))
      else if int low = px_bf_offset p - int ?k then ?fin diff (px_below d p (int low))
      else ?fin diff (px_elsewhere d p (int low) e))"
    unfolding px_get_def Let_def nat_int diff_def [symmetric] low_def [symmetric] e_def [symmetric] assert_run_simps(1) [OF guard] if_not_P [OF nle] ..
  show ?thesis
  proof (cases "px_bf_offset p = OFF_NONE")
    case True
    then obtain b where b: "px_bf_base p = Some b" "length b = 2 * ?k" "\<not> px_dirty p" "d_bytes d = B" "disk_ready d (px_pos p)"
      using inv(1) by (auto simp: px_sane_def)
    from fin [OF px_load_ok [OF k b(5,1,2,3,4) fit(2) low(3) ln(2)]] show ?thesis unfolding get using True b(1) by (simp add: px_alloc_def)
  next
    case False
    then obtain start where o: "px_bf_offset p = int start" using inv(1) by (auto simp: px_sane_def)
    from px_saneD [OF inv(1) o] obtain b where h: "px_bf_base p = Some b" "length b = 2 * ?k" "?k dvd start"
        "px_bf_extent p = ?k \<or> px_bf_extent p = 2 * ?k" and w: "window B start (px_bf_extent p) (px_bf_cnt p) b"
      and f: "if px_dirty p then covers (d_bytes d) B start (px_bf_cnt p) else d_bytes d = B" and r: "disk_ready d (px_pos p)" by metis
    consider "low = start" "px_bf_extent p < e" | "low = start" "e \<le> px_bf_extent p" | "low = start + ?k" "px_bf_extent p = 2 * ?k" "e = ?k"
      | "low = start + ?k" "px_bf_extent p = 2 * ?k" "e = 2 * ?k" | "start = low + ?k"
      | "low \<noteq> start" "\<not> (?k < px_bf_extent p \<and> low = start + ?k)" "start \<noteq> low + ?k"
      using fit(2) h(4) k by fastforce
    then show ?thesis
    proof cases
      case 1
      then have x: "px_bf_extent p = ?k" "e = 2 * ?k" "diff + n > ?k" using fit(2) h(4) e by (auto split: if_splits)
      then have "px_bf_cnt p = ?k" using w ln(1) 1 by (auto simp: window_def)
      then have "px_half d p B low" using k r o h(1-3) f w 1 x by (auto simp: px_half_def window_def)
      from fin [OF px_upper_ok [OF this, folded x(2)]] show ?thesis unfolding get using 1 x o by simp
    next
      case 2
      from fin [OF paged_stay [OF inv(1) _ 2(2)]] show ?thesis unfolding get using 2 o by simp
    next
      case 3
      have "diff + ?k + n \<le> 2 * ?k" "start + (diff + ?k) + n \<le> length B" "start + (diff + ?k) = off" using 3 fit(1) ln(1) low(1) by simp_all
      from px_done_ok [OF paged_stay [OF inv(1) o] this(1,2) n(1) flg] this(3) show ?thesis unfolding get using 3 o k by simp
    next
      case 4
      then have "start + 2 * ?k \<le> length B" using e ln(1) by (auto split: if_splits)
      from fin [OF px_shift_up_ok [OF inv(1) o 4(2) this inv(2), folded 4(1,3)]] show ?thesis unfolding get using 4 o k by simp
    next
      case 5
      have c0: "px_bf_cnt p = 0 \<longrightarrow> e = ?k" using w h(4) k 5 ln(1) e by (auto simp: window_def)
      from fin [OF px_below_ok [OF inv(1) _ inv(2) c0 fit(3)]] show ?thesis unfolding get using 5 o k by simp
    next
      case 6
      then have c: "(px_bf_offset p = OFF_NONE) = False" "(int low = px_bf_offset p) = False" "(?k < px_bf_extent p \<and> int low = px_bf_offset p + int ?k) = False"
        "(int low = px_bf_offset p - int ?k) = False" unfolding o by auto
      show ?thesis unfolding get c if_False by (rule fin [OF px_elsewhere_ok [OF inv(1) o inv(2) fit(2) low(3) ln(2)]])
    qed
  qed
qed

subsection \<open>The driver keeps the contract\<close>

lemma nth_blit: "p + length buf \<le> length xs \<Longrightarrow> i < length xs \<Longrightarrow> blit xs p buf ! i = (if p \<le> i \<and> i < p + length buf then buf ! (i - p) else xs ! i)"
  by (auto simp: blit_def nth_append min_def)

lemma window_blit:
  assumes "window B off e c b" "i + length buf \<le> c" "c \<le> length b"
  shows "window (blit B (off + i) buf) off e c (blit b i buf)"
proof -
  have n: "b ! j = B ! (off + j)" if "j < c" for j
    using assms(1) that nth_take [of j c b] nth_take [of j c "drop off B"] by (auto simp: window_def)
  have "take c (blit b i buf) = take c (drop off (blit B (off + i) buf))"
    using assms n by (intro nth_equalityI) (auto simp: window_def nth_blit)
  then show ?thesis using assms by (simp add: window_def)
qed

lemma covers_blit:
  assumes "covers f B off c" "off \<le> p" "p + length buf \<le> off + c"
  shows "covers f (blit B p buf) off c"
  using assms by (auto simp: covers_def nth_blit)

definition px_bytes :: "NCPX \<Rightarrow> string" where
  "px_bytes s = (let p = pxf_main s; f = d_bytes (pxf_disk s) in
     if px_dirty p then overlay f (nat (px_bf_offset p)) (take (px_bf_cnt p) (the (px_bf_base p))) else f)"

lemma px_sane_bytes: "px_sane (pxf_disk s) (pxf_main s) B \<Longrightarrow> px_bytes s = B"
proof (cases "px_dirty (pxf_main s)")
  case True
  assume "px_sane (pxf_disk s) (pxf_main s) B"
  with True obtain b off where o: "px_bf_base (pxf_main s) = Some b" "px_bf_offset (pxf_main s) = int off"
      "window B off (px_bf_extent (pxf_main s)) (px_bf_cnt (pxf_main s)) b" "covers (d_bytes (pxf_disk s)) B off (px_bf_cnt (pxf_main s))"
    by (auto simp: px_sane_def split: if_splits)
  have "take (px_bf_cnt (pxf_main s)) b = take (px_bf_cnt (pxf_main s)) (drop off B)" using o(3) by (simp add: window_def)
  then show ?thesis using overlay_covers [OF o(4)] True o(1,2) by (simp add: px_bytes_def Let_def)
next
  case False
  assume "px_sane (pxf_disk s) (pxf_main s) B"
  with False show ?thesis by (auto simp: px_sane_def px_bytes_def Let_def split: if_splits)
qed

text \<open>\<open>px_usable s limit k B\<close>: \<open>k\<close> regions are out, and the contents are \<open>B\<close>.\<close>

definition px_usable :: "nat \<Rightarrow> NCPX \<Rightarrow> int \<Rightarrow> string \<Rightarrow> bool" where
  "px_usable limit s k B \<longleftrightarrow> fIsSet (pxf_ioflags s) NC_WRITE \<and> limit \<le> px_blksz (pxf_main s) \<and> int limit < X_INT_MAX \<and>
     px_bf_refcount (pxf_main s) = k \<and> px_sane (pxf_disk s) (pxf_main s) B"

definition px_ok :: "nat \<Rightarrow> NCPX \<Rightarrow> bool" where
  "px_ok limit s \<longleftrightarrow> px_usable limit s 0 (px_bytes s)"

text \<open>A region is out: it lies in the buffer, which may be modified if the region was asked for with \<open>RGN_WRITE\<close>.\<close>

definition px_held :: "nat \<Rightarrow> NCPX \<Rightarrow> int \<Rightarrow> nat \<Rightarrow> int \<Rightarrow> bool" where
  "px_held limit s off n flg \<longleftrightarrow> px_usable limit s 1 (px_bytes s) \<and> 0 < n \<and> (flg = RGN_WRITE \<longrightarrow> fIsSet (px_bf_rflags (pxf_main s)) RGN_WRITE) \<and>
     (\<exists>start place. px_bf_offset (pxf_main s) = int start \<and> off = int (start + place) \<and> place + n \<le> px_bf_cnt (pxf_main s))"

lemma px_usableD: "px_usable limit s k B \<Longrightarrow> px_bytes s = B"
  by (simp add: px_usable_def px_sane_bytes)

lemma ncio_px_get_ok:
  assumes s: "px_ok limit s" and n: "0 \<le> off" "0 < n" "n \<le> limit" "nat off + n \<le> length (px_bytes s)" and flg: "\<not> fIsSet flg RGN_MODIFIED"
  shows "\<exists>s'. ncio_px_get malloc s off n flg = Done (NC_NOERR, take n (drop (nat off) (px_bytes s)), s') \<and> px_held limit s' off n flg \<and> px_bytes s' = px_bytes s"
proof -
  let ?B = "px_bytes s"
  have u: "px_usable limit s 0 ?B" using s by (simp add: px_ok_def)
  have k: "n \<le> px_blksz (pxf_main s)" "int n < X_INT_MAX" using u n(3) by (auto simp: px_usable_def)
  have "got ?B (nat off) n flg (pxf_main s) (px_get malloc (pxf_disk s) (pxf_main s) (int (nat off)) n flg)"
    by (rule px_get_ok) (use u n k flg in \<open>auto simp: px_usable_def\<close>)
  then obtain start place p d where g: "px_get malloc (pxf_disk s) (pxf_main s) off n flg = Done (NC_NOERR, place, p, d)" "px_sane d p ?B"
      "px_bf_offset p = int start" "start + place = nat off" "place + n \<le> px_bf_cnt p" "px_blksz p = px_blksz (pxf_main s)"
      "px_bf_refcount p = px_bf_refcount (pxf_main s) + 1" "\<forall>w. fIsSet flg w \<longrightarrow> fIsSet (px_bf_rflags p) w"
    using n(1) by (auto simp: got_def)
  let ?s = "s\<lparr>pxf_main := p, pxf_slave := None, pxf_disk := d\<rparr>"
  from px_saneD [OF g(2,3)] obtain b where b: "px_bf_base p = Some b" "length b = 2 * px_blksz p" "px_bf_extent p = px_blksz p \<or> px_bf_extent p = 2 * px_blksz p"
      "window ?B start (px_bf_extent p) (px_bf_cnt p) b" by metis
  have "place + n \<le> length b" using b(2,3,4) g(5) by (auto simp: window_def)
  then have r: "mem_read (px_bf_base p) place n = Done (take n (drop (nat off) ?B))"
    using window_slice [OF b(4) g(5)] g(4) b(1) by (simp add: mem_read_def)
  have us: "px_usable limit ?s 1 ?B" using u g(2,6,7) by (simp add: px_usable_def)
  have off: "off = int (start + place)" using g(4) n(1) by simp
  have "px_held limit ?s off n flg" unfolding px_held_def px_usableD [OF us]
    using us n(2) g(3,5,8) off by (auto simp: fIsSet_def)
  moreover have "ncio_px_get malloc s off n flg = Done (NC_NOERR, take n (drop (nat off) ?B), ?s)" using u g(1) r by (simp add: ncio_px_get_def px_usable_def)
  ultimately show ?thesis using px_usableD [OF us] by blast
qed

lemma ncio_px_rel_ok:
  assumes h: "px_held limit s off (length buf) flg"
    and f: "rflg = 0 \<and> buf = take (length buf) (drop (nat off) (px_bytes s)) \<or> rflg = RGN_MODIFIED \<and> flg = RGN_WRITE"
  shows "\<exists>s'. ncio_px_rel s off buf rflg = Done (NC_NOERR, s') \<and> px_ok limit s' \<and> px_bytes s' = blit (px_bytes s) (nat off) buf"
proof -
  let ?B = "px_bytes s" and ?p = "pxf_main s"
  obtain start place where o: "px_bf_offset ?p = int start" "off = int (start + place)" "place + length buf \<le> px_bf_cnt ?p" using h by (auto simp: px_held_def)
  have u: "px_usable limit s 1 ?B" and n: "0 < length buf" using h by (auto simp: px_held_def)
  have sane: "px_sane (pxf_disk s) ?p ?B" using u by (simp add: px_usable_def)
  from px_saneD [OF this o(1)] obtain b where b: "0 < px_blksz ?p" "px_bf_base ?p = Some b" "length b = 2 * px_blksz ?p" "px_blksz ?p dvd start"
      "px_bf_extent ?p = px_blksz ?p \<or> px_bf_extent ?p = 2 * px_blksz ?p" "disk_ready (pxf_disk s) (px_pos ?p)"
    and w: "window ?B start (px_bf_extent ?p) (px_bf_cnt ?p) b"
    and c: "if px_dirty ?p then covers (d_bytes (pxf_disk s)) ?B start (px_bf_cnt ?p) else d_bytes (pxf_disk s) = ?B" by metis
  have ce: "px_bf_cnt ?p \<le> px_bf_extent ?p" "px_bf_extent ?p \<le> length b" using b(3,5) w by (auto simp: window_def)
  have "place < place + length buf" using n by simp
  then have le: "px_bf_cnt ?p \<le> length b" "place < px_bf_extent ?p" using ce o(3) by linarith+
  let ?r = "if fIsSet rflg RGN_MODIFIED then fSet (px_bf_rflags ?p) RGN_MODIFIED else px_bf_rflags ?p"
  let ?q = "?p\<lparr>px_bf_base := Some (blit b place buf), px_bf_rflags := ?r, px_bf_refcount := px_bf_refcount ?p - 1\<rparr>"
  let ?s = "s\<lparr>pxf_main := ?q\<rparr>" and ?B' = "blit ?B (start + place) buf"
  have noff: "nat (off - px_bf_offset ?p) = place" "nat off = start + place" using o(1,2) by simp_all
  have perm: "fIsSet rflg RGN_MODIFIED \<longrightarrow> fIsSet (px_bf_rflags ?p) RGN_WRITE" using f h by (auto simp: px_held_def fIsSet_def)
  have inside: "place + length buf \<le> length b" using le o(3) by simp
  have run: "ncio_px_rel s off buf rflg = Done (NC_NOERR, ?s)"
    using b(2) u o(1,2) le perm inside unfolding ncio_px_rel_def Let_def noff
    by (cases "fIsSet rflg RGN_MODIFIED") (simp_all add: mem_write_def px_usable_def px_rel_def)
  have cov: "covers (d_bytes (pxf_disk s)) ?B start (px_bf_cnt ?p)"
  proof (cases "px_dirty ?p")
    case False
    have "place < place + length buf" using n by simp
    then have "0 < px_bf_cnt ?p" using o(3) by linarith
    with False show ?thesis using c w covers_same [of "px_bf_cnt ?p" start ?B] by (simp add: window_def)
  qed (use c in simp)
  have bl: "window ?B' start (px_bf_extent ?p) (px_bf_cnt ?p) (blit b place buf)" using window_blit [OF w o(3) le(1)] .
  have "if px_dirty ?q then covers (d_bytes (pxf_disk s)) ?B' start (px_bf_cnt ?p) else d_bytes (pxf_disk s) = ?B'"
  proof (cases "px_dirty ?q")
    case True
    then show ?thesis using covers_blit [OF cov, of "start + place" buf] o(3) by simp
  next
    case False
    have set: "fIsSet (fSet x RGN_MODIFIED) RGN_MODIFIED" for x by (simp add: fSet_def fIsSet_or) (simp add: fIsSet_def)
    have nm: "\<not> fIsSet rflg RGN_MODIFIED" using False set by (cases "fIsSet rflg RGN_MODIFIED") simp_all
    with False have nm: "\<not> fIsSet rflg RGN_MODIFIED" "\<not> px_dirty ?p" by simp_all
    then have "buf = take (length buf) (drop (start + place) ?B)" using f noff by (auto simp: fIsSet_def)
    moreover have "start + place + length buf \<le> length ?B" using w o(3) by (auto simp: window_def)
    ultimately have "?B' = ?B" using blit_same by metis
    then show ?thesis using False c nm(2) by simp
  qed
  then have "px_sane (pxf_disk s) ?q ?B'" using b o(1) bl inside by (cases "px_dirty ?q") (simp_all add: px_sane_def)
  then have us: "px_usable limit ?s 0 ?B'" using u by (simp add: px_usable_def)
  with run noff show ?thesis using px_usableD [OF us] by (auto simp: px_ok_def)
qed

text \<open>
  A move whose source and destination together fit the limit is done in the buffer, whatever the overlap. It does not free the slave as \<open>get\<close>
  does, which makes no difference to the contents.
\<close>

lemma px_slave_free: "px_ok limit (s\<lparr>pxf_slave := q\<rparr>) = px_ok limit s" "px_bytes (s\<lparr>pxf_slave := q\<rparr>) = px_bytes s"
  by (simp_all add: px_ok_def px_usable_def px_bytes_def)

lemma ncio_px_move_ok:
  assumes s: "px_ok limit s" and r: "0 \<le> to" "0 \<le> from_off" "nat to + n \<le> length (px_bytes s)" "nat from_off + n \<le> length (px_bytes s)"
    and small: "nat \<bar>to - from_off\<bar> + n \<le> limit" and flg: "and flg RGN_NOLOCK = 0"
  shows "\<exists>s'. ncio_px_move malloc s to from_off n flg = Done (NC_NOERR, s') \<and> px_ok limit s' \<and>
    px_bytes s' = blit (px_bytes s) (nat to) (take n (drop (nat from_off) (px_bytes s)))"
proof (cases "to = from_off")
  case True
  then show ?thesis using s r by (simp add: ncio_px_move_def blit_same)
next
  case False
  let ?B = "px_bytes s"
  define up where "up \<longleftrightarrow> from_off < to"
  define lower where "lower = (if up then from_off else to)"
  define diff where "diff = nat ((if up then to else from_off) - lower)"
  have lim: "int limit < X_INT_MAX" "limit \<le> px_blksz (pxf_main s)" "fIsSet (pxf_ioflags s) NC_WRITE" using s by (simp_all add: px_ok_def px_usable_def)
  have a: "0 \<le> lower" "0 < diff" "nat lower + diff + n \<le> length ?B" "diff + n \<le> limit"
      "nat (u64 ((if up then to else from_off) - lower)) = diff" "nat (u64 (int (diff + n))) = diff + n"
    using False r small lim(1) by (auto simp: lower_def diff_def up_def u64_id)
  have "\<not> fIsSet RGN_WRITE RGN_MODIFIED" by (simp add: fIsSet_def)
  with ncio_px_get_ok [OF s a(1) _ a(4), of RGN_WRITE malloc] a(2,3) obtain s1 where
    g: "ncio_px_get malloc s lower (diff + n) RGN_WRITE = Done (NC_NOERR, take (diff + n) (drop (nat lower) ?B), s1)" "px_held limit s1 lower (diff + n) RGN_WRITE"
      "px_bytes s1 = ?B" by auto
  let ?new = "move_in up diff n (take (diff + n) (drop (nat lower) ?B))"
  have len: "length ?new = diff + n" using a(3) by (auto simp: move_in_def)
  with ncio_px_rel_ok [of limit s1 lower ?new RGN_WRITE RGN_MODIFIED] g(2,3) obtain s2 where
    w: "ncio_px_rel s1 lower ?new RGN_MODIFIED = Done (NC_NOERR, s2)" "px_ok limit s2" "px_bytes s2 = blit ?B (nat lower) ?new" by auto
  have new: "blit ?B (nat lower) ?new = blit ?B (nat to) (take n (drop (nat from_off) ?B))"
  proof -
    have "nat lower + diff = nat (if up then to else from_off)" using r by (auto simp: lower_def diff_def up_def nat_diff_distrib)
    then show ?thesis using move_in_blit [OF a(3), of up] by (auto simp: lower_def)
  qed
  have "got ?B (nat lower) (diff + n) RGN_WRITE (pxf_main s) (px_get malloc (pxf_disk s) (pxf_main s) (int (nat lower)) (diff + n) RGN_WRITE)"
    by (rule px_get_ok) (use s a lim in \<open>auto simp: px_ok_def px_usable_def fIsSet_def\<close>)
  then obtain start place p d where pg: "px_get malloc (pxf_disk s) (pxf_main s) lower (diff + n) RGN_WRITE = Done (NC_NOERR, place, p, d)"
      "px_bf_offset p = int start" "start + place = nat lower"
    using a(1) by (auto simp: got_def)
  have pl: "nat (lower - px_bf_offset p) = place" using pg(2,3) a(1) by simp
  have rd: "mem_read (px_bf_base p) place (diff + n) = Done (take (diff + n) (drop (nat lower) ?B))" and s1: "s1 = s\<lparr>pxf_main := p, pxf_slave := None, pxf_disk := d\<rparr>"
    using g(1) lim(3) by (auto simp: ncio_px_get_def pg(1) Let_def run_bind_Done)
  obtain base p1 where wr: "mem_write (px_bf_base p) place ?new = Done base" "px_rel (p\<lparr>px_bf_base := base\<rparr>) lower RGN_MODIFIED = Done p1"
      "s2 = s1\<lparr>pxf_main := p1\<rparr>"
    using w(1) lim(3) by (auto simp: ncio_px_rel_def Let_def run_bind_Done s1 pl)
  let ?s = "s\<lparr>pxf_main := p1, pxf_disk := d\<rparr>"
  have "ncio_px_move malloc s to from_off n flg = Done (NC_NOERR, ?s)"
  proof -
    have le: "\<not> px_blksz (pxf_main s) < diff + n" using a(4) lim(2) by simp
    show ?thesis using False lim(3)
      unfolding ncio_px_move_def Let_def up_def [symmetric] lower_def [symmetric] a(5,6) if_not_P [OF le] flg or.right_neutral pg(1)
      by (simp add: rd wr(1,2))
  qed
  moreover have "s2 = ?s\<lparr>pxf_slave := None\<rparr>" by (simp add: wr(3) s1)
  ultimately show ?thesis using w(2,3) new px_slave_free by metis
qed

text \<open>\<open>sync\<close> writes the buffer: what the file holds then is the contents.\<close>

lemma ncio_px_sync_ok:
  assumes "px_ok limit s"
  shows "\<exists>s'. ncio_px_sync s = Done (NC_NOERR, s') \<and> px_ok limit s' \<and> px_bytes s' = px_bytes s \<and> d_bytes (pxf_disk s') = px_bytes s"
proof -
  let ?B = "px_bytes s" and ?p = "pxf_main s"
  have u: "px_usable limit s 0 ?B" and sane: "px_sane (pxf_disk s) ?p ?B" using assms by (simp_all add: px_ok_def px_usable_def)
  have conc: ?thesis if "ncio_px_sync s = Done (NC_NOERR, s')" "px_usable limit s' 0 ?B" "\<not> px_dirty (pxf_main s')" for s'
    using that px_usableD [OF that(2)] by (auto simp: px_ok_def px_bytes_def Let_def)
  show ?thesis
  proof (cases "px_dirty ?p")
    case True
    then obtain start where o: "px_bf_offset ?p = int start" using sane by (auto simp: px_sane_def split: if_splits)
    from px_saneD [OF sane this] obtain b where b: "0 < px_blksz ?p" "disk_ready (pxf_disk s) (px_pos ?p)" "px_bf_base ?p = Some b" "length b = 2 * px_blksz ?p"
        "px_blksz ?p dvd start" "px_bf_extent ?p = px_blksz ?p \<or> px_bf_extent ?p = 2 * px_blksz ?p"
      and w: "window ?B start (px_bf_extent ?p) (px_bf_cnt ?p) b"
      and c: "if px_dirty ?p then covers (d_bytes (pxf_disk s)) ?B start (px_bf_cnt ?p) else d_bytes (pxf_disk s) = ?B" by metis
    have le: "0 + px_bf_cnt ?p \<le> length b" using b(4,6) w by (auto simp: window_def)
    have rc: "px_bf_refcount ?p \<le> 0" using u by (simp add: px_usable_def)
    obtain d posp where fl: "px_flush_dirty (pxf_disk s) ?p (int start) 0 (px_bf_cnt ?p) = Done (NC_NOERR, ?p\<lparr>px_pos := posp\<rparr>, d)" "disk_ready d posp"
        "d_bytes d = (if px_dirty ?p then overlay (d_bytes (pxf_disk s)) start (take (px_bf_cnt ?p) (drop 0 b)) else d_bytes (pxf_disk s))"
      using px_flush_dirty_ok [OF b(2,3) le rc] by blast
    have B: "d_bytes d = ?B" using fl(3) True c w overlay_covers [of "d_bytes (pxf_disk s)" ?B start "px_bf_cnt ?p"] by (simp add: window_def)
    let ?s = "s\<lparr>pxf_main := ?p\<lparr>px_pos := posp, px_bf_rflags := 0\<rparr>, pxf_disk := d\<rparr>"
    have nd: "\<not> fIsSet 0 RGN_MODIFIED" by (simp add: fIsSet_def)
    have "px_sane d (?p\<lparr>px_pos := posp, px_bf_rflags := 0\<rparr>) ?B" using b o w fl(2) B nd by (simp add: px_sane_def)
    then have "px_usable limit ?s 0 ?B" using u by (simp add: px_usable_def)
    then show ?thesis by (rule conc [rotated]) (use True fl(1) o nd in \<open>simp_all add: ncio_px_sync_def Let_def\<close>)
  next
    case False
    show ?thesis
    proof (cases "fIsSet (px_bf_rflags ?p) RGN_WRITE")
      case True
      then show ?thesis by (intro conc [OF _ u False]) (simp add: ncio_px_sync_def False)
    next
      case nw: False
      let ?s = "s\<lparr>pxf_main := ?p\<lparr>px_bf_offset := OFF_NONE, px_bf_cnt := 0\<rparr>\<rparr>"
      have "px_sane (pxf_disk s) (?p\<lparr>px_bf_offset := OFF_NONE, px_bf_cnt := 0\<rparr>) ?B" using sane False by (auto simp: px_sane_def split: if_splits)
      then have "px_usable limit ?s 0 ?B" using u by (simp add: px_usable_def)
      then show ?thesis by (rule conc [rotated]) (use False nw in \<open>simp_all add: ncio_px_sync_def Let_def\<close>)
    qed
  qed
qed

interpretation px: ncio_region "px_io malloc" "px_ok limit" px_bytes "px_held limit" limit for malloc limit
proof
  fix s off flg and n :: nat
  assume a: "px_ok limit s" "0 \<le> off" "0 < n" "n \<le> limit" "nat off + n \<le> length (px_bytes s)" "flg = 0 \<or> flg = RGN_WRITE"
  then have "\<not> fIsSet flg RGN_MODIFIED" by (auto simp: fIsSet_def)
  from ncio_px_get_ok [OF a(1-5) this, of malloc]
  show "\<exists>s'. io_get (px_io malloc) s off n flg = Done (NC_NOERR, take n (drop (nat off) (px_bytes s)), s') \<and> px_held limit s' off n flg \<and> px_bytes s' = px_bytes s"
    by (simp add: px_io_def)
next
  fix s off flg rflg and buf :: string
  assume "px_held limit s off (length buf) flg" "rflg = 0 \<and> buf = take (length buf) (drop (nat off) (px_bytes s)) \<or> rflg = RGN_MODIFIED \<and> flg = RGN_WRITE"
  from ncio_px_rel_ok [OF this] show "\<exists>s'. io_rel (px_io malloc) s off buf rflg = Done (NC_NOERR, s') \<and> px_ok limit s' \<and> px_bytes s' = blit (px_bytes s) (nat off) buf"
    by (simp add: px_io_def)
next
  fix s assume "px_ok limit s"
  from ncio_px_sync_ok [OF this] show "\<exists>s'. io_sync (px_io malloc) s = Done (NC_NOERR, s') \<and> px_ok limit s' \<and> px_bytes s' = px_bytes s"
    by (auto simp: px_io_def)
qed

end
