(* ===== verification/NC_Disk.thy ===== *)
theory NC_Disk
  imports NC_Pxbuf NC3_Transfer
begin

text \<open>
  What the drivers for disk files promise their clients: a sequence of reads, writes and syncs has the results it would have on a flat array of
  bytes, and the values the classic layer puts into a variable arrive in the file.
\<close>

subsection \<open>Sessions\<close>

text \<open>What a client does with a driver: a region is asked for and given back unchanged, or with new contents; \<open>sync\<close>.\<close>

datatype io_op = Io_read int nat | Io_write int string | Io_sync

fun io_step :: "'s ncio \<Rightarrow> io_op \<Rightarrow> 's \<Rightarrow> ((int \<times> string) \<times> 's) run" where
  "io_step io (Io_read off n) s = run_bind (io_get io s off n 0) (\<lambda>(st, buf, s1). if st \<noteq> NC_NOERR then Done ((st, []), s1)
     else run_bind (io_rel io s1 off buf 0) (\<lambda>(st, s2). Done ((st, buf), s2)))"
| "io_step io (Io_write off buf) s = run_bind (io_get io s off (length buf) RGN_WRITE) (\<lambda>(st, _, s1). if st \<noteq> NC_NOERR then Done ((st, []), s1)
     else run_bind (io_rel io s1 off buf RGN_MODIFIED) (\<lambda>(st, s2). Done ((st, []), s2)))"
| "io_step io Io_sync s = run_bind (io_sync io s) (\<lambda>(st, s1). Done ((st, []), s1))"

fun io_run :: "'s ncio \<Rightarrow> io_op list \<Rightarrow> 's \<Rightarrow> ((int \<times> string) list \<times> 's) run" where
  "io_run io [] s = Done ([], s)"
| "io_run io (op # ops) s = run_bind (io_step io op s) (\<lambda>(r, s1). run_bind (io_run io ops s1) (\<lambda>(rs, s2). Done (r # rs, s2)))"

text \<open>The same on a flat array, and the operations that stay inside it and within the driver's limit.\<close>

fun flat_step :: "io_op \<Rightarrow> string \<Rightarrow> (int \<times> string) \<times> string" where
  "flat_step (Io_read off n) b = ((NC_NOERR, take n (drop (nat off) b)), b)"
| "flat_step (Io_write off buf) b = ((NC_NOERR, []), blit b (nat off) buf)"
| "flat_step Io_sync b = ((NC_NOERR, []), b)"

fun flat_run :: "io_op list \<Rightarrow> string \<Rightarrow> (int \<times> string) list \<times> string" where
  "flat_run [] b = ([], b)"
| "flat_run (op # ops) b = (let (r, b1) = flat_step op b; (rs, b2) = flat_run ops b1 in (r # rs, b2))"

fun op_fits :: "nat \<Rightarrow> nat \<Rightarrow> io_op \<Rightarrow> bool" where
  "op_fits limit len (Io_read off n) \<longleftrightarrow> 0 \<le> off \<and> 0 < n \<and> n \<le> limit \<and> nat off + n \<le> len"
| "op_fits limit len (Io_write off buf) \<longleftrightarrow> 0 \<le> off \<and> buf \<noteq> [] \<and> length buf \<le> limit \<and> nat off + length buf \<le> len"
| "op_fits limit len Io_sync \<longleftrightarrow> True"

context ncio_region
begin

lemma step_flat:
  assumes "ok s" "op_fits limit (length (bytes s)) op"
  shows "\<exists>s'. io_step io op s = Done (fst (flat_step op (bytes s)), s') \<and> ok s' \<and> bytes s' = snd (flat_step op (bytes s)) \<and> length (bytes s') = length (bytes s)"
proof (cases op)
  case (Io_read off n)
  have a: "0 \<le> off" "0 < n" "n \<le> limit" "nat off + n \<le> length (bytes s)" using assms(2) Io_read by auto
  obtain s1 where g: "io_get io s off n 0 = Done (NC_NOERR, take n (drop (nat off) (bytes s)), s1)" "held s1 off n 0" "bytes s1 = bytes s"
    using get_law [OF assms(1) a, of 0] by auto
  have len: "length (take n (drop (nat off) (bytes s))) = n" using a(4) by simp
  have "held s1 off (length (take n (drop (nat off) (bytes s)))) 0" using g(2) len by simp
  from rel_law [OF this, of 0] len g(3) obtain s2 where "io_rel io s1 off (take n (drop (nat off) (bytes s))) 0 = Done (NC_NOERR, s2)" "ok s2"
      "bytes s2 = blit (bytes s) (nat off) (take n (drop (nat off) (bytes s)))" by auto
  with g(1) a(4) Io_read show ?thesis by (simp add: blit_same)
next
  case (Io_write off buf)
  have a: "0 \<le> off" "0 < length buf" "length buf \<le> limit" "nat off + length buf \<le> length (bytes s)" using assms(2) Io_write by auto
  obtain b s1 where g: "io_get io s off (length buf) RGN_WRITE = Done (NC_NOERR, b, s1)" "held s1 off (length buf) RGN_WRITE" "bytes s1 = bytes s"
    using get_law [OF assms(1) a, of RGN_WRITE] by auto
  from rel_law [OF g(2), of RGN_MODIFIED] g(3) obtain s2 where "io_rel io s1 off buf RGN_MODIFIED = Done (NC_NOERR, s2)" "ok s2" "bytes s2 = blit (bytes s) (nat off) buf"
    by auto
  with g(1) a(4) Io_write show ?thesis by simp
next
  case Io_sync
  from sync_law [OF assms(1)] obtain s' where "io_sync io s = Done (NC_NOERR, s')" "ok s'" "bytes s' = bytes s" by blast
  with Io_sync show ?thesis by simp
qed

lemma session_flat:
  assumes "ok s" "\<forall>op \<in> set ops. op_fits limit (length (bytes s)) op"
  shows "\<exists>s'. io_run io ops s = Done (fst (flat_run ops (bytes s)), s') \<and> ok s' \<and> bytes s' = snd (flat_run ops (bytes s))"
  using assms
proof (induction ops arbitrary: s)
  case (Cons op ops)
  have "op_fits limit (length (bytes s)) op" using Cons.prems(2) by simp
  from step_flat [OF Cons.prems(1) this] obtain s1 where s1: "io_step io op s = Done (fst (flat_step op (bytes s)), s1)" "ok s1"
    "bytes s1 = snd (flat_step op (bytes s))" "length (bytes s1) = length (bytes s)" by blast
  have "\<forall>op \<in> set ops. op_fits limit (length (bytes s1)) op" using Cons.prems(2) s1(4) by simp
  from Cons.IH [OF s1(2) this] obtain s2 where "io_run io ops s1 = Done (fst (flat_run ops (bytes s1)), s2)" "ok s2" "bytes s2 = snd (flat_run ops (bytes s1))" by blast
  with s1(1,3) show ?case by (simp add: split_beta Let_def)
qed simp

end

text \<open>
  C22: the buffered disk driver is transparent. For a file opened for writing whose system calls do what they are asked for, any sequence of reads,
  writes and syncs of regions inside the file, each at most one block long, returns the bytes it would return on a flat array, whatever blocks
  the regions lie in and however the driver pages them in and out of its buffer of two blocks; and after \<open>sync\<close> the file on disk holds exactly
  that array.
\<close>

theorem px_session:
  assumes "px_ok limit s" "\<forall>op \<in> set ops. op_fits limit (length (px_bytes s)) op"
  shows "\<exists>s1 s2. io_run (px_io malloc) ops s = Done (fst (flat_run ops (px_bytes s)), s1) \<and>
    ncio_px_sync s1 = Done (NC_NOERR, s2) \<and> d_bytes (pxf_disk s2) = snd (flat_run ops (px_bytes s))"
proof -
  obtain s1 where s1: "io_run (px_io malloc) ops s = Done (fst (flat_run ops (px_bytes s)), s1)" "px_ok limit s1" "px_bytes s1 = snd (flat_run ops (px_bytes s))"
    using px.session_flat [OF assms] by blast
  from ncio_px_sync_ok [OF s1(2)] s1(1,3) show ?thesis by auto
qed

text \<open>The driver for shared files writes every region through to the disk when it is given back.\<close>

theorem spx_session:
  assumes "spx_ok malloc s" "\<forall>op \<in> set ops. op_fits (length (d_bytes (spx_disk s))) (length (d_bytes (spx_disk s))) op"
  shows "\<exists>s1. io_run (spx_io malloc) ops s = Done (fst (flat_run ops (d_bytes (spx_disk s))), s1) \<and> spx_ok malloc s1 \<and>
    d_bytes (spx_disk s1) = snd (flat_run ops (d_bytes (spx_disk s)))"
  using spx.session_flat [OF assms(1), unfolded spx_bytes_def, OF assms(2)] by blast

text \<open>A file of twelve bytes with blocks of four: a write over the border of the first two blocks, one that moves the buffer up, one below it.\<close>

definition sample_px :: NCPX where
  "sample_px = \<lparr>pxf_ioflags = NC_WRITE, pxf_main = \<lparr>px_blksz = 4, px_pos = -1, px_bf_offset = OFF_NONE, px_bf_extent = 0, px_bf_cnt = 0,
     px_bf_base = Some ''........'', px_bf_rflags = 0, px_bf_refcount = 0\<rparr>, pxf_slave = None,
     pxf_disk = \<lparr>d_bytes = ''abcdefghijkl'', d_pos = 0, d_errno = 0, d_script = []\<rparr>\<rparr>"

lemma sample_px_ok: "px_ok 4 sample_px" "px_bytes sample_px = ''abcdefghijkl''"
  by (simp_all add: px_ok_def px_usable_def px_sane_def sample_px_def px_bytes_def disk_ready_def fIsSet_def)

lemma px_session_witness:
  "\<exists>s1 s2. io_run (px_io (\<lambda>n. None)) [Io_write 3 ''XYZ'', Io_write 7 ''123'', Io_read 2 4, Io_write 0 ''!'', Io_read 8 3] sample_px =
      Done ([(0, []), (0, []), (0, ''cXYZ''), (0, []), (0, ''23k'')], s1) \<and>
    ncio_px_sync s1 = Done (NC_NOERR, s2) \<and> d_bytes (pxf_disk s2) = ''!bcXYZg123kl''"
proof -
  let ?ops = "[Io_write 3 ''XYZ'', Io_write 7 ''123'', Io_read 2 4, Io_write 0 ''!'', Io_read 8 3]"
  have f: "flat_run ?ops ''abcdefghijkl'' = ([(0, []), (0, []), (0, ''cXYZ''), (0, []), (0, ''23k'')], ''!bcXYZg123kl'')" by code_simp
  have "\<forall>op \<in> set ?ops. op_fits 4 (length (px_bytes sample_px)) op" by (simp add: sample_px_ok(2))
  from px_session [OF sample_px_ok(1) this, of "\<lambda>n. None"] show ?thesis unfolding sample_px_ok(2) f fst_conv snd_conv .
qed

text \<open>
  Two large moves in a row are not safe: the second reads its source through the slave buffer that the first one left, which still has the bytes
  from before. Here the first moves sixteen bytes up by four, and the second moves four of them on; it gets the old bytes \<open>efgh\<close> instead of
  \<open>abcd\<close>. \<open>NC_endef\<close> never moves bytes it has moved before.
\<close>

definition sample_px_moves :: NCPX where
  "sample_px_moves = sample_px\<lparr>pxf_disk := (pxf_disk sample_px)\<lparr>d_bytes := ''abcdefghijklmnopqrstuvwx''\<rparr>\<rparr>"

definition px_two_moves :: "(nat \<Rightarrow> string option) \<Rightarrow> NCPX \<Rightarrow> (string \<times> string) run" where
  "px_two_moves malloc s = run_bind (ncio_px_move malloc s 4 0 16 0) (\<lambda>(st1, s1). run_bind (ncio_px_move malloc s1 20 4 4 0) (\<lambda>(st2, s2).
     Done (px_bytes s1, px_bytes s2)))"

lemma px_moves_stale:
  "px_two_moves (\<lambda>n. Some (replicate n NULB)) sample_px_moves = Done (''abcdabcdefghijklmnopuvwx'', ''abcdabcdefghijklmnopefgh'')"
  by code_simp

subsection \<open>The classic layer over a disk file\<close>

interpretation pxc: ncio_client "px_io malloc" "px_ok (nat (chunk ncp))" px_bytes "px_held (nat (chunk ncp))" "nat (chunk ncp)" ncp for malloc ncp
  by unfold_locales simp

interpretation spxc: ncio_client "spx_io malloc" "spx_ok malloc" spx_bytes "spx_held malloc" "nat (chunk ncp)" ncp for malloc ncp
  by unfold_locales simp


text \<open>The sample file on a disk, with blocks of 4096 bytes.\<close>

definition disk_px :: NCPX where
  "disk_px = \<lparr>pxf_ioflags = NC_WRITE, pxf_main = \<lparr>px_blksz = 4096, px_pos = -1, px_bf_offset = OFF_NONE, px_bf_extent = 0, px_bf_cnt = 0,
     px_bf_base = Some (replicate 8192 NULB), px_bf_rflags = 0, px_bf_refcount = 0\<rparr>, pxf_slave = None,
     pxf_disk = \<lparr>d_bytes = replicate 512 CHR ''z'', d_pos = 0, d_errno = 0, d_script = []\<rparr>\<rparr>"

definition disk_files :: "nc3_info \<Rightarrow> NCPX nc3_files" where
  "disk_files ncp = \<lparr>nc_filelist = Some [1 \<mapsto> 0], numfiles = 1,
     objs = [Some \<lparr>ext_ncid = 65536, nc_path = ''f'', nc_mode = 0, nc_model = 1, dispatchdata = Some (ncp, disk_px)\<rparr>]\<rparr>"

lemma disk_files_open: "open_file (disk_files ncp) 65536 0 ncp disk_px"
  by (simp add: open_file_def disk_files_def NC_check_id_def find_in_NCList_def NC_deref_def slot_of_def u32_def)

lemma disk_px_ok: "px_ok 4096 disk_px" "px_bytes disk_px = replicate 512 CHR ''z''" "length (px_bytes disk_px) = length (mio_bytes sample_mio)"
  by (simp_all add: px_ok_def px_usable_def px_sane_def disk_px_def px_bytes_def disk_ready_def fIsSet_def sample_mio_ok(2))


end
