(* ===== verification/Spec2Isabelle.thy ===== *)
theory Spec2Isabelle
  imports NC_List NC_Hash NC_Calls NC_Mapped NC_Floats NC_Disk
begin

text \<open>
  A model of the classic part of the netCDF C library: what happens between a call such as \<open>nc_put_vara\<close> and the bytes of a file in
  one of the formats CDF-1, CDF-2 and CDF-5. All paths below are under \<open>src/\<close>.

  \<^bold>\<open>The program.\<close> A program opens a file through the dispatcher (\<open>libdispatch/dfile.c\<close>), which looks at the flags and the first bytes of the
  file, makes an \<open>NC\<close> structure, enters it into the table of open files (\<open>libdispatch/nclistmgr.c\<close>, \<open>nc.c\<close>) and hands over to the
  implementation of the format, here \<open>libsrc/\<close>. That keeps an \<open>NC3_INFO\<close> (\<open>include/nc3internal.h\<close>) with three arrays, of dimensions,
  attributes and variables (\<open>dim.c\<close>, \<open>attr.c\<close>, \<open>var.c\<close>), each but the attributes with an index of the names (\<open>libdispatch/nchashmap.c\<close>). In
  define mode the arrays grow; leaving it (\<open>NC_endef\<close> in \<open>nc3internal.c\<close>) lays the variables out in the file, moves old data and
  writes the header (\<open>v1hpg.c\<close>). In data mode \<open>putget.c\<close> moves rectangles of values, which \<open>ncx.c\<close> converts between the external
  representation and the C types. All file access goes through the table of functions \<open>ncio\<close> (\<open>ncio.h\<close>), which a driver fills in; the
  one for files in memory is \<open>memio.c\<close>, the ones for files on disk are in \<open>posixio.c\<close>.

  \<^bold>\<open>Theories and code.\<close>
  \<^item> \<open>NC_Prelude\<close>: the outcome \<open>run\<close> of code that may not return normally (\<open>Done\<close> a result, \<open>Fault\<close> a failed assertion or an access outside
    allocated memory, \<open>Loop\<close> no return), machine integers, bytes in big-endian order, \<open>blit\<close>.
  \<^item> \<open>NC_List\<close>: \<open>nclist.c\<close>, refining stacks (locale \<open>ptr_stack\<close>). \<open>NC_Primes\<close>, \<open>NC_Hash\<close>: \<open>nchashmap.c\<close>, refining finite maps (locale \<open>name_map\<close>).
  \<^item> \<open>NC3_Types\<close>: the records of \<open>nc3internal.h\<close>, its flag macros. \<open>NC_String\<close>: \<open>dstring.c\<close>.
  \<^item> \<open>NC3_Dim\<close>, \<open>NC3_Attr\<close>, \<open>NC3_Var\<close>: the arrays, and shapes and size checks of variables. \<open>NC3_Define\<close>: the calls that define, rename and
    inquire them. \<open>NC3_Attval\<close>: the values of attributes and fill values; \<open>NC3_Values\<close>: what the calls on values keep of the mode.
  \<^item> \<open>NC_Ncio\<close>: the table of functions \<open>ncio\<close> and the laws its clients rely on: \<open>ncio_region\<close> for reading and writing regions up to a
    limit, \<open>ncio_store\<close>, which adds moving bytes, and in \<open>NC3_Piece\<close> \<open>ncio_client\<close>, which adds that a chunk fits the limit. \<open>NC3_Memio\<close>: the
    driver for memory, which satisfies them (interpretations \<open>mio\<close>, \<open>mioc\<close>).
  \<^item> \<open>NC_Posixio\<close>, \<open>NC_Pxbuf\<close>: the two drivers for disk files of \<open>posixio.c\<close>, over a file as \<open>lseek\<close>, \<open>read\<close> and \<open>write\<close> show it: the one for
    \<open>NC_SHARE\<close>, which writes through (interpretations \<open>spx\<close>, \<open>spxc\<close>), and the one with a buffer of two blocks (\<open>px\<close>, \<open>pxc\<close>). \<open>NC_Disk\<close>: sessions
    with a driver, and the way from \<open>NC3_put_vara\<close> to the disk.
  \<^item> \<open>NC3_Header\<close>, \<open>NC3_Codec\<close>, \<open>NC3_File\<close>: writing and reading the header, its specification as a function from data to bytes, and the
    checks on sizes and offsets.
  \<^item> \<open>NC3_Layout\<close>, \<open>NC3_Endef\<close>: \<open>NC_begins\<close>, \<open>NC_endef\<close>, moving and filling. \<open>NC3_State\<close>: create, open, redef, enddef, sync, abort, close.
  \<^item> \<open>NC_Convert\<close>, \<open>NC_Floats\<close>: the conversions of \<open>ncx.c\<close> for all pairs of types, IEEE floating point included.
  \<^item> \<open>NC3_Data\<close>: \<open>putget.c\<close>; \<open>NC3_Coords\<close>, \<open>NC3_Slab\<close>, \<open>NC3_Piece\<close>, \<open>NC3_Vara\<close>, \<open>NC3_Access\<close>, \<open>NC3_Store\<close>, \<open>NC3_Rw\<close>, \<open>NC3_Transfer\<close>: rectangles as lists of
    coordinates, the odometer, places of elements, one contiguous piece, and from these what \<open>NC3_get_vara\<close> and \<open>NC3_put_vara\<close> do.
  \<^item> \<open>NC_Vars\<close>: \<open>libdispatch/dvarget.c\<close>, \<open>dvarput.c\<close> and the parts of \<open>dvar.c\<close> they use: \<open>NULL\<close> arguments and strided access; \<open>NC_Odometer\<close>,
    \<open>NC_Strided\<close>: what the loops over single values visit, read and write. \<open>NC_Varm\<close>: mapped access, \<open>NC_Mapped\<close>: that it gathers and scatters.
  \<^item> \<open>NC_Files\<close>, \<open>NC_Dfile\<close>, \<open>NC_Calls\<close>: the table of open files, the dispatcher, and sequences of calls as a transition relation.

  \<^bold>\<open>How state and operations correspond.\<close> A C structure is a record with the source's fields, an array with its length a list. A handler takes the
  table of open files and returns the status, its results and the new table; \<open>with_nc3\<close> is the part every handler begins with. Every early
  return is a branch. \<open>malloc\<close> may fail: \<open>env_mem\<close> of \<open>nc_env\<close> says which sizes it grants. \<open>int\<close>, \<open>size_t\<close> and \<open>off_t\<close> have 32, 64 and 64 bits
  (\<open>s32\<close>, \<open>u64\<close>, \<open>s64\<close> are the casts and the wrap-around). The build modelled is the classic one, with CDF-5, without \<open>LOCKNUMREC\<close>,
  \<open>USE_REFCOUNT\<close>, \<open>USE_PARALLEL\<close> and \<open>ERANGE_FILL\<close>; \<open>RELAX_COORD_BOUND\<close> is an argument. Parameters stand for \<open>crc32\<close>, UTF-8 validation and
  normalization, the system calls that open and close files, the page size and, as \<open>ub\<close>, the result of a cast that C leaves undefined.

  \<^bold>\<open>What the lemmas show.\<close>
  \<^item> Data structures: well-formedness is kept by every operation; lookups after insertion and removal, also through rehashing and deleted slots.
  \<^item> Define calls: the order of the errors, that a failing call changes nothing, and the exact new header otherwise.
  \<^item> Header: the writer produces the bytes specified, as many as computed in advance, and the reader gives the same data back.
  \<^item> Layout: a new file has no gaps, after a redef no variable moves down, and moving keeps all data although source and destination overlap.
  \<^item> Conversions: integers are exact or reported with \<open>NC_ERANGE\<close>, in both directions; floats stored as doubles come back; reading floats into
    integers truncates.
  \<^item> Data: the checks accept exactly the rectangles inside the shape; a rectangle is read and written element by element at places that do
    not overlap, hence values written are read back; the same for strided access, which goes element by element in the code as well, and for mapped
    access with a map whose places are inside the caller's array and whose steps fit an \<open>int\<close>.
  \<^item> Disk: the buffered driver behaves like a flat array of bytes, which is in the file after \<open>sync\<close>; hence values written are on disk then. Its large
    moves, through a second buffer, are modelled but not proved right in general; over the memory driver and the unbuffered one moves are.
  \<^item> Calls: any sequence of calls that return keeps the table of open files and every header well-formed.
  \<^item> Where the code does not do what it means to, a theorem states what it does instead.

  \<^bold>\<open>Bounds.\<close> Loops are structural recursion or functions with a termination proof. The search of \<open>findPrimeGreaterThan\<close> can fail to end and then
  is \<open>Loop\<close>. The loops of \<open>NC3_get_vara\<close> and \<open>NC3_put_vara\<close> run on fuel, \<open>vara_fuel\<close>: one more than the number of coordinates of the outer
  dimensions; \<open>vara_loop_visits\<close> and the theorems about rectangles show that it is enough. Likewise \<open>vars_fuel\<close>, one more than the number of
  elements, for strided and mapped access, as long as \<open>start + count * stride\<close> fits 64 bits.

  \<^bold>\<open>Not modelled.\<close> Opening, creating and closing disk files in \<open>posixio.c\<close>, the drivers \<open>mmapio.c\<close> and \<open>ffio.c\<close>, netCDF-4, HDF4, PnetCDF, ESDM, DAP, which are
  clients of other libraries, and the programs \<open>ncgen\<close> and \<open>ncdump\<close>.
\<close>

end
